(* ===== verification/Prelude.thy ===== *)
theory Prelude
  imports Main "HOL-Library.Word" "HOL-Library.Char_ord" "HOL-Library.List_Lexorder"
    "HOL-Library.Product_Lexorder" "HOL-Library.AList"
begin

text \<open>
  Shared vocabulary of the development: machine integers, Go errors as values, the parts of
  Go's standard library the program uses on strings and numbers (\<open>strings\<close>,
  \<open>strconv\<close>, \<open>encoding/binary\<close>, \<open>unicode/utf8\<close>), and the lemmas about them
  that several components share. A Go \<open>string\<close> is a sequence of bytes, so it is an
  Isabelle \<open>string\<close> (a \<open>char\<close> is one byte). A Go \<open>map\<close> is an association
  list with distinct keys: its order stands for the iteration order, which Go leaves open and
  which every theorem therefore leaves open too.
\<close>

named_theorems result_simps \<open>unfolding of result values and error plumbing\<close>
named_theorems be_simps \<open>big-endian bytes and their numeric reading\<close>

section \<open>Machine integers\<close>

type_synonym byte = "8 word"
type_synonym u16 = "16 word"
type_synonym u32 = "32 word"

section \<open>Errors\<close>

datatype errno = ENOENT | EEXIST | EINVAL | EBUSY

text \<open>
  The error values of the program. \<open>Msg\<close> is \<open>errors.New\<close> or a \<open>fmt.Errorf\<close>
  without \<open>%w\<close> (the text names the site), \<open>Wrap\<close> is \<open>fmt.Errorf\<close> with
  \<open>%w\<close>, \<open>Joined\<close> is \<open>errors.Join\<close>. The others are sentinels that the program
  tests with \<open>errors.Is\<close>. \<open>GoPanic\<close> marks a run-time panic of the standard library.
\<close>

datatype error =
    Msg string
  | Wrap string error
  | Joined "error list"
  | Errno errno
  | ErrNoRows
  | ErrTxDone
  | ErrNotFound
  | SqliteBusy
  | SqliteOther string
  | ErrContainerDeleted
  | ErrCanceled
  | ErrDeadline
  | GoPanic string

type_synonym 'a result = "error + 'a"

fun errors_is :: "error \<Rightarrow> error \<Rightarrow> bool" where
  "errors_is (Wrap m e) t = (Wrap m e = t \<or> errors_is e t)"
| "errors_is (Joined es) t = (Joined es = t \<or> list_ex (\<lambda>e. errors_is e t) es)"
| "errors_is e t = (e = t)"

text \<open>\<open>errors.Join\<close> drops nil values and is nil when nothing is left.\<close>

definition errors_join :: "error option list \<Rightarrow> error option" where
  "errors_join es =
     (case List.map_filter id es of [] \<Rightarrow> None | x # xs \<Rightarrow> Some (Joined (x # xs)))"

lemma errors_join_None_iff [result_simps]:
  "errors_join es = None \<longleftrightarrow> (\<forall>e \<in> set es. e = None)"
  by (induction es) (auto simp: errors_join_def map_filter_simps split: option.splits)

definition wrap_err :: "string \<Rightarrow> 'a result \<Rightarrow> 'a result" where
  "wrap_err m r = (case r of Inl e \<Rightarrow> Inl (Wrap m e) | Inr a \<Rightarrow> Inr a)"

lemma wrap_err_simps [simp]:
  "wrap_err m (Inl e) = Inl (Wrap m e)"
  "wrap_err m (Inr a) = Inr a"
  by (simp_all add: wrap_err_def)

lemma wrap_err_Inr_iff [simp]: "wrap_err m r = Inr a \<longleftrightarrow> r = Inr a"
  by (cases r) auto

text \<open>The first error of a loop that stops at it, as in \<open>for ... { if err := f(x); err != nil
  { return err } }\<close>.\<close>

fun first_error :: "('a \<Rightarrow> error option) \<Rightarrow> 'a list \<Rightarrow> error option" where
  "first_error f [] = None"
| "first_error f (x # xs) = (case f x of Some e \<Rightarrow> Some e | None \<Rightarrow> first_error f xs)"

lemma first_error_None_iff [simp]: "first_error f xs = None \<longleftrightarrow> (\<forall>x \<in> set xs. f x = None)"
  by (induction xs) (auto split: option.splits)

lemma first_error_Some: "first_error f xs = Some e \<Longrightarrow> \<exists>x \<in> set xs. f x = Some e"
  by (induction xs) (auto split: option.splits)

section \<open>Nil and empty slices\<close>

text \<open>A Go slice whose nilness the program inspects is an \<open>option\<close>: \<open>None\<close> is nil.\<close>

definition slice_elems :: "'a list option \<Rightarrow> 'a list" where
  "slice_elems xs = (case xs of None \<Rightarrow> [] | Some l \<Rightarrow> l)"

lemma slice_elems_simps [simp]:
  "slice_elems None = []" "slice_elems (Some l) = l"
  by (simp_all add: slice_elems_def)

section \<open>Strings\<close>

definition HasPrefix :: "string \<Rightarrow> string \<Rightarrow> bool" where
  "HasPrefix s p \<longleftrightarrow> take (length p) s = p"

definition HasSuffix :: "string \<Rightarrow> string \<Rightarrow> bool" where
  "HasSuffix s p \<longleftrightarrow> length p \<le> length s \<and> drop (length s - length p) s = p"

definition TrimPrefix :: "string \<Rightarrow> string \<Rightarrow> string" where
  "TrimPrefix s p = (if HasPrefix s p then drop (length p) s else s)"

lemma HasPrefix_append [simp]: "HasPrefix (p @ s) p"
  by (simp add: HasPrefix_def)

lemma HasPrefixD: "HasPrefix s p \<Longrightarrow> s = p @ drop (length p) s"
  by (metis HasPrefix_def append_take_drop_id)

lemma TrimPrefix_append [simp]: "TrimPrefix (p @ s) p = s"
  by (simp add: TrimPrefix_def)

text \<open>\<open>strings.Split\<close> at a one-byte separator.\<close>

fun split_at_char :: "char \<Rightarrow> string \<Rightarrow> string list" where
  "split_at_char c [] = [[]]"
| "split_at_char c (x # xs) =
     (if x = c then [] # split_at_char c xs
      else (case split_at_char c xs of [] \<Rightarrow> [[x]] | w # ws \<Rightarrow> (x # w) # ws))"

lemma split_at_char_nonempty [simp]: "split_at_char c s \<noteq> []"
  by (induction s) (auto split: list.splits)

text \<open>
  The UTF-8 encodings of the code points \<open>unicode.IsSpace\<close> accepts; \<open>strings.TrimSpace\<close>
  strips them from both ends.
\<close>

definition space_runes :: "string list" where
  "space_runes =
     [[CHR 0x09], [CHR 0x0A], [CHR 0x0B], [CHR 0x0C], [CHR 0x0D], [CHR 0x20],
      [CHR 0xC2, CHR 0x85], [CHR 0xC2, CHR 0xA0], [CHR 0xE1, CHR 0x9A, CHR 0x80],
      [CHR 0xE2, CHR 0x80, CHR 0x80], [CHR 0xE2, CHR 0x80, CHR 0x81],
      [CHR 0xE2, CHR 0x80, CHR 0x82], [CHR 0xE2, CHR 0x80, CHR 0x83],
      [CHR 0xE2, CHR 0x80, CHR 0x84], [CHR 0xE2, CHR 0x80, CHR 0x85],
      [CHR 0xE2, CHR 0x80, CHR 0x86], [CHR 0xE2, CHR 0x80, CHR 0x87],
      [CHR 0xE2, CHR 0x80, CHR 0x88], [CHR 0xE2, CHR 0x80, CHR 0x89],
      [CHR 0xE2, CHR 0x80, CHR 0x8A], [CHR 0xE2, CHR 0x80, CHR 0xA8],
      [CHR 0xE2, CHR 0x80, CHR 0xA9], [CHR 0xE2, CHR 0x80, CHR 0xAF],
      [CHR 0xE2, CHR 0x81, CHR 0x9F], [CHR 0xE3, CHR 0x80, CHR 0x80]]"

lemma space_runes_nonempty: "w \<in> set space_runes \<Longrightarrow> w \<noteq> []"
  by (auto simp: space_runes_def)

function strip_front :: "string list \<Rightarrow> string \<Rightarrow> string" where
  "strip_front ws s =
     (case find (\<lambda>w. w \<noteq> [] \<and> HasPrefix s w) ws of
        None \<Rightarrow> s
      | Some w \<Rightarrow> strip_front ws (drop (length w) s))"
  by pat_completeness auto
termination
proof (relation "measure (\<lambda>(ws, s). length s)", goal_cases)
  case 1
  then show ?case by simp
next
  case (2 ws s w)
  then have "w \<noteq> [] \<and> HasPrefix s w"
    by (metis (mono_tags, lifting) find_Some_iff)
  then show ?case by (auto simp: HasPrefix_def intro!: diff_less)
qed

declare strip_front.simps [simp del]

definition TrimSpace :: "string \<Rightarrow> string" where
  "TrimSpace s =
     rev (strip_front (map rev space_runes) (rev (strip_front space_runes s)))"

section \<open>Decimal numbers\<close>

definition digit_char :: "nat \<Rightarrow> char" where
  "digit_char d = char_of (48 + d)"

definition is_digit :: "char \<Rightarrow> bool" where
  "is_digit c \<longleftrightarrow> 48 \<le> (of_char c :: nat) \<and> (of_char c :: nat) \<le> 57"

definition digit_value :: "char \<Rightarrow> nat" where
  "digit_value c = of_char c - 48"

text \<open>\<open>strconv.Itoa\<close> and the verb \<open>%d\<close> on a non-negative number.\<close>

fun Itoa :: "nat \<Rightarrow> string" where
  "Itoa n = (if n div 10 = 0 then [digit_char n] else Itoa (n div 10) @ [digit_char (n mod 10)])"

declare Itoa.simps [simp del]

text \<open>
  \<open>strconv.ParseUint(s, 10, bits)\<close>: the empty string and any byte that is not a digit are
  syntax errors, and a value above \<open>2 ^ bits - 1\<close> is a range error as soon as the scan
  reaches it.
\<close>

fun parse_digits :: "nat \<Rightarrow> nat \<Rightarrow> string \<Rightarrow> nat result" where
  "parse_digits maxv n [] = Inr n"
| "parse_digits maxv n (c # cs) =
     (if \<not> is_digit c then Inl (Msg ''invalid syntax'')
      else if n * 10 + digit_value c > maxv then Inl (Msg ''value out of range'')
      else parse_digits maxv (n * 10 + digit_value c) cs)"

definition ParseUint :: "string \<Rightarrow> nat \<Rightarrow> nat result" where
  "ParseUint s bits =
     (if s = [] then Inl (Msg ''invalid syntax'') else parse_digits (2 ^ bits - 1) 0 s)"

lemma of_char_digit_char [simp]: "d < 10 \<Longrightarrow> of_char (digit_char d) = (48 + d :: nat)"
  by (simp add: digit_char_def)

lemma is_digit_digit_char [simp]: "d < 10 \<Longrightarrow> is_digit (digit_char d)"
  by (simp add: is_digit_def)

lemma digit_value_digit_char [simp]: "d < 10 \<Longrightarrow> digit_value (digit_char d) = d"
  by (simp add: digit_value_def)

lemma Itoa_nonempty [simp]: "Itoa n \<noteq> []"
  by (subst Itoa.simps) auto

lemma Itoa_digits: "c \<in> set (Itoa n) \<Longrightarrow> is_digit c"
proof (induction n rule: Itoa.induct)
  case (1 n)
  show ?case
  proof (cases "n div 10 = 0")
    case True
    then have "n < 10" by simp
    with True "1.prems" show ?thesis by (simp add: Itoa.simps [of n])
  next
    case False
    with 1 show ?thesis by (auto simp: Itoa.simps [of n])
  qed
qed

lemma parse_digits_append:
  "parse_digits maxv n (s @ t) =
     (case parse_digits maxv n s of Inl e \<Rightarrow> Inl e | Inr m \<Rightarrow> parse_digits maxv m t)"
  by (induction s arbitrary: n) auto

lemma parse_digits_Itoa: "n \<le> maxv \<Longrightarrow> parse_digits maxv 0 (Itoa n) = Inr n"
proof (induction n rule: Itoa.induct)
  case (1 n)
  show ?case
  proof (cases "n div 10 = 0")
    case True
    then have "n < 10" by simp
    with True "1.prems" show ?thesis by (simp add: Itoa.simps [of n])
  next
    case False
    have "n div 10 \<le> maxv" using "1.prems" by (meson div_le_dividend le_trans)
    with False "1.IH" have "parse_digits maxv 0 (Itoa (n div 10)) = Inr (n div 10)" by simp
    with False "1.prems" show ?thesis
      by (simp add: Itoa.simps [of n] parse_digits_append)
  qed
qed

lemma ParseUint_Itoa: "n < 2 ^ bits \<Longrightarrow> ParseUint (Itoa n) bits = Inr n"
  by (simp add: ParseUint_def parse_digits_Itoa)

lemma parse_digits_bound: "parse_digits maxv n s = Inr m \<Longrightarrow> n \<le> maxv \<Longrightarrow> m \<le> maxv"
  by (induction s arbitrary: n) (auto split: if_splits)

lemma ParseUint_bound: "ParseUint s bits = Inr m \<Longrightarrow> m < 2 ^ bits"
  using parse_digits_bound [of "2 ^ bits - 1" 0 s m]
  by (auto simp: ParseUint_def split: if_splits) (metis One_nat_def Suc_pred le_imp_less_Suc zero_less_numeral zero_less_power)

end
