(* ===== verification/Go_Net.thy ===== *)
theory Go_Net
  imports Prelude
begin

text \<open>
  The parts of Go's \<open>net/netip\<close> and \<open>encoding/binary\<close> the program uses: IP
  addresses with their predicates and conversions, IPv4 text, CIDR text, and big- and
  little-endian bytes. The third-party package \<open>go4.org/netipx\<close> and the IPv6 half of the
  text format are the fields of a record \<open>netipx_lib\<close> that every definition using them
  takes as an argument; \<open>netipx_ok\<close> names what the program relies on.
\<close>

section \<open>Bytes\<close>

definition be16 :: "u16 \<Rightarrow> byte list" where
  "be16 w = [ucast (drop_bit 8 w), ucast w]"

definition be32 :: "u32 \<Rightarrow> byte list" where
  "be32 w = [ucast (drop_bit 24 w), ucast (drop_bit 16 w), ucast (drop_bit 8 w), ucast w]"

definition le32 :: "u32 \<Rightarrow> byte list" where
  "le32 w = rev (be32 w)"

fun be_nat :: "byte list \<Rightarrow> nat" where
  "be_nat [] = 0"
| "be_nat (b # bs) = unat b * 256 ^ length bs + be_nat bs"

lemma length_be [simp]: "length (be16 v) = 2" "length (be32 w) = 4" "length (le32 w) = 4"
  by (simp_all add: be16_def be32_def le32_def)

lemma unat_ucast_byte: "unat (ucast (w :: 'a::len word) :: byte) = unat w mod 256"
  by (simp add: unsigned_ucast_eq take_bit_eq_mod)

lemma unat_drop_bit_div: "unat (drop_bit n (w :: 'a::len word)) = unat w div 2 ^ n"
  by (simp only: unat_drop_bit_eq drop_bit_eq_div [of n "unat w"])

lemma byte_le_255 [simp]: "unat (b :: byte) \<le> 255"
  using unsigned_less [of b, where ?'a = nat] by simp

lemma be_nat_be16 [be_simps]: "be_nat (be16 w) = unat w"
proof -
  have "unat w < 65536" using unsigned_less [of w, where ?'a = nat] by simp
  then show ?thesis by (simp add: be16_def unat_ucast_byte unat_drop_bit_div)
qed

lemma nat_bytes4:
  "n < 4294967296 \<Longrightarrow>
   n div 16777216 mod 256 * 16777216 + (n div 65536 mod 256 * 65536 +
     (n div 256 mod 256 * 256 + n mod 256)) = (n :: nat)"
proof -
  assume n: "n < 4294967296"
  define x y z where "x = n div 256" and "y = x div 256" and "z = y div 256"
  define r0 r1 r2 where "r0 = n mod 256" and "r1 = x mod 256" and "r2 = y mod 256"
  have eqs: "n = x * 256 + r0" "x = y * 256 + r1" "y = z * 256 + r2"
    by (simp_all add: x_def y_def z_def r0_def r1_def r2_def)
  have "n div 65536 = y" "n div 16777216 = z"
    by (simp_all add: x_def y_def z_def div_mult2_eq [symmetric])
  moreover have "z < 256" using n by (simp add: x_def y_def z_def div_mult2_eq [symmetric])
  moreover have "z * 16777216 + (r2 * 65536 + (r1 * 256 + r0)) = n" using eqs by simp
  ultimately show ?thesis by (simp add: x_def [symmetric] r0_def r1_def r2_def)
qed

lemma be_nat_be32 [be_simps]: "be_nat (be32 w) = unat w"
proof -
  have "unat w < 4294967296" using unsigned_less [of w, where ?'a = nat] by simp
  then show ?thesis using nat_bytes4 [of "unat w"]
    by (simp add: be32_def unat_ucast_byte unat_drop_bit_div)
qed

lemma be_nat_bound: "be_nat bs < 256 ^ length bs"
proof (induction bs)
  case Nil
  then show ?case by simp
next
  case (Cons b bs)
  have "unat b * 256 ^ length bs \<le> 255 * 256 ^ length bs"
    by (intro mult_le_mono1 byte_le_255)
  with Cons.IH have "unat b * 256 ^ length bs + be_nat bs < 255 * 256 ^ length bs + 256 ^ length bs"
    by (intro add_le_less_mono)
  then show ?case by simp
qed

lemma be_nat_inj: "length as = length bs \<Longrightarrow> be_nat as = be_nat bs \<Longrightarrow> as = bs"
proof (induction as bs rule: list_induct2)
  case Nil
  then show ?case by simp
next
  case (Cons a as b bs)
  let ?m = "256 ^ length as"
  have eq: "unat a * ?m + be_nat as = unat b * ?m + be_nat bs"
    using Cons.prems Cons.hyps by simp
  have "be_nat as < ?m" and "be_nat bs < ?m"
    using be_nat_bound [of as] be_nat_bound [of bs] Cons.hyps by simp_all
  then have "(unat a * ?m + be_nat as) div ?m = unat a" "(unat a * ?m + be_nat as) mod ?m = be_nat as"
    "(unat b * ?m + be_nat bs) div ?m = unat b" "(unat b * ?m + be_nat bs) mod ?m = be_nat bs"
    by simp_all
  with eq have "unat a = unat b" and "be_nat as = be_nat bs" by simp_all
  with Cons.IH show ?case by (simp add: word_unat_eq_iff)
qed

lemma be16_inj [simp]: "be16 v = be16 w \<longleftrightarrow> v = w"
  by (metis be_nat_be16 word_unat_eq_iff)

lemma be32_inj [simp]: "be32 v = be32 w \<longleftrightarrow> v = w"
  by (metis be_nat_be32 word_unat_eq_iff)

section \<open>IP addresses\<close>

text \<open>\<open>netip.Addr\<close>: the zero value, an IPv4 address, or an IPv6 address with its zone.\<close>

datatype netip_addr = AddrZero | Addr4 u32 | Addr6 "128 word" string

fun addr_IsValid :: "netip_addr \<Rightarrow> bool" where
  "addr_IsValid AddrZero = False"
| "addr_IsValid _ = True"

fun addr_Is4 :: "netip_addr \<Rightarrow> bool" where
  "addr_Is4 (Addr4 _) = True"
| "addr_Is4 _ = False"

fun addr_Is6 :: "netip_addr \<Rightarrow> bool" where
  "addr_Is6 (Addr6 _ _) = True"
| "addr_Is6 _ = False"

fun addr_IsUnspecified :: "netip_addr \<Rightarrow> bool" where
  "addr_IsUnspecified (Addr4 w) = (w = 0)"
| "addr_IsUnspecified (Addr6 w z) = (w = 0 \<and> z = [])"
| "addr_IsUnspecified AddrZero = False"

text \<open>\<open>As4\<close> also accepts an IPv4-mapped IPv6 address and panics on anything else.\<close>

fun addr_As4 :: "netip_addr \<Rightarrow> byte list result" where
  "addr_As4 (Addr4 w) = Inr (be32 w)"
| "addr_As4 (Addr6 w z) =
     (if drop_bit 32 w = 0xFFFF then Inr (be32 (ucast w))
      else Inl (GoPanic ''As4 called on IPv6 address''))"
| "addr_As4 AddrZero = Inl (GoPanic ''As4 called on IP zero value'')"

lemma addr_Is4_iff: "addr_Is4 a \<longleftrightarrow> (\<exists>w. a = Addr4 w)"
  by (cases a) auto

lemma addr_Is4_valid: "addr_Is4 a \<Longrightarrow> addr_IsValid a"
  by (cases a) auto

section \<open>Text of IPv4 addresses and prefixes\<close>

text \<open>
  The scan of \<open>netip.parseIPv4\<close>: the octet read so far, how many digits it has, and the
  finished octets. A dot needs a digit before it and something after it; an octet has no leading
  zero and is at most 255.
\<close>

fun scan_ipv4 :: "nat \<Rightarrow> nat \<Rightarrow> nat list \<Rightarrow> string \<Rightarrow> nat list result" where
  "scan_ipv4 val digLen fs [] =
     (if length fs < 3 then Inl (Msg ''IPv4 address too short'') else Inr (fs @ [val]))"
| "scan_ipv4 val digLen fs (c # cs) =
     (if is_digit c then
        (if digLen = 1 \<and> val = 0 then Inl (Msg ''IPv4 field has octet with leading zero'')
         else if val * 10 + digit_value c > 255 then Inl (Msg ''IPv4 field has value >255'')
         else scan_ipv4 (val * 10 + digit_value c) (digLen + 1) fs cs)
      else if c = CHR ''.'' then
        (if digLen = 0 \<or> cs = [] then Inl (Msg ''IPv4 field must have at least one digit'')
         else if length fs = 3 then Inl (Msg ''IPv4 address too long'')
         else scan_ipv4 0 0 (fs @ [val]) cs)
      else Inl (Msg ''unexpected character''))"

definition octets_word :: "nat list \<Rightarrow> u32" where
  "octets_word fs = of_nat (foldl (\<lambda>acc f. acc * 256 + f) 0 fs)"

definition parseIPv4 :: "string \<Rightarrow> netip_addr result" where
  "parseIPv4 s =
     (case scan_ipv4 0 0 [] s of Inl e \<Rightarrow> Inl e | Inr fs \<Rightarrow> Inr (Addr4 (octets_word fs)))"

definition ipv4_text :: "u32 \<Rightarrow> string" where
  "ipv4_text w =
     (case map (Itoa \<circ> unat) (be32 w) of
        [a, b, c, d] \<Rightarrow> a @ ''.'' @ b @ ''.'' @ c @ ''.'' @ d
      | _ \<Rightarrow> [])"

record ip_range =
  ipr_From :: netip_addr
  ipr_To :: netip_addr

definition zero_range :: ip_range where
  "zero_range = \<lparr>ipr_From = AddrZero, ipr_To = AddrZero\<rparr>"

text \<open>
  What the program uses of \<open>go4.org/netipx\<close> and of the IPv6 text format: range text in
  both directions, range validity, the range of a prefix, and IPv6 text in both directions.
\<close>

record netipx_lib =
  parseIPv6 :: "string \<Rightarrow> netip_addr result"
  ipv6_text :: "netip_addr \<Rightarrow> string"
  IPRange_UnmarshalText :: "string \<Rightarrow> ip_range result"
  IPRange_MarshalText :: "ip_range \<Rightarrow> string"
  IPRange_IsValid :: "ip_range \<Rightarrow> bool"
  RangeOfPrefix :: "netip_addr \<Rightarrow> nat \<Rightarrow> ip_range"

text \<open>The first of \<open>.\<close>, \<open>:\<close>, \<open>%\<close> decides the family, as in \<open>netip.ParseAddr\<close>.\<close>

definition ParseAddr :: "netipx_lib \<Rightarrow> string \<Rightarrow> netip_addr result" where
  "ParseAddr L s =
     (case find (\<lambda>c. c \<in> set ''.:%'') s of
        None \<Rightarrow> Inl (Msg ''unable to parse IP'')
      | Some c \<Rightarrow>
          if c = CHR ''.'' then parseIPv4 s
          else if c = CHR '':'' then parseIPv6 L s
          else Inl (Msg ''missing IPv6 address''))"

definition Addr_UnmarshalText :: "netipx_lib \<Rightarrow> string \<Rightarrow> netip_addr result" where
  "Addr_UnmarshalText L s = (if s = [] then Inr AddrZero else ParseAddr L s)"

fun Addr_MarshalText :: "netipx_lib \<Rightarrow> netip_addr \<Rightarrow> string" where
  "Addr_MarshalText L AddrZero = []"
| "Addr_MarshalText L (Addr4 w) = ipv4_text w"
| "Addr_MarshalText L (Addr6 w z) = ipv6_text L (Addr6 w z)"

text \<open>
  \<open>netip.ParsePrefix\<close> (\<open>Prefix.UnmarshalText\<close> on a text that holds a slash): the address
  before the last slash, without a zone, and a bit count without sign or leading zero that fits
  the family.
\<close>

fun addr_zone :: "netip_addr \<Rightarrow> string" where
  "addr_zone (Addr6 _ z) = z"
| "addr_zone _ = []"

definition after_last_slash :: "string \<Rightarrow> string" where
  "after_last_slash s = rev (takeWhile (\<lambda>c. c \<noteq> CHR ''/'') (rev s))"

definition before_last_slash :: "string \<Rightarrow> string" where
  "before_last_slash s = take (length s - (length (after_last_slash s) + 1)) s"

definition Prefix_UnmarshalText :: "netipx_lib \<Rightarrow> string \<Rightarrow> (netip_addr \<times> nat) result" where
  "Prefix_UnmarshalText L s =
     (if CHR ''/'' \<notin> set s then Inl (Msg ''no slash in prefix'')
      else (case ParseAddr L (before_last_slash s) of
          Inl e \<Rightarrow> Inl e
        | Inr ip \<Rightarrow>
            if addr_zone ip \<noteq> [] then Inl (Msg ''IPv6 zones cannot be present in a prefix'')
            else (let bits = after_last_slash s in
              if length bits > 1 \<and> (\<not> is_digit (hd bits) \<or> hd bits = CHR ''0'')
              then Inl (Msg ''bad bits after slash'')
              else (case ParseUint bits 63 of
                  Inl e \<Rightarrow> Inl (Msg ''bad bits after slash'')
                | Inr n \<Rightarrow>
                    if n > (if addr_Is6 ip then 128 else 32)
                    then Inl (Msg ''prefix length out of range'')
                    else Inr (ip, n)))))"

text \<open>
  What the program relies on: IPv6 text never yields an IPv4 address; the range of an IPv4 prefix
  is a valid IPv4 range; a parsed range is valid; an IPv4 range is valid exactly if its ends are
  in order; a valid IPv4 range survives printing and parsing, and its text is recognisable as a
  range (it has a dash and no slash).
\<close>

definition range4 :: "ip_range \<Rightarrow> bool" where
  "range4 r = (case (ipr_From r, ipr_To r) of (Addr4 a, Addr4 b) \<Rightarrow> a \<le> b | _ \<Rightarrow> False)"

definition netipx_ok :: "netipx_lib \<Rightarrow> bool" where
  "netipx_ok L \<longleftrightarrow>
     (\<forall>s a. parseIPv6 L s = Inr a \<longrightarrow> \<not> addr_Is4 a) \<and>
     (\<forall>w n. n \<le> 32 \<longrightarrow> range4 (RangeOfPrefix L (Addr4 w) n)) \<and>
     (\<forall>s r. IPRange_UnmarshalText L s = Inr r \<longrightarrow> r = zero_range \<or> IPRange_IsValid L r) \<and>
     (\<forall>r. addr_Is4 (ipr_From r) \<longrightarrow> addr_Is4 (ipr_To r) \<longrightarrow> IPRange_IsValid L r = range4 r) \<and>
     \<not> IPRange_IsValid L zero_range \<and>
     (\<forall>r. range4 r \<longrightarrow> IPRange_UnmarshalText L (IPRange_MarshalText L r) = Inr r \<and>
        CHR ''-'' \<in> set (IPRange_MarshalText L r) \<and> CHR ''/'' \<notin> set (IPRange_MarshalText L r))"

lemma range4_iff: "range4 r \<longleftrightarrow> (\<exists>a b. ipr_From r = Addr4 a \<and> ipr_To r = Addr4 b \<and> a \<le> b)"
  by (auto simp: range4_def split: netip_addr.splits)

section \<open>Dotted text round trip\<close>

lemma Itoa_small: "n < 10 \<Longrightarrow> Itoa n = [digit_char n]"
  by (simp add: Itoa.simps)

lemma Itoa_two: "10 \<le> n \<Longrightarrow> n < 100 \<Longrightarrow> Itoa n = [digit_char (n div 10), digit_char (n mod 10)]"
proof -
  assume "10 \<le> n" "n < 100"
  then have "n div 10 \<noteq> 0" "n div 10 < 10" by auto
  then show ?thesis by (simp add: Itoa.simps [of n] Itoa_small)
qed

lemma Itoa_three:
  assumes "100 \<le> n" "n < 1000"
  shows "Itoa n = [digit_char (n div 100), digit_char (n div 10 mod 10), digit_char (n mod 10)]"
proof -
  from assms have "n div 10 \<noteq> 0" "10 \<le> n div 10" "n div 10 < 100" by auto
  then show ?thesis by (simp add: Itoa.simps [of n] Itoa_two div_mult2_eq [symmetric])
qed

lemma scan_ipv4_digit:
  "d < 10 \<Longrightarrow> \<not> (digLen = 1 \<and> val = 0) \<Longrightarrow> val * 10 + d \<le> 255 \<Longrightarrow>
   scan_ipv4 val digLen fs (digit_char d # cs) = scan_ipv4 (val * 10 + d) (digLen + 1) fs cs"
  by auto

lemma scan_ipv4_Itoa:
  assumes "n \<le> 255"
  shows "\<exists>k > 0. scan_ipv4 0 0 fs (Itoa n @ rest) = scan_ipv4 n k fs rest"
proof -
  consider "n < 10" | "10 \<le> n" "n < 100" | "100 \<le> n" by linarith
  then show ?thesis
  proof cases
    case 1
    then show ?thesis using assms by (intro exI [of _ 1]) (simp add: Itoa_small)
  next
    case 2
    then have d: "n div 10 < 10" "n div 10 \<noteq> 0" by auto
    have "scan_ipv4 0 0 fs (Itoa n @ rest) = scan_ipv4 n 2 fs rest"
      using 2 d assms by (simp add: Itoa_two scan_ipv4_digit numeral_2_eq_2 del: scan_ipv4.simps)
    then show ?thesis by (intro exI [of _ 2]) simp
  next
    case 3
    let ?a = "n div 100" and ?b = "n div 10 mod 10"
    have d: "?a < 10" "?a \<noteq> 0" "n < 1000" using assms 3 by auto
    have ab: "?a * 10 + ?b = n div 10"
      using div_mult_mod_eq [of "n div 10" 10] by (simp add: div_mult2_eq [symmetric])
    have "scan_ipv4 0 0 fs (Itoa n @ rest) = scan_ipv4 0 0 fs
        (digit_char ?a # digit_char ?b # digit_char (n mod 10) # rest)"
      using 3 d by (simp add: Itoa_three)
    also have "\<dots> = scan_ipv4 ?a 1 fs (digit_char ?b # digit_char (n mod 10) # rest)"
      using d by (subst scan_ipv4_digit) auto
    also have "\<dots> = scan_ipv4 (n div 10) 2 fs (digit_char (n mod 10) # rest)"
      using scan_ipv4_digit [of ?b 1 ?a fs "digit_char (n mod 10) # rest"] d ab assms
      by (simp add: numeral_2_eq_2 del: scan_ipv4.simps)
    also have "\<dots> = scan_ipv4 n (2 + 1) fs rest"
      using scan_ipv4_digit [of "n mod 10" 2 "n div 10" fs rest] assms by (simp del: scan_ipv4.simps)
    finally show ?thesis by (intro exI [of _ "2 + 1"]) simp
  qed
qed

lemma is_digit_not_special [simp]:
  "\<not> is_digit CHR ''/''" "\<not> is_digit CHR ''-''" "\<not> is_digit CHR '':''" "\<not> is_digit CHR ''%''"
  "\<not> is_digit CHR ''.''"
  by (simp_all add: is_digit_def)

lemma scan_ipv4_octet_dot:
  "n \<le> 255 \<Longrightarrow> length fs < 3 \<Longrightarrow> rest \<noteq> [] \<Longrightarrow>
   scan_ipv4 0 0 fs (Itoa n @ CHR ''.'' # rest) = scan_ipv4 0 0 (fs @ [n]) rest"
  using scan_ipv4_Itoa [of n fs "CHR ''.'' # rest"] by auto

lemma scan_ipv4_octet_end:
  "n \<le> 255 \<Longrightarrow> length fs = 3 \<Longrightarrow> scan_ipv4 0 0 fs (Itoa n) = Inr (fs @ [n])"
  using scan_ipv4_Itoa [of n fs "[]"] by auto

lemma scan_ipv4_text:
  "scan_ipv4 0 0 [] (ipv4_text w) = Inr (map unat (be32 w))"
  by (simp add: ipv4_text_def be32_def scan_ipv4_octet_dot scan_ipv4_octet_end)

lemma octets_word_be32: "octets_word (map unat (be32 w)) = w"
proof -
  have "foldl (\<lambda>acc f. acc * 256 + f) 0 (map unat (be32 w)) = be_nat (be32 w)"
    by (simp add: be32_def algebra_simps)
  then show ?thesis by (simp add: octets_word_def be_nat_be32)
qed

lemma parseIPv4_text: "parseIPv4 (ipv4_text w) = Inr (Addr4 w)"
  by (simp add: parseIPv4_def scan_ipv4_text octets_word_be32)

lemma ipv4_text_chars: "c \<in> set (ipv4_text w) \<Longrightarrow> is_digit c \<or> c = CHR ''.''"
  by (auto simp: ipv4_text_def be32_def dest: Itoa_digits)

lemma ipv4_text_dot: "CHR ''.'' \<in> set (ipv4_text w)"
  by (simp add: ipv4_text_def be32_def)

lemma ParseAddr_text: "ParseAddr L (ipv4_text w) = Inr (Addr4 w)"
proof -
  have "\<exists>c. find (\<lambda>c. c \<in> set ''.:%'') (ipv4_text w) = Some c"
    using ipv4_text_dot [of w] find_None_iff [of "\<lambda>c. c \<in> set ''.:%''" "ipv4_text w"]
    by (metis list.set_intros(1) not_None_eq)
  then obtain c where c: "find (\<lambda>c. c \<in> set ''.:%'') (ipv4_text w) = Some c" by blast
  then have "c \<in> set ''.:%''" and "c \<in> set (ipv4_text w)"
    using nth_mem by (force simp: find_Some_iff)+
  then have "c = CHR ''.''"
    using ipv4_text_chars [of c w] by auto
  with c show ?thesis by (simp add: ParseAddr_def parseIPv4_text)
qed

lemma parseIPv4_Is4: "parseIPv4 s = Inr a \<Longrightarrow> addr_Is4 a"
  by (auto simp: parseIPv4_def split: sum.splits)

section \<open>A concrete instance of the library record\<close>

text \<open>
  \<open>netipx_ok\<close> can hold: ranges printed as two dotted addresses around a dash and parsed
  back, prefixes as the block of addresses that share the leading bits. The witnesses of the
  development use this instance.
\<close>

definition ref_range_text :: "ip_range \<Rightarrow> string" where
  "ref_range_text r =
     (case (ipr_From r, ipr_To r) of
        (Addr4 a, Addr4 b) \<Rightarrow> ipv4_text a @ ''-'' @ ipv4_text b
      | _ \<Rightarrow> [])"

definition ref_parse_range :: "string \<Rightarrow> ip_range result" where
  "ref_parse_range s =
     (case split_at_char CHR ''-'' s of
        [x, y] \<Rightarrow>
          (case (parseIPv4 x, parseIPv4 y) of
             (Inr a, Inr b) \<Rightarrow>
               (if range4 \<lparr>ipr_From = a, ipr_To = b\<rparr> then Inr \<lparr>ipr_From = a, ipr_To = b\<rparr>
                else Inl (Msg ''invalid range''))
           | _ \<Rightarrow> Inl (Msg ''invalid address''))
      | _ \<Rightarrow> Inl (Msg ''no hyphen in range''))"

definition ref_prefix_range :: "netip_addr \<Rightarrow> nat \<Rightarrow> ip_range" where
  "ref_prefix_range ip n =
     (case ip of
        Addr4 w \<Rightarrow> \<lparr>ipr_From = Addr4 (push_bit (32 - n) (drop_bit (32 - n) w)),
                     ipr_To = Addr4 (Bit_Operations.or w (mask (32 - n)))\<rparr>
      | _ \<Rightarrow> zero_range)"

definition ref_netipx :: netipx_lib where
  "ref_netipx = \<lparr>parseIPv6 = (\<lambda>_. Inl (Msg ''unsupported'')), ipv6_text = (\<lambda>_. ''::''),
     IPRange_UnmarshalText = ref_parse_range, IPRange_MarshalText = ref_range_text,
     IPRange_IsValid = range4, RangeOfPrefix = ref_prefix_range\<rparr>"

lemma split_at_char_free: "c \<notin> set s \<Longrightarrow> split_at_char c s = [s]"
  by (induction s) auto

lemma split_at_char_two:
  "c \<notin> set s \<Longrightarrow> c \<notin> set t \<Longrightarrow> split_at_char c (s @ c # t) = [s, t]"
  by (induction s) (auto simp: split_at_char_free)

lemma ipv4_text_no_dash: "CHR ''-'' \<notin> set (ipv4_text w)" and
  ipv4_text_no_slash: "CHR ''/'' \<notin> set (ipv4_text w)"
  using ipv4_text_chars [of _ w] by force+

lemma ref_range_roundtrip:
  assumes "range4 r"
  shows "ref_parse_range (ref_range_text r) = Inr r"
proof -
  obtain a b where r: "r = \<lparr>ipr_From = Addr4 a, ipr_To = Addr4 b\<rparr>"
    using assms by (cases r) (auto simp: range4_iff)
  with assms show ?thesis
    by (simp add: ref_parse_range_def ref_range_text_def split_at_char_two ipv4_text_no_dash
        parseIPv4_text)
qed

lemma push_drop_bit_le: "push_bit n (drop_bit n (w :: 'a::len word)) \<le> w"
proof -
  have "unat (push_bit n (drop_bit n w)) = take_bit LENGTH('a) (unat w div 2 ^ n * 2 ^ n)"
    by (simp only: unsigned_push_bit_eq unat_drop_bit_div push_bit_eq_mult [where ?'a = nat])
  also have "\<dots> \<le> unat w div 2 ^ n * 2 ^ n" by (rule take_bit_nat_less_eq_self)
  also have "\<dots> \<le> unat w" by simp
  finally show ?thesis by (simp add: word_le_nat_alt)
qed

lemma le_word_or: "w \<le> Bit_Operations.or w (v :: 'a::len word)"
proof -
  have "w = and w (or w v)" by (simp add: bit_eq_iff bit_simps)
  then show ?thesis by (metis word_and_le1)
qed

lemma ref_netipx_ok: "netipx_ok ref_netipx"
proof -
  have "range4 (ref_prefix_range (Addr4 w) n)" for w n
    using order_trans [OF push_drop_bit_le le_word_or]
    by (simp add: ref_prefix_range_def range4_def)
  moreover have "ref_parse_range s = Inr r \<Longrightarrow> range4 r" for s r
    by (auto simp: ref_parse_range_def split: list.splits sum.splits if_splits)
  moreover have "CHR ''-'' \<in> set (ref_range_text r) \<and> CHR ''/'' \<notin> set (ref_range_text r)"
    if "range4 r" for r
    using that ipv4_text_no_slash by (auto simp: range4_iff ref_range_text_def)
  ultimately show ?thesis
    by (auto simp: netipx_ok_def ref_netipx_def ref_range_roundtrip) (auto simp: range4_def zero_range_def)
qed

end
