(* ===== verification/Config.thy ===== *)
theory Config
  imports Go_Net
begin

text \<open>
  The policy language of \<open>config.go\<close>: the configuration records, the text formats of ports,
  protocols and addresses, validation, and normalisation of \<open>containers\<close> lists. Field
  names carry a short prefix for their struct (\<open>v_\<close> verdict, \<open>r_\<close> ruleConfig,
  \<open>l_\<close> localRules, \<open>e_\<close> externalRules, \<open>m_\<close> mappedPorts, \<open>c_\<close> config).
  The log encoders (\<open>MarshalLogObject\<close> and kin) are not modelled.
\<close>

section \<open>Data\<close>

type_synonym protocol = byte

definition invalidProto :: protocol where "invalidProto = 0"
definition tcp :: protocol where "tcp = 1"
definition udp :: protocol where "udp = 2"

lemmas proto_defs = invalidProto_def tcp_def udp_def

record portInterval =
  pi_min :: u16
  pi_max :: u16

record rulePorts =
  rp_single :: u16
  rp_interval :: portInterval

record addrOrRange =
  aor_addr :: netip_addr
  aor_addrRange :: ip_range

record verdict =
  v_Chain :: string
  v_Queue :: u16
  v_InputEstQueue :: u16
  v_OutputEstQueue :: u16
  v_drop :: bool

record ruleConfig =
  r_LogPrefix :: string
  r_Network :: string
  r_IPs :: "addrOrRange list option"
  r_Container :: string
  r_Containers :: "string list option"
  r_Proto :: protocol
  r_SrcPorts :: "rulePorts list"
  r_DstPorts :: "rulePorts list"
  r_Verdict :: verdict
  r_ResolvedContainerID :: string
  r_ResolvedContainerName :: string
  r_SourceProject :: string
  r_NetworkID :: string
  r_IdentityVersion :: byte
  r_skip :: bool
  r_containerSet :: bool
  r_containersSet :: bool
  r_ipsSet :: bool

record localRules =
  l_Allow :: bool
  l_LogPrefix :: string
  l_Verdict :: verdict

record externalRules =
  e_Allow :: bool
  e_LogPrefix :: string
  e_IPs :: "addrOrRange list option"
  e_Verdict :: verdict

record mappedPorts =
  m_Localhost :: localRules
  m_External :: externalRules

record config =
  c_MappedPorts :: mappedPorts
  c_Output :: "ruleConfig list"

text \<open>The zero values of Go's structs.\<close>

definition zero_verdict :: verdict where
  "zero_verdict = \<lparr>v_Chain = [], v_Queue = 0, v_InputEstQueue = 0, v_OutputEstQueue = 0, v_drop = False\<rparr>"

definition zero_interval :: portInterval where
  "zero_interval = \<lparr>pi_min = 0, pi_max = 0\<rparr>"

definition zero_rule :: ruleConfig where
  "zero_rule = \<lparr>r_LogPrefix = [], r_Network = [], r_IPs = None, r_Container = [], r_Containers = None,
     r_Proto = invalidProto, r_SrcPorts = [], r_DstPorts = [], r_Verdict = zero_verdict,
     r_ResolvedContainerID = [], r_ResolvedContainerName = [], r_SourceProject = [],
     r_NetworkID = [], r_IdentityVersion = 0, r_skip = False, r_containerSet = False,
     r_containersSet = False, r_ipsSet = False\<rparr>"

section \<open>Protocols\<close>

definition protocol_MarshalText :: "protocol \<Rightarrow> string result" where
  "protocol_MarshalText p =
     (if p = invalidProto then Inl (Msg ''invalid protocol'')
      else if p = tcp then Inr ''tcp''
      else if p = udp then Inr ''udp''
      else Inl (GoPanic ''unreachable''))"

definition protocol_UnmarshalText :: "string \<Rightarrow> protocol result" where
  "protocol_UnmarshalText text =
     (if text = ''tcp'' then Inr tcp
      else if text = ''udp'' then Inr udp
      else Inl (Msg ''invalid protocol''))"

definition protocol_String :: "protocol \<Rightarrow> string" where
  "protocol_String p =
     (if p = invalidProto then ''invalid protocol''
      else if p = tcp then ''tcp''
      else if p = udp then ''udp''
      else ''proto('' @ Itoa (unat p) @ '')'')"

lemma protocol_roundtrip:
  "protocol_UnmarshalText text = Inr p \<longleftrightarrow> protocol_MarshalText p = Inr text"
  by (auto simp: protocol_UnmarshalText_def protocol_MarshalText_def proto_defs)

section \<open>Addresses and ranges\<close>

definition aor_of_addr :: "netip_addr \<Rightarrow> addrOrRange" where
  "aor_of_addr a = \<lparr>aor_addr = a, aor_addrRange = zero_range\<rparr>"

definition aor_of_range :: "ip_range \<Rightarrow> addrOrRange" where
  "aor_of_range r = \<lparr>aor_addr = AddrZero, aor_addrRange = r\<rparr>"

definition aor_MarshalText :: "netipx_lib \<Rightarrow> addrOrRange \<Rightarrow> string" where
  "aor_MarshalText L a =
     (if addr_IsValid (aor_addr a) then Addr_MarshalText L (aor_addr a)
      else IPRange_MarshalText L (aor_addrRange a))"

definition aor_UnmarshalText :: "netipx_lib \<Rightarrow> string \<Rightarrow> addrOrRange result" where
  "aor_UnmarshalText L text =
     (if CHR ''/'' \<in> set text then
        (case Prefix_UnmarshalText L text of
           Inl e \<Rightarrow> Inl e
         | Inr (ip, bits) \<Rightarrow>
             if \<not> addr_Is4 ip then Inl (Msg ''IPv6 address is not supported'')
             else Inr (aor_of_range (RangeOfPrefix L ip bits)))
      else if CHR ''-'' \<in> set text then
        (case IPRange_UnmarshalText L text of
           Inl e \<Rightarrow> Inl e
         | Inr r \<Rightarrow>
             if \<not> addr_Is4 (ipr_From r) \<or> \<not> addr_Is4 (ipr_To r)
             then Inl (Msg ''IPv6 address range is not supported'')
             else Inr (aor_of_range r))
      else
        (case Addr_UnmarshalText L text of
           Inl e \<Rightarrow> Inl e
         | Inr a \<Rightarrow>
             if \<not> addr_Is4 a then Inl (Msg ''IPv6 address is not supported'')
             else Inr (aor_of_addr a)))"

definition aor_IsValid :: "netipx_lib \<Rightarrow> addrOrRange \<Rightarrow> bool" where
  "aor_IsValid L a \<longleftrightarrow> addr_IsValid (aor_addr a) \<or> IPRange_IsValid L (aor_addrRange a)"

definition aor_Addr :: "addrOrRange \<Rightarrow> netip_addr option" where
  "aor_Addr a = (if addr_IsValid (aor_addr a) then Some (aor_addr a) else None)"

definition aor_Range :: "netipx_lib \<Rightarrow> addrOrRange \<Rightarrow> (netip_addr \<times> netip_addr) option" where
  "aor_Range L a =
     (if IPRange_IsValid L (aor_addrRange a)
      then Some (ipr_From (aor_addrRange a), ipr_To (aor_addrRange a)) else None)"

text \<open>
  What a configured selector denotes, and the form in which the text format delivers it: a single
  IPv4 address, or a valid IPv4 range.
\<close>

definition aor_wf :: "addrOrRange \<Rightarrow> bool" where
  "aor_wf a \<longleftrightarrow>
     (addr_Is4 (aor_addr a) \<and> aor_addrRange a = zero_range) \<or>
     (aor_addr a = AddrZero \<and> range4 (aor_addrRange a))"

definition aor_covers :: "addrOrRange \<Rightarrow> u32 \<Rightarrow> bool" where
  "aor_covers a w \<longleftrightarrow>
     (case aor_addr a of
        Addr4 x \<Rightarrow> w = x
      | _ \<Rightarrow> (case (ipr_From (aor_addrRange a), ipr_To (aor_addrRange a)) of
          (Addr4 lo, Addr4 hi) \<Rightarrow> lo \<le> w \<and> w \<le> hi
        | _ \<Rightarrow> False))"

lemma aor_wf_cases:
  assumes "aor_wf a"
  obtains (single) w where "a = aor_of_addr (Addr4 w)"
  | (range) lo hi where "a = aor_of_range \<lparr>ipr_From = Addr4 lo, ipr_To = Addr4 hi\<rparr>" "lo \<le> hi"
  using assms
  by (cases a, cases "aor_addrRange a")
    (auto simp: aor_wf_def addr_Is4_iff range4_iff aor_of_addr_def aor_of_range_def)

lemma aor_covers_simps [simp]:
  "aor_covers (aor_of_addr (Addr4 x)) w \<longleftrightarrow> w = x"
  "aor_covers (aor_of_range \<lparr>ipr_From = Addr4 lo, ipr_To = Addr4 hi\<rparr>) w \<longleftrightarrow> lo \<le> w \<and> w \<le> hi"
  by (simp_all add: aor_covers_def aor_of_addr_def aor_of_range_def)

lemma ParseAddr_Prefix_Is6:
  "Prefix_UnmarshalText L text = Inr (Addr4 w, n) \<Longrightarrow> n \<le> 32"
  by (auto simp: Prefix_UnmarshalText_def Let_def split: if_splits sum.splits)

lemma aor_of_addr_wf: "addr_Is4 a \<Longrightarrow> aor_wf (aor_of_addr a) \<and> aor_IsValid L (aor_of_addr a)"
  by (auto simp: aor_wf_def aor_IsValid_def aor_of_addr_def addr_Is4_iff)

lemma aor_of_range_wf:
  "netipx_ok L \<Longrightarrow> range4 r \<Longrightarrow> aor_wf (aor_of_range r) \<and> aor_IsValid L (aor_of_range r)"
  by (auto simp: aor_wf_def aor_IsValid_def aor_of_range_def netipx_ok_def range4_iff)

lemma aor_UnmarshalText_wf:
  assumes "netipx_ok L" and "aor_UnmarshalText L text = Inr a"
  shows "aor_wf a \<and> aor_IsValid L a"
proof -
  consider (prefix) ip n where "Prefix_UnmarshalText L text = Inr (ip, n)" "addr_Is4 ip"
      "a = aor_of_range (RangeOfPrefix L ip n)"
    | (range) r where "IPRange_UnmarshalText L text = Inr r" "addr_Is4 (ipr_From r)"
      "addr_Is4 (ipr_To r)" "a = aor_of_range r"
    | (addr) x where "addr_Is4 x" "a = aor_of_addr x"
    using assms(2) by (auto simp: aor_UnmarshalText_def split: if_splits sum.splits prod.splits)
  then show ?thesis
  proof cases
    case prefix
    then obtain w where "ip = Addr4 w" by (auto simp: addr_Is4_iff)
    with prefix ParseAddr_Prefix_Is6 have "range4 (RangeOfPrefix L ip n)"
      using assms(1) by (auto simp: netipx_ok_def)
    with prefix show ?thesis using aor_of_range_wf [OF assms(1)] by simp
  next
    case range
    then have "IPRange_IsValid L r = range4 r" and "r = zero_range \<or> IPRange_IsValid L r"
      using assms(1) unfolding netipx_ok_def by blast+
    with range have "range4 r" by (auto simp: zero_range_def)
    with range show ?thesis using aor_of_range_wf [OF assms(1)] by simp
  next
    case addr
    then show ?thesis using aor_of_addr_wf by simp
  qed
qed

lemma aor_roundtrip:
  assumes "netipx_ok L" and "aor_wf a"
  shows "aor_UnmarshalText L (aor_MarshalText L a) = Inr a"
  using assms(2)
proof (cases rule: aor_wf_cases)
  case (single w)
  have "CHR ''/'' \<notin> set (ipv4_text w)" "CHR ''-'' \<notin> set (ipv4_text w)" "ipv4_text w \<noteq> []"
    using ipv4_text_chars [of _ w] ipv4_text_dot [of w] by force+
  with single show ?thesis
    by (simp add: aor_UnmarshalText_def aor_MarshalText_def aor_of_addr_def Addr_UnmarshalText_def
        ParseAddr_text)
next
  case (range lo hi)
  let ?r = "\<lparr>ipr_From = Addr4 lo, ipr_To = Addr4 hi\<rparr>"
  have "range4 ?r" using range by (simp add: range4_def)
  with assms(1) have "IPRange_UnmarshalText L (IPRange_MarshalText L ?r) = Inr ?r"
    "CHR ''-'' \<in> set (IPRange_MarshalText L ?r)" "CHR ''/'' \<notin> set (IPRange_MarshalText L ?r)"
    by (auto simp: netipx_ok_def)
  with range show ?thesis
    by (simp add: aor_UnmarshalText_def aor_MarshalText_def aor_of_range_def)
qed

section \<open>Ports\<close>

definition rulePorts_MarshalText :: "rulePorts \<Rightarrow> string" where
  "rulePorts_MarshalText p =
     (if rp_single p \<noteq> 0 then Itoa (unat (rp_single p))
      else Itoa (unat (pi_min (rp_interval p))) @ ''-'' @ Itoa (unat (pi_max (rp_interval p))))"

text \<open>The scan for the dash: the offset of the byte read, and the dash found so far.\<close>

fun scan_port_text :: "nat \<Rightarrow> nat \<Rightarrow> nat option \<Rightarrow> string \<Rightarrow> nat option result" where
  "scan_port_text n i idx [] = Inr idx"
| "scan_port_text n i idx (c # cs) =
     (if c \<notin> set ''1234567890-'' then Inl (Msg ''invalid character in port'')
      else if c = CHR ''-'' then
        (if idx \<noteq> None then Inl (Msg ''there can only be one dash if specifying a port interval'')
         else if i = 0 then Inl (Msg ''port interval cannot start with a dash'')
         else if i = n - 1 then Inl (Msg ''port interval cannot end with a dash'')
         else scan_port_text n (i + 1) (Some i) cs)
      else scan_port_text n (i + 1) idx cs)"

definition rulePorts_UnmarshalText :: "string \<Rightarrow> rulePorts result" where
  "rulePorts_UnmarshalText text =
     (if text = [] then Inl (Msg ''port cannot be empty'')
      else (case scan_port_text (length text) 0 None text of
          Inl e \<Rightarrow> Inl e
        | Inr (Some i) \<Rightarrow>
            (case ParseUint (take i text) 16 of
               Inl e \<Rightarrow> Inl (Wrap ''error parsing start of port interval'' e)
             | Inr intervalMin \<Rightarrow>
                 (case ParseUint (drop (i + 1) text) 16 of
                    Inl e \<Rightarrow> Inl (Wrap ''error parsing end of port interval'' e)
                  | Inr intervalMax \<Rightarrow>
                      if intervalMin = 0 \<or> intervalMax = 0
                      then Inl (Msg ''port interval values must be between 1 and 65535'')
                      else if intervalMin > intervalMax
                      then Inl (Msg ''port interval start must not be greater than its end'')
                      else Inr \<lparr>rp_single = 0, rp_interval =
                        \<lparr>pi_min = of_nat intervalMin, pi_max = of_nat intervalMax\<rparr>\<rparr>))
        | Inr None \<Rightarrow>
            (case ParseUint text 16 of
               Inl e \<Rightarrow> Inl (Wrap ''error parsing port'' e)
             | Inr port \<Rightarrow>
                 if port = 0 then Inl (Msg ''port must be between 1 and 65535'')
                 else Inr \<lparr>rp_single = of_nat port, rp_interval = zero_interval\<rparr>)))"

text \<open>A port selector is a single port, or an interval of ports in order; port 0 never occurs.\<close>

definition port_wf :: "rulePorts \<Rightarrow> bool" where
  "port_wf p \<longleftrightarrow>
     (rp_single p \<noteq> 0 \<and> rp_interval p = zero_interval) \<or>
     (rp_single p = 0 \<and> pi_min (rp_interval p) \<noteq> 0 \<and> pi_min (rp_interval p) \<le> pi_max (rp_interval p))"

definition port_covers :: "rulePorts \<Rightarrow> u16 \<Rightarrow> bool" where
  "port_covers p w \<longleftrightarrow>
     (if rp_single p \<noteq> 0 then w = rp_single p
      else pi_min (rp_interval p) \<le> w \<and> w \<le> pi_max (rp_interval p))"

lemma not_dash_digit: "is_digit c \<Longrightarrow> c \<noteq> CHR ''-''"
  by auto

lemma digit_port_char: "is_digit c \<Longrightarrow> c \<in> set ''1234567890-''"
proof -
  assume c: "is_digit c"
  define k where "k = (of_char c :: nat)"
  have "48 \<le> k" "k \<le> 57" using c by (simp_all add: is_digit_def k_def)
  then have "k = 48 \<or> k = 49 \<or> k = 50 \<or> k = 51 \<or> k = 52 \<or> k = 53 \<or> k = 54 \<or> k = 55 \<or>
    k = 56 \<or> k = 57" by presburger
  then consider "k = 48" | "k = 49" | "k = 50" | "k = 51" | "k = 52" | "k = 53" | "k = 54"
    | "k = 55" | "k = 56" | "k = 57" by blast
  moreover have "c = char_of k" by (simp add: k_def)
  ultimately show ?thesis by cases (auto simp: char_of_eq_iff)
qed

lemma scan_port_digits:
  "(\<And>c. c \<in> set s \<Longrightarrow> is_digit c) \<Longrightarrow>
   scan_port_text n i idx (s @ t) = scan_port_text n (i + length s) idx t"
proof (induction s arbitrary: i)
  case Nil
  then show ?case by simp
next
  case (Cons c s)
  have "is_digit c" using Cons.prems by simp
  then have "c \<in> set ''1234567890-''" "c \<noteq> CHR ''-''"
    by (rule digit_port_char, rule not_dash_digit)
  moreover have "scan_port_text n (i + 1) idx (s @ t) = scan_port_text n (i + 1 + length s) idx t"
    using Cons.prems by (intro Cons.IH) simp
  ultimately show ?case by (simp del: set_simps)
qed

lemma scan_port_Itoa: "scan_port_text n 0 None (Itoa k) = Inr None"
  using scan_port_digits [of "Itoa k" n 0 None "[]"] Itoa_digits by simp

lemma scan_port_dash:
  "scan_port_text (length (Itoa a @ ''-'' @ Itoa b)) 0 None (Itoa a @ ''-'' @ Itoa b)
     = Inr (Some (length (Itoa a)))"
  using scan_port_digits [of "Itoa a" "length (Itoa a @ ''-'' @ Itoa b)" 0 None "''-'' @ Itoa b"]
    scan_port_digits [of "Itoa b" "length (Itoa a @ ''-'' @ Itoa b)" "length (Itoa a) + 1"
      "Some (length (Itoa a))" "[]"] Itoa_digits
  by simp

lemma u16_bound: "unat (w :: u16) < 65536"
  using unsigned_less [of w, where ?'a = nat] by simp

lemma ParseUint_Itoa_u16 [simp]: "ParseUint (Itoa (unat (w :: u16))) 16 = Inr (unat w)"
  using u16_bound [of w] by (simp add: ParseUint_Itoa)

lemma port_roundtrip:
  assumes "port_wf p"
  shows "rulePorts_UnmarshalText (rulePorts_MarshalText p) = Inr p"
proof (cases "rp_single p = 0")
  case False
  with assms have "rp_interval p = zero_interval" by (simp add: port_wf_def)
  with False show ?thesis
    by (simp add: rulePorts_UnmarshalText_def rulePorts_MarshalText_def scan_port_Itoa unat_eq_zero)
next
  case True
  let ?a = "pi_min (rp_interval p)" and ?b = "pi_max (rp_interval p)"
  from True assms have ab: "?a \<noteq> 0" "?a \<le> ?b" by (auto simp: port_wf_def)
  then have "?b \<noteq> 0" by auto
  with True ab show ?thesis
    by (simp add: rulePorts_UnmarshalText_def rulePorts_MarshalText_def scan_port_dash [simplified]
        unat_eq_zero word_le_nat_alt)
qed

lemma of_nat_u16_eq_0: "n < 65536 \<Longrightarrow> (of_nat n :: u16) = 0 \<longleftrightarrow> n = 0"
  by (simp add: word_unat_eq_iff unat_of_nat)

lemma port_UnmarshalText_wf:
  assumes "rulePorts_UnmarshalText text = Inr p"
  shows "port_wf p"
proof -
  consider (single) n where "ParseUint text 16 = Inr n" "n \<noteq> 0"
      "p = \<lparr>rp_single = of_nat n, rp_interval = zero_interval\<rparr>"
    | (interval) lo hi s t where "ParseUint s 16 = Inr lo" "ParseUint t 16 = Inr hi"
      "lo \<noteq> 0" "\<not> lo > hi"
      "p = \<lparr>rp_single = 0, rp_interval = \<lparr>pi_min = of_nat lo, pi_max = of_nat hi\<rparr>\<rparr>"
    using assms
    by (auto simp: rulePorts_UnmarshalText_def split: if_splits sum.splits option.splits)
  then show ?thesis
  proof cases
    case single
    then show ?thesis using ParseUint_bound [of "text" 16 n]
      by (simp add: port_wf_def of_nat_u16_eq_0)
  next
    case interval
    then have "lo < 65536" "hi < 65536"
      using ParseUint_bound [of s 16 lo] ParseUint_bound [of t 16 hi] by simp_all
    with interval show ?thesis
      by (simp add: port_wf_def of_nat_u16_eq_0 word_le_nat_alt unat_of_nat)
  qed
qed

section \<open>Validation\<close>

definition validateVerdict :: "verdict \<Rightarrow> error option" where
  "validateVerdict v =
     (if v_Chain v \<noteq> [] then Some (Msg ''chain verdicts are unsupported in this hardened build'')
      else if v_Queue v \<noteq> 0 \<or> v_InputEstQueue v \<noteq> 0 \<or> v_OutputEstQueue v \<noteq> 0
      then Some (Msg ''queue verdicts are unsupported in this hardened build'')
      else None)"

definition hasIPs :: "ruleConfig \<Rightarrow> bool" where
  "hasIPs r \<longleftrightarrow> r_ipsSet r \<or> r_IPs r \<noteq> None"

definition hasContainer :: "ruleConfig \<Rightarrow> bool" where
  "hasContainer r \<longleftrightarrow> r_containerSet r \<or> r_Container r \<noteq> []"

definition hasContainers :: "ruleConfig \<Rightarrow> bool" where
  "hasContainers r \<longleftrightarrow> r_containersSet r \<or> r_Containers r \<noteq> None"

text \<open>The loop over a \<open>containers\<close> list: entry index and the map of names seen.\<close>

fun check_containers :: "nat \<Rightarrow> (string \<rightharpoonup> nat) \<Rightarrow> string list \<Rightarrow> error option" where
  "check_containers i seen [] = None"
| "check_containers i seen (c # cs) =
     (if TrimSpace c = [] then
        Some (Msg (''containers entry #'' @ Itoa i @ '' must not be blank''))
      else (case seen c of
          Some first \<Rightarrow>
            Some (Msg (''containers entry #'' @ Itoa i @ '' duplicates entry #'' @ Itoa first))
        | None \<Rightarrow> check_containers (i + 1) (seen(c \<mapsto> i)) cs))"

definition validateRule :: "ruleConfig \<Rightarrow> error option" where
  "validateRule r =
     (let destinationFields = length (filter id [hasIPs r, hasContainer r, hasContainers r]);
          containersErr =
            (if hasContainers r then
               (if slice_elems (r_Containers r) = []
                then Some (Msg ''containers must contain at least one container'')
                else check_containers 0 Map.empty (slice_elems (r_Containers r)))
             else None)
      in if destinationFields > 1
         then Some (Msg ''ips, container, and containers are mutually exclusive'')
         else if containersErr \<noteq> None then containersErr
         else if hasContainer r \<and> TrimSpace (r_Container r) = []
         then Some (Msg ''container must not be empty'')
         else if hasIPs r \<and> slice_elems (r_IPs r) = []
         then Some (Msg ''ips must contain at least one address'')
         else if slice_elems (r_IPs r) = [] \<and> \<not> hasContainer r \<and> \<not> hasContainers r \<and>
           r_Proto r = invalidProto \<and> r_SrcPorts r = [] \<and> r_DstPorts r = []
         then Some (Msg ''rule is empty'')
         else if r_Network r = [] \<and> (hasContainer r \<or> hasContainers r)
         then Some (Msg ''network must be set when container or containers is set'')
         else if r_SrcPorts r \<noteq> [] \<and> r_Proto r = invalidProto
         then Some (Msg ''proto must be set when src_ports is set'')
         else if r_DstPorts r \<noteq> [] \<and> r_Proto r = invalidProto
         then Some (Msg ''proto must be set when dst_ports is set'')
         else if r_Proto r \<noteq> invalidProto \<and> r_DstPorts r = []
         then Some (Msg ''dst_ports must be set when proto is set'')
         else validateVerdict (r_Verdict r))"

fun validate_rules :: "nat \<Rightarrow> ruleConfig list \<Rightarrow> error option" where
  "validate_rules i [] = None"
| "validate_rules i (r # rs) =
     (case validateRule r of
        Some e \<Rightarrow> Some (Wrap (''output rule #'' @ Itoa i) e)
      | None \<Rightarrow> validate_rules (i + 1) rs)"

definition validateConfig :: "config \<Rightarrow> error option" where
  "validateConfig c =
     (case validateVerdict (l_Verdict (m_Localhost (c_MappedPorts c))) of
        Some e \<Rightarrow> Some (Wrap ''mapped_ports.localhost verdict'' e)
      | None \<Rightarrow>
          (case validateVerdict (e_Verdict (m_External (c_MappedPorts c))) of
             Some e \<Rightarrow> Some (Wrap ''mapped_ports.external verdict'' e)
           | None \<Rightarrow> validate_rules 0 (c_Output c)))"

text \<open>Expansion of one output rule: one singular rule per listed container, in order.\<close>

definition expand_rule :: "ruleConfig \<Rightarrow> ruleConfig list" where
  "expand_rule rule =
     (case r_Containers rule of
        None \<Rightarrow> [rule]
      | Some cs \<Rightarrow> map (\<lambda>c. rule\<lparr>r_Container := c, r_Containers := None, r_containersSet := False\<rparr>) cs)"

definition normalizeConfig :: "config \<Rightarrow> config result" where
  "normalizeConfig c =
     (case validateConfig c of
        Some e \<Rightarrow> Inl e
      | None \<Rightarrow> Inr (c\<lparr>c_Output := concat (map expand_rule (c_Output c))\<rparr>))"

section \<open>What validation accepts\<close>

lemma check_containers_None:
  "check_containers i seen cs = None \<longleftrightarrow>
     (\<forall>c \<in> set cs. TrimSpace c \<noteq> []) \<and> distinct cs \<and> set cs \<inter> dom seen = {}"
  by (induction cs arbitrary: i seen) (auto split: option.splits)

lemma validate_rules_None: "validate_rules i rs = None \<longleftrightarrow> (\<forall>r \<in> set rs. validateRule r = None)"
  by (induction rs arbitrary: i) (auto split: option.splits)

lemma validateVerdict_None:
  "validateVerdict v = None \<longleftrightarrow>
     v_Chain v = [] \<and> v_Queue v = 0 \<and> v_InputEstQueue v = 0 \<and> v_OutputEstQueue v = 0"
  by (auto simp: validateVerdict_def)

text \<open>
  The accepted rules, by cases on the destination selector: at most one selector; a selector is
  never empty, blank or duplicated; named destinations need a network; a protocol comes with
  destination ports and ports with a protocol; only returning or dropping verdicts remain.
\<close>

definition rule_accepted :: "ruleConfig \<Rightarrow> bool" where
  "rule_accepted r \<longleftrightarrow>
     (hasIPs r \<longrightarrow> \<not> hasContainer r \<and> \<not> hasContainers r \<and> slice_elems (r_IPs r) \<noteq> []) \<and>
     (hasContainer r \<longrightarrow> \<not> hasContainers r \<and> TrimSpace (r_Container r) \<noteq> [] \<and> r_Network r \<noteq> []) \<and>
     (hasContainers r \<longrightarrow> slice_elems (r_Containers r) \<noteq> [] \<and> distinct (slice_elems (r_Containers r)) \<and>
        (\<forall>c \<in> set (slice_elems (r_Containers r)). TrimSpace c \<noteq> []) \<and> r_Network r \<noteq> []) \<and>
     (hasIPs r \<or> hasContainer r \<or> hasContainers r \<or> r_Proto r \<noteq> invalidProto) \<and>
     (r_Proto r = invalidProto \<longleftrightarrow> r_DstPorts r = []) \<and>
     (r_SrcPorts r \<noteq> [] \<longrightarrow> r_Proto r \<noteq> invalidProto) \<and>
     validateVerdict (r_Verdict r) = None"

lemma slice_elems_not_has: "\<not> hasIPs r \<Longrightarrow> slice_elems (r_IPs r) = []"
  by (simp add: hasIPs_def)

lemma validateRule_accepts: "validateRule r = None \<longleftrightarrow> rule_accepted r"
  using slice_elems_not_has [of r]
    check_containers_None [of 0 Map.empty "slice_elems (r_Containers r)"]
  by (cases "hasIPs r"; cases "hasContainer r"; cases "hasContainers r";
      cases "check_containers 0 Map.empty (slice_elems (r_Containers r))")
    (auto simp: validateRule_def rule_accepted_def Let_def)

lemma TrimSpace_Nil [simp]: "TrimSpace [] = []"
proof -
  have "strip_front ws [] = []" for ws
    by (subst strip_front.simps)
      (auto simp: HasPrefix_def split: option.splits dest!: find_Some_iff [THEN iffD1])
  then show ?thesis by (simp add: TrimSpace_def)
qed

lemma expand_rule_accepted:
  assumes "rule_accepted r" and "r' \<in> set (expand_rule r)"
  shows "rule_accepted r' \<and> \<not> hasContainers r'"
proof (cases "r_Containers r")
  case None
  with assms have "r' = r" by (simp add: expand_rule_def)
  moreover have "\<not> hasContainers r"
    using assms(1) None by (auto simp: rule_accepted_def)
  ultimately show ?thesis using assms(1) by simp
next
  case (Some cs)
  then have has: "hasContainers r" by (simp add: hasContainers_def)
  with assms(1) have no: "\<not> hasIPs r" "\<not> hasContainer r" by (auto simp: rule_accepted_def)
  obtain c where c: "c \<in> set cs"
    "r' = r\<lparr>r_Container := c, r_Containers := None, r_containersSet := False\<rparr>"
    using assms(2) Some by (auto simp: expand_rule_def)
  have "TrimSpace c \<noteq> []" using assms(1) has Some c(1) by (auto simp: rule_accepted_def)
  then have "c \<noteq> []" by auto
  with c(2) no assms(1) has \<open>TrimSpace c \<noteq> []\<close> show ?thesis
    by (auto simp: rule_accepted_def hasContainers_def hasContainer_def hasIPs_def)
qed

section \<open>Properties\<close>

text \<open>The port text format loses nothing and admits only well-formed ports: a port selector is
  the value of some text exactly if it is a single non-zero port or an interval of non-zero ports in
  order, and exactly these selectors survive printing followed by parsing.\<close>

theorem port_text_format:
  "(rulePorts_UnmarshalText (rulePorts_MarshalText p) = Inr p \<longleftrightarrow> port_wf p) \<and>
   ((\<exists>t. rulePorts_UnmarshalText t = Inr p) \<longleftrightarrow> port_wf p)"
  using port_roundtrip [of p] port_UnmarshalText_wf by blast

text \<open>C8: The address text format: what parsing accepts is exactly a single IPv4 address or a valid
  IPv4 range (IPv6 never gets through), and exactly those survive printing followed by parsing.\<close>

theorem address_text_format:
  assumes "netipx_ok L"
  shows "((\<exists>t. aor_UnmarshalText L t = Inr a) \<longleftrightarrow> aor_wf a) \<and>
    (aor_UnmarshalText L (aor_MarshalText L a) = Inr a \<longleftrightarrow> aor_wf a) \<and>
    (aor_wf a \<longrightarrow> aor_IsValid L a)"
  using assms aor_roundtrip [OF assms] aor_UnmarshalText_wf [OF assms] by blast

theorem address_text_format_witness:
  "aor_UnmarshalText ref_netipx ''10.0.0.1-10.0.0.9'' =
     Inr (aor_of_range \<lparr>ipr_From = Addr4 167772161, ipr_To = Addr4 167772169\<rparr>) \<and>
   aor_wf (aor_of_range \<lparr>ipr_From = Addr4 167772161, ipr_To = Addr4 167772169\<rparr>) \<and>
   aor_IsValid ref_netipx (aor_of_range \<lparr>ipr_From = Addr4 167772161, ipr_To = Addr4 167772169\<rparr>)"
proof -
  have 1: "aor_UnmarshalText ref_netipx ''10.0.0.1-10.0.0.9'' =
     Inr (aor_of_range \<lparr>ipr_From = Addr4 167772161, ipr_To = Addr4 167772169\<rparr>)" (is "_ = Inr ?a")
    by (simp add: aor_UnmarshalText_def ref_netipx_def ref_parse_range_def parseIPv4_def
        is_digit_def digit_value_def octets_word_def range4_def aor_of_range_def)
  with address_text_format [OF ref_netipx_ok, of ?a] show ?thesis by blast
qed

text \<open>The destinations a rule names, in order.\<close>

definition named_destinations :: "ruleConfig \<Rightarrow> string list" where
  "named_destinations r =
     (case r_Containers r of
        Some cs \<Rightarrow> cs
      | None \<Rightarrow> if r_Container r = [] then [] else [r_Container r])"

lemma expand_rule_destinations:
  assumes "rule_accepted r"
  shows "concat (map named_destinations (expand_rule r)) = named_destinations r"
proof (cases "r_Containers r")
  case None
  then show ?thesis by (simp add: expand_rule_def named_destinations_def)
next
  case (Some cs)
  then have "\<forall>c \<in> set cs. c \<noteq> []"
    using assms by (auto simp: rule_accepted_def hasContainers_def)
  then have "concat (map (\<lambda>c. if c = [] then [] else [c]) cs) = cs"
    by (induction cs) auto
  with Some show ?thesis
    by (simp add: expand_rule_def named_destinations_def comp_def cong: if_cong)
qed

lemma expand_all_destinations:
  "\<forall>r \<in> set rs. rule_accepted r \<Longrightarrow>
   concat (map named_destinations (concat (map expand_rule rs))) = concat (map named_destinations rs)"
  by (induction rs) (simp_all add: expand_rule_destinations)

lemma validateConfig_None:
  "validateConfig c = None \<longleftrightarrow>
     validateVerdict (l_Verdict (m_Localhost (c_MappedPorts c))) = None \<and>
     validateVerdict (e_Verdict (m_External (c_MappedPorts c))) = None \<and>
     (\<forall>r \<in> set (c_Output c). rule_accepted r)"
  by (auto simp: validateConfig_def validate_rules_None validateRule_accepts split: option.splits)

lemma normalize_output:
  "normalizeConfig c = Inr c' \<longleftrightarrow>
     validateConfig c = None \<and> c' = c\<lparr>c_Output := concat (map expand_rule (c_Output c))\<rparr>"
  by (auto simp: normalizeConfig_def split: option.splits)

lemma expand_rule_no_containers: "r_Containers r = None \<Longrightarrow> expand_rule r = [r]"
  by (simp add: expand_rule_def)

lemma concat_map_singleton: "(\<And>x. x \<in> set xs \<Longrightarrow> f x = [x]) \<Longrightarrow> concat (map f xs) = xs"
  by (induction xs) auto

text \<open>What an expanded rule shares with the rule it stands for, field by field: everything but the
  three fields that name destinations.\<close>

definition same_but_destination :: "ruleConfig \<Rightarrow> ruleConfig \<Rightarrow> bool" where
  "same_but_destination r r' \<longleftrightarrow>
     r_LogPrefix r' = r_LogPrefix r \<and> r_Network r' = r_Network r \<and> r_IPs r' = r_IPs r \<and>
     r_Proto r' = r_Proto r \<and> r_SrcPorts r' = r_SrcPorts r \<and> r_DstPorts r' = r_DstPorts r \<and>
     r_Verdict r' = r_Verdict r \<and> r_ResolvedContainerID r' = r_ResolvedContainerID r \<and>
     r_ResolvedContainerName r' = r_ResolvedContainerName r \<and> r_SourceProject r' = r_SourceProject r \<and>
     r_NetworkID r' = r_NetworkID r \<and> r_IdentityVersion r' = r_IdentityVersion r \<and>
     r_skip r' = r_skip r \<and> r_containerSet r' = r_containerSet r \<and> r_ipsSet r' = r_ipsSet r"

text \<open>The rules that stand for one rule of the configuration: itself, or one per listed container.\<close>

definition stands_for :: "ruleConfig \<Rightarrow> ruleConfig list \<Rightarrow> bool" where
  "stands_for r rs \<longleftrightarrow>
     (case r_Containers r of
        None \<Rightarrow> rs = [r]
      | Some cs \<Rightarrow> map r_Container rs = cs \<and>
          (\<forall>r' \<in> set rs. same_but_destination r r' \<and> r_Containers r' = None \<and> \<not> r_containersSet r'))"

lemma expand_rule_stands_for: "stands_for r (expand_rule r)"
  by (auto simp: stands_for_def expand_rule_def same_but_destination_def comp_def split: option.splits)

text \<open>C5: Normalisation keeps the policy. The rules of the result are those of the configuration, in
  its order: a rule without a list of containers is itself, and one with a list is replaced by one
  rule per listed container, in the list's order, which names that container through the singular
  field and has every other field of the rule it stands for: log prefix, network, addresses,
  protocol, source and destination ports, verdict and the internal fields. Each of them passes
  validation, the named destinations appear in exactly the order of the configuration, the
  mapped-port policy is unchanged, and normalising again changes nothing.\<close>

theorem normalizeConfig_correct:
  assumes "normalizeConfig c = Inr c'"
  shows "(\<exists>blocks. c_Output c' = concat blocks \<and> list_all2 stands_for (c_Output c) blocks) \<and>
    (\<forall>r \<in> set (c_Output c'). validateRule r = None \<and> r_Containers r = None \<and> \<not> r_containersSet r) \<and>
    concat (map named_destinations (c_Output c')) = concat (map named_destinations (c_Output c)) \<and>
    c_MappedPorts c' = c_MappedPorts c \<and> normalizeConfig c' = Inr c'"
proof -
  have ok: "validateConfig c = None"
    and c': "c' = c\<lparr>c_Output := concat (map expand_rule (c_Output c))\<rparr>"
    using assms by (simp_all add: normalize_output)
  have acc: "\<forall>r \<in> set (c_Output c). rule_accepted r" using ok by (simp add: validateConfig_None)
  then have out: "\<forall>r \<in> set (c_Output c'). rule_accepted r \<and> \<not> hasContainers r"
    using expand_rule_accepted by (fastforce simp: c')
  then have 1: "\<forall>r \<in> set (c_Output c'). validateRule r = None \<and> r_Containers r = None \<and> \<not> r_containersSet r"
    by (auto simp: validateRule_accepts hasContainers_def)
  have 2: "concat (map named_destinations (c_Output c')) = concat (map named_destinations (c_Output c))"
    using acc by (simp add: c' expand_all_destinations)
  have "validateConfig c' = None" using ok out by (simp add: validateConfig_None c')
  moreover have "concat (map expand_rule (c_Output c')) = c_Output c'"
    using 1 by (intro concat_map_singleton) (simp add: expand_rule_no_containers)
  ultimately have "normalizeConfig c' = Inr c'" by (simp add: normalize_output)
  moreover have "list_all2 stands_for (c_Output c) (map expand_rule (c_Output c))"
    by (simp add: list.rel_map expand_rule_stands_for list_all2_refl)
  then have "\<exists>blocks. c_Output c' = concat blocks \<and> list_all2 stands_for (c_Output c) blocks"
    by (intro exI [of _ "map expand_rule (c_Output c)"]) (simp add: c')
  ultimately show ?thesis using 1 2 by (simp add: c')
qed

definition sample_config :: config where
  "sample_config =
     \<lparr>c_MappedPorts =
        \<lparr>m_Localhost = \<lparr>l_Allow = True, l_LogPrefix = [], l_Verdict = zero_verdict\<rparr>,
         m_External = \<lparr>e_Allow = False, e_LogPrefix = [], e_IPs = None, e_Verdict = zero_verdict\<rparr>\<rparr>,
      c_Output =
        [zero_rule\<lparr>r_Network := ''backend'', r_Containers := Some [''db'', ''cache''],
           r_Proto := tcp, r_DstPorts := [\<lparr>rp_single = 443, rp_interval = zero_interval\<rparr>]\<rparr>]\<rparr>"

theorem normalizeConfig_correct_witness:
  "\<exists>c'. normalizeConfig sample_config = Inr c' \<and>
     map (\<lambda>r. (r_Container r, r_Network r, r_Proto r, r_DstPorts r)) (c_Output c') =
       [(''db'', ''backend'', tcp, [\<lparr>rp_single = 443, rp_interval = zero_interval\<rparr>]),
        (''cache'', ''backend'', tcp, [\<lparr>rp_single = 443, rp_interval = zero_interval\<rparr>])] \<and>
     concat (map named_destinations (c_Output c')) = [''db'', ''cache''] \<and>
     normalizeConfig c' = Inr c'"
proof -
  have trim: "TrimSpace ''db'' = ''db''" "TrimSpace ''cache'' = ''cache''"
    by (simp_all add: TrimSpace_def space_runes_def strip_front.simps HasPrefix_def)
  have "validateConfig sample_config = None"
    by (simp add: validateConfig_def sample_config_def validateVerdict_def zero_verdict_def
        validateRule_def Let_def hasIPs_def hasContainer_def hasContainers_def zero_rule_def
        proto_defs trim)
  then obtain c' where c': "normalizeConfig sample_config = Inr c'"
    by (auto simp: normalize_output)
  from normalizeConfig_correct [OF c'] obtain blocks where
    "c_Output c' = concat blocks" "list_all2 stands_for (c_Output sample_config) blocks"
    by blast
  then have "stands_for (hd (c_Output sample_config)) (c_Output c')"
    by (auto simp: sample_config_def list_all2_Cons1)
  then have "map (\<lambda>r. (r_Container r, r_Network r, r_Proto r, r_DstPorts r)) (c_Output c') =
       [(''db'', ''backend'', tcp, [\<lparr>rp_single = 443, rp_interval = zero_interval\<rparr>]),
        (''cache'', ''backend'', tcp, [\<lparr>rp_single = 443, rp_interval = zero_interval\<rparr>])]"
    by (auto simp: stands_for_def sample_config_def same_but_destination_def map_eq_Cons_conv)
  with normalizeConfig_correct [OF c'] c' show ?thesis
    by (auto simp: sample_config_def named_destinations_def)
qed

end
