(* ===== verification/Rule_Yaml.thy ===== *)
theory Rule_Yaml
  imports Config
begin

text \<open>
  The inspection of YAML nodes that precedes the decoding of a rule (\<open>UnmarshalYAML\<close> in \<open>config.go\<close>). A
  document is a list of nodes, and a \<open>*yaml.Node\<close> the position of one in it, or nil; a position outside of the
  document counts as nil. Nodes may be shared and reached from themselves, through aliases. The maps of nodes
  seen are sets, threaded through the calls. Following an alias is a loop that may not end; the
  recursion has fuel, of which a bound is shown to be enough. The decoder of the YAML library is the parameter
  \<open>decode\<close>.
\<close>

section \<open>Nodes\<close>

datatype yaml_kind = DocumentNode | SequenceNode | MappingNode | ScalarNode | AliasNode

type_synonym yaml_ptr = "nat option"

record yaml_node =
  yn_Kind :: yaml_kind
  yn_Tag :: string
  yn_Value :: string
  yn_Line :: nat
  yn_Content :: "yaml_ptr list"
  yn_Alias :: yaml_ptr

type_synonym yaml_doc = "yaml_node list"

definition yaml_deref :: "yaml_doc \<Rightarrow> yaml_ptr \<Rightarrow> yaml_node option" where
  "yaml_deref doc p = (case p of None \<Rightarrow> None | Some a \<Rightarrow> if a < length doc then Some (doc ! a) else None)"

partial_function (option) dereferenceYAMLAlias :: "yaml_doc \<Rightarrow> yaml_ptr \<Rightarrow> yaml_ptr option" where
  "dereferenceYAMLAlias doc p =
     (case yaml_deref doc p of
        None \<Rightarrow> Some p
      | Some node \<Rightarrow> if yn_Kind node = AliasNode then dereferenceYAMLAlias doc (yn_Alias node) else Some p)"

declare dereferenceYAMLAlias.simps [code]

definition isYAMLMergeKey :: "yaml_doc \<Rightarrow> yaml_ptr \<Rightarrow> bool" where
  "isYAMLMergeKey doc p =
     (case yaml_deref doc p of
        None \<Rightarrow> False
      | Some node \<Rightarrow>
          if yn_Kind node \<noteq> ScalarNode \<or> yn_Value node \<noteq> ''<<'' then False
          else yn_Tag node = '''' \<or> yn_Tag node = ''!'' \<or> yn_Tag node = ''!!merge'' \<or>
            yn_Tag node = ''tag:yaml.org,2002:merge'')"

text \<open>The keys and values of a mapping, two entries of the content at a time; a loop over them, or over the
  entries of a sequence, returns at the first error.\<close>

fun content_pairs :: "'a list \<Rightarrow> ('a \<times> 'a) list" where
  "content_pairs (key # value # rest) = (key, value) # content_pairs rest"
| "content_pairs _ = []"

fun yaml_each :: "('x \<Rightarrow> 's \<Rightarrow> ('s \<times> error option) option) \<Rightarrow> 'x list \<Rightarrow> 's \<Rightarrow> ('s \<times> error option) option" where
  "yaml_each f [] s = Some (s, None)"
| "yaml_each f (x # xs) s =
     (case f x s of
        None \<Rightarrow> None
      | Some (s, Some e) \<Rightarrow> Some (s, Some e)
      | Some (s, None) \<Rightarrow> yaml_each f xs s)"

definition nil_node :: error where
  "nil_node = GoPanic ''nil pointer dereference''"

definition unknown_field :: "yaml_node \<Rightarrow> string \<Rightarrow> error" where
  "unknown_field key t = Msg (''line '' @ Itoa (yn_Line key) @ '': field '' @ yn_Value key @ '' not found in type whalewall.'' @ t)"

section \<open>Inspection\<close>

primrec inspectVerdictYAML :: "nat \<Rightarrow> yaml_doc \<Rightarrow> yaml_ptr \<Rightarrow> yaml_ptr set \<Rightarrow> (yaml_ptr set \<times> error option) option" where
  "inspectVerdictYAML 0 = (\<lambda>doc p seen. None)"
| "inspectVerdictYAML (Suc n) = (\<lambda>doc p seen.
     (case dereferenceYAMLAlias doc p of
        None \<Rightarrow> None
      | Some p \<Rightarrow>
      (case yaml_deref doc p of
        None \<Rightarrow> Some (seen, None)
      | Some node \<Rightarrow>
      if yn_Kind node \<noteq> MappingNode then Some (seen, None)
      else if p \<in> seen then Some (seen, None)
      else yaml_each (\<lambda>(key, value) seen.
             if isYAMLMergeKey doc key then
               (case dereferenceYAMLAlias doc value of
                  None \<Rightarrow> None
                | Some merged \<Rightarrow>
                    (case yaml_deref doc merged of
                       None \<Rightarrow> inspectVerdictYAML n doc merged seen
                     | Some m \<Rightarrow>
                         if yn_Kind m = SequenceNode then yaml_each (inspectVerdictYAML n doc) (yn_Content m) seen
                         else inspectVerdictYAML n doc merged seen))
             else
               (case yaml_deref doc key of
                  None \<Rightarrow> Some (seen, Some nil_node)
                | Some k \<Rightarrow>
                    if yn_Value k \<in> set [''chain'', ''queue'', ''input_est_queue'', ''output_est_queue'']
                    then Some (seen, None)
                    else Some (seen, Some (unknown_field k ''verdict''))))
           (content_pairs (yn_Content node)) (insert p seen))))"

record ruleSelectorPresence =
  rs_ips :: bool
  rs_container :: bool
  rs_containers :: bool

type_synonym inspection = "ruleSelectorPresence \<times> yaml_ptr set"

text \<open>\<open>inspect\<close> is the function that calls this one.\<close>

definition inspectRuleYAMLMerge ::
    "(yaml_ptr \<Rightarrow> inspection \<Rightarrow> (inspection \<times> error option) option) \<Rightarrow> yaml_doc \<Rightarrow> yaml_ptr \<Rightarrow> inspection \<Rightarrow>
     (inspection \<times> error option) option" where
  "inspectRuleYAMLMerge inspect doc p s =
     (case dereferenceYAMLAlias doc p of
        None \<Rightarrow> None
      | Some p \<Rightarrow>
          (case yaml_deref doc p of
             None \<Rightarrow> Some (s, None)
           | Some node \<Rightarrow>
               if yn_Kind node = SequenceNode then yaml_each inspect (yn_Content node) s else inspect p s))"

definition inspect_rule_field :: "nat \<Rightarrow> yaml_doc \<Rightarrow> yaml_ptr \<Rightarrow> yaml_ptr \<Rightarrow> inspection \<Rightarrow> (inspection \<times> error option) option" where
  "inspect_rule_field n doc key value s =
     (case s of (selectors, seen) \<Rightarrow>
       (case yaml_deref doc key of
          None \<Rightarrow> Some (s, Some nil_node)
        | Some k \<Rightarrow>
            if yn_Value k \<in> set [''log_prefix'', ''network'', ''proto'', ''src_ports'', ''dst_ports''] then Some (s, None)
            else if yn_Value k = ''ips'' then Some ((selectors\<lparr>rs_ips := True\<rparr>, seen), None)
            else if yn_Value k = ''container'' then Some ((selectors\<lparr>rs_container := True\<rparr>, seen), None)
            else if yn_Value k = ''containers'' then Some ((selectors\<lparr>rs_containers := True\<rparr>, seen), None)
            else if yn_Value k = ''verdict'' then map_option (\<lambda>(_, err). (s, err)) (inspectVerdictYAML n doc value {})
            else Some (s, Some (unknown_field k ''ruleConfig''))))"

primrec inspectRuleYAML :: "nat \<Rightarrow> yaml_doc \<Rightarrow> yaml_ptr \<Rightarrow> inspection \<Rightarrow> (inspection \<times> error option) option" where
  "inspectRuleYAML 0 = (\<lambda>doc p s. None)"
| "inspectRuleYAML (Suc n) = (\<lambda>doc p s.
     (case dereferenceYAMLAlias doc p of
        None \<Rightarrow> None
      | Some p \<Rightarrow>
      (case yaml_deref doc p of
        None \<Rightarrow> Some (s, None)
      | Some node \<Rightarrow>
      if yn_Kind node \<noteq> MappingNode then Some (s, None)
      else if p \<in> snd s then Some (s, None)
      else yaml_each (\<lambda>(key, value).
             if isYAMLMergeKey doc key then inspectRuleYAMLMerge (inspectRuleYAML n doc) doc value
             else inspect_rule_field n doc key value)
           (content_pairs (yn_Content node)) (fst s, insert p (snd s)))))"

definition UnmarshalYAML :: "nat \<Rightarrow> (yaml_ptr \<Rightarrow> ruleConfig result) \<Rightarrow> yaml_doc \<Rightarrow> yaml_ptr \<Rightarrow> ruleConfig result option" where
  "UnmarshalYAML n decode doc p =
     (case inspectRuleYAML n doc p (\<lparr>rs_ips = False, rs_container = False, rs_containers = False\<rparr>, {}) of
        None \<Rightarrow> None
      | Some (_, Some e) \<Rightarrow> Some (Inl e)
      | Some ((selectors, _), None) \<Rightarrow>
          Some (case decode p of
             Inl e \<Rightarrow> Inl e
           | Inr decoded \<Rightarrow>
               Inr (decoded\<lparr>r_ipsSet := rs_ips selectors, r_containerSet := rs_container selectors,
                 r_containersSet := rs_containers selectors\<rparr>)))"

section \<open>What is reached from a node\<close>

text \<open>An alias stands for an anchored node, and YAML lets no alias have an anchor.\<close>

definition aliases_ok :: "yaml_doc \<Rightarrow> bool" where
  "aliases_ok doc \<longleftrightarrow> list_all (\<lambda>node. yn_Kind node = AliasNode \<longrightarrow>
     (case yaml_deref doc (yn_Alias node) of None \<Rightarrow> True | Some t \<Rightarrow> yn_Kind t \<noteq> AliasNode)) doc"

definition unalias :: "yaml_doc \<Rightarrow> yaml_ptr \<Rightarrow> yaml_ptr" where
  "unalias doc p =
     (case yaml_deref doc p of
        None \<Rightarrow> p
      | Some node \<Rightarrow> if yn_Kind node = AliasNode then yn_Alias node else p)"

lemma dereference_plain:
  "(case yaml_deref doc p of None \<Rightarrow> True | Some node \<Rightarrow> yn_Kind node \<noteq> AliasNode) \<Longrightarrow>
   dereferenceYAMLAlias doc p = Some p"
  by (subst dereferenceYAMLAlias.simps) (simp split: option.splits)

lemma dereference_unalias:
  assumes "aliases_ok doc"
  shows "dereferenceYAMLAlias doc p = Some (unalias doc p)"
proof (cases "\<exists>node. yaml_deref doc p = Some node \<and> yn_Kind node = AliasNode")
  case True
  then obtain node where node: "yaml_deref doc p = Some node" "yn_Kind node = AliasNode" by blast
  then have "node \<in> set doc" by (auto simp: yaml_deref_def split: option.splits if_splits)
  then have "dereferenceYAMLAlias doc (yn_Alias node) = Some (yn_Alias node)"
    using assms node(2) by (intro dereference_plain) (simp add: aliases_ok_def list_all_iff)
  then show ?thesis using node by (subst dereferenceYAMLAlias.simps) (simp add: unalias_def)
next
  case False
  then show ?thesis
    by (subst dereference_plain) (auto simp: unalias_def split: option.splits)
qed

definition is_mapping :: "yaml_doc \<Rightarrow> yaml_ptr \<Rightarrow> bool" where
  "is_mapping doc p \<longleftrightarrow> (case yaml_deref doc p of None \<Rightarrow> False | Some node \<Rightarrow> yn_Kind node = MappingNode)"

definition yaml_pairs :: "yaml_doc \<Rightarrow> yaml_ptr \<Rightarrow> (yaml_ptr \<times> yaml_ptr) list" where
  "yaml_pairs doc p = (case yaml_deref doc p of None \<Rightarrow> [] | Some node \<Rightarrow> content_pairs (yn_Content node))"

definition merge_sources :: "yaml_doc \<Rightarrow> yaml_ptr \<Rightarrow> yaml_ptr list" where
  "merge_sources doc v =
     (case yaml_deref doc (unalias doc v) of
        None \<Rightarrow> []
      | Some node \<Rightarrow> if yn_Kind node = SequenceNode then yn_Content node else [unalias doc v])"

definition all_sources :: "yaml_doc \<Rightarrow> (yaml_ptr \<times> yaml_ptr) list \<Rightarrow> yaml_ptr list" where
  "all_sources doc kvs = concat (map (\<lambda>(k, v). merge_sources doc v) (filter (\<lambda>(k, v). isYAMLMergeKey doc k) kvs))"

definition own_fields :: "yaml_doc \<Rightarrow> (yaml_ptr \<times> yaml_ptr) list \<Rightarrow> (yaml_ptr \<times> yaml_ptr) list" where
  "own_fields doc kvs = filter (\<lambda>(k, v). \<not> isYAMLMergeKey doc k) kvs"

text \<open>The mappings that make up a node: itself, and what is merged into it, directly or not.\<close>

inductive makes_up :: "yaml_doc \<Rightarrow> yaml_ptr \<Rightarrow> yaml_ptr \<Rightarrow> bool" for doc p where
  itself: "is_mapping doc (unalias doc p) \<Longrightarrow> makes_up doc p (unalias doc p)"
| merged: "makes_up doc p q \<Longrightarrow> x \<in> set (all_sources doc (yaml_pairs doc q)) \<Longrightarrow> is_mapping doc (unalias doc x) \<Longrightarrow>
    makes_up doc p (unalias doc x)"

definition key_is :: "yaml_doc \<Rightarrow> yaml_ptr \<Rightarrow> string \<Rightarrow> bool" where
  "key_is doc k name \<longleftrightarrow> (\<exists>node. yaml_deref doc k = Some node \<and> yn_Value node = name)"

definition mentions :: "yaml_doc \<Rightarrow> yaml_ptr \<Rightarrow> string \<Rightarrow> bool" where
  "mentions doc p name \<longleftrightarrow>
     (\<exists>q k v. makes_up doc p q \<and> (k, v) \<in> set (own_fields doc (yaml_pairs doc q)) \<and> key_is doc k name)"

section \<open>A walk over the mappings\<close>

text \<open>
  Both inspections walk over a node and the mappings merged into it and look at the fields of each mapping once.
  The state has the nodes seen (\<open>seen_of\<close>, \<open>mark\<close>), and \<open>noted\<close> says which of the field names to be \<open>recorded\<close>
  have been met; \<open>bad\<close> says which field is refused.
\<close>

definition unseen :: "yaml_doc \<Rightarrow> yaml_ptr set \<Rightarrow> nat" where
  "unseen doc seen = card ({p. is_mapping doc p} - seen)"

lemma mapping_bound: "{p. is_mapping doc p} \<subseteq> Some ` {..<length doc}"
  by (auto simp: is_mapping_def yaml_deref_def split: option.splits if_splits)

lemma finite_mappings: "finite ({p. is_mapping doc p} - seen)"
  by (meson finite_Diff finite_imageI finite_lessThan finite_subset mapping_bound)

lemma unseen_insert: "is_mapping doc p \<Longrightarrow> p \<notin> seen \<Longrightarrow> unseen doc (insert p seen) < unseen doc seen"
  unfolding unseen_def by (rule psubset_card_mono [OF finite_mappings]) auto

lemma unseen_mono: "seen \<subseteq> seen' \<Longrightarrow> unseen doc seen' \<le> unseen doc seen"
  unfolding unseen_def by (rule card_mono [OF finite_mappings]) auto

lemma unseen_bound: "unseen doc seen \<le> length doc"
proof -
  have "unseen doc seen \<le> card (Some ` {..<length doc})"
    unfolding unseen_def using mapping_bound [of doc] by (intro card_mono) auto
  then show ?thesis by (simp add: card_image)
qed

lemma concat_none: "concat (map (\<lambda>x. []) xs) = []"
  by (induction xs) simp_all

lemma yaml_each_single: "yaml_each f [x] s = f x s"
  by (simp split: option.splits prod.splits)

lemma makes_up_trans: "makes_up doc x r \<Longrightarrow> makes_up doc p q \<Longrightarrow> x \<in> set (all_sources doc (yaml_pairs doc q)) \<Longrightarrow> makes_up doc p r"
  by (induction rule: makes_up.induct) (auto intro: makes_up.intros)

lemma makes_up_unalias: "is_mapping doc q \<Longrightarrow> unalias doc q = q"
  by (simp add: is_mapping_def unalias_def split: option.splits)

lemma all_sources_append: "all_sources doc (xs @ ys) = all_sources doc xs @ all_sources doc ys"
  by (simp add: all_sources_def)

lemma own_fields_append: "own_fields doc (xs @ ys) = own_fields doc xs @ own_fields doc ys"
  by (simp add: own_fields_def)

locale yaml_walk =
  fixes doc :: yaml_doc
    and walk :: "nat \<Rightarrow> yaml_ptr \<Rightarrow> 's \<Rightarrow> ('s \<times> error option) option"
    and look :: "nat \<Rightarrow> yaml_ptr \<Rightarrow> yaml_ptr \<Rightarrow> 's \<Rightarrow> ('s \<times> error option) option"
    and seen_of :: "'s \<Rightarrow> yaml_ptr set"
    and mark :: "yaml_ptr \<Rightarrow> 's \<Rightarrow> 's"
    and noted :: "'s \<Rightarrow> string set"
    and recorded :: "string set"
    and bad :: "yaml_ptr \<Rightarrow> yaml_ptr \<Rightarrow> bool"
    and N :: nat
  assumes walk: "aliases_ok doc \<Longrightarrow> 0 < n \<Longrightarrow> walk (Suc n) p s =
      (if \<not> is_mapping doc (unalias doc p) \<or> unalias doc p \<in> seen_of s then Some (s, None)
       else yaml_each (\<lambda>(k, v). if isYAMLMergeKey doc k then yaml_each (walk n) (merge_sources doc v) else look n k v)
         (yaml_pairs doc (unalias doc p)) (mark (unalias doc p) s))"
    and seen_mark: "seen_of (mark p s) = insert p (seen_of s)"
    and noted_mark: "noted (mark p s) = noted s"
    and look: "aliases_ok doc \<Longrightarrow> N \<le> n \<Longrightarrow> \<exists>s' e. look n k v s = Some (s', e) \<and> (e \<noteq> None \<longleftrightarrow> bad k v) \<and>
      (e = None \<longrightarrow> seen_of s' = seen_of s \<and> noted s' = noted s \<union> {name \<in> recorded. key_is doc k name})"
begin

definition bad_node :: "yaml_ptr \<Rightarrow> bool" where
  "bad_node q \<longleftrightarrow> (\<exists>(k, v) \<in> set (own_fields doc (yaml_pairs doc q)). bad k v)"

definition names :: "(yaml_ptr \<times> yaml_ptr) set \<Rightarrow> string set" where
  "names kvs = {name \<in> recorded. \<exists>(k, v) \<in> kvs. key_is doc k name}"

definition fields_of :: "yaml_ptr set \<Rightarrow> (yaml_ptr \<times> yaml_ptr) set" where
  "fields_of Q = (\<Union>q \<in> Q. set (own_fields doc (yaml_pairs doc q)))"

text \<open>What a run does that has the pointers \<open>ps\<close> to walk over and the fields \<open>kvs\<close> to look at.\<close>

definition covered :: "yaml_ptr list \<Rightarrow> (yaml_ptr \<times> yaml_ptr) list \<Rightarrow> 's \<Rightarrow> 's \<Rightarrow> bool" where
  "covered ps kvs s s' \<longleftrightarrow>
     seen_of s \<subseteq> seen_of s' \<and>
     (\<forall>x \<in> set ps. is_mapping doc (unalias doc x) \<longrightarrow> unalias doc x \<in> seen_of s') \<and>
     (\<forall>q \<in> seen_of s' - seen_of s. is_mapping doc q \<and> (\<exists>x \<in> set ps. makes_up doc x q) \<and> \<not> bad_node q \<and>
        (\<forall>x \<in> set (all_sources doc (yaml_pairs doc q)). is_mapping doc (unalias doc x) \<longrightarrow> unalias doc x \<in> seen_of s')) \<and>
     (\<forall>(k, v) \<in> set kvs. \<not> bad k v) \<and>
     noted s' = noted s \<union> names (set kvs) \<union> names (fields_of (seen_of s' - seen_of s))"

definition refused :: "yaml_ptr list \<Rightarrow> (yaml_ptr \<times> yaml_ptr) list \<Rightarrow> bool" where
  "refused ps kvs \<longleftrightarrow> (\<exists>x \<in> set ps. \<exists>q. makes_up doc x q \<and> bad_node q) \<or> (\<exists>(k, v) \<in> set kvs. bad k v)"

definition walked :: "yaml_ptr list \<Rightarrow> (yaml_ptr \<times> yaml_ptr) list \<Rightarrow> 's \<Rightarrow> ('s \<times> error option) option \<Rightarrow> bool" where
  "walked ps kvs s r \<longleftrightarrow>
     (\<exists>s' e. r = Some (s', e) \<and> (case e of None \<Rightarrow> covered ps kvs s s' | Some _ \<Rightarrow> refused ps kvs))"

lemma names_Un: "names (A \<union> B) = names A \<union> names B"
  by (auto simp: names_def)

lemma fields_of_Un: "fields_of (A \<union> B) = fields_of A \<union> fields_of B"
  by (auto simp: fields_of_def)

lemma fields_of_insert: "fields_of (insert q Q) = set (own_fields doc (yaml_pairs doc q)) \<union> fields_of Q"
  by (simp add: fields_of_def)

lemma covered_trans:
  assumes "covered ps kvs s s1" "covered ps' kvs' s1 s2"
  shows "covered (ps @ ps') (kvs @ kvs') s s2"
proof -
  have sub: "seen_of s \<subseteq> seen_of s1" "seen_of s1 \<subseteq> seen_of s2"
    using assms by (simp_all add: covered_def)
  then have split: "seen_of s2 - seen_of s = (seen_of s1 - seen_of s) \<union> (seen_of s2 - seen_of s1)" by blast
  have "noted s2 = noted s \<union> names (set (kvs @ kvs')) \<union> names (fields_of (seen_of s2 - seen_of s))"
    using assms unfolding split fields_of_Un names_Un set_append covered_def by blast
  moreover have "\<forall>q \<in> seen_of s2 - seen_of s. is_mapping doc q \<and> (\<exists>x \<in> set (ps @ ps'). makes_up doc x q) \<and> \<not> bad_node q \<and>
      (\<forall>x \<in> set (all_sources doc (yaml_pairs doc q)). is_mapping doc (unalias doc x) \<longrightarrow> unalias doc x \<in> seen_of s2)"
  proof
    fix q assume "q \<in> seen_of s2 - seen_of s"
    then consider "q \<in> seen_of s1 - seen_of s" | "q \<in> seen_of s2 - seen_of s1" by blast
    then show "is_mapping doc q \<and> (\<exists>x \<in> set (ps @ ps'). makes_up doc x q) \<and> \<not> bad_node q \<and>
      (\<forall>x \<in> set (all_sources doc (yaml_pairs doc q)). is_mapping doc (unalias doc x) \<longrightarrow> unalias doc x \<in> seen_of s2)"
    proof cases
      case 1
      then have "is_mapping doc q \<and> (\<exists>x \<in> set ps. makes_up doc x q) \<and> \<not> bad_node q \<and>
          (\<forall>x \<in> set (all_sources doc (yaml_pairs doc q)). is_mapping doc (unalias doc x) \<longrightarrow> unalias doc x \<in> seen_of s1)"
        using assms(1) by (simp add: covered_def)
      then show ?thesis using sub(2) by auto
    next
      case 2
      then have "is_mapping doc q \<and> (\<exists>x \<in> set ps'. makes_up doc x q) \<and> \<not> bad_node q \<and>
          (\<forall>x \<in> set (all_sources doc (yaml_pairs doc q)). is_mapping doc (unalias doc x) \<longrightarrow> unalias doc x \<in> seen_of s2)"
        using assms(2) by (simp add: covered_def)
      then show ?thesis by auto
    qed
  qed
  moreover have "\<forall>x \<in> set (ps @ ps'). is_mapping doc (unalias doc x) \<longrightarrow> unalias doc x \<in> seen_of s2"
      "\<forall>(k, v) \<in> set (kvs @ kvs'). \<not> bad k v"
    using assms sub(2) by (auto simp: covered_def)
  ultimately show ?thesis using sub by (simp add: covered_def)
qed

lemma covered_refl: "covered [] [] s s"
  by (simp add: covered_def names_def fields_of_def)

lemma walked_covered: "covered ps kvs s s' \<Longrightarrow> walked ps kvs s (Some (s', None))"
  by (simp add: walked_def)

lemma walked_refused: "refused ps kvs \<Longrightarrow> walked ps kvs s (Some (s', Some e))"
  by (simp add: walked_def)

lemma refused_before: "refused ps kvs \<Longrightarrow> refused (ps @ ps') (kvs @ kvs')"
  by (auto simp: refused_def)

lemma refused_after: "refused ps' kvs' \<Longrightarrow> refused (ps @ ps') (kvs @ kvs')"
  by (auto simp: refused_def)

lemma walked_after:
  assumes "covered ps kvs s s1" "walked ps' kvs' s1 r"
  shows "walked (ps @ ps') (kvs @ kvs') s r"
proof -
  obtain s' e where "r = Some (s', e)" "case e of None \<Rightarrow> covered ps' kvs' s1 s' | Some _ \<Rightarrow> refused ps' kvs'"
    using assms(2) unfolding walked_def by blast
  then show ?thesis
    by (cases e) (simp_all add: walked_covered walked_refused refused_after covered_trans [OF assms(1)])
qed

lemma walked_each:
  assumes "\<And>x s. x \<in> set xs \<Longrightarrow> P s \<Longrightarrow> walked (ps x) (kvs x) s (f x s)"
    and "\<And>s s'. P s \<Longrightarrow> seen_of s \<subseteq> seen_of s' \<Longrightarrow> P s'" "P s"
  shows "walked (concat (map ps xs)) (concat (map kvs xs)) s (yaml_each f xs s)"
  using assms(1,3)
proof (induction xs arbitrary: s)
  case Nil
  then show ?case by (simp add: walked_def covered_refl)
next
  case (Cons x xs)
  have "walked (ps x) (kvs x) s (f x s)" using Cons.prems by simp
  then obtain s1 e where run: "f x s = Some (s1, e)"
      "case e of None \<Rightarrow> covered (ps x) (kvs x) s s1 | Some _ \<Rightarrow> refused (ps x) (kvs x)"
    unfolding walked_def by blast
  show ?case
  proof (cases e)
    case None
    then have cov: "covered (ps x) (kvs x) s s1" using run by simp
    then have "P s1" using assms(2) [OF Cons.prems(2)] by (simp add: covered_def)
    then have "walked (concat (map ps xs)) (concat (map kvs xs)) s1 (yaml_each f xs s1)"
      using Cons by simp
    then show ?thesis using run(1) None walked_after [OF cov] by simp
  next
    case (Some e')
    then show ?thesis using run by (simp add: walked_refused refused_before)
  qed
qed

lemma covered_node:
  assumes "is_mapping doc (unalias doc p)" "unalias doc p \<notin> seen_of s"
    and "covered (all_sources doc (yaml_pairs doc (unalias doc p))) (own_fields doc (yaml_pairs doc (unalias doc p)))
      (mark (unalias doc p) s) s'"
  shows "covered [p] [] s s'"
proof -
  define q where "q = unalias doc p"
  have cov: "covered (all_sources doc (yaml_pairs doc q)) (own_fields doc (yaml_pairs doc q)) (mark q s) s'"
    using assms(3) by (simp add: q_def)
  have up: "makes_up doc p q" using assms(1) by (simp add: q_def itself)
  have split: "seen_of s' - seen_of s = insert q (seen_of s' - seen_of (mark q s))"
    using cov assms(2) by (auto simp: covered_def seen_mark q_def)
  have "\<not> bad_node q" using cov by (auto simp: covered_def bad_node_def)
  moreover have "\<forall>x \<in> set (all_sources doc (yaml_pairs doc q)). is_mapping doc (unalias doc x) \<longrightarrow> unalias doc x \<in> seen_of s'"
    using cov by (simp add: covered_def)
  moreover have "makes_up doc p r" if "r \<in> seen_of s' - seen_of (mark q s)" for r
    using cov that makes_up_trans [OF _ up] unfolding covered_def by blast
  moreover have "noted s' = noted s \<union> names (fields_of (seen_of s' - seen_of s))"
    unfolding split fields_of_insert names_Un using cov by (simp add: covered_def noted_mark Un_assoc)
  moreover have "\<forall>r \<in> seen_of s' - seen_of (mark q s). is_mapping doc r \<and> \<not> bad_node r \<and>
      (\<forall>x \<in> set (all_sources doc (yaml_pairs doc r)). is_mapping doc (unalias doc x) \<longrightarrow> unalias doc x \<in> seen_of s')"
      "q \<in> seen_of s'" "seen_of s \<subseteq> seen_of s'" "names {} = {}"
    using cov by (simp_all add: covered_def seen_mark names_def)
  ultimately show ?thesis
    using assms(1) up unfolding covered_def split ball_simps(7) by (simp add: q_def [symmetric])
qed

lemma refused_node:
  assumes "is_mapping doc (unalias doc p)"
    and "refused (all_sources doc (yaml_pairs doc (unalias doc p))) (own_fields doc (yaml_pairs doc (unalias doc p)))"
  shows "refused [p] []"
  using assms makes_up_trans [OF _ itself [OF assms(1)]] itself [OF assms(1)]
  unfolding refused_def by (auto simp: bad_node_def)

lemma walked_node:
  assumes "is_mapping doc (unalias doc p)" "unalias doc p \<notin> seen_of s"
    and "walked (all_sources doc (yaml_pairs doc (unalias doc p))) (own_fields doc (yaml_pairs doc (unalias doc p)))
      (mark (unalias doc p) s) r"
  shows "walked [p] [] s r"
proof -
  obtain s' e where "r = Some (s', e)" "case e of
      None \<Rightarrow> covered (all_sources doc (yaml_pairs doc (unalias doc p))) (own_fields doc (yaml_pairs doc (unalias doc p)))
        (mark (unalias doc p) s) s'
    | Some _ \<Rightarrow> refused (all_sources doc (yaml_pairs doc (unalias doc p))) (own_fields doc (yaml_pairs doc (unalias doc p)))"
    using assms(3) unfolding walked_def by blast
  then show ?thesis
    by (cases e) (simp_all add: walked_covered walked_refused covered_node [OF assms(1,2)] refused_node [OF assms(1)])
qed

lemma walked_known:
  assumes "\<not> is_mapping doc (unalias doc p) \<or> unalias doc p \<in> seen_of s"
  shows "walked [p] [] s (Some (s, None))"
  using assms by (intro walked_covered) (auto simp: covered_def names_def fields_of_def)

definition sources_of :: "yaml_ptr \<times> yaml_ptr \<Rightarrow> yaml_ptr list" where
  "sources_of kv = (if isYAMLMergeKey doc (fst kv) then merge_sources doc (snd kv) else [])"

definition field_of :: "yaml_ptr \<times> yaml_ptr \<Rightarrow> (yaml_ptr \<times> yaml_ptr) list" where
  "field_of kv = (if isYAMLMergeKey doc (fst kv) then [] else [kv])"

lemma concat_sources: "concat (map sources_of kvs) = all_sources doc kvs"
  by (induction kvs) (auto simp: all_sources_def sources_of_def)

lemma concat_fields: "concat (map field_of kvs) = own_fields doc kvs"
  by (induction kvs) (auto simp: own_fields_def field_of_def)

lemma walked_look:
  assumes "aliases_ok doc" "N \<le> n"
  shows "walked [] [(k, v)] s (look n k v s)"
proof -
  obtain s' e where "look n k v s = Some (s', e)" "e \<noteq> None \<longleftrightarrow> bad k v"
      "e = None \<Longrightarrow> seen_of s' = seen_of s \<and> noted s' = noted s \<union> {name \<in> recorded. key_is doc k name}"
    using look [OF assms] by metis
  then show ?thesis
    by (cases e) (auto simp: walked_def covered_def refused_def names_def fields_of_def)
qed

lemma walk_walked:
  assumes "aliases_ok doc"
  shows "N + 1 + unseen doc (seen_of s) < n \<Longrightarrow> walked [p] [] s (walk n p s)"
proof (induction n arbitrary: p s)
  case 0
  then show ?case by simp
next
  case (Suc m)
  let ?q = "unalias doc p"
  have m: "0 < m" "N \<le> m" using Suc.prems by simp_all
  show ?case
  proof (cases "\<not> is_mapping doc ?q \<or> ?q \<in> seen_of s")
    case True
    then show ?thesis using walked_known walk [OF assms m(1)] by simp
  next
    case False
    define room where "room t \<longleftrightarrow> N + 1 + unseen doc (seen_of t) < m" for t
    have room_mono: "room t \<Longrightarrow> seen_of t \<subseteq> seen_of t' \<Longrightarrow> room t'" for t t'
      using unseen_mono [of "seen_of t" "seen_of t'" doc] by (simp add: room_def)
    have room: "room (mark ?q s)"
      using unseen_insert [of doc ?q "seen_of s"] False Suc.prems by (simp add: room_def seen_mark)
    have merge: "walked xs [] t (yaml_each (walk m) xs t)" if "room t" for xs t
      using walked_each [of xs room "\<lambda>x. [x]" "\<lambda>x. []" "walk m" t] Suc.IH room_mono that
      by (simp add: room_def concat_none)
    have "walked (sources_of kv) (field_of kv) t
        ((\<lambda>(k, v). if isYAMLMergeKey doc k then yaml_each (walk m) (merge_sources doc v) else look m k v) kv t)"
      if "room t" for kv t
      using merge [OF that] walked_look [OF assms m(2)]
      by (cases kv) (simp add: sources_of_def field_of_def)
    then have "walked (all_sources doc (yaml_pairs doc ?q)) (own_fields doc (yaml_pairs doc ?q)) (mark ?q s)
        (yaml_each (\<lambda>(k, v). if isYAMLMergeKey doc k then yaml_each (walk m) (merge_sources doc v) else look m k v)
          (yaml_pairs doc ?q) (mark ?q s))"
      unfolding concat_sources [symmetric] concat_fields [symmetric]
      by (intro walked_each [where P = room]) (use room room_mono in blast)+
    then show ?thesis
      using walked_node [of p s] walk [OF assms m(1), of p s] False by simp
  qed
qed

text \<open>From a state in which nothing has been seen, the walk covers exactly what makes up the node.\<close>

lemma covered_all:
  assumes "covered [p] [] s s'" "seen_of s = {}"
  shows "seen_of s' = {q. makes_up doc p q}"
proof -
  have "q \<in> seen_of s'" if "makes_up doc p q" for q
    using that
  proof induction
    case itself
    then show ?case using assms(1) by (simp add: covered_def)
  next
    case (merged q x)
    have "\<forall>y \<in> set (all_sources doc (yaml_pairs doc q)). is_mapping doc (unalias doc y) \<longrightarrow> unalias doc y \<in> seen_of s'"
      using assms merged.IH by (simp add: covered_def)
    then show ?case using merged.hyps by blast
  qed
  moreover have "makes_up doc p q" if "q \<in> seen_of s'" for q
    using assms that unfolding covered_def by simp
  ultimately show ?thesis by blast
qed

lemma walk_correct:
  assumes "aliases_ok doc" "N + 1 + length doc < n" "seen_of s = {}" "noted s = {}"
  shows "\<exists>s' e. walk n p s = Some (s', e) \<and> (e \<noteq> None \<longleftrightarrow> (\<exists>q. makes_up doc p q \<and> bad_node q)) \<and>
    (e = None \<longrightarrow> noted s' = {name \<in> recorded. mentions doc p name})"
proof -
  have "walked [p] [] s (walk n p s)"
    using unseen_bound [of doc "seen_of s"] assms by (intro walk_walked) simp_all
  then obtain s' e where run: "walk n p s = Some (s', e)"
      "case e of None \<Rightarrow> covered [p] [] s s' | Some _ \<Rightarrow> refused [p] []"
    unfolding walked_def by blast
  show ?thesis
  proof (cases e)
    case None
    then have cov: "covered [p] [] s s'" using run by simp
    have "\<not> bad_node q" if "makes_up doc p q" for q
      using cov that covered_all [OF cov assms(3)] assms(3) by (simp add: covered_def)
    moreover have "noted s' = {name \<in> recorded. mentions doc p name}"
      using cov covered_all [OF cov assms(3)] assms(3,4)
      by (auto simp: covered_def names_def fields_of_def mentions_def)
    ultimately show ?thesis using run None by auto
  next
    case (Some e')
    then show ?thesis using run by (auto simp: refused_def)
  qed
qed

end

section \<open>The two inspections are walks\<close>

definition verdict_fields :: "string list" where
  "verdict_fields = [''chain'', ''queue'', ''input_est_queue'', ''output_est_queue'']"

definition rule_fields :: "string list" where
  "rule_fields = [''log_prefix'', ''network'', ''proto'', ''src_ports'', ''dst_ports'', ''ips'', ''container'', ''containers'', ''verdict'']"

definition known_field :: "yaml_doc \<Rightarrow> string list \<Rightarrow> yaml_ptr \<Rightarrow> bool" where
  "known_field doc known k \<longleftrightarrow> (\<exists>name \<in> set known. key_is doc k name)"

text \<open>A node is refused as a verdict, or as a rule, for one field of one of the mappings that make it up.\<close>

definition verdict_refused :: "yaml_doc \<Rightarrow> yaml_ptr \<Rightarrow> bool" where
  "verdict_refused doc p \<longleftrightarrow>
     (\<exists>q. makes_up doc p q \<and> (\<exists>(k, v) \<in> set (own_fields doc (yaml_pairs doc q)). \<not> known_field doc verdict_fields k))"

definition rule_refused :: "yaml_doc \<Rightarrow> yaml_ptr \<Rightarrow> bool" where
  "rule_refused doc p \<longleftrightarrow>
     (\<exists>q. makes_up doc p q \<and> (\<exists>(k, v) \<in> set (own_fields doc (yaml_pairs doc q)).
        \<not> known_field doc rule_fields k \<or> key_is doc k ''verdict'' \<and> verdict_refused doc v))"

definition look_verdict :: "yaml_doc \<Rightarrow> yaml_ptr \<Rightarrow> yaml_ptr set \<Rightarrow> (yaml_ptr set \<times> error option) option" where
  "look_verdict doc key seen =
     (case yaml_deref doc key of
        None \<Rightarrow> Some (seen, Some nil_node)
      | Some k \<Rightarrow>
          if yn_Value k \<in> set [''chain'', ''queue'', ''input_est_queue'', ''output_est_queue'']
          then Some (seen, None)
          else Some (seen, Some (unknown_field k ''verdict'')))"

lemma walk_guard:
  "is_mapping doc p \<longleftrightarrow> (\<exists>node. yaml_deref doc p = Some node \<and> yn_Kind node = MappingNode)"
  by (simp add: is_mapping_def split: option.splits)

lemma yaml_each_cong: "(\<And>x s. f x s = g x s) \<Longrightarrow> yaml_each f = yaml_each g"
  by presburger

lemma verdict_nil: "aliases_ok doc \<Longrightarrow> 0 < n \<Longrightarrow> yaml_deref doc (unalias doc p) = None \<Longrightarrow>
  inspectVerdictYAML n doc p s = Some (s, None)"
  by (cases n) (simp_all add: dereference_unalias)

lemma verdict_merge:
  assumes "aliases_ok doc" "0 < n"
  shows "(case yaml_deref doc (unalias doc v) of
      None \<Rightarrow> inspectVerdictYAML n doc (unalias doc v) s
    | Some m \<Rightarrow> if yn_Kind m = SequenceNode then yaml_each (inspectVerdictYAML n doc) (yn_Content m) s
        else inspectVerdictYAML n doc (unalias doc v) s) = yaml_each (inspectVerdictYAML n doc) (merge_sources doc v) s"
proof (cases "yaml_deref doc (unalias doc v)")
  case None
  then have "unalias doc (unalias doc v) = unalias doc v" by (simp add: unalias_def)
  then show ?thesis using None verdict_nil [OF assms, of "unalias doc v"] by (simp add: merge_sources_def)
next
  case (Some m)
  then show ?thesis by (simp add: merge_sources_def yaml_each_single del: yaml_each.simps(2))
qed

lemma inspectVerdictYAML_walk:
  assumes "aliases_ok doc" "0 < n"
  shows "inspectVerdictYAML (Suc n) doc p s =
    (if \<not> is_mapping doc (unalias doc p) \<or> unalias doc p \<in> s then Some (s, None)
     else yaml_each (\<lambda>(k, v). if isYAMLMergeKey doc k then yaml_each (inspectVerdictYAML n doc) (merge_sources doc v)
         else look_verdict doc k)
       (yaml_pairs doc (unalias doc p)) (insert (unalias doc p) s))"
proof (cases "is_mapping doc (unalias doc p)")
  case False
  then show ?thesis
    by (auto simp: dereference_unalias [OF assms(1)] walk_guard split: option.splits)
next
  case True
  then obtain node where node: "yaml_deref doc (unalias doc p) = Some node" "yn_Kind node = MappingNode"
    by (auto simp: walk_guard)
  have eq: "(\<lambda>(key, value) seen.
      if isYAMLMergeKey doc key then
        (case yaml_deref doc (unalias doc value) of
           None \<Rightarrow> inspectVerdictYAML n doc (unalias doc value) seen
         | Some m \<Rightarrow>
             if yn_Kind m = SequenceNode then yaml_each (inspectVerdictYAML n doc) (yn_Content m) seen
             else inspectVerdictYAML n doc (unalias doc value) seen)
      else
        (case yaml_deref doc key of
           None \<Rightarrow> Some (seen, Some nil_node)
         | Some k \<Rightarrow>
             if yn_Value k \<in> set [''chain'', ''queue'', ''input_est_queue'', ''output_est_queue'']
             then Some (seen, None)
             else Some (seen, Some (unknown_field k ''verdict'')))) =
    (\<lambda>(k, v). if isYAMLMergeKey doc k then yaml_each (inspectVerdictYAML n doc) (merge_sources doc v)
       else look_verdict doc k)"
    unfolding verdict_merge [OF assms] look_verdict_def by (simp add: fun_eq_iff)
  show ?thesis
    unfolding inspectVerdictYAML.simps(2) dereference_unalias [OF assms(1)] option.case(2) node(1) eq
    using node True by (simp add: yaml_pairs_def del: insert_iff)
qed

interpretation verdict_walk: yaml_walk doc "\<lambda>n p s. inspectVerdictYAML n doc p s" "\<lambda>n k v s. look_verdict doc k s"
  "\<lambda>s. s" insert "\<lambda>s. {}" "{}" "\<lambda>k v. \<not> known_field doc verdict_fields k" 0 for doc
proof
  show "aliases_ok doc \<Longrightarrow> 0 < n \<Longrightarrow> inspectVerdictYAML (Suc n) doc p s =
    (if \<not> is_mapping doc (unalias doc p) \<or> unalias doc p \<in> s then Some (s, None)
     else yaml_each (\<lambda>(k, v). if isYAMLMergeKey doc k then yaml_each (\<lambda>p s. inspectVerdictYAML n doc p s) (merge_sources doc v)
         else (\<lambda>s. look_verdict doc k s))
       (yaml_pairs doc (unalias doc p)) (insert (unalias doc p) s))" for n p s
    by (rule inspectVerdictYAML_walk)
qed (auto simp: look_verdict_def known_field_def key_is_def verdict_fields_def split: option.splits)

lemma inspectVerdictYAML_correct:
  assumes "aliases_ok doc" "1 + length doc < n"
  shows "\<exists>seen e. inspectVerdictYAML n doc p {} = Some (seen, e) \<and> (e \<noteq> None \<longleftrightarrow> verdict_refused doc p)"
  using verdict_walk.walk_correct [OF assms(1), of n "{}" p] assms(2)
  unfolding verdict_refused_def verdict_walk.bad_node_def by simp

section \<open>Rules\<close>

definition noted_selectors :: "inspection \<Rightarrow> string set" where
  "noted_selectors s =
     (if rs_ips (fst s) then {''ips''} else {}) \<union> (if rs_container (fst s) then {''container''} else {}) \<union>
     (if rs_containers (fst s) then {''containers''} else {})"

lemma noted_iff:
  "''ips'' \<in> noted_selectors s \<longleftrightarrow> rs_ips (fst s)"
  "''container'' \<in> noted_selectors s \<longleftrightarrow> rs_container (fst s)"
  "''containers'' \<in> noted_selectors s \<longleftrightarrow> rs_containers (fst s)"
  by (simp_all add: noted_selectors_def)

lemma rule_merge:
  assumes "aliases_ok doc"
  shows "inspectRuleYAMLMerge inspect doc v s = yaml_each inspect (merge_sources doc v) s"
  unfolding inspectRuleYAMLMerge_def dereference_unalias [OF assms] option.case(2)
  by (cases "yaml_deref doc (unalias doc v)") (simp_all add: merge_sources_def yaml_each_single del: yaml_each.simps(2))

lemma inspectRuleYAML_walk:
  assumes "aliases_ok doc"
  shows "inspectRuleYAML (Suc n) doc p s =
    (if \<not> is_mapping doc (unalias doc p) \<or> unalias doc p \<in> snd s then Some (s, None)
     else yaml_each (\<lambda>(k, v). if isYAMLMergeKey doc k then yaml_each (inspectRuleYAML n doc) (merge_sources doc v)
         else inspect_rule_field n doc k v)
       (yaml_pairs doc (unalias doc p)) (fst s, insert (unalias doc p) (snd s)))"
proof -
  have merge: "inspectRuleYAMLMerge inspect doc v = yaml_each inspect (merge_sources doc v)" for inspect v
    by (rule ext) (rule rule_merge [OF assms])
  show ?thesis
  proof (cases "is_mapping doc (unalias doc p)")
    case False
    then show ?thesis by (auto simp: dereference_unalias [OF assms] walk_guard split: option.splits)
  next
    case True
    then obtain node where node: "yaml_deref doc (unalias doc p) = Some node" "yn_Kind node = MappingNode"
      by (auto simp: walk_guard)
    show ?thesis
      unfolding inspectRuleYAML.simps(2) dereference_unalias [OF assms] option.case(2) node(1) merge
      using node True by (simp add: yaml_pairs_def del: insert_iff)
  qed
qed

lemma look_rule:
  assumes "aliases_ok doc" "2 + length doc \<le> n"
  shows "\<exists>s' e. inspect_rule_field n doc k v s = Some (s', e) \<and>
    (e \<noteq> None \<longleftrightarrow> \<not> known_field doc rule_fields k \<or> key_is doc k ''verdict'' \<and> verdict_refused doc v) \<and>
    (e = None \<longrightarrow> snd s' = snd s \<and>
      noted_selectors s' = noted_selectors s \<union> {name \<in> {''ips'', ''container'', ''containers''}. key_is doc k name})"
proof (cases "yaml_deref doc k")
  case None
  then show ?thesis by (simp add: inspect_rule_field_def known_field_def key_is_def split: prod.splits)
next
  case (Some node)
  then have key: "key_is doc k name \<longleftrightarrow> yn_Value node = name" for name by (simp add: key_is_def)
  obtain seen e where verdict_run: "inspectVerdictYAML n doc v {} = Some (seen, e)" "e \<noteq> None \<longleftrightarrow> verdict_refused doc v"
    using inspectVerdictYAML_correct [OF assms(1), of n v] assms(2) by auto
  have none: "{name \<in> {''ips'', ''container'', ''containers''}. key_is doc k name} =
      {''ips'', ''container'', ''containers''} \<inter> {yn_Value node}"
    by (auto simp: key)
  have known: "known_field doc rule_fields k \<longleftrightarrow> yn_Value node \<in> set rule_fields"
    by (auto simp: known_field_def key)
  obtain sel seen' where s: "s = (sel, seen')" by (cases s)
  consider (verdict) "yn_Value node = ''verdict''" | (ips) "yn_Value node = ''ips''"
    | (container) "yn_Value node = ''container''" | (containers) "yn_Value node = ''containers''"
    | (other) "yn_Value node \<in> {''log_prefix'', ''network'', ''proto'', ''src_ports'', ''dst_ports''}"
    | (unknown) "yn_Value node \<notin> set rule_fields"
    by (auto simp: rule_fields_def)
  then show ?thesis
  proof cases
    case verdict
    then show ?thesis
      unfolding none known key [of "''verdict''"] using verdict_run by (simp add: inspect_rule_field_def Some rule_fields_def s)
  next
    case ips
    then show ?thesis
      unfolding none known key [of "''verdict''"] by (simp add: inspect_rule_field_def Some rule_fields_def s noted_selectors_def insert_commute)
  next
    case container
    then show ?thesis
      unfolding none known key [of "''verdict''"] by (simp add: inspect_rule_field_def Some rule_fields_def s noted_selectors_def insert_commute)
  next
    case containers
    then show ?thesis
      unfolding none known key [of "''verdict''"] by (simp add: inspect_rule_field_def Some rule_fields_def s noted_selectors_def insert_commute)
  next
    case other
    then show ?thesis
      unfolding none known key [of "''verdict''"] by (elim insertE emptyE) (simp_all add: inspect_rule_field_def Some rule_fields_def s)
  next
    case unknown
    then show ?thesis
      unfolding none known key [of "''verdict''"] by (simp add: inspect_rule_field_def Some rule_fields_def s)
  qed
qed

interpretation rule_walk: yaml_walk doc "\<lambda>n p s. inspectRuleYAML n doc p s" "\<lambda>n k v s. inspect_rule_field n doc k v s"
  snd "\<lambda>p s. (fst s, insert p (snd s))" noted_selectors "{''ips'', ''container'', ''containers''}"
  "\<lambda>k v. \<not> known_field doc rule_fields k \<or> key_is doc k ''verdict'' \<and> verdict_refused doc v" "2 + length doc" for doc
proof
  show "aliases_ok doc \<Longrightarrow> 0 < n \<Longrightarrow> inspectRuleYAML (Suc n) doc p s =
    (if \<not> is_mapping doc (unalias doc p) \<or> unalias doc p \<in> snd s then Some (s, None)
     else yaml_each (\<lambda>(k, v). if isYAMLMergeKey doc k then yaml_each (\<lambda>p s. inspectRuleYAML n doc p s) (merge_sources doc v)
         else (\<lambda>s. inspect_rule_field n doc k v s))
       (yaml_pairs doc (unalias doc p)) (fst s, insert (unalias doc p) (snd s)))" for n p s
    by (rule inspectRuleYAML_walk)
  show "aliases_ok doc \<Longrightarrow> 2 + length doc \<le> n \<Longrightarrow> \<exists>s' e. inspect_rule_field n doc k v s = Some (s', e) \<and>
    (e \<noteq> None \<longleftrightarrow> \<not> known_field doc rule_fields k \<or> key_is doc k ''verdict'' \<and> verdict_refused doc v) \<and>
    (e = None \<longrightarrow> snd s' = snd s \<and>
      noted_selectors s' = noted_selectors s \<union> {name \<in> {''ips'', ''container'', ''containers''}. key_is doc k name})"
    for n k v s by (rule look_rule)
qed (simp_all add: noted_selectors_def)

lemma inspectRuleYAML_correct:
  assumes "aliases_ok doc" "2 * length doc + 4 \<le> n" "snd s = {}" "noted_selectors s = {}"
  shows "\<exists>s' e. inspectRuleYAML n doc p s = Some (s', e) \<and> (e \<noteq> None \<longleftrightarrow> rule_refused doc p) \<and>
    (e = None \<longrightarrow> noted_selectors s' = {name \<in> {''ips'', ''container'', ''containers''}. mentions doc p name})"
  using rule_walk.walk_correct [OF assms(1), of n s p] assms(2-4)
  unfolding rule_refused_def rule_walk.bad_node_def by simp


section \<open>What decoding a rule records\<close>

lemma UnmarshalYAML_selectors:
  assumes "aliases_ok doc" "2 * length doc + 4 \<le> n"
  shows "\<exists>r. UnmarshalYAML n decode doc p = Some r \<and> (isl r \<longleftrightarrow> rule_refused doc p \<or> isl (decode p)) \<and>
    (\<forall>e. r = Inl e \<longrightarrow> rule_refused doc p \<or> decode p = Inl e) \<and>
    (\<forall>rule. r = Inr rule \<longrightarrow> (\<exists>decoded. decode p = Inr decoded \<and>
       rule = decoded\<lparr>r_ipsSet := mentions doc p ''ips'', r_containerSet := mentions doc p ''container'',
         r_containersSet := mentions doc p ''containers''\<rparr>))"
proof -
  let ?s = "(\<lparr>rs_ips = False, rs_container = False, rs_containers = False\<rparr>, {}) :: inspection"
  obtain s e where run: "inspectRuleYAML n doc p ?s = Some (s, e)" "e \<noteq> None \<longleftrightarrow> rule_refused doc p"
      "e = None \<Longrightarrow> noted_selectors s = {name \<in> {''ips'', ''container'', ''containers''}. mentions doc p name}"
    using inspectRuleYAML_correct [OF assms, of ?s p] by (auto simp: noted_selectors_def)
  show ?thesis
  proof (cases e)
    case None
    then have "rs_ips (fst s) = mentions doc p ''ips''" "rs_container (fst s) = mentions doc p ''container''"
        "rs_containers (fst s) = mentions doc p ''containers''"
      using run(3) unfolding noted_iff [symmetric] by simp_all
    then show ?thesis
      using run(1,2) None by (cases s; cases "decode p") (simp_all add: UnmarshalYAML_def)
  next
    case (Some e')
    then show ?thesis using run(1,2) by (simp add: UnmarshalYAML_def)
  qed
qed

lemma selectors_set:
  assumes "aliases_ok doc" "2 * length doc + 4 \<le> n" "UnmarshalYAML n decode doc p = Some (Inr rule)"
  shows "r_ipsSet rule = mentions doc p ''ips''" "r_containerSet rule = mentions doc p ''container''"
    "r_containersSet rule = mentions doc p ''containers''"
  using UnmarshalYAML_selectors [OF assms(1,2), of decode p] assms(3) by auto

text \<open>C7: A rule's YAML node is inspected to the end, whatever aliases and merge keys it has, even when they lead in
  circles. The rule is refused exactly when one of the mappings that make it up (its own, or one merged into it)
  has a field that rules, or verdicts, do not have, or when the decoder refuses it; otherwise it is what the
  decoder says, with each destination selector marked as set exactly when a mapping that makes it up
  mentions the selector, with a value or without.
\<close>

theorem UnmarshalYAML_correct:
  assumes "aliases_ok doc" "2 * length doc + 4 \<le> n"
  shows "\<exists>r. UnmarshalYAML n decode doc p = Some r \<and>
    (case r of
       Inl e \<Rightarrow> rule_refused doc p \<or> decode p = Inl e
     | Inr rule \<Rightarrow> \<not> rule_refused doc p \<and>
         (\<exists>decoded. decode p = Inr decoded \<and>
            rule = decoded\<lparr>r_ipsSet := mentions doc p ''ips'', r_containerSet := mentions doc p ''container'',
              r_containersSet := mentions doc p ''containers''\<rparr>))"
  using UnmarshalYAML_selectors [OF assms, of decode p] by (auto split: sum.splits)

text \<open>A rule that merges a shared mapping (position 9), which merges itself.\<close>

definition yaml_scalar :: "string \<Rightarrow> yaml_node" where
  "yaml_scalar t = \<lparr>yn_Kind = ScalarNode, yn_Tag = [], yn_Value = t, yn_Line = 1, yn_Content = [], yn_Alias = None\<rparr>"

definition yaml_parent :: "yaml_kind \<Rightarrow> nat list \<Rightarrow> yaml_node" where
  "yaml_parent kind ps = \<lparr>yn_Kind = kind, yn_Tag = [], yn_Value = [], yn_Line = 1, yn_Content = map Some ps, yn_Alias = None\<rparr>"

definition sample_doc :: yaml_doc where
  "sample_doc =
     [yaml_parent MappingNode [1, 2, 3, 4, 5, 6, 7, 8], yaml_scalar ''<<'',
      (yaml_parent AliasNode [])\<lparr>yn_Alias := Some 9\<rparr>, yaml_scalar ''proto'', yaml_scalar ''tcp'',
      yaml_scalar ''dst_ports'', yaml_parent SequenceNode [14], yaml_scalar ''verdict'', yaml_parent MappingNode [],
      yaml_parent MappingNode [1, 2, 10, 11, 12, 13], yaml_scalar ''container'', yaml_scalar ''db'',
      yaml_scalar ''network'', yaml_scalar ''backend'', yaml_scalar ''80'']"

definition sample_decoded :: ruleConfig where
  "sample_decoded = zero_rule\<lparr>r_Network := ''backend'', r_Container := ''db'', r_Proto := tcp,
     r_DstPorts := [\<lparr>rp_single = 80, rp_interval = zero_interval\<rparr>]\<rparr>"

theorem UnmarshalYAML_correct_witness:
  "aliases_ok sample_doc \<and> 2 * length sample_doc + 4 \<le> 40 \<and>
   (\<exists>r. UnmarshalYAML 40 (\<lambda>_. Inr sample_decoded) sample_doc (Some 0) = Some r \<and>
    (case r of
       Inl e \<Rightarrow> rule_refused sample_doc (Some 0) \<or> (Inr sample_decoded :: ruleConfig result) = Inl e
     | Inr rule \<Rightarrow> \<not> rule_refused sample_doc (Some 0) \<and>
         (\<exists>decoded. (Inr sample_decoded :: ruleConfig result) = Inr decoded \<and>
            rule = decoded\<lparr>r_ipsSet := mentions sample_doc (Some 0) ''ips'',
              r_containerSet := mentions sample_doc (Some 0) ''container'',
              r_containersSet := mentions sample_doc (Some 0) ''containers''\<rparr>)))"
proof -
  have "aliases_ok sample_doc" "2 * length sample_doc + 4 \<le> 40" by code_simp+
  then show ?thesis
    using UnmarshalYAML_correct [of sample_doc 40 "\<lambda>_. Inr sample_decoded" "Some 0"] by blast
qed

text \<open>C6: A destination selector that a rule mentions, in its own mapping or in one merged into it, never turns into
  a rule for every destination by being left empty: a rule that decodes and passes validation has
  addresses when it mentions \<open>ips\<close>, a container that is not blank when it mentions \<open>container\<close>, and containers that
  are not blank when it mentions \<open>containers\<close>; and it mentions at most one of the three.
\<close>

theorem explicit_selectors_kept:
  assumes "aliases_ok doc" "2 * length doc + 4 \<le> n"
    and "UnmarshalYAML n decode doc p = Some (Inr rule)" "validateRule rule = None"
  shows "(mentions doc p ''ips'' \<longrightarrow> slice_elems (r_IPs rule) \<noteq> [] \<and>
      \<not> mentions doc p ''container'' \<and> \<not> mentions doc p ''containers'') \<and>
    (mentions doc p ''container'' \<longrightarrow> TrimSpace (r_Container rule) \<noteq> [] \<and> \<not> mentions doc p ''containers'') \<and>
    (mentions doc p ''containers'' \<longrightarrow> slice_elems (r_Containers rule) \<noteq> [] \<and>
      (\<forall>c \<in> set (slice_elems (r_Containers rule)). TrimSpace c \<noteq> []))"
proof -
  have "hasIPs rule" if "mentions doc p ''ips''" using selectors_set [OF assms(1-3)] that by (simp add: hasIPs_def)
  moreover have "hasContainer rule" if "mentions doc p ''container''"
    using selectors_set [OF assms(1-3)] that by (simp add: hasContainer_def)
  moreover have "hasContainers rule" if "mentions doc p ''containers''"
    using selectors_set [OF assms(1-3)] that by (simp add: hasContainers_def)
  ultimately show ?thesis using assms(4) unfolding validateRule_accepts rule_accepted_def by blast
qed

theorem explicit_selectors_kept_witness:
  "\<exists>rule. UnmarshalYAML 40 (\<lambda>_. Inr sample_decoded) sample_doc (Some 0) = Some (Inr rule) \<and> validateRule rule = None \<and>
    mentions sample_doc (Some 0) ''container'' \<and> TrimSpace (r_Container rule) \<noteq> [] \<and>
    \<not> mentions sample_doc (Some 0) ''containers''"
proof -
  define rule where "rule = sample_decoded\<lparr>r_containerSet := True\<rparr>"
  have ok: "aliases_ok sample_doc" "2 * length sample_doc + 4 \<le> 40" by code_simp+
  have run: "UnmarshalYAML 40 (\<lambda>_. Inr sample_decoded) sample_doc (Some 0) = Some (Inr rule)"
    unfolding rule_def by code_simp
  have valid: "validateRule rule = None" unfolding rule_def by code_simp
  have "mentions sample_doc (Some 0) ''container''"
    using selectors_set [OF ok run] by (simp add: rule_def)
  then show ?thesis
    using run valid explicit_selectors_kept [OF ok run valid] by blast
qed

end
