(* ===== verification/Intervals.thy ===== *)
theory Intervals
  imports Go_Net
begin

text \<open>
  The interval arithmetic of \<open>create.go\<close>: \<open>mergeUint32Intervals\<close> and
  \<open>mergeUint16Intervals\<close>, which turn a list of inclusive intervals into the sorted list of
  maximal disjoint ones. The two Go functions have the same text at two widths, so one
  polymorphic definition over \<open>'a word\<close> carries the lemmas, and each Go function is its
  instance. Overflow matters: \<open>last.high + 1\<close> is only formed when \<open>last.high\<close> is not
  the largest value.
\<close>

type_synonym 'a interval = "'a word \<times> 'a word"

definition covers_interval :: "'a::len interval list \<Rightarrow> 'a word \<Rightarrow> bool" where
  "covers_interval ivs x \<longleftrightarrow> (\<exists>(l, h) \<in> set ivs. l \<le> x \<and> x \<le> h)"

text \<open>One turn of the loop; \<open>merged\<close> is kept in reverse, so that its head is
  \<open>merged[len(merged)-1]\<close>.\<close>

fun merge_step :: "'a::len interval list \<Rightarrow> 'a interval \<Rightarrow> 'a interval list" where
  "merge_step [] iv = [iv]"
| "merge_step ((ll, lh) # merged) (l, h) =
     (if l \<le> lh \<or> (lh \<noteq> -1 \<and> l = lh + 1)
      then (ll, max lh h) # merged
      else (l, h) # (ll, lh) # merged)"

definition merge_intervals :: "'a::len interval list \<Rightarrow> 'a interval list" where
  "merge_intervals ivs = rev (foldl merge_step [] (sort ivs))"

definition mergeUint32Intervals :: "32 interval list \<Rightarrow> 32 interval list" where
  "mergeUint32Intervals ivs = merge_intervals ivs"

definition mergeUint16Intervals :: "16 interval list \<Rightarrow> 16 interval list" where
  "mergeUint16Intervals ivs = merge_intervals ivs"

lemma covers_interval_simps [simp]:
  "covers_interval [] x \<longleftrightarrow> False"
  "covers_interval ((l, h) # ivs) x \<longleftrightarrow> (l \<le> x \<and> x \<le> h) \<or> covers_interval ivs x"
  by (auto simp: covers_interval_def)

lemma covers_interval_append [simp]:
  "covers_interval (as @ bs) x \<longleftrightarrow> covers_interval as x \<or> covers_interval bs x"
  by (auto simp: covers_interval_def)

lemma covers_interval_rev [simp]: "covers_interval (rev ivs) x \<longleftrightarrow> covers_interval ivs x"
  by (simp add: covers_interval_def)

lemma covers_interval_sort [simp]: "covers_interval (sort ivs) x \<longleftrightarrow> covers_interval ivs x"
  by (simp add: covers_interval_def)

text \<open>A step keeps the union, provided the new interval starts no earlier than the last one; no
  interval needs to be valid for this.\<close>

lemma covers_merge_step:
  assumes "\<And>ll lh acc'. acc = (ll, lh) # acc' \<Longrightarrow> ll \<le> l"
  shows "covers_interval (merge_step acc (l, h)) x \<longleftrightarrow>
    covers_interval acc x \<or> (l \<le> x \<and> x \<le> h)"
proof (cases acc)
  case Nil
  then show ?thesis by simp
next
  case (Cons last acc')
  obtain ll lh where last: "last = (ll, lh)" by force
  have "ll \<le> l" using assms Cons last by blast
  moreover have "l \<le> x" if "\<not> x \<le> lh" and "l \<le> lh \<or> (lh \<noteq> -1 \<and> l = lh + 1)"
    using that by (auto simp: inc_less_eq_iff)
  ultimately show ?thesis using Cons last by (auto simp: le_max_iff_disj)
qed

lemma merge_step_head:
  "merge_step acc (l, h) = (ll', lh') # acc' \<Longrightarrow>
   (\<And>ll lh acc''. acc = (ll, lh) # acc'' \<Longrightarrow> ll \<le> l) \<Longrightarrow> ll' \<le> l"
  by (cases acc) (auto split: if_splits)

lemma covers_foldl_merge_step:
  assumes "sorted (map fst ivs)"
    and "\<And>ll lh acc'. acc = (ll, lh) # acc' \<Longrightarrow> \<forall>(l, h) \<in> set ivs. ll \<le> l"
  shows "covers_interval (foldl merge_step acc ivs) x \<longleftrightarrow>
    covers_interval acc x \<or> covers_interval ivs x"
  using assms
proof (induction ivs arbitrary: acc)
  case Nil
  then show ?case by simp
next
  case (Cons iv ivs)
  obtain l h where iv: "iv = (l, h)" by force
  have head: "ll \<le> l" if "acc = (ll, lh) # acc'" for ll lh acc'
    using Cons.prems(2) [OF that] iv by auto
  have rest: "\<forall>(l', h') \<in> set ivs. ll' \<le> l'" if "merge_step acc (l, h) = (ll', lh') # acc'" for ll' lh' acc'
  proof -
    have "ll' \<le> l" using merge_step_head [OF that] head by blast
    moreover have "\<forall>(l', h') \<in> set ivs. l \<le> l'" using Cons.prems(1) iv by auto
    ultimately show ?thesis by fastforce
  qed
  have "covers_interval (foldl merge_step (merge_step acc (l, h)) ivs) x \<longleftrightarrow>
      covers_interval (merge_step acc (l, h)) x \<or> covers_interval ivs x"
    using Cons.prems(1) iv rest by (intro Cons.IH) auto
  also have "covers_interval (merge_step acc (l, h)) x \<longleftrightarrow> covers_interval acc x \<or> (l \<le> x \<and> x \<le> h)"
    using head by (intro covers_merge_step) auto
  finally show ?case by (auto simp: iv)
qed

lemma sorted_map_fst_sort: "sorted (map fst (sort (ivs :: 'a::len interval list)))"
proof -
  have "sorted xs \<Longrightarrow> sorted (map fst xs)" for xs :: "'a interval list"
    by (induction xs) (auto simp: less_eq_prod_def order.strict_iff_order)
  then show ?thesis by simp
qed

lemma covers_merge_intervals: "covers_interval (merge_intervals ivs) x \<longleftrightarrow> covers_interval ivs x"
  using covers_foldl_merge_step [of "sort ivs" "[]" x] sorted_map_fst_sort [of ivs]
  by (simp add: merge_intervals_def)

text \<open>The result is sorted, and between two intervals there is a gap of at least one value.\<close>

definition gap_after :: "'a::len interval \<Rightarrow> 'a interval \<Rightarrow> bool" where
  "gap_after a b \<longleftrightarrow> snd a \<noteq> -1 \<and> snd a + 1 < fst b"

definition valid_intervals :: "'a::len interval list \<Rightarrow> bool" where
  "valid_intervals ivs \<longleftrightarrow> (\<forall>(l, h) \<in> set ivs. l \<le> h)"

definition separated :: "'a::len interval list \<Rightarrow> bool" where
  "separated ivs \<longleftrightarrow> sorted_wrt gap_after ivs"

lemma gap_after_less: "gap_after (l, h) (l', h') \<Longrightarrow> h < l'"
  by (auto simp: gap_after_def) (metis inc_less_eq_iff order.strict_iff_order order.strict_trans2)

lemma merge_step_invariant:
  assumes "valid_intervals acc" "separated (rev acc)" "l \<le> h"
    and "\<And>ll lh acc'. acc = (ll, lh) # acc' \<Longrightarrow> ll \<le> l"
  shows "valid_intervals (merge_step acc (l, h)) \<and> separated (rev (merge_step acc (l, h)))"
proof (cases acc)
  case Nil
  then show ?thesis using assms(3) by (simp add: valid_intervals_def separated_def)
next
  case (Cons last acc')
  obtain ll lh where last: "last = (ll, lh)" by force
  have v: "ll \<le> lh" "valid_intervals acc'" using assms(1) Cons last by (auto simp: valid_intervals_def)
  have sep: "separated (rev acc')" "\<forall>b \<in> set acc'. gap_after b (ll, lh)"
    using assms(2) Cons last by (auto simp: separated_def sorted_wrt_append)
  show ?thesis
  proof (cases "l \<le> lh \<or> (lh \<noteq> -1 \<and> l = lh + 1)")
    case True
    then show ?thesis using v sep Cons last
      by (auto simp: valid_intervals_def separated_def sorted_wrt_append gap_after_def le_max_iff_disj)
  next
    case False
    then have "lh < l" by (simp add: linorder_not_le)
    then have "lh \<noteq> -1" by (metis word_order.extremum not_le)
    from \<open>lh < l\<close> have "lh + 1 \<le> l" by (rule inc_le)
    with False \<open>lh \<noteq> -1\<close> have lt: "lh + 1 < l" by (auto simp: order.order_iff_strict)
    have "gap_after b (l, h)" if "b \<in> set acc'" for b
    proof -
      have "gap_after b (ll, lh)" using sep that by blast
      then show ?thesis using v(1) \<open>lh < l\<close> by (auto simp: gap_after_def)
    qed
    with False v sep Cons last assms(3) lt \<open>lh \<noteq> -1\<close> show ?thesis
      by (auto simp: valid_intervals_def separated_def sorted_wrt_append gap_after_def)
  qed
qed

lemma foldl_merge_step_invariant:
  assumes "valid_intervals acc" "separated (rev acc)" "valid_intervals ivs" "sorted (map fst ivs)"
    and "\<And>ll lh acc'. acc = (ll, lh) # acc' \<Longrightarrow> \<forall>(l, h) \<in> set ivs. ll \<le> l"
  shows "valid_intervals (foldl merge_step acc ivs) \<and> separated (rev (foldl merge_step acc ivs))"
  using assms
proof (induction ivs arbitrary: acc)
  case Nil
  then show ?case by simp
next
  case (Cons iv ivs)
  obtain l h where iv: "iv = (l, h)" by force
  have head: "ll \<le> l" if "acc = (ll, lh) # acc'" for ll lh acc'
    using Cons.prems(5) [OF that] iv by auto
  have "l \<le> h" "valid_intervals ivs" using Cons.prems(3) iv by (auto simp: valid_intervals_def)
  have step: "valid_intervals (merge_step acc (l, h)) \<and> separated (rev (merge_step acc (l, h)))"
    using Cons.prems(1,2) \<open>l \<le> h\<close> head by (intro merge_step_invariant) auto
  have rest: "\<forall>(l', h') \<in> set ivs. ll' \<le> l'" if "merge_step acc (l, h) = (ll', lh') # acc'" for ll' lh' acc'
    using merge_step_head [OF that] head Cons.prems(4) iv by (fastforce simp: image_iff)
  show ?case
    using Cons.IH [of "merge_step acc (l, h)"] step rest \<open>valid_intervals ivs\<close> Cons.prems(4) iv by auto
qed

lemma merge_intervals_normal:
  assumes "valid_intervals ivs"
  shows "valid_intervals (merge_intervals ivs) \<and> separated (merge_intervals ivs)"
proof -
  have "valid_intervals (sort ivs)" using assms by (simp add: valid_intervals_def)
  then have "valid_intervals (foldl merge_step [] (sort ivs)) \<and>
      separated (rev (foldl merge_step [] (sort ivs)))"
    using sorted_map_fst_sort [of ivs]
    by (intro foldl_merge_step_invariant) (auto simp: valid_intervals_def separated_def)
  then show ?thesis by (simp add: merge_intervals_def valid_intervals_def)
qed

section \<open>Properties\<close>

text \<open>C40: Merging address intervals keeps exactly the covered addresses, whatever the input, and on
  valid intervals yields valid, sorted intervals with a gap of at least one address between any
  two, so that no two can be joined any further; the addition never wraps around.\<close>

theorem mergeUint32Intervals_correct:
  "(\<forall>x. covers_interval (mergeUint32Intervals ivs) x \<longleftrightarrow> covers_interval ivs x) \<and>
   (valid_intervals ivs \<longrightarrow> valid_intervals (mergeUint32Intervals ivs) \<and>
      sorted_wrt (\<lambda>a b. snd a \<noteq> -1 \<and> snd a + 1 < fst b) (mergeUint32Intervals ivs))"
  using merge_intervals_normal [of ivs]
  by (simp_all add: mergeUint32Intervals_def covers_merge_intervals separated_def gap_after_def [abs_def])

theorem mergeUint32Intervals_correct_witness:
  "valid_intervals [(10 :: u32, 20), (21, 30), (4294967295, 4294967295), (5, 12)] \<and>
   mergeUint32Intervals [(10, 20), (21, 30), (4294967295, 4294967295), (5, 12)] = [(5, 30), (4294967295, 4294967295)] \<and>
   valid_intervals (mergeUint32Intervals [(10, 20), (21, 30), (4294967295, 4294967295), (5, 12)])"
proof -
  have v: "valid_intervals [(10 :: u32, 20), (21, 30), (4294967295, 4294967295), (5, 12)]"
    by (simp add: valid_intervals_def)
  have "mergeUint32Intervals [(10, 20), (21, 30), (4294967295, 4294967295), (5, 12)] = [(5, 30), (4294967295, 4294967295)]"
    by (simp add: mergeUint32Intervals_def merge_intervals_def max_def)
  with v mergeUint32Intervals_correct [of "[(10, 20), (21, 30), (4294967295, 4294967295), (5, 12)]"] show ?thesis by blast
qed

text \<open>The 16-bit version for ports: same coverage, and on valid intervals a sorted, valid list of
  intervals that cannot be joined any further.\<close>

theorem mergeUint16Intervals_correct:
  "(\<forall>x. covers_interval (mergeUint16Intervals ivs) x \<longleftrightarrow> covers_interval ivs x) \<and>
   (valid_intervals ivs \<longrightarrow> valid_intervals (mergeUint16Intervals ivs) \<and>
      sorted_wrt (\<lambda>a b. snd a \<noteq> -1 \<and> snd a + 1 < fst b) (mergeUint16Intervals ivs))"
  using merge_intervals_normal [of ivs]
  by (simp_all add: mergeUint16Intervals_def covers_merge_intervals separated_def gap_after_def [abs_def])

theorem mergeUint16Intervals_correct_witness:
  "valid_intervals [(8000 :: u16, 65535), (1, 80), (81, 443)] \<and>
   mergeUint16Intervals [(8000, 65535), (1, 80), (81, 443)] = [(1, 443), (8000, 65535)] \<and>
   valid_intervals (mergeUint16Intervals [(8000, 65535), (1, 80), (81, 443)])"
proof -
  have v: "valid_intervals [(8000 :: u16, 65535), (1, 80), (81, 443)]"
    by (simp add: valid_intervals_def)
  have "mergeUint16Intervals [(8000, 65535), (1, 80), (81, 443)] = [(1, 443), (8000, 65535)]"
    by (simp add: mergeUint16Intervals_def merge_intervals_def max_def)
  with v mergeUint16Intervals_correct [of "[(8000, 65535), (1, 80), (81, 443)]"] show ?thesis by blast
qed

end
