(* ===== verification/Nft.thy ===== *)
theory Nft
  imports Go_Net
begin

text \<open>
  The data of \<open>github.com/google/nftables\<close> that the program builds and inspects: tables,
  chains, sets and their elements, expressions and rules, each with the fields the program reads or
  writes, and the constants and package variables of \<open>base.go\<close> and \<open>create.go\<close> over
  them. Pointers that the program tests against nil are options. A field keeps its struct's
  initials as a prefix (\<open>t_\<close> Table, \<open>ch_\<close> Chain, \<open>s_\<close> Set, \<open>el_\<close>
  SetElement, \<open>ru_\<close> Rule, two letters per expression). Set ids and rule handles are
  \<open>nat\<close>: the counters that produce them never run out of their 32 and 64 bits here.
\<close>

section \<open>Tables, chains and sets\<close>

datatype table_family = TableFamilyIPv4 | TableFamilyIPv6 | TableFamilyOther nat

record nft_table =
  t_Name :: string
  t_Family :: table_family

datatype chain_hook = ChainHookPrerouting | ChainHookInput | ChainHookForward | ChainHookOutput
  | ChainHookPostrouting | ChainHookIngress

datatype chain_policy = ChainPolicyDrop | ChainPolicyAccept

record nft_chain =
  ch_Name :: string
  ch_Table :: "nft_table option"
  ch_Hooknum :: "chain_hook option"
  ch_Priority :: "int option"
  ch_Type :: string
  ch_Policy :: "chain_policy option"
  ch_Device :: string

definition ChainTypeFilter :: string where "ChainTypeFilter = ''filter''"
definition ChainPriorityFilter :: int where "ChainPriorityFilter = 0"

record set_datatype =
  dt_Name :: string
  dt_Bytes :: nat
  dt_nftMagic :: nat

definition TypeIPAddr :: set_datatype where
  "TypeIPAddr = \<lparr>dt_Name = ''ipv4_addr'', dt_Bytes = 4, dt_nftMagic = 7\<rparr>"

definition TypeInetService :: set_datatype where
  "TypeInetService = \<lparr>dt_Name = ''inet_service'', dt_Bytes = 2, dt_nftMagic = 13\<rparr>"

definition TypeVerdict :: set_datatype where
  "TypeVerdict = \<lparr>dt_Name = ''verdict'', dt_Bytes = 0, dt_nftMagic = 1\<rparr>"

definition TypeInvalid :: set_datatype where
  "TypeInvalid = \<lparr>dt_Name = [], dt_Bytes = 0, dt_nftMagic = 0\<rparr>"

record nft_set =
  s_Table :: "nft_table option"
  s_ID :: nat
  s_Name :: string
  s_Anonymous :: bool
  s_Constant :: bool
  s_Interval :: bool
  s_AutoMerge :: bool
  s_IsMap :: bool
  s_HasTimeout :: bool
  s_Counter :: bool
  s_Dynamic :: bool
  s_Concatenation :: bool
  s_Timeout :: nat
  s_KeyType :: set_datatype
  s_DataType :: set_datatype
  s_Size :: nat

text \<open>A set literal with only the table given: every other field has its zero value.\<close>

definition zero_set :: "nft_table option \<Rightarrow> nft_set" where
  "zero_set t = \<lparr>s_Table = t, s_ID = 0, s_Name = [], s_Anonymous = False, s_Constant = False,
     s_Interval = False, s_AutoMerge = False, s_IsMap = False, s_HasTimeout = False,
     s_Counter = False, s_Dynamic = False, s_Concatenation = False, s_Timeout = 0,
     s_KeyType = TypeInvalid, s_DataType = TypeInvalid, s_Size = 0\<rparr>"

section \<open>Expressions\<close>

record verdict_expr =
  vd_Kind :: int
  vd_Chain :: string

definition VerdictReturn :: int where "VerdictReturn = -5"
definition VerdictGoto :: int where "VerdictGoto = -4"
definition VerdictJump :: int where "VerdictJump = -3"
definition VerdictDrop :: int where "VerdictDrop = 0"
definition VerdictAccept :: int where "VerdictAccept = 1"

lemmas verdict_kinds = VerdictReturn_def VerdictGoto_def VerdictJump_def VerdictDrop_def
  VerdictAccept_def

datatype payload_op = PayloadLoad | PayloadWrite

datatype payload_base = PayloadBaseLLHeader | PayloadBaseNetworkHeader | PayloadBaseTransportHeader

record payload_expr =
  pl_OperationType :: payload_op
  pl_DestRegister :: nat
  pl_SourceRegister :: nat
  pl_Base :: payload_base
  pl_Offset :: nat
  pl_Len :: nat

datatype cmp_op = CmpOpEq | CmpOpNeq | CmpOpLt | CmpOpLte | CmpOpGt | CmpOpGte

record cmp_expr =
  cm_Op :: cmp_op
  cm_Register :: nat
  cm_Data :: "byte list"

record lookup_expr =
  lk_SourceRegister :: nat
  lk_DestRegister :: nat
  lk_IsDestRegSet :: bool
  lk_SetID :: nat
  lk_SetName :: string
  lk_Invert :: bool

datatype meta_key = MetaKeyL4PROTO | MetaKeyOther nat

record meta_expr =
  me_Key :: meta_key
  me_SourceRegister :: bool
  me_Register :: nat

record bitwise_expr =
  bw_SourceRegister :: nat
  bw_DestRegister :: nat
  bw_Len :: nat
  bw_Mask :: "byte list"
  bw_Xor :: "byte list"

datatype ct_key = CtKeySTATE | CtKeyOther nat

record ct_expr =
  cx_Key :: ct_key
  cx_SourceRegister :: bool
  cx_Register :: nat

record log_expr =
  lg_Key :: nat
  lg_Level :: nat
  lg_Data :: string

text \<open>\<open>expr.Any\<close>: the expressions of the program, and any other expression the kernel may
  report, named by a tag.\<close>

datatype nexpr =
    ECounter (ctr_Bytes: nat) (ctr_Packets: nat)
  | EPayload payload_expr
  | ECmp cmp_expr
  | ELookup lookup_expr
  | EMeta meta_expr
  | EBitwise bitwise_expr
  | ECt ct_expr
  | ELog log_expr
  | EQueue nat
  | EVerdict verdict_expr
  | EOther string

section \<open>Set elements and rules\<close>

record set_element =
  el_Key :: "byte list"
  el_Val :: "byte list"
  el_KeyEnd :: "byte list"
  el_IntervalEnd :: bool
  el_VerdictData :: "verdict_expr option"
  el_Timeout :: nat

definition key_element :: "byte list \<Rightarrow> set_element" where
  "key_element k = \<lparr>el_Key = k, el_Val = [], el_KeyEnd = [], el_IntervalEnd = False,
     el_VerdictData = None, el_Timeout = 0\<rparr>"

definition end_element :: "byte list \<Rightarrow> set_element" where
  "end_element k = (key_element k)\<lparr>el_IntervalEnd := True\<rparr>"

lemma key_element_sel [simp]:
  "el_Key (key_element k) = k" "el_IntervalEnd (key_element k) = False"
  "el_VerdictData (key_element k) = None" "el_Val (key_element k) = []"
  "el_KeyEnd (key_element k) = []"
  "el_Key (end_element k) = k" "el_IntervalEnd (end_element k) = True"
  by (simp_all add: key_element_def end_element_def)

record nft_rule =
  ru_Table :: "nft_table option"
  ru_Chain :: nft_chain
  ru_Exprs :: "nexpr list"
  ru_UserData :: string
  ru_Handle :: nat

section \<open>Names and package variables of the program\<close>

definition filterTableName :: string where "filterTableName = ''filter''"
definition dockerChainName :: string where "dockerChainName = ''DOCKER-USER''"
definition forwardChainName :: string where "forwardChainName = ''FORWARD''"
definition inputChainName :: string where "inputChainName = ''INPUT''"
definition outputChainName :: string where "outputChainName = ''OUTPUT''"
definition whalewallChainName :: string where "whalewallChainName = ''whalewall''"
definition containerAddrSetName :: string where "containerAddrSetName = ''whalewall-container-addrs''"
definition chainPrefix :: string where "chainPrefix = ''whalewall-''"
definition anonSetName :: string where "anonSetName = ''__set%d''"

lemmas name_defs = filterTableName_def dockerChainName_def forwardChainName_def inputChainName_def
  outputChainName_def whalewallChainName_def containerAddrSetName_def chainPrefix_def anonSetName_def

definition filterTable :: nft_table where
  "filterTable = \<lparr>t_Name = filterTableName, t_Family = TableFamilyIPv4\<rparr>"

definition regular_chain :: "string \<Rightarrow> nft_chain" where
  "regular_chain name = \<lparr>ch_Name = name, ch_Table = Some filterTable, ch_Hooknum = None,
     ch_Priority = None, ch_Type = ChainTypeFilter, ch_Policy = None, ch_Device = []\<rparr>"

definition whalewallChain :: nft_chain where
  "whalewallChain = regular_chain whalewallChainName"

lemma regular_chain_sel [simp]:
  "ch_Name (regular_chain n) = n" "ch_Table (regular_chain n) = Some filterTable"
  "ch_Hooknum (regular_chain n) = None" "ch_Priority (regular_chain n) = None"
  "ch_Type (regular_chain n) = ChainTypeFilter" "ch_Policy (regular_chain n) = None"
  "ch_Device (regular_chain n) = []"
  by (simp_all add: regular_chain_def)

lemma whalewallChain_sel [simp]:
  "ch_Name whalewallChain = whalewallChainName" "ch_Table whalewallChain = Some filterTable"
  by (simp_all add: whalewallChain_def)

definition allowReturnVerdict :: nexpr where
  "allowReturnVerdict = EVerdict \<lparr>vd_Kind = VerdictReturn, vd_Chain = []\<rparr>"

definition dropVerdict :: nexpr where
  "dropVerdict = EVerdict \<lparr>vd_Kind = VerdictDrop, vd_Chain = []\<rparr>"

definition zeroUint32 :: "byte list" where "zeroUint32 = [0, 0, 0, 0]"

section \<open>Schema equality\<close>

text \<open>\<open>pointersEqual\<close> compares two nilable pointers by the values they point to, which is
  equality of options.\<close>

definition pointersEqual :: "'a option \<Rightarrow> 'a option \<Rightarrow> bool" where
  "pointersEqual a b = (case (a, b) of (None, None) \<Rightarrow> True | (Some x, Some y) \<Rightarrow> x = y | _ \<Rightarrow> False)"

lemma pointersEqual_eq [simp]: "pointersEqual a b \<longleftrightarrow> a = b"
  by (auto simp: pointersEqual_def split: option.splits)

definition setSchemasEqual :: "nft_set \<Rightarrow> nft_set \<Rightarrow> bool" where
  "setSchemasEqual a b =
     (case (s_Table a, s_Table b) of
        (Some ta, Some tb) \<Rightarrow>
          t_Name ta = t_Name tb \<and> t_Family ta = t_Family tb \<and>
          s_Anonymous a = s_Anonymous b \<and> s_Constant a = s_Constant b \<and>
          s_Interval a = s_Interval b \<and> s_AutoMerge a = s_AutoMerge b \<and>
          s_IsMap a = s_IsMap b \<and> s_HasTimeout a = s_HasTimeout b \<and>
          s_Counter a = s_Counter b \<and> s_Dynamic a = s_Dynamic b \<and>
          s_Concatenation a = s_Concatenation b \<and> s_Timeout a = s_Timeout b \<and>
          s_KeyType a = s_KeyType b \<and> s_DataType a = s_DataType b \<and> s_Size a = s_Size b
      | _ \<Rightarrow> False)"

definition chainSchemasEqual :: "nft_chain \<Rightarrow> nft_chain \<Rightarrow> bool" where
  "chainSchemasEqual a b =
     (case (ch_Table a, ch_Table b) of
        (Some ta, Some tb) \<Rightarrow>
          ch_Name a = ch_Name b \<and> t_Name ta = t_Name tb \<and> t_Family ta = t_Family tb \<and>
          pointersEqual (ch_Hooknum a) (ch_Hooknum b) \<and>
          pointersEqual (ch_Priority a) (ch_Priority b) \<and>
          pointersEqual (ch_Policy a) (ch_Policy b) \<and>
          ch_Type a = ch_Type b \<and> ch_Device a = ch_Device b
      | _ \<Rightarrow> False)"

lemma chainSchemasEqual_iff:
  "chainSchemasEqual a b \<longleftrightarrow> a = b \<and> ch_Table a \<noteq> None" for a b :: nft_chain
proof -
  have "ta = tb" if "t_Name ta = t_Name tb" "t_Family ta = t_Family tb" for ta tb :: nft_table
    using that by (cases ta, cases tb) simp
  then show ?thesis
    by (cases a, cases b) (auto simp: chainSchemasEqual_def split: option.splits)
qed

end
