(* ===== verification/Steps.thy ===== *)
theory Steps
  imports Prelude
begin

text \<open>
  Fallible steps over a state, the way the program strings them together: a sequence or a loop that
  returns at the first error, and an error that is wrapped on the way out. Both stores of the program,
  the kernel's ruleset and the database, take edits that are queued (\<open>staged\<close>) and take effect
  together at a commit (\<open>committed\<close>); an \<open>edit_spec\<close> says of a step that it leaves
  the committed state alone and relates the staged states before and after. Specifications compose
  along \<open>st_seq\<close> and \<open>st_each\<close>.
\<close>

section \<open>Sequences of steps\<close>

text \<open>A loop over fallible edits that returns at the first error.\<close>

fun st_each :: "('a \<Rightarrow> 'c \<Rightarrow> 'c \<times> error option) \<Rightarrow> 'a list \<Rightarrow> 'c \<Rightarrow> 'c \<times> error option" where
  "st_each f [] c = (c, None)"
| "st_each f (x # xs) c =
     (case f x c of
        (c', Some e) \<Rightarrow> (c', Some e)
      | (c', None) \<Rightarrow> st_each f xs c')"

text \<open>A loop that goes on after an error, and joins the errors at the end.\<close>

fun st_all :: "('a \<Rightarrow> 'c \<Rightarrow> 'c \<times> error option) \<Rightarrow> 'a list \<Rightarrow> 'c \<Rightarrow> 'c \<times> error option list" where
  "st_all f [] c = (c, [])"
| "st_all f (x # xs) c =
     (case f x c of (c, e) \<Rightarrow> (case st_all f xs c of (c, es) \<Rightarrow> (c, e # es)))"

definition st_join :: "('a \<Rightarrow> 'c \<Rightarrow> 'c \<times> error option) \<Rightarrow> 'a list \<Rightarrow> 'c \<Rightarrow> 'c \<times> error option" where
  "st_join f xs c = (case st_all f xs c of (c, es) \<Rightarrow> (c, errors_join es))"

lemma st_all_None:
  assumes "st_all f xs c = (c', es)" "\<forall>e \<in> set es. e = None"
  shows "st_each f xs c = (c', None)"
  using assms by (induction xs arbitrary: c es) (auto split: prod.splits)

text \<open>Steps in sequence, up to the first error.\<close>

fun st_seq :: "('c \<Rightarrow> 'c \<times> error option) list \<Rightarrow> 'c \<Rightarrow> 'c \<times> error option" where
  "st_seq [] c = (c, None)"
| "st_seq (f # fs) c =
     (case f c of (c, Some e) \<Rightarrow> (c, Some e) | (c, None) \<Rightarrow> st_seq fs c)"

text \<open>A step whose error is wrapped.\<close>

definition wrap_step :: "string \<Rightarrow> ('c \<Rightarrow> 'c \<times> error option) \<Rightarrow> 'c \<Rightarrow> 'c \<times> error option" where
  "wrap_step msg f c = (case f c of (c, Some e) \<Rightarrow> (c, Some (Wrap msg e)) | (c, None) \<Rightarrow> (c, None))"

lemma st_seq_append:
  "st_seq (fs @ gs) c = (case st_seq fs c of (c, Some e) \<Rightarrow> (c, Some e) | (c, None) \<Rightarrow> st_seq gs c)"
  by (induction fs arbitrary: c) (auto split: prod.splits option.splits)

lemma st_seq_snoc: "st_seq (fs @ [g]) c = st_seq [st_seq fs, g] c"
  unfolding st_seq_append st_seq.simps by (rule refl)

section \<open>Specifications of steps\<close>

definition edit_spec :: "('c \<Rightarrow> bool) \<Rightarrow> ('c \<Rightarrow> 'r) \<Rightarrow> ('c \<Rightarrow> 'r option) \<Rightarrow>
    ('c \<Rightarrow> 'c \<times> error option) \<Rightarrow> ('r \<Rightarrow> 'r \<Rightarrow> 'r \<Rightarrow> bool) \<Rightarrow> bool" where
  "edit_spec ok committed staged f R \<longleftrightarrow>
     (\<forall>c c' e. ok c \<longrightarrow> f c = (c', e) \<longrightarrow> ok c' \<and> committed c' = committed c \<and>
        (e = None \<longrightarrow> (\<forall>rs'. staged c' = Some rs' \<longrightarrow>
           (\<exists>rs. staged c = Some rs \<and> R (committed c) rs rs'))))"

lemma edit_spec_mono:
  "edit_spec ok committed staged f R \<Longrightarrow> (\<And>k a b. R k a b \<Longrightarrow> S k a b) \<Longrightarrow> edit_spec ok committed staged f S"
  unfolding edit_spec_def by blast

lemma edit_spec_Nil: "edit_spec ok committed staged (st_seq []) (\<lambda>k a b. a = b)"
  by (simp add: edit_spec_def)

lemma edit_spec_Cons:
  assumes "edit_spec ok committed staged f R" "edit_spec ok committed staged (st_seq fs) S"
  shows "edit_spec ok committed staged (st_seq (f # fs)) (\<lambda>k a b. \<exists>m. R k a m \<and> S k m b)"
  unfolding edit_spec_def
proof (intro allI impI)
  fix c c' e
  assume c: "ok c" "st_seq (f # fs) c = (c', e)"
  obtain c1 e1 where f: "f c = (c1, e1)" by force
  have c1: "ok c1" "committed c1 = committed c"
    "\<And>rs'. e1 = None \<Longrightarrow> staged c1 = Some rs' \<Longrightarrow> \<exists>rs. staged c = Some rs \<and> R (committed c) rs rs'"
    using assms(1) c(1) f unfolding edit_spec_def by blast+
  show "ok c' \<and> committed c' = committed c \<and>
        (e = None \<longrightarrow> (\<forall>rs'. staged c' = Some rs' \<longrightarrow>
           (\<exists>rs. staged c = Some rs \<and> (\<exists>m. R (committed c) rs m \<and> S (committed c) m rs'))))"
  proof (cases e1)
    case (Some x)
    with c f c1 show ?thesis by auto
  next
    case None
    with c f have "st_seq fs c1 = (c', e)" by simp
    with assms(2) c1(1) have "ok c'" "committed c' = committed c1"
      "\<And>rs'. e = None \<Longrightarrow> staged c' = Some rs' \<Longrightarrow> \<exists>rs. staged c1 = Some rs \<and> S (committed c1) rs rs'"
      unfolding edit_spec_def by blast+
    with c1 None show ?thesis by metis
  qed
qed

text \<open>Loops over edits: the relation composed along the list.\<close>

fun rel_seq :: "('a \<Rightarrow> 'r \<Rightarrow> 'r \<Rightarrow> bool) \<Rightarrow> 'a list \<Rightarrow> 'r \<Rightarrow> 'r \<Rightarrow> bool" where
  "rel_seq R [] a b \<longleftrightarrow> a = b"
| "rel_seq R (x # xs) a b \<longleftrightarrow> (\<exists>m. R x a m \<and> rel_seq R xs m b)"

lemma st_each_seq: "st_each f xs = st_seq (map f xs)"
proof (rule ext)
  show "st_each f xs c = st_seq (map f xs) c" for c
    by (induction xs arbitrary: c) (auto split: prod.splits option.splits)
qed

lemma edit_spec_each:
  assumes "\<And>x. x \<in> set xs \<Longrightarrow> edit_spec ok committed staged (f x) (\<lambda>k. R k x)"
  shows "edit_spec ok committed staged (st_each f xs) (\<lambda>k. rel_seq (R k) xs)"
  using assms unfolding st_each_seq
proof (induction xs)
  case Nil
  show ?case by (simp add: edit_spec_def)
next
  case (Cons x xs)
  have "edit_spec ok committed staged (st_seq (f x # map f xs))
      (\<lambda>k a b. \<exists>m. (\<lambda>k. R k x) k a m \<and> (\<lambda>k. rel_seq (R k) xs) k m b)"
    using Cons by (intro edit_spec_Cons) simp_all
  then show ?case by (simp only: list.map rel_seq.simps)
qed

lemma edit_spec_pure:
  assumes "\<And>c. ok c \<Longrightarrow> ok (f c) \<and> committed (f c) = committed c"
    and "\<And>c rs'. ok c \<Longrightarrow> staged (f c) = Some rs' \<Longrightarrow> \<exists>rs. staged c = Some rs \<and> R rs rs'"
  shows "edit_spec ok committed staged (\<lambda>c. (f c, None)) (\<lambda>k. R)"
  using assms by (auto simp: edit_spec_def)

lemma edit_spec_pure_D:
  assumes "edit_spec ok committed staged (\<lambda>c. (f c, None)) R" "ok c"
  shows "ok (f c)" "committed (f c) = committed c"
    "staged (f c) = Some rs' \<Longrightarrow> \<exists>rs. staged c = Some rs \<and> R (committed c) rs rs'"
  using assms by (auto simp: edit_spec_def)

lemma edit_spec_fold:
  assumes "\<And>x. x \<in> set xs \<Longrightarrow> edit_spec ok committed staged (\<lambda>c. (f x c, None)) (\<lambda>k. R k x)"
  shows "edit_spec ok committed staged (\<lambda>c. (fold f xs c, None)) (\<lambda>k. rel_seq (R k) xs)"
proof -
  have "st_each (\<lambda>x c. (f x c, None)) xs c = (fold f xs c, None)" for c
    by (induction xs arbitrary: c) auto
  then have "st_each (\<lambda>x c. (f x c, None)) xs = (\<lambda>c. (fold f xs c, None))" by (rule ext)
  moreover have "edit_spec ok committed staged (st_each (\<lambda>x c. (f x c, None)) xs) (\<lambda>k. rel_seq (R k) xs)"
    using assms by (rule edit_spec_each)
  ultimately show ?thesis by simp
qed

lemma edit_spec_then:
  assumes "edit_spec ok committed staged f R" "edit_spec ok committed staged (\<lambda>c. (g c, None)) S"
  shows "edit_spec ok committed staged
    (\<lambda>c. case f c of (c, Some e) \<Rightarrow> (c, Some e) | (c, None) \<Rightarrow> (g c, None)) (\<lambda>k a b. \<exists>m. R k a m \<and> S k m b)"
proof -
  have "st_seq [f, \<lambda>c. (g c, None)] = (\<lambda>c. case f c of (c, Some e) \<Rightarrow> (c, Some e) | (c, None) \<Rightarrow> (g c, None))"
    by (auto split: prod.splits option.splits)
  moreover have "edit_spec ok committed staged (st_seq [f, \<lambda>c. (g c, None)])
      (\<lambda>k a b. \<exists>m. R k a m \<and> (\<exists>m'. S k m m' \<and> m' = b))"
    by (rule edit_spec_Cons [OF assms(1) edit_spec_Cons [OF assms(2) edit_spec_Nil]])
  ultimately show ?thesis by simp
qed

lemma edit_spec_wrap:
  assumes "edit_spec ok committed staged f R"
  shows "edit_spec ok committed staged
    (\<lambda>c. case f c of (c, Some e) \<Rightarrow> (c, Some (w e)) | (c, None) \<Rightarrow> (c, None)) R"
  using assms unfolding edit_spec_def by (auto split: prod.splits option.splits)

lemma edit_spec_skip: "(\<And>k a. R k a a) \<Longrightarrow> edit_spec ok committed staged (\<lambda>c. (c, None)) R"
  by (simp add: edit_spec_def)

lemma edit_spec_fail: "edit_spec ok committed staged (\<lambda>c. (c, Some e)) R"
  by (simp add: edit_spec_def)

lemma edit_spec_wrap_step: "edit_spec ok committed staged f R \<Longrightarrow> edit_spec ok committed staged (wrap_step msg f) R"
  unfolding wrap_step_def by (rule edit_spec_wrap)

lemma edit_spec_step:
  assumes "\<And>c c' e. ok c \<Longrightarrow> f c = (c', e) \<Longrightarrow> ok c' \<and> committed c' = committed c"
    and "\<And>c c' rs'. ok c \<Longrightarrow> f c = (c', None) \<Longrightarrow> staged c' = Some rs' \<Longrightarrow>
      \<exists>rs. staged c = Some rs \<and> R (committed c) rs rs'"
  shows "edit_spec ok committed staged f R"
  unfolding edit_spec_def using assms by blast

lemma edit_spec_join:
  assumes "\<And>x. x \<in> set xs \<Longrightarrow> edit_spec ok committed staged (f x) (\<lambda>k. R k x)"
  shows "edit_spec ok committed staged (st_join f xs) (\<lambda>k. rel_seq (R k) xs)"
proof -
  have keeps: "ok c' \<and> committed c' = committed c" if "ok c" "st_all f xs c = (c', es)" for c c' es
    using that assms
  proof (induction xs arbitrary: c es)
    case (Cons x xs)
    obtain c1 e1 es1 where f: "f x c = (c1, e1)" and rest: "st_all f xs c1 = (c', es1)"
      using Cons.prems(2) by (auto split: prod.splits)
    have "ok c1 \<and> committed c1 = committed c"
      using Cons.prems(1,3) f unfolding edit_spec_def by (meson list.set_intros(1))
    with Cons.IH [OF _ rest] Cons.prems(3) show ?case by simp
  qed simp
  show ?thesis
  proof (rule edit_spec_step)
    show "ok c' \<and> committed c' = committed c" if "ok c" "st_join f xs c = (c', e)" for c c' e
      using keeps [OF that(1)] that(2) by (auto simp: st_join_def split: prod.splits)
    show "\<exists>rs. staged c = Some rs \<and> rel_seq (R (committed c)) xs rs rs'"
      if st: "ok c" "st_join f xs c = (c', None)" "staged c' = Some rs'" for c c' rs'
    proof -
      obtain es where "st_all f xs c = (c', es)" "errors_join es = None"
        using st(2) by (auto simp: st_join_def split: prod.splits)
      then have "st_each f xs c = (c', None)" using st_all_None by (simp add: errors_join_None_iff)
      moreover have "edit_spec ok committed staged (st_each f xs) (\<lambda>k. rel_seq (R k) xs)"
        using assms by (rule edit_spec_each)
      ultimately show ?thesis using st(1,3) unfolding edit_spec_def by blast
    qed
  qed
qed

lemma edit_spec_conj:
  assumes "edit_spec ok committed staged f R" "edit_spec ok committed staged f S"
  shows "edit_spec ok committed staged f (\<lambda>k a b. R k a b \<and> S k a b)"
  using assms unfolding edit_spec_def by (metis option.inject)

section \<open>Transactions\<close>

text \<open>A store with a commit that takes all staged edits or none.\<close>

locale transactional =
  fixes ok :: "'c \<Rightarrow> bool"
    and committed :: "'c \<Rightarrow> 'r"
    and staged :: "'c \<Rightarrow> 'r option"
    and commit :: "'c \<Rightarrow> 'c \<times> error option"
    and commits :: "'r \<Rightarrow> 'r \<Rightarrow> 'r \<Rightarrow> bool"
  assumes commit_fails: "ok c \<Longrightarrow> commit c = (c', Some e) \<Longrightarrow> committed c' = committed c"
    and commit_succeeds: "ok c \<Longrightarrow> commit c = (c', None) \<Longrightarrow>
      \<exists>rs. staged c = Some rs \<and> commits (committed c) rs (committed c')"
begin

lemma batch:
  assumes "edit_spec ok committed staged f R" "ok c" and "st_seq [f, commit] c = (c', e)"
  shows "(e \<noteq> None \<longrightarrow> committed c' = committed c) \<and>
    (e = None \<longrightarrow> (\<exists>rs0 rs. staged c = Some rs0 \<and> R (committed c) rs0 rs \<and> commits (committed c) rs (committed c')))"
proof -
  obtain c1 e1 where f: "f c = (c1, e1)" by force
  have c1: "ok c1" "committed c1 = committed c"
    "\<And>rs'. e1 = None \<Longrightarrow> staged c1 = Some rs' \<Longrightarrow> \<exists>rs. staged c = Some rs \<and> R (committed c) rs rs'"
    using assms(1,2) f unfolding edit_spec_def by blast+
  show ?thesis
  proof (cases e1)
    case (Some x)
    with assms(3) f c1 show ?thesis by auto
  next
    case None
    obtain c2 e2 where fl: "commit c1 = (c2, e2)" by force
    with assms(3) f None have out: "c' = c2" "e = e2" by (auto split: option.splits)
    show ?thesis
    proof (cases e2)
      case (Some x)
      with fl out c1 commit_fails [OF c1(1)] show ?thesis by auto
    next
      case none: None
      with commit_succeeds [OF c1(1)] fl obtain rs where rs: "staged c1 = Some rs"
        "commits (committed c1) rs (committed c2)" by blast
      with c1(3) [OF None] obtain rs0 where "staged c = Some rs0" "R (committed c) rs0 rs" by blast
      with none out c1 rs show ?thesis by auto
    qed
  qed
qed

end

end
