(* ===== verification/Firewall_Client.thy ===== *)
theory Firewall_Client
  imports Nft Steps
begin

text \<open>
  The interface \<open>firewallClient\<close> of \<open>mock-nftables.go\<close>, through which every other
  part of the program talks to nftables, and what the program expects behind it. The record
  \<open>firewallClient\<close> holds the operations over a client state \<open>'c\<close>; the fallible
  ones return an error value. Reads see the committed ruleset; edits are queued and become visible
  together at \<open>Flush\<close>, or not at all. \<open>newFirewallClient\<close> of the rule manager is the operation
  \<open>fc_New\<close>. (The program never calls \<open>AddTable\<close>; Docker owns the filter table.)

  The contract is the locale \<open>firewall_client\<close>: \<open>committed\<close> is the ruleset of the
  kernel, \<open>staged\<close> is the ruleset the queued edits lead to, or \<open>None\<close> once an edit
  cannot be carried out. The functions \<open>rs_*\<close> say what each edit does to a ruleset.
\<close>

section \<open>Operations\<close>

record 'c firewallClient =
  fc_New :: "'c \<Rightarrow> 'c \<times> error option"
  fc_AddTable :: "nft_table \<Rightarrow> 'c \<Rightarrow> 'c"
  fc_AddChain :: "nft_chain \<Rightarrow> 'c \<Rightarrow> 'c"
  fc_DelChain :: "nft_chain \<Rightarrow> 'c \<Rightarrow> 'c"
  fc_ListChainsOfTableFamily :: "table_family \<Rightarrow> 'c \<Rightarrow> nft_chain list result"
  fc_AddSet :: "nft_set \<Rightarrow> set_element list \<Rightarrow> 'c \<Rightarrow> 'c \<times> nft_set result"
  fc_DelSet :: "nft_set \<Rightarrow> 'c \<Rightarrow> 'c"
  fc_GetSetByName :: "nft_table \<Rightarrow> string \<Rightarrow> 'c \<Rightarrow> nft_set result"
  fc_GetSetElements :: "nft_set \<Rightarrow> 'c \<Rightarrow> set_element list result"
  fc_SetAddElements :: "nft_set \<Rightarrow> set_element list \<Rightarrow> 'c \<Rightarrow> 'c \<times> error option"
  fc_SetDeleteElements :: "nft_set \<Rightarrow> set_element list \<Rightarrow> 'c \<Rightarrow> 'c \<times> error option"
  fc_AddRule :: "nft_rule \<Rightarrow> 'c \<Rightarrow> 'c"
  fc_DelRule :: "nft_rule \<Rightarrow> 'c \<Rightarrow> 'c \<times> error option"
  fc_InsertRule :: "nft_rule \<Rightarrow> 'c \<Rightarrow> 'c"
  fc_GetRules :: "nft_table \<Rightarrow> nft_chain \<Rightarrow> 'c \<Rightarrow> nft_rule list result"
  fc_Flush :: "'c \<Rightarrow> 'c \<times> error option"

section \<open>Rulesets\<close>

text \<open>The IPv4 filter table: its chains with their rules in order, and its sets.\<close>

record ruleset =
  rs_chains :: "string \<Rightarrow> (nft_chain \<times> nft_rule list) option"
  rs_sets :: "string \<Rightarrow> (nft_set \<times> set_element list) option"

definition rs_rules :: "ruleset \<Rightarrow> string \<Rightarrow> nft_rule list" where
  "rs_rules rs n = (case rs_chains rs n of Some (_, rules) \<Rightarrow> rules | None \<Rightarrow> [])"

definition rs_has_chain :: "ruleset \<Rightarrow> string \<Rightarrow> bool" where
  "rs_has_chain rs n \<longleftrightarrow> rs_chains rs n \<noteq> None"

definition is_anon_name :: "string \<Rightarrow> bool" where
  "is_anon_name n \<longleftrightarrow> HasPrefix n ''__set''"

definition anon_name :: "nat \<Rightarrow> string" where
  "anon_name k = ''__set'' @ Itoa k"

lemma is_anon_anon_name [simp]: "is_anon_name (anon_name k)"
  by (simp add: is_anon_name_def anon_name_def HasPrefix_def)

lemma container_set_not_anon [simp]: "\<not> is_anon_name containerAddrSetName"
  by (simp add: is_anon_name_def HasPrefix_def name_defs)

definition rule_sets :: "nft_rule \<Rightarrow> string set" where
  "rule_sets r = {lk_SetName l | l. ELookup l \<in> set (ru_Exprs r) \<and> is_anon_name (lk_SetName l)}"

definition pending_sets :: "nft_rule \<Rightarrow> nat set" where
  "pending_sets r = {lk_SetID l | l. ELookup l \<in> set (ru_Exprs r) \<and> lk_SetName l = anonSetName}"

section \<open>Edits of a ruleset\<close>

definition rs_AddChain :: "nft_chain \<Rightarrow> ruleset \<Rightarrow> ruleset option" where
  "rs_AddChain ch rs =
     (case rs_chains rs (ch_Name ch) of
        None \<Rightarrow> Some (rs\<lparr>rs_chains := (rs_chains rs)(ch_Name ch \<mapsto> (ch, []))\<rparr>)
      | Some (ch0, _) \<Rightarrow> if ch0 = ch then Some rs else None)"

text \<open>A chain can only be deleted when it is empty and no rule or map refers to it.\<close>

definition rs_refers :: "ruleset \<Rightarrow> string \<Rightarrow> bool" where
  "rs_refers rs n \<longleftrightarrow>
     (\<exists>m ch rules r v. rs_chains rs m = Some (ch, rules) \<and> r \<in> set rules \<and>
        EVerdict v \<in> set (ru_Exprs r) \<and> vd_Chain v = n) \<or>
     (\<exists>s els m el v. rs_sets rs m = Some (s, els) \<and> el \<in> set els \<and>
        el_VerdictData el = Some v \<and> vd_Chain v = n)"

definition rs_DelChain :: "nft_chain \<Rightarrow> ruleset \<Rightarrow> ruleset" where
  "rs_DelChain ch rs = rs\<lparr>rs_chains := (rs_chains rs)(ch_Name ch := None)\<rparr>"

definition rs_AddRule :: "nat \<Rightarrow> nft_rule \<Rightarrow> ruleset \<Rightarrow> ruleset option" where
  "rs_AddRule h r rs =
     (case rs_chains rs (ch_Name (ru_Chain r)) of
        None \<Rightarrow> None
      | Some (ch, rules) \<Rightarrow>
          Some (rs\<lparr>rs_chains := (rs_chains rs)(ch_Name (ru_Chain r) \<mapsto> (ch, rules @ [r\<lparr>ru_Handle := h\<rparr>]))\<rparr>))"

definition rs_InsertRule :: "nat \<Rightarrow> nft_rule \<Rightarrow> ruleset \<Rightarrow> ruleset option" where
  "rs_InsertRule h r rs =
     (case rs_chains rs (ch_Name (ru_Chain r)) of
        None \<Rightarrow> None
      | Some (ch, rules) \<Rightarrow>
          Some (rs\<lparr>rs_chains := (rs_chains rs)(ch_Name (ru_Chain r) \<mapsto> (ch, r\<lparr>ru_Handle := h\<rparr> # rules))\<rparr>))"

text \<open>Deletion is by handle, and takes the anonymous sets of the rule along.\<close>

definition same_handle :: "nft_rule \<Rightarrow> nft_rule \<Rightarrow> bool" where
  "same_handle r r2 \<longleftrightarrow> ru_Handle r = ru_Handle r2"

fun remove_first :: "('a \<Rightarrow> bool) \<Rightarrow> 'a list \<Rightarrow> 'a list" where
  "remove_first p [] = []"
| "remove_first p (x # xs) = (if p x then xs else x # remove_first p xs)"

definition rs_DelRule :: "nft_rule \<Rightarrow> ruleset \<Rightarrow> ruleset option" where
  "rs_DelRule r rs =
     (case rs_chains rs (ch_Name (ru_Chain r)) of
        None \<Rightarrow> None
      | Some (ch, rules) \<Rightarrow>
          (case find (same_handle r) rules of
             None \<Rightarrow> None
           | Some r2 \<Rightarrow>
               Some \<lparr>rs_chains = (rs_chains rs)
                       (ch_Name (ru_Chain r) \<mapsto> (ch, remove_first (same_handle r) rules)),
                     rs_sets = (\<lambda>n. if n \<in> rule_sets r2 then None else rs_sets rs n)\<rparr>))"

definition rs_AddSet :: "nft_set \<Rightarrow> set_element list \<Rightarrow> ruleset \<Rightarrow> ruleset" where
  "rs_AddSet s els rs =
     (if rs_sets rs (s_Name s) = None
      then rs\<lparr>rs_sets := (rs_sets rs)(s_Name s \<mapsto> (s, els))\<rparr> else rs)"

definition rs_DelSet :: "string \<Rightarrow> ruleset \<Rightarrow> ruleset" where
  "rs_DelSet n rs = rs\<lparr>rs_sets := (rs_sets rs)(n := None)\<rparr>"

text \<open>An element is added unless the very same element is there; it is deleted by its key.\<close>

fun add_elements :: "set_element list \<Rightarrow> set_element list \<Rightarrow> set_element list" where
  "add_elements els [] = els"
| "add_elements els (v # vs) = add_elements (if v \<in> set els then els else els @ [v]) vs"

definition same_key :: "set_element \<Rightarrow> set_element \<Rightarrow> bool" where
  "same_key v e \<longleftrightarrow> el_Key e = el_Key v \<and> el_KeyEnd e = el_KeyEnd v \<and> el_Val e = el_Val v \<and>
     el_IntervalEnd e = el_IntervalEnd v"

fun delete_elements :: "set_element list \<Rightarrow> set_element list \<Rightarrow> set_element list option" where
  "delete_elements els [] = Some els"
| "delete_elements els (v # vs) =
     (if list_ex (same_key v) els then delete_elements (remove_first (same_key v) els) vs else None)"

definition rs_SetElements :: "string \<Rightarrow> set_element list \<Rightarrow> ruleset \<Rightarrow> ruleset" where
  "rs_SetElements n els rs =
     (case rs_sets rs n of
        None \<Rightarrow> rs
      | Some (s, _) \<Rightarrow> rs\<lparr>rs_sets := (rs_sets rs)(n \<mapsto> (s, els))\<rparr>)"

text \<open>
  At commit a lookup of an anonymous set that was created in the same batch gets the set's final
  name in place of its id. Named sets are kept as staged, and so are anonymous sets that existed
  before or that a rule of the batch refers to; other anonymous sets may vanish.
\<close>

definition commit_expr :: "nexpr \<Rightarrow> nexpr" where
  "commit_expr e =
     (case e of
        ELookup l \<Rightarrow>
          if lk_SetName l = anonSetName
          then ELookup (l\<lparr>lk_SetName := anon_name (lk_SetID l), lk_SetID := 0\<rparr>) else e
      | _ \<Rightarrow> e)"

definition commit_rule :: "nft_rule \<Rightarrow> nft_rule" where
  "commit_rule r = r\<lparr>ru_Exprs := map commit_expr (ru_Exprs r)\<rparr>"

definition committed_chains ::
    "(string \<Rightarrow> (nft_chain \<times> nft_rule list) option) \<Rightarrow> string \<Rightarrow> (nft_chain \<times> nft_rule list) option" where
  "committed_chains cs n = map_option (\<lambda>(ch, rules). (ch, map commit_rule rules)) (cs n)"

definition rs_commits :: "ruleset \<Rightarrow> ruleset \<Rightarrow> ruleset \<Rightarrow> bool" where
  "rs_commits old rs rs' \<longleftrightarrow>
     rs_chains rs' = committed_chains (rs_chains rs) \<and>
     (\<forall>n. \<not> is_anon_name n \<or> rs_sets old n \<noteq> None \<or>
        (\<exists>m ch rules r k. rs_chains rs m = Some (ch, rules) \<and> r \<in> set rules \<and>
           k \<in> pending_sets r \<and> n = anon_name k) \<longrightarrow>
        rs_sets rs' n = rs_sets rs n)"

text \<open>A committed ruleset: chains of the filter table under their names, rules that name their chain,
  handles that identify a rule, and no placeholder name left.\<close>

definition wf_ruleset :: "ruleset \<Rightarrow> bool" where
  "wf_ruleset rs \<longleftrightarrow>
     (\<forall>n ch rules. rs_chains rs n = Some (ch, rules) \<longrightarrow>
        ch_Name ch = n \<and> ch_Table ch = Some filterTable \<and> distinct (map ru_Handle rules) \<and>
        (\<forall>r \<in> set rules. ru_Handle r \<noteq> 0 \<and> ch_Name (ru_Chain r) = n \<and>
          ru_Table r = Some filterTable \<and> pending_sets r = {}))"

definition in_filter :: "nft_chain \<Rightarrow> bool" where
  "in_filter ch \<longleftrightarrow> (\<exists>t. ch_Table ch = Some t \<and> t_Name t = filterTableName)"

lemma in_filter_code [code]: "in_filter ch = (case ch_Table ch of None \<Rightarrow> False | Some t \<Rightarrow> t_Name t = filterTableName)"
  by (auto simp: in_filter_def split: option.splits)

section \<open>The contract\<close>

locale nft_reads =
  fixes F :: "'c firewallClient"
    and ok :: "'c \<Rightarrow> bool"
    and committed :: "'c \<Rightarrow> ruleset"
  assumes committed_wf: "ok c \<Longrightarrow> wf_ruleset (committed c)"
    and ListChains_committed: "ok c \<Longrightarrow>
      fc_ListChainsOfTableFamily F TableFamilyIPv4 c = Inr cs \<Longrightarrow>
      (\<forall>ch \<in> set cs. ch_Table ch \<noteq> None) \<and> distinct (map ch_Name (filter in_filter cs)) \<and>
      (\<forall>ch. ch \<in> set cs \<and> in_filter ch \<longleftrightarrow>
        (\<exists>rules. rs_chains (committed c) (ch_Name ch) = Some (ch, rules)))"
    and GetRules_committed: "ok c \<Longrightarrow> fc_GetRules F filterTable ch c = Inr rules \<Longrightarrow>
      \<exists>ch'. rs_chains (committed c) (ch_Name ch) = Some (ch', rules)"
    and GetSetByName_committed: "ok c \<Longrightarrow> \<not> is_anon_name n \<Longrightarrow>
      fc_GetSetByName F filterTable n c = Inr s \<Longrightarrow>
      s_Name s = n \<and> (\<exists>els. rs_sets (committed c) n = Some (s, els))"
    and GetSetByName_missing: "ok c \<Longrightarrow> fc_GetSetByName F filterTable n c = Inl e \<Longrightarrow>
      errors_is e (Errno ENOENT) \<Longrightarrow> rs_sets (committed c) n = None"
    and GetSetElements_committed: "ok c \<Longrightarrow> s_Table s = Some filterTable \<Longrightarrow>
      fc_GetSetElements F s c = Inr els \<Longrightarrow>
      \<exists>s'. rs_sets (committed c) (s_Name s) = Some (s', els)"
    and GetRules_missing: "ok c \<Longrightarrow> fc_GetRules F filterTable ch c = Inl e \<Longrightarrow>
      errors_is e (Errno ENOENT) \<Longrightarrow> rs_chains (committed c) (ch_Name ch) = None"

text \<open>Edits are queued: they leave the committed ruleset alone, and take the staged one to the
  next or to \<open>None\<close>. Only \<open>Flush\<close> commits.\<close>

locale firewall_client = nft_reads F ok committed
  for F :: "'c firewallClient"
    and ok :: "'c \<Rightarrow> bool"
    and committed :: "'c \<Rightarrow> ruleset" +
  fixes staged :: "'c \<Rightarrow> ruleset option"
  assumes New_ok: "ok c \<Longrightarrow> fc_New F c = (c', e) \<Longrightarrow> ok c' \<and> committed c' = committed c"
    and New_staged: "ok c \<Longrightarrow> fc_New F c = (c', None) \<Longrightarrow> staged c' = Some (committed c')"
    and AddChain_ok: "ok c \<Longrightarrow> ch_Table ch = Some filterTable \<Longrightarrow>
      ok (fc_AddChain F ch c) \<and> committed (fc_AddChain F ch c) = committed c"
    and AddChain_staged: "ok c \<Longrightarrow> ch_Table ch = Some filterTable \<Longrightarrow>
      staged (fc_AddChain F ch c) = Some rs' \<Longrightarrow>
      \<exists>rs. staged c = Some rs \<and> rs_AddChain ch rs = Some rs'"
    and DelChain_ok: "ok c \<Longrightarrow>
      ok (fc_DelChain F ch c) \<and> committed (fc_DelChain F ch c) = committed c"
    and DelChain_staged: "ok c \<Longrightarrow> staged (fc_DelChain F ch c) = Some rs' \<Longrightarrow>
      \<exists>rs ch0. staged c = Some rs \<and> rs_chains rs (ch_Name ch) = Some (ch0, []) \<and>
        \<not> rs_refers rs (ch_Name ch) \<and> rs' = rs_DelChain ch rs"
    and AddRule_ok: "ok c \<Longrightarrow> ru_Table r = Some filterTable \<Longrightarrow>
      ok (fc_AddRule F r c) \<and> committed (fc_AddRule F r c) = committed c"
    and AddRule_staged: "ok c \<Longrightarrow> ru_Table r = Some filterTable \<Longrightarrow>
      staged (fc_AddRule F r c) = Some rs' \<Longrightarrow>
      \<exists>rs h. staged c = Some rs \<and> ru_Handle r = 0 \<and> h \<noteq> 0 \<and> rs_AddRule h r rs = Some rs'"
    and InsertRule_ok: "ok c \<Longrightarrow> ru_Table r = Some filterTable \<Longrightarrow>
      ok (fc_InsertRule F r c) \<and> committed (fc_InsertRule F r c) = committed c"
    and InsertRule_staged: "ok c \<Longrightarrow> ru_Table r = Some filterTable \<Longrightarrow>
      staged (fc_InsertRule F r c) = Some rs' \<Longrightarrow>
      \<exists>rs h. staged c = Some rs \<and> ru_Handle r = 0 \<and> h \<noteq> 0 \<and> rs_InsertRule h r rs = Some rs'"
    and DelRule_ok: "ok c \<Longrightarrow> ru_Table r = Some filterTable \<Longrightarrow> fc_DelRule F r c = (c', e) \<Longrightarrow> ok c' \<and> committed c' = committed c"
    and DelRule_staged: "ok c \<Longrightarrow> ru_Table r = Some filterTable \<Longrightarrow> fc_DelRule F r c = (c', None) \<Longrightarrow> staged c' = Some rs' \<Longrightarrow>
      \<exists>rs. staged c = Some rs \<and> rs_DelRule r rs = Some rs'"
    and AddSet_ok: "ok c \<Longrightarrow> s_Table s = Some filterTable \<Longrightarrow>
      s_Anonymous s \<or> \<not> is_anon_name (s_Name s) \<Longrightarrow> fc_AddSet F s els c = (c', res) \<Longrightarrow>
      ok c' \<and> committed c' = committed c"
    and AddSet_staged: "ok c \<Longrightarrow> s_Table s = Some filterTable \<Longrightarrow>
      s_Anonymous s \<or> \<not> is_anon_name (s_Name s) \<Longrightarrow> fc_AddSet F s els c = (c', Inr s') \<Longrightarrow>
      staged c' = Some rs' \<Longrightarrow>
      \<exists>rs. staged c = Some rs \<and>
        (if s_Anonymous s
         then s' = s\<lparr>s_ID := s_ID s', s_Name := anonSetName\<rparr> \<and>
           s_ID s' \<noteq> 0 \<and> rs_sets rs (anon_name (s_ID s')) = None \<and>
           (\<forall>n ch rules r. rs_chains rs n = Some (ch, rules) \<longrightarrow> r \<in> set rules \<longrightarrow> anon_name (s_ID s') \<notin> rule_sets r) \<and>
           rs' = rs_AddSet (s'\<lparr>s_Name := anon_name (s_ID s')\<rparr>) els rs
         else s' = s \<and> rs' = rs_AddSet s els rs)"
    and SetAddElements_ok: "ok c \<Longrightarrow> s_Table s = Some filterTable \<Longrightarrow>
      fc_SetAddElements F s vs c = (c', e) \<Longrightarrow> ok c' \<and> committed c' = committed c"
    and SetAddElements_staged: "ok c \<Longrightarrow> s_Table s = Some filterTable \<Longrightarrow>
      fc_SetAddElements F s vs c = (c', None) \<Longrightarrow> staged c' = Some rs' \<Longrightarrow>
      \<exists>rs s0 els. staged c = Some rs \<and> rs_sets rs (s_Name s) = Some (s0, els) \<and>
        rs' = rs_SetElements (s_Name s) (add_elements els vs) rs"
    and SetDeleteElements_ok: "ok c \<Longrightarrow> s_Table s = Some filterTable \<Longrightarrow>
      fc_SetDeleteElements F s vs c = (c', e) \<Longrightarrow> ok c' \<and> committed c' = committed c"
    and SetDeleteElements_staged: "ok c \<Longrightarrow> s_Table s = Some filterTable \<Longrightarrow>
      fc_SetDeleteElements F s vs c = (c', None) \<Longrightarrow> staged c' = Some rs' \<Longrightarrow>
      \<exists>rs s0 els els'. staged c = Some rs \<and> rs_sets rs (s_Name s) = Some (s0, els) \<and>
        delete_elements els vs = Some els' \<and> rs' = rs_SetElements (s_Name s) els' rs"
    and Flush_ok: "ok c \<Longrightarrow> fc_Flush F c = (c', e) \<Longrightarrow> ok c'"
    and Flush_failed: "ok c \<Longrightarrow> fc_Flush F c = (c', Some err) \<Longrightarrow> committed c' = committed c"
    and Flush_commits: "ok c \<Longrightarrow> fc_Flush F c = (c', None) \<Longrightarrow>
      \<exists>rs. staged c = Some rs \<and> rs_commits (committed c) rs (committed c') \<and>
        staged c' = Some (committed c')"
    and DelSet_ok: "ok c \<Longrightarrow> s_Table s = Some filterTable \<Longrightarrow>
      ok (fc_DelSet F s c) \<and> committed (fc_DelSet F s c) = committed c"
    and DelSet_staged: "ok c \<Longrightarrow> s_Table s = Some filterTable \<Longrightarrow> staged (fc_DelSet F s c) = Some rs' \<Longrightarrow>
      \<exists>rs. staged c = Some rs \<and> rs' = rs_DelSet (s_Name s) rs"
begin

text \<open>Every edit keeps the committed ruleset; so does a loop of edits.\<close>

lemma st_each_ok:
  assumes "ok c" and "st_each f xs c = (c', e)"
    and "\<And>x c c' e. x \<in> set xs \<Longrightarrow> ok c \<Longrightarrow> f x c = (c', e) \<Longrightarrow> ok c' \<and> committed c' = committed c"
  shows "ok c' \<and> committed c' = committed c"
  using assms
proof (induction xs arbitrary: c)
  case Nil
  then show ?case by simp
next
  case (Cons x xs)
  obtain c1 e1 where f: "f x c = (c1, e1)" by force
  with Cons.prems(3) [of x c c1 e1] Cons.prems(1) have c1: "ok c1" "committed c1 = committed c" by auto
  show ?case
  proof (cases e1)
    case None
    with f Cons.prems(2) have "st_each f xs c1 = (c', e)" by simp
    with Cons.IH [OF c1(1)] Cons.prems(3) c1(2) show ?thesis by (metis list.set_intros(2))
  next
    case (Some e)
    with f Cons.prems(2) c1 show ?thesis by simp
  qed
qed

lemma DelRules_ok:
  "ok c \<Longrightarrow> \<forall>r \<in> set rs. ru_Table r = Some filterTable \<Longrightarrow> st_each (fc_DelRule F) rs c = (c', e) \<Longrightarrow>
   ok c' \<and> committed c' = committed c"
  using st_each_ok [of c "fc_DelRule F" rs c' e] DelRule_ok by blast

end

end
