(* ===== verification/Mock_Firewall.thy ===== *)
theory Mock_Firewall
  imports Firewall_Client
begin

text \<open>
  The in-memory firewall of \<open>mock-nftables.go\<close>: a client with queued edits over a shared
  base. Go maps are association lists. The state holds the client's own copy
  (\<open>mf_tables\<close>, \<open>mf_chains\<close>) beside the base it was cloned from and the id counters
  of the creator. Two deviations in representation: a nil table pointer, which the Go code would
  dereference, is treated as a missing table; and the pointers kept in \<open>unsetLookupExprs\<close>
  are found again at \<open>Flush\<close> as the lookups that still carry the placeholder name, which is
  what \<open>checkRule\<close> registers them for. The locks and the logging are not modelled.
  The theory ends with the interpretation of the client contract on this model.
\<close>

section \<open>State\<close>

record mock_table =
  mt_Sets :: "(string \<times> set_element list) list"
  mt_SetSchemas :: "(string \<times> nft_set) list"
  mt_newAnonSets :: "(string \<times> bool) list"

type_synonym mock_tables = "(string \<times> mock_table) list"
type_synonym mock_chains = "(string \<times> nft_chain \<times> nft_rule list) list"

record mockFirewall =
  mf_changed :: bool
  mf_tables :: mock_tables
  mf_chains :: mock_chains
  mf_flushErr :: "error option"
  mf_baseTables :: mock_tables
  mf_baseChains :: mock_chains
  mf_nextSetID :: nat
  mf_nextRuleID :: nat

definition initTables :: "mock_tables \<Rightarrow> mock_tables" where
  "initTables ts = map (\<lambda>(n, t). (n, t\<lparr>mt_newAnonSets := []\<rparr>)) ts"

definition empty_mock_table :: mock_table where
  "empty_mock_table = \<lparr>mt_Sets = [], mt_SetSchemas = [], mt_newAnonSets = []\<rparr>"

definition newMockFirewallCreator :: mockFirewall where
  "newMockFirewallCreator = \<lparr>mf_changed = False, mf_tables = [], mf_chains = [], mf_flushErr = None,
     mf_baseTables = [], mf_baseChains = [], mf_nextSetID = 0, mf_nextRuleID = 0\<rparr>"

definition newMockFirewall :: "mockFirewall \<Rightarrow> mockFirewall \<times> error option" where
  "newMockFirewall m =
     (m\<lparr>mf_changed := False, mf_tables := initTables (mf_baseTables m),
        mf_chains := mf_baseChains m, mf_flushErr := None\<rparr>, None)"

definition poison :: "errno \<Rightarrow> mockFirewall \<Rightarrow> mockFirewall" where
  "poison e m = m\<lparr>mf_flushErr := Some (Errno e)\<rparr>"

definition find_table :: "nft_table option \<Rightarrow> mock_tables \<Rightarrow> mock_table option" where
  "find_table t ts = (case t of None \<Rightarrow> None | Some t \<Rightarrow> map_of ts (t_Name t))"

definition put_table :: "nft_table option \<Rightarrow> mock_table \<Rightarrow> mockFirewall \<Rightarrow> mockFirewall" where
  "put_table t x m =
     (case t of None \<Rightarrow> m | Some t \<Rightarrow> m\<lparr>mf_tables := AList.update (t_Name t) x (mf_tables m)\<rparr>)"

section \<open>Tables and chains\<close>

definition mf_AddTable :: "nft_table \<Rightarrow> mockFirewall \<Rightarrow> mockFirewall" where
  "mf_AddTable t m =
     (let m = m\<lparr>mf_changed := True\<rparr> in
      case map_of (mf_tables m) (t_Name t) of
        None \<Rightarrow> m\<lparr>mf_tables := AList.update (t_Name t) empty_mock_table (mf_tables m)\<rparr>
      | Some _ \<Rightarrow> m)"

definition mf_AddChain :: "nft_chain \<Rightarrow> mockFirewall \<Rightarrow> mockFirewall" where
  "mf_AddChain c m =
     (let m = m\<lparr>mf_changed := True\<rparr> in
      case map_of (mf_chains m) (ch_Name c) of
        None \<Rightarrow> m\<lparr>mf_chains := AList.update (ch_Name c) (c, []) (mf_chains m)\<rparr>
      | Some (existing, _) \<Rightarrow> if chainSchemasEqual existing c then m else poison EEXIST m)"

definition rules_mention :: "string \<Rightarrow> nft_rule list \<Rightarrow> bool" where
  "rules_mention n rules \<longleftrightarrow>
     list_ex (\<lambda>r. list_ex (\<lambda>e. case e of EVerdict v \<Rightarrow> vd_Chain v = n | _ \<Rightarrow> False) (ru_Exprs r)) rules"

definition elements_mention :: "string \<Rightarrow> set_element list \<Rightarrow> bool" where
  "elements_mention n els \<longleftrightarrow>
     list_ex (\<lambda>el. case el_VerdictData el of Some v \<Rightarrow> vd_Chain v = n | None \<Rightarrow> False) els"

definition mf_DelChain :: "nft_chain \<Rightarrow> mockFirewall \<Rightarrow> mockFirewall" where
  "mf_DelChain c m =
     (let m = m\<lparr>mf_changed := True\<rparr>; n = ch_Name c in
      case map_of (mf_chains m) n of
        None \<Rightarrow> poison ENOENT m
      | Some (_, rules) \<Rightarrow>
          if rules \<noteq> [] then poison EBUSY m
          else if list_ex (\<lambda>(_, _, other). rules_mention n other) (mf_chains m) then poison EBUSY m
          else if list_ex (\<lambda>(_, t). list_ex (\<lambda>(_, els). elements_mention n els) (mt_Sets t)) (mf_tables m)
          then poison EBUSY m
          else m\<lparr>mf_chains := AList.delete n (mf_chains m)\<rparr>)"

definition mf_ListChainsOfTableFamily :: "table_family \<Rightarrow> mockFirewall \<Rightarrow> nft_chain list result" where
  "mf_ListChainsOfTableFamily fam m =
     Inr (filter (\<lambda>c. case ch_Table c of Some t \<Rightarrow> t_Family t = fam | None \<Rightarrow> False)
       (map (fst \<circ> snd) (mf_baseChains m)))"

section \<open>Sets\<close>

definition mf_AddSet :: "nft_set \<Rightarrow> set_element list \<Rightarrow> mockFirewall \<Rightarrow> mockFirewall \<times> nft_set result" where
  "mf_AddSet s vals m =
     (let m = m\<lparr>mf_changed := True\<rparr> in
      case find_table (s_Table s) (mf_tables m) of
        None \<Rightarrow> (poison ENOENT m, Inr s)
      | Some t \<Rightarrow>
          let (m, s, setName, t) =
                (if s_Anonymous s then
                   (let setID = mf_nextSetID m + 1 in
                    (m\<lparr>mf_nextSetID := setID\<rparr>, s\<lparr>s_ID := setID, s_Name := anonSetName\<rparr>, anon_name setID,
                     t\<lparr>mt_newAnonSets := AList.update (anon_name setID) False (mt_newAnonSets t)\<rparr>))
                 else (m, s, s_Name s, t));
              m = put_table (s_Table s) t m
          in case map_of (mt_SetSchemas t) setName of
               Some existing \<Rightarrow> (if setSchemasEqual existing s then m else poison EEXIST m, Inr s)
             | None \<Rightarrow>
                 (put_table (s_Table s)
                    (t\<lparr>mt_Sets := AList.update setName vals (mt_Sets t),
                       mt_SetSchemas := AList.update setName (s\<lparr>s_Name := setName\<rparr>) (mt_SetSchemas t)\<rparr>) m,
                  Inr s))"

definition del_set :: "nft_table option \<Rightarrow> string \<Rightarrow> mockFirewall \<Rightarrow> mockFirewall" where
  "del_set tbl n m =
     (case find_table tbl (mf_tables m) of
        None \<Rightarrow> poison ENOENT m
      | Some t \<Rightarrow>
          put_table tbl (t\<lparr>mt_Sets := AList.delete n (mt_Sets t),
            mt_SetSchemas := AList.delete n (mt_SetSchemas t)\<rparr>) m)"

definition mf_DelSet :: "nft_set \<Rightarrow> mockFirewall \<Rightarrow> mockFirewall" where
  "mf_DelSet s m = del_set (s_Table s) (s_Name s) (m\<lparr>mf_changed := True\<rparr>)"

definition mf_GetSetByName :: "nft_table \<Rightarrow> string \<Rightarrow> mockFirewall \<Rightarrow> nft_set result" where
  "mf_GetSetByName tbl n m =
     (case map_of (mf_baseTables m) (t_Name tbl) of
        None \<Rightarrow> Inl (Errno ENOENT)
      | Some t \<Rightarrow>
          (case map_of (mt_SetSchemas t) n of
             None \<Rightarrow> Inl (Errno ENOENT)
           | Some s \<Rightarrow> Inr s))"

definition mf_GetSetElements :: "nft_set \<Rightarrow> mockFirewall \<Rightarrow> set_element list result" where
  "mf_GetSetElements s m =
     (case find_table (s_Table s) (mf_baseTables m) of
        None \<Rightarrow> Inl (Errno ENOENT)
      | Some t \<Rightarrow>
          (case map_of (mt_Sets t) (s_Name s) of
             None \<Rightarrow> Inl (Errno ENOENT)
           | Some els \<Rightarrow>
               (case map_of (mt_SetSchemas t) (s_Name s) of
                  None \<Rightarrow> Inl (Errno EINVAL)
                | Some schema \<Rightarrow> if setSchemasEqual schema s then Inr els else Inl (Errno EINVAL))))"

text \<open>The comparison of \<open>SetAddElements\<close>, field by field.\<close>

definition element_present :: "set_element \<Rightarrow> set_element \<Rightarrow> bool" where
  "element_present val e \<longleftrightarrow>
     el_Key e = el_Key val \<and> el_Val e = el_Val val \<and> el_KeyEnd e = el_KeyEnd val \<and>
     el_IntervalEnd e = el_IntervalEnd val \<and>
     (case (el_VerdictData e, el_VerdictData val) of
        (None, None) \<Rightarrow> True
      | (Some v, Some w) \<Rightarrow> vd_Kind v = vd_Kind w \<and> vd_Chain v = vd_Chain w
      | _ \<Rightarrow> False) \<and>
     el_Timeout e = el_Timeout val"

fun append_missing :: "set_element list \<Rightarrow> set_element list \<Rightarrow> set_element list" where
  "append_missing els [] = els"
| "append_missing els (v # vs) =
     append_missing (if list_ex (element_present v) els then els else els @ [v]) vs"

text \<open>The state-preserving prologue of the element operations: the set's elements, or the error
  with which they poison the batch.\<close>

definition open_set :: "nft_set \<Rightarrow> mockFirewall \<Rightarrow> errno + mock_table \<times> set_element list" where
  "open_set s m =
     (case find_table (s_Table s) (mf_tables m) of
        None \<Rightarrow> Inl ENOENT
      | Some t \<Rightarrow>
          (case map_of (mt_Sets t) (s_Name s) of
             None \<Rightarrow> Inl ENOENT
           | Some els \<Rightarrow>
               (case map_of (mt_SetSchemas t) (s_Name s) of
                  None \<Rightarrow> Inl EINVAL
                | Some schema \<Rightarrow> if setSchemasEqual schema s then Inr (t, els) else Inl EINVAL)))"

definition mf_SetAddElements :: "nft_set \<Rightarrow> set_element list \<Rightarrow> mockFirewall \<Rightarrow> mockFirewall \<times> error option" where
  "mf_SetAddElements s vals m =
     (let m = m\<lparr>mf_changed := True\<rparr> in
      case open_set s m of
        Inl e \<Rightarrow> (poison e m, None)
      | Inr (t, els) \<Rightarrow>
          (put_table (s_Table s)
             (t\<lparr>mt_Sets := AList.update (s_Name s) (append_missing els vals) (mt_Sets t)\<rparr>) m, None))"

text \<open>Deletion goes on after an element that is not there, with the batch poisoned.\<close>

fun delete_each :: "set_element list \<Rightarrow> bool \<Rightarrow> set_element list \<Rightarrow> set_element list \<times> bool" where
  "delete_each els missing [] = (els, missing)"
| "delete_each els missing (v # vs) =
     (if list_ex (same_key v) els then delete_each (remove_first (same_key v) els) missing vs
      else delete_each els True vs)"

definition mf_SetDeleteElements :: "nft_set \<Rightarrow> set_element list \<Rightarrow> mockFirewall \<Rightarrow> mockFirewall \<times> error option" where
  "mf_SetDeleteElements s vals m =
     (let m = m\<lparr>mf_changed := True\<rparr> in
      case open_set s m of
        Inl e \<Rightarrow> (poison e m, None)
      | Inr (t, els) \<Rightarrow>
          let (els', missing) = delete_each els False vals;
              m = (if missing then poison ENOENT m else m)
          in (put_table (s_Table s) (t\<lparr>mt_Sets := AList.update (s_Name s) els' (mt_Sets t)\<rparr>) m, None))"

section \<open>Rules\<close>

definition mark_used :: "nft_table option \<Rightarrow> string \<Rightarrow> mockFirewall \<Rightarrow> mockFirewall" where
  "mark_used tbl n m =
     (case find_table tbl (mf_tables m) of
        None \<Rightarrow> m
      | Some t \<Rightarrow> put_table tbl (t\<lparr>mt_newAnonSets := AList.update n True (mt_newAnonSets t)\<rparr>) m)"

definition checkExpr :: "nft_table option \<Rightarrow> nexpr \<Rightarrow> mockFirewall \<Rightarrow> mockFirewall" where
  "checkExpr tbl e m =
     (case find_table tbl (mf_tables m) of
        None \<Rightarrow> m
      | Some t \<Rightarrow>
         (case e of
            ELookup l \<Rightarrow>
              if lk_SetName l \<noteq> anonSetName then
                (if map_of (mt_Sets t) (lk_SetName l) = None then poison ENOENT m else m)
              else if lk_SetID l = 0 then poison EINVAL m
              else if map_of (mt_newAnonSets t) (anon_name (lk_SetID l)) \<noteq> None
              then mark_used tbl (anon_name (lk_SetID l)) m
              else poison ENOENT m
          | EVerdict v \<Rightarrow>
              if (vd_Kind v = VerdictJump \<or> vd_Kind v = VerdictGoto) \<and> vd_Chain v \<noteq> [] \<and>
                map_of (mf_chains m) (vd_Chain v) = None
              then poison ENOENT m else m
          | _ \<Rightarrow> m))"

fun checkRule :: "nft_table option \<Rightarrow> nexpr list \<Rightarrow> mockFirewall \<Rightarrow> mockFirewall" where
  "checkRule tbl [] m = m"
| "checkRule tbl (e # es) m = checkRule tbl es (checkExpr tbl e m)"

text \<open>\<open>AddRule\<close> and \<open>InsertRule\<close> differ only in where the rule goes.\<close>

definition put_rule :: "(nft_rule \<Rightarrow> nft_rule list \<Rightarrow> nft_rule list) \<Rightarrow> nft_rule \<Rightarrow> mockFirewall \<Rightarrow> mockFirewall" where
  "put_rule place r m =
     (let m = m\<lparr>mf_changed := True\<rparr> in
      if ru_Handle r \<noteq> 0 then poison EINVAL m
      else if find_table (ru_Table r) (mf_tables m) = None then poison ENOENT m
      else (case map_of (mf_chains m) (ch_Name (ru_Chain r)) of
          None \<Rightarrow> poison ENOENT m
        | Some (c, rules) \<Rightarrow>
            let handle = mf_nextRuleID m + 1;
                m = checkRule (ru_Table r) (ru_Exprs r) (m\<lparr>mf_nextRuleID := handle\<rparr>)
            in m\<lparr>mf_chains := AList.update (ch_Name (ru_Chain r))
                   (c, place (r\<lparr>ru_Handle := handle\<rparr>) rules) (mf_chains m)\<rparr>))"

definition mf_AddRule :: "nft_rule \<Rightarrow> mockFirewall \<Rightarrow> mockFirewall" where
  "mf_AddRule = put_rule (\<lambda>r rules. rules @ [r])"

definition mf_InsertRule :: "nft_rule \<Rightarrow> mockFirewall \<Rightarrow> mockFirewall" where
  "mf_InsertRule = put_rule (\<lambda>r rules. r # rules)"

fun del_rule_sets :: "nft_table option \<Rightarrow> nexpr list \<Rightarrow> mockFirewall \<Rightarrow> mockFirewall" where
  "del_rule_sets tbl [] m = m"
| "del_rule_sets tbl (e # es) m =
     del_rule_sets tbl es
       (case e of
          ELookup l \<Rightarrow> if HasPrefix (lk_SetName l) ''__set'' then del_set tbl (lk_SetName l) m else m
        | _ \<Rightarrow> m)"

definition delRule :: "nft_rule \<Rightarrow> mockFirewall \<Rightarrow> mockFirewall" where
  "delRule r m =
     (if find_table (ru_Table r) (mf_tables m) = None then poison ENOENT m
      else (case map_of (mf_chains m) (ch_Name (ru_Chain r)) of
          None \<Rightarrow> poison ENOENT m
        | Some (c, rules) \<Rightarrow>
            (case find (same_handle r) rules of
               None \<Rightarrow> poison ENOENT m
             | Some r2 \<Rightarrow>
                 let m = del_rule_sets (ru_Table r2) (ru_Exprs r2) m
                 in m\<lparr>mf_chains := AList.update (ch_Name (ru_Chain r))
                        (c, remove_first (same_handle r) rules) (mf_chains m)\<rparr>)))"

definition mf_DelRule :: "nft_rule \<Rightarrow> mockFirewall \<Rightarrow> mockFirewall \<times> error option" where
  "mf_DelRule r m =
     (let m = m\<lparr>mf_changed := True\<rparr> in
      if ru_Handle r = 0
      then (poison EINVAL m, Some (Msg ''rule deletion requires an actual nonzero handle''))
      else (delRule r m, None))"

definition mf_GetRules :: "nft_table \<Rightarrow> nft_chain \<Rightarrow> mockFirewall \<Rightarrow> nft_rule list result" where
  "mf_GetRules t c m =
     (case map_of (mf_baseChains m) (ch_Name c) of
        None \<Rightarrow> Inl (Errno ENOENT)
      | Some (_, rules) \<Rightarrow> Inr rules)"

section \<open>Flush\<close>

definition update_lookup :: "nexpr \<Rightarrow> nexpr" where
  "update_lookup e =
     (case e of
        ELookup l \<Rightarrow>
          if lk_SetName l = anonSetName
          then ELookup (l\<lparr>lk_SetName := ''__set'' @ Itoa (lk_SetID l), lk_SetID := 0\<rparr>) else e
      | _ \<Rightarrow> e)"

definition update_lookups :: "mock_chains \<Rightarrow> mock_chains" where
  "update_lookups cs =
     map (\<lambda>(n, c, rules). (n, c, map (\<lambda>r. r\<lparr>ru_Exprs := map update_lookup (ru_Exprs r)\<rparr>) rules)) cs"

definition drop_unused_sets :: "mock_tables \<Rightarrow> mock_tables" where
  "drop_unused_sets ts =
     map (\<lambda>(n, t). (n, t\<lparr>mt_Sets :=
       filter (\<lambda>(s, _). map_of (mt_newAnonSets t) s \<noteq> Some False) (mt_Sets t)\<rparr>)) ts"

definition reset_client :: "mockFirewall \<Rightarrow> mockFirewall" where
  "reset_client m =
     m\<lparr>mf_changed := False, mf_tables := initTables (mf_baseTables m),
       mf_chains := mf_baseChains m, mf_flushErr := None\<rparr>"

definition mf_Flush :: "mockFirewall \<Rightarrow> mockFirewall \<times> error option" where
  "mf_Flush m =
     (case mf_flushErr m of
        Some e \<Rightarrow> (reset_client m, Some e)
      | None \<Rightarrow>
          let m = m\<lparr>mf_chains := update_lookups (mf_chains m),
                    mf_tables := drop_unused_sets (mf_tables m)\<rparr>;
              m = (if mf_changed m
                   then m\<lparr>mf_baseTables := mf_tables m, mf_baseChains := mf_chains m\<rparr> else m)
          in (reset_client m, None))"

definition mockFirewall_client :: "mockFirewall firewallClient" where
  "mockFirewall_client =
     \<lparr>fc_New = newMockFirewall, fc_AddTable = mf_AddTable, fc_AddChain = mf_AddChain, fc_DelChain = mf_DelChain,
      fc_ListChainsOfTableFamily = mf_ListChainsOfTableFamily, fc_AddSet = mf_AddSet,
      fc_DelSet = mf_DelSet, fc_GetSetByName = mf_GetSetByName,
      fc_GetSetElements = mf_GetSetElements, fc_SetAddElements = mf_SetAddElements,
      fc_SetDeleteElements = mf_SetDeleteElements, fc_AddRule = mf_AddRule,
      fc_DelRule = mf_DelRule, fc_InsertRule = mf_InsertRule, fc_GetRules = mf_GetRules,
      fc_Flush = mf_Flush\<rparr>"

section \<open>Views of the state\<close>

definition sets_of :: "mock_tables \<Rightarrow> string \<Rightarrow> set_element list option" where
  "sets_of ts n = (case map_of ts filterTableName of None \<Rightarrow> None | Some t \<Rightarrow> map_of (mt_Sets t) n)"

definition schemas_of :: "mock_tables \<Rightarrow> string \<Rightarrow> nft_set option" where
  "schemas_of ts n = (case map_of ts filterTableName of None \<Rightarrow> None | Some t \<Rightarrow> map_of (mt_SetSchemas t) n)"

definition new_of :: "mock_tables \<Rightarrow> string \<Rightarrow> bool option" where
  "new_of ts n = (case map_of ts filterTableName of None \<Rightarrow> None | Some t \<Rightarrow> map_of (mt_newAnonSets t) n)"

definition mock_ruleset :: "mock_tables \<Rightarrow> mock_chains \<Rightarrow> ruleset" where
  "mock_ruleset ts cs =
     \<lparr>rs_chains = map_of cs,
      rs_sets = (\<lambda>n. case (schemas_of ts n, sets_of ts n) of
        (Some s, Some els) \<Rightarrow> Some (s, els) | _ \<Rightarrow> None)\<rparr>"

definition mock_committed :: "mockFirewall \<Rightarrow> ruleset" where
  "mock_committed m = mock_ruleset (mf_baseTables m) (mf_baseChains m)"

definition mock_staged :: "mockFirewall \<Rightarrow> ruleset option" where
  "mock_staged m =
     (if mf_flushErr m = None then Some (mock_ruleset (mf_tables m) (mf_chains m)) else None)"

text \<open>The invariant: well-formed chains with handles the counter has given out, set contents and
  schemas that agree, anonymous sets named by ids the counter has given out, every pending lookup
  of a batch that can still commit marked as used, and no difference from the base before the first
  edit.\<close>

definition chains_inv :: "nat \<Rightarrow> mock_chains \<Rightarrow> bool" where
  "chains_inv H cs \<longleftrightarrow> distinct (map fst cs) \<and>
     (\<forall>n c rules. map_of cs n = Some (c, rules) \<longrightarrow>
        ch_Name c = n \<and> ch_Table c = Some filterTable \<and> distinct (map ru_Handle rules) \<and>
        (\<forall>r \<in> set rules. 0 < ru_Handle r \<and> ru_Handle r \<le> H \<and> ch_Name (ru_Chain r) = n \<and>
           ru_Table r = Some filterTable))"

definition no_pending :: "mock_chains \<Rightarrow> bool" where
  "no_pending cs \<longleftrightarrow>
     (\<forall>n c rules. map_of cs n = Some (c, rules) \<longrightarrow> (\<forall>r \<in> set rules. pending_sets r = {}))"

definition sets_inv :: "nat \<Rightarrow> mock_tables \<Rightarrow> bool" where
  "sets_inv K ts \<longleftrightarrow>
     (\<forall>n. (sets_of ts n \<noteq> None \<longrightarrow> schemas_of ts n \<noteq> None) \<and>
        (schemas_of ts n \<noteq> None \<longrightarrow>
           (is_anon_name n \<longrightarrow> (\<exists>k \<le> K. n = anon_name k)) \<and>
           (\<not> is_anon_name n \<longrightarrow> sets_of ts n \<noteq> None)) \<and>
        (\<forall>s. schemas_of ts n = Some s \<longrightarrow> s_Name s = n))"

definition new_inv :: "nat \<Rightarrow> mock_tables \<Rightarrow> mock_tables \<Rightarrow> bool" where
  "new_inv K ts base \<longleftrightarrow>
     (\<forall>n. new_of ts n \<noteq> None \<longrightarrow> (\<exists>k \<le> K. n = anon_name k) \<and> sets_of base n = None)"

definition used_inv :: "mock_tables \<Rightarrow> mock_chains \<Rightarrow> bool" where
  "used_inv ts cs \<longleftrightarrow>
     (\<forall>n c rules r k. map_of cs n = Some (c, rules) \<longrightarrow> r \<in> set rules \<longrightarrow> k \<in> pending_sets r \<longrightarrow>
        new_of ts (anon_name k) = Some True)"

definition mock_core :: "mockFirewall \<Rightarrow> bool" where
  "mock_core m \<longleftrightarrow>
     chains_inv (mf_nextRuleID m) (mf_baseChains m) \<and> no_pending (mf_baseChains m) \<and>
     chains_inv (mf_nextRuleID m) (mf_chains m) \<and>
     sets_inv (mf_nextSetID m) (mf_baseTables m) \<and> sets_inv (mf_nextSetID m) (mf_tables m) \<and>
     new_inv (mf_nextSetID m) (mf_tables m) (mf_baseTables m) \<and>
     (mf_flushErr m = None \<longrightarrow> used_inv (mf_tables m) (mf_chains m)) \<and>
     (\<not> mf_changed m \<longrightarrow> mf_flushErr m = None \<and> mf_chains m = mf_baseChains m \<and>
        sets_of (mf_tables m) = sets_of (mf_baseTables m) \<and>
        schemas_of (mf_tables m) = schemas_of (mf_baseTables m))"

lemmas mock_defs = mock_committed_def mock_staged_def mock_ruleset_def

lemma filterTable_name [simp]: "t_Name filterTable = filterTableName"
  by (simp add: filterTable_def)

lemma map_of_update [simp]: "map_of (AList.update k v xs) = (map_of xs)(k \<mapsto> v)"
  by (rule update_conv')

lemma map_of_delete [simp]: "map_of (AList.delete k xs) = (map_of xs)(k := None)"
  by (rule delete_conv')

lemma Itoa_inj: "Itoa a = Itoa b \<Longrightarrow> a = b"
  by (metis parse_digits_Itoa max.cobounded1 max.cobounded2 sum.inject(2))

lemma anon_name_inj [simp]: "anon_name a = anon_name b \<longleftrightarrow> a = b"
  by (auto simp: anon_name_def dest: Itoa_inj)

lemma anon_name_not_placeholder [simp]: "anon_name k \<noteq> anonSetName" "anonSetName \<noteq> anon_name k"
proof -
  have "\<not> is_digit (CHR ''%'')" by (simp add: is_digit_def)
  then have "Itoa k \<noteq> ''%d''" using Itoa_digits [of "CHR ''%''" k] by auto
  then show "anon_name k \<noteq> anonSetName" "anonSetName \<noteq> anon_name k"
    by (auto simp: anon_name_def name_defs)
qed

lemma views_initTables [simp]:
  "sets_of (initTables ts) = sets_of ts" "schemas_of (initTables ts) = schemas_of ts"
  "new_of (initTables ts) = Map.empty"
proof -
  have m: "map_of (initTables ts) n = map_option (\<lambda>t. t\<lparr>mt_newAnonSets := []\<rparr>) (map_of ts n)" for n
    by (induction ts) (auto simp: initTables_def)
  show "sets_of (initTables ts) = sets_of ts" "schemas_of (initTables ts) = schemas_of ts"
    "new_of (initTables ts) = Map.empty"
    by (auto simp: fun_eq_iff sets_of_def schemas_of_def new_of_def m split: option.splits)
qed

lemma mock_core_reset:
  assumes "chains_inv (mf_nextRuleID m) (mf_baseChains m)" "no_pending (mf_baseChains m)"
    "sets_inv (mf_nextSetID m) (mf_baseTables m)"
  shows "mock_core (reset_client m)"
  using assms by (auto simp: mock_core_def reset_client_def new_inv_def used_inv_def no_pending_def sets_inv_def [of _ "initTables _"]
      sets_inv_def [of _ "mf_baseTables m"])

lemma newMockFirewall_reset: "newMockFirewall m = (reset_client m, None)"
  by (simp add: newMockFirewall_def reset_client_def)

lemma reset_views [simp]:
  "mock_committed (reset_client m) = mock_committed m"
  "mock_staged (reset_client m) = Some (mock_committed m)"
  by (simp_all add: mock_defs reset_client_def)

lemma mock_core_empty: "mock_core newMockFirewallCreator"
  by (simp add: newMockFirewallCreator_def mock_core_def chains_inv_def no_pending_def sets_inv_def
      new_inv_def used_inv_def sets_of_def schemas_of_def new_of_def)

text \<open>A poisoned batch: everything but the flush error is as before.\<close>

lemma poison_sel [simp]:
  "mf_flushErr (poison e m) = Some (Errno e)" "mf_chains (poison e m) = mf_chains m"
  "mf_tables (poison e m) = mf_tables m" "mf_baseTables (poison e m) = mf_baseTables m"
  "mf_baseChains (poison e m) = mf_baseChains m" "mf_nextSetID (poison e m) = mf_nextSetID m"
  "mf_nextRuleID (poison e m) = mf_nextRuleID m" "mf_changed (poison e m) = mf_changed m"
  by (simp_all add: poison_def)

lemma mock_core_poison: "mock_core m \<Longrightarrow> mf_changed m \<Longrightarrow> mock_core (poison e m)"
  by (simp add: mock_core_def)

lemma mock_core_changed: "mock_core m \<Longrightarrow> mock_core (m\<lparr>mf_changed := True\<rparr>)"
  by (simp add: mock_core_def)

lemma staged_poison [simp]: "mock_staged (poison e m) = None"
  by (simp add: mock_staged_def)

lemma committed_poison [simp]: "mock_committed (poison e m) = mock_committed m"
  by (simp add: mock_committed_def)

lemma views_changed [simp]:
  "mock_committed (m\<lparr>mf_changed := b\<rparr>) = mock_committed m"
  "mock_staged (m\<lparr>mf_changed := b\<rparr>) = mock_staged m"
  by (simp_all add: mock_defs)

section \<open>The laws, operation by operation\<close>

lemma find_filterTable [simp]: "find_table (Some filterTable) ts = map_of ts filterTableName"
  by (simp add: find_table_def)

lemma views_put_filter [simp]:
  "sets_of (AList.update filterTableName x ts) = map_of (mt_Sets x)"
  "schemas_of (AList.update filterTableName x ts) = map_of (mt_SetSchemas x)"
  "new_of (AList.update filterTableName x ts) = map_of (mt_newAnonSets x)"
  by (simp_all add: fun_eq_iff sets_of_def schemas_of_def new_of_def)

lemma views_filter:
  assumes "map_of ts filterTableName = Some t"
  shows "sets_of ts = map_of (mt_Sets t)" "schemas_of ts = map_of (mt_SetSchemas t)"
    "new_of ts = map_of (mt_newAnonSets t)"
  using assms by (simp_all add: fun_eq_iff sets_of_def schemas_of_def new_of_def)

lemma put_filterTable [simp]:
  "put_table (Some filterTable) x m = m\<lparr>mf_tables := AList.update filterTableName x (mf_tables m)\<rparr>"
  by (simp add: put_table_def)

lemma chains_inv_update:
  assumes "chains_inv H cs" "ch_Name c = n" "ch_Table c = Some filterTable"
    "distinct (map ru_Handle rules)"
    "\<forall>r \<in> set rules. 0 < ru_Handle r \<and> ru_Handle r \<le> H \<and> ch_Name (ru_Chain r) = n \<and>
       ru_Table r = Some filterTable"
  shows "chains_inv H (AList.update n (c, rules) cs)"
  using assms distinct_update [of cs n "(c, rules)"] unfolding chains_inv_def by simp

lemma chains_inv_mono: "chains_inv H cs \<Longrightarrow> H \<le> H' \<Longrightarrow> chains_inv H' cs"
  unfolding chains_inv_def by (meson le_trans)

lemma chains_inv_delete: "chains_inv H cs \<Longrightarrow> chains_inv H (AList.delete n cs)"
  unfolding chains_inv_def using distinct_delete [of cs n] by (auto split: if_splits)

lemma AddChain_lemma:
  assumes "mock_core m" "ch_Table ch = Some filterTable"
  shows "mock_core (mf_AddChain ch m) \<and> mock_committed (mf_AddChain ch m) = mock_committed m \<and>
    (mock_staged (mf_AddChain ch m) = Some rs' \<longrightarrow>
      (\<exists>rs. mock_staged m = Some rs \<and> rs_AddChain ch rs = Some rs'))"
proof (cases "map_of (mf_chains m) (ch_Name ch)")
  case None
  have "chains_inv (mf_nextRuleID m) (AList.update (ch_Name ch) (ch, []) (mf_chains m))"
    using assms by (intro chains_inv_update) (auto simp: mock_core_def)
  with None assms show ?thesis
    by (auto simp: mf_AddChain_def Let_def mock_core_def mock_defs rs_AddChain_def used_inv_def
        split: if_splits)
next
  case (Some p)
  obtain c0 rules where p: "p = (c0, rules)" by force
  from assms(1) Some p have "ch_Table c0 = Some filterTable"
    by (auto simp: mock_core_def chains_inv_def)
  then have eq: "chainSchemasEqual c0 ch \<longleftrightarrow> c0 = ch" by (auto simp: chainSchemasEqual_iff)
  show ?thesis
  proof (cases "c0 = ch")
    case True
    with Some p eq have "mf_AddChain ch m = m\<lparr>mf_changed := True\<rparr>"
      by (simp add: mf_AddChain_def Let_def)
    with True Some p mock_core_changed [OF assms(1)] show ?thesis
      by (auto simp: rs_AddChain_def mock_staged_def mock_ruleset_def)
  next
    case False
    with Some p eq have "mf_AddChain ch m = poison EEXIST (m\<lparr>mf_changed := True\<rparr>)"
      by (simp add: mf_AddChain_def Let_def)
    with mock_core_poison [OF mock_core_changed [OF assms(1)]] show ?thesis by simp
  qed
qed

lemma rules_mention_iff:
  "rules_mention n rules \<longleftrightarrow> (\<exists>r \<in> set rules. \<exists>v. EVerdict v \<in> set (ru_Exprs r) \<and> vd_Chain v = n)"
proof -
  have "(case e of EVerdict v \<Rightarrow> vd_Chain v = n | _ \<Rightarrow> False) \<longleftrightarrow> (\<exists>v. e = EVerdict v \<and> vd_Chain v = n)" for e
    by (cases e) auto
  then show ?thesis unfolding rules_mention_def list_ex_iff by auto
qed

lemma elements_mention_iff:
  "elements_mention n els \<longleftrightarrow> (\<exists>el \<in> set els. \<exists>v. el_VerdictData el = Some v \<and> vd_Chain v = n)"
proof -
  have "(case el_VerdictData el of Some v \<Rightarrow> vd_Chain v = n | None \<Rightarrow> False) \<longleftrightarrow>
      (\<exists>v. el_VerdictData el = Some v \<and> vd_Chain v = n)" for el :: set_element
    by (auto split: option.splits)
  then show ?thesis unfolding elements_mention_def list_ex_iff by auto
qed

definition mock_mentions :: "string \<Rightarrow> mockFirewall \<Rightarrow> bool" where
  "mock_mentions n m \<longleftrightarrow>
     list_ex (\<lambda>(_, _, other). rules_mention n other) (mf_chains m) \<or>
     list_ex (\<lambda>(_, t). list_ex (\<lambda>(_, els). elements_mention n els) (mt_Sets t)) (mf_tables m)"

lemma not_mentioned_not_referred:
  assumes "\<not> mock_mentions n m"
  shows "\<not> rs_refers (mock_ruleset (mf_tables m) (mf_chains m)) n"
proof
  assume "rs_refers (mock_ruleset (mf_tables m) (mf_chains m)) n"
  then consider (rule) k ch rules r v where "map_of (mf_chains m) k = Some (ch, rules)" "r \<in> set rules"
      "EVerdict v \<in> set (ru_Exprs r)" "vd_Chain v = n"
    | (elem) k els el v where "sets_of (mf_tables m) k = Some els" "el \<in> set els"
      "el_VerdictData el = Some v" "vd_Chain v = n"
    unfolding rs_refers_def by (auto simp: mock_ruleset_def split: option.splits)
  then show False
  proof cases
    case rule
    then have "(k, ch, rules) \<in> set (mf_chains m)" "rules_mention n rules"
      by (auto dest: map_of_SomeD simp: rules_mention_iff)
    with assms show False by (auto simp: mock_mentions_def list_ex_iff)
  next
    case elem
    from elem(1) obtain t where "map_of (mf_tables m) filterTableName = Some t" "map_of (mt_Sets t) k = Some els"
      by (auto simp: sets_of_def split: option.splits)
    then have "(filterTableName, t) \<in> set (mf_tables m)" "(k, els) \<in> set (mt_Sets t)"
      by (auto dest: map_of_SomeD)
    moreover have "elements_mention n els" using elem by (auto simp: elements_mention_iff)
    ultimately show False using assms by (fastforce simp: mock_mentions_def list_ex_iff)
  qed
qed

lemma mf_DelChain_cases:
  obtains (err) e where "mf_DelChain ch m = poison e (m\<lparr>mf_changed := True\<rparr>)"
  | (del) c0 where "map_of (mf_chains m) (ch_Name ch) = Some (c0, [])"
      "\<not> mock_mentions (ch_Name ch) m"
      "mf_DelChain ch m = m\<lparr>mf_changed := True, mf_chains := AList.delete (ch_Name ch) (mf_chains m)\<rparr>"
proof (cases "map_of (mf_chains m) (ch_Name ch)")
  case None
  then show ?thesis by (intro err [of ENOENT]) (simp add: mf_DelChain_def Let_def)
next
  case (Some p)
  obtain c0 rules where p: "p = (c0, rules)" by force
  show ?thesis
  proof (cases "rules = [] \<and> \<not> mock_mentions (ch_Name ch) m")
    case True
    with Some p show ?thesis by (intro del [of c0]) (simp_all add: mf_DelChain_def Let_def mock_mentions_def)
  next
    case False
    with Some p show ?thesis
      by (intro err [of EBUSY]) (auto simp: mf_DelChain_def Let_def mock_mentions_def)
  qed
qed

lemma DelChain_lemma:
  assumes "mock_core m"
  shows "mock_core (mf_DelChain ch m) \<and> mock_committed (mf_DelChain ch m) = mock_committed m \<and>
    (mock_staged (mf_DelChain ch m) = Some rs' \<longrightarrow>
      (\<exists>rs ch0. mock_staged m = Some rs \<and> rs_chains rs (ch_Name ch) = Some (ch0, []) \<and>
        \<not> rs_refers rs (ch_Name ch) \<and> rs' = rs_DelChain ch rs))"
proof (cases rule: mf_DelChain_cases [of ch m])
  case (err e)
  with mock_core_poison [OF mock_core_changed [OF assms]] show ?thesis by simp
next
  case (del c0)
  have "chains_inv (mf_nextRuleID m) (AList.delete (ch_Name ch) (mf_chains m))"
    using assms chains_inv_delete by (simp add: mock_core_def)
  with del(3) assms have ok: "mock_core (mf_DelChain ch m)"
    by (auto simp: mock_core_def used_inv_def split: if_splits)
  have "rs_chains (mock_ruleset (mf_tables m) (mf_chains m)) (ch_Name ch) = Some (c0, [])"
    using del(1) by (simp add: mock_ruleset_def)
  with del(3) ok not_mentioned_not_referred [OF del(2)] show ?thesis
    by (auto simp: mock_staged_def mock_committed_def rs_DelChain_def split: if_splits)
      (simp_all add: mock_ruleset_def)
qed

lemma fresh_anon_name:
  assumes "sets_inv K ts"
  shows "schemas_of ts (anon_name (Suc K)) = None" "sets_of ts (anon_name (Suc K)) = None"
proof -
  show schema: "schemas_of ts (anon_name (Suc K)) = None"
  proof (rule ccontr)
    assume "schemas_of ts (anon_name (Suc K)) \<noteq> None"
    with assms obtain k where "k \<le> K" "anon_name (Suc K) = anon_name k"
      unfolding sets_inv_def by (metis is_anon_anon_name)
    then show False by simp
  qed
  show "sets_of ts (anon_name (Suc K)) = None"
    using assms schema by (auto simp: sets_inv_def)
qed

lemma sets_inv_mono: "sets_inv K ts \<Longrightarrow> K \<le> K' \<Longrightarrow> sets_inv K' ts"
  unfolding sets_inv_def by (meson le_trans)

lemma AddSet_anonymous:
  assumes "mock_core m" "s_Table s = Some filterTable" "s_Anonymous s"
    "map_of (mf_tables m) filterTableName = Some t"
  defines "k \<equiv> Suc (mf_nextSetID m)"
  defines "s' \<equiv> s\<lparr>s_ID := k, s_Name := anonSetName\<rparr>"
  shows "\<exists>ts'. mf_AddSet s els m = (m\<lparr>mf_changed := True, mf_nextSetID := k, mf_tables := ts'\<rparr>, Inr s') \<and>
    sets_of ts' = (sets_of (mf_tables m))(anon_name k \<mapsto> els) \<and>
    schemas_of ts' = (schemas_of (mf_tables m))(anon_name k \<mapsto> s'\<lparr>s_Name := anon_name k\<rparr>) \<and>
    new_of ts' = (new_of (mf_tables m))(anon_name k \<mapsto> False)"
proof -
  have "schemas_of (mf_tables m) (anon_name k) = None"
    using assms(1) fresh_anon_name(1) by (simp add: mock_core_def k_def)
  then have "map_of (mt_SetSchemas t) (anon_name k) = None"
    by (simp add: views_filter [OF assms(4)])
  then show ?thesis using assms(2-4)
    by (intro exI [of _ "AList.update filterTableName
          (t\<lparr>mt_newAnonSets := AList.update (anon_name k) False (mt_newAnonSets t),
             mt_Sets := AList.update (anon_name k) els (mt_Sets t),
             mt_SetSchemas := AList.update (anon_name k) (s'\<lparr>s_Name := anon_name k\<rparr>) (mt_SetSchemas t)\<rparr>)
          (mf_tables m)"])
      (simp add: mf_AddSet_def Let_def views_filter [OF assms(4)] k_def s'_def)
qed

lemma mock_staged_rs: "mock_staged m = Some rs \<Longrightarrow> rs = mock_ruleset (mf_tables m) (mf_chains m)"
  by (simp add: mock_staged_def split: if_splits)

lemma AddSet_anonymous_ok:
  assumes "mock_core m" "s_Table s = Some filterTable" "s_Anonymous s"
    "map_of (mf_tables m) filterTableName = Some t" "mf_AddSet s els m = (m', Inr s')"
  shows "mock_core m'" and "mock_committed m' = mock_committed m"
    and "s' = s\<lparr>s_ID := s_ID s', s_Name := anonSetName\<rparr>"
    and "mock_staged m' = Some rs' \<Longrightarrow> \<exists>rs. mock_staged m = Some rs \<and> s_ID s' \<noteq> 0 \<and>
      rs_sets rs (anon_name (s_ID s')) = None \<and>
      rs' = rs_AddSet (s'\<lparr>s_Name := anon_name (s_ID s')\<rparr>) els rs"
proof -
  define k where "k = Suc (mf_nextSetID m)"
  obtain ts' where m': "m' = m\<lparr>mf_changed := True, mf_nextSetID := k, mf_tables := ts'\<rparr>"
    and s': "s' = s\<lparr>s_ID := k, s_Name := anonSetName\<rparr>"
    and views: "sets_of ts' = (sets_of (mf_tables m))(anon_name k \<mapsto> els)"
      "schemas_of ts' = (schemas_of (mf_tables m))(anon_name k \<mapsto> s'\<lparr>s_Name := anon_name k\<rparr>)"
      "new_of ts' = (new_of (mf_tables m))(anon_name k \<mapsto> False)"
    using AddSet_anonymous [OF assms(1-4), of els] assms(5) by (auto simp: k_def)
  have inv: "sets_inv (mf_nextSetID m) (mf_tables m)" "sets_inv (mf_nextSetID m) (mf_baseTables m)"
    "new_inv (mf_nextSetID m) (mf_tables m) (mf_baseTables m)"
    using assms(1) by (simp_all add: mock_core_def)
  have sets': "sets_inv k ts'"
    using sets_inv_mono [OF inv(1), of k] by (auto simp: sets_inv_def views k_def)
  have new': "new_inv k ts' (mf_baseTables m)"
    using inv(3) fresh_anon_name(2) [OF inv(2)] unfolding new_inv_def views
    by (auto simp: k_def le_Suc_eq)
  have "new_of (mf_tables m) (anon_name k) = None"
  proof (rule ccontr)
    assume "\<not> ?thesis"
    with inv(3) obtain j where "j \<le> mf_nextSetID m" "anon_name k = anon_name j"
      unfolding new_inv_def by blast
    then show False by (simp add: k_def)
  qed
  then have used': "mf_flushErr m = None \<longrightarrow> used_inv ts' (mf_chains m)"
    using assms(1) unfolding mock_core_def used_inv_def views by (metis fun_upd_other option.distinct(1))
  show "mock_core m'"
    using assms(1) sets' new' used' sets_inv_mono [OF inv(2), of k] by (simp add: mock_core_def m' k_def)
  show "mock_committed m' = mock_committed m" by (simp add: m' mock_committed_def)
  show "s' = s\<lparr>s_ID := s_ID s', s_Name := anonSetName\<rparr>" by (simp add: s')
  assume st: "mock_staged m' = Some rs'"
  have fresh: "schemas_of (mf_tables m) (anon_name k) = None" "sets_of (mf_tables m) (anon_name k) = None"
    using fresh_anon_name [OF inv(1)] by (simp_all add: k_def)
  have rs': "rs' = mock_ruleset ts' (mf_chains m)" and no: "mf_flushErr m = None"
    using st by (auto simp: m' mock_staged_def split: if_splits)
  have "rs' = rs_AddSet (s'\<lparr>s_Name := anon_name k\<rparr>) els (mock_ruleset (mf_tables m) (mf_chains m))"
    using fresh by (auto simp: rs' rs_AddSet_def mock_ruleset_def views fun_eq_iff)
  then show "\<exists>rs. mock_staged m = Some rs \<and> s_ID s' \<noteq> 0 \<and>
      rs_sets rs (anon_name (s_ID s')) = None \<and>
      rs' = rs_AddSet (s'\<lparr>s_Name := anon_name (s_ID s')\<rparr>) els rs"
    using no fresh by (simp add: mock_staged_def s' mock_ruleset_def k_def)
qed

lemma AddSet_named_ok:
  assumes "mock_core m" "s_Table s = Some filterTable" "\<not> s_Anonymous s" "\<not> is_anon_name (s_Name s)"
    "map_of (mf_tables m) filterTableName = Some t" "mf_AddSet s els m = (m', Inr s')"
  shows "mock_core m'" and "mock_committed m' = mock_committed m" and "s' = s"
    and "mock_staged m' = Some rs' \<Longrightarrow> \<exists>rs. mock_staged m = Some rs \<and> rs' = rs_AddSet s els rs"
proof -
  have inv: "sets_inv (mf_nextSetID m) (mf_tables m)" using assms(1) by (simp add: mock_core_def)
  have both: "schemas_of (mf_tables m) (s_Name s) = None \<longleftrightarrow> sets_of (mf_tables m) (s_Name s) = None"
    using inv assms(4) by (auto simp: sets_inv_def)
  note v = views_filter [OF assms(5)]
  let ?ts1 = "AList.update filterTableName t (mf_tables m)"
  have same: "sets_of ?ts1 = sets_of (mf_tables m)" "schemas_of ?ts1 = schemas_of (mf_tables m)"
    "new_of ?ts1 = new_of (mf_tables m)"
    by (simp_all add: v)
  have rs1: "mock_ruleset ?ts1 cs = mock_ruleset (mf_tables m) cs" for cs
    by (simp add: mock_ruleset_def v)
  have ok1: "mock_core (m\<lparr>mf_changed := True, mf_tables := ?ts1\<rparr>)"
    using assms(1) by (simp add: mock_core_def sets_inv_def new_inv_def used_inv_def v)
  have all: "mock_core m' \<and> mock_committed m' = mock_committed m \<and> s' = s \<and>
    (mock_staged m' = Some rs' \<longrightarrow> (\<exists>rs. mock_staged m = Some rs \<and> rs' = rs_AddSet s els rs))"
  proof (cases "schemas_of (mf_tables m) (s_Name s)")
    case (Some existing)
    have neq: "sets_of (mf_tables m) (s_Name s) \<noteq> None" using both Some by simp
    have m': "m' = (let m1 = m\<lparr>mf_changed := True, mf_tables := ?ts1\<rparr> in
        if setSchemasEqual existing s then m1 else poison EEXIST m1)" and "s' = s"
      using assms Some by (auto simp: mf_AddSet_def Let_def v)
    moreover have "rs_AddSet s els rs = rs" if "mock_staged m = Some rs" for rs
      using Some neq mock_staged_rs [OF that] by (auto simp: rs_AddSet_def mock_ruleset_def)
    ultimately show ?thesis using ok1 mock_core_poison [OF ok1, of EEXIST]
      by (auto simp: Let_def mock_committed_def mock_staged_def rs1 split: if_splits)
  next
    case None
    let ?t = "t\<lparr>mt_Sets := AList.update (s_Name s) els (mt_Sets t),
      mt_SetSchemas := AList.update (s_Name s) s (mt_SetSchemas t)\<rparr>"
    let ?ts = "AList.update filterTableName ?t ?ts1"
    have m': "m' = m\<lparr>mf_changed := True, mf_tables := ?ts\<rparr>" and "s' = s"
      using assms None by (auto simp: mf_AddSet_def Let_def v)
    moreover have "mock_core (m\<lparr>mf_changed := True, mf_tables := ?ts\<rparr>)"
      using assms(1,4) by (auto simp: mock_core_def sets_inv_def new_inv_def used_inv_def v)
    moreover have "mock_ruleset ?ts (mf_chains m) = rs_AddSet s els (mock_ruleset (mf_tables m) (mf_chains m))"
      using None both by (auto simp: mock_ruleset_def rs_AddSet_def v fun_eq_iff)
    ultimately show ?thesis by (auto simp: mock_committed_def mock_staged_def split: if_splits)
  qed
  then show "mock_core m'" "mock_committed m' = mock_committed m" "s' = s" by auto
  show "mock_staged m' = Some rs' \<Longrightarrow> \<exists>rs. mock_staged m = Some rs \<and> rs' = rs_AddSet s els rs"
    using all by blast
qed

lemma AddSet_no_table:
  assumes "s_Table s = Some filterTable" "map_of (mf_tables m) filterTableName = None"
  shows "mf_AddSet s els m = (poison ENOENT (m\<lparr>mf_changed := True\<rparr>), Inr s)"
  using assms by (simp add: mf_AddSet_def Let_def)

lemma element_present_eq: "element_present v e \<longleftrightarrow> e = v"
  by (cases v; cases e; cases "el_VerdictData v"; cases "el_VerdictData e")
    (auto simp: element_present_def)

lemma append_missing_eq: "append_missing els vs = add_elements els vs"
  by (induction vs arbitrary: els) (auto simp: element_present_eq list_ex_iff)

lemma delete_each_missing: "snd (delete_each els True vs)"
  by (induction vs arbitrary: els) auto

lemma delete_each_found: "delete_each els False vs = (els', False) \<Longrightarrow> delete_elements els vs = Some els'"
proof (induction vs arbitrary: els)
  case (Cons v vs)
  then show ?case using delete_each_missing [of els vs] by (auto split: if_splits)
qed simp

lemma open_set_filter:
  assumes "s_Table s = Some filterTable" "open_set s m = Inr (t, els)"
  shows "map_of (mf_tables m) filterTableName = Some t" "sets_of (mf_tables m) (s_Name s) = Some els"
    "\<exists>schema. schemas_of (mf_tables m) (s_Name s) = Some schema"
  using assms by (auto simp: open_set_def sets_of_def schemas_of_def split: option.splits if_splits)

lemma put_elements:
  fixes els' :: "set_element list" and t :: mock_table
  assumes "mock_core m" "s_Table s = Some filterTable" "open_set s m = Inr (t, els)" "mf_changed m"
  defines "m' \<equiv> put_table (s_Table s) (t\<lparr>mt_Sets := AList.update (s_Name s) els' (mt_Sets t)\<rparr>) m"
  shows "mock_core m' \<and> mock_committed m' = mock_committed m \<and> mf_changed m' \<and>
    (mock_staged m' = Some rs' \<longrightarrow> (\<exists>rs s0. mock_staged m = Some rs \<and>
       rs_sets rs (s_Name s) = Some (s0, els) \<and> rs' = rs_SetElements (s_Name s) els' rs))"
proof -
  note o = open_set_filter [OF assms(2,3)]
  note v = views_filter [OF o(1)]
  from o(3) obtain schema where schema: "map_of (mt_SetSchemas t) (s_Name s) = Some schema"
    by (auto simp: v)
  have "mock_core m'"
    using assms(1,2,4) schema o(2) by (auto simp: m'_def mock_core_def sets_inv_def new_inv_def used_inv_def v)
  moreover have "rs_SetElements (s_Name s) els' (mock_ruleset (mf_tables m) (mf_chains m)) =
      mock_ruleset (mf_tables m') (mf_chains m')"
    using assms(2) schema o(2) by (auto simp: m'_def mock_ruleset_def rs_SetElements_def v fun_eq_iff)
  moreover have "rs_sets (mock_ruleset (mf_tables m) (mf_chains m)) (s_Name s) = Some (schema, els)"
    using schema o(2) by (simp add: mock_ruleset_def v)
  ultimately show ?thesis
    using assms(2,4) by (auto simp: mock_committed_def mock_staged_def m'_def split: if_splits)
qed

lemma SetAddElements_lemma:
  assumes "mock_core m" "s_Table s = Some filterTable" "mf_SetAddElements s vs m = (m', e)"
  shows "mock_core m' \<and> mock_committed m' = mock_committed m \<and>
    (mock_staged m' = Some rs' \<longrightarrow> (\<exists>rs s0 els. mock_staged m = Some rs \<and>
       rs_sets rs (s_Name s) = Some (s0, els) \<and>
       rs' = rs_SetElements (s_Name s) (add_elements els vs) rs))"
proof (cases "open_set s (m\<lparr>mf_changed := True\<rparr>)")
  case (Inl err)
  with assms mock_core_poison [OF mock_core_changed [OF assms(1)], of err] show ?thesis
    by (auto simp: mf_SetAddElements_def Let_def)
next
  case (Inr p)
  obtain t els where p: "p = (t, els)" by force
  from put_elements [OF mock_core_changed [OF assms(1)] assms(2) Inr [unfolded p],
      of "add_elements els vs" rs'] assms(3) Inr p
  show ?thesis by (auto simp: mf_SetAddElements_def Let_def append_missing_eq)
qed

lemma SetDeleteElements_lemma:
  assumes "mock_core m" "s_Table s = Some filterTable" "mf_SetDeleteElements s vs m = (m', e)"
  shows "mock_core m' \<and> mock_committed m' = mock_committed m \<and>
    (mock_staged m' = Some rs' \<longrightarrow> (\<exists>rs s0 els els'. mock_staged m = Some rs \<and>
       rs_sets rs (s_Name s) = Some (s0, els) \<and> delete_elements els vs = Some els' \<and>
       rs' = rs_SetElements (s_Name s) els' rs))"
proof (cases "open_set s (m\<lparr>mf_changed := True\<rparr>)")
  case (Inl err)
  with assms mock_core_poison [OF mock_core_changed [OF assms(1)], of err] show ?thesis
    by (auto simp: mf_SetDeleteElements_def Let_def)
next
  case (Inr p)
  obtain t els where p: "p = (t, els)" by force
  obtain els' missing where del: "delete_each els False vs = (els', missing)" by force
  let ?m = "m\<lparr>mf_changed := True\<rparr>"
  note put = put_elements [OF mock_core_changed [OF assms(1)] assms(2) Inr [unfolded p], of els' rs']
  show ?thesis
  proof (cases missing)
    case False
    with put assms(3) Inr p del delete_each_found [of els vs els'] show ?thesis
      by (auto simp: mf_SetDeleteElements_def Let_def)
  next
    case True
    define m1 where "m1 = put_table (s_Table s)
      (t\<lparr>mt_Sets := AList.update (s_Name s) els' (mt_Sets t)\<rparr>) ?m"
    have "m' = poison ENOENT m1"
      using True assms(2,3) Inr p del
      by (auto simp: mf_SetDeleteElements_def Let_def poison_def m1_def)
    moreover have "mock_core m1" "mf_changed m1" "mock_committed m1 = mock_committed m"
      using put by (auto simp: m1_def)
    ultimately show ?thesis using mock_core_poison by simp
  qed
qed

text \<open>Checking a new rule only marks anonymous sets as used, or poisons the batch.\<close>

definition check_frame :: "mockFirewall \<Rightarrow> mockFirewall \<Rightarrow> bool" where
  "check_frame m m' \<longleftrightarrow>
     mf_changed m' = mf_changed m \<and> mf_chains m' = mf_chains m \<and>
     mf_baseTables m' = mf_baseTables m \<and> mf_baseChains m' = mf_baseChains m \<and>
     mf_nextSetID m' = mf_nextSetID m \<and> mf_nextRuleID m' = mf_nextRuleID m \<and>
     sets_of (mf_tables m') = sets_of (mf_tables m) \<and>
     schemas_of (mf_tables m') = schemas_of (mf_tables m) \<and>
     (\<forall>n. new_of (mf_tables m') n = new_of (mf_tables m) n \<or>
        (new_of (mf_tables m) n \<noteq> None \<and> new_of (mf_tables m') n = Some True)) \<and>
     (mf_flushErr m' = None \<longrightarrow> mf_flushErr m = None) \<and>
     ((map_of (mf_tables m') filterTableName = None) = (map_of (mf_tables m) filterTableName = None))"

lemma check_frame_refl: "check_frame m m"
  by (simp add: check_frame_def)

lemma check_frame_trans: "check_frame a b \<Longrightarrow> check_frame b c \<Longrightarrow> check_frame a c"
  unfolding check_frame_def by metis

lemma check_frame_poison: "check_frame m (poison e m)"
  by (simp add: check_frame_def)

lemma check_frame_mark:
  assumes "map_of (mf_tables m) filterTableName = Some t" "map_of (mt_newAnonSets t) n \<noteq> None"
  shows "check_frame m (mark_used (Some filterTable) n m)"
    and "new_of (mf_tables (mark_used (Some filterTable) n m)) n = Some True"
  using assms by (auto simp: check_frame_def mark_used_def views_filter [OF assms(1)])

lemma checkExpr_frame: "check_frame m (checkExpr (Some filterTable) e m)"
proof (cases "map_of (mf_tables m) filterTableName")
  case None
  then show ?thesis by (simp add: checkExpr_def check_frame_refl)
next
  case (Some t)
  show ?thesis
    using check_frame_refl [of m] check_frame_poison [of m] check_frame_mark(1) [OF Some]
    by (auto simp: checkExpr_def Some split: nexpr.splits)
qed

lemma checkExpr_pending:
  assumes "map_of (mf_tables m) filterTableName \<noteq> None" "lk_SetName l = anonSetName"
    "mf_flushErr (checkExpr (Some filterTable) (ELookup l) m) = None"
  shows "new_of (mf_tables (checkExpr (Some filterTable) (ELookup l) m)) (anon_name (lk_SetID l)) = Some True"
proof -
  from assms(1) obtain t where t: "map_of (mf_tables m) filterTableName = Some t" by auto
  show ?thesis using assms(2,3) check_frame_mark(2) [OF t]
    by (auto simp: checkExpr_def t split: if_splits)
qed

lemma checkRule_frame: "check_frame m (checkRule (Some filterTable) es m)"
  by (induction es arbitrary: m) (auto intro: check_frame_refl check_frame_trans checkExpr_frame)

lemma checkRule_pending:
  assumes "map_of (mf_tables m) filterTableName \<noteq> None"
    "mf_flushErr (checkRule (Some filterTable) es m) = None"
    "ELookup l \<in> set es" "lk_SetName l = anonSetName"
  shows "new_of (mf_tables (checkRule (Some filterTable) es m)) (anon_name (lk_SetID l)) = Some True"
  using assms
proof (induction es arbitrary: m)
  case (Cons e es)
  let ?m = "checkExpr (Some filterTable) e m"
  have fr: "check_frame m ?m" "check_frame ?m (checkRule (Some filterTable) es ?m)"
    by (rule checkExpr_frame, rule checkRule_frame)
  then have t: "map_of (mf_tables ?m) filterTableName \<noteq> None" and no: "mf_flushErr ?m = None"
    using Cons.prems(1,2) by (simp_all add: check_frame_def)
  show ?case
  proof (cases "ELookup l \<in> set es")
    case True
    with Cons.IH [OF t] Cons.prems(2,4) show ?thesis by simp
  next
    case False
    with Cons.prems(3) have "e = ELookup l" by auto
    with checkExpr_pending [OF Cons.prems(1,4)] no
    have "new_of (mf_tables ?m) (anon_name (lk_SetID l)) = Some True" by simp
    then show ?thesis using fr(2) unfolding check_frame_def by (metis checkRule.simps(2))
  qed
qed simp

text \<open>Adding a rule, wherever in its chain.\<close>

lemma put_rule_cases:
  assumes "ru_Table r = Some filterTable"
  obtains (err) e where "put_rule place r m = poison e (m\<lparr>mf_changed := True\<rparr>)"
  | (put) c rules m1 where "ru_Handle r = 0" "map_of (mf_tables m) filterTableName \<noteq> None"
      "map_of (mf_chains m) (ch_Name (ru_Chain r)) = Some (c, rules)"
      "m1 = checkRule (Some filterTable) (ru_Exprs r)
         (m\<lparr>mf_changed := True, mf_nextRuleID := Suc (mf_nextRuleID m)\<rparr>)"
      "put_rule place r m = m1\<lparr>mf_chains := AList.update (ch_Name (ru_Chain r))
         (c, place (r\<lparr>ru_Handle := Suc (mf_nextRuleID m)\<rparr>) rules) (mf_chains m)\<rparr>"
proof -
  let ?m0 = "m\<lparr>mf_changed := True, mf_nextRuleID := Suc (mf_nextRuleID m)\<rparr>"
  have same: "mf_chains (checkRule (Some filterTable) (ru_Exprs r) ?m0) = mf_chains m"
    using checkRule_frame [of ?m0 "ru_Exprs r"] by (simp add: check_frame_def)
  show ?thesis
  proof (cases "ru_Handle r = 0 \<and> map_of (mf_tables m) filterTableName \<noteq> None")
    case False
    then have "put_rule place r m =
        poison (if ru_Handle r \<noteq> 0 then EINVAL else ENOENT) (m\<lparr>mf_changed := True\<rparr>)"
      using assms by (auto simp: put_rule_def Let_def)
    then show ?thesis by (rule err)
  next
    case True
    show ?thesis
    proof (cases "map_of (mf_chains m) (ch_Name (ru_Chain r))")
      case None
      with True show ?thesis using assms by (intro err [of ENOENT]) (auto simp: put_rule_def Let_def)
    next
      case (Some p)
      obtain c rules where "p = (c, rules)" by force
      with True Some same show ?thesis using assms
        by (intro put [of c rules]) (auto simp: put_rule_def Let_def)
    qed
  qed
qed

lemma pending_sets_handle [simp]: "pending_sets (r\<lparr>ru_Handle := h\<rparr>) = pending_sets r"
  by (simp add: pending_sets_def)

lemma put_rule_lemma:
  fixes place :: "nft_rule \<Rightarrow> nft_rule list \<Rightarrow> nft_rule list"
  assumes "mock_core m" "ru_Table r = Some filterTable"
    and place: "\<And>r rules. set (place r rules) = insert r (set rules)"
      "\<And>r rules. distinct (map ru_Handle (r # rules)) \<Longrightarrow> distinct (map ru_Handle (place r rules))"
  shows "mock_core (put_rule place r m) \<and> mock_committed (put_rule place r m) = mock_committed m \<and>
    (mock_staged (put_rule place r m) = Some rs' \<longrightarrow>
      (\<exists>rs h c rules. mock_staged m = Some rs \<and> ru_Handle r = 0 \<and> h \<noteq> 0 \<and>
        rs_chains rs (ch_Name (ru_Chain r)) = Some (c, rules) \<and>
        rs' = rs\<lparr>rs_chains := (rs_chains rs)(ch_Name (ru_Chain r) \<mapsto> (c, place (r\<lparr>ru_Handle := h\<rparr>) rules))\<rparr>))"
proof (cases rule: put_rule_cases [OF assms(2), of place m, case_names err put])
  case (err e)
  with mock_core_poison [OF mock_core_changed [OF assms(1)]] show ?thesis by simp
next
  case (put c rules m1)
  let ?n = "ch_Name (ru_Chain r)" and ?h = "Suc (mf_nextRuleID m)"
  let ?rule = "r\<lparr>ru_Handle := ?h\<rparr>"
  let ?m0 = "m\<lparr>mf_changed := True, mf_nextRuleID := ?h\<rparr>"
  let ?cs = "AList.update ?n (c, place ?rule rules) (mf_chains m)"
  have fr: "check_frame ?m0 m1" using put(4) checkRule_frame by simp
  then have f: "mf_changed m1" "mf_baseTables m1 = mf_baseTables m" "mf_baseChains m1 = mf_baseChains m"
    "mf_nextSetID m1 = mf_nextSetID m" "mf_nextRuleID m1 = ?h"
    "sets_of (mf_tables m1) = sets_of (mf_tables m)" "schemas_of (mf_tables m1) = schemas_of (mf_tables m)"
    by (simp_all add: check_frame_def)
  have new: "new_of (mf_tables m1) n = new_of (mf_tables m) n \<or>
      (new_of (mf_tables m) n \<noteq> None \<and> new_of (mf_tables m1) n = Some True)" for n
    using fr by (simp add: check_frame_def)
  have inv: "chains_inv (mf_nextRuleID m) (mf_chains m)" "chains_inv (mf_nextRuleID m) (mf_baseChains m)"
    using assms(1) by (simp_all add: mock_core_def)
  then have rules: "ch_Name c = ?n" "ch_Table c = Some filterTable" "distinct (map ru_Handle rules)"
    "\<forall>r \<in> set rules. 0 < ru_Handle r \<and> ru_Handle r \<le> mf_nextRuleID m \<and> ch_Name (ru_Chain r) = ?n \<and>
       ru_Table r = Some filterTable"
    using put(3) by (auto simp: chains_inv_def)
  have "?h \<notin> set (map ru_Handle rules)" using rules(4) by auto
  then have "distinct (map ru_Handle (?rule # rules))" using rules(3) by simp
  then have dist: "distinct (map ru_Handle (place ?rule rules))" by (rule place(2))
  have cs: "chains_inv ?h ?cs"
  proof (rule chains_inv_update)
    show "chains_inv ?h (mf_chains m)" using chains_inv_mono [OF inv(1)] by simp
    show "\<forall>x \<in> set (place ?rule rules). 0 < ru_Handle x \<and> ru_Handle x \<le> ?h \<and>
        ch_Name (ru_Chain x) = ?n \<and> ru_Table x = Some filterTable"
      using rules(4) assms(2) by (auto simp: place(1))
  qed (use rules dist in auto)
  have newinv: "new_inv (mf_nextSetID m) (mf_tables m1) (mf_baseTables m)"
    using assms(1) new by (simp add: mock_core_def new_inv_def) metis
  have used: "used_inv (mf_tables m1) ?cs" if no: "mf_flushErr m1 = None"
    unfolding used_inv_def
  proof (intro allI impI)
    fix n c' rules' x k
    assume x: "map_of ?cs n = Some (c', rules')" "x \<in> set rules'" "k \<in> pending_sets x"
    have "mf_flushErr m = None" using fr no by (simp add: check_frame_def)
    then have old: "used_inv (mf_tables m) (mf_chains m)" using assms(1) by (simp add: mock_core_def)
    show "new_of (mf_tables m1) (anon_name k) = Some True"
    proof (cases "n = ?n \<and> x = ?rule")
      case True
      with x(3) obtain l where l: "ELookup l \<in> set (ru_Exprs r)" "lk_SetName l = anonSetName" "k = lk_SetID l"
        by (auto simp: pending_sets_def)
      have t: "map_of (mf_tables ?m0) filterTableName \<noteq> None" using put(2) by simp
      show ?thesis
        using checkRule_pending [OF t no [unfolded put(4)] l(1,2)] l(3) put(4) by simp
    next
      case False
      then have "\<exists>c' rules'. map_of (mf_chains m) n = Some (c', rules') \<and> x \<in> set rules'"
        using x(1,2) put(3) by (auto simp: place(1) split: if_splits)
      then have "new_of (mf_tables m) (anon_name k) = Some True"
        using old x(3) unfolding used_inv_def by blast
      with new [of "anon_name k"] show ?thesis by auto
    qed
  qed
  have "mock_core (put_rule place r m)"
    using assms(1) f cs newinv used chains_inv_mono [OF inv(2), of ?h]
    by (simp add: put(5) mock_core_def sets_inv_def)
  moreover have "mock_committed (put_rule place r m) = mock_committed m"
    using f by (simp add: put(5) mock_committed_def)
  moreover have "mock_staged m = Some (mock_ruleset (mf_tables m) (mf_chains m)) \<and>
      rs' = (mock_ruleset (mf_tables m) (mf_chains m))
        \<lparr>rs_chains := (map_of (mf_chains m))(?n \<mapsto> (c, place ?rule rules))\<rparr>"
    if "mock_staged (put_rule place r m) = Some rs'"
    using that fr f by (auto simp: put(5) mock_staged_def mock_ruleset_def check_frame_def split: if_splits)
  ultimately show ?thesis using put(1,3)
    by (auto simp: mock_ruleset_def intro!: exI [of _ "?h"])
qed

text \<open>Deleting a rule takes its anonymous sets along.\<close>

definition expr_set_names :: "nexpr list \<Rightarrow> string set" where
  "expr_set_names es = {lk_SetName l | l. ELookup l \<in> set es \<and> is_anon_name (lk_SetName l)}"

lemma expr_set_names_simps:
  "expr_set_names [] = {}"
  "expr_set_names (e # es) =
     (case e of ELookup l \<Rightarrow> if is_anon_name (lk_SetName l) then insert (lk_SetName l) (expr_set_names es)
                            else expr_set_names es
      | _ \<Rightarrow> expr_set_names es)"
  by (auto simp: expr_set_names_def split: nexpr.splits)

lemma del_rule_sets_effect:
  assumes "map_of (mf_tables m) filterTableName \<noteq> None"
  shows "\<exists>ts. del_rule_sets (Some filterTable) es m = m\<lparr>mf_tables := ts\<rparr> \<and>
    map_of ts filterTableName \<noteq> None \<and> new_of ts = new_of (mf_tables m) \<and>
    sets_of ts = (\<lambda>n. if n \<in> expr_set_names es then None else sets_of (mf_tables m) n) \<and>
    schemas_of ts = (\<lambda>n. if n \<in> expr_set_names es then None else schemas_of (mf_tables m) n)"
  using assms
proof (induction es arbitrary: m)
  case Nil
  then show ?case by (intro exI [of _ "mf_tables m"]) (simp add: expr_set_names_simps)
next
  case (Cons e es)
  from Cons.prems obtain t where t: "map_of (mf_tables m) filterTableName = Some t" by auto
  show ?case
  proof (cases "\<exists>l. e = ELookup l \<and> is_anon_name (lk_SetName l)")
    case False
    then have "del_rule_sets (Some filterTable) (e # es) m = del_rule_sets (Some filterTable) es m"
      and "expr_set_names (e # es) = expr_set_names es"
      by (auto simp: expr_set_names_simps is_anon_name_def split: nexpr.splits)
    then show ?thesis using Cons.IH [OF Cons.prems] by simp
  next
    case True
    then obtain l where l: "e = ELookup l" "is_anon_name (lk_SetName l)" by blast
    let ?ts = "AList.update filterTableName (t\<lparr>mt_Sets := AList.delete (lk_SetName l) (mt_Sets t),
      mt_SetSchemas := AList.delete (lk_SetName l) (mt_SetSchemas t)\<rparr>) (mf_tables m)"
    have "del_rule_sets (Some filterTable) (e # es) m =
        del_rule_sets (Some filterTable) es (m\<lparr>mf_tables := ?ts\<rparr>)"
      using l t by (simp add: is_anon_name_def del_set_def)
    with Cons.IH [of "m\<lparr>mf_tables := ?ts\<rparr>"] obtain ts where
      "del_rule_sets (Some filterTable) (e # es) m = m\<lparr>mf_tables := ts\<rparr>"
      "map_of ts filterTableName \<noteq> None" "new_of ts = new_of (mf_tables m)"
      "sets_of ts = (\<lambda>n. if n \<in> expr_set_names es then None else sets_of ?ts n)"
      "schemas_of ts = (\<lambda>n. if n \<in> expr_set_names es then None else schemas_of ?ts n)"
      using views_filter(3) [OF t] by fastforce
    then show ?thesis
      by (intro exI [of _ ts]) (auto simp: expr_set_names_simps l views_filter [OF t] fun_eq_iff)
  qed
qed

lemma remove_first_subset: "set (remove_first p xs) \<subseteq> set xs"
  by (induction xs) auto

lemma distinct_map_remove_first: "distinct (map f xs) \<Longrightarrow> distinct (map f (remove_first p xs))"
  using remove_first_subset by (induction xs) fastforce+

lemma rule_sets_expr: "rule_sets r = expr_set_names (ru_Exprs r)"
  by (simp add: rule_sets_def expr_set_names_def)

lemma delRule_cases:
  assumes "mock_core m" "ru_Table r = Some filterTable"
  obtains (err) e where "delRule r m = poison e m"
  | (del) c rules r2 ts where "map_of (mf_chains m) (ch_Name (ru_Chain r)) = Some (c, rules)"
      "find (same_handle r) rules = Some r2"
      "delRule r m = m\<lparr>mf_tables := ts, mf_chains := AList.update (ch_Name (ru_Chain r))
         (c, remove_first (same_handle r) rules) (mf_chains m)\<rparr>"
      "new_of ts = new_of (mf_tables m)"
      "sets_of ts = (\<lambda>n. if n \<in> rule_sets r2 then None else sets_of (mf_tables m) n)"
      "schemas_of ts = (\<lambda>n. if n \<in> rule_sets r2 then None else schemas_of (mf_tables m) n)"
proof (cases "map_of (mf_tables m) filterTableName = None \<or>
    map_of (mf_chains m) (ch_Name (ru_Chain r)) = None")
  case True
  then show ?thesis using assms(2) by (intro err [of ENOENT]) (auto simp: delRule_def)
next
  case False
  then obtain c rules where c: "map_of (mf_chains m) (ch_Name (ru_Chain r)) = Some (c, rules)" by auto
  show ?thesis
  proof (cases "find (same_handle r) rules")
    case None
    with c False show ?thesis using assms(2) by (intro err [of ENOENT]) (auto simp: delRule_def)
  next
    case (Some r2)
    then have "r2 \<in> set rules" by (auto simp: find_Some_iff)
    with c assms(1) have t2: "ru_Table r2 = Some filterTable"
      by (auto simp: mock_core_def chains_inv_def)
    obtain ts where "del_rule_sets (Some filterTable) (ru_Exprs r2) m = m\<lparr>mf_tables := ts\<rparr>"
      "new_of ts = new_of (mf_tables m)"
      "sets_of ts = (\<lambda>n. if n \<in> rule_sets r2 then None else sets_of (mf_tables m) n)"
      "schemas_of ts = (\<lambda>n. if n \<in> rule_sets r2 then None else schemas_of (mf_tables m) n)"
      using del_rule_sets_effect [of m "ru_Exprs r2"] False by (auto simp: rule_sets_expr)
    with c Some False t2 show ?thesis using assms(2)
      by (intro del [of c rules r2 ts]) (auto simp: delRule_def)
  qed
qed

lemma delRule_lemma:
  assumes "mock_core m" "ru_Table r = Some filterTable" "mf_changed m"
  shows "mock_core (delRule r m) \<and> mock_committed (delRule r m) = mock_committed m \<and>
    (mock_staged (delRule r m) = Some rs' \<longrightarrow> (\<exists>rs. mock_staged m = Some rs \<and> rs_DelRule r rs = Some rs'))"
proof (cases rule: delRule_cases [OF assms(1,2), case_names err del])
  case (err e)
  with mock_core_poison assms show ?thesis by simp
next
  case (del c rules r2 ts)
  let ?cs = "AList.update (ch_Name (ru_Chain r)) (c, remove_first (same_handle r) rules) (mf_chains m)"
  have inv: "chains_inv (mf_nextRuleID m) (mf_chains m)" using assms(1) by (simp add: mock_core_def)
  have old: "ch_Name c = ch_Name (ru_Chain r)" "ch_Table c = Some filterTable" "distinct (map ru_Handle rules)"
    "\<forall>x \<in> set rules. 0 < ru_Handle x \<and> ru_Handle x \<le> mf_nextRuleID m \<and>
       ch_Name (ru_Chain x) = ch_Name (ru_Chain r) \<and> ru_Table x = Some filterTable"
    using inv del(1) unfolding chains_inv_def by blast+
  have "chains_inv (mf_nextRuleID m) ?cs"
    using old remove_first_subset [of "same_handle r" rules]
      distinct_map_remove_first [OF old(3), of "same_handle r"]
    by (intro chains_inv_update [OF inv]) auto
  moreover have "sets_inv (mf_nextSetID m) ts"
  proof -
    have "is_anon_name n" if "n \<in> rule_sets r2" for n using that by (auto simp: rule_sets_def)
    moreover have "sets_inv (mf_nextSetID m) (mf_tables m)" using assms(1) by (simp add: mock_core_def)
    ultimately show ?thesis by (auto simp: sets_inv_def del(5,6))
  qed
  moreover have "used_inv ts ?cs" if "mf_flushErr m = None"
    using that assms(1) del(1) remove_first_subset [of "same_handle r" rules]
    by (auto simp: mock_core_def used_inv_def del(4))
  ultimately have ok: "mock_core (delRule r m)"
    using assms(1,3) by (simp add: del(3) mock_core_def new_inv_def del(4))
  have "mock_committed (delRule r m) = mock_committed m" by (simp add: del(3) mock_committed_def)
  moreover have "rs_DelRule r (mock_ruleset (mf_tables m) (mf_chains m)) = Some (mock_ruleset ts ?cs)"
    using del(1,2) by (auto simp: rs_DelRule_def mock_ruleset_def del(5,6) fun_eq_iff)
  ultimately show ?thesis using ok by (auto simp: mock_staged_def del(3) split: if_splits)
qed

text \<open>Flush.\<close>

lemma update_lookup_eq: "update_lookup e = commit_expr e"
  by (auto simp: update_lookup_def commit_expr_def anon_name_def split: nexpr.splits)

lemma map_of_update_lookups: "map_of (update_lookups cs) = committed_chains (map_of cs)"
proof -
  have eq: "(\<lambda>r. r\<lparr>ru_Exprs := map update_lookup (ru_Exprs r)\<rparr>) = commit_rule"
    by (auto simp: commit_rule_def update_lookup_eq [abs_def] fun_eq_iff)
  show ?thesis
    by (induction cs) (auto simp: update_lookups_def committed_chains_def eq fun_eq_iff)
qed

lemma commit_rule_sel [simp]:
  "ru_Handle (commit_rule r) = ru_Handle r" "ru_Chain (commit_rule r) = ru_Chain r"
  "ru_Table (commit_rule r) = ru_Table r" "ru_UserData (commit_rule r) = ru_UserData r"
  by (simp_all add: commit_rule_def)

lemma pending_commit_rule [simp]: "pending_sets (commit_rule r) = {}"
  by (auto simp: pending_sets_def commit_rule_def commit_expr_def split: nexpr.splits if_splits)

lemma chains_inv_commit:
  assumes "chains_inv H cs"
  shows "chains_inv H (update_lookups cs)" and "no_pending (update_lookups cs)"
proof -
  have keys: "map fst (update_lookups cs) = map fst cs"
    by (simp add: update_lookups_def case_prod_beta comp_def)
  have handles: "map ru_Handle (map commit_rule rules) = map ru_Handle rules" for rules by simp
  show "chains_inv H (update_lookups cs)"
    using assms unfolding chains_inv_def keys map_of_update_lookups
    by (auto simp: committed_chains_def comp_def)
  show "no_pending (update_lookups cs)"
    by (auto simp: no_pending_def map_of_update_lookups committed_chains_def)
qed

lemma drop_unused_views:
  "schemas_of (drop_unused_sets ts) = schemas_of ts"
  "new_of (drop_unused_sets ts) = new_of ts"
  "sets_of (drop_unused_sets ts) n = (if new_of ts n = Some False then None else sets_of ts n)"
proof -
  have m: "map_of (drop_unused_sets ts) k = map_option (\<lambda>t. t\<lparr>mt_Sets :=
      filter (\<lambda>(s, _). map_of (mt_newAnonSets t) s \<noteq> Some False) (mt_Sets t)\<rparr>) (map_of ts k)" for k
    by (induction ts) (auto simp: drop_unused_sets_def)
  have f: "map_of (filter (\<lambda>(s, _). P s) xs) k = (if P k then map_of xs k else None)" for P and xs :: "('x \<times> 'y) list" and k
    by (induction xs) auto
  show "schemas_of (drop_unused_sets ts) = schemas_of ts"
    "new_of (drop_unused_sets ts) = new_of ts"
    "sets_of (drop_unused_sets ts) n = (if new_of ts n = Some False then None else sets_of ts n)"
    by (auto simp: fun_eq_iff sets_of_def schemas_of_def new_of_def m f split: option.splits)
qed

lemma sets_inv_drop:
  assumes "sets_inv K ts" "new_inv K ts base"
  shows "sets_inv K (drop_unused_sets ts)"
  using assms by (auto simp: sets_inv_def new_inv_def drop_unused_views)

lemma commit_rule_id:
  assumes "pending_sets r = {}"
  shows "commit_rule r = r"
proof -
  have "commit_expr e = e" if "e \<in> set (ru_Exprs r)" for e
    using assms that by (cases e) (auto simp: pending_sets_def commit_expr_def)
  then have "map commit_expr (ru_Exprs r) = ru_Exprs r" by (intro map_idI)
  then show ?thesis by (simp add: commit_rule_def)
qed

lemma committed_chains_id:
  assumes "no_pending cs"
  shows "committed_chains (map_of cs) = map_of cs"
proof
  fix n
  show "committed_chains (map_of cs) n = map_of cs n"
  proof (cases "map_of cs n")
    case (Some p)
    obtain c rules where p: "p = (c, rules)" by force
    have "map commit_rule rules = rules"
      using assms Some p by (intro map_idI commit_rule_id) (auto simp: no_pending_def)
    with Some p show ?thesis by (simp add: committed_chains_def)
  qed (simp add: committed_chains_def)
qed

lemma Flush_lemma:
  assumes "mock_core m" "mf_Flush m = (m', e)"
  shows "mock_core m'" and "e = Some err \<Longrightarrow> mock_committed m' = mock_committed m"
    and "e = None \<Longrightarrow> \<exists>rs. mock_staged m = Some rs \<and> rs_commits (mock_committed m) rs (mock_committed m') \<and>
       mock_staged m' = Some (mock_committed m')"
proof -
  have inv: "chains_inv (mf_nextRuleID m) (mf_baseChains m)" "no_pending (mf_baseChains m)"
    "chains_inv (mf_nextRuleID m) (mf_chains m)" "sets_inv (mf_nextSetID m) (mf_baseTables m)"
    "sets_inv (mf_nextSetID m) (mf_tables m)" "new_inv (mf_nextSetID m) (mf_tables m) (mf_baseTables m)"
    using assms(1) by (simp_all add: mock_core_def)
  let ?cs = "update_lookups (mf_chains m)" and ?ts = "drop_unused_sets (mf_tables m)"
  show "mock_core m'"
  proof (cases "mf_flushErr m = None \<and> mf_changed m")
    case True
    then have "m' = reset_client (m\<lparr>mf_chains := ?cs, mf_tables := ?ts, mf_baseTables := ?ts, mf_baseChains := ?cs\<rparr>)"
      using assms(2) by (auto simp: mf_Flush_def Let_def)
    then show ?thesis
      using inv chains_inv_commit [OF inv(3)] sets_inv_drop [OF inv(5,6)]
      by (auto intro!: mock_core_reset)
  next
    case False
    then have "m' = reset_client m \<or> m' = reset_client (m\<lparr>mf_chains := ?cs, mf_tables := ?ts\<rparr>)"
      using assms(2) by (auto simp: mf_Flush_def Let_def split: option.splits)
    then show ?thesis using inv by (auto intro!: mock_core_reset)
  qed
  show "mock_committed m' = mock_committed m" if "e = Some err"
    using assms(2) that by (auto simp: mf_Flush_def Let_def split: option.splits)
  assume none: "e = None"
  then have no: "mf_flushErr m = None" using assms(2) by (auto simp: mf_Flush_def split: option.splits)
  have used: "used_inv (mf_tables m) (mf_chains m)" using assms(1) no by (simp add: mock_core_def)
  let ?st = "mock_ruleset (mf_tables m) (mf_chains m)"
  have commits: "rs_commits (mock_committed m) ?st (mock_ruleset ?ts ?cs)"
    unfolding rs_commits_def
  proof (intro conjI allI impI)
    show "rs_chains (mock_ruleset ?ts ?cs) = committed_chains (rs_chains ?st)"
      by (simp add: mock_ruleset_def map_of_update_lookups)
    fix n
    assume n: "\<not> is_anon_name n \<or> rs_sets (mock_committed m) n \<noteq> None \<or>
      (\<exists>j ch rules r k. rs_chains ?st j = Some (ch, rules) \<and> r \<in> set rules \<and> k \<in> pending_sets r \<and> n = anon_name k)"
    have "new_of (mf_tables m) n \<noteq> Some False"
      using n
    proof (elim disjE exE conjE)
      assume "\<not> is_anon_name n"
      then show ?thesis using inv(6) by (auto simp: new_inv_def)
    next
      assume "rs_sets (mock_committed m) n \<noteq> None"
      then have "sets_of (mf_baseTables m) n \<noteq> None"
        by (auto simp: mock_committed_def mock_ruleset_def split: option.splits)
      then show ?thesis using inv(6) unfolding new_inv_def by (metis option.distinct(1))
    next
      fix j ch rules r k
      assume "rs_chains ?st j = Some (ch, rules)" "r \<in> set rules" "k \<in> pending_sets r" "n = anon_name k"
      then show ?thesis using used by (auto simp: used_inv_def mock_ruleset_def)
    qed
    then show "rs_sets (mock_ruleset ?ts ?cs) n = rs_sets ?st n"
      by (simp add: mock_ruleset_def drop_unused_views)
  qed
  have "mock_committed m' = (if mf_changed m then mock_ruleset ?ts ?cs else mock_committed m)"
    using assms(2) no by (auto simp: mf_Flush_def Let_def mock_committed_def reset_client_def)
  moreover have "rs_commits (mock_committed m) ?st (mock_committed m)" if "\<not> mf_changed m"
  proof -
    have base: "mf_chains m = mf_baseChains m" "sets_of (mf_tables m) = sets_of (mf_baseTables m)"
      "schemas_of (mf_tables m) = schemas_of (mf_baseTables m)"
      using assms(1) that by (simp_all add: mock_core_def)
    then have st: "?st = mock_committed m" by (simp add: mock_committed_def mock_ruleset_def)
    have "committed_chains (map_of (mf_baseChains m)) = map_of (mf_baseChains m)"
      using inv(2) by (rule committed_chains_id)
    then show ?thesis by (simp add: rs_commits_def st) (simp add: mock_committed_def mock_ruleset_def)
  qed
  moreover have "mock_staged m' = Some (mock_committed m')"
    using assms(2) no by (auto simp: mf_Flush_def Let_def)
  ultimately show "\<exists>rs. mock_staged m = Some rs \<and> rs_commits (mock_committed m) rs (mock_committed m') \<and>
       mock_staged m' = Some (mock_committed m')"
    using commits no by (auto simp: mock_staged_def)
qed

section \<open>The mock satisfies the contract\<close>

lemma ListChains_lemma:
  assumes "mock_core m" "mf_ListChainsOfTableFamily TableFamilyIPv4 m = Inr cs"
  shows "(\<forall>ch \<in> set cs. ch_Table ch \<noteq> None) \<and> distinct (map ch_Name (filter in_filter cs)) \<and>
    (\<forall>ch. ch \<in> set cs \<and> in_filter ch \<longleftrightarrow>
      (\<exists>rules. rs_chains (mock_committed m) (ch_Name ch) = Some (ch, rules)))"
proof -
  let ?B = "mf_baseChains m"
  have inv: "chains_inv (mf_nextRuleID m) ?B" using assms(1) by (simp add: mock_core_def)
  then have dist: "distinct (map fst ?B)" by (simp add: chains_inv_def)
  have entry: "ch_Name c = n \<and> ch_Table c = Some filterTable" if "(n, c, rules) \<in> set ?B" for n c rules
    using inv that dist by (auto simp: chains_inv_def)
  have "cs = map (fst \<circ> snd) ?B"
    using assms(2) entry by (auto simp: mf_ListChainsOfTableFamily_def filterTable_def filter_id_conv)
  moreover have "map ch_Name (map (fst \<circ> snd) ?B) = map fst ?B"
    using entry by (auto simp: comp_def)
  moreover have "filter in_filter (map (fst \<circ> snd) ?B) = map (fst \<circ> snd) ?B"
    using entry by (auto simp: filter_id_conv in_filter_def)
  ultimately have cs: "cs = map (fst \<circ> snd) ?B" "distinct (map ch_Name (filter in_filter cs))"
    using dist by (simp_all del: map_map)
  have "ch \<in> set cs \<and> in_filter ch \<longleftrightarrow> (\<exists>rules. map_of ?B (ch_Name ch) = Some (ch, rules))" for ch
  proof
    assume "ch \<in> set cs \<and> in_filter ch"
    then obtain n rules where "(n, ch, rules) \<in> set ?B" by (auto simp: cs(1))
    with entry dist show "\<exists>rules. map_of ?B (ch_Name ch) = Some (ch, rules)" by auto
  next
    assume "\<exists>rules. map_of ?B (ch_Name ch) = Some (ch, rules)"
    then obtain n rules where "(n, ch, rules) \<in> set ?B" by (auto dest: map_of_SomeD)
    with entry show "ch \<in> set cs \<and> in_filter ch" by (force simp: cs(1) in_filter_def)
  qed
  moreover have "\<forall>ch \<in> set cs. ch_Table ch \<noteq> None" using entry by (auto simp: cs(1))
  ultimately show ?thesis using cs(2) by (simp add: mock_committed_def mock_ruleset_def)
qed

lemma mock_committed_wf: "mock_core m \<Longrightarrow> wf_ruleset (mock_committed m)"
  by (auto simp: wf_ruleset_def mock_committed_def mock_ruleset_def mock_core_def chains_inv_def no_pending_def)

lemma GetSetByName_lemma:
  assumes "mock_core m" "\<not> is_anon_name n" "mf_GetSetByName filterTable n m = Inr s"
  shows "s_Name s = n \<and> (\<exists>els. rs_sets (mock_committed m) n = Some (s, els))"
proof -
  have schema: "schemas_of (mf_baseTables m) n = Some s"
    using assms(3) by (auto simp: mf_GetSetByName_def schemas_of_def split: option.splits)
  moreover have "sets_inv (mf_nextSetID m) (mf_baseTables m)" using assms(1) by (simp add: mock_core_def)
  ultimately obtain els where "s_Name s = n" "sets_of (mf_baseTables m) n = Some els"
    using assms(2) by (auto simp: sets_inv_def)
  with schema show ?thesis by (simp add: mock_committed_def mock_ruleset_def)
qed

lemma GetSetByName_missing_lemma:
  "mf_GetSetByName filterTable n m = Inl e \<Longrightarrow> rs_sets (mock_committed m) n = None"
  by (auto simp: mf_GetSetByName_def mock_committed_def mock_ruleset_def schemas_of_def split: option.splits)

lemma GetSetElements_lemma:
  "s_Table s = Some filterTable \<Longrightarrow> mf_GetSetElements s m = Inr els \<Longrightarrow>
   \<exists>s'. rs_sets (mock_committed m) (s_Name s) = Some (s', els)"
  by (auto simp: mf_GetSetElements_def mock_committed_def mock_ruleset_def schemas_of_def sets_of_def
      split: option.splits if_splits)

lemma AddSet_lemma:
  assumes "mock_core m" "s_Table s = Some filterTable" "mf_AddSet s els m = (m', res)"
  shows "s_Anonymous s \<or> \<not> is_anon_name (s_Name s) \<Longrightarrow> mock_core m' \<and> mock_committed m' = mock_committed m"
    and "s_Anonymous s \<or> \<not> is_anon_name (s_Name s) \<Longrightarrow> res = Inr s' \<Longrightarrow> mock_staged m' = Some rs' \<Longrightarrow>
      \<exists>rs. mock_staged m = Some rs \<and>
        (if s_Anonymous s
         then s' = s\<lparr>s_ID := s_ID s', s_Name := anonSetName\<rparr> \<and>
           s_ID s' \<noteq> 0 \<and> rs_sets rs (anon_name (s_ID s')) = None \<and>
           rs' = rs_AddSet (s'\<lparr>s_Name := anon_name (s_ID s')\<rparr>) els rs
         else s' = s \<and> rs' = rs_AddSet s els rs)"
proof -
  assume named: "s_Anonymous s \<or> \<not> is_anon_name (s_Name s)"
  obtain s0 where res: "res = Inr s0"
    using assms(2,3) by (auto simp: mf_AddSet_def Let_def split: option.splits if_splits)
  have "mock_core m' \<and> mock_committed m' = mock_committed m \<and>
    (res = Inr s' \<longrightarrow> mock_staged m' = Some rs' \<longrightarrow> (\<exists>rs. mock_staged m = Some rs \<and>
        (if s_Anonymous s
         then s' = s\<lparr>s_ID := s_ID s', s_Name := anonSetName\<rparr> \<and>
           s_ID s' \<noteq> 0 \<and> rs_sets rs (anon_name (s_ID s')) = None \<and>
           rs' = rs_AddSet (s'\<lparr>s_Name := anon_name (s_ID s')\<rparr>) els rs
         else s' = s \<and> rs' = rs_AddSet s els rs)))"
  proof (cases "map_of (mf_tables m) filterTableName")
    case None
    then show ?thesis
      using AddSet_no_table [OF assms(2) None, of els] assms(3) mock_core_poison [OF mock_core_changed [OF assms(1)]]
      by auto
  next
    case (Some t)
    show ?thesis
    proof (cases "s_Anonymous s")
      case True
      from AddSet_anonymous_ok [OF assms(1,2) True Some assms(3) [unfolded res]] res True
      show ?thesis by auto
    next
      case False
      with named have nn: "\<not> is_anon_name (s_Name s)" by simp
      from AddSet_named_ok [OF assms(1,2) False nn Some assms(3) [unfolded res]] res False
      show ?thesis by auto
    qed
  qed
  then show "mock_core m' \<and> mock_committed m' = mock_committed m"
    and "res = Inr s' \<Longrightarrow> mock_staged m' = Some rs' \<Longrightarrow> \<exists>rs. mock_staged m = Some rs \<and>
        (if s_Anonymous s
         then s' = s\<lparr>s_ID := s_ID s', s_Name := anonSetName\<rparr> \<and>
           s_ID s' \<noteq> 0 \<and> rs_sets rs (anon_name (s_ID s')) = None \<and>
           rs' = rs_AddSet (s'\<lparr>s_Name := anon_name (s_ID s')\<rparr>) els rs
         else s' = s \<and> rs' = rs_AddSet s els rs)" by blast+
qed

lemma AddRule_lemma:
  assumes "mock_core m" "ru_Table r = Some filterTable"
  shows "mock_core (mf_AddRule r m) \<and> mock_committed (mf_AddRule r m) = mock_committed m \<and>
    (mock_staged (mf_AddRule r m) = Some rs' \<longrightarrow>
      (\<exists>rs h. mock_staged m = Some rs \<and> ru_Handle r = 0 \<and> h \<noteq> 0 \<and> rs_AddRule h r rs = Some rs'))"
  using put_rule_lemma [OF assms, of "\<lambda>r rules. rules @ [r]" rs']
  unfolding mf_AddRule_def rs_AddRule_def by fastforce

lemma InsertRule_lemma:
  assumes "mock_core m" "ru_Table r = Some filterTable"
  shows "mock_core (mf_InsertRule r m) \<and> mock_committed (mf_InsertRule r m) = mock_committed m \<and>
    (mock_staged (mf_InsertRule r m) = Some rs' \<longrightarrow>
      (\<exists>rs h. mock_staged m = Some rs \<and> ru_Handle r = 0 \<and> h \<noteq> 0 \<and> rs_InsertRule h r rs = Some rs'))"
  using put_rule_lemma [OF assms, of "\<lambda>r rules. r # rules" rs']
  unfolding mf_InsertRule_def rs_InsertRule_def by fastforce

lemma DelRule_lemma:
  assumes "mock_core m" "ru_Table r = Some filterTable" "mf_DelRule r m = (m', e)"
  shows "mock_core m' \<and> mock_committed m' = mock_committed m \<and>
    (e = None \<longrightarrow> mock_staged m' = Some rs' \<longrightarrow> (\<exists>rs. mock_staged m = Some rs \<and> rs_DelRule r rs = Some rs'))"
  using assms(3) delRule_lemma [OF mock_core_changed [OF assms(1)] assms(2), of rs']
    mock_core_poison [OF mock_core_changed [OF assms(1)], of EINVAL]
  by (auto simp: mf_DelRule_def Let_def split: if_splits)

lemma DelSet_lemma:
  assumes "mock_core m" "s_Table s = Some filterTable"
  shows "mock_core (mf_DelSet s m) \<and> mock_committed (mf_DelSet s m) = mock_committed m \<and>
    (mock_staged (mf_DelSet s m) = Some rs' \<longrightarrow>
      (\<exists>rs. mock_staged m = Some rs \<and> rs' = rs_DelSet (s_Name s) rs))"
proof (cases "map_of (mf_tables m) filterTableName")
  case None
  with mock_core_poison [OF mock_core_changed [OF assms(1)]] assms(2) show ?thesis
    by (simp add: mf_DelSet_def del_set_def)
next
  case (Some t)
  note v = views_filter [OF Some]
  let ?ts = "AList.update filterTableName (t\<lparr>mt_Sets := AList.delete (s_Name s) (mt_Sets t),
    mt_SetSchemas := AList.delete (s_Name s) (mt_SetSchemas t)\<rparr>) (mf_tables m)"
  have "sets_inv (mf_nextSetID m) ?ts"
    using assms(1) by (auto simp: mock_core_def sets_inv_def v)
  moreover have eq: "mf_DelSet s m = m\<lparr>mf_changed := True, mf_tables := ?ts\<rparr>"
    using assms(2) Some by (simp add: mf_DelSet_def del_set_def)
  moreover have "mock_ruleset ?ts (mf_chains m) = rs_DelSet (s_Name s) (mock_ruleset (mf_tables m) (mf_chains m))"
    by (auto simp: mock_ruleset_def rs_DelSet_def v fun_eq_iff split: option.splits)
  ultimately show ?thesis using assms(1)
    by (auto simp: mock_core_def mock_committed_def mock_staged_def new_inv_def used_inv_def v split: if_splits)
qed

section \<open>References\<close>

text \<open>A rule of a sound batch refers to anonymous sets the counter has given out, or to pending ones.\<close>

definition refs_inv :: "nat \<Rightarrow> mock_chains \<Rightarrow> bool" where
  "refs_inv K cs \<longleftrightarrow> (\<forall>n c rules r s. map_of cs n = Some (c, rules) \<longrightarrow> r \<in> set rules \<longrightarrow> s \<in> rule_sets r \<longrightarrow>
     s = anonSetName \<or> (\<exists>k \<le> K. s = anon_name k))"

definition mock_refs :: "mockFirewall \<Rightarrow> bool" where
  "mock_refs m \<longleftrightarrow> refs_inv (mf_nextSetID m) (mf_baseChains m) \<and>
     (mf_flushErr m = None \<longrightarrow> refs_inv (mf_nextSetID m) (mf_chains m))"

definition mock_ok :: "mockFirewall \<Rightarrow> bool" where
  "mock_ok m \<longleftrightarrow> mock_core m \<and> mock_refs m"

lemma refs_inv_mono: "refs_inv K cs \<Longrightarrow> K \<le> K' \<Longrightarrow> refs_inv K' cs"
  unfolding refs_inv_def by (meson le_trans)

lemma refs_inv_subset:
  assumes "refs_inv K cs"
    and "\<And>n c rules r. map_of cs' n = Some (c, rules) \<Longrightarrow> r \<in> set rules \<Longrightarrow>
      \<exists>n c rules. map_of cs n = Some (c, rules) \<and> r \<in> set rules"
  shows "refs_inv K cs'"
  using assms unfolding refs_inv_def by meson

text \<open>An operation that leaves the chains alone, or only takes rules away, keeps the references.\<close>

lemma mock_refs_step:
  assumes "mock_refs m" "mf_baseChains m' = mf_baseChains m" "mf_nextSetID m \<le> mf_nextSetID m'"
    and "mf_flushErr m' = None \<Longrightarrow> mf_flushErr m = None \<and> (mf_chains m' = mf_chains m \<or>
      (\<forall>n c rules r. map_of (mf_chains m') n = Some (c, rules) \<longrightarrow> r \<in> set rules \<longrightarrow>
        (\<exists>n c rules. map_of (mf_chains m) n = Some (c, rules) \<and> r \<in> set rules)))"
  shows "mock_refs m'"
proof -
  have "refs_inv (mf_nextSetID m') (mf_chains m')" if "mf_flushErr m' = None"
  proof -
    note a = assms(4) [OF that]
    have r: "refs_inv (mf_nextSetID m) (mf_chains m)" using assms(1) a by (simp add: mock_refs_def)
    from a have "refs_inv (mf_nextSetID m) (mf_chains m')"
      using r refs_inv_subset [OF r] by metis
    then show ?thesis using refs_inv_mono assms(3) by blast
  qed
  with assms(1-3) refs_inv_mono show ?thesis by (auto simp: mock_refs_def)
qed

lemma put_table_sel [simp]:
  "mf_chains (put_table tbl t m) = mf_chains m" "mf_baseChains (put_table tbl t m) = mf_baseChains m"
  "mf_nextSetID (put_table tbl t m) = mf_nextSetID m" "mf_flushErr (put_table tbl t m) = mf_flushErr m"
  by (auto simp: put_table_def split: option.splits)

lemma del_set_refs: "mf_chains (del_set tbl n m) = mf_chains m" "mf_baseChains (del_set tbl n m) = mf_baseChains m"
  "mf_nextSetID (del_set tbl n m) = mf_nextSetID m" "mf_flushErr (del_set tbl n m) = None \<Longrightarrow> mf_flushErr m = None"
  by (auto simp: del_set_def split: option.splits)

lemma AddTable_refs: "mock_refs m \<Longrightarrow> mock_refs (mf_AddTable t m)"
  by (erule mock_refs_step) (auto simp: mf_AddTable_def Let_def split: option.splits)

lemma AddChain_refs: "mock_refs m \<Longrightarrow> mock_refs (mf_AddChain ch m)"
  by (erule mock_refs_step) (auto simp: mf_AddChain_def Let_def split: option.splits if_splits)

lemma DelChain_refs: "mock_refs m \<Longrightarrow> mock_refs (mf_DelChain ch m)"
  by (erule mock_refs_step) (auto simp: mf_DelChain_def Let_def split: option.splits if_splits)

lemma AddSet_refs: "mock_refs m \<Longrightarrow> mock_refs (fst (mf_AddSet s els m))"
  by (erule mock_refs_step) (auto simp: mf_AddSet_def Let_def split: option.splits if_splits)

lemma DelSet_refs: "mock_refs m \<Longrightarrow> mock_refs (mf_DelSet s m)"
  by (erule mock_refs_step) (auto simp: mf_DelSet_def del_set_refs dest: del_set_refs(4))

lemma SetAddElements_refs: "mock_refs m \<Longrightarrow> mock_refs (fst (mf_SetAddElements s els m))"
  by (erule mock_refs_step) (auto simp: mf_SetAddElements_def Let_def split: sum.splits)

lemma SetDeleteElements_refs: "mock_refs m \<Longrightarrow> mock_refs (fst (mf_SetDeleteElements s els m))"
  by (erule mock_refs_step) (auto simp: mf_SetDeleteElements_def Let_def split: sum.splits prod.splits if_splits)

lemma reset_refs: "refs_inv (mf_nextSetID m) (mf_baseChains m) \<Longrightarrow> mock_refs (reset_client m)"
  by (simp add: mock_refs_def reset_client_def)

lemma del_rule_sets_refs:
  "mf_chains (del_rule_sets tbl es m) = mf_chains m \<and> mf_baseChains (del_rule_sets tbl es m) = mf_baseChains m \<and>
   mf_nextSetID (del_rule_sets tbl es m) = mf_nextSetID m \<and>
   (mf_flushErr (del_rule_sets tbl es m) = None \<longrightarrow> mf_flushErr m = None)"
proof (induction es arbitrary: m)
  case (Cons e es)
  let ?m = "case e of ELookup l \<Rightarrow> if HasPrefix (lk_SetName l) ''__set'' then del_set tbl (lk_SetName l) m else m | _ \<Rightarrow> m"
  have "mf_chains ?m = mf_chains m \<and> mf_baseChains ?m = mf_baseChains m \<and> mf_nextSetID ?m = mf_nextSetID m \<and>
      (mf_flushErr ?m = None \<longrightarrow> mf_flushErr m = None)"
    by (cases e) (auto simp: del_set_refs dest: del_set_refs(4))
  with Cons.IH [of ?m] show ?case by simp
qed simp

lemma DelRule_refs:
  assumes "mock_refs m"
  shows "mock_refs (fst (mf_DelRule r m))"
proof (rule mock_refs_step [OF assms])
  let ?m = "fst (mf_DelRule r m)"
  show "mf_baseChains ?m = mf_baseChains m" "mf_nextSetID m \<le> mf_nextSetID ?m"
    using del_rule_sets_refs by (auto simp: mf_DelRule_def delRule_def Let_def split: option.splits prod.splits)
  assume no: "mf_flushErr ?m = None"
  show "mf_flushErr m = None \<and> (mf_chains ?m = mf_chains m \<or>
      (\<forall>n c rules x. map_of (mf_chains ?m) n = Some (c, rules) \<longrightarrow> x \<in> set rules \<longrightarrow>
        (\<exists>n c rules. map_of (mf_chains m) n = Some (c, rules) \<and> x \<in> set rules)))"
  proof -
    let ?init = "m\<lparr>mf_changed := True\<rparr>"
    have "ru_Handle r \<noteq> 0"
    proof
      assume "ru_Handle r = 0"
      with no show False by (simp add: mf_DelRule_def Let_def poison_def split: option.splits)
    qed
    then have m: "fst (mf_DelRule r m) = delRule r (m\<lparr>mf_changed := True\<rparr>)"
      unfolding mf_DelRule_def Let_def by simp
    have ft: "find_table (ru_Table r) (mf_tables m) \<noteq> None"
    proof
      assume "find_table (ru_Table r) (mf_tables m) = None"
      with no show False unfolding m by (simp add: delRule_def poison_def)
    qed
    from ft obtain c rules r2 where r: "map_of (mf_chains m) (ch_Name (ru_Chain r)) = Some (c, rules)"
      "find (same_handle r) rules = Some r2"
      using no unfolding m by (auto simp: delRule_def poison_def split: option.splits)
    have r2: "?m = (del_rule_sets (ru_Table r2) (ru_Exprs r2) ?init)
        \<lparr>mf_chains := AList.update (ch_Name (ru_Chain r)) (c, remove_first (same_handle r) rules)
           (mf_chains (del_rule_sets (ru_Table r2) (ru_Exprs r2) ?init))\<rparr>"
      using ft r unfolding m by (auto simp: delRule_def Let_def)
    have "mf_flushErr m = None" using no unfolding r2 using del_rule_sets_refs [of "ru_Table r2" "ru_Exprs r2" ?init] by simp
    moreover have "\<exists>n c rules. map_of (mf_chains m) n = Some (c, rules) \<and> x \<in> set rules"
      if "map_of (mf_chains ?m) n = Some (c', rules')" "x \<in> set rules'" for n c' rules' x
    proof -
      have "mf_chains ?m = AList.update (ch_Name (ru_Chain r)) (c, remove_first (same_handle r) rules) (mf_chains m)"
        unfolding r2 using del_rule_sets_refs [of "ru_Table r2" "ru_Exprs r2" ?init] by simp
      with that r(1) remove_first_subset [of "same_handle r" rules] show ?thesis by (auto split: if_splits)
    qed
    ultimately show ?thesis by blast
  qed
qed

lemma checkExpr_named:
  assumes "map_of (mf_tables m) filterTableName \<noteq> None" "lk_SetName l \<noteq> anonSetName"
    "mf_flushErr (checkExpr (Some filterTable) (ELookup l) m) = None"
  shows "sets_of (mf_tables m) (lk_SetName l) \<noteq> None"
  using assms by (auto simp: checkExpr_def sets_of_def split: if_splits)

lemma checkRule_named:
  assumes "map_of (mf_tables m) filterTableName \<noteq> None" "mf_flushErr (checkRule (Some filterTable) es m) = None"
    "ELookup l \<in> set es" "lk_SetName l \<noteq> anonSetName"
  shows "sets_of (mf_tables m) (lk_SetName l) \<noteq> None"
  using assms
proof (induction es arbitrary: m)
  case (Cons e es)
  let ?m = "checkExpr (Some filterTable) e m"
  have fr: "check_frame m ?m" "check_frame ?m (checkRule (Some filterTable) es ?m)"
    by (rule checkExpr_frame, rule checkRule_frame)
  then have t: "map_of (mf_tables ?m) filterTableName \<noteq> None" and no: "mf_flushErr ?m = None"
    using Cons.prems(1,2) by (simp_all add: check_frame_def)
  show ?case
  proof (cases "ELookup l \<in> set es")
    case True
    with Cons.IH [OF t] Cons.prems(2,4) fr(1) show ?thesis by (simp add: check_frame_def)
  next
    case False
    with Cons.prems(3) have "e = ELookup l" by auto
    with checkExpr_named [OF Cons.prems(1,4)] no show ?thesis by simp
  qed
qed simp

lemma put_rule_refs:
  assumes "mock_core m" "mock_refs m" "ru_Table r = Some filterTable"
    and place: "\<And>r rules. set (place r rules) = insert r (set rules)"
  shows "mock_refs (put_rule place r m)"
proof (cases rule: put_rule_cases [OF assms(3), of place m, case_names err put])
  case (err e)
  show ?thesis by (rule mock_refs_step [OF assms(2)]) (simp_all add: err)
next
  case (put c rules m1)
  let ?n = "ch_Name (ru_Chain r)" and ?rule = "r\<lparr>ru_Handle := Suc (mf_nextRuleID m)\<rparr>"
  let ?m0 = "m\<lparr>mf_changed := True, mf_nextRuleID := Suc (mf_nextRuleID m)\<rparr>"
  let ?cs = "AList.update ?n (c, place ?rule rules) (mf_chains m)"
  have fr: "check_frame ?m0 m1" using put(4) checkRule_frame by simp
  have new: "refs_inv (mf_nextSetID m) ?cs" if no: "mf_flushErr m1 = None"
    unfolding refs_inv_def
  proof (intro allI impI)
    fix n c' rules' x s
    assume x: "map_of ?cs n = Some (c', rules')" "x \<in> set rules'" "s \<in> rule_sets x"
    have "mf_flushErr m = None" using fr no by (simp add: check_frame_def)
    then have old: "refs_inv (mf_nextSetID m) (mf_chains m)" using assms(2) by (simp add: mock_refs_def)
    show "s = anonSetName \<or> (\<exists>k \<le> mf_nextSetID m. s = anon_name k)"
    proof (cases "n = ?n \<and> x = ?rule")
      case True
      with x(3) obtain l where l: "ELookup l \<in> set (ru_Exprs r)" "is_anon_name (lk_SetName l)" "s = lk_SetName l"
        by (auto simp: rule_sets_def)
      have t: "map_of (mf_tables ?m0) filterTableName \<noteq> None" using put(2) by simp
      have "sets_inv (mf_nextSetID m) (mf_tables m)" using assms(1) by (simp add: mock_core_def)
      with checkRule_named [OF t no [unfolded put(4)] l(1)] l(2,3) show ?thesis by (auto simp: sets_inv_def)
    next
      case False
      then have "\<exists>c' rules'. map_of (mf_chains m) n = Some (c', rules') \<and> x \<in> set rules'"
        using x(1,2) put(3) by (auto simp: place split: if_splits)
      with old x(3) show ?thesis unfolding refs_inv_def by blast
    qed
  qed
  then show ?thesis using fr assms(2) by (simp add: put(5) mock_refs_def check_frame_def)
qed

lemma refs_inv_commit:
  assumes "refs_inv K cs" "used_inv ts cs" "new_inv K ts base"
  shows "refs_inv K (update_lookups cs)"
  unfolding refs_inv_def
proof (intro allI impI)
  fix n c rules r s
  assume "map_of (update_lookups cs) n = Some (c, rules)" "r \<in> set rules" "s \<in> rule_sets r"
  then obtain rules0 r0 where r: "map_of cs n = Some (c, rules0)" "r0 \<in> set rules0" "r = commit_rule r0"
    by (auto simp: map_of_update_lookups committed_chains_def)
  from \<open>s \<in> rule_sets r\<close> obtain l where l: "ELookup l \<in> commit_expr ` set (ru_Exprs r0)" "s = lk_SetName l"
    "is_anon_name s" unfolding r(3) rule_sets_def commit_rule_def by auto
  then obtain e where e: "e \<in> set (ru_Exprs r0)" "commit_expr e = ELookup l" by auto
  then obtain l0 where l0': "e = ELookup l0" by (cases e rule: nexpr.exhaust) (simp_all add: commit_expr_def)
  with e l have l0: "ELookup l0 \<in> set (ru_Exprs r0)"
    "s = (if lk_SetName l0 = anonSetName then anon_name (lk_SetID l0) else lk_SetName l0)" "is_anon_name s"
    by (auto simp: commit_expr_def split: if_splits)
  show "s = anonSetName \<or> (\<exists>k \<le> K. s = anon_name k)"
  proof (cases "lk_SetName l0 = anonSetName")
    case True
    with l0(1) have "lk_SetID l0 \<in> pending_sets r0" by (auto simp: pending_sets_def)
    with r(1,2) assms(2) have "new_of ts (anon_name (lk_SetID l0)) \<noteq> None" unfolding used_inv_def by force
    with assms(3) l0(2) True show ?thesis by (auto simp: new_inv_def)
  next
    case False
    with l0 have "s \<in> rule_sets r0" by (auto simp: rule_sets_def)
    with r(1,2) assms(1) show ?thesis unfolding refs_inv_def by blast
  qed
qed

lemma Flush_refs:
  assumes "mock_core m" "mock_refs m"
  shows "mock_refs (fst (mf_Flush m))"
proof (cases "mf_flushErr m = None \<and> mf_changed m")
  case True
  then have "fst (mf_Flush m) = reset_client (m\<lparr>mf_chains := update_lookups (mf_chains m),
      mf_tables := drop_unused_sets (mf_tables m), mf_baseTables := drop_unused_sets (mf_tables m),
      mf_baseChains := update_lookups (mf_chains m)\<rparr>)"
    by (simp add: mf_Flush_def Let_def)
  moreover have "refs_inv (mf_nextSetID m) (update_lookups (mf_chains m))"
    using refs_inv_commit assms True by (auto simp: mock_core_def mock_refs_def)
  ultimately show ?thesis by (simp add: reset_refs)
next
  case False
  then have "fst (mf_Flush m) = reset_client m \<or> fst (mf_Flush m) = reset_client (m\<lparr>mf_chains := update_lookups (mf_chains m),
      mf_tables := drop_unused_sets (mf_tables m)\<rparr>)"
    by (auto simp: mf_Flush_def Let_def split: option.splits)
  then show ?thesis using assms(2) reset_refs by (auto simp: mock_refs_def reset_client_def)
qed

lemma AddSet_unreferenced:
  assumes "mock_core m" "mock_refs m" "s_Table s = Some filterTable" "s_Anonymous s"
    "mf_AddSet s els m = (m', Inr s')" "mock_staged m' = Some rs'"
    "map_of (mf_chains m) n = Some (ch, rules)" "r \<in> set rules"
  shows "anon_name (s_ID s') \<notin> rule_sets r"
proof
  assume "anon_name (s_ID s') \<in> rule_sets r"
  have id: "s_ID s' = Suc (mf_nextSetID m)" and no: "mf_flushErr m = None"
    using assms(3-6) by (auto simp: mf_AddSet_def Let_def mock_staged_def split: option.splits if_splits)
  from no assms(2) have "refs_inv (mf_nextSetID m) (mf_chains m)" by (simp add: mock_refs_def)
  with assms(7,8) \<open>anon_name (s_ID s') \<in> rule_sets r\<close> obtain k where "k \<le> mf_nextSetID m" "s_ID s' = k"
    unfolding refs_inv_def by fastforce
  with id show False by simp
qed

lemma mock_ok_empty: "mock_ok newMockFirewallCreator"
  using mock_core_empty by (simp add: mock_ok_def mock_refs_def refs_inv_def newMockFirewallCreator_def)

interpretation mock_reads: nft_reads mockFirewall_client mock_ok mock_committed
proof (unfold_locales, goal_cases)
  case (1 c)
  then show ?case by (auto intro: mock_committed_wf simp: mock_ok_def)
next
  case (2 c cs)
  then show ?case using ListChains_lemma [of c cs] by (auto simp: mockFirewall_client_def mock_ok_def)
next
  case (3 c ch rules)
  then show ?case
    by (auto simp: mockFirewall_client_def mf_GetRules_def mock_committed_def mock_ruleset_def split: option.splits)
next
  case (4 c n s)
  then show ?case using GetSetByName_lemma [of c n s] by (auto simp: mockFirewall_client_def mock_ok_def)
next
  case (5 c n e)
  then show ?case using GetSetByName_missing_lemma by (simp add: mockFirewall_client_def)
next
  case (6 c s els)
  then show ?case using GetSetElements_lemma by (simp add: mockFirewall_client_def)
next
  case (7 c ch e)
  then show ?case
    by (auto simp: mockFirewall_client_def mf_GetRules_def mock_committed_def mock_ruleset_def split: option.splits)
qed

lemma mock_client_sel:
  "fc_New mockFirewall_client = newMockFirewall" "fc_AddChain mockFirewall_client = mf_AddChain"
  "fc_DelChain mockFirewall_client = mf_DelChain" "fc_AddSet mockFirewall_client = mf_AddSet"
  "fc_SetAddElements mockFirewall_client = mf_SetAddElements"
  "fc_SetDeleteElements mockFirewall_client = mf_SetDeleteElements"
  "fc_AddRule mockFirewall_client = mf_AddRule" "fc_DelRule mockFirewall_client = mf_DelRule"
  "fc_InsertRule mockFirewall_client = mf_InsertRule" "fc_Flush mockFirewall_client = mf_Flush"
  "fc_DelSet mockFirewall_client = mf_DelSet"
  by (simp_all add: mockFirewall_client_def)

text \<open>Each operation again, over the whole invariant.\<close>

lemma mock_okD: "mock_ok m \<Longrightarrow> mock_core m" "mock_ok m \<Longrightarrow> mock_refs m"
  by (simp_all add: mock_ok_def)

lemma AddRule_refs: "mock_core m \<Longrightarrow> mock_refs m \<Longrightarrow> ru_Table r = Some filterTable \<Longrightarrow> mock_refs (mf_AddRule r m)"
  unfolding mf_AddRule_def by (rule put_rule_refs) auto

lemma InsertRule_refs: "mock_core m \<Longrightarrow> mock_refs m \<Longrightarrow> ru_Table r = Some filterTable \<Longrightarrow> mock_refs (mf_InsertRule r m)"
  unfolding mf_InsertRule_def by (rule put_rule_refs) auto

lemma AddChain_ok_lemma:
  assumes "mock_ok m" "ch_Table ch = Some filterTable"
  shows "mock_ok (mf_AddChain ch m) \<and> mock_committed (mf_AddChain ch m) = mock_committed m"
  using assms AddChain_lemma [OF mock_okD(1)] AddChain_refs [OF mock_okD(2)] by (auto simp: mock_ok_def)

lemma DelChain_ok_lemma:
  assumes "mock_ok m"
  shows "mock_ok (mf_DelChain ch m) \<and> mock_committed (mf_DelChain ch m) = mock_committed m"
  using assms DelChain_lemma [OF mock_okD(1)] DelChain_refs [OF mock_okD(2)] by (auto simp: mock_ok_def)

lemma DelSet_ok_lemma:
  assumes "mock_ok m" "s_Table s = Some filterTable"
  shows "mock_ok (mf_DelSet s m) \<and> mock_committed (mf_DelSet s m) = mock_committed m"
  using assms DelSet_lemma [OF mock_okD(1)] DelSet_refs [OF mock_okD(2)] by (auto simp: mock_ok_def)

lemma AddRule_ok_lemma:
  assumes "mock_ok m" "ru_Table r = Some filterTable"
  shows "mock_ok (mf_AddRule r m) \<and> mock_committed (mf_AddRule r m) = mock_committed m"
  using assms AddRule_lemma [OF mock_okD(1)] AddRule_refs [OF mock_okD] by (auto simp: mock_ok_def)

lemma InsertRule_ok_lemma:
  assumes "mock_ok m" "ru_Table r = Some filterTable"
  shows "mock_ok (mf_InsertRule r m) \<and> mock_committed (mf_InsertRule r m) = mock_committed m"
  using assms InsertRule_lemma [OF mock_okD(1)] InsertRule_refs [OF mock_okD] by (auto simp: mock_ok_def)

lemma DelRule_ok_lemma:
  assumes "mock_ok m" "ru_Table r = Some filterTable" "mf_DelRule r m = (m', e)"
  shows "mock_ok m' \<and> mock_committed m' = mock_committed m"
  using DelRule_lemma [OF mock_okD(1) [OF assms(1)] assms(2-)] DelRule_refs [OF mock_okD(2) [OF assms(1)], of r]
    assms(3) by (simp add: mock_ok_def)

lemma SetAddElements_ok_lemma:
  assumes "mock_ok m" "s_Table s = Some filterTable" "mf_SetAddElements s els m = (m', e)"
  shows "mock_ok m' \<and> mock_committed m' = mock_committed m"
  using SetAddElements_lemma [OF mock_okD(1) [OF assms(1)] assms(2-)] SetAddElements_refs [OF mock_okD(2) [OF assms(1)], of s els]
    assms(3) by (simp add: mock_ok_def)

lemma SetDeleteElements_ok_lemma:
  assumes "mock_ok m" "s_Table s = Some filterTable" "mf_SetDeleteElements s els m = (m', e)"
  shows "mock_ok m' \<and> mock_committed m' = mock_committed m"
  using SetDeleteElements_lemma [OF mock_okD(1) [OF assms(1)] assms(2-)] SetDeleteElements_refs [OF mock_okD(2) [OF assms(1)], of s els]
    assms(3) by (simp add: mock_ok_def)

lemma AddSet_ok_lemma:
  assumes "mock_ok m" "s_Table s = Some filterTable" "s_Anonymous s \<or> \<not> is_anon_name (s_Name s)"
    "mf_AddSet s els m = (m', res)"
  shows "mock_ok m' \<and> mock_committed m' = mock_committed m"
  using AddSet_lemma(1) [OF mock_okD(1) [OF assms(1)] assms(2,4,3)] AddSet_refs [OF mock_okD(2) [OF assms(1)], of s els]
    assms(4) by (simp add: mock_ok_def)

lemma AddSet_staged_lemma:
  assumes "mock_ok m" "s_Table s = Some filterTable" "s_Anonymous s \<or> \<not> is_anon_name (s_Name s)"
    "mf_AddSet s els m = (m', Inr s')" "mock_staged m' = Some rs'"
  shows "\<exists>rs. mock_staged m = Some rs \<and>
        (if s_Anonymous s
         then s' = s\<lparr>s_ID := s_ID s', s_Name := anonSetName\<rparr> \<and>
           s_ID s' \<noteq> 0 \<and> rs_sets rs (anon_name (s_ID s')) = None \<and>
           (\<forall>n ch rules r. rs_chains rs n = Some (ch, rules) \<longrightarrow> r \<in> set rules \<longrightarrow> anon_name (s_ID s') \<notin> rule_sets r) \<and>
           rs' = rs_AddSet (s'\<lparr>s_Name := anon_name (s_ID s')\<rparr>) els rs
         else s' = s \<and> rs' = rs_AddSet s els rs)"
proof -
  obtain rs where rs: "mock_staged m = Some rs" "if s_Anonymous s
         then s' = s\<lparr>s_ID := s_ID s', s_Name := anonSetName\<rparr> \<and>
           s_ID s' \<noteq> 0 \<and> rs_sets rs (anon_name (s_ID s')) = None \<and>
           rs' = rs_AddSet (s'\<lparr>s_Name := anon_name (s_ID s')\<rparr>) els rs
         else s' = s \<and> rs' = rs_AddSet s els rs"
    using AddSet_lemma(2) [OF mock_okD(1) [OF assms(1)] assms(2,4,3) refl assms(5)] by blast
  have "rs_chains rs = map_of (mf_chains m)"
    using rs(1) by (auto simp: mock_staged_def mock_ruleset_def split: if_splits)
  then have "anon_name (s_ID s') \<notin> rule_sets r"
    if "s_Anonymous s" "rs_chains rs n = Some (ch, rules)" "r \<in> set rules" for n ch rules r
    using AddSet_unreferenced [OF mock_okD [OF assms(1)] assms(2) that(1) assms(4,5)] that(2,3) by simp
  with rs show ?thesis by (cases "s_Anonymous s") auto
qed

lemma Flush_ok_lemma:
  assumes "mock_ok m" "mf_Flush m = (m', e)"
  shows "mock_ok m'"
  using Flush_lemma(1) [OF mock_okD(1) [OF assms(1)] assms(2)] Flush_refs [OF mock_okD [OF assms(1)]] assms(2)
  by (simp add: mock_ok_def)

interpretation mock: firewall_client mockFirewall_client mock_ok mock_committed mock_staged
proof (unfold_locales, unfold mock_client_sel, goal_cases)
  case (1 c c' e)
  then show ?case
    using mock_core_reset [of c] reset_refs [of c] by (auto simp: newMockFirewall_reset mock_ok_def mock_core_def [of c] mock_refs_def [of c])
next
  case (2 c c')
  then show ?case by (auto simp: newMockFirewall_reset)
next
  case 3
  then show ?case using AddChain_ok_lemma by blast
next
  case 4
  then show ?case using AddChain_lemma mock_okD(1) by blast
next
  case 5
  then show ?case using DelChain_ok_lemma by blast
next
  case 6
  then show ?case using DelChain_lemma mock_okD(1) by blast
next
  case 7
  then show ?case using AddRule_ok_lemma by blast
next
  case 8
  then show ?case using AddRule_lemma mock_okD(1) by blast
next
  case 9
  then show ?case using InsertRule_ok_lemma by blast
next
  case 10
  then show ?case using InsertRule_lemma mock_okD(1) by blast
next
  case 11
  then show ?case using DelRule_ok_lemma by blast
next
  case 12
  then show ?case using DelRule_lemma mock_okD(1) by blast
next
  case 13
  then show ?case using AddSet_ok_lemma by blast
next
  case 14
  then show ?case using AddSet_staged_lemma by blast
next
  case 15
  then show ?case using SetAddElements_ok_lemma by blast
next
  case 16
  then show ?case using SetAddElements_lemma mock_okD(1) by blast
next
  case 17
  then show ?case using SetDeleteElements_ok_lemma by blast
next
  case 18
  then show ?case using SetDeleteElements_lemma mock_okD(1) by blast
next
  case 19
  then show ?case using Flush_ok_lemma by blast
next
  case 20
  then show ?case using Flush_lemma(2) mock_okD(1) by blast
next
  case 21
  then show ?case using Flush_lemma(3) mock_okD(1) by blast
next
  case 22
  then show ?case using DelSet_ok_lemma by blast
next
  case 23
  then show ?case using DelSet_lemma mock_okD(1) by blast
qed

section \<open>Batches\<close>

text \<open>The runs of the mock: edits queue up, and a flush ends the batch.\<close>

inductive mock_edit :: "mockFirewall \<Rightarrow> mockFirewall \<Rightarrow> bool" where
  AddTable: "mock_edit m (mf_AddTable t m)"
| AddChain: "ch_Table ch = Some filterTable \<Longrightarrow> mock_edit m (mf_AddChain ch m)"
| DelChain: "mock_edit m (mf_DelChain ch m)"
| AddSet: "s_Table s = Some filterTable \<Longrightarrow> s_Anonymous s \<or> \<not> is_anon_name (s_Name s) \<Longrightarrow>
    mock_edit m (fst (mf_AddSet s els m))"
| DelSet: "s_Table s = Some filterTable \<Longrightarrow> mock_edit m (mf_DelSet s m)"
| SetAddElements: "s_Table s = Some filterTable \<Longrightarrow> mock_edit m (fst (mf_SetAddElements s els m))"
| SetDeleteElements: "s_Table s = Some filterTable \<Longrightarrow> mock_edit m (fst (mf_SetDeleteElements s els m))"
| AddRule: "ru_Table r = Some filterTable \<Longrightarrow> mock_edit m (mf_AddRule r m)"
| InsertRule: "ru_Table r = Some filterTable \<Longrightarrow> mock_edit m (mf_InsertRule r m)"
| DelRule: "ru_Table r = Some filterTable \<Longrightarrow> mock_edit m (fst (mf_DelRule r m))"

inductive mock_reachable :: "mockFirewall \<Rightarrow> bool" where
  init: "mock_reachable newMockFirewallCreator"
| new: "mock_reachable m \<Longrightarrow> mock_reachable (fst (newMockFirewall m))"
| edit: "mock_reachable m \<Longrightarrow> mock_edit m m' \<Longrightarrow> mock_reachable m'"
| flush: "mock_reachable m \<Longrightarrow> mock_reachable (fst (mf_Flush m))"

inductive_cases mock_editE: "mock_edit m m'"

lemma AddTable_lemma:
  assumes "mock_core m"
  shows "mock_core (mf_AddTable t m) \<and> mock_committed (mf_AddTable t m) = mock_committed m"
proof (cases "map_of (mf_tables m) (t_Name t)")
  case None
  let ?ts = "AList.update (t_Name t) empty_mock_table (mf_tables m)"
  have v: "sets_of ?ts = sets_of (mf_tables m)" "schemas_of ?ts = schemas_of (mf_tables m)"
    "new_of ?ts = new_of (mf_tables m)"
    using None by (auto simp: fun_eq_iff sets_of_def schemas_of_def new_of_def empty_mock_table_def)
  with assms None show ?thesis
    by (simp add: mf_AddTable_def Let_def mock_core_def mock_committed_def sets_inv_def new_inv_def used_inv_def)
next
  case (Some x)
  with mock_core_changed [OF assms] show ?thesis by (simp add: mf_AddTable_def Let_def)
qed

lemma AddTable_ok_lemma: "mock_ok m \<Longrightarrow> mock_ok (mf_AddTable t m) \<and> mock_committed (mf_AddTable t m) = mock_committed m"
  using AddTable_lemma [OF mock_okD(1)] AddTable_refs [OF mock_okD(2)] by (simp add: mock_ok_def)

lemma mock_edit_ok:
  assumes "mock_edit m m'" "mock_ok m"
  shows "mock_ok m' \<and> mock_committed m' = mock_committed m"
  using assms
proof cases
  case (AddTable t)
  then show ?thesis using AddTable_ok_lemma assms(2) by simp
next
  case (AddChain ch)
  then show ?thesis using AddChain_ok_lemma assms(2) by simp
next
  case (DelChain ch)
  then show ?thesis using DelChain_ok_lemma assms(2) by simp
next
  case (AddSet s els)
  then show ?thesis using AddSet_ok_lemma [OF assms(2), of s els] by (metis prod.collapse)
next
  case (DelSet s)
  then show ?thesis using DelSet_ok_lemma assms(2) by simp
next
  case (SetAddElements s els)
  then show ?thesis using SetAddElements_ok_lemma [OF assms(2), of s els] by (metis prod.collapse)
next
  case (SetDeleteElements s els)
  then show ?thesis using SetDeleteElements_ok_lemma [OF assms(2), of s els] by (metis prod.collapse)
next
  case (AddRule r)
  then show ?thesis using AddRule_ok_lemma assms(2) by simp
next
  case (InsertRule r)
  then show ?thesis using InsertRule_ok_lemma assms(2) by simp
next
  case (DelRule r)
  then show ?thesis using DelRule_ok_lemma [OF assms(2), of r] by (metis prod.collapse)
qed

lemma mock_reachable_ok: "mock_reachable m \<Longrightarrow> mock_ok m"
proof (induction rule: mock_reachable.induct)
  case init
  show ?case by (rule mock_ok_empty)
next
  case (new m)
  then show ?case using mock.New_ok [of m "fst (newMockFirewall m)" "snd (newMockFirewall m)"]
    by (simp add: mock_client_sel)
next
  case (edit m m')
  then show ?case using mock_edit_ok by blast
next
  case (flush m)
  then show ?case using Flush_ok_lemma [of m] by (metis prod.collapse)
qed

lemma mock_edits_ok:
  "mock_edit\<^sup>*\<^sup>* m m' \<Longrightarrow> mock_ok m \<Longrightarrow> mock_ok m' \<and> mock_committed m' = mock_committed m"
  by (induction rule: rtranclp_induct) (use mock_edit_ok in force)+

text \<open>A concrete batch: a table, a chain and a rule with a counter and a drop verdict.\<close>

definition sample_rule :: nft_rule where
  "sample_rule = \<lparr>ru_Table = Some filterTable, ru_Chain = whalewallChain,
     ru_Exprs = [ECounter 0 0, dropVerdict], ru_UserData = [], ru_Handle = 0\<rparr>"

definition sample_batch :: mockFirewall where
  "sample_batch = mf_AddRule sample_rule
     (mf_AddChain whalewallChain (mf_AddTable filterTable newMockFirewallCreator))"

section \<open>Properties\<close>

text \<open>Whatever sequence of batches has run, the ruleset behind the mock is well-formed: every
  chain sits in the filter table under its own name, the rules of a chain carry distinct non-zero
  handles and name their chain, and no anonymous-set placeholder is left in a committed rule.\<close>

theorem mock_reachable_wf:
  assumes "mock_reachable m"
  shows "wf_ruleset (mock_committed m)"
  using mock_reachable_ok [OF assms] by (rule mock_reads.committed_wf)

lemma sample_batch_edits: "mock_edit\<^sup>*\<^sup>* newMockFirewallCreator sample_batch"
proof -
  let ?m1 = "mf_AddTable filterTable newMockFirewallCreator"
  let ?m2 = "mf_AddChain whalewallChain ?m1"
  have 1: "mock_edit newMockFirewallCreator ?m1" by (rule mock_edit.AddTable)
  have 2: "mock_edit ?m1 ?m2" by (rule mock_edit.AddChain) simp
  have 3: "mock_edit ?m2 sample_batch"
    unfolding sample_batch_def by (rule mock_edit.AddRule) (simp add: sample_rule_def)
  show ?thesis
    by (rule converse_rtranclp_into_rtranclp, rule 1, rule converse_rtranclp_into_rtranclp, rule 2,
        rule r_into_rtranclp, rule 3)
qed

lemma mock_reachable_edits: "mock_edit\<^sup>*\<^sup>* m m' \<Longrightarrow> mock_reachable m \<Longrightarrow> mock_reachable m'"
  by (induction rule: rtranclp_induct) (auto intro: mock_reachable.edit)

lemma sample_batch_flush:
  "snd (mf_Flush sample_batch) = None"
  "map ru_Exprs (rs_rules (mock_committed (fst (mf_Flush sample_batch))) whalewallChainName) =
     [[ECounter 0 0, dropVerdict]]"
  "rs_rules (mock_committed sample_batch) whalewallChainName = []"
  by (simp_all add: sample_batch_def mf_AddRule_def put_rule_def mf_AddChain_def mf_AddTable_def
      newMockFirewallCreator_def sample_rule_def checkExpr_def dropVerdict_def verdict_kinds
      mf_Flush_def Let_def mock_committed_def mock_ruleset_def rs_rules_def reset_client_def
      update_lookups_def update_lookup_def)

theorem mock_reachable_wf_witness:
  "wf_ruleset (mock_committed (fst (mf_Flush sample_batch))) \<and>
   rs_rules (mock_committed (fst (mf_Flush sample_batch))) whalewallChainName \<noteq> []"
proof -
  have "mock_reachable (fst (mf_Flush sample_batch))"
    using mock_reachable_edits [OF sample_batch_edits mock_reachable.init] by (rule mock_reachable.flush)
  from mock_reachable_wf [OF this] sample_batch_flush(2) show ?thesis by auto
qed

text \<open>C39: A batch is atomic. No queued edit is visible before the flush; a flush that fails leaves the
  ruleset exactly as it was before the batch; and a flush that succeeds commits precisely the
  ruleset the whole batch leads to, with the anonymous sets named.\<close>

theorem mock_batch_atomic:
  assumes "mock_reachable m" and "mock_edit\<^sup>*\<^sup>* m m'" and "mf_Flush m' = (m'', e)"
  shows "mock_committed m' = mock_committed m \<and>
    (e \<noteq> None \<longrightarrow> mock_committed m'' = mock_committed m) \<and>
    (e = None \<longrightarrow> (\<exists>rs. mock_staged m' = Some rs \<and>
       rs_commits (mock_committed m) rs (mock_committed m'')))"
proof -
  have ok: "mock_ok m'" and same: "mock_committed m' = mock_committed m"
    using mock_edits_ok [OF assms(2) mock_reachable_ok [OF assms(1)]] by auto
  have "mock_committed m'' = mock_committed m" if "e = Some err" for err
    using Flush_lemma(2) [OF mock_okD(1) [OF ok] assms(3) that] same by simp
  moreover have "\<exists>rs. mock_staged m' = Some rs \<and> rs_commits (mock_committed m) rs (mock_committed m'')"
    if "e = None"
    using Flush_lemma(3) [OF mock_okD(1) [OF ok] assms(3) that] same by auto
  ultimately show ?thesis using same by auto
qed

theorem mock_batch_atomic_witness:
  "\<exists>rs. mock_staged sample_batch = Some rs \<and>
     rs_commits (mock_committed newMockFirewallCreator) rs (mock_committed (fst (mf_Flush sample_batch))) \<and>
     rs_rules (mock_committed sample_batch) whalewallChainName = [] \<and>
     length (rs_rules (mock_committed (fst (mf_Flush sample_batch))) whalewallChainName) = 1"
proof -
  have flush: "mf_Flush sample_batch = (fst (mf_Flush sample_batch), None)"
    using sample_batch_flush(1) by (metis prod.collapse)
  have "length (map ru_Exprs (rs_rules (mock_committed (fst (mf_Flush sample_batch))) whalewallChainName)) = 1"
    using sample_batch_flush(2) by simp
  with mock_batch_atomic [OF mock_reachable.init sample_batch_edits flush] sample_batch_flush(3)
  show ?thesis by auto
qed

end
