(* ===== verification/Packet_Spec.thy ===== *)
theory Packet_Spec
  imports Firewall_Client Intervals
begin

text \<open>
  What the generated rules mean: a reference semantics of the nftables expressions the program emits,
  on IPv4 packets, against a ruleset that resolves the sets. It is the specification side of the
  rule generator and models no code of the program. A rule is run expression by expression over the
  registers; the outcome is that it does not match, that it ends without a verdict, or a verdict.
\<close>

section \<open>Packets\<close>

text \<open>The header fields the program looks at; connection-tracking state is one bit per state.\<close>

record packet =
  p_src :: u32
  p_dst :: u32
  p_proto :: byte
  p_sport :: u16
  p_dport :: u16
  p_ctstate :: u32

text \<open>The IPv4 header as bytes, with the fields before the addresses left zero, and the first four
  bytes of the transport header.\<close>

definition header_bytes :: "packet \<Rightarrow> payload_base \<Rightarrow> byte list" where
  "header_bytes p base =
     (case base of
        PayloadBaseNetworkHeader \<Rightarrow> replicate 12 0 @ be32 (p_src p) @ be32 (p_dst p)
      | PayloadBaseTransportHeader \<Rightarrow> be16 (p_sport p) @ be16 (p_dport p)
      | PayloadBaseLLHeader \<Rightarrow> [])"

lemma header_bytes_addr:
  "take 4 (drop 12 (header_bytes p PayloadBaseNetworkHeader)) = be32 (p_src p)"
  "take 4 (drop 16 (header_bytes p PayloadBaseNetworkHeader)) = be32 (p_dst p)"
  "take 2 (drop 0 (header_bytes p PayloadBaseTransportHeader)) = be16 (p_sport p)"
  "take 2 (drop 2 (header_bytes p PayloadBaseTransportHeader)) = be16 (p_dport p)"
  by (simp_all add: header_bytes_def)

section \<open>Sets\<close>

text \<open>Membership in a set of single keys, and in an interval set: a start at or below the value with
  no end in between.\<close>

definition in_keys :: "set_element list \<Rightarrow> byte list \<Rightarrow> bool" where
  "in_keys els k \<longleftrightarrow> (\<exists>e \<in> set els. el_Key e = k \<and> \<not> el_IntervalEnd e)"

definition in_intervals :: "set_element list \<Rightarrow> byte list \<Rightarrow> bool" where
  "in_intervals els k \<longleftrightarrow>
     (\<exists>s \<in> set els. \<not> el_IntervalEnd s \<and> be_nat (el_Key s) \<le> be_nat k \<and>
        (\<forall>e \<in> set els. el_IntervalEnd e \<longrightarrow> be_nat (el_Key s) < be_nat (el_Key e) \<longrightarrow>
           be_nat k < be_nat (el_Key e)))"

definition in_set :: "nft_set \<times> set_element list \<Rightarrow> byte list \<Rightarrow> bool" where
  "in_set s k \<longleftrightarrow> (if s_Interval (fst s) then in_intervals (snd s) k else in_keys (snd s) k)"

text \<open>The elements a list of intervals is turned into.\<close>

fun interval_elements :: "('a::len word \<Rightarrow> byte list) \<Rightarrow> 'a interval list \<Rightarrow> set_element list" where
  "interval_elements enc [] = []"
| "interval_elements enc ((l, h) # ivs) =
     key_element (enc l) # (if h \<noteq> -1 then [end_element (enc (h + 1))] else []) @ interval_elements enc ivs"

lemma interval_elements_start:
  "(\<exists>s \<in> set (interval_elements enc ivs). \<not> el_IntervalEnd s \<and> P (el_Key s)) \<longleftrightarrow>
   (\<exists>(l, h) \<in> set ivs. P (enc l))"
  by (induction enc ivs rule: interval_elements.induct) auto

lemma interval_elements_end:
  "(\<forall>e \<in> set (interval_elements enc ivs). el_IntervalEnd e \<longrightarrow> P (el_Key e)) \<longleftrightarrow>
   (\<forall>(l, h) \<in> set ivs. h \<noteq> -1 \<longrightarrow> P (enc (h + 1)))"
  by (induction enc ivs rule: interval_elements.induct) auto

lemma unat_succ: "h \<noteq> -1 \<Longrightarrow> unat (h + 1) = Suc (unat h)" for h :: "'a::len word"
  using unatSuc [of h] by (metis add.commute eq_neg_iff_add_eq_0)

lemma in_intervals_elements:
  fixes enc :: "'a::len word \<Rightarrow> byte list"
  assumes enc: "\<And>w. be_nat (enc w) = unat w"
    and "valid_intervals ivs" "separated ivs"
  shows "in_intervals (interval_elements enc ivs) (enc x) \<longleftrightarrow> covers_interval ivs x"
proof -
  have "in_intervals (interval_elements enc ivs) (enc x) \<longleftrightarrow>
    (\<exists>(l, h) \<in> set ivs. unat l \<le> unat x \<and>
      (\<forall>(l', h') \<in> set ivs. h' \<noteq> -1 \<longrightarrow> unat l < unat (h' + 1) \<longrightarrow> unat x < unat (h' + 1)))"
    using interval_elements_start [of enc ivs "\<lambda>k. be_nat k \<le> be_nat (enc x) \<and>
        (\<forall>e \<in> set (interval_elements enc ivs). el_IntervalEnd e \<longrightarrow>
           be_nat k < be_nat (el_Key e) \<longrightarrow> be_nat (enc x) < be_nat (el_Key e))"]
      interval_elements_end [of enc ivs "\<lambda>k. be_nat (enc l) < be_nat k \<longrightarrow> be_nat (enc x) < be_nat k" for l]
    by (simp add: in_intervals_def enc)
  also have "\<dots> \<longleftrightarrow> (\<exists>(l, h) \<in> set ivs. l \<le> x \<and> x \<le> h)"
  proof (intro iffI; elim bexE)
    fix iv assume iv: "iv \<in> set ivs" "case iv of (l, h) \<Rightarrow> unat l \<le> unat x \<and>
      (\<forall>(l', h') \<in> set ivs. h' \<noteq> -1 \<longrightarrow> unat l < unat (h' + 1) \<longrightarrow> unat x < unat (h' + 1))"
    obtain l h where lh: "iv = (l, h)" by force
    have "l \<le> h" using assms(2) iv(1) lh by (auto simp: valid_intervals_def)
    have "x \<le> h"
    proof (cases "h = -1")
      case False
      then have "unat l < unat (h + 1)" using \<open>l \<le> h\<close> by (simp add: unat_succ word_le_nat_alt)
      with iv lh False have "unat x < unat (h + 1)" by blast
      then show ?thesis using False by (simp add: unat_succ word_le_nat_alt)
    qed simp
    with iv lh show "\<exists>(l, h) \<in> set ivs. l \<le> x \<and> x \<le> h" by (auto simp: word_le_nat_alt)
  next
    fix iv assume iv: "iv \<in> set ivs" "case iv of (l, h) \<Rightarrow> l \<le> x \<and> x \<le> h"
    obtain l h where lh: "iv = (l, h)" by force
    have "unat x < unat (h' + 1)" if m: "(l', h') \<in> set ivs" "h' \<noteq> -1" "unat l < unat (h' + 1)" for l' h'
    proof -
      consider "(l', h') = (l, h)" | "gap_after (l', h') (l, h)" | "gap_after (l, h) (l', h')"
        using assms(3) iv(1) lh m(1) unfolding separated_def
        by (metis in_set_conv_nth linorder_neqE_nat sorted_wrt_nth_less)
      then show ?thesis
      proof cases
        case 1
        with iv lh m(2) show ?thesis by (simp add: unat_succ word_le_nat_alt)
      next
        case 2
        then have "unat (h' + 1) < unat l" by (simp add: gap_after_def word_less_nat_alt)
        with m(3) show ?thesis by simp
      next
        case 3
        then have "h < l'" by (rule gap_after_less)
        moreover have "l' \<le> h'" using assms(2) m(1) by (auto simp: valid_intervals_def)
        ultimately show ?thesis using iv lh m(2) by (simp add: unat_succ word_le_nat_alt word_less_nat_alt)
      qed
    qed
    with iv lh show "\<exists>(l, h) \<in> set ivs. unat l \<le> unat x \<and>
      (\<forall>(l', h') \<in> set ivs. h' \<noteq> -1 \<longrightarrow> unat l < unat (h' + 1) \<longrightarrow> unat x < unat (h' + 1))"
      by (auto simp: word_le_nat_alt)
  qed
  finally show ?thesis by (simp add: covers_interval_def)
qed

section \<open>Running a rule\<close>

datatype outcome = NoMatch | Fallthrough | Decided verdict_expr | Queued nat | Unknown

type_synonym registers = "nat \<Rightarrow> byte list"

definition cmp_bytes :: "cmp_op \<Rightarrow> byte list \<Rightarrow> byte list \<Rightarrow> bool" where
  "cmp_bytes op a b =
     (case op of
        CmpOpEq \<Rightarrow> a = b
      | CmpOpNeq \<Rightarrow> a \<noteq> b
      | CmpOpLt \<Rightarrow> be_nat a < be_nat b
      | CmpOpLte \<Rightarrow> be_nat a \<le> be_nat b
      | CmpOpGt \<Rightarrow> be_nat a > be_nat b
      | CmpOpGte \<Rightarrow> be_nat a \<ge> be_nat b)"

definition resolve_set :: "ruleset \<Rightarrow> lookup_expr \<Rightarrow> (nft_set \<times> set_element list) option" where
  "resolve_set rs l =
     rs_sets rs (if lk_SetName l = anonSetName then anon_name (lk_SetID l) else lk_SetName l)"

definition verdict_of :: "nft_set \<times> set_element list \<Rightarrow> byte list \<Rightarrow> verdict_expr option" where
  "verdict_of s k =
     (case find (\<lambda>e. el_Key e = k) (snd s) of None \<Rightarrow> None | Some e \<Rightarrow> el_VerdictData e)"

fun run_exprs :: "ruleset \<Rightarrow> packet \<Rightarrow> registers \<Rightarrow> nexpr list \<Rightarrow> outcome" where
  "run_exprs rs p regs [] = Fallthrough"
| "run_exprs rs p regs (ECounter _ _ # es) = run_exprs rs p regs es"
| "run_exprs rs p regs (ELog _ # es) = run_exprs rs p regs es"
| "run_exprs rs p regs (EPayload e # es) =
     (if pl_OperationType e = PayloadLoad
      then run_exprs rs p (regs(pl_DestRegister e :=
             take (pl_Len e) (drop (pl_Offset e) (header_bytes p (pl_Base e))))) es
      else Unknown)"
| "run_exprs rs p regs (ECmp e # es) =
     (if cmp_bytes (cm_Op e) (take (length (cm_Data e)) (regs (cm_Register e))) (cm_Data e)
      then run_exprs rs p regs es else NoMatch)"
| "run_exprs rs p regs (EMeta e # es) =
     (if me_Key e = MetaKeyL4PROTO \<and> \<not> me_SourceRegister e
      then run_exprs rs p (regs(me_Register e := [p_proto p])) es else Unknown)"
| "run_exprs rs p regs (ECt e # es) =
     (if cx_Key e = CtKeySTATE \<and> \<not> cx_SourceRegister e
      then run_exprs rs p (regs(cx_Register e := le32 (p_ctstate p))) es else Unknown)"
| "run_exprs rs p regs (EBitwise e # es) =
     run_exprs rs p (regs(bw_DestRegister e :=
       map2 (\<lambda>b (m, x). Bit_Operations.xor (Bit_Operations.and b m) x)
         (take (bw_Len e) (regs (bw_SourceRegister e))) (zip (bw_Mask e) (bw_Xor e)))) es"
| "run_exprs rs p regs (ELookup l # es) =
     (case resolve_set rs l of
        None \<Rightarrow> Unknown
      | Some s \<Rightarrow>
          if lk_IsDestRegSet l
          then (case verdict_of s (regs (lk_SourceRegister l)) of None \<Rightarrow> NoMatch | Some v \<Rightarrow> Decided v)
          else if in_set s (regs (lk_SourceRegister l)) \<noteq> lk_Invert l
          then run_exprs rs p regs es else NoMatch)"
| "run_exprs rs p regs (EQueue n # es) = Queued n"
| "run_exprs rs p regs (EVerdict v # es) = Decided v"
| "run_exprs rs p regs (EOther _ # es) = Unknown"

definition run_rule :: "ruleset \<Rightarrow> packet \<Rightarrow> nft_rule \<Rightarrow> outcome" where
  "run_rule rs p r = run_exprs rs p (\<lambda>_. []) (ru_Exprs r)"

text \<open>A list of expressions guards the rest of its rule by a condition on the packet.\<close>

definition guards :: "ruleset \<Rightarrow> packet \<Rightarrow> nexpr list \<Rightarrow> bool \<Rightarrow> bool" where
  "guards rs p es b \<longleftrightarrow>
     (\<forall>regs rest. if b then (\<exists>regs'. run_exprs rs p regs (es @ rest) = run_exprs rs p regs' rest)
                 else run_exprs rs p regs (es @ rest) = NoMatch)"

lemma guards_Nil [intro]: "guards rs p [] True"
  by (auto simp: guards_def)

lemma guards_append:
  "guards rs p es b \<Longrightarrow> guards rs p fs c \<Longrightarrow> guards rs p (es @ fs) (b \<and> c)"
  unfolding guards_def by (cases b; cases c) (simp_all, metis+)

lemma guards_skip: "guards rs p [ECounter m n] True" "guards rs p [ELog l] True"
  by (auto simp: guards_def)

lemma guards_verdict:
  "guards rs p es b \<Longrightarrow> run_exprs rs p regs (es @ [EVerdict v]) = (if b then Decided v else NoMatch)"
  by (auto simp: guards_def split: if_splits) (metis run_exprs.simps(11))

text \<open>Rulesets that agree on every set of the first run its rules alike.\<close>

definition sets_extend :: "ruleset \<Rightarrow> ruleset \<Rightarrow> bool" where
  "sets_extend rs rs' \<longleftrightarrow> (\<forall>n. rs_sets rs n \<noteq> None \<longrightarrow> rs_sets rs' n = rs_sets rs n)"

lemma sets_extend_refl [simp]: "sets_extend rs rs"
  by (simp add: sets_extend_def)

lemma sets_extend_trans: "sets_extend a b \<Longrightarrow> sets_extend b c \<Longrightarrow> sets_extend a c"
  unfolding sets_extend_def by metis

text \<open>The verdict of a chain: the first rule that decides; \<open>Fallthrough\<close> at its end.\<close>

fun run_chain :: "ruleset \<Rightarrow> packet \<Rightarrow> nft_rule list \<Rightarrow> outcome" where
  "run_chain rs p [] = Fallthrough"
| "run_chain rs p (r # rules) =
     (case run_rule rs p r of
        NoMatch \<Rightarrow> run_chain rs p rules
      | Fallthrough \<Rightarrow> run_chain rs p rules
      | out \<Rightarrow> out)"

end
