(* ===== verification/Rule_Gen.thy ===== *)
theory Rule_Gen
  imports Config Packet_Spec Mock_Firewall
begin

text \<open>
  Generation of nftables rules from configured rules: \<open>createNFTRules\<close> and everything below it in
  \<open>create.go\<close>. The generator talks to the firewall client only to create anonymous sets, so its
  functions thread the client state. The theorems say when a generated rule decides a packet and how,
  in the reference semantics of \<open>Packet_Spec\<close>, for any client that keeps the contract.
  \<open>id[:12]\<close> is modelled by \<open>take 12\<close>: container ids are 64 bytes long.
\<close>

section \<open>Constants\<close>

definition srcAddrOffset :: nat where "srcAddrOffset = 12"
definition dstAddrOffset :: nat where "dstAddrOffset = 16"
definition srcPortOffset :: nat where "srcPortOffset = 0"
definition dstPortOffset :: nat where "dstPortOffset = 2"

lemmas offset_defs = srcAddrOffset_def dstAddrOffset_def srcPortOffset_def dstPortOffset_def

text \<open>Connection states: \<open>CtStateBitESTABLISHED\<close> is 2, \<open>CtStateBitRELATED\<close> is 4,
  \<open>CtStateBitNEW\<close> is 8.\<close>

definition stateNew :: u32 where "stateNew = 8"
definition stateEst :: u32 where "stateEst = Bit_Operations.or 2 4"
definition stateNewEst :: u32 where "stateNewEst = Bit_Operations.or stateNew stateEst"

definition IPPROTO_TCP :: byte where "IPPROTO_TCP = 6"
definition IPPROTO_UDP :: byte where "IPPROTO_UDP = 17"

definition maxLogPrefixBytes :: nat where "maxLogPrefixBytes = 127"
definition LogLevelInfo :: nat where "LogLevelInfo = 6"

section \<open>Log prefixes\<close>

text \<open>\<open>utf8.ValidString\<close>.\<close>

definition byte_in :: "char \<Rightarrow> nat \<Rightarrow> nat \<Rightarrow> bool" where
  "byte_in c lo hi \<longleftrightarrow> lo \<le> (of_char c :: nat) \<and> (of_char c :: nat) \<le> hi"

fun valid_utf8 :: "string \<Rightarrow> bool" where
  "valid_utf8 [] = True"
| "valid_utf8 (a # s) =
     (if byte_in a 0 127 then valid_utf8 s
      else if byte_in a 194 223 then
        (case s of b # s' \<Rightarrow> byte_in b 128 191 \<and> valid_utf8 s' | _ \<Rightarrow> False)
      else if byte_in a 224 239 then
        (case s of b # c # s' \<Rightarrow>
            byte_in b (if byte_in a 224 224 then 160 else 128) (if byte_in a 237 237 then 159 else 191) \<and>
            byte_in c 128 191 \<and> valid_utf8 s'
         | _ \<Rightarrow> False)
      else if byte_in a 240 244 then
        (case s of b # c # d # s' \<Rightarrow>
            byte_in b (if byte_in a 240 240 then 144 else 128) (if byte_in a 244 244 then 143 else 191) \<and>
            byte_in c 128 191 \<and> byte_in d 128 191 \<and> valid_utf8 s'
         | _ \<Rightarrow> False)
      else False)"

function trim_invalid :: "string \<Rightarrow> string" where
  "trim_invalid s = (if valid_utf8 s then s else trim_invalid (butlast s))"
  by pat_completeness auto
termination
proof (relation "measure length", goal_cases)
  case 1
  then show ?case by simp
next
  case (2 s)
  then have "s \<noteq> []" by auto
  then show ?case by simp
qed

declare trim_invalid.simps [simp del]

definition boundLogPrefix :: "string \<Rightarrow> string" where
  "boundLogPrefix prefix =
     (if length prefix > maxLogPrefixBytes then trim_invalid (take maxLogPrefixBytes prefix) else prefix)"

definition formatLogPrefix :: "string \<Rightarrow> string \<Rightarrow> string \<Rightarrow> string" where
  "formatLogPrefix prefix name cid =
     (let prefix = ''whalewall-'' @ name @ ''-'' @ take 12 cid @ '' '' @ prefix;
          prefix = (if \<not> HasSuffix prefix '': '' then prefix @ '': '' else prefix)
      in boundLogPrefix prefix)"

section \<open>Expressions\<close>

definition getAddrExpr :: "nat \<Rightarrow> nexpr" where
  "getAddrExpr offset = EPayload \<lparr>pl_OperationType = PayloadLoad, pl_DestRegister = 1,
     pl_SourceRegister = 0, pl_Base = PayloadBaseNetworkHeader, pl_Offset = offset, pl_Len = 4\<rparr>"

definition compareAddrExpr :: "byte list \<Rightarrow> nexpr" where
  "compareAddrExpr addr = ECmp \<lparr>cm_Op = CmpOpEq, cm_Register = 1, cm_Data = addr\<rparr>"

definition matchAddrExprs :: "byte list \<Rightarrow> nat \<Rightarrow> nexpr list" where
  "matchAddrExprs addr offset = [getAddrExpr offset, compareAddrExpr addr]"

definition compareAddrRangeExprs :: "byte list \<Rightarrow> byte list \<Rightarrow> nexpr list" where
  "compareAddrRangeExprs lowAddr highAddr =
     [ECmp \<lparr>cm_Op = CmpOpGte, cm_Register = 1, cm_Data = lowAddr\<rparr>,
      ECmp \<lparr>cm_Op = CmpOpLte, cm_Register = 1, cm_Data = highAddr\<rparr>]"

definition matchAddrRangeExprs :: "netip_addr \<Rightarrow> netip_addr \<Rightarrow> nat \<Rightarrow> nexpr list result" where
  "matchAddrRangeExprs lowAddr highAddr offset =
     (case addr_As4 lowAddr of
        Inl e \<Rightarrow> Inl e
      | Inr lo \<Rightarrow>
          (case addr_As4 highAddr of
             Inl e \<Rightarrow> Inl e
           | Inr hi \<Rightarrow> Inr (getAddrExpr offset # compareAddrRangeExprs lo hi)))"

definition matchProtoExprs :: "byte \<Rightarrow> nexpr list" where
  "matchProtoExprs proto =
     [EMeta \<lparr>me_Key = MetaKeyL4PROTO, me_SourceRegister = False, me_Register = 1\<rparr>,
      ECmp \<lparr>cm_Op = CmpOpEq, cm_Register = 1, cm_Data = [proto]\<rparr>]"

definition getPortExpr :: "nat \<Rightarrow> nexpr" where
  "getPortExpr offset = EPayload \<lparr>pl_OperationType = PayloadLoad, pl_DestRegister = 1,
     pl_SourceRegister = 0, pl_Base = PayloadBaseTransportHeader, pl_Offset = offset, pl_Len = 2\<rparr>"

definition comparePortExpr :: "u16 \<Rightarrow> nexpr" where
  "comparePortExpr port = ECmp \<lparr>cm_Op = CmpOpEq, cm_Register = 1, cm_Data = be16 port\<rparr>"

definition matchPortExprs :: "u16 \<Rightarrow> nat \<Rightarrow> nexpr list" where
  "matchPortExprs port offset = [getPortExpr offset, comparePortExpr port]"

definition comparePortsExprs :: "portInterval \<Rightarrow> nexpr list" where
  "comparePortsExprs ports =
     [ECmp \<lparr>cm_Op = CmpOpGte, cm_Register = 1, cm_Data = be16 (pi_min ports)\<rparr>,
      ECmp \<lparr>cm_Op = CmpOpLte, cm_Register = 1, cm_Data = be16 (pi_max ports)\<rparr>]"

definition matchPortsExprs :: "portInterval \<Rightarrow> nat \<Rightarrow> nexpr list" where
  "matchPortsExprs ports offset = getPortExpr offset # comparePortsExprs ports"

definition matchFromSetExpr :: "nft_set \<Rightarrow> nexpr" where
  "matchFromSetExpr s = ELookup \<lparr>lk_SourceRegister = 1, lk_DestRegister = 0, lk_IsDestRegSet = False,
     lk_SetID = s_ID s, lk_SetName = s_Name s, lk_Invert = False\<rparr>"

definition matchConnStateExprs :: "u32 \<Rightarrow> nexpr list" where
  "matchConnStateExprs state =
     [ECt \<lparr>cx_Key = CtKeySTATE, cx_SourceRegister = False, cx_Register = 1\<rparr>,
      EBitwise \<lparr>bw_SourceRegister = 1, bw_DestRegister = 1, bw_Len = 4, bw_Mask = le32 state,
        bw_Xor = zeroUint32\<rparr>,
      ECmp \<lparr>cm_Op = CmpOpNeq, cm_Register = 1, cm_Data = zeroUint32\<rparr>]"

text \<open>The attribute bits \<open>1 << NFTA_LOG_PREFIX | 1 << NFTA_LOG_LEVEL\<close> are 4 and 32.\<close>

definition logExpr :: "string \<Rightarrow> nexpr" where
  "logExpr prefix = ELog \<lparr>lg_Key = 36, lg_Level = LogLevelInfo, lg_Data = boundLogPrefix prefix\<rparr>"

definition createDropRule :: "nft_chain \<Rightarrow> string \<Rightarrow> nft_rule" where
  "createDropRule chain cid =
     \<lparr>ru_Table = ch_Table chain, ru_Chain = chain,
      ru_Exprs = [ECounter 0 0, logExpr (ch_Name chain @ '' drop: ''), dropVerdict],
      ru_UserData = cid, ru_Handle = 0\<rparr>"

section \<open>Address and port unions\<close>

text \<open>\<open>binary.BigEndian.Uint32\<close> of the four bytes of an address.\<close>

definition be_uint32 :: "byte list \<Rightarrow> u32" where
  "be_uint32 bs = word_of_nat (be_nat bs)"

lemma be_uint32_be32 [simp]: "be_uint32 (be32 w) = w"
  by (simp add: be_uint32_def be_simps)

text \<open>The loops that collect the values of single addresses, and the intervals of any selectors.\<close>

fun collect_addrs :: "addrOrRange list \<Rightarrow> u32 list result" where
  "collect_addrs [] = Inr []"
| "collect_addrs (a # as) =
     (case aor_Addr a of
        None \<Rightarrow> Inl (Msg ''whalewall bug: invalid IP address'')
      | Some addr \<Rightarrow>
          (case addr_As4 addr of
             Inl e \<Rightarrow> Inl e
           | Inr bs \<Rightarrow>
               (case collect_addrs as of
                  Inl e \<Rightarrow> Inl e
                | Inr vs \<Rightarrow> Inr (be_uint32 bs # vs))))"

fun collect_intervals :: "netipx_lib \<Rightarrow> addrOrRange list \<Rightarrow> 32 interval list result" where
  "collect_intervals L [] = Inr []"
| "collect_intervals L (a # as) =
     (let one =
        (case aor_Addr a of
           Some addr \<Rightarrow>
             (case addr_As4 addr of Inl e \<Rightarrow> Inl e | Inr bs \<Rightarrow> Inr (be_uint32 bs, be_uint32 bs))
         | None \<Rightarrow>
             (case aor_Range L a of
                Some (low, high) \<Rightarrow>
                  (case addr_As4 low of
                     Inl e \<Rightarrow> Inl e
                   | Inr lo \<Rightarrow>
                       (case addr_As4 high of Inl e \<Rightarrow> Inl e | Inr hi \<Rightarrow> Inr (be_uint32 lo, be_uint32 hi)))
              | None \<Rightarrow> Inl (Msg ''whalewall bug: invalid IP address'')))
      in case one of
           Inl e \<Rightarrow> Inl e
         | Inr iv \<Rightarrow> (case collect_intervals L as of Inl e \<Rightarrow> Inl e | Inr ivs \<Rightarrow> Inr (iv # ivs)))"

fun addr_interval_elements :: "32 interval list \<Rightarrow> set_element list" where
  "addr_interval_elements [] = []"
| "addr_interval_elements ((low, high) # ivs) =
     key_element (be32 low) #
     (if high \<noteq> -1 then [end_element (be32 (high + 1))] else []) @ addr_interval_elements ivs"

text \<open>Distinct values in order: the keys of a Go map, collected and sorted.\<close>

definition sorted_unique :: "'a::linorder list \<Rightarrow> 'a list" where
  "sorted_unique vs = sort (remdups vs)"

definition addr_elements :: "netipx_lib \<Rightarrow> addrOrRange list \<Rightarrow> (bool \<times> set_element list) result" where
  "addr_elements L addrs =
     (let hasInterval = list_ex (\<lambda>a. aor_Range L a \<noteq> None) addrs in
      if \<not> hasInterval
      then (case collect_addrs addrs of
          Inl e \<Rightarrow> Inl e
        | Inr vs \<Rightarrow> Inr (hasInterval, map (\<lambda>v. key_element (be32 v)) (sorted_unique vs)))
      else (case collect_intervals L addrs of
          Inl e \<Rightarrow> Inl e
        | Inr ivs \<Rightarrow> Inr (hasInterval, addr_interval_elements (mergeUint32Intervals ivs))))"

definition union_set :: "nft_chain \<Rightarrow> bool \<Rightarrow> set_datatype \<Rightarrow> nft_set" where
  "union_set chain hasInterval keyType =
     (zero_set (ch_Table chain))\<lparr>s_Anonymous := True, s_Constant := True, s_Interval := hasInterval,
        s_KeyType := keyType\<rparr>"

definition createIPExprs ::
    "'c firewallClient \<Rightarrow> netipx_lib \<Rightarrow> addrOrRange list \<Rightarrow> nat \<Rightarrow> nft_chain \<Rightarrow> 'c \<Rightarrow> 'c \<times> nexpr list result" where
  "createIPExprs F L addrs addrOffset chain c =
     (case addrs of
        [a] \<Rightarrow>
          (c, case aor_Addr a of
                Some addr \<Rightarrow>
                  (case addr_As4 addr of Inl e \<Rightarrow> Inl e | Inr bs \<Rightarrow> Inr (matchAddrExprs bs addrOffset))
              | None \<Rightarrow>
                  (case aor_Range L a of
                     Some (lowAddr, highAddr) \<Rightarrow> matchAddrRangeExprs lowAddr highAddr addrOffset
                   | None \<Rightarrow> Inl (Msg ''whalewall bug: invalid IP address'')))
      | _ \<Rightarrow>
          (case addr_elements L addrs of
             Inl e \<Rightarrow> (c, Inl e)
           | Inr (hasInterval, elements) \<Rightarrow>
               (case fc_AddSet F (union_set chain hasInterval TypeIPAddr) elements c of
                  (c', Inl e) \<Rightarrow> (c', Inl (Wrap ''error creating address union set'' e))
                | (c', Inr s) \<Rightarrow> (c', Inr [getAddrExpr addrOffset, matchFromSetExpr s]))))"

fun port_interval_elements :: "16 interval list \<Rightarrow> set_element list" where
  "port_interval_elements [] = []"
| "port_interval_elements ((low, high) # ivs) =
     key_element (be16 low) #
     (if high \<noteq> -1 then [end_element (be16 (high + 1))] else []) @ port_interval_elements ivs"

definition port_interval :: "rulePorts \<Rightarrow> 16 word \<times> 16 word" where
  "port_interval p =
     (if rp_single p \<noteq> 0 then (rp_single p, rp_single p)
      else (pi_min (rp_interval p), pi_max (rp_interval p)))"

definition port_elements :: "rulePorts list \<Rightarrow> bool \<times> set_element list" where
  "port_elements ports =
     (let hasInterval = list_ex (\<lambda>p. rp_single p = 0) ports in
      (hasInterval,
       if \<not> hasInterval then map (\<lambda>v. key_element (be16 v)) (sorted_unique (map rp_single ports))
       else port_interval_elements (mergeUint16Intervals (map port_interval ports))))"

definition createPortExprs ::
    "'c firewallClient \<Rightarrow> rulePorts list \<Rightarrow> nat \<Rightarrow> nft_chain \<Rightarrow> 'c \<Rightarrow> 'c \<times> nexpr list result" where
  "createPortExprs F ports portOffset chain c =
     (case ports of
        [p] \<Rightarrow>
          (c, Inr (if rp_single p \<noteq> 0 then matchPortExprs (rp_single p) portOffset
                   else matchPortsExprs (rp_interval p) portOffset))
      | _ \<Rightarrow>
          (let (hasInterval, elements) = port_elements ports in
           case fc_AddSet F (union_set chain hasInterval TypeInetService) elements c of
             (c', Inl e) \<Rightarrow> (c', Inl (Wrap ''error creating port union set'' e))
           | (c', Inr s) \<Rightarrow> (c', Inr [getPortExpr portOffset, matchFromSetExpr s])))"

section \<open>One rule\<close>

text \<open>Optional parts: nothing to match gives no expressions.\<close>

definition createNFTRule ::
    "'c firewallClient \<Rightarrow> netipx_lib \<Rightarrow> bool \<Rightarrow> bool \<Rightarrow> u32 \<Rightarrow> byte list \<Rightarrow> ruleConfig \<Rightarrow> u16 \<Rightarrow>
     nft_chain \<Rightarrow> string \<Rightarrow> 'c \<Rightarrow> 'c \<times> nft_rule result" where
  "createNFTRule F L inbound inversePortOffsets state addr cfg queueNum chain contID c =
     (let addrOffset = (if inbound then dstAddrOffset else srcAddrOffset);
          cfgAddrOffset = (if inbound then srcAddrOffset else dstAddrOffset);
          proto = (if r_Proto cfg = udp then IPPROTO_UDP else IPPROTO_TCP);
          addrExprs = (if addr \<noteq> [] then matchAddrExprs addr addrOffset else []);
          (c, ipExprs) =
            (if slice_elems (r_IPs cfg) \<noteq> [] then
               (case createIPExprs F L (slice_elems (r_IPs cfg)) cfgAddrOffset chain c of
                  (c, Inl e) \<Rightarrow> (c, Inl e)
                | (c, Inr cfgAddrExprs) \<Rightarrow>
                    (c, Inr (if inbound then cfgAddrExprs @ addrExprs else addrExprs @ cfgAddrExprs)))
             else (c, Inr addrExprs))
      in case ipExprs of
        Inl e \<Rightarrow> (c, Inl e)
      | Inr ipExprs \<Rightarrow>
        let protoExprs = (if r_Proto cfg \<noteq> invalidProto then matchProtoExprs proto else []);
            (c, srcRes) =
              (if r_SrcPorts cfg \<noteq> []
               then createPortExprs F (r_SrcPorts cfg)
                      (if inversePortOffsets then dstPortOffset else srcPortOffset) chain c
               else (c, Inr []))
        in case srcRes of
          Inl e \<Rightarrow> (c, Inl e)
        | Inr srcPortExprs \<Rightarrow>
          let (c, dstRes) =
                (if r_DstPorts cfg \<noteq> []
                 then createPortExprs F (r_DstPorts cfg)
                        (if inversePortOffsets then srcPortOffset else dstPortOffset) chain c
                 else (c, Inr []))
          in case dstRes of
            Inl e \<Rightarrow> (c, Inl e)
          | Inr dstPortExprs \<Rightarrow>
            let portExprs = (if \<not> inversePortOffsets then srcPortExprs @ dstPortExprs
                             else dstPortExprs @ srcPortExprs);
                logExprs = (if state = stateNew \<and> r_LogPrefix cfg \<noteq> [] then [logExpr (r_LogPrefix cfg)] else []);
                verdictExpr =
                  (if v_Chain (r_Verdict cfg) \<noteq> []
                   then EVerdict \<lparr>vd_Kind = VerdictJump, vd_Chain = v_Chain (r_Verdict cfg)\<rparr>
                   else if queueNum \<noteq> 0 then EQueue (unat queueNum)
                   else if v_drop (r_Verdict cfg) then dropVerdict
                   else allowReturnVerdict)
            in (c, Inr \<lparr>ru_Table = ch_Table chain, ru_Chain = chain,
                        ru_Exprs = ipExprs @ protoExprs @ portExprs @ matchConnStateExprs state @
                          [ECounter 0 0] @ logExprs @ [verdictExpr],
                        ru_UserData = contID, ru_Handle = 0\<rparr>))"

section \<open>The rules of a configured rule\<close>

record ruleDetails =
  rd_inbound :: bool
  rd_addr :: "byte list"
  rd_cfg :: ruleConfig
  rd_chain :: nft_chain
  rd_estChain :: "nft_chain option"
  rd_contID :: string
  rd_estContID :: string

text \<open>Calls of \<open>createNFTRule\<close> in sequence, up to the first error.\<close>

fun create_in_order :: "('c \<Rightarrow> 'c \<times> nft_rule result) list \<Rightarrow> 'c \<Rightarrow> 'c \<times> nft_rule list result" where
  "create_in_order [] c = (c, Inr [])"
| "create_in_order (f # fs) c =
     (case f c of
        (c, Inl e) \<Rightarrow> (c, Inl e)
      | (c, Inr r) \<Rightarrow>
          (case create_in_order fs c of
             (c, Inl e) \<Rightarrow> (c, Inl e)
           | (c, Inr rs) \<Rightarrow> (c, Inr (r # rs))))"

definition createNFTRules ::
    "'c firewallClient \<Rightarrow> netipx_lib \<Rightarrow> ruleDetails \<Rightarrow> 'c \<Rightarrow> 'c \<times> nft_rule list result" where
  "createNFTRules F L rd c =
     (let estContID = (case rd_estChain rd of None \<Rightarrow> rd_contID rd | Some _ \<Rightarrow> rd_estContID rd);
          estChain = (case rd_estChain rd of None \<Rightarrow> rd_chain rd | Some ch \<Rightarrow> ch);
          cfg = rd_cfg rd;
          v = r_Verdict cfg;
          rule = (\<lambda>inbound state queueNum.
            createNFTRule F L inbound False state (rd_addr rd) cfg queueNum (rd_chain rd) (rd_contID rd));
          estRule = (\<lambda>inbound queueNum.
            createNFTRule F L inbound True stateEst (rd_addr rd) cfg queueNum estChain estContID)
      in if v_drop v then create_in_order [rule (rd_inbound rd) stateNew 0] c
         else if v_Queue v = 0 then
           (if r_LogPrefix cfg = []
            then create_in_order [rule (rd_inbound rd) stateNewEst 0, estRule (\<not> rd_inbound rd) 0] c
            else create_in_order [rule (rd_inbound rd) stateNew 0, rule (rd_inbound rd) stateEst 0,
                   estRule (\<not> rd_inbound rd) 0] c)
         else if r_LogPrefix cfg = [] \<and> rd_inbound rd \<and> v_Queue v = v_InputEstQueue v
         then create_in_order [rule True stateNewEst (v_Queue v), estRule False (v_OutputEstQueue v)] c
         else if r_LogPrefix cfg = [] \<and> \<not> rd_inbound rd \<and> v_Queue v = v_OutputEstQueue v
         then create_in_order [rule False stateNewEst (v_Queue v), estRule True (v_InputEstQueue v)] c
         else if rd_inbound rd
         then create_in_order [rule True stateNew (v_Queue v), rule True stateEst (v_InputEstQueue v),
                estRule False (v_OutputEstQueue v)] c
         else create_in_order [rule False stateNew (v_Queue v), rule False stateEst (v_OutputEstQueue v),
                estRule True (v_InputEstQueue v)] c)"

section \<open>What the expressions match\<close>

text \<open>The packet fields behind the offsets.\<close>

definition pkt_addr :: "packet \<Rightarrow> nat \<Rightarrow> u32" where
  "pkt_addr p off = (if off = srcAddrOffset then p_src p else p_dst p)"

definition pkt_port :: "packet \<Rightarrow> nat \<Rightarrow> u16" where
  "pkt_port p off = (if off = srcPortOffset then p_sport p else p_dport p)"

definition addr_offset :: "nat \<Rightarrow> bool" where
  "addr_offset off \<longleftrightarrow> off = srcAddrOffset \<or> off = dstAddrOffset"

definition port_offset :: "nat \<Rightarrow> bool" where
  "port_offset off \<longleftrightarrow> off = srcPortOffset \<or> off = dstPortOffset"

lemma run_getAddr:
  "addr_offset off \<Longrightarrow> run_exprs rs p regs (getAddrExpr off # es) =
     run_exprs rs p (regs(1 := be32 (pkt_addr p off))) es"
  using header_bytes_addr [of p] by (auto simp: getAddrExpr_def addr_offset_def pkt_addr_def offset_defs)

lemma run_getPort:
  "port_offset off \<Longrightarrow> run_exprs rs p regs (getPortExpr off # es) =
     run_exprs rs p (regs(1 := be16 (pkt_port p off))) es"
  using header_bytes_addr [of p] by (auto simp: getPortExpr_def port_offset_def pkt_port_def offset_defs)

lemma guards_matchAddr:
  assumes "addr_offset off"
  shows "guards rs p (matchAddrExprs (be32 w) off) (pkt_addr p off = w)"
  using assms by (auto simp: guards_def matchAddrExprs_def run_getAddr compareAddrExpr_def cmp_bytes_def)

lemma guards_matchAddrRange:
  assumes "addr_offset off" "matchAddrRangeExprs (Addr4 lo) (Addr4 hi) off = Inr es"
  shows "guards rs p es (lo \<le> pkt_addr p off \<and> pkt_addr p off \<le> hi)"
proof -
  have "es = getAddrExpr off # compareAddrRangeExprs (be32 lo) (be32 hi)"
    using assms(2) by (simp add: matchAddrRangeExprs_def)
  then show ?thesis using assms(1)
    by (auto simp: guards_def run_getAddr compareAddrRangeExprs_def cmp_bytes_def be_simps word_le_nat_alt)
qed

lemma guards_matchPort:
  assumes "port_offset off"
  shows "guards rs p (matchPortExprs port off) (pkt_port p off = port)"
  using assms by (auto simp: guards_def matchPortExprs_def run_getPort comparePortExpr_def cmp_bytes_def)

lemma guards_matchPorts:
  assumes "port_offset off"
  shows "guards rs p (matchPortsExprs ports off) (pi_min ports \<le> pkt_port p off \<and> pkt_port p off \<le> pi_max ports)"
  using assms
  by (auto simp: guards_def matchPortsExprs_def run_getPort comparePortsExprs_def cmp_bytes_def be_simps word_le_nat_alt)

lemma guards_matchProto: "guards rs p (matchProtoExprs proto) (p_proto p = proto)"
  by (auto simp: guards_def matchProtoExprs_def cmp_bytes_def)

lemma guards_lookup:
  assumes "resolve_set rs \<lparr>lk_SourceRegister = 1, lk_DestRegister = 0, lk_IsDestRegSet = False,
      lk_SetID = s_ID s, lk_SetName = s_Name s, lk_Invert = False\<rparr> = Some S"
  shows "addr_offset off \<Longrightarrow>
      guards rs p [getAddrExpr off, matchFromSetExpr s] (in_set S (be32 (pkt_addr p off)))"
    and "port_offset poff \<Longrightarrow>
      guards rs p [getPortExpr poff, matchFromSetExpr s] (in_set S (be16 (pkt_port p poff)))"
  using assms by (auto simp: guards_def run_getAddr run_getPort matchFromSetExpr_def)

text \<open>The state test: some state of the packet is among those asked for.\<close>

lemma le32_and:
  "map2 (\<lambda>b (m, x). Bit_Operations.xor (Bit_Operations.and b m) x) (le32 v) (zip (le32 s) zeroUint32) =
     le32 (Bit_Operations.and v s)"
proof -
  have ucast_and: "(ucast (Bit_Operations.and a b) :: byte) = Bit_Operations.and (ucast a) (ucast b)" for a b :: u32
    by (rule bit_word_eqI) (auto simp: bit_simps)
  have drop_and: "drop_bit n (Bit_Operations.and a b) = Bit_Operations.and (drop_bit n a) (drop_bit n b)" for n and a b :: u32
    by (rule bit_word_eqI) (auto simp: bit_simps)
  show ?thesis
    by (simp add: le32_def be32_def zeroUint32_def ucast_and drop_and)
qed

lemma le32_zero_iff: "le32 v = zeroUint32 \<longleftrightarrow> v = 0"
proof -
  have "zeroUint32 = le32 0" by (simp add: zeroUint32_def le32_def be32_def)
  moreover have "le32 v = le32 w \<longleftrightarrow> v = w" for w by (simp add: le32_def)
  ultimately show ?thesis by metis
qed

lemma guards_matchConnState:
  "guards rs p (matchConnStateExprs state) (Bit_Operations.and (p_ctstate p) state \<noteq> 0)"
proof -
  have len: "take (length zeroUint32) (le32 v) = le32 v" for v
    by (simp add: zeroUint32_def)
  show ?thesis
    by (auto simp: guards_def matchConnStateExprs_def cmp_bytes_def le32_and len le32_zero_iff)
qed

section \<open>Unions\<close>

lemma addr_interval_elements_eq: "addr_interval_elements ivs = interval_elements be32 ivs"
  by (induction ivs rule: addr_interval_elements.induct) simp_all

lemma port_interval_elements_eq: "port_interval_elements ivs = interval_elements be16 ivs"
  by (induction ivs rule: port_interval_elements.induct) simp_all

lemma merge32_normal: "valid_intervals ivs \<Longrightarrow>
   valid_intervals (mergeUint32Intervals ivs) \<and> separated (mergeUint32Intervals ivs)"
  using merge_intervals_normal [of ivs] by (simp add: mergeUint32Intervals_def)

lemma merge16_normal: "valid_intervals ivs \<Longrightarrow>
   valid_intervals (mergeUint16Intervals ivs) \<and> separated (mergeUint16Intervals ivs)"
  using merge_intervals_normal [of ivs] by (simp add: mergeUint16Intervals_def)

lemma in_merged32:
  assumes "valid_intervals ivs"
  shows "in_intervals (addr_interval_elements (mergeUint32Intervals ivs)) (be32 x) \<longleftrightarrow> covers_interval ivs x"
proof -
  have n: "valid_intervals (mergeUint32Intervals ivs)" "separated (mergeUint32Intervals ivs)"
    using merge32_normal [OF assms] by auto
  show ?thesis
    using in_intervals_elements [of be32, OF be_nat_be32 n]
    by (simp add: addr_interval_elements_eq mergeUint32Intervals_def covers_merge_intervals)
qed

lemma in_merged16:
  assumes "valid_intervals ivs"
  shows "in_intervals (port_interval_elements (mergeUint16Intervals ivs)) (be16 x) \<longleftrightarrow> covers_interval ivs x"
proof -
  have n: "valid_intervals (mergeUint16Intervals ivs)" "separated (mergeUint16Intervals ivs)"
    using merge16_normal [OF assms] by auto
  show ?thesis
    using in_intervals_elements [of be16, OF be_nat_be16 n]
    by (simp add: port_interval_elements_eq mergeUint16Intervals_def covers_merge_intervals)
qed

lemma set_sorted_unique [simp]: "set (sorted_unique vs) = set vs"
  by (simp add: sorted_unique_def)

lemma aor_sel:
  "aor_Addr (aor_of_addr (Addr4 w)) = Some (Addr4 w)"
  "aor_Addr (aor_of_range r) = None"
  "netipx_ok L \<Longrightarrow> aor_Range L (aor_of_addr (Addr4 w)) = None"
  "netipx_ok L \<Longrightarrow> lo \<le> hi \<Longrightarrow>
     aor_Range L (aor_of_range \<lparr>ipr_From = Addr4 lo, ipr_To = Addr4 hi\<rparr>) = Some (Addr4 lo, Addr4 hi)"
  by (auto simp: aor_Addr_def aor_Range_def aor_of_addr_def aor_of_range_def netipx_ok_def zero_range_def range4_def)

lemma collect_addrs_covers:
  assumes "netipx_ok L" "\<forall>a \<in> set addrs. aor_wf a \<and> aor_Range L a = None" "collect_addrs addrs = Inr vs"
  shows "(\<exists>v \<in> set vs. v = x) \<longleftrightarrow> (\<exists>a \<in> set addrs. aor_covers a x)"
  using assms(2,3)
proof (induction addrs arbitrary: vs)
  case (Cons a addrs)
  have "aor_wf a" "aor_Range L a = None" using Cons.prems(1) by auto
  then obtain w where "a = aor_of_addr (Addr4 w)"
    using aor_sel(4) [OF assms(1)] by (metis aor_wf_cases option.distinct(1))
  with Cons.prems(2) obtain vs' where "collect_addrs addrs = Inr vs'" "vs = w # vs'"
    by (auto simp: aor_sel(1) split: sum.splits)
  with Cons.IH Cons.prems(1) \<open>a = aor_of_addr (Addr4 w)\<close> show ?case by auto
qed simp

lemma collect_intervals_covers:
  assumes "netipx_ok L" "\<forall>a \<in> set addrs. aor_wf a" "collect_intervals L addrs = Inr ivs"
  shows "valid_intervals ivs \<and> (covers_interval ivs x \<longleftrightarrow> (\<exists>a \<in> set addrs. aor_covers a x))"
  using assms(2,3)
proof (induction addrs arbitrary: ivs)
  case Nil
  then show ?case by (simp add: valid_intervals_def)
next
  case (Cons a addrs)
  have "aor_wf a" using Cons.prems(1) by simp
  then obtain lo hi ivs' where iv: "collect_intervals L addrs = Inr ivs'" "ivs = (lo, hi) # ivs'" "lo \<le> hi"
    "aor_covers a x \<longleftrightarrow> lo \<le> x \<and> x \<le> hi"
  proof (cases rule: aor_wf_cases)
    case (single w)
    with Cons.prems(2) obtain ivs' where "collect_intervals L addrs = Inr ivs'" "ivs = (w, w) # ivs'"
      by (auto simp: aor_sel(1) split: sum.splits)
    moreover have "aor_covers a x \<longleftrightarrow> w \<le> x \<and> x \<le> w" using single by (auto intro: order.antisym)
    ultimately show ?thesis by (intro that [of ivs' w w]) simp_all
  next
    case (range lo hi)
    with Cons.prems(2) that [of _ lo hi] show ?thesis
      by (auto simp: aor_sel(2) aor_sel(4) [OF assms(1)] split: sum.splits)
  qed
  with Cons.IH [of ivs'] Cons.prems(1) show ?case by (auto simp: valid_intervals_def)
qed

lemma addr_elements_covers:
  assumes "netipx_ok L" "\<forall>a \<in> set addrs. aor_wf a" "addr_elements L addrs = Inr (hi, els)"
  shows "in_set (s\<lparr>s_Interval := hi\<rparr>, els) (be32 x) \<longleftrightarrow> (\<exists>a \<in> set addrs. aor_covers a x)"
proof (cases "list_ex (\<lambda>a. aor_Range L a \<noteq> None) addrs")
  case False
  then obtain vs where vs: "collect_addrs addrs = Inr vs" "\<not> hi"
    "els = map (\<lambda>v. key_element (be32 v)) (sorted_unique vs)"
    using assms(3) by (auto simp: addr_elements_def split: sum.splits)
  have "in_keys els (be32 x) \<longleftrightarrow> (\<exists>v \<in> set vs. v = x)" by (auto simp: in_keys_def vs(3))
  also have "\<dots> \<longleftrightarrow> (\<exists>a \<in> set addrs. aor_covers a x)"
  proof (rule collect_addrs_covers [OF assms(1) _ vs(1)])
    show "\<forall>a \<in> set addrs. aor_wf a \<and> aor_Range L a = None"
      using False assms(2) unfolding list_ex_iff by blast
  qed
  finally show ?thesis using vs(2) by (simp add: in_set_def)
next
  case True
  then obtain ivs where ivs: "collect_intervals L addrs = Inr ivs" hi
    "els = addr_interval_elements (mergeUint32Intervals ivs)"
    using assms(3) by (auto simp: addr_elements_def split: sum.splits)
  from collect_intervals_covers [OF assms(1,2) ivs(1), of x] in_merged32 [of ivs x] ivs
  show ?thesis by (simp add: in_set_def)
qed

lemma port_interval_covers:
  "port_wf p \<Longrightarrow> (case port_interval p of (l, h) \<Rightarrow> l \<le> h \<and> (l \<le> x \<and> x \<le> h \<longleftrightarrow> port_covers p x))"
  by (auto simp: port_interval_def port_covers_def port_wf_def)

lemma port_elements_covers:
  assumes "\<forall>p \<in> set ports. port_wf p" "port_elements ports = (hi, els)"
  shows "in_set (s\<lparr>s_Interval := hi\<rparr>, els) (be16 x) \<longleftrightarrow> (\<exists>p \<in> set ports. port_covers p x)"
proof (cases "list_ex (\<lambda>p. rp_single p = 0) ports")
  case False
  then have e: "\<not> hi" "els = map (\<lambda>v. key_element (be16 v)) (sorted_unique (map rp_single ports))"
    using assms(2) by (simp_all add: port_elements_def Let_def)
  have "\<forall>p \<in> set ports. rp_single p \<noteq> 0" using False by (simp add: list_ex_iff)
  then have "in_keys els (be16 x) \<longleftrightarrow> (\<exists>p \<in> set ports. port_covers p x)"
    by (auto simp: in_keys_def e(2) port_covers_def)
  with e(1) show ?thesis by (simp add: in_set_def)
next
  case True
  let ?ivs = "map port_interval ports"
  have one: "case port_interval p of (l, h) \<Rightarrow> l \<le> h \<and> (l \<le> x \<and> x \<le> h \<longleftrightarrow> port_covers p x)"
    if "p \<in> set ports" for p
    using that assms(1) by (intro port_interval_covers) simp
  have "valid_intervals ?ivs" using one by (simp add: valid_intervals_def case_prod_beta)
  moreover have "covers_interval ?ivs x \<longleftrightarrow> (\<exists>p \<in> set ports. port_covers p x)"
    using one unfolding covers_interval_def by (auto simp: case_prod_beta)
  ultimately have "in_intervals (port_interval_elements (mergeUint16Intervals ?ivs)) (be16 x) \<longleftrightarrow>
      (\<exists>p \<in> set ports. port_covers p x)"
    using in_merged16 [of ?ivs x] by simp
  moreover have "hi" "els = port_interval_elements (mergeUint16Intervals ?ivs)"
    using True assms(2) by (simp_all add: port_elements_def Let_def)
  ultimately show ?thesis by (simp add: in_set_def)
qed

section \<open>Generation against a client\<close>

text \<open>The result of a generator call: the committed ruleset is untouched, the chains are as staged
  before, earlier sets stay, and the expressions guard by the given condition in every later
  ruleset that keeps the sets.\<close>

definition gen_guards :: "ruleset \<Rightarrow> nexpr list \<Rightarrow> (packet \<Rightarrow> bool) \<Rightarrow> bool" where
  "gen_guards rs es P \<longleftrightarrow> (\<forall>rs2 p. sets_extend rs rs2 \<longrightarrow> guards rs2 p es (P p))"

definition set_step :: "ruleset option \<Rightarrow> ruleset \<Rightarrow> bool" where
  "set_step st rs' \<longleftrightarrow> (\<exists>rs. st = Some rs \<and> sets_extend rs rs' \<and> rs_chains rs' = rs_chains rs)"

lemma set_step_refl: "set_step (Some rs) rs"
  by (simp add: set_step_def)

lemma set_step_trans: "set_step st rs1 \<Longrightarrow> set_step (Some rs1) rs2 \<Longrightarrow> set_step st rs2"
  unfolding set_step_def using sets_extend_trans by fastforce

lemma gen_guards_extend: "gen_guards rs es P \<Longrightarrow> sets_extend rs rs' \<Longrightarrow> gen_guards rs' es P"
  unfolding gen_guards_def using sets_extend_trans by blast

lemma gen_guards_append:
  "gen_guards rs es P \<Longrightarrow> gen_guards rs fs Q \<Longrightarrow> gen_guards rs (es @ fs) (\<lambda>p. P p \<and> Q p)"
  unfolding gen_guards_def using guards_append by blast

lemma gen_guardsI: "(\<And>rs p. guards rs p es (P p)) \<Longrightarrow> gen_guards rs es P"
  by (simp add: gen_guards_def)

context firewall_client
begin

lemma AddSet_union:
  assumes "ok c" "ch_Table chain = Some filterTable"
    "fc_AddSet F (union_set chain hi ty) els c = (c', res)"
  shows "ok c' \<and> committed c' = committed c \<and>
    (\<forall>s rs'. res = Inr s \<longrightarrow> staged c' = Some rs' \<longrightarrow> set_step (staged c) rs' \<and>
       (\<exists>S. s_Interval (fst S) = hi \<and> snd S = els \<and>
          (\<forall>rs2. sets_extend rs' rs2 \<longrightarrow>
             resolve_set rs2 \<lparr>lk_SourceRegister = 1, lk_DestRegister = 0, lk_IsDestRegSet = False,
               lk_SetID = s_ID s, lk_SetName = s_Name s, lk_Invert = False\<rparr> = Some S)))"
proof (intro conjI allI impI)
  have u: "s_Table (union_set chain hi ty) = Some filterTable" "s_Anonymous (union_set chain hi ty)"
    "s_Interval (union_set chain hi ty) = hi"
    using assms(2) by (simp_all add: union_set_def zero_set_def)
  show "ok c'" "committed c' = committed c"
    using AddSet_ok [OF assms(1) u(1) _ assms(3)] u(2) by auto
  fix s rs'
  assume res: "res = Inr s" and st: "staged c' = Some rs'"
  from AddSet_staged [OF assms(1) u(1) _ assms(3) [unfolded res] st] u(2)
  obtain rs where rs: "staged c = Some rs" "s = (union_set chain hi ty)\<lparr>s_ID := s_ID s, s_Name := anonSetName\<rparr>"
    "rs_sets rs (anon_name (s_ID s)) = None"
    "rs' = rs_AddSet (s\<lparr>s_Name := anon_name (s_ID s)\<rparr>) els rs" by auto
  let ?S = "(s\<lparr>s_Name := anon_name (s_ID s)\<rparr>, els)"
  have rs': "rs' = rs\<lparr>rs_sets := (rs_sets rs)(anon_name (s_ID s) \<mapsto> ?S)\<rparr>"
    using rs(3,4) by (simp add: rs_AddSet_def)
  then show "set_step (staged c) rs'"
    using rs(1,3) by (auto simp: set_step_def sets_extend_def)
  have name: "s_Name s = anonSetName" using arg_cong [OF rs(2), of s_Name] by simp
  have "s_Interval s = hi" using arg_cong [OF rs(2), of s_Interval] u(3) by simp
  then show "\<exists>S. s_Interval (fst S) = hi \<and> snd S = els \<and>
      (\<forall>rs2. sets_extend rs' rs2 \<longrightarrow>
         resolve_set rs2 \<lparr>lk_SourceRegister = 1, lk_DestRegister = 0, lk_IsDestRegSet = False,
           lk_SetID = s_ID s, lk_SetName = s_Name s, lk_Invert = False\<rparr> = Some S)"
    by (intro exI [of _ ?S]) (auto simp: resolve_set_def name rs' sets_extend_def)
qed

end

text \<open>What a generator call for some expressions guarantees.\<close>

definition gen_ok :: "('c \<Rightarrow> bool) \<Rightarrow> ('c \<Rightarrow> ruleset) \<Rightarrow> ('c \<Rightarrow> ruleset option) \<Rightarrow> 'c \<Rightarrow>
    'c \<times> nexpr list result \<Rightarrow> (packet \<Rightarrow> bool) \<Rightarrow> bool" where
  "gen_ok ok committed staged c out P \<longleftrightarrow>
     (case out of (c', res) \<Rightarrow>
        ok c' \<and> committed c' = committed c \<and>
        (\<forall>es rs'. res = Inr es \<longrightarrow> staged c' = Some rs' \<longrightarrow> set_step (staged c) rs' \<and> gen_guards rs' es P))"

lemma gen_ok_pure:
  "ok c \<Longrightarrow> (\<And>es. res = Inr es \<Longrightarrow> (\<And>rs p. guards rs p es (P p))) \<Longrightarrow>
   gen_ok ok committed staged c (c, res) P"
  by (auto simp: gen_ok_def set_step_refl intro: gen_guardsI)

context firewall_client
begin

lemma createIPExprs_gen:
  assumes "ok c" "netipx_ok L" "ch_Table chain = Some filterTable" "addr_offset off"
    "addrs \<noteq> []" "\<forall>a \<in> set addrs. aor_wf a"
  shows "gen_ok ok committed staged c (createIPExprs F L addrs off chain c)
    (\<lambda>p. \<exists>a \<in> set addrs. aor_covers a (pkt_addr p off))"
proof (cases "\<exists>a. addrs = [a]")
  case True
  then obtain a where a: "addrs = [a]" by blast
  then have "aor_wf a" using assms(6) by simp
  then show ?thesis
  proof (cases rule: aor_wf_cases)
    case (single w)
    with a show ?thesis using guards_matchAddr [OF assms(4), of _ _ w]
      by (auto simp: createIPExprs_def aor_sel(1) intro!: gen_ok_pure assms(1))
  next
    case (range lo hi)
    with a show ?thesis using guards_matchAddrRange [OF assms(4), of lo hi]
      by (auto simp: createIPExprs_def aor_sel(2) aor_sel(4) [OF assms(2)] intro!: gen_ok_pure assms(1))
  qed
next
  case False
  then have out: "createIPExprs F L addrs off chain c =
     (case addr_elements L addrs of
        Inl e \<Rightarrow> (c, Inl e)
      | Inr (hasInterval, elements) \<Rightarrow>
          (case fc_AddSet F (union_set chain hasInterval TypeIPAddr) elements c of
             (c', Inl e) \<Rightarrow> (c', Inl (Wrap ''error creating address union set'' e))
           | (c', Inr s) \<Rightarrow> (c', Inr [getAddrExpr off, matchFromSetExpr s])))"
    using assms(5) by (cases addrs rule: list.exhaust [case_names Nil Cons]; cases "tl addrs")
      (auto simp: createIPExprs_def split: list.splits)
  show ?thesis
  proof (cases "addr_elements L addrs")
    case (Inl e)
    then show ?thesis using assms(1) by (simp add: out gen_ok_def)
  next
    case (Inr x)
    obtain hi els where x: "x = (hi, els)" by force
    obtain c' res where add: "fc_AddSet F (union_set chain hi TypeIPAddr) els c = (c', res)" by force
    note set = AddSet_union [OF assms(1,3) add]
    show ?thesis
    proof (cases res)
      case (Inl e)
      with set Inr x add show ?thesis by (simp add: out gen_ok_def)
    next
      case (Inr s)
      have "gen_guards rs' [getAddrExpr off, matchFromSetExpr s] (\<lambda>p. \<exists>a \<in> set addrs. aor_covers a (pkt_addr p off))"
        if st: "staged c' = Some rs'" for rs'
      proof -
        from set Inr st obtain S where S: "s_Interval (fst S) = hi" "snd S = els"
          "\<And>rs2. sets_extend rs' rs2 \<Longrightarrow>
             resolve_set rs2 \<lparr>lk_SourceRegister = 1, lk_DestRegister = 0, lk_IsDestRegSet = False,
               lk_SetID = s_ID s, lk_SetName = s_Name s, lk_Invert = False\<rparr> = Some S" by blast
        have "in_set S (be32 y) \<longleftrightarrow> (\<exists>a \<in> set addrs. aor_covers a y)" for y
          using addr_elements_covers [OF assms(2,6), of hi els "fst S" y]
            \<open>addr_elements L addrs = Inr x\<close> x S(1,2) by (auto simp: in_set_def)
        with guards_lookup(1) [OF S(3) assms(4)] show ?thesis by (simp add: gen_guards_def)
      qed
      with set Inr \<open>addr_elements L addrs = Inr x\<close> x add show ?thesis by (simp add: out gen_ok_def)
    qed
  qed
qed

lemma createPortExprs_gen:
  assumes "ok c" "ch_Table chain = Some filterTable" "port_offset off"
    "ports \<noteq> []" "\<forall>q \<in> set ports. port_wf q"
  shows "gen_ok ok committed staged c (createPortExprs F ports off chain c)
    (\<lambda>p. \<exists>q \<in> set ports. port_covers q (pkt_port p off))"
proof (cases "\<exists>q. ports = [q]")
  case True
  then obtain q where q: "ports = [q]" by blast
  show ?thesis
    using guards_matchPort [OF assms(3), of _ _ "rp_single q"] guards_matchPorts [OF assms(3), of _ _ "rp_interval q"]
    by (auto simp: q createPortExprs_def port_covers_def intro!: gen_ok_pure assms(1))
next
  case False
  obtain hi els where x: "port_elements ports = (hi, els)" by force
  have out: "createPortExprs F ports off chain c =
      (case fc_AddSet F (union_set chain hi TypeInetService) els c of
         (c', Inl e) \<Rightarrow> (c', Inl (Wrap ''error creating port union set'' e))
       | (c', Inr s) \<Rightarrow> (c', Inr [getPortExpr off, matchFromSetExpr s]))"
    using False assms(4) x by (auto simp: createPortExprs_def split: list.splits)
  obtain c' res where add: "fc_AddSet F (union_set chain hi TypeInetService) els c = (c', res)" by force
  note set = AddSet_union [OF assms(1,2) add]
  show ?thesis
  proof (cases res)
    case (Inl e)
    with set add show ?thesis by (simp add: out gen_ok_def)
  next
    case (Inr s)
    have "gen_guards rs' [getPortExpr off, matchFromSetExpr s] (\<lambda>p. \<exists>q \<in> set ports. port_covers q (pkt_port p off))"
      if st: "staged c' = Some rs'" for rs'
    proof -
      from set Inr st obtain S where S: "s_Interval (fst S) = hi" "snd S = els"
        "\<And>rs2. sets_extend rs' rs2 \<Longrightarrow>
           resolve_set rs2 \<lparr>lk_SourceRegister = 1, lk_DestRegister = 0, lk_IsDestRegSet = False,
             lk_SetID = s_ID s, lk_SetName = s_Name s, lk_Invert = False\<rparr> = Some S" by blast
      have "in_set S (be16 y) \<longleftrightarrow> (\<exists>q \<in> set ports. port_covers q y)" for y
        using port_elements_covers [OF assms(5) x, of "fst S" y] S(1,2) by (auto simp: in_set_def)
      with guards_lookup(2) [OF S(3) assms(3)] show ?thesis by (simp add: gen_guards_def)
    qed
    with set Inr add show ?thesis by (simp add: out gen_ok_def)
  qed
qed

end

section \<open>The specification of a rule\<close>

text \<open>Which packets a configured rule is about, seen from one side: \<open>inbound\<close> packets have the
  container's address as destination; reply rules read the configured ports from the other end.\<close>

definition rule_spec :: "bool \<Rightarrow> bool \<Rightarrow> u32 \<Rightarrow> byte list \<Rightarrow> ruleConfig \<Rightarrow> packet \<Rightarrow> bool" where
  "rule_spec inbound reply state addr cfg p \<longleftrightarrow>
     (addr \<noteq> [] \<longrightarrow> be32 (if inbound then p_dst p else p_src p) = addr) \<and>
     (slice_elems (r_IPs cfg) \<noteq> [] \<longrightarrow>
        (\<exists>a \<in> set (slice_elems (r_IPs cfg)). aor_covers a (if inbound then p_src p else p_dst p))) \<and>
     (r_Proto cfg \<noteq> invalidProto \<longrightarrow> p_proto p = (if r_Proto cfg = udp then 17 else 6)) \<and>
     (r_SrcPorts cfg \<noteq> [] \<longrightarrow>
        (\<exists>q \<in> set (r_SrcPorts cfg). port_covers q (if reply then p_dport p else p_sport p))) \<and>
     (r_DstPorts cfg \<noteq> [] \<longrightarrow>
        (\<exists>q \<in> set (r_DstPorts cfg). port_covers q (if reply then p_sport p else p_dport p))) \<and>
     Bit_Operations.and (p_ctstate p) state \<noteq> 0"

definition cfg_selectors_wf :: "ruleConfig \<Rightarrow> bool" where
  "cfg_selectors_wf cfg \<longleftrightarrow>
     (\<forall>a \<in> set (slice_elems (r_IPs cfg)). aor_wf a) \<and>
     (\<forall>q \<in> set (r_SrcPorts cfg). port_wf q) \<and> (\<forall>q \<in> set (r_DstPorts cfg). port_wf q)"

definition cfg_verdict :: "u16 \<Rightarrow> ruleConfig \<Rightarrow> nexpr" where
  "cfg_verdict queueNum cfg =
     (if v_Chain (r_Verdict cfg) \<noteq> []
      then EVerdict \<lparr>vd_Kind = VerdictJump, vd_Chain = v_Chain (r_Verdict cfg)\<rparr>
      else if queueNum \<noteq> 0 then EQueue (unat queueNum)
      else if v_drop (r_Verdict cfg) then dropVerdict
      else allowReturnVerdict)"

definition rule_of :: "nft_chain \<Rightarrow> string \<Rightarrow> nft_rule \<Rightarrow> bool" where
  "rule_of chain cid r \<longleftrightarrow>
     ru_Table r = ch_Table chain \<and> ru_Chain r = chain \<and> ru_UserData r = cid \<and> ru_Handle r = 0"

text \<open>A rule that decides exactly the packets of \<open>P\<close>, by its last expression, in every ruleset
  that keeps the sets.\<close>

definition rule_decides :: "ruleset \<Rightarrow> nft_rule \<Rightarrow> (packet \<Rightarrow> bool) \<Rightarrow> nexpr \<Rightarrow> bool" where
  "rule_decides rs r P v \<longleftrightarrow> (\<exists>es. ru_Exprs r = es @ [v] \<and> gen_guards rs es P)"

lemma rule_decides_run:
  "rule_decides rs r P (EVerdict v) \<Longrightarrow> sets_extend rs rs2 \<Longrightarrow>
   run_rule rs2 p r = (if P p then Decided v else NoMatch)"
  unfolding rule_decides_def gen_guards_def run_rule_def using guards_verdict by metis

lemma rule_decides_extend: "rule_decides rs r P v \<Longrightarrow> sets_extend rs rs' \<Longrightarrow> rule_decides rs' r P v"
  unfolding rule_decides_def using gen_guards_extend by blast

lemma gen_guards_cong: "gen_guards rs es P \<Longrightarrow> (\<And>p. P p = Q p) \<Longrightarrow> gen_guards rs es Q"
  by (simp add: gen_guards_def)

lemma pkt_addr_simps:
  "pkt_addr p (if b then dstAddrOffset else srcAddrOffset) = (if b then p_dst p else p_src p)"
  "pkt_addr p (if b then srcAddrOffset else dstAddrOffset) = (if b then p_src p else p_dst p)"
  "pkt_port p (if b then dstPortOffset else srcPortOffset) = (if b then p_dport p else p_sport p)"
  "pkt_port p (if b then srcPortOffset else dstPortOffset) = (if b then p_sport p else p_dport p)"
  by (auto simp: pkt_addr_def pkt_port_def offset_defs)

lemma gen_matchAddr:
  assumes "addr = [] \<or> (\<exists>w. addr = be32 w)" "addr_offset off"
  shows "gen_guards rs (if addr \<noteq> [] then matchAddrExprs addr off else [])
    (\<lambda>p. addr \<noteq> [] \<longrightarrow> be32 (pkt_addr p off) = addr)"
  using assms guards_matchAddr [OF assms(2)] by (auto intro!: gen_guardsI)

lemma gen_matchProto:
  "gen_guards rs (if r_Proto cfg \<noteq> invalidProto
      then matchProtoExprs (if r_Proto cfg = udp then IPPROTO_UDP else IPPROTO_TCP) else [])
    (\<lambda>p. r_Proto cfg \<noteq> invalidProto \<longrightarrow> p_proto p = (if r_Proto cfg = udp then 17 else 6))"
  using guards_matchProto [of _ _ "if r_Proto cfg = udp then IPPROTO_UDP else IPPROTO_TCP"]
  by (auto simp: IPPROTO_TCP_def IPPROTO_UDP_def intro!: gen_guardsI)

lemma gen_state_counter_log:
  "gen_guards rs (matchConnStateExprs state @ [ECounter 0 0] @ (if b then [logExpr l] else []))
    (\<lambda>p. Bit_Operations.and (p_ctstate p) state \<noteq> 0)"
proof -
  have "guards rs p (if b then [logExpr l] else []) True" for rs p
    using guards_skip(2) by (auto simp: logExpr_def)
  from guards_append [OF guards_matchConnState guards_append [OF guards_skip(1) this]]
  show ?thesis by (intro gen_guardsI) simp
qed

context firewall_client
begin

lemma optional_ports_gen:
  assumes "ok c" "ch_Table chain = Some filterTable" "port_offset off" "\<forall>q \<in> set ports. port_wf q"
  shows "gen_ok ok committed staged c
    (if ports \<noteq> [] then createPortExprs F ports off chain c else (c, Inr []))
    (\<lambda>p. ports \<noteq> [] \<longrightarrow> (\<exists>q \<in> set ports. port_covers q (pkt_port p off)))"
  using createPortExprs_gen [OF assms(1,2,3) _ assms(4)] assms(1)
  by (auto intro!: gen_ok_pure)

lemma optional_ips_gen:
  assumes "ok c" "netipx_ok L" "ch_Table chain = Some filterTable" "addr_offset off" "addr_offset own"
    "\<forall>a \<in> set addrs. aor_wf a" "addr = [] \<or> (\<exists>w. addr = be32 w)"
  defines "addrExprs \<equiv> (if addr \<noteq> [] then matchAddrExprs addr own else [])"
  shows "gen_ok ok committed staged c
    (if addrs \<noteq> [] then
       (case createIPExprs F L addrs off chain c of
          (c, Inl e) \<Rightarrow> (c, Inl e)
        | (c, Inr cfgAddrExprs) \<Rightarrow> (c, Inr (if inbound then cfgAddrExprs @ addrExprs else addrExprs @ cfgAddrExprs)))
     else (c, Inr addrExprs))
    (\<lambda>p. (addr \<noteq> [] \<longrightarrow> be32 (pkt_addr p own) = addr) \<and>
       (addrs \<noteq> [] \<longrightarrow> (\<exists>a \<in> set addrs. aor_covers a (pkt_addr p off))))"
    (is "gen_ok _ _ _ _ _ (\<lambda>p. ?A p \<and> (_ \<longrightarrow> ?B p))")
proof (cases "addrs = []")
  case True
  then show ?thesis using gen_matchAddr [OF assms(7,5)] assms(1)
    by (auto simp: gen_ok_def set_step_refl addrExprs_def)
next
  case False
  obtain c' res where call: "createIPExprs F L addrs off chain c = (c', res)" by force
  note gen = createIPExprs_gen [OF assms(1-4) False assms(6), unfolded call]
  show ?thesis
  proof (cases res)
    case (Inl e)
    with gen call False show ?thesis by (simp add: gen_ok_def)
  next
    case (Inr es)
    have "gen_guards rs' (if inbound then es @ addrExprs else addrExprs @ es) (\<lambda>p. ?A p \<and> ?B p)"
      if "staged c' = Some rs'" for rs'
    proof -
      have 1: "gen_guards rs' es ?B" using gen Inr that by (simp add: gen_ok_def)
      have 2: "gen_guards rs' addrExprs ?A" unfolding addrExprs_def by (rule gen_matchAddr [OF assms(7,5)])
      have "gen_guards rs' (es @ addrExprs) (\<lambda>p. ?A p \<and> ?B p)"
        by (rule gen_guards_cong [OF gen_guards_append [OF 1 2]]) blast
      with gen_guards_append [OF 2 1] show ?thesis by simp
    qed
    with gen Inr call False show ?thesis by (simp add: gen_ok_def)
  qed
qed

end

lemma gen_ok_out:
  assumes "gen_ok ok committed staged c (c', res) P"
  shows "ok c'" "committed c' = committed c"
    "res = Inr es \<Longrightarrow> staged c' = Some rs' \<Longrightarrow> set_step (staged c) rs' \<and> gen_guards rs' es P"
  using assms by (auto simp: gen_ok_def)

text \<open>The stages of \<open>createNFTRule\<close>, named: where it stops, and what a rule is made of.\<close>

lemma createNFTRule_stages:
  assumes "createNFTRule F L inbound reply state addr cfg queueNum chain cid c = (c', res)"
  defines "ip \<equiv>
    (if slice_elems (r_IPs cfg) \<noteq> [] then
       (case createIPExprs F L (slice_elems (r_IPs cfg)) (if inbound then srcAddrOffset else dstAddrOffset) chain c of
          (c, Inl e) \<Rightarrow> (c, Inl e)
        | (c, Inr cfgAddrExprs) \<Rightarrow>
            (c, Inr (if inbound
                     then cfgAddrExprs @ (if addr \<noteq> [] then matchAddrExprs addr (if inbound then dstAddrOffset else srcAddrOffset) else [])
                     else (if addr \<noteq> [] then matchAddrExprs addr (if inbound then dstAddrOffset else srcAddrOffset) else []) @ cfgAddrExprs)))
     else (c, Inr (if addr \<noteq> [] then matchAddrExprs addr (if inbound then dstAddrOffset else srcAddrOffset) else [])))"
  defines "src \<equiv> (\<lambda>c. if r_SrcPorts cfg \<noteq> []
      then createPortExprs F (r_SrcPorts cfg) (if reply then dstPortOffset else srcPortOffset) chain c else (c, Inr []))"
  defines "dst \<equiv> (\<lambda>c. if r_DstPorts cfg \<noteq> []
      then createPortExprs F (r_DstPorts cfg) (if reply then srcPortOffset else dstPortOffset) chain c else (c, Inr []))"
  obtains (ip) e where "ip = (c', Inl e)" "res = Inl e"
  | (src) c1 es1 e where "ip = (c1, Inr es1)" "src c1 = (c', Inl e)" "res = Inl e"
  | (dst) c1 es1 c2 es2 e where "ip = (c1, Inr es1)" "src c1 = (c2, Inr es2)" "dst c2 = (c', Inl e)" "res = Inl e"
  | (rule) c1 es1 c2 es2 es3 where "ip = (c1, Inr es1)" "src c1 = (c2, Inr es2)" "dst c2 = (c', Inr es3)"
      "res = Inr \<lparr>ru_Table = ch_Table chain, ru_Chain = chain,
         ru_Exprs = (es1 @ (if r_Proto cfg \<noteq> invalidProto
              then matchProtoExprs (if r_Proto cfg = udp then IPPROTO_UDP else IPPROTO_TCP) else []) @
           (if \<not> reply then es2 @ es3 else es3 @ es2) @ matchConnStateExprs state @ [ECounter 0 0] @
           (if state = stateNew \<and> r_LogPrefix cfg \<noteq> [] then [logExpr (r_LogPrefix cfg)] else [])) @
           [cfg_verdict queueNum cfg],
         ru_UserData = cid, ru_Handle = 0\<rparr>"
proof -
  note def = assms(1) [unfolded createNFTRule_def Let_def, folded ip_def src_def dst_def cfg_verdict_def]
  obtain c1 r1 where ip1: "ip = (c1, r1)" by force
  obtain c2 r2 where src1: "src c1 = (c2, r2)" by force
  obtain c3 r3 where dst1: "dst c2 = (c3, r3)" by force
  show ?thesis
  proof (cases r1)
    case (Inl e)
    with ip1 def that(1) show ?thesis by simp
  next
    case r1: (Inr es1)
    show ?thesis
    proof (cases r2)
      case (Inl e)
      with ip1 r1 src1 src1 [unfolded src_def] def that(2) show ?thesis by simp
    next
      case r2: (Inr es2)
      show ?thesis
      proof (cases r3)
        case (Inl e)
        with ip1 r1 src1 src1 [unfolded src_def] r2 dst1 dst1 [unfolded dst_def] def that(3) show ?thesis by simp
      next
        case (Inr es3)
        with ip1 r1 src1 src1 [unfolded src_def] r2 dst1 dst1 [unfolded dst_def] def that(4) show ?thesis by simp
      qed
    qed
  qed
qed

context firewall_client
begin

text \<open>One generated rule decides exactly the packets its specification names.\<close>

lemma createNFTRule_decides:
  assumes "ok c" "netipx_ok L" "ch_Table chain = Some filterTable" "cfg_selectors_wf cfg"
    "addr = [] \<or> (\<exists>w. addr = be32 w)"
    and call: "createNFTRule F L inbound reply state addr cfg queueNum chain cid c = (c', res)"
  shows "ok c' \<and> committed c' = committed c \<and>
    (\<forall>r rs'. res = Inr r \<longrightarrow> staged c' = Some rs' \<longrightarrow>
       set_step (staged c) rs' \<and> rule_of chain cid r \<and>
       rule_decides rs' r (rule_spec inbound reply state addr cfg) (cfg_verdict queueNum cfg))"
proof -
  let ?own = "if inbound then dstAddrOffset else srcAddrOffset"
  let ?peer = "if inbound then srcAddrOffset else dstAddrOffset"
  let ?sp = "if reply then dstPortOffset else srcPortOffset"
  let ?dp = "if reply then srcPortOffset else dstPortOffset"
  have off: "addr_offset ?own" "addr_offset ?peer" "port_offset ?sp" "port_offset ?dp"
    by (auto simp: addr_offset_def port_offset_def)
  have wf: "\<forall>a \<in> set (slice_elems (r_IPs cfg)). aor_wf a" "\<forall>q \<in> set (r_SrcPorts cfg). port_wf q"
    "\<forall>q \<in> set (r_DstPorts cfg). port_wf q"
    using assms(4) by (auto simp: cfg_selectors_wf_def)
  note ips = optional_ips_gen [OF assms(1-3) off(2,1) wf(1) assms(5), of inbound]
  show ?thesis
  proof (cases rule: createNFTRule_stages [OF call, case_names ip src dst rule])
    case (ip e)
    with gen_ok_out(1,2) [OF ips [unfolded ip(1)]] show ?thesis by simp
  next
    case (src c1 es1 e)
    note g1 = gen_ok_out [OF ips [unfolded src(1)]]
    note g2 = gen_ok_out(1,2) [OF optional_ports_gen [OF g1(1) assms(3) off(3) wf(2), unfolded src(2)]]
    from g1(2) g2 src(3) show ?thesis by simp
  next
    case (dst c1 es1 c2 es2 e)
    note g1 = gen_ok_out [OF ips [unfolded dst(1)]]
    note g2 = gen_ok_out [OF optional_ports_gen [OF g1(1) assms(3) off(3) wf(2), unfolded dst(2)]]
    note g3 = gen_ok_out(1,2) [OF optional_ports_gen [OF g2(1) assms(3) off(4) wf(3), unfolded dst(3)]]
    from g1(2) g2(2) g3 dst(4) show ?thesis by simp
  next
    case (rule c1 es1 c2 es2 es3)
    note g1 = gen_ok_out [OF ips [unfolded rule(1)]]
    note g2 = gen_ok_out [OF optional_ports_gen [OF g1(1) assms(3) off(3) wf(2), unfolded rule(2)]]
    note g3 = gen_ok_out [OF optional_ports_gen [OF g2(1) assms(3) off(4) wf(3), unfolded rule(3)]]
    have "set_step (staged c) rs' \<and> rule_of chain cid r \<and>
        rule_decides rs' r (rule_spec inbound reply state addr cfg) (cfg_verdict queueNum cfg)"
      if res: "res = Inr r" and st: "staged c' = Some rs'" for r rs'
    proof -
      from g3(3) [OF refl st] obtain rs2 where s2: "staged c2 = Some rs2" "sets_extend rs2 rs'"
        and d3: "set_step (Some rs2) rs'"
        and e3: "gen_guards rs' es3 (\<lambda>p. r_DstPorts cfg \<noteq> [] \<longrightarrow> (\<exists>q \<in> set (r_DstPorts cfg). port_covers q (pkt_port p ?dp)))"
        by (auto simp: set_step_def)
      from g2(3) [OF refl s2(1)] obtain rs1 where s1: "staged c1 = Some rs1" "sets_extend rs1 rs2"
        and d2: "set_step (Some rs1) rs2"
        and e2: "gen_guards rs2 es2 (\<lambda>p. r_SrcPorts cfg \<noteq> [] \<longrightarrow> (\<exists>q \<in> set (r_SrcPorts cfg). port_covers q (pkt_port p ?sp)))"
        by (auto simp: set_step_def)
      note e1 = g1(3) [OF refl s1(1)]
      have step: "set_step (staged c) rs'"
        using set_step_trans [OF set_step_trans [OF _ d2] d3] e1 by blast
      note E1 = gen_guards_extend [OF conjunct2 [OF e1] sets_extend_trans [OF s1(2) s2(2)]]
      note E2 = gen_guards_extend [OF e2 s2(2)]
      have ports: "gen_guards rs' (if \<not> reply then es2 @ es3 else es3 @ es2) (\<lambda>p.
          (r_SrcPorts cfg \<noteq> [] \<longrightarrow> (\<exists>q \<in> set (r_SrcPorts cfg). port_covers q (pkt_port p ?sp))) \<and>
          (r_DstPorts cfg \<noteq> [] \<longrightarrow> (\<exists>q \<in> set (r_DstPorts cfg). port_covers q (pkt_port p ?dp))))"
      proof (cases reply)
        case False
        then show ?thesis using gen_guards_append [OF E2 e3] by simp
      next
        case True
        then have "gen_guards rs' (es3 @ es2) (\<lambda>p.
          (r_SrcPorts cfg \<noteq> [] \<longrightarrow> (\<exists>q \<in> set (r_SrcPorts cfg). port_covers q (pkt_port p ?sp))) \<and>
          (r_DstPorts cfg \<noteq> [] \<longrightarrow> (\<exists>q \<in> set (r_DstPorts cfg). port_covers q (pkt_port p ?dp))))"
          by (intro gen_guards_cong [OF gen_guards_append [OF e3 E2]]) blast
        then show ?thesis using True by simp
      qed
      have all: "gen_guards rs' (es1 @ (if r_Proto cfg \<noteq> invalidProto
              then matchProtoExprs (if r_Proto cfg = udp then IPPROTO_UDP else IPPROTO_TCP) else []) @
           (if \<not> reply then es2 @ es3 else es3 @ es2) @ matchConnStateExprs state @ [ECounter 0 0] @
           (if state = stateNew \<and> r_LogPrefix cfg \<noteq> [] then [logExpr (r_LogPrefix cfg)] else []))
         (rule_spec inbound reply state addr cfg)"
        by (rule gen_guards_cong [OF gen_guards_append [OF E1 gen_guards_append [OF gen_matchProto
              gen_guards_append [OF ports gen_state_counter_log]]]])
          (simp add: rule_spec_def pkt_addr_simps conj_assoc)
      have "rule_decides rs' r (rule_spec inbound reply state addr cfg) (cfg_verdict queueNum cfg)"
        using all res rule(4) unfolding rule_decides_def by auto
      moreover have "rule_of chain cid r" using res rule(4) by (auto simp: rule_of_def)
      ultimately show ?thesis using step by blast
    qed
    with g1(2) g2(2) g3(1,2) show ?thesis by simp
  qed
qed

end

text \<open>Sequences of generated rules. \<open>Q\<close> is what one call promises of its rule, and has to
  survive the creation of further sets.\<close>

definition rule_gen :: "('c \<Rightarrow> bool) \<Rightarrow> ('c \<Rightarrow> ruleset) \<Rightarrow> ('c \<Rightarrow> ruleset option) \<Rightarrow>
    ('c \<Rightarrow> 'c \<times> nft_rule result) \<times> (ruleset \<Rightarrow> nft_rule \<Rightarrow> bool) \<Rightarrow> bool" where
  "rule_gen ok committed staged g \<longleftrightarrow>
     (\<forall>c c' res. ok c \<longrightarrow> fst g c = (c', res) \<longrightarrow> ok c' \<and> committed c' = committed c \<and>
        (\<forall>r rs'. res = Inr r \<longrightarrow> staged c' = Some rs' \<longrightarrow> set_step (staged c) rs' \<and> snd g rs' r)) \<and>
     (\<forall>rs rs' r. snd g rs r \<longrightarrow> sets_extend rs rs' \<longrightarrow> snd g rs' r)"

lemma create_in_order_gen:
  assumes "ok c" "\<forall>g \<in> set gs. rule_gen ok committed staged g"
    "create_in_order (map fst gs) c = (c', res)"
  shows "ok c' \<and> committed c' = committed c \<and>
    (\<forall>rules rs'. res = Inr rules \<longrightarrow> staged c' = Some rs' \<longrightarrow>
       set_step (staged c) rs' \<and> list_all2 (\<lambda>g r. snd g rs' r) gs rules)"
  using assms
proof (induction gs arbitrary: c c' res)
  case Nil
  then show ?case by (auto simp: set_step_refl)
next
  case (Cons g gs)
  obtain c1 r1 where g: "fst g c = (c1, r1)" by force
  obtain c2 r2 where gs: "create_in_order (map fst gs) c1 = (c2, r2)" by force
  have "rule_gen ok committed staged g" using Cons.prems(2) by simp
  then have o1: "ok c1" "committed c1 = committed c"
    and q1: "\<And>r rs1. r1 = Inr r \<Longrightarrow> staged c1 = Some rs1 \<Longrightarrow> set_step (staged c) rs1 \<and> snd g rs1 r"
    and mono: "\<And>rs rs' r. snd g rs r \<Longrightarrow> sets_extend rs rs' \<Longrightarrow> snd g rs' r"
    using g Cons.prems(1) unfolding rule_gen_def by blast+
  show ?case
  proof (cases r1)
    case (Inl e)
    with g Cons.prems(3) o1 show ?thesis by auto
  next
    case r1: (Inr r)
    have IH: "ok c2 \<and> committed c2 = committed c1 \<and>
      (\<forall>rules rs'. r2 = Inr rules \<longrightarrow> staged c2 = Some rs' \<longrightarrow>
         set_step (staged c1) rs' \<and> list_all2 (\<lambda>g r. snd g rs' r) gs rules)"
      using Cons.IH [OF o1(1) _ gs] Cons.prems(2) by simp
    show ?thesis
    proof (cases r2)
      case (Inl e)
      with g r1 gs IH o1 Cons.prems(3) show ?thesis by auto
    next
      case r2: (Inr rs)
      have out: "c' = c2" "res = Inr (r # rs)" using g r1 gs r2 Cons.prems(3) by simp_all
      have "set_step (staged c) rs' \<and> list_all2 (\<lambda>g r. snd g rs' r) (g # gs) (r # rs)"
        if st: "staged c2 = Some rs'" for rs'
      proof -
        from IH r2 st have "set_step (staged c1) rs'" and l: "list_all2 (\<lambda>g r. snd g rs' r) gs rs" by auto
        then obtain rs1 where s1: "staged c1 = Some rs1" "sets_extend rs1 rs'" "set_step (Some rs1) rs'"
          by (auto simp: set_step_def)
        from q1 [OF r1 s1(1)] mono [of rs1 r rs'] s1 l set_step_trans show ?thesis by auto
      qed
      with out IH o1 show ?thesis by simp
    qed
  qed
qed

section \<open>The rules of a configured rule\<close>

text \<open>Testing several states at once is testing each.\<close>

lemma rule_spec_or:
  "rule_spec inbound reply (Bit_Operations.or s t) addr cfg p \<longleftrightarrow>
     rule_spec inbound reply s addr cfg p \<or> rule_spec inbound reply t addr cfg p"
proof -
  have "Bit_Operations.and w (Bit_Operations.or s t) \<noteq> 0 \<longleftrightarrow>
      Bit_Operations.and w s \<noteq> 0 \<or> Bit_Operations.and w t \<noteq> 0" for w :: u32
    by (auto simp: bit_eq_iff bit_simps)
  then show ?thesis unfolding rule_spec_def by blast
qed

lemma reply_spec_not_new:
  "p_ctstate p = stateNew \<Longrightarrow> \<not> rule_spec inbound reply stateEst addr cfg p"
  by (simp add: rule_spec_def stateNew_def stateEst_def)

text \<open>The promise about all rules of a configured rule: the forward rules, in the rule's own chain,
  together decide new and established traffic of the rule's direction; the reply rule, in the other
  chain when there is one, decides established traffic of the opposite direction only.\<close>

definition forward_states :: "ruleConfig \<Rightarrow> u32" where
  "forward_states cfg = (if v_drop (r_Verdict cfg) then stateNew else stateNewEst)"

definition verdict_expr_of :: "ruleConfig \<Rightarrow> verdict_expr" where
  "verdict_expr_of cfg =
     \<lparr>vd_Kind = (if v_drop (r_Verdict cfg) then VerdictDrop else VerdictReturn), vd_Chain = []\<rparr>"

definition est_chain :: "ruleDetails \<Rightarrow> nft_chain" where
  "est_chain rd = (case rd_estChain rd of None \<Rightarrow> rd_chain rd | Some ch \<Rightarrow> ch)"

definition est_owner :: "ruleDetails \<Rightarrow> string" where
  "est_owner rd = (case rd_estChain rd of None \<Rightarrow> rd_contID rd | Some _ \<Rightarrow> rd_estContID rd)"

definition rules_promise :: "ruleset \<Rightarrow> ruleDetails \<Rightarrow> nft_rule list \<Rightarrow> bool" where
  "rules_promise rs rd rules \<longleftrightarrow>
     (\<exists>fwd reply. rules = fwd @ reply \<and> fwd \<noteq> [] \<and>
        (\<forall>r \<in> set fwd. rule_of (rd_chain rd) (rd_contID rd) r) \<and>
        (\<forall>rs2 p. sets_extend rs rs2 \<longrightarrow>
           run_chain rs2 p fwd =
             (if rule_spec (rd_inbound rd) False (forward_states (rd_cfg rd)) (rd_addr rd) (rd_cfg rd) p
              then Decided (verdict_expr_of (rd_cfg rd)) else Fallthrough)) \<and>
        (if v_drop (r_Verdict (rd_cfg rd)) then reply = []
         else \<exists>r. reply = [r] \<and> rule_of (est_chain rd) (est_owner rd) r \<and>
           (\<forall>rs2 p. sets_extend rs rs2 \<longrightarrow>
              run_rule rs2 p r =
                (if rule_spec (\<not> rd_inbound rd) True stateEst (rd_addr rd) (rd_cfg rd) p
                 then Decided (verdict_expr_of (rd_cfg rd)) else NoMatch))))"

lemma cfg_verdict_accepted:
  assumes "validateVerdict (r_Verdict cfg) = None"
  shows "cfg_verdict 0 cfg = EVerdict (verdict_expr_of cfg)"
  using assms by (simp add: cfg_verdict_def validateVerdict_None verdict_expr_of_def dropVerdict_def
      allowReturnVerdict_def)

lemma run_chain_two:
  assumes "run_rule rs p r1 = (if a then Decided v else NoMatch)"
    "run_rule rs p r2 = (if b then Decided v else NoMatch)"
  shows "run_chain rs p [r1, r2] = (if a \<or> b then Decided v else Fallthrough)"
  using assms by auto

definition decided_gen :: "nft_chain \<Rightarrow> string \<Rightarrow> (packet \<Rightarrow> bool) \<Rightarrow> verdict_expr \<Rightarrow> ruleset \<Rightarrow> nft_rule \<Rightarrow> bool" where
  "decided_gen chain cid P v rs r \<longleftrightarrow> rule_of chain cid r \<and>
     (\<forall>rs2 p. sets_extend rs rs2 \<longrightarrow> run_rule rs2 p r = (if P p then Decided v else NoMatch))"

lemma decided_gen_extend: "decided_gen chain cid P v rs r \<Longrightarrow> sets_extend rs rs' \<Longrightarrow> decided_gen chain cid P v rs' r"
  unfolding decided_gen_def using sets_extend_trans by blast

context firewall_client
begin

lemma createNFTRule_rule_gen:
  assumes "netipx_ok L" "ch_Table chain = Some filterTable" "cfg_selectors_wf cfg"
    "addr = [] \<or> (\<exists>w. addr = be32 w)" "validateVerdict (r_Verdict cfg) = None"
  shows "rule_gen ok committed staged
    (createNFTRule F L inbound reply state addr cfg 0 chain cid,
     decided_gen chain cid (rule_spec inbound reply state addr cfg) (verdict_expr_of cfg))"
  unfolding rule_gen_def fst_conv snd_conv
proof (intro conjI allI impI)
  fix c c' res
  assume "ok c" and call: "createNFTRule F L inbound reply state addr cfg 0 chain cid c = (c', res)"
  note dec = createNFTRule_decides [OF \<open>ok c\<close> assms(1-4) call]
  show "ok c'" "committed c' = committed c" using dec by auto
  fix r rs'
  assume "res = Inr r" "staged c' = Some rs'"
  with dec cfg_verdict_accepted [OF assms(5)]
  have "set_step (staged c) rs'" "rule_of chain cid r"
    "rule_decides rs' r (rule_spec inbound reply state addr cfg) (EVerdict (verdict_expr_of cfg))" by auto
  then show "set_step (staged c) rs'"
    "decided_gen chain cid (rule_spec inbound reply state addr cfg) (verdict_expr_of cfg) rs' r"
    unfolding decided_gen_def using rule_decides_run by blast+
next
  fix rs rs' r
  assume "decided_gen chain cid (rule_spec inbound reply state addr cfg) (verdict_expr_of cfg) rs r" "sets_extend rs rs'"
  then show "decided_gen chain cid (rule_spec inbound reply state addr cfg) (verdict_expr_of cfg) rs' r"
    by (rule decided_gen_extend)
qed

lemma createNFTRules_correct:
  assumes "ok c" "netipx_ok L" "cfg_selectors_wf (rd_cfg rd)" "validateVerdict (r_Verdict (rd_cfg rd)) = None"
    "ch_Table (rd_chain rd) = Some filterTable" "ch_Table (est_chain rd) = Some filterTable"
    "rd_addr rd = [] \<or> (\<exists>w. rd_addr rd = be32 w)"
    and call: "createNFTRules F L rd c = (c', res)"
  shows "ok c' \<and> committed c' = committed c \<and>
    (\<forall>rules rs'. res = Inr rules \<longrightarrow> staged c' = Some rs' \<longrightarrow>
       set_step (staged c) rs' \<and> rules_promise rs' rd rules)"
proof -
  let ?cfg = "rd_cfg rd" and ?in = "rd_inbound rd" and ?addr = "rd_addr rd"
  define fwd where "fwd state = (createNFTRule F L ?in False state ?addr ?cfg 0 (rd_chain rd) (rd_contID rd),
    decided_gen (rd_chain rd) (rd_contID rd) (rule_spec ?in False state ?addr ?cfg) (verdict_expr_of ?cfg))" for state
  define rep where "rep = (createNFTRule F L (\<not> ?in) True stateEst ?addr ?cfg 0 (est_chain rd) (est_owner rd),
    decided_gen (est_chain rd) (est_owner rd) (rule_spec (\<not> ?in) True stateEst ?addr ?cfg) (verdict_expr_of ?cfg))"
  have gens: "rule_gen ok committed staged (fwd state)" "rule_gen ok committed staged rep" for state
    unfolding fwd_def rep_def using assms by (auto intro!: createNFTRule_rule_gen)
  have v0: "v_Queue (r_Verdict ?cfg) = 0" using assms(4) by (simp add: validateVerdict_None)
  define gs where "gs = (if v_drop (r_Verdict ?cfg) then [fwd stateNew]
    else if r_LogPrefix ?cfg = [] then [fwd stateNewEst, rep] else [fwd stateNew, fwd stateEst, rep])"
  have "createNFTRules F L rd c = create_in_order (map fst gs) c"
    using v0 by (auto simp: createNFTRules_def Let_def gs_def fwd_def rep_def est_chain_def est_owner_def
        split: option.splits)
  with call have run: "create_in_order (map fst gs) c = (c', res)" by simp
  note order = create_in_order_gen [where gs = gs and ok = ok and committed = committed and staged = staged,
      OF assms(1) _ run]
  have all: "\<forall>g \<in> set gs. rule_gen ok committed staged g" using gens by (auto simp: gs_def)
  have "rules_promise rs' rd rules" if l: "list_all2 (\<lambda>g r. snd g rs' r) gs rules" for rs' rules
  proof -
    note d = decided_gen_def
    consider (drop) r where "v_drop (r_Verdict ?cfg)" "rules = [r]" "snd (fwd stateNew) rs' r"
      | (plain) r q where "\<not> v_drop (r_Verdict ?cfg)" "rules = [r, q]" "snd (fwd stateNewEst) rs' r" "snd rep rs' q"
      | (log) r s q where "\<not> v_drop (r_Verdict ?cfg)" "rules = [r, s, q]" "snd (fwd stateNew) rs' r"
          "snd (fwd stateEst) rs' s" "snd rep rs' q"
      using l unfolding gs_def by (auto simp: list_all2_Cons1 split: if_splits)
    then show ?thesis
    proof cases
      case drop
      then show ?thesis unfolding rules_promise_def
        by (intro exI [of _ "[r]"] exI [of _ "[]"]) (simp add: fwd_def d forward_states_def)
    next
      case plain
      then show ?thesis unfolding rules_promise_def
        by (intro exI [of _ "[r]"] exI [of _ "[q]"]) (simp add: fwd_def rep_def d forward_states_def)
    next
      case log
      then have "run_chain rs2 p [r, s] = (if rule_spec ?in False stateNew ?addr ?cfg p \<or>
          rule_spec ?in False stateEst ?addr ?cfg p then Decided (verdict_expr_of ?cfg) else Fallthrough)"
        if "sets_extend rs' rs2" for rs2 p
        using that by (intro run_chain_two) (simp_all add: fwd_def d)
      with log show ?thesis unfolding rules_promise_def
        by (intro exI [of _ "[r, s]"] exI [of _ "[q]"])
          (simp add: fwd_def rep_def d forward_states_def stateNewEst_def rule_spec_or del: run_chain.simps)
    qed
  qed
  with order [OF all] show ?thesis by blast
qed

end

section \<open>Truncation of log prefixes\<close>

lemma trim_invalid_prefix:
  "\<exists>n. trim_invalid s = take n s \<and> valid_utf8 (take n s) \<and> n \<le> length s \<and>
     (\<forall>m. n < m \<longrightarrow> m \<le> length s \<longrightarrow> \<not> valid_utf8 (take m s))"
proof (induction s rule: trim_invalid.induct)
  case (1 s)
  show ?case
  proof (cases "valid_utf8 s")
    case True
    then show ?thesis by (intro exI [of _ "length s"]) (simp add: trim_invalid.simps [of s])
  next
    case False
    with 1 obtain n where n: "trim_invalid (butlast s) = take n (butlast s)" "valid_utf8 (take n (butlast s))"
      "n \<le> length (butlast s)" "\<forall>m. n < m \<longrightarrow> m \<le> length (butlast s) \<longrightarrow> \<not> valid_utf8 (take m (butlast s))"
      by blast
    have take: "take m (butlast s) = take m s" if "m \<le> length s - 1" for m
      using that by (simp add: butlast_conv_take)
    have "\<not> valid_utf8 (take m s)" if "n < m" "m \<le> length s" for m
      using that n(4) take [of m] False by (cases "m = length s") auto
    with n take [of n] False show ?thesis
      by (intro exI [of _ n]) (simp add: trim_invalid.simps [of s])
  qed
qed

lemma valid_utf8_ascii [simp]: "byte_in a 0 127 \<Longrightarrow> valid_utf8 (replicate n a @ s) = valid_utf8 s"
  by (induction n) auto

text \<open>A valid string has a valid prefix at most three bytes short of any length.\<close>

definition cut_near :: "string \<Rightarrow> bool" where
  "cut_near s \<longleftrightarrow> (\<forall>n \<le> length s. \<exists>k \<le> 3. k \<le> n \<and> valid_utf8 (take (n - k) s))"

lemma cut_near_append:
  assumes "cut_near s" "length w \<le> 4" "\<And>t. valid_utf8 t \<Longrightarrow> valid_utf8 (w @ t)"
  shows "cut_near (w @ s)"
  unfolding cut_near_def
proof (intro allI impI)
  fix n assume n: "n \<le> length (w @ s)"
  show "\<exists>k \<le> 3. k \<le> n \<and> valid_utf8 (take (n - k) (w @ s))"
  proof (cases "n < length w")
    case True
    with assms(2) show ?thesis by (intro exI [of _ n]) auto
  next
    case False
    with n obtain k where k: "k \<le> 3" "k \<le> n - length w" "valid_utf8 (take (n - length w - k) s)"
      using assms(1) unfolding cut_near_def by (metis add_diff_inverse_nat diff_le_mono diff_add_inverse length_append)
    then have "take (n - k) (w @ s) = w @ take (n - length w - k) s"
      using False by (simp add: add.commute)
    with k assms(3) show ?thesis by (intro exI [of _ k]) auto
  qed
qed

lemma valid_utf8_cut: "valid_utf8 s \<Longrightarrow> cut_near s"
proof (induction s rule: valid_utf8.induct)
  case 1
  then show ?case by (simp add: cut_near_def)
next
  case (2 a s)
  consider (one) "byte_in a 0 127" "valid_utf8 s"
    | (two) b t where "\<not> byte_in a 0 127" "byte_in a 194 223" "s = b # t" "byte_in b 128 191" "valid_utf8 t"
    | (three) b c t where "\<not> byte_in a 0 127" "\<not> byte_in a 194 223" "byte_in a 224 239" "s = b # c # t"
        "\<And>t'. valid_utf8 t' \<Longrightarrow> valid_utf8 (a # b # c # t')" "valid_utf8 t"
    | (four) b c d t where "\<not> byte_in a 0 127" "\<not> byte_in a 194 223" "\<not> byte_in a 224 239" "byte_in a 240 244"
        "s = b # c # d # t" "\<And>t'. valid_utf8 t' \<Longrightarrow> valid_utf8 (a # b # c # d # t')" "valid_utf8 t"
    using "2.prems" by (auto split: if_splits list.splits)
  then show ?case
  proof cases
    case one
    with "2.IH"(1) have "cut_near s" by blast
    from cut_near_append [OF this, of "[a]"] one show ?thesis by simp
  next
    case two
    with "2.IH"(2) have "cut_near t" by blast
    from cut_near_append [OF this, of "[a, b]"] two show ?thesis by simp
  next
    case three
    with "2.IH"(3) have "cut_near t" by blast
    from cut_near_append [OF this, of "[a, b, c]"] three show ?thesis by simp
  next
    case four
    with "2.IH"(4) have "cut_near t" by blast
    from cut_near_append [OF this, of "[a, b, c, d]"] four show ?thesis by simp
  qed
qed

lemma boundLogPrefix_short: "length s \<le> 127 \<Longrightarrow> boundLogPrefix s = s"
  by (simp add: boundLogPrefix_def maxLogPrefixBytes_def)

lemma boundLogPrefix_long:
  assumes "127 < length s"
  obtains n where "boundLogPrefix s = take n s" "n \<le> 127" "valid_utf8 (take n s)"
    "\<And>m. n < m \<Longrightarrow> m \<le> 127 \<Longrightarrow> \<not> valid_utf8 (take m s)"
proof -
  obtain n where n: "trim_invalid (take 127 s) = take n (take 127 s)" "valid_utf8 (take n (take 127 s))"
    "n \<le> length (take 127 s)" "\<forall>m. n < m \<longrightarrow> m \<le> length (take 127 s) \<longrightarrow> \<not> valid_utf8 (take m (take 127 s))"
    using trim_invalid_prefix by blast
  show ?thesis
    using n assms by (intro that [of n]) (auto simp: boundLogPrefix_def maxLogPrefixBytes_def min_def split: if_splits)
qed

section \<open>Properties\<close>

text \<open>C38: A log prefix never exceeds the 127 bytes the kernel accepts: it is the text itself when that
  fits, and otherwise the longest prefix within the bound that is valid UTF-8; a valid text loses at
  most three bytes more than it has to.\<close>

theorem boundLogPrefix_correct:
  "length (boundLogPrefix s) \<le> 127 \<and>
   (length s \<le> 127 \<longrightarrow> boundLogPrefix s = s) \<and>
   (127 < length s \<longrightarrow> (\<exists>n. boundLogPrefix s = take n s \<and> valid_utf8 (take n s) \<and>
      (\<forall>m. n < m \<longrightarrow> m \<le> 127 \<longrightarrow> \<not> valid_utf8 (take m s)) \<and>
      (valid_utf8 s \<longrightarrow> 124 \<le> n)))"
proof (cases "length s \<le> 127")
  case True
  then show ?thesis by (simp add: boundLogPrefix_short)
next
  case False
  then obtain n where n: "boundLogPrefix s = take n s" "n \<le> 127" "valid_utf8 (take n s)"
    "\<And>m. n < m \<Longrightarrow> m \<le> 127 \<Longrightarrow> \<not> valid_utf8 (take m s)"
    using boundLogPrefix_long [of s] by auto
  have "124 \<le> n" if "valid_utf8 s"
  proof -
    from valid_utf8_cut [OF that] False obtain k where k: "k \<le> 3" "valid_utf8 (take (127 - k) s)"
      unfolding cut_near_def by (metis linorder_le_cases)
    with n(4) [of "127 - k"] show ?thesis by (cases "n < 127 - k") auto
  qed
  with n False show ?thesis by auto
qed

theorem boundLogPrefix_correct_witness:
  "boundLogPrefix (replicate 126 (CHR ''a'') @ [CHR 0xC3, CHR 0xA9]) = replicate 126 (CHR ''a'')"
proof -
  let ?s = "replicate 126 (CHR ''a'') @ [CHR 0xC3, CHR 0xA9]"
  have a: "byte_in (CHR ''a'') 0 127" by (simp add: byte_in_def)
  have "127 < length ?s" by simp
  with boundLogPrefix_correct [of ?s] obtain n where n: "boundLogPrefix ?s = take n ?s" "valid_utf8 (take n ?s)"
    "\<forall>m. n < m \<longrightarrow> m \<le> 127 \<longrightarrow> \<not> valid_utf8 (take m ?s)" "length (boundLogPrefix ?s) \<le> 127" by blast
  have t126: "take 126 ?s = replicate 126 (CHR ''a'') @ []" by simp
  have t127: "take 127 ?s = replicate 126 (CHR ''a'') @ [CHR 0xC3]" by simp
  have v126: "valid_utf8 (take 126 ?s)"
    unfolding t126 valid_utf8_ascii [OF a] by simp
  have v127: "\<not> valid_utf8 (take 127 ?s)"
    unfolding t127 valid_utf8_ascii [OF a] by (simp add: byte_in_def)
  have "(126::nat) \<le> 127" by simp
  with n(3) v126 have "126 \<le> n" by (metis not_le)
  moreover have "n \<le> 127" using n(1,4) by (simp add: min_def split: if_splits)
  moreover have "n \<noteq> 127" using n(2) v127 by blast
  ultimately have "n = 126" by simp
  with n(1) t126 show ?thesis by simp
qed

text \<open>A container at 10.0.0.2 that may reach port 443 and ports 8000 to 8010 anywhere over TCP.\<close>

definition sample_client :: mockFirewall where
  "sample_client = mf_AddChain (regular_chain ''whalewall-x'') (mf_AddTable filterTable newMockFirewallCreator)"

definition sample_details :: ruleDetails where
  "sample_details =
     \<lparr>rd_inbound = False, rd_addr = be32 167772162,
      rd_cfg = zero_rule\<lparr>r_Proto := tcp, r_DstPorts :=
        [\<lparr>rp_single = 443, rp_interval = zero_interval\<rparr>,
         \<lparr>rp_single = 0, rp_interval = \<lparr>pi_min = 8000, pi_max = 8010\<rparr>\<rparr>]\<rparr>,
      rd_chain = regular_chain ''whalewall-x'', rd_estChain = None,
      rd_contID = ''x'', rd_estContID = []\<rparr>"

lemma sample_client_ok: "mock_ok sample_client"
  using AddChain_ok_lemma [of "mf_AddTable filterTable newMockFirewallCreator" "regular_chain ''whalewall-x''"]
    AddTable_ok_lemma [OF mock_ok_empty] by (simp add: sample_client_def)

lemma sample_ports:
  "port_elements (r_DstPorts (rd_cfg sample_details)) =
     (True, [key_element (be16 443), end_element (be16 444), key_element (be16 8000), end_element (be16 8011)])"
  by (simp add: sample_details_def port_elements_def Let_def port_interval_def mergeUint16Intervals_def
      merge_intervals_def)

lemma sample_client_run:
  "\<exists>c' rules rs'. createNFTRules mockFirewall_client ref_netipx sample_details sample_client = (c', Inr rules) \<and>
     mock_staged c' = Some rs' \<and> length rules = 2"
  using sample_ports
  by (simp add: sample_details_def zero_rule_def zero_verdict_def createNFTRules_def Let_def createNFTRule_def
      proto_defs createPortExprs_def mock_client_sel mf_AddSet_def union_set_def zero_set_def
      sample_client_def mf_AddChain_def mf_AddTable_def newMockFirewallCreator_def empty_mock_table_def
      mock_staged_def)

text \<open>C9: The rules generated for an accepted configuration rule do what the rule says, whichever
  nftables client runs them. A rule that returns lets new and established packets through its forward
  rules, and only these states; a rule that drops drops new packets only, so its forward rules leave
  established ones alone. Beyond the state a forward rule matches exactly the packets that leave (or,
  inbound, reach) the container's address, where one is given, go to (or come from) one of the
  configured addresses, where there are any, and match the protocol and the configured source and
  destination ports. A rule that returns also has one reply rule, in the chain and under the owner of
  the peer where there is one, which returns exactly the established packets of the opposite
  direction with the ports exchanged; a rule that drops has none. Nothing is committed by
  generating.\<close>

theorem createNFTRules_semantics:
  assumes "firewall_client F ok committed staged" "ok c" "netipx_ok L"
    and "cfg_selectors_wf (rd_cfg rd)" "validateVerdict (r_Verdict (rd_cfg rd)) = None"
    and "ch_Table (rd_chain rd) = Some filterTable" "ch_Table (est_chain rd) = Some filterTable"
    and "rd_addr rd = [] \<or> (\<exists>w. rd_addr rd = be32 w)"
    and "createNFTRules F L rd c = (c', Inr rules)" "staged c' = Some rs'"
  shows "committed c' = committed c \<and> rules_promise rs' rd rules"
  using firewall_client.createNFTRules_correct [OF assms(1-9)] assms(10) by blast

theorem createNFTRules_semantics_witness:
  "\<exists>c' rules rs'. createNFTRules mockFirewall_client ref_netipx sample_details sample_client = (c', Inr rules) \<and>
     mock_staged c' = Some rs' \<and> mock_committed c' = mock_committed sample_client \<and>
     rules_promise rs' sample_details rules"
proof -
  obtain c' rules rs' where run: "createNFTRules mockFirewall_client ref_netipx sample_details sample_client = (c', Inr rules)"
    and st: "mock_staged c' = Some rs'"
    using sample_client_run by blast
  have "cfg_selectors_wf (rd_cfg sample_details)" "validateVerdict (r_Verdict (rd_cfg sample_details)) = None"
    "ch_Table (rd_chain sample_details) = Some filterTable" "ch_Table (est_chain sample_details) = Some filterTable"
    "rd_addr sample_details = [] \<or> (\<exists>w. rd_addr sample_details = be32 w)"
    by (auto simp: sample_details_def cfg_selectors_wf_def zero_rule_def zero_verdict_def validateVerdict_def
        port_wf_def est_chain_def)
  from createNFTRules_semantics [OF mock.firewall_client_axioms sample_client_ok ref_netipx_ok this run st] run st
  show ?thesis by blast
qed

text \<open>A reply rule admits nothing on its own: a packet of a new connection passes it by, whatever
  the configured addresses and ports are.\<close>

theorem reply_rule_rejects_new:
  assumes "firewall_client F ok committed staged" "ok c" "netipx_ok L"
    and "cfg_selectors_wf (rd_cfg rd)" "validateVerdict (r_Verdict (rd_cfg rd)) = None"
    and "ch_Table (rd_chain rd) = Some filterTable" "ch_Table (est_chain rd) = Some filterTable"
    and "rd_addr rd = [] \<or> (\<exists>w. rd_addr rd = be32 w)"
    and "createNFTRules F L rd c = (c', Inr rules)" "staged c' = Some rs'"
    and "\<not> v_drop (r_Verdict (rd_cfg rd))" "p_ctstate p = stateNew"
  shows "run_rule rs' p (last rules) = NoMatch"
proof -
  have "rules_promise rs' rd rules"
    using firewall_client.createNFTRules_correct [OF assms(1-9)] assms(10) by blast
  with assms(11) obtain fwd r where "rules = fwd @ [r]"
    "run_rule rs' p r = (if rule_spec (\<not> rd_inbound rd) True stateEst (rd_addr rd) (rd_cfg rd) p
       then Decided (verdict_expr_of (rd_cfg rd)) else NoMatch)"
    unfolding rules_promise_def by (metis sets_extend_refl)
  with reply_spec_not_new [OF assms(12)] show ?thesis by simp
qed

theorem reply_rule_rejects_new_witness:
  "\<exists>c' rules rs'. createNFTRules mockFirewall_client ref_netipx sample_details sample_client = (c', Inr rules) \<and>
     mock_staged c' = Some rs' \<and>
     run_rule rs' \<lparr>p_src = 1, p_dst = 167772162, p_proto = 6, p_sport = 443, p_dport = 50000, p_ctstate = 8\<rparr>
       (last rules) = NoMatch"
proof -
  obtain c' rules rs' where run: "createNFTRules mockFirewall_client ref_netipx sample_details sample_client = (c', Inr rules)"
    and st: "mock_staged c' = Some rs'"
    using sample_client_run by blast
  have "cfg_selectors_wf (rd_cfg sample_details)" "validateVerdict (r_Verdict (rd_cfg sample_details)) = None"
    "ch_Table (rd_chain sample_details) = Some filterTable" "ch_Table (est_chain sample_details) = Some filterTable"
    "rd_addr sample_details = [] \<or> (\<exists>w. rd_addr sample_details = be32 w)"
    "\<not> v_drop (r_Verdict (rd_cfg sample_details))"
    by (auto simp: sample_details_def cfg_selectors_wf_def zero_rule_def zero_verdict_def validateVerdict_def
        port_wf_def est_chain_def)
  from reply_rule_rejects_new [OF mock.firewall_client_axioms sample_client_ok ref_netipx_ok this(1-5) run st this(6),
      of "\<lparr>p_src = 1, p_dst = 167772162, p_proto = 6, p_sport = 443, p_dport = 50000, p_ctstate = 8\<rparr>"] run st
  show ?thesis by (auto simp: stateNew_def)
qed

end
