(* ===== verification/Rules_Equal.thy ===== *)
theory Rules_Equal
  imports Rule_Gen
begin

text \<open>
  \<open>rulesEqual\<close> of \<open>rules.go\<close>: when a rule read back from the kernel is the rule the
  program would create. Counters are ignored, and an anonymous set's placeholder name matches any
  name the kernel may have given the set. The serialisation \<open>expr.Marshal\<close> of the nftables
  library is the parameter \<open>M\<close>; a nil table, which Go would dereference, is passed on to it.
\<close>

type_synonym marshaller = "nft_table option \<Rightarrow> nexpr \<Rightarrow> byte list result"

text \<open>\<open>strings.HasPrefix(n, "__set")\<close> and a decimal 64-bit number after it.\<close>

definition numbered_set_name :: "string \<Rightarrow> bool" where
  "numbered_set_name n \<longleftrightarrow>
     HasPrefix n ''__set'' \<and> (case ParseUint (drop 5 n) 64 of Inr _ \<Rightarrow> True | Inl _ \<Rightarrow> False)"

definition marshal_equal :: "marshaller \<Rightarrow> nft_table option \<Rightarrow> nft_table option \<Rightarrow> nexpr \<Rightarrow> nexpr \<Rightarrow> bool" where
  "marshal_equal M t1 t2 e1 e2 =
     (case M t1 e1 of
        Inl _ \<Rightarrow> False
      | Inr b1 \<Rightarrow> (case M t2 e2 of Inl _ \<Rightarrow> False | Inr b2 \<Rightarrow> b1 = b2))"

definition is_counter :: "nexpr \<Rightarrow> bool" where
  "is_counter e \<longleftrightarrow> (case e of ECounter _ _ \<Rightarrow> True | _ \<Rightarrow> False)"

definition as_lookup :: "nexpr \<Rightarrow> lookup_expr option" where
  "as_lookup e = (case e of ELookup l \<Rightarrow> Some l | _ \<Rightarrow> None)"

text \<open>One turn of the loop: does it go on?\<close>

definition expr_equal :: "marshaller \<Rightarrow> nft_table option \<Rightarrow> nft_table option \<Rightarrow> nexpr \<Rightarrow> nexpr \<Rightarrow> bool" where
  "expr_equal M t1 t2 e1 e2 =
     (if is_counter e1 \<noteq> is_counter e2 then False
      else if is_counter e1 \<and> is_counter e2 then True
      else (case (as_lookup e1, as_lookup e2) of
          (Some l1, Some l2) \<Rightarrow>
            if lk_SourceRegister l1 \<noteq> lk_SourceRegister l2 then False
            else if lk_DestRegister l1 \<noteq> lk_DestRegister l2 then False
            else if lk_IsDestRegSet l1 \<noteq> lk_IsDestRegSet l2 then False
            else if lk_Invert l1 \<noteq> lk_Invert l2 then False
            else if lk_SetName l1 \<noteq> lk_SetName l2 then
              (lk_SetName l1 = ''__set%d'' \<and> numbered_set_name (lk_SetName l2)) \<or>
              (lk_SetName l2 = ''__set%d'' \<and> numbered_set_name (lk_SetName l1))
            else marshal_equal M t1 t2 e1 e2
        | (None, None) \<Rightarrow> marshal_equal M t1 t2 e1 e2
        | _ \<Rightarrow> False))"

fun exprs_equal :: "marshaller \<Rightarrow> nft_table option \<Rightarrow> nft_table option \<Rightarrow> nexpr list \<Rightarrow> nexpr list \<Rightarrow> bool" where
  "exprs_equal M t1 t2 [] [] \<longleftrightarrow> True"
| "exprs_equal M t1 t2 (e1 # es1) (e2 # es2) \<longleftrightarrow> expr_equal M t1 t2 e1 e2 \<and> exprs_equal M t1 t2 es1 es2"
| "exprs_equal M t1 t2 _ _ \<longleftrightarrow> False"

definition rulesEqual :: "marshaller \<Rightarrow> nft_rule \<Rightarrow> nft_rule \<Rightarrow> bool" where
  "rulesEqual M r1 r2 \<longleftrightarrow>
     ru_UserData r1 = ru_UserData r2 \<and> length (ru_Exprs r1) = length (ru_Exprs r2) \<and>
     exprs_equal M (ru_Table r1) (ru_Table r2) (ru_Exprs r1) (ru_Exprs r2)"

section \<open>Lemmas\<close>

lemma exprs_equal_list_all2: "exprs_equal M t1 t2 es1 es2 \<longleftrightarrow> list_all2 (expr_equal M t1 t2) es1 es2"
  by (induction M t1 t2 es1 es2 rule: exprs_equal.induct) auto

lemma rulesEqual_iff:
  "rulesEqual M r1 r2 \<longleftrightarrow> ru_UserData r1 = ru_UserData r2 \<and>
     list_all2 (expr_equal M (ru_Table r1) (ru_Table r2)) (ru_Exprs r1) (ru_Exprs r2)"
  by (auto simp: rulesEqual_def exprs_equal_list_all2 list_all2_lengthD)

lemma marshal_equal_sym: "marshal_equal M t1 t2 e1 e2 \<longleftrightarrow> marshal_equal M t2 t1 e2 e1"
  by (auto simp: marshal_equal_def split: sum.splits)

lemma expr_equal_sym: "expr_equal M t1 t2 e1 e2 = expr_equal M t2 t1 e2 e1"
  using marshal_equal_sym [of M t1 t2 e1 e2]
  by (cases "as_lookup e1"; cases "as_lookup e2") (auto simp: expr_equal_def)

text \<open>A marshaller that tells expressions apart, as a serialisation does.\<close>

definition marshal_ok :: "marshaller \<Rightarrow> bool" where
  "marshal_ok M \<longleftrightarrow>
     (\<forall>t e. \<exists>b. M t e = Inr b) \<and> (\<forall>t e1 e2. M t e1 = M t e2 \<longrightarrow> e1 = e2)"

lemma expr_equal_refl: "marshal_ok M \<Longrightarrow> expr_equal M t t e e"
  by (auto simp: expr_equal_def marshal_equal_def marshal_ok_def split: option.splits sum.splits)
    (metis Inr_Inl_False)+

lemma rulesEqual_refl: "marshal_ok M \<Longrightarrow> rulesEqual M r r"
  by (simp add: rulesEqual_iff expr_equal_refl list_all2_refl)

lemma rulesEqual_handle [simp]:
  "rulesEqual M (r\<lparr>ru_Handle := h\<rparr>) r2 = rulesEqual M r r2"
  "rulesEqual M r (r2\<lparr>ru_Handle := h\<rparr>) = rulesEqual M r r2"
  by (simp_all add: rulesEqual_iff)

lemma marshal_equal_same: "marshal_ok M \<Longrightarrow> marshal_equal M t t e1 e2 \<Longrightarrow> e1 = e2"
  unfolding marshal_equal_def marshal_ok_def by (auto split: sum.splits) metis

text \<open>Rules without lookups are compared literally, counters apart.\<close>

definition strip_counter :: "nexpr \<Rightarrow> nexpr" where
  "strip_counter e = (case e of ECounter _ _ \<Rightarrow> ECounter 0 0 | _ \<Rightarrow> e)"

lemma strip_counter_counter: "is_counter e \<Longrightarrow> strip_counter e = ECounter 0 0"
  "\<not> is_counter e \<Longrightarrow> strip_counter e = e"
  by (auto simp: is_counter_def strip_counter_def split: nexpr.splits)

lemma expr_equal_no_lookup:
  assumes "marshal_ok M" "as_lookup e1 = None"
  shows "expr_equal M t t e1 e2 \<longleftrightarrow> strip_counter e1 = strip_counter e2"
proof (cases "is_counter e1 \<or> is_counter e2")
  case True
  then show ?thesis
    by (auto simp: expr_equal_def is_counter_def strip_counter_def split: nexpr.splits)
next
  case False
  then have s: "strip_counter e1 = e1" "strip_counter e2 = e2" by (auto simp: strip_counter_counter)
  show ?thesis
  proof
    assume "expr_equal M t t e1 e2"
    with False assms(2) have "marshal_equal M t t e1 e2"
      by (auto simp: expr_equal_def split: option.splits)
    then show "strip_counter e1 = strip_counter e2" using marshal_equal_same [OF assms(1)] s by metis
  next
    assume "strip_counter e1 = strip_counter e2"
    then show "expr_equal M t t e1 e2" using s expr_equal_refl [OF assms(1)] by metis
  qed
qed

lemma numbered_anon_name: "k < 2 ^ 64 \<Longrightarrow> numbered_set_name (anon_name k)"
  using ParseUint_Itoa [of k 64] by (simp add: numbered_set_name_def anon_name_def HasPrefix_def)

lemma expr_equal_commit:
  assumes "marshal_ok M" "\<And>l. e = ELookup l \<Longrightarrow> lk_SetID l < 2 ^ 64"
  shows "expr_equal M t t e (commit_expr e)"
proof (cases "\<exists>l. e = ELookup l \<and> lk_SetName l = anonSetName")
  case True
  then obtain l where l: "e = ELookup l" "lk_SetName l = anonSetName" by blast
  have "numbered_set_name (anon_name (lk_SetID l))" using assms(2) l numbered_anon_name by blast
  with l show ?thesis
    by (simp add: expr_equal_def is_counter_def as_lookup_def commit_expr_def) (simp add: name_defs)
next
  case False
  then have "commit_expr e = e" by (auto simp: commit_expr_def split: nexpr.splits)
  with expr_equal_refl [OF assms(1)] show ?thesis by simp
qed

section \<open>Properties\<close>

text \<open>What the program queued, it recognises after the commit: a rule equals the rule the kernel
  reports for it, with its handle, its counters run up and the placeholders of its anonymous sets
  replaced by the sets' numbers.\<close>

lemma rulesEqual_readback:
  assumes "marshal_ok M"
    and "\<forall>l. ELookup l \<in> set (ru_Exprs r) \<longrightarrow> lk_SetID l < 2 ^ 64"
    and "map strip_counter (ru_Exprs r') = map strip_counter (ru_Exprs (commit_rule r))"
    and "ru_UserData r' = ru_UserData r" "ru_Table r' = ru_Table r"
  shows "rulesEqual M r r' \<and> rulesEqual M r' r"
proof -
  have one: "expr_equal M t t e e'" if "e \<in> set (ru_Exprs r)" "strip_counter e' = strip_counter (commit_expr e)" for t e e'
  proof (cases "is_counter e'")
    case True
    then have "is_counter (commit_expr e)"
      using that(2) by (auto simp: is_counter_def strip_counter_def split: nexpr.splits)
    then have "is_counter e" by (auto simp: is_counter_def commit_expr_def split: nexpr.splits if_splits)
    with True show ?thesis by (simp add: expr_equal_def)
  next
    case False
    then have "e' = commit_expr e"
      using that(2) by (auto simp: is_counter_def strip_counter_def split: nexpr.splits)
    then show ?thesis using expr_equal_commit [OF assms(1), of e t] assms(2) that(1) by blast
  qed
  have "length (ru_Exprs r') = length (ru_Exprs r)"
    using arg_cong [OF assms(3), of length] by (simp add: commit_rule_def)
  moreover have "strip_counter (ru_Exprs r' ! i) = strip_counter (commit_expr (ru_Exprs r ! i))"
    if "i < length (ru_Exprs r)" for i
    using arg_cong [OF assms(3), of "\<lambda>l. l ! i"] that calculation by (simp add: commit_rule_def)
  ultimately have eq: "list_all2 (expr_equal M (ru_Table r) (ru_Table r)) (ru_Exprs r) (ru_Exprs r')"
    using one by (auto simp: list_all2_conv_all_nth)
  then have "list_all2 (expr_equal M (ru_Table r) (ru_Table r)) (ru_Exprs r') (ru_Exprs r)"
    using expr_equal_sym by (auto simp: list_all2_conv_all_nth)
  with eq assms(4,5) show ?thesis by (simp add: rulesEqual_iff)
qed

text \<open>
  When two expressions say the same, told without the comparison: the name of a numbered set is the
  prefix, followed by a decimal number of 64 bits; two expressions agree if both are counters, if they
  are one expression, or if they are lookups that differ only in the set they name, of which one is
  the placeholder of an anonymous set and the other a numbered one.
\<close>

definition decimal :: "string \<Rightarrow> nat" where
  "decimal ds = foldl (\<lambda>n c. n * 10 + digit_value c) 0 ds"

definition set_number_name :: "string \<Rightarrow> bool" where
  "set_number_name n \<longleftrightarrow>
     (\<exists>ds. n = ''__set'' @ ds \<and> ds \<noteq> [] \<and> (\<forall>c \<in> set ds. is_digit c) \<and> decimal ds < 2 ^ 64)"

definition same_expr :: "nexpr \<Rightarrow> nexpr \<Rightarrow> bool" where
  "same_expr e e' \<longleftrightarrow>
     (\<exists>b n b' n'. e = ECounter b n \<and> e' = ECounter b' n') \<or> e = e' \<or>
     (\<exists>l l'. e = ELookup l \<and> e' = ELookup l' \<and> lk_SourceRegister l = lk_SourceRegister l' \<and>
        lk_DestRegister l = lk_DestRegister l' \<and> lk_IsDestRegSet l = lk_IsDestRegSet l' \<and>
        lk_Invert l = lk_Invert l' \<and>
        (lk_SetName l = ''__set%d'' \<and> set_number_name (lk_SetName l') \<or>
         lk_SetName l' = ''__set%d'' \<and> set_number_name (lk_SetName l)))"

lemma decimal_above: "n \<le> foldl (\<lambda>n c. n * 10 + digit_value c) n ds"
proof (induction ds arbitrary: n)
  case (Cons c ds)
  have "n \<le> n * 10 + digit_value c" by simp
  also have "\<dots> \<le> foldl (\<lambda>n c. n * 10 + digit_value c) (n * 10 + digit_value c) ds" by (rule Cons)
  finally show ?case by simp
qed simp

lemma parse_digits_decimal:
  "n \<le> maxv \<Longrightarrow> (\<exists>m. parse_digits maxv n ds = Inr m) \<longleftrightarrow>
     (\<forall>c \<in> set ds. is_digit c) \<and> foldl (\<lambda>n c. n * 10 + digit_value c) n ds \<le> maxv"
proof (induction ds arbitrary: n)
  case (Cons c ds)
  then show ?case
    using decimal_above [of "n * 10 + digit_value c" ds] by (cases "n * 10 + digit_value c \<le> maxv") auto
qed simp

lemma ParseUint_decimal:
  "(\<exists>m. ParseUint ds 64 = Inr m) \<longleftrightarrow> ds \<noteq> [] \<and> (\<forall>c \<in> set ds. is_digit c) \<and> decimal ds < 2 ^ 64"
proof -
  have "decimal ds \<le> 2 ^ 64 - 1 \<longleftrightarrow> decimal ds < 2 ^ 64" by auto
  then show ?thesis using parse_digits_decimal [of 0 "2 ^ 64 - 1" ds]
    by (simp only: ParseUint_def decimal_def) simp
qed

lemma HasPrefix_split: "HasPrefix n p \<longleftrightarrow> n = p @ drop (length p) n"
  using append_take_drop_id [of "length p" n] by (metis HasPrefix_def append_eq_conv_conj append_same_eq)

lemma numbered_set_name_iff: "numbered_set_name n \<longleftrightarrow> set_number_name n"
proof -
  define pre where "pre = ''__set''"
  have 5: "length pre = 5" by (simp add: pre_def)
  have "numbered_set_name n \<longleftrightarrow> HasPrefix n pre \<and> (\<exists>m. ParseUint (drop 5 n) 64 = Inr m)"
    by (cases "ParseUint (drop 5 n) 64") (simp_all add: numbered_set_name_def pre_def)
  also have "\<dots> \<longleftrightarrow> (\<exists>ds. n = pre @ ds \<and> (\<exists>m. ParseUint ds 64 = Inr m))"
    using HasPrefix_split [of n pre] by (metis 5 append_eq_conv_conj)
  finally show ?thesis unfolding ParseUint_decimal set_number_name_def pre_def .
qed

lemma marshal_equal_iff: "marshal_ok M \<Longrightarrow> marshal_equal M t t e1 e2 \<longleftrightarrow> e1 = e2"
proof -
  assume ok: "marshal_ok M"
  then obtain b1 b2 where "M t e1 = Inr b1" "M t e2 = Inr b2"
    unfolding marshal_ok_def by blast
  moreover have "M t e1 = M t e2 \<Longrightarrow> e1 = e2" using ok unfolding marshal_ok_def by blast
  ultimately show "marshal_equal M t t e1 e2 \<longleftrightarrow> e1 = e2" by (auto simp: marshal_equal_def)
qed

lemma as_lookup_Some: "as_lookup e = Some l \<longleftrightarrow> e = ELookup l"
  by (auto simp: as_lookup_def split: nexpr.splits)

lemma expr_equal_same_expr:
  assumes "marshal_ok M"
  shows "expr_equal M t t e e' \<longleftrightarrow> same_expr e e'"
proof (cases "is_counter e \<or> is_counter e'")
  case True
  then show ?thesis
    by (auto simp: expr_equal_def is_counter_def same_expr_def split: nexpr.splits)
next
  case no: False
  show ?thesis
  proof (cases "\<exists>l l'. e = ELookup l \<and> e' = ELookup l'")
    case True
    then obtain l l' where l: "e = ELookup l" "e' = ELookup l'" by blast
    have self: "\<not> set_number_name ''__set%d''"
      by (auto simp: set_number_name_def is_digit_def)
    show ?thesis
      using l self
      by (cases "lk_SetName l = lk_SetName l'")
        (auto simp: expr_equal_def is_counter_def as_lookup_def same_expr_def numbered_set_name_iff
          marshal_equal_iff [OF assms])
  next
    case False
    then consider "as_lookup e = None" "as_lookup e' = None" | l where "as_lookup e = Some l" "as_lookup e' = None"
      | l where "as_lookup e = None" "as_lookup e' = Some l"
      by (metis as_lookup_Some option.exhaust)
    then have "expr_equal M t t e e' \<longleftrightarrow> e = e'"
      using no by cases (auto simp: expr_equal_def marshal_equal_iff [OF assms])
    moreover have "same_expr e e' \<longleftrightarrow> e = e'"
      using no False by (auto simp: same_expr_def is_counter_def)
    ultimately show ?thesis by simp
  qed
qed

lemma rulesEqual_same_exprs:
  assumes "marshal_ok M" "ru_Table r' = ru_Table r"
  shows "rulesEqual M r r' \<longleftrightarrow> ru_UserData r = ru_UserData r' \<and> list_all2 same_expr (ru_Exprs r) (ru_Exprs r')"
proof -
  have "expr_equal M t t = same_expr" for t by (intro ext) (rule expr_equal_same_expr [OF assms(1)])
  with assms(2) show ?thesis by (simp add: rulesEqual_iff)
qed

lemma rulesEqual_sym: "rulesEqual M r r' \<longleftrightarrow> rulesEqual M r' r"
  by (auto simp: rulesEqual_iff list_all2_conv_all_nth expr_equal_sym)

text \<open>C10: When two rules of a table are the same. They are exactly if their user data is the same and
  their expressions agree one by one: both counters, whatever they count; or the same expression, the
  verdict included; or lookups with the same registers and the same sense, where one names the
  placeholder of an anonymous set and the other a set numbered by the kernel. The comparison is
  symmetric for every two rules, so it does not matter on which side the rule that was read stands;
  and what the program queued it recognises after the commit: a rule equals the rule that the kernel
  reports for it, with its counters run up and the placeholders of its anonymous sets replaced by the
  sets' numbers.\<close>

theorem rulesEqual_correct:
  assumes "marshal_ok M" "ru_Table r' = ru_Table r"
  shows "(rulesEqual M r r' \<longleftrightarrow>
      ru_UserData r = ru_UserData r' \<and> list_all2 same_expr (ru_Exprs r) (ru_Exprs r')) \<and>
    (\<forall>q q'. rulesEqual M q q' = rulesEqual M q' q) \<and>
    (ru_UserData r' = ru_UserData r \<and>
     map strip_counter (ru_Exprs r') = map strip_counter (ru_Exprs (commit_rule r)) \<and>
     (\<forall>l. ELookup l \<in> set (ru_Exprs r) \<longrightarrow> lk_SetID l < 2 ^ 64) \<longrightarrow> rulesEqual M r r')"
  using rulesEqual_same_exprs [OF assms] rulesEqual_sym rulesEqual_readback [OF assms(1) _ _ _ assms(2)]
  by blast

section \<open>A marshaller for examples\<close>

text \<open>Every expression gets its own byte string, by a self-delimiting unary code.\<close>

fun enc_nat :: "nat \<Rightarrow> byte list" where
  "enc_nat 0 = [0]"
| "enc_nat (Suc n) = 1 # enc_nat n"

fun enc_list :: "('a \<Rightarrow> byte list) \<Rightarrow> 'a list \<Rightarrow> byte list" where
  "enc_list f [] = [0]"
| "enc_list f (x # xs) = 1 # f x @ enc_list f xs"

lemma enc_nat_free: "enc_nat m @ r = enc_nat n @ s \<longleftrightarrow> m = n \<and> r = s"
proof (induction m arbitrary: n)
  case 0
  then show ?case by (cases n) auto
next
  case (Suc m)
  then show ?case by (cases n) auto
qed

lemma enc_list_free:
  assumes "\<And>x y r s. f x @ r = f y @ s \<longleftrightarrow> x = y \<and> r = s"
  shows "enc_list f xs @ r = enc_list f ys @ s \<longleftrightarrow> xs = ys \<and> r = s"
proof (induction xs arbitrary: ys)
  case Nil
  then show ?case by (cases ys) auto
next
  case (Cons x xs)
  then show ?case by (cases ys) (auto simp: assms)
qed

definition char_codes :: "string \<Rightarrow> nat list" where "char_codes s = map of_char s"

lemma char_codes_inj [simp]: "char_codes s = char_codes t \<longleftrightarrow> s = t"
  by (simp add: char_codes_def inj_map_eq_map inj_def)

definition byte_codes :: "byte list \<Rightarrow> nat list" where "byte_codes bs = map unat bs"

lemma byte_codes_inj [simp]: "byte_codes s = byte_codes t \<longleftrightarrow> s = t"
proof -
  have "inj (unat :: byte \<Rightarrow> nat)" by (rule injI) (simp add: word_unat_eq_iff)
  then show ?thesis by (simp add: byte_codes_def inj_map_eq_map)
qed

definition bool_code :: "bool \<Rightarrow> nat" where "bool_code b = (if b then 1 else 0)"

lemma bool_code_inj [simp]: "bool_code a = bool_code b \<longleftrightarrow> a = b"
  by (simp add: bool_code_def)

definition op_code :: "payload_op \<Rightarrow> nat" where
  "op_code p = (case p of PayloadLoad \<Rightarrow> 0 | PayloadWrite \<Rightarrow> 1)"

definition base_code :: "payload_base \<Rightarrow> nat" where
  "base_code b = (case b of PayloadBaseLLHeader \<Rightarrow> 0 | PayloadBaseNetworkHeader \<Rightarrow> 1
     | PayloadBaseTransportHeader \<Rightarrow> 2)"

definition cmp_code :: "cmp_op \<Rightarrow> nat" where
  "cmp_code c = (case c of CmpOpEq \<Rightarrow> 0 | CmpOpNeq \<Rightarrow> 1 | CmpOpLt \<Rightarrow> 2 | CmpOpLte \<Rightarrow> 3
     | CmpOpGt \<Rightarrow> 4 | CmpOpGte \<Rightarrow> 5)"

lemma code_inj [simp]:
  "op_code a = op_code b \<longleftrightarrow> a = b" "base_code c = base_code d \<longleftrightarrow> c = d" "cmp_code e = cmp_code f \<longleftrightarrow> e = f"
  by (auto simp: op_code_def base_code_def cmp_code_def split: payload_op.splits payload_base.splits cmp_op.splits)

definition int_codes :: "int \<Rightarrow> nat list" where
  "int_codes i = [bool_code (i < 0), nat \<bar>i\<bar>]"

lemma int_codes_inj [simp]: "int_codes i = int_codes j \<longleftrightarrow> i = j"
  by (auto simp: int_codes_def)

definition meta_code :: "meta_key \<Rightarrow> nat" where
  "meta_code k = (case k of MetaKeyL4PROTO \<Rightarrow> 0 | MetaKeyOther n \<Rightarrow> Suc n)"

definition ct_code :: "ct_key \<Rightarrow> nat" where
  "ct_code k = (case k of CtKeySTATE \<Rightarrow> 0 | CtKeyOther n \<Rightarrow> Suc n)"

lemma key_code_inj [simp]:
  "meta_code a = meta_code b \<longleftrightarrow> a = b" "ct_code c = ct_code d \<longleftrightarrow> c = d"
  by (auto simp: meta_code_def ct_code_def split: meta_key.splits ct_key.splits)

fun expr_codes :: "nexpr \<Rightarrow> nat list list" where
  "expr_codes (ECounter b p) = [[0], [b, p]]"
| "expr_codes (EPayload e) = [[1], [op_code (pl_OperationType e), pl_DestRegister e, pl_SourceRegister e,
     base_code (pl_Base e), pl_Offset e, pl_Len e]]"
| "expr_codes (ECmp e) = [[2], [cmp_code (cm_Op e), cm_Register e], byte_codes (cm_Data e)]"
| "expr_codes (ELookup l) = [[3], [lk_SourceRegister l, lk_DestRegister l, bool_code (lk_IsDestRegSet l),
     lk_SetID l, bool_code (lk_Invert l)], char_codes (lk_SetName l)]"
| "expr_codes (EMeta e) = [[4], [meta_code (me_Key e), bool_code (me_SourceRegister e), me_Register e]]"
| "expr_codes (EBitwise e) = [[5], [bw_SourceRegister e, bw_DestRegister e, bw_Len e],
     byte_codes (bw_Mask e), byte_codes (bw_Xor e)]"
| "expr_codes (ECt e) = [[6], [ct_code (cx_Key e), bool_code (cx_SourceRegister e), cx_Register e]]"
| "expr_codes (ELog e) = [[7], [lg_Key e, lg_Level e], char_codes (lg_Data e)]"
| "expr_codes (EQueue n) = [[8], [n]]"
| "expr_codes (EVerdict v) = [[9], int_codes (vd_Kind v), char_codes (vd_Chain v)]"
| "expr_codes (EOther s) = [[10], char_codes s]"

lemma expr_codes_inj: "expr_codes a = expr_codes b \<Longrightarrow> a = b"
  by (cases a; cases b) auto

definition ref_marshal :: marshaller where
  "ref_marshal t e = Inr (enc_list (enc_list enc_nat) (expr_codes e))"

lemma ref_marshal_ok: "marshal_ok ref_marshal"
proof -
  have inner: "enc_list enc_nat xs @ r = enc_list enc_nat ys @ s \<longleftrightarrow> xs = ys \<and> r = s" for xs ys r s
    by (rule enc_list_free [OF enc_nat_free])
  have "enc_list (enc_list enc_nat) xs = enc_list (enc_list enc_nat) ys \<longleftrightarrow> xs = ys" for xs ys
    using enc_list_free [of "enc_list enc_nat" xs "[]" ys "[]", OF inner] by simp
  then show ?thesis using expr_codes_inj by (auto simp: marshal_ok_def ref_marshal_def)
qed

definition lookup_rule :: nft_rule where
  "lookup_rule = \<lparr>ru_Table = Some filterTable, ru_Chain = whalewallChain,
     ru_Exprs = [getAddrExpr 12,
       ELookup \<lparr>lk_SourceRegister = 1, lk_DestRegister = 0, lk_IsDestRegSet = False, lk_SetID = 3,
         lk_SetName = anonSetName, lk_Invert = False\<rparr>, ECounter 0 0, dropVerdict],
     ru_UserData = ''x'', ru_Handle = 0\<rparr>"

definition lookup_rule_read :: nft_rule where
  "lookup_rule_read = \<lparr>ru_Table = Some filterTable, ru_Chain = whalewallChain,
     ru_Exprs = [getAddrExpr 12,
       ELookup \<lparr>lk_SourceRegister = 1, lk_DestRegister = 0, lk_IsDestRegSet = False, lk_SetID = 0,
         lk_SetName = ''__set3'', lk_Invert = False\<rparr>, ECounter 840 10, dropVerdict],
     ru_UserData = ''x'', ru_Handle = 17\<rparr>"

lemma anon_name_3: "anon_name 3 = ''__set3''"
  by (simp add: anon_name_def Itoa.simps digit_char_def char_of_eq_iff)

text \<open>The same lookup with its sense inverted, the same rule with another verdict and the same rule
  of another owner.\<close>

definition lookup_rule_inverted :: nft_rule where
  "lookup_rule_inverted = lookup_rule_read\<lparr>ru_Exprs := [getAddrExpr 12,
       ELookup \<lparr>lk_SourceRegister = 1, lk_DestRegister = 0, lk_IsDestRegSet = False, lk_SetID = 0,
         lk_SetName = ''__set3'', lk_Invert = True\<rparr>, ECounter 840 10, dropVerdict]\<rparr>"

definition lookup_rule_accept :: nft_rule where
  "lookup_rule_accept = lookup_rule_read\<lparr>ru_Exprs := butlast (ru_Exprs lookup_rule_read) @
     [EVerdict \<lparr>vd_Kind = VerdictAccept, vd_Chain = []\<rparr>]\<rparr>"

theorem rulesEqual_correct_witness:
  "rulesEqual ref_marshal lookup_rule lookup_rule_read \<and> rulesEqual ref_marshal lookup_rule_read lookup_rule \<and>
   \<not> rulesEqual ref_marshal lookup_rule lookup_rule_inverted \<and>
   \<not> rulesEqual ref_marshal lookup_rule lookup_rule_accept \<and>
   \<not> rulesEqual ref_marshal lookup_rule (lookup_rule_read\<lparr>ru_UserData := ''y''\<rparr>)"
proof -
  note same = rulesEqual_correct [OF ref_marshal_ok]
  note d = lookup_rule_def lookup_rule_read_def
  have "\<forall>l. ELookup l \<in> set (ru_Exprs lookup_rule) \<longrightarrow> lk_SetID l < 2 ^ 64"
    by (auto simp: lookup_rule_def getAddrExpr_def dropVerdict_def)
  moreover have "map strip_counter (ru_Exprs lookup_rule_read) = map strip_counter (ru_Exprs (commit_rule lookup_rule))"
    by (simp add: d commit_rule_def commit_expr_def strip_counter_def
        getAddrExpr_def dropVerdict_def anon_name_3)
  ultimately have "rulesEqual ref_marshal lookup_rule lookup_rule_read"
    using same [of lookup_rule_read lookup_rule] by (auto simp: d)
  moreover have "\<not> rulesEqual ref_marshal lookup_rule lookup_rule_inverted"
    using same [of lookup_rule_inverted lookup_rule] by (auto simp: d lookup_rule_inverted_def same_expr_def)
  moreover have "\<not> rulesEqual ref_marshal lookup_rule lookup_rule_accept"
    using same [of lookup_rule_accept lookup_rule]
    by (auto simp: d lookup_rule_accept_def same_expr_def dropVerdict_def VerdictDrop_def VerdictAccept_def)
  moreover have "\<not> rulesEqual ref_marshal lookup_rule (lookup_rule_read\<lparr>ru_UserData := ''y''\<rparr>)"
    using same [of "lookup_rule_read\<lparr>ru_UserData := ''y''\<rparr>" lookup_rule] by (auto simp: d)
  ultimately show ?thesis
    using same [of lookup_rule_read lookup_rule] by (auto simp: d)
qed

end
