(* ===== verification/Address_Map.thy ===== *)
theory Address_Map
  imports Rules_Equal
begin

text \<open>
  Ownership: how container chains are named, which chains and set elements the program accepts as
  its own, and the verdict map that sends a container's address to its chain (\<open>create.go\<close>,
  \<open>base.go\<close>). The netlink attribute decoder, a library, is the parameter
  \<open>netlink_lib\<close>: the attributes of a value, the reading of a big-endian 32-bit payload, and the
  reading of a string. Chain and set pointers the library returns are never nil.
\<close>

section \<open>Chain names\<close>

definition buildChainName :: "string \<Rightarrow> string \<Rightarrow> string" where
  "buildChainName name cid = chainPrefix @ cid"

definition lower_hex :: "char \<Rightarrow> bool" where
  "lower_hex c \<longleftrightarrow> byte_in c 48 57 \<or> byte_in c 97 102"

lemma lower_hex_code [code]:
  "lower_hex (Char b0 b1 b2 b3 b4 b5 b6 b7) \<longleftrightarrow> \<not> b7 \<and> b5 \<and>
     (if b4 then \<not> b6 \<and> \<not> (b3 \<and> (b2 \<or> b1)) else b6 \<and> \<not> b3 \<and> (b2 \<or> b1 \<or> b0) \<and> \<not> (b2 \<and> b1 \<and> b0))"
  by (cases b0; cases b1; cases b2; cases b3; cases b4; cases b5; cases b6; cases b7)
    (simp_all add: lower_hex_def byte_in_def)

definition containerIDFromChainName :: "string \<Rightarrow> string result" where
  "containerIDFromChainName name =
     (if \<not> HasPrefix name chainPrefix then Inl (Msg ''missing prefix'')
      else let cid = TrimPrefix name chainPrefix in
        if length cid \<noteq> 64 then Inl (Msg ''container ID has wrong length'')
        else if list_ex (\<lambda>c. \<not> lower_hex c) cid then Inl (Msg ''container ID contains non-lowercase-hex byte'')
        else Inr cid)"

definition container_id :: "string \<Rightarrow> bool" where
  "container_id cid \<longleftrightarrow> length cid = 64 \<and> list_all lower_hex cid"

lemma containerIDFromChainName_iff:
  "containerIDFromChainName name = Inr cid \<longleftrightarrow> container_id cid \<and> name = chainPrefix @ cid"
proof -
  have "TrimPrefix name chainPrefix = cid \<and> HasPrefix name chainPrefix \<longleftrightarrow> name = chainPrefix @ cid"
    using HasPrefixD [of name chainPrefix] by (auto simp: TrimPrefix_def)
  then show ?thesis
    by (auto simp: containerIDFromChainName_def Let_def container_id_def list_ex_iff list_all_iff)
qed

lemma containerID_chain: "containerIDFromChainName name = Inr cid \<Longrightarrow> HasPrefix name chainPrefix"
  by (auto simp: containerIDFromChainName_iff)

section \<open>Chains\<close>

definition validateRegularOwnedChain :: "nft_chain \<Rightarrow> error option" where
  "validateRegularOwnedChain chain =
     (if (case ch_Table chain of None \<Rightarrow> True
          | Some t \<Rightarrow> t_Name t \<noteq> filterTableName \<or> t_Family t \<noteq> TableFamilyIPv4)
      then Some (Msg ''chain is not in the IPv4 filter table'')
      else if ch_Hooknum chain \<noteq> None \<or> ch_Priority chain \<noteq> None \<or> ch_Policy chain \<noteq> None \<or> ch_Device chain \<noteq> []
      then Some (Msg ''chain must be regular and unhooked'')
      else if ch_Type chain \<noteq> [] \<and> ch_Type chain \<noteq> ChainTypeFilter
      then Some (Msg ''chain has incompatible type'')
      else None)"

lemma regular_chain_valid [simp]: "validateRegularOwnedChain (regular_chain n) = None"
  by (simp add: validateRegularOwnedChain_def filterTable_def)

lemma validateRegular_table: "validateRegularOwnedChain ch = None \<Longrightarrow> ch_Table ch = Some filterTable"
  by (cases "ch_Table ch") (auto simp: validateRegularOwnedChain_def filterTable_def split: if_splits)

section \<open>The address map\<close>

definition containerAddressSet :: nft_set where
  "containerAddressSet = (zero_set (Some filterTable))\<lparr>s_Name := containerAddrSetName, s_IsMap := True,
     s_KeyType := TypeIPAddr, s_DataType := TypeVerdict\<rparr>"

definition containerAddressSetSchemaEqual :: "nft_set \<Rightarrow> nft_set \<Rightarrow> bool" where
  "containerAddressSetSchemaEqual a b =
     (case (s_Table a, s_Table b) of
        (Some ta, Some tb) \<Rightarrow>
          (let keyTypeEqual = dt_nftMagic (s_KeyType a) = dt_nftMagic (s_KeyType b) \<and>
                 dt_Bytes (s_KeyType a) = dt_Bytes (s_KeyType b);
               dataTypeEqual = dt_nftMagic (s_DataType a) = dt_nftMagic (s_DataType b) \<and>
                 (dt_nftMagic (s_DataType b) = dt_nftMagic TypeVerdict \<or>
                  dt_Bytes (s_DataType a) = dt_Bytes (s_DataType b))
           in t_Name ta = t_Name tb \<and> t_Family ta = t_Family tb \<and>
              s_IsMap a = s_IsMap b \<and> keyTypeEqual \<and> dataTypeEqual \<and>
              s_Anonymous a = s_Anonymous b \<and> s_Constant a = s_Constant b \<and> s_Interval a = s_Interval b \<and>
              \<not> s_Dynamic a \<and> \<not> s_Dynamic b \<and> \<not> s_HasTimeout a \<and> \<not> s_HasTimeout b \<and>
              \<not> s_Concatenation a \<and> \<not> s_Concatenation b)
      | _ \<Rightarrow> False)"

lemma containerAddressSet_sel [simp]:
  "s_Table containerAddressSet = Some filterTable" "s_Name containerAddressSet = containerAddrSetName"
  "s_Anonymous containerAddressSet = False" "s_Interval containerAddressSet = False"
  by (simp_all add: containerAddressSet_def zero_set_def)

lemma containerAddressSet_schema [simp]:
  "containerAddressSetSchemaEqual containerAddressSet containerAddressSet"
  by (simp add: containerAddressSetSchemaEqual_def containerAddressSet_def zero_set_def)

section \<open>Verdicts of the address map\<close>

record netlink_lib =
  nl_Attributes :: "byte list \<Rightarrow> (nat \<times> byte list) list result"
  nl_Uint32 :: "byte list \<Rightarrow> u32 result"
  nl_String :: "byte list \<Rightarrow> string"

definition NFTA_VERDICT_CODE :: nat where "NFTA_VERDICT_CODE = 1"
definition NFTA_VERDICT_CHAIN :: nat where "NFTA_VERDICT_CHAIN = 2"

text \<open>The decoding loop; a payload that cannot be read ends it and surfaces as the decoder's error.\<close>

fun decode_verdict ::
    "netlink_lib \<Rightarrow> bool \<Rightarrow> bool \<Rightarrow> verdict_expr \<Rightarrow> (nat \<times> byte list) list \<Rightarrow> verdict_expr result" where
  "decode_verdict N haveCode haveChain v [] =
     (if \<not> haveCode \<or> \<not> haveChain then Inl (Msg ''verdict code or chain is missing'') else Inr v)"
| "decode_verdict N haveCode haveChain v ((t, data) # attrs) =
     (if t = NFTA_VERDICT_CODE then
        (if haveCode then Inl (Msg ''duplicate verdict code'')
         else (case nl_Uint32 N data of
             Inl e \<Rightarrow> Inl (Wrap ''decode verdict attributes'' e)
           | Inr w \<Rightarrow> decode_verdict N True haveChain (v\<lparr>vd_Kind := sint w\<rparr>) attrs))
      else if t = NFTA_VERDICT_CHAIN then
        (if haveChain then Inl (Msg ''duplicate verdict chain'')
         else decode_verdict N haveCode True (v\<lparr>vd_Chain := nl_String N data\<rparr>) attrs)
      else Inl (Msg ''unexpected verdict attribute''))"

definition containerMappingVerdict :: "netlink_lib \<Rightarrow> set_element \<Rightarrow> verdict_expr result" where
  "containerMappingVerdict N element =
     (let decoded =
        (case el_VerdictData element of
           Some v \<Rightarrow> Inr v
         | None \<Rightarrow>
             if el_Val element = [] then Inl (Msg ''verdict data is missing'')
             else (case nl_Attributes N (el_Val element) of
                 Inl e \<Rightarrow> Inl (Wrap ''decode verdict attributes'' e)
               | Inr attrs \<Rightarrow> decode_verdict N False False \<lparr>vd_Kind = 0, vd_Chain = []\<rparr> attrs))
      in case decoded of
           Inl e \<Rightarrow> Inl e
         | Inr verdict \<Rightarrow>
             if vd_Kind verdict \<noteq> VerdictGoto then Inl (Msg ''verdict kind is not GOTO'')
             else (case containerIDFromChainName (vd_Chain verdict) of
                 Inl e \<Rightarrow> Inl (Wrap ''verdict target is not a canonical owned container chain'' e)
               | Inr _ \<Rightarrow> Inr verdict))"

lemma containerMappingVerdict_owned:
  assumes "containerMappingVerdict N element = Inr v"
  shows "vd_Kind v = VerdictGoto \<and> (\<exists>cid. containerIDFromChainName (vd_Chain v) = Inr cid)"
  using assms by (auto simp: containerMappingVerdict_def Let_def split: sum.splits if_splits)

lemma containerMappingVerdict_data:
  "el_VerdictData element = Some v \<Longrightarrow> containerMappingVerdict N element = Inr w \<Longrightarrow> w = v"
  by (auto simp: containerMappingVerdict_def Let_def split: sum.splits if_splits)

definition verdictSetElementsEqual :: "set_element \<Rightarrow> set_element \<Rightarrow> bool" where
  "verdictSetElementsEqual a b =
     (if el_Key a \<noteq> el_Key b \<or> (el_VerdictData a = None) \<noteq> (el_VerdictData b = None) then False
      else (case (el_VerdictData a, el_VerdictData b) of
          (Some v, Some w) \<Rightarrow> vd_Kind v = vd_Kind w \<and> vd_Chain v = vd_Chain w
        | _ \<Rightarrow> True))"

lemma verdictSetElementsEqual_iff:
  "verdictSetElementsEqual a b \<longleftrightarrow> el_Key a = el_Key b \<and> el_VerdictData a = el_VerdictData b"
  by (cases "el_VerdictData a"; cases "el_VerdictData b") (auto simp: verdictSetElementsEqual_def)

section \<open>Properties\<close>

text \<open>Ownership is read off a chain's name exactly: the name of a container's chain gives back
  the id, whatever Docker name the container has, and only names made of the prefix and 64
  lower-case hexadecimal digits are accepted at all.\<close>

theorem chain_name_ownership:
  "(containerIDFromChainName chain = Inr cid \<longleftrightarrow>
      (length cid = 64 \<and> list_all lower_hex cid) \<and> chain = buildChainName name cid)"
  by (simp add: containerIDFromChainName_iff container_id_def buildChainName_def)

text \<open>What a raw verdict must be: one code and one chain, in either order, and nothing else.\<close>

definition encodes_verdict :: "netlink_lib \<Rightarrow> byte list \<Rightarrow> verdict_expr \<Rightarrow> bool" where
  "encodes_verdict N bs v \<longleftrightarrow>
     (\<exists>code chain w. nl_Attributes N bs \<in>
          {Inr [(NFTA_VERDICT_CODE, code), (NFTA_VERDICT_CHAIN, chain)],
           Inr [(NFTA_VERDICT_CHAIN, chain), (NFTA_VERDICT_CODE, code)]} \<and>
        nl_Uint32 N code = Inr w \<and> vd_Kind v = sint w \<and> vd_Chain v = nl_String N chain)"

lemma decode_verdict_full: "decode_verdict N True True v attrs = Inr v' \<longleftrightarrow> attrs = [] \<and> v' = v"
  by (cases attrs) (auto split: if_splits)

lemma verdict_attributes_differ [simp]:
  "NFTA_VERDICT_CODE \<noteq> NFTA_VERDICT_CHAIN" "NFTA_VERDICT_CHAIN \<noteq> NFTA_VERDICT_CODE"
  by (simp_all add: NFTA_VERDICT_CODE_def NFTA_VERDICT_CHAIN_def)

lemma decode_verdict_code:
  "decode_verdict N True False v attrs = Inr v' \<longleftrightarrow>
     (\<exists>chain. attrs = [(NFTA_VERDICT_CHAIN, chain)] \<and> v' = v\<lparr>vd_Chain := nl_String N chain\<rparr>)"
  by (cases attrs) (auto simp: decode_verdict_full split: if_splits)

lemma decode_verdict_chain:
  "decode_verdict N False True v attrs = Inr v' \<longleftrightarrow>
     (\<exists>code w. attrs = [(NFTA_VERDICT_CODE, code)] \<and> nl_Uint32 N code = Inr w \<and> v' = v\<lparr>vd_Kind := sint w\<rparr>)"
  by (cases attrs)
    (auto simp: decode_verdict_full split: if_splits sum.splits)

lemma decode_verdict_iff:
  "decode_verdict N False False v attrs = Inr v' \<longleftrightarrow>
     (\<exists>code chain w. (attrs = [(NFTA_VERDICT_CODE, code), (NFTA_VERDICT_CHAIN, chain)] \<or>
          attrs = [(NFTA_VERDICT_CHAIN, chain), (NFTA_VERDICT_CODE, code)]) \<and>
        nl_Uint32 N code = Inr w \<and> v' = v\<lparr>vd_Kind := sint w, vd_Chain := nl_String N chain\<rparr>)"
  by (cases attrs)
    (auto simp: decode_verdict_code decode_verdict_chain split: if_splits sum.splits)

lemma verdict_expr_eqI: "vd_Kind v = k \<Longrightarrow> vd_Chain v = c \<Longrightarrow> v = w\<lparr>vd_Kind := k, vd_Chain := c\<rparr>" for v w :: verdict_expr
  by (cases v; cases w) simp

lemma decoded_verdict_iff:
  "(\<exists>attrs. nl_Attributes N bs = Inr attrs \<and> decode_verdict N False False w attrs = Inr v) \<longleftrightarrow>
     encodes_verdict N bs v"
  unfolding decode_verdict_iff encodes_verdict_def by (auto intro!: verdict_expr_eqI)

lemma containerMappingVerdict_split:
  "containerMappingVerdict N element = Inr v \<longleftrightarrow>
     (el_VerdictData element = Some v \<or>
      el_VerdictData element = None \<and> el_Val element \<noteq> [] \<and> encodes_verdict N (el_Val element) v) \<and>
     vd_Kind v = VerdictGoto \<and> (\<exists>cid. containerIDFromChainName (vd_Chain v) = Inr cid)"
  using decoded_verdict_iff [of N "el_Val element" "\<lparr>vd_Kind = 0, vd_Chain = []\<rparr>" v]
  by (cases "el_VerdictData element"; cases "nl_Attributes N (el_Val element)")
    (auto simp: containerMappingVerdict_def Let_def split: sum.splits if_splits)

text \<open>C17: Which mappings of the address map the program accepts, exactly: those whose verdict, given
  decoded or as raw attributes, is a GOTO to the chain of one container id, 64 lower-case hexadecimal
  digits behind the prefix. Raw attributes must be exactly one readable code and one chain, in either
  order. Anything else in the map (a jump, an accept, a chain with a legacy name, a missing, duplicated
  or unknown attribute) is refused, and what is accepted is the verdict the element holds.\<close>

theorem mapping_verdict_owned:
  "containerMappingVerdict N element = Inr v \<longleftrightarrow>
     (el_VerdictData element = Some v \<or>
      el_VerdictData element = None \<and> el_Val element \<noteq> [] \<and> encodes_verdict N (el_Val element) v) \<and>
     vd_Kind v = VerdictGoto \<and>
     (\<exists>cid. length cid = 64 \<and> list_all lower_hex cid \<and> vd_Chain v = buildChainName name cid)"
  unfolding containerMappingVerdict_split
  by (auto simp: containerIDFromChainName_iff container_id_def buildChainName_def)

definition sample_id :: string where "sample_id = replicate 64 (CHR ''a'')"

lemma sample_id_ok [simp]: "container_id sample_id" "length sample_id = 64"
  by (auto simp: container_id_def sample_id_def list_all_iff lower_hex_def byte_in_def)

lemma sample_chain_ok: "containerIDFromChainName (buildChainName n sample_id) = Inr sample_id"
  by (simp add: containerIDFromChainName_iff buildChainName_def)

text \<open>A decoder for examples: one byte of type, one of length, and the payload.\<close>

definition ref_attributes :: "byte list \<Rightarrow> (nat \<times> byte list) list result" where
  "ref_attributes bs = Inr [(1, take 4 bs), (2, drop 4 bs)]"

definition ref_netlink :: netlink_lib where
  "ref_netlink = \<lparr>nl_Attributes = ref_attributes,
     nl_Uint32 = (\<lambda>bs. if length bs = 4 then Inr (be_uint32 bs) else Inl (Msg ''invalid length'')),
     nl_String = map (\<lambda>b. char_of (unat b))\<rparr>"

definition raw_element :: set_element where
  "raw_element = (key_element (be32 167772162))\<lparr>el_Val :=
     be32 (word_of_int (-4)) @ map (\<lambda>c. of_nat (of_char c)) (buildChainName [] sample_id)\<rparr>"

lemma bytes_of_string:
  "map (\<lambda>b :: byte. char_of (unat b)) (map (\<lambda>c. of_nat (of_char c)) s) = s"
proof -
  have "unat (of_nat (of_char c) :: byte) = of_char c" for c :: char
    by (simp add: unat_of_nat)
  then show ?thesis by (simp add: comp_def map_idI)
qed

text \<open>A decoder that reports the code twice.\<close>

definition twice_netlink :: netlink_lib where
  "twice_netlink = ref_netlink\<lparr>nl_Attributes := \<lambda>bs. Inr [(1, take 4 bs), (1, take 4 bs), (2, drop 4 bs)]\<rparr>"

lemma raw_element_encodes:
  "encodes_verdict ref_netlink (el_Val raw_element) \<lparr>vd_Kind = VerdictGoto, vd_Chain = buildChainName [] sample_id\<rparr>"
  using bytes_of_string [of "buildChainName [] sample_id"]
  by (simp add: encodes_verdict_def raw_element_def key_element_def ref_netlink_def ref_attributes_def
      NFTA_VERDICT_CODE_def NFTA_VERDICT_CHAIN_def verdict_kinds)

theorem mapping_verdict_owned_witness:
  "containerMappingVerdict ref_netlink raw_element =
     Inr \<lparr>vd_Kind = VerdictGoto, vd_Chain = buildChainName [] sample_id\<rparr> \<and>
   (\<forall>v. containerMappingVerdict twice_netlink raw_element \<noteq> Inr v)"
proof -
  have none: "el_VerdictData raw_element = None" "el_Val raw_element \<noteq> []"
    by (simp_all add: raw_element_def key_element_def buildChainName_def name_defs)
  then have "containerMappingVerdict ref_netlink raw_element =
     Inr \<lparr>vd_Kind = VerdictGoto, vd_Chain = buildChainName [] sample_id\<rparr>"
    using mapping_verdict_owned [of ref_netlink raw_element _ "[]"] raw_element_encodes sample_id_ok
    unfolding container_id_def by (auto intro!: exI [of _ sample_id])
  moreover have "\<not> encodes_verdict twice_netlink (el_Val raw_element) v" for v
    by (simp add: encodes_verdict_def twice_netlink_def)
  ultimately show ?thesis
    using mapping_verdict_owned [of twice_netlink raw_element _ "[]"] none by simp
qed

end
