(* ===== verification/Edit_Specs.thy ===== *)
theory Edit_Specs
  imports Firewall_Client
begin

text \<open>
  Edits of the kernel's ruleset, by the specifications of \<open>Steps\<close>: what the single edits and the
  loops over rules do to the staged ruleset, and \<open>flush_spec\<close>, which turns the specification of a
  sequence of edits into the effect of a batch.
\<close>

definition delete_rules :: "'c firewallClient \<Rightarrow> nft_rule list \<Rightarrow> 'c \<Rightarrow> 'c \<times> error option" where
  "delete_rules F rules c = st_each (fc_DelRule F) rules c"

text \<open>Rules added, or inserted at the head, one after the other.\<close>

definition add_rules :: "'c firewallClient \<Rightarrow> nft_rule list \<Rightarrow> 'c \<Rightarrow> 'c" where
  "add_rules F rules c = fold (fc_AddRule F) rules c"

definition insert_rules :: "'c firewallClient \<Rightarrow> nft_rule list \<Rightarrow> 'c \<Rightarrow> 'c" where
  "insert_rules F rules c = fold (fc_InsertRule F) rules c"

definition flush_wrap :: "string \<Rightarrow> 'c firewallClient \<Rightarrow> 'c \<Rightarrow> 'c \<times> error option" where
  "flush_wrap msg F c =
     (case fc_Flush F c of (c, Some e) \<Rightarrow> (c, Some (Wrap msg e)) | (c, None) \<Rightarrow> (c, None))"

section \<open>Handles\<close>

lemma remove_first_handle:
  "distinct (map ru_Handle rules) \<Longrightarrow>
   remove_first (same_handle d) rules = filter (\<lambda>r. ru_Handle r \<noteq> ru_Handle d) rules"
proof (induction rules)
  case (Cons r rules)
  show ?case
  proof (cases "ru_Handle r = ru_Handle d")
    case True
    then have "\<forall>x \<in> set rules. ru_Handle x \<noteq> ru_Handle d" using Cons.prems by (auto simp: image_iff)
    then have "filter (\<lambda>r. ru_Handle r \<noteq> ru_Handle d) rules = rules" by (simp add: filter_id_conv)
    with True show ?thesis by (simp add: same_handle_def)
  next
    case False
    with Cons show ?thesis by (auto simp: same_handle_def)
  qed
qed simp

definition remove_handles :: "nft_rule list \<Rightarrow> nft_rule list \<Rightarrow> nft_rule list" where
  "remove_handles ds rules = filter (\<lambda>r. ru_Handle r \<notin> ru_Handle ` set ds) rules"

lemma remove_handles_simps:
  "remove_handles [] rules = rules"
  "remove_handles (d # ds) rules = remove_handles ds (filter (\<lambda>r. ru_Handle r \<noteq> ru_Handle d) rules)"
  by (auto simp: remove_handles_def intro: filter_cong)

lemma distinct_filter_handles: "distinct (map ru_Handle rules) \<Longrightarrow> distinct (map ru_Handle (filter P rules))"
  by (simp add: distinct_map_filter)

lemma remove_handles_filter:
  assumes "distinct (map ru_Handle rules)"
  shows "remove_handles (filter P rules) rules = filter (\<lambda>r. \<not> P r) rules"
  unfolding remove_handles_def
proof (rule filter_cong [OF refl])
  fix r assume r: "r \<in> set rules"
  have "inj_on ru_Handle (set rules)" using assms by (simp add: distinct_map)
  then have "ru_Handle r \<in> ru_Handle ` set (filter P rules) \<longleftrightarrow> P r"
    using r by (auto simp: inj_on_def)
  then show "(ru_Handle r \<notin> ru_Handle ` set (filter P rules)) = (\<not> P r)" by simp
qed

section \<open>Edits of one chain\<close>

text \<open>Nothing but chain \<open>n\<close> changes, and no named set; \<open>g\<close> says what becomes of its rules.\<close>

definition frame :: "string set \<Rightarrow> ruleset \<Rightarrow> ruleset \<Rightarrow> bool" where
  "frame N rs rs' \<longleftrightarrow>
     (\<forall>m. m \<notin> N \<longrightarrow> rs_chains rs' m = rs_chains rs m) \<and>
     (\<forall>s. \<not> is_anon_name s \<longrightarrow> rs_sets rs' s = rs_sets rs s)"

lemma frame_refl [simp]: "frame N rs rs"
  by (simp add: frame_def)

lemma frame_trans: "frame N a b \<Longrightarrow> frame N' b c \<Longrightarrow> frame (N \<union> N') a c"
  by (simp add: frame_def)

lemma frame_mono: "frame N a b \<Longrightarrow> N \<subseteq> N' \<Longrightarrow> frame N' a b"
  by (auto simp: frame_def)

lemma frame_chain: "frame N a b \<Longrightarrow> n \<notin> N \<Longrightarrow> rs_chains b n = rs_chains a n"
  by (simp add: frame_def)

lemma frame_set: "frame N a b \<Longrightarrow> \<not> is_anon_name n \<Longrightarrow> rs_sets b n = rs_sets a n"
  by (simp add: frame_def)

lemma rs_AddRule_effect:
  "rs_AddRule h r a = Some b \<Longrightarrow> rs_chains a (ch_Name (ru_Chain r)) = Some (ch, rules) \<Longrightarrow>
   frame {ch_Name (ru_Chain r)} a b \<and>
   rs_chains b (ch_Name (ru_Chain r)) = Some (ch, rules @ [r\<lparr>ru_Handle := h\<rparr>]) \<and> rs_sets b = rs_sets a"
  by (auto simp: rs_AddRule_def frame_def)

lemma rs_InsertRule_effect:
  "rs_InsertRule h r a = Some b \<Longrightarrow> rs_chains a (ch_Name (ru_Chain r)) = Some (ch, rules) \<Longrightarrow>
   frame {ch_Name (ru_Chain r)} a b \<and>
   rs_chains b (ch_Name (ru_Chain r)) = Some (ch, r\<lparr>ru_Handle := h\<rparr> # rules) \<and> rs_sets b = rs_sets a"
  by (auto simp: rs_InsertRule_def frame_def)

lemma rs_AddChain_effect:
  "rs_AddChain ch a = Some b \<Longrightarrow> rs_chains a (ch_Name ch) = None \<Longrightarrow>
   frame {ch_Name ch} a b \<and> rs_chains b (ch_Name ch) = Some (ch, []) \<and> rs_sets b = rs_sets a"
  by (auto simp: rs_AddChain_def frame_def)

lemma wf_ruleset_chain:
  assumes "wf_ruleset rs" "rs_chains rs n = Some (ch, rules)"
  shows "ch_Name ch = n" "ch_Table ch = Some filterTable" "distinct (map ru_Handle rules)"
    "\<And>r. r \<in> set rules \<Longrightarrow> ru_Handle r \<noteq> 0 \<and> ch_Name (ru_Chain r) = n \<and> ru_Table r = Some filterTable \<and>
       pending_sets r = {}"
  using assms unfolding wf_ruleset_def by blast+

section \<open>Loops over chains\<close>

text \<open>A loop over distinct chains, each of which it finds as it was at the start.\<close>

lemma rel_seq_frames:
  assumes "rel_seq R ns a b" "distinct ns" "\<forall>n \<in> set ns. rs_chains a n = rs_chains a0 n"
    and "\<And>n a b. n \<in> set ns \<Longrightarrow> R n a b \<Longrightarrow> rs_chains a n = rs_chains a0 n \<Longrightarrow> frame {n} a b \<and> Q n (rs_chains b n)"
  shows "frame (set ns) a b \<and> (\<forall>n \<in> set ns. Q n (rs_chains b n))"
  using assms
proof (induction ns arbitrary: a)
  case (Cons n ns)
  then obtain m where m: "R n a m" "rel_seq R ns m b" by auto
  with Cons.prems(3,4) have n: "frame {n} a m" "Q n (rs_chains m n)" by auto
  have "\<forall>x \<in> set ns. rs_chains m x = rs_chains a0 x"
    using n(1) Cons.prems(2,3) by (auto simp: frame_def)
  then have rest: "frame (set ns) m b" "\<forall>x \<in> set ns. Q x (rs_chains b x)"
    using Cons.IH [OF m(2)] Cons.prems(2,4) by auto
  then have "rs_chains b n = rs_chains m n" using Cons.prems(2) by (auto simp: frame_def)
  with n(2) rest(2) frame_trans [OF n(1) rest(1)] show ?case by simp
qed simp

text \<open>The client is a transactional store whose commit is \<open>Flush\<close>.\<close>

sublocale firewall_client \<subseteq> flushing: transactional ok committed staged "fc_Flush F" rs_commits
  using Flush_failed Flush_commits by unfold_locales blast+

text \<open>A rule with the handle the kernel has given it.\<close>

definition handled :: "nft_rule \<Rightarrow> nft_rule \<Rightarrow> bool" where
  "handled r r' \<longleftrightarrow> (\<exists>h. h \<noteq> 0 \<and> r' = r\<lparr>ru_Handle := h\<rparr>)"

context firewall_client
begin

abbreviation spec :: "('c \<Rightarrow> 'c \<times> error option) \<Rightarrow> (ruleset \<Rightarrow> ruleset \<Rightarrow> ruleset \<Rightarrow> bool) \<Rightarrow> bool" where
  "spec \<equiv> edit_spec ok committed staged"

lemma AddRule_spec:
  "ru_Table r = Some filterTable \<Longrightarrow>
   spec (\<lambda>c. (fc_AddRule F r c, None)) (\<lambda>k rs rs'. \<exists>h. ru_Handle r = 0 \<and> h \<noteq> 0 \<and> rs_AddRule h r rs = Some rs')"
  by (rule edit_spec_pure) (use AddRule_ok AddRule_staged in blast)+

lemma InsertRule_spec:
  "ru_Table r = Some filterTable \<Longrightarrow>
   spec (\<lambda>c. (fc_InsertRule F r c, None)) (\<lambda>k rs rs'. \<exists>h. ru_Handle r = 0 \<and> h \<noteq> 0 \<and> rs_InsertRule h r rs = Some rs')"
  by (rule edit_spec_pure) (use InsertRule_ok InsertRule_staged in blast)+

lemma DelRule_spec:
  "ru_Table r = Some filterTable \<Longrightarrow> spec (fc_DelRule F r) (\<lambda>k rs rs'. rs_DelRule r rs = Some rs')"
  unfolding edit_spec_def using DelRule_ok DelRule_staged by blast

lemma AddChain_spec:
  "ch_Table ch = Some filterTable \<Longrightarrow>
   spec (\<lambda>c. (fc_AddChain F ch c, None)) (\<lambda>k rs rs'. rs_AddChain ch rs = Some rs')"
  by (rule edit_spec_pure) (use AddChain_ok AddChain_staged in blast)+

text \<open>Deleting rules of one chain, found among its committed rules.\<close>

lemma rel_seq_delete:
  assumes "rel_seq (\<lambda>r rs rs'. rs_DelRule r rs = Some rs') ds rs rs'"
    and "\<forall>d \<in> set ds. ch_Name (ru_Chain d) = n"
    and "rs_chains rs n = Some (ch, rules)" "distinct (map ru_Handle rules)"
  shows "frame {n} rs rs' \<and> rs_chains rs' n = Some (ch, remove_handles ds rules)"
  using assms
proof (induction ds arbitrary: rs rules)
  case Nil
  then show ?case by (simp add: remove_handles_simps)
next
  case (Cons d ds)
  then obtain m where m: "rs_DelRule d rs = Some m"
    "rel_seq (\<lambda>r rs rs'. rs_DelRule r rs = Some rs') ds m rs'" by auto
  have n: "ch_Name (ru_Chain d) = n" using Cons.prems(2) by simp
  have chain: "rs_chains m n = Some (ch, remove_first (same_handle d) rules)" and fr: "frame {n} rs m"
    using m(1) Cons.prems(3) n
    by (auto simp: rs_DelRule_def frame_def rule_sets_def split: option.splits)
  have rem: "remove_first (same_handle d) rules = filter (\<lambda>r. ru_Handle r \<noteq> ru_Handle d) rules"
    using Cons.prems(4) by (rule remove_first_handle)
  have "frame {n} m rs' \<and> rs_chains rs' n =
      Some (ch, remove_handles ds (filter (\<lambda>r. ru_Handle r \<noteq> ru_Handle d) rules))"
    using Cons.prems(2,4) chain rem by (intro Cons.IH [OF m(2)]) (auto intro: distinct_filter_handles)
  with frame_trans [OF fr, of "{n}" rs'] show ?case by (simp add: remove_handles_simps)
qed

lemma delete_rules_spec:
  assumes "\<forall>d \<in> set ds. ru_Table d = Some filterTable \<and> ch_Name (ru_Chain d) = n"
  shows "spec (delete_rules F ds)
    (\<lambda>k rs rs'. \<forall>ch rules. rs_chains rs n = Some (ch, rules) \<longrightarrow> distinct (map ru_Handle rules) \<longrightarrow>
       frame {n} rs rs' \<and> rs_chains rs' n = Some (ch, remove_handles ds rules))"
proof -
  have "spec (st_each (fc_DelRule F) ds) (\<lambda>k. rel_seq (\<lambda>r rs rs'. rs_DelRule r rs = Some rs') ds)"
    using assms DelRule_spec by (intro edit_spec_each) blast
  then show ?thesis
    unfolding delete_rules_def using assms rel_seq_delete
    by (elim edit_spec_mono) blast
qed

text \<open>Adding and inserting rules of one chain; the kernel gives each a handle.\<close>

lemma add_rules_spec:
  assumes "\<forall>r \<in> set rules. ru_Table r = Some filterTable \<and> ch_Name (ru_Chain r) = n"
  shows "spec (\<lambda>c. (add_rules F rules c, None)) (\<lambda>k a b. rules \<noteq> [] \<longrightarrow>
    frame {n} a b \<and> (\<exists>ch old new. rs_chains a n = Some (ch, old) \<and> list_all2 handled rules new \<and>
      rs_chains b n = Some (ch, old @ new)))"
proof -
  have "frame {n} a b \<and> (\<exists>ch old new. rs_chains a n = Some (ch, old) \<and> list_all2 handled rules new \<and>
      rs_chains b n = Some (ch, old @ new))"
    if "rel_seq (\<lambda>r a b. \<exists>h. h \<noteq> 0 \<and> rs_AddRule h r a = Some b) rules a b" "rules \<noteq> []"
      "\<forall>r \<in> set rules. ch_Name (ru_Chain r) = n" for a b
    using that
  proof (induction rules arbitrary: a)
    case (Cons r rules)
    then obtain m h where m: "h \<noteq> 0" "rs_AddRule h r a = Some m"
      "rel_seq (\<lambda>r a b. \<exists>h. h \<noteq> 0 \<and> rs_AddRule h r a = Some b) rules m b" by auto
    then obtain ch old where a: "rs_chains a n = Some (ch, old)"
      using Cons.prems(3) by (auto simp: rs_AddRule_def split: option.splits)
    with rs_AddRule_effect [OF m(2)] Cons.prems(3) have fm: "frame {n} a m"
      "rs_chains m n = Some (ch, old @ [r\<lparr>ru_Handle := h\<rparr>])" by auto
    have hd: "handled r (r\<lparr>ru_Handle := h\<rparr>)" using m(1) by (auto simp: handled_def)
    show ?case
    proof (cases "rules = []")
      case True
      with m(3) fm a hd show ?thesis by auto
    next
      case False
      with Cons.IH [OF m(3)] Cons.prems(3) fm(2) obtain new where "frame {n} m b" "list_all2 handled rules new"
        "rs_chains b n = Some (ch, (old @ [r\<lparr>ru_Handle := h\<rparr>]) @ new)" by auto
      with a hd frame_trans [OF fm(1), of "{n}" b] show ?thesis
        by (auto intro!: exI [of _ "r\<lparr>ru_Handle := h\<rparr> # new"])
    qed
  qed simp
  moreover have "spec (\<lambda>c. (add_rules F rules c, None)) (\<lambda>k. rel_seq (\<lambda>r a b. \<exists>h. h \<noteq> 0 \<and> rs_AddRule h r a = Some b) rules)"
    unfolding add_rules_def using assms by (intro edit_spec_fold) (auto elim!: edit_spec_mono [OF AddRule_spec])
  ultimately show ?thesis using assms by (elim edit_spec_mono) blast
qed

lemma insert_rules_spec:
  assumes "\<forall>r \<in> set rules. ru_Table r = Some filterTable \<and> ch_Name (ru_Chain r) = n"
  shows "spec (\<lambda>c. (insert_rules F rules c, None)) (\<lambda>k a b. rules \<noteq> [] \<longrightarrow>
    frame {n} a b \<and> (\<exists>ch old new. rs_chains a n = Some (ch, old) \<and> list_all2 handled (rev rules) new \<and>
      rs_chains b n = Some (ch, new @ old)))"
proof -
  have "frame {n} a b \<and> (\<exists>ch old new. rs_chains a n = Some (ch, old) \<and> list_all2 handled (rev rules) new \<and>
      rs_chains b n = Some (ch, new @ old))"
    if "rel_seq (\<lambda>r a b. \<exists>h. h \<noteq> 0 \<and> rs_InsertRule h r a = Some b) rules a b" "rules \<noteq> []"
      "\<forall>r \<in> set rules. ch_Name (ru_Chain r) = n" for a b
    using that
  proof (induction rules arbitrary: a)
    case (Cons r rules)
    then obtain m h where m: "h \<noteq> 0" "rs_InsertRule h r a = Some m"
      "rel_seq (\<lambda>r a b. \<exists>h. h \<noteq> 0 \<and> rs_InsertRule h r a = Some b) rules m b" by auto
    then obtain ch old where a: "rs_chains a n = Some (ch, old)"
      using Cons.prems(3) by (auto simp: rs_InsertRule_def split: option.splits)
    with rs_InsertRule_effect [OF m(2)] Cons.prems(3) have fm: "frame {n} a m"
      "rs_chains m n = Some (ch, r\<lparr>ru_Handle := h\<rparr> # old)" by auto
    have hd: "handled r (r\<lparr>ru_Handle := h\<rparr>)" using m(1) by (auto simp: handled_def)
    show ?case
    proof (cases "rules = []")
      case True
      with m(3) fm a hd show ?thesis by auto
    next
      case False
      with Cons.IH [OF m(3)] Cons.prems(3) fm(2) obtain new where new: "frame {n} m b" "list_all2 handled (rev rules) new"
        "rs_chains b n = Some (ch, new @ r\<lparr>ru_Handle := h\<rparr> # old)" by auto
      have "list_all2 handled (rev rules @ [r]) (new @ [r\<lparr>ru_Handle := h\<rparr>])"
        using new(2) hd by (simp add: list_all2_appendI)
      with a new frame_trans [OF fm(1) new(1)] show ?thesis
        by (auto intro!: exI [of _ "new @ [r\<lparr>ru_Handle := h\<rparr>]"])
    qed
  qed simp
  moreover have "spec (\<lambda>c. (insert_rules F rules c, None)) (\<lambda>k. rel_seq (\<lambda>r a b. \<exists>h. h \<noteq> 0 \<and> rs_InsertRule h r a = Some b) rules)"
    unfolding insert_rules_def using assms by (intro edit_spec_fold) (auto elim!: edit_spec_mono [OF InsertRule_spec])
  ultimately show ?thesis using assms by (elim edit_spec_mono) blast
qed

text \<open>A step that reads the rules of a chain and goes on with them.\<close>

lemma GetRules_spec:
  assumes "\<And>rules. distinct (map ru_Handle rules) \<Longrightarrow>
      \<forall>r \<in> set rules. ru_Table r = Some filterTable \<and> ch_Name (ru_Chain r) = ch_Name ch \<and> pending_sets r = {} \<Longrightarrow>
      spec (g rules) (R rules)"
  shows "spec (\<lambda>c. case fc_GetRules F filterTable ch c of Inl e \<Rightarrow> (c, Some (w e)) | Inr rules \<Rightarrow> g rules c)
    (\<lambda>k a b. \<exists>ch' rules. rs_chains k (ch_Name ch) = Some (ch', rules) \<and> R rules k a b)"
  unfolding edit_spec_def
proof (intro allI impI)
  fix c c' e
  assume c: "ok c"
    "(case fc_GetRules F filterTable ch c of Inl e \<Rightarrow> (c, Some (w e)) | Inr rules \<Rightarrow> g rules c) = (c', e)"
  show "ok c' \<and> committed c' = committed c \<and> (e = None \<longrightarrow> (\<forall>rs'. staged c' = Some rs' \<longrightarrow>
      (\<exists>rs. staged c = Some rs \<and>
        (\<exists>ch' rules. rs_chains (committed c) (ch_Name ch) = Some (ch', rules) \<and> R rules (committed c) rs rs'))))"
  proof (cases "fc_GetRules F filterTable ch c")
    case (Inl x)
    with c show ?thesis by auto
  next
    case (Inr rules)
    with c(2) have g: "g rules c = (c', e)" by simp
    obtain ch' where k: "rs_chains (committed c) (ch_Name ch) = Some (ch', rules)"
      using GetRules_committed [OF c(1) Inr] by blast
    note wf = wf_ruleset_chain [OF committed_wf [OF c(1)] k]
    have "spec (g rules) (R rules)" by (rule assms) (use wf in blast)+
    with c(1) g k show ?thesis unfolding edit_spec_def by blast
  qed
qed

text \<open>A batch: edits, then one flush.\<close>

lemma flush_spec:
  assumes "spec f R" "ok c" and run: "st_seq [f, flush_wrap msg F] c = (c', e)"
  shows "ok c' \<and> (e \<noteq> None \<longrightarrow> committed c' = committed c) \<and>
    (e = None \<longrightarrow> staged c' = Some (committed c') \<and>
      (\<exists>rs0 rs. staged c = Some rs0 \<and> R (committed c) rs0 rs \<and> rs_commits (committed c) rs (committed c')))"
proof -
  obtain c1 e1 where f: "f c = (c1, e1)" by force
  then have c1: "ok c1" using assms(1,2) unfolding edit_spec_def by blast
  obtain c2 e2 where fl: "fc_Flush F c1 = (c2, e2)" by force
  have "st_seq [f, fc_Flush F] c = (c', if e1 = None then e2 else e1) \<and> e = (if e1 = None then map_option (Wrap msg) e2 else e1)"
    using run f fl by (auto simp: flush_wrap_def split: option.splits)
  with flushing.batch [OF assms(1,2), of c'] Flush_ok [OF c1] Flush_commits [OF c1] f fl run c1 show ?thesis
    by (auto simp: flush_wrap_def split: option.splits if_splits)
qed

end

text \<open>Committing does not change a rule that refers to no pending set.\<close>

lemma commit_rule_settled:
  assumes "pending_sets r = {}"
  shows "commit_rule r = r"
proof -
  have "commit_expr e = e" if "e \<in> set (ru_Exprs r)" for e
    using assms that by (cases e) (auto simp: pending_sets_def commit_expr_def)
  then have "map commit_expr (ru_Exprs r) = ru_Exprs r" by (intro map_idI)
  then show ?thesis by (simp add: commit_rule_def)
qed

lemma commit_chain_settled:
  assumes "rs_commits old rs rs'" "rs_chains rs n = Some (ch, rules)" "\<forall>r \<in> set rules. pending_sets r = {}"
  shows "rs_chains rs' n = Some (ch, rules)"
proof -
  have "map commit_rule rules = rules" using assms(3) by (intro map_idI commit_rule_settled) blast
  with assms(1,2) show ?thesis by (simp add: rs_commits_def committed_chains_def)
qed

lemma commit_named_set: "rs_commits old rs rs' \<Longrightarrow> \<not> is_anon_name n \<Longrightarrow> rs_sets rs' n = rs_sets rs n"
  by (simp add: rs_commits_def)

end
