(* ===== verification/Base_Rules.thy ===== *)
theory Base_Rules
  imports Address_Map Edit_Specs
begin

text \<open>
  The base rules of \<open>base.go\<close>: the checks on Docker's chains, the jumps from
  \<open>DOCKER-USER\<close>, \<open>INPUT\<close> and \<open>OUTPUT\<close> to the \<open>whalewall\<close> chain, and
  the two dispatchers at its head, which send a packet to its container's chain through the address
  map. \<open>createBaseRules\<close> is the composition of an inspection, which only reads, and a repair,
  which queues edits and flushes once. Logging and the mutex are not modelled.
\<close>

section \<open>Runtime prerequisite\<close>

definition validateBridgeNetfilter :: "string result \<Rightarrow> error option" where
  "validateBridgeNetfilter contents =
     (case contents of
        Inl e \<Rightarrow> Some (Wrap ''cannot verify br_netfilter prerequisite'' e)
      | Inr value \<Rightarrow>
          if TrimSpace value \<noteq> ''1'' then Some (Msg ''unsupported bridge firewall configuration'') else None)"

section \<open>Rules\<close>

definition dispatcherExprs :: "nat \<Rightarrow> nexpr list" where
  "dispatcherExprs offset =
     [EPayload \<lparr>pl_OperationType = PayloadLoad, pl_DestRegister = 1, pl_SourceRegister = 0,
        pl_Base = PayloadBaseNetworkHeader, pl_Offset = offset, pl_Len = 4\<rparr>,
      ELookup \<lparr>lk_SourceRegister = 1, lk_DestRegister = 0, lk_IsDestRegSet = True, lk_SetID = 0,
        lk_SetName = containerAddrSetName, lk_Invert = False\<rparr>]"

definition createSourceDispatcherRule :: nft_rule where
  "createSourceDispatcherRule = \<lparr>ru_Table = Some filterTable, ru_Chain = whalewallChain,
     ru_Exprs = dispatcherExprs 12, ru_UserData = [], ru_Handle = 0\<rparr>"

definition createDestinationDispatcherRule :: nft_rule where
  "createDestinationDispatcherRule = \<lparr>ru_Table = Some filterTable, ru_Chain = whalewallChain,
     ru_Exprs = dispatcherExprs 16, ru_UserData = [], ru_Handle = 0\<rparr>"

definition createJumpRule :: "nft_chain \<Rightarrow> string \<Rightarrow> nft_rule" where
  "createJumpRule srcChain dstChainName = \<lparr>ru_Table = Some filterTable, ru_Chain = srcChain,
     ru_Exprs = [ECounter 0 0, EVerdict \<lparr>vd_Kind = VerdictJump, vd_Chain = dstChainName\<rparr>],
     ru_UserData = [], ru_Handle = 0\<rparr>"

section \<open>Checks\<close>

definition validateBaseChain :: "nft_chain \<Rightarrow> chain_hook option \<Rightarrow> error option" where
  "validateBaseChain chain hook =
     (if (case ch_Table chain of None \<Rightarrow> True
          | Some t \<Rightarrow> t_Name t \<noteq> filterTableName \<or> t_Family t \<noteq> TableFamilyIPv4)
      then Some (Msg ''chain is not in the IPv4 filter table'')
      else if ch_Type chain \<noteq> ChainTypeFilter then Some (Msg ''chain type is not filter'')
      else if ch_Hooknum chain = None \<or> hook = None \<or> ch_Hooknum chain \<noteq> hook
      then Some (Msg ''chain has the wrong netfilter hook'')
      else if ch_Priority chain \<noteq> Some ChainPriorityFilter
      then Some (Msg ''chain has the wrong filter priority'')
      else if ch_Device chain \<noteq> [] then Some (Msg ''chain unexpectedly targets a device'')
      else None)"

text \<open>The scan over a rule's expressions, with the verdicts counted so far; an expression is the last
  one when nothing follows it.\<close>

fun unconditional_jump :: "string \<Rightarrow> nat \<Rightarrow> nexpr list \<Rightarrow> bool" where
  "unconditional_jump name verdicts [] \<longleftrightarrow> verdicts = 1"
| "unconditional_jump name verdicts (e # es) \<longleftrightarrow>
     (case e of
        ECounter _ _ \<Rightarrow> unconditional_jump name verdicts es
      | EVerdict v \<Rightarrow>
          if es \<noteq> [] \<or> vd_Kind v \<noteq> VerdictJump \<or> vd_Chain v \<noteq> name then False
          else unconditional_jump name (verdicts + 1) es
      | _ \<Rightarrow> False)"

definition isUnconditionalJump :: "nft_rule \<Rightarrow> string \<Rightarrow> bool" where
  "isUnconditionalJump rule chainName = unconditional_jump chainName 0 (ru_Exprs rule)"

fun safe_drop_exprs :: "nexpr list \<Rightarrow> bool" where
  "safe_drop_exprs [] \<longleftrightarrow> True"
| "safe_drop_exprs (e # es) \<longleftrightarrow>
     (case e of
        EPayload p \<Rightarrow> pl_OperationType p = PayloadLoad
      | EMeta m \<Rightarrow> \<not> me_SourceRegister m
      | ECt c \<Rightarrow> \<not> cx_SourceRegister c
      | ECmp _ \<Rightarrow> True | EBitwise _ \<Rightarrow> True | ECounter _ _ \<Rightarrow> True | ELog _ \<Rightarrow> True
      | EVerdict v \<Rightarrow> es = [] \<and> vd_Kind v = VerdictDrop
      | _ \<Rightarrow> False) \<and> safe_drop_exprs es"

definition isSafeOwnedDropRule :: "nft_rule \<Rightarrow> bool" where
  "isSafeOwnedDropRule rule \<longleftrightarrow>
     (if ru_UserData rule = [] \<or> ru_Exprs rule = [] then False
      else safe_drop_exprs (ru_Exprs rule) \<and>
        (case last (ru_Exprs rule) of EVerdict v \<Rightarrow> vd_Kind v = VerdictDrop | _ \<Rightarrow> False))"

section \<open>Repairs\<close>

definition ensureJumpAtHead ::
    "'c firewallClient \<Rightarrow> marshaller \<Rightarrow> nft_rule \<Rightarrow> nft_rule list \<Rightarrow> 'c \<Rightarrow> 'c \<times> error option" where
  "ensureJumpAtHead F M desired current c =
     (let matchCount = length (filter (rulesEqual M desired) current) in
      if matchCount = 1 \<and> current \<noteq> [] \<and> rulesEqual M desired (hd current) then (c, None)
      else (case delete_rules F (filter (rulesEqual M desired) current) c of
          (c, Some e) \<Rightarrow> (c, Some e)
        | (c, None) \<Rightarrow> (fc_InsertRule F desired c, None)))"

definition ensureDispatchersAtHead ::
    "'c firewallClient \<Rightarrow> marshaller \<Rightarrow> nft_rule list \<Rightarrow> 'c \<Rightarrow> 'c \<times> error option" where
  "ensureDispatchersAtHead F M current c =
     (let src = createSourceDispatcherRule; dst = createDestinationDispatcherRule;
          srcCount = length (filter (rulesEqual M src) current);
          dstCount = length (filter (rulesEqual M dst) current);
          allRemainderSafe = list_all isSafeOwnedDropRule (drop (min 2 (length current)) current)
      in if srcCount = 1 \<and> dstCount = 1 \<and> length current \<ge> 2 \<and> rulesEqual M src (current ! 0) \<and>
           rulesEqual M dst (current ! 1) \<and> allRemainderSafe
         then (c, None)
         else (case delete_rules F
                 (filter (\<lambda>r. \<not> (\<not> rulesEqual M src r \<and> \<not> rulesEqual M dst r \<and> isSafeOwnedDropRule r)) current) c of
             (c, Some e) \<Rightarrow> (c, Some e)
           | (c, None) \<Rightarrow> (fc_InsertRule F src (fc_InsertRule F dst c), None)))"

definition base_chain :: "string \<Rightarrow> chain_hook \<Rightarrow> nft_chain" where
  "base_chain name hook = \<lparr>ch_Name = name, ch_Table = Some filterTable, ch_Hooknum = Some hook,
     ch_Priority = Some ChainPriorityFilter, ch_Type = ChainTypeFilter,
     ch_Policy = Some ChainPolicyAccept, ch_Device = []\<rparr>"

definition handleMainChain ::
    "'c firewallClient \<Rightarrow> marshaller \<Rightarrow> string \<Rightarrow> chain_hook \<Rightarrow> nft_chain option \<Rightarrow> 'c \<Rightarrow> 'c \<times> error option" where
  "handleMainChain F M name hook mainChain c =
     (case mainChain of
        None \<Rightarrow>
          let ch = base_chain name hook in
          (fc_InsertRule F (createJumpRule ch whalewallChainName) (fc_AddChain F ch c), None)
      | Some ch \<Rightarrow>
          (case fc_GetRules F filterTable ch c of
             Inl e \<Rightarrow> (c, Some (Wrap ''error listing rules'' e))
           | Inr rules \<Rightarrow>
               (case ensureJumpAtHead F M (createJumpRule ch whalewallChainName) rules c of
                  (c, Some e) \<Rightarrow> (c, Some (Wrap ''error repairing jump'' e))
                | (c, None) \<Rightarrow> (c, None))))"

section \<open>Inspection\<close>

record base_view =
  bv_whalewall :: "nft_chain option"
  bv_docker :: nft_chain
  bv_input :: "nft_chain option"
  bv_output :: "nft_chain option"
  bv_setMissing :: bool

text \<open>The loop over the chains keeps the last chain of each name.\<close>

definition last_chain :: "string \<Rightarrow> nft_chain list \<Rightarrow> nft_chain option" where
  "last_chain name chs = find (\<lambda>c. in_filter c \<and> ch_Name c = name) (rev chs)"

definition check_optional :: "string \<Rightarrow> nft_chain option \<Rightarrow> chain_hook \<Rightarrow> error option" where
  "check_optional msg chain hook =
     (case chain of
        None \<Rightarrow> None
      | Some ch \<Rightarrow> (case validateBaseChain ch (Some hook) of Some e \<Rightarrow> Some (Wrap msg e) | None \<Rightarrow> None))"

definition inspect_set :: "'c firewallClient \<Rightarrow> netlink_lib \<Rightarrow> 'c \<Rightarrow> bool result" where
  "inspect_set F N c =
     (case fc_GetSetByName F filterTable containerAddrSetName c of
        Inl e \<Rightarrow>
          if errors_is e (Errno ENOENT) then Inr True else Inl (Wrap ''error inspecting set'' e)
      | Inr existingSet \<Rightarrow>
          if \<not> containerAddressSetSchemaEqual existingSet containerAddressSet
          then Inl (Msg ''existing set has an incompatible schema'')
          else (case fc_GetSetElements F existingSet c of
              Inl e \<Rightarrow> Inl (Wrap ''error inspecting set elements'' e)
            | Inr elements \<Rightarrow>
                (case first_error (\<lambda>el. case containerMappingVerdict N el of Inl e \<Rightarrow> Some e | Inr _ \<Rightarrow> None) elements of
                   Some e \<Rightarrow> Inl (Wrap ''existing set contains an incompatible mapping'' e)
                 | None \<Rightarrow> Inr False)))"

definition inspect_docker :: "nft_chain list \<Rightarrow> nft_chain result" where
  "inspect_docker chs =
     (case last_chain dockerChainName chs of
        None \<Rightarrow> Inl (Msg ''required nftables chain ip filter DOCKER-USER was not found'')
      | Some dockerChain \<Rightarrow>
          (case validateRegularOwnedChain dockerChain of
             Some e \<Rightarrow> Inl (Wrap ''invalid Docker chain'' e)
           | None \<Rightarrow> Inr dockerChain))"

definition inspect_forward :: "'c firewallClient \<Rightarrow> nft_chain list \<Rightarrow> 'c \<Rightarrow> error option" where
  "inspect_forward F chs c =
     (case last_chain forwardChainName chs of
        None \<Rightarrow> Some (Msg ''required nftables chain ip filter FORWARD was not found'')
      | Some forwardChain \<Rightarrow>
          (case validateBaseChain forwardChain (Some ChainHookForward) of
             Some e \<Rightarrow> Some (Wrap ''invalid Docker FORWARD base chain'' e)
           | None \<Rightarrow>
               (case fc_GetRules F filterTable forwardChain c of
                  Inl e \<Rightarrow> Some (Wrap ''error listing rules of FORWARD chain'' e)
                | Inr forwardRules \<Rightarrow>
                    if forwardRules = [] \<or> \<not> isUnconditionalJump (hd forwardRules) dockerChainName
                    then Some (Msg ''ip filter FORWARD does not begin with an unconditional jump to DOCKER-USER'')
                    else None)))"

text \<open>The first error of a list of checks.\<close>

definition first_check :: "error option list \<Rightarrow> error option" where
  "first_check es = first_error id es"

definition inspectBase :: "'c firewallClient \<Rightarrow> netlink_lib \<Rightarrow> 'c \<Rightarrow> base_view result" where
  "inspectBase F N c =
     (case fc_ListChainsOfTableFamily F TableFamilyIPv4 c of
        Inl e \<Rightarrow> Inl (Wrap ''error listing IPv4 chains'' e)
      | Inr chs \<Rightarrow>
        (let inputChain = last_chain inputChainName chs; outputChain = last_chain outputChainName chs in
         case inspect_docker chs of
           Inl e \<Rightarrow> Inl e
         | Inr dockerChain \<Rightarrow>
             (case first_check
                [inspect_forward F chs c,
                 check_optional ''invalid INPUT base chain'' inputChain ChainHookInput,
                 check_optional ''invalid OUTPUT base chain'' outputChain ChainHookOutput] of
                Some e \<Rightarrow> Inl e
              | None \<Rightarrow>
                  (case inspect_set F N c of
                     Inl e \<Rightarrow> Inl e
                   | Inr setMissing \<Rightarrow>
                       Inr \<lparr>bv_whalewall = last_chain whalewallChainName chs, bv_docker = dockerChain,
                         bv_input = inputChain, bv_output = outputChain, bv_setMissing = setMissing\<rparr>))))"

section \<open>Repair\<close>

text \<open>The Whalewall chain: queued when missing, else checked, with its current rules.\<close>

definition open_whalewall ::
    "'c firewallClient \<Rightarrow> nft_chain option \<Rightarrow> 'c \<Rightarrow> 'c \<times> nft_rule list result" where
  "open_whalewall F existing c =
     (case existing of
        None \<Rightarrow> (fc_AddChain F whalewallChain c, Inr [])
      | Some ch \<Rightarrow>
          (case validateRegularOwnedChain ch of
             Some e \<Rightarrow> (c, Inl (Wrap ''invalid existing Whalewall chain'' e))
           | None \<Rightarrow>
               (case fc_GetRules F filterTable whalewallChain c of
                  Inl e \<Rightarrow> (c, Inl (Wrap ''error listing rules of whalewall chain'' e))
                | Inr rules \<Rightarrow> (c, Inr rules))))"

definition repair_docker ::
    "'c firewallClient \<Rightarrow> marshaller \<Rightarrow> nft_chain \<Rightarrow> 'c \<Rightarrow> 'c \<times> error option" where
  "repair_docker F M dockerChain c =
     (case fc_GetRules F filterTable dockerChain c of
        Inl e \<Rightarrow> (c, Some (Wrap ''error listing rules of DOCKER-USER chain'' e))
      | Inr rules \<Rightarrow>
          (case ensureJumpAtHead F M (createJumpRule dockerChain whalewallChainName) rules c of
             (c, Some e) \<Rightarrow> (c, Some (Wrap ''error repairing DOCKER-USER jump'' e))
           | (c, None) \<Rightarrow> (c, None)))"

definition add_address_set :: "'c firewallClient \<Rightarrow> bool \<Rightarrow> 'c \<Rightarrow> 'c \<times> error option" where
  "add_address_set F setMissing c =
     (if setMissing
      then (case fc_AddSet F containerAddressSet [] c of
          (c, Inl e) \<Rightarrow> (c, Some (Wrap ''error adding set'' e))
        | (c, Inr _) \<Rightarrow> (c, None))
      else (c, None))"

definition repairBase ::
    "'c firewallClient \<Rightarrow> marshaller \<Rightarrow> base_view \<Rightarrow> 'c \<Rightarrow> 'c \<times> error option" where
  "repairBase F M v c =
     (case open_whalewall F (bv_whalewall v) c of
        (c, Inl e) \<Rightarrow> (c, Some e)
      | (c, Inr mainChainRules) \<Rightarrow>
          st_seq
            [repair_docker F M (bv_docker v),
             handleMainChain F M inputChainName ChainHookInput (bv_input v),
             handleMainChain F M outputChainName ChainHookOutput (bv_output v),
             add_address_set F (bv_setMissing v),
             ensureDispatchersAtHead F M mainChainRules,
             flush_wrap ''error flushing nftables commands'' F] c)"

definition createBaseRules ::
    "'c firewallClient \<Rightarrow> netlink_lib \<Rightarrow> marshaller \<Rightarrow> 'c \<Rightarrow> 'c \<times> error option" where
  "createBaseRules F N M c =
     (case fc_New F c of
        (c, Some e) \<Rightarrow> (c, Some (Wrap ''error creating netlink connection'' e))
      | (c, None) \<Rightarrow>
          (case inspectBase F N c of
             Inl e \<Rightarrow> (c, Some e)
           | Inr v \<Rightarrow> repairBase F M v c))"

end
