(* ===== verification/Base_Correct.thy ===== *)
theory Base_Correct
  imports Base_Rules Packet_Spec Mock_Firewall
begin

text \<open>
  What \<open>createBaseRules\<close> achieves. Against any client that keeps the contract of
  \<open>firewall_client\<close>, a run either fails and leaves the ruleset alone, or leaves the jumps at the
  head of Docker's chains and the two dispatchers at the head of the Whalewall chain, with nothing behind
  them but rules that drop.
\<close>

section \<open>Rules that match the desired ones\<close>

definition is_whalewall_jump :: "nft_rule \<Rightarrow> bool" where
  "is_whalewall_jump r \<longleftrightarrow> ru_UserData r = [] \<and>
     map strip_counter (ru_Exprs r) = [ECounter 0 0, EVerdict \<lparr>vd_Kind = VerdictJump, vd_Chain = whalewallChainName\<rparr>]"

definition is_dispatcher :: "nat \<Rightarrow> nft_rule \<Rightarrow> bool" where
  "is_dispatcher offset r \<longleftrightarrow> ru_UserData r = [] \<and> ru_Exprs r = dispatcherExprs offset"

lemma strip_counter_eq [simp]:
  "strip_counter e = ECounter 0 0 \<longleftrightarrow> is_counter e"
  "strip_counter e = EVerdict v \<longleftrightarrow> e = EVerdict v"
  "strip_counter e = EPayload p \<longleftrightarrow> e = EPayload p"
  by (cases e; simp add: strip_counter_def is_counter_def)+

lemma expr_equal_desired:
  assumes "marshal_ok M"
  shows "expr_equal M t t (ECounter 0 0) e \<longleftrightarrow> is_counter e"
    and "expr_equal M t t (EVerdict v) e \<longleftrightarrow> e = EVerdict v"
    and "expr_equal M t t (EPayload p) e \<longleftrightarrow> e = EPayload p"
  using assms expr_equal_no_lookup [of M "ECounter 0 0" t e] expr_equal_no_lookup [of M "EVerdict v" t e]
    expr_equal_no_lookup [of M "EPayload p" t e] strip_counter_eq [of e]
  by (simp_all add: as_lookup_def strip_counter_def eq_commute)

lemma list_all2_counter_jump:
  "marshal_ok M \<Longrightarrow>
   list_all2 (expr_equal M t t) [ECounter 0 0, EVerdict v] es \<longleftrightarrow> map strip_counter es = [ECounter 0 0, EVerdict v]"
  by (simp add: list_all2_Cons1 expr_equal_desired map_eq_Cons_conv)

lemma rulesEqual_jump:
  assumes "marshal_ok M" "ru_Table r = Some filterTable"
  shows "rulesEqual M (createJumpRule ch whalewallChainName) r \<longleftrightarrow> is_whalewall_jump r"
  using assms by (auto simp: rulesEqual_iff createJumpRule_def is_whalewall_jump_def list_all2_counter_jump)

lemma expr_equal_named_lookup:
  assumes "marshal_ok M" "lk_SetName l \<noteq> anonSetName" "\<not> is_anon_name (lk_SetName l)"
  shows "expr_equal M t t (ELookup l) e \<longleftrightarrow> e = ELookup l"
proof
  have num: "\<not> numbered_set_name (lk_SetName l)"
    using assms(3) by (simp add: numbered_set_name_def is_anon_name_def)
  assume eq: "expr_equal M t t (ELookup l) e"
  then obtain l2 where "e = ELookup l2"
    by (cases e) (auto simp: expr_equal_def is_counter_def as_lookup_def)
  with eq num assms(2) have "marshal_equal M t t (ELookup l) e"
    by (auto simp: expr_equal_def is_counter_def as_lookup_def name_defs split: if_splits)
  from marshal_equal_same [OF assms(1) this] show "e = ELookup l" by simp
qed (simp add: expr_equal_refl assms)

lemma rulesEqual_dispatcher:
  assumes "marshal_ok M" "ru_Table r = Some filterTable"
  shows "rulesEqual M createSourceDispatcherRule r \<longleftrightarrow> is_dispatcher 12 r"
    and "rulesEqual M createDestinationDispatcherRule r \<longleftrightarrow> is_dispatcher 16 r"
proof -
  have anon: "containerAddrSetName \<noteq> anonSetName" by (simp add: name_defs)
  have "list_all2 (expr_equal M t t) (dispatcherExprs n) es \<longleftrightarrow> es = dispatcherExprs n" for t n es
    using assms(1) anon
    by (simp add: dispatcherExprs_def list_all2_Cons1 expr_equal_desired expr_equal_named_lookup)
  then show "rulesEqual M createSourceDispatcherRule r \<longleftrightarrow> is_dispatcher 12 r"
    and "rulesEqual M createDestinationDispatcherRule r \<longleftrightarrow> is_dispatcher 16 r"
    using assms(2) by (auto simp: rulesEqual_iff createSourceDispatcherRule_def
        createDestinationDispatcherRule_def is_dispatcher_def)
qed

lemma dispatcher_not_safe: "is_dispatcher n r \<Longrightarrow> \<not> isSafeOwnedDropRule r"
  by (simp add: is_dispatcher_def isSafeOwnedDropRule_def)

lemma dispatchers_differ: "is_dispatcher 12 r \<Longrightarrow> \<not> is_dispatcher 16 r"
  by (simp add: is_dispatcher_def dispatcherExprs_def)

lemma dispatcher_rules [simp]:
  "is_dispatcher 12 (createSourceDispatcherRule\<lparr>ru_Handle := h\<rparr>)"
  "is_dispatcher 16 (createDestinationDispatcherRule\<lparr>ru_Handle := h\<rparr>)"
  "is_whalewall_jump ((createJumpRule ch whalewallChainName)\<lparr>ru_Handle := h\<rparr>)"
  by (simp_all add: is_dispatcher_def createSourceDispatcherRule_def createDestinationDispatcherRule_def
      is_whalewall_jump_def createJumpRule_def is_counter_def)

lemma settled_exprs: "\<forall>l. ELookup l \<in> set (ru_Exprs r) \<longrightarrow> lk_SetName l \<noteq> anonSetName \<Longrightarrow> pending_sets r = {}"
  by (auto simp: pending_sets_def)

lemma dispatcher_settled: "is_dispatcher n r \<Longrightarrow> pending_sets r = {}"
  by (rule settled_exprs) (auto simp: is_dispatcher_def dispatcherExprs_def name_defs)

lemma jump_settled: "is_whalewall_jump r \<Longrightarrow> pending_sets r = {}"
  by (rule settled_exprs) (auto simp: is_whalewall_jump_def map_eq_Cons_conv is_counter_def)

section \<open>What the repairs do to a chain\<close>

definition jump_head :: "nft_rule list \<Rightarrow> nft_rule list \<Rightarrow> bool" where
  "jump_head rules rules' \<longleftrightarrow>
     (\<exists>j. rules' = j # filter (\<lambda>r. \<not> is_whalewall_jump r) rules \<and> is_whalewall_jump j)"

definition dispatch_head :: "nft_rule list \<Rightarrow> nft_rule list \<Rightarrow> bool" where
  "dispatch_head rules rules' \<longleftrightarrow>
     (\<exists>s d. rules' = s # d # filter isSafeOwnedDropRule rules \<and> is_dispatcher 12 s \<and> is_dispatcher 16 d)"

definition turns :: "string \<Rightarrow> nft_rule list \<Rightarrow> (nft_rule list \<Rightarrow> nft_rule list \<Rightarrow> bool) \<Rightarrow>
    ruleset \<Rightarrow> ruleset \<Rightarrow> bool" where
  "turns n rules P a b \<longleftrightarrow>
     (\<forall>ch. rs_chains a n = Some (ch, rules) \<longrightarrow>
        frame {n} a b \<and> (\<exists>rules'. rs_chains b n = Some (ch, rules') \<and> P rules rules'))"

lemma turnsI:
  "(\<And>ch. rs_chains a n = Some (ch, rules) \<Longrightarrow>
     frame {n} a b \<and> (\<exists>rules'. rs_chains b n = Some (ch, rules') \<and> P rules rules')) \<Longrightarrow> turns n rules P a b"
  by (simp add: turns_def)

lemma filter_once_at_head:
  "length (filter P xs) = 1 \<Longrightarrow> xs \<noteq> [] \<Longrightarrow> P (hd xs) \<Longrightarrow> filter (\<lambda>x. \<not> P x) xs = tl xs"
  by (cases xs) (auto simp: filter_empty_conv filter_id_conv)

lemma jump_head_done:
  "length (filter is_whalewall_jump rules) = 1 \<Longrightarrow> rules \<noteq> [] \<Longrightarrow> is_whalewall_jump (hd rules) \<Longrightarrow>
   jump_head rules rules"
  using filter_once_at_head [of is_whalewall_jump rules] by (auto simp: jump_head_def intro!: exI [of _ "hd rules"])

lemma dispatch_head_done:
  assumes "length rules \<ge> 2" "is_dispatcher 12 (rules ! 0)" "is_dispatcher 16 (rules ! 1)"
    "list_all isSafeOwnedDropRule (drop (min 2 (length rules)) rules)"
  shows "dispatch_head rules rules"
proof -
  obtain s d rest where r: "rules = s # d # rest"
    using assms(1) by (cases rules; cases "tl rules") auto
  with assms have "filter isSafeOwnedDropRule rest = rest" by (simp add: filter_id_conv list_all_iff)
  with r assms(2,3) dispatcher_not_safe show ?thesis by (auto simp: dispatch_head_def)
qed

context firewall_client
begin

lemma ensureJumpAtHead_spec:
  assumes M: "marshal_ok M" and d: "distinct (map ru_Handle rules)"
    and r: "\<forall>r \<in> set rules. ru_Table r = Some filterTable \<and> ch_Name (ru_Chain r) = ch_Name ch \<and> pending_sets r = {}"
  shows "spec (ensureJumpAtHead F M (createJumpRule ch whalewallChainName) rules)
    (\<lambda>k. turns (ch_Name ch) rules jump_head)"
proof -
  let ?n = "ch_Name ch" and ?j = "createJumpRule ch whalewallChainName"
  have eq: "rulesEqual M ?j r \<longleftrightarrow> is_whalewall_jump r" if "r \<in> set rules" for r
    using rulesEqual_jump M r that by blast
  then have filt: "filter (rulesEqual M ?j) rules = filter is_whalewall_jump rules" by (intro filter_cong) simp_all
  have j: "ru_Table ?j = Some filterTable" "ru_Chain ?j = ch" by (simp_all add: createJumpRule_def)
  let ?done = "length (filter is_whalewall_jump rules) = 1 \<and> rules \<noteq> [] \<and> is_whalewall_jump (hd rules)"
  have same: "?done \<longleftrightarrow> length (filter (rulesEqual M ?j) rules) = 1 \<and> rules \<noteq> [] \<and> rulesEqual M ?j (hd rules)"
    unfolding filt using eq [of "hd rules"] by (cases rules) auto
  show ?thesis
  proof (cases ?done)
    case True
    then have "ensureJumpAtHead F M ?j rules = (\<lambda>c. (c, None))"
      unfolding same by (intro ext) (simp only: ensureJumpAtHead_def Let_def if_True simp_thms)
    moreover have "turns ?n rules jump_head a a" for a
      using jump_head_done True by (simp add: turns_def)
    ultimately show ?thesis by (simp add: edit_spec_skip)
  next
    case False
    then have pending: "\<not> (length (filter (rulesEqual M ?j) rules) = 1 \<and> rules \<noteq> [] \<and> rulesEqual M ?j (hd rules))"
      unfolding same .
    then have step: "ensureJumpAtHead F M ?j rules =
        (\<lambda>c. case delete_rules F (filter is_whalewall_jump rules) c of (c, Some e) \<Rightarrow> (c, Some e)
          | (c, None) \<Rightarrow> (fc_InsertRule F ?j c, None))"
      unfolding filt [symmetric] by (intro ext) (simp only: ensureJumpAtHead_def Let_def if_False)
    have "spec (delete_rules F (filter is_whalewall_jump rules)) (\<lambda>k a b. \<forall>ch rules'. rs_chains a ?n = Some (ch, rules') \<longrightarrow>
        distinct (map ru_Handle rules') \<longrightarrow> frame {?n} a b \<and>
        rs_chains b ?n = Some (ch, remove_handles (filter is_whalewall_jump rules) rules'))"
      by (rule delete_rules_spec) (use r in auto)
    from edit_spec_then [OF this InsertRule_spec [OF j(1)]] show ?thesis
      unfolding step
    proof (rule edit_spec_mono, elim exE conjE)
      fix k a b m h
      assume m: "\<forall>ch rules'. rs_chains a ?n = Some (ch, rules') \<longrightarrow>
        distinct (map ru_Handle rules') \<longrightarrow> frame {?n} a m \<and>
        rs_chains m ?n = Some (ch, remove_handles (filter is_whalewall_jump rules) rules')"
        and ins: "rs_InsertRule h ?j m = Some b"
      show "turns ?n rules jump_head a b"
      proof (rule turnsI)
        fix ch0 assume "rs_chains a ?n = Some (ch0, rules)"
        with m d have am: "frame {?n} a m" "rs_chains m ?n = Some (ch0, filter (\<lambda>r. \<not> is_whalewall_jump r) rules)"
          by (simp_all add: remove_handles_filter)
        with rs_InsertRule_effect [OF ins] j have "frame {?n} m b"
          "rs_chains b ?n = Some (ch0, ?j\<lparr>ru_Handle := h\<rparr> # filter (\<lambda>r. \<not> is_whalewall_jump r) rules)" by auto
        with frame_trans [OF am(1), of "{?n}" b]
        show "frame {?n} a b \<and> (\<exists>rules'. rs_chains b ?n = Some (ch0, rules') \<and> jump_head rules rules')"
          by (auto simp: jump_head_def)
      qed
    qed
  qed
qed

end

context firewall_client
begin

lemma ensureDispatchersAtHead_spec:
  assumes M: "marshal_ok M" and d: "distinct (map ru_Handle rules)"
    and r: "\<forall>r \<in> set rules. ru_Table r = Some filterTable \<and> ch_Name (ru_Chain r) = whalewallChainName"
  shows "spec (ensureDispatchersAtHead F M rules) (\<lambda>k. turns whalewallChainName rules dispatch_head)"
proof -
  let ?n = whalewallChainName and ?s = createSourceDispatcherRule and ?d = createDestinationDispatcherRule
  have eq: "rulesEqual M ?s r \<longleftrightarrow> is_dispatcher 12 r" "rulesEqual M ?d r \<longleftrightarrow> is_dispatcher 16 r"
    if "r \<in> set rules" for r
    using rulesEqual_dispatcher M r that by blast+
  have nm: "ru_Table ?s = Some filterTable" "ch_Name (ru_Chain ?s) = ?n"
    "ru_Table ?d = Some filterTable" "ch_Name (ru_Chain ?d) = ?n"
    by (simp_all add: createSourceDispatcherRule_def createDestinationDispatcherRule_def whalewallChain_def
        regular_chain_def)
  have dels: "filter (\<lambda>r. \<not> (\<not> rulesEqual M ?s r \<and> \<not> rulesEqual M ?d r \<and> isSafeOwnedDropRule r)) rules =
      filter (\<lambda>r. \<not> isSafeOwnedDropRule r) rules"
    using eq dispatcher_not_safe by (intro filter_cong) auto
  let ?done = "length (filter (rulesEqual M ?s) rules) = 1 \<and> length (filter (rulesEqual M ?d) rules) = 1 \<and>
    length rules \<ge> 2 \<and> rulesEqual M ?s (rules ! 0) \<and> rulesEqual M ?d (rules ! 1) \<and>
    list_all isSafeOwnedDropRule (drop (min 2 (length rules)) rules)"
  show ?thesis
  proof (cases ?done)
    case True
    then have "ensureDispatchersAtHead F M rules = (\<lambda>c. (c, None))"
      by (intro ext) (simp only: ensureDispatchersAtHead_def Let_def if_True simp_thms)
    moreover have "rules ! 0 \<in> set rules" "rules ! 1 \<in> set rules"
      using True by (intro nth_mem; linarith)+
    then have "dispatch_head rules rules"
      using True eq(1) [of "rules ! 0"] eq(2) [of "rules ! 1"] by (intro dispatch_head_done) (simp_all only:)
    ultimately show ?thesis by (simp add: edit_spec_skip turns_def)
  next
    case False
    then have step: "ensureDispatchersAtHead F M rules =
        (\<lambda>c. case delete_rules F (filter (\<lambda>r. \<not> isSafeOwnedDropRule r) rules) c of (c, Some e) \<Rightarrow> (c, Some e)
          | (c, None) \<Rightarrow> (fc_InsertRule F ?s (fc_InsertRule F ?d c), None))"
      unfolding dels [symmetric] by (intro ext) (simp only: ensureDispatchersAtHead_def Let_def if_False)
    have del: "spec (delete_rules F (filter (\<lambda>r. \<not> isSafeOwnedDropRule r) rules))
      (\<lambda>k a b. \<forall>ch rules'. rs_chains a ?n = Some (ch, rules') \<longrightarrow>
        distinct (map ru_Handle rules') \<longrightarrow> frame {?n} a b \<and>
        rs_chains b ?n = Some (ch, remove_handles (filter (\<lambda>r. \<not> isSafeOwnedDropRule r) rules) rules'))"
      by (rule delete_rules_spec) (use r in auto)
    have ins: "spec (\<lambda>c. (fc_InsertRule F ?s (fc_InsertRule F ?d c), None))
      (\<lambda>k a b. \<exists>m h h'. rs_InsertRule h ?d a = Some m \<and> rs_InsertRule h' ?s m = Some b)"
      using edit_spec_then [OF InsertRule_spec [OF nm(3)] InsertRule_spec [OF nm(1)]]
      by (auto elim!: edit_spec_mono)
    from edit_spec_then [OF del ins] show ?thesis
      unfolding step
    proof (rule edit_spec_mono, elim exE conjE)
      fix k a b m m' h h'
      assume m: "\<forall>ch rules'. rs_chains a ?n = Some (ch, rules') \<longrightarrow>
        distinct (map ru_Handle rules') \<longrightarrow> frame {?n} a m \<and>
        rs_chains m ?n = Some (ch, remove_handles (filter (\<lambda>r. \<not> isSafeOwnedDropRule r) rules) rules')"
        and i1: "rs_InsertRule h ?d m = Some m'" and i2: "rs_InsertRule h' ?s m' = Some b"
      show "turns ?n rules dispatch_head a b"
      proof (rule turnsI)
        fix ch0 assume "rs_chains a ?n = Some (ch0, rules)"
        with m d have am: "frame {?n} a m" "rs_chains m ?n = Some (ch0, filter isSafeOwnedDropRule rules)"
          by (simp_all add: remove_handles_filter)
        with rs_InsertRule_effect [OF i1] nm have m': "frame {?n} m m'"
          "rs_chains m' ?n = Some (ch0, ?d\<lparr>ru_Handle := h\<rparr> # filter isSafeOwnedDropRule rules)" by auto
        with rs_InsertRule_effect [OF i2] nm have b: "frame {?n} m' b"
          "rs_chains b ?n = Some (ch0, ?s\<lparr>ru_Handle := h'\<rparr> # ?d\<lparr>ru_Handle := h\<rparr> # filter isSafeOwnedDropRule rules)"
          by auto
        have "frame {?n} a b" using frame_trans [OF frame_trans [OF am(1) m'(1)] b(1)] by simp
        with b(2) show "frame {?n} a b \<and> (\<exists>rules'. rs_chains b ?n = Some (ch0, rules') \<and> dispatch_head rules rules')"
          by (auto simp: dispatch_head_def)
      qed
    qed
  qed
qed

end

section \<open>The steps of the repair\<close>

definition chain_or :: "nft_chain \<Rightarrow> (nft_chain \<times> nft_rule list) option \<Rightarrow> nft_chain" where
  "chain_or d x = (case x of None \<Rightarrow> d | Some (ch, _) \<Rightarrow> ch)"

text \<open>A chain is rewritten, or created from \<open>d\<close>; \<open>k\<close> is the committed ruleset.\<close>

definition chain_edit :: "string \<Rightarrow> nft_chain \<Rightarrow> (nft_rule list \<Rightarrow> nft_rule list \<Rightarrow> bool) \<Rightarrow>
    ruleset \<Rightarrow> ruleset \<Rightarrow> ruleset \<Rightarrow> bool" where
  "chain_edit n d P k a b \<longleftrightarrow>
     (rs_chains a n = rs_chains k n \<longrightarrow>
        frame {n} a b \<and> (\<exists>rules'. rs_chains b n = Some (chain_or d (rs_chains k n), rules') \<and> P (rs_rules k n) rules'))"

lemma turns_chain_edit:
  "rs_chains k n = Some (ch, rules) \<Longrightarrow> turns n rules P a b \<Longrightarrow> chain_edit n d P k a b"
  by (auto simp: chain_edit_def turns_def chain_or_def rs_rules_def)

lemma base_chain_sel [simp]: "ch_Name (base_chain n hook) = n" "ch_Table (base_chain n hook) = Some filterTable"
  by (simp_all add: base_chain_def)

lemma jump_rule_sel [simp]:
  "ru_Table (createJumpRule ch n) = Some filterTable" "ru_Chain (createJumpRule ch n) = ch"
  by (simp_all add: createJumpRule_def)

context firewall_client
begin

lemma repair_docker_spec:
  assumes "marshal_ok M"
  shows "spec (repair_docker F M ch) (chain_edit (ch_Name ch) ch jump_head)"
proof -
  have "spec (\<lambda>c. case fc_GetRules F filterTable ch c of
        Inl e \<Rightarrow> (c, Some (Wrap ''error listing rules of DOCKER-USER chain'' e))
      | Inr rules \<Rightarrow> (case ensureJumpAtHead F M (createJumpRule ch whalewallChainName) rules c of
          (c, Some e) \<Rightarrow> (c, Some (Wrap ''error repairing DOCKER-USER jump'' e)) | (c, None) \<Rightarrow> (c, None)))
    (\<lambda>k a b. \<exists>ch' rules. rs_chains k (ch_Name ch) = Some (ch', rules) \<and> turns (ch_Name ch) rules jump_head a b)"
    by (intro GetRules_spec edit_spec_wrap ensureJumpAtHead_spec assms)
  then show ?thesis unfolding repair_docker_def by (rule edit_spec_mono) (blast intro: turns_chain_edit)
qed

lemma handleMainChain_spec:
  assumes M: "marshal_ok M" and name: "\<And>ch. v = Some ch \<Longrightarrow> ch_Name ch = n"
  shows "spec (handleMainChain F M n hook v)
    (\<lambda>k a b. (v = None \<longrightarrow> rs_chains k n = None) \<longrightarrow> chain_edit n (base_chain n hook) jump_head k a b)"
proof (cases v)
  case (Some ch)
  then have n: "ch_Name ch = n" by (rule name)
  have "spec (\<lambda>c. case fc_GetRules F filterTable ch c of
        Inl e \<Rightarrow> (c, Some (Wrap ''error listing rules'' e))
      | Inr rules \<Rightarrow> (case ensureJumpAtHead F M (createJumpRule ch whalewallChainName) rules c of
          (c, Some e) \<Rightarrow> (c, Some (Wrap ''error repairing jump'' e)) | (c, None) \<Rightarrow> (c, None)))
    (\<lambda>k a b. \<exists>ch' rules. rs_chains k (ch_Name ch) = Some (ch', rules) \<and> turns (ch_Name ch) rules jump_head a b)"
    by (intro GetRules_spec edit_spec_wrap ensureJumpAtHead_spec M)
  then show ?thesis unfolding handleMainChain_def Some option.case n
    by (rule edit_spec_mono) (blast intro: turns_chain_edit)
next
  case None
  let ?ch = "base_chain n hook"
  have "spec (\<lambda>c. case (fc_AddChain F ?ch c, None) of (c, Some e) \<Rightarrow> (c, Some e)
      | (c, None) \<Rightarrow> (fc_InsertRule F (createJumpRule ?ch whalewallChainName) c, None))
    (\<lambda>k a b. \<exists>m. rs_AddChain ?ch a = Some m \<and> (\<exists>h. ru_Handle (createJumpRule ?ch whalewallChainName) = 0 \<and> h \<noteq> 0 \<and>
      rs_InsertRule h (createJumpRule ?ch whalewallChainName) m = Some b))"
    by (rule edit_spec_then [OF AddChain_spec InsertRule_spec]) simp_all
  then have ins: "spec (handleMainChain F M n hook v)
    (\<lambda>k a b. \<exists>m h. rs_AddChain ?ch a = Some m \<and> rs_InsertRule h (createJumpRule ?ch whalewallChainName) m = Some b)"
    unfolding None handleMainChain_def by (auto simp: Let_def elim!: edit_spec_mono)
  then show ?thesis
  proof (rule edit_spec_mono, intro impI, elim exE conjE)
    fix k a b m :: ruleset and h
    assume k: "v = None \<longrightarrow> rs_chains k n = None" and m: "rs_AddChain ?ch a = Some m"
      and i: "rs_InsertRule h (createJumpRule ?ch whalewallChainName) m = Some b"
    show "chain_edit n ?ch jump_head k a b"
      unfolding chain_edit_def
    proof
      assume "rs_chains a n = rs_chains k n"
      with k None have "rs_chains a n = None" "rs_chains k n = None" by simp_all
      with rs_AddChain_effect [OF m] have am: "frame {n} a m" "rs_chains m n = Some (?ch, [])" by simp_all
      with rs_InsertRule_effect [OF i] have mb: "frame {n} m b"
        "rs_chains b n = Some (?ch, [(createJumpRule ?ch whalewallChainName)\<lparr>ru_Handle := h\<rparr>])" by auto
      have "frame {n} a b" using frame_trans [OF am(1) mb(1)] by simp
      with mb(2) \<open>rs_chains k n = None\<close>
      show "frame {n} a b \<and> (\<exists>rules'. rs_chains b n = Some (chain_or ?ch (rs_chains k n), rules') \<and>
          jump_head (rs_rules k n) rules')"
        by (simp add: chain_or_def rs_rules_def jump_head_def)
    qed
  qed
qed

lemma add_address_set_spec:
  "spec (add_address_set F missing) (\<lambda>k a b. rs_chains b = rs_chains a \<and>
     rs_sets b = (if missing then rs_sets (rs_AddSet containerAddressSet [] a) else rs_sets a))"
proof (cases missing)
  case False
  then show ?thesis unfolding add_address_set_def by (simp add: edit_spec_skip)
next
  case True
  show ?thesis
    unfolding edit_spec_def
  proof (intro allI impI)
    fix c c' e
    assume c: "ok c" "add_address_set F missing c = (c', e)"
    obtain c1 res where add: "fc_AddSet F containerAddressSet [] c = (c1, res)" by force
    have c1: "ok c1 \<and> committed c1 = committed c" using AddSet_ok [OF c(1) _ _ add] by simp
    show "ok c' \<and> committed c' = committed c \<and> (e = None \<longrightarrow> (\<forall>rs'. staged c' = Some rs' \<longrightarrow>
      (\<exists>rs. staged c = Some rs \<and> rs_chains rs' = rs_chains rs \<and>
        rs_sets rs' = (if missing then rs_sets (rs_AddSet containerAddressSet [] rs) else rs_sets rs))))"
    proof (cases res)
      case (Inl x)
      with True c(2) add c1 show ?thesis by (auto simp: add_address_set_def)
    next
      case (Inr s)
      with True c(2) add have out: "c' = c1" "e = None" by (simp_all add: add_address_set_def)
      have "\<exists>rs. staged c = Some rs \<and> rs_chains rs' = rs_chains rs \<and>
          rs_sets rs' = rs_sets (rs_AddSet containerAddressSet [] rs)" if "staged c1 = Some rs'" for rs'
        using AddSet_staged [OF c(1) _ _ add [unfolded Inr] that] by (auto simp: rs_AddSet_def)
      with True out c1 show ?thesis by simp
    qed
  qed
qed

end

section \<open>Inspection\<close>

lemma last_chain_Some: "last_chain n chs = Some ch \<Longrightarrow> ch \<in> set chs \<and> in_filter ch \<and> ch_Name ch = n"
  unfolding last_chain_def find_Some_iff by (metis length_rev nth_mem set_rev)

lemma last_chain_None: "last_chain n chs = None \<longleftrightarrow> (\<forall>ch \<in> set chs. in_filter ch \<longrightarrow> ch_Name ch \<noteq> n)"
  by (auto simp: last_chain_def find_None_iff)

text \<open>What an inspection has seen of the committed ruleset \<open>k\<close>.\<close>

definition saw_chain :: "ruleset \<Rightarrow> string \<Rightarrow> nft_chain option \<Rightarrow> bool" where
  "saw_chain k n v \<longleftrightarrow>
     (case v of None \<Rightarrow> rs_chains k n = None | Some ch \<Rightarrow> ch_Name ch = n \<and> (\<exists>rules. rs_chains k n = Some (ch, rules)))"

definition forward_ready :: "ruleset \<Rightarrow> bool" where
  "forward_ready k \<longleftrightarrow>
     (\<exists>ch r rest. rs_chains k forwardChainName = Some (ch, r # rest) \<and> validateBaseChain ch (Some ChainHookForward) = None \<and>
        isUnconditionalJump r dockerChainName)"

definition address_map_ready :: "netlink_lib \<Rightarrow> ruleset \<Rightarrow> bool" where
  "address_map_ready N k \<longleftrightarrow>
     (\<exists>s els. rs_sets k containerAddrSetName = Some (s, els) \<and>
        containerAddressSetSchemaEqual s containerAddressSet \<and>
        (\<forall>el \<in> set els. \<exists>v. containerMappingVerdict N el = Inr v))"

lemma schemaEqual_table:
  assumes "containerAddressSetSchemaEqual s containerAddressSet" shows "s_Table s = Some filterTable"
proof -
  obtain t where "s_Table s = Some t" "t_Name t = t_Name filterTable" "t_Family t = t_Family filterTable"
    using assms by (auto simp: containerAddressSetSchemaEqual_def Let_def split: option.splits)
  then show ?thesis by (cases t) (simp add: filterTable_def)
qed

context nft_reads
begin

lemma ListChains_saw:
  assumes "ok c" "fc_ListChainsOfTableFamily F TableFamilyIPv4 c = Inr chs"
  shows "saw_chain (committed c) n (last_chain n chs)"
proof (cases "last_chain n chs")
  case (Some ch)
  then have "ch \<in> set chs" "in_filter ch" "ch_Name ch = n" using last_chain_Some by blast+
  with ListChains_committed [OF assms] Some show ?thesis by (auto simp: saw_chain_def)
next
  case None
  have "rs_chains (committed c) n = None"
  proof (rule ccontr)
    assume "rs_chains (committed c) n \<noteq> None"
    then obtain ch rules where k: "rs_chains (committed c) n = Some (ch, rules)" by auto
    note wf = committed_wf [OF assms(1)]
    have "ch_Name ch = n" "ch_Table ch = Some filterTable" using wf k unfolding wf_ruleset_def by blast+
    with k ListChains_committed [OF assms] have "ch \<in> set chs" "in_filter ch" by auto
    with None \<open>ch_Name ch = n\<close> show False by (auto simp: last_chain_None)
  qed
  with None show ?thesis by (simp add: saw_chain_def)
qed

lemma inspect_forward_ok:
  assumes "ok c" "fc_ListChainsOfTableFamily F TableFamilyIPv4 c = Inr chs" "inspect_forward F chs c = None"
  shows "forward_ready (committed c)"
proof -
  obtain ch rules where ch: "last_chain forwardChainName chs = Some ch" "validateBaseChain ch (Some ChainHookForward) = None"
    "fc_GetRules F filterTable ch c = Inr rules" "rules \<noteq> []" "isUnconditionalJump (hd rules) dockerChainName"
    using assms(3) by (auto simp: inspect_forward_def split: option.splits sum.splits if_splits)
  have "ch_Name ch = forwardChainName" "\<exists>rules. rs_chains (committed c) forwardChainName = Some (ch, rules)"
    using ListChains_saw [OF assms(1,2), of forwardChainName] ch(1) by (simp_all add: saw_chain_def)
  moreover obtain ch' where "rs_chains (committed c) (ch_Name ch) = Some (ch', rules)"
    using GetRules_committed [OF assms(1) ch(3)] by blast
  ultimately show ?thesis using ch by (cases rules) (auto simp: forward_ready_def)
qed

lemma inspect_set_ok:
  assumes "ok c" "inspect_set F N c = Inr missing"
  shows "if missing then rs_sets (committed c) containerAddrSetName = None else address_map_ready N (committed c)"
proof (cases "fc_GetSetByName F filterTable containerAddrSetName c")
  case (Inl e)
  with assms(2) have "missing" "errors_is e (Errno ENOENT)" by (auto simp: inspect_set_def split: if_splits)
  with GetSetByName_missing [OF assms(1) Inl] show ?thesis by simp
next
  case (Inr s)
  with assms(2) obtain els where els: "containerAddressSetSchemaEqual s containerAddressSet"
    "fc_GetSetElements F s c = Inr els" "\<not> missing"
    "\<forall>el \<in> set els. (case containerMappingVerdict N el of Inl e \<Rightarrow> Some e | Inr _ \<Rightarrow> None) = None"
    by (auto simp: inspect_set_def split: if_splits sum.splits option.splits)
  obtain els0 where n: "s_Name s = containerAddrSetName" "rs_sets (committed c) containerAddrSetName = Some (s, els0)"
    using GetSetByName_committed [OF assms(1) _ Inr] by auto
  with GetSetElements_committed [OF assms(1) schemaEqual_table [OF els(1)] els(2)] have "els0 = els" by auto
  moreover have "\<exists>v. containerMappingVerdict N el = Inr v" if "el \<in> set els" for el
    using bspec [OF els(4) that] by (cases "containerMappingVerdict N el") simp_all
  ultimately show ?thesis using n els(1,3) by (auto simp: address_map_ready_def)
qed

end

section \<open>The whole batch\<close>

definition base_chains :: "string set" where
  "base_chains = {whalewallChainName, dockerChainName, inputChainName, outputChainName}"

text \<open>The jump at the head of a chain, the other rules as they were.\<close>

definition jump_installed :: "ruleset \<Rightarrow> ruleset \<Rightarrow> string \<Rightarrow> bool" where
  "jump_installed old new n \<longleftrightarrow>
     (\<exists>ch rules'. rs_chains new n = Some (ch, rules') \<and> jump_head (rs_rules old n) rules')"

definition dispatch_installed :: "ruleset \<Rightarrow> ruleset \<Rightarrow> bool" where
  "dispatch_installed old new \<longleftrightarrow>
     (\<exists>ch rules'. rs_chains new whalewallChainName = Some (ch, rules') \<and> validateRegularOwnedChain ch = None \<and>
        dispatch_head (rs_rules old whalewallChainName) rules')"

definition others_kept :: "ruleset \<Rightarrow> ruleset \<Rightarrow> bool" where
  "others_kept old new \<longleftrightarrow>
     (\<forall>n. n \<notin> base_chains \<longrightarrow> rs_chains new n = rs_chains old n) \<and>
     (\<forall>n. \<not> is_anon_name n \<longrightarrow> n \<noteq> containerAddrSetName \<longrightarrow> rs_sets new n = rs_sets old n) \<and>
     (rs_sets old containerAddrSetName \<noteq> None \<longrightarrow>
        rs_sets new containerAddrSetName = rs_sets old containerAddrSetName)"

definition base_installed :: "netlink_lib \<Rightarrow> ruleset \<Rightarrow> ruleset \<Rightarrow> bool" where
  "base_installed N old new \<longleftrightarrow>
     forward_ready new \<and> jump_installed old new dockerChainName \<and> jump_installed old new inputChainName \<and>
     jump_installed old new outputChainName \<and> dispatch_installed old new \<and> address_map_ready N new \<and>
     others_kept old new"

lemma base_names [simp]:
  "whalewallChainName \<noteq> dockerChainName" "whalewallChainName \<noteq> inputChainName" "whalewallChainName \<noteq> outputChainName"
  "dockerChainName \<noteq> inputChainName" "dockerChainName \<noteq> outputChainName" "inputChainName \<noteq> outputChainName"
  "dockerChainName \<noteq> whalewallChainName" "inputChainName \<noteq> whalewallChainName" "outputChainName \<noteq> whalewallChainName"
  "inputChainName \<noteq> dockerChainName" "outputChainName \<noteq> dockerChainName" "outputChainName \<noteq> inputChainName"
  "forwardChainName \<noteq> dockerChainName" "forwardChainName \<noteq> inputChainName" "forwardChainName \<noteq> outputChainName"
  "forwardChainName \<noteq> whalewallChainName"
  by (simp_all add: name_defs)

definition all_settled :: "nft_rule list \<Rightarrow> bool" where
  "all_settled rules \<longleftrightarrow> (\<forall>r \<in> set rules. pending_sets r = {})"

lemma settled_rules:
  assumes "wf_ruleset k" shows "all_settled (rs_rules k n)"
proof (cases "rs_chains k n")
  case (Some x)
  then obtain ch rules where "rs_chains k n = Some (ch, rules)" by (cases x) simp
  with wf_ruleset_chain(4) [OF assms this] show ?thesis by (simp add: all_settled_def rs_rules_def)
qed (simp add: all_settled_def rs_rules_def)

lemma jump_head_settled: "jump_head rules rules' \<Longrightarrow> all_settled rules \<Longrightarrow> all_settled rules'"
  using jump_settled by (auto simp: jump_head_def all_settled_def)

lemma dispatch_head_settled: "dispatch_head rules rules' \<Longrightarrow> all_settled rules \<Longrightarrow> all_settled rules'"
  using dispatcher_settled by (auto simp: dispatch_head_def all_settled_def)

lemma commit_settled:
  "rs_commits k b new \<Longrightarrow> rs_chains b n = Some (ch, rules) \<Longrightarrow> all_settled rules \<Longrightarrow> rs_chains new n = Some (ch, rules)"
  by (rule commit_chain_settled) (auto simp: all_settled_def)

lemma commit_unchanged:
  assumes "wf_ruleset k" "rs_commits k b new" "rs_chains b n = rs_chains k n"
  shows "rs_chains new n = rs_chains k n"
proof (cases "rs_chains k n")
  case None
  with assms(2,3) show ?thesis by (simp add: rs_commits_def committed_chains_def)
next
  case (Some x)
  then obtain ch rules where "rs_chains k n = Some (ch, rules)" by (cases x) simp
  with settled_rules [OF assms(1), of n] commit_settled [OF assms(2), of n ch rules] assms(3)
  show ?thesis by (simp add: rs_rules_def)
qed

lemma jump_committed:
  assumes "wf_ruleset k" "rs_commits k b new" "rs_chains b n = Some (ch, rules')" "jump_head (rs_rules k n) rules'"
  shows "jump_installed k new n"
  using commit_settled [OF assms(2,3) jump_head_settled [OF assms(4) settled_rules [OF assms(1)]]] assms(4)
  by (auto simp: jump_installed_def)

text \<open>The edits of one run, from the committed ruleset \<open>k\<close> to the staged one \<open>b\<close>.\<close>

definition base_edits :: "bool \<Rightarrow> nft_rule list \<Rightarrow> nft_chain \<Rightarrow> ruleset \<Rightarrow> ruleset \<Rightarrow> ruleset \<Rightarrow> bool" where
  "base_edits missing rules dk k a b \<longleftrightarrow>
     (\<exists>m1 m2 m3 m4. chain_edit dockerChainName dk jump_head k a m1 \<and>
        chain_edit inputChainName (base_chain inputChainName ChainHookInput) jump_head k m1 m2 \<and>
        chain_edit outputChainName (base_chain outputChainName ChainHookOutput) jump_head k m2 m3 \<and>
        rs_chains m4 = rs_chains m3 \<and>
        rs_sets m4 = (if missing then rs_sets (rs_AddSet containerAddressSet [] m3) else rs_sets m3) \<and>
        turns whalewallChainName rules dispatch_head m4 b)"

lemma base_edits_installed:
  assumes wf: "wf_ruleset k" and edits: "base_edits missing (rs_rules k whalewallChainName) dk k a b"
    and commits: "rs_commits k b new"
    and a: "frame {whalewallChainName} k a" "rs_chains a whalewallChainName = Some (w, rs_rules k whalewallChainName)"
      "validateRegularOwnedChain w = None"
    and fwd: "forward_ready k"
    and amap: "if missing then rs_sets k containerAddrSetName = None else address_map_ready N k"
  shows "base_installed N k new"
proof -
  let ?w = whalewallChainName
  obtain m1 m2 m3 m4 where steps:
    "chain_edit dockerChainName dk jump_head k a m1"
    "chain_edit inputChainName (base_chain inputChainName ChainHookInput) jump_head k m1 m2"
    "chain_edit outputChainName (base_chain outputChainName ChainHookOutput) jump_head k m2 m3"
    "rs_chains m4 = rs_chains m3"
    "rs_sets m4 = (if missing then rs_sets (rs_AddSet containerAddressSet [] m3) else rs_sets m3)"
    "turns ?w (rs_rules k ?w) dispatch_head m4 b"
    using edits unfolding base_edits_def by blast
  have d: "frame {dockerChainName} a m1" "\<exists>ch r. rs_chains m1 dockerChainName = Some (ch, r) \<and> jump_head (rs_rules k dockerChainName) r"
    using steps(1) a(1) unfolding chain_edit_def frame_def by auto
  have i: "frame {inputChainName} m1 m2" "\<exists>ch r. rs_chains m2 inputChainName = Some (ch, r) \<and> jump_head (rs_rules k inputChainName) r"
    using steps(2) a(1) d(1) unfolding chain_edit_def frame_def by auto
  have o: "frame {outputChainName} m2 m3" "\<exists>ch r. rs_chains m3 outputChainName = Some (ch, r) \<and> jump_head (rs_rules k outputChainName) r"
    using steps(3) a(1) d(1) i(1) unfolding chain_edit_def frame_def by auto
  have "rs_chains m4 ?w = Some (w, rs_rules k ?w)"
    using a(2) d(1) i(1) o(1) steps(4) by (simp add: frame_def)
  then obtain r' where w: "frame {?w} m4 b" "rs_chains b ?w = Some (w, r')" "dispatch_head (rs_rules k ?w) r'"
    using steps(6) unfolding turns_def by blast
  have sets: "rs_sets b n = rs_sets k n" if "\<not> is_anon_name n" "n \<noteq> containerAddrSetName \<or> \<not> missing" for n
    using that a(1) d(1) i(1) o(1) w(1) steps(5) by (auto simp: frame_def rs_AddSet_def split: if_splits)
  have new_set: "rs_sets b containerAddrSetName = Some (containerAddressSet, [])" if missing
    using that a(1) d(1) i(1) o(1) w(1) steps(5) amap by (auto simp: frame_def rs_AddSet_def)
  have others: "rs_chains b n = rs_chains k n" if "n \<notin> base_chains" for n
    using that a(1) d(1) i(1) o(1) w(1) steps(4) by (simp add: frame_def base_chains_def)
  have kept: "rs_chains new n = rs_chains k n" if "n \<notin> base_chains" for n
    using commit_unchanged [OF wf commits others [OF that]] .
  have "jump_installed k new dockerChainName" "jump_installed k new inputChainName" "jump_installed k new outputChainName"
    using d(2) i(2) o(2) i(1) o(1) w(1) steps(4) jump_committed [OF wf commits]
    by (auto simp: frame_def)
  moreover have "dispatch_installed k new"
    using commit_settled [OF commits w(2) dispatch_head_settled [OF w(3) settled_rules [OF wf]]] w(3) a(3)
    by (auto simp: dispatch_installed_def)
  moreover have "forward_ready new"
    using fwd kept [of forwardChainName] by (simp add: forward_ready_def base_chains_def)
  moreover have "address_map_ready N new"
    using amap new_set sets [of containerAddrSetName] commit_named_set [OF commits, of containerAddrSetName]
    by (cases missing) (auto simp: address_map_ready_def)
  moreover have "others_kept k new"
    using kept sets amap commit_named_set [OF commits] by (cases missing) (auto simp: others_kept_def)
  ultimately show ?thesis by (simp add: base_installed_def)
qed

context firewall_client
begin

lemma inspectBase_ok:
  assumes "ok c" "inspectBase F N c = Inr v"
  shows "saw_chain (committed c) whalewallChainName (bv_whalewall v) \<and>
    saw_chain (committed c) dockerChainName (Some (bv_docker v)) \<and>
    saw_chain (committed c) inputChainName (bv_input v) \<and> saw_chain (committed c) outputChainName (bv_output v) \<and>
    forward_ready (committed c) \<and>
    (if bv_setMissing v then rs_sets (committed c) containerAddrSetName = None else address_map_ready N (committed c))"
proof -
  obtain chs dk missing where chs: "fc_ListChainsOfTableFamily F TableFamilyIPv4 c = Inr chs"
    "inspect_docker chs = Inr dk" "inspect_forward F chs c = None" "inspect_set F N c = Inr missing"
    and v: "v = \<lparr>bv_whalewall = last_chain whalewallChainName chs, bv_docker = dk,
      bv_input = last_chain inputChainName chs, bv_output = last_chain outputChainName chs, bv_setMissing = missing\<rparr>"
    using assms(2) by (auto simp: inspectBase_def Let_def first_check_def split: sum.splits option.splits)
  have "last_chain dockerChainName chs = Some dk"
    using chs(2) by (auto simp: inspect_docker_def split: option.splits)
  with ListChains_saw [OF assms(1) chs(1), of dockerChainName]
  have "saw_chain (committed c) dockerChainName (Some dk)" by simp
  then show ?thesis
    unfolding v base_view.simps
    by (intro conjI ListChains_saw [OF assms(1) chs(1)] inspect_forward_ok [OF assms(1) chs(1,3)]
        inspect_set_ok [OF assms(1) chs(4)])
qed

lemma open_whalewall_ok:
  assumes "ok c" "saw_chain (committed c) whalewallChainName v" "staged c = Some (committed c)"
    and "open_whalewall F v c = (c', res)"
  shows "ok c' \<and> committed c' = committed c \<and>
    (\<forall>rules. res = Inr rules \<longrightarrow> rules = rs_rules (committed c) whalewallChainName \<and>
      (\<forall>a. staged c' = Some a \<longrightarrow> frame {whalewallChainName} (committed c) a \<and>
        (\<exists>w. rs_chains a whalewallChainName = Some (w, rules) \<and> validateRegularOwnedChain w = None)))"
proof (cases v)
  case None
  have t: "ch_Table whalewallChain = Some filterTable" "ch_Name whalewallChain = whalewallChainName"
    "validateRegularOwnedChain whalewallChain = None"
    by (simp_all add: whalewallChain_def)
  have k: "rs_chains (committed c) whalewallChainName = None" using assms(2) None by (simp add: saw_chain_def)
  have out: "c' = fc_AddChain F whalewallChain c" "res = Inr []" using assms(4) None by (auto simp: open_whalewall_def)
  have "frame {whalewallChainName} (committed c) a \<and> rs_chains a whalewallChainName = Some (whalewallChain, [])"
    if "staged c' = Some a" for a
    using AddChain_staged [OF assms(1) t(1), of a] that assms(3) out rs_AddChain_effect [of whalewallChain "committed c" a] k t
    by auto
  with AddChain_ok [OF assms(1) t(1)] out k t show ?thesis by (auto simp: rs_rules_def)
next
  case (Some ch)
  obtain rules0 where k: "rs_chains (committed c) whalewallChainName = Some (ch, rules0)"
    using assms(2) Some by (auto simp: saw_chain_def)
  have same: "c' = c" using assms(4) Some by (auto simp: open_whalewall_def split: option.splits sum.splits)
  have "rules = rules0 \<and> validateRegularOwnedChain ch = None" if "res = Inr rules" for rules
  proof -
    have valid: "validateRegularOwnedChain ch = None" and get: "fc_GetRules F filterTable whalewallChain c = Inr rules"
      using assms(4) Some that by (auto simp: open_whalewall_def split: option.splits sum.splits)
    from GetRules_committed [OF assms(1) get] k have "rules = rules0"
      by (simp add: whalewallChain_def regular_chain_def)
    with valid show ?thesis by simp
  qed
  with same assms(1,3) k show ?thesis by (auto simp: rs_rules_def)
qed

lemma base_edits_spec:
  assumes M: "marshal_ok M" and n: "ch_Name dk = dockerChainName"
    "\<And>ch. i = Some ch \<Longrightarrow> ch_Name ch = inputChainName" "\<And>ch. ov = Some ch \<Longrightarrow> ch_Name ch = outputChainName"
    and rules: "distinct (map ru_Handle rules)"
      "\<forall>r \<in> set rules. ru_Table r = Some filterTable \<and> ch_Name (ru_Chain r) = whalewallChainName"
  shows "spec (st_seq [repair_docker F M dk, handleMainChain F M inputChainName ChainHookInput i,
      handleMainChain F M outputChainName ChainHookOutput ov, add_address_set F missing, ensureDispatchersAtHead F M rules])
    (\<lambda>k a b. (i = None \<longrightarrow> rs_chains k inputChainName = None) \<longrightarrow> (ov = None \<longrightarrow> rs_chains k outputChainName = None) \<longrightarrow>
       base_edits missing rules dk k a b)"
  by (rule edit_spec_mono [OF edit_spec_Cons [OF repair_docker_spec [OF M, of dk, unfolded n(1)]
      edit_spec_Cons [OF handleMainChain_spec [OF M, of i inputChainName ChainHookInput, OF n(2)]
      edit_spec_Cons [OF handleMainChain_spec [OF M, of ov outputChainName ChainHookOutput, OF n(3)]
      edit_spec_Cons [OF add_address_set_spec
      edit_spec_Cons [OF ensureDispatchersAtHead_spec [OF M rules] edit_spec_Nil]]]]]])
    (assumption, assumption, unfold base_edits_def, intro impI, elim exE conjE, drule (1) mp, drule (1) mp, blast)

lemma repairBase_ok:
  assumes c: "ok c" "staged c = Some (committed c)" and M: "marshal_ok M"
    and saw: "saw_chain (committed c) whalewallChainName (bv_whalewall v)"
      "saw_chain (committed c) dockerChainName (Some (bv_docker v))"
      "saw_chain (committed c) inputChainName (bv_input v)" "saw_chain (committed c) outputChainName (bv_output v)"
      "forward_ready (committed c)"
      "if bv_setMissing v then rs_sets (committed c) containerAddrSetName = None else address_map_ready N (committed c)"
    and run: "repairBase F M v c = (c', e)"
  shows "ok c' \<and> (e \<noteq> None \<longrightarrow> committed c' = committed c) \<and>
    (e = None \<longrightarrow> staged c' = Some (committed c') \<and> base_installed N (committed c) (committed c'))"
proof -
  let ?w = whalewallChainName
  note wf = committed_wf [OF c(1)]
  obtain c1 res where op: "open_whalewall F (bv_whalewall v) c = (c1, res)" by force
  note o = open_whalewall_ok [OF c(1) saw(1) c(2) op]
  show ?thesis
  proof (cases res)
    case (Inl x)
    with run op o show ?thesis by (auto simp: repairBase_def)
  next
    case (Inr rules)
    with o have r: "rules = rs_rules (committed c) ?w" and c1: "ok c1" "committed c1 = committed c" by auto
    let ?steps = "[repair_docker F M (bv_docker v), handleMainChain F M inputChainName ChainHookInput (bv_input v),
      handleMainChain F M outputChainName ChainHookOutput (bv_output v), add_address_set F (bv_setMissing v),
      ensureDispatchersAtHead F M rules]"
    have seq: "st_seq [st_seq ?steps, flush_wrap ''error flushing nftables commands'' F] c1 = (c', e)"
      unfolding st_seq_snoc [symmetric] using run op Inr by (simp add: repairBase_def del: st_seq.simps)
    have "distinct (map ru_Handle rules) \<and>
        (\<forall>r \<in> set rules. ru_Table r = Some filterTable \<and> ch_Name (ru_Chain r) = ?w)"
      using wf unfolding r wf_ruleset_def rs_rules_def by (cases "rs_chains (committed c) ?w") auto
    then have sp: "spec (st_seq ?steps) (\<lambda>k a b. (bv_input v = None \<longrightarrow> rs_chains k inputChainName = None) \<longrightarrow>
        (bv_output v = None \<longrightarrow> rs_chains k outputChainName = None) \<longrightarrow>
        base_edits (bv_setMissing v) rules (bv_docker v) k a b)"
      using saw(2-4) by (intro base_edits_spec M) (auto simp: saw_chain_def)
    from flush_spec [OF sp c1(1) seq] have fl: "ok c'" "e \<noteq> None \<Longrightarrow> committed c' = committed c1"
      "e = None \<Longrightarrow> staged c' = Some (committed c')" by auto
    have "base_installed N (committed c) (committed c')" if "e = None"
    proof -
      from flush_spec [OF sp c1(1) seq] that obtain a b where ab: "staged c1 = Some a"
        "rs_commits (committed c) b (committed c')" "base_edits (bv_setMissing v) rules (bv_docker v) (committed c) a b"
        using saw(3,4) c1(2) by (auto simp: saw_chain_def)
      from o Inr ab(1) obtain w where w: "frame {?w} (committed c) a" "rs_chains a ?w = Some (w, rules)"
        "validateRegularOwnedChain w = None" by blast
      show ?thesis by (rule base_edits_installed [OF wf ab(3)[unfolded r] ab(2) w(1) w(2)[unfolded r] w(3) saw(5,6)])
    qed
    with fl c1(2) show ?thesis by simp
  qed
qed

end

lemma base_rules_outcome:
  assumes "firewall_client F ok committed staged" and "marshal_ok M" and "ok c"
    and "createBaseRules F N M c = (c', e)"
  shows "ok c' \<and> (e \<noteq> None \<longrightarrow> committed c' = committed c) \<and>
    (e = None \<longrightarrow> base_installed N (committed c) (committed c'))"
proof -
  obtain c1 e1 where new: "fc_New F c = (c1, e1)" by force
  note ok1 = firewall_client.New_ok [OF assms(1,3) new]
  show ?thesis
  proof (cases e1)
    case (Some x)
    with assms(4) new ok1 show ?thesis by (auto simp: createBaseRules_def)
  next
    case None
    have st: "staged c1 = Some (committed c1)"
      using firewall_client.New_staged [OF assms(1,3)] new None by blast
    show ?thesis
    proof (cases "inspectBase F N c1")
      case (Inl x)
      with assms(4) new None ok1 show ?thesis by (auto simp: createBaseRules_def)
    next
      case (Inr v)
      have "ok c1" using ok1 by simp
      note saw = firewall_client.inspectBase_ok [OF assms(1) this Inr]
      have "repairBase F M v c1 = (c', e)" using assms(4) new None Inr by (simp add: createBaseRules_def)
      with firewall_client.repairBase_ok [OF assms(1) \<open>ok c1\<close> st assms(2), of v N c' e] saw ok1
      show ?thesis by metis
    qed
  qed
qed

text \<open>C11: A run of \<open>createBaseRules\<close> is all or nothing. When it reports an error, the ruleset is
  exactly what it was. When it succeeds, FORWARD begins with an unconditional jump to DOCKER-USER, the
  chains DOCKER-USER, INPUT and OUTPUT have the jump to the Whalewall chain at their head and nowhere
  else, with their other rules in their old order; the Whalewall chain is a regular chain that holds the
  source dispatcher, then the destination dispatcher, then only those of its old rules that drop; the
  address map has the right schema and only mappings the program owns; and every other chain and set is
  untouched.\<close>

theorem createBaseRules_correct:
  assumes "firewall_client F ok committed staged" and "marshal_ok M" and "ok c"
    and "createBaseRules F N M c = (c', e)"
  shows "ok c' \<and> (e \<noteq> None \<longrightarrow> committed c' = committed c) \<and>
    (e = None \<longrightarrow> base_installed N (committed c) (committed c'))"
  using assms by (rule base_rules_outcome)

section \<open>What the Whalewall chain does with a packet\<close>

text \<open>
  The rules left in the Whalewall chain may read more of a packet than \<open>Packet_Spec\<close> models:
  other metadata, other connection-tracking keys, other header fields. Their meaning is therefore
  taken for every answer the kernel may give to such a reading, as an argument of the semantics. What
  stays \<open>Unknown\<close> is an expression that changes something (a payload write, a write to
  metadata or connection tracking) or that is none of the modelled ones.
\<close>

type_synonym reading = "nexpr \<Rightarrow> byte list"

definition modelled_field :: "payload_expr \<Rightarrow> bool" where
  "modelled_field e \<longleftrightarrow>
     (case pl_Base e of
        PayloadBaseNetworkHeader \<Rightarrow> 12 \<le> pl_Offset e \<and> pl_Offset e + pl_Len e \<le> 20
      | PayloadBaseTransportHeader \<Rightarrow> pl_Offset e + pl_Len e \<le> 4
      | PayloadBaseLLHeader \<Rightarrow> False)"

fun observe_exprs :: "reading \<Rightarrow> ruleset \<Rightarrow> packet \<Rightarrow> registers \<Rightarrow> nexpr list \<Rightarrow> outcome" where
  "observe_exprs rd rs p regs [] = Fallthrough"
| "observe_exprs rd rs p regs (ECounter _ _ # es) = observe_exprs rd rs p regs es"
| "observe_exprs rd rs p regs (ELog _ # es) = observe_exprs rd rs p regs es"
| "observe_exprs rd rs p regs (EPayload e # es) =
     (if pl_OperationType e = PayloadWrite then Unknown
      else observe_exprs rd rs p (regs(pl_DestRegister e :=
             (if modelled_field e then take (pl_Len e) (drop (pl_Offset e) (header_bytes p (pl_Base e)))
              else rd (EPayload e)))) es)"
| "observe_exprs rd rs p regs (ECmp e # es) =
     (if cmp_bytes (cm_Op e) (take (length (cm_Data e)) (regs (cm_Register e))) (cm_Data e)
      then observe_exprs rd rs p regs es else NoMatch)"
| "observe_exprs rd rs p regs (EMeta e # es) =
     (if me_SourceRegister e then Unknown
      else observe_exprs rd rs p (regs(me_Register e :=
             (if me_Key e = MetaKeyL4PROTO then [p_proto p] else rd (EMeta e)))) es)"
| "observe_exprs rd rs p regs (ECt e # es) =
     (if cx_SourceRegister e then Unknown
      else observe_exprs rd rs p (regs(cx_Register e :=
             (if cx_Key e = CtKeySTATE then le32 (p_ctstate p) else rd (ECt e)))) es)"
| "observe_exprs rd rs p regs (EBitwise e # es) =
     observe_exprs rd rs p (regs(bw_DestRegister e :=
       map2 (\<lambda>b (m, x). Bit_Operations.xor (Bit_Operations.and b m) x)
         (take (bw_Len e) (regs (bw_SourceRegister e))) (zip (bw_Mask e) (bw_Xor e)))) es"
| "observe_exprs rd rs p regs (ELookup l # es) =
     (case resolve_set rs l of
        None \<Rightarrow> Unknown
      | Some s \<Rightarrow>
          if lk_IsDestRegSet l
          then (case verdict_of s (regs (lk_SourceRegister l)) of None \<Rightarrow> NoMatch | Some v \<Rightarrow> Decided v)
          else if in_set s (regs (lk_SourceRegister l)) \<noteq> lk_Invert l
          then observe_exprs rd rs p regs es else NoMatch)"
| "observe_exprs rd rs p regs (EQueue n # es) = Queued n"
| "observe_exprs rd rs p regs (EVerdict v # es) = Decided v"
| "observe_exprs rd rs p regs (EOther _ # es) = Unknown"

fun observe_chain :: "reading \<Rightarrow> ruleset \<Rightarrow> packet \<Rightarrow> nft_rule list \<Rightarrow> outcome" where
  "observe_chain rd rs p [] = Fallthrough"
| "observe_chain rd rs p (r # rules) =
     (case observe_exprs rd rs p (\<lambda>_. []) (ru_Exprs r) of
        NoMatch \<Rightarrow> observe_chain rd rs p rules
      | Fallthrough \<Rightarrow> observe_chain rd rs p rules
      | out \<Rightarrow> out)"

text \<open>Where \<open>Packet_Spec\<close> knows the outcome of a rule, this is it, if header fields are read
  as there.\<close>

lemma observe_exprs_known:
  assumes "\<forall>e. rd (EPayload e) = take (pl_Len e) (drop (pl_Offset e) (header_bytes p (pl_Base e)))"
    and "run_exprs rs p regs es \<noteq> Unknown"
  shows "observe_exprs rd rs p regs es = run_exprs rs p regs es"
  using assms by (induction rs p regs es rule: run_exprs.induct) (auto split: if_splits option.splits)

definition only_drops :: "outcome \<Rightarrow> bool" where
  "only_drops out \<longleftrightarrow> out = Fallthrough \<or> (\<exists>v. out = Decided v \<and> vd_Kind v = VerdictDrop)"

lemma safe_drop_outcome:
  "safe_drop_exprs es \<Longrightarrow> observe_exprs rd rs p regs es = NoMatch \<or> only_drops (observe_exprs rd rs p regs es)"
proof (induction es arbitrary: regs)
  case (Cons e es)
  then have IH: "observe_exprs rd rs p regs es = NoMatch \<or> only_drops (observe_exprs rd rs p regs es)" for regs
    by simp
  from Cons.prems show ?case using IH by (cases e) (auto simp: only_drops_def)
qed (simp add: only_drops_def)

lemma safe_rules_only_drop:
  "\<forall>r \<in> set rules. isSafeOwnedDropRule r \<Longrightarrow> only_drops (observe_chain rd rs p rules)"
proof (induction rules)
  case (Cons r rules)
  then have "safe_drop_exprs (ru_Exprs r)" by (auto simp: isSafeOwnedDropRule_def split: if_splits)
  from safe_drop_outcome [OF this, of rd rs p "\<lambda>_. []"] Cons show ?case by (auto simp: only_drops_def)
qed (simp add: only_drops_def)

lemma dispatcher_outcome:
  assumes "is_dispatcher n r" "rs_sets rs containerAddrSetName = Some m" "12 \<le> n" "n \<le> 16"
  shows "observe_exprs rd rs p regs (ru_Exprs r) =
    (case verdict_of m (take 4 (drop n (header_bytes p PayloadBaseNetworkHeader))) of
       None \<Rightarrow> NoMatch | Some v \<Rightarrow> Decided v)"
proof -
  have "containerAddrSetName \<noteq> anonSetName" by (simp add: name_defs)
  with assms show ?thesis
    by (simp add: is_dispatcher_def dispatcherExprs_def resolve_set_def modelled_field_def)
qed

lemma verdict_of_owned:
  assumes "address_map_ready N rs" "rs_sets rs containerAddrSetName = Some m" "verdict_of m k = Some v"
  shows "vd_Kind v = VerdictGoto \<and> (\<exists>cid. containerIDFromChainName (vd_Chain v) = Inr cid)"
proof -
  obtain el where el: "el \<in> set (snd m)" "el_VerdictData el = Some v"
    using assms(3) nth_mem by (force simp: verdict_of_def find_Some_iff split: option.splits)
  have "\<forall>el \<in> set (snd m). \<exists>w. containerMappingVerdict N el = Inr w"
    using assms(1,2) by (auto simp: address_map_ready_def)
  with el(1) obtain w where "containerMappingVerdict N el = Inr w" by blast
  with containerMappingVerdict_data [OF el(2)] containerMappingVerdict_owned show ?thesis by blast
qed

text \<open>C12: After a successful run the Whalewall chain is a dispatcher and nothing more. Behind the two
  dispatchers it holds only rules it held before and that the program owns. A packet whose source
  address is in the address map goes to the verdict mapped there, which is a GOTO to a chain of a
  container; otherwise a packet whose destination address is mapped goes to that one; and a packet that
  belongs to no container is never accepted, queued, changed or sent elsewhere by the chain: it returns
  to Docker's rules or is dropped, whatever the kernel reads for the metadata, connection-tracking keys
  and header fields that the rules may look at.\<close>

theorem base_rules_dispatch:
  assumes "firewall_client F ok committed staged" and "marshal_ok M" and "ok c"
    and "createBaseRules F N M c = (c', None)"
  shows "\<exists>m. rs_sets (committed c') containerAddrSetName = Some m \<and>
    (\<forall>r \<in> set (drop 2 (rs_rules (committed c') whalewallChainName)).
       r \<in> set (rs_rules (committed c) whalewallChainName) \<and> ru_UserData r \<noteq> []) \<and>
    (let src = verdict_of m (be32 (p_src p)); dst = verdict_of m (be32 (p_dst p));
         out = observe_chain rd (committed c') p (rs_rules (committed c') whalewallChainName)
     in (case src of
           Some v \<Rightarrow> out = Decided v \<and> vd_Kind v = VerdictGoto \<and>
             (\<exists>cid. containerIDFromChainName (vd_Chain v) = Inr cid)
         | None \<Rightarrow> (case dst of
             Some v \<Rightarrow> out = Decided v \<and> vd_Kind v = VerdictGoto \<and>
               (\<exists>cid. containerIDFromChainName (vd_Chain v) = Inr cid)
           | None \<Rightarrow> only_drops out)))"
proof -
  have base: "base_installed N (committed c) (committed c')"
    using base_rules_outcome [OF assms] by simp
  then obtain m where m: "rs_sets (committed c') containerAddrSetName = Some m" and amap: "address_map_ready N (committed c')"
    by (auto simp: base_installed_def address_map_ready_def)
  from base obtain s d where r: "rs_rules (committed c') whalewallChainName =
      s # d # filter isSafeOwnedDropRule (rs_rules (committed c) whalewallChainName)"
    "is_dispatcher 12 s" "is_dispatcher 16 d"
    by (auto simp: base_installed_def dispatch_installed_def dispatch_head_def rs_rules_def)
  have run: "observe_exprs rd (committed c') p regs (ru_Exprs s) =
      (case verdict_of m (be32 (p_src p)) of None \<Rightarrow> NoMatch | Some v \<Rightarrow> Decided v)"
    "observe_exprs rd (committed c') p regs (ru_Exprs d) =
      (case verdict_of m (be32 (p_dst p)) of None \<Rightarrow> NoMatch | Some v \<Rightarrow> Decided v)" for regs
    using dispatcher_outcome [OF r(2) m] dispatcher_outcome [OF r(3) m] by (simp_all add: header_bytes_addr)
  have rest: "only_drops (observe_chain rd (committed c') p
      (filter isSafeOwnedDropRule (rs_rules (committed c) whalewallChainName)))"
    by (rule safe_rules_only_drop) simp
  have old: "\<forall>r \<in> set (drop 2 (rs_rules (committed c') whalewallChainName)).
      r \<in> set (rs_rules (committed c) whalewallChainName) \<and> ru_UserData r \<noteq> []"
    by (auto simp: r(1) isSafeOwnedDropRule_def)
  show ?thesis
    using m old run rest verdict_of_owned [OF amap m]
    by (intro exI [of _ m]) (auto simp: r(1) Let_def split: option.splits)
qed

end
