(* ===== verification/Sample_Host.thy ===== *)
theory Sample_Host
  imports Base_Correct
begin

text \<open>
  A Docker host on the mock client, for examples: DOCKER-USER, and FORWARD with the jump to it. A predicate
  on batches that have not been poisoned shows that a run of \<open>createBaseRules\<close> on it succeeds.
\<close>

definition forward_chain :: nft_chain where
  "forward_chain = base_chain forwardChainName ChainHookForward"

definition forward_rule :: nft_rule where
  "forward_rule = createJumpRule forward_chain dockerChainName"

definition docker_setup :: mockFirewall where
  "docker_setup = mf_AddRule forward_rule (mf_AddChain forward_chain
     (mf_AddChain (regular_chain dockerChainName) (mf_AddTable filterTable newMockFirewallCreator)))"

definition docker_host :: mockFirewall where
  "docker_host = \<lparr>mf_changed = False, mf_tables = [(filterTableName, empty_mock_table)],
     mf_chains = [(dockerChainName, regular_chain dockerChainName, []),
       (forwardChainName, forward_chain, [forward_rule\<lparr>ru_Handle := 1\<rparr>])],
     mf_flushErr = None, mf_baseTables = [(filterTableName, empty_mock_table)],
     mf_baseChains = [(dockerChainName, regular_chain dockerChainName, []),
       (forwardChainName, forward_chain, [forward_rule\<lparr>ru_Handle := 1\<rparr>])],
     mf_nextSetID = 0, mf_nextRuleID = 1\<rparr>"

lemma forward_names [simp]: "dockerChainName \<noteq> forwardChainName" "inputChainName \<noteq> forwardChainName"
  "outputChainName \<noteq> forwardChainName" "whalewallChainName \<noteq> forwardChainName"
  by (simp_all add: name_defs)

lemma mock_add_chain:
  "map_of (mf_chains m) (ch_Name c) = None \<Longrightarrow>
   mf_AddChain c m = m\<lparr>mf_changed := True, mf_chains := AList.update (ch_Name c) (c, []) (mf_chains m)\<rparr>"
  by (simp add: mf_AddChain_def Let_def)

lemma docker_setup1: "mf_AddTable filterTable newMockFirewallCreator = newMockFirewallCreator\<lparr>mf_changed := True, mf_tables := [(filterTableName, empty_mock_table)]\<rparr>"
  by (simp add: mf_AddTable_def newMockFirewallCreator_def)

lemma docker_setup2: "mf_AddChain forward_chain
     (mf_AddChain (regular_chain dockerChainName) (mf_AddTable filterTable newMockFirewallCreator)) =
   newMockFirewallCreator\<lparr>mf_changed := True, mf_tables := [(filterTableName, empty_mock_table)],
     mf_chains := [(dockerChainName, regular_chain dockerChainName, []), (forwardChainName, forward_chain, [])]\<rparr>"
  unfolding docker_setup1 by (simp add: mock_add_chain newMockFirewallCreator_def forward_chain_def)

lemma docker_setup3: "docker_setup = newMockFirewallCreator\<lparr>mf_changed := True, mf_tables := [(filterTableName, empty_mock_table)],
     mf_chains := [(dockerChainName, regular_chain dockerChainName, []), (forwardChainName, forward_chain, [forward_rule\<lparr>ru_Handle := 1\<rparr>])], mf_nextRuleID := 1\<rparr>"
  unfolding docker_setup_def docker_setup2 
  by (simp add: mf_AddRule_def put_rule_def newMockFirewallCreator_def forward_rule_def forward_chain_def createJumpRule_def
      checkExpr_def verdict_kinds)

lemma docker_host_flush: "mf_Flush docker_setup = (docker_host, None)"
  unfolding docker_setup3 docker_host_def
  by (simp add: newMockFirewallCreator_def mf_Flush_def Let_def reset_client_def update_lookups_def update_lookup_def
      drop_unused_sets_def initTables_def empty_mock_table_def forward_rule_def createJumpRule_def)

lemma docker_host_reachable: "mock_reachable docker_host"
proof -
  let ?m1 = "mf_AddTable filterTable newMockFirewallCreator"
  let ?m2 = "mf_AddChain (regular_chain dockerChainName) ?m1"
  let ?m3 = "mf_AddChain forward_chain ?m2"
  have "mock_reachable ?m1" by (rule mock_reachable.edit [OF mock_reachable.init mock_edit.AddTable])
  then have "mock_reachable ?m2" by (rule mock_reachable.edit [OF _ mock_edit.AddChain]) simp
  then have "mock_reachable ?m3" by (rule mock_reachable.edit [OF _ mock_edit.AddChain]) (simp add: forward_chain_def)
  then have "mock_reachable docker_setup"
    unfolding docker_setup_def by (rule mock_reachable.edit [OF _ mock_edit.AddRule]) (simp add: forward_rule_def)
  from mock_reachable.flush [OF this] show ?thesis by (simp add: docker_host_flush)
qed

lemma docker_new: "newMockFirewall docker_host = (docker_host, None)"
  by (simp add: newMockFirewall_def docker_host_def initTables_def empty_mock_table_def)

lemma docker_chains: "fc_ListChainsOfTableFamily mockFirewall_client TableFamilyIPv4 docker_host = Inr [regular_chain dockerChainName, forward_chain]"
  by (simp add: mockFirewall_client_def mf_ListChainsOfTableFamily_def docker_host_def forward_chain_def filterTable_def)

lemma docker_inspect: "inspectBase mockFirewall_client N docker_host = Inr \<lparr>bv_whalewall = None,
   bv_docker = regular_chain dockerChainName, bv_input = None, bv_output = None, bv_setMissing = True\<rparr>"
proof -
  have l: "last_chain n [regular_chain dockerChainName, forward_chain] = 
     (if n = forwardChainName then Some forward_chain else if n = dockerChainName then Some (regular_chain dockerChainName) else None)" for n
    by (simp add: last_chain_def forward_chain_def in_filter_def)
  have d: "inspect_docker [regular_chain dockerChainName, forward_chain] = Inr (regular_chain dockerChainName)"
    by (simp add: inspect_docker_def l)
  have v: "validateBaseChain forward_chain (Some ChainHookForward) = None"
    by (simp add: validateBaseChain_def forward_chain_def base_chain_def filterTable_def)
  have u: "isUnconditionalJump (forward_rule\<lparr>ru_Handle := 1\<rparr>) dockerChainName"
    by (simp add: isUnconditionalJump_def forward_rule_def createJumpRule_def)
  have g: "fc_GetRules mockFirewall_client filterTable forward_chain docker_host = Inr [forward_rule\<lparr>ru_Handle := 1\<rparr>]"
    by (simp add: mockFirewall_client_def mf_GetRules_def docker_host_def forward_chain_def)
  have f: "inspect_forward mockFirewall_client [regular_chain dockerChainName, forward_chain] docker_host = None"
    using u by (simp add: inspect_forward_def l v g)
  have s: "inspect_set mockFirewall_client N docker_host = Inr True"
    by (simp add: inspect_set_def mockFirewall_client_def mf_GetSetByName_def docker_host_def empty_mock_table_def)
  show ?thesis
    by (simp add: inspectBase_def docker_chains d f s first_check_def check_optional_def l)
qed

text \<open>A batch on the mock that has not been poisoned: the chains it has staged, and the sets.\<close>

definition fits :: "mockFirewall \<Rightarrow> mock_chains \<Rightarrow> string set \<Rightarrow> mock_table \<Rightarrow> bool" where
  "fits m base T t \<longleftrightarrow> mf_flushErr m = None \<and> mf_baseChains m = base \<and>
     dom (map_of (mf_chains m)) = T \<and> map_of (mf_tables m) filterTableName = Some t"

lemma fits_AddChain:
  assumes "fits m base T t" "ch_Name ch \<notin> T" shows "fits (mf_AddChain ch m) base (insert (ch_Name ch) T) t"
proof -
  have "map_of (mf_chains m) (ch_Name ch) = None" using assms by (auto simp: fits_def domIff)
  with assms show ?thesis by (simp add: fits_def mf_AddChain_def Let_def)
qed

lemma fits_rule:
  assumes f: "fits m base T t" and r: "ru_Handle r = 0" "ru_Table r = Some filterTable" "ch_Name (ru_Chain r) \<in> T"
    and c: "\<And>m'. fits m' base T t \<Longrightarrow> checkRule (Some filterTable) (ru_Exprs r) m' = m'"
  shows "fits (put_rule place r m) base T t"
proof -
  let ?m = "m\<lparr>mf_changed := True, mf_nextRuleID := mf_nextRuleID m + 1\<rparr>"
  obtain ch rules where ch: "map_of (mf_chains m) (ch_Name (ru_Chain r)) = Some (ch, rules)"
    using f r(3) by (fastforce simp: fits_def dom_def)
  have "fits ?m base T t" using f by (simp add: fits_def)
  from c [OF this] r ch f
  have "put_rule place r m = ?m\<lparr>mf_chains := AList.update (ch_Name (ru_Chain r))
      (ch, place (r\<lparr>ru_Handle := mf_nextRuleID m + 1\<rparr>) rules) (mf_chains m)\<rparr>"
    by (simp add: put_rule_def find_table_def fits_def)
  with f r(3) show ?thesis by (simp add: fits_def insert_absorb)
qed

lemma fits_jump:
  assumes "fits m base T t" "ch_Name ch \<in> T" "whalewallChainName \<in> T"
  shows "fits (mf_InsertRule (createJumpRule ch whalewallChainName) m) base T t"
  unfolding mf_InsertRule_def
proof (rule fits_rule [OF assms(1)])
  fix m' assume "fits m' base T t"
  then have "map_of (mf_chains m') whalewallChainName \<noteq> None" using assms(3) by (auto simp: fits_def)
  then show "checkRule (Some filterTable) (ru_Exprs (createJumpRule ch whalewallChainName)) m' = m'"
    by (auto simp: createJumpRule_def checkExpr_def split: option.splits)
qed (simp_all add: assms createJumpRule_def)

lemma fits_dispatcher:
  assumes "fits m base T t" "whalewallChainName \<in> T" "map_of (mt_Sets t) containerAddrSetName \<noteq> None"
  shows "fits (mf_InsertRule createSourceDispatcherRule m) base T t"
    "fits (mf_InsertRule createDestinationDispatcherRule m) base T t"
proof -
  have anon: "containerAddrSetName \<noteq> anonSetName" by (simp add: name_defs)
  have "checkRule (Some filterTable) (dispatcherExprs n) m' = m'" if "fits m' base T t" for n m'
    using that assms(3) anon by (auto simp: fits_def dispatcherExprs_def checkExpr_def find_table_def)
  then show "fits (mf_InsertRule createSourceDispatcherRule m) base T t"
    "fits (mf_InsertRule createDestinationDispatcherRule m) base T t"
    using assms unfolding mf_InsertRule_def
    by (auto intro!: fits_rule simp: createSourceDispatcherRule_def createDestinationDispatcherRule_def)
qed

lemma fits_address_set:
  assumes "fits m base T t" "map_of (mt_SetSchemas t) containerAddrSetName = None"
  shows "snd (mf_AddSet containerAddressSet [] m) = Inr containerAddressSet \<and>
    (\<exists>t'. fits (fst (mf_AddSet containerAddressSet [] m)) base T t' \<and> map_of (mt_Sets t') containerAddrSetName \<noteq> None)"
  using assms by (simp add: mf_AddSet_def Let_def find_table_def put_table_def fits_def)

lemma fits_Flush: "fits m base T t \<Longrightarrow> snd (mf_Flush m) = None"
  by (simp add: mf_Flush_def Let_def fits_def)

lemma docker_host_run: "snd (createBaseRules mockFirewall_client N M docker_host) = None"
proof -
  let ?F = mockFirewall_client and ?b = "mf_baseChains docker_host"
  let ?dk = "regular_chain dockerChainName" and ?i = "base_chain inputChainName ChainHookInput"
    and ?o = "base_chain outputChainName ChainHookOutput"
  note sel = mockFirewall_client_def mf_GetRules_def
  have base: "map_of ?b dockerChainName = Some (?dk, [])" by (simp add: docker_host_def)
  define m1 where "m1 = mf_AddChain whalewallChain docker_host"
  define m2 where "m2 = mf_InsertRule (createJumpRule ?dk whalewallChainName) m1"
  define m3 where "m3 = mf_InsertRule (createJumpRule ?i whalewallChainName) (mf_AddChain ?i m2)"
  define m4 where "m4 = mf_InsertRule (createJumpRule ?o whalewallChainName) (mf_AddChain ?o m3)"
  define m5 where "m5 = fst (mf_AddSet containerAddressSet [] m4)"
  define m6 where "m6 = mf_InsertRule createSourceDispatcherRule (mf_InsertRule createDestinationDispatcherRule m5)"
  have 0: "fits docker_host ?b {dockerChainName, forwardChainName} empty_mock_table"
    by (auto simp: fits_def docker_host_def dom_def)
  have 1: "fits m1 ?b {whalewallChainName, dockerChainName, forwardChainName} empty_mock_table"
    using fits_AddChain [OF 0, of whalewallChain] by (simp add: m1_def)
  have 2: "fits m2 ?b {whalewallChainName, dockerChainName, forwardChainName} empty_mock_table"
    unfolding m2_def by (rule fits_jump [OF 1]) simp_all
  have 3: "fits m3 ?b {inputChainName, whalewallChainName, dockerChainName, forwardChainName} empty_mock_table"
    unfolding m3_def using fits_AddChain [OF 2, of ?i] by (intro fits_jump) simp_all
  have 4: "fits m4 ?b {outputChainName, inputChainName, whalewallChainName, dockerChainName, forwardChainName} empty_mock_table"
    unfolding m4_def using fits_AddChain [OF 3, of ?o] by (intro fits_jump) simp_all
  obtain t where 5: "snd (mf_AddSet containerAddressSet [] m4) = Inr containerAddressSet"
    "fits m5 ?b {outputChainName, inputChainName, whalewallChainName, dockerChainName, forwardChainName} t"
    "map_of (mt_Sets t) containerAddrSetName \<noteq> None"
    using fits_address_set [OF 4] by (auto simp: m5_def empty_mock_table_def)
  have 6: "fits m6 ?b {outputChainName, inputChainName, whalewallChainName, dockerChainName, forwardChainName} t"
    unfolding m6_def using 5(2,3) by (intro fits_dispatcher) simp_all
  have "repair_docker ?F M ?dk m1 = (m2, None)"
    using 1 base by (simp add: repair_docker_def sel ensureJumpAtHead_def delete_rules_def m2_def fits_def)
  moreover have "handleMainChain ?F M inputChainName ChainHookInput None m2 = (m3, None)"
    "handleMainChain ?F M outputChainName ChainHookOutput None m3 = (m4, None)"
    by (simp_all add: handleMainChain_def sel m3_def m4_def Let_def)
  moreover have "add_address_set ?F True m4 = (m5, None)"
    using 5(1) by (cases "mf_AddSet containerAddressSet [] m4") (simp add: add_address_set_def sel m5_def)
  moreover have "ensureDispatchersAtHead ?F M [] m5 = (m6, None)"
    by (simp add: ensureDispatchersAtHead_def delete_rules_def sel m6_def)
  moreover obtain m7 where "flush_wrap ''error flushing nftables commands'' ?F m6 = (m7, None)"
    using fits_Flush [OF 6] by (cases "mf_Flush m6") (simp add: flush_wrap_def sel)
  moreover have "open_whalewall ?F None docker_host = (m1, Inr [])"
    by (simp add: open_whalewall_def sel m1_def)
  ultimately show ?thesis
    using docker_new docker_inspect [of N]
    by (simp add: createBaseRules_def repairBase_def mock_client_sel)
qed

lemma docker_host_installed:
  obtains m where "createBaseRules mockFirewall_client ref_netlink ref_marshal docker_host = (m, None)"
  using docker_host_run [of ref_netlink ref_marshal] by (metis prod.collapse)

lemma docker_host_ok: "mock_ok docker_host"
  using docker_host_reachable by (rule mock_reachable_ok)

theorem createBaseRules_correct_witness:
  "\<exists>m. createBaseRules mockFirewall_client ref_netlink ref_marshal docker_host = (m, None) \<and>
     base_installed ref_netlink (mock_committed docker_host) (mock_committed m)"
proof -
  obtain m where run: "createBaseRules mockFirewall_client ref_netlink ref_marshal docker_host = (m, None)"
    by (rule docker_host_installed)
  from createBaseRules_correct [OF mock.firewall_client_axioms ref_marshal_ok docker_host_ok run] run
  show ?thesis by auto
qed

definition sample_packet :: packet where
  "sample_packet = \<lparr>p_src = 167772162, p_dst = 167772163, p_proto = 6, p_sport = 40000, p_dport = 80, p_ctstate = 8\<rparr>"

end
