(* ===== verification/Policy.thy ===== *)
theory Policy
  imports Base_Rules
begin

text \<open>
  Installing and replacing a container's policy (\<open>create.go\<close>):
  \<open>ensureContainerDropPolicy\<close>, \<open>replaceContainerPolicy\<close>,
  \<open>replaceContainerAddressMappings\<close> and \<open>quarantineDisplacedContainerPolicies\<close>.
  A loop over a Go map runs in an order the language leaves open: it is the parameter \<open>ord\<close>,
  which rearranges the keys of the map before each such loop. A nil table pointer is a panic.
\<close>

section \<open>Maps of chains\<close>

definition owned_name :: "string \<Rightarrow> bool" where
  "owned_name n \<longleftrightarrow> n = whalewallChainName \<or> HasPrefix n chainPrefix"

text \<open>\<open>ownedChains\<close>: the regular chains under the program's names; the last of a name stays.\<close>

fun collect_owned :: "nft_chain list \<Rightarrow> (string \<times> nft_chain) list \<Rightarrow> (string \<times> nft_chain) list result" where
  "collect_owned [] acc = Inr acc"
| "collect_owned (ch # chs) acc =
     (if ch_Table ch = None then Inl (GoPanic ''nil pointer dereference'')
      else if \<not> in_filter ch then collect_owned chs acc
      else if owned_name (ch_Name ch) then
        (case validateRegularOwnedChain ch of
           Some e \<Rightarrow> Inl (Wrap ''unsafe Whalewall chain'' e)
         | None \<Rightarrow> collect_owned chs (AList.update (ch_Name ch) ch acc))
      else collect_owned chs acc)"

text \<open>Reading the rules of a chain and going on with them.\<close>

definition with_rules :: "'c firewallClient \<Rightarrow> string \<Rightarrow> nft_chain \<Rightarrow>
    (nft_rule list \<Rightarrow> 'c \<Rightarrow> 'c \<times> error option) \<Rightarrow> 'c \<Rightarrow> 'c \<times> error option" where
  "with_rules F msg ch g c =
     (case fc_GetRules F filterTable ch c of Inl e \<Rightarrow> (c, Some (Wrap msg e)) | Inr rules \<Rightarrow> g rules c)"

section \<open>The fail-closed floor\<close>

definition same_chain :: "nft_chain \<Rightarrow> nft_chain \<Rightarrow> bool" where
  "same_chain chain current \<longleftrightarrow>
     (case (ch_Table current, ch_Table chain) of
        (Some t, Some u) \<Rightarrow> t_Name t = t_Name u \<and> ch_Name current = ch_Name chain
      | _ \<Rightarrow> False)"

definition ensureContainerDropPolicy ::
    "'c firewallClient \<Rightarrow> marshaller \<Rightarrow> nft_chain \<Rightarrow> string \<Rightarrow> bool \<Rightarrow> 'c \<Rightarrow> 'c \<times> error option" where
  "ensureContainerDropPolicy F M chain cid quarantineFirst c =
     (case fc_ListChainsOfTableFamily F TableFamilyIPv4 c of
        Inl e \<Rightarrow> (c, Some (Wrap ''error listing IPv4 chains'' e))
      | Inr chs \<Rightarrow>
        (case (find (same_chain chain) chs, ch_Table chain) of
           (_, None) \<Rightarrow> (c, Some (GoPanic ''nil pointer dereference''))
         | (None, Some t) \<Rightarrow>
             flush_wrap ''error installing fail-closed policy'' F
               (fc_AddRule F (createDropRule chain cid) (fc_AddChain F chain c))
         | (Some existingChain, Some t) \<Rightarrow>
             (case validateRegularOwnedChain existingChain of
                Some e \<Rightarrow> (c, Some (Wrap ''unsafe container-chain name collision'' e))
              | None \<Rightarrow>
                (case fc_GetRules F t chain c of
                   Inl e \<Rightarrow> (c, Some (Wrap ''error listing rules of chain'' e))
                 | Inr rules \<Rightarrow>
                     if rules \<noteq> [] \<and> rulesEqual M (createDropRule chain cid) (hd rules) then (c, None)
                     else if \<not> quarantineFirst \<and> list_ex (rulesEqual M (createDropRule chain cid)) rules then (c, None)
                     else flush_wrap ''error installing fail-closed policy'' F
                       (fc_InsertRule F (createDropRule chain cid) c)))))"

section \<open>Authoritative replacement\<close>

text \<open>Deleting the container's rules from one owned chain: all of its own chain, and what carries its
  id elsewhere.\<close>

definition delete_stale ::
    "'c firewallClient \<Rightarrow> (string \<times> nft_chain) list \<Rightarrow> string \<Rightarrow> string \<Rightarrow> string \<Rightarrow> 'c \<Rightarrow> 'c \<times> error option" where
  "delete_stale F owned own cid n c =
     (case map_of owned n of
        None \<Rightarrow> (c, None)
      | Some ch \<Rightarrow>
          with_rules F ''error getting rules of chain'' ch
            (\<lambda>current. wrap_step ''error deleting stale rule'' (delete_rules F
               (filter (\<lambda>r. \<not> (n \<noteq> own \<and> ru_UserData r \<noteq> cid)) current))) c)"

definition rules_for :: "nft_rule list \<Rightarrow> string \<Rightarrow> nft_rule list" where
  "rules_for desired n = filter (\<lambda>r. ch_Name (ru_Chain r) = n) desired"

text \<open>Queuing the desired rules of one chain: appended in the own and the main chain, inserted in
  reverse elsewhere.\<close>

definition place_rules :: "'c firewallClient \<Rightarrow> string \<Rightarrow> nft_rule list \<Rightarrow> string \<Rightarrow> 'c \<Rightarrow> 'c" where
  "place_rules F own desired n c =
     (if n = own then add_rules F (rules_for desired n) c
      else if n = whalewallChainName then add_rules F (rules_for desired n) c
      else insert_rules F (rev (rules_for desired n)) c)"

definition desired_chains :: "nft_rule list \<Rightarrow> string list" where
  "desired_chains desired = remdups (map (\<lambda>r. ch_Name (ru_Chain r)) desired)"

definition replaceContainerPolicy ::
    "'c firewallClient \<Rightarrow> (string list \<Rightarrow> string list) \<Rightarrow> nft_chain \<Rightarrow> string \<Rightarrow> nft_rule list \<Rightarrow> 'c \<Rightarrow> 'c \<times> error option" where
  "replaceContainerPolicy F ord ownChain cid desired c =
     (case fc_ListChainsOfTableFamily F TableFamilyIPv4 c of
        Inl e \<Rightarrow> (c, Some (Wrap ''error listing IPv4 chains'' e))
      | Inr chs \<Rightarrow>
        (case collect_owned chs [] of
           Inl e \<Rightarrow> (c, Some e)
         | Inr owned \<Rightarrow>
             if map_of owned (ch_Name ownChain) = None then (c, Some (Msg ''container chain no longer exists''))
             else st_seq
               [st_each (delete_stale F owned (ch_Name ownChain) cid) (ord (map fst owned)),
                (\<lambda>c. (fold (place_rules F (ch_Name ownChain) desired) (ord (desired_chains desired)) c, None)),
                (\<lambda>c. (fc_AddRule F (createDropRule ownChain cid) c, None)),
                flush_wrap ''error flushing authoritative policy'' F] c))"

section \<open>The address map\<close>

text \<open>\<open>displaced\<close>: the chains an address is taken from, with the ids of their containers.\<close>

record address_plan =
  ap_delete :: "set_element list"
  ap_add :: "set_element list"
  ap_displaced :: "(string \<times> string) list"
  ap_seen :: "byte list list"

definition desired_by_key :: "set_element list \<Rightarrow> byte list \<Rightarrow> set_element option" where
  "desired_by_key desired = map_of (rev (map (\<lambda>e. (el_Key e, e)) desired))"

text \<open>One existing mapping, its verdict decoded.\<close>

definition plan_existing ::
    "set_element list \<Rightarrow> string \<Rightarrow> set_element \<Rightarrow> verdict_expr \<Rightarrow> address_plan \<Rightarrow> address_plan result" where
  "plan_existing desired chainName existing v p =
     (case desired_by_key desired (el_Key existing) of
        Some wanted \<Rightarrow>
          (let p = p\<lparr>ap_seen := el_Key existing # ap_seen p\<rparr> in
           if verdictSetElementsEqual (existing\<lparr>el_VerdictData := Some v\<rparr>) wanted then Inr p
           else (let q = p\<lparr>ap_delete := ap_delete p @ [key_element (el_Key existing)], ap_add := ap_add p @ [wanted]\<rparr> in
             if vd_Chain v \<noteq> chainName then
               (case containerIDFromChainName (vd_Chain v) of
                  Inl e \<Rightarrow> Inl (Wrap ''invalid displaced container chain'' e)
                | Inr oldID \<Rightarrow> Inr (q\<lparr>ap_displaced := AList.update (vd_Chain v) oldID (ap_displaced p)\<rparr>))
             else Inr q))
      | None \<Rightarrow>
          Inr (if vd_Chain v = chainName
               then p\<lparr>ap_delete := ap_delete p @ [key_element (el_Key existing)]\<rparr> else p))"

fun plan_existings ::
    "netlink_lib \<Rightarrow> set_element list \<Rightarrow> string \<Rightarrow> set_element list \<Rightarrow> address_plan \<Rightarrow> address_plan result" where
  "plan_existings N desired chainName [] p = Inr p"
| "plan_existings N desired chainName (e # es) p =
     (case containerMappingVerdict N e of
        Inl err \<Rightarrow> Inl (Wrap ''invalid container address mapping'' err)
      | Inr v \<Rightarrow>
          (case plan_existing desired chainName e v p of
             Inl err \<Rightarrow> Inl err
           | Inr q \<Rightarrow> plan_existings N desired chainName es q))"

text \<open>The desired mappings that are not there, each key once.\<close>

fun missing_elements :: "byte list list \<Rightarrow> byte list list \<Rightarrow> set_element list \<Rightarrow> set_element list" where
  "missing_elements seen queued [] = []"
| "missing_elements seen queued (d # ds) =
     (if el_Key d \<in> set seen then missing_elements seen queued ds
      else if el_Key d \<in> set queued then missing_elements seen queued ds
      else d # missing_elements seen (el_Key d # queued) ds)"

text \<open>\<open>owned\<close> of \<open>quarantineDisplacedContainerPolicies\<close>, which also rejects names
  that only look like a container's chain.\<close>

fun collect_displaceable :: "nft_chain list \<Rightarrow> (string \<times> nft_chain) list \<Rightarrow> (string \<times> nft_chain) list result" where
  "collect_displaceable [] acc = Inr acc"
| "collect_displaceable (ch # chs) acc =
     (if \<not> in_filter ch then collect_displaceable chs acc
      else if \<not> owned_name (ch_Name ch) then collect_displaceable chs acc
      else (case (if ch_Name ch = whalewallChainName then None
            else (case containerIDFromChainName (ch_Name ch) of Inl e \<Rightarrow> Some e | Inr _ \<Rightarrow> None)) of
          Some e \<Rightarrow> Inl (Wrap ''unsafe Whalewall chain-name collision'' e)
        | None \<Rightarrow>
            (case validateRegularOwnedChain ch of
               Some e \<Rightarrow> Inl (Wrap ''unsafe Whalewall chain during reused-address cleanup'' e)
             | None \<Rightarrow> collect_displaceable chs (AList.update (ch_Name ch) ch acc))))"

definition check_displaced :: "(string \<times> nft_chain) list \<Rightarrow> string \<times> string \<Rightarrow> error option" where
  "check_displaced owned d =
     (case map_of owned (fst d) of
        None \<Rightarrow> Some (Msg ''displaced container chain no longer exists'')
      | Some chain \<Rightarrow>
          (case containerIDFromChainName (ch_Name chain) of
             Inl _ \<Rightarrow> Some (Msg ''displaced container chain has inconsistent owner ID'')
           | Inr parsedID \<Rightarrow>
               if parsedID \<noteq> snd d then Some (Msg ''displaced container chain has inconsistent owner ID'') else None))"

definition quarantine_chain ::
    "'c firewallClient \<Rightarrow> (string \<times> nft_chain) list \<Rightarrow> (string \<times> string) list \<Rightarrow> string \<Rightarrow> 'c \<Rightarrow> 'c \<times> error option" where
  "quarantine_chain F owned displaced n c =
     (case map_of owned n of
        None \<Rightarrow> (c, None)
      | Some ch \<Rightarrow>
          with_rules F ''error getting rules of chain during reused-address cleanup'' ch
            (\<lambda>rules. st_seq
              [wrap_step ''error deleting stale rule during reused-address cleanup'' (delete_rules F
                 (filter (\<lambda>r. \<not> (map_of displaced n = None \<and> ru_UserData r \<notin> snd ` set displaced)) rules)),
               (\<lambda>c. (case map_of displaced n of None \<Rightarrow> c | Some oldID \<Rightarrow> fc_AddRule F (createDropRule ch oldID) c, None))]) c)"

definition quarantineDisplacedContainerPolicies ::
    "'c firewallClient \<Rightarrow> (string list \<Rightarrow> string list) \<Rightarrow> (string \<times> string) list \<Rightarrow> 'c \<Rightarrow> 'c \<times> error option" where
  "quarantineDisplacedContainerPolicies F ord displaced c =
     (case fc_ListChainsOfTableFamily F TableFamilyIPv4 c of
        Inl e \<Rightarrow> (c, Some (Wrap ''error listing IPv4 chains for reused-address cleanup'' e))
      | Inr chs \<Rightarrow>
        (case collect_displaceable chs [] of
           Inl e \<Rightarrow> (c, Some e)
         | Inr owned \<Rightarrow>
           (case first_error (\<lambda>n. case map_of displaced n of None \<Rightarrow> None | Some i \<Rightarrow> check_displaced owned (n, i))
               (ord (map fst displaced)) of
              Some e \<Rightarrow> (c, Some e)
            | None \<Rightarrow> st_each (quarantine_chain F owned displaced) (ord (map fst owned)) c)))"

text \<open>An edit that is only queued when there is something to edit.\<close>

definition unless_empty :: "'a list \<Rightarrow> ('c \<Rightarrow> 'c \<times> error option) \<Rightarrow> 'c \<Rightarrow> 'c \<times> error option" where
  "unless_empty xs f c = (if xs = [] then (c, None) else f c)"

definition empty_plan :: address_plan where
  "empty_plan = \<lparr>ap_delete = [], ap_add = [], ap_displaced = [], ap_seen = []\<rparr>"

text \<open>The mappings to delete and to add, and the chains that lose an address.\<close>

definition plan_addresses ::
    "netlink_lib \<Rightarrow> set_element list \<Rightarrow> string \<Rightarrow> set_element list \<Rightarrow> address_plan result" where
  "plan_addresses N desired chainName current =
     (case plan_existings N desired chainName current empty_plan of
        Inl e \<Rightarrow> Inl e
      | Inr p \<Rightarrow> Inr (p\<lparr>ap_add := ap_add p @ missing_elements (ap_seen p) [] desired\<rparr>))"

definition replaceContainerAddressMappings ::
    "'c firewallClient \<Rightarrow> netlink_lib \<Rightarrow> (string list \<Rightarrow> string list) \<Rightarrow> set_element list \<Rightarrow> string \<Rightarrow>
     'c \<Rightarrow> 'c \<times> error option" where
  "replaceContainerAddressMappings F N ord desired chainName c =
     (case containerIDFromChainName chainName of
        Inl e \<Rightarrow> (c, Some (Wrap ''invalid desired container chain'' e))
      | Inr _ \<Rightarrow>
        (case fc_GetSetElements F containerAddressSet c of
           Inl e \<Rightarrow> (c, Some (Wrap ''error listing container address mappings'' e))
         | Inr current \<Rightarrow>
           (case plan_addresses N desired chainName current of
              Inl e \<Rightarrow> (c, Some e)
            | Inr p \<Rightarrow>
                if ap_delete p = [] \<and> ap_add p = [] then (c, None)
                else st_seq
                  [unless_empty (ap_displaced p) (quarantineDisplacedContainerPolicies F ord (ap_displaced p)),
                   unless_empty (ap_delete p) (wrap_step ''error marshaling stale container address mappings''
                     (fc_SetDeleteElements F containerAddressSet (ap_delete p))),
                   unless_empty (ap_add p) (wrap_step ''error marshaling container address mappings''
                     (fc_SetAddElements F containerAddressSet (ap_add p))),
                   flush_wrap ''error replacing container address mappings'' F] c)))"

text \<open>\<open>stripName\<close>: without the leading slash of a Docker name.\<close>

definition stripName :: "string \<Rightarrow> string" where
  "stripName name = (if length name > 0 \<and> name ! 0 = CHR ''/'' then drop 1 name else name)"

end
