(* ===== verification/Policy_Correct.thy ===== *)
theory Policy_Correct
  imports Policy Base_Correct "HOL-Library.Multiset"
begin

text \<open>
  What installing and replacing a container's policy achieves: a chain is born with its drop, a
  replacement is all or nothing and leaves every chain with exactly the desired rules in place of the
  container's old ones, and the address map never keeps an address for a container it was taken from.
\<close>

section \<open>Maps of chains\<close>

definition owned_map :: "ruleset \<Rightarrow> (string \<times> nft_chain) list \<Rightarrow> bool" where
  "owned_map k owned \<longleftrightarrow>
     distinct (map fst owned) \<and>
     (\<forall>n ch. map_of owned n = Some ch \<longleftrightarrow> owned_name n \<and> (\<exists>rules. rs_chains k n = Some (ch, rules))) \<and>
     (\<forall>n ch. map_of owned n = Some ch \<longrightarrow> ch_Name ch = n \<and> validateRegularOwnedChain ch = None)"

text \<open>Both collecting loops gather the chains that pass their tests.\<close>

definition gathers :: "nft_chain list \<Rightarrow> (string \<times> nft_chain) list \<Rightarrow> (string \<times> nft_chain) list \<Rightarrow> bool" where
  "gathers chs acc owned \<longleftrightarrow>
     (distinct (map fst acc) \<longrightarrow> distinct (map fst owned)) \<and>
     (\<forall>n ch. map_of owned n = Some ch \<longrightarrow> map_of acc n = Some ch \<or>
        ch \<in> set chs \<and> in_filter ch \<and> ch_Name ch = n \<and> owned_name n \<and> validateRegularOwnedChain ch = None) \<and>
     (\<forall>ch \<in> set chs. in_filter ch \<longrightarrow> owned_name (ch_Name ch) \<longrightarrow> map_of owned (ch_Name ch) \<noteq> None) \<and>
     (\<forall>n. map_of acc n \<noteq> None \<longrightarrow> map_of owned n \<noteq> None)"

lemma gathers_Nil [simp]: "gathers [] acc acc"
  by (simp add: gathers_def)

lemma gathers_skip:
  "gathers chs acc owned \<Longrightarrow> \<not> in_filter ch \<or> \<not> owned_name (ch_Name ch) \<Longrightarrow> gathers (ch # chs) acc owned"
  unfolding gathers_def by auto

lemma gathers_take:
  assumes "gathers chs (AList.update (ch_Name ch) ch acc) owned" "in_filter ch" "owned_name (ch_Name ch)"
    "validateRegularOwnedChain ch = None"
  shows "gathers (ch # chs) acc owned"
proof -
  note g = assms(1) [unfolded gathers_def update_conv']
  have "distinct (map fst acc) \<longrightarrow> distinct (map fst owned)"
    using g distinct_update [of acc "ch_Name ch" ch] by simp
  moreover have "map_of acc n = Some ch' \<or> ch' \<in> set (ch # chs) \<and> in_filter ch' \<and> ch_Name ch' = n \<and> owned_name n \<and>
      validateRegularOwnedChain ch' = None" if "map_of owned n = Some ch'" for n ch'
  proof -
    from g that have "((map_of acc)(ch_Name ch \<mapsto> ch)) n = Some ch' \<or> ch' \<in> set chs \<and> in_filter ch' \<and> ch_Name ch' = n \<and>
        owned_name n \<and> validateRegularOwnedChain ch' = None" by blast
    then show ?thesis using assms(2-4) by (cases "n = ch_Name ch") auto
  qed
  moreover have old: "map_of owned n \<noteq> None" if "((map_of acc)(ch_Name ch \<mapsto> ch)) n \<noteq> None" for n
    using g that by blast
  have "map_of owned (ch_Name ch) \<noteq> None" by (rule old) simp
  then have "map_of owned (ch_Name ch') \<noteq> None"
    if "ch' \<in> set (ch # chs)" "in_filter ch'" "owned_name (ch_Name ch')" for ch'
    using g that by auto
  moreover have "map_of owned n \<noteq> None" if "map_of acc n \<noteq> None" for n
    by (rule old) (use that in auto)
  ultimately show ?thesis unfolding gathers_def by blast
qed

lemma collect_owned_gathers: "collect_owned chs acc = Inr owned \<Longrightarrow> gathers chs acc owned"
proof (induction chs arbitrary: acc)
  case (Cons ch chs)
  then show ?case
    by (auto split: if_splits option.splits intro: gathers_skip gathers_take)
qed simp

lemma collect_displaceable_gathers: "collect_displaceable chs acc = Inr owned \<Longrightarrow> gathers chs acc owned"
proof (induction chs arbitrary: acc)
  case (Cons ch chs)
  then show ?case
    by (auto split: if_splits option.splits sum.splits intro: gathers_skip gathers_take)
qed simp

context nft_reads
begin

lemma gathers_owned_map:
  assumes "ok c" "fc_ListChainsOfTableFamily F TableFamilyIPv4 c = Inr chs" "gathers chs [] owned"
  shows "owned_map (committed c) owned"
proof -
  note law = ListChains_committed [OF assms(1,2)]
  have iff: "ch \<in> set chs \<and> in_filter ch \<longleftrightarrow> (\<exists>rules. rs_chains (committed c) (ch_Name ch) = Some (ch, rules))" for ch
    using law by blast
  have sound: "ch \<in> set chs \<and> in_filter ch \<and> ch_Name ch = n \<and> owned_name n \<and> validateRegularOwnedChain ch = None"
    if "map_of owned n = Some ch" for n ch
    using assms(3) that unfolding gathers_def by fastforce
  have "map_of owned n = Some ch" if n: "owned_name n" "rs_chains (committed c) n = Some (ch, rules)" for n ch rules
  proof -
    have "ch_Name ch = n" using wf_ruleset_chain(1) [OF committed_wf [OF assms(1)] n(2)] .
    then have "map_of owned n \<noteq> None" using assms(3) n iff unfolding gathers_def by blast
    then obtain ch' where "map_of owned n = Some ch'" by blast
    with sound [OF this] iff [of ch'] n(2) show ?thesis by auto
  qed
  then have "map_of owned n = Some ch \<longleftrightarrow> owned_name n \<and> (\<exists>rules. rs_chains (committed c) n = Some (ch, rules))" for n ch
    using sound [of n ch] iff [of ch] by blast
  moreover have "distinct (map fst owned)" using assms(3) by (simp add: gathers_def)
  ultimately show ?thesis using sound unfolding owned_map_def by blast
qed

end

section \<open>Deleting and placing rules\<close>

text \<open>The rules of chain \<open>n\<close> in \<open>k\<close>, without those that fail \<open>P\<close>.\<close>

definition filtered :: "(nft_rule \<Rightarrow> bool) \<Rightarrow> ruleset \<Rightarrow> string \<Rightarrow> (nft_chain \<times> nft_rule list) option \<Rightarrow> bool" where
  "filtered P k n x \<longleftrightarrow> (\<exists>ch rules. rs_chains k n = Some (ch, rules) \<and> x = Some (ch, filter P rules))"

context firewall_client
begin

lemma wrap_step_spec: "spec f R \<Longrightarrow> spec (wrap_step msg f) R"
  unfolding wrap_step_def by (rule edit_spec_wrap)

lemma delete_filter_spec:
  assumes "distinct (map ru_Handle rules)" "\<forall>r \<in> set rules. ru_Table r = Some filterTable \<and> ch_Name (ru_Chain r) = n"
  shows "spec (wrap_step msg (delete_rules F (filter (\<lambda>r. \<not> P r) rules))) (\<lambda>k a b. \<forall>ch. rs_chains a n = Some (ch, rules) \<longrightarrow>
    frame {n} a b \<and> rs_chains b n = Some (ch, filter P rules))"
  by (intro wrap_step_spec edit_spec_mono [OF delete_rules_spec [of "filter (\<lambda>r. \<not> P r) rules" n]])
    (use assms in \<open>auto simp: remove_handles_filter\<close>)

text \<open>A step over the rules of one owned chain.\<close>

lemma with_rules_spec:
  assumes n: "ch_Name ch = n"
    and step: "\<And>rules. distinct (map ru_Handle rules) \<Longrightarrow>
      \<forall>r \<in> set rules. ru_Table r = Some filterTable \<and> ch_Name (ru_Chain r) = n \<Longrightarrow>
      spec (g rules) (\<lambda>k a b. \<forall>ch. rs_chains a n = Some (ch, rules) \<longrightarrow> frame {n} a b \<and>
        (\<exists>rules'. rs_chains b n = Some (ch, rules') \<and> Q rules rules'))"
  shows "spec (with_rules F msg ch g) (\<lambda>k a b. rs_chains a n = rs_chains k n \<longrightarrow> frame {n} a b \<and>
    (\<exists>ch rules rules'. rs_chains k n = Some (ch, rules) \<and> rs_chains b n = Some (ch, rules') \<and> Q rules rules'))"
proof -
  have "spec (with_rules F msg ch g) (\<lambda>k a b. \<exists>ch' rules. rs_chains k (ch_Name ch) = Some (ch', rules) \<and>
      (\<forall>ch. rs_chains a n = Some (ch, rules) \<longrightarrow> frame {n} a b \<and>
        (\<exists>rules'. rs_chains b n = Some (ch, rules') \<and> Q rules rules')))"
    unfolding with_rules_def by (rule GetRules_spec) (use step n in simp)
  then show ?thesis by (rule edit_spec_mono) (use n in auto)
qed

lemma delete_where_spec:
  assumes "ch_Name ch = n"
  shows "spec (with_rules F msg ch (\<lambda>current. wrap_step msg2 (delete_rules F (filter (\<lambda>r. \<not> P r) current))))
    (\<lambda>k a b. rs_chains a n = rs_chains k n \<longrightarrow> frame {n} a b \<and> filtered P k n (rs_chains b n))"
  by (rule edit_spec_mono [OF with_rules_spec [OF assms edit_spec_mono [OF delete_filter_spec],
      where Q = "\<lambda>rules rules'. rules' = filter P rules"]]) (auto simp: filtered_def)

lemma delete_stale_spec:
  assumes "\<And>ch. map_of owned n = Some ch \<Longrightarrow> ch_Name ch = n"
  shows "spec (delete_stale F owned own cid n) (\<lambda>k a b. map_of owned n \<noteq> None \<longrightarrow> rs_chains a n = rs_chains k n \<longrightarrow>
    frame {n} a b \<and> filtered (\<lambda>r. n \<noteq> own \<and> ru_UserData r \<noteq> cid) k n (rs_chains b n))"
proof (cases "map_of owned n")
  case None
  then show ?thesis unfolding delete_stale_def by (simp add: edit_spec_skip)
next
  case (Some ch)
  then have eq: "delete_stale F owned own cid n = with_rules F ''error getting rules of chain'' ch
      (\<lambda>current. wrap_step ''error deleting stale rule'' (delete_rules F
        (filter (\<lambda>r. \<not> (n \<noteq> own \<and> ru_UserData r \<noteq> cid)) current)))"
    by (intro ext) (simp only: delete_stale_def option.case)
  show ?thesis unfolding eq by (rule edit_spec_mono [OF delete_where_spec [OF assms [OF Some]]]) simp
qed

lemma place_rules_spec:
  assumes "\<forall>r \<in> set desired. ru_Table r = Some filterTable"
  shows "spec (\<lambda>c. (place_rules F own desired n c, None)) (\<lambda>k a b. rules_for desired n \<noteq> [] \<longrightarrow>
    frame {n} a b \<and> (\<exists>ch old new. rs_chains a n = Some (ch, old) \<and> list_all2 handled (rules_for desired n) new \<and>
      rs_chains b n = Some (ch, if n = own \<or> n = whalewallChainName then old @ new else new @ old)))"
proof -
  have r: "\<forall>r \<in> set (rules_for desired n). ru_Table r = Some filterTable \<and> ch_Name (ru_Chain r) = n"
    using assms by (simp add: rules_for_def)
  show ?thesis
  proof (cases "n = own \<or> n = whalewallChainName")
    case True
    then have eq: "(\<lambda>c. (place_rules F own desired n c, None)) = (\<lambda>c. (add_rules F (rules_for desired n) c, None))"
      by (auto simp: place_rules_def)
    show ?thesis unfolding eq by (rule edit_spec_mono [OF add_rules_spec [OF r]]) (use True in auto)
  next
    case False
    then have eq: "(\<lambda>c. (place_rules F own desired n c, None)) = (\<lambda>c. (insert_rules F (rev (rules_for desired n)) c, None))"
      by (simp add: place_rules_def)
    show ?thesis unfolding eq
      by (rule edit_spec_mono [OF insert_rules_spec [of "rev (rules_for desired n)" n]]) (use r False in auto)
  qed
qed

end

section \<open>The replacement of a policy\<close>

text \<open>What becomes of the rules of chain \<open>n\<close>; \<open>I\<close> relates a desired rule to the installed one.\<close>

definition replaced :: "(nft_rule \<Rightarrow> nft_rule \<Rightarrow> bool) \<Rightarrow> nft_chain \<Rightarrow> string \<Rightarrow> nft_rule list \<Rightarrow> string \<Rightarrow>
    nft_rule list \<Rightarrow> nft_rule list \<Rightarrow> bool" where
  "replaced I own cid desired n old rules \<longleftrightarrow>
     (\<exists>new. list_all2 I (rules_for desired n) new \<and>
        (n = ch_Name own \<longrightarrow> (\<exists>d. I (createDropRule own cid) d \<and> rules = new @ [d])) \<and>
        (n \<noteq> ch_Name own \<longrightarrow>
           (let kept = (if owned_name n then filter (\<lambda>r. ru_UserData r \<noteq> cid) old else old)
            in rules = (if n = whalewallChainName then kept @ new else new @ kept))))"

definition chain_replaced :: "(nft_rule \<Rightarrow> nft_rule \<Rightarrow> bool) \<Rightarrow> nft_chain \<Rightarrow> string \<Rightarrow> nft_rule list \<Rightarrow>
    ruleset \<Rightarrow> ruleset \<Rightarrow> bool" where
  "chain_replaced I own cid desired k b \<longleftrightarrow>
     (\<forall>n. case rs_chains k n of
        None \<Rightarrow> rs_chains b n = None
      | Some (ch, old) \<Rightarrow> \<exists>rules. rs_chains b n = Some (ch, rules) \<and> replaced I own cid desired n old rules)"

text \<open>Only anonymous sets have been queued so far.\<close>

definition sets_queued :: "ruleset \<Rightarrow> ruleset \<Rightarrow> bool" where
  "sets_queued k a \<longleftrightarrow> rs_chains a = rs_chains k \<and> (\<forall>n. \<not> is_anon_name n \<longrightarrow> rs_sets a n = rs_sets k n)"

definition reorders :: "(string list \<Rightarrow> string list) \<Rightarrow> bool" where
  "reorders ord \<longleftrightarrow> (\<forall>ks. mset (ord ks) = mset ks)"

lemma reorders_set: "reorders ord \<Longrightarrow> set (ord ks) = set ks"
  unfolding reorders_def by (metis set_mset_mset)

lemma reorders_distinct: "reorders ord \<Longrightarrow> distinct (ord ks) = distinct ks"
  unfolding reorders_def by (metis mset_eq_imp_distinct_iff)

definition stale_deleted :: "(string \<times> nft_chain) list \<Rightarrow> string \<Rightarrow> string \<Rightarrow> ruleset \<Rightarrow> string \<Rightarrow> ruleset \<Rightarrow> ruleset \<Rightarrow> bool" where
  "stale_deleted owned own cid k n a b \<longleftrightarrow> (map_of owned n \<noteq> None \<longrightarrow> rs_chains a n = rs_chains k n \<longrightarrow>
    frame {n} a b \<and> filtered (\<lambda>r. n \<noteq> own \<and> ru_UserData r \<noteq> cid) k n (rs_chains b n))"

definition placed_in :: "string \<Rightarrow> nft_rule list \<Rightarrow> string \<Rightarrow> (nft_chain \<times> nft_rule list) option \<Rightarrow>
    (nft_chain \<times> nft_rule list) option \<Rightarrow> bool" where
  "placed_in own desired n x y \<longleftrightarrow> (\<exists>ch old new. x = Some (ch, old) \<and> list_all2 handled (rules_for desired n) new \<and>
     y = Some (ch, if n = own \<or> n = whalewallChainName then old @ new else new @ old))"

definition rules_placed :: "string \<Rightarrow> nft_rule list \<Rightarrow> string \<Rightarrow> ruleset \<Rightarrow> ruleset \<Rightarrow> bool" where
  "rules_placed own desired n a b \<longleftrightarrow> (rules_for desired n \<noteq> [] \<longrightarrow>
     frame {n} a b \<and> placed_in own desired n (rs_chains a n) (rs_chains b n))"

lemma rules_for_nonempty: "n \<in> set (desired_chains desired) \<longleftrightarrow> rules_for desired n \<noteq> []"
  by (auto simp: desired_chains_def rules_for_def filter_empty_conv)

lemma placed_in_nothing: "rules_for desired n = [] \<Longrightarrow> x = Some (ch, old) \<Longrightarrow> placed_in own desired n x x"
  by (simp add: placed_in_def)

lemma replace_stages:
  assumes owned: "owned_map k owned" and ord: "reorders ord" and a: "rs_chains a = rs_chains k"
    and del: "rel_seq (stale_deleted owned (ch_Name own) cid k) (ord (map fst owned)) a m1"
    and place: "rel_seq (rules_placed (ch_Name own) desired) (ord (desired_chains desired)) m1 m2"
    and own_owned: "owned_name (ch_Name own)"
    and drop: "rs_AddRule h (createDropRule own cid) m2 = Some b" "h \<noteq> 0"
  shows "chain_replaced handled own cid desired k b \<and> (\<forall>n. \<not> is_anon_name n \<longrightarrow> rs_sets b n = rs_sets a n)"
proof -
  let ?own = "ch_Name own" and ?names = "set (map fst owned)"
  have names: "n \<in> ?names \<longleftrightarrow> owned_name n \<and> rs_chains k n \<noteq> None" for n
  proof -
    have "n \<in> ?names \<longleftrightarrow> map_of owned n \<noteq> None" by (simp add: map_of_eq_None_iff)
    also have "\<dots> \<longleftrightarrow> (\<exists>ch. map_of owned n = Some ch)" by simp
    also have "\<dots> \<longleftrightarrow> owned_name n \<and> rs_chains k n \<noteq> None" using owned unfolding owned_map_def by auto
    finally show ?thesis .
  qed
  have 1: "frame ?names a m1 \<and> (\<forall>n \<in> ?names. filtered (\<lambda>r. n \<noteq> ?own \<and> ru_UserData r \<noteq> cid) k n (rs_chains m1 n))"
    using rel_seq_frames [OF del, of k "\<lambda>n. filtered (\<lambda>r. n \<noteq> ?own \<and> ru_UserData r \<noteq> cid) k n"]
      owned a reorders_set [OF ord] reorders_distinct [OF ord]
    by (simp add: owned_map_def stale_deleted_def map_of_eq_None_iff)
  have 2: "frame (set (desired_chains desired)) m1 m2 \<and>
      (\<forall>n \<in> set (desired_chains desired). placed_in ?own desired n (rs_chains m1 n) (rs_chains m2 n))"
    using rel_seq_frames [OF place, of m1 "\<lambda>n. placed_in ?own desired n (rs_chains m1 n)"]
      reorders_set [OF ord] reorders_distinct [OF ord]
    by (simp add: rules_placed_def rules_for_nonempty) (simp add: desired_chains_def)
  have m1: "rs_chains m1 n = Some (ch, if owned_name n then filter (\<lambda>r. n \<noteq> ?own \<and> ru_UserData r \<noteq> cid) old else old)"
    if "rs_chains k n = Some (ch, old)" for n ch old
    using 1 a that names [of n] by (cases "owned_name n") (auto simp: filtered_def frame_def)
  have m1_None: "rs_chains m1 n = None" if "rs_chains k n = None" for n
    using 1 a that names [of n] by (auto simp: frame_def)
  have m2: "placed_in ?own desired n (rs_chains m1 n) (rs_chains m2 n)" if "rs_chains m1 n \<noteq> None" for n
  proof (cases "rules_for desired n = []")
    case True
    then have "rs_chains m2 n = rs_chains m1 n" using 2 rules_for_nonempty [of n desired] by (auto simp: frame_def)
    with True that show ?thesis using placed_in_nothing by (metis option.exhaust surj_pair)
  next
    case False
    with 2 show ?thesis using rules_for_nonempty by blast
  qed
  have m2_None: "rs_chains m2 n = None" if "rs_chains m1 n = None" for n
  proof (cases "rules_for desired n = []")
    case True
    with that 2 show ?thesis using rules_for_nonempty [of n desired] by (auto simp: frame_def)
  next
    case False
    with 2 have "placed_in ?own desired n (rs_chains m1 n) (rs_chains m2 n)" using rules_for_nonempty by blast
    with that show ?thesis by (simp add: placed_in_def)
  qed
  let ?d = "createDropRule own cid"
  have own_name: "ch_Name (ru_Chain ?d) = ?own" by (simp add: createDropRule_def)
  obtain och orules where own: "rs_chains m2 ?own = Some (och, orules)"
    using drop(1) own_name by (auto simp: rs_AddRule_def split: option.splits)
  from rs_AddRule_effect [OF drop(1)] own own_name have b: "frame {?own} m2 b"
    "rs_chains b ?own = Some (och, orules @ [?d\<lparr>ru_Handle := h\<rparr>])" by auto
  have hd: "handled ?d (?d\<lparr>ru_Handle := h\<rparr>)" using drop(2) by (auto simp: handled_def)
  have "\<exists>rules. rs_chains b n = Some (ch, rules) \<and> replaced handled own cid desired n old rules"
    if k: "rs_chains k n = Some (ch, old)" for n ch old
  proof -
    let ?kept = "if owned_name n then filter (\<lambda>r. n \<noteq> ?own \<and> ru_UserData r \<noteq> cid) old else old"
    have "rs_chains m1 n = Some (ch, ?kept)" using m1 [OF k] .
    moreover from this have "placed_in ?own desired n (rs_chains m1 n) (rs_chains m2 n)" by (intro m2) simp
    ultimately obtain new where new: "list_all2 handled (rules_for desired n) new"
      "rs_chains m2 n = Some (ch, if n = ?own \<or> n = whalewallChainName then ?kept @ new else new @ ?kept)"
      unfolding placed_in_def by auto
    show ?thesis
    proof (cases "n = ?own")
      case False
      then have "rs_chains b n = rs_chains m2 n" using b(1) by (simp add: frame_def)
      with False new show ?thesis by (auto simp: replaced_def Let_def)
    next
      case True
      have "owned_name ?own" using own_owned .
      with True new own b(2) hd show ?thesis by (auto simp: replaced_def)
    qed
  qed
  moreover have "rs_chains b n = None" if "rs_chains k n = None" for n
    using m2_None [OF m1_None [OF that]] b(1) own by (cases "n = ?own") (auto simp: frame_def)
  ultimately have "chain_replaced handled own cid desired k b"
    unfolding chain_replaced_def by (auto split: option.splits)
  moreover have "rs_sets b n = rs_sets a n" if "\<not> is_anon_name n" for n
    using that 1 2 b(1) by (simp add: frame_def)
  ultimately show ?thesis by blast
qed

text \<open>A rule as the kernel reports it: with a handle, its anonymous sets named.\<close>

definition installed :: "nft_rule \<Rightarrow> nft_rule \<Rightarrow> bool" where
  "installed r r' \<longleftrightarrow> (\<exists>h. h \<noteq> 0 \<and> r' = commit_rule (r\<lparr>ru_Handle := h\<rparr>))"

lemma handled_installed: "list_all2 handled rs new \<Longrightarrow> list_all2 installed rs (map commit_rule new)"
  by (auto simp: list_all2_map2 handled_def installed_def elim!: list_all2_mono)

lemma commit_settled_rules: "all_settled rules \<Longrightarrow> map commit_rule rules = rules"
  by (intro map_idI commit_rule_settled) (simp add: all_settled_def)

lemma replaced_commit:
  assumes "replaced handled own cid desired n old rules" "all_settled old"
  shows "replaced installed own cid desired n old (map commit_rule rules)"
proof -
  define K where "K = (if owned_name n then filter (\<lambda>r. ru_UserData r \<noteq> cid) old else old)"
  have kept: "map commit_rule K = K"
    using assms(2) by (intro commit_settled_rules) (simp add: all_settled_def K_def)
  obtain new where new: "list_all2 handled (rules_for desired n) new"
    "n = ch_Name own \<Longrightarrow> \<exists>d. handled (createDropRule own cid) d \<and> rules = new @ [d]"
    "n \<noteq> ch_Name own \<Longrightarrow> rules = (if n = whalewallChainName then K @ new else new @ K)"
    using assms(1) unfolding replaced_def Let_def K_def by blast
  show ?thesis
  proof (cases "n = ch_Name own")
    case True
    from new(2) [OF True] handled_installed [OF new(1)] True show ?thesis
      unfolding replaced_def by (auto simp: handled_def installed_def)
  next
    case False
    from new(3) [OF False] kept have "map commit_rule rules =
        (if n = whalewallChainName then K @ map commit_rule new else map commit_rule new @ K)" by simp
    with False handled_installed [OF new(1)] show ?thesis
      unfolding replaced_def Let_def K_def [symmetric] by blast
  qed
qed

lemma chain_replaced_commit:
  assumes "chain_replaced handled own cid desired k b" "wf_ruleset k" "rs_commits k b new"
  shows "chain_replaced installed own cid desired k new"
  unfolding chain_replaced_def
proof
  fix n
  have new: "rs_chains new n = map_option (\<lambda>(ch, rules). (ch, map commit_rule rules)) (rs_chains b n)"
    using assms(3) by (simp add: rs_commits_def committed_chains_def)
  show "case rs_chains k n of None \<Rightarrow> rs_chains new n = None
      | Some (ch, old) \<Rightarrow> \<exists>rules. rs_chains new n = Some (ch, rules) \<and> replaced installed own cid desired n old rules"
  proof (cases "rs_chains k n")
    case None
    with spec [OF assms(1) [unfolded chain_replaced_def], of n] have "rs_chains b n = None" by simp
    with None new show ?thesis by simp
  next
    case (Some x)
    then obtain ch old where k: "rs_chains k n = Some (ch, old)" by (cases x) simp
    have "\<exists>rules. rs_chains b n = Some (ch, rules) \<and> replaced handled own cid desired n old rules"
      using spec [OF assms(1) [unfolded chain_replaced_def], of n] k by simp
    then obtain rules where b: "rs_chains b n = Some (ch, rules)" "replaced handled own cid desired n old rules" by blast
    have "all_settled old" using settled_rules [OF assms(2), of n] k by (simp add: rs_rules_def)
    with replaced_commit [OF b(2)] b(1) new k show ?thesis by simp
  qed
qed

text \<open>The result of a replacement in the kernel.\<close>

definition policy_replaced :: "nft_chain \<Rightarrow> string \<Rightarrow> nft_rule list \<Rightarrow> ruleset \<Rightarrow> ruleset \<Rightarrow> bool" where
  "policy_replaced own cid desired old new \<longleftrightarrow>
     rs_chains old (ch_Name own) \<noteq> None \<and> chain_replaced installed own cid desired old new \<and>
     (\<forall>n. \<not> is_anon_name n \<longrightarrow> rs_sets new n = rs_sets old n)"

context firewall_client
begin

abbreviation (input) "replace_body ord owned own cid desired \<equiv> st_seq
  [st_each (delete_stale F owned (ch_Name own) cid) (ord (map fst owned)),
   (\<lambda>c. (fold (place_rules F (ch_Name own) desired) (ord (desired_chains desired)) c, None)),
   (\<lambda>c. (fc_AddRule F (createDropRule own cid) c, None))]"

lemma replaceContainerPolicy_cases:
  assumes "ok c" and run: "replaceContainerPolicy F ord own cid desired c = (c', e)"
  obtains (stops) "c' = c" "e \<noteq> None"
  | (runs) owned och where "owned_map (committed c) owned" "map_of owned (ch_Name own) = Some och"
      "st_seq [replace_body ord owned own cid desired, flush_wrap ''error flushing authoritative policy'' F] c = (c', e)"
proof (cases "fc_ListChainsOfTableFamily F TableFamilyIPv4 c")
  case (Inl x)
  with run that(1) show ?thesis by (auto simp: replaceContainerPolicy_def)
next
  case list: (Inr chs)
  show ?thesis
  proof (cases "collect_owned chs []")
    case (Inl x)
    with list run that(1) show ?thesis by (auto simp: replaceContainerPolicy_def)
  next
    case coll: (Inr owned)
    show ?thesis
    proof (cases "map_of owned (ch_Name own)")
      case None
      with coll list run that(1) show ?thesis by (auto simp: replaceContainerPolicy_def)
    next
      case (Some och)
      have "owned_map (committed c) owned"
        using gathers_owned_map [OF assms(1) list collect_owned_gathers [OF coll]] .
      moreover have "st_seq [replace_body ord owned own cid desired, flush_wrap ''error flushing authoritative policy'' F] c = (c', e)"
        using run list coll Some unfolding st_seq_snoc [symmetric]
        by (simp add: replaceContainerPolicy_def del: st_seq.simps)
      ultimately show ?thesis using Some that(2) by blast
    qed
  qed
qed

lemma replace_body_spec:
  assumes ord: "reorders ord" and own: "ch_Table own = Some filterTable"
    and desired: "\<forall>r \<in> set desired. ru_Table r = Some filterTable"
    and names: "\<And>n ch. map_of owned n = Some ch \<Longrightarrow> ch_Name ch = n" and own_owned: "owned_name (ch_Name own)"
  shows "spec (replace_body ord owned own cid desired) (\<lambda>k a b. sets_queued k a \<longrightarrow> owned_map k owned \<longrightarrow>
    chain_replaced handled own cid desired k b \<and> (\<forall>n. \<not> is_anon_name n \<longrightarrow> rs_sets b n = rs_sets k n))"
proof -
  let ?del = "st_each (delete_stale F owned (ch_Name own) cid) (ord (map fst owned))"
  let ?place = "\<lambda>c. (fold (place_rules F (ch_Name own) desired) (ord (desired_chains desired)) c, None :: error option)"
  let ?drop = "\<lambda>c. (fc_AddRule F (createDropRule own cid) c, None :: error option)"
  have del: "spec ?del (\<lambda>k. rel_seq (stale_deleted owned (ch_Name own) cid k) (ord (map fst owned)))"
    unfolding stale_deleted_def by (intro edit_spec_each delete_stale_spec names)
  have place: "spec ?place (\<lambda>k. rel_seq (rules_placed (ch_Name own) desired) (ord (desired_chains desired)))"
    by (intro edit_spec_fold edit_spec_mono [OF place_rules_spec [OF desired]])
      (auto simp: rules_placed_def placed_in_def)
  have drop: "spec ?drop (\<lambda>k a b. \<exists>h. h \<noteq> 0 \<and> rs_AddRule h (createDropRule own cid) a = Some b)"
    by (rule edit_spec_mono [OF AddRule_spec]) (use own in \<open>auto simp: createDropRule_def\<close>)
  show ?thesis
    by (rule edit_spec_mono [OF edit_spec_Cons [OF del edit_spec_Cons [OF place edit_spec_Cons [OF drop edit_spec_Nil]]]])
      (use replace_stages [OF _ ord _ _ _ own_owned] in \<open>fastforce simp: sets_queued_def\<close>)
qed

lemma replaceContainerPolicy_ok:
  assumes c: "ok c" "\<And>a. staged c = Some a \<Longrightarrow> sets_queued (committed c) a" and ord: "reorders ord"
    and own: "ch_Table own = Some filterTable" and desired: "\<forall>r \<in> set desired. ru_Table r = Some filterTable"
    and run: "replaceContainerPolicy F ord own cid desired c = (c', e)"
  shows "ok c' \<and> (e \<noteq> None \<longrightarrow> committed c' = committed c) \<and>
    (e = None \<longrightarrow> staged c' = Some (committed c') \<and> policy_replaced own cid desired (committed c) (committed c'))"
proof (cases rule: replaceContainerPolicy_cases [OF c(1) run, case_names stops runs])
  case stops
  with c(1) show ?thesis by auto
next
  case (runs owned och)
  then have own_owned: "owned_name (ch_Name own)" "rs_chains (committed c) (ch_Name own) \<noteq> None"
    and names: "\<And>n ch. map_of owned n = Some ch \<Longrightarrow> ch_Name ch = n"
    unfolding owned_map_def by auto
  note fl = flush_spec [OF replace_body_spec [OF ord own desired names own_owned(1)] c(1) runs(3)]
  have "policy_replaced own cid desired (committed c) (committed c')" if "e = None"
  proof -
    from fl that obtain a b where ab: "staged c = Some a" "rs_commits (committed c) b (committed c')"
      "sets_queued (committed c) a \<longrightarrow> owned_map (committed c) owned \<longrightarrow>
        chain_replaced handled own cid desired (committed c) b \<and>
        (\<forall>n. \<not> is_anon_name n \<longrightarrow> rs_sets b n = rs_sets (committed c) n)" by blast
    with runs(1) c(2) have b: "chain_replaced handled own cid desired (committed c) b"
      "\<forall>n. \<not> is_anon_name n \<longrightarrow> rs_sets b n = rs_sets (committed c) n" by blast+
    with chain_replaced_commit [OF b(1) committed_wf [OF c(1)] ab(2)] own_owned(2) commit_named_set [OF ab(2)]
    show ?thesis by (simp add: policy_replaced_def)
  qed
  with fl show ?thesis by simp
qed

end

section \<open>Drop rules\<close>

definition is_drop_for :: "nft_chain \<Rightarrow> string \<Rightarrow> nft_rule \<Rightarrow> bool" where
  "is_drop_for chain cid r \<longleftrightarrow> ru_UserData r = cid \<and>
     map strip_counter (ru_Exprs r) = ru_Exprs (createDropRule chain cid)"

lemma drop_rule_exprs:
  "ru_Exprs (createDropRule chain cid) = [ECounter 0 0, logExpr (ch_Name chain @ '' drop: ''), dropVerdict]"
  by (simp add: createDropRule_def)

lemma rulesEqual_drop:
  assumes "marshal_ok M" "ch_Table chain = Some filterTable" "ru_Table r = Some filterTable"
  shows "rulesEqual M (createDropRule chain cid) r \<longleftrightarrow> is_drop_for chain cid r"
proof -
  let ?d = "createDropRule chain cid"
  have eq: "list_all2 (expr_equal M t t) es es' \<longleftrightarrow> map strip_counter es = map strip_counter es'"
    if "\<forall>e \<in> set es. as_lookup e = None" for t es es'
    using that expr_equal_no_lookup [OF assms(1)] by (auto simp: list_all2_conv_all_nth list_eq_iff_nth_eq)
  have strip: "map strip_counter (ru_Exprs ?d) = ru_Exprs ?d" and look: "\<forall>e \<in> set (ru_Exprs ?d). as_lookup e = None"
    by (simp_all add: drop_rule_exprs strip_counter_def logExpr_def dropVerdict_def as_lookup_def)
  have "list_all2 (expr_equal M t t) (ru_Exprs ?d) (ru_Exprs r) \<longleftrightarrow> map strip_counter (ru_Exprs r) = ru_Exprs ?d" for t
    unfolding eq [OF look] strip by (rule eq_commute)
  moreover have "ru_UserData ?d = cid" "ru_Table ?d = Some filterTable" using assms(2) by (simp_all add: createDropRule_def)
  ultimately show ?thesis using assms(3) unfolding rulesEqual_iff is_drop_for_def by (simp add: eq_commute)
qed

lemma drop_rule_is_drop: "is_drop_for chain cid ((createDropRule chain cid)\<lparr>ru_Handle := h\<rparr>)"
  by (simp add: is_drop_for_def createDropRule_def strip_counter_def logExpr_def dropVerdict_def)

lemma drop_exprs:
  assumes "is_drop_for chain cid r"
  obtains m n l where "ru_Exprs r = [ECounter m n, ELog l, dropVerdict]"
proof -
  obtain e1 e2 e3 where e: "ru_Exprs r = [e1, e2, e3]" "strip_counter e1 = ECounter 0 0"
    "strip_counter e2 = logExpr (ch_Name chain @ '' drop: '')" "strip_counter e3 = dropVerdict"
    using assms unfolding is_drop_for_def drop_rule_exprs map_eq_Cons_conv by blast
  moreover obtain m n where "e1 = ECounter m n" using e(2) by (cases e1) (simp_all add: strip_counter_def)
  moreover obtain l where "e2 = ELog l" using e(3) by (cases e2) (simp_all add: strip_counter_def logExpr_def)
  moreover have "e3 = dropVerdict" using e(4) by (cases e3) (simp_all add: strip_counter_def dropVerdict_def)
  ultimately show ?thesis using that by simp
qed

lemma drop_settled: "is_drop_for chain cid r \<Longrightarrow> pending_sets r = {}"
  by (erule drop_exprs) (simp add: pending_sets_def dropVerdict_def)

lemma drop_outcome: "is_drop_for chain cid r \<Longrightarrow> run_rule rs p r = Decided \<lparr>vd_Kind = VerdictDrop, vd_Chain = []\<rparr>"
  by (erule drop_exprs) (simp add: run_rule_def dropVerdict_def)

text \<open>A chain that drops everything, and one that lets nothing fall off its end.\<close>

lemma drop_head_chain: "is_drop_for chain cid r \<Longrightarrow> run_chain rs p (r # rules) = Decided \<lparr>vd_Kind = VerdictDrop, vd_Chain = []\<rparr>"
  by (simp add: drop_outcome)

lemma drop_tail_chain: "is_drop_for chain cid r \<Longrightarrow> run_chain rs p (rules @ [r]) \<noteq> Fallthrough"
  by (induction rules) (auto simp: drop_outcome split: outcome.splits)

section \<open>The fail-closed floor\<close>

definition floor_installed :: "nft_chain \<Rightarrow> string \<Rightarrow> bool \<Rightarrow> ruleset \<Rightarrow> ruleset \<Rightarrow> bool" where
  "floor_installed chain cid quarantineFirst old new \<longleftrightarrow>
     (let n = ch_Name chain; before = rs_rules old n in
      (\<exists>rules. rs_chains new n = Some (chain_or chain (rs_chains old n), rules) \<and>
         ((\<exists>d. is_drop_for chain cid d \<and> rules = d # before) \<or>
          (rules = before \<and> rules \<noteq> [] \<and> is_drop_for chain cid (hd rules)) \<or>
          (\<not> quarantineFirst \<and> rules = before \<and> (\<exists>d \<in> set rules. is_drop_for chain cid d)))) \<and>
      (\<forall>m. m \<noteq> n \<longrightarrow> rs_chains new m = rs_chains old m) \<and>
      (\<forall>m. \<not> is_anon_name m \<longrightarrow> rs_sets new m = rs_sets old m))"

lemma floor_drops_all:
  "floor_installed chain cid True old new \<Longrightarrow>
   run_chain rs p (rs_rules new (ch_Name chain)) = Decided \<lparr>vd_Kind = VerdictDrop, vd_Chain = []\<rparr>"
proof -
  assume "floor_installed chain cid True old new"
  then obtain rules where "rs_rules new (ch_Name chain) = rules" "rules \<noteq> []" "is_drop_for chain cid (hd rules)"
    unfolding floor_installed_def Let_def by (auto simp: rs_rules_def)
  then show ?thesis by (cases rules) (auto simp: drop_outcome)
qed

lemma floor_kept:
  assumes "rs_chains k (ch_Name chain) = Some (ch, rules)"
    "rules \<noteq> [] \<and> is_drop_for chain cid (hd rules) \<or> \<not> q \<and> (\<exists>d \<in> set rules. is_drop_for chain cid d)"
  shows "floor_installed chain cid q k k"
  using assms unfolding floor_installed_def Let_def by (auto simp: rs_rules_def chain_or_def)

lemma floor_committed:
  assumes wf: "wf_ruleset k" and commits: "rs_commits k b new" and fr: "frame {ch_Name chain} k b"
    and b: "rs_chains b (ch_Name chain) = Some (chain_or chain (rs_chains k (ch_Name chain)), d # rs_rules k (ch_Name chain))"
    and d: "is_drop_for chain cid d"
  shows "floor_installed chain cid q k new"
proof -
  have "all_settled (d # rs_rules k (ch_Name chain))"
    using settled_rules [OF wf] drop_settled [OF d] by (simp add: all_settled_def)
  from commit_settled [OF commits b this] have "rs_chains new (ch_Name chain) =
    Some (chain_or chain (rs_chains k (ch_Name chain)), d # rs_rules k (ch_Name chain))" .
  moreover have "rs_chains new m = rs_chains k m" if "m \<noteq> ch_Name chain" for m
    using commit_unchanged [OF wf commits] frame_chain [OF fr] that by simp
  moreover have "rs_sets new m = rs_sets k m" if "\<not> is_anon_name m" for m
    using commit_named_set [OF commits that] frame_set [OF fr that] by simp
  ultimately show ?thesis using d unfolding floor_installed_def Let_def by blast
qed

context firewall_client
begin

lemma find_same_chain:
  assumes "ok c" "fc_ListChainsOfTableFamily F TableFamilyIPv4 c = Inr chs" "ch_Table chain = Some filterTable"
  shows "case find (same_chain chain) chs of None \<Rightarrow> rs_chains (committed c) (ch_Name chain) = None
    | Some ch \<Rightarrow> \<exists>rules. rs_chains (committed c) (ch_Name chain) = Some (ch, rules)"
proof -
  have iff: "ch \<in> set chs \<and> in_filter ch \<longleftrightarrow> (\<exists>rules. rs_chains (committed c) (ch_Name ch) = Some (ch, rules))" for ch
    using ListChains_committed [OF assms(1,2)] by blast
  have same: "same_chain chain ch \<longleftrightarrow> in_filter ch \<and> ch_Name ch = ch_Name chain" for ch
    using assms(3) by (auto simp: same_chain_def in_filter_def split: option.splits)
  show ?thesis
  proof (cases "find (same_chain chain) chs")
    case (Some ch)
    then have "ch \<in> set chs" "same_chain chain ch" using nth_mem by (force simp: find_Some_iff)+
    with Some same iff [of ch] show ?thesis by auto
  next
    case None
    have "rs_chains (committed c) (ch_Name chain) = None"
    proof (rule ccontr)
      assume "rs_chains (committed c) (ch_Name chain) \<noteq> None"
      then obtain ch rules where k: "rs_chains (committed c) (ch_Name chain) = Some (ch, rules)" by auto
      then have "ch_Name ch = ch_Name chain" using wf_ruleset_chain(1) [OF committed_wf [OF assms(1)]] by blast
      with k iff [of ch] same [of ch] None show False by (auto simp: find_None_iff)
    qed
    with None show ?thesis by simp
  qed
qed

lemma flush_edit:
  assumes "spec (\<lambda>c. (f c, None)) R" "ok c" "staged c = Some (committed c)" "flush_wrap msg F (f c) = (c', e)"
  shows "ok c' \<and> (e \<noteq> None \<longrightarrow> committed c' = committed c) \<and> (e = None \<longrightarrow> staged c' = Some (committed c') \<and>
    (\<exists>b. R (committed c) (committed c) b \<and> rs_commits (committed c) b (committed c')))"
proof -
  have "st_seq [\<lambda>c. (f c, None), flush_wrap msg F] c = (c', e)"
    using assms(4) by (auto split: option.splits)
  from flush_spec [OF assms(1,2) this] assms(3) show ?thesis by auto
qed

end

context firewall_client
begin

lemma insert_drop_spec:
  assumes "ch_Table chain = Some filterTable"
  shows "spec (\<lambda>c. (fc_InsertRule F (createDropRule chain cid) c, None)) (\<lambda>k a b. \<forall>ch rules.
    rs_chains a (ch_Name chain) = Some (ch, rules) \<longrightarrow> frame {ch_Name chain} a b \<and>
    (\<exists>d. is_drop_for chain cid d \<and> rs_chains b (ch_Name chain) = Some (ch, d # rules)))"
proof -
  have "ru_Table (createDropRule chain cid) = Some filterTable" by (simp add: createDropRule_def assms)
  then show ?thesis
  proof (rule edit_spec_mono [OF InsertRule_spec], elim exE conjE, intro allI impI)
    fix k a b :: ruleset and h ch rules
    assume ins: "rs_InsertRule h (createDropRule chain cid) a = Some b" and a: "rs_chains a (ch_Name chain) = Some (ch, rules)"
    have "ru_Chain (createDropRule chain cid) = chain" by (simp add: createDropRule_def)
    with rs_InsertRule_effect [OF ins] a drop_rule_is_drop
    show "frame {ch_Name chain} a b \<and> (\<exists>d. is_drop_for chain cid d \<and> rs_chains b (ch_Name chain) = Some (ch, d # rules))"
      by fastforce
  qed
qed

lemma new_chain_spec:
  assumes "ch_Table chain = Some filterTable"
  shows "spec (\<lambda>c. (fc_AddRule F (createDropRule chain cid) (fc_AddChain F chain c), None)) (\<lambda>k a b.
    rs_chains a (ch_Name chain) = None \<longrightarrow> frame {ch_Name chain} a b \<and>
    (\<exists>d. is_drop_for chain cid d \<and> rs_chains b (ch_Name chain) = Some (chain, [d])))"
proof -
  let ?d = "createDropRule chain cid"
  have d: "ru_Table ?d = Some filterTable" "ru_Chain ?d = chain" by (simp_all add: createDropRule_def assms)
  have "spec (\<lambda>c. case (fc_AddChain F chain c, None) of (c, Some e) \<Rightarrow> (c, Some e) | (c, None) \<Rightarrow> (fc_AddRule F ?d c, None))
    (\<lambda>k a b. \<exists>m. rs_AddChain chain a = Some m \<and> (\<exists>h. ru_Handle ?d = 0 \<and> h \<noteq> 0 \<and> rs_AddRule h ?d m = Some b))"
    by (rule edit_spec_then [OF AddChain_spec AddRule_spec]) (simp_all add: assms d)
  then have "spec (\<lambda>c. (fc_AddRule F ?d (fc_AddChain F chain c), None))
    (\<lambda>k a b. \<exists>m h. rs_AddChain chain a = Some m \<and> rs_AddRule h ?d m = Some b)"
    by (auto elim!: edit_spec_mono)
  then show ?thesis
  proof (rule edit_spec_mono, elim exE conjE, intro impI)
    fix k a b m :: ruleset and h
    assume m: "rs_AddChain chain a = Some m" and add: "rs_AddRule h ?d m = Some b" and a: "rs_chains a (ch_Name chain) = None"
    from rs_AddChain_effect [OF m a] have am: "frame {ch_Name chain} a m" "rs_chains m (ch_Name chain) = Some (chain, [])" by auto
    with rs_AddRule_effect [OF add] d have mb: "frame {ch_Name chain} m b"
      "rs_chains b (ch_Name chain) = Some (chain, [?d\<lparr>ru_Handle := h\<rparr>])" by auto
    with frame_trans [OF am(1) mb(1)] drop_rule_is_drop
    show "frame {ch_Name chain} a b \<and> (\<exists>d. is_drop_for chain cid d \<and> rs_chains b (ch_Name chain) = Some (chain, [d]))"
      by auto
  qed
qed

lemma ensureContainerDropPolicy_ok:
  assumes c: "ok c" "staged c = Some (committed c)" and M: "marshal_ok M" and t: "ch_Table chain = Some filterTable"
    and run: "ensureContainerDropPolicy F M chain cid q c = (c', e)"
  shows "ok c' \<and> (e \<noteq> None \<longrightarrow> committed c' = committed c) \<and>
    (e = None \<longrightarrow> staged c' = Some (committed c') \<and> floor_installed chain cid q (committed c) (committed c'))"
proof (cases "fc_ListChainsOfTableFamily F TableFamilyIPv4 c")
  case (Inl x)
  with run c(1) show ?thesis by (auto simp: ensureContainerDropPolicy_def)
next
  case list: (Inr chs)
  let ?n = "ch_Name chain"
  note wf = committed_wf [OF c(1)] and found = find_same_chain [OF c(1) list t]
  show ?thesis
  proof (cases "find (same_chain chain) chs")
    case None
    with run list t have fl: "flush_wrap ''error installing fail-closed policy'' F
        (fc_AddRule F (createDropRule chain cid) (fc_AddChain F chain c)) = (c', e)"
      by (simp add: ensureContainerDropPolicy_def)
    have k: "rs_chains (committed c) ?n = None" using found None by simp
    note res = flush_edit [OF new_chain_spec [OF t] c fl]
    have "floor_installed chain cid q (committed c) (committed c')" if "e = None"
    proof -
      from res that k obtain b d where b: "rs_commits (committed c) b (committed c')" "frame {?n} (committed c) b"
        "is_drop_for chain cid d" "rs_chains b ?n = Some (chain, [d])" by blast
      show ?thesis by (rule floor_committed [OF wf b(1,2) _ b(3)]) (simp add: b(4) k chain_or_def rs_rules_def)
    qed
    with res show ?thesis by simp
  next
    case (Some ch)
    with found obtain rules where k: "rs_chains (committed c) ?n = Some (ch, rules)" by auto
    show ?thesis
    proof (cases "validateRegularOwnedChain ch")
      case (Some x)
      with \<open>find (same_chain chain) chs = Some ch\<close> run list t c(1) show ?thesis
        by (auto simp: ensureContainerDropPolicy_def)
    next
      case valid: None
      show ?thesis
      proof (cases "fc_GetRules F filterTable chain c")
        case (Inl x)
        with Some valid run list t c(1) show ?thesis by (auto simp: ensureContainerDropPolicy_def)
      next
        case (Inr rules0)
        with GetRules_committed [OF c(1) Inr] k have r0: "rules0 = rules" by simp
        have drop: "rulesEqual M (createDropRule chain cid) r \<longleftrightarrow> is_drop_for chain cid r" if "r \<in> set rules" for r
          using wf_ruleset_chain(4) [OF wf k that] rulesEqual_drop [OF M t] by blast
        let ?kept = "rules \<noteq> [] \<and> is_drop_for chain cid (hd rules) \<or> \<not> q \<and> (\<exists>d \<in> set rules. is_drop_for chain cid d)"
        show ?thesis
        proof (cases ?kept)
          case True
          have "(c, None) = (c', e)"
            using True run list t Some valid Inr r0 drop
            by (auto simp: ensureContainerDropPolicy_def list_ex_iff split: if_splits)
          with floor_kept [of "committed c" chain ch rules cid q] k True c show ?thesis by auto
        next
          case False
          have "\<not> (rules \<noteq> [] \<and> rulesEqual M (createDropRule chain cid) (hd rules))"
            "\<not> (\<not> q \<and> list_ex (rulesEqual M (createDropRule chain cid)) rules)"
            using False drop by (auto simp: list_ex_iff)
          moreover have "ensureContainerDropPolicy F M chain cid q c =
              (if rules \<noteq> [] \<and> rulesEqual M (createDropRule chain cid) (hd rules) then (c, None)
               else if \<not> q \<and> list_ex (rulesEqual M (createDropRule chain cid)) rules then (c, None)
               else flush_wrap ''error installing fail-closed policy'' F (fc_InsertRule F (createDropRule chain cid) c))"
            using list t Some valid Inr r0 by (simp add: ensureContainerDropPolicy_def)
          ultimately have fl: "flush_wrap ''error installing fail-closed policy'' F
              (fc_InsertRule F (createDropRule chain cid) c) = (c', e)"
            using run by (simp only: if_False)
          note res = flush_edit [OF insert_drop_spec [OF t] c fl]
          have "floor_installed chain cid q (committed c) (committed c')" if "e = None"
          proof -
            from res that k obtain b d where b: "rs_commits (committed c) b (committed c')" "frame {?n} (committed c) b"
              "is_drop_for chain cid d" "rs_chains b ?n = Some (ch, d # rules)" by blast
            show ?thesis by (rule floor_committed [OF wf b(1,2) _ b(3)]) (simp add: b(4) k chain_or_def rs_rules_def)
          qed
          with res show ?thesis by simp
        qed
      qed
    qed
  qed
qed

end

section \<open>Properties\<close>

text \<open>C13: The enforcement floor is installed atomically, before anything else is known about a container.
  On an error nothing has changed. On success the container's chain exists and holds its drop rule, at
  the head when a quarantine was asked for (then the chain drops every packet), and nothing else has
  changed: the chain's other rules follow in their old order, every other chain and named set is the same.\<close>

theorem ensureContainerDropPolicy_correct:
  assumes "firewall_client F ok committed staged" and "marshal_ok M"
    and "ok c" and "staged c = Some (committed c)" and "ch_Table chain = Some filterTable"
    and "ensureContainerDropPolicy F M chain cid quarantineFirst c = (c', e)"
  shows "(e \<noteq> None \<longrightarrow> committed c' = committed c) \<and>
    (e = None \<longrightarrow> floor_installed chain cid quarantineFirst (committed c) (committed c') \<and>
       (quarantineFirst \<longrightarrow> (\<forall>p. run_chain (committed c') p (rs_rules (committed c') (ch_Name chain)) =
          Decided \<lparr>vd_Kind = VerdictDrop, vd_Chain = []\<rparr>)))"
proof -
  note res = firewall_client.ensureContainerDropPolicy_ok [OF assms(1,3,4,2,5,6)]
  have "run_chain (committed c') p (rs_rules (committed c') (ch_Name chain)) = Decided \<lparr>vd_Kind = VerdictDrop, vd_Chain = []\<rparr>"
    if "e = None" quarantineFirst for p
    by (rule floor_drops_all [of chain cid "committed c"]) (use res that in simp)
  with res show ?thesis by blast
qed

text \<open>C14: A policy is replaced as a whole or not at all, in whatever order Go runs over its maps. On an
  error the ruleset is what it was, whatever rules had been queued. On success the container's own chain
  holds exactly the desired rules for it, in order, and its drop at the end; every other chain under the
  program's names has lost exactly the rules that carry the container's id and gained the desired ones,
  in order (behind the dispatchers of the Whalewall chain, in front of a peer's own rules); all other
  chains only gain the rules desired for them; and no named set changes.\<close>

theorem replaceContainerPolicy_correct:
  assumes "firewall_client F ok committed staged" and "ok c"
    and "\<forall>a. staged c = Some a \<longrightarrow> sets_queued (committed c) a"
    and "reorders ord" and "ch_Table own = Some filterTable"
    and "\<forall>r \<in> set desired. ru_Table r = Some filterTable"
    and "replaceContainerPolicy F ord own cid desired c = (c', e)"
  shows "(e \<noteq> None \<longrightarrow> committed c' = committed c) \<and>
    (e = None \<longrightarrow> policy_replaced own cid desired (committed c) (committed c'))"
  using firewall_client.replaceContainerPolicy_ok [OF assms(1,2) _ assms(4-7)] assms(3) by blast

lemma installed_drop: "installed (createDropRule own cid) d \<Longrightarrow> is_drop_for own cid d"
  using drop_rule_is_drop commit_rule_settled [OF drop_settled [OF drop_rule_is_drop]] by (auto simp: installed_def)

lemma policy_replaced_own:
  assumes "policy_replaced own cid desired old new"
  obtains rules d where "rs_rules new (ch_Name own) = rules @ [d]" "is_drop_for own cid d"
    "list_all2 installed (rules_for desired (ch_Name own)) rules"
proof -
  obtain ch before where old: "rs_chains old (ch_Name own) = Some (ch, before)"
    using assms by (auto simp: policy_replaced_def)
  have "chain_replaced installed own cid desired old new" using assms by (simp add: policy_replaced_def)
  from spec [OF this [unfolded chain_replaced_def], of "ch_Name own"] old
  obtain rules where "rs_chains new (ch_Name own) = Some (ch, rules)"
    "replaced installed own cid desired (ch_Name own) before rules" by auto
  with installed_drop that show ?thesis unfolding replaced_def by (auto simp: rs_rules_def)
qed

text \<open>C15: A replaced policy fails closed. No packet falls off the end of the container's chain: what no
  rule accepts is dropped. And the empty policy, with which a container is quarantined, drops every
  packet in the container's chain and leaves no rule of the container in any other chain under the
  program's names.\<close>

theorem replaceContainerPolicy_fails_closed:
  assumes "firewall_client F ok committed staged" and "ok c"
    and "\<forall>a. staged c = Some a \<longrightarrow> sets_queued (committed c) a"
    and "reorders ord" and "ch_Table own = Some filterTable"
    and "\<forall>r \<in> set desired. ru_Table r = Some filterTable"
    and "replaceContainerPolicy F ord own cid desired c = (c', None)"
  shows "run_chain (committed c') p (rs_rules (committed c') (ch_Name own)) \<noteq> Fallthrough \<and>
    (desired = [] \<longrightarrow>
       run_chain (committed c') p (rs_rules (committed c') (ch_Name own)) =
         Decided \<lparr>vd_Kind = VerdictDrop, vd_Chain = []\<rparr> \<and>
       (\<forall>n. owned_name n \<longrightarrow> n \<noteq> ch_Name own \<longrightarrow>
          rs_rules (committed c') n = filter (\<lambda>r. ru_UserData r \<noteq> cid) (rs_rules (committed c) n)))"
proof -
  have rep: "policy_replaced own cid desired (committed c) (committed c')"
    using firewall_client.replaceContainerPolicy_ok [OF assms(1,2) _ assms(4-7)] assms(3) by blast
  from policy_replaced_own [OF rep] obtain rules d where r: "rs_rules (committed c') (ch_Name own) = rules @ [d]"
    "is_drop_for own cid d" "list_all2 installed (rules_for desired (ch_Name own)) rules" by blast
  have "rs_rules (committed c') n = filter (\<lambda>r. ru_UserData r \<noteq> cid) (rs_rules (committed c) n)"
    if "desired = []" "owned_name n" "n \<noteq> ch_Name own" for n
  proof -
    have "chain_replaced installed own cid desired (committed c) (committed c')" using rep by (simp add: policy_replaced_def)
    from spec [OF this [unfolded chain_replaced_def], of n] that show ?thesis
      by (auto simp: replaced_def rules_for_def rs_rules_def Let_def split: option.splits)
  qed
  moreover have "rules = []" if "desired = []" using r(3) that by (simp add: rules_for_def)
  ultimately show ?thesis using drop_tail_chain [OF r(2)] drop_head_chain [OF r(2), of _ _ "[]"] r(1) by auto
qed

end
