(* ===== verification/Address_Policy.thy ===== *)
theory Address_Policy
  imports Policy_Correct
begin

text \<open>
  What \<open>replaceContainerAddressMappings\<close> does to the address map, and
  \<open>quarantineDisplacedContainerPolicies\<close> to the chains that lose an address. The map is read as
  a function from keys to verdicts; the program's lists of elements to delete and to add are shown to
  be exactly the difference to the wanted map.
\<close>

section \<open>The map as a function\<close>

definition mapped :: "netlink_lib \<Rightarrow> set_element list \<Rightarrow> byte list \<Rightarrow> verdict_expr option" where
  "mapped N els k =
     (case find (\<lambda>e. el_Key e = k) els of
        None \<Rightarrow> None
      | Some e \<Rightarrow> (case containerMappingVerdict N e of Inl _ \<Rightarrow> None | Inr v \<Rightarrow> Some v))"

definition goto_chain :: "string \<Rightarrow> verdict_expr" where
  "goto_chain chainName = \<lparr>vd_Kind = VerdictGoto, vd_Chain = chainName\<rparr>"

definition address_mapping :: "string \<Rightarrow> byte list \<Rightarrow> set_element" where
  "address_mapping chainName addr = (key_element addr)\<lparr>el_VerdictData := Some (goto_chain chainName)\<rparr>"

lemma address_mapping_sel [simp]:
  "el_Key (address_mapping n a) = a" "el_VerdictData (address_mapping n a) = Some (goto_chain n)"
  "el_Val (address_mapping n a) = []" "el_KeyEnd (address_mapping n a) = []" "\<not> el_IntervalEnd (address_mapping n a)"
  by (simp_all add: address_mapping_def key_element_def)

lemma address_mapping_verdict:
  "containerIDFromChainName n = Inr cid \<Longrightarrow> containerMappingVerdict N (address_mapping n a) = Inr (goto_chain n)"
  by (simp add: containerMappingVerdict_def goto_chain_def)

lemma find_key:
  assumes "distinct (map el_Key els)" "e \<in> set els"
  shows "find (\<lambda>x. el_Key x = el_Key e) els = Some e"
  using assms
proof (induction els)
  case (Cons x els)
  then show ?case by (auto simp: image_iff)
qed simp

lemma find_key_None: "find (\<lambda>x. el_Key x = k) els = None \<longleftrightarrow> k \<notin> el_Key ` set els"
  by (auto simp: find_None_iff)

section \<open>Deleting and adding elements\<close>

definition keyless :: "byte list set \<Rightarrow> set_element list \<Rightarrow> set_element list" where
  "keyless ks els = filter (\<lambda>e. el_Key e \<notin> ks) els"

lemma remove_first_key:
  assumes "distinct (map el_Key els)" "list_ex (same_key v) els"
  shows "remove_first (same_key v) els = keyless {el_Key v} els"
  using assms
proof (induction els)
  case (Cons e els)
  show ?case
  proof (cases "same_key v e")
    case True
    then have "el_Key e = el_Key v" by (simp add: same_key_def)
    moreover from this have "keyless {el_Key v} els = els"
      using Cons.prems(1) by (auto simp: keyless_def filter_id_conv image_iff)
    ultimately show ?thesis using True by (simp add: keyless_def)
  next
    case False
    with Cons.prems(2) have ex: "list_ex (same_key v) els" by simp
    then obtain x where "x \<in> set els" "el_Key x = el_Key v" by (auto simp: list_ex_iff same_key_def)
    then have "el_Key v \<in> el_Key ` set els" by (metis imageI)
    with Cons.prems(1) have "el_Key e \<noteq> el_Key v" by auto
    with False Cons ex show ?thesis by (simp add: keyless_def)
  qed
qed simp

lemma keyless_keyless: "keyless A (keyless B els) = keyless (A \<union> B) els"
  by (auto simp: keyless_def intro: filter_cong)

lemma distinct_keyless: "distinct (map el_Key els) \<Longrightarrow> distinct (map el_Key (keyless ks els))"
  by (simp add: keyless_def distinct_map_filter)

lemma delete_elements_keyless:
  "distinct (map el_Key els) \<Longrightarrow> delete_elements els ds = Some els' \<Longrightarrow> els' = keyless (el_Key ` set ds) els"
proof (induction ds arbitrary: els)
  case Nil
  then show ?case by (simp add: keyless_def)
next
  case (Cons d ds)
  then have ex: "list_ex (same_key d) els" and del: "delete_elements (remove_first (same_key d) els) ds = Some els'"
    by (auto split: if_splits)
  note rem = remove_first_key [OF Cons.prems(1) ex]
  have "els' = keyless (el_Key ` set ds) (keyless {el_Key d} els)"
    using Cons.IH [of "keyless {el_Key d} els"] del rem distinct_keyless [OF Cons.prems(1)] by simp
  then show ?case by (simp add: keyless_keyless Un_commute)
qed

lemma add_elements_fresh:
  "distinct (map el_Key vs) \<Longrightarrow> el_Key ` set vs \<inter> el_Key ` set els = {} \<Longrightarrow> add_elements els vs = els @ vs"
proof (induction vs arbitrary: els)
  case (Cons v vs)
  then have "v \<notin> set els" by auto
  with Cons.prems Cons.IH [of "els @ [v]"] show ?case by auto
qed simp

section \<open>The plan\<close>

text \<open>The verdict of an element that has one.\<close>

definition verdict_in :: "netlink_lib \<Rightarrow> set_element \<Rightarrow> verdict_expr" where
  "verdict_in N e = (case containerMappingVerdict N e of Inr v \<Rightarrow> v | Inl _ \<Rightarrow> goto_chain [])"

lemma verdict_in_eq: "containerMappingVerdict N e = Inr v \<Longrightarrow> verdict_in N e = v"
  by (simp add: verdict_in_def)

text \<open>An element the plan deletes, and one it replaces.\<close>

definition stale :: "netlink_lib \<Rightarrow> set_element list \<Rightarrow> string \<Rightarrow> set_element \<Rightarrow> bool" where
  "stale N desired chainName e \<longleftrightarrow>
     (case desired_by_key desired (el_Key e) of
        Some wanted \<Rightarrow> \<not> verdictSetElementsEqual (e\<lparr>el_VerdictData := Some (verdict_in N e)\<rparr>) wanted
      | None \<Rightarrow> vd_Chain (verdict_in N e) = chainName)"

definition wanted_key :: "set_element list \<Rightarrow> set_element \<Rightarrow> bool" where
  "wanted_key desired e \<longleftrightarrow> desired_by_key desired (el_Key e) \<noteq> None"

definition takes_from :: "netlink_lib \<Rightarrow> set_element list \<Rightarrow> string \<Rightarrow> set_element \<Rightarrow> bool" where
  "takes_from N desired chainName e \<longleftrightarrow>
     wanted_key desired e \<and> stale N desired chainName e \<and> vd_Chain (verdict_in N e) \<noteq> chainName"

lemma plan_existing_step:
  assumes "containerMappingVerdict N e = Inr v" "plan_existing desired chainName e v p = Inr q"
  shows "ap_delete q = ap_delete p @ (if stale N desired chainName e then [key_element (el_Key e)] else [])"
    and "ap_add q = ap_add p @ (if wanted_key desired e \<and> stale N desired chainName e
           then [the (desired_by_key desired (el_Key e))] else [])"
    and "set (ap_seen q) = set (ap_seen p) \<union> (if wanted_key desired e then {el_Key e} else {})"
    and "map_of (ap_displaced q) = (if takes_from N desired chainName e
           then (map_of (ap_displaced p))(vd_Chain v \<mapsto> drop (length chainPrefix) (vd_Chain v)) else map_of (ap_displaced p))"
  using assms verdict_in_eq [OF assms(1)]
  by (auto simp: plan_existing_def stale_def wanted_key_def takes_from_def Let_def update_conv' containerIDFromChainName_iff
      split: option.splits if_splits sum.splits)

lemma plan_existings_ok:
  assumes "plan_existings N desired chainName es p = Inr q"
  shows "\<forall>e \<in> set es. \<exists>v. containerMappingVerdict N e = Inr v"
    and "ap_delete q = ap_delete p @ map (\<lambda>e. key_element (el_Key e)) (filter (stale N desired chainName) es)"
    and "ap_add q = ap_add p @ map (\<lambda>e. the (desired_by_key desired (el_Key e)))
           (filter (\<lambda>e. wanted_key desired e \<and> stale N desired chainName e) es)"
    and "set (ap_seen q) = set (ap_seen p) \<union> el_Key ` {e \<in> set es. wanted_key desired e}"
    and "map_of (ap_displaced q) n = (if \<exists>e \<in> set es. takes_from N desired chainName e \<and> vd_Chain (verdict_in N e) = n
           then Some (drop (length chainPrefix) n) else map_of (ap_displaced p) n)"
proof -
  have "(\<forall>e \<in> set es. \<exists>v. containerMappingVerdict N e = Inr v) \<and>
    ap_delete q = ap_delete p @ map (\<lambda>e. key_element (el_Key e)) (filter (stale N desired chainName) es) \<and>
    ap_add q = ap_add p @ map (\<lambda>e. the (desired_by_key desired (el_Key e)))
      (filter (\<lambda>e. wanted_key desired e \<and> stale N desired chainName e) es) \<and>
    set (ap_seen q) = set (ap_seen p) \<union> el_Key ` {e \<in> set es. wanted_key desired e} \<and>
    (\<forall>n. map_of (ap_displaced q) n = (if \<exists>e \<in> set es. takes_from N desired chainName e \<and> vd_Chain (verdict_in N e) = n
      then Some (drop (length chainPrefix) n) else map_of (ap_displaced p) n))"
    using assms
  proof (induction es arbitrary: p)
    case (Cons e es)
    then obtain v p1 where v: "containerMappingVerdict N e = Inr v" and p1: "plan_existing desired chainName e v p = Inr p1"
      and rest: "plan_existings N desired chainName es p1 = Inr q" by (auto split: sum.splits)
    note step = plan_existing_step [OF v p1]
    note IH = Cons.IH [OF rest]
    have "map_of (ap_displaced q) n = (if \<exists>e \<in> set (e # es). takes_from N desired chainName e \<and> vd_Chain (verdict_in N e) = n
      then Some (drop (length chainPrefix) n) else map_of (ap_displaced p) n)" for n
      using IH step(4) verdict_in_eq [OF v] by auto
    moreover have "set (ap_seen q) = set (ap_seen p) \<union> el_Key ` {e' \<in> set (e # es). wanted_key desired e'}"
      using IH step(3) by auto
    ultimately show ?case using IH step(1,2) v by simp
  qed simp
  then show "\<forall>e \<in> set es. \<exists>v. containerMappingVerdict N e = Inr v"
    "ap_delete q = ap_delete p @ map (\<lambda>e. key_element (el_Key e)) (filter (stale N desired chainName) es)"
    "ap_add q = ap_add p @ map (\<lambda>e. the (desired_by_key desired (el_Key e)))
      (filter (\<lambda>e. wanted_key desired e \<and> stale N desired chainName e) es)"
    "set (ap_seen q) = set (ap_seen p) \<union> el_Key ` {e \<in> set es. wanted_key desired e}"
    "map_of (ap_displaced q) n = (if \<exists>e \<in> set es. takes_from N desired chainName e \<and> vd_Chain (verdict_in N e) = n
      then Some (drop (length chainPrefix) n) else map_of (ap_displaced p) n)" by blast+
qed

section \<open>The map after the plan\<close>

lemma desired_mapping:
  "desired_by_key (map (address_mapping n) keys) k = (if k \<in> set keys then Some (address_mapping n k) else None)"
proof -
  have "map_of (rev (map (\<lambda>e. (el_Key e, e)) (map (address_mapping n) keys))) =
      map_of (map (\<lambda>a. (a, address_mapping n a)) (rev keys))"
    by (simp add: rev_map comp_def)
  then show ?thesis by (simp add: desired_by_key_def map_of_map_restrict restrict_map_def)
qed

lemma missing_mapping:
  "\<exists>ks. missing_elements seen queued (map (address_mapping n) keys) = map (address_mapping n) ks \<and> distinct ks \<and>
     set ks = set keys - set seen - set queued"
proof (induction keys arbitrary: queued)
  case (Cons a keys)
  show ?case
  proof (cases "a \<in> set seen \<or> a \<in> set queued")
    case True
    then have "missing_elements seen queued (map (address_mapping n) (a # keys)) =
        missing_elements seen queued (map (address_mapping n) keys)" by auto
    with True Cons.IH [of queued] show ?thesis by auto
  next
    case False
    obtain ks where "missing_elements seen (a # queued) (map (address_mapping n) keys) = map (address_mapping n) ks"
      "distinct ks" "set ks = set keys - set seen - set (a # queued)" using Cons.IH [of "a # queued"] by blast
    with False show ?thesis by (intro exI [of _ "a # ks"]) auto
  qed
qed simp

lemma stale_mapping:
  assumes "containerMappingVerdict N e = Inr v" "\<exists>cid. containerIDFromChainName n = Inr cid"
  shows "stale N (map (address_mapping n) keys) n e \<longleftrightarrow> (if el_Key e \<in> set keys then vd_Chain v \<noteq> n else vd_Chain v = n)"
    and "wanted_key (map (address_mapping n) keys) e \<longleftrightarrow> el_Key e \<in> set keys"
proof -
  have kind: "vd_Kind v = VerdictGoto" using containerMappingVerdict_owned [OF assms(1)] by simp
  then have "v = goto_chain n \<longleftrightarrow> vd_Chain v = n" by (cases v) (auto simp: goto_chain_def)
  then show "stale N (map (address_mapping n) keys) n e \<longleftrightarrow> (if el_Key e \<in> set keys then vd_Chain v \<noteq> n else vd_Chain v = n)"
    using verdict_in_eq [OF assms(1)] by (simp add: stale_def desired_mapping verdictSetElementsEqual_iff)
  show "wanted_key (map (address_mapping n) keys) e \<longleftrightarrow> el_Key e \<in> set keys"
    by (simp add: wanted_key_def desired_mapping)
qed

lemma mapped_element:
  "distinct (map el_Key els) \<Longrightarrow> e \<in> set els \<Longrightarrow> containerMappingVerdict N e = Inr v \<Longrightarrow> mapped N els (el_Key e) = Some v"
  by (simp add: mapped_def find_key)

lemma mapped_absent: "k \<notin> el_Key ` set els \<Longrightarrow> mapped N els k = None"
  using find_key_None [of k els] by (simp add: mapped_def)

text \<open>The wanted map: the desired addresses at the container's chain, no other address there, and
  everything else as it was.\<close>

definition remapped :: "netlink_lib \<Rightarrow> string \<Rightarrow> byte list list \<Rightarrow> set_element list \<Rightarrow> set_element list \<Rightarrow> bool" where
  "remapped N n keys els els' \<longleftrightarrow> distinct (map el_Key els') \<and>
     (\<forall>k. mapped N els' k =
        (if k \<in> set keys then Some (goto_chain n)
         else case mapped N els k of
           None \<Rightarrow> None | Some v \<Rightarrow> if vd_Chain v = n then None else Some v))"

lemma plan_remaps:
  assumes d: "distinct (map el_Key els)" and n: "containerIDFromChainName n = Inr cid"
    and plan: "plan_addresses N (map (address_mapping n) keys) n els = Inr p"
    and del: "delete_elements els (ap_delete p) = Some els1"
  shows "remapped N n keys els (add_elements els1 (ap_add p))"
proof -
  let ?des = "map (address_mapping n) keys" and ?St = "stale N (map (address_mapping n) keys) n"
  obtain q where q: "plan_existings N ?des n els empty_plan = Inr q"
    and p: "p = q\<lparr>ap_add := ap_add q @ missing_elements (ap_seen q) [] ?des\<rparr>"
    using plan by (auto simp: plan_addresses_def split: sum.splits)
  note ex = plan_existings_ok [OF q]
  have verdict: "\<exists>v. containerMappingVerdict N e = Inr v" if "e \<in> set els" for e using ex(1) that by blast
  obtain ks where ks: "missing_elements (ap_seen q) [] ?des = map (address_mapping n) ks" "distinct ks"
    "set ks = set keys - set (ap_seen q)" using missing_mapping [of "ap_seen q" "[]" n keys] by auto
  have seen: "set (ap_seen q) = {k. k \<in> set keys \<and> k \<in> el_Key ` set els}"
    using ex(4) by (auto simp: empty_plan_def wanted_key_def desired_mapping split: if_splits)
  let ?R = "filter (\<lambda>e. el_Key e \<in> set keys \<and> ?St e) els"
  have wanted: "filter (\<lambda>e. wanted_key ?des e \<and> ?St e) els = ?R"
    by (rule filter_cong) (auto simp: wanted_key_def desired_mapping)
  have "map (\<lambda>e. the (desired_by_key ?des (el_Key e))) ?R = map (address_mapping n) (map el_Key ?R)"
    by (auto simp: desired_mapping)
  then have "ap_add q = map (address_mapping n) (map el_Key ?R)"
    using ex(3) by (simp only: wanted empty_plan_def address_plan.select_convs append_Nil)
  then have add: "ap_add p = map (address_mapping n) (map el_Key ?R @ ks)"
    using p ks(1) by simp
  have els1: "els1 = keyless (el_Key ` {e \<in> set els. ?St e}) els"
    using delete_elements_keyless [OF d del] p ex(2) by (simp add: empty_plan_def image_image)
  have notstale: "e \<in> set els1 \<longleftrightarrow> e \<in> set els \<and> \<not> ?St e" for e
    using d unfolding els1 keyless_def by (auto simp: distinct_map inj_on_def)
  have same: "e = e'" if "e \<in> set els" "e' \<in> set els" "el_Key e = el_Key e'" for e e'
    using d that by (auto simp: distinct_map inj_on_def)
  have dk: "distinct (map el_Key ?R @ ks)"
    using d ks seen by (auto simp: distinct_map_filter)
  have fresh: "set (map el_Key ?R @ ks) \<inter> el_Key ` set els1 = {}"
  proof -
    have False if k: "k \<in> set (map el_Key ?R @ ks)" "k \<in> el_Key ` set els1" for k
    proof -
      obtain e where e1: "e \<in> set els1" "k = el_Key e" using k(2) by (rule imageE)
      have e2: "e \<in> set els \<and> \<not> ?St e" by (rule iffD1 [OF notstale e1(1)])
      note e = conjunct1 [OF e2] conjunct2 [OF e2] e1(2)
      then have "k \<notin> set ks" using ks(3) seen by simp
      then have "k \<in> el_Key ` set ?R" using k(1) by simp
      then obtain e' where e': "e' \<in> set ?R" "k = el_Key e'" by (rule imageE)
      then have "?St e'" "e' \<in> set els" by simp_all
      moreover from this(2) have "e = e'" using e(1,3) e'(2) by (intro same) simp_all
      ultimately show False using e(2) by blast
    qed
    then show ?thesis by blast
  qed
  let ?els2 = "els1 @ map (address_mapping n) (map el_Key ?R @ ks)"
  have els2: "add_elements els1 (ap_add p) = ?els2"
    unfolding add using dk fresh by (intro add_elements_fresh) (auto simp: comp_def)
  have d2: "distinct (map el_Key ?els2)"
    using dk fresh distinct_keyless [OF d] els1 by (auto simp: comp_def)
  have old: "mapped N ?els2 (el_Key e) = Some v" if "e \<in> set els1" "containerMappingVerdict N e = Inr v" for e v
    using mapped_element [OF d2 _ that(2)] that(1) by simp
  have new: "mapped N ?els2 k = Some (goto_chain n)" if "k \<in> set (map el_Key ?R @ ks)" for k
    using mapped_element [OF d2, of "address_mapping n k" N] address_mapping_verdict [OF n] that by auto
  have "mapped N ?els2 k = (if k \<in> set keys then Some (goto_chain n)
       else case mapped N els k of None \<Rightarrow> None | Some v \<Rightarrow> if vd_Chain v = n then None else Some v)" for k
  proof (cases "k \<in> el_Key ` set els")
    case False
    then have "mapped N els k = None" by (rule mapped_absent)
    moreover have "k \<notin> el_Key ` set els1" using False notstale by auto
    moreover have "k \<in> set ks \<longleftrightarrow> k \<in> set keys" using False ks(3) seen by auto
    moreover have "k \<notin> el_Key ` set ?R" using False by auto
    ultimately show ?thesis using new [of k] mapped_absent [of k ?els2 N] by (auto simp: image_Un image_image)
  next
    case True
    then obtain e v where e: "e \<in> set els" "k = el_Key e" and v: "containerMappingVerdict N e = Inr v"
      using verdict by blast
    note st = stale_mapping(1) [OF v, of n keys] n
    have m: "mapped N els k = Some v" using mapped_element [OF d e(1) v] e(2) by simp
    have kind: "vd_Kind v = VerdictGoto" using containerMappingVerdict_owned [OF v] by simp
    show ?thesis
    proof (cases "?St e")
      case False
      with e notstale old [OF _ v] have "mapped N ?els2 k = Some v" by simp
      with False st m kind e(2) show ?thesis by (cases v) (auto simp: goto_chain_def split: if_splits)
    next
      case stale: True
      show ?thesis
      proof (cases "k \<in> set keys")
        case True
        with stale e new [of k] show ?thesis by auto
      next
        case False
        then have "k \<notin> set (map el_Key ?R @ ks)" using ks(3) by auto
        moreover have "k \<notin> el_Key ` set els1"
        proof
          assume "k \<in> el_Key ` set els1"
          then obtain e' where "e' \<in> set els" "\<not> ?St e'" "el_Key e' = el_Key e" using notstale e(2) by auto
          with d e(1) stale show False by (auto simp: distinct_map inj_on_def)
        qed
        ultimately have "mapped N ?els2 k = None" by (intro mapped_absent) auto
        with False stale st m e(2) show ?thesis by auto
      qed
    qed
  qed
  with d2 els2 show ?thesis by (simp add: remapped_def)
qed

section \<open>Quarantining the chains that lose an address\<close>

text \<open>What becomes of the rules of one chain: the drop alone when it loses an address, otherwise the
  rules it had, less those made for a container that does.\<close>

definition quarantined :: "(string \<rightharpoonup> string) \<Rightarrow> string \<Rightarrow> nft_chain \<Rightarrow> nft_rule list \<Rightarrow> nft_rule list \<Rightarrow> bool" where
  "quarantined lost n ch old rules \<longleftrightarrow>
     (case lost n of
        Some i \<Rightarrow> \<exists>d. is_drop_for ch i d \<and> rules = [d]
      | None \<Rightarrow> rules = (if owned_name n then filter (\<lambda>r. ru_UserData r \<notin> ran lost) old else old))"

definition chains_quarantined :: "(string \<rightharpoonup> string) \<Rightarrow> ruleset \<Rightarrow> ruleset \<Rightarrow> bool" where
  "chains_quarantined lost k b \<longleftrightarrow>
     (\<forall>n. case rs_chains k n of
        None \<Rightarrow> rs_chains b n = None \<and> lost n = None
      | Some (ch, old) \<Rightarrow> \<exists>rules. rs_chains b n = Some (ch, rules) \<and> quarantined lost n ch old rules)"

lemma chains_quarantined_nothing: "rs_chains b = rs_chains k \<Longrightarrow> chains_quarantined Map.empty k b"
  by (auto simp: chains_quarantined_def quarantined_def split: option.splits)

lemma ran_map_of: "distinct (map fst xs) \<Longrightarrow> ran (map_of xs) = snd ` set xs"
  by (simp add: ran_distinct)

context firewall_client
begin

lemma quarantine_chain_spec:
  assumes owned: "map_of owned n = Some ch" "ch_Name ch = n" "ch_Table ch = Some filterTable" "owned_name n"
    and d: "distinct (map fst displaced)"
  shows "spec (quarantine_chain F owned displaced n) (\<lambda>k a b. rs_chains a n = rs_chains k n \<longrightarrow> frame {n} a b \<and>
    (\<exists>ch' rules rules'. rs_chains k n = Some (ch', rules) \<and> rs_chains b n = Some (ch', rules') \<and>
       quarantined (map_of displaced) n ch rules rules'))"
proof -
  let ?P = "\<lambda>r. map_of displaced n = None \<and> ru_UserData r \<notin> snd ` set displaced"
  let ?msg = "''error deleting stale rule during reused-address cleanup''"
  let ?add = "\<lambda>c. (case map_of displaced n of None \<Rightarrow> c | Some oldID \<Rightarrow> fc_AddRule F (createDropRule ch oldID) c, None)"
  have step: "spec (st_seq [wrap_step ?msg (delete_rules F (filter (\<lambda>r. \<not> ?P r) rules)), ?add])
      (\<lambda>k a b. \<forall>ch'. rs_chains a n = Some (ch', rules) \<longrightarrow> frame {n} a b \<and>
        (\<exists>rules'. rs_chains b n = Some (ch', rules') \<and> quarantined (map_of displaced) n ch rules rules'))"
    if r: "distinct (map ru_Handle rules)" "\<forall>r \<in> set rules. ru_Table r = Some filterTable \<and> ch_Name (ru_Chain r) = n" for rules
  proof (cases "map_of displaced n")
    case None
    then have add: "?add = (\<lambda>c. (c, None))" by simp
    have "spec ?add (\<lambda>k a b. a = b)" unfolding add by (rule edit_spec_skip) simp
    from edit_spec_Cons [OF delete_filter_spec [OF r, of ?msg ?P] edit_spec_Cons [OF this edit_spec_Nil]]
    show ?thesis
      by (rule edit_spec_mono) (use None owned(4) ran_map_of [OF d] in \<open>simp add: quarantined_def\<close>)
  next
    case (Some i)
    have "ru_Table (createDropRule ch i) = Some filterTable" using owned(3) by (simp add: createDropRule_def)
    from AddRule_spec [OF this] Some
    have "spec ?add (\<lambda>k a b. \<exists>h. ru_Handle (createDropRule ch i) = 0 \<and> h \<noteq> 0 \<and> rs_AddRule h (createDropRule ch i) a = Some b)"
      by simp
    from edit_spec_Cons [OF delete_filter_spec [OF r, of ?msg ?P] edit_spec_Cons [OF this edit_spec_Nil]]
    show ?thesis
    proof (rule edit_spec_mono, intro allI impI)
      fix k a b :: ruleset and ch'
      assume "\<exists>m. (\<forall>ch. rs_chains a n = Some (ch, rules) \<longrightarrow> frame {n} a m \<and> rs_chains m n = Some (ch, filter ?P rules)) \<and>
          (\<exists>m'. (\<exists>h. ru_Handle (createDropRule ch i) = 0 \<and> h \<noteq> 0 \<and> rs_AddRule h (createDropRule ch i) m = Some m') \<and> m' = b)"
        and "rs_chains a n = Some (ch', rules)"
      then obtain m h where m: "frame {n} a m" "rs_chains m n = Some (ch', [])" "rs_AddRule h (createDropRule ch i) m = Some b"
        using Some by auto
      have "ch_Name (ru_Chain (createDropRule ch i)) = n" using owned(2) by (simp add: createDropRule_def)
      with rs_AddRule_effect [OF m(3)] m(2) have "frame {n} m b"
        "rs_chains b n = Some (ch', [(createDropRule ch i)\<lparr>ru_Handle := h\<rparr>])" by auto
      with frame_trans [OF m(1), of "{n}" b] drop_rule_is_drop [of ch i h] Some
      show "frame {n} a b \<and> (\<exists>rules'. rs_chains b n = Some (ch', rules') \<and> quarantined (map_of displaced) n ch rules rules')"
        by (simp add: quarantined_def)
    qed
  qed
  have eq: "quarantine_chain F owned displaced n =
      with_rules F ''error getting rules of chain during reused-address cleanup'' ch
        (\<lambda>rules. st_seq [wrap_step ?msg (delete_rules F (filter (\<lambda>r. \<not> ?P r) rules)), ?add])"
    by (intro ext) (simp only: quarantine_chain_def owned(1) option.case)
  show ?thesis unfolding eq by (rule with_rules_spec [OF owned(2) step])
qed

end

lemma check_displaced_ok:
  assumes "check_displaced owned (n, i) = None"
  shows "map_of owned n \<noteq> None"
  using assms by (cases "map_of owned n") (simp_all add: check_displaced_def)

context firewall_client
begin

lemma quarantine_owned:
  assumes owned: "owned_map k owned" and d: "distinct (map fst displaced)"
    and lost: "\<And>n. map_of displaced n \<noteq> None \<Longrightarrow> map_of owned n \<noteq> None"
    and names: "set ns = set (map fst owned)" "distinct ns" and a: "rs_chains a = rs_chains k"
    and seq: "rel_seq (\<lambda>n a b. rs_chains a n = rs_chains k n \<longrightarrow> frame {n} a b \<and>
      (\<exists>ch' rules rules'. rs_chains k n = Some (ch', rules) \<and> rs_chains b n = Some (ch', rules') \<and>
         quarantined (map_of displaced) n (the (map_of owned n)) rules rules')) ns a b"
  shows "chains_quarantined (map_of displaced) k b \<and> (\<forall>n. \<not> is_anon_name n \<longrightarrow> rs_sets b n = rs_sets a n)"
proof -
  let ?Q = "\<lambda>n x. \<exists>ch' rules rules'. rs_chains k n = Some (ch', rules) \<and> x = Some (ch', rules') \<and>
      quarantined (map_of displaced) n (the (map_of owned n)) rules rules'"
  have res: "frame (set ns) a b \<and> (\<forall>n \<in> set ns. ?Q n (rs_chains b n))"
    by (rule rel_seq_frames [OF seq names(2), of k ?Q]) (use a in auto)
  have mem: "n \<in> set ns \<longleftrightarrow> map_of owned n \<noteq> None" for n
    using names(1) by (simp add: map_of_eq_None_iff)
  have mo: "map_of owned n = Some ch \<longleftrightarrow> owned_name n \<and> (\<exists>rules. rs_chains k n = Some (ch, rules))" for n ch
    using owned unfolding owned_map_def by blast
  have "case rs_chains k n of
        None \<Rightarrow> rs_chains b n = None \<and> map_of displaced n = None
      | Some (ch, old) \<Rightarrow> \<exists>rules. rs_chains b n = Some (ch, rules) \<and> quarantined (map_of displaced) n ch old rules" for n
  proof (cases "map_of owned n")
    case None
    then have b: "rs_chains b n = rs_chains k n" using res a mem [of n] by (simp add: frame_def)
    have l: "map_of displaced n = None" using lost [of n] None by blast
    show ?thesis
    proof (cases "rs_chains k n")
      case None
      with b l show ?thesis by simp
    next
      case (Some x)
      then obtain ch old where k: "rs_chains k n = Some (ch, old)" by (cases x) simp
      then have "\<not> owned_name n" using mo [of n ch] None by auto
      with k b l show ?thesis by (simp add: quarantined_def)
    qed
  next
    case (Some ch)
    then have "n \<in> set ns" using mem [of n] by simp
    then have q: "?Q n (rs_chains b n)" using conjunct2 [OF res] by blast
    have "\<exists>rules. rs_chains k n = Some (ch, rules)" using mo [of n ch] Some by blast
    with q Some show ?thesis by auto
  qed
  then show ?thesis using res unfolding chains_quarantined_def by (simp add: frame_def)
qed

lemma quarantineDisplaced_spec:
  assumes ord: "reorders ord" and d: "distinct (map fst displaced)"
  shows "spec (quarantineDisplacedContainerPolicies F ord displaced) (\<lambda>k a b. rs_chains a = rs_chains k \<longrightarrow>
    chains_quarantined (map_of displaced) k b \<and> (\<forall>n. \<not> is_anon_name n \<longrightarrow> rs_sets b n = rs_sets a n))"
    (is "spec ?f ?R")
  unfolding edit_spec_def
proof (intro allI impI)
  fix c c' e
  assume c: "ok c" and run: "?f c = (c', e)"
  let ?G = "ok c' \<and> committed c' = committed c \<and> (e = None \<longrightarrow> (\<forall>rs'. staged c' = Some rs' \<longrightarrow>
      (\<exists>rs. staged c = Some rs \<and> ?R (committed c) rs rs')))"
  show ?G
  proof (cases "fc_ListChainsOfTableFamily F TableFamilyIPv4 c")
    case (Inl x)
    with run c show ?thesis by (auto simp: quarantineDisplacedContainerPolicies_def)
  next
    case list: (Inr chs)
    show ?thesis
    proof (cases "collect_displaceable chs []")
      case (Inl x)
      with list run c show ?thesis by (auto simp: quarantineDisplacedContainerPolicies_def)
    next
      case coll: (Inr owned)
      let ?check = "first_error (\<lambda>n. case map_of displaced n of None \<Rightarrow> None | Some i \<Rightarrow> check_displaced owned (n, i))
          (ord (map fst displaced))"
      show ?thesis
      proof (cases ?check)
        case (Some x)
        with coll list run c show ?thesis by (auto simp: quarantineDisplacedContainerPolicies_def)
      next
        case check: None
        have run': "st_each (quarantine_chain F owned displaced) (ord (map fst owned)) c = (c', e)"
          using run list coll check by (simp add: quarantineDisplacedContainerPolicies_def)
        have map: "owned_map (committed c) owned"
          using gathers_owned_map [OF c list collect_displaceable_gathers [OF coll]] .
        have ns: "set (ord (map fst owned)) = set (map fst owned)" "distinct (ord (map fst owned))"
          using reorders_set [OF ord] reorders_distinct [OF ord] map by (simp_all add: owned_map_def)
        have lost: "map_of owned n \<noteq> None" if "map_of displaced n \<noteq> None" for n
        proof -
          obtain i where i: "map_of displaced n = Some i" using \<open>map_of displaced n \<noteq> None\<close> by (cases "map_of displaced n") simp_all
          then have "n \<in> set (ord (map fst displaced))"
            using reorders_set [OF ord, of "map fst displaced"] by (auto dest: map_of_SomeD intro: rev_image_eqI)
          with check i have "check_displaced owned (n, i) = None" by fastforce
          then show ?thesis by (rule check_displaced_ok)
        qed
        let ?S = "\<lambda>k n a b. rs_chains a n = rs_chains k n \<longrightarrow> frame {n} a b \<and>
          (\<exists>ch' rules rules'. rs_chains k n = Some (ch', rules) \<and> rs_chains b n = Some (ch', rules') \<and>
             quarantined (map_of displaced) n (the (map_of owned n)) rules rules')"
        have each: "spec (quarantine_chain F owned displaced n) (\<lambda>k. ?S k n)" if n: "n \<in> set (ord (map fst owned))" for n
        proof -
          have "map_of owned n \<noteq> None" using n ns(1) by (simp add: map_of_eq_None_iff)
          then obtain ch where ch: "map_of owned n = Some ch" by (cases "map_of owned n") simp_all
          then have "ch_Name ch = n" "ch_Table ch = Some filterTable" "owned_name n"
            using map validateRegular_table unfolding owned_map_def by blast+
          from quarantine_chain_spec [OF ch this d] ch show ?thesis by simp
        qed
        have "spec (st_each (quarantine_chain F owned displaced) (ord (map fst owned)))
            (\<lambda>k. rel_seq (?S k) (ord (map fst owned)))" by (rule edit_spec_each [OF each])
        then have st: "ok c' \<and> committed c' = committed c \<and> (e = None \<longrightarrow> (\<forall>rs'. staged c' = Some rs' \<longrightarrow>
            (\<exists>rs. staged c = Some rs \<and> rel_seq (?S (committed c)) (ord (map fst owned)) rs rs')))"
          using c run' unfolding edit_spec_def by blast
        have "?R (committed c) rs rs'" if "rel_seq (?S (committed c)) (ord (map fst owned)) rs rs'" for rs rs'
          using quarantine_owned [OF map d lost ns _ that] by blast
        with st show ?thesis by blast
      qed
    qed
  qed
qed

end

lemma chains_quarantined_commit:
  assumes "chains_quarantined lost k b" "wf_ruleset k" "rs_commits old b new"
  shows "chains_quarantined lost k new"
  unfolding chains_quarantined_def
proof
  fix n
  have new: "rs_chains new n = map_option (\<lambda>(ch, rules). (ch, map commit_rule rules)) (rs_chains b n)"
    using assms(3) by (simp add: rs_commits_def committed_chains_def)
  note b = spec [OF assms(1) [unfolded chains_quarantined_def], of n]
  show "case rs_chains k n of
        None \<Rightarrow> rs_chains new n = None \<and> lost n = None
      | Some (ch, old) \<Rightarrow> \<exists>rules. rs_chains new n = Some (ch, rules) \<and> quarantined lost n ch old rules"
  proof (cases "rs_chains k n")
    case None
    with b new show ?thesis by simp
  next
    case (Some x)
    then obtain ch old where k: "rs_chains k n = Some (ch, old)" by (cases x) simp
    with b obtain rules where r: "rs_chains b n = Some (ch, rules)" "quarantined lost n ch old rules" by auto
    have "all_settled old" using settled_rules [OF assms(2), of n] k by (simp add: rs_rules_def)
    then have "all_settled rules"
      using r(2) by (auto simp: quarantined_def all_settled_def drop_settled split: option.splits if_splits)
    then have "map commit_rule rules = rules" by (rule commit_settled_rules)
    with r new k show ?thesis by simp
  qed
qed

section \<open>The replacement of a container's addresses\<close>

text \<open>A chain loses an address when the container takes one that is mapped to it.\<close>

definition loses_address :: "netlink_lib \<Rightarrow> string \<Rightarrow> byte list list \<Rightarrow> set_element list \<Rightarrow> string \<Rightarrow> bool" where
  "loses_address N n keys els m \<longleftrightarrow> m \<noteq> n \<and> (\<exists>k \<in> set keys. \<exists>v. mapped N els k = Some v \<and> vd_Chain v = m)"

definition losers :: "netlink_lib \<Rightarrow> string \<Rightarrow> byte list list \<Rightarrow> set_element list \<Rightarrow> string \<rightharpoonup> string" where
  "losers N n keys els m = (if loses_address N n keys els m then Some (drop (length chainPrefix) m) else None)"

definition addresses_replaced :: "netlink_lib \<Rightarrow> string \<Rightarrow> byte list list \<Rightarrow> ruleset \<Rightarrow> ruleset \<Rightarrow> bool" where
  "addresses_replaced N n keys old new \<longleftrightarrow>
     (\<exists>s els els'. rs_sets old containerAddrSetName = Some (s, els) \<and>
        rs_sets new containerAddrSetName = Some (s, els') \<and> remapped N n keys els els' \<and>
        chains_quarantined (losers N n keys els) old new) \<and>
     (\<forall>m. \<not> is_anon_name m \<longrightarrow> m \<noteq> containerAddrSetName \<longrightarrow> rs_sets new m = rs_sets old m)"

lemma plan_existings_distinct:
  "plan_existings N desired n es p = Inr q \<Longrightarrow> distinct (map fst (ap_displaced p)) \<Longrightarrow> distinct (map fst (ap_displaced q))"
proof (induction es arbitrary: p)
  case (Cons e es)
  then obtain v p1 where "plan_existing desired n e v p = Inr p1" and rest: "plan_existings N desired n es p1 = Inr q"
    by (auto split: sum.splits)
  then have "distinct (map fst (ap_displaced p1))"
    using Cons.prems(2) by (auto simp: plan_existing_def Let_def distinct_update split: option.splits if_splits sum.splits)
  with rest show ?case by (rule Cons.IH)
qed simp

lemma plan_losers:
  assumes d: "distinct (map el_Key els)" and n: "containerIDFromChainName n = Inr cid"
    and plan: "plan_addresses N (map (address_mapping n) keys) n els = Inr p"
  shows "map_of (ap_displaced p) = losers N n keys els" and "distinct (map fst (ap_displaced p))"
proof -
  let ?des = "map (address_mapping n) keys"
  obtain q where q: "plan_existings N ?des n els empty_plan = Inr q"
    and p: "p = q\<lparr>ap_add := ap_add q @ missing_elements (ap_seen q) [] ?des\<rparr>"
    using plan by (auto simp: plan_addresses_def split: sum.splits)
  note ex = plan_existings_ok [OF q]
  have "(\<exists>e \<in> set els. takes_from N ?des n e \<and> vd_Chain (verdict_in N e) = m) \<longleftrightarrow> loses_address N n keys els m" for m
  proof
    assume "\<exists>e \<in> set els. takes_from N ?des n e \<and> vd_Chain (verdict_in N e) = m"
    then obtain e where e: "e \<in> set els" "takes_from N ?des n e" "vd_Chain (verdict_in N e) = m" by blast
    obtain v where v: "containerMappingVerdict N e = Inr v" using ex(1) e(1) by blast
    have "el_Key e \<in> set keys" "m \<noteq> n"
      using e(2,3) stale_mapping [OF v, of n keys] n by (auto simp: takes_from_def)
    moreover have "mapped N els (el_Key e) = Some v" by (rule mapped_element [OF d e(1) v])
    moreover have "vd_Chain v = m" using e(3) verdict_in_eq [OF v] by simp
    ultimately show "loses_address N n keys els m" unfolding loses_address_def by blast
  next
    assume "loses_address N n keys els m"
    then obtain k v where k: "m \<noteq> n" "k \<in> set keys" "mapped N els k = Some v" "vd_Chain v = m"
      unfolding loses_address_def by blast
    have "k \<in> el_Key ` set els" using k(3) mapped_absent [of k els N] by (cases "k \<in> el_Key ` set els") simp_all
    then obtain e where e: "e \<in> set els" "k = el_Key e" by blast
    obtain w where w: "containerMappingVerdict N e = Inr w" using ex(1) e(1) by blast
    with mapped_element [OF d e(1) w] k(3) e(2) have "w = v" by simp
    then have "takes_from N ?des n e" "vd_Chain (verdict_in N e) = m"
      using stale_mapping [OF w, of n keys] n k e verdict_in_eq [OF w] by (auto simp: takes_from_def)
    with e(1) show "\<exists>e \<in> set els. takes_from N ?des n e \<and> vd_Chain (verdict_in N e) = m" by blast
  qed
  then show "map_of (ap_displaced p) = losers N n keys els"
    using ex(5) p by (intro ext) (simp add: losers_def empty_plan_def)
  show "distinct (map fst (ap_displaced p))"
    using plan_existings_distinct [OF q] p by (simp add: empty_plan_def)
qed

lemma unless_empty_simps [simp]:
  "unless_empty [] f = (\<lambda>c. (c, None))" "xs \<noteq> [] \<Longrightarrow> unless_empty xs f = f"
  by (auto simp: unless_empty_def fun_eq_iff)

text \<open>An edit of the elements of the address map.\<close>

definition map_edited :: "(set_element list \<Rightarrow> set_element list \<Rightarrow> bool) \<Rightarrow> ruleset \<Rightarrow> ruleset \<Rightarrow> bool" where
  "map_edited g a b \<longleftrightarrow> rs_chains b = rs_chains a \<and> (\<forall>m. m \<noteq> containerAddrSetName \<longrightarrow> rs_sets b m = rs_sets a m) \<and>
     (\<forall>s els. rs_sets a containerAddrSetName = Some (s, els) \<longrightarrow>
        (\<exists>els'. rs_sets b containerAddrSetName = Some (s, els') \<and> g els els'))"

lemma rs_SetElements_edited:
  "rs_sets a containerAddrSetName = Some (s, els) \<Longrightarrow> g els els' \<Longrightarrow> map_edited g a (rs_SetElements containerAddrSetName els' a)"
  by (simp add: map_edited_def rs_SetElements_def)

context firewall_client
begin

lemma delete_mappings_spec:
  "spec (unless_empty ds (wrap_step msg (fc_SetDeleteElements F containerAddressSet ds)))
     (\<lambda>k. map_edited (\<lambda>els els'. delete_elements els ds = Some els'))"
proof (cases "ds = []")
  case True
  then show ?thesis by (simp add: edit_spec_skip map_edited_def)
next
  case False
  have "spec (fc_SetDeleteElements F containerAddressSet ds) (\<lambda>k. map_edited (\<lambda>els els'. delete_elements els ds = Some els'))"
  proof (rule edit_spec_step)
    fix c c' rs' assume c: "ok c" "fc_SetDeleteElements F containerAddressSet ds c = (c', None)" "staged c' = Some rs'"
    obtain rs s0 els els' where w: "staged c = Some rs" "rs_sets rs containerAddrSetName = Some (s0, els)"
      "delete_elements els ds = Some els'" "rs' = rs_SetElements containerAddrSetName els' rs"
      using SetDeleteElements_staged [OF c(1) _ c(2,3)] by (simp only: containerAddressSet_sel) blast
    have "map_edited (\<lambda>els els'. delete_elements els ds = Some els') rs rs'"
      unfolding w(4) by (rule rs_SetElements_edited [OF w(2)]) (rule w(3))
    with w(1) show "\<exists>rs. staged c = Some rs \<and> map_edited (\<lambda>els els'. delete_elements els ds = Some els') rs rs'"
      by (intro exI [of _ rs] conjI)
  qed (rule SetDeleteElements_ok, simp_all add: containerAddressSet_sel)
  from wrap_step_spec [OF this] False show ?thesis by simp
qed

lemma add_mappings_spec:
  "spec (unless_empty vs (wrap_step msg (fc_SetAddElements F containerAddressSet vs)))
     (\<lambda>k. map_edited (\<lambda>els els'. els' = add_elements els vs))"
proof (cases "vs = []")
  case True
  then show ?thesis by (simp add: edit_spec_skip map_edited_def)
next
  case False
  have "spec (fc_SetAddElements F containerAddressSet vs) (\<lambda>k. map_edited (\<lambda>els els'. els' = add_elements els vs))"
  proof (rule edit_spec_step)
    fix c c' rs' assume c: "ok c" "fc_SetAddElements F containerAddressSet vs c = (c', None)" "staged c' = Some rs'"
    obtain rs s0 els where w: "staged c = Some rs" "rs_sets rs containerAddrSetName = Some (s0, els)"
      "rs' = rs_SetElements containerAddrSetName (add_elements els vs) rs"
      using SetAddElements_staged [OF c(1) _ c(2,3)] by (simp only: containerAddressSet_sel) blast
    have "map_edited (\<lambda>els els'. els' = add_elements els vs) rs rs'"
      unfolding w(3) by (rule rs_SetElements_edited [OF w(2)]) (rule refl)
    with w(1) show "\<exists>rs. staged c = Some rs \<and> map_edited (\<lambda>els els'. els' = add_elements els vs) rs rs'"
      by (intro exI [of _ rs] conjI)
  qed (rule SetAddElements_ok, simp_all add: containerAddressSet_sel)
  from wrap_step_spec [OF this] False show ?thesis by simp
qed

lemma quarantine_step_spec:
  assumes ord: "reorders ord" and d: "distinct (map fst displaced)"
  shows "spec (unless_empty displaced (quarantineDisplacedContainerPolicies F ord displaced)) (\<lambda>k a b. sets_queued k a \<longrightarrow>
    chains_quarantined (map_of displaced) k b \<and> (\<forall>n. \<not> is_anon_name n \<longrightarrow> rs_sets b n = rs_sets k n))"
proof (cases "displaced = []")
  case True
  have "chains_quarantined (map_of displaced) k a" if "sets_queued k a" for k a
    using chains_quarantined_nothing [of a k] that True by (simp add: sets_queued_def)
  with True show ?thesis by (simp add: edit_spec_skip sets_queued_def)
next
  case False
  have "spec (quarantineDisplacedContainerPolicies F ord displaced) (\<lambda>k a b. sets_queued k a \<longrightarrow>
    chains_quarantined (map_of displaced) k b \<and> (\<forall>n. \<not> is_anon_name n \<longrightarrow> rs_sets b n = rs_sets k n))"
    by (rule edit_spec_mono [OF quarantineDisplaced_spec [OF ord d]]) (simp add: sets_queued_def)
  with False show ?thesis by simp
qed

end

text \<open>The batch of edits, from a staged ruleset that only queues anonymous sets.\<close>

lemma map_batch:
  assumes q: "sets_queued k a" and els: "rs_sets k containerAddrSetName = Some (s, els)"
    and d: "distinct (map el_Key els)" and n: "containerIDFromChainName n = Inr cid"
    and plan: "plan_addresses N (map (address_mapping n) keys) n els = Inr p"
    and quar: "chains_quarantined (map_of (ap_displaced p)) k m1" "\<forall>n. \<not> is_anon_name n \<longrightarrow> rs_sets m1 n = rs_sets k n"
    and del: "map_edited (\<lambda>els els'. delete_elements els (ap_delete p) = Some els') m1 m2"
    and add: "map_edited (\<lambda>els els'. els' = add_elements els (ap_add p)) m2 b"
    and wf: "wf_ruleset k" and commit: "rs_commits k b new"
  shows "addresses_replaced N n keys k new"
proof -
  have m1: "rs_sets m1 containerAddrSetName = Some (s, els)" using quar(2) els by simp
  with del obtain els1 where m2: "rs_sets m2 containerAddrSetName = Some (s, els1)" "delete_elements els (ap_delete p) = Some els1"
    unfolding map_edited_def by blast
  with add have b: "rs_sets b containerAddrSetName = Some (s, add_elements els1 (ap_add p))"
    unfolding map_edited_def by blast
  have chains: "rs_chains b = rs_chains m1" using del add by (simp add: map_edited_def)
  have "chains_quarantined (map_of (ap_displaced p)) k b"
    using quar(1) unfolding chains_quarantined_def chains .
  then have "chains_quarantined (losers N n keys els) k new"
    using chains_quarantined_commit [OF _ wf commit] plan_losers(1) [OF d n plan] by simp
  moreover have "rs_sets new containerAddrSetName = Some (s, add_elements els1 (ap_add p))"
    using commit_named_set [OF commit] b by simp
  moreover have "rs_sets new m = rs_sets k m" if "\<not> is_anon_name m" "m \<noteq> containerAddrSetName" for m
    using commit_named_set [OF commit] quar(2) del add that by (simp add: map_edited_def)
  ultimately show ?thesis
    using plan_remaps [OF d n plan m2(2)] els unfolding addresses_replaced_def by blast
qed

lemma map_unchanged:
  assumes els: "rs_sets k containerAddrSetName = Some (s, els)"
    and d: "distinct (map el_Key els)" and n: "containerIDFromChainName n = Inr cid"
    and plan: "plan_addresses N (map (address_mapping n) keys) n els = Inr p"
    and noop: "ap_delete p = []" "ap_add p = []"
  shows "addresses_replaced N n keys k k"
proof -
  have "delete_elements els (ap_delete p) = Some els" "add_elements els (ap_add p) = els" by (simp_all add: noop)
  with plan_remaps [OF d n plan, of els] have remap: "remapped N n keys els els" by simp
  have "\<not> loses_address N n keys els m" for m
  proof
    assume "loses_address N n keys els m"
    then obtain key v where "m \<noteq> n" "key \<in> set keys" "mapped N els key = Some v" "vd_Chain v = m"
      unfolding loses_address_def by blast
    moreover have "mapped N els key = Some (goto_chain n)"
      using spec [OF conjunct2 [OF remap [unfolded remapped_def]], of key] \<open>key \<in> set keys\<close> by (simp only: if_True)
    ultimately show False by (auto simp: goto_chain_def)
  qed
  then have "losers N n keys els = Map.empty" by (simp add: losers_def fun_eq_iff)
  then have "chains_quarantined (losers N n keys els) k k" using chains_quarantined_nothing [of k k] by simp
  with remap els show ?thesis unfolding addresses_replaced_def by blast
qed

context firewall_client
begin

lemma replaceContainerAddressMappings_ok:
  assumes c: "ok c" "\<And>a. staged c = Some a \<Longrightarrow> sets_queued (committed c) a" and ord: "reorders ord"
    and d: "\<And>s els. rs_sets (committed c) containerAddrSetName = Some (s, els) \<Longrightarrow> distinct (map el_Key els)"
    and run: "replaceContainerAddressMappings F N ord (map (address_mapping n) keys) n c = (c', e)"
  shows "ok c' \<and> (e \<noteq> None \<longrightarrow> committed c' = committed c) \<and>
    (e = None \<longrightarrow> (c' = c \<or> staged c' = Some (committed c')) \<and>
       addresses_replaced N n keys (committed c) (committed c'))"
proof (cases "containerIDFromChainName n")
  case (Inl x)
  with run c(1) show ?thesis by (auto simp: replaceContainerAddressMappings_def)
next
  case n: (Inr cid)
  show ?thesis
  proof (cases "fc_GetSetElements F containerAddressSet c")
    case (Inl x)
    with n run c(1) show ?thesis by (auto simp: replaceContainerAddressMappings_def)
  next
    case els: (Inr els)
    obtain s where k: "rs_sets (committed c) containerAddrSetName = Some (s, els)"
      using GetSetElements_committed [OF c(1) _ els] by auto
    note dk = d [OF k]
    show ?thesis
    proof (cases "plan_addresses N (map (address_mapping n) keys) n els")
      case (Inl x)
      with n els run c(1) show ?thesis by (auto simp: replaceContainerAddressMappings_def)
    next
      case plan: (Inr p)
      show ?thesis
      proof (cases "ap_delete p = [] \<and> ap_add p = []")
        case True
        with n els plan run have "c' = c" "e = None" by (auto simp: replaceContainerAddressMappings_def)
        with True map_unchanged [OF k dk n plan] c show ?thesis by simp
      next
        case False
        let ?q = "unless_empty (ap_displaced p) (quarantineDisplacedContainerPolicies F ord (ap_displaced p))"
        let ?d = "unless_empty (ap_delete p) (wrap_step ''error marshaling stale container address mappings''
          (fc_SetDeleteElements F containerAddressSet (ap_delete p)))"
        let ?a = "unless_empty (ap_add p) (wrap_step ''error marshaling container address mappings''
          (fc_SetAddElements F containerAddressSet (ap_add p)))"
        let ?flush = "flush_wrap ''error replacing container address mappings'' F"
        have seq: "st_seq [st_seq [?q, ?d, ?a], ?flush] c = (c', e)"
          using run n els plan False unfolding st_seq_snoc [symmetric]
          by (simp add: replaceContainerAddressMappings_def del: st_seq.simps)
        note sp = edit_spec_Cons [OF quarantine_step_spec [OF ord plan_losers(2) [OF dk n plan]]
            edit_spec_Cons [OF delete_mappings_spec edit_spec_Cons [OF add_mappings_spec edit_spec_Nil]]]
        note fl = flush_spec [OF sp c(1) seq]
        have "addresses_replaced N n keys (committed c) (committed c')" if "e = None"
        proof -
          from fl that obtain a m1 m2 b where a: "staged c = Some a" and commit: "rs_commits (committed c) b (committed c')"
            and m1: "sets_queued (committed c) a \<longrightarrow> chains_quarantined (map_of (ap_displaced p)) (committed c) m1 \<and>
              (\<forall>n. \<not> is_anon_name n \<longrightarrow> rs_sets m1 n = rs_sets (committed c) n)"
            and m2: "map_edited (\<lambda>els els'. delete_elements els (ap_delete p) = Some els') m1 m2"
            and b: "map_edited (\<lambda>els els'. els' = add_elements els (ap_add p)) m2 b" by blast
          note q = c(2) [OF a]
          show ?thesis
            by (rule map_batch [OF q k dk n plan conjunct1 [OF mp [OF m1 q]] conjunct2 [OF mp [OF m1 q]] m2 b
                  committed_wf [OF c(1)] commit])
        qed
        with fl show ?thesis by blast
      qed
    qed
  qed
qed

end

text \<open>C16: Replacing a container's addresses is one transaction. On an error the kernel's ruleset is the
  one before. On success every wanted address leads to the container's chain, no other address does, and
  every other mapping is as it was; a chain that loses an address to the container holds nothing but its
  own drop, rules made elsewhere for such a container are gone from the program's chains, and all other
  rules, chains and named sets are kept.\<close>

theorem replaceContainerAddressMappings_correct:
  assumes "firewall_client F ok committed staged" and "ok c"
    and "staged c = Some (committed c)" and "reorders ord"
    and "\<forall>s els. rs_sets (committed c) containerAddrSetName = Some (s, els) \<longrightarrow> distinct (map el_Key els)"
    and "replaceContainerAddressMappings F N ord (map (address_mapping n) keys) n c = (c', e)"
  shows "ok c' \<and> (e \<noteq> None \<longrightarrow> committed c' = committed c) \<and>
    (e = None \<longrightarrow> addresses_replaced N n keys (committed c) (committed c'))"
proof -
  have d: "distinct (map el_Key els)" if "rs_sets (committed c) containerAddrSetName = Some (s, els)" for s els
    using assms(5) that by blast
  have q: "sets_queued (committed c) a" if "staged c = Some a" for a
    using assms(3) that by (simp add: sets_queued_def)
  show ?thesis
    using firewall_client.replaceContainerAddressMappings_ok [OF assms(1,2) _ assms(4) _ assms(6)] q d by blast
qed

end
