(* ===== verification/Sample_Policy.thy ===== *)
theory Sample_Policy
  imports Sample_Host Address_Policy
begin

text \<open>
  A container on the Docker host of \<open>Sample_Host\<close>: its chain is created with the drop rule,
  and then its policy is replaced. The runs are the examples for the properties of
  \<open>Policy_Correct\<close>.
\<close>

definition own_chain :: nft_chain where
  "own_chain = regular_chain (buildChainName [] sample_id)"

lemma own_name [simp]: "ch_Name own_chain = chainPrefix @ sample_id" "ch_Table own_chain = Some filterTable"
  by (simp_all add: own_chain_def buildChainName_def)

lemma own_names [simp]:
  "chainPrefix @ x \<noteq> dockerChainName" "chainPrefix @ x \<noteq> forwardChainName"
  "dockerChainName \<noteq> chainPrefix @ x" "forwardChainName \<noteq> chainPrefix @ x"
  "chainPrefix @ x \<noteq> whalewallChainName" "whalewallChainName \<noteq> chainPrefix @ x"
  by (simp_all add: name_defs)

definition own_drop :: nft_rule where
  "own_drop = (createDropRule own_chain sample_id)\<lparr>ru_Handle := 2\<rparr>"

definition container_host :: mockFirewall where
  "container_host = docker_host\<lparr>mf_chains := mf_chains docker_host @ [(chainPrefix @ sample_id, own_chain, [own_drop])],
     mf_baseChains := mf_baseChains docker_host @ [(chainPrefix @ sample_id, own_chain, [own_drop])],
     mf_nextRuleID := 2\<rparr>"

lemma container_host_run:
  "ensureContainerDropPolicy mockFirewall_client M own_chain sample_id True docker_host = (container_host, None)"
proof -
  have other: "\<not> same_chain own_chain (regular_chain dockerChainName)" "\<not> same_chain own_chain forward_chain"
    by (simp_all add: same_chain_def forward_chain_def)
  have chain: "mf_AddChain own_chain docker_host = docker_host\<lparr>mf_changed := True,
      mf_chains := mf_chains docker_host @ [(chainPrefix @ sample_id, own_chain, [])]\<rparr>"
    by (subst mock_add_chain) (simp_all add: docker_host_def)
  have rule: "mf_AddRule (createDropRule own_chain sample_id) (mf_AddChain own_chain docker_host) =
    docker_host\<lparr>mf_changed := True, mf_nextRuleID := 2,
      mf_chains := mf_chains docker_host @ [(chainPrefix @ sample_id, own_chain, [own_drop])]\<rparr>"
    unfolding chain mf_AddRule_def put_rule_def
    by (simp add: createDropRule_def docker_host_def checkExpr_def logExpr_def dropVerdict_def verdict_kinds own_drop_def)
  have flush: "mf_Flush (docker_host\<lparr>mf_changed := True, mf_nextRuleID := 2,
      mf_chains := mf_chains docker_host @ [(chainPrefix @ sample_id, own_chain, [own_drop])]\<rparr>) = (container_host, None)"
    by (simp add: container_host_def docker_host_def mf_Flush_def Let_def reset_client_def update_lookups_def
        update_lookup_def drop_unused_sets_def initTables_def empty_mock_table_def forward_rule_def createJumpRule_def
        own_drop_def createDropRule_def logExpr_def dropVerdict_def)
  show ?thesis
    using rule flush by (simp add: ensureContainerDropPolicy_def docker_chains other flush_wrap_def mock_client_sel)
qed

lemma docker_host_staged: "mock_staged docker_host = Some (mock_committed docker_host)"
  by (simp add: mock_staged_def mock_committed_def docker_host_def)

theorem ensureContainerDropPolicy_correct_witness:
  "floor_installed own_chain sample_id True (mock_committed docker_host) (mock_committed container_host) \<and>
   run_chain (mock_committed container_host) sample_packet
     (rs_rules (mock_committed container_host) (chainPrefix @ sample_id)) =
     Decided \<lparr>vd_Kind = VerdictDrop, vd_Chain = []\<rparr>"
  using ensureContainerDropPolicy_correct [OF mock.firewall_client_axioms ref_marshal_ok docker_host_ok docker_host_staged
    own_name(2) container_host_run]
  by simp

lemma container_host_ok: "mock_ok container_host" "mock_staged container_host = Some (mock_committed container_host)"
  using mock.ensureContainerDropPolicy_ok [OF docker_host_ok docker_host_staged ref_marshal_ok own_name(2) container_host_run]
  by simp_all

definition allow_rule :: nft_rule where
  "allow_rule = \<lparr>ru_Table = Some filterTable, ru_Chain = own_chain, ru_Exprs = [ECounter 0 0, allowReturnVerdict],
     ru_UserData = sample_id, ru_Handle = 0\<rparr>"

lemma own_owned [simp]: "owned_name (chainPrefix @ x)" "\<not> owned_name dockerChainName" "\<not> owned_name forwardChainName"
  by (auto simp: owned_name_def HasPrefix_def name_defs)

lemma container_host_chains:
  "fc_ListChainsOfTableFamily mockFirewall_client TableFamilyIPv4 container_host =
     Inr [regular_chain dockerChainName, forward_chain, own_chain]"
  by (simp add: mockFirewall_client_def mf_ListChainsOfTableFamily_def container_host_def docker_host_def
      forward_chain_def filterTable_def own_chain_def)

lemma container_host_owned:
  "collect_owned [regular_chain dockerChainName, forward_chain, own_chain] [] = Inr [(chainPrefix @ sample_id, own_chain)]"
proof -
  have "validateRegularOwnedChain own_chain = None" unfolding own_chain_def by (rule regular_chain_valid)
  moreover have "in_filter own_chain" by (simp add: in_filter_def)
  ultimately show ?thesis by (simp add: forward_chain_def)
qed

text \<open>The host with the rules of the container's chain replaced by \<open>rules\<close>, in a batch.\<close>

definition in_batch :: "nft_rule list \<Rightarrow> nat \<Rightarrow> mockFirewall" where
  "in_batch rules h = container_host\<lparr>mf_changed := True, mf_nextRuleID := h,
     mf_chains := mf_chains docker_host @ [(chainPrefix @ sample_id, own_chain, rules)]\<rparr>"

lemma batch_delete: "mf_DelRule own_drop container_host = (in_batch [] 2, None)"
  by (simp add: mf_DelRule_def delRule_def container_host_def docker_host_def own_drop_def createDropRule_def
      in_batch_def Let_def same_handle_def logExpr_def dropVerdict_def)

lemma batch_add:
  assumes "ru_Handle r = 0" "ru_Table r = Some filterTable" "ru_Chain r = own_chain"
    and "\<And>m. checkRule (Some filterTable) (ru_Exprs r) m = m"
  shows "mf_AddRule r (in_batch rules h) = in_batch (rules @ [r\<lparr>ru_Handle := h + 1\<rparr>]) (h + 1)"
  using assms by (simp add: mf_AddRule_def put_rule_def in_batch_def container_host_def docker_host_def Let_def)

lemma container_host_replace:
  "snd (replaceContainerPolicy mockFirewall_client (\<lambda>ks. ks) own_chain sample_id [allow_rule] container_host) = None"
proof -
  let ?F = mockFirewall_client and ?n = "chainPrefix @ sample_id"
  have check: "checkRule (Some filterTable) (ru_Exprs allow_rule) m = m"
    "checkRule (Some filterTable) (ru_Exprs (createDropRule own_chain sample_id)) m = m" for m
    by (auto simp: allow_rule_def createDropRule_def logExpr_def dropVerdict_def allowReturnVerdict_def checkExpr_def
        verdict_kinds split: option.splits)
  have "fc_GetRules ?F filterTable own_chain container_host = Inr [own_drop]"
    by (simp add: mockFirewall_client_def mf_GetRules_def container_host_def docker_host_def)
  then have 1: "delete_stale ?F [(?n, own_chain)] ?n sample_id ?n container_host = (in_batch [] 2, None)"
    by (simp add: delete_stale_def with_rules_def wrap_step_def delete_rules_def mock_client_sel batch_delete)
  have 2: "place_rules ?F ?n [allow_rule] ?n (in_batch [] 2) = in_batch [allow_rule\<lparr>ru_Handle := 3\<rparr>] 3"
    using batch_add [OF _ _ _ check(1), of "[]" 2]
    by (simp add: place_rules_def add_rules_def rules_for_def allow_rule_def mock_client_sel)
  have 3: "mf_AddRule (createDropRule own_chain sample_id) (in_batch rules 3) =
      in_batch (rules @ [(createDropRule own_chain sample_id)\<lparr>ru_Handle := 4\<rparr>]) 4" for rules
    using batch_add [OF _ _ _ check(2), of rules 3] by (simp add: createDropRule_def)
  have "mf_flushErr (in_batch rules h) = None" for rules h by (simp add: in_batch_def container_host_def docker_host_def)
  then have 4: "snd (flush_wrap msg ?F (in_batch rules h)) = None" for msg rules h
    by (simp add: flush_wrap_def mock_client_sel mf_Flush_def Let_def)
  have chain: "desired_chains [allow_rule] = [?n]" by (simp add: desired_chains_def allow_rule_def)
  obtain m where "flush_wrap ''error flushing authoritative policy'' ?F
      (in_batch [allow_rule\<lparr>ru_Handle := 3\<rparr>, (createDropRule own_chain sample_id)\<lparr>ru_Handle := 4\<rparr>] 4) = (m, None)"
    using 4 by (metis prod.collapse)
  then show ?thesis
    using 1 2 3 chain
    by (simp add: replaceContainerPolicy_def container_host_chains container_host_owned mock_client_sel del: collect_owned.simps)
qed

lemma identity_reorders: "reorders (\<lambda>ks. ks)"
  by (simp add: reorders_def)

lemma container_host_replaced:
  obtains m where "replaceContainerPolicy mockFirewall_client (\<lambda>ks. ks) own_chain sample_id [allow_rule] container_host = (m, None)"
  using container_host_replace by (metis prod.collapse)

lemma container_host_queued: "\<forall>a. mock_staged container_host = Some a \<longrightarrow> sets_queued (mock_committed container_host) a"
  by (simp add: container_host_ok sets_queued_def)

lemma allow_rule_table: "\<forall>r \<in> set [allow_rule]. ru_Table r = Some filterTable"
  by (simp add: allow_rule_def)

theorem replaceContainerPolicy_correct_witness:
  "\<exists>m. replaceContainerPolicy mockFirewall_client (\<lambda>ks. ks) own_chain sample_id [allow_rule] container_host = (m, None) \<and>
     policy_replaced own_chain sample_id [allow_rule] (mock_committed container_host) (mock_committed m)"
proof -
  obtain m where run: "replaceContainerPolicy mockFirewall_client (\<lambda>ks. ks) own_chain sample_id [allow_rule] container_host = (m, None)"
    by (rule container_host_replaced)
  from replaceContainerPolicy_correct [OF mock.firewall_client_axioms container_host_ok(1) container_host_queued
      identity_reorders own_name(2) allow_rule_table run] run
  show ?thesis by auto
qed

theorem replaceContainerPolicy_fails_closed_witness:
  "\<exists>m. replaceContainerPolicy mockFirewall_client (\<lambda>ks. ks) own_chain sample_id [allow_rule] container_host = (m, None) \<and>
     run_chain (mock_committed m) sample_packet (rs_rules (mock_committed m) (ch_Name own_chain)) \<noteq> Fallthrough"
proof -
  obtain m where run: "replaceContainerPolicy mockFirewall_client (\<lambda>ks. ks) own_chain sample_id [allow_rule] container_host = (m, None)"
    by (rule container_host_replaced)
  from replaceContainerPolicy_fails_closed [OF mock.firewall_client_axioms container_host_ok(1) container_host_queued
      identity_reorders own_name(2) allow_rule_table run, of sample_packet] run
  show ?thesis by blast
qed

section \<open>Addresses\<close>

text \<open>The host once the address map is there, still empty.\<close>

definition map_table :: mock_table where
  "map_table = empty_mock_table\<lparr>mt_Sets := [(containerAddrSetName, [])],
     mt_SetSchemas := [(containerAddrSetName, containerAddressSet)]\<rparr>"

definition map_host :: mockFirewall where
  "map_host = container_host\<lparr>mf_tables := [(filterTableName, map_table)], mf_baseTables := [(filterTableName, map_table)]\<rparr>"

lemma map_host_flush:
  "mf_AddSet containerAddressSet [] container_host =
     (container_host\<lparr>mf_changed := True, mf_tables := [(filterTableName, map_table)]\<rparr>, Inr containerAddressSet)"
  "mf_Flush (container_host\<lparr>mf_changed := True, mf_tables := [(filterTableName, map_table)]\<rparr>) = (map_host, None)"
proof -
  have name: "containerAddressSet\<lparr>s_Name := containerAddrSetName\<rparr> = containerAddressSet"
    by (simp add: containerAddressSet_def)
  show "mf_AddSet containerAddressSet [] container_host =
     (container_host\<lparr>mf_changed := True, mf_tables := [(filterTableName, map_table)]\<rparr>, Inr containerAddressSet)"
    by (simp add: mf_AddSet_def Let_def find_table_def put_table_def container_host_def docker_host_def map_table_def
        empty_mock_table_def name)
  show "mf_Flush (container_host\<lparr>mf_changed := True, mf_tables := [(filterTableName, map_table)]\<rparr>) = (map_host, None)"
    by (simp add: container_host_def docker_host_def map_host_def map_table_def empty_mock_table_def mf_Flush_def Let_def
        reset_client_def update_lookups_def update_lookup_def drop_unused_sets_def forward_rule_def createJumpRule_def
        own_drop_def createDropRule_def logExpr_def dropVerdict_def initTables_def)
qed

lemma map_host_ok: "mock_ok map_host" "mock_staged map_host = Some (mock_committed map_host)"
proof -
  have "mock_ok (container_host\<lparr>mf_changed := True, mf_tables := [(filterTableName, map_table)]\<rparr>)"
    using mock.AddSet_ok [OF container_host_ok(1), of containerAddressSet "[]"] map_host_flush(1) by (simp add: mock_client_sel)
  from mock.Flush_ok [OF this, of map_host None] mock.Flush_commits [OF this, of map_host] map_host_flush(2)
  show "mock_ok map_host" "mock_staged map_host = Some (mock_committed map_host)" by (auto simp: mock_client_sel)
qed

definition sample_address :: "byte list" where "sample_address = be32 167772162"

lemma map_host_replace:
  "snd (replaceContainerAddressMappings mockFirewall_client ref_netlink (\<lambda>ks. ks)
     (map (address_mapping (chainPrefix @ sample_id)) [sample_address]) (chainPrefix @ sample_id) map_host) = None"
proof -
  let ?n = "chainPrefix @ sample_id"
  let ?e = "address_mapping ?n sample_address"
  have cid: "containerIDFromChainName ?n = Inr sample_id" by (simp add: containerIDFromChainName_iff)
  have get: "fc_GetSetElements mockFirewall_client containerAddressSet map_host = Inr []"
    by (simp add: mockFirewall_client_def mf_GetSetElements_def find_table_def map_host_def map_table_def setSchemasEqual_def)
  have plan: "plan_addresses ref_netlink [?e] ?n [] = Inr \<lparr>ap_delete = [], ap_add = [?e], ap_displaced = [], ap_seen = []\<rparr>"
    by (simp add: plan_addresses_def empty_plan_def)
  obtain m where add: "fc_SetAddElements mockFirewall_client containerAddressSet [?e] map_host = (m, None)" "mf_flushErr m = None"
    by (simp add: mockFirewall_client_def mf_SetAddElements_def open_set_def Let_def find_table_def map_host_def map_table_def
        put_table_def setSchemasEqual_def container_host_def docker_host_def)
  then have "snd (flush_wrap msg mockFirewall_client m) = None" for msg
    by (simp add: flush_wrap_def mock_client_sel mf_Flush_def Let_def)
  then obtain m' where "flush_wrap ''error replacing container address mappings'' mockFirewall_client m = (m', None)"
    by (metis prod.collapse)
  with add show ?thesis
    by (simp add: replaceContainerAddressMappings_def cid get plan wrap_step_def)
qed

lemma map_host_distinct:
  "\<forall>s els. rs_sets (mock_committed map_host) containerAddrSetName = Some (s, els) \<longrightarrow> distinct (map el_Key els)"
  by (simp add: mock_committed_def mock_ruleset_def sets_of_def schemas_of_def map_host_def map_table_def)

theorem replaceContainerAddressMappings_correct_witness:
  "\<exists>m. addresses_replaced ref_netlink (chainPrefix @ sample_id) [sample_address] (mock_committed map_host) (mock_committed m)"
proof -
  obtain m where run: "replaceContainerAddressMappings mockFirewall_client ref_netlink (\<lambda>ks. ks)
     (map (address_mapping (chainPrefix @ sample_id)) [sample_address]) (chainPrefix @ sample_id) map_host = (m, None)"
    using map_host_replace by (metis prod.collapse)
  from replaceContainerAddressMappings_correct [OF mock.firewall_client_axioms map_host_ok identity_reorders
      map_host_distinct run] show ?thesis by blast
qed

section \<open>Dispatching\<close>

text \<open>The host with the container's address in the map; the base rules are installed on it again.\<close>

definition mapped_host :: mockFirewall where
  "mapped_host = fst (replaceContainerAddressMappings mockFirewall_client ref_netlink (\<lambda>ks. ks)
     (map (address_mapping (chainPrefix @ sample_id)) [sample_address]) (chainPrefix @ sample_id) map_host)"

lemma mapped_host_ok: "mock_ok mapped_host"
proof -
  have "sets_queued (mock_committed map_host) a" if "mock_staged map_host = Some a" for a
    using that by (simp add: map_host_ok sets_queued_def)
  moreover have "distinct (map el_Key els)" if "rs_sets (mock_committed map_host) containerAddrSetName = Some (s, els)" for s els
    using that map_host_distinct by blast
  ultimately show ?thesis
    using mock.replaceContainerAddressMappings_ok [OF map_host_ok(1) _ identity_reorders _ prod.collapse [symmetric]]
    unfolding mapped_host_def by blast
qed

definition own_goto :: verdict_expr where
  "own_goto = \<lparr>vd_Kind = VerdictGoto, vd_Chain = chainPrefix @ sample_id\<rparr>"

text \<open>A packet from the container, and one that concerns no container.\<close>

theorem base_rules_dispatch_witness:
  "\<exists>m. createBaseRules mockFirewall_client ref_netlink ref_marshal mapped_host = (m, None) \<and>
     observe_chain (\<lambda>_. []) (mock_committed m) sample_packet (rs_rules (mock_committed m) whalewallChainName) =
       Decided own_goto \<and>
     only_drops (observe_chain (\<lambda>_. []) (mock_committed m) (sample_packet\<lparr>p_src := 167772161\<rparr>)
       (rs_rules (mock_committed m) whalewallChainName))"
proof -
  define m where "m = fst (createBaseRules mockFirewall_client ref_netlink ref_marshal mapped_host)"
  have "snd (createBaseRules mockFirewall_client ref_netlink ref_marshal mapped_host) = None" by code_simp
  then have run: "createBaseRules mockFirewall_client ref_netlink ref_marshal mapped_host = (m, None)"
    unfolding m_def by (simp add: prod_eq_iff)
  note dispatch = base_rules_dispatch [OF mock.firewall_client_axioms ref_marshal_ok mapped_host_ok run,
      of _ "\<lambda>_. []"]
  have map: "map_option (\<lambda>s. (verdict_of s (be32 (p_src sample_packet)), verdict_of s (be32 167772161),
      verdict_of s (be32 (p_dst sample_packet)))) (rs_sets (mock_committed m) containerAddrSetName) =
    Some (Some own_goto, None, None)"
    unfolding m_def by code_simp
  show ?thesis
    using run map dispatch [of sample_packet] dispatch [of "sample_packet\<lparr>p_src := 167772161\<rparr>"] by auto
qed

end
