(* ===== verification/Network_Scope.thy ===== *)
theory Network_Scope
  imports Go_Net
begin

text \<open>
  Which of a container's Docker networks a policy manages (\<open>network_scope.go\<close>), and the
  lookups of networks and container names in \<open>create.go\<close> that scope rules build on. A Go map
  of networks is an association list with distinct keys; a nil endpoint pointer is \<open>None\<close>. The
  record \<open>endpoint\<close> has the fields of Docker's \<open>network.EndpointSettings\<close> the program
  reads.
\<close>

section \<open>Endpoints\<close>

record endpoint =
  ep_NetworkID :: string
  ep_IPAddress :: netip_addr
  ep_Gateway :: netip_addr
  ep_GlobalIPv6Address :: netip_addr
  ep_GwPriority :: int

type_synonym networks = "(string \<times> endpoint option) list"
type_synonym labels = "(string \<times> string) list"

definition hostNetworkName :: string where "hostNetworkName = ''host''"
definition composeProjectLabel :: string where "composeProjectLabel = ''com.docker.compose.project''"
definition composeServiceLabel :: string where "composeServiceLabel = ''com.docker.compose.service''"
definition managedNetworksLabel :: string where "managedNetworksLabel = ''whalewall.managed_networks''"

text \<open>Reading a missing key of a Go map of strings gives the empty string.\<close>

definition label :: "labels \<Rightarrow> string \<Rightarrow> string" where
  "label labels k = (case map_of labels k of Some v \<Rightarrow> v | None \<Rightarrow> [])"

section \<open>Finding networks and containers\<close>

definition findNetwork :: "string \<Rightarrow> string \<Rightarrow> (string \<times> 'a) list \<Rightarrow> (string \<times> 'a) option" where
  "findNetwork network project addrs =
     (case map_of addrs network of
        Some v \<Rightarrow> Some (network, v)
      | None \<Rightarrow>
          (case map_of addrs (project @ ''_'' @ network) of
             Some v \<Rightarrow> Some (project @ ''_'' @ network, v)
           | None \<Rightarrow> None))"

definition sameDockerNetwork :: "string \<Rightarrow> endpoint option \<Rightarrow> string \<Rightarrow> endpoint option \<Rightarrow> bool" where
  "sameDockerNetwork srcName src dstName dst =
     (case (src, dst) of
        (Some s, Some d) \<Rightarrow>
          if ep_NetworkID s \<noteq> [] \<or> ep_NetworkID d \<noteq> []
          then ep_NetworkID s \<noteq> [] \<and> ep_NetworkID d \<noteq> [] \<and> ep_NetworkID s = ep_NetworkID d
          else srcName = dstName
      | _ \<Rightarrow> False)"

definition containerNameMatchRank :: "string \<Rightarrow> string \<Rightarrow> labels \<Rightarrow> string list \<Rightarrow> int" where
  "containerNameMatchRank expectedName sourceProject labels names =
     (if length expectedName = 0 then 0
      else if expectedName \<in> set names then 2
      else (let slashPrefix = expectedName ! 0 = CHR ''/'' in
        if \<not> slashPrefix \<and> ''/'' @ expectedName \<in> set names then 2
        else (let expectedName = (if slashPrefix then drop 1 expectedName else expectedName) in
          case map_of labels composeServiceLabel of
            Some serviceName \<Rightarrow>
              if serviceName = expectedName \<and> (sourceProject = [] \<or> label labels composeProjectLabel = sourceProject)
              then 1 else 0
          | None \<Rightarrow> 0)))"

section \<open>The selected networks\<close>

record scope =
  sc_selected :: networks
  sc_requested :: "string list"
  sc_selectedIDs :: "(string \<times> string) list"

text \<open>One entry of the label, trimmed.\<close>

definition resolve_part :: "string \<Rightarrow> networks \<Rightarrow> string \<Rightarrow> scope \<Rightarrow> scope result" where
  "resolve_part project attached name s =
     (if name = [] then Inl (Msg ''entry is empty'')
      else if name \<in> set (sc_requested s) then Inl (Msg ''duplicate network'')
      else (let s = s\<lparr>sc_requested := name # sc_requested s\<rparr> in
        case findNetwork name project attached of
          None \<Rightarrow> Inl (Msg ''managed network is not attached to the container'')
        | Some (actualName, endpoint) \<Rightarrow>
            if actualName = hostNetworkName then Inl (Msg ''managed network uses host networking'')
            else (case endpoint of
                None \<Rightarrow> Inl (Msg ''managed network has no endpoint settings'')
              | Some e \<Rightarrow>
                  if map_of (sc_selected s) actualName \<noteq> None
                  then Inl (Msg ''managed network resolves to duplicate Docker network'')
                  else if ep_NetworkID e \<noteq> [] \<and> map_of (sc_selectedIDs s) (ep_NetworkID e) \<noteq> None
                  then Inl (Msg ''managed networks resolve to the same Docker network'')
                  else Inr (s\<lparr>sc_selectedIDs :=
                        (if ep_NetworkID e \<noteq> [] then AList.update (ep_NetworkID e) name (sc_selectedIDs s)
                         else sc_selectedIDs s),
                      sc_selected := AList.update actualName endpoint (sc_selected s)\<rparr>))))"

fun resolve_parts :: "string \<Rightarrow> networks \<Rightarrow> string list \<Rightarrow> scope \<Rightarrow> networks result" where
  "resolve_parts project attached [] s = Inr (sc_selected s)"
| "resolve_parts project attached (part # parts) s =
     (case resolve_part project attached (TrimSpace part) s of
        Inl e \<Rightarrow> Inl e
      | Inr s \<Rightarrow> resolve_parts project attached parts s)"

definition cloneNetworks :: "networks \<Rightarrow> networks" where
  "cloneNetworks attached = fold (\<lambda>(name, endpoint) cloned. AList.update name endpoint cloned) attached []"

text \<open>The result: whether the label is there, and the networks.\<close>

definition resolveManagedNetworks :: "labels \<Rightarrow> string \<Rightarrow> networks \<Rightarrow> bool \<times> networks result" where
  "resolveManagedNetworks labels project attached =
     (case map_of labels managedNetworksLabel of
        None \<Rightarrow> (False, Inr (cloneNetworks attached))
      | Some raw \<Rightarrow>
          (True, resolve_parts project attached (split_at_char (CHR '','') raw)
             \<lparr>sc_selected = [], sc_requested = [], sc_selectedIDs = []\<rparr>))"

section \<open>Addresses\<close>

text \<open>The keys of a map, sorted.\<close>

definition sorted_names :: "(string \<times> 'a) list \<Rightarrow> string list" where
  "sorted_names m = sort (map fst m)"

text \<open>One endpoint: what it adds to the addresses and to the errors.\<close>

definition managed_address :: "networks \<Rightarrow> string \<Rightarrow> (string \<times> byte list) option \<times> error option list" where
  "managed_address networks name =
     (case map_of networks name of
        Some (Some endpoint) \<Rightarrow>
          (let v6 = (if addr_IsValid (ep_GlobalIPv6Address endpoint) then [Some (Msg ''network has IPv6 enabled'')] else []);
               addr = ep_IPAddress endpoint
           in if \<not> addr_IsValid addr then (None, v6 @ [Some (Msg ''network has an invalid IP address'')])
              else if \<not> addr_Is4 addr then (None, v6 @ [Some (Msg ''network has unsupported IP address'')])
              else (case addr_As4 addr of
                  Inr addrBytes \<Rightarrow> (Some (name, addrBytes), v6)
                | Inl e \<Rightarrow> (None, v6 @ [Some e])))
      | _ \<Rightarrow> (None, [Some (Msg ''network has no endpoint settings'')]))"

definition collectManagedIPv4Addresses :: "networks \<Rightarrow> (string \<times> byte list) list \<times> error option" where
  "collectManagedIPv4Addresses networks =
     (let rs = map (managed_address networks) (sorted_names networks)
      in (List.map_filter fst rs, errors_join (concat (map snd rs))))"

definition networkEndpointIdentity :: "string \<Rightarrow> endpoint option \<Rightarrow> string" where
  "networkEndpointIdentity name endpoint =
     (case endpoint of
        Some e \<Rightarrow> if ep_NetworkID e \<noteq> [] then ''id:'' @ ep_NetworkID e else ''name:'' @ name
      | None \<Rightarrow> ''name:'' @ name)"

definition ip4_of :: "endpoint option \<Rightarrow> netip_addr option" where
  "ip4_of endpoint = (case endpoint of Some e \<Rightarrow> if addr_Is4 (ep_IPAddress e) then Some (ep_IPAddress e) else None | None \<Rightarrow> None)"

text \<open>The first loop of \<open>validateScopedAddressUniqueness\<close>: selected addresses and the networks
  they belong to.\<close>

fun selected_by_addr ::
    "networks \<Rightarrow> string list \<Rightarrow> (netip_addr \<times> string) list \<Rightarrow> (netip_addr \<times> string) list result" where
  "selected_by_addr selected [] acc = Inr acc"
| "selected_by_addr selected (name # names) acc =
     (let endpoint = (case map_of selected name of Some e \<Rightarrow> e | None \<Rightarrow> None) in
      case ip4_of endpoint of
        None \<Rightarrow> selected_by_addr selected names acc
      | Some a \<Rightarrow>
          (let identity = networkEndpointIdentity name endpoint in
           case map_of acc a of
             Some previous \<Rightarrow>
               if previous \<noteq> identity then Inl (Msg ''managed networks share IPv4 address'')
               else selected_by_addr selected names (AList.update a identity acc)
           | None \<Rightarrow> selected_by_addr selected names (AList.update a identity acc)))"

definition unmanaged_overlap :: "networks \<Rightarrow> (netip_addr \<times> string) list \<Rightarrow> string \<times> endpoint option \<Rightarrow> error option" where
  "unmanaged_overlap selected byAddr ne =
     (if map_of selected (fst ne) \<noteq> None then None
      else (case ip4_of (snd ne) of
          None \<Rightarrow> None
        | Some a \<Rightarrow>
            (case map_of byAddr a of
               None \<Rightarrow> None
             | Some selectedIdentity \<Rightarrow>
                 if selectedIdentity \<noteq> networkEndpointIdentity (fst ne) (snd ne)
                 then Some (Msg ''managed and unmanaged networks share IPv4 address'') else None)))"

definition validateScopedAddressUniqueness :: "networks \<Rightarrow> networks \<Rightarrow> error option" where
  "validateScopedAddressUniqueness selected attached =
     (case selected_by_addr selected (sorted_names selected) [] of
        Inl e \<Rightarrow> Some e
      | Inr byAddr \<Rightarrow> first_error (unmanaged_overlap selected byAddr) attached)"

definition resolveValidManagedNetworks :: "labels \<Rightarrow> string \<Rightarrow> networks \<Rightarrow> bool \<times> networks result" where
  "resolveValidManagedNetworks labels project attached =
     (case resolveManagedNetworks labels project attached of
        (explicit, Inl e) \<Rightarrow> (explicit, Inl e)
      | (explicit, Inr selected) \<Rightarrow>
          if selected = [] then (explicit, Inl (Msg ''container has no managed network endpoints''))
          else (case (if explicit then validateScopedAddressUniqueness selected attached else None) of
              Some e \<Rightarrow> (explicit, Inl e)
            | None \<Rightarrow>
                (case collectManagedIPv4Addresses selected of
                   (_, Some e) \<Rightarrow> (explicit, Inl e)
                 | (_, None) \<Rightarrow> (explicit, Inr selected))))"

section \<open>The gateway network\<close>

fun gateway_network :: "networks \<Rightarrow> (string \<times> int) option \<Rightarrow> string list \<Rightarrow> (string \<times> int) option result" where
  "gateway_network networks found [] = Inr found"
| "gateway_network networks found (name # names) =
     (case map_of networks name of
        Some (Some endpoint) \<Rightarrow>
          if \<not> addr_Is4 (ep_IPAddress endpoint) then Inl (Msg ''network has no valid IPv4 endpoint address'')
          else if \<not> addr_IsValid (ep_Gateway endpoint) then gateway_network networks found names
          else if \<not> addr_Is4 (ep_Gateway endpoint) then Inl (Msg ''network has a non-IPv4 gateway'')
          else gateway_network networks
            (case found of
               None \<Rightarrow> Some (name, ep_GwPriority endpoint)
             | Some (primary, priority) \<Rightarrow>
                 if ep_GwPriority endpoint > priority then Some (name, ep_GwPriority endpoint)
                 else Some (primary, priority)) names
      | _ \<Rightarrow> Inl (Msg ''network has no endpoint settings''))"

definition dockerIPv4GatewayNetworkName :: "networks \<Rightarrow> string result" where
  "dockerIPv4GatewayNetworkName networks =
     (case gateway_network networks None (sorted_names networks) of
        Inl e \<Rightarrow> Inl e
      | Inr None \<Rightarrow> Inl (Msg ''no attached IPv4 gateway-capable endpoint'')
      | Inr (Some (primary, _)) \<Rightarrow> Inr primary)"

section \<open>Lemmas\<close>

lemma update_fresh: "map_of xs k = None \<Longrightarrow> AList.update k v xs = xs @ [(k, v)]"
  by (induction xs) (auto split: if_splits)

lemma cloneNetworks_id: "distinct (map fst attached) \<Longrightarrow> cloneNetworks attached = attached"
proof -
  have "fold (\<lambda>(n, e) c. AList.update n e c) xs acc = acc @ xs" if "distinct (map fst (acc @ xs))" for xs acc :: networks
    using that
  proof (induction xs arbitrary: acc)
    case (Cons x xs)
    then have "map_of acc (fst x) = None" by (auto simp: map_of_eq_None_iff image_iff)
    with Cons.prems Cons.IH [of "acc @ [x]"] show ?case by (cases x) (auto simp: update_fresh)
  qed simp
  from this [of "[]" attached] show "distinct (map fst attached) \<Longrightarrow> cloneNetworks attached = attached"
    by (simp add: cloneNetworks_def)
qed

lemma sorted_names_set [simp]: "set (sorted_names m) = fst ` set m"
  by (simp add: sorted_names_def)

text \<open>What the label selects: each entry an attached network other than the host's, no Docker network twice.\<close>

definition resolves :: "string \<Rightarrow> networks \<Rightarrow> string \<Rightarrow> string \<times> endpoint \<Rightarrow> bool" where
  "resolves project attached name ne \<longleftrightarrow>
     findNetwork name project attached = Some (fst ne, Some (snd ne)) \<and> fst ne \<noteq> hostNetworkName"

definition network_ids :: "(string \<times> endpoint) list \<Rightarrow> string list" where
  "network_ids nes = filter (\<lambda>i. i \<noteq> []) (map (ep_NetworkID \<circ> snd) nes)"

definition present :: "(string \<times> endpoint) list \<Rightarrow> networks" where
  "present nes = map (\<lambda>(n, e). (n, Some e)) nes"

lemma present_simps [simp]:
  "present [] = []" "present (x # xs) = (fst x, Some (snd x)) # present xs"
  "map fst (present xs) = map fst xs"
  by (auto simp: present_def split: prod.splits)

lemma resolve_part_Inr:
  "resolve_part project attached name s = Inr s' \<longleftrightarrow>
     name \<noteq> [] \<and> name \<notin> set (sc_requested s) \<and>
     (\<exists>ne. resolves project attached name ne \<and> map_of (sc_selected s) (fst ne) = None \<and>
        (ep_NetworkID (snd ne) \<noteq> [] \<longrightarrow> map_of (sc_selectedIDs s) (ep_NetworkID (snd ne)) = None) \<and>
        s' = s\<lparr>sc_requested := name # sc_requested s,
          sc_selectedIDs := (if ep_NetworkID (snd ne) \<noteq> [] then AList.update (ep_NetworkID (snd ne)) name (sc_selectedIDs s)
             else sc_selectedIDs s),
          sc_selected := sc_selected s @ [(fst ne, Some (snd ne))]\<rparr>)"
proof (cases "findNetwork name project attached")
  case None
  then show ?thesis by (simp add: resolve_part_def resolves_def Let_def)
next
  case (Some x)
  then obtain a ep where f: "findNetwork name project attached = Some (a, ep)" by (cases x) simp
  show ?thesis
  proof (cases ep)
    case None
    with f show ?thesis by (simp add: resolve_part_def resolves_def Let_def)
  next
    case (Some e)
    with f have r: "resolves project attached name ne \<longleftrightarrow> ne = (a, e) \<and> a \<noteq> hostNetworkName" for ne
      by (cases ne) (auto simp: resolves_def)
    show ?thesis
      unfolding r using f Some
      by (auto simp: resolve_part_def Let_def update_fresh)
  qed
qed

definition selectable :: "string \<Rightarrow> networks \<Rightarrow> scope \<Rightarrow> string list \<Rightarrow> (string \<times> endpoint) list \<Rightarrow> bool" where
  "selectable project attached s names nes \<longleftrightarrow>
     [] \<notin> set names \<and> distinct names \<and> (\<forall>n \<in> set names. n \<notin> set (sc_requested s)) \<and>
     list_all2 (resolves project attached) names nes \<and>
     distinct (map fst nes) \<and> (\<forall>n \<in> set (map fst nes). map_of (sc_selected s) n = None) \<and>
     distinct (network_ids nes) \<and> (\<forall>i \<in> set (network_ids nes). map_of (sc_selectedIDs s) i = None)"

definition select_next :: "scope \<Rightarrow> string \<Rightarrow> string \<times> endpoint \<Rightarrow> scope" where
  "select_next s name ne = s\<lparr>sc_requested := name # sc_requested s,
     sc_selectedIDs := (if ep_NetworkID (snd ne) \<noteq> [] then AList.update (ep_NetworkID (snd ne)) name (sc_selectedIDs s)
       else sc_selectedIDs s),
     sc_selected := sc_selected s @ [(fst ne, Some (snd ne))]\<rparr>"

lemma select_next_sel:
  "sc_requested (select_next s name ne) = name # sc_requested s"
  "sc_selected (select_next s name ne) = sc_selected s @ [(fst ne, Some (snd ne))]"
  "map_of (sc_selectedIDs (select_next s name ne)) i = None \<longleftrightarrow>
     map_of (sc_selectedIDs s) i = None \<and> \<not> (ep_NetworkID (snd ne) \<noteq> [] \<and> i = ep_NetworkID (snd ne))"
  by (auto simp: select_next_def update_conv')

lemma resolve_part_next:
  "resolve_part project attached name s = Inr s' \<longleftrightarrow>
     name \<noteq> [] \<and> name \<notin> set (sc_requested s) \<and>
     (\<exists>ne. resolves project attached name ne \<and> map_of (sc_selected s) (fst ne) = None \<and>
        (ep_NetworkID (snd ne) \<noteq> [] \<longrightarrow> map_of (sc_selectedIDs s) (ep_NetworkID (snd ne)) = None) \<and>
        s' = select_next s name ne)"
  unfolding resolve_part_Inr select_next_def by (rule refl)

lemma network_ids_Cons:
  "network_ids (ne # nes) = (if ep_NetworkID (snd ne) \<noteq> [] then [ep_NetworkID (snd ne)] else []) @ network_ids nes"
  by (simp add: network_ids_def)

lemma network_ids_nonempty: "i \<in> set (network_ids nes) \<Longrightarrow> i \<noteq> []"
  by (simp add: network_ids_def)

lemma selectable_Cons:
  "selectable project attached s (name # names) (ne # nes) \<longleftrightarrow>
     name \<noteq> [] \<and> name \<notin> set (sc_requested s) \<and> resolves project attached name ne \<and>
     map_of (sc_selected s) (fst ne) = None \<and>
     (ep_NetworkID (snd ne) \<noteq> [] \<longrightarrow> map_of (sc_selectedIDs s) (ep_NetworkID (snd ne)) = None) \<and>
     selectable project attached (select_next s name ne) names nes"
  unfolding selectable_def network_ids_Cons select_next_sel
  using network_ids_nonempty [of _ nes] by (auto simp: map_add_def simp del: set_map image_iff split: option.splits)

lemma resolve_parts_Inr:
  "resolve_parts project attached parts s = Inr sel \<longleftrightarrow>
     (\<exists>nes. selectable project attached s (map TrimSpace parts) nes \<and> sel = sc_selected s @ present nes)"
proof (induction parts arbitrary: s)
  case Nil
  show ?case by (auto simp: selectable_def network_ids_def)
next
  case (Cons part parts)
  let ?n = "TrimSpace part"
  have "resolve_parts project attached (part # parts) s = Inr sel \<longleftrightarrow>
      (\<exists>s'. resolve_part project attached ?n s = Inr s' \<and> resolve_parts project attached parts s' = Inr sel)"
    by (simp split: sum.splits)
  also have "\<dots> \<longleftrightarrow> (\<exists>ne nes. ?n \<noteq> [] \<and> ?n \<notin> set (sc_requested s) \<and> resolves project attached ?n ne \<and>
      map_of (sc_selected s) (fst ne) = None \<and>
      (ep_NetworkID (snd ne) \<noteq> [] \<longrightarrow> map_of (sc_selectedIDs s) (ep_NetworkID (snd ne)) = None) \<and>
      selectable project attached (select_next s ?n ne) (map TrimSpace parts) nes \<and>
      sel = sc_selected (select_next s ?n ne) @ present nes)"
    unfolding resolve_part_next Cons.IH by blast
  also have "\<dots> \<longleftrightarrow> (\<exists>ne nes. selectable project attached s (?n # map TrimSpace parts) (ne # nes) \<and>
      sel = sc_selected s @ present (ne # nes))"
    unfolding selectable_Cons select_next_sel present_simps append_assoc append.simps by blast
  also have "\<dots> \<longleftrightarrow> (\<exists>nes. selectable project attached s (?n # map TrimSpace parts) nes \<and> sel = sc_selected s @ present nes)"
  proof -
    have "\<exists>ne nes'. nes = ne # nes'" if "selectable project attached s (?n # map TrimSpace parts) nes" for nes
      using that by (cases nes) (simp_all add: selectable_def)
    then show ?thesis by blast
  qed
  finally show ?case by simp
qed

section \<open>Addresses and overlaps\<close>

lemma managed_address_simps:
  "map_of networks name = Some (Some e) \<Longrightarrow> fst (managed_address networks name) = Some (name, bs) \<longleftrightarrow>
     (\<exists>w. ep_IPAddress e = Addr4 w \<and> bs = be32 w)"
  "map_of networks name = Some (Some e) \<Longrightarrow> (\<forall>x \<in> set (snd (managed_address networks name)). x = None) \<longleftrightarrow>
     addr_Is4 (ep_IPAddress e) \<and> \<not> addr_IsValid (ep_GlobalIPv6Address e)"
  "map_of networks name = Some None \<Longrightarrow> managed_address networks name = (None, [Some (Msg ''network has no endpoint settings'')])"
  by (cases "ep_IPAddress e"; auto simp: managed_address_def Let_def)
    (cases "ep_IPAddress e"; auto simp: managed_address_def Let_def)+

lemma managed_address_name: "fst (managed_address networks name) = Some (n, bs) \<Longrightarrow> n = name"
  by (auto simp: managed_address_def Let_def split: option.splits if_splits sum.splits)

definition managed_ok :: "endpoint option \<Rightarrow> bool" where
  "managed_ok x \<longleftrightarrow> (case x of None \<Rightarrow> False
     | Some e \<Rightarrow> addr_Is4 (ep_IPAddress e) \<and> \<not> addr_IsValid (ep_GlobalIPv6Address e))"

lemma managed_address_ok:
  "map_of networks name = Some x \<Longrightarrow> (\<forall>y \<in> set (snd (managed_address networks name)). y = None) \<longleftrightarrow> managed_ok x"
  using managed_address_simps(2,3) by (cases x) (auto simp: managed_ok_def)

lemma collect_errors:
  assumes "distinct (map fst networks)"
  shows "snd (collectManagedIPv4Addresses networks) = None \<longleftrightarrow> (\<forall>(n, x) \<in> set networks. managed_ok x)"
proof -
  have "snd (collectManagedIPv4Addresses networks) = None \<longleftrightarrow>
      (\<forall>n \<in> fst ` set networks. \<forall>y \<in> set (snd (managed_address networks n)). y = None)"
    by (auto simp: collectManagedIPv4Addresses_def Let_def errors_join_None_iff)
  also have "\<dots> \<longleftrightarrow> (\<forall>nx \<in> set networks. \<forall>y \<in> set (snd (managed_address networks (fst nx))). y = None)"
    by simp
  also have "\<dots> \<longleftrightarrow> (\<forall>nx \<in> set networks. managed_ok (snd nx))"
    by (intro ball_cong [OF refl] managed_address_ok) (simp add: map_of_eq_Some_iff [OF assms])
  also have "\<dots> \<longleftrightarrow> (\<forall>(n, x) \<in> set networks. managed_ok x)" by auto
  finally show ?thesis .
qed

lemma map_fst_map_filter:
  "(\<And>n x. f n = Some x \<Longrightarrow> fst x = n) \<Longrightarrow> map fst (List.map_filter f ns) = filter (\<lambda>n. f n \<noteq> None) ns"
  by (induction ns) (auto simp: map_filter_simps split: option.splits)

lemma set_map_filter: "set (List.map_filter f xs) = {y. \<exists>x \<in> set xs. f x = Some y}"
  by (induction xs) (auto simp: map_filter_simps split: option.splits)

lemma collect_addresses:
  assumes "distinct (map fst networks)"
  shows "map_of (fst (collectManagedIPv4Addresses networks)) n = Some bs \<longleftrightarrow>
    (\<exists>e w. map_of networks n = Some (Some e) \<and> ep_IPAddress e = Addr4 w \<and> bs = be32 w)"
proof -
  let ?f = "\<lambda>n. fst (managed_address networks n)"
  have eq: "fst (collectManagedIPv4Addresses networks) = List.map_filter ?f (sorted_names networks)"
    by (simp add: collectManagedIPv4Addresses_def Let_def List.map_filter_def comp_def filter_map)
  have "map fst (List.map_filter ?f (sorted_names networks)) = filter (\<lambda>n. ?f n \<noteq> None) (sorted_names networks)"
    by (rule map_fst_map_filter) (metis managed_address_name prod.collapse)
  moreover have "distinct (sorted_names networks)" using assms by (simp add: sorted_names_def)
  ultimately have d: "distinct (map fst (List.map_filter ?f (sorted_names networks)))" by simp
  have "map_of (fst (collectManagedIPv4Addresses networks)) n = Some bs \<longleftrightarrow>
      (\<exists>name \<in> fst ` set networks. ?f name = Some (n, bs))"
    unfolding eq map_of_eq_Some_iff [OF d] by (simp add: set_map_filter)
  also have "\<dots> \<longleftrightarrow> n \<in> fst ` set networks \<and> ?f n = Some (n, bs)"
    using managed_address_name by blast
  also have "\<dots> \<longleftrightarrow> (\<exists>e w. map_of networks n = Some (Some e) \<and> ep_IPAddress e = Addr4 w \<and> bs = be32 w)"
  proof (cases "map_of networks n")
    case None
    then have "n \<notin> fst ` set networks" by (simp add: map_of_eq_None_iff)
    with None show ?thesis by simp
  next
    case (Some x)
    then have "n \<in> fst ` set networks" by (metis map_of_eq_None_iff option.distinct(1))
    with Some managed_address_simps(1,3) show ?thesis by (cases x) auto
  qed
  finally show ?thesis .
qed

text \<open>The address and the network a name stands for.\<close>

definition named_endpoint :: "networks \<Rightarrow> string \<Rightarrow> endpoint option" where
  "named_endpoint selected name = (case map_of selected name of Some e \<Rightarrow> e | None \<Rightarrow> None)"

definition addr_at :: "networks \<Rightarrow> string \<Rightarrow> netip_addr option" where
  "addr_at selected name = ip4_of (named_endpoint selected name)"

definition identity_at :: "networks \<Rightarrow> string \<Rightarrow> string" where
  "identity_at selected name = networkEndpointIdentity name (named_endpoint selected name)"

lemma selected_by_addr_step:
  "selected_by_addr selected (name # names) acc =
     (case addr_at selected name of
        None \<Rightarrow> selected_by_addr selected names acc
      | Some a \<Rightarrow>
          if map_of acc a = None \<or> map_of acc a = Some (identity_at selected name)
          then selected_by_addr selected names (AList.update a (identity_at selected name) acc)
          else Inl (Msg ''managed networks share IPv4 address''))"
  by (auto simp: addr_at_def identity_at_def named_endpoint_def Let_def split: option.splits)

lemma selected_by_addr_Inr:
  assumes "selected_by_addr selected names acc = Inr byAddr"
  shows "(\<forall>name \<in> set names. \<forall>a. addr_at selected name = Some a \<longrightarrow> map_of byAddr a = Some (identity_at selected name)) \<and>
    (\<forall>a i. map_of acc a = Some i \<longrightarrow> map_of byAddr a = Some i) \<and>
    (\<forall>a i. map_of byAddr a = Some i \<longrightarrow> map_of acc a = Some i \<or>
       (\<exists>name \<in> set names. addr_at selected name = Some a \<and> identity_at selected name = i))"
  using assms
proof (induction names arbitrary: acc)
  case (Cons name names)
  show ?case
  proof (cases "addr_at selected name")
    case None
    with Cons.prems Cons.IH [of acc] show ?thesis by (auto simp: selected_by_addr_step simp del: selected_by_addr.simps)
  next
    case (Some a)
    let ?i = "identity_at selected name"
    from Cons.prems Some have ok: "map_of acc a = None \<or> map_of acc a = Some ?i"
      and rest: "selected_by_addr selected names (AList.update a ?i acc) = Inr byAddr"
      by (auto simp: selected_by_addr_step simp del: selected_by_addr.simps split: if_splits)
    note IH = Cons.IH [OF rest, unfolded update_conv']
    have "map_of byAddr a = Some ?i" using IH by simp
    moreover have "map_of byAddr b = Some j" if "map_of acc b = Some j" for b j
      using IH ok that by (cases "b = a") auto
    moreover have "map_of acc b = Some j \<or>
        (\<exists>nm \<in> set (name # names). addr_at selected nm = Some b \<and> identity_at selected nm = j)"
      if "map_of byAddr b = Some j" for b j
    proof -
      have "((map_of acc)(a \<mapsto> ?i)) b = Some j \<or> (\<exists>nm \<in> set names. addr_at selected nm = Some b \<and> identity_at selected nm = j)"
        using IH that by blast
      then show ?thesis using Some by (cases "b = a") auto
    qed
    ultimately show ?thesis using IH Some by simp
  qed
qed simp

lemma selected_by_addr_Inl:
  assumes "selected_by_addr selected names acc = Inl e"
  shows "\<exists>name \<in> set names. \<exists>a. addr_at selected name = Some a \<and>
    ((\<exists>i. map_of acc a = Some i \<and> i \<noteq> identity_at selected name) \<or>
     (\<exists>nm \<in> set names. addr_at selected nm = Some a \<and> identity_at selected nm \<noteq> identity_at selected name))"
  using assms
proof (induction names arbitrary: acc)
  case (Cons name names)
  show ?case
  proof (cases "addr_at selected name")
    case None
    with Cons.prems Cons.IH [of acc] show ?thesis by (auto simp: selected_by_addr_step simp del: selected_by_addr.simps)
  next
    case (Some a)
    let ?i = "identity_at selected name"
    show ?thesis
    proof (cases "map_of acc a = None \<or> map_of acc a = Some ?i")
      case False
      with Some show ?thesis by auto
    next
      case True
      with Cons.prems Some have "selected_by_addr selected names (AList.update a ?i acc) = Inl e"
        by (simp add: selected_by_addr_step del: selected_by_addr.simps)
      from Cons.IH [OF this] obtain nm b where nm: "nm \<in> set names" "addr_at selected nm = Some b"
        "(\<exists>i. ((map_of acc)(a \<mapsto> ?i)) b = Some i \<and> i \<noteq> identity_at selected nm) \<or>
         (\<exists>nm' \<in> set names. addr_at selected nm' = Some b \<and> identity_at selected nm' \<noteq> identity_at selected nm)"
        unfolding update_conv' by blast
      then show ?thesis using Some
      proof (cases "b = a \<and> ?i \<noteq> identity_at selected nm")
        case True
        with nm(1,2) Some show ?thesis by (intro bexI [of _ nm] exI [of _ a]) auto
      next
        case False
        then show ?thesis using nm Some by (intro bexI [of _ nm] exI [of _ b]) (auto split: if_splits)
      qed
    qed
  qed
qed simp

section \<open>Properties\<close>

text \<open>Two endpoints with the same IPv4 address that are not the same Docker network.\<close>

definition address_clash :: "string \<times> endpoint option \<Rightarrow> string \<times> endpoint option \<Rightarrow> bool" where
  "address_clash x y \<longleftrightarrow> (\<exists>a. ip4_of (snd x) = Some a \<and> ip4_of (snd y) = Some a \<and>
     networkEndpointIdentity (fst x) (snd x) \<noteq> networkEndpointIdentity (fst y) (snd y))"

lemma at_element:
  assumes "distinct (map fst selected)" "(n, e) \<in> set selected"
  shows "addr_at selected n = ip4_of e" "identity_at selected n = networkEndpointIdentity n e"
  using assms by (simp_all add: addr_at_def identity_at_def named_endpoint_def)

lemma at_name:
  assumes "distinct (map fst selected)" "n \<in> fst ` set selected"
  obtains e where "(n, e) \<in> set selected" "addr_at selected n = ip4_of e" "identity_at selected n = networkEndpointIdentity n e"
  using assms at_element [OF assms(1)] by force

lemma selected_clash:
  assumes "distinct (map fst selected)"
  shows "(\<exists>e. selected_by_addr selected (sorted_names selected) [] = Inl e) \<longleftrightarrow>
    (\<exists>x \<in> set selected. \<exists>y \<in> set selected. address_clash x y)"
proof
  assume "\<exists>e. selected_by_addr selected (sorted_names selected) [] = Inl e"
  then obtain e where "selected_by_addr selected (sorted_names selected) [] = Inl e" by blast
  from selected_by_addr_Inl [OF this] obtain n m a where nm: "n \<in> fst ` set selected" "m \<in> fst ` set selected" "addr_at selected n = Some a"
    "addr_at selected m = Some a" "identity_at selected m \<noteq> identity_at selected n"
    unfolding sorted_names_set map_of.simps by blast
  obtain e where e: "(n, e) \<in> set selected" "addr_at selected n = ip4_of e" "identity_at selected n = networkEndpointIdentity n e"
    using at_name [OF assms nm(1)] .
  obtain f where f: "(m, f) \<in> set selected" "addr_at selected m = ip4_of f" "identity_at selected m = networkEndpointIdentity m f"
    using at_name [OF assms nm(2)] .
  have "address_clash (m, f) (n, e)" using nm(3-5) e(2,3) f(2,3) by (auto simp: address_clash_def)
  with e(1) f(1) show "\<exists>x \<in> set selected. \<exists>y \<in> set selected. address_clash x y" by blast
next
  assume "\<exists>x \<in> set selected. \<exists>y \<in> set selected. address_clash x y"
  then obtain n e m f a where x: "(n, e) \<in> set selected" "(m, f) \<in> set selected" "ip4_of e = Some a" "ip4_of f = Some a"
    "networkEndpointIdentity n e \<noteq> networkEndpointIdentity m f" by (auto simp: address_clash_def)
  show "\<exists>e. selected_by_addr selected (sorted_names selected) [] = Inl e"
  proof (cases "selected_by_addr selected (sorted_names selected) []")
    case (Inr byAddr)
    have mem: "n \<in> set (sorted_names selected)" "m \<in> set (sorted_names selected)" using x(1,2) by force+
    note at = conjunct1 [OF selected_by_addr_Inr [OF Inr]]
    have "map_of byAddr a = Some (networkEndpointIdentity n e)"
      using bspec [OF at mem(1)] at_element [OF assms x(1)] x(3) by simp
    moreover have "map_of byAddr a = Some (networkEndpointIdentity m f)"
      using bspec [OF at mem(2)] at_element [OF assms x(2)] x(4) by simp
    ultimately show ?thesis using x(5) by simp
  qed simp
qed

lemma unmanaged_clash:
  assumes "distinct (map fst selected)" and by_addr: "selected_by_addr selected (sorted_names selected) [] = Inr byAddr"
  shows "unmanaged_overlap selected byAddr y = None \<longleftrightarrow>
    (fst y \<in> fst ` set selected \<or> (\<forall>x \<in> set selected. \<not> address_clash x y))"
proof (cases "map_of selected (fst y)")
  case (Some e)
  then have "fst y \<in> fst ` set selected" by (metis map_of_eq_None_iff option.distinct(1))
  with Some show ?thesis by (simp add: unmanaged_overlap_def)
next
  case None
  then have out: "fst y \<notin> fst ` set selected" by (simp add: map_of_eq_None_iff)
  note byA = selected_by_addr_Inr [OF by_addr]
  show ?thesis
  proof (cases "ip4_of (snd y)")
    case None
    with \<open>map_of selected (fst y) = None\<close> out show ?thesis by (simp add: unmanaged_overlap_def address_clash_def)
  next
    case (Some a)
    let ?i = "networkEndpointIdentity (fst y) (snd y)"
    have "unmanaged_overlap selected byAddr y = None \<longleftrightarrow> (map_of byAddr a = None \<or> map_of byAddr a = Some ?i)"
      using Some \<open>map_of selected (fst y) = None\<close> by (auto simp: unmanaged_overlap_def split: option.splits)
    also have "\<dots> \<longleftrightarrow> (\<forall>x \<in> set selected. \<not> address_clash x y)"
    proof
      assume l: "map_of byAddr a = None \<or> map_of byAddr a = Some ?i"
      show "\<forall>x \<in> set selected. \<not> address_clash x y"
      proof (intro ballI notI)
        fix x assume x: "x \<in> set selected" "address_clash x y"
        obtain n e where ne: "x = (n, e)" by (cases x)
        with x have "addr_at selected n = Some a" "identity_at selected n \<noteq> ?i"
          using at_element [OF assms(1), of n e] Some by (auto simp: address_clash_def)
        moreover have "n \<in> set (sorted_names selected)" using x(1) ne by force
        ultimately have "map_of byAddr a = Some (identity_at selected n)" using byA by blast
        with l \<open>identity_at selected n \<noteq> ?i\<close> show False by simp
      qed
    next
      assume r: "\<forall>x \<in> set selected. \<not> address_clash x y"
      have "i = ?i" if "map_of byAddr a = Some i" for i
      proof -
        have "\<exists>n \<in> set (sorted_names selected). addr_at selected n = Some a \<and> identity_at selected n = i"
          using conjunct2 [OF conjunct2 [OF byA]] that by simp
        then obtain n where n: "n \<in> set (sorted_names selected)" "addr_at selected n = Some a" "identity_at selected n = i"
          by blast
        then have "n \<in> fst ` set selected" by simp
        then obtain e where e: "(n, e) \<in> set selected" "addr_at selected n = ip4_of e"
          "identity_at selected n = networkEndpointIdentity n e" by (rule at_name [OF assms(1)])
        have "\<not> address_clash (n, e) y" using r e(1) by blast
        with n e(2,3) Some show ?thesis by (simp add: address_clash_def)
      qed
      then show "map_of byAddr a = None \<or> map_of byAddr a = Some ?i" by (cases "map_of byAddr a") simp_all
    qed
    finally show ?thesis using out by simp
  qed
qed

text \<open>C18: The managed-networks label selects exactly what it says. Without the label every attached network
  is managed. With it the selection succeeds if and only if the trimmed entries are non-empty and distinct,
  each is an attached network (under its own name or the Compose project's) with an endpoint and not the
  host's, and no two entries are the same Docker network by name or by id; then exactly those networks are
  selected.\<close>

theorem resolveManagedNetworks_correct:
  assumes "distinct (map fst attached)"
  shows "resolveManagedNetworks labels project attached = (explicit, Inr selected) \<longleftrightarrow>
    (case map_of labels managedNetworksLabel of
       None \<Rightarrow> \<not> explicit \<and> selected = attached
     | Some raw \<Rightarrow> explicit \<and>
         (let names = map TrimSpace (split_at_char (CHR '','') raw) in
          [] \<notin> set names \<and> distinct names \<and>
          (\<exists>nes. list_all2 (resolves project attached) names nes \<and> distinct (map fst nes) \<and>
             distinct (network_ids nes) \<and> selected = present nes)))"
  using assms by (auto simp: resolveManagedNetworks_def cloneNetworks_id resolve_parts_Inr selectable_def Let_def split: option.splits)

text \<open>C19: The scope check accepts a selection if and only if no IPv4 address of a selected endpoint is also
  the address of an endpoint, selected or not, on a different Docker network of the container.\<close>

theorem validateScopedAddressUniqueness_correct:
  assumes "distinct (map fst selected)"
  shows "validateScopedAddressUniqueness selected attached = None \<longleftrightarrow>
    \<not> (\<exists>x \<in> set selected. \<exists>y \<in> set selected \<union> {y \<in> set attached. fst y \<notin> fst ` set selected}. address_clash x y)"
proof (cases "selected_by_addr selected (sorted_names selected) []")
  case (Inl e)
  with selected_clash [OF assms] show ?thesis by (auto simp: validateScopedAddressUniqueness_def)
next
  case (Inr byAddr)
  then have "\<not> (\<exists>x \<in> set selected. \<exists>y \<in> set selected. address_clash x y)"
    using selected_clash [OF assms] by simp
  moreover have "validateScopedAddressUniqueness selected attached = None \<longleftrightarrow>
      (\<forall>y \<in> set attached. fst y \<in> fst ` set selected \<or> (\<forall>x \<in> set selected. \<not> address_clash x y))"
    using Inr unmanaged_clash [OF assms Inr] by (simp add: validateScopedAddressUniqueness_def)
  ultimately show ?thesis by blast
qed

text \<open>The address keys are valid even when an error is reported with them: a network has a key if and
  only if its endpoint has an IPv4 address, and the key is that address in network order. No error is
  reported if and only if every endpoint is there, has an IPv4 address and no IPv6 address.\<close>

theorem collectManagedIPv4Addresses_correct:
  assumes "distinct (map fst networks)"
  shows "(map_of (fst (collectManagedIPv4Addresses networks)) n = Some bs \<longleftrightarrow>
      (\<exists>e w. map_of networks n = Some (Some e) \<and> ep_IPAddress e = Addr4 w \<and> bs = be32 w)) \<and>
    (snd (collectManagedIPv4Addresses networks) = None \<longleftrightarrow>
      (\<forall>(n, x) \<in> set networks. \<exists>e. x = Some e \<and> addr_Is4 (ep_IPAddress e) \<and> \<not> addr_IsValid (ep_GlobalIPv6Address e)))"
  using collect_addresses [OF assms] collect_errors [OF assms]
  by (auto simp: managed_ok_def split: option.splits)

lemma selected_distinct:
  assumes "distinct (map fst attached)" "resolveManagedNetworks labels project attached = (explicit, Inr selected)"
  shows "distinct (map fst selected)"
  using assms by (auto simp: resolveManagedNetworks_def cloneNetworks_id resolve_parts_Inr selectable_def split: option.splits)

text \<open>C20: A peer's networks pass the check if and only if they can be enforced: the label resolves to at
  least one network, each has an endpoint with an IPv4 address and without IPv6, and under an explicit
  label no address of a managed network is reachable through another Docker network of the container.\<close>

theorem resolveValidManagedNetworks_correct:
  assumes "distinct (map fst attached)"
  shows "resolveValidManagedNetworks labels project attached = (explicit, Inr selected) \<longleftrightarrow>
    resolveManagedNetworks labels project attached = (explicit, Inr selected) \<and> selected \<noteq> [] \<and>
    (\<forall>(n, x) \<in> set selected. \<exists>e. x = Some e \<and> addr_Is4 (ep_IPAddress e) \<and> \<not> addr_IsValid (ep_GlobalIPv6Address e)) \<and>
    (explicit \<longrightarrow> \<not> (\<exists>x \<in> set selected. \<exists>y \<in> set selected \<union> {y \<in> set attached. fst y \<notin> fst ` set selected}.
       address_clash x y))"
proof (cases "resolveManagedNetworks labels project attached")
  case (Pair ex res)
  show ?thesis
  proof (cases res)
    case (Inl e)
    with Pair show ?thesis by (simp add: resolveValidManagedNetworks_def)
  next
    case (Inr sel)
    have d: "distinct (map fst sel)" using selected_distinct assms Pair Inr by blast
    obtain keys err where c: "collectManagedIPv4Addresses sel = (keys, err)" by force
    then have err: "err = None \<longleftrightarrow> (\<forall>(n, x) \<in> set sel. managed_ok x)"
      using collect_errors [OF d] by simp
    have ok: "managed_ok x \<longleftrightarrow> (\<exists>e. x = Some e \<and> addr_Is4 (ep_IPAddress e) \<and> \<not> addr_IsValid (ep_GlobalIPv6Address e))" for x
      by (auto simp: managed_ok_def split: option.splits)
    let ?v = "if ex then validateScopedAddressUniqueness sel attached else None"
    have v: "?v = None \<longleftrightarrow> (ex \<longrightarrow> \<not> (\<exists>x \<in> set sel. \<exists>y \<in> set sel \<union> {y \<in> set attached. fst y \<notin> fst ` set sel}.
       address_clash x y))"
      using validateScopedAddressUniqueness_correct [OF d, of attached] by simp
    have "resolveValidManagedNetworks labels project attached = (explicit, Inr selected) \<longleftrightarrow>
        ex = explicit \<and> sel = selected \<and> sel \<noteq> [] \<and> ?v = None \<and> err = None"
      using Pair Inr c by (auto simp: resolveValidManagedNetworks_def split: option.splits)
    also have "\<dots> \<longleftrightarrow> ex = explicit \<and> sel = selected \<and> sel \<noteq> [] \<and> (\<forall>(n, x) \<in> set sel. managed_ok x) \<and>
        (ex \<longrightarrow> \<not> (\<exists>x \<in> set sel. \<exists>y \<in> set sel \<union> {y \<in> set attached. fst y \<notin> fst ` set sel}. address_clash x y))"
      unfolding v err by blast
    finally show ?thesis unfolding Pair Inr ok by blast
  qed
qed

section \<open>The gateway network\<close>

definition gateway_candidate :: "networks \<Rightarrow> string \<Rightarrow> (string \<times> int) option" where
  "gateway_candidate networks name =
     (case map_of networks name of
        Some (Some e) \<Rightarrow> if addr_Is4 (ep_Gateway e) then Some (name, ep_GwPriority e) else None
      | _ \<Rightarrow> None)"

definition gateway_ok :: "networks \<Rightarrow> string \<Rightarrow> bool" where
  "gateway_ok networks name \<longleftrightarrow> (\<exists>e. map_of networks name = Some (Some e) \<and> addr_Is4 (ep_IPAddress e) \<and>
     (addr_IsValid (ep_Gateway e) \<longrightarrow> addr_Is4 (ep_Gateway e)))"

fun higher :: "(string \<times> int) option \<Rightarrow> string \<times> int \<Rightarrow> (string \<times> int) option" where
  "higher None c = Some c"
| "higher (Some p) c = (if snd c > snd p then Some c else Some p)"

lemma gateway_network_fold:
  "gateway_network networks found names = Inr r \<longleftrightarrow>
     (\<forall>n \<in> set names. gateway_ok networks n) \<and>
     r = foldl higher found (List.map_filter (gateway_candidate networks) names)"
proof (induction names arbitrary: found)
  case (Cons n names)
  show ?case
  proof (cases "gateway_ok networks n")
    case False
    then have "gateway_network networks found (n # names) \<noteq> Inr r"
      by (auto simp: gateway_ok_def split: option.splits if_splits)
    with False show ?thesis by simp
  next
    case True
    then obtain e where e: "map_of networks n = Some (Some e)" "addr_Is4 (ep_IPAddress e)"
      "addr_IsValid (ep_Gateway e) \<longrightarrow> addr_Is4 (ep_Gateway e)" by (auto simp: gateway_ok_def)
    show ?thesis
    proof (cases "addr_Is4 (ep_Gateway e)")
      case True
      then have "gateway_network networks found (n # names) = gateway_network networks (higher found (n, ep_GwPriority e)) names"
        using e addr_Is4_valid [OF True] by (cases found) (auto split: prod.splits)
      with True e Cons.IH \<open>gateway_ok networks n\<close> show ?thesis
        by (simp add: gateway_candidate_def map_filter_simps del: gateway_network.simps)
    next
      case False
      with e Cons.IH \<open>gateway_ok networks n\<close> show ?thesis
        by (simp add: gateway_candidate_def map_filter_simps)
    qed
  qed
qed (auto simp: map_filter_simps)

definition preferred :: "(string \<times> int) list \<Rightarrow> string \<times> int \<Rightarrow> bool" where
  "preferred cs c \<longleftrightarrow> c \<in> set cs \<and> (\<forall>d \<in> set cs. snd d < snd c \<or> snd d = snd c \<and> fst c \<le> fst d)"

lemma foldl_higher:
  assumes "sorted_wrt (\<lambda>x y. fst x < fst y) cs"
  shows "foldl higher None cs = Some c \<longleftrightarrow> preferred cs c"
proof -
  have "if cs = [] then foldl higher None cs = None else \<exists>c. foldl higher None cs = Some c \<and> preferred cs c"
    using assms
  proof (induction cs rule: rev_induct)
    case (snoc d cs)
    then have lt: "\<forall>x \<in> set cs. fst x < fst d" and IH: "if cs = [] then foldl higher None cs = None
        else \<exists>c. foldl higher None cs = Some c \<and> preferred cs c"
      by (auto simp: sorted_wrt_append)
    show ?case
    proof (cases "cs = []")
      case True
      then show ?thesis by (simp add: preferred_def)
    next
      case False
      with IH obtain c where c: "foldl higher None cs = Some c" "preferred cs c" by auto
      show ?thesis
      proof (cases "snd d > snd c")
        case True
        then have "preferred (cs @ [d]) d" using c(2) by (auto simp: preferred_def)
        with True c(1) show ?thesis by simp
      next
        case f: False
        then have "preferred (cs @ [d]) c" using c(2) lt by (auto simp: preferred_def intro: less_imp_le)
        with f c(1) show ?thesis by simp
      qed
    qed
  qed simp
  moreover have unique: "d = c" if "preferred cs c" "preferred cs d" for c d
    using that by (intro prod_eqI) (fastforce simp: preferred_def)+
  moreover have "\<not> preferred [] c" by (simp add: preferred_def)
  ultimately show ?thesis
  proof (cases "cs = []")
    case False
    with \<open>if cs = [] then _ else _\<close> obtain d where d: "foldl higher None cs = Some d" "preferred cs d" by auto
    then show ?thesis using unique [OF d(2), of c] by auto
  qed simp
qed

text \<open>Mapped ports are attributed to the network Docker routes them through: every attached endpoint
  must have an IPv4 address and either no gateway or an IPv4 one, and then, among the networks with a
  gateway, the one of highest priority is chosen, and of those the first by name. The order in which the map
  is traversed does not matter, and without a candidate there is an error.\<close>

theorem dockerIPv4GatewayNetworkName_correct:
  assumes "distinct (map fst networks)"
  shows "dockerIPv4GatewayNetworkName networks = Inr n \<longleftrightarrow>
    (\<forall>(m, x) \<in> set networks. \<exists>f. x = Some f \<and> addr_Is4 (ep_IPAddress f) \<and>
       (addr_IsValid (ep_Gateway f) \<longrightarrow> addr_Is4 (ep_Gateway f))) \<and>
    (\<exists>e. (n, Some e) \<in> set networks \<and> addr_Is4 (ep_Gateway e) \<and>
       (\<forall>m f. (m, Some f) \<in> set networks \<and> addr_Is4 (ep_Gateway f) \<longrightarrow>
          ep_GwPriority f < ep_GwPriority e \<or> ep_GwPriority f = ep_GwPriority e \<and> n \<le> m))"
proof -
  let ?cs = "List.map_filter (gateway_candidate networks) (sorted_names networks)"
  have mem: "(m, x) \<in> set networks \<longleftrightarrow> map_of networks m = Some x" for m x
    using assms by simp
  have cand: "(m, p) \<in> set ?cs \<longleftrightarrow> (\<exists>f. (m, Some f) \<in> set networks \<and> addr_Is4 (ep_Gateway f) \<and> p = ep_GwPriority f)" for m p
  proof -
    have "(m, p) \<in> set ?cs \<longleftrightarrow> (\<exists>k \<in> fst ` set networks. gateway_candidate networks k = Some (m, p))"
      by (simp add: set_map_filter)
    also have "\<dots> \<longleftrightarrow> (\<exists>f. (m, Some f) \<in> set networks \<and> addr_Is4 (ep_Gateway f) \<and> p = ep_GwPriority f)"
      proof
      assume "\<exists>k \<in> fst ` set networks. gateway_candidate networks k = Some (m, p)"
      then obtain k where "gateway_candidate networks k = Some (m, p)" by blast
      then show "\<exists>f. (m, Some f) \<in> set networks \<and> addr_Is4 (ep_Gateway f) \<and> p = ep_GwPriority f"
        unfolding mem gateway_candidate_def by (auto split: option.splits if_splits)
    next
      assume "\<exists>f. (m, Some f) \<in> set networks \<and> addr_Is4 (ep_Gateway f) \<and> p = ep_GwPriority f"
      then obtain f where f: "(m, Some f) \<in> set networks" "addr_Is4 (ep_Gateway f)" "p = ep_GwPriority f" by blast
      then have "gateway_candidate networks m = Some (m, p)" using mem by (simp add: gateway_candidate_def)
      with f(1) show "\<exists>k \<in> fst ` set networks. gateway_candidate networks k = Some (m, p)" by force
    qed
    finally show ?thesis .
  qed
  have "map fst ?cs = filter (\<lambda>n. gateway_candidate networks n \<noteq> None) (sorted_names networks)"
    by (rule map_fst_map_filter) (auto simp: gateway_candidate_def split: option.splits if_splits)
  moreover have "sorted_wrt (<) (sorted_names networks)"
    using assms by (simp add: sorted_names_def strict_sorted_iff)
  ultimately have "sorted_wrt (<) (map fst ?cs)" by (simp add: sorted_wrt_filter)
  then have sorted: "sorted_wrt (\<lambda>x y. fst x < fst y) ?cs" by (simp add: sorted_wrt_map)
  have "dockerIPv4GatewayNetworkName networks = Inr n \<longleftrightarrow>
      (\<exists>p. gateway_network networks None (sorted_names networks) = Inr (Some (n, p)))"
    by (auto simp: dockerIPv4GatewayNetworkName_def split: sum.splits option.splits)
  also have "\<dots> \<longleftrightarrow> (\<forall>k \<in> fst ` set networks. gateway_ok networks k) \<and> (\<exists>p. preferred ?cs (n, p))"
    unfolding gateway_network_fold using foldl_higher [OF sorted] by (auto simp: eq_commute [of "Some _"])
  also have "(\<exists>p. preferred ?cs (n, p)) \<longleftrightarrow> (\<exists>e. (n, Some e) \<in> set networks \<and> addr_Is4 (ep_Gateway e) \<and>
       (\<forall>m f. (m, Some f) \<in> set networks \<and> addr_Is4 (ep_Gateway f) \<longrightarrow>
          ep_GwPriority f < ep_GwPriority e \<or> ep_GwPriority f = ep_GwPriority e \<and> n \<le> m))"
    unfolding preferred_def Ball_def split_paired_All cand fst_conv snd_conv by blast
  also have "(\<forall>k \<in> fst ` set networks. gateway_ok networks k) \<longleftrightarrow>
      (\<forall>(m, x) \<in> set networks. \<exists>f. x = Some f \<and> addr_Is4 (ep_IPAddress f) \<and>
         (addr_IsValid (ep_Gateway f) \<longrightarrow> addr_Is4 (ep_Gateway f)))"
  proof -
    have "gateway_ok networks m \<longleftrightarrow> (\<exists>f. x = Some f \<and> addr_Is4 (ep_IPAddress f) \<and>
        (addr_IsValid (ep_Gateway f) \<longrightarrow> addr_Is4 (ep_Gateway f)))" if "(m, x) \<in> set networks" for m x
      using that mem [of m x] by (simp add: gateway_ok_def)
    then show ?thesis by (fastforce simp del: map_of_eq_Some_iff)
  qed
  finally show ?thesis .
qed

section \<open>A container on two networks\<close>

definition sample_endpoint :: "string \<Rightarrow> u32 \<Rightarrow> int \<Rightarrow> endpoint" where
  "sample_endpoint nid w p = \<lparr>ep_NetworkID = nid, ep_IPAddress = Addr4 w, ep_Gateway = Addr4 1,
     ep_GlobalIPv6Address = AddrZero, ep_GwPriority = p\<rparr>"

definition sample_networks :: networks where
  "sample_networks = [(''app_front'', Some (sample_endpoint ''n1'' 10 0)), (''back'', Some (sample_endpoint ''n2'' 20 1))]"

definition sample_labels :: labels where
  "sample_labels = [(managedNetworksLabel, ''front , back'')]"

lemma sample_networks_distinct: "distinct (map fst sample_networks)"
  by (simp add: sample_networks_def)

lemma sample_resolves: "resolveManagedNetworks sample_labels ''app'' sample_networks = (True, Inr sample_networks)"
  by code_simp

theorem resolveManagedNetworks_correct_witness:
  "resolveManagedNetworks sample_labels ''app'' sample_networks = (True, Inr sample_networks) \<and>
   (\<exists>nes. distinct (network_ids nes) \<and> sample_networks = present nes)"
  using sample_resolves resolveManagedNetworks_correct [OF sample_networks_distinct, of sample_labels "''app''" True sample_networks]
  by (auto simp: Let_def split: option.splits)

theorem validateScopedAddressUniqueness_correct_witness:
  "validateScopedAddressUniqueness [(''app_front'', Some (sample_endpoint ''n1'' 10 0))]
     [(''back'', Some (sample_endpoint ''n2'' 10 0))] \<noteq> None"
proof -
  have "address_clash (''app_front'', Some (sample_endpoint ''n1'' 10 0)) (''back'', Some (sample_endpoint ''n2'' 10 0))"
    by (simp add: address_clash_def ip4_of_def sample_endpoint_def networkEndpointIdentity_def)
  with validateScopedAddressUniqueness_correct [of "[(''app_front'', Some (sample_endpoint ''n1'' 10 0))]"
    "[(''back'', Some (sample_endpoint ''n2'' 10 0))]"]
  show ?thesis by simp
qed

theorem collectManagedIPv4Addresses_correct_witness:
  "map_of (fst (collectManagedIPv4Addresses sample_networks)) ''back'' = Some (be32 20) \<and>
   snd (collectManagedIPv4Addresses sample_networks) = None"
  using collectManagedIPv4Addresses_correct [OF sample_networks_distinct, of "''back''" "be32 20"]
  by (simp add: sample_networks_def sample_endpoint_def)

theorem resolveValidManagedNetworks_correct_witness:
  "resolveValidManagedNetworks sample_labels ''app'' sample_networks = (True, Inr sample_networks)"
proof -
  have "{y \<in> set sample_networks. fst y \<notin> fst ` set sample_networks} = {}" by auto
  moreover have "\<not> (\<exists>x \<in> set sample_networks. \<exists>y \<in> set sample_networks. address_clash x y)"
    by (simp add: sample_networks_def sample_endpoint_def address_clash_def ip4_of_def)
  moreover have "sample_networks \<noteq> []" "\<forall>(n, x) \<in> set sample_networks. \<exists>e. x = Some e \<and> addr_Is4 (ep_IPAddress e) \<and>
      \<not> addr_IsValid (ep_GlobalIPv6Address e)"
    by (simp_all add: sample_networks_def sample_endpoint_def)
  ultimately show ?thesis
    using resolveValidManagedNetworks_correct [OF sample_networks_distinct, of sample_labels "''app''" True sample_networks]
      sample_resolves by (simp only: Un_empty_right simp_thms)
qed

theorem dockerIPv4GatewayNetworkName_correct_witness:
  "dockerIPv4GatewayNetworkName sample_networks = Inr ''back''"
  using dockerIPv4GatewayNetworkName_correct [OF sample_networks_distinct, of "''back''"]
  by (auto simp: sample_networks_def sample_endpoint_def)

end
