(* ===== verification/Database.thy ===== *)
theory Database
  imports Steps
begin

text \<open>
  The metadata database (\<open>database/\<close>) and the writes of \<open>db.go\<close>. The tables are those of
  \<open>schema.sql\<close>, and each generated query is the meaning of its SQL text over them: an upsert, an
  insertion that ignores an existing row, a deletion, a selection or a join. Rows are listed in an order
  SQL leaves open; no theorem depends on it. A violated key is an error of the statement.

  The engine is third-party code. What it may do beyond the SQL text is a parameter of the state: whether
  foreign keys are enforced (\<open>sq_fk\<close>; the program asks for it in the data source name), and the
  faults with which it answers the coming calls (\<open>sq_faults\<close>: busy, an input/output error, a
  cancelled context). A failed statement or commit leaves the tables as they were.
\<close>

section \<open>Tables\<close>

type_synonym addr_key = "byte list"

record Container =
  co_ID :: string
  co_Name :: string

record GetEstContainersRow =
  er_DstContainerID :: string
  er_Name :: string

record GetWaitingContainerRulesRow =
  wr_SrcContainerID :: string
  wr_Name :: string
  wr_Rule :: "byte list"

record tables =
  t_containers :: "(string \<times> string) list"
  t_addrs :: "(addr_key \<times> string) list"
  t_aliases :: "(string \<times> string) list"
  t_est :: "(string \<times> string) list"
  t_waiting :: "(string \<times> string \<times> byte list) list"

definition empty_tables :: tables where
  "empty_tables = \<lparr>t_containers = [], t_addrs = [], t_aliases = [], t_est = [], t_waiting = []\<rparr>"

definition constraint :: error where "constraint = SqliteOther ''constraint failed''"

definition has_container :: "tables \<Rightarrow> string \<Rightarrow> bool" where
  "has_container T i \<longleftrightarrow> map_of (t_containers T) i \<noteq> None"

definition insert_row :: "'a \<Rightarrow> 'a list \<Rightarrow> 'a list" where
  "insert_row r rows = (if r \<in> set rows then rows else rows @ [r])"

section \<open>Statements\<close>

definition AddContainer :: "string \<Rightarrow> string \<Rightarrow> bool \<Rightarrow> tables \<Rightarrow> tables result" where
  "AddContainer iD name fk T =
     (if list_ex (\<lambda>(j, m). m = name \<and> j \<noteq> iD) (t_containers T) then Inl constraint
      else Inr (T\<lparr>t_containers := AList.update iD name (t_containers T)\<rparr>))"

definition AddContainerAddr :: "addr_key \<Rightarrow> string \<Rightarrow> bool \<Rightarrow> tables \<Rightarrow> tables result" where
  "AddContainerAddr addr containerID fk T =
     (if fk \<and> \<not> has_container T containerID then Inl constraint
      else Inr (T\<lparr>t_addrs := AList.update addr containerID (t_addrs T)\<rparr>))"

definition AddContainerAlias :: "string \<Rightarrow> string \<Rightarrow> bool \<Rightarrow> tables \<Rightarrow> tables result" where
  "AddContainerAlias containerID containerAlias fk T =
     (if fk \<and> \<not> has_container T containerID then Inl constraint
      else Inr (T\<lparr>t_aliases := insert_row (containerID, containerAlias) (t_aliases T)\<rparr>))"

definition AddEstContainer :: "string \<Rightarrow> string \<Rightarrow> bool \<Rightarrow> tables \<Rightarrow> tables result" where
  "AddEstContainer srcContainerID dstContainerID fk T =
     (if fk \<and> \<not> (has_container T srcContainerID \<and> has_container T dstContainerID) then Inl constraint
      else Inr (T\<lparr>t_est := insert_row (srcContainerID, dstContainerID) (t_est T)\<rparr>))"

definition AddWaitingContainerRule :: "string \<Rightarrow> string \<Rightarrow> byte list \<Rightarrow> bool \<Rightarrow> tables \<Rightarrow> tables result" where
  "AddWaitingContainerRule srcContainerID dstContainerName rule fk T =
     (if fk \<and> \<not> has_container T srcContainerID then Inl constraint
      else Inr (T\<lparr>t_waiting := insert_row (srcContainerID, dstContainerName, rule) (t_waiting T)\<rparr>))"

definition referenced :: "tables \<Rightarrow> string \<Rightarrow> bool" where
  "referenced T i \<longleftrightarrow> i \<in> snd ` set (t_addrs T) \<or> i \<in> fst ` set (t_aliases T) \<or>
     i \<in> fst ` set (t_est T) \<or> i \<in> snd ` set (t_est T) \<or> i \<in> fst ` set (t_waiting T)"

definition DeleteContainer :: "string \<Rightarrow> bool \<Rightarrow> tables \<Rightarrow> tables result" where
  "DeleteContainer iD fk T =
     (if fk \<and> has_container T iD \<and> referenced T iD then Inl constraint
      else Inr (T\<lparr>t_containers := filter (\<lambda>(j, m). j \<noteq> iD) (t_containers T)\<rparr>))"

definition DeleteContainerAddrs :: "string \<Rightarrow> bool \<Rightarrow> tables \<Rightarrow> tables result" where
  "DeleteContainerAddrs containerID fk T =
     Inr (T\<lparr>t_addrs := filter (\<lambda>(a, j). j \<noteq> containerID) (t_addrs T)\<rparr>)"

definition DeleteContainerAliases :: "string \<Rightarrow> bool \<Rightarrow> tables \<Rightarrow> tables result" where
  "DeleteContainerAliases containerID fk T =
     Inr (T\<lparr>t_aliases := filter (\<lambda>(j, a). j \<noteq> containerID) (t_aliases T)\<rparr>)"

definition DeleteEstContainers :: "string \<Rightarrow> string \<Rightarrow> bool \<Rightarrow> tables \<Rightarrow> tables result" where
  "DeleteEstContainers srcContainerID dstContainerID fk T =
     Inr (T\<lparr>t_est := filter (\<lambda>(s, d). \<not> (s = srcContainerID \<or> d = dstContainerID)) (t_est T)\<rparr>)"

definition DeleteSourceEstContainers :: "string \<Rightarrow> bool \<Rightarrow> tables \<Rightarrow> tables result" where
  "DeleteSourceEstContainers srcContainerID fk T =
     Inr (T\<lparr>t_est := filter (\<lambda>(s, d). s \<noteq> srcContainerID) (t_est T)\<rparr>)"

definition DeleteWaitingContainerRules :: "string \<Rightarrow> bool \<Rightarrow> tables \<Rightarrow> tables result" where
  "DeleteWaitingContainerRules srcContainerID fk T =
     Inr (T\<lparr>t_waiting := filter (\<lambda>(s, r). s \<noteq> srcContainerID) (t_waiting T)\<rparr>)"

section \<open>Queries\<close>

text \<open>A query for one row takes the first the engine finds; without a row it is \<open>sql.ErrNoRows\<close>.\<close>

definition one_row :: "'a list \<Rightarrow> 'a result" where
  "one_row rows = (case rows of [] \<Rightarrow> Inl ErrNoRows | r # _ \<Rightarrow> Inr r)"

definition ContainerExists :: "string \<Rightarrow> tables \<Rightarrow> bool result" where
  "ContainerExists iD T = Inr (list_ex (\<lambda>(j, m). j = iD) (t_containers T))"

definition GetContainerAddrs :: "string \<Rightarrow> tables \<Rightarrow> addr_key list result" where
  "GetContainerAddrs containerID T = Inr (map fst (filter (\<lambda>(a, j). j = containerID) (t_addrs T)))"

definition GetContainerID :: "string \<Rightarrow> tables \<Rightarrow> string result" where
  "GetContainerID name T = one_row (map fst (filter (\<lambda>(j, m). m = name) (t_containers T)))"

definition GetContainerName :: "string \<Rightarrow> tables \<Rightarrow> string result" where
  "GetContainerName iD T = one_row (map snd (filter (\<lambda>(j, m). j = iD) (t_containers T)))"

definition GetContainerIDAndNameFromAlias :: "string \<Rightarrow> tables \<Rightarrow> Container result" where
  "GetContainerIDAndNameFromAlias containerAlias T =
     one_row (concat (map (\<lambda>(i, n). map (\<lambda>_. \<lparr>co_ID = i, co_Name = n\<rparr>)
       (filter (\<lambda>(j, a). j = i \<and> a = containerAlias) (t_aliases T))) (t_containers T)))"

definition GetContainers :: "tables \<Rightarrow> Container list result" where
  "GetContainers T = Inr (map (\<lambda>(i, n). \<lparr>co_ID = i, co_Name = n\<rparr>) (t_containers T))"

definition GetEstContainers :: "string \<Rightarrow> tables \<Rightarrow> GetEstContainersRow list result" where
  "GetEstContainers srcContainerID T =
     Inr (concat (map (\<lambda>(s, d). map (\<lambda>(i, n). \<lparr>er_DstContainerID = d, er_Name = n\<rparr>)
       (filter (\<lambda>(i, n). i = d) (t_containers T))) (filter (\<lambda>(s, d). s = srcContainerID) (t_est T))))"

definition GetWaitingContainerRules :: "string \<Rightarrow> tables \<Rightarrow> GetWaitingContainerRulesRow list result" where
  "GetWaitingContainerRules dstContainerName T =
     Inr (concat (map (\<lambda>(s, d, r). map (\<lambda>(i, n). \<lparr>wr_SrcContainerID = s, wr_Name = n, wr_Rule = r\<rparr>)
       (filter (\<lambda>(i, n). i = s) (t_containers T))) (filter (\<lambda>(s, d, r). d = dstContainerName) (t_waiting T))))"

section \<open>Retrying\<close>

definition retries :: nat where "retries = 100"

text \<open>\<open>errors.As\<close> with an SQLite error: the first one in the chain.\<close>

fun as_sqlite :: "error \<Rightarrow> error option" where
  "as_sqlite SqliteBusy = Some SqliteBusy"
| "as_sqlite (SqliteOther m) = Some (SqliteOther m)"
| "as_sqlite (Wrap m e) = as_sqlite e"
| "as_sqlite (Joined es) =
     (case concat (map (\<lambda>e. case as_sqlite e of None \<Rightarrow> [] | Some x \<Rightarrow> [x]) es) of [] \<Rightarrow> None | x # _ \<Rightarrow> Some x)"
| "as_sqlite _ = None"

definition is_busy :: "error \<Rightarrow> bool" where
  "is_busy e \<longleftrightarrow> as_sqlite e = Some SqliteBusy"

fun retry_loop :: "nat \<Rightarrow> ('s \<Rightarrow> 's \<times> 'a \<times> error option) \<Rightarrow> 'a \<times> error option \<Rightarrow> 's \<Rightarrow> 's \<times> 'a \<times> error option" where
  "retry_loop 0 f r s = (s, r)"
| "retry_loop (Suc n) f r s =
     (case f s of
        (s, ret, None) \<Rightarrow> (s, ret, None)
      | (s, ret, Some e) \<Rightarrow> if is_busy e then retry_loop n f (ret, Some e) s else (s, ret, Some e))"

definition retryIfBusy :: "'a \<Rightarrow> ('s \<Rightarrow> 's \<times> 'a \<times> error option) \<Rightarrow> 's \<Rightarrow> 's \<times> 'a \<times> error option" where
  "retryIfBusy zero f s = retry_loop retries f (zero, None) s"

section \<open>Transactions\<close>

record sqlite =
  sq_tables :: tables
  sq_fk :: bool
  sq_faults :: "error option list"

text \<open>A transaction: the engine, the tables it sees, whether it is over, and the error of its context.\<close>

record sql_tx =
  tx_engine :: sqlite
  tx_tables :: tables
  tx_done :: bool
  tx_ctxErr :: "error option"

definition next_fault :: "sqlite \<Rightarrow> sqlite \<times> error option" where
  "next_fault E = (case sq_faults E of [] \<Rightarrow> (E, None) | f # fs \<Rightarrow> (E\<lparr>sq_faults := fs\<rparr>, f))"

definition BeginTx :: "error option \<Rightarrow> sqlite \<Rightarrow> sqlite \<times> sql_tx option \<times> error option" where
  "BeginTx ctxErr E =
     (case next_fault E of
        (E, Some e) \<Rightarrow> (E, None, Some e)
      | (E, None) \<Rightarrow> (E, Some \<lparr>tx_engine = E, tx_tables = sq_tables E, tx_done = False, tx_ctxErr = ctxErr\<rparr>, None))"

definition dbRetrier_BeginTx :: "error option \<Rightarrow> sqlite \<Rightarrow> sqlite \<times> sql_tx option \<times> error option" where
  "dbRetrier_BeginTx ctxErr = retryIfBusy None (BeginTx ctxErr)"

definition db_Begin :: "error option \<Rightarrow> sqlite \<Rightarrow> sqlite \<times> sql_tx result" where
  "db_Begin ctxErr E =
     (case dbRetrier_BeginTx ctxErr E of
        (E, _, Some e) \<Rightarrow> (E, Inl (Wrap ''error beginning database transaction'' e))
      | (E, Some t, None) \<Rightarrow> (E, Inr t)
      | (E, None, None) \<Rightarrow> (E, Inl (GoPanic ''nil pointer dereference'')))"

definition tx_exec :: "(bool \<Rightarrow> tables \<Rightarrow> tables result) \<Rightarrow> sql_tx \<Rightarrow> sql_tx \<times> error option" where
  "tx_exec f t =
     (if tx_done t then (t, Some ErrTxDone)
      else (case next_fault (tx_engine t) of
          (E, Some e) \<Rightarrow> (t\<lparr>tx_engine := E\<rparr>, Some e)
        | (E, None) \<Rightarrow>
            (case f (sq_fk E) (tx_tables t) of
               Inl e \<Rightarrow> (t\<lparr>tx_engine := E\<rparr>, Some e)
             | Inr T \<Rightarrow> (t\<lparr>tx_engine := E, tx_tables := T\<rparr>, None))))"

definition tx_query :: "(tables \<Rightarrow> 'a result) \<Rightarrow> sql_tx \<Rightarrow> sql_tx \<times> 'a result" where
  "tx_query f t =
     (if tx_done t then (t, Inl ErrTxDone)
      else (case next_fault (tx_engine t) of
          (E, Some e) \<Rightarrow> (t\<lparr>tx_engine := E\<rparr>, Inl e)
        | (E, None) \<Rightarrow> (t\<lparr>tx_engine := E\<rparr>, f (tx_tables t))))"

definition db_query :: "(tables \<Rightarrow> 'a result) \<Rightarrow> sqlite \<Rightarrow> sqlite \<times> 'a result" where
  "db_query f E = (case next_fault E of (E, Some e) \<Rightarrow> (E, Inl e) | (E, None) \<Rightarrow> (E, f (sq_tables E)))"

definition tx_Rollback :: "sql_tx \<Rightarrow> sql_tx \<times> bool" where
  "tx_Rollback t =
     (if tx_done t then (t, False)
      else (case next_fault (tx_engine t) of
          (E, Some e) \<Rightarrow> (t\<lparr>tx_engine := E, tx_done := True\<rparr>, False)
        | (E, None) \<Rightarrow> (t\<lparr>tx_engine := E, tx_done := True\<rparr>, True)))"

definition sql_commit :: "sql_tx \<Rightarrow> sql_tx \<times> error option" where
  "sql_commit t =
     (if tx_done t then (t, Some ErrTxDone)
      else (case next_fault (tx_engine t) of
          (E, Some e) \<Rightarrow> (t\<lparr>tx_engine := E, tx_done := True\<rparr>, Some e)
        | (E, None) \<Rightarrow> (t\<lparr>tx_engine := E\<lparr>sq_tables := tx_tables t\<rparr>, tx_done := True\<rparr>, None)))"

definition tx_Commit :: "sql_tx \<Rightarrow> sql_tx \<times> error option" where
  "tx_Commit t =
     (case sql_commit t of
        (t, Some e) \<Rightarrow>
          (let err = (if errors_is e ErrTxDone \<and> tx_ctxErr t \<noteq> None then the (tx_ctxErr t) else e)
           in (t, Some (Wrap ''error committing database transaction'' err)))
      | (t, None) \<Rightarrow> (t, None))"

section \<open>Writing a container's metadata\<close>

definition containerAliases :: "string \<Rightarrow> string \<Rightarrow> string list" where
  "containerAliases name service =
     [''/'' @ name] @ (if service \<noteq> [] \<and> service \<noteq> name then [service, ''/'' @ service] else [])"

definition replaceContainerMetadata ::
    "string \<Rightarrow> string \<Rightarrow> string \<Rightarrow> (string \<times> addr_key) list \<Rightarrow> sql_tx \<Rightarrow> sql_tx \<times> error option" where
  "replaceContainerMetadata cid name service addrs = st_seq
     [wrap_step ''error adding container'' (tx_exec (AddContainer cid name)),
      wrap_step ''error clearing stale container addrs'' (tx_exec (DeleteContainerAddrs cid)),
      st_each (\<lambda>addr. wrap_step ''error adding container addr to database'' (tx_exec (AddContainerAddr addr cid)))
        (map snd addrs),
      wrap_step ''error clearing stale container aliases'' (tx_exec (DeleteContainerAliases cid)),
      st_each (\<lambda>alias. wrap_step ''error adding container alias to database'' (tx_exec (AddContainerAlias cid alias)))
        (containerAliases name service)]"

definition resetContainerPolicy :: "string \<Rightarrow> sql_tx \<Rightarrow> sql_tx \<times> error option" where
  "resetContainerPolicy cid = st_seq
     [wrap_step ''error deleting stale waiting container rules'' (tx_exec (DeleteWaitingContainerRules cid)),
      wrap_step ''error deleting stale established-container relationships'' (tx_exec (DeleteSourceEstContainers cid))]"

text \<open>A transaction over a step, with the deferred rollback.\<close>

definition in_transaction :: "error option \<Rightarrow> (sql_tx \<Rightarrow> sql_tx \<times> error option) \<Rightarrow> sqlite \<Rightarrow> sqlite \<times> error option" where
  "in_transaction ctxErr body E =
     (case db_Begin ctxErr E of
        (E, Inl e) \<Rightarrow> (E, Some e)
      | (E, Inr t) \<Rightarrow> (case body t of (t, e) \<Rightarrow> (tx_engine (fst (tx_Rollback t)), e)))"

definition clearContainerPolicyMetadata :: "error option \<Rightarrow> string \<Rightarrow> sqlite \<Rightarrow> sqlite \<times> error option" where
  "clearContainerPolicyMetadata ctxErr cid =
     in_transaction ctxErr (st_seq [resetContainerPolicy cid, tx_Commit])"

definition finalizeContainerPolicy :: "string \<Rightarrow> string list \<Rightarrow> sql_tx \<Rightarrow> sql_tx \<times> error option" where
  "finalizeContainerPolicy cid estContainers = st_seq
     [st_each (\<lambda>est. wrap_step ''error adding established container to database'' (tx_exec (AddEstContainer cid est)))
        estContainers,
      tx_Commit]"

definition deleteContainer :: "string \<Rightarrow> sql_tx \<Rightarrow> sql_tx \<times> error option" where
  "deleteContainer cid = st_seq
     [wrap_step ''error deleting container addrs in database'' (tx_exec (DeleteContainerAddrs cid)),
      wrap_step ''error deleting container aliases in database'' (tx_exec (DeleteContainerAliases cid)),
      wrap_step ''error deleting established container in database'' (tx_exec (DeleteEstContainers cid cid)),
      wrap_step ''error deleting waiting container rules in database'' (tx_exec (DeleteWaitingContainerRules cid)),
      wrap_step ''error deleting container in database'' (tx_exec (DeleteContainer cid)),
      tx_Commit]"

text \<open>\<open>containerExists\<close> asks whatever can answer queries, the database or a transaction.\<close>

definition containerExists :: "((tables \<Rightarrow> bool result) \<Rightarrow> 's \<Rightarrow> 's \<times> bool result) \<Rightarrow> string \<Rightarrow> 's \<Rightarrow> 's \<times> bool result" where
  "containerExists query cid db =
     (case query (ContainerExists cid) db of (db, Inl e) \<Rightarrow> (db, Inl e) | (db, Inr exists) \<Rightarrow> (db, Inr exists))"

end
