(* ===== verification/Prepared_Queries.thy ===== *)
theory Prepared_Queries
  imports Database
begin

text \<open>
  The generated handle over the prepared statements (\<open>database/db.go\<close>) and its set-up in
  \<open>database/db_wrappers.go\<close>. \<open>query\<close> has one constructor for each query text, and the nineteen
  statement fields of \<open>Queries\<close> are a function from it. \<open>database/sql\<close> is the parameter
  \<open>sql_api\<close>: how it runs a statement, a statement in a transaction, and a query text on a handle.
\<close>

datatype query =
    QAddContainer
  | QAddContainerAddr
  | QAddContainerAlias
  | QAddEstContainer
  | QAddWaitingContainerRule
  | QContainerExists
  | QDeleteContainer
  | QDeleteContainerAddrs
  | QDeleteContainerAliases
  | QDeleteEstContainers
  | QDeleteSourceEstContainers
  | QDeleteWaitingContainerRules
  | QGetContainerAddrs
  | QGetContainerID
  | QGetContainerIDAndNameFromAlias
  | QGetContainerName
  | QGetContainers
  | QGetEstContainers
  | QGetWaitingContainerRules

definition all_queries :: "query list" where
  "all_queries =
     [QAddContainer,
      QAddContainerAddr,
      QAddContainerAlias,
      QAddEstContainer,
      QAddWaitingContainerRule,
      QContainerExists,
      QDeleteContainer,
      QDeleteContainerAddrs,
      QDeleteContainerAliases,
      QDeleteEstContainers,
      QDeleteSourceEstContainers,
      QDeleteWaitingContainerRules,
      QGetContainerAddrs,
      QGetContainerID,
      QGetContainerIDAndNameFromAlias,
      QGetContainerName,
      QGetContainers,
      QGetEstContainers,
      QGetWaitingContainerRules]"

text \<open>The implementations of \<open>DBTX\<close>: a plain handle, \<open>dbRetrier\<close> around it, a transaction.\<close>

datatype ('raw, 'tx) DBTX = RawDB 'raw | Retrying 'raw | InTx 'tx

record ('raw, 'tx, 'stmt) Queries =
  q_db :: "('raw, 'tx) DBTX"
  q_tx :: "'tx option"
  q_stmts :: "query \<Rightarrow> 'stmt option"

record ('s, 'raw, 'tx, 'stmt, 'r) sql_api =
  raw_run :: "'raw \<Rightarrow> query \<Rightarrow> 's \<Rightarrow> 's \<times> 'r \<times> error option"
  tx_run :: "'tx \<Rightarrow> query \<Rightarrow> 's \<Rightarrow> 's \<times> 'r \<times> error option"
  stmt_run :: "'stmt \<Rightarrow> 's \<Rightarrow> 's \<times> 'r \<times> error option"
  tx_stmt_run :: "'tx \<Rightarrow> 'stmt \<Rightarrow> 's \<Rightarrow> 's \<times> 'r \<times> error option"

section \<open>The handle\<close>

definition New :: "('raw, 'tx) DBTX \<Rightarrow> ('raw, 'tx, 'stmt) Queries" where
  "New db = \<lparr>q_db = db, q_tx = None, q_stmts = (\<lambda>_. None)\<rparr>"

fun prepare_all ::
    "(query \<Rightarrow> 'stmt result) \<Rightarrow> query list \<Rightarrow> ('raw, 'tx, 'stmt) Queries \<Rightarrow> ('raw, 'tx, 'stmt) Queries result" where
  "prepare_all prep [] q = Inr q"
| "prepare_all prep (x # xs) q =
     (case prep x of
        Inl e \<Rightarrow> Inl (Wrap ''error preparing query'' e)
      | Inr stmt \<Rightarrow> prepare_all prep xs (q\<lparr>q_stmts := (q_stmts q)(x := Some stmt)\<rparr>))"

definition Prepare :: "(query \<Rightarrow> 'stmt result) \<Rightarrow> ('raw, 'tx) DBTX \<Rightarrow> ('raw, 'tx, 'stmt) Queries result" where
  "Prepare prep db = prepare_all prep all_queries (New db)"

text \<open>Every statement is closed; the last error is the one returned.\<close>

definition Queries_Close :: "('stmt \<Rightarrow> error option) \<Rightarrow> ('raw, 'tx, 'stmt) Queries \<Rightarrow> error option" where
  "Queries_Close close q =
     fold (\<lambda>x err. case q_stmts q x of
         None \<Rightarrow> err
       | Some stmt \<Rightarrow> (case close stmt of Some cerr \<Rightarrow> Some (Wrap ''error closing statement'' cerr) | None \<Rightarrow> err))
       all_queries None"

definition WithTx :: "('raw, 'tx, 'stmt) Queries \<Rightarrow> 'tx \<Rightarrow> ('raw, 'tx, 'stmt) Queries" where
  "WithTx q tx = \<lparr>q_db = InTx tx, q_tx = Some tx, q_stmts = q_stmts q\<rparr>"

text \<open>\<open>ExecContext\<close>, \<open>QueryContext\<close> and \<open>QueryRowContext\<close> of the three
  implementations; they differ only in the type of the result.\<close>

definition dbtx_run :: "'r \<Rightarrow> ('s, 'raw, 'tx, 'stmt, 'r) sql_api \<Rightarrow> ('raw, 'tx) DBTX \<Rightarrow> query \<Rightarrow> 's \<Rightarrow> 's \<times> 'r \<times> error option" where
  "dbtx_run zero A db x =
     (case db of RawDB d \<Rightarrow> raw_run A d x | Retrying d \<Rightarrow> retryIfBusy zero (raw_run A d x) | InTx t \<Rightarrow> tx_run A t x)"

text \<open>\<open>exec\<close>, \<open>query\<close> and \<open>queryRow\<close>, likewise.\<close>

definition Queries_run :: "'r \<Rightarrow> ('s, 'raw, 'tx, 'stmt, 'r) sql_api \<Rightarrow> ('raw, 'tx, 'stmt) Queries \<Rightarrow> query \<Rightarrow>
    's \<Rightarrow> 's \<times> 'r \<times> error option" where
  "Queries_run zero A q x =
     (case (q_stmts q x, q_tx q) of
        (Some stmt, Some tx) \<Rightarrow> tx_stmt_run A tx stmt
      | (Some stmt, None) \<Rightarrow> stmt_run A stmt
      | (None, _) \<Rightarrow> dbtx_run zero A (q_db q) x)"

definition NewDB :: "(query \<Rightarrow> 'stmt result) \<Rightarrow> error option \<Rightarrow> 'raw \<Rightarrow> ('raw, 'tx, 'stmt) Queries result" where
  "NewDB prep closed database =
     (case Prepare prep (RawDB database) of
        Inl err \<Rightarrow> (case errors_join [Some err, closed] of Some e \<Rightarrow> Inl e | None \<Rightarrow> Inl err)
      | Inr queries \<Rightarrow> Inr (queries\<lparr>q_db := Retrying database\<rparr>))"

definition db_Close :: "('stmt \<Rightarrow> error option) \<Rightarrow> error option \<Rightarrow> ('raw, 'tx, 'stmt) Queries \<Rightarrow> error option" where
  "db_Close close closed q = errors_join [Queries_Close close q, closed]"

section \<open>Properties\<close>

lemma all_queries_complete: "x \<in> set all_queries"
  by (cases x) (simp_all add: all_queries_def)

lemma prepare_all_Inr:
  "prepare_all prep xs q = Inr q' \<longleftrightarrow> (\<forall>x \<in> set xs. \<exists>stmt. prep x = Inr stmt) \<and>
     q' = q\<lparr>q_stmts := (\<lambda>x. if x \<in> set xs then (case prep x of Inr stmt \<Rightarrow> Some stmt | Inl _ \<Rightarrow> None) else q_stmts q x)\<rparr>"
proof (induction xs arbitrary: q)
  case (Cons x xs)
  show ?case
  proof (cases "prep x")
    case (Inr stmt)
    let ?q = "q\<lparr>q_stmts := (q_stmts q)(x := Some stmt)\<rparr>"
    let ?f = "\<lambda>ys q y. if y \<in> set ys then (case prep y of Inr stmt \<Rightarrow> Some stmt | Inl _ \<Rightarrow> None) else q_stmts q y"
    have "?f xs ?q = ?f (x # xs) q" using Inr by (auto simp: fun_eq_iff)
    then have eq: "?q\<lparr>q_stmts := ?f xs ?q\<rparr> = q\<lparr>q_stmts := ?f (x # xs) q\<rparr>" by simp
    have "prepare_all prep (x # xs) q = Inr q' \<longleftrightarrow> (\<forall>x \<in> set xs. \<exists>stmt. prep x = Inr stmt) \<and> q' = ?q\<lparr>q_stmts := ?f xs ?q\<rparr>"
      using Inr Cons.IH [of ?q] by (simp only: prepare_all.simps sum.case)
    then show ?thesis unfolding eq using Inr by auto
  qed simp
qed auto

text \<open>C26: The database handle opens exactly if all nineteen queries can be prepared. Then every query runs
  its own prepared statement, once: directly outside a transaction, and through the transaction within one.
  The retrying wrapper that \<open>NewDB\<close> puts into the handle never sees a query.\<close>

theorem NewDB_runs_prepared:
  "(\<exists>q :: ('raw, 'tx, 'stmt) Queries. NewDB prep closed database = Inr q) = (\<forall>x. \<exists>stmt. prep x = Inr stmt) \<and>
   (\<forall>(q :: ('raw, 'tx, 'stmt) Queries) x stmt. NewDB prep closed database = Inr q \<longrightarrow> prep x = Inr stmt \<longrightarrow>
      Queries_run zero A q x = stmt_run A stmt \<and> Queries_run zero A (WithTx q tx) x = tx_stmt_run A tx stmt)"
proof -
  let ?stmts = "\<lambda>x. case prep x of Inr stmt \<Rightarrow> Some stmt | Inl _ \<Rightarrow> None"
  have prepared: "Prepare prep (RawDB database) = Inr q \<longleftrightarrow>
      (\<forall>x. \<exists>stmt. prep x = Inr stmt) \<and> q = \<lparr>q_db = RawDB database, q_tx = None, q_stmts = ?stmts\<rparr>"
    for q :: "('raw, 'tx, 'stmt) Queries"
    using prepare_all_Inr [of prep all_queries "New (RawDB database)" q]
    by (simp add: Prepare_def New_def all_queries_complete Ball_def)
  have "NewDB prep closed database = Inr q \<longleftrightarrow>
      (\<exists>q0. Prepare prep (RawDB database) = Inr q0 \<and> q = q0\<lparr>q_db := Retrying database\<rparr>)"
    for q :: "('raw, 'tx, 'stmt) Queries"
    by (auto simp: NewDB_def split: sum.splits option.splits)
  then have "NewDB prep closed database = Inr q \<longleftrightarrow> (\<forall>x. \<exists>stmt. prep x = Inr stmt) \<and>
      q = \<lparr>q_db = Retrying database, q_tx = None, q_stmts = ?stmts\<rparr>"
    for q :: "('raw, 'tx, 'stmt) Queries"
    unfolding prepared by auto
  then show ?thesis by (auto simp: Queries_run_def WithTx_def)
qed

theorem NewDB_runs_prepared_witness:
  "\<exists>q :: (nat, nat, query) Queries. NewDB (\<lambda>x. Inr x) None 0 = Inr q \<and>
     (\<forall>A :: (nat, nat, nat, query, nat) sql_api. Queries_run 0 A q QGetContainers = stmt_run A QGetContainers)"
  using NewDB_runs_prepared [of "\<lambda>x. Inr x" None 0] by (metis (no_types, lifting))

end
