(* ===== verification/Deletion.thy ===== *)
theory Deletion
  imports Policy Database
begin

text \<open>
  Removing what the program has installed (\<open>delete.go\<close>): the rules of one container
  (\<open>deleteContainerRules\<close>), those of containers that are gone (\<open>cleanupRules\<close>), the
  worker that serves deletion requests (\<open>deleteRules\<close>), and everything (\<open>clearRules\<close>). Each
  works on the kernel, over a firewall client, and then on the database; the state is the pair of the two.
  Docker is the parameter \<open>inspect\<close>, which says of a container whether it runs or why it cannot be
  inspected; \<open>start\<close> is the answer of the container tracker, and \<open>N\<close> and \<open>M\<close> are the
  netlink library and the marshaller of rules.
\<close>

section \<open>A container's rules\<close>

definition deleteRulesFromContainer :: "'c firewallClient \<Rightarrow> nft_rule list \<Rightarrow> string \<Rightarrow> 'c \<Rightarrow> 'c \<times> error option" where
  "deleteRulesFromContainer F rules cid =
     st_join (fc_DelRule F) (filter (\<lambda>rule. \<not> cid \<noteq> ru_UserData rule) rules)"

text \<open>The scan of the chains: the container's own chain and its rules are noted, its rules elsewhere
  deleted; errors are collected.\<close>

type_synonym own_chain_rules = "(nft_chain \<times> nft_rule list) option"

fun scan_chains :: "'c firewallClient \<Rightarrow> string \<Rightarrow> string \<Rightarrow> nft_chain list \<Rightarrow> own_chain_rules \<Rightarrow> error list \<Rightarrow>
    'c \<Rightarrow> 'c \<times> (own_chain_rules \<times> error list) result" where
  "scan_chains F chainName cid [] own errs c = (c, Inr (own, errs))"
| "scan_chains F chainName cid (candidate # chs) own errs c =
     (case ch_Table candidate of
        None \<Rightarrow> (c, Inl (GoPanic ''nil pointer dereference''))
      | Some t \<Rightarrow>
          if t_Name t \<noteq> filterTableName then scan_chains F chainName cid chs own errs c
          else if ch_Name candidate = chainName then
            (case validateRegularOwnedChain candidate of
               Some e \<Rightarrow> scan_chains F chainName cid chs own (errs @ [Wrap ''unsafe container-chain name collision'' e]) c
             | None \<Rightarrow>
                 (case fc_GetRules F filterTable candidate c of
                    Inl e \<Rightarrow> scan_chains F chainName cid chs (Some (candidate, []))
                      (errs @ [Wrap ''get rules of own chain'' e]) c
                  | Inr rules \<Rightarrow> scan_chains F chainName cid chs (Some (candidate, rules)) errs c))
          else if \<not> owned_name (ch_Name candidate) then scan_chains F chainName cid chs own errs c
          else
            (case validateRegularOwnedChain candidate of
               Some e \<Rightarrow> scan_chains F chainName cid chs own (errs @ [Wrap ''unsafe Whalewall chain'' e]) c
             | None \<Rightarrow>
                 (case fc_GetRules F filterTable candidate c of
                    Inl e \<Rightarrow> scan_chains F chainName cid chs own
                      (errs @ (if errors_is e (Errno ENOENT) then [] else [Wrap ''get rules of chain'' e])) c
                  | Inr rules \<Rightarrow>
                      (case deleteRulesFromContainer F rules cid c of
                         (c, None) \<Rightarrow> scan_chains F chainName cid chs own errs c
                       | (c, Some e) \<Rightarrow> scan_chains F chainName cid chs own
                           (errs @ [Wrap ''delete rules from chain'' e]) c))))"

text \<open>The keys of the addresses that lead to a chain.\<close>

fun mappings_to :: "netlink_lib \<Rightarrow> string \<Rightarrow> set_element list \<Rightarrow> set_element list result" where
  "mappings_to N chainName [] = Inr []"
| "mappings_to N chainName (element # els) =
     (case containerMappingVerdict N element of
        Inl e \<Rightarrow> Inl (Wrap ''invalid container address mapping'' e)
      | Inr v \<Rightarrow>
          (case mappings_to N chainName els of
             Inl e \<Rightarrow> Inl e
           | Inr ms \<Rightarrow> Inr (if vd_Chain v = chainName then key_element (el_Key element) # ms else ms)))"

definition delete_own :: "'c firewallClient \<Rightarrow> own_chain_rules \<Rightarrow> 'c \<Rightarrow> 'c \<times> error option" where
  "delete_own F own =
     (case own of
        None \<Rightarrow> (\<lambda>c. (c, None))
      | Some (ownChain, ownRules) \<Rightarrow> st_seq
          [wrap_step ''error deleting rule from own chain'' (delete_rules F ownRules),
           (\<lambda>c. (fc_DelChain F ownChain c, None))])"

text \<open>The firewall part, up to its flush.\<close>

definition deleteContainerFirewall ::
    "'c firewallClient \<Rightarrow> netlink_lib \<Rightarrow> string \<Rightarrow> string \<Rightarrow> 'c \<Rightarrow> 'c \<times> error option" where
  "deleteContainerFirewall F N cid name c =
     (case fc_New F c of
        (c, Some e) \<Rightarrow> (c, Some (Wrap ''error creating netlink connection'' e))
      | (c, None) \<Rightarrow>
     (case fc_ListChainsOfTableFamily F TableFamilyIPv4 c of
        Inl e \<Rightarrow> (c, Some (Wrap ''error listing IPv4 chains'' e))
      | Inr chs \<Rightarrow>
     (let chainName = buildChainName name cid in
      case scan_chains F chainName cid chs None [] c of
        (c, Inl e) \<Rightarrow> (c, Some e)
      | (c, Inr (own, cleanupErrs)) \<Rightarrow>
     (case errors_join (map Some cleanupErrs) of
        Some e \<Rightarrow> (c, Some (Wrap ''error preparing firewall cleanup'' e))
      | None \<Rightarrow>
     (case fc_GetSetElements F containerAddressSet c of
        Inl e \<Rightarrow> (c, Some (Wrap ''error listing container address mappings'' e))
      | Inr currentMappings \<Rightarrow>
     (case mappings_to N chainName currentMappings of
        Inl e \<Rightarrow> (c, Some e)
      | Inr addressElements \<Rightarrow> st_seq
          [unless_empty addressElements (wrap_step ''error marshaling container address mapping deletion''
             (fc_SetDeleteElements F containerAddressSet addressElements)),
           delete_own F own,
           flush_wrap ''incomplete firewall cleanup'' F] c))))))"

definition deleteContainerRulesUntracked ::
    "'c firewallClient \<Rightarrow> netlink_lib \<Rightarrow> error option \<Rightarrow> string \<Rightarrow> string \<Rightarrow> 'c \<times> sqlite \<Rightarrow> ('c \<times> sqlite) \<times> error option" where
  "deleteContainerRulesUntracked F N ctxErr cid name w =
     (case w of (c, E) \<Rightarrow>
        (case deleteContainerFirewall F N cid name c of
           (c, Some e) \<Rightarrow> ((c, E), Some e)
         | (c, None) \<Rightarrow>
             (case in_transaction ctxErr
                 (wrap_step ''error deleting container from database'' (deleteContainer cid)) E of
                (E, e) \<Rightarrow> ((c, E), e))))"

definition deleteContainerRules ::
    "'c firewallClient \<Rightarrow> netlink_lib \<Rightarrow> error option \<Rightarrow> (string \<Rightarrow> bool) \<Rightarrow> string \<Rightarrow> string \<Rightarrow>
     'c \<times> sqlite \<Rightarrow> ('c \<times> sqlite) \<times> error option" where
  "deleteContainerRules F N ctxErr start cid name w =
     (if \<not> start cid then (w, None) else deleteContainerRulesUntracked F N ctxErr cid name w)"

section \<open>Containers that are gone\<close>

definition cleanup_container ::
    "'c firewallClient \<Rightarrow> netlink_lib \<Rightarrow> error option \<Rightarrow> (string \<Rightarrow> bool) \<Rightarrow> (string \<Rightarrow> bool result) \<Rightarrow> (error \<Rightarrow> bool) \<Rightarrow>
     Container \<Rightarrow> 'c \<times> sqlite \<Rightarrow> ('c \<times> sqlite) \<times> error option" where
  "cleanup_container F N ctxErr start inspect IsNotFound ct w =
     (case inspect (co_ID ct) of
        Inl err \<Rightarrow>
          if IsNotFound err then
            wrap_step ''clean removed container'' (deleteContainerRules F N ctxErr start (co_ID ct) (stripName (co_Name ct))) w
          else (w, Some (Wrap ''inspect container'' err))
      | Inr running \<Rightarrow>
          if \<not> running then
            wrap_step ''clean stopped container'' (deleteContainerRules F N ctxErr start (co_ID ct) (stripName (co_Name ct))) w
          else (w, None))"

definition cleanupRules ::
    "'c firewallClient \<Rightarrow> netlink_lib \<Rightarrow> error option \<Rightarrow> (string \<Rightarrow> bool) \<Rightarrow> (string \<Rightarrow> bool result) \<Rightarrow> (error \<Rightarrow> bool) \<Rightarrow>
     'c \<times> sqlite \<Rightarrow> ('c \<times> sqlite) \<times> error option" where
  "cleanupRules F N ctxErr start inspect IsNotFound w =
     (case w of (c, E) \<Rightarrow>
        (case db_query GetContainers E of
           (E, Inl e) \<Rightarrow> ((c, E), Some (Wrap ''error getting containers from database'' e))
         | (E, Inr containers) \<Rightarrow>
             st_join (cleanup_container F N ctxErr start inspect IsNotFound) containers (c, E)))"

section \<open>Requests\<close>

text \<open>A request, with the channel its sender waits on, if it does; the replies are listed in order.\<close>

record deleteDetails =
  dd_id :: string
  dd_name :: string
  dd_result :: "nat option"

definition sendDeleteResult :: "deleteDetails \<Rightarrow> error option \<Rightarrow> (nat \<times> error option) list" where
  "sendDeleteResult details err = (case dd_result details of None \<Rightarrow> [] | Some ch \<Rightarrow> [(ch, err)])"

definition delete_request ::
    "'c firewallClient \<Rightarrow> netlink_lib \<Rightarrow> error option \<Rightarrow> (string \<Rightarrow> bool) \<Rightarrow> deleteDetails \<Rightarrow>
     'c \<times> sqlite \<Rightarrow> ('c \<times> sqlite) \<times> (nat \<times> error option) list" where
  "delete_request F N ctxErr start details w =
     (case w of (c, E) \<Rightarrow>
        (case db_query (GetContainerName (dd_id details)) E of (E, res) \<Rightarrow>
           let (name, lookupErr) =
                 (case res of
                    Inr name \<Rightarrow> (name, None)
                  | Inl err \<Rightarrow> (stripName (dd_name details),
                      if \<not> errors_is err ErrNoRows then Some (Wrap ''get container name'' err) else None))
           in case deleteContainerRules F N ctxErr start (dd_id details) name (c, E) of
                (w, deleteErr) \<Rightarrow> (w, sendDeleteResult details (errors_join [lookupErr, deleteErr]))))"

fun deleteRules ::
    "'c firewallClient \<Rightarrow> netlink_lib \<Rightarrow> error option \<Rightarrow> (string \<Rightarrow> bool) \<Rightarrow> deleteDetails list \<Rightarrow>
     'c \<times> sqlite \<Rightarrow> ('c \<times> sqlite) \<times> (nat \<times> error option) list" where
  "deleteRules F N ctxErr start [] w = (w, [])"
| "deleteRules F N ctxErr start (details # ds) w =
     (case delete_request F N ctxErr start details w of
        (w, replies) \<Rightarrow> (case deleteRules F N ctxErr start ds w of (w, rest) \<Rightarrow> (w, replies @ rest)))"

section \<open>Everything\<close>

text \<open>The jumps into the Whalewall chain; errors are collected.\<close>

definition jump_source :: "string \<Rightarrow> nft_chain" where
  "jump_source name = \<lparr>ch_Name = name, ch_Table = Some filterTable, ch_Hooknum = None, ch_Priority = None,
     ch_Type = [], ch_Policy = None, ch_Device = []\<rparr>"

definition clear_jump :: "'c firewallClient \<Rightarrow> marshaller \<Rightarrow> string \<Rightarrow> 'c \<Rightarrow> 'c \<times> error option list" where
  "clear_jump F M chainName c =
     (let chain = jump_source chainName in
      case fc_GetRules F filterTable chain c of
        Inl e \<Rightarrow> (c, if errors_is e (Errno ENOENT) then [] else [Some (Wrap ''get rules of chain'' e)])
      | Inr rules \<Rightarrow>
          st_all (\<lambda>actual. wrap_step ''delete jump from chain'' (fc_DelRule F actual))
            (filter (\<lambda>actual. rulesEqual M (createJumpRule chain whalewallChainName) actual) rules) c)"

fun clear_jumps :: "'c firewallClient \<Rightarrow> marshaller \<Rightarrow> string list \<Rightarrow> 'c \<Rightarrow> 'c \<times> error option list" where
  "clear_jumps F M [] c = (c, [])"
| "clear_jumps F M (n # ns) c =
     (case clear_jump F M n c of (c, es) \<Rightarrow> (case clear_jumps F M ns c of (c, rest) \<Rightarrow> (c, es @ rest)))"

text \<open>The owned chains are emptied; they are deleted only once nothing refers to them.\<close>

fun clear_chains :: "'c firewallClient \<Rightarrow> nft_chain list \<Rightarrow> 'c \<Rightarrow> 'c \<times> nft_chain list result" where
  "clear_chains F [] c = (c, Inr [])"
| "clear_chains F (chain # chs) c =
     (case ch_Table chain of
        None \<Rightarrow> (c, Inl (GoPanic ''nil pointer dereference''))
      | Some t \<Rightarrow>
          if t_Name t \<noteq> filterTableName \<or> (ch_Name chain \<noteq> whalewallChainName \<and> \<not> HasPrefix (ch_Name chain) chainPrefix)
          then clear_chains F chs c
          else
            (case validateRegularOwnedChain chain of
               Some e \<Rightarrow> (c, Inl (Wrap ''refusing to delete unsafe Whalewall chain collision'' e))
             | None \<Rightarrow>
                 (case fc_GetRules F filterTable chain c of
                    Inl e \<Rightarrow> (c, Inl (Wrap ''error listing rules of Whalewall chain'' e))
                  | Inr rules \<Rightarrow>
                      (case wrap_step ''error deleting rule from Whalewall chain'' (delete_rules F rules) c of
                         (c, Some e) \<Rightarrow> (c, Inl e)
                       | (c, None) \<Rightarrow>
                           (case clear_chains F chs c of
                              (c, Inl e) \<Rightarrow> (c, Inl e)
                            | (c, Inr owned) \<Rightarrow> (c, Inr (chain # owned)))))))"

definition clear_set :: "'c firewallClient \<Rightarrow> 'c \<Rightarrow> 'c \<times> error option" where
  "clear_set F c =
     (case fc_GetSetByName F filterTable containerAddrSetName c of
        Inl e \<Rightarrow> (c, if \<not> errors_is e (Errno ENOENT) then Some (Wrap ''error inspecting set before clear'' e) else None)
      | Inr existing \<Rightarrow>
          if \<not> containerAddressSetSchemaEqual existing containerAddressSet
          then (c, Some (Msg ''refusing to delete incompatible set collision''))
          else (fc_DelSet F existing c, None))"

definition clearFirewall :: "'c firewallClient \<Rightarrow> marshaller \<Rightarrow> 'c \<Rightarrow> 'c \<times> error option" where
  "clearFirewall F M c =
     (case fc_New F c of
        (c, Some e) \<Rightarrow> (c, Some (Wrap ''error creating netlink connection'' e))
      | (c, None) \<Rightarrow>
     (case clear_jumps F M [dockerChainName, inputChainName, outputChainName] c of (c, jumpDeleteErrs) \<Rightarrow>
     (case errors_join jumpDeleteErrs of
        Some e \<Rightarrow> (c, Some e)
      | None \<Rightarrow>
     (case fc_ListChainsOfTableFamily F TableFamilyIPv4 c of
        Inl e \<Rightarrow> (c, Some (Wrap ''error listing chains before clear'' e))
      | Inr chs \<Rightarrow>
     (case clear_chains F chs c of
        (c, Inl e) \<Rightarrow> (c, Some e)
      | (c, Inr ownedChains) \<Rightarrow> st_seq
          [clear_set F,
           (\<lambda>c. (fold (fc_DelChain F) ownedChains c, None)),
           flush_wrap ''error flushing Whalewall clear transaction'' F] c)))))"

definition clear_metadata :: "error option \<Rightarrow> Container \<Rightarrow> sqlite \<Rightarrow> sqlite \<times> error option" where
  "clear_metadata ctxErr ct E =
     (case db_Begin ctxErr E of
        (E, Inl e) \<Rightarrow> (E, Some (Wrap ''begin metadata cleanup'' e))
      | (E, Inr tx) \<Rightarrow>
          (case deleteContainer (co_ID ct) tx of
             (tx, Some e) \<Rightarrow> (tx_engine (fst (tx_Rollback tx)), Some (Wrap ''delete metadata'' e))
           | (tx, None) \<Rightarrow> (tx_engine tx, None)))"

definition clearRules ::
    "'c firewallClient \<Rightarrow> marshaller \<Rightarrow> error option \<Rightarrow> 'c \<times> sqlite \<Rightarrow> ('c \<times> sqlite) \<times> error option" where
  "clearRules F M ctxErr w =
     (case w of (c, E) \<Rightarrow>
        (case clearFirewall F M c of
           (c, Some e) \<Rightarrow> ((c, E), Some e)
         | (c, None) \<Rightarrow>
             (case db_query GetContainers E of (E, res) \<Rightarrow>
                (case (case res of
                     Inr containers \<Rightarrow> Inr containers
                   | Inl err \<Rightarrow> if \<not> errors_is err ErrNoRows
                       then Inl (Wrap ''firewall cleared but database inventory could not be read'' err) else Inr []) of
                   Inl e \<Rightarrow> ((c, E), Some e)
                 | Inr containers \<Rightarrow>
                     (case st_join (clear_metadata ctxErr) containers E of (E, e) \<Rightarrow> ((c, E), e))))))"

definition Clear :: "'c firewallClient \<Rightarrow> marshaller \<Rightarrow> error option \<Rightarrow> string \<Rightarrow>
    'c \<times> sqlite \<Rightarrow> ('c \<times> sqlite) \<times> error option" where
  "Clear F M ctxErr dbFile = clearRules F M ctxErr"

end
