(* ===== verification/Database_Correct.thy ===== *)
theory Database_Correct
  imports Database
begin

text \<open>
  What the database operations guarantee: the keys of the tables and the references between them are kept
  by every statement, a container's metadata is replaced or deleted as a whole, and what was written is
  found again. The transactions are a transactional store of \<open>Steps\<close>.
\<close>

section \<open>Retrying\<close>

definition busy_result :: "'a \<times> error option \<Rightarrow> bool" where
  "busy_result r \<longleftrightarrow> (\<exists>e. snd r = Some e \<and> is_busy e)"

text \<open>The state before the call number \<open>k\<close>, and its result.\<close>

definition before_call :: "('s \<Rightarrow> 's \<times> 'a \<times> error option) \<Rightarrow> 's \<Rightarrow> nat \<Rightarrow> 's" where
  "before_call f s k = ((\<lambda>s. fst (f s)) ^^ k) s"

definition call_result :: "('s \<Rightarrow> 's \<times> 'a \<times> error option) \<Rightarrow> 's \<Rightarrow> nat \<Rightarrow> 'a \<times> error option" where
  "call_result f s k = snd (f (before_call f s k))"

lemma call_Suc:
  "before_call f s (Suc k) = before_call f (fst (f s)) k" "call_result f s (Suc k) = call_result f (fst (f s)) k"
  "before_call f s 0 = s" "call_result f s 0 = snd (f s)"
  by (simp_all add: before_call_def call_result_def funpow_Suc_right del: funpow.simps(2))

lemma retry_loop_calls:
  "\<exists>k < Suc n. retry_loop (Suc n) f r s = (before_call f s (Suc k), call_result f s k) \<and>
     (\<forall>j < k. busy_result (call_result f s j)) \<and> (k < n \<longrightarrow> \<not> busy_result (call_result f s k))"
proof (induction n arbitrary: r s)
  case 0
  show ?case by (rule exI [of _ 0]) (auto simp: call_Suc busy_result_def split: prod.splits option.splits)
next
  case (Suc n)
  obtain s1 ret e where f: "f s = (s1, ret, e)" by (metis prod.collapse)
  show ?case
  proof (cases "busy_result (ret, e)")
    case False
    with f show ?thesis
      by (intro exI [of _ 0]) (auto simp: call_Suc busy_result_def split: option.splits)
  next
    case True
    then have step: "retry_loop (Suc (Suc n)) f r s = retry_loop (Suc n) f (ret, e) s1"
      using f by (auto simp: busy_result_def)
    obtain k where k: "k < Suc n" "retry_loop (Suc n) f (ret, e) s1 = (before_call f s1 (Suc k), call_result f s1 k)"
      "\<forall>j < k. busy_result (call_result f s1 j)" "k < n \<longrightarrow> \<not> busy_result (call_result f s1 k)"
      using Suc.IH by blast
    have "busy_result (call_result f s j)" if "j < Suc k" for j
      using that True f k(3) by (cases j) (simp_all add: call_Suc)
    moreover have "retry_loop (Suc (Suc n)) f r s = (before_call f s (Suc (Suc k)), call_result f s (Suc k))"
      using step k(2) f by (simp add: call_Suc(1) [of f s] call_Suc(2) [of f s] del: retry_loop.simps)
    ultimately show ?thesis
      using k(1,4) f by (intro exI [of _ "Suc k"]) (simp add: call_Suc(2) [of f s])
  qed
qed

section \<open>Keys and references\<close>

definition keys_ok :: "tables \<Rightarrow> bool" where
  "keys_ok T \<longleftrightarrow> distinct (map fst (t_containers T)) \<and> distinct (map snd (t_containers T)) \<and>
     distinct (map fst (t_addrs T)) \<and> distinct (t_aliases T) \<and> distinct (t_est T) \<and> distinct (t_waiting T)"

definition refs_ok :: "tables \<Rightarrow> bool" where
  "refs_ok T \<longleftrightarrow> (\<forall>i. referenced T i \<longrightarrow> has_container T i)"

text \<open>The statements of the program.\<close>

inductive statement :: "bool \<Rightarrow> tables \<Rightarrow> tables \<Rightarrow> bool" for fk :: bool where
  "AddContainer i n fk T = Inr T' \<Longrightarrow> statement fk T T'"
| "AddContainerAddr a i fk T = Inr T' \<Longrightarrow> statement fk T T'"
| "AddContainerAlias i a fk T = Inr T' \<Longrightarrow> statement fk T T'"
| "AddEstContainer i j fk T = Inr T' \<Longrightarrow> statement fk T T'"
| "AddWaitingContainerRule i n r fk T = Inr T' \<Longrightarrow> statement fk T T'"
| "DeleteContainer i fk T = Inr T' \<Longrightarrow> statement fk T T'"
| "DeleteContainerAddrs i fk T = Inr T' \<Longrightarrow> statement fk T T'"
| "DeleteContainerAliases i fk T = Inr T' \<Longrightarrow> statement fk T T'"
| "DeleteEstContainers i j fk T = Inr T' \<Longrightarrow> statement fk T T'"
| "DeleteSourceEstContainers i fk T = Inr T' \<Longrightarrow> statement fk T T'"
| "DeleteWaitingContainerRules i fk T = Inr T' \<Longrightarrow> statement fk T T'"

inductive written_by :: "bool \<Rightarrow> tables \<Rightarrow> bool" for fk :: bool where
  init: "written_by fk empty_tables"
| step: "written_by fk T \<Longrightarrow> statement fk T T' \<Longrightarrow> written_by fk T'"

lemma distinct_insert_row: "distinct rows \<Longrightarrow> distinct (insert_row r rows)"
  by (simp add: insert_row_def)

lemma set_insert_row [simp]: "set (insert_row r rows) = insert r (set rows)"
  by (auto simp: insert_row_def)

lemma map_snd_update:
  assumes "distinct (map fst xs)" "distinct (map snd xs)" "\<forall>(j, m) \<in> set xs. m = n \<longrightarrow> j = i"
  shows "distinct (map snd (AList.update i n xs))"
  using assms
proof (induction xs)
  case (Cons x xs)
  show ?case
  proof (cases "fst x = i")
    case True
    with Cons.prems have "n \<notin> snd ` set xs" by force
    with True Cons.prems show ?thesis by (cases x) auto
  next
    case False
    have "set (AList.update i n xs) \<subseteq> insert (i, n) (set xs)"
      by (induction xs) auto
    moreover have "snd x \<noteq> n" using False Cons.prems(3) by (cases x) auto
    moreover have "snd x \<notin> snd ` set xs" using Cons.prems(2) by simp
    ultimately have "snd x \<notin> snd ` set (AList.update i n xs)"
    proof (intro notI, elim imageE)
      fix y assume y: "snd x = snd y" "y \<in> set (AList.update i n xs)"
      then have "y = (i, n) \<or> y \<in> set xs" using \<open>set (AList.update i n xs) \<subseteq> _\<close> by blast
      then show False using y(1) \<open>snd x \<noteq> n\<close> \<open>snd x \<notin> snd ` set xs\<close> by auto
    qed
    with False Cons show ?thesis by (cases x) auto
  qed
qed simp

lemmas statement_defs = AddContainer_def AddContainerAddr_def AddContainerAlias_def AddEstContainer_def
  AddWaitingContainerRule_def DeleteContainer_def DeleteContainerAddrs_def DeleteContainerAliases_def
  DeleteEstContainers_def DeleteSourceEstContainers_def DeleteWaitingContainerRules_def

lemma statement_keys: "statement fk T T' \<Longrightarrow> keys_ok T \<Longrightarrow> keys_ok T'"
proof (induction rule: statement.induct)
  case (1 i n T T')
  then show ?case
    by (auto simp: AddContainer_def keys_ok_def list_ex_iff distinct_update intro!: map_snd_update split: if_splits)
qed (auto simp: statement_defs keys_ok_def distinct_update distinct_insert_row distinct_map_filter split: if_splits)

lemma update_keys: "fst ` set (AList.update k v xs) = insert k (fst ` set xs)"
  by (induction xs) auto

lemma update_values: "snd ` set (AList.update k v xs) \<subseteq> insert v (snd ` set xs)"
  by (induction xs) auto

lemma has_container_iff: "has_container T i \<longleftrightarrow> i \<in> fst ` set (t_containers T)"
  by (simp add: has_container_def map_of_eq_None_iff)

lemma refs_ok_mono:
  "refs_ok T \<Longrightarrow> (\<And>i. referenced T' i \<Longrightarrow> referenced T i \<or> has_container T i) \<Longrightarrow>
   t_containers T' = t_containers T \<Longrightarrow> refs_ok T'"
  by (auto simp: refs_ok_def has_container_def)

lemma refs_ok_subset:
  assumes "refs_ok T" "t_containers T' = t_containers T" "set (t_addrs T') \<subseteq> set (t_addrs T)"
    "set (t_aliases T') \<subseteq> set (t_aliases T)" "set (t_est T') \<subseteq> set (t_est T)" "set (t_waiting T') \<subseteq> set (t_waiting T)"
  shows "refs_ok T'"
proof (rule refs_ok_mono [OF assms(1) _ assms(2)])
  show "referenced T i \<or> has_container T i" if "referenced T' i" for i
    using that unfolding referenced_def
    by (elim disjE) (simp_all only: image_mono [OF assms(3), THEN subsetD] image_mono [OF assms(4), THEN subsetD]
        image_mono [OF assms(5), THEN subsetD] image_mono [OF assms(6), THEN subsetD] simp_thms)
qed

lemma statement_refs: "statement True T T' \<Longrightarrow> refs_ok T \<Longrightarrow> refs_ok T'"
proof (induction rule: statement.induct)
  case (1 i n T T')
  then have "T' = T\<lparr>t_containers := AList.update i n (t_containers T)\<rparr>" by (simp add: AddContainer_def split: if_splits)
  with 1(2) show ?case by (simp add: refs_ok_def referenced_def has_container_iff update_keys)
next
  case (2 a i T T')
  then have "has_container T i" "T' = T\<lparr>t_addrs := AList.update a i (t_addrs T)\<rparr>"
    by (simp_all add: AddContainerAddr_def split: if_splits)
  note T' = this
  show ?case
  proof (rule refs_ok_mono [OF 2(2)])
    fix j assume "referenced T' j"
    then have "j \<in> snd ` set (AList.update a i (t_addrs T)) \<or> referenced T j"
      unfolding T'(2) referenced_def by (elim disjE) simp_all
    then have "j = i \<or> referenced T j"
      using subsetD [OF update_values, of j a i "t_addrs T"] by (auto simp: referenced_def)
    then show "referenced T j \<or> has_container T j" using T'(1) by blast
  qed (simp add: T'(2))
next
  case (3 i a T T')
  then show ?case
    by (intro refs_ok_mono [OF 3(2)]) (auto simp: AddContainerAlias_def referenced_def split: if_splits)
next
  case (4 i j T T')
  then show ?case
    by (intro refs_ok_mono [OF 4(2)]) (auto simp: AddEstContainer_def referenced_def split: if_splits)
next
  case (5 i n r T T')
  then show ?case
    by (intro refs_ok_mono [OF 5(2)]) (auto simp: AddWaitingContainerRule_def referenced_def split: if_splits)
next
  case (6 i T T')
  then have T': "T' = T\<lparr>t_containers := filter (\<lambda>(j, m). j \<noteq> i) (t_containers T)\<rparr>"
    and free: "has_container T i \<longrightarrow> \<not> referenced T i" by (auto simp: DeleteContainer_def split: if_splits)
  have "has_container T' j" if "referenced T' j" for j
  proof -
    have "referenced T j" using that T' by (simp add: referenced_def)
    moreover from this 6(2) have "has_container T j" by (simp add: refs_ok_def)
    ultimately have "j \<noteq> i" "j \<in> fst ` set (t_containers T)" using free by (auto simp: has_container_iff)
    then show ?thesis using T' by (force simp: has_container_iff)
  qed
  then show ?case by (simp add: refs_ok_def)
qed (auto simp: statement_defs intro: refs_ok_subset)

text \<open>C24: Whatever statements the program runs, every container has one name and every name one container,
  every address belongs to one container, no alias, relation or waiting rule is stored twice, and, when the
  engine enforces foreign keys, every stored container id is that of a stored container.\<close>

theorem database_invariant:
  assumes "written_by fk T"
  shows "(distinct (map fst (t_containers T)) \<and> distinct (map snd (t_containers T)) \<and>
      distinct (map fst (t_addrs T)) \<and> distinct (t_aliases T) \<and> distinct (t_est T) \<and> distinct (t_waiting T)) \<and>
    (fk \<longrightarrow> (\<forall>i. referenced T i \<longrightarrow> has_container T i))"
proof -
  from assms have "keys_ok T \<and> (fk \<longrightarrow> refs_ok T)"
  proof (induction rule: written_by.induct)
    case init
    show ?case by (simp add: keys_ok_def refs_ok_def referenced_def empty_tables_def)
  next
    case (step T T')
    then show ?case using statement_keys statement_refs by (cases fk) auto
  qed
  then show ?thesis by (simp add: keys_ok_def refs_ok_def)
qed

text \<open>C25: An operation on a busy database is tried again, at most one hundred times: the outcome is that of
  the first call that is not busy, or of the hundredth, and no call is made after it.\<close>

theorem retryIfBusy_correct:
  "\<exists>k < 100. retryIfBusy zero f s = (before_call f s (Suc k), call_result f s k) \<and>
     (\<forall>j < k. busy_result (call_result f s j)) \<and> (k < 99 \<longrightarrow> \<not> busy_result (call_result f s k))"
  using retry_loop_calls [of 99 f "(zero, None)" s] by (simp add: retryIfBusy_def retries_def del: retry_loop.simps)

definition busy_twice :: "nat \<Rightarrow> nat \<times> nat \<times> error option" where
  "busy_twice n = (Suc n, n, if n < 2 then Some (Wrap ''begin'' SqliteBusy) else None)"

theorem retryIfBusy_correct_witness:
  "retryIfBusy 0 busy_twice 0 = (3, 2, None) \<and>
   (\<exists>k < 100. retryIfBusy 0 busy_twice 0 = (before_call busy_twice 0 (Suc k), call_result busy_twice 0 k) \<and>
     (\<forall>j < k. busy_result (call_result busy_twice 0 j)) \<and> (k < 99 \<longrightarrow> \<not> busy_result (call_result busy_twice 0 k)))"
proof
  show "retryIfBusy 0 busy_twice 0 = (3, 2, None)"
    by (simp add: retryIfBusy_def retries_def busy_twice_def is_busy_def eval_nat_numeral)
qed (rule retryIfBusy_correct)

section \<open>Transactions\<close>

definition tx_ok :: "bool \<Rightarrow> sql_tx \<Rightarrow> bool" where
  "tx_ok fk t \<longleftrightarrow> \<not> tx_done t \<and> sq_fk (tx_engine t) = fk"

definition tx_committed :: "sql_tx \<Rightarrow> tables" where
  "tx_committed t = sq_tables (tx_engine t)"

definition tx_staged :: "sql_tx \<Rightarrow> tables option" where
  "tx_staged t = Some (tx_tables t)"

lemma next_fault_sel:
  assumes "next_fault E = (E', e)" shows "sq_tables E' = sq_tables E" "sq_fk E' = sq_fk E"
  using assms by (auto simp: next_fault_def split: list.splits)

lemma sql_commit_cases:
  assumes "sql_commit t = (t', e)"
  shows "(e \<noteq> None \<longrightarrow> tx_committed t' = tx_committed t) \<and>
    (e = None \<longrightarrow> \<not> tx_done t \<and> tx_committed t' = tx_tables t) \<and> tx_done t'"
  using assms next_fault_sel
  by (auto simp: sql_commit_def tx_committed_def split: if_splits prod.splits option.splits)

lemma tx_Commit_cases:
  assumes "tx_Commit t = (t', e)"
  shows "(e \<noteq> None \<longrightarrow> tx_committed t' = tx_committed t) \<and>
    (e = None \<longrightarrow> \<not> tx_done t \<and> tx_committed t' = tx_tables t) \<and> tx_done t'"
  using assms sql_commit_cases [of t]
  by (cases "sql_commit t") (auto simp: tx_Commit_def Let_def split: option.splits)

interpretation sql: transactional "tx_ok fk" tx_committed tx_staged tx_Commit "\<lambda>old rs new. new = rs" for fk
  using tx_Commit_cases by unfold_locales (auto simp: tx_staged_def)

abbreviation tx_spec :: "bool \<Rightarrow> (sql_tx \<Rightarrow> sql_tx \<times> error option) \<Rightarrow> (tables \<Rightarrow> tables \<Rightarrow> tables \<Rightarrow> bool) \<Rightarrow> bool" where
  "tx_spec fk \<equiv> edit_spec (tx_ok fk) tx_committed tx_staged"

lemma tx_exec_spec: "tx_spec fk (tx_exec f) (\<lambda>k a b. f fk a = Inr b)"
proof (rule edit_spec_step)
  fix t t' e assume "tx_ok fk t" "tx_exec f t = (t', e)"
  then show "tx_ok fk t' \<and> tx_committed t' = tx_committed t"
    using next_fault_sel by (auto simp: tx_ok_def tx_exec_def tx_committed_def split: prod.splits option.splits sum.splits)
next
  fix t t' T assume "tx_ok fk t" "tx_exec f t = (t', None)" "tx_staged t' = Some T"
  then show "\<exists>S. tx_staged t = Some S \<and> f fk S = Inr T"
    using next_fault_sel(2)
    by (auto simp: tx_ok_def tx_exec_def tx_staged_def split: if_splits prod.splits option.splits sum.splits)
qed

lemma statement_spec: "tx_spec fk (wrap_step msg (tx_exec f)) (\<lambda>k a b. f fk a = Inr b)"
  by (rule edit_spec_wrap_step [OF tx_exec_spec])

lemma statements_spec:
  "tx_spec fk (st_each (\<lambda>x. wrap_step msg (tx_exec (f x))) xs) (\<lambda>k. rel_seq (\<lambda>x a b. f x fk a = Inr b) xs)"
  by (rule edit_spec_each [OF statement_spec])

section \<open>Effects\<close>

lemma map_of_remove_value:
  "distinct (map fst xs) \<Longrightarrow> map_of (filter (\<lambda>(a, j). j \<noteq> c) xs) a = (if map_of xs a = Some c then None else map_of xs a)"
proof (induction xs)
  case (Cons x xs)
  then have "map_of xs (fst x) = None" by (simp add: map_of_eq_None_iff)
  with Cons show ?case by (cases x) auto
qed simp

lemma add_addrs_effect:
  "rel_seq (\<lambda>x a b. AddContainerAddr x c fk a = Inr b) ks a b \<Longrightarrow>
   t_containers b = t_containers a \<and> t_aliases b = t_aliases a \<and> t_est b = t_est a \<and> t_waiting b = t_waiting a \<and>
   map_of (t_addrs b) = (\<lambda>x. if x \<in> set ks then Some c else map_of (t_addrs a) x)"
proof (induction ks arbitrary: a)
  case (Cons k ks)
  then obtain m where m: "AddContainerAddr k c fk a = Inr m" "rel_seq (\<lambda>x a b. AddContainerAddr x c fk a = Inr b) ks m b"
    by auto
  from m(1) have "m = a\<lparr>t_addrs := AList.update k c (t_addrs a)\<rparr>" by (simp add: AddContainerAddr_def split: if_splits)
  with Cons.IH [OF m(2)] show ?case by (auto simp: update_conv' fun_eq_iff)
qed simp

lemma add_aliases_effect:
  "rel_seq (\<lambda>x a b. AddContainerAlias c x fk a = Inr b) als a b \<Longrightarrow>
   t_containers b = t_containers a \<and> t_addrs b = t_addrs a \<and> t_est b = t_est a \<and> t_waiting b = t_waiting a \<and> set (t_aliases b) = set (t_aliases a) \<union> Pair c ` set als"
proof (induction als arbitrary: a)
  case (Cons x als)
  then obtain m where m: "AddContainerAlias c x fk a = Inr m" "rel_seq (\<lambda>x a b. AddContainerAlias c x fk a = Inr b) als m b"
    by auto
  from m(1) have "m = a\<lparr>t_aliases := insert_row (c, x) (t_aliases a)\<rparr>" by (simp add: AddContainerAlias_def split: if_splits)
  with Cons.IH [OF m(2)] show ?case by auto
qed simp

lemma add_est_effect:
  "rel_seq (\<lambda>x a b. AddEstContainer c x fk a = Inr b) ds a b \<Longrightarrow>
   t_containers b = t_containers a \<and> t_addrs b = t_addrs a \<and> t_aliases b = t_aliases a \<and> t_waiting b = t_waiting a \<and> set (t_est b) = set (t_est a) \<union> Pair c ` set ds"
proof (induction ds arbitrary: a)
  case (Cons x ds)
  then obtain m where m: "AddEstContainer c x fk a = Inr m" "rel_seq (\<lambda>x a b. AddEstContainer c x fk a = Inr b) ds m b"
    by auto
  from m(1) have "m = a\<lparr>t_est := insert_row (c, x) (t_est a)\<rparr>" by (simp add: AddEstContainer_def split: if_splits)
  with Cons.IH [OF m(2)] show ?case by auto
qed simp

text \<open>What replacing a container's metadata writes.\<close>

definition metadata_written :: "string \<Rightarrow> string \<Rightarrow> string \<Rightarrow> addr_key list \<Rightarrow> tables \<Rightarrow> tables \<Rightarrow> bool" where
  "metadata_written cid name service keys a b \<longleftrightarrow>
     map_of (t_containers b) = (map_of (t_containers a))(cid \<mapsto> name) \<and>
     (\<forall>x. map_of (t_addrs b) x =
        (if x \<in> set keys then Some cid else if map_of (t_addrs a) x = Some cid then None else map_of (t_addrs a) x)) \<and>
     (\<forall>j al. (j, al) \<in> set (t_aliases b) \<longleftrightarrow>
        (if j = cid then al \<in> set (containerAliases name service) else (j, al) \<in> set (t_aliases a))) \<and>
     t_est b = t_est a \<and> t_waiting b = t_waiting a"

lemma replaceContainerMetadata_spec:
  "tx_spec fk (replaceContainerMetadata cid name service addrs)
     (\<lambda>k a b. keys_ok a \<longrightarrow> metadata_written cid name service (map snd addrs) a b)"
proof -
  note steps = edit_spec_Cons [OF statement_spec edit_spec_Cons [OF statement_spec edit_spec_Cons [OF statements_spec
    edit_spec_Cons [OF statement_spec edit_spec_Cons [OF statements_spec edit_spec_Nil]]]]]
  show ?thesis
    unfolding replaceContainerMetadata_def
  proof (rule edit_spec_mono [OF steps], intro impI, elim exE conjE)
    fix a m1 m2 m3 m4 m5 b :: tables
    assume keys: "keys_ok a" and m1: "AddContainer cid name fk a = Inr m1" and m2: "DeleteContainerAddrs cid fk m1 = Inr m2"
      and m3: "rel_seq (\<lambda>x a b. AddContainerAddr x cid fk a = Inr b) (map snd addrs) m2 m3"
      and m4: "DeleteContainerAliases cid fk m3 = Inr m4"
      and m5: "rel_seq (\<lambda>x a b. AddContainerAlias cid x fk a = Inr b) (containerAliases name service) m4 m5" and b: "m5 = b"
    have 1: "m1 = a\<lparr>t_containers := AList.update cid name (t_containers a)\<rparr>" using m1 by (simp add: AddContainer_def split: if_splits)
    have 2: "m2 = m1\<lparr>t_addrs := filter (\<lambda>(x, j). j \<noteq> cid) (t_addrs m1)\<rparr>" using m2 by (simp add: DeleteContainerAddrs_def)
    note 3 = add_addrs_effect [OF m3]
    have 4: "m4 = m3\<lparr>t_aliases := filter (\<lambda>(j, x). j \<noteq> cid) (t_aliases m3)\<rparr>" using m4 by (simp add: DeleteContainerAliases_def)
    note 5 = add_aliases_effect [OF m5]
    have d: "distinct (map fst (t_addrs a))" using keys by (simp add: keys_ok_def)
    have "t_containers b = t_containers m1" "t_addrs b = t_addrs m3" "t_aliases m3 = t_aliases a"
      "t_est b = t_est a" "t_waiting b = t_waiting a" "set (t_aliases b) = set (t_aliases m4) \<union> Pair cid ` set (containerAliases name service)"
      using b 5 4 3 2 1 by simp_all
    then show "metadata_written cid name service (map snd addrs) a b"
      using b 5 4 3 2 1 map_of_remove_value [OF d, of cid] by (auto simp: metadata_written_def update_conv')
  qed
qed

section \<open>Keys along a transaction\<close>

lemma statement_keys_spec:
  assumes "\<And>T T'. f fk T = Inr T' \<Longrightarrow> statement fk T T'"
  shows "tx_spec fk (wrap_step msg (tx_exec f)) (\<lambda>k a b. keys_ok a \<longrightarrow> keys_ok b)"
  by (rule edit_spec_mono [OF statement_spec]) (use assms statement_keys in blast)

lemma statements_keys_spec:
  assumes "\<And>x T T'. f x fk T = Inr T' \<Longrightarrow> statement fk T T'"
  shows "tx_spec fk (st_each (\<lambda>x. wrap_step msg (tx_exec (f x))) xs) (\<lambda>k a b. keys_ok a \<longrightarrow> keys_ok b)"
proof -
  have "keys_ok a \<longrightarrow> keys_ok b" if "rel_seq (\<lambda>x a b. f x fk a = Inr b) xs a b" for a b
    using that
  proof (induction xs arbitrary: a)
    case (Cons x xs)
    then obtain m where m: "f x fk a = Inr m" "rel_seq (\<lambda>x a b. f x fk a = Inr b) xs m b" by auto
    from statement_keys [OF assms [OF m(1)]] Cons.IH [OF m(2)] show ?case by blast
  qed simp
  then show ?thesis by (intro edit_spec_mono [OF statements_spec]) blast
qed

lemma replaceContainerMetadata_keys:
  "tx_spec fk (replaceContainerMetadata cid name service addrs) (\<lambda>k a b. keys_ok a \<longrightarrow> keys_ok b)"
proof -
  note 1 = statement_keys_spec [of "AddContainer cid name" fk, OF statement.intros(1) [of cid name]]
  note 2 = statement_keys_spec [of "DeleteContainerAddrs cid" fk, OF statement.intros(7) [of cid]]
  note 3 = statements_keys_spec [of "\<lambda>a. AddContainerAddr a cid" fk, OF statement.intros(2) [of _ cid]]
  note 4 = statement_keys_spec [of "DeleteContainerAliases cid" fk, OF statement.intros(8) [of cid]]
  note 5 = statements_keys_spec [of "AddContainerAlias cid" fk, OF statement.intros(3) [of cid]]
  show ?thesis
    unfolding replaceContainerMetadata_def
    by (rule edit_spec_mono [OF edit_spec_Cons [OF 1 edit_spec_Cons [OF 2 edit_spec_Cons [OF 3
        edit_spec_Cons [OF 4 edit_spec_Cons [OF 5 edit_spec_Nil]]]]]]) (assumption+, elim exE conjE, simp)
qed

section \<open>Deleting a container\<close>

definition container_removed :: "string \<Rightarrow> tables \<Rightarrow> tables \<Rightarrow> bool" where
  "container_removed cid a b \<longleftrightarrow>
     set (t_containers b) = {(i, n) \<in> set (t_containers a). i \<noteq> cid} \<and>
     set (t_addrs b) = {(x, i) \<in> set (t_addrs a). i \<noteq> cid} \<and>
     set (t_aliases b) = {(i, al) \<in> set (t_aliases a). i \<noteq> cid} \<and>
     set (t_est b) = {(s, d) \<in> set (t_est a). s \<noteq> cid \<and> d \<noteq> cid} \<and>
     set (t_waiting b) = {(s, r) \<in> set (t_waiting a). s \<noteq> cid}"

lemma container_removed_gone: "container_removed cid a b \<Longrightarrow> \<not> has_container b cid \<and> \<not> referenced b cid"
  by (auto simp: container_removed_def has_container_iff referenced_def)

lemma deleteContainer_spec:
  "tx_spec fk (st_seq
     [wrap_step m1 (tx_exec (DeleteContainerAddrs cid)), wrap_step m2 (tx_exec (DeleteContainerAliases cid)),
      wrap_step m3 (tx_exec (DeleteEstContainers cid cid)), wrap_step m4 (tx_exec (DeleteWaitingContainerRules cid)),
      wrap_step m5 (tx_exec (DeleteContainer cid))]) (\<lambda>k a b. container_removed cid a b)"
  by (rule edit_spec_mono [OF edit_spec_Cons [OF statement_spec edit_spec_Cons [OF statement_spec edit_spec_Cons [OF statement_spec
        edit_spec_Cons [OF statement_spec edit_spec_Cons [OF statement_spec edit_spec_Nil]]]]]])
    (auto simp: statement_defs container_removed_def split: if_splits)

section \<open>Whole transactions\<close>

lemma retry_loop_keeps:
  assumes "\<And>s s' r. P s \<Longrightarrow> f s = (s', r) \<Longrightarrow> P s' \<and> Q s' r"
    and "retry_loop n f r0 s = (s', r)" "P s" "n > 0"
  shows "P s' \<and> Q s' r"
  using assms(2-4)
proof (induction n arbitrary: r0 s)
  case (Suc n)
  obtain s1 ret e where f: "f s = (s1, ret, e)" by (metis prod.collapse)
  note step = assms(1) [OF Suc.prems(2) f]
  show ?case
  proof (cases "e = None \<or> n = 0 \<or> \<not> is_busy (the e)")
    case True
    with Suc.prems(1) f have "s' = s1 \<and> r = (ret, e)"
      by (cases e; cases n) (auto split: if_splits)
    with step show ?thesis by simp
  next
    case False
    then have "retry_loop n f (ret, e) s1 = (s', r)" using Suc.prems(1) f by auto
    from Suc.IH [OF this] step False show ?thesis by simp
  qed
qed simp

lemma BeginTx_cases:
  assumes "BeginTx ctxErr E = (E', r)"
  shows "sq_tables E' = sq_tables E \<and> sq_fk E' = sq_fk E \<and>
    (\<forall>t. fst r = Some t \<longrightarrow> \<not> tx_done t \<and> tx_engine t = E' \<and> tx_tables t = sq_tables E')"
  using assms next_fault_sel by (auto simp: BeginTx_def split: prod.splits option.splits)

lemma db_Begin_cases:
  assumes "db_Begin ctxErr E = (E', res)"
  shows "sq_tables E' = sq_tables E \<and>
    (\<forall>t. res = Inr t \<longrightarrow> tx_ok (sq_fk E) t \<and> tx_committed t = sq_tables E \<and> tx_tables t = sq_tables E)"
proof -
  obtain r where run: "dbRetrier_BeginTx ctxErr E = (E', r)" "res = (case r of (_, Some e) \<Rightarrow> Inl (Wrap ''error beginning database transaction'' e)
      | (Some t, None) \<Rightarrow> Inr t | (None, None) \<Rightarrow> Inl (GoPanic ''nil pointer dereference''))"
    using assms by (auto simp: db_Begin_def split: prod.splits option.splits)
  let ?P = "\<lambda>E'. sq_tables E' = sq_tables E \<and> sq_fk E' = sq_fk E"
  let ?Q = "\<lambda>E' r. \<forall>t. fst r = Some t \<longrightarrow> \<not> tx_done t \<and> tx_engine t = E' \<and> tx_tables t = sq_tables E'"
  have "?P E' \<and> ?Q E' r"
  proof (rule retry_loop_keeps [where P = ?P and Q = ?Q])
    show "?P s' \<and> ?Q s' q" if "?P s" "BeginTx ctxErr s = (s', q)" for s s' q
      using BeginTx_cases [OF that(2)] that(1) by simp
    show "retry_loop retries (BeginTx ctxErr) (None, None) E = (E', r)"
      using run(1) by (simp add: dbRetrier_BeginTx_def retryIfBusy_def)
  qed (simp_all add: retries_def)
  moreover have "fst r = Some t" if "res = Inr t" for t
  proof -
    obtain a x where r: "r = (a, x)" by (cases r)
    show ?thesis using run(2) that unfolding r by (cases x; cases a) simp_all
  qed
  ultimately have "\<not> tx_done t \<and> tx_engine t = E' \<and> tx_tables t = sq_tables E'" if "res = Inr t" for t
    using that by blast
  with \<open>?P E' \<and> ?Q E' r\<close> show ?thesis by (simp add: tx_ok_def tx_committed_def)
qed

lemma tx_Rollback_committed [simp]: "tx_committed (fst (tx_Rollback t)) = tx_committed t"
  using next_fault_sel(1) by (auto simp: tx_Rollback_def tx_committed_def split: prod.splits option.splits)

lemma in_transaction_spec:
  assumes "\<And>fk. tx_spec fk f (R fk)" "in_transaction ctxErr (st_seq [f, tx_Commit]) E = (E', e)"
  shows "(e \<noteq> None \<longrightarrow> sq_tables E' = sq_tables E) \<and> (e = None \<longrightarrow> R (sq_fk E) (sq_tables E) (sq_tables E) (sq_tables E'))"
proof (cases "db_Begin ctxErr E")
  case (Pair E1 res)
  show ?thesis
  proof (cases res)
    case (Inl x)
    with Pair assms(2) db_Begin_cases [OF Pair] show ?thesis by (auto simp: in_transaction_def)
  next
    case (Inr t)
    with db_Begin_cases [OF Pair] have t: "tx_ok (sq_fk E) t" "tx_committed t = sq_tables E" "tx_tables t = sq_tables E" by auto
    obtain t' e1 where body: "st_seq [f, tx_Commit] t = (t', e1)" by force
    with Pair Inr assms(2) have out: "E' = tx_engine (fst (tx_Rollback t'))" "e = e1"
      by (auto simp: in_transaction_def)
    then have "sq_tables E' = tx_committed t'" using tx_Rollback_committed [of t'] by (simp add: tx_committed_def)
    with sql.batch [OF assms(1) t(1) body] t out(2) show ?thesis by (auto simp: tx_staged_def)
  qed
qed

section \<open>Looking things up\<close>

lemma filter_key: "distinct (map fst xs) \<Longrightarrow> (k, v) \<in> set xs \<Longrightarrow> filter (\<lambda>(j, m). j = k) xs = [(k, v)]"
proof (induction xs)
  case (Cons x xs)
  show ?case
  proof (cases "x = (k, v)")
    case True
    with Cons.prems have "\<forall>y \<in> set xs. fst y \<noteq> k" by force
    then have "filter (\<lambda>(j, m). j = k) xs = []" by (auto simp: filter_empty_conv)
    with True show ?thesis by simp
  next
    case False
    with Cons.prems(2) have "(k, v) \<in> set xs" by simp
    then have "k \<in> fst ` set xs" by (rule rev_image_eqI) simp
    with Cons.prems(1) have "fst x \<noteq> k" by auto
    with False Cons show ?thesis by (cases x) auto
  qed
qed simp

lemma filter_value: "distinct (map snd xs) \<Longrightarrow> (k, v) \<in> set xs \<Longrightarrow> filter (\<lambda>(j, m). m = v) xs = [(k, v)]"
proof (induction xs)
  case (Cons x xs)
  show ?case
  proof (cases "x = (k, v)")
    case True
    with Cons.prems have "\<forall>y \<in> set xs. snd y \<noteq> v" by force
    then have "filter (\<lambda>(j, m). m = v) xs = []" by (auto simp: filter_empty_conv)
    with True show ?thesis by simp
  next
    case False
    with Cons.prems(2) have "(k, v) \<in> set xs" by simp
    then have "v \<in> snd ` set xs" by (rule rev_image_eqI) simp
    with Cons.prems(1) have "snd x \<noteq> v" by auto
    with False Cons show ?thesis by (cases x) auto
  qed
qed simp

lemma one_row_Inr: "rows \<noteq> [] \<Longrightarrow> \<exists>r \<in> set rows. one_row rows = Inr r"
  by (cases rows) (auto simp: one_row_def)

lemma alias_found:
  assumes "(cid, name) \<in> set (t_containers T)" "distinct (map fst (t_containers T))" "(cid, al) \<in> set (t_aliases T)"
  shows "\<exists>c. GetContainerIDAndNameFromAlias al T = Inr c \<and> (co_ID c, al) \<in> set (t_aliases T) \<and>
    ((\<forall>j. (j, al) \<in> set (t_aliases T) \<longrightarrow> j = cid) \<longrightarrow> c = \<lparr>co_ID = cid, co_Name = name\<rparr>)"
proof -
  let ?rows = "concat (map (\<lambda>(i, n). map (\<lambda>_. \<lparr>co_ID = i, co_Name = n\<rparr>)
       (filter (\<lambda>(j, a). j = i \<and> a = al) (t_aliases T))) (t_containers T))"
  have rows: "c \<in> set ?rows \<longleftrightarrow> (co_ID c, co_Name c) \<in> set (t_containers T) \<and> (co_ID c, al) \<in> set (t_aliases T)" for c
  proof -
    have row: "c \<in> set (map (\<lambda>_. r) (filter (\<lambda>(j, a). j = i \<and> a = al) as)) \<longleftrightarrow> c = r \<and> (i, al) \<in> set as"
      for r :: Container and i as by (auto simp: image_iff)
    have "c \<in> set ?rows \<longleftrightarrow> (\<exists>(i, n) \<in> set (t_containers T). c = \<lparr>co_ID = i, co_Name = n\<rparr> \<and> (i, al) \<in> set (t_aliases T))"
      unfolding set_concat set_map [of _ "t_containers T"] by (auto simp: row simp del: set_map set_filter)
    then show ?thesis by (cases c) auto
  qed
  have "\<lparr>co_ID = cid, co_Name = name\<rparr> \<in> set ?rows" unfolding rows using assms by simp
  then have "?rows \<noteq> []" by (metis list.distinct(1) list.set_cases)
  from one_row_Inr [OF this] obtain c where c: "c \<in> set ?rows" "one_row ?rows = Inr c" by blast
  then have m: "(co_ID c, co_Name c) \<in> set (t_containers T)" "(co_ID c, al) \<in> set (t_aliases T)" unfolding rows by blast+
  moreover have "co_Name c = name" if "co_ID c = cid"
    using m(1) that assms(1,2) by (metis Some_eq_map_of_iff option.inject)
  ultimately show ?thesis
    using c(2) by (intro exI [of _ c]) (auto simp: GetContainerIDAndNameFromAlias_def)
qed

section \<open>Properties of the writes\<close>

lemma tx_spec_run:
  assumes "tx_spec fk f R" "\<not> tx_done t" "sq_fk (tx_engine t) = fk" "f t = (t', e)"
  shows "\<not> tx_done t' \<and> tx_committed t' = tx_committed t \<and> (e = None \<longrightarrow> R (tx_committed t) (tx_tables t) (tx_tables t'))"
proof -
  have "tx_ok fk t" using assms(2,3) by (simp add: tx_ok_def)
  with assms(1,4) have "tx_ok fk t' \<and> tx_committed t' = tx_committed t \<and>
      (e = None \<longrightarrow> (\<forall>T. tx_staged t' = Some T \<longrightarrow> (\<exists>S. tx_staged t = Some S \<and> R (tx_committed t) S T)))"
    unfolding edit_spec_def by blast
  then show ?thesis by (auto simp: tx_ok_def tx_staged_def)
qed

text \<open>C21: Replacing a container's metadata and committing is all or nothing. On success the container has
  its name, exactly the given addresses (taken from whoever had them) and exactly the aliases made from its
  name and service; everything else is as before. On any error, of a key or of the engine, the database is
  unchanged.\<close>

theorem replaceContainerMetadata_correct:
  assumes "\<not> tx_done t" and "keys_ok (tx_tables t)"
    and "st_seq [replaceContainerMetadata cid name service addrs, tx_Commit] t = (t', e)"
  shows "(e \<noteq> None \<longrightarrow> tx_committed t' = tx_committed t) \<and>
    (e = None \<longrightarrow> metadata_written cid name service (map snd addrs) (tx_tables t) (tx_committed t'))"
proof -
  have "tx_ok (sq_fk (tx_engine t)) t" using assms(1) by (simp add: tx_ok_def)
  from sql.batch [OF replaceContainerMetadata_spec this assms(3)] assms(2) show ?thesis
    by (auto simp: tx_staged_def)
qed

text \<open>C22: What is written is found: after a successful replacement the transaction finds the container
  by id and by name, its addresses, and, under each of its aliases, a container that has that alias, which is
  the container itself when nobody else has it.\<close>

theorem metadata_lookup:
  assumes "\<not> tx_done t" and "keys_ok (tx_tables t)"
    and "replaceContainerMetadata cid name service addrs t = (t', None)"
  shows "ContainerExists cid (tx_tables t') = Inr True \<and> GetContainerName cid (tx_tables t') = Inr name \<and>
    GetContainerID name (tx_tables t') = Inr cid \<and>
    (\<exists>ks. GetContainerAddrs cid (tx_tables t') = Inr ks \<and> set ks = set (map snd addrs)) \<and>
    (\<forall>al \<in> set (containerAliases name service). \<exists>c. GetContainerIDAndNameFromAlias al (tx_tables t') = Inr c \<and>
       (co_ID c, al) \<in> set (t_aliases (tx_tables t')) \<and>
       ((\<forall>j. (j, al) \<in> set (t_aliases (tx_tables t)) \<longrightarrow> j = cid) \<longrightarrow> c = \<lparr>co_ID = cid, co_Name = name\<rparr>))"
proof -
  let ?T = "tx_tables t" and ?T' = "tx_tables t'"
  from tx_spec_run [OF edit_spec_conj [OF replaceContainerMetadata_spec replaceContainerMetadata_keys] assms(1) refl assms(3)]
  have w: "metadata_written cid name service (map snd addrs) ?T ?T'" and keys: "keys_ok ?T'"
    using assms(2) by auto
  from keys have d: "distinct (map fst (t_containers ?T'))" "distinct (map snd (t_containers ?T'))" "distinct (map fst (t_addrs ?T'))"
    by (simp_all add: keys_ok_def)
  have row: "(cid, name) \<in> set (t_containers ?T')"
    using w map_of_SomeD [of "t_containers ?T'" cid name] by (simp add: metadata_written_def)
  have "ContainerExists cid ?T' = Inr True" using row by (force simp: ContainerExists_def list_ex_iff)
  moreover have "GetContainerName cid ?T' = Inr name" "GetContainerID name ?T' = Inr cid"
    using filter_key [OF d(1) row] filter_value [OF d(2) row]
    by (simp_all add: GetContainerName_def GetContainerID_def one_row_def)
  moreover have addrs: "x \<in> fst ` set (filter (\<lambda>(a, j). j = cid) (t_addrs ?T')) \<longleftrightarrow> x \<in> set (map snd addrs)" for x
  proof -
    have "x \<in> fst ` set (filter (\<lambda>(a, j). j = cid) (t_addrs ?T')) \<longleftrightarrow> (x, cid) \<in> set (t_addrs ?T')" by force
    also have "\<dots> \<longleftrightarrow> map_of (t_addrs ?T') x = Some cid" using d(3) by simp
    also have "\<dots> \<longleftrightarrow> x \<in> set (map snd addrs)" using w by (auto simp: metadata_written_def)
    finally show ?thesis .
  qed
  moreover have al: "(j, al) \<in> set (t_aliases ?T') \<longleftrightarrow>
      (if j = cid then al \<in> set (containerAliases name service) else (j, al) \<in> set (t_aliases ?T))" for j al
    using w by (simp add: metadata_written_def)
  moreover have found: "\<exists>c. GetContainerIDAndNameFromAlias al ?T' = Inr c \<and> (co_ID c, al) \<in> set (t_aliases ?T') \<and>
      ((\<forall>j. (j, al) \<in> set (t_aliases ?T) \<longrightarrow> j = cid) \<longrightarrow> c = \<lparr>co_ID = cid, co_Name = name\<rparr>)"
    if x: "al \<in> set (containerAliases name service)" for al
  proof -
    have "(cid, al) \<in> set (t_aliases ?T')" using x by (simp add: al)
    from alias_found [OF row d(1) this] obtain c where c: "GetContainerIDAndNameFromAlias al ?T' = Inr c"
      "(co_ID c, al) \<in> set (t_aliases ?T')"
      "(\<forall>j. (j, al) \<in> set (t_aliases ?T') \<longrightarrow> j = cid) \<longrightarrow> c = \<lparr>co_ID = cid, co_Name = name\<rparr>" by blast
    have "j = cid" if "\<forall>j. (j, al) \<in> set (t_aliases ?T) \<longrightarrow> j = cid" "(j, al) \<in> set (t_aliases ?T')" for j
      using al [of j al] that by (cases "j = cid") simp_all
    with c show ?thesis by blast
  qed
  moreover have "\<exists>ks. GetContainerAddrs cid ?T' = Inr ks \<and> set ks = set (map snd addrs)"
    using addrs unfolding GetContainerAddrs_def set_map [symmetric] by blast
  ultimately show ?thesis by (intro conjI ballI)
qed

lemma deleteContainer_cases:
  assumes "\<not> tx_done t" and "deleteContainer cid t = (t', e)"
  shows "(e \<noteq> None \<longrightarrow> tx_committed t' = tx_committed t) \<and>
    (e = None \<longrightarrow> container_removed cid (tx_tables t) (tx_committed t'))"
proof -
  let ?del = "[wrap_step ''error deleting container addrs in database'' (tx_exec (DeleteContainerAddrs cid)),
      wrap_step ''error deleting container aliases in database'' (tx_exec (DeleteContainerAliases cid)),
      wrap_step ''error deleting established container in database'' (tx_exec (DeleteEstContainers cid cid)),
      wrap_step ''error deleting waiting container rules in database'' (tx_exec (DeleteWaitingContainerRules cid)),
      wrap_step ''error deleting container in database'' (tx_exec (DeleteContainer cid))]"
  have "st_seq (?del @ [tx_Commit]) t = (t', e)" using assms(2) by (simp add: deleteContainer_def del: st_seq.simps)
  then have run: "st_seq [st_seq ?del, tx_Commit] t = (t', e)" by (simp only: st_seq_snoc)
  have ok: "tx_ok (sq_fk (tx_engine t)) t" using assms(1) by (simp add: tx_ok_def)
  from sql.batch [OF deleteContainer_spec ok run]
  show ?thesis by (auto simp: tx_staged_def)
qed

text \<open>C23: Deleting a container is all or nothing: on success no row is left that is the container's or refers
  to it, and every other row stays; on an error the database is unchanged.\<close>

theorem deleteContainer_correct:
  assumes "\<not> tx_done t" and "deleteContainer cid t = (t', e)"
  shows "(e \<noteq> None \<longrightarrow> tx_committed t' = tx_committed t) \<and>
    (e = None \<longrightarrow> container_removed cid (tx_tables t) (tx_committed t') \<and>
       \<not> has_container (tx_committed t') cid \<and> \<not> referenced (tx_committed t') cid)"
  using deleteContainer_cases [OF assms] container_removed_gone [of cid "tx_tables t" "tx_committed t'"] by blast

text \<open>Clearing a container's policy metadata removes exactly its waiting rules and the relations it is
  the source of, in one transaction; if beginning it, a statement or the commit fails, nothing has changed.\<close>

theorem clearContainerPolicyMetadata_correct:
  assumes "clearContainerPolicyMetadata ctxErr cid E = (E', e)"
  shows "(e \<noteq> None \<longrightarrow> sq_tables E' = sq_tables E) \<and>
    (e = None \<longrightarrow> sq_tables E' = (sq_tables E)
       \<lparr>t_est := filter (\<lambda>(s, d). s \<noteq> cid) (t_est (sq_tables E)),
        t_waiting := filter (\<lambda>(s, r). s \<noteq> cid) (t_waiting (sq_tables E))\<rparr>)"
proof -
  have spec: "tx_spec fk (resetContainerPolicy cid) (\<lambda>k a b. b = a\<lparr>t_est := filter (\<lambda>(s, d). s \<noteq> cid) (t_est a),
      t_waiting := filter (\<lambda>(s, r). s \<noteq> cid) (t_waiting a)\<rparr>)" for fk
    unfolding resetContainerPolicy_def
    by (rule edit_spec_mono [OF edit_spec_Cons [OF statement_spec edit_spec_Cons [OF statement_spec edit_spec_Nil]]])
      (auto simp: DeleteWaitingContainerRules_def DeleteSourceEstContainers_def)
  from in_transaction_spec [OF spec assms [unfolded clearContainerPolicyMetadata_def]] show ?thesis .
qed

section \<open>Examples\<close>

definition sample_engine :: sqlite where
  "sample_engine = \<lparr>sq_tables = empty_tables, sq_fk = True, sq_faults = [Some SqliteBusy, None]\<rparr>"

definition sample_tx :: sql_tx where
  "sample_tx = \<lparr>tx_engine = sample_engine\<lparr>sq_faults := []\<rparr>, tx_tables = empty_tables, tx_done = False, tx_ctxErr = None\<rparr>"

definition sample_written :: sql_tx where
  "sample_written = sample_tx\<lparr>tx_tables := \<lparr>t_containers = [(''i'', ''web'')], t_addrs = [([10, 0, 0, 2], ''i'')],
     t_aliases = [(''i'', ''/web''), (''i'', ''srv''), (''i'', ''/srv'')], t_est = [], t_waiting = []\<rparr>\<rparr>"

lemma sample_run: "replaceContainerMetadata ''i'' ''web'' ''srv'' [(''net'', [10, 0, 0, 2])] sample_tx = (sample_written, None)"
  by (simp add: replaceContainerMetadata_def wrap_step_def tx_exec_def sample_tx_def sample_engine_def next_fault_def statement_defs
      empty_tables_def has_container_def containerAliases_def insert_row_def sample_written_def)

lemma sample_keys: "\<not> tx_done sample_tx" "keys_ok (tx_tables sample_tx)"
  by (simp_all add: sample_tx_def keys_ok_def empty_tables_def)

theorem database_invariant_witness:
  "\<exists>T. written_by True T \<and> t_containers T = [(''i'', ''web'')] \<and> distinct (map snd (t_containers T))"
proof -
  have "statement True empty_tables (empty_tables\<lparr>t_containers := [(''i'', ''web'')]\<rparr>)"
    by (rule statement.intros(1) [of "''i''" "''web''"]) (simp add: AddContainer_def empty_tables_def)
  then have w: "written_by True (empty_tables\<lparr>t_containers := [(''i'', ''web'')]\<rparr>)"
    by (rule written_by.step [OF written_by.init])
  with database_invariant [OF w] show ?thesis by auto
qed

theorem replaceContainerMetadata_correct_witness:
  "\<exists>t'. st_seq [replaceContainerMetadata ''i'' ''web'' ''srv'' [(''net'', [10, 0, 0, 2])], tx_Commit] sample_tx = (t', None) \<and>
     metadata_written ''i'' ''web'' ''srv'' [[10, 0, 0, 2]] empty_tables (tx_committed t')"
proof -
  obtain t' where "tx_Commit sample_written = (t', None)"
    by (simp add: tx_Commit_def sql_commit_def sample_written_def sample_tx_def sample_engine_def next_fault_def)
  then have run: "st_seq [replaceContainerMetadata ''i'' ''web'' ''srv'' [(''net'', [10, 0, 0, 2])], tx_Commit] sample_tx = (t', None)"
    by (simp add: sample_run)
  with replaceContainerMetadata_correct [OF sample_keys run] show ?thesis by (simp add: sample_tx_def)
qed

theorem metadata_lookup_witness:
  "GetContainerIDAndNameFromAlias ''srv'' (tx_tables sample_written) = Inr \<lparr>co_ID = ''i'', co_Name = ''web''\<rparr>"
  using metadata_lookup [OF sample_keys sample_run] by (auto simp: containerAliases_def sample_tx_def empty_tables_def)

theorem deleteContainer_correct_witness:
  "\<exists>t'. deleteContainer ''i'' sample_written = (t', None) \<and> \<not> has_container (tx_committed t') ''i''"
proof -
  have live: "\<not> tx_done sample_written" by (simp add: sample_written_def sample_tx_def)
  obtain t' where run: "deleteContainer ''i'' sample_written = (t', None)"
    by (simp add: deleteContainer_def wrap_step_def tx_exec_def sample_written_def sample_tx_def sample_engine_def next_fault_def
        statement_defs has_container_def referenced_def tx_Commit_def sql_commit_def)
  with deleteContainer_correct [OF live run] show ?thesis by simp
qed

theorem clearContainerPolicyMetadata_correct_witness:
  "\<exists>E'. clearContainerPolicyMetadata None ''i'' sample_engine = (E', None) \<and> sq_tables E' = empty_tables"
proof -
  obtain E' where run: "clearContainerPolicyMetadata None ''i'' sample_engine = (E', None)"
    by (simp add: clearContainerPolicyMetadata_def in_transaction_def db_Begin_def dbRetrier_BeginTx_def retryIfBusy_def retries_def
        eval_nat_numeral BeginTx_def next_fault_def sample_engine_def is_busy_def resetContainerPolicy_def wrap_step_def tx_exec_def
        statement_defs tx_Commit_def sql_commit_def tx_Rollback_def empty_tables_def)
  with clearContainerPolicyMetadata_correct [OF run] show ?thesis by (simp add: sample_engine_def empty_tables_def)
qed

end
