(* ===== verification/Deletion_Correct.thy ===== *)
theory Deletion_Correct
  imports Deletion Address_Policy Database_Correct
begin

text \<open>
  What deletion promises. The kernel is cleaned in one batch, all or nothing: after the deletion of a
  container nothing is left of it (its chain, the addresses that lead there, its rules in other chains)
  and everything else is as it was; after a clear no chain, address map or jump of the program is left.
  The database follows the kernel and never runs ahead of it.
\<close>

section \<open>The scan of the chains\<close>

text \<open>The owned chains a scan edits.\<close>

definition scanned :: "string \<Rightarrow> nft_chain list \<Rightarrow> string list" where
  "scanned chainName chs =
     map ch_Name (filter (\<lambda>ch. in_filter ch \<and> owned_name (ch_Name ch) \<and> ch_Name ch \<noteq> chainName) chs)"

definition own_found :: "ruleset \<Rightarrow> string \<Rightarrow> nft_chain list \<Rightarrow> own_chain_rules \<Rightarrow> bool" where
  "own_found k chainName chs own \<longleftrightarrow>
     ((\<exists>ch \<in> set chs. in_filter ch \<and> ch_Name ch = chainName) \<longrightarrow> own \<noteq> None) \<and>
     (\<forall>ch rules. own = Some (ch, rules) \<longrightarrow> ch_Name ch = chainName \<and>
        (\<exists>ch1. rs_chains k chainName = Some (ch1, rules)))"

text \<open>What the scan does to such a chain.\<close>

definition scan_step :: "string \<Rightarrow> ruleset \<Rightarrow> string \<Rightarrow> ruleset \<Rightarrow> ruleset \<Rightarrow> bool" where
  "scan_step cid k n a b \<longleftrightarrow> (rs_chains a n = rs_chains k n \<longrightarrow>
     frame {n} a b \<and> filtered (\<lambda>r. ru_UserData r \<noteq> cid) k n (rs_chains b n))"

lemma in_filter_iff: "in_filter ch \<longleftrightarrow> (case ch_Table ch of None \<Rightarrow> False | Some t \<Rightarrow> t_Name t = filterTableName)"
  by (auto simp: in_filter_def split: option.splits)

lemma delete_selected:
  "deleteRulesFromContainer F rules cid = st_join (fc_DelRule F) (filter (\<lambda>r. ru_UserData r = cid) rules)"
  by (simp add: deleteRulesFromContainer_def eq_commute)

context firewall_client
begin

lemma join_delete_spec:
  assumes "distinct (map ru_Handle rules)" "\<forall>r \<in> set rules. ru_Table r = Some filterTable \<and> ch_Name (ru_Chain r) = n"
  shows "spec (deleteRulesFromContainer F rules cid) (\<lambda>k a b. \<forall>ch. rs_chains a n = Some (ch, rules) \<longrightarrow>
    frame {n} a b \<and> rs_chains b n = Some (ch, filter (\<lambda>r. ru_UserData r \<noteq> cid) rules))"
proof -
  let ?ds = "filter (\<lambda>r. \<not> ru_UserData r \<noteq> cid) rules"
  have "spec (st_join (fc_DelRule F) ?ds) (\<lambda>k. rel_seq (\<lambda>r rs rs'. rs_DelRule r rs = Some rs') ?ds)"
    by (rule edit_spec_join) (use assms(2) in \<open>auto intro: DelRule_spec\<close>)
  then have "spec (st_join (fc_DelRule F) ?ds) (\<lambda>k a b. \<forall>ch. rs_chains a n = Some (ch, rules) \<longrightarrow>
    frame {n} a b \<and> rs_chains b n = Some (ch, filter (\<lambda>r. ru_UserData r \<noteq> cid) rules))"
  proof (rule edit_spec_mono, intro allI impI)
    fix k a b :: ruleset and ch
    assume seq: "rel_seq (\<lambda>r rs rs'. rs_DelRule r rs = Some rs') ?ds a b" and a: "rs_chains a n = Some (ch, rules)"
    have "frame {n} a b \<and> rs_chains b n = Some (ch, remove_handles ?ds rules)"
      by (rule rel_seq_delete [OF seq _ a assms(1)]) (use assms(2) in simp)
    then show "frame {n} a b \<and> rs_chains b n = Some (ch, filter (\<lambda>r. ru_UserData r \<noteq> cid) rules)"
      using remove_handles_filter [OF assms(1)] by simp
  qed
  then show ?thesis by (simp add: delete_selected)
qed

lemma scan_step_spec:
  assumes "ok c" "fc_GetRules F filterTable ch c = Inr rules" "deleteRulesFromContainer F rules cid c = (c1, e)"
  shows "ok c1 \<and> committed c1 = committed c \<and> (e = None \<longrightarrow> (\<forall>b. staged c1 = Some b \<longrightarrow>
    (\<exists>a. staged c = Some a \<and> scan_step cid (committed c) (ch_Name ch) a b)))"
proof -
  obtain ch' where k: "rs_chains (committed c) (ch_Name ch) = Some (ch', rules)"
    using GetRules_committed [OF assms(1,2)] by blast
  note wf = wf_ruleset_chain [OF committed_wf [OF assms(1)] k]
  have "spec (deleteRulesFromContainer F rules cid) (\<lambda>k a b. \<forall>x. rs_chains a (ch_Name ch) = Some (x, rules) \<longrightarrow>
    frame {ch_Name ch} a b \<and> rs_chains b (ch_Name ch) = Some (x, filter (\<lambda>r. ru_UserData r \<noteq> cid) rules))"
    by (rule join_delete_spec) (use wf in blast)+
  with assms(1,3) k show ?thesis unfolding edit_spec_def scan_step_def filtered_def by fastforce
qed

lemma scan_chains_ok:
  assumes "ok c" "scan_chains F chainName cid chs own errs c = (c', res)"
    and "\<forall>ch \<in> set chs. in_filter ch \<longrightarrow> rs_chains (committed c) (ch_Name ch) \<noteq> None"
  shows "ok c' \<and> committed c' = committed c \<and>
    (\<forall>own'. res = Inr (own', []) \<longrightarrow> errs = [] \<and> (own \<noteq> None \<longrightarrow> own' \<noteq> None) \<and>
       (own_found (committed c) chainName [] own \<longrightarrow> own_found (committed c) chainName chs own') \<and>
       (\<forall>b. staged c' = Some b \<longrightarrow> (\<exists>a. staged c = Some a \<and>
          rel_seq (scan_step cid (committed c)) (scanned chainName chs) a b)))"
  using assms
proof (induction chs arbitrary: own errs c)
  case Nil
  then show ?case by (auto simp: scanned_def)
next
  case (Cons ch chs)
  note run = Cons.prems(2)
  have listed: "\<forall>ch \<in> set chs. in_filter ch \<longrightarrow> rs_chains (committed c) (ch_Name ch) \<noteq> None"
    using Cons.prems(3) by simp
  note IH = Cons.IH [OF Cons.prems(1) _ listed]
  show ?case
  proof (cases "in_filter ch \<and> (ch_Name ch = chainName \<or> owned_name (ch_Name ch))")
    case False
    then have sc: "scanned chainName (ch # chs) = scanned chainName chs"
      "own_found (committed c) chainName (ch # chs) = own_found (committed c) chainName chs"
      by (auto simp: scanned_def own_found_def)
    show ?thesis
    proof (cases "ch_Table ch")
      case None
      with run Cons.prems(1) show ?thesis by auto
    next
      case (Some t)
      with run False have "scan_chains F chainName cid chs own errs c = (c', res)"
        by (auto simp: in_filter_iff split: if_splits)
      then show ?thesis unfolding sc by (rule IH)
    qed
  next
    case here: True
    then obtain t where t: "ch_Table ch = Some t" "t_Name t = filterTableName"
      by (auto simp: in_filter_def)
    have bad: ?thesis if "scan_chains F chainName cid chs o2 (errs @ [e]) c = (c', res)" for o2 e
      using IH [OF that] by simp
    show ?thesis
    proof (cases "validateRegularOwnedChain ch")
      case (Some e)
      with run t here bad show ?thesis by (auto split: if_splits)
    next
      case valid: None
      show ?thesis
      proof (cases "fc_GetRules F filterTable ch c")
        case (Inl e)
        have "\<not> errors_is e (Errno ENOENT)"
          using GetRules_missing [OF Cons.prems(1) Inl] Cons.prems(3) here by auto
        with Inl run t here valid bad show ?thesis by (auto split: if_splits)
      next
        case (Inr rules)
        show ?thesis
        proof (cases "ch_Name ch = chainName")
          case True
          with Inr run t valid have "scan_chains F chainName cid chs (Some (ch, rules)) errs c = (c', res)" by simp
          note IH [OF this]
          moreover have "own_found (committed c) chainName [] (Some (ch, rules))"
            using GetRules_committed [OF Cons.prems(1) Inr] True by (auto simp: own_found_def)
          moreover have "scanned chainName (ch # chs) = scanned chainName chs" using True by (simp add: scanned_def)
          ultimately show ?thesis by (auto simp: own_found_def)
        next
          case False
          obtain c1 e where del: "deleteRulesFromContainer F rules cid c = (c1, e)" by force
          note step = scan_step_spec [OF Cons.prems(1) Inr del]
          have sc: "scanned chainName (ch # chs) = ch_Name ch # scanned chainName chs"
            "own_found (committed c) chainName (ch # chs) = own_found (committed c) chainName chs"
            using False here by (auto simp: scanned_def own_found_def)
          show ?thesis
          proof (cases e)
            case None
            with False here Inr run t valid del have go: "scan_chains F chainName cid chs own errs c1 = (c', res)" by simp
            have "\<forall>ch \<in> set chs. in_filter ch \<longrightarrow> rs_chains (committed c1) (ch_Name ch) \<noteq> None"
              using listed step by simp
            from Cons.IH [OF _ go this] step None show ?thesis by (simp only: sc rel_seq.simps) metis
          next
            case (Some x)
            with False here Inr run t valid del
            have go: "scan_chains F chainName cid chs own (errs @ [Wrap ''delete rules from chain'' x]) c1 = (c', res)" by simp
            have "\<forall>ch \<in> set chs. in_filter ch \<longrightarrow> rs_chains (committed c1) (ch_Name ch) \<noteq> None"
              using listed step by simp
            from Cons.IH [OF _ go this] step show ?thesis by simp
          qed
        qed
      qed
    qed
  qed
qed

end

section \<open>The container's addresses and its own chain\<close>

lemma mappings_to_ok:
  assumes "mappings_to N n els = Inr ms"
  shows "el_Key ` set ms = el_Key ` {e \<in> set els. vd_Chain (verdict_in N e) = n}"
  using assms
proof (induction els arbitrary: ms)
  case (Cons e els)
  then obtain v ms1 where v: "containerMappingVerdict N e = Inr v" "mappings_to N n els = Inr ms1"
    "ms = (if vd_Chain v = n then key_element (el_Key e) # ms1 else ms1)" by (auto split: sum.splits)
  note IH = Cons.IH [OF v(2)]
  have "{x \<in> set (e # els). vd_Chain (verdict_in N x) = n} =
      (if vd_Chain v = n then insert e {x \<in> set els. vd_Chain (verdict_in N x) = n} else {x \<in> set els. vd_Chain (verdict_in N x) = n})"
    using verdict_in_eq [OF v(1)] by auto
  with IH v(3) show ?case by simp
qed simp

lemma mappings_deleted:
  assumes "distinct (map el_Key els)" "mappings_to N n els = Inr ms" "delete_elements els ms = Some els'"
  shows "els' = filter (\<lambda>e. vd_Chain (verdict_in N e) \<noteq> n) els"
proof -
  have inj: "inj_on el_Key (set els)" using assms(1) by (simp add: distinct_map)
  have "els' = keyless (el_Key ` {e \<in> set els. vd_Chain (verdict_in N e) = n}) els"
    using delete_elements_keyless [OF assms(1,3)] mappings_to_ok [OF assms(2)] by simp
  also have "\<dots> = filter (\<lambda>e. vd_Chain (verdict_in N e) \<noteq> n) els"
    unfolding keyless_def
  proof (rule filter_cong [OF refl])
    fix e assume e: "e \<in> set els"
    show "(el_Key e \<notin> el_Key ` {e \<in> set els. vd_Chain (verdict_in N e) = n}) = (vd_Chain (verdict_in N e) \<noteq> n)"
      using inj e by (auto simp: inj_on_def)
  qed
  finally show ?thesis .
qed

lemma rs_DelChain_effect: "frame {ch_Name ch} a (rs_DelChain ch a)" "rs_chains (rs_DelChain ch a) (ch_Name ch) = None"
  by (simp_all add: frame_def rs_DelChain_def)

context firewall_client
begin

lemma DelChain_spec:
  "spec (\<lambda>c. (fc_DelChain F ch c, None)) (\<lambda>k a b. b = rs_DelChain ch a \<and> \<not> rs_refers a (ch_Name ch))"
  by (rule edit_spec_pure) (use DelChain_ok DelChain_staged in blast)+

lemma delete_own_spec:
  assumes "ch_Name ch = n" "\<forall>r \<in> set rules. ru_Table r = Some filterTable \<and> ch_Name (ru_Chain r) = n"
  shows "spec (delete_own F (Some (ch, rules))) (\<lambda>k a b. (\<exists>ch0 rules0. rs_chains a n = Some (ch0, rules0) \<and> distinct (map ru_Handle rules0)) \<longrightarrow>
    frame {n} a b \<and> rs_chains b n = None)"
  unfolding delete_own_def option.case prod.case
proof (rule edit_spec_mono [OF edit_spec_Cons [OF wrap_step_spec [OF delete_rules_spec [OF assms(2)]]
      edit_spec_Cons [OF DelChain_spec edit_spec_Nil]]], intro impI)
  fix k a b
  assume "\<exists>m. (\<forall>ch rules'. rs_chains a n = Some (ch, rules') \<longrightarrow> distinct (map ru_Handle rules') \<longrightarrow>
      frame {n} a m \<and> rs_chains m n = Some (ch, remove_handles rules rules')) \<and>
      (\<exists>ma. (ma = rs_DelChain ch m \<and> \<not> rs_refers m (ch_Name ch)) \<and> ma = b)"
    and "\<exists>ch0 rules0. rs_chains a n = Some (ch0, rules0) \<and> distinct (map ru_Handle rules0)"
  then obtain m where m: "frame {n} a m" "b = rs_DelChain ch m" by blast
  have "frame {n} m b" "rs_chains b n = None"
    using rs_DelChain_effect [of ch m] assms(1) m(2) by simp_all
  with frame_trans [OF m(1), of "{n}" b] show "frame {n} a b \<and> rs_chains b n = None" by simp
qed

end

section \<open>The deletion of a container\<close>

text \<open>The kernel after the deletion of a container: its chain is gone, and so are the addresses that led
  there and the rules in the program's other chains that carry its id; nothing else has changed.\<close>

definition container_cleaned :: "netlink_lib \<Rightarrow> string \<Rightarrow> ruleset \<Rightarrow> ruleset \<Rightarrow> bool" where
  "container_cleaned N cid old new \<longleftrightarrow>
     (\<forall>n. rs_chains new n =
        (if n = chainPrefix @ cid then None
         else if owned_name n then
           map_option (\<lambda>(ch, rules). (ch, filter (\<lambda>r. ru_UserData r \<noteq> cid) rules)) (rs_chains old n)
         else rs_chains old n)) \<and>
     (\<exists>s els. rs_sets old containerAddrSetName = Some (s, els) \<and>
        rs_sets new containerAddrSetName =
          Some (s, filter (\<lambda>e. vd_Chain (verdict_in N e) \<noteq> chainPrefix @ cid) els)) \<and>
     (\<forall>m. \<not> is_anon_name m \<longrightarrow> m \<noteq> containerAddrSetName \<longrightarrow> rs_sets new m = rs_sets old m)"

text \<open>The batch of edits, from the committed ruleset on.\<close>

definition own_step :: "ruleset \<Rightarrow> string \<Rightarrow> ruleset \<Rightarrow> ruleset \<Rightarrow> bool" where
  "own_step k n a b \<longleftrightarrow>
     (rs_chains k n \<noteq> None \<longrightarrow> rs_chains a n = rs_chains k n \<longrightarrow> frame {n} a b \<and> rs_chains b n = None) \<and>
     (rs_chains k n = None \<longrightarrow> b = a)"

lemma commit_chain_kept:
  assumes "rs_commits old b new" "wf_ruleset k" "rs_chains k n = Some (ch, rules)"
    "rs_chains b n = Some (ch, filter P rules)"
  shows "rs_chains new n = Some (ch, filter P rules)"
  by (rule commit_chain_settled [OF assms(1,4)]) (use wf_ruleset_chain(4) [OF assms(2,3)] in simp)

lemma commit_chain_gone: "rs_commits old b new \<Longrightarrow> rs_chains b n = None \<Longrightarrow> rs_chains new n = None"
  by (simp add: rs_commits_def committed_chains_def)

lemma container_batch:
  assumes wf: "wf_ruleset k" and d: "\<forall>s els. rs_sets k containerAddrSetName = Some (s, els) \<longrightarrow> distinct (map el_Key els)"
    and listed: "\<forall>ch. ch \<in> set chs \<and> in_filter ch \<longleftrightarrow> (\<exists>rules. rs_chains k (ch_Name ch) = Some (ch, rules))"
    and dn: "distinct (map ch_Name (filter in_filter chs))"
    and scan: "rel_seq (scan_step cid k) (scanned n chs) k m1" and n: "n = chainPrefix @ cid"
    and els: "rs_sets k containerAddrSetName = Some (s, els)" and ms: "mappings_to N n els = Inr ms"
    and del: "map_edited (\<lambda>els els'. delete_elements els ms = Some els') m1 m2"
    and own_step: "own_step k n m2 b"
    and commit: "rs_commits k b new"
  shows "container_cleaned N cid k new"
proof -
  let ?ns = "scanned n chs"
  have "distinct (map ch_Name (filter (\<lambda>ch. owned_name (ch_Name ch) \<and> ch_Name ch \<noteq> n) (filter in_filter chs)))"
    by (rule distinct_map_filter [OF dn])
  then have dns: "distinct ?ns" by (simp add: scanned_def conj_commute conj_left_commute)
  have fr: "frame (set ?ns) k m1 \<and> (\<forall>x \<in> set ?ns. filtered (\<lambda>r. ru_UserData r \<noteq> cid) k x (rs_chains m1 x))"
    by (rule rel_seq_frames [OF scan dns, of k "\<lambda>x. filtered (\<lambda>r. ru_UserData r \<noteq> cid) k x"])
      (simp_all add: scan_step_def)
  have mem: "x \<in> set ?ns \<longleftrightarrow> owned_name x \<and> x \<noteq> n \<and> rs_chains k x \<noteq> None" for x
  proof
    assume "x \<in> set ?ns"
    then obtain ch where "ch \<in> set chs" "in_filter ch" "owned_name x" "x \<noteq> n" "ch_Name ch = x"
      by (auto simp: scanned_def)
    with listed show "owned_name x \<and> x \<noteq> n \<and> rs_chains k x \<noteq> None" by blast
  next
    assume x: "owned_name x \<and> x \<noteq> n \<and> rs_chains k x \<noteq> None"
    then obtain ch rules where ch: "rs_chains k x = Some (ch, rules)" by auto
    moreover have "ch_Name ch = x" by (rule wf_ruleset_chain(1) [OF wf ch])
    ultimately have "ch \<in> set chs \<and> in_filter ch" using listed by blast
    with x \<open>ch_Name ch = x\<close> show "x \<in> set ?ns" by (auto simp: scanned_def)
  qed
  have m2: "rs_chains m2 = rs_chains m1" using del by (simp add: map_edited_def)
  have "rs_chains m2 n = rs_chains k n"
    using fr m2 mem [of n] by (simp add: frame_def)
  with own_step have own: "rs_chains k n \<noteq> None \<longrightarrow> frame {n} m2 b \<and> rs_chains b n = None" "rs_chains k n = None \<longrightarrow> b = m2"
    by (simp_all add: own_step_def)
  have b: "rs_chains b x = rs_chains m1 x" if "x \<noteq> n" for x
    using own m2 that frame_chain by (cases "rs_chains k n = None") auto
  have setsb: "rs_sets b m = rs_sets m2 m" if "\<not> is_anon_name m" for m
    using own that frame_set by (cases "rs_chains k n = None") auto
  have chains: "rs_chains new x =
        (if x = n then None
         else if owned_name x then
           map_option (\<lambda>(ch, rules). (ch, filter (\<lambda>r. ru_UserData r \<noteq> cid) rules)) (rs_chains k x)
         else rs_chains k x)" for x
  proof (cases "rs_chains k x")
    case None
    then have "rs_chains b x = None"
    proof (cases "x = n")
      case True
      with own None show ?thesis using m2 mem [of x] fr by (simp add: frame_def)
    next
      case False
      with b [OF False] None mem [of x] fr show ?thesis by (simp add: frame_def)
    qed
    with commit_chain_gone [OF commit] None show ?thesis by simp
  next
    case (Some p)
    obtain ch rules where k: "rs_chains k x = Some (ch, rules)" using Some by (cases p) simp
    show ?thesis
    proof (cases "x = n")
      case True
      with own k commit_chain_gone [OF commit, of x] show ?thesis by simp
    next
      case x: False
      let ?P = "\<lambda>r. owned_name x \<longrightarrow> ru_UserData r \<noteq> cid"
      have "rs_chains b x = Some (ch, filter ?P rules)"
      proof (cases "owned_name x")
        case True
        with x k mem [of x] fr b [OF x] show ?thesis by (auto simp: filtered_def)
      next
        case False
        with x k mem [of x] fr b [OF x] show ?thesis by (simp add: frame_def)
      qed
      with commit_chain_kept [OF commit wf k this] x k show ?thesis by simp
    qed
  qed
  have m1: "rs_sets m1 m = rs_sets k m" if "\<not> is_anon_name m" for m
    using fr that by (simp add: frame_def)
  have "rs_sets m1 containerAddrSetName = Some (s, els)" using m1 els by simp
  with del obtain els' where els': "rs_sets m2 containerAddrSetName = Some (s, els')" "delete_elements els ms = Some els'"
    unfolding map_edited_def by blast
  have "els' = filter (\<lambda>e. vd_Chain (verdict_in N e) \<noteq> n) els"
    by (rule mappings_deleted [OF _ ms els'(2)]) (use d els in blast)
  then have "rs_sets new containerAddrSetName = Some (s, filter (\<lambda>e. vd_Chain (verdict_in N e) \<noteq> n) els)"
    using commit_named_set [OF commit] setsb els'(1) by simp
  moreover have "rs_sets new m = rs_sets k m" if "\<not> is_anon_name m" "m \<noteq> containerAddrSetName" for m
    using commit_named_set [OF commit that(1)] setsb [OF that(1)] m1 [OF that(1)] del that by (simp add: map_edited_def)
  ultimately show ?thesis using chains els n unfolding container_cleaned_def by blast
qed

context firewall_client
begin

lemma delete_found_spec:
  assumes k: "wf_ruleset k" "\<forall>ch. ch \<in> set chs \<and> in_filter ch \<longleftrightarrow> (\<exists>rules. rs_chains k (ch_Name ch) = Some (ch, rules))"
    and own: "own_found k n chs own"
  shows "spec (delete_own F own) (\<lambda>_. own_step k n)"
proof (cases own)
  case None
  have "rs_chains k n = None"
  proof (rule ccontr)
    assume "rs_chains k n \<noteq> None"
    then obtain ch rules where ch: "rs_chains k n = Some (ch, rules)" by auto
    moreover have "ch_Name ch = n" by (rule wf_ruleset_chain(1) [OF k(1) ch])
    ultimately have "ch \<in> set chs \<and> in_filter ch" using k(2) by metis
    with \<open>ch_Name ch = n\<close> own None show False by (auto simp: own_found_def)
  qed
  with None show ?thesis by (simp add: delete_own_def own_step_def edit_spec_skip)
next
  case (Some q)
  obtain ch rules where q: "own = Some (ch, rules)" using Some by (cases q) simp
  with own obtain ch1 where ch: "ch_Name ch = n" "rs_chains k n = Some (ch1, rules)"
    by (auto simp: own_found_def)
  have "\<forall>r \<in> set rules. ru_Table r = Some filterTable \<and> ch_Name (ru_Chain r) = n"
    using wf_ruleset_chain(4) [OF k(1) ch(2)] by simp
  from delete_own_spec [OF ch(1) this] show ?thesis
    unfolding q by (rule edit_spec_mono) (use ch(2) wf_ruleset_chain(3) [OF k(1) ch(2)] in \<open>simp add: own_step_def\<close>)
qed

text \<open>Either the deletion gives up before anything is committed, or it comes to its batch.\<close>

lemma deleteContainerFirewall_cases:
  assumes c: "ok c" and run: "deleteContainerFirewall F N cid name c = (c', e)"
  obtains (early) "ok c'" "committed c' = committed c" "e \<noteq> None"
  | (batch) chs c2 own els ms where
    "(\<forall>ch \<in> set chs. ch_Table ch \<noteq> None) \<and> distinct (map ch_Name (filter in_filter chs)) \<and>
      (\<forall>ch. ch \<in> set chs \<and> in_filter ch \<longleftrightarrow> (\<exists>rules. rs_chains (committed c) (ch_Name ch) = Some (ch, rules)))"
    "ok c2" "committed c2 = committed c" "own_found (committed c) (chainPrefix @ cid) chs own"
    "\<forall>a. staged c2 = Some a \<longrightarrow>
      rel_seq (scan_step cid (committed c)) (scanned (chainPrefix @ cid) chs) (committed c) a"
    "fc_GetSetElements F containerAddressSet c2 = Inr els" "mappings_to N (chainPrefix @ cid) els = Inr ms"
    "st_seq [st_seq [unless_empty ms (wrap_step ''error marshaling container address mapping deletion''
        (fc_SetDeleteElements F containerAddressSet ms)), delete_own F own],
      flush_wrap ''incomplete firewall cleanup'' F] c2 = (c', e)"
proof -
  let ?n = "chainPrefix @ cid"
  note def = deleteContainerFirewall_def buildChainName_def
  obtain c1 e1 where new: "fc_New F c = (c1, e1)" by force
  have c1: "ok c1" "committed c1 = committed c" using New_ok [OF c new] by simp_all
  show thesis
  proof (cases "e1 = None \<and> (\<exists>chs. fc_ListChainsOfTableFamily F TableFamilyIPv4 c1 = Inr chs)")
    case False
    then show thesis using new run c1 early by (auto simp: def split: option.splits sum.splits)
  next
    case True
    then obtain chs where list: "e1 = None" "fc_ListChainsOfTableFamily F TableFamilyIPv4 c1 = Inr chs" by blast
    note law = ListChains_committed [OF c1(1) list(2)]
    obtain c2 res where scan: "scan_chains F ?n cid chs None [] c1 = (c2, res)" by force
    have "\<forall>ch \<in> set chs. in_filter ch \<longrightarrow> rs_chains (committed c1) (ch_Name ch) \<noteq> None" using law by blast
    note sc = scan_chains_ok [OF c1(1) scan this]
    have c2: "ok c2" "committed c2 = committed c" using sc c1 by simp_all
    show thesis
    proof (cases "\<exists>own els ms. res = Inr (own, []) \<and> fc_GetSetElements F containerAddressSet c2 = Inr els \<and> mappings_to N ?n els = Inr ms")
      case False
      then show thesis using new list scan run c2 early
        by (auto simp: def errors_join_def map_filter_def split: sum.splits list.splits)
    next
      case True
      then obtain own els ms where go: "res = Inr (own, [])" "fc_GetSetElements F containerAddressSet c2 = Inr els"
        "mappings_to N ?n els = Inr ms" by blast
      have "own_found (committed c) ?n chs own" using sc go(1) c1(2) by (simp add: own_found_def)
      moreover have "\<forall>a. staged c2 = Some a \<longrightarrow> rel_seq (scan_step cid (committed c)) (scanned ?n chs) (committed c) a"
        using sc go(1) c1(2) New_staged [OF c new [unfolded list(1)]] by auto
      moreover have "st_seq [st_seq [unless_empty ms (wrap_step ''error marshaling container address mapping deletion''
          (fc_SetDeleteElements F containerAddressSet ms)), delete_own F own],
        flush_wrap ''incomplete firewall cleanup'' F] c2 = (c', e)"
        using new list scan run go unfolding st_seq_snoc [symmetric]
        by (simp add: def errors_join_def map_filter_simps del: st_seq.simps)
      ultimately show thesis using law c1(2) c2 go(2,3) by (intro batch) simp_all
    qed
  qed
qed

lemma deleteContainerFirewall_ok:
  assumes c: "ok c" "\<And>s els. rs_sets (committed c) containerAddrSetName = Some (s, els) \<Longrightarrow> distinct (map el_Key els)"
    and run: "deleteContainerFirewall F N cid name c = (c', e)"
  shows "ok c' \<and> (e \<noteq> None \<longrightarrow> committed c' = committed c) \<and>
    (e = None \<longrightarrow> container_cleaned N cid (committed c) (committed c'))"
  using c(1) run
proof (cases rule: deleteContainerFirewall_cases)
  case early
  then show ?thesis by auto
next
  case (batch chs c2 own els ms)
  note wf = committed_wf [OF c(1)]
  note own = delete_found_spec [OF wf conjunct2 [OF conjunct2 [OF batch(1)]] batch(4)]
  note sp = edit_spec_Cons [OF delete_mappings_spec edit_spec_Cons [OF own edit_spec_Nil]]
  note fl = flush_spec [OF sp batch(2) batch(8)]
  have "container_cleaned N cid (committed c) (committed c')" if "e = None"
  proof -
    from fl that batch(3) obtain a m2 b where a: "staged c2 = Some a"
      and m2: "map_edited (\<lambda>els els'. delete_elements els ms = Some els') a m2"
      and b: "own_step (committed c) (chainPrefix @ cid) m2 b"
      and commit: "rs_commits (committed c) b (committed c')" by auto
    obtain s where s: "rs_sets (committed c) containerAddrSetName = Some (s, els)"
      using GetSetElements_committed [OF batch(2) _ batch(6)] batch(3) by auto
    show ?thesis
      by (rule container_batch [OF wf _ _ _ _ refl s batch(7) m2 b commit]) (use batch(1,5) a c(2) in blast)+
  qed
  with fl batch(3) show ?thesis by simp
qed

end

lemma wrapped_deletion_spec:
  assumes "in_transaction ctxErr (wrap_step msg (deleteContainer cid)) E = (E', e)"
  shows "(e \<noteq> None \<longrightarrow> sq_tables E' = sq_tables E) \<and> (e = None \<longrightarrow> container_removed cid (sq_tables E) (sq_tables E'))"
proof -
  obtain e2 where run: "in_transaction ctxErr (deleteContainer cid) E = (E', e2)" "(e = None) = (e2 = None)"
    using assms by (auto simp: in_transaction_def wrap_step_def split: prod.splits sum.splits option.splits)
  let ?del = "[wrap_step ''error deleting container addrs in database'' (tx_exec (DeleteContainerAddrs cid)),
      wrap_step ''error deleting container aliases in database'' (tx_exec (DeleteContainerAliases cid)),
      wrap_step ''error deleting established container in database'' (tx_exec (DeleteEstContainers cid cid)),
      wrap_step ''error deleting waiting container rules in database'' (tx_exec (DeleteWaitingContainerRules cid)),
      wrap_step ''error deleting container in database'' (tx_exec (DeleteContainer cid))]"
  have "deleteContainer cid = st_seq [st_seq ?del, tx_Commit]"
    by (rule ext) (simp only: deleteContainer_def st_seq_snoc [symmetric] append.simps)
  from in_transaction_spec [OF deleteContainer_spec run(1) [unfolded this]] run(2) show ?thesis by auto
qed

lemma untracked_deletion:
  assumes "firewall_client F ok committed staged" and "ok c"
    and "\<forall>s els. rs_sets (committed c) containerAddrSetName = Some (s, els) \<longrightarrow> distinct (map el_Key els)"
    and "deleteContainerRulesUntracked F N ctxErr cid name (c, E) = ((c', E'), e)"
  shows "ok c' \<and>
    (e = None \<longrightarrow> container_cleaned N cid (committed c) (committed c') \<and> container_removed cid (sq_tables E) (sq_tables E')) \<and>
    (e \<noteq> None \<longrightarrow> sq_tables E' = sq_tables E \<and>
       (committed c' = committed c \<or> container_cleaned N cid (committed c) (committed c')))"
proof -
  obtain c1 e1 where fw: "deleteContainerFirewall F N cid name c = (c1, e1)" by force
  note k = firewall_client.deleteContainerFirewall_ok [OF assms(1,2) _ fw]
  show ?thesis
  proof (cases e1)
    case (Some x)
    with fw assms(3,4) k show ?thesis by (auto simp: deleteContainerRulesUntracked_def)
  next
    case None
    obtain E1 e2 where db: "in_transaction ctxErr (wrap_step ''error deleting container from database'' (deleteContainer cid)) E = (E1, e2)"
      by force
    with None fw assms(4) have "c' = c1" "E' = E1" "e = e2" by (auto simp: deleteContainerRulesUntracked_def)
    with wrapped_deletion_spec [OF db] k assms(3) None show ?thesis by blast
  qed
qed

text \<open>C27: Deleting a container's rules. The kernel is cleaned of the container in one batch or not touched;
  the database loses the container's rows only after that, in one transaction. So on success both are
  clean; on an error the database is unchanged, and the kernel is either unchanged or clean. When the
  tracker reports that the container's creation was cancelled instead, nothing is done.\<close>

theorem deleteContainerRules_correct:
  assumes "firewall_client F ok committed staged" and "ok c"
    and "\<forall>s els. rs_sets (committed c) containerAddrSetName = Some (s, els) \<longrightarrow> distinct (map el_Key els)"
    and "deleteContainerRules F N ctxErr start cid name (c, E) = ((c', E'), e)"
  shows "if start cid then
      (e = None \<longrightarrow> container_cleaned N cid (committed c) (committed c') \<and> container_removed cid (sq_tables E) (sq_tables E')) \<and>
      (e \<noteq> None \<longrightarrow> sq_tables E' = sq_tables E \<and>
         (committed c' = committed c \<or> container_cleaned N cid (committed c) (committed c')))
    else c' = c \<and> E' = E \<and> e = None"
proof (cases "start cid")
  case True
  with assms(4) have "deleteContainerRulesUntracked F N ctxErr cid name (c, E) = ((c', E'), e)"
    by (simp add: deleteContainerRules_def)
  from untracked_deletion [OF assms(1-3) this] True show ?thesis by simp
qed (use assms(4) in \<open>simp add: deleteContainerRules_def\<close>)

section \<open>Clearing everything\<close>

definition jump_sources :: "string list" where
  "jump_sources = [dockerChainName, inputChainName, outputChainName]"

lemma jump_sources_simps:
  "distinct jump_sources" "n \<in> set jump_sources \<Longrightarrow> \<not> owned_name n"
  by (auto simp: jump_sources_def owned_name_def HasPrefix_def name_defs)

text \<open>The edits of the three stages, on the chain each works on.\<close>

definition without_jumps :: "(nft_chain \<times> nft_rule list) option \<Rightarrow> (nft_chain \<times> nft_rule list) option" where
  "without_jumps x = map_option (\<lambda>(ch, rules). (ch, filter (\<lambda>r. \<not> is_whalewall_jump r) rules)) x"

definition jump_step :: "ruleset \<Rightarrow> string \<Rightarrow> ruleset \<Rightarrow> ruleset \<Rightarrow> bool" where
  "jump_step k n a b \<longleftrightarrow> (rs_chains a n = rs_chains k n \<longrightarrow>
     frame {n} a b \<and> rs_chains b n = without_jumps (rs_chains k n))"

definition empty_step :: "ruleset \<Rightarrow> string \<Rightarrow> ruleset \<Rightarrow> ruleset \<Rightarrow> bool" where
  "empty_step k n a b \<longleftrightarrow> (rs_chains a n = rs_chains k n \<longrightarrow>
     frame {n} a b \<and> (\<exists>ch. rs_chains b n = Some (ch, [])))"

definition drop_step :: "nft_chain \<Rightarrow> ruleset \<Rightarrow> ruleset \<Rightarrow> bool" where
  "drop_step ch a b \<longleftrightarrow> b = rs_DelChain ch a \<and> \<not> rs_refers a (ch_Name ch)"

definition joined :: "('c \<Rightarrow> 'c \<times> error option list) \<Rightarrow> 'c \<Rightarrow> 'c \<times> error option" where
  "joined g c = (case g c of (c, es) \<Rightarrow> (c, errors_join es))"

lemma joined_seq:
  "joined (\<lambda>c. case g c of (c, es) \<Rightarrow> (case h c of (c, rest) \<Rightarrow> (c, es @ rest))) c = (c', None) \<longleftrightarrow>
   (\<exists>m. joined g c = (m, None) \<and> joined h m = (c', None))"
  by (auto simp: joined_def errors_join_None_iff split: prod.splits)

lemma joined_state: "fst (joined g c) = fst (g c)"
  by (simp add: joined_def split: prod.splits)

context firewall_client
begin

lemma joined_seq_spec:
  assumes "spec (joined g) R" "spec (joined h) S"
  shows "spec (joined (\<lambda>c. case g c of (c, es) \<Rightarrow> (case h c of (c, rest) \<Rightarrow> (c, es @ rest))))
    (\<lambda>k a b. \<exists>m. R k a m \<and> S k m b)" (is "spec (joined ?f) _")
proof (rule edit_spec_step)
  have keep: "ok c' \<and> committed c' = committed c" if "spec (joined q) Q" "ok c" "q c = (c', es)" for q c c' es Q
  proof -
    have "joined q c = (c', errors_join es)" using that(3) by (simp add: joined_def)
    with that(1,2) show ?thesis unfolding edit_spec_def by blast
  qed
  show "ok c' \<and> committed c' = committed c" if "ok c" "joined ?f c = (c', e)" for c c' e
  proof -
    obtain c1 es where g: "g c = (c1, es)" by force
    obtain c2 rest where h: "h c1 = (c2, rest)" by force
    note c1 = keep [OF assms(1) that(1) g]
    with keep [OF assms(2) conjunct1 [OF c1] h] that(2) g h show ?thesis by (simp add: joined_def)
  qed
  show "\<exists>rs. staged c = Some rs \<and> (\<exists>m. R (committed c) rs m \<and> S (committed c) m b)"
    if st: "ok c" "joined ?f c = (c', None)" "staged c' = Some b" for c c' b
  proof -
    obtain m where m: "joined g c = (m, None)" "joined h m = (c', None)"
      using st(2) unfolding joined_seq by blast
    then have "ok m" "committed m = committed c" using assms(1) st(1) unfolding edit_spec_def by blast+
    with assms m st show ?thesis unfolding edit_spec_def by metis
  qed
qed

lemma clear_jump_spec:
  assumes M: "marshal_ok M"
  shows "spec (joined (clear_jump F M n)) (\<lambda>k. jump_step k n)"
  unfolding edit_spec_def
proof (intro allI impI)
  fix c c' e
  assume c: "ok c" and run: "joined (clear_jump F M n) c = (c', e)"
  let ?G = "ok c' \<and> committed c' = committed c \<and> (e = None \<longrightarrow> (\<forall>b. staged c' = Some b \<longrightarrow>
      (\<exists>a. staged c = Some a \<and> jump_step (committed c) n a b)))"
  have name: "ch_Name (jump_source n) = n" by (simp add: jump_source_def)
  show ?G
  proof (cases "fc_GetRules F filterTable (jump_source n) c")
    case (Inl x)
    have "jump_step (committed c) n a a" if "errors_is x (Errno ENOENT)" for a
      using GetRules_missing [OF c Inl that] name by (simp add: jump_step_def without_jumps_def)
    with Inl run c show ?thesis by (auto simp: joined_def clear_jump_def errors_join_None_iff Let_def split: if_splits)
  next
    case (Inr rules)
    obtain ch where k: "rs_chains (committed c) n = Some (ch, rules)"
      using GetRules_committed [OF c Inr] name by auto
    note wf = wf_ruleset_chain [OF committed_wf [OF c] k]
    let ?P = "\<lambda>r. \<not> is_whalewall_jump r"
    have eq: "filter (\<lambda>r. rulesEqual M (createJumpRule (jump_source n) whalewallChainName) r) rules = filter (\<lambda>r. \<not> ?P r) rules"
      by (rule filter_cong [OF refl]) (use rulesEqual_jump [OF M] wf(4) in simp)
    have "spec (st_join (\<lambda>r. wrap_step ''delete jump from chain'' (fc_DelRule F r)) (filter (\<lambda>r. \<not> ?P r) rules))
        (\<lambda>k. rel_seq (\<lambda>r rs rs'. rs_DelRule r rs = Some rs') (filter (\<lambda>r. \<not> ?P r) rules))"
      by (rule edit_spec_join) (use wf(4) in \<open>auto intro!: wrap_step_spec DelRule_spec\<close>)
    moreover have "st_join (\<lambda>r. wrap_step ''delete jump from chain'' (fc_DelRule F r)) (filter (\<lambda>r. \<not> ?P r) rules) c = (c', e)"
      using run Inr eq by (simp add: joined_def clear_jump_def st_join_def Let_def)
    ultimately have st: "ok c' \<and> committed c' = committed c \<and> (e = None \<longrightarrow> (\<forall>b. staged c' = Some b \<longrightarrow> (\<exists>a. staged c = Some a \<and>
        rel_seq (\<lambda>r rs rs'. rs_DelRule r rs = Some rs') (filter (\<lambda>r. \<not> ?P r) rules) a b)))"
      using c unfolding edit_spec_def by blast
    have "jump_step (committed c) n a b" if seq: "rel_seq (\<lambda>r rs rs'. rs_DelRule r rs = Some rs') (filter (\<lambda>r. \<not> ?P r) rules) a b" for a b
      unfolding jump_step_def
    proof
      assume "rs_chains a n = rs_chains (committed c) n"
      then have a: "rs_chains a n = Some (ch, rules)" using k by simp
      have "frame {n} a b \<and> rs_chains b n = Some (ch, remove_handles (filter (\<lambda>r. \<not> ?P r) rules) rules)"
        by (rule rel_seq_delete [OF seq _ a wf(3)]) (use wf(4) in simp)
      then show "frame {n} a b \<and> rs_chains b n = without_jumps (rs_chains (committed c) n)"
        using remove_handles_filter [OF wf(3), of "\<lambda>r. \<not> ?P r"] k by (simp add: without_jumps_def)
    qed
    with st show ?thesis by blast
  qed
qed

lemma clear_jumps_spec:
  "marshal_ok M \<Longrightarrow> spec (joined (clear_jumps F M ns)) (\<lambda>k. rel_seq (jump_step k) ns)"
proof (induction ns)
  case Nil
  have eq: "joined (clear_jumps F M []) = (\<lambda>c. (c, None))" by (rule ext) (simp add: joined_def errors_join_def map_filter_simps)
  show ?case unfolding eq rel_seq.simps by (rule edit_spec_skip) (rule refl)
next
  case (Cons n ns)
  have eq: "clear_jumps F M (n # ns) = (\<lambda>c. case clear_jump F M n c of (c, es) \<Rightarrow> (case clear_jumps F M ns c of (c, rest) \<Rightarrow> (c, es @ rest)))"
    by (rule ext) simp
  from joined_seq_spec [OF clear_jump_spec [OF Cons.prems] Cons.IH [OF Cons.prems], of n]
  show ?case unfolding eq rel_seq.simps .
qed

end

text \<open>Emptying the owned chains.\<close>

definition owned_chains :: "nft_chain list \<Rightarrow> nft_chain list" where
  "owned_chains chs = filter (\<lambda>ch. in_filter ch \<and> owned_name (ch_Name ch)) chs"

context firewall_client
begin

lemma empty_step_spec:
  assumes "ok c" "fc_GetRules F filterTable ch c = Inr rules" "wrap_step msg (delete_rules F rules) c = (c1, e)"
  shows "ok c1 \<and> committed c1 = committed c \<and> (e = None \<longrightarrow> (\<forall>b. staged c1 = Some b \<longrightarrow>
    (\<exists>a. staged c = Some a \<and> empty_step (committed c) (ch_Name ch) a b)))"
proof -
  obtain ch' where k: "rs_chains (committed c) (ch_Name ch) = Some (ch', rules)"
    using GetRules_committed [OF assms(1,2)] by blast
  note wf = wf_ruleset_chain [OF committed_wf [OF assms(1)] k]
  have "\<forall>r \<in> set rules. ru_Table r = Some filterTable \<and> ch_Name (ru_Chain r) = ch_Name ch" using wf(4) by simp
  from wrap_step_spec [OF delete_rules_spec [OF this], of msg]
  have st: "ok c1 \<and> committed c1 = committed c \<and> (e = None \<longrightarrow> (\<forall>b. staged c1 = Some b \<longrightarrow> (\<exists>a. staged c = Some a \<and>
      (\<forall>x rules'. rs_chains a (ch_Name ch) = Some (x, rules') \<longrightarrow> distinct (map ru_Handle rules') \<longrightarrow>
         frame {ch_Name ch} a b \<and> rs_chains b (ch_Name ch) = Some (x, remove_handles rules rules')))))"
    using assms(1,3) unfolding edit_spec_def by blast
  have "remove_handles rules rules = []" by (simp add: remove_handles_def filter_empty_conv)
  with k wf(3) have "empty_step (committed c) (ch_Name ch) a b"
    if "\<forall>x rules'. rs_chains a (ch_Name ch) = Some (x, rules') \<longrightarrow> distinct (map ru_Handle rules') \<longrightarrow>
         frame {ch_Name ch} a b \<and> rs_chains b (ch_Name ch) = Some (x, remove_handles rules rules')" for a b
    using that by (simp add: empty_step_def)
  with st show ?thesis by blast
qed

lemma clear_chains_ok:
  assumes "ok c" "clear_chains F chs c = (c', res)"
  shows "ok c' \<and> committed c' = committed c \<and>
    (\<forall>owned. res = Inr owned \<longrightarrow> owned = owned_chains chs \<and> (\<forall>b. staged c' = Some b \<longrightarrow> (\<exists>a. staged c = Some a \<and>
       rel_seq (empty_step (committed c)) (map ch_Name owned) a b)))"
  using assms
proof (induction chs arbitrary: c c' res)
  case Nil
  then show ?case by (auto simp: owned_chains_def)
next
  case (Cons ch chs)
  note run = Cons.prems(2)
  show ?case
  proof (cases "in_filter ch \<and> owned_name (ch_Name ch)")
    case False
    then have sc: "owned_chains (ch # chs) = owned_chains chs" by (simp add: owned_chains_def)
    show ?thesis
    proof (cases "ch_Table ch")
      case None
      with run Cons.prems(1) show ?thesis by auto
    next
      case (Some t)
      with run False have "clear_chains F chs c = (c', res)"
        by (auto simp: in_filter_iff owned_name_def split: if_splits)
      with Cons.prems(1) show ?thesis unfolding sc by (rule Cons.IH)
    qed
  next
    case here: True
    then obtain t where t: "ch_Table ch = Some t" "t_Name t = filterTableName"
      "ch_Name ch = whalewallChainName \<or> HasPrefix (ch_Name ch) chainPrefix"
      by (auto simp: in_filter_def owned_name_def)
    show ?thesis
    proof (cases "validateRegularOwnedChain ch = None \<and> (\<exists>rules. fc_GetRules F filterTable ch c = Inr rules)")
      case False
      with run t Cons.prems(1) show ?thesis by (auto split: option.splits sum.splits)
    next
      case True
      then obtain rules where rules: "validateRegularOwnedChain ch = None" "fc_GetRules F filterTable ch c = Inr rules" by blast
      let ?w = "wrap_step ''error deleting rule from Whalewall chain'' (delete_rules F rules)"
      obtain c1 e where del: "?w c = (c1, e)" by force
      note step = empty_step_spec [OF Cons.prems(1) rules(2) del]
      show ?thesis
      proof (cases e)
        case (Some x)
        with run t rules del step show ?thesis by auto
      next
        case None
        obtain c2 res1 where rest: "clear_chains F chs c1 = (c2, res1)" by force
        have out: "c' = c2" "res = (case res1 of Inl x \<Rightarrow> Inl x | Inr owned \<Rightarrow> Inr (ch # owned))"
          using run t rules del None rest by (auto split: sum.splits)
        have "owned_chains (ch # chs) = ch # owned_chains chs" using here by (simp add: owned_chains_def)
        moreover have "\<exists>a. staged c = Some a \<and> rel_seq (empty_step (committed c)) (map ch_Name (ch # owned)) a b"
          if res1: "res1 = Inr owned" and b: "staged c2 = Some b" for owned b
        proof -
          obtain m where "staged c1 = Some m" "rel_seq (empty_step (committed c)) (map ch_Name owned) m b"
            using Cons.IH [OF _ rest] step res1 b by auto
          moreover from this step None obtain a where "staged c = Some a" "empty_step (committed c) (ch_Name ch) a m"
            by blast
          ultimately show ?thesis by auto
        qed
        ultimately show ?thesis using Cons.IH [OF _ rest] step out by (cases res1) simp_all
      qed
    qed
  qed
qed

lemma clear_set_spec:
  "spec (clear_set F) (\<lambda>k a b. rs_sets a containerAddrSetName = rs_sets k containerAddrSetName \<longrightarrow>
     rs_chains b = rs_chains a \<and> rs_sets b = (rs_sets a)(containerAddrSetName := None))"
  unfolding edit_spec_def
proof (intro allI impI)
  fix c c' e
  assume c: "ok c" and run: "clear_set F c = (c', e)"
  have anon: "\<not> is_anon_name containerAddrSetName" by simp
  show "ok c' \<and> committed c' = committed c \<and> (e = None \<longrightarrow> (\<forall>b. staged c' = Some b \<longrightarrow> (\<exists>a. staged c = Some a \<and>
      (rs_sets a containerAddrSetName = rs_sets (committed c) containerAddrSetName \<longrightarrow>
       rs_chains b = rs_chains a \<and> rs_sets b = (rs_sets a)(containerAddrSetName := None)))))"
  proof (cases "fc_GetSetByName F filterTable containerAddrSetName c")
    case (Inl x)
    with run c GetSetByName_missing [OF c Inl] show ?thesis
      by (auto simp: clear_set_def fun_upd_idem_iff split: if_splits)
  next
    case (Inr s)
    note s = GetSetByName_committed [OF c anon Inr]
    show ?thesis
    proof (cases "containerAddressSetSchemaEqual s containerAddressSet")
      case False
      with Inr run c show ?thesis by (auto simp: clear_set_def)
    next
      case True
      then obtain t where "s_Table s = Some t" "t_Name t = t_Name filterTable" "t_Family t = t_Family filterTable"
        by (auto simp: containerAddressSetSchemaEqual_def Let_def split: option.splits)
      then have t: "s_Table s = Some filterTable" by (cases t, cases filterTable) simp
      have "c' = fc_DelSet F s c" "e = None" using True Inr run by (simp_all add: clear_set_def)
      with DelSet_ok [OF c t] DelSet_staged [OF c t] s show ?thesis by (auto simp: rs_DelSet_def)
    qed
  qed
qed

lemma delete_chains_spec:
  "spec (\<lambda>c. (fold (fc_DelChain F) owned c, None)) (\<lambda>k. rel_seq drop_step owned)"
  by (rule edit_spec_fold, rule edit_spec_mono [OF DelChain_spec]) (simp add: drop_step_def)

end

text \<open>No rule of the ruleset sends packets to a chain.\<close>

definition jumped_to :: "ruleset \<Rightarrow> string \<Rightarrow> bool" where
  "jumped_to rs n \<longleftrightarrow> (\<exists>m ch rules r v. rs_chains rs m = Some (ch, rules) \<and> r \<in> set rules \<and>
     EVerdict v \<in> set (ru_Exprs r) \<and> vd_Chain v = n)"

lemma drop_steps:
  assumes "rel_seq drop_step owned a b"
  shows "rs_sets b = rs_sets a \<and>
    (\<forall>n. rs_chains b n = (if n \<in> ch_Name ` set owned then None else rs_chains a n)) \<and>
    (\<forall>n \<in> ch_Name ` set owned. \<not> jumped_to b n)"
  using assms
proof (induction owned arbitrary: a)
  case (Cons ch owned)
  then obtain m where m: "drop_step ch a m" "rel_seq drop_step owned m b" by auto
  note IH = Cons.IH [OF m(2)]
  have "m = rs_DelChain ch a" "\<not> rs_refers a (ch_Name ch)" using m(1) by (simp_all add: drop_step_def)
  then have chain: "rs_chains b n = (if n \<in> ch_Name ` set (ch # owned) then None else rs_chains a n)" for n
    using IH by (simp add: rs_DelChain_def)
  have "\<not> jumped_to b (ch_Name ch)"
  proof
    assume "jumped_to b (ch_Name ch)"
    then obtain x ch' rules r v where x: "rs_chains b x = Some (ch', rules)" "r \<in> set rules"
      "EVerdict v \<in> set (ru_Exprs r)" "vd_Chain v = ch_Name ch" by (auto simp: jumped_to_def)
    then have "rs_chains a x = Some (ch', rules)" using chain [of x] by (simp split: if_splits)
    with x have "rs_refers a (ch_Name ch)" unfolding rs_refers_def by blast
    with \<open>\<not> rs_refers a (ch_Name ch)\<close> show False ..
  qed
  with IH chain \<open>m = rs_DelChain ch a\<close> show ?case by (simp add: rs_DelChain_def)
qed (simp add: jumped_to_def)

lemma jumped_to_commit:
  assumes "rs_commits old b new" "jumped_to new n"
  shows "jumped_to b n"
proof -
  obtain m ch rules r v where r: "rs_chains new m = Some (ch, rules)" "r \<in> set rules"
    "EVerdict v \<in> set (ru_Exprs r)" "vd_Chain v = n" using assms(2) by (auto simp: jumped_to_def)
  then obtain rules0 where b: "rs_chains b m = Some (ch, rules0)" "rules = map commit_rule rules0"
    using assms(1) by (auto simp: rs_commits_def committed_chains_def)
  with r obtain r0 where r0: "r0 \<in> set rules0" "r = commit_rule r0" by auto
  then obtain e where e: "e \<in> set (ru_Exprs r0)" "EVerdict v = commit_expr e" using r(3) by (auto simp: commit_rule_def)
  have "e = EVerdict v" using e(2) by (simp add: commit_expr_def split: nexpr.splits if_splits)
  with e(1) r0 b r(4) show ?thesis unfolding jumped_to_def by blast
qed

text \<open>The kernel after a clear: no chain under the program's names, no address map, no jump into the program's
  chains; nothing else has changed.\<close>

definition everything_cleared :: "ruleset \<Rightarrow> ruleset \<Rightarrow> bool" where
  "everything_cleared old new \<longleftrightarrow>
     (\<forall>n. rs_chains new n =
        (if owned_name n then None
         else if n \<in> set jump_sources then without_jumps (rs_chains old n)
         else rs_chains old n)) \<and>
     (\<forall>n. owned_name n \<longrightarrow> rs_chains old n \<noteq> None \<longrightarrow> \<not> jumped_to new n) \<and>
     rs_sets new containerAddrSetName = None \<and>
     (\<forall>m. \<not> is_anon_name m \<longrightarrow> m \<noteq> containerAddrSetName \<longrightarrow> rs_sets new m = rs_sets old m)"

lemma clear_batch:
  assumes wf: "wf_ruleset k"
    and listed: "\<forall>ch. ch \<in> set chs \<and> in_filter ch \<longleftrightarrow> (\<exists>rules. rs_chains k (ch_Name ch) = Some (ch, rules))"
    and dn: "distinct (map ch_Name (filter in_filter chs))"
    and jumps: "rel_seq (jump_step k) jump_sources k m1"
    and emptied: "rel_seq (empty_step k) (map ch_Name (owned_chains chs)) m1 m2"
    and cleared: "rs_sets m2 containerAddrSetName = rs_sets k containerAddrSetName \<longrightarrow>
      rs_chains m3 = rs_chains m2 \<and> rs_sets m3 = (rs_sets m2)(containerAddrSetName := None)"
    and dropped: "rel_seq drop_step (owned_chains chs) m3 b"
    and commit: "rs_commits k b new"
  shows "everything_cleared k new"
proof -
  let ?ns = "map ch_Name (owned_chains chs)"
  have mem: "x \<in> set ?ns \<longleftrightarrow> owned_name x \<and> rs_chains k x \<noteq> None" for x
  proof
    assume "x \<in> set ?ns"
    then obtain ch where "ch \<in> set chs" "in_filter ch" "owned_name x" "ch_Name ch = x"
      by (auto simp: owned_chains_def)
    with listed show "owned_name x \<and> rs_chains k x \<noteq> None" by blast
  next
    assume x: "owned_name x \<and> rs_chains k x \<noteq> None"
    then obtain ch rules where ch: "rs_chains k x = Some (ch, rules)" by auto
    moreover have "ch_Name ch = x" by (rule wf_ruleset_chain(1) [OF wf ch])
    ultimately have "ch \<in> set chs \<and> in_filter ch" using listed by blast
    with x \<open>ch_Name ch = x\<close> show "x \<in> set ?ns" by (auto simp: owned_chains_def)
  qed
  have "distinct (map ch_Name (filter (\<lambda>ch. owned_name (ch_Name ch)) (filter in_filter chs)))"
    by (rule distinct_map_filter [OF dn])
  then have dns: "distinct ?ns" by (simp add: owned_chains_def conj_commute)
  have m1: "frame (set jump_sources) k m1 \<and> (\<forall>x \<in> set jump_sources. rs_chains m1 x = without_jumps (rs_chains k x))"
    by (rule rel_seq_frames [OF jumps jump_sources_simps(1), of k "\<lambda>x y. y = without_jumps (rs_chains k x)"])
      (simp_all add: jump_step_def)
  have apart: "x \<notin> set jump_sources" if "owned_name x" for x using jump_sources_simps(2) that by blast
  have m1k: "\<forall>x \<in> set ?ns. rs_chains m1 x = rs_chains k x"
    using m1 mem apart by (simp only: frame_def) blast
  have "frame (set ?ns) m1 m2 \<and> (\<forall>x \<in> set ?ns. True)"
    by (rule rel_seq_frames [OF emptied dns m1k, of "\<lambda>x y. True"]) (simp add: empty_step_def)
  then have m2: "frame (set ?ns) m1 m2" by simp
  have sets2: "rs_sets m2 m = rs_sets k m" if "\<not> is_anon_name m" for m
    using m1 m2 that by (simp add: frame_def)
  then have m3: "rs_chains m3 = rs_chains m2" "rs_sets m3 = (rs_sets m2)(containerAddrSetName := None)"
    using cleared by simp_all
  note b = drop_steps [OF dropped]
  have bsets: "rs_sets b = rs_sets m3" and bjump: "\<And>n. n \<in> set ?ns \<Longrightarrow> \<not> jumped_to b n"
    and bchain: "\<And>x. rs_chains b x = (if x \<in> set ?ns then None else rs_chains m2 x)"
    using b m3(1) by (simp_all only: set_map) simp_all
  have bjumps: "rs_chains m2 x = (if x \<in> set jump_sources then without_jumps (rs_chains k x) else rs_chains k x)"
    if "x \<notin> set ?ns" for x
    using m2 m1 that unfolding frame_def by metis
  have chains: "rs_chains new x =
        (if owned_name x then None
         else if x \<in> set jump_sources then without_jumps (rs_chains k x)
         else rs_chains k x)" for x
  proof (cases "owned_name x")
    case True
    have "rs_chains b x = None"
    proof (cases "x \<in> set ?ns")
      case False
      then have "rs_chains k x = None" using mem [of x] True by blast
      with False bchain [of x] bjumps [of x] apart [OF True] show ?thesis by simp
    qed (simp add: bchain)
    with True commit_chain_gone [OF commit] show ?thesis by simp
  next
    case False
    then have "x \<notin> set ?ns" using mem [of x] by blast
    then have bx: "rs_chains b x = (if x \<in> set jump_sources then without_jumps (rs_chains k x) else rs_chains k x)"
      using bchain [of x] bjumps [of x] by simp
    show ?thesis
    proof (cases "rs_chains k x")
      case None
      with bx commit_chain_gone [OF commit, of x] False show ?thesis by (simp add: without_jumps_def)
    next
      case (Some p)
      obtain ch rules where k: "rs_chains k x = Some (ch, rules)" using Some by (cases p) simp
      let ?P = "\<lambda>r. x \<in> set jump_sources \<longrightarrow> \<not> is_whalewall_jump r"
      have "rs_chains b x = Some (ch, filter ?P rules)" using bx k by (simp add: without_jumps_def)
      with commit_chain_kept [OF commit wf k this] k False show ?thesis by (simp add: without_jumps_def)
    qed
  qed
  have "\<not> jumped_to new n" if "owned_name n" "rs_chains k n \<noteq> None" for n
    using bjump mem [of n] that jumped_to_commit [OF commit] by blast
  moreover have "rs_sets new containerAddrSetName = None"
    using commit_named_set [OF commit] bsets m3(2) by simp
  moreover have "rs_sets new m = rs_sets k m" if "\<not> is_anon_name m" "m \<noteq> containerAddrSetName" for m
    using commit_named_set [OF commit that(1)] bsets m3(2) sets2 [OF that(1)] that(2) by simp
  ultimately show ?thesis using chains unfolding everything_cleared_def by blast
qed

context firewall_client
begin

lemma clearFirewall_ok:
  assumes M: "marshal_ok M" and c: "ok c" and run: "clearFirewall F M c = (c', e)"
  shows "ok c' \<and> (e \<noteq> None \<longrightarrow> committed c' = committed c) \<and>
    (e = None \<longrightarrow> everything_cleared (committed c) (committed c'))"
proof -
  note def = clearFirewall_def jump_sources_def [symmetric]
  obtain c1 e1 where new: "fc_New F c = (c1, e1)" by force
  have c1: "ok c1" "committed c1 = committed c" using New_ok [OF c new] by simp_all
  obtain c2 es where jumps: "clear_jumps F M jump_sources c1 = (c2, es)" by force
  then have jj: "joined (clear_jumps F M jump_sources) c1 = (c2, errors_join es)" by (simp add: joined_def)
  note js = clear_jumps_spec [OF M, of jump_sources, unfolded edit_spec_def, rule_format, OF c1(1) jj]
  have c2: "ok c2" "committed c2 = committed c" using js c1 by simp_all
  show ?thesis
  proof (cases "e1 = None \<and> errors_join es = None \<and> (\<exists>chs. fc_ListChainsOfTableFamily F TableFamilyIPv4 c2 = Inr chs)")
    case False
    then show ?thesis using new jumps run c1 c2 by (auto simp: def split: option.splits sum.splits)
  next
    case True
    then obtain chs where list: "e1 = None" "errors_join es = None" "fc_ListChainsOfTableFamily F TableFamilyIPv4 c2 = Inr chs" by blast
    note law = ListChains_committed [OF c2(1) list(3), unfolded c2(2)]
    obtain c3 res where clear: "clear_chains F chs c2 = (c3, res)" by force
    note cl = clear_chains_ok [OF c2(1) clear]
    have c3: "ok c3" "committed c3 = committed c" using cl c2 by simp_all
    show ?thesis
    proof (cases res)
      case (Inl x)
      with new jumps run list clear c3 show ?thesis by (auto simp: def)
    next
      case (Inr owned)
      let ?flush = "flush_wrap ''error flushing Whalewall clear transaction'' F"
      let ?del = "\<lambda>c. (fold (fc_DelChain F) owned c, None)"
      have seq: "st_seq [st_seq [clear_set F, ?del], ?flush] c3 = (c', e)"
        using new jumps run list clear Inr unfolding st_seq_snoc [symmetric] by (simp add: def del: st_seq.simps)
      note fl = flush_spec [OF edit_spec_Cons [OF clear_set_spec edit_spec_Cons [OF delete_chains_spec edit_spec_Nil]] c3(1) seq]
      have "everything_cleared (committed c) (committed c')" if "e = None"
      proof -
        from fl that c3(2) obtain m2 m3 b where m2: "staged c3 = Some m2"
          and cleared: "rs_sets m2 containerAddrSetName = rs_sets (committed c) containerAddrSetName \<longrightarrow>
            rs_chains m3 = rs_chains m2 \<and> rs_sets m3 = (rs_sets m2)(containerAddrSetName := None)"
          and dropped: "rel_seq drop_step owned m3 b" and commit: "rs_commits (committed c) b (committed c')" by auto
        have owned: "owned = owned_chains chs" using cl Inr by simp
        obtain m1 where m1: "staged c2 = Some m1" "rel_seq (empty_step (committed c)) (map ch_Name owned) m1 m2"
          using cl Inr m2 c2(2) by auto
        then obtain m0 where "staged c1 = Some m0" "rel_seq (jump_step (committed c)) jump_sources m0 m1"
          using js list(2) c1(2) by auto
        then have "rel_seq (jump_step (committed c)) jump_sources (committed c) m1"
          using New_staged [OF c new [unfolded list(1)]] c1(2) by simp
        with law m1(2) cleared dropped commit show ?thesis
          unfolding owned by (intro clear_batch [OF committed_wf [OF c]]) simp_all
      qed
      with fl c3 show ?thesis by simp
    qed
  qed
qed

end

text \<open>The database without the rows of some containers.\<close>

definition containers_removed :: "string set \<Rightarrow> tables \<Rightarrow> tables \<Rightarrow> bool" where
  "containers_removed I a b \<longleftrightarrow>
     set (t_containers b) = {(i, n) \<in> set (t_containers a). i \<notin> I} \<and>
     set (t_addrs b) = {(x, i) \<in> set (t_addrs a). i \<notin> I} \<and>
     set (t_aliases b) = {(i, al) \<in> set (t_aliases a). i \<notin> I} \<and>
     set (t_est b) = {(s, d) \<in> set (t_est a). s \<notin> I \<and> d \<notin> I} \<and>
     set (t_waiting b) = {(s, r) \<in> set (t_waiting a). s \<notin> I}"

lemma containers_removed_refl: "containers_removed {} a a"
  by (auto simp: containers_removed_def)

lemma containers_removed_step:
  "container_removed i a m \<Longrightarrow> containers_removed I m b \<Longrightarrow> containers_removed (insert i I) a b"
  by (auto simp: containers_removed_def container_removed_def)

lemma clear_metadata_ok:
  assumes "clear_metadata ctxErr ct E = (E', e)"
  shows "(e \<noteq> None \<longrightarrow> sq_tables E' = sq_tables E) \<and>
    (e = None \<longrightarrow> container_removed (co_ID ct) (sq_tables E) (sq_tables E'))"
proof (cases "db_Begin ctxErr E")
  case (Pair E1 res)
  note bg = db_Begin_cases [OF Pair]
  show ?thesis
  proof (cases res)
    case (Inl x)
    with Pair bg assms show ?thesis by (auto simp: clear_metadata_def)
  next
    case (Inr t)
    with bg have t: "\<not> tx_done t" "tx_committed t = sq_tables E" "tx_tables t = sq_tables E" by (auto simp: tx_ok_def)
    obtain t' e1 where del: "deleteContainer (co_ID ct) t = (t', e1)" by force
    note d = deleteContainer_cases [OF t(1) del]
    have "sq_tables E' = tx_committed t'" "(e = None) = (e1 = None)"
      using Pair Inr del assms tx_Rollback_committed [of t']
      by (auto simp: clear_metadata_def tx_committed_def split: option.splits)
    with d t show ?thesis by auto
  qed
qed

lemma clear_metadata_all:
  assumes "st_all (clear_metadata ctxErr) cts E = (E', es)"
  shows "\<exists>I \<subseteq> co_ID ` set cts. containers_removed I (sq_tables E) (sq_tables E') \<and>
    ((\<forall>e \<in> set es. e = None) \<longrightarrow> I = co_ID ` set cts)"
  using assms
proof (induction cts arbitrary: E es)
  case Nil
  then show ?case using containers_removed_refl by auto
next
  case (Cons ct cts)
  obtain E1 e where step: "clear_metadata ctxErr ct E = (E1, e)" by force
  obtain es1 where rest: "st_all (clear_metadata ctxErr) cts E1 = (E', es1)" "es = e # es1"
    using Cons.prems step by (auto split: prod.splits)
  obtain I where I: "I \<subseteq> co_ID ` set cts" "containers_removed I (sq_tables E1) (sq_tables E')"
    "(\<forall>e \<in> set es1. e = None) \<longrightarrow> I = co_ID ` set cts" using Cons.IH [OF rest(1)] by blast
  note st = clear_metadata_ok [OF step]
  show ?case
  proof (cases e)
    case None
    then have "containers_removed (insert (co_ID ct) I) (sq_tables E) (sq_tables E')"
      using st I(2) containers_removed_step by blast
    with I rest(2) None show ?thesis by (intro exI [of _ "insert (co_ID ct) I"]) auto
  next
    case (Some x)
    with st I rest(2) show ?thesis by (intro exI [of _ I]) auto
  qed
qed

lemma listed_containers:
  assumes "db_query GetContainers E = (E1, res)"
  shows "sq_tables E1 = sq_tables E"
    and "\<And>cts. res = Inr cts \<Longrightarrow> co_ID ` set cts = fst ` set (t_containers (sq_tables E))"
proof -
  obtain e where f: "next_fault E = (E1, e)" and res: "res = (case e of None \<Rightarrow> GetContainers (sq_tables E1) | Some x \<Rightarrow> Inl x)"
    using assms by (auto simp: db_query_def split: prod.splits option.splits)
  show T: "sq_tables E1 = sq_tables E" using next_fault_sel(1) [OF f] .
  show "co_ID ` set cts = fst ` set (t_containers (sq_tables E))" if "res = Inr cts" for cts
    using res that T by (auto simp: GetContainers_def image_image split_beta split: option.splits)
qed

lemma listing_containers:
  assumes "db_query GetContainers E = (E1, res)" "\<forall>x. Some x \<in> set (sq_faults E) \<longrightarrow> \<not> errors_is x ErrNoRows"
  shows "\<And>x. res = Inl x \<Longrightarrow> \<not> errors_is x ErrNoRows"
proof -
  obtain e where f: "next_fault E = (E1, e)" and res: "res = (case e of None \<Rightarrow> GetContainers (sq_tables E1) | Some x \<Rightarrow> Inl x)"
    using assms(1) by (auto simp: db_query_def split: prod.splits option.splits)
  have "e = None \<or> e \<in> set (sq_faults E)" using f by (auto simp: next_fault_def split: list.splits)
  then show "\<not> errors_is x ErrNoRows" if "res = Inl x" for x
    using res assms(2) that by (auto simp: GetContainers_def split: option.splits)
qed

lemma removed_referenced:
  assumes "containers_removed I a b" "referenced b i"
  shows "referenced a i \<and> i \<notin> I"
proof -
  have sub: "set (t_addrs b) \<subseteq> {p \<in> set (t_addrs a). snd p \<notin> I}" "set (t_aliases b) \<subseteq> {p \<in> set (t_aliases a). fst p \<notin> I}"
    "set (t_est b) \<subseteq> {p \<in> set (t_est a). fst p \<notin> I \<and> snd p \<notin> I}" "set (t_waiting b) \<subseteq> {p \<in> set (t_waiting a). fst p \<notin> I}"
    using assms(1) unfolding containers_removed_def by auto
  from assms(2) consider p where "p \<in> set (t_addrs b)" "i = snd p" | p where "p \<in> set (t_aliases b)" "i = fst p"
    | p where "p \<in> set (t_est b)" "i = fst p" | p where "p \<in> set (t_est b)" "i = snd p" | p where "p \<in> set (t_waiting b)" "i = fst p"
    unfolding referenced_def by (elim disjE imageE) metis+
  then show ?thesis using sub unfolding referenced_def by cases blast+
qed

lemma all_removed:
  assumes "containers_removed (fst ` set (t_containers a)) a b"
  shows "t_containers b = [] \<and> ((\<forall>i. referenced a i \<longrightarrow> has_container a i) \<longrightarrow> (\<forall>i. \<not> referenced b i))"
proof -
  let ?I = "fst ` set (t_containers a)"
  have sub: "set (t_containers b) \<subseteq> {p \<in> set (t_containers a). fst p \<notin> ?I}"
    using assms unfolding containers_removed_def by (intro subsetI) (elim conjE, simp add: split_beta)
  have "p \<notin> set (t_containers b)" for p
    using subsetD [OF sub, of p] by blast
  then have "t_containers b = []" by (cases "t_containers b") (auto simp: all_not_in_conv)
  moreover have "\<not> referenced b i" if refs: "\<forall>i. referenced a i \<longrightarrow> i \<in> ?I" for i
  proof
    assume "referenced b i"
    with assms have "referenced a i \<and> i \<notin> ?I" by (rule removed_referenced)
    with refs show False by blast
  qed
  ultimately show ?thesis by (simp add: has_container_iff)
qed

text \<open>C28: Clearing. The kernel loses everything the program has installed in one batch, or nothing; only after
  that are the containers' rows deleted, each container in a transaction of its own. If the clear
  succeeds, the kernel has none of the program's chains, addresses and jumps left and the database no
  container; if it fails, the kernel is untouched or cleared, and no row of a container is deleted
  before the kernel is cleared.\<close>

theorem clearRules_correct:
  assumes "firewall_client F ok committed staged" and "marshal_ok M" and "ok c"
    and "\<forall>x. Some x \<in> set (sq_faults E) \<longrightarrow> \<not> errors_is x ErrNoRows"
    and "clearRules F M ctxErr (c, E) = ((c', E'), e)"
  shows "ok c' \<and>
    (committed c' = committed c \<and> sq_tables E' = sq_tables E \<or> everything_cleared (committed c) (committed c')) \<and>
    (\<exists>I. containers_removed I (sq_tables E) (sq_tables E')) \<and>
    (e = None \<longrightarrow> everything_cleared (committed c) (committed c') \<and> t_containers (sq_tables E') = [] \<and>
       ((\<forall>i. referenced (sq_tables E) i \<longrightarrow> has_container (sq_tables E) i) \<longrightarrow> (\<forall>i. \<not> referenced (sq_tables E') i)))"
proof -
  obtain c1 e1 where fw: "clearFirewall F M c = (c1, e1)" by force
  note k = firewall_client.clearFirewall_ok [OF assms(1-3) fw]
  show ?thesis
  proof (cases e1)
    case (Some x)
    with fw assms(5) have "c' = c1" "E' = E" "e \<noteq> None" by (auto simp: clearRules_def)
    with k Some containers_removed_refl [of "sq_tables E"] show ?thesis by auto
  next
    case None
    obtain E1 res where q: "db_query GetContainers E = (E1, res)" by force
    note E1 = listed_containers(1) [OF q] listing_containers [OF q assms(4)] listed_containers(2) [OF q]
    show ?thesis
    proof (cases res)
      case (Inl x)
      with None fw q E1 assms(5) have "c' = c1" "E' = E1" "e \<noteq> None" by (auto simp: clearRules_def)
      with k None E1 containers_removed_refl [of "sq_tables E"] show ?thesis by auto
    next
      case (Inr cts)
      obtain E2 es where all: "st_all (clear_metadata ctxErr) cts E1 = (E2, es)" by force
      have out: "c' = c1" "E' = E2" "e = errors_join es"
        using None fw q Inr all assms(5) by (auto simp: clearRules_def st_join_def)
      obtain I where I: "containers_removed I (sq_tables E) (sq_tables E')" "(\<forall>e \<in> set es. e = None) \<longrightarrow> I = co_ID ` set cts"
        using clear_metadata_all [OF all] E1 out by auto
      have "t_containers (sq_tables E') = [] \<and>
         ((\<forall>i. referenced (sq_tables E) i \<longrightarrow> has_container (sq_tables E) i) \<longrightarrow> (\<forall>i. \<not> referenced (sq_tables E') i))" if "e = None"
      proof (rule all_removed)
        have "\<forall>e \<in> set es. e = None" using out(3) that errors_join_None_iff [of es] by simp
        then have "I = fst ` set (t_containers (sq_tables E))" using I(2) E1(3) [OF Inr] by blast
        with I(1) show "containers_removed (fst ` set (t_containers (sq_tables E))) (sq_tables E) (sq_tables E')" by simp
      qed
      with k None out I show ?thesis by blast
    qed
  qed
qed

section \<open>Many deletions\<close>

text \<open>Nothing in the kernel is the container's any more.\<close>

definition forgotten :: "netlink_lib \<Rightarrow> string \<Rightarrow> ruleset \<Rightarrow> bool" where
  "forgotten N cid rs \<longleftrightarrow> rs_chains rs (chainPrefix @ cid) = None \<and>
     (\<forall>s els. rs_sets rs containerAddrSetName = Some (s, els) \<longrightarrow>
        (\<forall>e \<in> set els. vd_Chain (verdict_in N e) \<noteq> chainPrefix @ cid)) \<and>
     (\<forall>n ch rules. owned_name n \<longrightarrow> rs_chains rs n = Some (ch, rules) \<longrightarrow> (\<forall>r \<in> set rules. ru_UserData r \<noteq> cid))"

definition keys_distinct :: "ruleset \<Rightarrow> bool" where
  "keys_distinct rs \<longleftrightarrow> (\<forall>s els. rs_sets rs containerAddrSetName = Some (s, els) \<longrightarrow> distinct (map el_Key els))"

text \<open>The kernel after the deletion of the containers \<open>K\<close>: their chains are gone, with the addresses that led
  there and the rules in the program's other chains that carry their ids; every other chain keeps all its
  other rules, in their order, every other address its verdict, and every other named set its elements.\<close>

definition containers_cleaned :: "netlink_lib \<Rightarrow> string set \<Rightarrow> ruleset \<Rightarrow> ruleset \<Rightarrow> bool" where
  "containers_cleaned N K old new \<longleftrightarrow>
     (\<forall>n. rs_chains new n =
        (if n \<in> (\<lambda>i. chainPrefix @ i) ` K then None
         else if owned_name n then
           map_option (\<lambda>(ch, rules). (ch, filter (\<lambda>r. ru_UserData r \<notin> K) rules)) (rs_chains old n)
         else rs_chains old n)) \<and>
     rs_sets new containerAddrSetName =
       map_option (\<lambda>(s, els). (s, filter (\<lambda>e. vd_Chain (verdict_in N e) \<notin> (\<lambda>i. chainPrefix @ i) ` K) els))
         (rs_sets old containerAddrSetName) \<and>
     (\<forall>m. \<not> is_anon_name m \<longrightarrow> m \<noteq> containerAddrSetName \<longrightarrow> rs_sets new m = rs_sets old m)"

lemma containers_cleaned_refl: "containers_cleaned N {} k k"
  by (auto simp: containers_cleaned_def split_beta option.map_id option.map_ident)

lemma containers_cleaned_one: "container_cleaned N cid k k' \<Longrightarrow> containers_cleaned N {cid} k k'"
  by (auto simp: containers_cleaned_def container_cleaned_def)

lemma containers_cleaned_trans:
  assumes "containers_cleaned N K a b" "containers_cleaned N L b c"
  shows "containers_cleaned N (K \<union> L) a c"
proof -
  have "rs_chains c n = (if n \<in> (\<lambda>i. chainPrefix @ i) ` (K \<union> L) then None
         else if owned_name n then
           map_option (\<lambda>(ch, rules). (ch, filter (\<lambda>r. ru_UserData r \<notin> K \<union> L) rules)) (rs_chains a n)
         else rs_chains a n)" for n
    using conjunct1 [OF assms(1) [unfolded containers_cleaned_def], THEN spec, of n]
      conjunct1 [OF assms(2) [unfolded containers_cleaned_def], THEN spec, of n]
    by (cases "rs_chains a n") (auto simp: image_Un conj_commute)
  moreover have "rs_sets c containerAddrSetName =
       map_option (\<lambda>(s, els). (s, filter (\<lambda>e. vd_Chain (verdict_in N e) \<notin> (\<lambda>i. chainPrefix @ i) ` (K \<union> L)) els))
         (rs_sets a containerAddrSetName)"
    using assms unfolding containers_cleaned_def
    by (cases "rs_sets a containerAddrSetName") (auto simp: image_Un conj_commute)
  moreover have "\<forall>m. \<not> is_anon_name m \<longrightarrow> m \<noteq> containerAddrSetName \<longrightarrow> rs_sets c m = rs_sets a m"
    using assms by (simp add: containers_cleaned_def)
  ultimately show ?thesis unfolding containers_cleaned_def by blast
qed

lemma containers_removed_trans:
  "containers_removed I a b \<Longrightarrow> containers_removed J b c \<Longrightarrow> containers_removed (I \<union> J) a c"
  by (auto simp: containers_removed_def)

text \<open>The two states after deletions: the kernel is clean of \<open>K\<close>, the database of \<open>D\<close>, where only containers
  the kernel is clean of are forgotten by the database.\<close>

definition deleted_all :: "netlink_lib \<Rightarrow> string set \<Rightarrow> string set \<Rightarrow> ruleset \<times> tables \<Rightarrow> ruleset \<times> tables \<Rightarrow> bool" where
  "deleted_all N K D w w' \<longleftrightarrow>
     D \<subseteq> K \<and> containers_cleaned N K (fst w) (fst w') \<and> containers_removed D (snd w) (snd w')"

lemma deleted_all_refl: "deleted_all N {} {} w w"
  by (simp add: deleted_all_def containers_cleaned_refl containers_removed_refl)

lemma deleted_all_trans:
  "deleted_all N K D u v \<Longrightarrow> deleted_all N K' D' v w \<Longrightarrow> deleted_all N (K \<union> K') (D \<union> D') u w"
  unfolding deleted_all_def by (auto intro: containers_cleaned_trans containers_removed_trans)

lemma owned_prefix: "owned_name (chainPrefix @ i)"
  by (simp add: owned_name_def HasPrefix_def)

lemma cleaned_keys: "containers_cleaned N K k k' \<Longrightarrow> keys_distinct k \<Longrightarrow> keys_distinct k'"
  by (auto simp: containers_cleaned_def keys_distinct_def distinct_map_filter)

lemma cleaned_forgotten: "containers_cleaned N K k k' \<Longrightarrow> i \<in> K \<Longrightarrow> forgotten N i k'"
proof -
  assume k: "containers_cleaned N K k k'" and i: "i \<in> K"
  note chain = conjunct1 [OF k [unfolded containers_cleaned_def], THEN spec]
  have "rs_chains k' (chainPrefix @ i) = None" using chain [of "chainPrefix @ i"] i by simp
  moreover have "ru_UserData r \<noteq> i" if "owned_name n" "rs_chains k' n = Some (ch, rules)" "r \<in> set rules" for n ch rules r
    using chain [of n] that i by (cases "rs_chains k n") (auto split: if_splits)
  moreover have "vd_Chain (verdict_in N e) \<noteq> chainPrefix @ i"
    if "rs_sets k' containerAddrSetName = Some (s, els)" "e \<in> set els" for s els e
    using k that i unfolding containers_cleaned_def by (cases "rs_sets k containerAddrSetName") auto
  ultimately show "forgotten N i k'" unfolding forgotten_def by blast
qed

lemma removed_all_gone: "containers_removed D T T' \<Longrightarrow> i \<in> D \<Longrightarrow> \<not> has_container T' i \<and> \<not> referenced T' i"
  by (auto simp: containers_removed_def has_container_iff referenced_def)

lemma container_removed_one: "container_removed cid T T' \<Longrightarrow> containers_removed {cid} T T'"
  by (auto simp: container_removed_def containers_removed_def)

text \<open>One deletion.\<close>

lemma deleteContainerRules_step:
  assumes "firewall_client F ok committed staged" and "ok c" and "keys_distinct (committed c)"
    and "deleteContainerRules F N ctxErr start cid name (c, E) = ((c', E'), e)"
  shows "ok c' \<and> (\<exists>K D. K \<subseteq> {cid} \<and>
    deleted_all N K D (committed c, sq_tables E) (committed c', sq_tables E') \<and> (start cid \<longrightarrow> e = None \<longrightarrow> cid \<in> D))"
proof (cases "start cid")
  case False
  with assms(2,4) show ?thesis using deleted_all_refl by (fastforce simp: deleteContainerRules_def)
next
  case True
  then have run: "deleteContainerRulesUntracked F N ctxErr cid name (c, E) = ((c', E'), e)"
    using assms(4) by (simp add: deleteContainerRules_def)
  note d = untracked_deletion [OF assms(1,2) assms(3) [unfolded keys_distinct_def] run]
  have whole: "deleted_all N {cid} {cid} (committed c, sq_tables E) (committed c', sq_tables E')" if "e = None"
    using d that containers_cleaned_one container_removed_one by (simp add: deleted_all_def)
  have half: "deleted_all N {cid} {} (committed c, sq_tables E) (committed c', sq_tables E')"
    if "sq_tables E' = sq_tables E" "container_cleaned N cid (committed c) (committed c')"
    using that containers_cleaned_one containers_removed_refl by (simp add: deleted_all_def)
  show ?thesis
  proof (cases "e = None")
    case True
    with d whole show ?thesis by blast
  next
    case False
    with d have same: "sq_tables E' = sq_tables E" and k: "committed c' = committed c \<or> container_cleaned N cid (committed c) (committed c')"
      by simp_all
    from k show ?thesis
    proof
      assume "committed c' = committed c"
      with same d False deleted_all_refl [of N "(committed c, sq_tables E)"] show ?thesis
        by (intro conjI exI [of _ "{}"]) simp_all
    next
      assume "container_cleaned N cid (committed c) (committed c')"
      with half [OF same] d False show ?thesis by blast
    qed
  qed
qed

text \<open>A loop of deletions.\<close>

lemma delete_request_step:
  assumes "firewall_client F ok committed staged" and "ok c" and "keys_distinct (committed c)"
    and "delete_request F N ctxErr start d (c, E) = ((c', E'), replies)"
  shows "\<exists>err K D. replies = sendDeleteResult d err \<and> ok c' \<and> K \<subseteq> {dd_id d} \<and>
    deleted_all N K D (committed c, sq_tables E) (committed c', sq_tables E') \<and>
    (start (dd_id d) \<longrightarrow> err = None \<longrightarrow> dd_id d \<in> D)"
proof -
  obtain E1 res where q: "db_query (GetContainerName (dd_id d)) E = (E1, res)" by force
  then have E1: "sq_tables E1 = sq_tables E"
    using next_fault_sel(1) by (auto simp: db_query_def split: prod.splits option.splits)
  obtain name lookupErr where nm: "(case res of Inr name \<Rightarrow> (name, None)
      | Inl err \<Rightarrow> (stripName (dd_name d), if \<not> errors_is err ErrNoRows then Some (Wrap ''get container name'' err) else None)) = (name, lookupErr)"
    by force
  obtain w e where del: "deleteContainerRules F N ctxErr start (dd_id d) name (c, E1) = (w, e)" by (metis surj_pair)
  have out: "w = (c', E')" "replies = sendDeleteResult d (errors_join [lookupErr, e])"
    using assms(4) q nm del by (simp_all add: delete_request_def)
  have e: "e = None" if "errors_join [lookupErr, e] = None"
    using that errors_join_None_iff [of "[lookupErr, e]"] by simp
  obtain K D where kd: "ok c'" "K \<subseteq> {dd_id d}" "deleted_all N K D (committed c, sq_tables E) (committed c', sq_tables E')"
    "start (dd_id d) \<longrightarrow> e = None \<longrightarrow> dd_id d \<in> D"
    using deleteContainerRules_step [OF assms(1-3) del [unfolded out(1)]] unfolding E1 by blast
  have "start (dd_id d) \<longrightarrow> errors_join [lookupErr, e] = None \<longrightarrow> dd_id d \<in> D" using kd(4) e by simp
  with out(2) kd(1-3) show ?thesis by (intro exI [of _ "errors_join [lookupErr, e]"] exI [of _ K] exI [of _ D] conjI)
qed

lemma deleteRules_outcomes:
  assumes "firewall_client F ok committed staged" and "ok c" and "keys_distinct (committed c)"
    and "deleteRules F N ctxErr start ds (c, E) = ((c', E'), replies)"
  shows "\<exists>errs K D. length errs = length ds \<and> replies = concat (map (\<lambda>(d, err). sendDeleteResult d err) (zip ds errs)) \<and>
    ok c' \<and> K \<subseteq> dd_id ` set ds \<and> deleted_all N K D (committed c, sq_tables E) (committed c', sq_tables E') \<and>
    (\<forall>(d, err) \<in> set (zip ds errs). start (dd_id d) \<longrightarrow> err = None \<longrightarrow> dd_id d \<in> D)"
  using assms(2-4)
proof (induction ds arbitrary: c E replies)
  case Nil
  then show ?case by (intro exI [of _ "[]"] exI [of _ "{}"]) (simp add: deleted_all_refl)
next
  case (Cons d ds)
  obtain c1 E1 r1 where step: "delete_request F N ctxErr start d (c, E) = ((c1, E1), r1)" by (metis prod.collapse)
  obtain r2 where rest: "deleteRules F N ctxErr start ds (c1, E1) = ((c', E'), r2)" "replies = r1 @ r2"
    using Cons.prems(3) step by (auto split: prod.splits)
  obtain err K D where st: "r1 = sendDeleteResult d err" "ok c1" "K \<subseteq> {dd_id d}"
    "deleted_all N K D (committed c, sq_tables E) (committed c1, sq_tables E1)"
    "start (dd_id d) \<longrightarrow> err = None \<longrightarrow> dd_id d \<in> D"
    using delete_request_step [OF assms(1) Cons.prems(1,2) step] by blast
  have "keys_distinct (committed c1)" using st(4) cleaned_keys Cons.prems(2) by (auto simp: deleted_all_def)
  from Cons.IH [OF st(2) this rest(1)] obtain errs K' D' where IH: "length errs = length ds"
    "r2 = concat (map (\<lambda>(d, err). sendDeleteResult d err) (zip ds errs))" "ok c'" "K' \<subseteq> dd_id ` set ds"
    "deleted_all N K' D' (committed c1, sq_tables E1) (committed c', sq_tables E')"
    "\<forall>(d, err) \<in> set (zip ds errs). start (dd_id d) \<longrightarrow> err = None \<longrightarrow> dd_id d \<in> D'" by blast
  have "deleted_all N (K \<union> K') (D \<union> D') (committed c, sq_tables E) (committed c', sq_tables E')"
    by (rule deleted_all_trans [OF st(4) IH(5)])
  moreover have "K \<union> K' \<subseteq> dd_id ` set (d # ds)" using st(3) IH(4) by auto
  ultimately show ?case using IH(1-3,6) st(1,5) rest(2)
    by (intro exI [of _ "err # errs"] exI [of _ "K \<union> K'"] exI [of _ "D \<union> D'"]) auto
qed

text \<open>C29: The deletion worker answers every request that waits for an answer, once, in the order of the
  requests. The requests together remove the containers \<open>K\<close> from the kernel and the containers \<open>D\<close>, some of
  these, from the database, only containers that were asked for, and nothing else: \<open>containers_cleaned\<close> and
  \<open>containers_removed\<close> give both states exactly, so that every other container keeps its chain with all the
  rules that do not carry the id of a deleted container, its addresses, and its rows in every table other
  than its relations to a deleted container. A container whose request is answered without an error is among
  \<open>D\<close>, unless it was left to a cancelled creation; and of a container in \<open>D\<close> no chain, no address that leads to
  it and no rule that carries its id is left in the kernel, and no row of it or that refers to it in the
  database, also after the later requests.\<close>

theorem deleteRules_correct:
  assumes "firewall_client F ok committed staged" and "ok c" and "keys_distinct (committed c)"
    and "deleteRules F N ctxErr start ds (c, E) = ((c', E'), replies)"
  shows "map fst replies = List.map_filter dd_result ds \<and>
    (\<exists>errs K D. length errs = length ds \<and>
      replies = concat (map (\<lambda>(d, err). sendDeleteResult d err) (zip ds errs)) \<and>
      (\<forall>(d, err) \<in> set (zip ds errs). start (dd_id d) \<longrightarrow> err = None \<longrightarrow> dd_id d \<in> D) \<and>
      D \<subseteq> K \<and> K \<subseteq> dd_id ` set ds \<and>
      containers_cleaned N K (committed c) (committed c') \<and> containers_removed D (sq_tables E) (sq_tables E') \<and>
      (\<forall>i \<in> D. forgotten N i (committed c') \<and> \<not> has_container (sq_tables E') i \<and> \<not> referenced (sq_tables E') i))"
proof -
  have fsts: "map fst (concat (map (\<lambda>(d, err). sendDeleteResult d err) (zip ds errs))) = List.map_filter dd_result ds"
    if "length errs = length ds" for errs
    using that
  proof (induction ds errs rule: list_induct2')
    case (4 d ds err errs)
    then show ?case by (cases "dd_result d") (simp_all add: sendDeleteResult_def map_filter_simps)
  qed (simp_all add: map_filter_simps)
  obtain errs K D where out: "length errs = length ds"
    "replies = concat (map (\<lambda>(d, err). sendDeleteResult d err) (zip ds errs))"
    "\<forall>(d, err) \<in> set (zip ds errs). start (dd_id d) \<longrightarrow> err = None \<longrightarrow> dd_id d \<in> D" "K \<subseteq> dd_id ` set ds"
    and k: "deleted_all N K D (committed c, sq_tables E) (committed c', sq_tables E')"
    using deleteRules_outcomes [OF assms] by blast
  from k have kd: "D \<subseteq> K" "containers_cleaned N K (committed c) (committed c')"
    "containers_removed D (sq_tables E) (sq_tables E')" by (simp_all add: deleted_all_def)
  then have "\<forall>i \<in> D. forgotten N i (committed c') \<and> \<not> has_container (sq_tables E') i \<and> \<not> referenced (sq_tables E') i"
    using cleaned_forgotten [OF kd(2)] removed_all_gone [OF kd(3)] by blast
  with out kd fsts [OF out(1)] show ?thesis unfolding out(2) by blast
qed

text \<open>What Docker's answer says of a container: it is gone, it has stopped, or it is to be kept.\<close>

definition reported_gone :: "(string \<Rightarrow> bool result) \<Rightarrow> (error \<Rightarrow> bool) \<Rightarrow> string \<Rightarrow> bool" where
  "reported_gone inspect IsNotFound i \<longleftrightarrow>
     (case inspect i of Inl err \<Rightarrow> IsNotFound err | Inr running \<Rightarrow> \<not> running)"

lemma cleanup_container_step:
  assumes "firewall_client F ok committed staged" and "ok c" and "keys_distinct (committed c)"
    and "cleanup_container F N ctxErr start inspect IsNotFound ct (c, E) = ((c', E'), e)"
  shows "ok c' \<and> (\<exists>K D. K \<subseteq> {i. i = co_ID ct \<and> reported_gone inspect IsNotFound i} \<and>
    deleted_all N K D (committed c, sq_tables E) (committed c', sq_tables E') \<and>
    (start (co_ID ct) \<longrightarrow> e = None \<longrightarrow> inspect (co_ID ct) \<noteq> Inr True \<longrightarrow> co_ID ct \<in> D))"
proof -
  consider (kept) "committed c' = committed c" "sq_tables E' = sq_tables E" "ok c'" "e = None \<longrightarrow> inspect (co_ID ct) = Inr True"
    | (gone) msg where "cleanup_container F N ctxErr start inspect IsNotFound ct (c, E) =
        wrap_step msg (deleteContainerRules F N ctxErr start (co_ID ct) (stripName (co_Name ct))) (c, E)"
      "reported_gone inspect IsNotFound (co_ID ct)"
  proof (cases "inspect (co_ID ct)")
    case (Inl x)
    then show thesis using assms(2,4) kept gone [of "''clean removed container''"]
      by (cases "IsNotFound x") (auto simp: cleanup_container_def reported_gone_def)
  next
    case (Inr r)
    then show thesis using assms(2,4) kept gone [of "''clean stopped container''"]
      by (cases r) (auto simp: cleanup_container_def reported_gone_def)
  qed
  then show ?thesis
  proof cases
    case kept
    then show ?thesis using deleted_all_refl [of N "(committed c, sq_tables E)"]
      by (intro conjI exI [of _ "{}"]) simp_all
  next
    case (gone msg)
    obtain w e1 where del: "deleteContainerRules F N ctxErr start (co_ID ct) (stripName (co_Name ct)) (c, E) = (w, e1)" by (metis surj_pair)
    with gone assms(4) have out: "w = (c', E')" "(e = None) = (e1 = None)"
      by (auto simp: wrap_step_def split: option.splits)
    have "{i. i = co_ID ct \<and> reported_gone inspect IsNotFound i} = {co_ID ct}" using gone(2) by auto
    with deleteContainerRules_step [OF assms(1-3) del [unfolded out(1)]] out(2) show ?thesis by auto
  qed
qed

lemma cleanup_all:
  assumes "firewall_client F ok committed staged" and "ok c" and "keys_distinct (committed c)"
    and "st_all (cleanup_container F N ctxErr start inspect IsNotFound) cts (c, E) = ((c', E'), es)"
  shows "ok c' \<and> length es = length cts \<and> (\<exists>K D. K \<subseteq> {i \<in> co_ID ` set cts. reported_gone inspect IsNotFound i} \<and>
    deleted_all N K D (committed c, sq_tables E) (committed c', sq_tables E') \<and>
    (\<forall>(ct, e) \<in> set (zip cts es). start (co_ID ct) \<longrightarrow> e = None \<longrightarrow> inspect (co_ID ct) \<noteq> Inr True \<longrightarrow> co_ID ct \<in> D))"
  using assms(2-4)
proof (induction cts arbitrary: c E es)
  case Nil
  then show ?case using deleted_all_refl by fastforce
next
  case (Cons ct cts)
  obtain c1 E1 e where step: "cleanup_container F N ctxErr start inspect IsNotFound ct (c, E) = ((c1, E1), e)"
    by (metis surj_pair)
  obtain es1 where rest: "st_all (cleanup_container F N ctxErr start inspect IsNotFound) cts (c1, E1) = ((c', E'), es1)" "es = e # es1"
    using Cons.prems(3) step by (auto split: prod.splits)
  obtain K D where st: "ok c1" "K \<subseteq> {i. i = co_ID ct \<and> reported_gone inspect IsNotFound i}"
    "deleted_all N K D (committed c, sq_tables E) (committed c1, sq_tables E1)"
    "start (co_ID ct) \<longrightarrow> e = None \<longrightarrow> inspect (co_ID ct) \<noteq> Inr True \<longrightarrow> co_ID ct \<in> D"
    using cleanup_container_step [OF assms(1) Cons.prems(1,2) step] by blast
  have "keys_distinct (committed c1)" using st(3) cleaned_keys Cons.prems(2) by (auto simp: deleted_all_def)
  from Cons.IH [OF st(1) this rest(1)] obtain K' D' where IH: "ok c'" "length es1 = length cts"
    "K' \<subseteq> {i \<in> co_ID ` set cts. reported_gone inspect IsNotFound i}"
    "deleted_all N K' D' (committed c1, sq_tables E1) (committed c', sq_tables E')"
    "\<forall>(ct, e) \<in> set (zip cts es1). start (co_ID ct) \<longrightarrow> e = None \<longrightarrow> inspect (co_ID ct) \<noteq> Inr True \<longrightarrow> co_ID ct \<in> D'" by blast
  have "deleted_all N (K \<union> K') (D \<union> D') (committed c, sq_tables E) (committed c', sq_tables E')"
    by (rule deleted_all_trans [OF st(3) IH(4)])
  moreover have "K \<union> K' \<subseteq> {i \<in> co_ID ` set (ct # cts). reported_gone inspect IsNotFound i}" using st(2) IH(3) by auto
  ultimately show ?case using IH(1,2,5) st(4) rest(2)
    by (intro conjI exI [of _ "K \<union> K'"] exI [of _ "D \<union> D'"]) auto
qed

text \<open>C30: Cleaning up goes through every container the database knows, and its error joins one result for each of
  them, so none is passed over because of another one's error. It removes the containers \<open>K\<close> from the kernel
  and the containers \<open>D\<close>, some of these, from the database, only known ones that Docker reports as gone or
  stopped, and nothing else. A container whose result is no error is running or among \<open>D\<close> (unless its creation was
  cancelled in the meantime), and of a container in \<open>D\<close> nothing is left, in the kernel or in any table. Any
  other container, so every one that runs or that Docker could not be asked about, keeps its chain with all the rules that do not
  carry the id of a removed container, its addresses, and its rows other than its relations to a removed
  container. If the containers cannot be listed nothing changes, and there is an error.\<close>

theorem cleanupRules_correct:
  assumes "firewall_client F ok committed staged" and "ok c" and "keys_distinct (committed c)"
    and "cleanupRules F N ctxErr start inspect IsNotFound (c, E) = ((c', E'), e)"
  shows "\<exists>K D. D \<subseteq> K \<and> K \<subseteq> {i. has_container (sq_tables E) i \<and> reported_gone inspect IsNotFound i} \<and>
    containers_cleaned N K (committed c) (committed c') \<and> containers_removed D (sq_tables E) (sq_tables E') \<and>
    (\<forall>i \<in> D. forgotten N i (committed c') \<and> \<not> has_container (sq_tables E') i \<and> \<not> referenced (sq_tables E') i) \<and>
    (if \<exists>E1 x. db_query GetContainers E = (E1, Inl x) then K = {} \<and> e \<noteq> None
     else \<exists>(cts :: Container list) es. co_ID ` set cts = {i. has_container (sq_tables E) i} \<and> length es = length cts \<and> e = errors_join es \<and>
       (\<forall>(ct, x) \<in> set (zip cts es). start (co_ID ct) \<longrightarrow> x = None \<longrightarrow> inspect (co_ID ct) = Inr True \<or> co_ID ct \<in> D))"
proof -
  obtain E1 res where q: "db_query GetContainers E = (E1, res)" by force
  note listed = listed_containers [OF q]
  show ?thesis
  proof (cases res)
    case (Inl x)
    with q assms(4) listed have "c' = c" "E' = E1" "e \<noteq> None" by (auto simp: cleanupRules_def)
    with listed(1) q Inl containers_cleaned_refl containers_removed_refl show ?thesis
      by (intro exI [of _ "{}"]) simp
  next
    case (Inr cts)
    obtain es where all: "st_all (cleanup_container F N ctxErr start inspect IsNotFound) cts (c, E1) = ((c', E'), es)"
      and e: "e = errors_join es"
      using q Inr assms(4) by (auto simp: cleanupRules_def st_join_def split: prod.splits)
    have mem: "co_ID ` set cts = {i. has_container (sq_tables E) i}"
      using listed(2) [OF Inr] by (auto simp: has_container_iff)
    obtain K D where cl: "length es = length cts" "K \<subseteq> {i \<in> co_ID ` set cts. reported_gone inspect IsNotFound i}"
      "deleted_all N K D (committed c, sq_tables E1) (committed c', sq_tables E')"
      "\<forall>(ct, e) \<in> set (zip cts es). start (co_ID ct) \<longrightarrow> e = None \<longrightarrow> inspect (co_ID ct) \<noteq> Inr True \<longrightarrow> co_ID ct \<in> D"
      using cleanup_all [OF assms(1-3) all] by blast
    from cl(3) have kd: "D \<subseteq> K" "containers_cleaned N K (committed c) (committed c')"
      "containers_removed D (sq_tables E) (sq_tables E')" by (simp_all add: deleted_all_def listed(1))
    then have left: "\<forall>i \<in> D. forgotten N i (committed c') \<and> \<not> has_container (sq_tables E') i \<and> \<not> referenced (sq_tables E') i"
      using cleaned_forgotten [OF kd(2)] removed_all_gone [OF kd(3)] by blast
    have listed_all: "\<exists>(cts :: Container list) es. co_ID ` set cts = {i. has_container (sq_tables E) i} \<and> length es = length cts \<and> e = errors_join es \<and>
       (\<forall>(ct, x) \<in> set (zip cts es). start (co_ID ct) \<longrightarrow> x = None \<longrightarrow> inspect (co_ID ct) = Inr True \<or> co_ID ct \<in> D)"
    proof (intro exI [of _ cts] exI [of _ es] conjI mem cl(1) e)
      show "\<forall>(ct, x) \<in> set (zip cts es). start (co_ID ct) \<longrightarrow> x = None \<longrightarrow> inspect (co_ID ct) = Inr True \<or> co_ID ct \<in> D"
        using cl(4) by fast
    qed
    have no: "\<not> (\<exists>E1 x. db_query GetContainers E = (E1, Inl x))" using q Inr by simp
    have sub: "K \<subseteq> {i. has_container (sq_tables E) i \<and> reported_gone inspect IsNotFound i}" using cl(2) mem by blast
    show ?thesis unfolding if_not_P [OF no]
      by (intro exI [of _ K] exI [of _ D] conjI) (fact kd(1) sub kd(2) kd(3) left listed_all)+
  qed
qed

end
