(* ===== verification/Sample_Deletion.thy ===== *)
theory Sample_Deletion
  imports Sample_Policy Deletion_Correct
begin

text \<open>
  The container of \<open>Sample_Policy\<close> is deleted again, and its host cleared: the examples for the
  properties of \<open>Deletion_Correct\<close>.
\<close>

section \<open>Runs of the firewall\<close>

lemma map_host_new: "newMockFirewall map_host = (map_host, None)"
  by (simp add: newMockFirewall_def map_host_def map_table_def empty_mock_table_def initTables_def container_host_def
      docker_host_def)

lemma map_host_chains:
  "fc_ListChainsOfTableFamily mockFirewall_client TableFamilyIPv4 map_host =
     Inr [regular_chain dockerChainName, forward_chain, own_chain]"
  using container_host_chains
  by (simp add: mockFirewall_client_def mf_ListChainsOfTableFamily_def map_host_def)

lemma map_host_rules:
  "fc_GetRules mockFirewall_client filterTable own_chain map_host = Inr [own_drop]"
  "fc_GetSetElements mockFirewall_client containerAddressSet map_host = Inr []"
  by (simp_all add: mockFirewall_client_def mf_GetRules_def mf_GetSetElements_def map_host_def map_table_def container_host_def
      docker_host_def find_table_def setSchemasEqual_def)

lemma own_valid [simp]: "validateRegularOwnedChain own_chain = None"
  unfolding own_chain_def by (rule regular_chain_valid)

lemma map_host_scan:
  "scan_chains mockFirewall_client (chainPrefix @ sample_id) sample_id [regular_chain dockerChainName, forward_chain, own_chain]
     None [] map_host = (map_host, Inr (Some (own_chain, [own_drop]), []))"
  by (simp add: map_host_rules forward_chain_def)

lemma map_host_emptied:
  "mf_DelRule own_drop map_host = (map_host\<lparr>mf_changed := True,
     mf_chains := mf_chains docker_host @ [(chainPrefix @ sample_id, own_chain, [])]\<rparr>, None)"
  by (simp add: mf_DelRule_def delRule_def map_host_def map_table_def container_host_def docker_host_def own_drop_def createDropRule_def
      Let_def same_handle_def logExpr_def dropVerdict_def)

lemma map_host_dropped:
  "mf_flushErr (mf_DelChain own_chain (map_host\<lparr>mf_changed := True, mf_tables := ts,
     mf_chains := mf_chains docker_host @ [(chainPrefix @ sample_id, own_chain, [])]\<rparr>)) = None"
  if "ts = [(filterTableName, map_table)] \<or> ts = [(filterTableName, empty_mock_table)]"
  using that
  by (auto simp: mf_DelChain_def Let_def map_host_def map_table_def container_host_def docker_host_def rules_mention_def
      elements_mention_def forward_rule_def createJumpRule_def empty_mock_table_def)

lemma unpoisoned_flush:
  assumes "mf_flushErr m = None"
  obtains m' where "flush_wrap msg mockFirewall_client m = (m', None)"
  using assms by (simp add: flush_wrap_def mock_client_sel mf_Flush_def Let_def)

lemma map_host_deletion: "snd (deleteContainerFirewall mockFirewall_client ref_netlink sample_id name map_host) = None"
proof -
  have own: "delete_own mockFirewall_client (Some (own_chain, [own_drop])) map_host =
      (mf_DelChain own_chain (map_host\<lparr>mf_changed := True,
         mf_chains := mf_chains docker_host @ [(chainPrefix @ sample_id, own_chain, [])]\<rparr>), None)"
    by (simp add: delete_own_def wrap_step_def delete_rules_def mock_client_sel map_host_emptied)
  have tables: "map_host\<lparr>mf_changed := True, mf_chains := cs\<rparr> =
      map_host\<lparr>mf_changed := True, mf_tables := [(filterTableName, map_table)], mf_chains := cs\<rparr>" for cs
    by (simp add: map_host_def)
  have "mf_flushErr (mf_DelChain own_chain (map_host\<lparr>mf_changed := True,
         mf_chains := mf_chains docker_host @ [(chainPrefix @ sample_id, own_chain, [])]\<rparr>)) = None"
    unfolding tables by (rule map_host_dropped) simp
  then obtain m' where "flush_wrap ''incomplete firewall cleanup'' mockFirewall_client (mf_DelChain own_chain (map_host\<lparr>mf_changed := True,
         mf_chains := mf_chains docker_host @ [(chainPrefix @ sample_id, own_chain, [])]\<rparr>)) = (m', None)"
    by (rule unpoisoned_flush)
  then show ?thesis
    by (simp add: deleteContainerFirewall_def map_host_new map_host_chains map_host_scan map_host_rules buildChainName_def
        mock_client_sel errors_join_def map_filter_simps own del: scan_chains.simps)
qed

lemma map_host_clear: "snd (clearFirewall mockFirewall_client ref_marshal map_host) = None"
proof -
  let ?F = mockFirewall_client
  let ?m1 = "map_host\<lparr>mf_changed := True, mf_chains := mf_chains docker_host @ [(chainPrefix @ sample_id, own_chain, [])]\<rparr>"
  let ?m2 = "map_host\<lparr>mf_changed := True, mf_tables := [(filterTableName, empty_mock_table)],
     mf_chains := mf_chains docker_host @ [(chainPrefix @ sample_id, own_chain, [])]\<rparr>"
  have get: "fc_GetRules ?F filterTable (jump_source n) map_host =
      (if n = dockerChainName then Inr [] else Inl (Errno ENOENT))" if "n \<in> set jump_sources" for n
    using that by (auto simp: mockFirewall_client_def mf_GetRules_def jump_source_def map_host_def container_host_def docker_host_def
        jump_sources_def name_defs)
  have jumps: "clear_jumps ?F ref_marshal [dockerChainName, inputChainName, outputChainName] map_host = (map_host, [])"
    using get by (simp add: clear_jump_def jump_sources_def)
  have hd: "\<not> HasPrefix dockerChainName chainPrefix" "\<not> HasPrefix forwardChainName chainPrefix"
    "HasPrefix (chainPrefix @ sample_id) chainPrefix" using own_owned by (auto simp: owned_name_def)
  have chains: "clear_chains ?F [regular_chain dockerChainName, forward_chain, own_chain] map_host = (?m1, Inr [own_chain])"
    by (simp add: map_host_rules forward_chain_def hd wrap_step_def delete_rules_def mock_client_sel map_host_emptied)
  have "fc_GetSetByName ?F filterTable containerAddrSetName ?m1 = Inr containerAddressSet"
    by (simp add: mockFirewall_client_def mf_GetSetByName_def map_host_def map_table_def)
  moreover have "mf_DelSet containerAddressSet ?m1 = ?m2"
    by (simp add: mf_DelSet_def del_set_def find_table_def put_table_def map_host_def map_table_def empty_mock_table_def)
  ultimately have cset: "clear_set ?F ?m1 = (?m2, None)" by (simp add: clear_set_def mock_client_sel)
  have "mf_flushErr (mf_DelChain own_chain ?m2) = None" by (rule map_host_dropped) simp
  then obtain m' where "flush_wrap ''error flushing Whalewall clear transaction'' mockFirewall_client (mf_DelChain own_chain ?m2) = (m', None)"
    by (rule unpoisoned_flush)
  then show ?thesis
    by (simp add: clearFirewall_def map_host_new map_host_chains jumps chains cset mock_client_sel errors_join_def map_filter_simps
        del: clear_jumps.simps clear_chains.simps)
qed

section \<open>Examples\<close>

definition host_engine :: sqlite where
  "host_engine = \<lparr>sq_tables = empty_tables\<lparr>t_containers := [(sample_id, ''web'')]\<rparr>, sq_fk = True, sq_faults = []\<rparr>"

lemma host_begin: "db_Begin None host_engine = (host_engine, Inr \<lparr>tx_engine = host_engine, tx_tables = sq_tables host_engine,
    tx_done = False, tx_ctxErr = None\<rparr>)"
  by (simp add: db_Begin_def dbRetrier_BeginTx_def retryIfBusy_def retries_def eval_nat_numeral BeginTx_def next_fault_def
      host_engine_def)

lemma host_delete: "deleteContainer sample_id \<lparr>tx_engine = host_engine, tx_tables = sq_tables host_engine,
    tx_done = False, tx_ctxErr = None\<rparr> =
  (\<lparr>tx_engine = host_engine\<lparr>sq_tables := empty_tables\<rparr>, tx_tables = empty_tables, tx_done = True, tx_ctxErr = None\<rparr>, None)"
  by (simp add: deleteContainer_def wrap_step_def tx_exec_def next_fault_def statement_defs host_engine_def empty_tables_def
      has_container_def referenced_def tx_Commit_def sql_commit_def)

lemma map_host_keys: "keys_distinct (mock_committed map_host)"
  using map_host_distinct by (simp add: keys_distinct_def)

lemma host_deletion:
  obtains m where "deleteContainerRules mockFirewall_client ref_netlink None (\<lambda>_. True) sample_id name (map_host, host_engine) =
    ((m, host_engine\<lparr>sq_tables := empty_tables\<rparr>), None)"
proof -
  obtain m where "deleteContainerFirewall mockFirewall_client ref_netlink sample_id name map_host = (m, None)"
    using map_host_deletion by (metis prod.collapse)
  then have "deleteContainerRules mockFirewall_client ref_netlink None (\<lambda>_. True) sample_id name (map_host, host_engine) =
    ((m, host_engine\<lparr>sq_tables := empty_tables\<rparr>), None)"
    by (simp add: deleteContainerRules_def deleteContainerRulesUntracked_def in_transaction_def host_begin wrap_step_def host_delete
        tx_Rollback_def)
  then show thesis by (rule that)
qed

theorem deleteContainerRules_correct_witness:
  "\<exists>m. container_cleaned ref_netlink sample_id (mock_committed map_host) (mock_committed m) \<and>
     container_removed sample_id (sq_tables host_engine) empty_tables"
proof -
  obtain m where run: "deleteContainerRules mockFirewall_client ref_netlink None (\<lambda>_. True) sample_id [] (map_host, host_engine) =
    ((m, host_engine\<lparr>sq_tables := empty_tables\<rparr>), None)" by (rule host_deletion)
  from deleteContainerRules_correct [OF mock.firewall_client_axioms map_host_ok(1) map_host_distinct run] show ?thesis by auto
qed

theorem clearRules_correct_witness:
  "\<exists>m E. clearRules mockFirewall_client ref_marshal None (map_host, host_engine) = ((m, E), None) \<and>
     everything_cleared (mock_committed map_host) (mock_committed m) \<and> t_containers (sq_tables E) = []"
proof -
  obtain m where "clearFirewall mockFirewall_client ref_marshal map_host = (m, None)"
    using map_host_clear by (metis prod.collapse)
  moreover have "db_query GetContainers host_engine = (host_engine, Inr [\<lparr>co_ID = sample_id, co_Name = ''web''\<rparr>])"
    by (simp add: db_query_def next_fault_def GetContainers_def host_engine_def)
  ultimately have run: "clearRules mockFirewall_client ref_marshal None (map_host, host_engine) =
      ((m, host_engine\<lparr>sq_tables := empty_tables\<rparr>), None)"
    by (simp add: clearRules_def st_join_def clear_metadata_def host_begin host_delete errors_join_def map_filter_simps)
  have "\<forall>x. Some x \<in> set (sq_faults host_engine) \<longrightarrow> \<not> errors_is x ErrNoRows" by (simp add: host_engine_def)
  from clearRules_correct [OF mock.firewall_client_axioms ref_marshal_ok map_host_ok(1) this run] run show ?thesis by blast
qed

text \<open>The deleted container has left both the kernel and the database.\<close>

definition sample_left :: "(mockFirewall \<times> sqlite) \<Rightarrow> bool" where
  "sample_left w \<longleftrightarrow> forgotten ref_netlink sample_id (mock_committed (fst w)) \<and>
     \<not> has_container (sq_tables (snd w)) sample_id \<and> \<not> referenced (sq_tables (snd w)) sample_id"

theorem deleteRules_correct_witness:
  "\<exists>w. deleteRules mockFirewall_client ref_netlink None (\<lambda>_. True)
     [\<lparr>dd_id = sample_id, dd_name = ''/web'', dd_result = Some 7\<rparr>] (map_host, host_engine) = (w, [(7, None)]) \<and>
     sample_left w"
proof -
  let ?d = "\<lparr>dd_id = sample_id, dd_name = ''/web'', dd_result = Some 7\<rparr>"
  obtain m where del: "deleteContainerRules mockFirewall_client ref_netlink None (\<lambda>_. True) sample_id ''web'' (map_host, host_engine) =
    ((m, host_engine\<lparr>sq_tables := empty_tables\<rparr>), None)" by (rule host_deletion)
  have "db_query (GetContainerName sample_id) host_engine = (host_engine, Inr ''web'')"
    by (simp add: db_query_def next_fault_def GetContainerName_def one_row_def host_engine_def)
  with del have run: "deleteRules mockFirewall_client ref_netlink None (\<lambda>_. True) [?d] (map_host, host_engine) =
      ((m, host_engine\<lparr>sq_tables := empty_tables\<rparr>), [(7, None)])"
    by (simp add: delete_request_def sendDeleteResult_def errors_join_def map_filter_simps)
  from deleteRules_correct [OF mock.firewall_client_axioms map_host_ok(1) map_host_keys run]
  obtain errs K D where r: "length errs = length [?d]"
    "[(7, None)] = concat (map (\<lambda>(d, err). sendDeleteResult d err) (zip [?d] errs))"
    "\<forall>(d, err) \<in> set (zip [?d] errs). True \<longrightarrow> err = None \<longrightarrow> dd_id d \<in> D"
    and left: "\<forall>i \<in> D. forgotten ref_netlink i (mock_committed m) \<and>
      \<not> has_container (sq_tables (host_engine\<lparr>sq_tables := empty_tables\<rparr>)) i \<and>
      \<not> referenced (sq_tables (host_engine\<lparr>sq_tables := empty_tables\<rparr>)) i" by blast
  from r have "sample_id \<in> D" by (cases errs) (auto simp: sendDeleteResult_def)
  with left run show ?thesis by (simp add: sample_left_def)
qed

theorem cleanupRules_correct_witness:
  "\<exists>w. cleanupRules mockFirewall_client ref_netlink None (\<lambda>_. True) (\<lambda>_. Inl (Msg ''no such container'')) (\<lambda>_. True)
     (map_host, host_engine) = (w, None) \<and> sample_left w"
proof -
  obtain m where del: "deleteContainerRules mockFirewall_client ref_netlink None (\<lambda>_. True) sample_id ''web'' (map_host, host_engine) =
    ((m, host_engine\<lparr>sq_tables := empty_tables\<rparr>), None)" by (rule host_deletion)
  have q: "db_query GetContainers host_engine = (host_engine, Inr [\<lparr>co_ID = sample_id, co_Name = ''web''\<rparr>])"
    by (simp add: db_query_def next_fault_def GetContainers_def host_engine_def)
  with del have run: "cleanupRules mockFirewall_client ref_netlink None (\<lambda>_. True) (\<lambda>_. Inl (Msg ''no such container'')) (\<lambda>_. True)
     (map_host, host_engine) = ((m, host_engine\<lparr>sq_tables := empty_tables\<rparr>), None)"
    by (simp add: cleanupRules_def st_join_def cleanup_container_def stripName_def wrap_step_def errors_join_def map_filter_simps)
  from cleanupRules_correct [OF mock.firewall_client_axioms map_host_ok(1) map_host_keys run] q
  obtain D and cts :: "Container list" and es :: "error option list" where ids: "co_ID ` set cts = {i. has_container (sq_tables host_engine) i}"
    and es: "length es = length cts" "None = errors_join es"
    and gone: "\<forall>(ct, x) \<in> set (zip cts es). x = None \<longrightarrow> co_ID ct \<in> D"
    and left: "\<forall>i \<in> D. forgotten ref_netlink i (mock_committed m) \<and>
      \<not> has_container (sq_tables (host_engine\<lparr>sq_tables := empty_tables\<rparr>)) i \<and>
      \<not> referenced (sq_tables (host_engine\<lparr>sq_tables := empty_tables\<rparr>)) i" by auto
  have "sample_id \<in> co_ID ` set cts" unfolding ids by (simp add: has_container_def host_engine_def)
  then obtain ct where "ct \<in> set cts" "co_ID ct = sample_id" by auto
  moreover from this es obtain x where "(ct, x) \<in> set (zip cts es)"
    by (metis in_set_impl_in_set_zip1 surj_pair)
  moreover from this es have "x = None" using errors_join_None_iff [of es] by (metis set_zip_rightD)
  ultimately have "sample_id \<in> D" using gone by auto
  with left run show ?thesis by (simp add: sample_left_def)
qed

end
