(* ===== verification/Tracker.thy ===== *)
theory Tracker
  imports Prelude
begin

text \<open>
  The container tracker of \<open>container/container.go\<close>, through which creations and deletions of a
  container's rules exclude each other. \<open>addContainer\<close> takes the mutex and, when an operation on the
  container is under way, waits for its end with the mutex still held; the cleanup function it returns
  closes the operation's channel before it takes the mutex. Both are therefore two atomic steps. The
  objects \<open>processingContainer\<close> are shared by pointer: they live in a store, and the map of the tracker
  holds their addresses. The cause of a context is the one it was first cancelled with. The context of an
  operation is derived from its caller's: it is cancelled, with the same cause, when that one is, and from the
  start if that one already was; every operation has a parent context of its own, as a parent cancels its
  children one after the other. Logging is not modelled.
\<close>

section \<open>State and operations\<close>

record processingContainer =
  pc_creating :: bool
  pc_cause :: "error option"
  pc_noCleanup :: bool
  pc_done :: bool

record tracker =
  tr_locked :: bool
  tr_containers :: "string \<Rightarrow> nat option"
  tr_store :: "nat \<Rightarrow> processingContainer"
  tr_next :: nat

definition NewTracker :: tracker where
  "NewTracker = \<lparr>tr_locked = False, tr_containers = (\<lambda>_. None),
     tr_store = (\<lambda>_. \<lparr>pc_creating = False, pc_cause = None, pc_noCleanup = False, pc_done = False\<rparr>), tr_next = 0\<rparr>"

definition cancel_with :: "error \<Rightarrow> processingContainer \<Rightarrow> processingContainer" where
  "cancel_with e p = (case pc_cause p of None \<Rightarrow> p\<lparr>pc_cause := Some e\<rparr> | Some _ \<Rightarrow> p)"

definition set_container :: "nat \<Rightarrow> processingContainer \<Rightarrow> tracker \<Rightarrow> tracker" where
  "set_container a p tr = tr\<lparr>tr_store := (tr_store tr)(a := p)\<rparr>"

text \<open>The phases of an operation: called, waiting with the mutex for the end of another one, running, its
  channel closed, and finished.\<close>

datatype phase = Called | Waits nat | Runs nat | Leaves nat | Finished

text \<open>The context of a new object is that of its parent context, cancelled or not.\<close>

definition register :: "error option \<Rightarrow> string \<Rightarrow> bool \<Rightarrow> tracker \<Rightarrow> tracker \<times> phase" where
  "register parent cid creating tr =
     (let a = tr_next tr;
          newCont = \<lparr>pc_creating = creating, pc_cause = parent, pc_noCleanup = False, pc_done = False\<rparr>
      in ((set_container a newCont tr)\<lparr>tr_containers := (tr_containers tr)(cid \<mapsto> a), tr_next := Suc a, tr_locked := False\<rparr>,
          Runs a))"

definition addContainer_lock :: "error option \<Rightarrow> string \<Rightarrow> bool \<Rightarrow> tracker \<Rightarrow> tracker \<times> phase" where
  "addContainer_lock parent cid creating tr =
     (case tr_containers tr cid of
        None \<Rightarrow> register parent cid creating tr
      | Some a \<Rightarrow>
          let cont = (tr_store tr a)\<lparr>pc_noCleanup := True\<rparr>;
              tr = (if pc_creating cont \<and> \<not> creating
                    then (set_container a (cancel_with ErrContainerDeleted cont) tr)
                      \<lparr>tr_containers := (tr_containers tr)(cid := None)\<rparr>
                    else set_container a cont tr)
          in (tr\<lparr>tr_locked := True\<rparr>, Waits a))"

definition addContainer_resume :: "error option \<Rightarrow> string \<Rightarrow> bool \<Rightarrow> tracker \<Rightarrow> tracker \<times> phase" where
  "addContainer_resume parent cid creating tr = register parent cid creating tr"

definition cleanup_close :: "nat \<Rightarrow> tracker \<Rightarrow> tracker \<times> phase" where
  "cleanup_close a tr = (set_container a ((cancel_with ErrCanceled (tr_store tr a))\<lparr>pc_done := True\<rparr>) tr, Leaves a)"

definition cleanup_remove :: "string \<Rightarrow> nat \<Rightarrow> tracker \<Rightarrow> tracker \<times> phase" where
  "cleanup_remove cid a tr =
     (if pc_noCleanup (tr_store tr a) then tr
      else tr\<lparr>tr_containers := (tr_containers tr)(cid := None)\<rparr>, Finished)"

section \<open>Operations side by side\<close>

text \<open>An operation on a container: a creation (\<open>StartCreatingContainer\<close>) or a deletion
  (\<open>StartDeletingContainer\<close>), the cause of its parent context once that is cancelled, and how far it is.\<close>

record operation =
  op_id :: string
  op_creating :: bool
  op_parent :: "error option"
  op_phase :: phase

type_synonym operations = "nat \<Rightarrow> operation option"

text \<open>One step of one operation. Taking the mutex needs it to be free; a waiting operation goes on when the
  channel it waits for is closed.\<close>

inductive tracker_step :: "tracker \<times> operations \<Rightarrow> nat \<Rightarrow> tracker \<times> operations \<Rightarrow> bool" where
  lock: "\<lbrakk>ops t = Some u; op_phase u = Called; \<not> tr_locked tr;
     addContainer_lock (op_parent u) (op_id u) (op_creating u) tr = (tr', ph)\<rbrakk>
   \<Longrightarrow> tracker_step (tr, ops) t (tr', ops(t \<mapsto> u\<lparr>op_phase := ph\<rparr>))"
| resume: "\<lbrakk>ops t = Some u; op_phase u = Waits a; pc_done (tr_store tr a);
     addContainer_resume (op_parent u) (op_id u) (op_creating u) tr = (tr', ph)\<rbrakk>
   \<Longrightarrow> tracker_step (tr, ops) t (tr', ops(t \<mapsto> u\<lparr>op_phase := ph\<rparr>))"
| close: "\<lbrakk>ops t = Some u; op_phase u = Runs a; cleanup_close a tr = (tr', ph)\<rbrakk>
   \<Longrightarrow> tracker_step (tr, ops) t (tr', ops(t \<mapsto> u\<lparr>op_phase := ph\<rparr>))"
| remove: "\<lbrakk>ops t = Some u; op_phase u = Leaves a; \<not> tr_locked tr; cleanup_remove (op_id u) a tr = (tr', ph)\<rbrakk>
   \<Longrightarrow> tracker_step (tr, ops) t (tr', ops(t \<mapsto> u\<lparr>op_phase := ph\<rparr>))"

text \<open>The parent context of an operation is cancelled: so is the context derived from it, if it is there
  (one that was left has been cancelled already).\<close>

definition parent_cancelled :: "error \<Rightarrow> operation \<Rightarrow> tracker \<Rightarrow> tracker" where
  "parent_cancelled e u tr =
     (case op_phase u of Runs a \<Rightarrow> set_container a (cancel_with e (tr_store tr a)) tr | _ \<Rightarrow> tr)"

inductive tracker_reachable :: "tracker \<times> operations \<Rightarrow> bool" where
  init: "tracker_reachable (NewTracker, \<lambda>_. None)"
| call: "tracker_reachable (tr, ops) \<Longrightarrow> ops t = None \<Longrightarrow>
    tracker_reachable (tr, ops(t \<mapsto> \<lparr>op_id = cid, op_creating = creating, op_parent = parent, op_phase = Called\<rparr>))"
| shutdown: "tracker_reachable (tr, ops) \<Longrightarrow> ops t = Some u \<Longrightarrow> op_parent u = None \<Longrightarrow>
    tracker_reachable (parent_cancelled e u tr, ops(t \<mapsto> u\<lparr>op_parent := Some e\<rparr>))"
| step: "tracker_reachable s \<Longrightarrow> tracker_step s t s' \<Longrightarrow> tracker_reachable s'"

inductive_cases tracker_stepE: "tracker_step s t s'"

section \<open>The invariant\<close>

text \<open>What the operations do with the objects.\<close>

definition runs :: "operations \<Rightarrow> nat \<Rightarrow> nat \<Rightarrow> bool" where
  "runs ops t a \<longleftrightarrow> (\<exists>u. ops t = Some u \<and> op_phase u = Runs a)"

definition leaves :: "operations \<Rightarrow> nat \<Rightarrow> nat \<Rightarrow> bool" where
  "leaves ops t a \<longleftrightarrow> (\<exists>u. ops t = Some u \<and> op_phase u = Leaves a)"

definition waits :: "operations \<Rightarrow> nat \<Rightarrow> nat \<Rightarrow> bool" where
  "waits ops t a \<longleftrightarrow> (\<exists>u. ops t = Some u \<and> op_phase u = Waits a)"

definition somebody_waits :: "operations \<Rightarrow> bool" where
  "somebody_waits ops \<longleftrightarrow> (\<exists>t a. waits ops t a)"

definition id_of :: "operations \<Rightarrow> nat \<Rightarrow> string" where
  "id_of ops t = op_id (the (ops t))"

definition owns :: "operations \<Rightarrow> nat \<Rightarrow> nat \<Rightarrow> bool" where
  "owns ops t a \<longleftrightarrow> runs ops t a \<or> leaves ops t a"

lemma phase_upd:
  assumes "ops t = Some u"
  shows "runs (ops(t \<mapsto> u\<lparr>op_phase := ph\<rparr>)) x a \<longleftrightarrow> (if x = t then ph = Runs a else runs ops x a)"
    "leaves (ops(t \<mapsto> u\<lparr>op_phase := ph\<rparr>)) x a \<longleftrightarrow> (if x = t then ph = Leaves a else leaves ops x a)"
    "waits (ops(t \<mapsto> u\<lparr>op_phase := ph\<rparr>)) x a \<longleftrightarrow> (if x = t then ph = Waits a else waits ops x a)"
    "id_of (ops(t \<mapsto> u\<lparr>op_phase := ph\<rparr>)) x = id_of ops x"
  using assms by (auto simp: runs_def leaves_def waits_def id_of_def)

lemma phase_call:
  assumes "ops t = None" "op_phase u = Called"
  shows "runs (ops(t \<mapsto> u)) x a \<longleftrightarrow> runs ops x a" "leaves (ops(t \<mapsto> u)) x a \<longleftrightarrow> leaves ops x a"
    "waits (ops(t \<mapsto> u)) x a \<longleftrightarrow> waits ops x a" "x \<noteq> t \<Longrightarrow> id_of (ops(t \<mapsto> u)) x = id_of ops x"
    "\<not> runs ops t a" "\<not> leaves ops t a" "\<not> waits ops t a"
  using assms by (auto simp: runs_def leaves_def waits_def id_of_def)

text \<open>Objects in use have been allocated, each has one owner, and its channel is closed once it leaves. The
  mutex is held by the one waiting operation; the object it waits for is that of an operation on the same
  container, which has been told not to clean up. The map holds, for every container, the object of an
  operation on it; and an operation that runs is in the map, or is waited for.\<close>

definition owners_ok :: "tracker \<times> operations \<Rightarrow> bool" where
  "owners_ok s \<longleftrightarrow> (case s of (tr, ops) \<Rightarrow>
     (\<forall>t a. owns ops t a \<longrightarrow> a < tr_next tr) \<and>
     (\<forall>t t' a. owns ops t a \<longrightarrow> owns ops t' a \<longrightarrow> t = t') \<and>
     (\<forall>t a. runs ops t a \<longrightarrow> \<not> pc_done (tr_store tr a)) \<and>
     (\<forall>t a. leaves ops t a \<longrightarrow> pc_done (tr_store tr a)))"

definition waiters_ok :: "tracker \<times> operations \<Rightarrow> bool" where
  "waiters_ok s \<longleftrightarrow> (case s of (tr, ops) \<Rightarrow>
     (tr_locked tr \<longleftrightarrow> somebody_waits ops) \<and>
     (\<forall>t t' a a'. waits ops t a \<longrightarrow> waits ops t' a' \<longrightarrow> t = t') \<and>
     (\<forall>t a. waits ops t a \<longrightarrow> pc_noCleanup (tr_store tr a) \<and>
        (tr_containers tr (id_of ops t) = None \<or> tr_containers tr (id_of ops t) = Some a) \<and>
        (\<exists>t'. owns ops t' a \<and> id_of ops t' = id_of ops t)))"

definition map_ok :: "tracker \<times> operations \<Rightarrow> bool" where
  "map_ok s \<longleftrightarrow> (case s of (tr, ops) \<Rightarrow>
     (\<forall>cid a. tr_containers tr cid = Some a \<longrightarrow>
        (\<exists>t. owns ops t a \<and> id_of ops t = cid) \<and>
        (pc_noCleanup (tr_store tr a) \<longrightarrow> (\<exists>t. waits ops t a \<and> id_of ops t = cid))) \<and>
     (\<forall>t a. owns ops t a \<longrightarrow> \<not> pc_noCleanup (tr_store tr a) \<longrightarrow> tr_containers tr (id_of ops t) = Some a) \<and>
     (\<forall>t a. runs ops t a \<longrightarrow> pc_noCleanup (tr_store tr a) \<longrightarrow>
        (\<exists>t'. waits ops t' a \<and> id_of ops t' = id_of ops t)))"

definition tracker_inv :: "tracker \<times> operations \<Rightarrow> bool" where
  "tracker_inv s \<longleftrightarrow> owners_ok s \<and> waiters_ok s \<and> map_ok s"

lemmas inv_defs = tracker_inv_def owners_ok_def waiters_ok_def map_ok_def prod.case

lemma phases_differ:
  "runs ops t a \<Longrightarrow> \<not> leaves ops t b \<and> \<not> waits ops t b \<and> (runs ops t b \<longrightarrow> a = b)"
  "leaves ops t a \<Longrightarrow> \<not> runs ops t b \<and> \<not> waits ops t b \<and> (leaves ops t b \<longrightarrow> a = b)"
  "waits ops t a \<Longrightarrow> \<not> runs ops t b \<and> \<not> leaves ops t b \<and> (waits ops t b \<longrightarrow> a = b)"
  by (auto simp: runs_def leaves_def waits_def)

lemma inv_facts:
  assumes "tracker_inv (tr, ops)"
  shows owner_bound: "owns ops t a \<Longrightarrow> a < tr_next tr"
    and owner_unique: "owns ops t a \<Longrightarrow> owns ops t' a \<Longrightarrow> t = t'"
    and runs_open: "runs ops t a \<Longrightarrow> \<not> pc_done (tr_store tr a)"
    and leaves_closed: "leaves ops t a \<Longrightarrow> pc_done (tr_store tr a)"
    and locked_iff: "tr_locked tr \<longleftrightarrow> somebody_waits ops"
    and waiter_unique: "waits ops t a \<Longrightarrow> waits ops t' a' \<Longrightarrow> t = t'"
    and waiter_told: "waits ops t a \<Longrightarrow> pc_noCleanup (tr_store tr a)"
    and waiter_entry: "waits ops t a \<Longrightarrow> tr_containers tr (id_of ops t) = None \<or> tr_containers tr (id_of ops t) = Some a"
    and waiter_owner: "waits ops t a \<Longrightarrow> \<exists>t'. owns ops t' a \<and> id_of ops t' = id_of ops t"
    and entry_owner: "tr_containers tr cid = Some a \<Longrightarrow> \<exists>t. owns ops t a \<and> id_of ops t = cid"
    and entry_waiter: "tr_containers tr cid = Some a \<Longrightarrow> pc_noCleanup (tr_store tr a) \<Longrightarrow>
      \<exists>t. waits ops t a \<and> id_of ops t = cid"
    and owner_entry: "owns ops t a \<Longrightarrow> \<not> pc_noCleanup (tr_store tr a) \<Longrightarrow> tr_containers tr (id_of ops t) = Some a"
    and runner_waiter: "runs ops t a \<Longrightarrow> pc_noCleanup (tr_store tr a) \<Longrightarrow>
      \<exists>t'. waits ops t' a \<and> id_of ops t' = id_of ops t"
proof -
  have ow: "owners_ok (tr, ops)" and wt: "waiters_ok (tr, ops)" and mok: "map_ok (tr, ops)"
    using assms by (simp_all add: tracker_inv_def)
  note o = ow [unfolded owners_ok_def prod.case] and w = wt [unfolded waiters_ok_def prod.case]
    and m = mok [unfolded map_ok_def prod.case]
  show "owns ops t a \<Longrightarrow> a < tr_next tr" by (rule o [THEN conjunct1, rule_format])
  show "owns ops t a \<Longrightarrow> owns ops t' a \<Longrightarrow> t = t'" by (rule o [THEN conjunct2, THEN conjunct1, rule_format])
  show "runs ops t a \<Longrightarrow> \<not> pc_done (tr_store tr a)"
    by (rule o [THEN conjunct2, THEN conjunct2, THEN conjunct1, rule_format])
  show "leaves ops t a \<Longrightarrow> pc_done (tr_store tr a)"
    by (rule o [THEN conjunct2, THEN conjunct2, THEN conjunct2, rule_format])
  show "tr_locked tr \<longleftrightarrow> somebody_waits ops" by (rule w [THEN conjunct1])
  show "waits ops t a \<Longrightarrow> waits ops t' a' \<Longrightarrow> t = t'" by (rule w [THEN conjunct2, THEN conjunct1, rule_format])
  note w3 = w [THEN conjunct2, THEN conjunct2, THEN spec, THEN spec, THEN mp, of t a]
  show "waits ops t a \<Longrightarrow> pc_noCleanup (tr_store tr a)" by (rule w3 [THEN conjunct1])
  show "waits ops t a \<Longrightarrow> tr_containers tr (id_of ops t) = None \<or> tr_containers tr (id_of ops t) = Some a"
    by (rule w3 [THEN conjunct2, THEN conjunct1])
  show "waits ops t a \<Longrightarrow> \<exists>t'. owns ops t' a \<and> id_of ops t' = id_of ops t"
    by (rule w3 [THEN conjunct2, THEN conjunct2])
  note m1 = m [THEN conjunct1, THEN spec, THEN spec, THEN mp, of cid a]
  show "tr_containers tr cid = Some a \<Longrightarrow> \<exists>t. owns ops t a \<and> id_of ops t = cid" by (rule m1 [THEN conjunct1])
  show "tr_containers tr cid = Some a \<Longrightarrow> pc_noCleanup (tr_store tr a) \<Longrightarrow> \<exists>t. waits ops t a \<and> id_of ops t = cid"
    by (rule m1 [THEN conjunct2, THEN mp])
  show "owns ops t a \<Longrightarrow> \<not> pc_noCleanup (tr_store tr a) \<Longrightarrow> tr_containers tr (id_of ops t) = Some a"
    by (rule m [THEN conjunct2, THEN conjunct1, rule_format])
  show "runs ops t a \<Longrightarrow> pc_noCleanup (tr_store tr a) \<Longrightarrow> \<exists>t'. waits ops t' a \<and> id_of ops t' = id_of ops t"
    by (rule m [THEN conjunct2, THEN conjunct2, rule_format])
qed

text \<open>A new object: nobody else is at work on the container.\<close>

lemma register_inv:
  assumes inv: "tracker_inv (tr, ops)" and u: "ops t = Some u" "\<And>a. \<not> owns ops t a"
    and quiet: "\<And>t' a. waits ops t' a \<Longrightarrow> t' = t \<and> pc_done (tr_store tr a)"
      "\<not> (\<exists>a. waits ops t a) \<Longrightarrow> tr_containers tr (op_id u) = None"
    and reg: "register (op_parent u) (op_id u) (op_creating u) tr = (tr', ph)"
  shows "tracker_inv (tr', ops(t \<mapsto> u\<lparr>op_phase := ph\<rparr>))"
proof -
  let ?n = "tr_next tr" and ?ops = "ops(t \<mapsto> u\<lparr>op_phase := ph\<rparr>)"
  have idt: "id_of ops t = op_id u" using u(1) by (simp add: id_of_def)
  have ph: "ph = Runs ?n" using reg by (auto simp: register_def Let_def)
  have tr': "tr_next tr' = Suc ?n" "\<not> tr_locked tr'" "tr_containers tr' = (tr_containers tr)(op_id u \<mapsto> ?n)"
    "\<And>a. a \<noteq> ?n \<Longrightarrow> tr_store tr' a = tr_store tr a" "\<not> pc_done (tr_store tr' ?n)" "\<not> pc_noCleanup (tr_store tr' ?n)"
    using reg by (auto simp: register_def Let_def set_container_def)
  note upd = phase_upd [where ops = ops and t = t, OF u(1), of ph]
  have own: "owns ?ops x a \<longleftrightarrow> (if x = t then a = ?n else owns ops x a)" for x a
    using upd ph by (auto simp: owns_def)
  have old: "a < ?n" if "owns ops x a" for x a by (rule owner_bound [OF inv that])
  have run: "runs ?ops x a \<longleftrightarrow> (if x = t then a = ?n else runs ops x a)" for x a using upd ph by auto
  have leave: "leaves ?ops x a \<longleftrightarrow> x \<noteq> t \<and> leaves ops x a" for x a using upd ph by auto
  have wait: "\<not> waits ?ops x a" for x a using upd ph quiet(1) by auto
  have store: "tr_store tr' a = tr_store tr a" if "owns ops x a" for x a using tr'(4) old [OF that] by simp
  have "owners_ok (tr', ?ops)"
    unfolding owners_ok_def prod.case
  proof (intro conjI allI impI)
    show "a < tr_next tr'" if "owns ?ops x a" for x a
      using that own old tr'(1) by (auto split: if_splits intro: less_SucI)
    show "x = y" if "owns ?ops x a" "owns ?ops y a" for x y a
    proof -
      have "\<not> owns ops z ?n" for z using old by blast
      moreover have "owns ops x a \<Longrightarrow> owns ops y a \<Longrightarrow> x = y" by (rule owner_unique [OF inv])
      ultimately show ?thesis using that own by (auto split: if_splits)
    qed
    show "\<not> pc_done (tr_store tr' a)" if "runs ?ops x a" for x a
    proof (cases "x = t")
      case False
      then have "runs ops x a" using that run by simp
      then show ?thesis using runs_open [OF inv] store [of x a] by (simp add: owns_def)
    qed (use that run tr'(5) in simp)
    show "pc_done (tr_store tr' a)" if "leaves ?ops x a" for x a
    proof -
      have "leaves ops x a" using that leave by simp
      then show ?thesis using leaves_closed [OF inv] store [of x a] by (simp add: owns_def)
    qed
  qed
  moreover have "waiters_ok (tr', ?ops)" unfolding waiters_ok_def prod.case somebody_waits_def using wait tr'(2) by blast
  moreover have "map_ok (tr', ?ops)"
    unfolding map_ok_def prod.case
  proof (intro conjI allI impI)
    have apart: "x \<noteq> t" if "owns ops x a" for x a using that u(2) by blast
    show "\<exists>x. owns ?ops x a \<and> id_of ?ops x = cid" if "tr_containers tr' cid = Some a" for cid a
    proof (cases "cid = op_id u")
      case True
      with that tr'(3) own idt upd(4) show ?thesis by (intro exI [of _ t]) simp
    next
      case False
      with that tr'(3) have "tr_containers tr cid = Some a" by simp
      then obtain x where "owns ops x a" "id_of ops x = cid" using entry_owner [OF inv] by blast
      with own apart upd(4) show ?thesis by (intro exI [of _ x]) simp
    qed
    show "\<exists>x. waits ?ops x a \<and> id_of ?ops x = cid"
      if c: "tr_containers tr' cid = Some a" "pc_noCleanup (tr_store tr' a)" for cid a
    proof (cases "cid = op_id u")
      case True
      with c tr'(3,6) show ?thesis by simp
    next
      case False
      with c(1) tr'(3) have old_entry: "tr_containers tr cid = Some a" by simp
      then obtain x where "owns ops x a" using entry_owner [OF inv] by blast
      with store c(2) have "pc_noCleanup (tr_store tr a)" by simp
      with old_entry obtain w where "waits ops w a" "id_of ops w = cid" using entry_waiter [OF inv] by blast
      with quiet(1) idt False show ?thesis by blast
    qed
    show "tr_containers tr' (id_of ?ops x) = Some a" if o: "owns ?ops x a" "\<not> pc_noCleanup (tr_store tr' a)" for x a
    proof (cases "x = t")
      case True
      with o own tr'(3) upd(4) idt show ?thesis by simp
    next
      case False
      with o own have x: "owns ops x a" by simp
      with o(2) store have nc: "\<not> pc_noCleanup (tr_store tr a)" by simp
      have entry: "tr_containers tr (id_of ops x) = Some a" by (rule owner_entry [OF inv x nc])
      have "id_of ops x \<noteq> op_id u"
      proof (cases "\<exists>b. waits ops t b")
        case True
        then obtain b where "pc_noCleanup (tr_store tr b)"
          "tr_containers tr (op_id u) = None \<or> tr_containers tr (op_id u) = Some b"
          using waiter_told [OF inv] waiter_entry [OF inv, of t] idt by auto
        with entry nc show ?thesis by auto
      next
        case False
        with quiet(2) entry show ?thesis by auto
      qed
      with entry tr'(3) upd(4) show ?thesis by simp
    qed
    show "\<exists>w. waits ?ops w a \<and> id_of ?ops w = id_of ?ops x" if r: "runs ?ops x a" "pc_noCleanup (tr_store tr' a)" for x a
    proof (cases "x = t")
      case True
      with r run tr'(6) show ?thesis by simp
    next
      case False
      with r run have x: "runs ops x a" by simp
      with r(2) store [of x a] have "pc_noCleanup (tr_store tr a)" by (simp add: owns_def)
      with x obtain w where "waits ops w a" using runner_waiter [OF inv] by blast
      with quiet(1) runs_open [OF inv x] show ?thesis by blast
    qed
  qed
  ultimately show ?thesis by (simp add: tracker_inv_def)
qed

lemma cancel_with_sel [simp]:
  "pc_noCleanup (cancel_with e p) = pc_noCleanup p" "pc_done (cancel_with e p) = pc_done p"
  "pc_creating (cancel_with e p) = pc_creating p"
  by (simp_all add: cancel_with_def split: option.splits)

lemma wait_inv:
  assumes inv: "tracker_inv (tr, ops)" and u: "ops t = Some u" "op_phase u = Called" and free: "\<not> tr_locked tr"
    and entry: "tr_containers tr (op_id u) = Some b"
    and lock: "addContainer_lock (op_parent u) (op_id u) (op_creating u) tr = (tr', ph)"
  shows "tracker_inv (tr', ops(t \<mapsto> u\<lparr>op_phase := ph\<rparr>))"
proof -
  let ?ops = "ops(t \<mapsto> u\<lparr>op_phase := ph\<rparr>)"
  have idt: "id_of ops t = op_id u" using u(1) by (simp add: id_of_def)
  have ph: "ph = Waits b" using lock entry by (simp add: addContainer_lock_def Let_def split: if_splits)
  have tr': "tr_next tr' = tr_next tr" "tr_locked tr'"
    "\<And>c. c \<noteq> op_id u \<Longrightarrow> tr_containers tr' c = tr_containers tr c"
    "tr_containers tr' (op_id u) = None \<or> tr_containers tr' (op_id u) = Some b"
    "\<And>a. pc_done (tr_store tr' a) = pc_done (tr_store tr a)"
    "\<And>a. pc_noCleanup (tr_store tr' a) = (a = b \<or> pc_noCleanup (tr_store tr a))"
    using lock entry by (auto simp: addContainer_lock_def Let_def set_container_def split: if_splits)
  note upd = phase_upd [where ops = ops and t = t, OF u(1), of ph]
  have idle: "\<not> runs ops t a" "\<not> leaves ops t a" "\<not> waits ops t a" for a
    using u by (auto simp: runs_def leaves_def waits_def)
  have own: "owns ?ops x a \<longleftrightarrow> owns ops x a" "runs ?ops x a \<longleftrightarrow> runs ops x a" "leaves ?ops x a \<longleftrightarrow> leaves ops x a" for x a
    using upd ph idle by (auto simp: owns_def)
  have nowait: "\<not> waits ops x a" for x a using locked_iff [OF inv] free unfolding somebody_waits_def by blast
  have wait: "waits ?ops x a \<longleftrightarrow> x = t \<and> a = b" for x a using upd ph nowait by auto
  obtain o1 where o1: "owns ops o1 b" "id_of ops o1 = op_id u" using entry_owner [OF inv entry] by blast
  have only: "id_of ops x = op_id u" if "owns ops x b" for x
    using owner_unique [OF inv that o1(1)] o1(2) by simp
  have entry_of: "a = b" if "owns ops x a" "id_of ops x = op_id u" "\<not> pc_noCleanup (tr_store tr a)" for x a
    using owner_entry [OF inv that(1,3)] that(2) entry by simp
  have "owners_ok (tr', ?ops)" using inv tr'(1,5) by (simp add: inv_defs own)
  moreover have "waiters_ok (tr', ?ops)"
    unfolding waiters_ok_def prod.case wait own(1) upd(4)
  proof (intro conjI allI impI)
    show "tr_locked tr' \<longleftrightarrow> somebody_waits ?ops" using tr'(2) wait unfolding somebody_waits_def by blast
    fix x a assume w: "x = t \<and> a = b"
    show "pc_noCleanup (tr_store tr' a)" using tr'(6) w by simp
    show "tr_containers tr' (id_of ops x) = None \<or> tr_containers tr' (id_of ops x) = Some a" using tr'(4) w idt by simp
    show "\<exists>y. owns ops y a \<and> id_of ops y = id_of ops x" by (intro exI [of _ o1]) (use o1 w idt in simp)
    show "x = y" if "y = t \<and> c = b" for y c using w that by simp
  qed
  moreover have "map_ok (tr', ?ops)"
    unfolding map_ok_def prod.case own upd(4) wait tr'(6)
  proof (intro conjI allI impI)
    fix cid a assume c: "tr_containers tr' cid = Some a"
    show "\<exists>x. owns ops x a \<and> id_of ops x = cid"
    proof (cases "cid = op_id u")
      case True
      with c tr'(4) o1 show ?thesis by auto
    next
      case False
      with c tr'(3) entry_owner [OF inv] show ?thesis by simp
    qed
    show "\<exists>x. (x = t \<and> a = b) \<and> id_of ops x = cid" if "a = b \<or> pc_noCleanup (tr_store tr a)"
    proof (cases "cid = op_id u")
      case True
      with c tr'(4) idt show ?thesis by auto
    next
      case False
      with c tr'(3) have old: "tr_containers tr cid = Some a" by simp
      then obtain x where x: "owns ops x a" "id_of ops x = cid" using entry_owner [OF inv] by blast
      from old nowait have "\<not> pc_noCleanup (tr_store tr a)" using entry_waiter [OF inv] by blast
      with that have "a = b" by simp
      with x only False show ?thesis by blast
    qed
  next
    fix x a assume "owns ops x a" and n: "\<not> (a = b \<or> pc_noCleanup (tr_store tr a))"
    then have "tr_containers tr (id_of ops x) = Some a" "id_of ops x \<noteq> op_id u"
      using owner_entry [OF inv] entry_of by blast+
    with tr'(3) show "tr_containers tr' (id_of ops x) = Some a" by simp
  next
    fix x a assume r: "runs ops x a" and n: "a = b \<or> pc_noCleanup (tr_store tr a)"
    have "\<not> pc_noCleanup (tr_store tr a)" using runner_waiter [OF inv r] nowait by blast
    with n have "a = b" by simp
    with r only idt show "\<exists>w. (w = t \<and> a = b) \<and> id_of ops w = id_of ops x" by (auto simp: owns_def)
  qed
  ultimately show ?thesis by (simp add: tracker_inv_def)
qed

lemma close_inv:
  assumes inv: "tracker_inv (tr, ops)" and u: "ops t = Some u" "op_phase u = Runs b"
    and close: "cleanup_close b tr = (tr', ph)"
  shows "tracker_inv (tr', ops(t \<mapsto> u\<lparr>op_phase := ph\<rparr>))"
proof -
  let ?ops = "ops(t \<mapsto> u\<lparr>op_phase := ph\<rparr>)"
  have ph: "ph = Leaves b" and tr': "tr_next tr' = tr_next tr" "tr_locked tr' = tr_locked tr" "tr_containers tr' = tr_containers tr"
    "\<And>a. pc_done (tr_store tr' a) = (a = b \<or> pc_done (tr_store tr a))"
    "\<And>a. pc_noCleanup (tr_store tr' a) = pc_noCleanup (tr_store tr a)"
    using close by (auto simp: cleanup_close_def set_container_def split: if_splits)
  note upd = phase_upd [where ops = ops and t = t, OF u(1), of ph]
  have at: "runs ops t b" using u by (simp add: runs_def)
  have here: "runs ops t a \<longleftrightarrow> a = b" "\<not> leaves ops t a" "\<not> waits ops t a" for a
    using at phases_differ(1) [OF at, of a] by blast+
  have phases: "owns ?ops x a \<longleftrightarrow> owns ops x a" "waits ?ops x a \<longleftrightarrow> waits ops x a"
    "runs ?ops x a \<longleftrightarrow> x \<noteq> t \<and> runs ops x a" "leaves ?ops x a \<longleftrightarrow> (x = t \<and> a = b \<or> leaves ops x a)" for x a
    using upd ph here by (auto simp: owns_def)
  have other: "x = t" if "runs ops x b" for x using owner_unique [OF inv] that at unfolding owns_def by blast
  have "owners_ok (tr', ?ops)"
    unfolding owners_ok_def prod.case phases tr'
    using owner_bound [OF inv] owner_unique [OF inv] runs_open [OF inv] leaves_closed [OF inv] other by blast
  moreover have "waiters_ok (tr', ?ops)"
  proof -
    have "somebody_waits ?ops = somebody_waits ops" unfolding somebody_waits_def using phases(2) by blast
    then show ?thesis using inv unfolding tracker_inv_def waiters_ok_def prod.case phases tr' upd(4) by iprover
  qed
  moreover have "map_ok (tr', ?ops)"
    unfolding map_ok_def prod.case phases tr' upd(4)
    using entry_owner [OF inv] entry_waiter [OF inv] owner_entry [OF inv] runner_waiter [OF inv] by iprover
  ultimately show ?thesis by (simp add: tracker_inv_def)
qed

lemma remove_inv:
  assumes inv: "tracker_inv (tr, ops)" and u: "ops t = Some u" "op_phase u = Leaves b" and free: "\<not> tr_locked tr"
    and remove: "cleanup_remove (op_id u) b tr = (tr', ph)"
  shows "tracker_inv (tr', ops(t \<mapsto> u\<lparr>op_phase := ph\<rparr>))"
proof -
  let ?ops = "ops(t \<mapsto> u\<lparr>op_phase := ph\<rparr>)" and ?nc = "pc_noCleanup (tr_store tr b)"
  have idt: "id_of ops t = op_id u" using u(1) by (simp add: id_of_def)
  have ph: "ph = Finished" and tr': "tr_next tr' = tr_next tr" "tr_locked tr' = tr_locked tr" "tr_store tr' = tr_store tr"
    "\<And>c. tr_containers tr' c = (if \<not> ?nc \<and> c = op_id u then None else tr_containers tr c)"
    using remove by (auto simp: cleanup_remove_def split: if_splits)
  note upd = phase_upd [where ops = ops and t = t, OF u(1), of ph]
  have at: "leaves ops t b" using u by (simp add: leaves_def)
  have here: "\<not> runs ops t a" "leaves ops t a \<longleftrightarrow> a = b" "\<not> waits ops t a" for a
    using at phases_differ(2) [OF at, of a] by blast+
  have nowait: "\<not> waits ops x a" for x a using locked_iff [OF inv] free unfolding somebody_waits_def by blast
  have phases: "runs ?ops x a \<longleftrightarrow> runs ops x a" "leaves ?ops x a \<longleftrightarrow> x \<noteq> t \<and> leaves ops x a"
    "owns ?ops x a \<longleftrightarrow> x \<noteq> t \<and> owns ops x a" "\<not> waits ?ops x a" for x a
    using upd ph here nowait by (auto simp: owns_def)
  have alone: "x = t" if "owns ops x b" for x using owner_unique [OF inv that] at unfolding owns_def by blast
  have own_t: "owns ops t b" using at by (simp add: owns_def)
  have entry: "\<not> pc_noCleanup (tr_store tr a)" if "tr_containers tr cid = Some a" for cid a
    using entry_waiter [OF inv that] nowait by blast
  have "owners_ok (tr', ?ops)"
    unfolding owners_ok_def prod.case phases tr'
    using owner_bound [OF inv] owner_unique [OF inv] runs_open [OF inv] leaves_closed [OF inv] by blast
  moreover have "waiters_ok (tr', ?ops)"
    unfolding waiters_ok_def prod.case somebody_waits_def using phases(4) free tr'(2) by blast
  moreover have "map_ok (tr', ?ops)"
    unfolding map_ok_def prod.case upd(4) tr'(3)
  proof (intro conjI allI impI)
    fix cid a assume c: "tr_containers tr' cid = Some a"
    then have old: "tr_containers tr cid = Some a" and ne: "\<not> ?nc \<longrightarrow> cid \<noteq> op_id u"
      unfolding tr'(4) by (auto split: if_splits)
    obtain x where x: "owns ops x a" "id_of ops x = cid" using entry_owner [OF inv old] by blast
    have "a \<noteq> b"
    proof
      assume ab: "a = b"
      with x alone idt have "cid = op_id u" by blast
      with ne entry [OF old] ab show False by simp
    qed
    then have "x \<noteq> t" using x(1) here by (auto simp: owns_def)
    with x phases(3) show "\<exists>x. owns ?ops x a \<and> id_of ops x = cid" by blast
    show "\<exists>x. waits ?ops x a \<and> id_of ops x = cid" if "pc_noCleanup (tr_store tr a)"
      using entry [OF old] that by simp
  next
    fix x a assume o: "owns ?ops x a" and n: "\<not> pc_noCleanup (tr_store tr a)"
    then have x: "x \<noteq> t" "owns ops x a" using phases by auto
    then have old: "tr_containers tr (id_of ops x) = Some a" using owner_entry [OF inv _ n] by blast
    have "id_of ops x \<noteq> op_id u" if "\<not> ?nc"
    proof
      assume "id_of ops x = op_id u"
      moreover have "tr_containers tr (op_id u) = Some b" using owner_entry [OF inv own_t that] idt by simp
      ultimately have "a = b" using old by simp
      with x alone show False by blast
    qed
    with old show "tr_containers tr' (id_of ops x) = Some a" unfolding tr'(4) by auto
  next
    fix x a assume "runs ?ops x a" "pc_noCleanup (tr_store tr a)"
    then show "\<exists>w. waits ?ops w a \<and> id_of ops w = id_of ops x"
      using runner_waiter [OF inv] nowait phases(1) by blast
  qed
  ultimately show ?thesis by (simp add: tracker_inv_def)
qed

lemma step_inv:
  assumes "tracker_inv s" "tracker_step s t s'"
  shows "tracker_inv s'"
  using assms(2)
proof cases
  case (lock ops u tr tr' ph)
  note inv = assms(1) [unfolded lock(1)]
  show ?thesis
  proof (cases "tr_containers tr (op_id u)")
    case None
    with lock(6) have reg: "register (op_parent u) (op_id u) (op_creating u) tr = (tr', ph)" by (simp add: addContainer_lock_def)
    have free: "\<not> waits ops x a" for x a using locked_iff [OF inv] lock(5) unfolding somebody_waits_def by blast
    have idle: "\<not> owns ops t a" for a using lock(3,4) by (auto simp: owns_def runs_def leaves_def)
    show ?thesis unfolding lock(2) by (rule register_inv [OF inv lock(3) idle _ _ reg]) (use free None in auto)
  next
    case (Some b)
    show ?thesis unfolding lock(2) by (rule wait_inv [OF inv lock(3,4,5) Some lock(6)])
  qed
next
  case (resume ops u a tr tr' ph)
  note inv = assms(1) [unfolded resume(1)]
  have reg: "register (op_parent u) (op_id u) (op_creating u) tr = (tr', ph)" using resume(6) by (simp add: addContainer_resume_def)
  have w: "waits ops t a" using resume(3,4) by (simp add: waits_def)
  have alone: "x = t \<and> pc_done (tr_store tr b)" if "waits ops x b" for x b
  proof -
    have "x = t" by (rule waiter_unique [OF inv that w])
    with that phases_differ(3) [OF w, of b] resume(5) show ?thesis by simp
  qed
  have idle: "\<not> owns ops t b" for b using phases_differ(3) [OF w] by (simp add: owns_def)
  show ?thesis unfolding resume(2) by (rule register_inv [OF inv resume(3) idle alone _ reg]) (use w in blast)+
next
  case (close ops u a tr tr' ph)
  show ?thesis unfolding close(2) by (rule close_inv [OF assms(1) [unfolded close(1)] close(3-5)])
next
  case (remove ops u a tr tr' ph)
  show ?thesis unfolding remove(2) by (rule remove_inv [OF assms(1) [unfolded remove(1)] remove(3-6)])
qed

lemma call_inv:
  assumes inv: "tracker_inv (tr, ops)" and t: "ops t = None" "op_phase u = Called"
  shows "tracker_inv (tr, ops(t \<mapsto> u))"
proof -
  let ?ops = "ops(t \<mapsto> u)"
  note c = phase_call [where ops = ops and t = t and u = u, OF t]
  have own: "owns ?ops x a \<longleftrightarrow> owns ops x a" for x a by (simp add: owns_def c)
  have ids: "owns ops x a \<Longrightarrow> id_of ?ops x = id_of ops x" "waits ops x a \<Longrightarrow> id_of ?ops x = id_of ops x" for x a
    using c(4-7) unfolding owns_def by (cases "x = t"; blast)+
  have "owners_ok (tr, ?ops)"
    unfolding owners_ok_def prod.case own c(1,2)
    using owner_bound [OF inv] owner_unique [OF inv] runs_open [OF inv] leaves_closed [OF inv] by blast
  moreover have "waiters_ok (tr, ?ops)"
    unfolding waiters_ok_def prod.case own c(3)
  proof (intro conjI allI impI)
    have "somebody_waits ?ops = somebody_waits ops" unfolding somebody_waits_def using c(3) by blast
    then show "tr_locked tr \<longleftrightarrow> somebody_waits ?ops" using locked_iff [OF inv] by simp
    fix x a assume w: "waits ops x a"
    show "pc_noCleanup (tr_store tr a)" by (rule waiter_told [OF inv w])
    show "tr_containers tr (id_of ?ops x) = None \<or> tr_containers tr (id_of ?ops x) = Some a"
      using waiter_entry [OF inv w] ids(2) [OF w] by simp
    show "\<exists>y. owns ops y a \<and> id_of ?ops y = id_of ?ops x"
      using waiter_owner [OF inv w] ids(1) ids(2) [OF w] by auto
    show "x = y" if "waits ops y b" for y b by (rule waiter_unique [OF inv w that])
  qed
  moreover have "map_ok (tr, ?ops)"
    unfolding map_ok_def prod.case own c(1,3)
  proof (intro conjI allI impI)
    fix cid a assume e: "tr_containers tr cid = Some a"
    show "\<exists>y. owns ops y a \<and> id_of ?ops y = cid" using entry_owner [OF inv e] ids(1) by auto
    show "\<exists>y. waits ops y a \<and> id_of ?ops y = cid" if "pc_noCleanup (tr_store tr a)"
      using entry_waiter [OF inv e that] ids(2) by auto
  next
    fix x a assume o: "owns ops x a" "\<not> pc_noCleanup (tr_store tr a)"
    show "tr_containers tr (id_of ?ops x) = Some a" using owner_entry [OF inv o] ids(1) [OF o(1)] by simp
  next
    fix x a assume r: "runs ops x a" "pc_noCleanup (tr_store tr a)"
    then have "owns ops x a" by (simp add: owns_def)
    with runner_waiter [OF inv r] ids show "\<exists>y. waits ops y a \<and> id_of ?ops y = id_of ?ops x" by auto
  qed
  ultimately show ?thesis by (simp add: tracker_inv_def)
qed

text \<open>The cancellation of a parent context changes nothing of this.\<close>

lemma phase_parent:
  assumes "ops t = Some u"
  shows "runs (ops(t \<mapsto> u\<lparr>op_parent := x\<rparr>)) = runs ops" "leaves (ops(t \<mapsto> u\<lparr>op_parent := x\<rparr>)) = leaves ops"
    "waits (ops(t \<mapsto> u\<lparr>op_parent := x\<rparr>)) = waits ops" "id_of (ops(t \<mapsto> u\<lparr>op_parent := x\<rparr>)) = id_of ops"
  using assms by (auto simp: runs_def leaves_def waits_def id_of_def fun_eq_iff)

lemma parent_cancelled_sel:
  "tr_locked (parent_cancelled e u tr) = tr_locked tr" "tr_containers (parent_cancelled e u tr) = tr_containers tr"
  "tr_next (parent_cancelled e u tr) = tr_next tr"
  "pc_done (tr_store (parent_cancelled e u tr) a) = pc_done (tr_store tr a)"
  "pc_noCleanup (tr_store (parent_cancelled e u tr) a) = pc_noCleanup (tr_store tr a)"
  "pc_creating (tr_store (parent_cancelled e u tr) a) = pc_creating (tr_store tr a)"
  by (auto simp: parent_cancelled_def set_container_def cancel_with_def split: phase.splits option.splits)

lemma parent_inv:
  assumes "tracker_inv (tr, ops)" "ops t = Some u"
  shows "tracker_inv (parent_cancelled e u tr, ops(t \<mapsto> u\<lparr>op_parent := x\<rparr>))"
  using assms(1)
  unfolding inv_defs owns_def somebody_waits_def phase_parent [where ops = ops and t = t, OF assms(2)] parent_cancelled_sel .

lemma reachable_inv: "tracker_reachable s \<Longrightarrow> tracker_inv s"
proof (induction rule: tracker_reachable.induct)
  case init
  show ?case by (simp add: inv_defs owns_def runs_def leaves_def waits_def somebody_waits_def NewTracker_def)
next
  case (call tr ops t cid creating parent)
  then show ?case by (intro call_inv) simp_all
next
  case (shutdown tr ops t u e)
  show ?case by (rule parent_inv [OF shutdown.IH shutdown.hyps(2)])
next
  case (step s t s')
  show ?case by (rule step_inv [OF step.IH step.hyps(2)])
qed

end
