(* ===== verification/Tracker_Correct.thy ===== *)
theory Tracker_Correct
  imports Tracker
begin

text \<open>
  What the container tracker promises its callers: operations on one container exclude each other, a
  deletion cancels the creation it waits for and only such a creation is cancelled that way, whatever the
  parent contexts do meanwhile, no operation is stuck for ever, and nothing stays registered. Each is read off the invariant of \<open>Tracker\<close>; the
  causes of the contexts have an invariant of their own.
\<close>

section \<open>Causes of cancellation\<close>

definition creates :: "operations \<Rightarrow> nat \<Rightarrow> bool" where
  "creates ops t \<longleftrightarrow> op_creating (the (ops t))"

lemma creates_upd [simp]:
  "ops t = Some u \<Longrightarrow> creates (ops(t \<mapsto> u\<lparr>op_phase := ph\<rparr>)) x = creates ops x"
  "x \<noteq> t \<Longrightarrow> creates (ops(t \<mapsto> v)) x = creates ops x"
  by (simp_all add: creates_def)

text \<open>The cause a deletion that waits for the operation would have given its context.\<close>

definition deleted :: "operations \<Rightarrow> nat \<Rightarrow> nat \<Rightarrow> bool" where
  "deleted ops t a \<longleftrightarrow> creates ops t \<and> (\<exists>w. waits ops w a \<and> \<not> creates ops w)"

definition parent_of :: "operations \<Rightarrow> nat \<Rightarrow> error option" where
  "parent_of ops t = op_parent (the (ops t))"

lemma parent_of_upd [simp]:
  "ops t = Some u \<Longrightarrow> parent_of (ops(t \<mapsto> u\<lparr>op_phase := ph\<rparr>)) x = parent_of ops x"
  "x \<noteq> t \<Longrightarrow> parent_of (ops(t \<mapsto> v)) x = parent_of ops x"
  by (simp_all add: parent_of_def)

text \<open>A context with a parent, and a deletion that may wait for it: it has been cancelled exactly when one
  of them has cancelled it, with that one's cause.\<close>

definition caused :: "error option \<Rightarrow> error option \<Rightarrow> bool \<Rightarrow> bool" where
  "caused cause parent del \<longleftrightarrow>
     (cause = None \<longleftrightarrow> parent = None \<and> \<not> del) \<and>
     (\<forall>e. cause = Some e \<longrightarrow> parent = Some e \<or> e = ErrContainerDeleted \<and> del)"

lemma caused_simps [simp]:
  "caused parent parent False" "caused None parent del \<longleftrightarrow> parent = None \<and> \<not> del"
  "caused (Some e) None del \<longleftrightarrow> e = ErrContainerDeleted \<and> del"
  by (auto simp: caused_def)

text \<open>The object of a running operation says what the operation is, and its context has been cancelled
  by the parent, or by a deletion that waits for a creation.\<close>

definition cause_ok :: "tracker \<times> operations \<Rightarrow> bool" where
  "cause_ok s \<longleftrightarrow> (case s of (tr, ops) \<Rightarrow> \<forall>t a. runs ops t a \<longrightarrow>
     pc_creating (tr_store tr a) = creates ops t \<and>
     caused (pc_cause (tr_store tr a)) (parent_of ops t) (deleted ops t a))"

lemma cause_okD:
  assumes "cause_ok (tr, ops)" "runs ops t a"
  shows "pc_creating (tr_store tr a) = creates ops t"
    "caused (pc_cause (tr_store tr a)) (parent_of ops t) (deleted ops t a)"
  using assms unfolding cause_ok_def prod.case by blast+

text \<open>Registering an operation gives it an object nobody waits for and leaves the other objects alone; the
  operation itself, if it waited, waited for an object that no longer runs.\<close>

lemma register_cause:
  assumes inv: "tracker_inv (tr, ops)" and ok: "cause_ok (tr, ops)" and u: "ops t = Some u"
    and left: "\<And>a. waits ops t a \<Longrightarrow> pc_done (tr_store tr a)" and idle: "\<And>a. \<not> runs ops t a"
    and reg: "register (op_parent u) (op_id u) (op_creating u) tr = (tr', ph)"
  shows "cause_ok (tr', ops(t \<mapsto> u\<lparr>op_phase := ph\<rparr>))"
proof -
  let ?ops = "ops(t \<mapsto> u\<lparr>op_phase := ph\<rparr>)"
  have ph: "ph = Runs (tr_next tr)"
    and new: "tr_store tr' (tr_next tr) = \<lparr>pc_creating = op_creating u, pc_cause = op_parent u, pc_noCleanup = False, pc_done = False\<rparr>"
    and old: "\<And>a. a \<noteq> tr_next tr \<Longrightarrow> tr_store tr' a = tr_store tr a"
    using reg by (auto simp: register_def Let_def set_container_def)
  note upd = phase_upd [where ops = ops and t = t, OF u, of ph] creates_upd(1) [of ops t u, OF u, of ph]
  have fresh: "\<not> waits ops x (tr_next tr)" for x
    using waiter_owner [OF inv, of x "tr_next tr"] owner_bound [OF inv, of _ "tr_next tr"] by blast
  have alone: "a \<noteq> tr_next tr" if "runs ops x a" for x a
    using owner_bound [OF inv, of x a] that by (auto simp: owns_def)
  have same: "deleted ?ops x a \<longleftrightarrow> deleted ops x a" if "runs ops x a" for x a
  proof -
    have "\<not> waits ops t a" using left runs_open [OF inv that] by blast
    then have "waits ?ops w a \<longleftrightarrow> waits ops w a" for w using upd(3) ph by auto
    then show ?thesis by (simp add: deleted_def upd(5))
  qed
  show ?thesis
    unfolding cause_ok_def prod.case
  proof (intro allI impI)
    fix x a assume r: "runs ?ops x a"
    show "pc_creating (tr_store tr' a) = creates ?ops x \<and>
      caused (pc_cause (tr_store tr' a)) (parent_of ?ops x) (deleted ?ops x a)"
    proof (cases "x = t")
      case True
      then have a: "a = tr_next tr" using r upd(1) ph by simp
      have "\<not> waits ?ops w a" for w using upd(3) ph fresh a by auto
      then have "\<not> deleted ?ops x a" by (simp add: deleted_def)
      with a new True u show ?thesis by (simp add: creates_def parent_of_def)
    next
      case False
      then have ro: "runs ops x a" using r upd(1) by simp
      show ?thesis unfolding upd(5) same [OF ro] old [OF alone [OF ro]] parent_of_upd(1) [where ops = ops and t = t, OF u]
        using cause_okD [OF ok ro] by blast
    qed
  qed
qed

text \<open>An operation that comes to wait cancels the creation it finds if it is a deletion, and nothing else.\<close>

lemma wait_cause:
  assumes inv: "tracker_inv (tr, ops)" and ok: "cause_ok (tr, ops)" and u: "ops t = Some u" "op_phase u = Called"
    and free: "\<not> tr_locked tr" and entry: "tr_containers tr (op_id u) = Some b"
    and lock: "addContainer_lock (op_parent u) (op_id u) (op_creating u) tr = (tr', ph)"
  shows "cause_ok (tr', ops(t \<mapsto> u\<lparr>op_phase := ph\<rparr>))"
proof -
  let ?ops = "ops(t \<mapsto> u\<lparr>op_phase := ph\<rparr>)"
  have ph: "ph = Waits b"
    and st: "pc_creating (tr_store tr' a) = pc_creating (tr_store tr a)"
      "pc_cause (tr_store tr' a) = (if a = b \<and> pc_creating (tr_store tr b) \<and> \<not> op_creating u \<and> pc_cause (tr_store tr b) = None
         then Some ErrContainerDeleted else pc_cause (tr_store tr a))" for a
    using lock entry
    by (auto simp: addContainer_lock_def Let_def set_container_def cancel_with_def split: if_splits option.splits)
  note upd = phase_upd [where ops = ops and t = t, OF u(1), of ph] creates_upd(1) [of ops t u, OF u(1), of ph]
  have nowait: "\<not> waits ops x a" for x a using locked_iff [OF inv] free unfolding somebody_waits_def by blast
  have idle: "\<not> runs ops t a" for a using u by (simp add: runs_def)
  have wait: "waits ?ops x a \<longleftrightarrow> x = t \<and> a = b" for x a using upd(3) ph nowait by auto
  have run: "runs ?ops x a \<longleftrightarrow> runs ops x a" for x a using upd(1) ph idle by auto
  have ct: "creates ops t = op_creating u" using u by (simp add: creates_def)
  show ?thesis
    unfolding cause_ok_def prod.case run st
  proof (intro allI impI)
    fix x a assume r: "runs ops x a"
    have c: "pc_creating (tr_store tr a) = creates ops x" "caused (pc_cause (tr_store tr a)) (parent_of ops x) False"
      using cause_okD [OF ok r] nowait by (simp_all add: deleted_def)
    have del: "deleted ?ops x a \<longleftrightarrow> creates ops x \<and> a = b \<and> \<not> op_creating u"
      unfolding deleted_def wait upd(5) by (auto simp: ct)
    have par: "parent_of ?ops x = parent_of ops x" using parent_of_upd(1) [where ops = ops and t = t, OF u(1)] .
    show "pc_creating (tr_store tr a) = creates ?ops x \<and>
      caused (if a = b \<and> pc_creating (tr_store tr b) \<and> \<not> op_creating u \<and> pc_cause (tr_store tr b) = None
        then Some ErrContainerDeleted else pc_cause (tr_store tr a)) (parent_of ?ops x) (deleted ?ops x a)"
      unfolding par del upd(5) using c by (auto simp: caused_def)
  qed
qed

lemma step_cause:
  assumes inv: "tracker_inv s" and ok: "cause_ok s" and step: "tracker_step s t s'"
  shows "cause_ok s'"
  using step
proof cases
  case (lock ops u tr tr' ph)
  note inv = inv [unfolded lock(1)] and ok = ok [unfolded lock(1)]
  show ?thesis
  proof (cases "tr_containers tr (op_id u)")
    case None
    with lock(6) have reg: "register (op_parent u) (op_id u) (op_creating u) tr = (tr', ph)" by (simp add: addContainer_lock_def)
    show ?thesis unfolding lock(2)
      by (rule register_cause [OF inv ok lock(3) _ _ reg]) (use lock(3,4) in \<open>auto simp: runs_def waits_def\<close>)
  next
    case (Some b)
    show ?thesis unfolding lock(2) by (rule wait_cause [OF inv ok lock(3,4,5) Some lock(6)])
  qed
next
  case (resume ops u a tr tr' ph)
  note inv = inv [unfolded resume(1)] and ok = ok [unfolded resume(1)]
  have reg: "register (op_parent u) (op_id u) (op_creating u) tr = (tr', ph)" using resume(6) by (simp add: addContainer_resume_def)
  show ?thesis unfolding resume(2)
    by (rule register_cause [OF inv ok resume(3) _ _ reg]) (use resume(3,4,5) in \<open>auto simp: runs_def waits_def\<close>)
next
  case (close ops u b tr tr' ph)
  note inv = inv [unfolded close(1)] and ok = ok [unfolded close(1)]
  have ph: "ph = Leaves b" and st: "\<And>a. a \<noteq> b \<Longrightarrow> tr_store tr' a = tr_store tr a"
    using close(5) by (auto simp: cleanup_close_def set_container_def)
  note upd = phase_upd [where ops = ops and t = t, OF close(3), of ph] creates_upd(1) [of ops t u, OF close(3), of ph]
  have at: "runs ops t b" using close(3,4) by (simp add: runs_def)
  have w: "waits (ops(t \<mapsto> u\<lparr>op_phase := ph\<rparr>)) x a \<longleftrightarrow> waits ops x a" for x a
    using upd(3) ph phases_differ(1) [OF at] by auto
  have d: "deleted (ops(t \<mapsto> u\<lparr>op_phase := ph\<rparr>)) x a \<longleftrightarrow> deleted ops x a" for x a
    unfolding deleted_def upd(5) w ..
  show ?thesis
    unfolding close(2) cause_ok_def prod.case upd(5) d parent_of_upd(1) [where ops = ops and t = t, OF close(3)]
  proof (intro allI impI)
    fix x a assume "runs (ops(t \<mapsto> u\<lparr>op_phase := ph\<rparr>)) x a"
    then have r: "runs ops x a" "x \<noteq> t" using upd(1) ph by (auto split: if_splits)
    then have "a \<noteq> b" using owner_unique [OF inv, of x b t] at by (auto simp: owns_def)
    from cause_okD [OF ok r(1)] show "pc_creating (tr_store tr' a) = creates ops x \<and>
        caused (pc_cause (tr_store tr' a)) (parent_of ops x) (deleted ops x a)"
      unfolding st [OF \<open>a \<noteq> b\<close>] by blast
  qed
next
  case (remove ops u b tr tr' ph)
  have ph: "ph = Finished" and st: "tr_store tr' = tr_store tr"
    using remove(6) by (auto simp: cleanup_remove_def split: if_splits)
  note upd = phase_upd [where ops = ops and t = t, OF remove(3), of ph] creates_upd(1) [of ops t u, OF remove(3), of ph]
  have "\<not> waits ops t a" "\<not> runs ops t a" for a using remove(3,4) by (simp_all add: waits_def runs_def)
  then have w: "waits (ops(t \<mapsto> u\<lparr>op_phase := ph\<rparr>)) x a \<longleftrightarrow> waits ops x a"
    "runs (ops(t \<mapsto> u\<lparr>op_phase := ph\<rparr>)) x a \<longleftrightarrow> runs ops x a" for x a
    using upd(1,3) ph by auto
  show ?thesis
    using ok unfolding remove(1,2) cause_ok_def prod.case deleted_def upd(5) w st
      parent_of_upd(1) [where ops = ops and t = t, OF remove(3)] .
qed

text \<open>The cancellation of a parent reaches the context of its own operation only.\<close>

lemma parent_cause:
  assumes inv: "tracker_inv (tr, ops)" and ok: "cause_ok (tr, ops)" and u: "ops t = Some u" "op_parent u = None"
  shows "cause_ok (parent_cancelled e u tr, ops(t \<mapsto> u\<lparr>op_parent := Some e\<rparr>))"
proof -
  let ?ops = "ops(t \<mapsto> u\<lparr>op_parent := Some e\<rparr>)"
  note upd = phase_parent [where ops = ops and t = t, OF u(1)]
  have c: "creates ?ops x = creates ops x" for x using u(1) by (simp add: creates_def)
  have d: "deleted ?ops x a = deleted ops x a" for x a unfolding deleted_def upd c ..
  show ?thesis
    unfolding cause_ok_def prod.case upd c d parent_cancelled_sel
  proof (intro allI impI)
    fix x a assume r: "runs ops x a"
    note k = cause_okD [OF ok r]
    have "caused (pc_cause (tr_store (parent_cancelled e u tr) a)) (parent_of ?ops x) (deleted ops x a)"
    proof (cases "x = t")
      case True
      then have "op_phase u = Runs a" using r u(1) by (simp add: runs_def)
      with k(2) True u show ?thesis
        by (auto simp: parent_cancelled_def set_container_def cancel_with_def parent_of_def caused_def split: option.splits)
    next
      case False
      have "op_phase u \<noteq> Runs a"
        using owner_unique [OF inv, of x a t] r u(1) False by (auto simp: owns_def runs_def)
      then have "tr_store (parent_cancelled e u tr) a = tr_store tr a"
        by (auto simp: parent_cancelled_def set_container_def split: phase.splits)
      with k(2) False show ?thesis by simp
    qed
    with k(1) show "pc_creating (tr_store tr a) = creates ops x \<and>
        caused (pc_cause (tr_store (parent_cancelled e u tr) a)) (parent_of ?ops x) (deleted ops x a)" ..
  qed
qed

text \<open>The first cause of a context is its last.\<close>

lemma cancel_with_keeps: "pc_cause p = Some e \<Longrightarrow> pc_cause (cancel_with e' p) = Some e"
  by (simp add: cancel_with_def)

lemma step_keeps_cause:
  assumes "tracker_step (tr, ops) t (tr', ops')" "a < tr_next tr" "pc_cause (tr_store tr a) = Some e"
  shows "pc_cause (tr_store tr' a) = Some e"
  using assms(1)
proof cases
  case (lock u ph)
  with assms(2,3) show ?thesis
    by (auto simp: addContainer_lock_def register_def Let_def set_container_def cancel_with_def split: option.splits if_splits)
next
  case (resume u b ph)
  with assms(2,3) show ?thesis by (auto simp: addContainer_resume_def register_def Let_def set_container_def)
next
  case (close u b ph)
  with assms(3) show ?thesis by (auto simp: cleanup_close_def set_container_def cancel_with_def)
next
  case (remove u b ph)
  with assms(3) show ?thesis by (auto simp: cleanup_remove_def split: if_splits)
qed

lemma parent_keeps_cause:
  "pc_cause (tr_store tr a) = Some e \<Longrightarrow> pc_cause (tr_store (parent_cancelled e' u tr) a) = Some e"
  by (auto simp: parent_cancelled_def set_container_def cancel_with_keeps split: phase.splits)

lemma reachable_cause: "tracker_reachable s \<Longrightarrow> cause_ok s"
proof (induction rule: tracker_reachable.induct)
  case init
  show ?case by (simp add: cause_ok_def runs_def)
next
  case (call tr ops t cid creating parent)
  let ?ops = "ops(t \<mapsto> \<lparr>op_id = cid, op_creating = creating, op_parent = parent, op_phase = Called\<rparr>)"
  have c: "runs ?ops x a \<longleftrightarrow> runs ops x a" "waits ?ops x a \<longleftrightarrow> waits ops x a" "\<not> runs ops t a" "\<not> waits ops t a" for x a
    using call(2) by (auto simp: runs_def waits_def)
  show ?case
    unfolding cause_ok_def prod.case c
  proof (intro allI impI)
    fix x a assume r: "runs ops x a"
    then have "x \<noteq> t" using c(3) by blast
    moreover have "(\<exists>w. waits ops w a \<and> \<not> creates ?ops w) \<longleftrightarrow> (\<exists>w. waits ops w a \<and> \<not> creates ops w)"
      using c(4) creates_upd(2) by metis
    ultimately have "deleted ?ops x a \<longleftrightarrow> deleted ops x a" by (simp add: deleted_def c(2))
    with cause_okD [OF call.IH r] \<open>x \<noteq> t\<close> show "pc_creating (tr_store tr a) = creates ?ops x \<and>
        caused (pc_cause (tr_store tr a)) (parent_of ?ops x) (deleted ?ops x a)" by simp
  qed
next
  case (shutdown tr ops t u e)
  show ?case by (rule parent_cause [OF reachable_inv [OF shutdown.hyps(1)] shutdown.IH shutdown.hyps(2,3)])
next
  case (step s t s')
  show ?case by (rule step_cause [OF reachable_inv [OF step.hyps(1)] step.IH step.hyps(2)])
qed

section \<open>The properties\<close>

lemma runner_entry:
  assumes inv: "tracker_inv (tr, ops)" and r: "runs ops t a" and n: "\<not> pc_noCleanup (tr_store tr a)"
  shows "tr_containers tr (id_of ops t) = Some a"
  by (rule owner_entry [OF inv _ n]) (simp add: owns_def r)

text \<open>Two running operations on one container would be registered, or waited for, at the same time.\<close>

lemma one_runner:
  assumes inv: "tracker_inv (tr, ops)" and r: "runs ops t a" "runs ops t' a'" and same: "id_of ops t = id_of ops t'"
  shows "t = t'"
proof -
  have mixed: "a = a'"
    if rr: "runs ops t a" "runs ops t' a'" and i: "id_of ops t = id_of ops t'"
      and n: "\<not> pc_noCleanup (tr_store tr a)" "pc_noCleanup (tr_store tr a')" for t t' a a'
  proof -
    obtain w where w: "waits ops w a'" "id_of ops w = id_of ops t'" using runner_waiter [OF inv rr(2) n(2)] by blast
    with waiter_entry [OF inv w(1)] runner_entry [OF inv rr(1) n(1)] i show ?thesis by simp
  qed
  have "a = a'"
  proof (cases "pc_noCleanup (tr_store tr a) \<longleftrightarrow> pc_noCleanup (tr_store tr a')")
    case False
    with mixed [OF r same] mixed [OF r(2,1) same [symmetric]] show ?thesis by auto
  next
    case both: True
    show ?thesis
    proof (cases "pc_noCleanup (tr_store tr a)")
      case True
      then obtain w w' where w: "waits ops w a" "waits ops w' a'"
        using both runner_waiter [OF inv r(1)] runner_waiter [OF inv r(2)] by blast
      with waiter_unique [OF inv w] phases_differ(3) [OF w(1)] show ?thesis by blast
    next
      case False
      with both runner_entry [OF inv r(1)] runner_entry [OF inv r(2)] same show ?thesis by simp
    qed
  qed
  with r owner_unique [OF inv, of t a t'] show ?thesis by (simp add: owns_def)
qed

text \<open>An operation that has not finished either has a step, or another one does: the operation that holds
  the mutex waits for one that can close its channel, which needs no mutex.\<close>

lemma stepI:
  assumes u: "ops t = Some u"
  shows "op_phase u = Called \<Longrightarrow> \<not> tr_locked tr \<Longrightarrow> \<exists>s. tracker_step (tr, ops) t s"
    and "op_phase u = Waits a \<Longrightarrow> pc_done (tr_store tr a) \<Longrightarrow> \<exists>s. tracker_step (tr, ops) t s"
    and "op_phase u = Runs a \<Longrightarrow> \<exists>s. tracker_step (tr, ops) t s"
    and "op_phase u = Leaves a \<Longrightarrow> \<not> tr_locked tr \<Longrightarrow> \<exists>s. tracker_step (tr, ops) t s"
  using tracker_step.intros [where ops = ops and t = t and u = u and tr = tr, OF u] by (meson prod.exhaust)+

lemma some_step:
  assumes inv: "tracker_inv (tr, ops)" and u: "ops t = Some u" "op_phase u \<noteq> Finished"
  shows "\<exists>x s. tracker_step (tr, ops) x s"
proof (cases "tr_locked tr")
  case True
  then obtain w a where w: "waits ops w a" using locked_iff [OF inv] unfolding somebody_waits_def by blast
  then obtain v where v: "ops w = Some v" "op_phase v = Waits a" unfolding waits_def by blast
  obtain x where "owns ops x a" using waiter_owner [OF inv w] by blast
  then consider "runs ops x a" | "leaves ops x a" unfolding owns_def by blast
  then show ?thesis
  proof cases
    case 1
    then obtain y where "ops x = Some y" "op_phase y = Runs a" unfolding runs_def by blast
    with stepI(3) show ?thesis by blast
  next
    case 2
    from leaves_closed [OF inv 2] stepI(2) [where ops = ops and t = w, OF v] show ?thesis by blast
  qed
next
  case free: False
  show ?thesis
  proof (cases "op_phase u")
    case (Waits a)
    with u free locked_iff [OF inv] show ?thesis unfolding somebody_waits_def waits_def by blast
  qed (use u free stepI [where ops = ops and t = t, OF u(1)] in blast)+
qed

lemma finished_unregistered:
  assumes inv: "tracker_inv (tr, ops)" and fin: "\<And>t u. ops t = Some u \<Longrightarrow> op_phase u = Finished"
  shows "tr_containers tr cid = None \<and> \<not> tr_locked tr"
proof -
  have no: "\<not> runs ops t a" "\<not> leaves ops t a" "\<not> waits ops t a" for t a
    using fin by (auto simp: runs_def leaves_def waits_def)
  have "tr_containers tr cid \<noteq> Some a" for a using entry_owner [OF inv, of cid a] no by (auto simp: owns_def)
  with no locked_iff [OF inv] show ?thesis unfolding somebody_waits_def by blast
qed

text \<open>Every step brings its operation closer to its end.\<close>

fun phase_steps :: "phase \<Rightarrow> nat" where
  "phase_steps Called = 4"
| "phase_steps (Waits _) = 3"
| "phase_steps (Runs _) = 2"
| "phase_steps (Leaves _) = 1"
| "phase_steps Finished = 0"

definition work :: "tracker \<times> operations \<Rightarrow> nat" where
  "work s = (\<Sum>t \<in> dom (snd s). phase_steps (op_phase (the (snd s t))))"

lemma tracker_step_phase:
  assumes "tracker_step (tr, ops) t (tr', ops')"
  shows "\<exists>u ph. ops t = Some u \<and> ops' = ops(t \<mapsto> u\<lparr>op_phase := ph\<rparr>) \<and> phase_steps ph < phase_steps (op_phase u)"
  using assms
proof cases
  case (lock u ph)
  then show ?thesis by (auto simp: addContainer_lock_def register_def Let_def split: option.splits)
qed (auto simp: addContainer_resume_def register_def cleanup_close_def cleanup_remove_def Let_def split: if_splits)

lemma finite_dom_upd: "finite (dom ops) \<Longrightarrow> finite (dom (ops(t \<mapsto> v)))"
  by (rule finite_subset [of _ "insert t (dom ops)"]) (auto simp: dom_def)

lemma reachable_finite: "tracker_reachable s \<Longrightarrow> finite (dom (snd s))"
proof (induction rule: tracker_reachable.induct)
  case (step s t s')
  obtain tr ops tr' ops' where s: "s = (tr, ops)" "s' = (tr', ops')" by (metis surj_pair)
  with tracker_step_phase step.hyps(2) obtain u ph where "ops' = ops(t \<mapsto> u\<lparr>op_phase := ph\<rparr>)" by blast
  with step.IH s show ?case by (simp only: snd_conv finite_dom_upd)
next
  case (call tr ops t cid creating parent)
  then show ?case by (simp only: snd_conv finite_dom_upd)
next
  case (shutdown tr ops t u e)
  then show ?case by (simp only: snd_conv finite_dom_upd)
qed simp

lemma step_work:
  assumes fin: "finite (dom (snd s))" and step: "tracker_step s t s'"
  shows "work s' < work s"
proof -
  obtain tr ops tr' ops' where s: "s = (tr, ops)" "s' = (tr', ops')" by (metis surj_pair)
  obtain u ph where u: "ops t = Some u" "ops' = ops(t \<mapsto> u\<lparr>op_phase := ph\<rparr>)" "phase_steps ph < phase_steps (op_phase u)"
    using tracker_step_phase step s by blast
  have d: "dom ops' = dom ops" "t \<in> dom ops" using u(1,2) by auto
  show ?thesis
    unfolding work_def s snd_conv d(1)
    by (rule sum_strict_mono_ex1) (use fin s u d(2) in \<open>auto intro!: bexI [of _ t]\<close>)
qed

section \<open>A deletion that overtakes a creation\<close>

text \<open>Operation 0 creates the rules of a container, operation 1 deletes them: 0 runs when 1 is called.\<close>

definition die_ops :: "phase \<Rightarrow> phase \<Rightarrow> operations" where
  "die_ops p q = [0 \<mapsto> \<lparr>op_id = ''c0ffee123456'', op_creating = True, op_parent = None, op_phase = p\<rparr>,
     1 \<mapsto> \<lparr>op_id = ''c0ffee123456'', op_creating = False, op_parent = None, op_phase = q\<rparr>]"

definition die_created :: tracker where
  "die_created = fst (addContainer_lock None ''c0ffee123456'' True NewTracker)"

definition die_waiting :: tracker where
  "die_waiting = fst (addContainer_lock None ''c0ffee123456'' False die_created)"

lemmas die_defs = die_created_def die_waiting_def addContainer_lock_def register_def Let_def set_container_def
  NewTracker_def cancel_with_def

lemma die_created_reachable: "tracker_reachable (die_created, [0 \<mapsto> \<lparr>op_id = ''c0ffee123456'', op_creating = True, op_parent = None, op_phase = Runs 0\<rparr>])"
proof -
  let ?u = "\<lparr>op_id = ''c0ffee123456'', op_creating = True, op_parent = None, op_phase = Called\<rparr>"
  have "tracker_reachable (NewTracker, [0 \<mapsto> ?u])" by (rule tracker_reachable.call [OF tracker_reachable.init]) simp
  moreover have "tracker_step (NewTracker, [0 \<mapsto> ?u]) 0 (die_created, [0 \<mapsto> ?u, 0 \<mapsto> ?u\<lparr>op_phase := Runs 0\<rparr>])"
    by (rule tracker_step.lock [where u = ?u]) (simp_all add: die_defs)
  ultimately show ?thesis using tracker_reachable.step by fastforce
qed

lemma die_waiting_reachable: "tracker_reachable (die_waiting, die_ops (Runs 0) (Waits 0))"
proof -
  let ?ops = "die_ops (Runs 0) Called" and ?u = "\<lparr>op_id = ''c0ffee123456'', op_creating = False, op_parent = None, op_phase = Called\<rparr>"
  have "tracker_reachable (die_created, ?ops)"
    unfolding die_ops_def by (rule tracker_reachable.call [OF die_created_reachable]) simp
  moreover have "tracker_step (die_created, ?ops) 1 (die_waiting, ?ops(1 \<mapsto> ?u\<lparr>op_phase := Waits 0\<rparr>))"
    by (rule tracker_step.lock [where u = ?u]) (simp_all add: die_defs die_ops_def)
  ultimately have "tracker_reachable (die_waiting, ?ops(1 \<mapsto> ?u\<lparr>op_phase := Waits 0\<rparr>))" by (rule tracker_reachable.step)
  then show ?thesis by (simp add: die_ops_def)
qed

lemma die_phases: "runs (die_ops (Runs 0) (Waits 0)) 0 0" "waits (die_ops (Runs 0) (Waits 0)) 1 0"
  "\<not> creates (die_ops (Runs 0) (Waits 0)) 1"
  by (simp_all add: runs_def waits_def creates_def die_ops_def)

text \<open>C31: operations on one container exclude each other: whatever operations have been called on the tracker and
  however their steps interleave, while one of them runs (between the return of \<open>StartCreatingContainer\<close> or
  \<open>StartDeletingContainer\<close> and the call of the cleanup function) no other operation on the same container runs.\<close>

theorem tracker_exclusion:
  assumes "tracker_reachable (tr, ops)" "runs ops t a" "t' \<noteq> t" "id_of ops t' = id_of ops t"
  shows "\<not> runs ops t' a'"
  using one_runner [OF reachable_inv [OF assms(1)] assms(2), of t' a'] assms(3,4) by auto

theorem tracker_exclusion_witness: "\<not> runs (die_ops (Runs 0) (Waits 0)) 1 0"
  by (rule tracker_exclusion [OF die_waiting_reachable die_phases(1)]) (simp_all add: id_of_def die_ops_def)

text \<open>C33: the context of a running operation has been cancelled exactly when its parent context has been, as at the
  shutdown of the manager, or when the operation is a creation and a deletion of the same container waits for
  it. Its cause is that of the parent in the first case and \<open>ErrContainerDeleted\<close> in the second; when both
  have happened the cause is that of whichever came first, as no later step of the tracker and no later
  cancellation of a parent replaces it. So a creation whose own parent was not cancelled with
  \<open>ErrContainerDeleted\<close> sees this cause only if a deletion waits for it, and can tell that from a shutdown.
  The object a deletion waits for is the one of an operation on its own container.\<close>

theorem tracker_cancels:
  assumes "tracker_reachable (tr, ops)" "runs ops t a"
  shows "(pc_cause (tr_store tr a) = None \<longleftrightarrow>
      op_parent (the (ops t)) = None \<and> \<not> (creates ops t \<and> (\<exists>w. waits ops w a \<and> \<not> creates ops w))) \<and>
    (\<forall>e. pc_cause (tr_store tr a) = Some e \<longrightarrow>
      op_parent (the (ops t)) = Some e \<or>
      e = ErrContainerDeleted \<and> creates ops t \<and> (\<exists>w. waits ops w a \<and> \<not> creates ops w)) \<and>
    (\<forall>e. pc_cause (tr_store tr a) = Some e \<longrightarrow>
      (\<forall>x s'. tracker_step (tr, ops) x s' \<longrightarrow> pc_cause (tr_store (fst s') a) = Some e) \<and>
      (\<forall>e' u. pc_cause (tr_store (parent_cancelled e' u tr) a) = Some e)) \<and>
    {w. waits ops w a} \<subseteq> {w. id_of ops w = id_of ops t}"
proof -
  note inv = reachable_inv [OF assms(1)]
  have "id_of ops w = id_of ops t" if w: "waits ops w a" for w
  proof -
    obtain x where x: "owns ops x a" "id_of ops x = id_of ops w" using waiter_owner [OF inv w] by blast
    with owner_unique [OF inv x(1), of t] assms(2) show ?thesis by (simp add: owns_def)
  qed
  moreover have "a < tr_next tr" using owner_bound [OF inv, of t a] assms(2) by (simp add: owns_def)
  then have "pc_cause (tr_store (fst s') a) = Some e"
    if "tracker_step (tr, ops) x s'" "pc_cause (tr_store tr a) = Some e" for x s' e
    using step_keeps_cause [of tr ops x "fst s'" "snd s'" a e] that by simp
  moreover note parent_keeps_cause [of tr a] cause_okD(2) [OF reachable_cause [OF assms(1)] assms(2)]
  ultimately show ?thesis unfolding caused_def deleted_def parent_of_def by blast
qed

text \<open>A deletion arrives first, and then the manager shuts down; and the other way round.\<close>

definition shutdown_error :: error where "shutdown_error = ErrCanceled"

lemma die_shutdown_reachable:
  "tracker_reachable (parent_cancelled shutdown_error (the (die_ops (Runs 0) (Waits 0) 0)) die_waiting,
     (die_ops (Runs 0) (Waits 0))(0 \<mapsto> (the (die_ops (Runs 0) (Waits 0) 0))\<lparr>op_parent := Some shutdown_error\<rparr>))"
  by (rule tracker_reachable.shutdown [OF die_waiting_reachable]) (simp_all add: die_ops_def)

lemma die_stopped_reachable:
  "tracker_reachable (parent_cancelled shutdown_error \<lparr>op_id = ''c0ffee123456'', op_creating = True, op_parent = None,
       op_phase = Runs 0\<rparr> die_created,
     [0 \<mapsto> \<lparr>op_id = ''c0ffee123456'', op_creating = True, op_parent = Some shutdown_error, op_phase = Runs 0\<rparr>])"
  using tracker_reachable.shutdown [OF die_created_reachable, of 0 _ shutdown_error] by simp

theorem tracker_cancels_witness:
  "pc_cause (tr_store die_waiting 0) = Some ErrContainerDeleted \<and>
   pc_cause (tr_store (parent_cancelled shutdown_error (the (die_ops (Runs 0) (Waits 0) 0)) die_waiting) 0) =
     Some ErrContainerDeleted \<and>
   pc_cause (tr_store (parent_cancelled shutdown_error \<lparr>op_id = ''c0ffee123456'', op_creating = True,
     op_parent = None, op_phase = Runs 0\<rparr> die_created) 0) = Some shutdown_error"
proof -
  note first = tracker_cancels [OF die_waiting_reachable die_phases(1)]
  have "op_parent (the (die_ops (Runs 0) (Waits 0) 0)) = None" "creates (die_ops (Runs 0) (Waits 0)) 0"
    by (simp_all add: die_ops_def creates_def)
  with first die_phases(2,3) have deleted: "pc_cause (tr_store die_waiting 0) = Some ErrContainerDeleted"
    by (metis not_None_eq)
  with first have kept: "pc_cause (tr_store (parent_cancelled e u die_waiting) 0) = Some ErrContainerDeleted" for e u
    by blast
  let ?ops = "[0 \<mapsto> \<lparr>op_id = ''c0ffee123456'', op_creating = True, op_parent = Some shutdown_error, op_phase = Runs 0\<rparr>] :: operations"
  have "runs ?ops 0 0" "\<not> waits ?ops w 0" for w by (simp_all add: runs_def waits_def)
  with tracker_cancels [OF die_stopped_reachable \<open>runs ?ops 0 0\<close>]
  have "pc_cause (tr_store (parent_cancelled shutdown_error \<lparr>op_id = ''c0ffee123456'', op_creating = True,
     op_parent = None, op_phase = Runs 0\<rparr> die_created) 0) = Some shutdown_error" by fastforce
  with deleted kept show ?thesis by blast
qed

text \<open>C32: no operation on the tracker is blocked for ever, though one that waits for the end of another holds the
  mutex meanwhile: every step takes the operations closer to their end, some operation has a step until all of
  them have finished, and when they have the mutex is free and no container is left registered.\<close>

theorem tracker_live:
  assumes "tracker_reachable (tr, ops)"
  shows "(\<forall>t s'. tracker_step (tr, ops) t s' \<longrightarrow> work s' < work (tr, ops)) \<and>
    (if \<exists>t u. ops t = Some u \<and> op_phase u \<noteq> Finished then \<exists>t s'. tracker_step (tr, ops) t s'
     else tr_containers tr = (\<lambda>_. None) \<and> \<not> tr_locked tr)"
proof -
  note inv = reachable_inv [OF assms]
  have "tr_containers tr = (\<lambda>_. None) \<and> \<not> tr_locked tr" if "\<And>t u. ops t = Some u \<Longrightarrow> op_phase u = Finished"
    using finished_unregistered [OF inv that] by (auto intro: ext)
  with some_step [OF inv] step_work reachable_finite [OF assms] show ?thesis by auto
qed

theorem tracker_live_witness: "\<exists>t s'. tracker_step (die_waiting, die_ops (Runs 0) (Waits 0)) t s'"
  using tracker_live [OF die_waiting_reachable] by (auto simp: die_ops_def split: if_splits)

end
