(* ===== verification/Docker.thy ===== *)
theory Docker
  imports Network_Scope Rule_Gen Policy
begin

text \<open>
  What the program reads of Docker, and how it strings rule generation together. The types
  \<open>InspectResponse\<close>, \<open>Summary\<close>, \<open>Port\<close> and \<open>PortBinding\<close> of the Docker client library hold the fields
  the program reads; a pointer that may be nil is an option (\<open>State\<close>, \<open>Config\<close>, \<open>NetworkSettings\<close>).
  The daemon is the parameter \<open>docker_client\<close>: its answers are those of one snapshot. The label parser
  \<open>whalewallEnabled\<close> and the deny-only copy of a container are those of \<open>sync.go\<close>.
\<close>

section \<open>Containers\<close>

record nport =
  po_Num :: u16
  po_Proto :: string

record portBinding =
  pb_HostIP :: netip_addr
  pb_HostPort :: string

record networkSettings =
  ns_Networks :: networks
  ns_Ports :: "(nport \<times> portBinding list) list"

record inspectResponse =
  ir_ID :: string
  ir_Name :: string
  ir_Running :: "bool option"
  ir_Labels :: "labels option"
  ir_NetworkSettings :: "networkSettings option"

record summary =
  su_ID :: string
  su_Names :: "string list"
  su_Labels :: labels

text \<open>Listing takes the label to filter by, if any.\<close>

record docker_client =
  dk_ContainerList :: "string option \<Rightarrow> summary list result"
  dk_ContainerInspect :: "string \<Rightarrow> inspectResponse result"
  dk_IsNotFound :: "error \<Rightarrow> bool"

definition nil_pointer :: error where
  "nil_pointer = GoPanic ''nil pointer dereference''"

section \<open>Labels\<close>

definition enabledLabel :: string where "enabledLabel = ''whalewall.enabled''"
definition rulesLabel :: string where "rulesLabel = ''whalewall.rules''"

text \<open>\<open>strings.EqualFold\<close> with an ASCII word: a letter stands for both of its cases, and by the simple
  folding of Unicode an \<open>s\<close> also for U+017F, the bytes \<open>C5 BF\<close>. (A \<open>k\<close> would stand for U+212A too; it
  does not occur in the words the program compares with.)\<close>

definition lower_char :: "char \<Rightarrow> char" where
  "lower_char c = (if 65 \<le> (of_char c :: nat) \<and> (of_char c :: nat) \<le> 90 then char_of ((of_char c :: nat) + 32) else c)"

fun EqualFold :: "string \<Rightarrow> string \<Rightarrow> bool" where
  "EqualFold [] w = (w = [])"
| "EqualFold s [] = False"
| "EqualFold (c # s) (x # w) =
     (if lower_char c = x then EqualFold s w
      else (case s of
          d # s' \<Rightarrow> x = CHR ''s'' \<and> (of_char c :: nat) = 197 \<and> (of_char d :: nat) = 191 \<and> EqualFold s' w
        | [] \<Rightarrow> False))"

definition whalewallEnabled :: "labels \<Rightarrow> bool result" where
  "whalewallEnabled labels =
     (case map_of labels enabledLabel of
        None \<Rightarrow> Inr False
      | Some e \<Rightarrow>
          if EqualFold (TrimSpace e) ''true'' then Inr True
          else if EqualFold (TrimSpace e) ''false'' then Inr False
          else Inl (Msg ''must be exactly true or false''))"

definition denyOnlyContainer :: "inspectResponse \<Rightarrow> inspectResponse" where
  "denyOnlyContainer container =
     (case ir_Labels container of
        None \<Rightarrow> container
      | Some labels \<Rightarrow> container\<lparr>ir_Labels := Some (filter (\<lambda>(key, v). key \<noteq> rulesLabel) labels)\<rparr>)"

section \<open>Loops that generate rules\<close>

text \<open>Reading a missing key of a Go map of slices gives nil.\<close>

definition address_bytes :: "(string \<times> byte list) list \<Rightarrow> string \<Rightarrow> byte list" where
  "address_bytes addrs n = (case map_of addrs n of Some a \<Rightarrow> a | None \<Rightarrow> [])"

text \<open>A loop whose rounds create rules: the rules in order, up to the first error.\<close>

fun gen_each :: "('a \<Rightarrow> 'c \<Rightarrow> 'c \<times> 'r list result) \<Rightarrow> 'a list \<Rightarrow> 'c \<Rightarrow> 'c \<times> 'r list result" where
  "gen_each f [] c = (c, Inr [])"
| "gen_each f (x # xs) c =
     (case f x c of
        (c, Inl e) \<Rightarrow> (c, Inl e)
      | (c, Inr rules) \<Rightarrow>
          (case gen_each f xs c of
             (c, Inl e) \<Rightarrow> (c, Inl e)
           | (c, Inr rest) \<Rightarrow> (c, Inr (rules @ rest))))"

definition gen_wrap :: "string \<Rightarrow> ('c \<Rightarrow> 'c \<times> 'r result) \<Rightarrow> 'c \<Rightarrow> 'c \<times> 'r result" where
  "gen_wrap msg f c = (case f c of (c, Inl e) \<Rightarrow> (c, Inl (Wrap msg e)) | (c, Inr r) \<Rightarrow> (c, Inr r))"

text \<open>The generation of the rules of one rule description, as every caller wraps it.\<close>

definition firewall_rules ::
    "'c firewallClient \<Rightarrow> netipx_lib \<Rightarrow> ruleDetails \<Rightarrow> 'c \<Rightarrow> 'c \<times> nft_rule list result" where
  "firewall_rules F L rd = gen_wrap ''error creating firewall rules'' (createNFTRules F L rd)"

end
