(* ===== verification/Port_Mapping.thy ===== *)
theory Port_Mapping
  imports Docker
begin

text \<open>
  The rules for published ports (\<open>createPortMappingRules\<close> in \<open>create.go\<close>): access from the host
  itself, which reaches a container through the gateway of its network, and access from outside. The
  warnings it logs are not modelled.
\<close>

section \<open>Operations\<close>

definition localAddr :: netip_addr where "localAddr = Addr4 2130706433"

definition has_mapped_ports :: "networkSettings \<Rightarrow> bool" where
  "has_mapped_ports ns \<longleftrightarrow> list_ex (\<lambda>(port, hostPorts). hostPorts \<noteq> []) (ns_Ports ns)"

text \<open>The ports of the container, by number and then by protocol.\<close>

definition sorted_ports :: "(nport \<times> portBinding list) list \<Rightarrow> nport list" where
  "sorted_ports ports = sort_key po_Num (sort_key po_Proto (map fst ports))"

definition one_port :: "u16 \<Rightarrow> rulePorts" where
  "one_port n = \<lparr>rp_single = n, rp_interval = zero_interval\<rparr>"

text \<open>The three kinds of rules: traffic from the gateway, traffic to the host port from localhost before
  it is translated, and traffic from outside.\<close>

definition gateway_rule :: "mappedPorts \<Rightarrow> netip_addr \<Rightarrow> byte list \<Rightarrow> protocol \<Rightarrow> u16 \<Rightarrow> nft_chain \<Rightarrow> string \<Rightarrow> ruleDetails" where
  "gateway_rule cfg gateway addr proto num chain cid =
     \<lparr>rd_inbound = True, rd_addr = addr,
      rd_cfg = zero_rule\<lparr>r_LogPrefix := l_LogPrefix (m_Localhost cfg), r_IPs := Some [aor_of_addr gateway],
        r_Proto := proto, r_DstPorts := [one_port num],
        r_Verdict := (l_Verdict (m_Localhost cfg))\<lparr>v_drop := \<not> l_Allow (m_Localhost cfg)\<rparr>\<rparr>,
      rd_chain = chain, rd_estChain = None, rd_contID = cid, rd_estContID = []\<rparr>"

definition localhost_drop_rule :: "protocol \<Rightarrow> u16 \<Rightarrow> string \<Rightarrow> ruleDetails" where
  "localhost_drop_rule proto hostPort cid =
     \<lparr>rd_inbound = True, rd_addr = [],
      rd_cfg = zero_rule\<lparr>r_IPs := Some [aor_of_addr localAddr], r_Proto := proto, r_DstPorts := [one_port hostPort],
        r_Verdict := zero_verdict\<lparr>v_drop := True\<rparr>\<rparr>,
      rd_chain = whalewallChain, rd_estChain = None, rd_contID = cid, rd_estContID = []\<rparr>"

definition external_rule :: "mappedPorts \<Rightarrow> byte list \<Rightarrow> protocol \<Rightarrow> u16 \<Rightarrow> nft_chain \<Rightarrow> string \<Rightarrow> ruleDetails" where
  "external_rule cfg addr proto num chain cid =
     \<lparr>rd_inbound = True, rd_addr = addr,
      rd_cfg = zero_rule\<lparr>r_LogPrefix := e_LogPrefix (m_External cfg), r_IPs := e_IPs (m_External cfg),
        r_Proto := proto, r_DstPorts := [one_port num], r_Verdict := e_Verdict (m_External cfg)\<rparr>,
      rd_chain = chain, rd_estChain = None, rd_contID = cid, rd_estContID = []\<rparr>"

text \<open>Whether a host binding is reachable from localhost at all.\<close>

definition local_binding :: "netip_addr \<Rightarrow> bool" where
  "local_binding addr \<longleftrightarrow> addr_IsUnspecified addr \<or> addr = localAddr"

definition needs_gateway_rule :: "mappedPorts \<Rightarrow> netip_addr \<Rightarrow> bool" where
  "needs_gateway_rule cfg gateway \<longleftrightarrow>
     (let localAllowed = l_Allow (m_Localhost cfg) in
      addr_IsValid gateway \<and>
      (\<not> localAllowed \<or> (localAllowed \<and> (\<not> e_Allow (m_External cfg) \<or> slice_elems (e_IPs (m_External cfg)) \<noteq> []))))"

definition host_port_rules ::
    "'c firewallClient \<Rightarrow> netipx_lib \<Rightarrow> mappedPorts \<Rightarrow> netip_addr \<Rightarrow> byte list \<Rightarrow> bool \<Rightarrow> protocol \<Rightarrow> u16 \<Rightarrow>
     nft_chain \<Rightarrow> string \<Rightarrow> portBinding \<Rightarrow> 'c \<Rightarrow> 'c \<times> nft_rule list result" where
  "host_port_rules F L cfg gateway addr published proto num chain cid hostPort c =
     (let localAllowed = l_Allow (m_Localhost cfg) in
      if \<not> addr_IsValid (pb_HostIP hostPort) then (c, Inl (Msg ''invalid IP address in port mapping''))
      else if addr_Is6 (pb_HostIP hostPort) then (c, Inl (Msg ''unsupported IPv6 published HostIP''))
      else if localAllowed \<and> \<not> local_binding (pb_HostIP hostPort) then (c, Inr [])
      else if \<not> localAllowed \<and> \<not> local_binding (pb_HostIP hostPort) then (c, Inr [])
      else gen_each (\<lambda>f. f)
        [\<lambda>c. if needs_gateway_rule cfg gateway
             then firewall_rules F L (gateway_rule cfg gateway addr proto num chain cid) c else (c, Inr []),
         \<lambda>c. if \<not> localAllowed \<and> published
             then (case ParseUint (pb_HostPort hostPort) 16 of
                 Inl e \<Rightarrow> (c, Inl (Wrap ''error parsing host port of port mapping'' e))
               | Inr hostPortInt \<Rightarrow> firewall_rules F L (localhost_drop_rule proto (word_of_nat hostPortInt) cid) c)
             else (c, Inr [])] c)"

definition port_rules ::
    "'c firewallClient \<Rightarrow> netipx_lib \<Rightarrow> mappedPorts \<Rightarrow> netip_addr \<Rightarrow> byte list \<Rightarrow> bool \<Rightarrow>
     nft_chain \<Rightarrow> string \<Rightarrow> (nport \<times> portBinding list) list \<Rightarrow> nport \<Rightarrow> 'c \<Rightarrow> 'c \<times> nft_rule list result" where
  "port_rules F L cfg gateway addr published chain cid ports port c =
     (let hostPorts = (case map_of ports port of Some hs \<Rightarrow> hs | None \<Rightarrow> []) in
      case protocol_UnmarshalText (po_Proto port) of
        Inl e \<Rightarrow> (c, Inl (Wrap ''error parsing protocol'' e))
      | Inr proto \<Rightarrow> gen_each (\<lambda>f. f)
          [gen_each (host_port_rules F L cfg gateway addr published proto (po_Num port) chain cid) hostPorts,
           \<lambda>c. if e_Allow (m_External cfg) \<and> length hostPorts > 0
               then firewall_rules F L (external_rule cfg addr proto (po_Num port) chain cid) c else (c, Inr [])] c)"

definition network_port_rules ::
    "'c firewallClient \<Rightarrow> netipx_lib \<Rightarrow> mappedPorts \<Rightarrow> networks \<Rightarrow> (string \<times> byte list) list \<Rightarrow> string option \<Rightarrow>
     nft_chain \<Rightarrow> string \<Rightarrow> (nport \<times> portBinding list) list \<Rightarrow> string \<Rightarrow> 'c \<Rightarrow> 'c \<times> nft_rule list result" where
  "network_port_rules F L cfg managedNetworks addrs publishedNetwork chain cid ports netName c =
     (case map_of managedNetworks netName of
        Some (Some netSettings) \<Rightarrow>
          gen_each (port_rules F L cfg (ep_Gateway netSettings) (address_bytes addrs netName)
            (publishedNetwork = None \<or> publishedNetwork = Some netName) chain cid ports) (sorted_ports ports) c
      | _ \<Rightarrow> (c, Inl nil_pointer))"

definition prefixed :: "mappedPorts \<Rightarrow> string \<Rightarrow> string \<Rightarrow> mappedPorts" where
  "prefixed cfg contName cid =
     cfg\<lparr>m_Localhost := (m_Localhost cfg)\<lparr>l_LogPrefix :=
           (if l_LogPrefix (m_Localhost cfg) \<noteq> [] then formatLogPrefix (l_LogPrefix (m_Localhost cfg)) contName cid
            else l_LogPrefix (m_Localhost cfg))\<rparr>,
         m_External := (m_External cfg)\<lparr>e_LogPrefix :=
           (if e_LogPrefix (m_External cfg) \<noteq> [] then formatLogPrefix (e_LogPrefix (m_External cfg)) contName cid
            else e_LogPrefix (m_External cfg))\<rparr>\<rparr>"

text \<open>The network whose gateway Docker publishes through, when the scope is explicit; \<open>Inr None\<close> stands
  for a scope that is not.\<close>

definition published_network :: "bool \<Rightarrow> networks \<Rightarrow> string option result" where
  "published_network explicitScope attached =
     (if \<not> explicitScope then Inr None
      else (case dockerIPv4GatewayNetworkName attached of
          Inl e \<Rightarrow> Inl (Wrap ''cannot identify Docker's IPv4 gateway endpoint for scoped mapped-port policy'' e)
        | Inr n \<Rightarrow> Inr (Some n)))"

definition createPortMappingRules ::
    "'c firewallClient \<Rightarrow> netipx_lib \<Rightarrow> inspectResponse \<Rightarrow> string \<Rightarrow> mappedPorts \<Rightarrow> networks \<Rightarrow>
     (string \<times> byte list) list \<Rightarrow> nft_chain \<Rightarrow> bool \<Rightarrow> 'c \<Rightarrow> 'c \<times> nft_rule list result" where
  "createPortMappingRules F L container contName mappedPortsCfg managedNetworks addrs chain explicitScope c =
     (case ir_NetworkSettings container of
        None \<Rightarrow> (c, Inl nil_pointer)
      | Some ns \<Rightarrow>
          if \<not> has_mapped_ports ns then (c, Inr [])
          else (case published_network explicitScope (ns_Networks ns) of
              Inl e \<Rightarrow> (c, Inl e)
            | Inr publishedNetwork \<Rightarrow>
                if publishedNetwork \<noteq> None \<and> map_of managedNetworks (the publishedNetwork) = None then (c, Inr [])
                else gen_each (network_port_rules F L (prefixed mappedPortsCfg contName (ir_ID container)) managedNetworks
                    addrs publishedNetwork chain (ir_ID container) (ns_Ports ns))
                  (case publishedNetwork of Some n \<Rightarrow> [n] | None \<Rightarrow> sorted_names managedNetworks) c))"

end
