(* ===== verification/Generated.thy ===== *)
theory Generated
  imports Docker
begin

text \<open>
  What generated rules decide together. The callers of \<open>createNFTRules\<close> append the rules of many rule
  descriptions, for several chains; \<open>decides\<close> says of such a list which verdict it gives a packet of a
  new connection in each chain, and for whom the rules are. It composes along \<open>gen_each\<close>: the first
  round that decides wins. Nothing here models code of the program.
\<close>

section \<open>Decisions\<close>

type_synonym decision = "string \<Rightarrow> packet \<Rightarrow> verdict_expr option"

fun first_some :: "('a \<Rightarrow> 'b option) \<Rightarrow> 'a list \<Rightarrow> 'b option" where
  "first_some f [] = None"
| "first_some f (x # xs) = (case f x of None \<Rightarrow> first_some f xs | Some v \<Rightarrow> Some v)"

lemma first_some_append: "first_some f (xs @ ys) = (case first_some f xs of None \<Rightarrow> first_some f ys | Some v \<Rightarrow> Some v)"
  by (induction xs) (auto split: option.splits)

lemma first_some_None: "first_some f xs = None \<longleftrightarrow> (\<forall>x \<in> set xs. f x = None)"
  by (induction xs) (auto split: option.splits)

lemma first_some_SomeE: "first_some f xs = Some v \<Longrightarrow> \<exists>x \<in> set xs. f x = Some v"
  by (induction xs) (auto split: option.splits)

lemma first_some_const: "(\<And>x. x \<in> set xs \<Longrightarrow> f x = None \<or> f x = Some v) \<Longrightarrow>
    first_some f xs = (if \<exists>x \<in> set xs. f x = Some v then Some v else None)"
proof (induction xs)
  case (Cons x xs)
  have fx: "f x = None \<or> f x = Some v" by (rule Cons.prems) simp
  have IH: "first_some f xs = (if \<exists>x \<in> set xs. f x = Some v then Some v else None)"
    by (rule Cons.IH, rule Cons.prems) simp
  show ?case
  proof (cases "f x")
    case None
    with IH show ?thesis by simp
  next
    case (Some w)
    with fx show ?thesis by simp
  qed
qed simp

lemma first_some_cong [fundef_cong]:
  assumes "xs = ys" "\<And>x. x \<in> set ys \<Longrightarrow> f x = g x"
  shows "first_some f xs = first_some g ys"
proof -
  have "first_some f zs = first_some g zs" if "\<And>x. x \<in> set zs \<Longrightarrow> f x = g x" for zs
    using that by (induction zs) (simp_all split: option.splits)
  with assms show ?thesis by simp
qed

definition outcome_of :: "verdict_expr option \<Rightarrow> outcome" where
  "outcome_of v = (case v of None \<Rightarrow> Fallthrough | Some v \<Rightarrow> Decided v)"

lemma run_chain_append:
  "run_chain rs p (xs @ ys) = (case run_chain rs p xs of Fallthrough \<Rightarrow> run_chain rs p ys | out \<Rightarrow> out)"
proof (induction xs)
  case (Cons r xs)
  then show ?case by (cases "run_rule rs p r") simp_all
qed simp

lemma run_chain_none: "(\<And>r. r \<in> set rules \<Longrightarrow> run_rule rs p r = NoMatch) \<Longrightarrow> run_chain rs p rules = Fallthrough"
  by (induction rules) simp_all

text \<open>\<open>A\<close> tells for which chain and which container id a rule may be.\<close>

definition decides :: "(nft_chain \<Rightarrow> string \<Rightarrow> bool) \<Rightarrow> decision \<Rightarrow> ruleset \<Rightarrow> nft_rule list \<Rightarrow> bool" where
  "decides A V rs rules \<longleftrightarrow>
     (\<forall>r \<in> set rules. A (ru_Chain r) (ru_UserData r) \<and> ru_Table r = Some filterTable \<and> ru_Handle r = 0) \<and>
     (\<forall>rs2 p n. sets_extend rs rs2 \<longrightarrow> p_ctstate p = stateNew \<longrightarrow>
        run_chain rs2 p (rules_for rules n) = outcome_of (V n p))"

lemma decides_extend: "decides A V rs rules \<Longrightarrow> sets_extend rs rs' \<Longrightarrow> decides A V rs' rules"
  unfolding decides_def using sets_extend_trans by blast

lemma decides_Nil: "decides A (\<lambda>n p. None) rs []"
  by (simp add: decides_def rules_for_def outcome_of_def)

lemma decides_append:
  assumes "decides A V rs xs" "decides A W rs ys"
  shows "decides A (\<lambda>n p. case V n p of None \<Rightarrow> W n p | Some v \<Rightarrow> Some v) rs (xs @ ys)"
proof -
  have "run_chain rs2 p (rules_for (xs @ ys) n) = outcome_of (case V n p of None \<Rightarrow> W n p | Some v \<Rightarrow> Some v)"
    if "sets_extend rs rs2" "p_ctstate p = stateNew" for rs2 p n
    using assms that
    by (simp add: decides_def rules_for_def run_chain_append outcome_of_def split: option.splits)
  with assms show ?thesis by (auto simp: decides_def)
qed

lemma decides_mono: "decides A V rs rules \<Longrightarrow> (\<And>ch u. A ch u \<Longrightarrow> B ch u) \<Longrightarrow> decides B V rs rules"
  unfolding decides_def by blast

text \<open>The decision of one rule description.\<close>

definition detail_decision :: "ruleDetails \<Rightarrow> decision" where
  "detail_decision rd n p =
     (if ch_Name (rd_chain rd) = n \<and> rule_spec (rd_inbound rd) False stateNew (rd_addr rd) (rd_cfg rd) p
      then Some (verdict_expr_of (rd_cfg rd)) else None)"

definition detail_owner :: "ruleDetails \<Rightarrow> nft_chain \<Rightarrow> string \<Rightarrow> bool" where
  "detail_owner rd ch u \<longleftrightarrow> ch = rd_chain rd \<and> u = rd_contID rd \<or> ch = est_chain rd \<and> u = est_owner rd"

definition detail_ok :: "ruleDetails \<Rightarrow> bool" where
  "detail_ok rd \<longleftrightarrow> cfg_selectors_wf (rd_cfg rd) \<and> validateVerdict (r_Verdict (rd_cfg rd)) = None \<and>
     ch_Table (rd_chain rd) = Some filterTable \<and> ch_Table (est_chain rd) = Some filterTable \<and>
     (rd_addr rd = [] \<or> (\<exists>w. rd_addr rd = be32 w))"

lemma new_states: "p_ctstate p = stateNew \<Longrightarrow>
    rule_spec inbound reply (forward_states cfg) addr cfg p = rule_spec inbound reply stateNew addr cfg p"
  by (auto simp: forward_states_def stateNewEst_def rule_spec_or dest: reply_spec_not_new)

lemma promise_decides:
  assumes rp: "rules_promise rs rd rules" and ok: "detail_ok rd"
  shows "decides (detail_owner rd) (detail_decision rd) rs rules"
proof -
  obtain fwd reply where r: "rules = fwd @ reply"
    and f: "\<And>r. r \<in> set fwd \<Longrightarrow> rule_of (rd_chain rd) (rd_contID rd) r"
      "\<And>rs2 p. sets_extend rs rs2 \<Longrightarrow> run_chain rs2 p fwd =
        (if rule_spec (rd_inbound rd) False (forward_states (rd_cfg rd)) (rd_addr rd) (rd_cfg rd) p
         then Decided (verdict_expr_of (rd_cfg rd)) else Fallthrough)"
    and rep: "if v_drop (r_Verdict (rd_cfg rd)) then reply = []
         else \<exists>r. reply = [r] \<and> rule_of (est_chain rd) (est_owner rd) r \<and>
           (\<forall>rs2 p. sets_extend rs rs2 \<longrightarrow>
              run_rule rs2 p r =
                (if rule_spec (\<not> rd_inbound rd) True stateEst (rd_addr rd) (rd_cfg rd) p
                 then Decided (verdict_expr_of (rd_cfg rd)) else NoMatch))"
    using rp unfolding rules_promise_def by blast
  have reply: "rule_of (est_chain rd) (est_owner rd) r \<and>
      (\<forall>rs2 p. sets_extend rs rs2 \<longrightarrow> p_ctstate p = stateNew \<longrightarrow> run_rule rs2 p r = NoMatch)"
    if "r \<in> set reply" for r
  proof (cases "v_drop (r_Verdict (rd_cfg rd))")
    case False
    with rep that show ?thesis using reply_spec_not_new by auto
  qed (use rep that in simp)
  have "run_chain rs2 p (rules_for rules n) = outcome_of (detail_decision rd n p)"
    if s: "sets_extend rs rs2" and p: "p_ctstate p = stateNew" for rs2 p n
  proof -
    have "run_chain rs2 p (rules_for reply n) = Fallthrough"
      by (rule run_chain_none) (use reply s p in \<open>auto simp: rules_for_def\<close>)
    moreover have "rules_for fwd n = (if ch_Name (rd_chain rd) = n then fwd else [])"
      using f(1) by (auto simp: rules_for_def rule_of_def filter_id_conv filter_empty_conv)
    ultimately show ?thesis
      using f(2) [OF s, of p] new_states [OF p] unfolding r
      by (simp add: rules_for_def run_chain_append detail_decision_def outcome_of_def)
  qed
  moreover have "detail_owner rd (ru_Chain r) (ru_UserData r) \<and> ru_Table r = Some filterTable \<and> ru_Handle r = 0"
    if "r \<in> set rules" for r
    using that f(1) reply ok unfolding r by (auto simp: detail_owner_def rule_of_def detail_ok_def)
  ultimately show ?thesis by (simp add: decides_def)
qed

section \<open>Generators\<close>

text \<open>A generator leaves the committed rules alone, stages nothing but sets, and its rules decide as
  stated.\<close>

definition generates :: "('c \<Rightarrow> bool) \<Rightarrow> ('c \<Rightarrow> ruleset) \<Rightarrow> ('c \<Rightarrow> ruleset option) \<Rightarrow>
    (nft_chain \<Rightarrow> string \<Rightarrow> bool) \<Rightarrow> decision \<Rightarrow> ('c \<Rightarrow> 'c \<times> nft_rule list result) \<Rightarrow> bool" where
  "generates ok committed staged A V f \<longleftrightarrow>
     (\<forall>c c' res. ok c \<longrightarrow> f c = (c', res) \<longrightarrow> ok c' \<and> committed c' = committed c \<and>
        (\<forall>rules rs'. res = Inr rules \<longrightarrow> staged c' = Some rs' \<longrightarrow>
           set_step (staged c) rs' \<and> decides A V rs' rules))"

lemma generatesD:
  assumes "generates ok committed staged A V f" "ok c" "f c = (c', res)"
  shows "ok c'" "committed c' = committed c"
    "res = Inr rules \<Longrightarrow> staged c' = Some rs' \<Longrightarrow> set_step (staged c) rs' \<and> decides A V rs' rules"
  using assms unfolding generates_def by blast+

lemma generates_none: "generates ok committed staged A (\<lambda>n p. None) (\<lambda>c. (c, Inr []))"
  by (simp add: generates_def decides_Nil set_step_refl)

lemma generates_error: "generates ok committed staged A V (\<lambda>c. (c, Inl e))"
  by (simp add: generates_def)

lemma decides_cong:
  "decides A V rs rules \<Longrightarrow> (\<And>n p. p_ctstate p = stateNew \<Longrightarrow> V n p = W n p) \<Longrightarrow> decides A W rs rules"
  by (simp add: decides_def)

lemma generates_cong:
  "generates ok committed staged A V f \<Longrightarrow> (\<And>n p. p_ctstate p = stateNew \<Longrightarrow> V n p = W n p) \<Longrightarrow>
   generates ok committed staged A W f"
  unfolding generates_def using decides_cong by blast

lemma generates_each:
  assumes "\<And>x. x \<in> set xs \<Longrightarrow> generates ok committed staged A (V x) (f x)"
  shows "generates ok committed staged A (\<lambda>n p. first_some (\<lambda>x. V x n p) xs) (gen_each f xs)"
  using assms
proof (induction xs)
  case Nil
  show ?case by (auto simp: generates_def decides_Nil set_step_refl)
next
  case (Cons x xs)
  show ?case
    unfolding generates_def
  proof (intro allI impI)
    fix c c' res
    assume "ok c" and run: "gen_each f (x # xs) c = (c', res)"
    obtain c1 r1 where 1: "f x c = (c1, r1)" by (metis surj_pair)
    obtain c2 r2 where 2: "gen_each f xs c1 = (c2, r2)" by (metis surj_pair)
    have g: "generates ok committed staged A (V x) (f x)"
      "generates ok committed staged A (\<lambda>n p. first_some (\<lambda>x. V x n p) xs) (gen_each f xs)"
      using Cons by simp_all
    note d1 = generatesD [OF g(1) \<open>ok c\<close> 1]
    note d2 = generatesD [OF g(2) d1(1) 2]
    show "ok c' \<and> committed c' = committed c \<and> (\<forall>rules rs'. res = Inr rules \<longrightarrow> staged c' = Some rs' \<longrightarrow>
        set_step (staged c) rs' \<and> decides A (\<lambda>n p. first_some (\<lambda>x. V x n p) (x # xs)) rs' rules)"
    proof (cases r1)
      case (Inl e)
      with 1 run d1 show ?thesis by auto
    next
      case r1: (Inr rules1)
      show ?thesis
      proof (cases r2)
        case (Inl e)
        with 1 2 r1 run d1 d2 show ?thesis by auto
      next
        case r2: (Inr rules2)
        have out: "c' = c2" "res = Inr (rules1 @ rules2)" using 1 2 r1 r2 run by simp_all
        have "set_step (staged c) rs' \<and> decides A (\<lambda>n p. first_some (\<lambda>x. V x n p) (x # xs)) rs' (rules1 @ rules2)"
          if st: "staged c2 = Some rs'" for rs'
        proof -
          have s2: "set_step (staged c1) rs'" "decides A (\<lambda>n p. first_some (\<lambda>x. V x n p) xs) rs' rules2"
            using d2(3) [OF r2 st] by auto
          then obtain rs1 where rs1: "staged c1 = Some rs1" "sets_extend rs1 rs'" unfolding set_step_def by blast
          have s1: "set_step (staged c) rs1" "decides A (V x) rs1 rules1" using d1(3) [OF r1 rs1(1)] by auto
          have "decides A (V x) rs' rules1" by (rule decides_extend [OF s1(2) rs1(2)])
          from decides_append [OF this s2(2)] s1(1) s2(1) rs1(1) show ?thesis
            using set_step_trans by auto
        qed
        with out d1 d2 show ?thesis by simp
      qed
    qed
  qed
qed

lemma generates_two:
  assumes "generates ok committed staged A V f" "generates ok committed staged A W g"
  shows "generates ok committed staged A (\<lambda>n p. case V n p of None \<Rightarrow> W n p | Some v \<Rightarrow> Some v) (gen_each (\<lambda>f. f) [f, g])"
proof -
  have "generates ok committed staged A (\<lambda>n p. first_some (\<lambda>x. snd x n p) [(f, V), (g, W)]) (gen_each fst [(f, V), (g, W)])"
    by (rule generates_each) (use assms in auto)
  moreover have "gen_each fst [(f, V), (g, W)] = gen_each (\<lambda>f. f) [f, g]" by (simp add: fun_eq_iff)
  ultimately show ?thesis by (auto elim!: generates_cong split: option.splits)
qed

lemma generates_mono:
  assumes "generates ok committed staged A V f" "\<And>ch u. A ch u \<Longrightarrow> B ch u"
  shows "generates ok committed staged B V f"
  using assms decides_mono unfolding generates_def by blast

lemma generates_wrap: "generates ok committed staged A V f \<Longrightarrow> generates ok committed staged A V (gen_wrap msg f)"
  unfolding generates_def gen_wrap_def by (auto split: prod.splits sum.splits)

context firewall_client
begin

lemma firewall_rules_generates:
  assumes "netipx_ok L" "detail_ok rd"
  shows "generates ok committed staged (detail_owner rd) (detail_decision rd) (firewall_rules F L rd)"
proof -
  have "generates ok committed staged (detail_owner rd) (detail_decision rd) (createNFTRules F L rd)"
    unfolding generates_def
  proof (intro allI impI)
    fix c c' res
    assume "ok c" and run: "createNFTRules F L rd c = (c', res)"
    have d: "cfg_selectors_wf (rd_cfg rd)" "validateVerdict (r_Verdict (rd_cfg rd)) = None"
      "ch_Table (rd_chain rd) = Some filterTable" "ch_Table (est_chain rd) = Some filterTable"
      "rd_addr rd = [] \<or> (\<exists>w. rd_addr rd = be32 w)"
      using assms(2) by (auto simp: detail_ok_def)
    from createNFTRules_correct [OF \<open>ok c\<close> assms(1) d run] promise_decides [OF _ assms(2)]
    show "ok c' \<and> committed c' = committed c \<and> (\<forall>rules rs'. res = Inr rules \<longrightarrow> staged c' = Some rs' \<longrightarrow>
        set_step (staged c) rs' \<and> decides (detail_owner rd) (detail_decision rd) rs' rules)"
      by blast
  qed
  then show ?thesis unfolding firewall_rules_def by (rule generates_wrap)
qed

end

end
