(* ===== verification/Port_Mapping_Correct.thy ===== *)
theory Port_Mapping_Correct
  imports Port_Mapping Generated
begin

text \<open>
  What the rules for published ports admit. The reference is \<open>mapped_decision\<close>: the verdict a packet of a
  new connection gets in a chain, read off the configuration, the bindings and the networks alone. The
  generated rules give exactly that verdict.
\<close>

section \<open>The reference\<close>

definition verdict_return :: verdict_expr where "verdict_return = \<lparr>vd_Kind = VerdictReturn, vd_Chain = []\<rparr>"
definition verdict_drop :: verdict_expr where "verdict_drop = \<lparr>vd_Kind = VerdictDrop, vd_Chain = []\<rparr>"

definition proto_hit :: "string \<Rightarrow> packet \<Rightarrow> bool" where
  "proto_hit name p \<longleftrightarrow> name = ''tcp'' \<and> p_proto p = 6 \<or> name = ''udp'' \<and> p_proto p = 17"

definition port_hit :: "byte list \<Rightarrow> nport \<Rightarrow> packet \<Rightarrow> bool" where
  "port_hit addr port p \<longleftrightarrow>
     (addr \<noteq> [] \<longrightarrow> be32 (p_dst p) = addr) \<and> proto_hit (po_Proto port) p \<and> p_dport p = po_Num port"

text \<open>Bindings to 0.0.0.0 and to 127.0.0.1 are the ones the host reaches through localhost.\<close>

definition local_bindings :: "portBinding list \<Rightarrow> portBinding list" where
  "local_bindings hostPorts = filter (\<lambda>b. pb_HostIP b = Addr4 0 \<or> pb_HostIP b = Addr4 2130706433) hostPorts"

definition host_port_hit :: "portBinding list \<Rightarrow> packet \<Rightarrow> bool" where
  "host_port_hit hostPorts p \<longleftrightarrow>
     (\<exists>b \<in> set (local_bindings hostPorts). \<exists>k. ParseUint (pb_HostPort b) 16 = Inr k \<and> p_dport p = word_of_nat k)"

text \<open>The verdict for one container port on one network. Traffic from the gateway is traffic from the host
  when a binding is reachable through localhost: it is dropped unless localhost is allowed, and admitted if
  it is. External traffic is admitted from the configured sources. In the main chain, traffic from localhost
  to the host port is dropped unless localhost is allowed.\<close>

definition from_host :: "netip_addr \<Rightarrow> portBinding list \<Rightarrow> packet \<Rightarrow> bool" where
  "from_host gateway hostPorts p \<longleftrightarrow> local_bindings hostPorts \<noteq> [] \<and> gateway = Addr4 (p_src p)"

definition from_outside :: "externalRules \<Rightarrow> portBinding list \<Rightarrow> packet \<Rightarrow> bool" where
  "from_outside external hostPorts p \<longleftrightarrow> e_Allow external \<and> hostPorts \<noteq> [] \<and>
     (slice_elems (e_IPs external) = [] \<or> (\<exists>a \<in> set (slice_elems (e_IPs external)). aor_covers a (p_src p)))"

definition port_decision ::
    "mappedPorts \<Rightarrow> nft_chain \<Rightarrow> netip_addr \<Rightarrow> byte list \<Rightarrow> bool \<Rightarrow> nport \<Rightarrow> portBinding list \<Rightarrow> decision" where
  "port_decision cfg chain gateway addr published port hostPorts n p =
     (let localhost = l_Allow (m_Localhost cfg) in
      if n = ch_Name chain \<and> port_hit addr port p then
        (if from_host gateway hostPorts p \<and> \<not> localhost then Some verdict_drop
         else if from_host gateway hostPorts p \<or> from_outside (m_External cfg) hostPorts p
         then Some verdict_return else None)
      else if n = whalewallChainName \<and> \<not> localhost \<and> published \<and> p_src p = 2130706433 \<and>
        proto_hit (po_Proto port) p \<and> host_port_hit hostPorts p
      then Some verdict_drop else None)"

definition mapped_decision ::
    "mappedPorts \<Rightarrow> nft_chain \<Rightarrow> networks \<Rightarrow> (string \<times> byte list) list \<Rightarrow> string option \<Rightarrow>
     (nport \<times> portBinding list) list \<Rightarrow> string list \<Rightarrow> decision" where
  "mapped_decision cfg chain managed addrs publishedNetwork ports names n p =
     first_some (\<lambda>netName.
       first_some (\<lambda>port. case map_of managed netName of
           Some (Some ep) \<Rightarrow> port_decision cfg chain (ep_Gateway ep) (address_bytes addrs netName)
             (publishedNetwork = None \<or> publishedNetwork = Some netName) port (the (map_of ports port)) n p
         | _ \<Rightarrow> None)
         (map fst ports)) names"

section \<open>Single rules\<close>

lemma proto_cases: "protocol_UnmarshalText name = Inr proto \<Longrightarrow> proto = tcp \<or> proto = udp"
  by (auto simp: protocol_UnmarshalText_def split: if_splits)

lemma one_port [simp]: "k \<noteq> 0 \<Longrightarrow> port_wf (one_port k)" "k \<noteq> 0 \<Longrightarrow> port_covers (one_port k) x \<longleftrightarrow> x = k"
  by (simp_all add: one_port_def port_wf_def port_covers_def)

lemma new_bit: "p_ctstate p = stateNew \<Longrightarrow> Bit_Operations.and (p_ctstate p) stateNew \<noteq> 0"
  by (simp add: stateNew_def)

lemma tcp_udp: "tcp \<noteq> invalidProto" "udp \<noteq> invalidProto" "tcp \<noteq> udp" "udp \<noteq> tcp"
  by (simp_all add: tcp_def udp_def invalidProto_def)

lemmas detail_simps = detail_decision_def rule_spec_def zero_rule_def zero_verdict_def slice_elems_def

lemma proto_spec:
  assumes "protocol_UnmarshalText name = Inr proto"
  shows "(proto \<noteq> invalidProto \<longrightarrow> p_proto p = (if proto = udp then 17 else 6)) \<longleftrightarrow> proto_hit name p"
  using assms tcp_udp by (auto simp: proto_hit_def protocol_UnmarshalText_def split: if_splits)

lemma local_binding_iff:
  "addr_IsValid a \<Longrightarrow> \<not> addr_Is6 a \<Longrightarrow> local_binding a \<longleftrightarrow> a = Addr4 0 \<or> a = Addr4 2130706433"
  by (cases a) (auto simp: local_binding_def localAddr_def)

lemma verdict_expr_plain:
  "\<not> v_drop (r_Verdict cfg) \<Longrightarrow> verdict_expr_of cfg = verdict_return"
  "v_drop (r_Verdict cfg) \<Longrightarrow> verdict_expr_of cfg = verdict_drop"
  by (simp_all add: verdict_expr_of_def verdict_return_def verdict_drop_def)

lemma gateway_rule_decision:
  assumes "protocol_UnmarshalText (po_Proto port) = Inr proto" "po_Num port \<noteq> 0" "p_ctstate p = stateNew"
    and "addr_Is4 gateway"
  shows "detail_decision (gateway_rule cfg gateway addr proto (po_Num port) chain cid) n p =
    (if n = ch_Name chain \<and> port_hit addr port p \<and> gateway = Addr4 (p_src p)
     then Some (if l_Allow (m_Localhost cfg) then verdict_return else verdict_drop) else None)"
proof -
  obtain w where g: "gateway = Addr4 w" using assms(4) by (auto simp: addr_Is4_iff)
  show ?thesis
    using assms(1-3) proto_spec [OF assms(1), of p] new_bit [OF assms(3)]
    by (auto simp: detail_simps gateway_rule_def port_hit_def g verdict_expr_plain)
qed

lemma external_rule_decision:
  assumes "protocol_UnmarshalText (po_Proto port) = Inr proto" "po_Num port \<noteq> 0" "p_ctstate p = stateNew"
    and "\<not> v_drop (e_Verdict (m_External cfg))"
  shows "detail_decision (external_rule cfg addr proto (po_Num port) chain cid) n p =
    (if n = ch_Name chain \<and> port_hit addr port p \<and>
       (slice_elems (e_IPs (m_External cfg)) = [] \<or> (\<exists>a \<in> set (slice_elems (e_IPs (m_External cfg))). aor_covers a (p_src p)))
     then Some verdict_return else None)"
  using assms proto_spec [OF assms(1), of p] new_bit [OF assms(3)]
  by (auto simp: detail_simps external_rule_def port_hit_def verdict_expr_plain)

lemma localhost_drop_decision:
  assumes "protocol_UnmarshalText name = Inr proto" "k \<noteq> 0" "p_ctstate p = stateNew"
  shows "detail_decision (localhost_drop_rule proto k cid) n p =
    (if n = whalewallChainName \<and> proto_hit name p \<and> localAddr = Addr4 (p_src p) \<and> p_dport p = k
     then Some verdict_drop else None)"
  using assms proto_spec [OF assms(1), of p] new_bit [OF assms(3)]
  by (auto simp: detail_simps localhost_drop_rule_def whalewallChain_def localAddr_def verdict_expr_plain)

section \<open>All rules\<close>

definition mapping_owner :: "nft_chain \<Rightarrow> string \<Rightarrow> nft_chain \<Rightarrow> string \<Rightarrow> bool" where
  "mapping_owner chain cid ch u \<longleftrightarrow> u = cid \<and> (ch = chain \<or> ch = whalewallChain)"

definition gateway_decision :: "mappedPorts \<Rightarrow> nft_chain \<Rightarrow> netip_addr \<Rightarrow> byte list \<Rightarrow> nport \<Rightarrow> decision" where
  "gateway_decision cfg chain gateway addr port n p =
     (if needs_gateway_rule cfg gateway \<and> n = ch_Name chain \<and> port_hit addr port p \<and> gateway = Addr4 (p_src p)
      then Some (if l_Allow (m_Localhost cfg) then verdict_return else verdict_drop) else None)"

definition localhost_decision :: "mappedPorts \<Rightarrow> bool \<Rightarrow> nport \<Rightarrow> portBinding \<Rightarrow> decision" where
  "localhost_decision cfg published port b n p =
     (if \<not> l_Allow (m_Localhost cfg) \<and> published \<and> n = whalewallChainName \<and> proto_hit (po_Proto port) p \<and>
        localAddr = Addr4 (p_src p) \<and> (\<exists>k. ParseUint (pb_HostPort b) 16 = Inr k \<and> p_dport p = word_of_nat k)
      then Some verdict_drop else None)"

definition host_port_decision :: "mappedPorts \<Rightarrow> nft_chain \<Rightarrow> netip_addr \<Rightarrow> byte list \<Rightarrow> bool \<Rightarrow> nport \<Rightarrow> portBinding \<Rightarrow> decision" where
  "host_port_decision cfg chain gateway addr published port b n p =
     (if pb_HostIP b = Addr4 0 \<or> pb_HostIP b = Addr4 2130706433
      then (case gateway_decision cfg chain gateway addr port n p of
          None \<Rightarrow> localhost_decision cfg published port b n p | Some v \<Rightarrow> Some v)
      else None)"

lemma host_ports_decision:
  assumes "ch_Name chain \<noteq> whalewallChainName"
  shows "first_some (\<lambda>b. host_port_decision cfg chain gateway addr published port b n p) hostPorts =
    (if n = ch_Name chain then (if local_bindings hostPorts \<noteq> [] then gateway_decision cfg chain gateway addr port n p else None)
     else if n = whalewallChainName \<and> \<not> l_Allow (m_Localhost cfg) \<and> published \<and> localAddr = Addr4 (p_src p) \<and>
        proto_hit (po_Proto port) p \<and> host_port_hit hostPorts p
      then Some verdict_drop else None)"
proof (induction hostPorts)
  case Nil
  then show ?case by (simp add: local_bindings_def host_port_hit_def)
next
  case (Cons b bs)
  show ?case
    unfolding first_some.simps Cons.IH using assms
    by (auto simp: host_port_decision_def gateway_decision_def localhost_decision_def local_bindings_def
        host_port_hit_def split: option.splits)
qed

definition mapping_cfg_ok :: "mappedPorts \<Rightarrow> bool" where
  "mapping_cfg_ok cfg \<longleftrightarrow>
     validateVerdict (l_Verdict (m_Localhost cfg)) = None \<and>
     validateVerdict (e_Verdict (m_External cfg)) = None \<and> \<not> v_drop (e_Verdict (m_External cfg)) \<and>
     (\<forall>a \<in> set (slice_elems (e_IPs (m_External cfg))). aor_wf a)"

lemma mapping_details_ok:
  assumes "mapping_cfg_ok cfg" "addr = [] \<or> (\<exists>w. addr = be32 w)" "ch_Table chain = Some filterTable" "k \<noteq> 0"
  shows "addr_Is4 gateway \<Longrightarrow> detail_ok (gateway_rule cfg gateway addr proto k chain cid)"
    and "detail_ok (external_rule cfg addr proto k chain cid)"
    and "detail_ok (localhost_drop_rule proto k cid)"
  using assms
  by (auto simp: detail_ok_def mapping_cfg_ok_def gateway_rule_def external_rule_def localhost_drop_rule_def
      est_chain_def cfg_selectors_wf_def zero_rule_def zero_verdict_def slice_elems_def aor_wf_def aor_of_addr_def
      addr_Is4_iff localAddr_def validateVerdict_None whalewallChain_def)

lemma mapping_owners:
  "detail_owner (gateway_rule cfg gateway addr proto k chain cid) ch u \<Longrightarrow> mapping_owner chain cid ch u"
  "detail_owner (external_rule cfg addr proto k chain cid) ch u \<Longrightarrow> mapping_owner chain cid ch u"
  "detail_owner (localhost_drop_rule proto k cid) ch u \<Longrightarrow> mapping_owner chain cid ch u"
  by (auto simp: detail_owner_def mapping_owner_def gateway_rule_def external_rule_def localhost_drop_rule_def
      est_chain_def est_owner_def)

context firewall_client
begin

lemma host_port_rules_generates:
  assumes L: "netipx_ok L" and cfg: "mapping_cfg_ok cfg" and addr: "addr = [] \<or> (\<exists>w. addr = be32 w)"
    and chain: "ch_Table chain = Some filterTable" and num: "po_Num port \<noteq> 0"
    and proto: "protocol_UnmarshalText (po_Proto port) = Inr proto"
    and gw: "addr_IsValid gateway \<Longrightarrow> addr_Is4 gateway" and hp: "ParseUint (pb_HostPort b) 16 \<noteq> Inr 0"
  shows "generates ok committed staged (mapping_owner chain cid) (host_port_decision cfg chain gateway addr published port b)
    (host_port_rules F L cfg gateway addr published proto (po_Num port) chain cid b)"
proof -
  let ?A = "mapping_owner chain cid"
  let ?gw = "\<lambda>c. if needs_gateway_rule cfg gateway
             then firewall_rules F L (gateway_rule cfg gateway addr proto (po_Num port) chain cid) c else (c, Inr [])"
  let ?lo = "\<lambda>c. if \<not> l_Allow (m_Localhost cfg) \<and> published
             then (case ParseUint (pb_HostPort b) 16 of
                 Inl e \<Rightarrow> (c, Inl (Wrap ''error parsing host port of port mapping'' e))
               | Inr k \<Rightarrow> firewall_rules F L (localhost_drop_rule proto (word_of_nat k) cid) c)
             else (c, Inr [])"
  have "generates ok committed staged ?A (gateway_decision cfg chain gateway addr port) ?gw"
  proof (cases "needs_gateway_rule cfg gateway")
    case True
    then have "addr_Is4 gateway" using gw by (auto simp: needs_gateway_rule_def Let_def)
    from firewall_rules_generates [OF L mapping_details_ok(1) [OF cfg addr chain num this], of proto cid]
    have "generates ok committed staged ?A (detail_decision (gateway_rule cfg gateway addr proto (po_Num port) chain cid)) ?gw"
      using True mapping_owners(1) by (simp add: generates_mono)
    then show ?thesis
      by (rule generates_cong)
        (simp add: gateway_rule_decision [OF proto num _ \<open>addr_Is4 gateway\<close>] gateway_decision_def True)
  next
    case False
    then have "gateway_decision cfg chain gateway addr port = (\<lambda>n p. None)" by (simp add: gateway_decision_def fun_eq_iff)
    with False generates_none show ?thesis by simp
  qed
  moreover have "generates ok committed staged ?A (localhost_decision cfg published port b) ?lo"
  proof (cases "\<not> l_Allow (m_Localhost cfg) \<and> published")
    case True
    show ?thesis
    proof (cases "ParseUint (pb_HostPort b) 16")
      case (Inl e)
      with True show ?thesis by (simp add: generates_error)
    next
      case (Inr k)
      have k: "(word_of_nat k :: u16) \<noteq> 0"
        using hp Inr ParseUint_bound [OF Inr] by (auto simp: word_of_nat_eq_0_iff dest: dvd_imp_le)
      from firewall_rules_generates [OF L mapping_details_ok(3) [OF cfg addr chain k], of proto cid]
      have "generates ok committed staged ?A (detail_decision (localhost_drop_rule proto (word_of_nat k) cid)) ?lo"
        using True Inr mapping_owners(3) by (simp add: generates_mono)
      then show ?thesis
        by (rule generates_cong)
          (use True Inr in \<open>simp add: localhost_drop_decision [OF proto k] localhost_decision_def\<close>)
    qed
  next
    case False
    then have "localhost_decision cfg published port b = (\<lambda>n p. None)" "?lo = (\<lambda>c. (c, Inr []))"
      by (auto simp: localhost_decision_def fun_eq_iff)
    with generates_none show ?thesis by metis
  qed
  ultimately have two: "generates ok committed staged ?A (\<lambda>n p. case gateway_decision cfg chain gateway addr port n p of
      None \<Rightarrow> localhost_decision cfg published port b n p | Some v \<Rightarrow> Some v) (gen_each (\<lambda>f. f) [?gw, ?lo])"
    by (rule generates_two)
  let ?f = "host_port_rules F L cfg gateway addr published proto (po_Num port) chain cid b"
  let ?local = "pb_HostIP b = Addr4 0 \<or> pb_HostIP b = Addr4 2130706433"
  consider e where "?f = (\<lambda>c. (c, Inl e))" | "\<not> ?local" "?f = (\<lambda>c. (c, Inr []))"
    | "?local" "?f = gen_each (\<lambda>f. f) [?gw, ?lo]"
    by (cases "addr_IsValid (pb_HostIP b)"; cases "addr_Is6 (pb_HostIP b)"; cases ?local)
      (auto simp: host_port_rules_def Let_def fun_eq_iff local_binding_iff)
  then show ?thesis
  proof cases
    case 1
    then show ?thesis by (simp add: generates_error)
  next
    case 2
    then show ?thesis using generates_none by (simp add: host_port_decision_def [abs_def])
  next
    case 3
    with two show ?thesis by (simp add: host_port_decision_def [abs_def])
  qed
qed

end

text \<open>What Docker reports: ports are not 0, gateways are IPv4 addresses, addresses come from
  \<open>collectManagedIPv4Addresses\<close>.\<close>

definition bindings_ok :: "(nport \<times> portBinding list) list \<Rightarrow> bool" where
  "bindings_ok ports \<longleftrightarrow> (\<forall>(port, hostPorts) \<in> set ports. po_Num port \<noteq> 0 \<and>
     (\<forall>b \<in> set hostPorts. ParseUint (pb_HostPort b) 16 \<noteq> Inr 0))"

definition gateways_ok :: "networks \<Rightarrow> bool" where
  "gateways_ok managed \<longleftrightarrow>
     (\<forall>(n, ep) \<in> set managed. \<forall>e. ep = Some e \<longrightarrow> addr_IsValid (ep_Gateway e) \<longrightarrow> addr_Is4 (ep_Gateway e))"

definition addresses_ok :: "(string \<times> byte list) list \<Rightarrow> bool" where
  "addresses_ok addrs \<longleftrightarrow> (\<forall>(n, a) \<in> set addrs. \<exists>w. a = be32 w)"

lemma address_bytes_ok: "addresses_ok addrs \<Longrightarrow> address_bytes addrs n = [] \<or> (\<exists>w. address_bytes addrs n = be32 w)"
  by (auto simp: addresses_ok_def address_bytes_def split: option.splits dest!: map_of_SomeD)

lemma no_local: "hostPorts = [] \<Longrightarrow> local_bindings hostPorts = []"
  by (simp add: local_bindings_def)

lemma bindings_okD:
  assumes "bindings_ok ports" "map_of ports port = Some hostPorts"
  shows "po_Num port \<noteq> 0" "b \<in> set hostPorts \<Longrightarrow> ParseUint (pb_HostPort b) 16 \<noteq> Inr 0"
  using assms by (auto simp: bindings_ok_def dest!: map_of_SomeD)

context firewall_client
begin

lemma port_rules_generates:
  assumes L: "netipx_ok L" and cfg: "mapping_cfg_ok cfg" and addr: "addr = [] \<or> (\<exists>w. addr = be32 w)"
    and chain: "ch_Table chain = Some filterTable" "ch_Name chain \<noteq> whalewallChainName"
    and ports: "bindings_ok ports" "map_of ports port = Some hostPorts"
    and gw: "addr_IsValid gateway \<Longrightarrow> addr_Is4 gateway"
  shows "generates ok committed staged (mapping_owner chain cid) (port_decision cfg chain gateway addr published port hostPorts)
    (port_rules F L cfg gateway addr published chain cid ports port)"
proof (cases "protocol_UnmarshalText (po_Proto port)")
  case (Inl e)
  then show ?thesis by (simp add: port_rules_def [abs_def] ports(2) generates_error)
next
  case (Inr proto)
  let ?A = "mapping_owner chain cid"
  let ?W = "\<lambda>n p. if e_Allow (m_External cfg) \<and> hostPorts \<noteq> []
    then detail_decision (external_rule cfg addr proto (po_Num port) chain cid) n p else None"
  note num = bindings_okD(1) [OF ports]
  have 1: "generates ok committed staged ?A
      (\<lambda>n p. first_some (\<lambda>b. host_port_decision cfg chain gateway addr published port b n p) hostPorts)
      (gen_each (host_port_rules F L cfg gateway addr published proto (po_Num port) chain cid) hostPorts)"
    by (rule generates_each, rule host_port_rules_generates [OF L cfg addr chain(1) num Inr gw])
      (use bindings_okD(2) [OF ports] in auto)
  have 2: "generates ok committed staged ?A ?W (\<lambda>c. if e_Allow (m_External cfg) \<and> length hostPorts > 0
      then firewall_rules F L (external_rule cfg addr proto (po_Num port) chain cid) c else (c, Inr []))"
  proof (cases "e_Allow (m_External cfg) \<and> hostPorts \<noteq> []")
    case True
    from firewall_rules_generates [OF L mapping_details_ok(2) [OF cfg addr chain(1) num], of proto cid] mapping_owners(2)
    have "generates ok committed staged ?A (detail_decision (external_rule cfg addr proto (po_Num port) chain cid))
      (firewall_rules F L (external_rule cfg addr proto (po_Num port) chain cid))"
      by (rule generates_mono)
    with True show ?thesis by simp
  next
    case False
    then have "(\<lambda>c. if e_Allow (m_External cfg) \<and> length hostPorts > 0
      then firewall_rules F L (external_rule cfg addr proto (po_Num port) chain cid) c else (c, Inr [])) = (\<lambda>c. (c, Inr []))"
      "?W = (\<lambda>n p. None)" by auto
    then show ?thesis by (simp only: generates_none)
  qed
  have ext: "\<not> v_drop (e_Verdict (m_External cfg))" using cfg by (simp add: mapping_cfg_ok_def)
  have "generates ok committed staged ?A (port_decision cfg chain gateway addr published port hostPorts)
    (gen_each (\<lambda>f. f) [gen_each (host_port_rules F L cfg gateway addr published proto (po_Num port) chain cid) hostPorts,
      \<lambda>c. if e_Allow (m_External cfg) \<and> length hostPorts > 0
      then firewall_rules F L (external_rule cfg addr proto (po_Num port) chain cid) c else (c, Inr [])])"
  proof (rule generates_cong [OF generates_two [OF 1 2]])
    fix n and p :: packet assume new: "p_ctstate p = stateNew"
    show "(case first_some (\<lambda>b. host_port_decision cfg chain gateway addr published port b n p) hostPorts of
        None \<Rightarrow> ?W n p | Some v \<Rightarrow> Some v) = port_decision cfg chain gateway addr published port hostPorts n p"
      unfolding host_ports_decision [OF chain(2)] external_rule_decision [OF Inr num new ext]
      using chain(2) no_local [of hostPorts]
      by (auto simp: port_decision_def gateway_decision_def from_host_def from_outside_def needs_gateway_rule_def
          localAddr_def Let_def)
  qed
  moreover have "port_rules F L cfg gateway addr published chain cid ports port = gen_each (\<lambda>f. f)
    [gen_each (host_port_rules F L cfg gateway addr published proto (po_Num port) chain cid) hostPorts,
      \<lambda>c. if e_Allow (m_External cfg) \<and> length hostPorts > 0
      then firewall_rules F L (external_rule cfg addr proto (po_Num port) chain cid) c else (c, Inr [])]"
    by (simp add: fun_eq_iff port_rules_def Let_def ports(2) Inr)
  ultimately show ?thesis by simp
qed

end

lemma sorted_ports_set: "set (sorted_ports ports) = fst ` set ports"
  by (simp add: sorted_ports_def)

lemma sorted_ports_map: "port \<in> set (sorted_ports ports) \<Longrightarrow> map_of ports port = Some (the (map_of ports port))"
  by (cases "map_of ports port") (auto simp: sorted_ports_set map_of_eq_None_iff)

context firewall_client
begin

lemma network_port_rules_generates:
  assumes L: "netipx_ok L" and cfg: "mapping_cfg_ok cfg" and addrs: "addresses_ok addrs"
    and chain: "ch_Table chain = Some filterTable" "ch_Name chain \<noteq> whalewallChainName"
    and ports: "bindings_ok ports" and gw: "gateways_ok managed"
  shows "generates ok committed staged (mapping_owner chain cid)
    (\<lambda>n p. first_some (\<lambda>port. case map_of managed netName of
           Some (Some ep) \<Rightarrow> port_decision cfg chain (ep_Gateway ep) (address_bytes addrs netName)
             (publishedNetwork = None \<or> publishedNetwork = Some netName) port (the (map_of ports port)) n p
         | _ \<Rightarrow> None) (sorted_ports ports))
    (network_port_rules F L cfg managed addrs publishedNetwork chain cid ports netName)"
proof -
  consider ep where "map_of managed netName = Some (Some ep)"
    | "network_port_rules F L cfg managed addrs publishedNetwork chain cid ports netName = (\<lambda>c. (c, Inl nil_pointer))"
    by (cases "map_of managed netName"; cases "the (map_of managed netName)") (auto simp: network_port_rules_def fun_eq_iff)
  then show ?thesis
  proof cases
    case (1 ep)
    have g: "addr_IsValid (ep_Gateway ep) \<Longrightarrow> addr_Is4 (ep_Gateway ep)"
      using gw map_of_SomeD [OF 1] unfolding gateways_ok_def by auto
    have "generates ok committed staged (mapping_owner chain cid)
      (\<lambda>n p. first_some (\<lambda>port. port_decision cfg chain (ep_Gateway ep) (address_bytes addrs netName)
             (publishedNetwork = None \<or> publishedNetwork = Some netName) port (the (map_of ports port)) n p)
         (sorted_ports ports))
      (gen_each (port_rules F L cfg (ep_Gateway ep) (address_bytes addrs netName)
            (publishedNetwork = None \<or> publishedNetwork = Some netName) chain cid ports) (sorted_ports ports))"
      by (rule generates_each, rule port_rules_generates [OF L cfg address_bytes_ok [OF addrs] chain ports sorted_ports_map g])
    with 1 show ?thesis by (simp add: network_port_rules_def [abs_def])
  next
    case 2
    then show ?thesis by (simp add: generates_error)
  qed
qed

end

text \<open>Of the ports of one network at most one decides on a packet in the container's chain, and in the main
  chain there are only drops, so the order in which the ports are visited does not matter.\<close>

lemma first_some_order:
  assumes "set xs = set ys"
    and "\<And>x y. x \<in> set xs \<Longrightarrow> y \<in> set xs \<Longrightarrow> f x \<noteq> None \<Longrightarrow> f y \<noteq> None \<Longrightarrow> f x = f y"
  shows "first_some f xs = first_some f ys"
proof (cases "\<exists>x \<in> set xs. f x \<noteq> None")
  case True
  then obtain x v where x: "x \<in> set xs" "f x = Some v" by blast
  have "f y = None \<or> f y = Some v" if "y \<in> set xs" for y
    using assms(2) [of y x] that assms(1) x by (cases "f y") auto
  with first_some_const [of xs f v] first_some_const [of ys f v] assms(1) x show ?thesis by auto
next
  case False
  then have "first_some f xs = None" "first_some f ys = None"
    using assms(1) by (auto simp: first_some_None)
  then show ?thesis by simp
qed

lemma port_decision_unique:
  assumes "ch_Name chain \<noteq> whalewallChainName"
    and "port_decision cfg chain gateway addr published x hx n p \<noteq> None"
    and "port_decision cfg chain gateway addr published y hy n p \<noteq> None"
  shows "x = y \<or> port_decision cfg chain gateway addr published x hx n p = port_decision cfg chain gateway addr published y hy n p"
proof (cases "n = ch_Name chain")
  case True
  with assms have "port_hit addr x p" "port_hit addr y p" by (auto simp: port_decision_def Let_def split: if_splits)
  then have "x = y" by (auto simp: port_hit_def proto_hit_def)
  then show ?thesis ..
next
  case False
  with assms(2,3) show ?thesis by (simp add: port_decision_def Let_def split: if_splits)
qed

lemma ports_order:
  assumes "ch_Name chain \<noteq> whalewallChainName"
  shows "first_some (\<lambda>port. case map_of managed netName of
        Some (Some ep) \<Rightarrow> port_decision cfg chain (ep_Gateway ep) addr published port (bindings port) n p
      | _ \<Rightarrow> None) (sorted_ports ports) =
    first_some (\<lambda>port. case map_of managed netName of
        Some (Some ep) \<Rightarrow> port_decision cfg chain (ep_Gateway ep) addr published port (bindings port) n p
      | _ \<Rightarrow> None) (map fst ports)"
proof (rule first_some_order)
  show "set (sorted_ports ports) = set (map fst ports)" by (simp add: sorted_ports_set)
next
  fix x y
  let ?f = "\<lambda>port. case map_of managed netName of
        Some (Some ep) \<Rightarrow> port_decision cfg chain (ep_Gateway ep) addr published port (bindings port) n p
      | _ \<Rightarrow> None"
  assume some: "?f x \<noteq> None" "?f y \<noteq> None"
  then obtain ep where ep: "map_of managed netName = Some (Some ep)" by (auto split: option.splits)
  from some port_decision_unique [OF assms, of cfg "ep_Gateway ep" addr published x "bindings x" n p y "bindings y"]
  show "?f x = ?f y" unfolding ep by auto
qed

definition published_names :: "networks \<Rightarrow> string option \<Rightarrow> string list" where
  "published_names managed publishedNetwork =
     (case publishedNetwork of
        None \<Rightarrow> sort (map fst managed)
      | Some n \<Rightarrow> if map_of managed n = None then [] else [n])"

lemma prefixed_sel [simp]:
  "l_Allow (m_Localhost (prefixed cfg name cid)) = l_Allow (m_Localhost cfg)"
  "l_Verdict (m_Localhost (prefixed cfg name cid)) = l_Verdict (m_Localhost cfg)"
  "e_Allow (m_External (prefixed cfg name cid)) = e_Allow (m_External cfg)"
  "e_IPs (m_External (prefixed cfg name cid)) = e_IPs (m_External cfg)"
  "e_Verdict (m_External (prefixed cfg name cid)) = e_Verdict (m_External cfg)"
  by (simp_all add: prefixed_def)

lemma prefixed_ok [simp]: "mapping_cfg_ok (prefixed cfg name cid) = mapping_cfg_ok cfg"
  by (simp add: mapping_cfg_ok_def)

lemma prefixed_decision [simp]: "port_decision (prefixed cfg name cid) = port_decision cfg"
  by (intro ext) (simp only: port_decision_def from_outside_def Let_def prefixed_sel)

lemma no_mapped_ports:
  assumes "\<not> has_mapped_ports ns"
  shows "mapped_decision cfg chain managed addrs publishedNetwork (ns_Ports ns) names n p = None"
proof -
  have "port_decision cfg chain gateway addr published port (the (map_of (ns_Ports ns) port)) n p = None"
    if "port \<in> set (map fst (ns_Ports ns))" for port gateway addr published
  proof -
    have "the (map_of (ns_Ports ns) port) = []"
      using assms map_of_SomeD [OF sorted_ports_map, of port "ns_Ports ns"] that
      by (fastforce simp: has_mapped_ports_def list_ex_iff sorted_ports_set)
    then show ?thesis
      by (simp add: port_decision_def local_bindings_def host_port_hit_def from_host_def from_outside_def Let_def)
  qed
  then show ?thesis by (auto simp: mapped_decision_def first_some_None split: option.splits)
qed

context firewall_client
begin

lemma createPortMappingRules_generates:
  assumes L: "netipx_ok L" and cfg: "mapping_cfg_ok cfg" and addrs: "addresses_ok addrs"
    and chain: "ch_Table chain = Some filterTable" "ch_Name chain \<noteq> whalewallChainName"
    and ns: "ir_NetworkSettings container = Some ns" and ports: "bindings_ok (ns_Ports ns)" and gw: "gateways_ok managed"
    and pub: "published_network explicitScope (ns_Networks ns) = Inr publishedNetwork"
  shows "generates ok committed staged (mapping_owner chain (ir_ID container))
    (mapped_decision cfg chain managed addrs publishedNetwork (ns_Ports ns) (published_names managed publishedNetwork))
    (createPortMappingRules F L container contName cfg managed addrs chain explicitScope)"
proof -
  let ?f = "createPortMappingRules F L container contName cfg managed addrs chain explicitScope"
  let ?names = "published_names managed publishedNetwork"
  let ?round = "network_port_rules F L (prefixed cfg contName (ir_ID container)) managed addrs publishedNetwork chain
    (ir_ID container) (ns_Ports ns)"
  show ?thesis
  proof (cases "has_mapped_ports ns")
    case False
    then have "?f = (\<lambda>c. (c, Inr []))" by (simp add: createPortMappingRules_def ns fun_eq_iff)
    with no_mapped_ports [OF False] show ?thesis by (simp add: generates_cong [OF generates_none])
  next
    case True
    have f: "?f = gen_each ?round ?names"
      using True pub ns
      by (auto simp: createPortMappingRules_def published_names_def sorted_names_def fun_eq_iff split: option.splits)
    have "generates ok committed staged (mapping_owner chain (ir_ID container))
      (\<lambda>n p. first_some (\<lambda>netName. first_some (\<lambda>port. case map_of managed netName of
           Some (Some ep) \<Rightarrow> port_decision (prefixed cfg contName (ir_ID container)) chain (ep_Gateway ep) (address_bytes addrs netName)
             (publishedNetwork = None \<or> publishedNetwork = Some netName) port (the (map_of (ns_Ports ns) port)) n p
         | _ \<Rightarrow> None) (sorted_ports (ns_Ports ns))) ?names)
      (gen_each ?round ?names)"
      by (rule generates_each, rule network_port_rules_generates [OF L _ addrs chain ports gw]) (simp add: cfg)
    then show ?thesis unfolding f by (rule generates_cong) (simp only: mapped_decision_def prefixed_decision ports_order [OF chain(2)])
  qed
qed

end

text \<open>The network Docker publishes ports through: when the scope is explicit, every attached endpoint must
  have an IPv4 address and no gateway other than an IPv4 one, and among the networks with a gateway it is
  the one of highest priority, of those the first by name.\<close>

definition publishes_through :: "bool \<Rightarrow> networks \<Rightarrow> string option \<Rightarrow> bool" where
  "publishes_through explicitScope attached network \<longleftrightarrow>
     (case network of
        None \<Rightarrow> \<not> explicitScope
      | Some n \<Rightarrow> explicitScope \<and>
          (\<forall>(m, x) \<in> set attached. \<exists>f. x = Some f \<and> addr_Is4 (ep_IPAddress f) \<and>
             (addr_IsValid (ep_Gateway f) \<longrightarrow> addr_Is4 (ep_Gateway f))) \<and>
          (\<exists>e. (n, Some e) \<in> set attached \<and> addr_Is4 (ep_Gateway e) \<and>
             (\<forall>m f. (m, Some f) \<in> set attached \<and> addr_Is4 (ep_Gateway f) \<longrightarrow>
                ep_GwPriority f < ep_GwPriority e \<or> ep_GwPriority f = ep_GwPriority e \<and> n \<le> m)))"

lemma published_network_iff:
  assumes "distinct (map fst attached)"
  shows "published_network explicitScope attached = Inr network \<longleftrightarrow> publishes_through explicitScope attached network"
proof (cases network)
  case (Some n)
  have "published_network explicitScope attached = Inr (Some n) \<longleftrightarrow>
      explicitScope \<and> dockerIPv4GatewayNetworkName attached = Inr n"
    by (auto simp: published_network_def split: sum.splits)
  with Some show ?thesis
    unfolding publishes_through_def dockerIPv4GatewayNetworkName_correct [OF assms] by simp
qed (auto simp: published_network_def publishes_through_def split: sum.splits)

lemma published_network_needed:
  assumes "createPortMappingRules F L container contName cfg managed addrs chain explicitScope c = (c', Inr rules)"
    and "ir_NetworkSettings container = Some ns" "\<exists>port hostPorts. (port, hostPorts) \<in> set (ns_Ports ns) \<and> hostPorts \<noteq> []"
  shows "\<exists>network. published_network explicitScope (ns_Networks ns) = Inr network"
  using assms by (auto simp: createPortMappingRules_def has_mapped_ports_def list_ex_iff split: sum.splits if_splits)

section \<open>A published port\<close>

text \<open>A container at 172.18.0.2 behind the gateway 172.18.0.1; its port 80 is published on port 8080 of the
  host. It may be reached from outside, but not from the host.\<close>

definition web_endpoint :: endpoint where
  "web_endpoint = \<lparr>ep_NetworkID = ''n1'', ep_IPAddress = Addr4 2886860802, ep_Gateway = Addr4 2886860801,
     ep_GlobalIPv6Address = AddrZero, ep_GwPriority = 0\<rparr>"

definition web_ports :: "(nport \<times> portBinding list) list" where
  "web_ports = [(\<lparr>po_Num = 80, po_Proto = ''tcp''\<rparr>, [\<lparr>pb_HostIP = Addr4 0, pb_HostPort = ''8080''\<rparr>])]"

definition web_container :: inspectResponse where
  "web_container = \<lparr>ir_ID = ''x'', ir_Name = ''/web'', ir_Running = Some True, ir_Labels = Some [],
     ir_NetworkSettings = Some \<lparr>ns_Networks = [(''front'', Some web_endpoint)], ns_Ports = web_ports\<rparr>\<rparr>"

definition web_mapping :: mappedPorts where
  "web_mapping = \<lparr>m_Localhost = \<lparr>l_Allow = False, l_LogPrefix = [], l_Verdict = zero_verdict\<rparr>,
     m_External = \<lparr>e_Allow = True, e_LogPrefix = [], e_IPs = None, e_Verdict = zero_verdict\<rparr>\<rparr>"

lemmas web_defs = web_mapping_def web_ports_def web_endpoint_def

lemma web_mapping_sel [simp]:
  "\<not> l_Allow (m_Localhost web_mapping)" "l_LogPrefix (m_Localhost web_mapping) = []"
  "l_Verdict (m_Localhost web_mapping) = zero_verdict" "e_Allow (m_External web_mapping)"
  "e_LogPrefix (m_External web_mapping) = []" "e_IPs (m_External web_mapping) = None"
  "e_Verdict (m_External web_mapping) = zero_verdict"
  by (simp_all add: web_mapping_def)

lemma web_port_8080: "ParseUint ''8080'' 16 = Inr 8080"
  by (simp add: ParseUint_def is_digit_def digit_value_def)

lemma no_set_rules:
  assumes "rd_estChain rd = None" "rd_inbound rd" "r_LogPrefix (rd_cfg rd) = []" "r_SrcPorts (rd_cfg rd) = []"
    "r_DstPorts (rd_cfg rd) = [one_port k]" "k \<noteq> 0" "validateVerdict (r_Verdict (rd_cfg rd)) = None"
    "r_IPs (rd_cfg rd) = None \<or> r_IPs (rd_cfg rd) = Some [aor_of_addr (Addr4 w)]"
  shows "\<exists>rules. firewall_rules F L rd c = (c, Inr rules) \<and> (rules = [] \<longrightarrow> False)"
proof -
  have ports: "createPortExprs F [one_port k] off ch c = (c, Inr (matchPortExprs k off))" for off ch
    using assms(6) by (simp add: createPortExprs_def one_port_def)
  have ips: "createIPExprs F L [aor_of_addr (Addr4 w)] off ch c = (c, Inr (matchAddrExprs (be32 w) off))" for off ch
    by (simp add: createIPExprs_def aor_of_addr_def aor_Addr_def)
  have one: "\<exists>r. createNFTRule F L inb inv st addr (rd_cfg rd) q ch i c = (c, Inr r)" for inb inv st addr q ch i
    using assms(8)
  proof
    assume "r_IPs (rd_cfg rd) = None"
    then show ?thesis by (simp only: createNFTRule_def Let_def assms(4,5) slice_elems_def) (simp add: ports)
  next
    assume "r_IPs (rd_cfg rd) = Some [aor_of_addr (Addr4 w)]"
    then show ?thesis by (simp only: createNFTRule_def Let_def assms(4,5) slice_elems_def) (simp add: ports ips)
  qed
  have v: "v_Queue (r_Verdict (rd_cfg rd)) = 0" using assms(7) by (simp add: validateVerdict_None)
  obtain r1 r2 r3 where
    "createNFTRule F L True False stateNew (rd_addr rd) (rd_cfg rd) 0 (rd_chain rd) (rd_contID rd) c = (c, Inr r1)"
    "createNFTRule F L True False stateNewEst (rd_addr rd) (rd_cfg rd) 0 (rd_chain rd) (rd_contID rd) c = (c, Inr r2)"
    "createNFTRule F L False True stateEst (rd_addr rd) (rd_cfg rd) 0 (rd_chain rd) (rd_contID rd) c = (c, Inr r3)"
    using one by metis
  with assms(1-3) v show ?thesis
    by (cases "v_drop (r_Verdict (rd_cfg rd))") (auto simp: firewall_rules_def gen_wrap_def createNFTRules_def Let_def)
qed

lemma web_run: "\<exists>rules. createPortMappingRules F L web_container ''web'' web_mapping [(''front'', Some web_endpoint)]
    [(''front'', be32 2886860802)] (regular_chain ''whalewall-x'') False c = (c, Inr rules)"
proof -
  let ?gw = "gateway_rule web_mapping (Addr4 2886860801) (be32 2886860802) tcp 80 (regular_chain ''whalewall-x'') ''x''"
  let ?lo = "localhost_drop_rule tcp 8080 ''x''"
  let ?ext = "external_rule web_mapping (be32 2886860802) tcp 80 (regular_chain ''whalewall-x'') ''x''"
  obtain r1 where 1: "firewall_rules F L ?gw c = (c, Inr r1)"
    using no_set_rules [of ?gw 80 2886860801 F L c]
    by (auto simp: gateway_rule_def zero_rule_def zero_verdict_def validateVerdict_None)
  obtain r2 where 2: "firewall_rules F L ?lo c = (c, Inr r2)"
    using no_set_rules [of ?lo 8080 2130706433 F L c]
    by (auto simp: localhost_drop_rule_def zero_rule_def zero_verdict_def validateVerdict_None localAddr_def)
  obtain r3 where 3: "firewall_rules F L ?ext c = (c, Inr r3)"
    using no_set_rules [of ?ext 80 0 F L c]
    by (auto simp: external_rule_def zero_rule_def zero_verdict_def validateVerdict_None)
  have cfg: "prefixed web_mapping name cid = web_mapping" for name cid by (simp add: prefixed_def)
  have proto: "protocol_UnmarshalText ''tcp'' = Inr tcp" by (simp add: protocol_UnmarshalText_def)
  have "sorted_ports web_ports = [\<lparr>po_Num = 80, po_Proto = ''tcp''\<rparr>]" by (simp add: sorted_ports_def web_ports_def)
  then show ?thesis
    using 1 2 3
    by (simp add: createPortMappingRules_def web_container_def published_network_def sorted_names_def has_mapped_ports_def
        cfg network_port_rules_def port_rules_def proto host_port_rules_def local_binding_def needs_gateway_rule_def
        address_bytes_def web_port_8080 web_ports_def web_endpoint_def Let_def)
qed

text \<open>C37: the rules generated for published ports admit what the configuration says and nothing else, whichever
  nftables client runs them. In the container's chain a packet of a new connection is decided on when it
  goes to a published container port at the container's address on a managed network. One from the network's
  gateway, which is the host reaching the container through a binding on 0.0.0.0 or 127.0.0.1, is dropped when
  access from localhost is not allowed and admitted when it is; any other is admitted when external access is
  allowed and its source is among the configured ones. In the main chain only packets from 127.0.0.1 to a
  published host port are dropped, when access from localhost is not allowed. Under an explicit scope all this is
  about the one network Docker publishes through, and when a port is published and there is no such network,
  no rules are generated. Every rule carries the container's id, and nothing is committed.\<close>

theorem createPortMappingRules_correct:
  assumes "firewall_client F ok committed staged" "ok c" "netipx_ok L" "mapping_cfg_ok cfg" "addresses_ok addrs"
    and "ch_Table chain = Some filterTable" "ch_Name chain \<noteq> whalewallChainName"
    and "ir_NetworkSettings container = Some ns" "bindings_ok (ns_Ports ns)" "gateways_ok managed"
    and "distinct (map fst (ns_Networks ns))"
    and "createPortMappingRules F L container contName cfg managed addrs chain explicitScope c = (c', Inr rules)"
    and "staged c' = Some rs'"
  shows "((\<exists>port hostPorts. (port, hostPorts) \<in> set (ns_Ports ns) \<and> hostPorts \<noteq> []) \<longrightarrow>
      (\<exists>network. publishes_through explicitScope (ns_Networks ns) network)) \<and>
    (\<forall>network. publishes_through explicitScope (ns_Networks ns) network \<longrightarrow>
      committed c' = committed c \<and>
      (\<forall>r \<in> set rules. ru_UserData r = ir_ID container \<and> (ru_Chain r = chain \<or> ru_Chain r = whalewallChain)) \<and>
      (\<forall>rs2 p n. sets_extend rs' rs2 \<longrightarrow> p_ctstate p = stateNew \<longrightarrow>
         run_chain rs2 p (rules_for rules n) = outcome_of (mapped_decision cfg chain managed addrs network (ns_Ports ns)
           (published_names managed network) n p)))"
proof -
  note iff = published_network_iff [OF assms(11), symmetric]
  have "committed c' = committed c \<and>
      (\<forall>r \<in> set rules. ru_UserData r = ir_ID container \<and> (ru_Chain r = chain \<or> ru_Chain r = whalewallChain)) \<and>
      (\<forall>rs2 p n. sets_extend rs' rs2 \<longrightarrow> p_ctstate p = stateNew \<longrightarrow>
         run_chain rs2 p (rules_for rules n) = outcome_of (mapped_decision cfg chain managed addrs network (ns_Ports ns)
           (published_names managed network) n p))"
    if "publishes_through explicitScope (ns_Networks ns) network" for network
    using generatesD [OF firewall_client.createPortMappingRules_generates [OF assms(1,3-10) that [unfolded iff]] assms(2,12)] assms(13)
    by (auto simp: decides_def mapping_owner_def)
  with published_network_needed [OF assms(12,8)] show ?thesis unfolding iff by blast
qed

theorem createPortMappingRules_correct_witness:
  "\<exists>rules rs'. mock_staged sample_client = Some rs' \<and>
    run_chain rs' \<lparr>p_src = 3232235777, p_dst = 2886860802, p_proto = 6, p_sport = 50000, p_dport = 80, p_ctstate = 8\<rparr>
      (rules_for rules ''whalewall-x'') = Decided verdict_return \<and>
    run_chain rs' \<lparr>p_src = 2886860801, p_dst = 2886860802, p_proto = 6, p_sport = 50000, p_dport = 80, p_ctstate = 8\<rparr>
      (rules_for rules ''whalewall-x'') = Decided verdict_drop"
proof -
  obtain rules where run: "createPortMappingRules mockFirewall_client ref_netipx web_container ''web'' web_mapping
    [(''front'', Some web_endpoint)] [(''front'', be32 2886860802)] (regular_chain ''whalewall-x'') False sample_client
    = (sample_client, Inr rules)"
    using web_run [of mockFirewall_client ref_netipx sample_client] by (rule exE)
  obtain rs' where st: "mock_staged sample_client = Some rs'"
    by (simp add: sample_client_def mf_AddChain_def mf_AddTable_def newMockFirewallCreator_def empty_mock_table_def
        mock_staged_def filterTable_def)
  have ns: "ir_NetworkSettings web_container = Some \<lparr>ns_Networks = [(''front'', Some web_endpoint)], ns_Ports = web_ports\<rparr>"
    by (simp add: web_container_def)
  have wf: "mapping_cfg_ok web_mapping" "addresses_ok [(''front'', be32 2886860802)]"
    "ch_Table (regular_chain ''whalewall-x'') = Some filterTable" "ch_Name (regular_chain ''whalewall-x'') \<noteq> whalewallChainName"
    "bindings_ok (ns_Ports \<lparr>ns_Networks = [(''front'', Some web_endpoint)], ns_Ports = web_ports\<rparr>)"
    "gateways_ok [(''front'', Some web_endpoint)]"
    by (auto simp: mapping_cfg_ok_def addresses_ok_def bindings_ok_def gateways_ok_def web_defs zero_verdict_def
        validateVerdict_None slice_elems_def whalewallChainName_def web_port_8080)
  have "distinct (map fst (ns_Networks \<lparr>ns_Networks = [(''front'', Some web_endpoint)], ns_Ports = web_ports\<rparr>))" by simp
  note dec = createPortMappingRules_correct [OF mock.firewall_client_axioms sample_client_ok ref_netipx_ok wf(1-4) ns wf(5,6) this run st]
  have "\<forall>rs2 p n. sets_extend rs' rs2 \<longrightarrow> p_ctstate p = stateNew \<longrightarrow>
    run_chain rs2 p (rules_for rules n) = outcome_of (mapped_decision web_mapping (regular_chain ''whalewall-x'')
      [(''front'', Some web_endpoint)] [(''front'', be32 2886860802)] None web_ports [''front''] n p)"
    using dec [THEN conjunct2, THEN spec, of None] by (simp add: publishes_through_def published_names_def)
  then show ?thesis
    by (intro exI [of _ rules] exI [of _ rs'])
      (simp add: st stateNew_def mapped_decision_def web_defs port_decision_def port_hit_def proto_hit_def
        address_bytes_def local_bindings_def from_host_def from_outside_def outcome_of_def slice_elems_def Let_def)
qed

end
