(* ===== verification/Output_Rules.thy ===== *)
theory Output_Rules
  imports Docker Database
begin

text \<open>
  Rules for the outbound traffic of a container (\<open>create.go\<close>): \<open>populateOutputRules\<close> resolves the containers
  that rules name and records the rules for them, \<open>createOutputRules\<close> and \<open>createWaitingContainerRules\<close>
  generate the rules of the container and those that other containers have recorded for it. The encoding
  of a recorded rule is \<open>encoding/gob\<close>'s, a parameter. Generation runs on the nftables client and on the
  transaction, a pair here; a Go map that only grows is the list of what was put in.
\<close>

section \<open>Two states at once\<close>

definition on_client :: "('c \<Rightarrow> 'c \<times> 'r result) \<Rightarrow> 'c \<times> 't \<Rightarrow> ('c \<times> 't) \<times> 'r result" where
  "on_client f w = (case w of (c, t) \<Rightarrow> (case f c of (c, r) \<Rightarrow> ((c, t), r)))"

definition on_tx :: "('t \<Rightarrow> 't \<times> 'r result) \<Rightarrow> 'c \<times> 't \<Rightarrow> ('c \<times> 't) \<times> 'r result" where
  "on_tx f w = (case w of (c, t) \<Rightarrow> (case f t of (t, r) \<Rightarrow> ((c, t), r)))"

record gob_codec =
  gob_Encode :: "ruleConfig \<Rightarrow> byte list result"
  gob_Decode :: "byte list \<Rightarrow> ruleConfig result"

section \<open>Output rules\<close>

definition getContainerIDAndName :: "string \<Rightarrow> sql_tx \<Rightarrow> sql_tx \<times> (string \<times> string) result" where
  "getContainerIDAndName contName t =
     (case tx_query (GetContainerID contName) t of
        (t, Inr cid) \<Rightarrow> (t, Inr (cid, contName))
      | (t, Inl err) \<Rightarrow>
          if \<not> errors_is err ErrNoRows then (t, Inl (Wrap ''error getting container ID from database'' err))
          else (case tx_query (GetContainerIDAndNameFromAlias contName) t of
              (t, Inl err) \<Rightarrow> (t, Inl (Wrap ''error getting container ID from database'' err))
            | (t, Inr info) \<Rightarrow> (t, Inr (co_ID info, co_Name info))))"

text \<open>The chain of another container, as the rules refer to it.\<close>

definition peer_chain :: "string \<Rightarrow> string \<Rightarrow> nft_chain" where
  "peer_chain name cid = (regular_chain (buildChainName name cid))\<lparr>ch_Type := []\<rparr>"

definition destination :: "ruleConfig \<Rightarrow> sql_tx \<Rightarrow> sql_tx \<times> (string \<times> string) result" where
  "destination cfg t =
     (if r_ResolvedContainerID cfg = [] \<or> r_ResolvedContainerName cfg = []
      then (case getContainerIDAndName (r_Container cfg) t of
          (t, Inl e) \<Rightarrow> (t, Inl (Wrap ''error getting container ID from database'' e))
        | (t, Inr d) \<Rightarrow> (t, Inr d))
      else (t, Inr (r_ResolvedContainerID cfg, r_ResolvedContainerName cfg)))"

definition prefixed_rule :: "string \<Rightarrow> string \<Rightarrow> ruleConfig \<Rightarrow> ruleConfig" where
  "prefixed_rule name cid cfg =
     (if r_LogPrefix cfg \<noteq> [] then cfg\<lparr>r_LogPrefix := formatLogPrefix (r_LogPrefix cfg) name cid\<rparr> else cfg)"

definition outbound_rule :: "ruleConfig \<Rightarrow> byte list \<Rightarrow> nft_chain \<Rightarrow> string \<Rightarrow> ruleDetails" where
  "outbound_rule cfg addr chain cid =
     \<lparr>rd_inbound = False, rd_addr = addr, rd_cfg = cfg, rd_chain = chain, rd_estChain = None, rd_contID = cid, rd_estContID = []\<rparr>"

definition output_rule ::
    "'c firewallClient \<Rightarrow> netipx_lib \<Rightarrow> string \<Rightarrow> (string \<times> byte list) list \<Rightarrow> nft_chain \<Rightarrow> string \<Rightarrow> string \<Rightarrow>
     ruleConfig \<Rightarrow> 'c \<times> sql_tx \<Rightarrow> ('c \<times> sql_tx) \<times> nft_rule list result" where
  "output_rule F L project addrs chain name cid cfg w =
     (let cfg = prefixed_rule name cid cfg in
      if r_Network cfg \<noteq> [] then
        (case findNetwork (r_Network cfg) project addrs of
           None \<Rightarrow> (w, Inl (Msg ''network not found''))
         | Some (_, addr) \<Rightarrow>
             let rule = outbound_rule cfg addr chain cid in
             if r_Container cfg \<noteq> [] then
               if r_skip cfg then (w, Inr [])
               else (case on_tx (destination cfg) w of
                   (w, Inl e) \<Rightarrow> (w, Inl e)
                 | (w, Inr (dstID, dstName)) \<Rightarrow>
                     on_client (firewall_rules F L
                       (rule\<lparr>rd_estChain := Some (peer_chain dstName dstID), rd_contID := dstID, rd_estContID := cid\<rparr>)) w)
             else on_client (firewall_rules F L rule) w)
      else gen_each (\<lambda>networkName. on_client (firewall_rules F L
          (outbound_rule cfg (address_bytes addrs networkName) chain cid))) (sorted_names addrs) w)"

definition createOutputRules ::
    "'c firewallClient \<Rightarrow> netipx_lib \<Rightarrow> ruleConfig list \<Rightarrow> string \<Rightarrow> (string \<times> byte list) list \<Rightarrow> nft_chain \<Rightarrow> string \<Rightarrow> string \<Rightarrow>
     'c \<times> sql_tx \<Rightarrow> ('c \<times> sql_tx) \<times> nft_rule list result" where
  "createOutputRules F L ruleCfgs project addrs chain name cid w =
     gen_each (output_rule F L project addrs chain name cid) ruleCfgs w"

section \<open>Rules that waited for this container\<close>

text \<open>The recorded rules under any of the names, each row once.\<close>

fun collect_rows :: "GetWaitingContainerRulesRow list \<Rightarrow> (string \<times> byte list) list \<Rightarrow>
    (string \<times> byte list) list \<times> GetWaitingContainerRulesRow list" where
  "collect_rows [] seen = (seen, [])"
| "collect_rows (row # rows) seen =
     (let key = (wr_SrcContainerID row, wr_Rule row) in
      if key \<in> set seen then collect_rows rows seen
      else (case collect_rows rows (key # seen) of (seen, fresh) \<Rightarrow> (seen, row # fresh)))"

fun waiting_rows :: "string list \<Rightarrow> (string \<times> byte list) list \<Rightarrow> sql_tx \<Rightarrow> sql_tx \<times> GetWaitingContainerRulesRow list result" where
  "waiting_rows [] seen t = (t, Inr [])"
| "waiting_rows (alias # aliases) seen t =
     (case tx_query (GetWaitingContainerRules alias) t of
        (t, Inl e) \<Rightarrow> (t, Inl (Wrap ''error getting waiting container rules from database'' e))
      | (t, Inr rows) \<Rightarrow>
          (case collect_rows rows seen of (seen, fresh) \<Rightarrow>
             (case waiting_rows aliases seen t of
                (t, Inl e) \<Rightarrow> (t, Inl e)
              | (t, Inr rest) \<Rightarrow> (t, Inr (fresh @ rest)))))"

definition ep_of :: "endpoint option \<Rightarrow> endpoint result" where
  "ep_of e = (case e of None \<Rightarrow> Inl nil_pointer | Some e \<Rightarrow> Inr e)"

text \<open>The source container: enabled, with a valid scope, on the rule's network.\<close>

definition waiting_source :: "docker_client \<Rightarrow> string \<Rightarrow> string \<Rightarrow> (string \<times> endpoint) result" where
  "waiting_source D srcID network =
     (case dk_ContainerInspect D srcID of
        Inl e \<Rightarrow> Inl (Wrap ''error inspecting container'' e)
      | Inr srcCont \<Rightarrow>
     (case ir_Labels srcCont of
        None \<Rightarrow> Inl (Msg ''source container has no configuration'')
      | Some labels \<Rightarrow>
     (case ir_NetworkSettings srcCont of
        None \<Rightarrow> Inl (Msg ''source container has no network settings'')
      | Some ns \<Rightarrow>
     if whalewallEnabled labels \<noteq> Inr True then Inl (Msg ''source container no longer has a valid enabled Whalewall policy'')
     else let srcProject = label labels composeProjectLabel in
     (case snd (resolveValidManagedNetworks labels srcProject (ns_Networks ns)) of
        Inl e \<Rightarrow> Inl (Wrap ''source container has invalid managed network scope'' e)
      | Inr managed \<Rightarrow>
     (case findNetwork network srcProject managed of
        None \<Rightarrow> Inl (Msg ''managed network not found for container'')
      | Some (srcNetName, srcNetwork) \<Rightarrow>
     (case ep_of srcNetwork of
        Inl e \<Rightarrow> Inl e
      | Inr ep \<Rightarrow>
          if \<not> addr_IsValid (ep_IPAddress ep) \<or> \<not> addr_Is4 (ep_IPAddress ep) then Inl (Msg ''container has an invalid IPv4 address'')
          else Inr (srcNetName, ep)))))))"

text \<open>What becomes of one recorded rule: it is passed over, or it is generated with both addresses.\<close>

definition waiting_rule ::
    "docker_client \<Rightarrow> gob_codec \<Rightarrow> string \<Rightarrow> string \<Rightarrow> networks \<Rightarrow> nft_chain \<Rightarrow> GetWaitingContainerRulesRow \<Rightarrow> ruleDetails option result" where
  "waiting_rule D G cid project networks chain row =
     (case gob_Decode G (wr_Rule row) of
        Inl e \<Rightarrow> Inl (Wrap ''error decoding waiting container rule'' e)
      | Inr cfg \<Rightarrow>
     (case validateRule cfg of
        Some e \<Rightarrow> Inl (Wrap ''invalid waiting container rule'' e)
      | None \<Rightarrow>
     if r_IdentityVersion cfg = 0 \<and> r_ResolvedContainerID cfg = [] \<and> r_SourceProject cfg = [] \<and> r_NetworkID cfg = []
     then Inr None
     else let exactDestination = r_ResolvedContainerID cfg \<noteq> [] in
     if exactDestination \<and> r_ResolvedContainerID cfg \<noteq> cid then Inr None
     else if \<not> exactDestination \<and> r_SourceProject cfg \<noteq> [] \<and> project \<noteq> r_SourceProject cfg then Inr None
     else
     (case findNetwork (r_Network cfg) project networks of
        None \<Rightarrow>
          if exactDestination \<or> r_SourceProject cfg = project then Inl (Msg ''destination container does not manage Docker network'')
          else Inr None
      | Some (dstNetName, dstNetwork) \<Rightarrow>
     (case (if r_NetworkID cfg = [] then Inr None
            else (case ep_of dstNetwork of
              Inl e \<Rightarrow> Inl e
            | Inr ep \<Rightarrow> Inr (Some (ep_NetworkID ep \<noteq> [] \<and> r_NetworkID cfg \<noteq> ep_NetworkID ep)))) of
        Inl e \<Rightarrow> Inl e
      | Inr moved \<Rightarrow>
     if moved = Some True then
       (if exactDestination then Inl (Msg ''destination container moved to a different Docker network'') else Inr None)
     else
     (case waiting_source D (wr_SrcContainerID row) (r_Network cfg) of
        Inl e \<Rightarrow> Inl e
      | Inr (srcNetName, srcEp) \<Rightarrow>
     if \<not> sameDockerNetwork srcNetName (Some srcEp) dstNetName dstNetwork then
       (if exactDestination then Inl (Msg ''source container and destination container do not share Docker network'') else Inr None)
     else
     (case ep_of dstNetwork of
        Inl e \<Rightarrow> Inl e
      | Inr dstEp \<Rightarrow>
     if \<not> addr_IsValid (ep_IPAddress dstEp) \<or> \<not> addr_Is4 (ep_IPAddress dstEp) then Inl (Msg ''invalid IPv4 address on network'')
     else
     (case addr_As4 (ep_IPAddress srcEp) of
        Inl e \<Rightarrow> Inl e
      | Inr srcAddr \<Rightarrow>
          Inr (Some \<lparr>rd_inbound = False, rd_addr = srcAddr, rd_cfg = cfg\<lparr>r_IPs := Some [aor_of_addr (ep_IPAddress dstEp)]\<rparr>,
            rd_chain = peer_chain (wr_Name row) (wr_SrcContainerID row), rd_estChain = Some chain,
            rd_contID = cid, rd_estContID = wr_SrcContainerID row\<rparr>))))))))"

text \<open>The loop over the rows; \<open>estContainers\<close> gathers the sources.\<close>

fun waiting_rules ::
    "'c firewallClient \<Rightarrow> netipx_lib \<Rightarrow> docker_client \<Rightarrow> gob_codec \<Rightarrow> string \<Rightarrow> string \<Rightarrow> networks \<Rightarrow> nft_chain \<Rightarrow>
     GetWaitingContainerRulesRow list \<Rightarrow> 'c \<Rightarrow> 'c \<times> (nft_rule list \<times> string list) result" where
  "waiting_rules F L D G cid project networks chain [] c = (c, Inr ([], []))"
| "waiting_rules F L D G cid project networks chain (row # rows) c =
     (case waiting_rule D G cid project networks chain row of
        Inl e \<Rightarrow> (c, Inl e)
      | Inr None \<Rightarrow> waiting_rules F L D G cid project networks chain rows c
      | Inr (Some rd) \<Rightarrow>
          (case firewall_rules F L rd c of
             (c, Inl e) \<Rightarrow> (c, Inl e)
           | (c, Inr rules) \<Rightarrow>
               (case waiting_rules F L D G cid project networks chain rows c of
                  (c, Inl e) \<Rightarrow> (c, Inl e)
                | (c, Inr (rest, est)) \<Rightarrow> (c, Inr (rules @ rest, wr_SrcContainerID row # est)))))"

definition createWaitingContainerRules ::
    "'c firewallClient \<Rightarrow> netipx_lib \<Rightarrow> docker_client \<Rightarrow> gob_codec \<Rightarrow> string \<Rightarrow> string \<Rightarrow> string \<Rightarrow> string \<Rightarrow> networks \<Rightarrow> nft_chain \<Rightarrow>
     'c \<times> sql_tx \<Rightarrow> ('c \<times> sql_tx) \<times> (nft_rule list \<times> string list) result" where
  "createWaitingContainerRules F L D G cid name service project networks chain w =
     (case on_tx (waiting_rows ([name] @ containerAliases name service) []) w of
        (w, Inl e) \<Rightarrow> (w, Inl e)
      | (w, Inr rows) \<Rightarrow>
          if rows = [] then (w, Inr ([], []))
          else on_client (waiting_rules F L D G cid project networks chain rows) w)"

end
