(* ===== verification/Destinations.thy ===== *)
theory Destinations
  imports Output_Rules
begin

text \<open>
  Resolving the containers that output rules name (\<open>populateOutputRules\<close> in \<open>create.go\<close>). A name is matched
  against the running containers; the container must be enabled and share the rule's network with the
  source, and there must be one only. A rule whose destination is not there is passed over for now
  (\<open>skip\<close>), and every rule that names a container is recorded for the destination to pick up. The
  containers inspected so far, the networks they manage and the destinations found are part of the state.
\<close>

section \<open>Candidates\<close>

record resolution =
  ps_tx :: sql_tx
  ps_containers :: "(string \<times> inspectResponse) list"
  ps_networks :: "(string \<times> networks) list"
  ps_est :: "string list"

record candidate =
  cd_container :: inspectResponse
  cd_network :: "endpoint option"
  cd_netName :: string
  cd_rank :: int

text \<open>The containers whose names match best.\<close>

fun best_matches :: "string \<Rightarrow> string \<Rightarrow> summary list \<Rightarrow> int \<times> summary list \<Rightarrow> int \<times> summary list" where
  "best_matches expected project [] best = best"
| "best_matches expected project (l # ls) (bestNameRank, bestNameMatches) =
     (let rank = containerNameMatchRank expected project (su_Labels l) (su_Names l) in
      if rank = 0 \<or> rank < bestNameRank then best_matches expected project ls (bestNameRank, bestNameMatches)
      else if rank > bestNameRank then best_matches expected project ls (rank, [l])
      else best_matches expected project ls (bestNameRank, bestNameMatches @ [l]))"

text \<open>Inspecting a matching container for the first time: nothing if it has gone or does not run.\<close>

definition inspect_destination :: "docker_client \<Rightarrow> string \<Rightarrow> (inspectResponse \<times> networks) option result" where
  "inspect_destination D cid =
     (case dk_ContainerInspect D cid of
        Inl inspectErr \<Rightarrow>
          if dk_IsNotFound D inspectErr then Inr None else Inl (Wrap ''error inspecting container'' inspectErr)
      | Inr cont \<Rightarrow>
     if ir_Running cont = Some False then Inr None
     else
     (case ir_Labels cont of
        None \<Rightarrow> Inl (Msg ''container has no configuration'')
      | Some labels \<Rightarrow>
     (case ir_NetworkSettings cont of
        None \<Rightarrow> Inl (Msg ''container has no network settings'')
      | Some ns \<Rightarrow>
     (case whalewallEnabled labels of
        Inl e \<Rightarrow> Inl (Wrap ''error parsing container label'' e)
      | Inr False \<Rightarrow> Inl (Msg ''container does not have whalewall enabled'')
      | Inr True \<Rightarrow>
     (case snd (resolveValidManagedNetworks labels (label labels composeProjectLabel) (ns_Networks ns)) of
        Inl e \<Rightarrow> Inl (Wrap ''container has invalid managed network scope'' e)
      | Inr managed \<Rightarrow> Inr (Some (cont, managed)))))))"

definition known_destination :: "docker_client \<Rightarrow> string \<Rightarrow> resolution \<Rightarrow> (resolution \<times> (inspectResponse \<times> networks) option) result" where
  "known_destination D cid st =
     (case map_of (ps_containers st) cid of
        Some cont \<Rightarrow> Inr (st, Some (cont, case map_of (ps_networks st) cid of Some ns \<Rightarrow> ns | None \<Rightarrow> []))
      | None \<Rightarrow>
          (case inspect_destination D cid of
             Inl e \<Rightarrow> Inl e
           | Inr None \<Rightarrow> Inr (st, None)
           | Inr (Some (cont, managed)) \<Rightarrow>
               Inr (st\<lparr>ps_containers := AList.update cid cont (ps_containers st),
                       ps_networks := AList.update cid managed (ps_networks st)\<rparr>, Some (cont, managed))))"

text \<open>The loop over the best matches: how many of them still count, how many do not manage the network
  they are attached to, and the candidates.\<close>

record tally =
  ta_nameMatches :: nat
  ta_unmanaged :: nat
  ta_candidates :: "candidate list"

fun gather_candidates ::
    "docker_client \<Rightarrow> string \<Rightarrow> (string \<times> endpoint option) option \<Rightarrow> int \<Rightarrow> summary list \<Rightarrow> resolution \<Rightarrow> tally \<Rightarrow>
     (resolution \<times> tally) result" where
  "gather_candidates D network src rank [] st ta = Inr (st, ta)"
| "gather_candidates D network src rank (l # ls) st ta =
     (case known_destination D (su_ID l) st of
        Inl e \<Rightarrow> Inl e
      | Inr (st, None) \<Rightarrow> gather_candidates D network src rank ls st (ta\<lparr>ta_nameMatches := ta_nameMatches ta - 1\<rparr>)
      | Inr (st, Some (cont, managed)) \<Rightarrow>
     (case (ir_Labels cont, ir_NetworkSettings cont) of
        (Some labels, Some ns) \<Rightarrow>
          let dstProject = label labels composeProjectLabel in
          if findNetwork network dstProject (ns_Networks ns) = None then gather_candidates D network src rank ls st ta
          else
          (case findNetwork network dstProject managed of
             None \<Rightarrow> gather_candidates D network src rank ls st (ta\<lparr>ta_unmanaged := ta_unmanaged ta + 1\<rparr>)
           | Some (dstNetName, dstNetwork) \<Rightarrow>
          if \<not> (case src of Some (srcNetName, srcNetwork) \<Rightarrow> sameDockerNetwork srcNetName srcNetwork dstNetName dstNetwork
                | None \<Rightarrow> False)
          then gather_candidates D network src rank ls st ta
          else gather_candidates D network src rank ls st (ta\<lparr>ta_candidates := ta_candidates ta @
            [\<lparr>cd_container = cont, cd_network = dstNetwork, cd_netName = dstNetName, cd_rank = rank\<rparr>]\<rparr>))
      | _ \<Rightarrow> Inl nil_pointer))"

text \<open>The choice among the candidates.\<close>

definition choose_candidate :: "tally \<Rightarrow> candidate option result" where
  "choose_candidate ta =
     (let candidates = ta_candidates ta in
      if candidates = [] \<and> ta_unmanaged ta \<noteq> 0 then Inl (Msg ''container does not manage Docker network'')
      else if candidates = [] \<and> ta_nameMatches ta \<noteq> 0 then Inl (Msg ''container does not share Docker network with the source container'')
      else if candidates \<noteq> [] then
        (let bestRank = Max (set (map cd_rank candidates));
             best = filter (\<lambda>c. cd_rank c = bestRank) candidates
         in if length best \<noteq> 1 then Inl (Msg ''container is ambiguous'') else Inr (Some (hd best)))
      else Inr None)"

section \<open>One rule\<close>

text \<open>The rule as it is recorded carries the identity of source, network and destination; the rule as it
  is generated also has the address, or is passed over.\<close>

definition identified :: "string \<Rightarrow> (string \<times> endpoint option) option \<Rightarrow> ruleConfig \<Rightarrow> ruleConfig" where
  "identified project src cfg =
     (let cfg = cfg\<lparr>r_IdentityVersion := 1, r_SourceProject := project\<rparr> in
      case src of Some (_, Some ep) \<Rightarrow> cfg\<lparr>r_NetworkID := ep_NetworkID ep\<rparr> | _ \<Rightarrow> cfg)"

definition record_rule :: "gob_codec \<Rightarrow> string \<Rightarrow> ruleConfig \<Rightarrow> sql_tx \<Rightarrow> sql_tx \<times> error option" where
  "record_rule G cid cfg t =
     (case gob_Encode G cfg of
        Inl e \<Rightarrow> (t, Some (Wrap ''error encoding waiting container rule'' e))
      | Inr buf \<Rightarrow>
          wrap_step ''error adding waiting container rule to database''
            (tx_exec (AddWaitingContainerRule cid (r_Container cfg) buf)) t)"

text \<open>The chosen candidate: \<open>Inr (recorded, generated, found)\<close>.\<close>

definition select_destination :: "candidate \<Rightarrow> ruleConfig \<Rightarrow> sql_tx \<Rightarrow> sql_tx \<times> (ruleConfig \<times> ruleConfig \<times> string list) result" where
  "select_destination selected cfg t =
     (let cid = ir_ID (cd_container selected);
          cfg = cfg\<lparr>r_ResolvedContainerID := cid, r_ResolvedContainerName := stripName (ir_Name (cd_container selected))\<rparr>
      in case containerExists tx_query cid t of
        (t, Inl e) \<Rightarrow> (t, Inl (Wrap ''error querying container from database'' e))
      | (t, Inr False) \<Rightarrow> (t, Inr (cfg, cfg\<lparr>r_skip := True\<rparr>, []))
      | (t, Inr True) \<Rightarrow>
          (case ep_of (cd_network selected) of
             Inl e \<Rightarrow> (t, Inl e)
           | Inr ep \<Rightarrow>
               if \<not> addr_IsValid (ep_IPAddress ep) \<or> \<not> addr_Is4 (ep_IPAddress ep)
               then (t, Inl (Msg ''container has an invalid IPv4 address on network''))
               else (t, Inr (cfg, cfg\<lparr>r_IPs := Some [aor_of_addr (ep_IPAddress ep)]\<rparr>, [cid]))))"

definition resolve_container ::
    "docker_client \<Rightarrow> gob_codec \<Rightarrow> summary list \<Rightarrow> string \<Rightarrow> string \<Rightarrow> (string \<times> endpoint option) option \<Rightarrow>
     ruleConfig \<Rightarrow> resolution \<Rightarrow> resolution \<times> ruleConfig result" where
  "resolve_container D G listedConts cid project src cfg st =
     (let cfg = identified project src cfg;
          (bestNameRank, bestNameMatches) = best_matches (r_Container cfg) project listedConts (0, [])
      in case gather_candidates D (r_Network cfg) src bestNameRank bestNameMatches st
            \<lparr>ta_nameMatches = length bestNameMatches, ta_unmanaged = 0, ta_candidates = []\<rparr> of
        Inl e \<Rightarrow> (st, Inl e)
      | Inr (st, ta) \<Rightarrow>
     (case choose_candidate ta of
        Inl e \<Rightarrow> (st, Inl e)
      | Inr choice \<Rightarrow>
     (case (case choice of None \<Rightarrow> (ps_tx st, Inr (cfg, cfg\<lparr>r_skip := True\<rparr>, []))
                         | Some selected \<Rightarrow> select_destination selected cfg (ps_tx st)) of
        (t, Inl e) \<Rightarrow> (st\<lparr>ps_tx := t\<rparr>, Inl e)
      | (t, Inr (recorded, generated, found)) \<Rightarrow>
     (case record_rule G cid recorded t of
        (t, Some e) \<Rightarrow> (st\<lparr>ps_tx := t\<rparr>, Inl e)
      | (t, None) \<Rightarrow> (st\<lparr>ps_tx := t, ps_est := ps_est st @ found\<rparr>, Inr generated)))))"

definition populate_rule ::
    "docker_client \<Rightarrow> gob_codec \<Rightarrow> summary list \<Rightarrow> string \<Rightarrow> string \<Rightarrow> networks \<Rightarrow> ruleConfig \<Rightarrow> resolution \<Rightarrow> resolution \<times> ruleConfig result" where
  "populate_rule D G listedConts cid project networks cfg st =
     (let src = (if r_Network cfg \<noteq> [] then findNetwork (r_Network cfg) project networks else None) in
      if r_Network cfg \<noteq> [] \<and> src = None then (st, Inl (Msg ''output rule: network not found''))
      else if r_Container cfg \<noteq> [] then resolve_container D G listedConts cid project src cfg st
      else (st, Inr cfg))"

section \<open>All rules\<close>

fun populate_rules ::
    "docker_client \<Rightarrow> gob_codec \<Rightarrow> summary list \<Rightarrow> string \<Rightarrow> string \<Rightarrow> networks \<Rightarrow> ruleConfig list \<Rightarrow> resolution \<Rightarrow>
     resolution \<times> ruleConfig list result" where
  "populate_rules D G listedConts cid project networks [] st = (st, Inr [])"
| "populate_rules D G listedConts cid project networks (cfg # cfgs) st =
     (case populate_rule D G listedConts cid project networks cfg st of
        (st, Inl e) \<Rightarrow> (st, Inl e)
      | (st, Inr cfg) \<Rightarrow>
          (case populate_rules D G listedConts cid project networks cfgs st of
             (st, Inl e) \<Rightarrow> (st, Inl e)
           | (st, Inr cfgs) \<Rightarrow> (st, Inr (cfg # cfgs))))"

text \<open>The rules as resolved, and the containers found.\<close>

definition populateOutputRules ::
    "docker_client \<Rightarrow> gob_codec \<Rightarrow> config \<Rightarrow> string \<Rightarrow> string \<Rightarrow> networks \<Rightarrow> sql_tx \<Rightarrow> sql_tx \<times> (ruleConfig list \<times> string list) result" where
  "populateOutputRules D G cfg cid project networks t =
     (case (if list_ex (\<lambda>r. r_Container r \<noteq> []) (c_Output cfg) then dk_ContainerList D None else Inr []) of
        Inl e \<Rightarrow> (t, Inl (Wrap ''error listing running containers'' e))
      | Inr listedConts \<Rightarrow>
          (case populate_rules D G listedConts cid project networks (c_Output cfg)
              \<lparr>ps_tx = t, ps_containers = [], ps_networks = [], ps_est = []\<rparr> of
             (st, Inl e) \<Rightarrow> (ps_tx st, Inl e)
           | (st, Inr cfgs) \<Rightarrow> (ps_tx st, Inr (cfgs, ps_est st))))"

end
