(* ===== verification/Create.thy ===== *)
theory Create
  imports Port_Mapping Destinations Deletion Address_Policy
begin

text \<open>
  Creating the policy of a container (\<open>createContainerRules\<close> and its helpers in \<open>create.go\<close>): the drop floor
  first, then the addresses and the metadata, then the policy from the container's labels, applied in one
  transaction; whatever fails after the floor ends in the quarantine of the container, or in its deletion
  when a deletion has overtaken it. The nftables client, its libraries, Docker, the gob codec, the YAML
  decoder and the order of Go's maps are gathered in an environment. The errors of the contexts, the cause
  with which the container's context was cancelled and whether the manager is stopping are arguments. The
  mutexes and the logging are not modelled; registering with the container tracker is \<open>Tracker\<close>'s matter.
\<close>

section \<open>The environment\<close>

record 'c environment =
  en_firewall :: "'c firewallClient"
  en_netlink :: netlink_lib
  en_netipx :: netipx_lib
  en_marshal :: marshaller
  en_docker :: docker_client
  en_gob :: gob_codec
  en_yaml :: "string \<Rightarrow> config result"
  en_order :: "string list \<Rightarrow> string list"

record run_context =
  rc_err :: "error option"
  rc_cause :: "error option"
  rc_stopping :: bool
  rc_cleanup :: "error option"

section \<open>Scope\<close>

record managed_scope =
  ms_networks :: networks
  ms_explicit :: bool
  ms_addrs :: "(string \<times> byte list) list"
  ms_err :: "error option"

text \<open>The networks the policy is about. A scope that is malformed falls back to every attached endpoint,
  and is reported after the floor is in place.\<close>

definition container_scope :: "labels \<Rightarrow> string \<Rightarrow> networks \<Rightarrow> managed_scope" where
  "container_scope labels project attached =
     (case resolveManagedNetworks labels project attached of (explicitScope, resolved) \<Rightarrow>
       let scopeErr = (case resolved of
             Inl e \<Rightarrow> Some e
           | Inr policyNetworks \<Rightarrow>
               if explicitScope then
                 (case validateScopedAddressUniqueness policyNetworks attached of
                    Some e \<Rightarrow> Some e
                  | None \<Rightarrow> snd (collectManagedIPv4Addresses policyNetworks))
               else None);
           policyNetworks = (case (scopeErr, resolved) of
               (None, Inr policyNetworks) \<Rightarrow> policyNetworks
             | _ \<Rightarrow> cloneNetworks attached)
       in (case collectManagedIPv4Addresses policyNetworks of (addrs, addressErr) \<Rightarrow>
         let addressErr = (if length policyNetworks = 0
               then errors_join [addressErr, Some (Msg ''container has no managed network endpoints'')] else addressErr)
         in \<lparr>ms_networks = policyNetworks, ms_explicit = explicitScope, ms_addrs = addrs,
             ms_err = errors_join [scopeErr, addressErr]\<rparr>))"

section \<open>Metadata\<close>

text \<open>The addresses in the order in which Go runs over the map, each once.\<close>

definition desired_addresses :: "(string list \<Rightarrow> string list) \<Rightarrow> (string \<times> byte list) list \<Rightarrow> byte list list" where
  "desired_addresses ord addrs = rev (remdups (rev (map (address_bytes addrs) (ord (map fst addrs)))))"

definition reconcileContainerMetadata ::
    "'c environment \<Rightarrow> error option \<Rightarrow> string \<Rightarrow> string \<Rightarrow> string \<Rightarrow> string \<Rightarrow> (string \<times> byte list) list \<Rightarrow>
     'c \<times> sqlite \<Rightarrow> ('c \<times> sqlite) \<times> error option" where
  "reconcileContainerMetadata En ctxErr cid name service chainName addrs w =
     (case w of (c, E) \<Rightarrow>
        (case replaceContainerAddressMappings (en_firewall En) (en_netlink En) (en_order En)
            (map (address_mapping chainName) (desired_addresses (en_order En) addrs)) chainName c of
           (c, Some e) \<Rightarrow> ((c, E), Some e)
         | (c, None) \<Rightarrow>
             (case in_transaction ctxErr (st_seq
                 [replaceContainerMetadata cid name service addrs,
                  wrap_step ''error committing container metadata'' tx_Commit]) E of
                (E, e) \<Rightarrow> ((c, E), e))))"

section \<open>Policy\<close>

definition parse_rules :: "'c environment \<Rightarrow> labels \<Rightarrow> config option result" where
  "parse_rules En labels =
     (case map_of labels rulesLabel of
        None \<Rightarrow> Inr None
      | Some cfg \<Rightarrow>
          (case en_yaml En cfg of
             Inl e \<Rightarrow> Inl (Wrap ''error parsing rules'' e)
           | Inr rulesCfg \<Rightarrow>
               (case normalizeConfig rulesCfg of
                  Inl e \<Rightarrow> Inl (Wrap ''error validating rules'' e)
                | Inr rulesCfg \<Rightarrow> Inr (Some rulesCfg))))"

text \<open>Sequencing with a value: the state of the first step goes to the second, the first error ends it.\<close>

definition bind_step :: "('s \<Rightarrow> 's \<times> 'a result) \<Rightarrow> ('a \<Rightarrow> 's \<Rightarrow> 's \<times> 'b result) \<Rightarrow> 's \<Rightarrow> 's \<times> 'b result" where
  "bind_step f g s = (case f s of (s, Inl e) \<Rightarrow> (s, Inl e) | (s, Inr a) \<Rightarrow> g a s)"

definition unit_step :: "('s \<Rightarrow> 's \<times> error option) \<Rightarrow> 's \<Rightarrow> 's \<times> unit result" where
  "unit_step f s = (case f s of (s, Some e) \<Rightarrow> (s, Inl e) | (s, None) \<Rightarrow> (s, Inr ()))"

text \<open>The rules of the policy, and the containers it is tied to: those that waited for this one, then the
  container's own output rules and published ports.\<close>

definition policy_rules ::
    "'c environment \<Rightarrow> inspectResponse \<Rightarrow> string \<Rightarrow> labels \<Rightarrow> managed_scope \<Rightarrow> nft_chain \<Rightarrow> config option \<Rightarrow>
     'c \<times> sql_tx \<Rightarrow> ('c \<times> sql_tx) \<times> (nft_rule list \<times> string list) result" where
  "policy_rules En container contName labels sc chain rulesCfg =
     (let F = en_firewall En; L = en_netipx En; D = en_docker En; G = en_gob En; cid = ir_ID container;
          project = label labels composeProjectLabel; service = label labels composeServiceLabel
      in bind_step
        (case rulesCfg of
           None \<Rightarrow> (\<lambda>w. (w, Inr ([], [])))
         | Some cfg \<Rightarrow> gen_wrap ''error validating rules'' (on_tx (populateOutputRules D G cfg cid project (ms_networks sc))))
        (\<lambda>(outputCfgs, est). bind_step
          (gen_wrap ''error creating waiting output rules''
            (createWaitingContainerRules F L D G cid contName service project (ms_networks sc) chain))
          (\<lambda>(waitingRules, waitingEst).
            (case rulesCfg of
               None \<Rightarrow> (\<lambda>w. (w, Inr (waitingRules, est @ waitingEst)))
             | Some cfg \<Rightarrow> bind_step
                 (gen_wrap ''error creating output rules''
                   (createOutputRules F L outputCfgs project (ms_addrs sc) chain contName cid))
                 (\<lambda>outputRules. bind_step
                   (gen_wrap ''error creating port mapping rules'' (on_client
                     (createPortMappingRules F L container contName (c_MappedPorts cfg) (ms_networks sc) (ms_addrs sc) chain
                       (ms_explicit sc))))
                   (\<lambda>portMapRules w. (w, Inr (waitingRules @ outputRules @ portMapRules, est @ waitingEst))))))))"

text \<open>Inside the transaction.\<close>

definition apply_policy ::
    "'c environment \<Rightarrow> error option \<Rightarrow> inspectResponse \<Rightarrow> string \<Rightarrow> labels \<Rightarrow> managed_scope \<Rightarrow> nft_chain \<Rightarrow> config option \<Rightarrow>
     'c \<times> sql_tx \<Rightarrow> ('c \<times> sql_tx) \<times> unit result" where
  "apply_policy En ctxErr container contName labels sc chain rulesCfg =
     (let cid = ir_ID container in
      bind_step (on_tx (unit_step (resetContainerPolicy cid)))
        (\<lambda>_. bind_step (policy_rules En container contName labels sc chain rulesCfg)
          (\<lambda>(desiredRules, estContainers). bind_step
            (\<lambda>w. case ctxErr of Some e \<Rightarrow> (w, Inl e) | None \<Rightarrow> (w, Inr ()))
            (\<lambda>_. bind_step
              (gen_wrap ''error replacing container policy'' (on_client (unit_step
                (replaceContainerPolicy (en_firewall En) (en_order En) chain cid desiredRules))))
              (\<lambda>_. gen_wrap ''error finalizing container policy metadata'' (on_tx (unit_step
                (finalizeContainerPolicy cid (en_order En (remdups estContainers))))))))))"

text \<open>A transaction over the client and the database, with the deferred rollback.\<close>

definition with_transaction ::
    "error option \<Rightarrow> ('c \<times> sql_tx \<Rightarrow> ('c \<times> sql_tx) \<times> unit result) \<Rightarrow> 'c \<times> sqlite \<Rightarrow> ('c \<times> sqlite) \<times> error option" where
  "with_transaction ctxErr body w =
     (case w of (c, E) \<Rightarrow>
        (case db_Begin ctxErr E of
           (E, Inl e) \<Rightarrow> ((c, E), Some e)
         | (E, Inr t) \<Rightarrow>
             (case body (c, t) of ((c, t), r) \<Rightarrow>
                ((c, tx_engine (fst (tx_Rollback t))), case r of Inl e \<Rightarrow> Some e | Inr _ \<Rightarrow> None))))"

text \<open>All that happens once the floor is in place.\<close>

definition install_policy ::
    "'c environment \<Rightarrow> error option \<Rightarrow> inspectResponse \<Rightarrow> string \<Rightarrow> labels \<Rightarrow> managed_scope \<Rightarrow> nft_chain \<Rightarrow>
     'c \<times> sqlite \<Rightarrow> ('c \<times> sqlite) \<times> error option" where
  "install_policy En ctxErr container contName labels sc chain =
     st_seq
       [wrap_step ''error persisting fail-closed container metadata''
          (reconcileContainerMetadata En ctxErr (ir_ID container) contName (label labels composeServiceLabel) (ch_Name chain)
            (ms_addrs sc)),
        (\<lambda>w. (w, case ms_err sc of None \<Rightarrow> None | Some e \<Rightarrow> Some (Wrap ''invalid managed network scope'' e))),
        (\<lambda>w. case parse_rules En labels of
            Inl e \<Rightarrow> (w, Some e)
          | Inr rulesCfg \<Rightarrow> with_transaction ctxErr (apply_policy En ctxErr container contName labels sc chain rulesCfg) w)]"

section \<open>Failure\<close>

definition quarantineContainerPolicy ::
    "'c environment \<Rightarrow> error option \<Rightarrow> nft_chain \<Rightarrow> string \<Rightarrow> 'c \<times> sqlite \<Rightarrow> ('c \<times> sqlite) \<times> error option" where
  "quarantineContainerPolicy En ctxErr chain cid w =
     (case w of (c, E) \<Rightarrow>
        (case fc_New (en_firewall En) c of
           (c, Some e) \<Rightarrow> ((c, E), Some (Wrap ''error creating fresh netlink connection for quarantine'' e))
         | (c, None) \<Rightarrow>
             (case replaceContainerPolicy (en_firewall En) (en_order En) chain cid [] c of (c, firewallErr) \<Rightarrow>
                (case clearContainerPolicyMetadata ctxErr cid E of (E, databaseErr) \<Rightarrow>
                   ((c, E), errors_join [firewallErr, databaseErr])))))"

definition and_error :: "error \<Rightarrow> error option \<Rightarrow> error" where
  "and_error retErr err = (case err of None \<Rightarrow> retErr | Some e \<Rightarrow> Joined [retErr, e])"

definition policy_failed ::
    "'c environment \<Rightarrow> run_context \<Rightarrow> nft_chain \<Rightarrow> string \<Rightarrow> string \<Rightarrow> error \<Rightarrow> 'c \<times> sqlite \<Rightarrow> ('c \<times> sqlite) \<times> error option" where
  "policy_failed En rc chain cid contName retErr w =
     (let containerDeleted = (case rc_cause rc of Some e \<Rightarrow> errors_is e ErrContainerDeleted | None \<Rightarrow> False) in
      if rc_stopping rc then (w, Some retErr)
      else if containerDeleted then
        (case deleteContainerRulesUntracked (en_firewall En) (en_netlink En) (rc_cleanup rc) cid contName w of
           (w, err) \<Rightarrow> (w, Some (and_error retErr err)))
      else
        (case quarantineContainerPolicy En (rc_cleanup rc) chain cid w of
           (w, err) \<Rightarrow> (w, Some (and_error retErr err))))"

section \<open>Creation\<close>

definition createContainerRules ::
    "'c environment \<Rightarrow> run_context \<Rightarrow> inspectResponse \<Rightarrow> bool \<Rightarrow> 'c \<times> sqlite \<Rightarrow> ('c \<times> sqlite) \<times> error option" where
  "createContainerRules En rc container quarantineFirst w =
     (let contName = stripName (ir_Name container); F = en_firewall En in
      case ir_NetworkSettings container of
        None \<Rightarrow> (w, Some (Msg ''container has no network settings''))
      | Some ns \<Rightarrow>
      if length (ns_Networks ns) = 1 \<and> map_of (ns_Networks ns) hostNetworkName \<noteq> None
      then (w, Some (Msg ''container is using host networking, rules cannot be created for it''))
      else
      (case ir_Labels container of
        None \<Rightarrow> (w, Some (Msg ''container has no configuration''))
      | Some labels \<Rightarrow>
      let sc = container_scope labels (label labels composeProjectLabel) (ns_Networks ns);
          chain = regular_chain (buildChainName contName (ir_ID container))
      in (case w of (c, E) \<Rightarrow>
        (case fc_New F c of
           (c, Some e) \<Rightarrow> ((c, E), Some (Wrap ''error creating netlink connection'' e))
         | (c, None) \<Rightarrow>
        (case ensureContainerDropPolicy F (en_marshal En) chain (ir_ID container) quarantineFirst c of
           (c, Some e) \<Rightarrow> ((c, E), Some e)
         | (c, None) \<Rightarrow>
        (case install_policy En (rc_err rc) container contName labels sc chain (c, E) of
           (w, None) \<Rightarrow> (w, None)
         | (w, Some retErr) \<Rightarrow> policy_failed En rc chain (ir_ID container) contName retErr w))))))"

text \<open>The worker: requests in order, each answered on the channel of its sender, if it has one.\<close>

record containerDetails =
  cd_request :: inspectResponse
  cd_isNew :: bool
  cd_result :: "nat option"

fun createRules ::
    "'c environment \<Rightarrow> (inspectResponse \<Rightarrow> run_context) \<Rightarrow> containerDetails list \<Rightarrow> 'c \<times> sqlite \<Rightarrow>
     ('c \<times> sqlite) \<times> (nat \<times> error option) list" where
  "createRules En ctx [] w = (w, [])"
| "createRules En ctx (d # ds) w =
     (case createContainerRules En (ctx (cd_request d)) (cd_request d) (cd_isNew d) w of
        (w, err) \<Rightarrow>
          (case createRules En ctx ds w of
             (w, rest) \<Rightarrow> (w, (case cd_result d of None \<Rightarrow> [] | Some ch \<Rightarrow> [(ch, err)]) @ rest)))"

end
