(* ===== verification/Sync.thy ===== *)
theory Sync
  imports Create "HOL-Library.Multiset"
begin

text \<open>
  Bringing the rules in line with the running containers (\<open>sync.go\<close>). One container's errors do not keep
  the others from being treated: they are gathered and joined at the end. Logging is not modelled.
\<close>

section \<open>Synchronisation\<close>

definition composeDependsLabel :: string where "composeDependsLabel = ''com.docker.compose.depends_on''"

definition depends :: "summary \<Rightarrow> bool" where
  "depends c \<longleftrightarrow> map_of (su_Labels c) composeDependsLabel \<noteq> None"

definition compare_summaries :: "summary \<Rightarrow> summary \<Rightarrow> int" where
  "compare_summaries a b =
     (let aHasLabels = depends a; bHasLabels = depends b in
      if aHasLabels = bHasLabels then 0 else if \<not> aHasLabels \<and> bHasLabels then -1 else 1)"

text \<open>\<open>slices.SortFunc\<close> promises an order in which nothing compares greater than what follows, and says
  nothing of the order of equal elements: the sort is a parameter.\<close>

definition sorts :: "('a \<Rightarrow> 'a \<Rightarrow> int) \<Rightarrow> ('a list \<Rightarrow> 'a list) \<Rightarrow> bool" where
  "sorts cmp f \<longleftrightarrow> (\<forall>xs. mset (f xs) = mset xs \<and> sorted_wrt (\<lambda>a b. cmp a b \<le> 0) (f xs))"

text \<open>One container: the errors it adds, or a panic that ends the loop.\<close>

definition sync_container ::
    "'c environment \<Rightarrow> (inspectResponse \<Rightarrow> run_context) \<Rightarrow> (string \<Rightarrow> bool) \<Rightarrow> bool \<Rightarrow> summary \<Rightarrow>
     'c \<times> sqlite \<Rightarrow> ('c \<times> sqlite) \<times> error option list result" where
  "sync_container En ctx start quarantineFirst s w =
     (case dk_ContainerInspect (en_docker En) (su_ID s) of
        Inl e \<Rightarrow> (w, Inr [Some (Wrap ''inspect container'' e)])
      | Inr container \<Rightarrow>
     (case ir_Labels container of
        None \<Rightarrow> (w, Inl nil_pointer)
      | Some labels \<Rightarrow>
          let (enabled, policyContainer, labelErr) =
                (case whalewallEnabled labels of
                   Inl e \<Rightarrow> (True, denyOnlyContainer container, Some (Wrap ''parse label for container'' e))
                 | Inr enabled \<Rightarrow> (enabled, container, None));
              (w, err) =
                (if \<not> enabled then
                   wrap_step ''remove disabled container policy''
                     (deleteContainerRules (en_firewall En) (en_netlink En) (rc_err (ctx container)) start
                       (ir_ID container) (stripName (ir_Name container))) w
                 else wrap_step ''secure container''
                   (createContainerRules En (ctx container) policyContainer quarantineFirst) w)
          in (w, Inr [labelErr, err])))"

fun sync_each ::
    "'c environment \<Rightarrow> (inspectResponse \<Rightarrow> run_context) \<Rightarrow> (string \<Rightarrow> bool) \<Rightarrow> bool \<Rightarrow> summary list \<Rightarrow>
     'c \<times> sqlite \<Rightarrow> ('c \<times> sqlite) \<times> error option list" where
  "sync_each En ctx start quarantineFirst [] w = (w, [])"
| "sync_each En ctx start quarantineFirst (s # ss) w =
     (case sync_container En ctx start quarantineFirst s w of
        (w, Inl panic) \<Rightarrow> (w, [Some panic])
      | (w, Inr errs) \<Rightarrow> (case sync_each En ctx start quarantineFirst ss w of (w, rest) \<Rightarrow> (w, errs @ rest)))"

definition syncContainers ::
    "'c environment \<Rightarrow> (summary list \<Rightarrow> summary list) \<Rightarrow> (inspectResponse \<Rightarrow> run_context) \<Rightarrow> (string \<Rightarrow> bool) \<Rightarrow> bool \<Rightarrow>
     'c \<times> sqlite \<Rightarrow> ('c \<times> sqlite) \<times> error option" where
  "syncContainers En sort_func ctx start quarantineFirst w =
     (case dk_ContainerList (en_docker En) (Some enabledLabel) of
        Inl e \<Rightarrow> (w, Some (Wrap ''error listing containers'' e))
      | Inr containers \<Rightarrow>
          (case sync_each En ctx start quarantineFirst (sort_func containers) w of
             (w, syncErrs) \<Rightarrow> (w, errors_join syncErrs)))"

end
