(* ===== verification/Manager.thy ===== *)
theory Manager
  imports Sync
begin

text \<open>
  The rule manager (\<open>manager.go\<close>): what is asked of the workers for a Docker event, waiting for a deletion,
  the delays between attempts to reach Docker, the check of Docker's firewall backend, reconciliation,
  start-up, the first transaction on the database and its file name. A \<open>select\<close> of Go is the case it takes,
  an argument; the goroutines of the workers, tickers and files are not modelled.
\<close>

section \<open>Docker events\<close>

record message =
  ev_Type :: string
  ev_Action :: string
  ev_ActorID :: string
  ev_Attributes :: labels

text \<open>The constants of the Docker client library.\<close>

definition ContainerEventType :: string where "ContainerEventType = ''container''"
definition NetworkEventType :: string where "NetworkEventType = ''network''"
definition ActionStart :: string where "ActionStart = ''start''"
definition ActionDie :: string where "ActionDie = ''die''"
definition ActionConnect :: string where "ActionConnect = ''connect''"
definition ActionDisconnect :: string where "ActionDisconnect = ''disconnect''"

lemmas event_names = ContainerEventType_def NetworkEventType_def ActionStart_def ActionDie_def ActionConnect_def
  ActionDisconnect_def

text \<open>What is asked of the workers: \<open>createCh\<close> or \<open>deleteCh\<close>, or nothing.\<close>

datatype request = CreateRequest inspectResponse bool | DeleteRequest string string

definition event_container :: "message \<Rightarrow> string option" where
  "event_container msg =
     (if ev_Type msg = ContainerEventType \<and> ev_Action msg = ActionStart
      then (if ev_ActorID msg = [] then None else Some (ev_ActorID msg))
      else if ev_Type msg = NetworkEventType \<and> (ev_Action msg = ActionConnect \<or> ev_Action msg = ActionDisconnect)
      then (if label (ev_Attributes msg) ''container'' = [] then None else Some (label (ev_Attributes msg) ''container''))
      else None)"

definition handleDockerEvent :: "docker_client \<Rightarrow> message \<Rightarrow> request option result" where
  "handleDockerEvent D msg =
     (if ev_Type msg = ContainerEventType \<and> ev_Action msg = ActionDie then
        (if ev_ActorID msg = [] then Inr None
         else Inr (Some (DeleteRequest (ev_ActorID msg) (label (ev_Attributes msg) ''name''))))
      else
      (case event_container msg of
        None \<Rightarrow> Inr None
      | Some containerID \<Rightarrow>
      (case dk_ContainerInspect D containerID of
        Inl e \<Rightarrow> Inr None
      | Inr container \<Rightarrow>
      if ev_Type msg = NetworkEventType \<and> ir_Running container \<noteq> Some True then Inr None
      else
      (case ir_Labels container of
        None \<Rightarrow> Inl nil_pointer
      | Some labels \<Rightarrow>
          (case whalewallEnabled labels of
             Inl e \<Rightarrow> Inr (Some (CreateRequest (denyOnlyContainer container) True))
           | Inr False \<Rightarrow> Inr (Some (DeleteRequest containerID (ir_Name container)))
           | Inr True \<Rightarrow> Inr (Some (CreateRequest container True)))))))"

section \<open>Waiting for a deletion\<close>

text \<open>A channel operation next to the end of the context and of the manager.\<close>

datatype 'a selected = Ready 'a | CtxDone error | Stopping

definition awaitContainerDelete :: "unit selected \<Rightarrow> error option selected \<Rightarrow> error option" where
  "awaitContainerDelete sent answered =
     (case sent of
        CtxDone e \<Rightarrow> Some e
      | Stopping \<Rightarrow> Some ErrCanceled
      | Ready _ \<Rightarrow>
          (case answered of
             Ready err \<Rightarrow> err
           | CtxDone e \<Rightarrow> Some e
           | Stopping \<Rightarrow> Some ErrCanceled))"

section \<open>Reaching Docker\<close>

text \<open>Durations in seconds.\<close>

definition initialReconnectDelay :: nat where "initialReconnectDelay = 1"
definition maximumReconnectDelay :: nat where "maximumReconnectDelay = 30"
definition defaultReconcileInterval :: nat where "defaultReconcileInterval = 30"

definition next_delay :: "nat \<Rightarrow> nat" where
  "next_delay delay = min (delay * 2) maximumReconnectDelay"

text \<open>\<open>Info\<close> reports the driver of the firewall backend, if it reports a backend.\<close>

definition validateDockerFirewallBackend :: "string option result \<Rightarrow> error option" where
  "validateDockerFirewallBackend info =
     (case info of
        Inl e \<Rightarrow> Some (Wrap ''cannot verify Docker firewall backend'' e)
      | Inr None \<Rightarrow> Some (Msg ''Docker did not report its firewall backend'')
      | Inr (Some driver) \<Rightarrow>
          if driver = [] then Some (Msg ''Docker did not report its firewall backend'')
          else if driver \<noteq> ''iptables'' then Some (Msg ''unsupported Docker firewall backend'')
          else None)"

definition waitForReconnect :: "unit selected \<Rightarrow> bool" where
  "waitForReconnect woken = (case woken of Ready _ \<Rightarrow> True | _ \<Rightarrow> False)"

text \<open>One attempt: the errors of \<open>Ping\<close> and \<open>Info\<close>, and how the wait after it ends. The loop gives its result, if
  it has one by the end of the attempts, and the delays it waited for.\<close>

record attempt =
  at_ping :: "error option"
  at_info :: "string option result"
  at_woken :: "unit selected"

fun waitForDocker :: "nat \<Rightarrow> attempt list \<Rightarrow> bool option \<times> nat list" where
  "waitForDocker delay [] = (None, [])"
| "waitForDocker delay (a # as) =
     (if at_ping a = None \<and> validateDockerFirewallBackend (at_info a) = None then (Some True, [])
      else (case at_woken a of
          Ready _ \<Rightarrow> (case waitForDocker (next_delay delay) as of (r, delays) \<Rightarrow> (r, delay # delays))
        | _ \<Rightarrow> (Some False, [delay])))"

definition manager_init :: "error option \<Rightarrow> error option \<Rightarrow> string option result \<Rightarrow> error option" where
  "manager_init newClientErr pingErr info =
     (case newClientErr of
        Some e \<Rightarrow> Some (Wrap ''error creating docker client'' e)
      | None \<Rightarrow>
          (case pingErr of
             Some e \<Rightarrow> Some (Wrap ''error connecting to docker daemon'' e)
           | None \<Rightarrow> validateDockerFirewallBackend info))"

section \<open>Reconciliation\<close>

definition running_of :: "docker_client \<Rightarrow> string \<Rightarrow> bool result" where
  "running_of D cid =
     (case dk_ContainerInspect D cid of
        Inl e \<Rightarrow> Inl e
      | Inr c \<Rightarrow> (case ir_Running c of None \<Rightarrow> Inl nil_pointer | Some running \<Rightarrow> Inr running))"

definition cleanup_and_sync ::
    "'c environment \<Rightarrow> (summary list \<Rightarrow> summary list) \<Rightarrow> error option \<Rightarrow> (inspectResponse \<Rightarrow> run_context) \<Rightarrow> (string \<Rightarrow> bool) \<Rightarrow> bool \<Rightarrow>
     'c \<times> sqlite \<Rightarrow> ('c \<times> sqlite) \<times> error option" where
  "cleanup_and_sync En sort_func ctxErr ctx start quarantineFirst w =
     (case cleanupRules (en_firewall En) (en_netlink En) ctxErr start (running_of (en_docker En)) (dk_IsNotFound (en_docker En)) w of
        (w, cleanupErr) \<Rightarrow>
          (case syncContainers En sort_func ctx start quarantineFirst w of
             (w, syncErr) \<Rightarrow> (w, errors_join [cleanupErr, syncErr])))"

definition reconcile ::
    "'c environment \<Rightarrow> (summary list \<Rightarrow> summary list) \<Rightarrow> error option \<Rightarrow> (inspectResponse \<Rightarrow> run_context) \<Rightarrow> (string \<Rightarrow> bool) \<Rightarrow>
     'c \<times> sqlite \<Rightarrow> ('c \<times> sqlite) \<times> error option" where
  "reconcile En sort_func ctxErr ctx start w =
     (case w of (c, E) \<Rightarrow>
        (case createBaseRules (en_firewall En) (en_netlink En) (en_marshal En) c of
           (c, Some e) \<Rightarrow> ((c, E), Some (Wrap ''error repairing base rules'' e))
         | (c, None) \<Rightarrow> cleanup_and_sync En sort_func ctxErr ctx start False (c, E)))"

text \<open>\<open>Start\<close> up to its goroutines: what cleaning and synchronising report is only logged.\<close>

definition Start ::
    "'c environment \<Rightarrow> error option \<Rightarrow> (summary list \<Rightarrow> summary list) \<Rightarrow> error option \<Rightarrow> (inspectResponse \<Rightarrow> run_context) \<Rightarrow>
     (string \<Rightarrow> bool) \<Rightarrow> 'c \<times> sqlite \<Rightarrow> ('c \<times> sqlite) \<times> error option" where
  "Start En initErr sort_func ctxErr ctx start w =
     (case initErr of
        Some e \<Rightarrow> (w, Some e)
      | None \<Rightarrow>
          (case w of (c, E) \<Rightarrow>
             (case createBaseRules (en_firewall En) (en_netlink En) (en_marshal En) c of
                (c, Some e) \<Rightarrow> ((c, E), Some (Wrap ''error creating base rules'' e))
              | (c, None) \<Rightarrow> (fst (cleanup_and_sync En sort_func ctxErr ctx start True (c, E)), None))))"

section \<open>The database\<close>

definition dummyID :: string where "dummyID = ''dummy_id''"
definition dummyName :: string where "dummyName = ''dummy_name''"

text \<open>The transaction that makes SQLite create its files: a container is added and removed again.\<close>

definition touch_database :: "error option \<Rightarrow> sqlite \<Rightarrow> sqlite \<times> error option" where
  "touch_database ctxErr = in_transaction ctxErr (st_seq
     [wrap_step ''error adding container to database'' (tx_exec (AddContainer dummyID dummyName)),
      wrap_step ''error deleting container in database'' (tx_exec (DeleteContainer dummyID)),
      wrap_step ''error committing database initialization'' tx_Commit])"

text \<open>The name of the database for the driver; \<open>escape\<close> is the path escaping of \<open>net/url\<close>, and the path is absolute.\<close>

definition sqliteDSN :: "(string \<Rightarrow> string) \<Rightarrow> string \<Rightarrow> string" where
  "sqliteDSN escape dbFile =
     ''file://'' @ escape dbFile @ ''?_busy_timeout=1000&_foreign_keys=1&_journal_mode=WAL&_txlock=immediate''"

text \<open>What the files and the driver answer when the database is set up, and what becomes of the connection. The tables
  are empty when the file is missing.
  \<open>su_missing\<close> recognises the error of a missing file.\<close>

record db_setup =
  su_statDir :: "error option"
  su_mkdir :: "error option"
  su_statFile :: "error option"
  su_missing :: "error \<Rightarrow> bool"
  su_open :: "error option"
  su_ping :: "error option"
  su_schema :: "error option"
  su_prepare :: "error option"

datatype db_connection = NeverOpened | Closed | StaysOpen

definition initDB :: "db_setup \<Rightarrow> error option \<Rightarrow> sqlite \<Rightarrow> sqlite \<times> db_connection \<times> error option" where
  "initDB su ctxErr E =
     (let dirErr =
        (case su_statDir su of
           None \<Rightarrow> None
         | Some e \<Rightarrow> if su_missing su e then map_option (Wrap ''error creating data directory'') (su_mkdir su) else Some e);
       dbNotExist = (su_statFile su \<noteq> None)
      in
      if dirErr \<noteq> None then (E, NeverOpened, dirErr)
      else if dbNotExist \<and> \<not> su_missing su (the (su_statFile su)) then (E, NeverOpened, su_statFile su)
      else
      (case su_open su of
         Some e \<Rightarrow> (E, NeverOpened, Some (Wrap ''error opening database'' e))
       | None \<Rightarrow>
      (case su_ping su of
         Some e \<Rightarrow> (E, Closed, Some (Wrap ''error opening SQLite connection'' e))
       | None \<Rightarrow>
      if dbNotExist \<and> su_schema su \<noteq> None
      then (E, Closed, map_option (Wrap ''error creating tables in database'') (su_schema su))
      else
      (case su_prepare su of
         Some e \<Rightarrow> (E, Closed, Some (Wrap ''error preparing database queries'' e))
       | None \<Rightarrow>
      (case touch_database ctxErr E of
         (E, Some e) \<Rightarrow> (E, Closed, Some e)
       | (E, None) \<Rightarrow> (E, StaysOpen, None))))))"

text \<open>No connection is left open when the set-up fails.\<close>

lemma initDB_closes: "initDB su ctxErr E = (E', conn, err) \<Longrightarrow> (err = None \<longleftrightarrow> conn = StaysOpen)"
  by (auto simp: initDB_def Let_def split: if_splits option.splits prod.splits) metis+

end
