(* ===== verification/Events.thy ===== *)
theory Events
  imports Manager
begin

text \<open>
  The dispatcher of Docker events (\<open>events.go\<close>). Every container has a lane, a goroutine with a bounded
  channel; \<open>watchDocker\<close> owns the lanes: it sends, reaps idle lanes and closes them at the end. The
  owner's and the lanes' atomic actions are the steps of a relation; the counters \<open>pending\<close> and \<open>activeN\<close>
  are decremented one after the other, as in the code. Two ghost components record which events have been
  accepted and which a lane has taken up, in order. Looking at the lanes one by one, \<open>reapIdle\<close> may meet
  every subset of the idle ones, so that a step reaps a single lane.
\<close>

section \<open>State and operations\<close>

definition dockerEventLaneDepth :: nat where "dockerEventLaneDepth = 16"

definition dockerEventContainerID :: "message \<Rightarrow> string" where
  "dockerEventContainerID msg =
     (if ev_Type msg = ContainerEventType \<and> (ev_Action msg = ActionStart \<or> ev_Action msg = ActionDie)
      then ev_ActorID msg
      else if ev_Type msg = NetworkEventType \<and> (ev_Action msg = ActionConnect \<or> ev_Action msg = ActionDisconnect)
      then label (ev_Attributes msg) ''container''
      else [])"

text \<open>Where the goroutine of a lane is: at its channel, in the handler, between the two decrements, or
  done.\<close>

datatype lane_phase = Receiving | Handling message | Settling | Exited

record lane =
  ln_id :: string
  ln_events :: "message list"
  ln_pending :: nat
  ln_phase :: lane_phase
  ln_closed :: bool

datatype owner = Watching | Sending nat message | Returning | Stopped

record dispatcher =
  ds_lanes :: "string \<Rightarrow> nat option"
  ds_store :: "lane list"
  ds_active :: nat
  ds_owner :: owner
  ds_accepted :: "message list"
  ds_started :: "message list"

definition newDockerEventDispatcher :: dispatcher where
  "newDockerEventDispatcher = \<lparr>ds_lanes = (\<lambda>_. None), ds_store = [], ds_active = 0, ds_owner = Watching,
     ds_accepted = [], ds_started = []\<rparr>"

definition update_lane :: "nat \<Rightarrow> (lane \<Rightarrow> lane) \<Rightarrow> dispatcher \<Rightarrow> dispatcher" where
  "update_lane a f ds = ds\<lparr>ds_store := (ds_store ds)[a := f (ds_store ds ! a)]\<rparr>"

text \<open>\<open>dispatch\<close>: the lane is found or made and counted before the channel takes the event; or nobody takes
  it and \<open>dispatch\<close> returns false, whereupon the owner returns.\<close>

definition open_lane :: "string \<Rightarrow> dispatcher \<Rightarrow> dispatcher \<times> nat" where
  "open_lane containerID ds =
     (case ds_lanes ds containerID of
        Some a \<Rightarrow> (ds, a)
      | None \<Rightarrow>
          let a = length (ds_store ds);
              lane = \<lparr>ln_id = containerID, ln_events = [], ln_pending = 0, ln_phase = Receiving, ln_closed = False\<rparr>
          in (ds\<lparr>ds_lanes := (ds_lanes ds)(containerID \<mapsto> a), ds_store := ds_store ds @ [lane]\<rparr>, a))"

definition dispatch :: "message \<Rightarrow> dispatcher \<Rightarrow> dispatcher" where
  "dispatch msg ds =
     (if dockerEventContainerID msg = [] then ds
      else (case open_lane (dockerEventContainerID msg) ds of (ds, a) \<Rightarrow>
        (update_lane a (\<lambda>l. l\<lparr>ln_pending := ln_pending l + 1\<rparr>) ds)\<lparr>ds_active := ds_active ds + 1, ds_owner := Sending a msg\<rparr>))"

definition accept_event :: "nat \<Rightarrow> message \<Rightarrow> dispatcher \<Rightarrow> dispatcher" where
  "accept_event a msg ds =
     (update_lane a (\<lambda>l. l\<lparr>ln_events := ln_events l @ [msg]\<rparr>) ds)\<lparr>ds_owner := Watching, ds_accepted := ds_accepted ds @ [msg]\<rparr>"

definition refuse_event :: "nat \<Rightarrow> dispatcher \<Rightarrow> dispatcher" where
  "refuse_event a ds =
     (update_lane a (\<lambda>l. l\<lparr>ln_pending := ln_pending l - 1\<rparr>) ds)\<lparr>ds_active := ds_active ds - 1, ds_owner := Returning\<rparr>"

definition close_lane :: "string \<Rightarrow> nat \<Rightarrow> dispatcher \<Rightarrow> dispatcher" where
  "close_lane containerID a ds =
     (update_lane a (\<lambda>l. l\<lparr>ln_closed := True\<rparr>) ds)\<lparr>ds_lanes := (ds_lanes ds)(containerID := None)\<rparr>"

definition active :: "dispatcher \<Rightarrow> bool" where
  "active ds \<longleftrightarrow> ds_active ds \<noteq> 0"

text \<open>The goroutine of a lane.\<close>

definition receive_event :: "nat \<Rightarrow> dispatcher \<Rightarrow> dispatcher" where
  "receive_event a ds =
     (let msg = hd (ln_events (ds_store ds ! a)) in
      (update_lane a (\<lambda>l. l\<lparr>ln_events := tl (ln_events l), ln_phase := Handling msg\<rparr>) ds)\<lparr>ds_started := ds_started ds @ [msg]\<rparr>)"

definition finish_event :: "nat \<Rightarrow> dispatcher \<Rightarrow> dispatcher" where
  "finish_event a = update_lane a (\<lambda>l. l\<lparr>ln_pending := ln_pending l - 1, ln_phase := Settling\<rparr>)"

definition settle_event :: "nat \<Rightarrow> dispatcher \<Rightarrow> dispatcher" where
  "settle_event a ds = (update_lane a (\<lambda>l. l\<lparr>ln_phase := Receiving\<rparr>) ds)\<lparr>ds_active := ds_active ds - 1\<rparr>"

definition exit_lane :: "nat \<Rightarrow> dispatcher \<Rightarrow> dispatcher" where
  "exit_lane a = update_lane a (\<lambda>l. l\<lparr>ln_phase := Exited\<rparr>)"

section \<open>Steps\<close>

definition lane_at :: "dispatcher \<Rightarrow> nat \<Rightarrow> lane \<Rightarrow> bool" where
  "lane_at ds a l \<longleftrightarrow> a < length (ds_store ds) \<and> l = ds_store ds ! a"

inductive lane_step :: "dispatcher \<Rightarrow> dispatcher \<Rightarrow> bool" where
  receive: "lane_at ds a l \<Longrightarrow> ln_phase l = Receiving \<Longrightarrow> ln_events l \<noteq> [] \<Longrightarrow> lane_step ds (receive_event a ds)"
| finish: "lane_at ds a l \<Longrightarrow> ln_phase l = Handling msg \<Longrightarrow> lane_step ds (finish_event a ds)"
| settle: "lane_at ds a l \<Longrightarrow> ln_phase l = Settling \<Longrightarrow> lane_step ds (settle_event a ds)"
| exit: "lane_at ds a l \<Longrightarrow> ln_phase l = Receiving \<Longrightarrow> ln_events l = [] \<Longrightarrow> ln_closed l \<Longrightarrow> lane_step ds (exit_lane a ds)"

inductive owner_step :: "dispatcher \<Rightarrow> dispatcher \<Rightarrow> bool" where
  dispatch: "ds_owner ds = Watching \<Longrightarrow> owner_step ds (dispatch msg ds)"
| reap: "ds_owner ds = Watching \<Longrightarrow> ds_lanes ds containerID = Some a \<Longrightarrow> ln_pending (ds_store ds ! a) = 0 \<Longrightarrow>
    owner_step ds (close_lane containerID a ds)"
| accept: "ds_owner ds = Sending a msg \<Longrightarrow> length (ln_events (ds_store ds ! a)) < dockerEventLaneDepth \<Longrightarrow>
    owner_step ds (accept_event a msg ds)"
| refuse: "ds_owner ds = Sending a msg \<Longrightarrow> owner_step ds (refuse_event a ds)"
| return: "ds_owner ds = Watching \<Longrightarrow> owner_step ds (ds\<lparr>ds_owner := Returning\<rparr>)"
| close: "ds_owner ds = Returning \<Longrightarrow> ds_lanes ds containerID = Some a \<Longrightarrow> owner_step ds (close_lane containerID a ds)"
| stop: "ds_owner ds = Returning \<Longrightarrow> ds_lanes ds = (\<lambda>_. None) \<Longrightarrow> list_all (\<lambda>l. ln_phase l = Exited) (ds_store ds) \<Longrightarrow>
    owner_step ds (ds\<lparr>ds_owner := Stopped\<rparr>)"

inductive events_reachable :: "dispatcher \<Rightarrow> bool" where
  init: "events_reachable newDockerEventDispatcher"
| owner: "events_reachable ds \<Longrightarrow> owner_step ds ds' \<Longrightarrow> events_reachable ds'"
| lane: "events_reachable ds \<Longrightarrow> lane_step ds ds' \<Longrightarrow> events_reachable ds'"

section \<open>The invariant\<close>

definition is_handling :: "lane \<Rightarrow> bool" where
  "is_handling l \<longleftrightarrow> (\<exists>m. ln_phase l = Handling m)"

definition sending :: "dispatcher \<Rightarrow> nat \<Rightarrow> nat" where
  "sending ds a = (case ds_owner ds of Sending b m \<Rightarrow> if b = a then 1 else 0 | _ \<Rightarrow> 0)"

definition lane_load :: "lane \<Rightarrow> nat" where
  "lane_load l = ln_pending l + (if ln_phase l = Settling then 1 else 0)"

text \<open>A lane counts its queue, the event it handles and the one it is being sent.\<close>

definition lane_ok :: "dispatcher \<Rightarrow> nat \<Rightarrow> lane \<Rightarrow> bool" where
  "lane_ok ds a l \<longleftrightarrow>
     ln_pending l = length (ln_events l) + (if is_handling l then 1 else 0) + sending ds a \<and>
     length (ln_events l) \<le> dockerEventLaneDepth \<and>
     (\<forall>m \<in> set (ln_events l). dockerEventContainerID m = ln_id l) \<and>
     (ln_phase l = Exited \<longrightarrow> ln_closed l \<and> ln_events l = []) \<and>
     (\<not> ln_closed l \<longrightarrow> ds_lanes ds (ln_id l) = Some a)"

definition lanes_ok :: "dispatcher \<Rightarrow> bool" where
  "lanes_ok ds \<longleftrightarrow> (\<forall>a < length (ds_store ds). lane_ok ds a (ds_store ds ! a))"

text \<open>The map holds the lanes that are open; an older lane of a container is closed and has nothing to do, and
  so has every closed lane until the owner returns.\<close>

definition draining :: "dispatcher \<Rightarrow> bool" where
  "draining ds \<longleftrightarrow> ds_owner ds = Returning \<or> ds_owner ds = Stopped"

definition map_lanes_ok :: "dispatcher \<Rightarrow> bool" where
  "map_lanes_ok ds \<longleftrightarrow>
     (\<forall>c a. ds_lanes ds c = Some a \<longrightarrow> a < length (ds_store ds) \<and> ln_id (ds_store ds ! a) = c \<and> \<not> ln_closed (ds_store ds ! a)) \<and>
     (\<forall>a b. a < b \<longrightarrow> b < length (ds_store ds) \<longrightarrow> ln_id (ds_store ds ! a) = ln_id (ds_store ds ! b) \<longrightarrow>
        ln_closed (ds_store ds ! a) \<and> ln_events (ds_store ds ! a) = [] \<and> \<not> is_handling (ds_store ds ! a)) \<and>
     (\<forall>a m. ds_owner ds = Sending a m \<longrightarrow>
        ds_lanes ds (dockerEventContainerID m) = Some a \<and> dockerEventContainerID m \<noteq> []) \<and>
     (\<forall>a < length (ds_store ds). ln_closed (ds_store ds ! a) \<longrightarrow> \<not> draining ds \<longrightarrow>
        ln_events (ds_store ds ! a) = [] \<and> \<not> is_handling (ds_store ds ! a))"

definition of_container :: "string \<Rightarrow> message list \<Rightarrow> message list" where
  "of_container c ms = filter (\<lambda>m. dockerEventContainerID m = c) ms"

definition queued :: "string \<Rightarrow> lane list \<Rightarrow> message list" where
  "queued c lanes = concat (map ln_events (filter (\<lambda>l. ln_id l = c) lanes))"

definition order_ok :: "dispatcher \<Rightarrow> bool" where
  "order_ok ds \<longleftrightarrow> (\<forall>c. of_container c (ds_started ds) @ queued c (ds_store ds) = of_container c (ds_accepted ds))"

definition count_ok :: "dispatcher \<Rightarrow> bool" where
  "count_ok ds \<longleftrightarrow> ds_active ds = sum_list (map lane_load (ds_store ds))"

definition events_inv :: "dispatcher \<Rightarrow> bool" where
  "events_inv ds \<longleftrightarrow> lanes_ok ds \<and> map_lanes_ok ds \<and> order_ok ds \<and> count_ok ds"

end
