(* ===== verification/Events_Correct.thy ===== *)
theory Events_Correct
  imports Events
begin

text \<open>
  What the event dispatcher guarantees: the invariant of \<open>Events\<close> is kept by every step, and from it the
  order of the events of a container, the exclusion of its handlers, the bound on its queue and the end
  of the draining at shutdown are read off.
\<close>

section \<open>Lists of lanes\<close>

lemma queued_split:
  "a < length xs \<Longrightarrow> queued c xs = queued c (take a xs) @ (if ln_id (xs ! a) = c then ln_events (xs ! a) else []) @ queued c (drop (Suc a) xs)"
  unfolding queued_def by (subst id_take_nth_drop [of a xs]) auto

lemma queued_update:
  "a < length xs \<Longrightarrow> queued c (xs[a := l]) = queued c (take a xs) @ (if ln_id l = c then ln_events l else []) @ queued c (drop (Suc a) xs)"
  unfolding queued_def by (subst upd_conv_take_nth_drop) auto

lemma queued_same:
  "a < length xs \<Longrightarrow> ln_id l = ln_id (xs ! a) \<Longrightarrow> ln_events l = ln_events (xs ! a) \<Longrightarrow> queued c (xs[a := l]) = queued c xs"
  using queued_split [of a xs c] queued_update [of a xs c l] by (simp split: if_splits)

lemma queued_empty: "(\<And>b. b < length xs \<Longrightarrow> ln_id (xs ! b) = c \<Longrightarrow> ln_events (xs ! b) = []) \<Longrightarrow> queued c xs = []"
  by (auto simp: queued_def in_set_conv_nth)

lemma sum_update:
  fixes f :: "lane \<Rightarrow> nat"
  shows "a < length xs \<Longrightarrow> sum_list (map f (xs[a := l])) + f (xs ! a) = sum_list (map f xs) + f l"
  by (subst (2) id_take_nth_drop [of a xs], assumption, subst upd_conv_take_nth_drop) simp_all

lemma load_at: "a < length xs \<Longrightarrow> lane_load (xs ! a) \<le> sum_list (map lane_load xs)"
  by (subst (2) id_take_nth_drop [of a xs]) simp_all

section \<open>The steps of a lane\<close>

lemma eventsD:
  assumes "events_inv ds"
  shows "a < length (ds_store ds) \<Longrightarrow> lane_ok ds a (ds_store ds ! a)"
    and "ds_lanes ds c = Some a \<Longrightarrow> a < length (ds_store ds) \<and> ln_id (ds_store ds ! a) = c \<and> \<not> ln_closed (ds_store ds ! a)"
    and "a < b \<Longrightarrow> b < length (ds_store ds) \<Longrightarrow> ln_id (ds_store ds ! a) = ln_id (ds_store ds ! b) \<Longrightarrow>
      ln_closed (ds_store ds ! a) \<and> ln_events (ds_store ds ! a) = [] \<and> \<not> is_handling (ds_store ds ! a)"
    and "ds_owner ds = Sending a m \<Longrightarrow> ds_lanes ds (dockerEventContainerID m) = Some a \<and> dockerEventContainerID m \<noteq> []"
    and "of_container c (ds_started ds) @ queued c (ds_store ds) = of_container c (ds_accepted ds)"
    and "ds_active ds = sum_list (map lane_load (ds_store ds))"
    and "a < length (ds_store ds) \<Longrightarrow> ln_closed (ds_store ds ! a) \<Longrightarrow> \<not> draining ds \<Longrightarrow>
      ln_events (ds_store ds ! a) = [] \<and> \<not> is_handling (ds_store ds ! a)"
  using assms unfolding events_inv_def lanes_ok_def map_lanes_ok_def order_ok_def count_ok_def by blast+

lemma events_invI:
  assumes "\<And>a. a < length (ds_store ds) \<Longrightarrow> lane_ok ds a (ds_store ds ! a)"
    and "\<And>c a. ds_lanes ds c = Some a \<Longrightarrow> a < length (ds_store ds) \<and> ln_id (ds_store ds ! a) = c \<and> \<not> ln_closed (ds_store ds ! a)"
    and "\<And>a b. a < b \<Longrightarrow> b < length (ds_store ds) \<Longrightarrow> ln_id (ds_store ds ! a) = ln_id (ds_store ds ! b) \<Longrightarrow>
      ln_closed (ds_store ds ! a) \<and> ln_events (ds_store ds ! a) = [] \<and> \<not> is_handling (ds_store ds ! a)"
    and "\<And>a m. ds_owner ds = Sending a m \<Longrightarrow> ds_lanes ds (dockerEventContainerID m) = Some a \<and> dockerEventContainerID m \<noteq> []"
    and "\<And>c. of_container c (ds_started ds) @ queued c (ds_store ds) = of_container c (ds_accepted ds)"
    and "ds_active ds = sum_list (map lane_load (ds_store ds))"
    and "\<And>a. a < length (ds_store ds) \<Longrightarrow> ln_closed (ds_store ds ! a) \<Longrightarrow> \<not> draining ds \<Longrightarrow>
      ln_events (ds_store ds ! a) = [] \<and> \<not> is_handling (ds_store ds ! a)"
  shows "events_inv ds"
  using assms unfolding events_inv_def lanes_ok_def map_lanes_ok_def order_ok_def count_ok_def by blast

text \<open>A change of one lane that keeps its identity: what has to be shown of the new lane.\<close>

lemma lane_change_inv:
  assumes inv: "events_inv ds" and a: "a < length (ds_store ds)"
    and ds': "ds_lanes ds' = ds_lanes ds" "ds_store ds' = (ds_store ds)[a := l]"
    and same: "ln_id l = ln_id (ds_store ds ! a)" "ln_closed l = ln_closed (ds_store ds ! a)"
    and idle: "ln_events (ds_store ds ! a) = [] \<Longrightarrow> \<not> is_handling (ds_store ds ! a) \<Longrightarrow> ln_closed l \<Longrightarrow> ln_events l = [] \<and> \<not> is_handling l"
    and drain: "draining ds \<Longrightarrow> draining ds'"
    and own: "\<And>b. b \<noteq> a \<Longrightarrow> sending ds' b = sending ds b"
      "\<And>b m. ds_owner ds' = Sending b m \<Longrightarrow> ds_lanes ds (dockerEventContainerID m) = Some b \<and> dockerEventContainerID m \<noteq> []"
    and ok: "lane_ok ds' a l"
    and order: "\<And>c. of_container c (ds_started ds') @ queued c ((ds_store ds)[a := l]) = of_container c (ds_accepted ds')"
    and count: "ds_active ds' + lane_load (ds_store ds ! a) = ds_active ds + lane_load l"
  shows "events_inv ds'"
proof (rule events_invI)
  have at: "ds_store ds' ! b = (if b = a then l else ds_store ds ! b)" if "b < length (ds_store ds)" for b
    using that a by (simp add: ds')
  have len: "length (ds_store ds') = length (ds_store ds)" by (simp add: ds')
  show "lane_ok ds' b (ds_store ds' ! b)" if "b < length (ds_store ds')" for b
  proof (cases "b = a")
    case True
    with ok at a show ?thesis by simp
  next
    case False
    with eventsD(1) [OF inv, of b] that at [of b] own(1) [OF False] show ?thesis by (simp add: lane_ok_def len ds'(1))
  qed
  show "b < length (ds_store ds') \<and> ln_id (ds_store ds' ! b) = c \<and> \<not> ln_closed (ds_store ds' ! b)" if "ds_lanes ds' c = Some b" for c b
    using eventsD(2) [OF inv, of c b] that at [of b] same by (auto simp: len ds'(1))
  show "ln_closed (ds_store ds' ! b) \<and> ln_events (ds_store ds' ! b) = [] \<and> \<not> is_handling (ds_store ds' ! b)"
    if bd: "b < d" "d < length (ds_store ds')" "ln_id (ds_store ds' ! b) = ln_id (ds_store ds' ! d)" for b d
  proof -
    have d: "d < length (ds_store ds)" "b < length (ds_store ds)" using bd len by simp_all
    have ids: "ln_id (ds_store ds ! b) = ln_id (ds_store ds ! d)"
      using bd(3) at [OF d(1)] at [OF d(2)] same(1) by (simp split: if_splits)
    from eventsD(3) [OF inv bd(1) d(1) ids] idle same(2) show ?thesis unfolding at [OF d(2)] by (auto simp: split: if_splits)
  qed
  show "ds_lanes ds' (dockerEventContainerID m) = Some b \<and> dockerEventContainerID m \<noteq> []" if "ds_owner ds' = Sending b m" for b m
    using own(2) [OF that] by (simp add: ds'(1))
  show "of_container c (ds_started ds') @ queued c (ds_store ds') = of_container c (ds_accepted ds')" for c
    using order by (simp add: ds'(2))
  show "ds_active ds' = sum_list (map lane_load (ds_store ds'))"
    using sum_update [OF a, of lane_load l] count eventsD(6) [OF inv] by (simp add: ds'(2))
  show "ln_events (ds_store ds' ! b) = [] \<and> \<not> is_handling (ds_store ds' ! b)"
    if b: "b < length (ds_store ds')" "ln_closed (ds_store ds' ! b)" "\<not> draining ds'" for b
  proof (cases "b = a")
    case True
    then have cl: "ln_closed l" using b at by (simp add: len)
    have "\<not> draining ds" using drain b(3) by blast
    with cl same(2) eventsD(7) [OF inv a] idle True at a show ?thesis by simp
  next
    case False
    with eventsD(7) [OF inv, of b] b at [of b] drain show ?thesis by (auto simp: len)
  qed
qed

lemma older_queued:
  assumes inv: "events_inv ds" and a: "a < length (ds_store ds)"
  shows "queued (ln_id (ds_store ds ! a)) (take a (ds_store ds)) = []"
  by (rule queued_empty) (use eventsD(3) [OF inv] a in auto)

lemma receive_inv:
  assumes inv: "events_inv ds" and l: "lane_at ds a l" "ln_phase l = Receiving" "ln_events l \<noteq> []"
  shows "events_inv (receive_event a ds)"
proof -
  let ?m = "hd (ln_events l)" and ?l = "l\<lparr>ln_events := tl (ln_events l), ln_phase := Handling (hd (ln_events l))\<rparr>"
  have a: "a < length (ds_store ds)" and at: "ds_store ds ! a = l" using l(1) by (simp_all add: lane_at_def)
  note ok = eventsD(1) [OF inv a, unfolded at lane_ok_def]
  have nh: "\<not> is_handling l" using l(2) by (simp add: is_handling_def)
  have m: "ln_events l = ?m # tl (ln_events l)" "dockerEventContainerID ?m = ln_id l" using l(3) ok by simp_all
  have tl: "set (tl (ln_events l)) \<subseteq> set (ln_events l)" by (cases "ln_events l") auto
  have ds': "ds_lanes (receive_event a ds) = ds_lanes ds" "ds_store (receive_event a ds) = (ds_store ds)[a := ?l]"
    "ds_owner (receive_event a ds) = ds_owner ds" "ds_active (receive_event a ds) = ds_active ds"
    "ds_started (receive_event a ds) = ds_started ds @ [?m]" "ds_accepted (receive_event a ds) = ds_accepted ds"
    by (simp_all add: receive_event_def update_lane_def Let_def at)
  show ?thesis
  proof (rule lane_change_inv [OF inv a ds'(1,2)])
    show "lane_ok (receive_event a ds) a ?l"
      using ok nh l(3) tl by (auto simp: lane_ok_def ds' sending_def is_handling_def)
    show "of_container c (ds_started (receive_event a ds)) @ queued c ((ds_store ds)[a := ?l]) = of_container c (ds_accepted (receive_event a ds))" for c
    proof -
      have q: "queued c (ds_store ds) = (if ln_id l = c then [?m] else []) @ queued c ((ds_store ds)[a := ?l])"
        using queued_split [OF a, of c] queued_update [OF a, of c ?l] older_queued [OF inv a] m(1) at by auto
      have "of_container c (ds_started (receive_event a ds)) = of_container c (ds_started ds) @ (if ln_id l = c then [?m] else [])"
        using m(2) by (simp add: of_container_def ds')
      with eventsD(5) [OF inv, of c] q show ?thesis by (simp add: ds')
    qed
  qed (use eventsD(4) [OF inv] l(2,3) at in \<open>auto simp: ds' sending_def lane_load_def draining_def\<close>)
qed

lemma finish_inv:
  assumes inv: "events_inv ds" and l: "lane_at ds a l" "ln_phase l = Handling m"
  shows "events_inv (finish_event a ds)"
proof -
  let ?l = "l\<lparr>ln_pending := ln_pending l - 1, ln_phase := Settling\<rparr>"
  have a: "a < length (ds_store ds)" and at: "ds_store ds ! a = l" using l(1) by (simp_all add: lane_at_def)
  note ok = eventsD(1) [OF inv a, unfolded at lane_ok_def]
  have h: "is_handling l" using l(2) by (simp add: is_handling_def)
  have ds': "ds_lanes (finish_event a ds) = ds_lanes ds" "ds_store (finish_event a ds) = (ds_store ds)[a := ?l]"
    "ds_owner (finish_event a ds) = ds_owner ds" "ds_active (finish_event a ds) = ds_active ds"
    "ds_started (finish_event a ds) = ds_started ds" "ds_accepted (finish_event a ds) = ds_accepted ds"
    by (simp_all add: finish_event_def update_lane_def at)
  show ?thesis
  proof (rule lane_change_inv [OF inv a ds'(1,2)])
    show "lane_ok (finish_event a ds) a ?l"
      using ok h by (auto simp: lane_ok_def ds' sending_def is_handling_def)
    show "of_container c (ds_started (finish_event a ds)) @ queued c ((ds_store ds)[a := ?l]) = of_container c (ds_accepted (finish_event a ds))" for c
      using eventsD(5) [OF inv, of c] queued_same [OF a, of ?l c] by (simp add: ds' at)
  qed (use eventsD(4) [OF inv] ok h l(2) at in \<open>auto simp: ds' sending_def lane_load_def draining_def is_handling_def\<close>)
qed

lemma settle_inv:
  assumes inv: "events_inv ds" and l: "lane_at ds a l" "ln_phase l = Settling"
  shows "events_inv (settle_event a ds)"
proof -
  let ?l = "l\<lparr>ln_phase := Receiving\<rparr>"
  have a: "a < length (ds_store ds)" and at: "ds_store ds ! a = l" using l(1) by (simp_all add: lane_at_def)
  note ok = eventsD(1) [OF inv a, unfolded at lane_ok_def]
  have ds': "ds_lanes (settle_event a ds) = ds_lanes ds" "ds_store (settle_event a ds) = (ds_store ds)[a := ?l]"
    "ds_owner (settle_event a ds) = ds_owner ds" "ds_active (settle_event a ds) = ds_active ds - 1"
    "ds_started (settle_event a ds) = ds_started ds" "ds_accepted (settle_event a ds) = ds_accepted ds"
    by (simp_all add: settle_event_def update_lane_def at)
  have pos: "ds_active ds > 0" using load_at [OF a] l(2) eventsD(6) [OF inv] by (simp add: at lane_load_def)
  show ?thesis
  proof (rule lane_change_inv [OF inv a ds'(1,2)])
    show "lane_ok (settle_event a ds) a ?l"
      using ok l(2) by (auto simp: lane_ok_def ds' sending_def is_handling_def)
    show "of_container c (ds_started (settle_event a ds)) @ queued c ((ds_store ds)[a := ?l]) = of_container c (ds_accepted (settle_event a ds))" for c
      using eventsD(5) [OF inv, of c] queued_same [OF a, of ?l c] by (simp add: ds' at)
  qed (use eventsD(4) [OF inv] pos l(2) at in \<open>auto simp: ds' sending_def lane_load_def draining_def is_handling_def\<close>)
qed

lemma exit_inv:
  assumes inv: "events_inv ds" and l: "lane_at ds a l" "ln_phase l = Receiving" "ln_events l = []" "ln_closed l"
  shows "events_inv (exit_lane a ds)"
proof -
  let ?l = "l\<lparr>ln_phase := Exited\<rparr>"
  have a: "a < length (ds_store ds)" and at: "ds_store ds ! a = l" using l(1) by (simp_all add: lane_at_def)
  note ok = eventsD(1) [OF inv a, unfolded at lane_ok_def]
  have ds': "ds_lanes (exit_lane a ds) = ds_lanes ds" "ds_store (exit_lane a ds) = (ds_store ds)[a := ?l]"
    "ds_owner (exit_lane a ds) = ds_owner ds" "ds_active (exit_lane a ds) = ds_active ds"
    "ds_started (exit_lane a ds) = ds_started ds" "ds_accepted (exit_lane a ds) = ds_accepted ds"
    by (simp_all add: exit_lane_def update_lane_def at)
  show ?thesis
  proof (rule lane_change_inv [OF inv a ds'(1,2)])
    show "lane_ok (exit_lane a ds) a ?l"
      using ok l by (auto simp: lane_ok_def ds' sending_def is_handling_def)
    show "of_container c (ds_started (exit_lane a ds)) @ queued c ((ds_store ds)[a := ?l]) = of_container c (ds_accepted (exit_lane a ds))" for c
      using eventsD(5) [OF inv, of c] queued_same [OF a, of ?l c] by (simp add: ds' at)
  qed (use eventsD(4) [OF inv] l(2) at in \<open>auto simp: ds' sending_def lane_load_def draining_def is_handling_def\<close>)
qed

section \<open>The steps of the owner\<close>

lemma accept_inv:
  assumes inv: "events_inv ds" and own: "ds_owner ds = Sending a msg"
    and room: "length (ln_events (ds_store ds ! a)) < dockerEventLaneDepth"
  shows "events_inv (accept_event a msg ds)"
proof -
  let ?old = "ds_store ds ! a"
  let ?l = "?old\<lparr>ln_events := ln_events ?old @ [msg]\<rparr>"
  note s = eventsD(4) [OF inv own]
  have a: "a < length (ds_store ds)" and cid: "ln_id ?old = dockerEventContainerID msg" and open0: "\<not> ln_closed ?old"
    using s eventsD(2) [OF inv, of "dockerEventContainerID msg" a] by blast+
  note ok = eventsD(1) [OF inv a, unfolded lane_ok_def]
  have ds': "ds_lanes (accept_event a msg ds) = ds_lanes ds" "ds_store (accept_event a msg ds) = (ds_store ds)[a := ?l]"
    "ds_owner (accept_event a msg ds) = Watching" "ds_active (accept_event a msg ds) = ds_active ds"
    "ds_started (accept_event a msg ds) = ds_started ds" "ds_accepted (accept_event a msg ds) = ds_accepted ds @ [msg]"
    by (simp_all add: accept_event_def update_lane_def)
  have newer: "queued (ln_id ?old) (drop (Suc a) (ds_store ds)) = []"
  proof (rule queued_empty)
    fix b assume b: "b < length (drop (Suc a) (ds_store ds))" "ln_id (drop (Suc a) (ds_store ds) ! b) = ln_id ?old"
    then have "Suc a + b < length (ds_store ds)" by simp
    with b eventsD(3) [OF inv, of a "Suc a + b"] open0 show "ln_events (drop (Suc a) (ds_store ds) ! b) = []" by simp
  qed
  show ?thesis
  proof (rule lane_change_inv [OF inv a ds'(1,2)])
    show "lane_ok (accept_event a msg ds) a ?l"
      using ok own room cid open0 by (auto simp: lane_ok_def ds' sending_def is_handling_def)
    show "of_container c (ds_started (accept_event a msg ds)) @ queued c ((ds_store ds)[a := ?l]) = of_container c (ds_accepted (accept_event a msg ds))" for c
    proof -
      have "queued c ((ds_store ds)[a := ?l]) = queued c (ds_store ds) @ (if dockerEventContainerID msg = c then [msg] else [])"
        using queued_split [OF a, of c] queued_update [OF a, of c ?l] newer cid by auto
      with eventsD(5) [OF inv, of c, symmetric] show ?thesis by (simp add: ds' of_container_def)
    qed
  qed (use own open0 in \<open>auto simp: ds' sending_def lane_load_def draining_def\<close>)
qed

lemma refuse_inv:
  assumes inv: "events_inv ds" and own: "ds_owner ds = Sending a msg"
  shows "events_inv (refuse_event a ds)"
proof -
  let ?old = "ds_store ds ! a"
  let ?l = "?old\<lparr>ln_pending := ln_pending ?old - 1\<rparr>"
  note s = eventsD(4) [OF inv own]
  have a: "a < length (ds_store ds)" and open0: "\<not> ln_closed ?old"
    using s eventsD(2) [OF inv, of "dockerEventContainerID msg" a] by blast+
  note ok = eventsD(1) [OF inv a, unfolded lane_ok_def]
  have ds': "ds_lanes (refuse_event a ds) = ds_lanes ds" "ds_store (refuse_event a ds) = (ds_store ds)[a := ?l]"
    "ds_owner (refuse_event a ds) = Returning" "ds_active (refuse_event a ds) = ds_active ds - 1"
    "ds_started (refuse_event a ds) = ds_started ds" "ds_accepted (refuse_event a ds) = ds_accepted ds"
    by (simp_all add: refuse_event_def update_lane_def)
  have "ln_pending ?old = length (ln_events ?old) + (if is_handling ?old then 1 else 0) + 1" using ok own by (simp add: sending_def)
  then have pend: "ln_pending ?old > 0" by linarith
  then have pos: "ds_active ds > 0" using load_at [OF a] eventsD(6) [OF inv] by (simp add: lane_load_def)
  show ?thesis
  proof (rule lane_change_inv [OF inv a ds'(1,2)])
    show "lane_ok (refuse_event a ds) a ?l"
      using ok own by (auto simp: lane_ok_def ds' sending_def is_handling_def)
    show "of_container c (ds_started (refuse_event a ds)) @ queued c ((ds_store ds)[a := ?l]) = of_container c (ds_accepted (refuse_event a ds))" for c
      using eventsD(5) [OF inv, of c] queued_same [OF a, of ?l c] by (simp add: ds')
  qed (use own open0 pos pend in \<open>auto simp: ds' sending_def lane_load_def draining_def\<close>)
qed

lemma close_lane_inv:
  assumes inv: "events_inv ds" and c: "ds_lanes ds c = Some a" and own: "\<And>b m. ds_owner ds \<noteq> Sending b m"
    and idle: "draining ds \<or> ln_pending (ds_store ds ! a) = 0"
  shows "events_inv (close_lane c a ds)"
proof -
  let ?old = "ds_store ds ! a" and ?ds = "close_lane c a ds"
  let ?l = "?old\<lparr>ln_closed := True\<rparr>"
  have a: "a < length (ds_store ds)" and cid: "ln_id ?old = c" and open0: "\<not> ln_closed ?old" using eventsD(2) [OF inv c] by blast+
  have ds': "ds_lanes ?ds = (ds_lanes ds)(c := None)" "ds_store ?ds = (ds_store ds)[a := ?l]" "ds_owner ?ds = ds_owner ds"
    "ds_active ?ds = ds_active ds" "ds_started ?ds = ds_started ds" "ds_accepted ?ds = ds_accepted ds"
    by (simp_all add: close_lane_def update_lane_def)
  have at: "ds_store ?ds ! b = (if b = a then ?l else ds_store ds ! b)" if "b < length (ds_store ds)" for b
    using that a by (simp add: ds')
  have len: "length (ds_store ?ds) = length (ds_store ds)" by (simp add: ds')
  have sel: "is_handling ?l = is_handling ?old" "lane_load ?l = lane_load ?old" by (simp_all add: is_handling_def lane_load_def)
  show ?thesis
  proof (rule events_invI)
    show "lane_ok ?ds b (ds_store ?ds ! b)" if "b < length (ds_store ?ds)" for b
    proof (cases "b = a")
      case True
      with eventsD(1) [OF inv a] at a sel show ?thesis by (simp add: lane_ok_def ds' sending_def)
    next
      case False
      have "\<not> ln_closed (ds_store ds ! b) \<Longrightarrow> ln_id (ds_store ds ! b) \<noteq> c"
        using eventsD(1) [OF inv, of b] that c False by (auto simp: lane_ok_def len)
      with eventsD(1) [OF inv, of b] that at [of b] False show ?thesis by (auto simp: lane_ok_def ds' len sending_def)
    qed
    show "b < length (ds_store ?ds) \<and> ln_id (ds_store ?ds ! b) = d \<and> \<not> ln_closed (ds_store ?ds ! b)" if "ds_lanes ?ds d = Some b" for d b
    proof -
      have d: "ds_lanes ds d = Some b" "d \<noteq> c" using that by (auto simp: ds' split: if_splits)
      then have "b \<noteq> a" using eventsD(2) [OF inv d(1)] cid by auto
      with eventsD(2) [OF inv d(1)] at [of b] show ?thesis by (simp add: len)
    qed
    show "ln_closed (ds_store ?ds ! b) \<and> ln_events (ds_store ?ds ! b) = [] \<and> \<not> is_handling (ds_store ?ds ! b)"
      if bd: "b < d" "d < length (ds_store ?ds)" "ln_id (ds_store ?ds ! b) = ln_id (ds_store ?ds ! d)" for b d
    proof -
      have d: "d < length (ds_store ds)" "b < length (ds_store ds)" using bd len by simp_all
      have "ln_id (ds_store ds ! b) = ln_id (ds_store ds ! d)"
        using bd(3) at [OF d(1)] at [OF d(2)] by (simp split: if_splits)
      from eventsD(3) [OF inv bd(1) d(1) this] open0 at [OF d(2)] show ?thesis by auto
    qed
    show "ds_lanes ?ds (dockerEventContainerID m) = Some b \<and> dockerEventContainerID m \<noteq> []" if "ds_owner ?ds = Sending b m" for b m
      using that own by (simp add: ds')
    show "of_container d (ds_started ?ds) @ queued d (ds_store ?ds) = of_container d (ds_accepted ?ds)" for d
      using eventsD(5) [OF inv, of d] queued_same [OF a, of ?l d] by (simp add: ds')
    show "ds_active ?ds = sum_list (map lane_load (ds_store ?ds))"
      using sum_update [OF a, of lane_load ?l] sel(2) eventsD(6) [OF inv] by (simp add: ds')
    show "ln_events (ds_store ?ds ! b) = [] \<and> \<not> is_handling (ds_store ?ds ! b)"
      if b: "b < length (ds_store ?ds)" "ln_closed (ds_store ?ds ! b)" "\<not> draining ?ds" for b
    proof -
      have nd: "\<not> draining ds" using b(3) by (simp add: draining_def ds')
      show ?thesis
      proof (cases "b = a")
        case True
        with nd idle eventsD(1) [OF inv a] at a sel show ?thesis by (auto simp: lane_ok_def split: if_splits)
      next
        case False
        with eventsD(7) [OF inv, of b] b nd at [of b] show ?thesis by (simp add: len)
      qed
    qed
  qed
qed

lemma open_lane_inv:
  assumes inv: "events_inv ds" and own: "ds_owner ds = Watching" and c: "c \<noteq> []" and o: "open_lane c ds = (ds', a)"
  shows "events_inv ds' \<and> ds_lanes ds' c = Some a \<and> ds_owner ds' = Watching"
proof (cases "ds_lanes ds c")
  case (Some b)
  with o inv own show ?thesis by (simp add: open_lane_def)
next
  case None
  let ?n = "length (ds_store ds)"
  let ?new = "\<lparr>ln_id = c, ln_events = [], ln_pending = 0, ln_phase = Receiving, ln_closed = False\<rparr>"
  have ds': "ds_lanes ds' = (ds_lanes ds)(c \<mapsto> ?n)" "ds_store ds' = ds_store ds @ [?new]" "ds_owner ds' = Watching"
    "ds_active ds' = ds_active ds" "ds_started ds' = ds_started ds" "ds_accepted ds' = ds_accepted ds" "a = ?n"
    using o None own by (auto simp: open_lane_def Let_def)
  have at: "ds_store ds' ! b = (if b < ?n then ds_store ds ! b else ?new)" if "b < Suc ?n" for b
    using that by (auto simp: ds' nth_append)
  have len: "length (ds_store ds') = Suc ?n" by (simp add: ds')
  have nd: "\<not> draining ds" by (simp add: draining_def own)
  have others: "ln_closed (ds_store ds ! b)" if "b < ?n" "ln_id (ds_store ds ! b) = c" for b
    using eventsD(1) [OF inv that(1)] that(2) None by (auto simp: lane_ok_def)
  have "events_inv ds'"
  proof (rule events_invI)
    show "lane_ok ds' b (ds_store ds' ! b)" if "b < length (ds_store ds')" for b
    proof (cases "b < ?n")
      case True
      then have "\<not> ln_closed (ds_store ds ! b) \<Longrightarrow> ln_id (ds_store ds ! b) \<noteq> c" using others by blast
      with eventsD(1) [OF inv True] True at [of b] show ?thesis by (auto simp: lane_ok_def sending_def ds' own)
    next
      case False
      with that at [of b] show ?thesis by (simp add: lane_ok_def len sending_def is_handling_def ds' less_Suc_eq)
    qed
    show "b < length (ds_store ds') \<and> ln_id (ds_store ds' ! b) = d \<and> \<not> ln_closed (ds_store ds' ! b)" if "ds_lanes ds' d = Some b" for d b
    proof (cases "d = c")
      case True
      with that at [of ?n] show ?thesis by (simp add: ds')
    next
      case False
      with that have "ds_lanes ds d = Some b" by (simp add: ds')
      with eventsD(2) [OF inv this] at [of b] show ?thesis by (simp add: len)
    qed
    show "ln_closed (ds_store ds' ! b) \<and> ln_events (ds_store ds' ! b) = [] \<and> \<not> is_handling (ds_store ds' ! b)"
      if bd: "b < d" "d < length (ds_store ds')" "ln_id (ds_store ds' ! b) = ln_id (ds_store ds' ! d)" for b d
    proof (cases "d < ?n")
      case True
      with bd eventsD(3) [OF inv bd(1) True] at [of b] at [of d] show ?thesis by simp
    next
      case False
      with bd have d: "d = ?n" "b < ?n" by (simp_all add: len)
      with bd(3) at [of b] at [of d] have "ln_id (ds_store ds ! b) = c" by simp
      with others [OF d(2)] eventsD(7) [OF inv d(2)] nd at [of b] d(2) show ?thesis by simp
    qed
    show "ds_lanes ds' (dockerEventContainerID m) = Some b \<and> dockerEventContainerID m \<noteq> []" if "ds_owner ds' = Sending b m" for b m
      using that by (simp add: ds')
    show "of_container d (ds_started ds') @ queued d (ds_store ds') = of_container d (ds_accepted ds')" for d
      using eventsD(5) [OF inv, of d] by (simp add: ds' queued_def)
    show "ds_active ds' = sum_list (map lane_load (ds_store ds'))"
      using eventsD(6) [OF inv] by (simp add: ds' lane_load_def)
    show "ln_events (ds_store ds' ! b) = [] \<and> \<not> is_handling (ds_store ds' ! b)"
      if b: "b < length (ds_store ds')" "ln_closed (ds_store ds' ! b)" "\<not> draining ds'" for b
      using eventsD(7) [OF inv, of b] b(1,2) at [of b] nd by (auto simp: len split: if_splits)
  qed
  then show ?thesis by (simp add: ds')
qed

lemma dispatch_inv:
  assumes inv: "events_inv ds" and own: "ds_owner ds = Watching"
  shows "events_inv (dispatch msg ds)"
proof (cases "dockerEventContainerID msg = []")
  case False
  obtain ds1 a where o: "open_lane (dockerEventContainerID msg) ds = (ds1, a)" by (metis surj_pair)
  note inv1 = open_lane_inv [OF inv own False o]
  then have inv': "events_inv ds1" and map1: "ds_lanes ds1 (dockerEventContainerID msg) = Some a" and own1: "ds_owner ds1 = Watching"
    by blast+
  let ?old = "ds_store ds1 ! a"
  let ?l = "?old\<lparr>ln_pending := ln_pending ?old + 1\<rparr>" and ?ds = "dispatch msg ds"
  have a: "a < length (ds_store ds1)" and open0: "\<not> ln_closed ?old" using eventsD(2) [OF inv' map1] by blast+
  note ok = eventsD(1) [OF inv' a, unfolded lane_ok_def]
  have ds': "ds_lanes ?ds = ds_lanes ds1" "ds_store ?ds = (ds_store ds1)[a := ?l]" "ds_owner ?ds = Sending a msg"
    "ds_active ?ds = ds_active ds1 + 1" "ds_started ?ds = ds_started ds1" "ds_accepted ?ds = ds_accepted ds1"
    using False by (simp_all add: dispatch_def o update_lane_def)
  show ?thesis
  proof (rule lane_change_inv [OF inv' a ds'(1,2)])
    show "lane_ok ?ds a ?l" using ok own1 by (auto simp: lane_ok_def ds' sending_def is_handling_def)
    show "of_container c (ds_started ?ds) @ queued c ((ds_store ds1)[a := ?l]) = of_container c (ds_accepted ?ds)" for c
      using eventsD(5) [OF inv', of c] queued_same [OF a, of ?l c] by (simp add: ds')
  qed (use own1 open0 map1 False in \<open>auto simp: ds' sending_def lane_load_def draining_def\<close>)
qed (simp add: dispatch_def inv)

lemma owner_inv:
  assumes inv: "events_inv ds" and own: "\<And>b m. ds_owner ds \<noteq> Sending b m" "\<And>b m. o' \<noteq> Sending b m"
    and drain: "draining ds \<Longrightarrow> draining (ds\<lparr>ds_owner := o'\<rparr>)"
  shows "events_inv (ds\<lparr>ds_owner := o'\<rparr>)"
proof -
  have "sending (ds\<lparr>ds_owner := o'\<rparr>) a = 0" "sending ds a = 0" for a
    using own by (auto simp: sending_def split: owner.splits)
  with inv own drain show ?thesis
    unfolding events_inv_def lanes_ok_def map_lanes_ok_def order_ok_def count_ok_def lane_ok_def by auto
qed

lemma owner_step_inv:
  assumes inv: "events_inv ds" and step: "owner_step ds ds'"
  shows "events_inv ds'"
  using step
proof cases
  case (dispatch msg)
  with dispatch_inv [OF inv] show ?thesis by simp
next
  case (reap c a)
  with close_lane_inv [OF inv, of c a] show ?thesis by simp
next
  case (accept a msg)
  with accept_inv [OF inv] show ?thesis by simp
next
  case (refuse a msg)
  with refuse_inv [OF inv] show ?thesis by simp
next
  case return
  with owner_inv [OF inv, of Returning] show ?thesis by (simp add: draining_def)
next
  case (close c a)
  with close_lane_inv [OF inv, of c a] show ?thesis by (simp add: draining_def)
next
  case stop
  with owner_inv [OF inv, of Stopped] show ?thesis by (simp add: draining_def)
qed

lemma lane_step_inv:
  assumes inv: "events_inv ds" and step: "lane_step ds ds'"
  shows "events_inv ds'"
  using step receive_inv [OF inv] finish_inv [OF inv] settle_inv [OF inv] exit_inv [OF inv] by cases blast+

lemma events_reachable_inv: "events_reachable ds \<Longrightarrow> events_inv ds"
proof (induction rule: events_reachable.induct)
  case init
  show ?case
    by (simp add: events_inv_def lanes_ok_def map_lanes_ok_def order_ok_def count_ok_def newDockerEventDispatcher_def
        of_container_def queued_def)
qed (use owner_step_inv lane_step_inv in blast)+

section \<open>Draining\<close>

lemma stopped_exited: "events_reachable ds \<Longrightarrow> ds_owner ds = Stopped \<Longrightarrow> list_all (\<lambda>l. ln_phase l = Exited) (ds_store ds)"
proof (induction rule: events_reachable.induct)
  case (owner ds ds')
  from owner.hyps(2) owner.prems owner.IH show ?case
    by cases (auto simp: dispatch_def open_lane_def accept_event_def refuse_event_def close_lane_def update_lane_def Let_def
        split: option.splits if_splits)
next
  case (lane ds ds')
  from lane.hyps(2) lane.prems have st: "ds_owner ds = Stopped"
    by cases (auto simp: receive_event_def finish_event_def settle_event_def exit_lane_def update_lane_def Let_def)
  with lane.IH have "ln_phase l = Exited" if "lane_at ds a l" for a l
    using that by (auto simp: lane_at_def list_all_length)
  with lane.hyps(2) show ?case by cases fastforce+
qed (simp add: newDockerEventDispatcher_def)

fun phase_work :: "lane_phase \<Rightarrow> nat" where
  "phase_work (Handling _) = 3"
| "phase_work Settling = 2"
| "phase_work Receiving = 1"
| "phase_work Exited = 0"

definition lane_work :: "lane \<Rightarrow> nat" where
  "lane_work l = 3 * length (ln_events l) + phase_work (ln_phase l) + (if ln_closed l then 0 else 1)"

definition drain_work :: "dispatcher \<Rightarrow> nat" where
  "drain_work ds = sum_list (map lane_work (ds_store ds)) + (if ds_owner ds = Returning then 1 else 0)"

lemma work_update:
  assumes "a < length xs" "lane_work l < lane_work (xs ! a)"
  shows "sum_list (map lane_work (xs[a := l])) < sum_list (map lane_work xs)"
  using sum_update [OF assms(1), of lane_work l] assms(2) by linarith

lemma lane_step_work:
  assumes step: "lane_step ds ds'"
  shows "drain_work ds' < drain_work ds"
proof -
  have less: "drain_work ds' < drain_work ds"
    if "ds_store ds' = (ds_store ds)[a := l']" "ds_owner ds' = ds_owner ds" "lane_at ds a l" "lane_work l' < lane_work l" for a l l'
    using that work_update [of a "ds_store ds" l'] by (simp add: drain_work_def lane_at_def)
  show ?thesis
    using step
  proof cases
    case (receive a l)
    have "lane_work (l\<lparr>ln_events := tl (ln_events l), ln_phase := Handling (hd (ln_events l))\<rparr>) < lane_work l"
      using receive(3,4) by (cases "ln_events l") (simp_all add: lane_work_def)
    then show ?thesis
      by (rule less [OF _ _ receive(2), rotated 2])
        (use receive(1,2) in \<open>auto simp: receive_event_def update_lane_def Let_def lane_at_def\<close>)
  next
    case (finish a l msg)
    then show ?thesis
      by (intro less [of a "l\<lparr>ln_pending := ln_pending l - 1, ln_phase := Settling\<rparr>" l])
        (auto simp: finish_event_def update_lane_def lane_at_def lane_work_def)
  next
    case (settle a l)
    then show ?thesis
      by (intro less [of a "l\<lparr>ln_phase := Receiving\<rparr>" l])
        (auto simp: settle_event_def update_lane_def lane_at_def lane_work_def)
  next
    case (exit a l)
    then show ?thesis
      by (intro less [of a "l\<lparr>ln_phase := Exited\<rparr>" l])
        (auto simp: exit_lane_def update_lane_def lane_at_def lane_work_def)
  qed
qed

lemma owner_step_work:
  assumes inv: "events_inv ds" and own: "ds_owner ds = Returning" and step: "owner_step ds ds'"
  shows "drain_work ds' < drain_work ds"
  using step
proof cases
  case (close c a)
  have a: "a < length (ds_store ds)" "\<not> ln_closed (ds_store ds ! a)" using eventsD(2) [OF inv close(3)] by blast+
  then have "lane_work ((ds_store ds ! a)\<lparr>ln_closed := True\<rparr>) < lane_work (ds_store ds ! a)" by (simp add: lane_work_def)
  from work_update [OF a(1) this] close show ?thesis by (simp add: drain_work_def close_lane_def update_lane_def)
next
  case stop
  with own show ?thesis by (simp add: drain_work_def)
qed (use own in simp_all)

lemma drain_progress:
  assumes inv: "events_inv ds" and own: "ds_owner ds = Returning"
  shows "\<exists>ds'. owner_step ds ds' \<or> lane_step ds ds'"
proof (cases "ds_lanes ds = (\<lambda>_. None)")
  case False
  then obtain c a where "ds_lanes ds c = Some a" by fastforce
  with owner_step.close [OF own] show ?thesis by blast
next
  case empty: True
  show ?thesis
  proof (cases "list_all (\<lambda>l. ln_phase l = Exited) (ds_store ds)")
    case True
    with owner_step.stop [OF own empty] show ?thesis by blast
  next
    case False
    then obtain a where a: "a < length (ds_store ds)" "ln_phase (ds_store ds ! a) \<noteq> Exited" by (auto simp: list_all_length)
    have at: "lane_at ds a (ds_store ds ! a)" by (simp add: lane_at_def a)
    have closed: "ln_closed (ds_store ds ! a)" using eventsD(1) [OF inv a(1)] empty by (auto simp: lane_ok_def)
    from a(2) at closed lane_step.intros [OF at] show ?thesis by (cases "ln_phase (ds_store ds ! a)") blast+
  qed
qed

section \<open>A start and a die\<close>

definition start_event :: message where
  "start_event = \<lparr>ev_Type = ContainerEventType, ev_Action = ActionStart, ev_ActorID = ''0123456789ab'', ev_Attributes = []\<rparr>"

definition die_event :: message where
  "die_event = start_event\<lparr>ev_Action := ActionDie\<rparr>"

text \<open>The start is being handled while the die waits behind it.\<close>

definition starting_dispatcher :: dispatcher where
  "starting_dispatcher = receive_event 0 (accept_event 0 start_event (dispatch start_event newDockerEventDispatcher))"

definition busy_dispatcher :: dispatcher where
  "busy_dispatcher = accept_event 0 die_event (dispatch die_event starting_dispatcher)"

definition idle_dispatcher :: dispatcher where
  "idle_dispatcher = settle_event 0 (finish_event 0 starting_dispatcher)"

definition returning_dispatcher :: dispatcher where
  "returning_dispatcher = busy_dispatcher\<lparr>ds_owner := Returning\<rparr>"

lemma event_ids [simp]:
  "dockerEventContainerID start_event = ''0123456789ab''" "dockerEventContainerID die_event = ''0123456789ab''"
  by (simp_all add: dockerEventContainerID_def start_event_def die_event_def event_names)

lemmas dispatcher_defs = starting_dispatcher_def newDockerEventDispatcher_def dispatch_def open_lane_def accept_event_def receive_event_def
  update_lane_def Let_def

lemma starting_reachable: "events_reachable starting_dispatcher"
proof -
  let ?d1 = "dispatch start_event newDockerEventDispatcher"
  let ?d2 = "accept_event 0 start_event ?d1"
  have 1: "events_reachable ?d1"
    by (rule events_reachable.owner [OF events_reachable.init owner_step.dispatch]) (simp add: newDockerEventDispatcher_def)
  have 2: "events_reachable ?d2"
    by (rule events_reachable.owner [OF 1 owner_step.accept]) (simp_all add: dispatcher_defs dockerEventLaneDepth_def)
  show ?thesis unfolding starting_dispatcher_def
    by (rule events_reachable.lane [OF 2 lane_step.receive [where l = "ds_store ?d2 ! 0"]])
      (simp_all add: dispatcher_defs lane_at_def)
qed

lemma busy_reachable: "events_reachable busy_dispatcher"
proof -
  have 1: "events_reachable (dispatch die_event starting_dispatcher)"
    by (rule events_reachable.owner [OF starting_reachable owner_step.dispatch]) (simp add: dispatcher_defs)
  show ?thesis unfolding busy_dispatcher_def
    by (rule events_reachable.owner [OF 1 owner_step.accept]) (simp_all add: dispatcher_defs dockerEventLaneDepth_def)
qed

lemma idle_reachable: "events_reachable idle_dispatcher"
proof -
  have 1: "events_reachable (finish_event 0 starting_dispatcher)"
    by (rule events_reachable.lane [OF starting_reachable lane_step.finish [where l = "ds_store starting_dispatcher ! 0"]])
      (simp_all add: dispatcher_defs lane_at_def)
  show ?thesis unfolding idle_dispatcher_def
    by (rule events_reachable.lane [OF 1 lane_step.settle [where l = "ds_store (finish_event 0 starting_dispatcher) ! 0"]])
      (simp_all add: dispatcher_defs finish_event_def lane_at_def)
qed

lemma busy_state: "ds_started busy_dispatcher = [start_event]" "ds_accepted busy_dispatcher = [start_event, die_event]"
  "ds_owner busy_dispatcher = Watching"
  by (simp_all add: busy_dispatcher_def dispatcher_defs)

lemma returning_reachable: "events_reachable returning_dispatcher"
  unfolding returning_dispatcher_def
  by (rule events_reachable.owner [OF busy_reachable owner_step.return [OF busy_state(3)]])

section \<open>The properties\<close>

text \<open>C34: the events of a container are handled in the order in which Docker sent them and one at a time, whatever
  the lanes do side by side and however often a lane is reaped and opened again: those taken up so far,
  followed by those still queued, are exactly the ones accepted, no two lanes of a container handle events
  at once, and no lane ever queues more than 16.\<close>

theorem events_in_order:
  assumes "events_reachable ds"
  shows "of_container c (ds_started ds) @ queued c (ds_store ds) = of_container c (ds_accepted ds) \<and>
    (\<forall>a b l k. lane_at ds a l \<longrightarrow> lane_at ds b k \<longrightarrow> is_handling l \<longrightarrow> is_handling k \<longrightarrow> ln_id l = ln_id k \<longrightarrow> a = b) \<and>
    (\<forall>a l. lane_at ds a l \<longrightarrow> length (ln_events l) \<le> dockerEventLaneDepth)"
proof -
  note inv = events_reachable_inv [OF assms]
  have "a = b" if "lane_at ds a l" "lane_at ds b k" "is_handling l" "is_handling k" "ln_id l = ln_id k" for a b l k
    using eventsD(3) [OF inv, of a b] eventsD(3) [OF inv, of b a] that
    by (cases a b rule: linorder_cases) (auto simp: lane_at_def)
  moreover have "length (ln_events l) \<le> dockerEventLaneDepth" if "lane_at ds a l" for a l
    using eventsD(1) [OF inv, of a] that by (simp add: lane_at_def lane_ok_def)
  ultimately show ?thesis using eventsD(5) [OF inv, of c] by blast
qed

theorem events_in_order_witness: "queued ''0123456789ab'' (ds_store busy_dispatcher) = [die_event]"
  using events_in_order [OF busy_reachable, of "''0123456789ab''"] by (simp add: busy_state of_container_def)

text \<open>C35: nothing is lost when the manager stops: from the moment the owner returns every step brings the end
  closer, there always is one, and once \<open>closeAndWait\<close> has returned every accepted event has been taken up
  and no lane is at work.\<close>

theorem events_drained:
  assumes "events_reachable ds"
  shows "(ds_owner ds = Returning \<longrightarrow> (\<exists>ds'. owner_step ds ds' \<or> lane_step ds ds') \<and>
      (\<forall>ds'. owner_step ds ds' \<or> lane_step ds ds' \<longrightarrow> drain_work ds' < drain_work ds)) \<and>
    (ds_owner ds = Stopped \<longrightarrow> (\<forall>c. of_container c (ds_started ds) = of_container c (ds_accepted ds)) \<and>
      list_all (\<lambda>l. ln_phase l = Exited) (ds_store ds))"
proof -
  note inv = events_reachable_inv [OF assms]
  have "queued c (ds_store ds) = []" if "list_all (\<lambda>l. ln_phase l = Exited) (ds_store ds)" for c
    by (rule queued_empty) (use that eventsD(1) [OF inv] in \<open>auto simp: list_all_length lane_ok_def\<close>)
  then have "of_container c (ds_started ds) = of_container c (ds_accepted ds)"
    if "list_all (\<lambda>l. ln_phase l = Exited) (ds_store ds)" for c
    using that eventsD(5) [OF inv, of c] by simp
  with drain_progress [OF inv] owner_step_work [OF inv] lane_step_work stopped_exited [OF assms] show ?thesis by blast
qed

theorem events_drained_witness: "\<exists>ds'. owner_step returning_dispatcher ds' \<or> lane_step returning_dispatcher ds'"
  using events_drained [OF returning_reachable] by (simp add: returning_dispatcher_def)

text \<open>When the aggregate counter reads zero every lane is idle, so that \<open>reapIdle\<close> can close all of them and a
  reconciliation does not overtake an event.\<close>

theorem inactive_lanes_idle:
  assumes "events_reachable ds" "\<not> active ds" "lane_at ds a l"
  shows "ln_pending l = 0 \<and> ln_events l = [] \<and> (ln_phase l = Receiving \<or> ln_phase l = Exited)"
proof -
  note inv = events_reachable_inv [OF assms(1)]
  have a: "a < length (ds_store ds)" "ds_store ds ! a = l" using assms(3) by (simp_all add: lane_at_def)
  have "lane_load l = 0" using load_at [OF a(1), unfolded a(2)] eventsD(6) [OF inv] assms(2) unfolding active_def by linarith
  then have "ln_pending l = 0" "ln_phase l \<noteq> Settling" by (auto simp: lane_load_def split: if_splits)
  with eventsD(1) [OF inv a(1)] a(2) show ?thesis by (cases "ln_phase l") (auto simp: lane_ok_def is_handling_def)
qed

theorem inactive_lanes_idle_witness:
  "ln_pending (ds_store idle_dispatcher ! 0) = 0 \<and> ln_events (ds_store idle_dispatcher ! 0) = []"
  using inactive_lanes_idle [OF idle_reachable, of 0 "ds_store idle_dispatcher ! 0"]
  by (simp add: active_def lane_at_def idle_dispatcher_def dispatcher_defs finish_event_def settle_event_def)

end
