(* ===== verification/Watch.thy ===== *)
theory Watch
  imports Events_Correct
begin

text \<open>
  The loop that watches Docker (\<open>watchDocker\<close> in \<open>manager.go\<close>), with the handlers of events and the two workers it
  keeps busy. The loop is the owner of the dispatcher of \<open>Events\<close>: a \<open>select\<close> takes a message, the end of the
  stream, a tick or the end of the manager, one step each. A handler sends its request on the unbuffered channel of
  a worker and waits for the answer, unless the manager ends. What a handler asks for is \<open>handleDockerEvent\<close>; what
  the workers and a reconciliation then do to kernel and database is modelled in \<open>Create\<close>, \<open>Deletion\<close> and
  \<open>Manager\<close>; here it matters when they do it. A tick while events are active changes nothing.
\<close>

section \<open>State\<close>

datatype watch_phase = Streaming | Reconciling | Backoff | Probing | Leaving

text \<open>The lanes whose requests the workers are serving, and those that have sent the request for the event they
  handle; \<open>wt_over\<close> says that the context has ended or the manager is stopping.\<close>

record watcher =
  wt_ds :: dispatcher
  wt_phase :: watch_phase
  wt_delay :: nat
  wt_creating :: "nat option"
  wt_deleting :: "nat option"
  wt_asked :: "nat set"
  wt_over :: bool

definition newWatcher :: watcher where
  "newWatcher = \<lparr>wt_ds = newDockerEventDispatcher, wt_phase = Streaming, wt_delay = initialReconnectDelay,
     wt_creating = None, wt_deleting = None, wt_asked = {}, wt_over = False\<rparr>"

definition at_select :: "watcher \<Rightarrow> bool" where
  "at_select w \<longleftrightarrow> wt_phase w = Streaming \<and> ds_owner (wt_ds w) = Watching"

definition leave_loop :: "watcher \<Rightarrow> watcher" where
  "leave_loop w = w\<lparr>wt_phase := Leaving, wt_ds := (wt_ds w)\<lparr>ds_owner := Returning\<rparr>\<rparr>"

text \<open>After a tick or a reconnect: reconcile, unless events are active.\<close>

definition reconcile_phase :: "watcher \<Rightarrow> watch_phase" where
  "reconcile_phase w = (if active (wt_ds w) then Streaming else Reconciling)"

section \<open>The loop\<close>

inductive watch_step :: "watcher \<Rightarrow> watcher \<Rightarrow> bool" where
  message: "at_select w \<Longrightarrow>
    watch_step w (w\<lparr>wt_delay := initialReconnectDelay, wt_ds := dispatch msg (wt_ds w)\<rparr>)"
| accept: "ds_owner (wt_ds w) = Sending a msg \<Longrightarrow> length (ln_events (ds_store (wt_ds w) ! a)) < dockerEventLaneDepth \<Longrightarrow>
    watch_step w (w\<lparr>wt_ds := accept_event a msg (wt_ds w)\<rparr>)"
| refuse: "ds_owner (wt_ds w) = Sending a msg \<Longrightarrow> wt_over w \<Longrightarrow>
    watch_step w (w\<lparr>wt_phase := Leaving, wt_ds := refuse_event a (wt_ds w)\<rparr>)"
| reap: "at_select w \<or> wt_phase w = Probing \<Longrightarrow> ds_lanes (wt_ds w) containerID = Some a \<Longrightarrow>
    ln_pending (ds_store (wt_ds w) ! a) = 0 \<Longrightarrow> watch_step w (w\<lparr>wt_ds := close_lane containerID a (wt_ds w)\<rparr>)"
| tick: "at_select w \<Longrightarrow> watch_step w (w\<lparr>wt_phase := reconcile_phase w\<rparr>)"
| reconciled: "wt_phase w = Reconciling \<Longrightarrow> watch_step w (w\<lparr>wt_phase := Streaming\<rparr>)"
| stream_end: "at_select w \<Longrightarrow> watch_step w (w\<lparr>wt_phase := Backoff\<rparr>)"
| ended: "at_select w \<Longrightarrow> wt_over w \<Longrightarrow> watch_step w (leave_loop w)"
| backed_off: "wt_phase w = Backoff \<Longrightarrow> waitForReconnect woken \<Longrightarrow>
    watch_step w (w\<lparr>wt_phase := Probing, wt_delay := next_delay (wt_delay w)\<rparr>)"
| backoff_ended: "wt_phase w = Backoff \<Longrightarrow> \<not> waitForReconnect woken \<Longrightarrow> wt_over w \<Longrightarrow> watch_step w (leave_loop w)"
| docker_back: "wt_phase w = Probing \<Longrightarrow> waitForDocker initialReconnectDelay attempts = (Some True, delays) \<Longrightarrow>
    watch_step w (w\<lparr>wt_phase := reconcile_phase w\<rparr>)"
| probing_ended: "wt_phase w = Probing \<Longrightarrow> waitForDocker initialReconnectDelay attempts = (Some False, delays) \<Longrightarrow>
    wt_over w \<Longrightarrow> watch_step w (leave_loop w)"
| close: "wt_phase w = Leaving \<Longrightarrow> owner_step (wt_ds w) ds \<Longrightarrow> watch_step w (w\<lparr>wt_ds := ds\<rparr>)"

section \<open>Handlers and workers\<close>

definition waits_for_worker :: "watcher \<Rightarrow> nat \<Rightarrow> bool" where
  "waits_for_worker w a \<longleftrightarrow> wt_creating w = Some a \<or> wt_deleting w = Some a"

text \<open>A handler is done when its request is answered, when there is nothing to ask for, or when the manager ends.\<close>

definition handler_done :: "watcher \<Rightarrow> nat \<Rightarrow> message \<Rightarrow> bool" where
  "handler_done w a msg \<longleftrightarrow> wt_over w \<or> (a \<in> wt_asked w \<and> \<not> waits_for_worker w a) \<or>
     (a \<notin> wt_asked w \<and> (\<exists>D. handleDockerEvent D msg = Inr None))"

inductive handler_step :: "watcher \<Rightarrow> watcher \<Rightarrow> bool" where
  receive: "lane_at (wt_ds w) a l \<Longrightarrow> ln_phase l = Receiving \<Longrightarrow> ln_events l \<noteq> [] \<Longrightarrow>
    handler_step w (w\<lparr>wt_ds := receive_event a (wt_ds w)\<rparr>)"
| ask_create: "lane_at (wt_ds w) a l \<Longrightarrow> ln_phase l = Handling msg \<Longrightarrow> a \<notin> wt_asked w \<Longrightarrow>
    handleDockerEvent D msg = Inr (Some (CreateRequest container isNew)) \<Longrightarrow> wt_creating w = None \<Longrightarrow>
    handler_step w (w\<lparr>wt_creating := Some a, wt_asked := insert a (wt_asked w)\<rparr>)"
| ask_delete: "lane_at (wt_ds w) a l \<Longrightarrow> ln_phase l = Handling msg \<Longrightarrow> a \<notin> wt_asked w \<Longrightarrow>
    handleDockerEvent D msg = Inr (Some (DeleteRequest cid name)) \<Longrightarrow> wt_deleting w = None \<Longrightarrow>
    handler_step w (w\<lparr>wt_deleting := Some a, wt_asked := insert a (wt_asked w)\<rparr>)"
| created: "wt_creating w = Some a \<Longrightarrow> handler_step w (w\<lparr>wt_creating := None\<rparr>)"
| deleted: "wt_deleting w = Some a \<Longrightarrow> handler_step w (w\<lparr>wt_deleting := None\<rparr>)"
| finish: "lane_at (wt_ds w) a l \<Longrightarrow> ln_phase l = Handling msg \<Longrightarrow> handler_done w a msg \<Longrightarrow>
    handler_step w (w\<lparr>wt_ds := finish_event a (wt_ds w), wt_asked := wt_asked w - {a}\<rparr>)"
| settle: "lane_at (wt_ds w) a l \<Longrightarrow> ln_phase l = Settling \<Longrightarrow> handler_step w (w\<lparr>wt_ds := settle_event a (wt_ds w)\<rparr>)"
| exit: "lane_at (wt_ds w) a l \<Longrightarrow> ln_phase l = Receiving \<Longrightarrow> ln_events l = [] \<Longrightarrow> ln_closed l \<Longrightarrow>
    handler_step w (w\<lparr>wt_ds := exit_lane a (wt_ds w)\<rparr>)"
| stopping: "handler_step w (w\<lparr>wt_over := True\<rparr>)"

inductive watch_reachable :: "watcher \<Rightarrow> bool" where
  init: "watch_reachable newWatcher"
| watch: "watch_reachable w \<Longrightarrow> watch_step w w' \<Longrightarrow> watch_reachable w'"
| handler: "watch_reachable w \<Longrightarrow> handler_step w w' \<Longrightarrow> watch_reachable w'"

section \<open>The invariant\<close>

definition handling_at :: "dispatcher \<Rightarrow> nat \<Rightarrow> bool" where
  "handling_at ds a \<longleftrightarrow> a < length (ds_store ds) \<and> is_handling (ds_store ds ! a)"

lemma handling_update:
  "handling_at ds a \<Longrightarrow> is_handling (f (ds_store ds ! b)) \<or> a \<noteq> b \<Longrightarrow> handling_at (update_lane b f ds) a"
  by (cases "a = b") (auto simp: handling_at_def update_lane_def)

lemma handling_ext [simp]:
  "handling_at (ds\<lparr>ds_active := n\<rparr>) a = handling_at ds a" "handling_at (ds\<lparr>ds_owner := o'\<rparr>) a = handling_at ds a"
  "handling_at (ds\<lparr>ds_accepted := es\<rparr>) a = handling_at ds a" "handling_at (ds\<lparr>ds_started := es\<rparr>) a = handling_at ds a"
  "handling_at (ds\<lparr>ds_lanes := m\<rparr>) a = handling_at ds a"
  by (simp_all add: handling_at_def)

lemma handling_kept:
  "(\<And>l. is_handling (f l) = is_handling l) \<Longrightarrow> handling_at ds a \<Longrightarrow> handling_at (update_lane b f ds) a"
  by (rule handling_update) (auto simp: handling_at_def)

lemma handling_dispatch:
  assumes "handling_at ds a"
  shows "handling_at (dispatch msg ds) a"
proof -
  obtain ds1 b where open_lane: "open_lane (dockerEventContainerID msg) ds = (ds1, b)" by fastforce
  have "handling_at (fst (open_lane c ds)) a" for c
    using assms by (simp add: open_lane_def Let_def handling_at_def nth_append split: option.splits)
  from this [of "dockerEventContainerID msg"] have "handling_at ds1 a" by (simp add: open_lane)
  then have "handling_at (update_lane b (\<lambda>l. l\<lparr>ln_pending := ln_pending l + 1\<rparr>) ds1) a"
    by (rule handling_kept [rotated]) (simp add: is_handling_def)
  then show ?thesis using assms by (simp add: dispatch_def open_lane)
qed

lemma handling_owner_step: "owner_step ds ds' \<Longrightarrow> handling_at ds a \<Longrightarrow> handling_at ds' a"
  by (induction rule: owner_step.induct)
    (simp_all add: handling_dispatch accept_event_def refuse_event_def close_lane_def handling_kept is_handling_def)

definition worker_busy_ok :: "watcher \<Rightarrow> bool" where
  "worker_busy_ok w \<longleftrightarrow> (\<forall>a. waits_for_worker w a \<longrightarrow> wt_over w \<or> (a \<in> wt_asked w \<and> handling_at (wt_ds w) a))"

definition phase_ok :: "watcher \<Rightarrow> bool" where
  "phase_ok w \<longleftrightarrow>
     (wt_phase w = Leaving \<longleftrightarrow> ds_owner (wt_ds w) \<in> {Returning, Stopped}) \<and>
     (wt_phase w \<in> {Reconciling, Backoff, Probing} \<longrightarrow> ds_owner (wt_ds w) = Watching) \<and>
     (wt_phase w = Reconciling \<longrightarrow> \<not> active (wt_ds w))"

definition delay_ok :: "watcher \<Rightarrow> bool" where
  "delay_ok w \<longleftrightarrow> initialReconnectDelay \<le> wt_delay w \<and> wt_delay w \<le> maximumReconnectDelay"

definition watch_inv :: "watcher \<Rightarrow> bool" where
  "watch_inv w \<longleftrightarrow> events_reachable (wt_ds w) \<and> phase_ok w \<and> worker_busy_ok w \<and> delay_ok w"

lemma at_selectD: "at_select w \<Longrightarrow> wt_phase w = Streaming \<and> ds_owner (wt_ds w) = Watching"
  by (simp add: at_select_def)

lemma owner_of_update [simp]: "ds_owner (update_lane a f ds) = ds_owner ds"
  by (simp add: update_lane_def)

lemma active_of_update [simp]: "ds_active (update_lane a f ds) = ds_active ds"
  by (simp add: update_lane_def)

lemma open_lane_owner: "open_lane c ds = (ds', a) \<Longrightarrow> ds_owner ds' = ds_owner ds"
  by (auto simp: open_lane_def Let_def split: option.splits)

lemma dispatch_owner: "ds_owner (dispatch msg ds) = ds_owner ds \<or> (\<exists>a. ds_owner (dispatch msg ds) = Sending a msg)"
  by (simp add: dispatch_def split: prod.splits)

lemma watch_owner_step:
  assumes "watch_step w w'"
  shows "wt_ds w' = wt_ds w \<or> owner_step (wt_ds w) (wt_ds w') \<or> \<not> phase_ok w"
  using assms
proof cases
  case (message msg)
  then show ?thesis using owner_step.dispatch by (simp add: at_select_def)
next
  case (reap c a)
  then show ?thesis using owner_step.reap by (auto simp: at_select_def phase_ok_def)
next
  case ended
  then show ?thesis using owner_step.return by (auto simp: at_select_def leave_loop_def)
next
  case (backoff_ended woken)
  then show ?thesis using owner_step.return by (auto simp: phase_ok_def leave_loop_def)
next
  case (probing_ended attempts delays)
  then show ?thesis using owner_step.return by (auto simp: phase_ok_def leave_loop_def)
qed (auto intro: owner_step.intros)

lemma draining_owner_step:
  assumes "owner_step ds ds'" "ds_owner ds \<in> {Returning, Stopped}"
  shows "ds_owner ds' \<in> {Returning, Stopped}"
  using assms by cases (auto simp: close_lane_def)

lemma watch_phase_ok:
  assumes "watch_step w w'" "phase_ok w"
  shows "phase_ok w'"
  using assms
proof cases
  case (message msg)
  then show ?thesis using dispatch_owner [of msg "wt_ds w"] by (auto simp: phase_ok_def at_select_def)
next
  case (accept a msg)
  then have "wt_phase w = Streaming" using assms(2) by (cases "wt_phase w") (auto simp: phase_ok_def)
  then show ?thesis using accept by (simp add: phase_ok_def accept_event_def)
next
  case (refuse a msg)
  then show ?thesis by (simp add: phase_ok_def refuse_event_def)
next
  case (reap c a)
  then show ?thesis using assms(2) by (auto simp: phase_ok_def at_select_def close_lane_def active_def)
next
  case (close ds)
  then show ?thesis using assms(2) draining_owner_step [OF close(3)] by (auto simp: phase_ok_def)
qed (auto simp: phase_ok_def at_select_def leave_loop_def reconcile_phase_def)

lemma watch_busy_ok:
  assumes "watch_step w w'" "worker_busy_ok w" "phase_ok w"
  shows "worker_busy_ok w'"
proof -
  have same: "wt_creating w' = wt_creating w" "wt_deleting w' = wt_deleting w" "wt_asked w' = wt_asked w" "wt_over w' = wt_over w"
    using assms(1) by (cases, simp_all add: leave_loop_def)+
  have "handling_at (wt_ds w') a" if "handling_at (wt_ds w) a" for a
    using watch_owner_step [OF assms(1)] assms(3) handling_owner_step that by metis
  then show ?thesis using assms(2) unfolding worker_busy_ok_def waits_for_worker_def same by blast
qed

lemma watch_delay_ok: "watch_step w w' \<Longrightarrow> delay_ok w \<Longrightarrow> delay_ok w'"
  by (induction rule: watch_step.induct)
    (simp_all add: delay_ok_def next_delay_def leave_loop_def initialReconnectDelay_def maximumReconnectDelay_def)

lemma watch_step_inv:
  assumes "watch_step w w'" "watch_inv w"
  shows "watch_inv w'"
proof -
  have inv: "events_reachable (wt_ds w)" "phase_ok w" "worker_busy_ok w" "delay_ok w"
    using assms(2) by (simp_all add: watch_inv_def)
  have "events_reachable (wt_ds w')"
    using watch_owner_step [OF assms(1)] inv(1,2) events_reachable.owner by metis
  then show ?thesis
    using watch_phase_ok watch_busy_ok watch_delay_ok assms(1) inv by (simp add: watch_inv_def)
qed

text \<open>A handler's step is a step of its lane, or leaves the dispatcher alone.\<close>

lemma handler_lane_step: "handler_step w w' \<Longrightarrow> wt_ds w' = wt_ds w \<or> lane_step (wt_ds w) (wt_ds w')"
  by (induction rule: handler_step.induct) (auto intro: lane_step.intros)

lemma lane_step_counts: "lane_step ds ds' \<Longrightarrow> ds_owner ds' = ds_owner ds \<and> ds_active ds' \<le> ds_active ds"
  by (induction rule: lane_step.induct)
    (simp_all add: receive_event_def finish_event_def settle_event_def exit_lane_def Let_def)

lemma handler_phase_ok:
  assumes "handler_step w w'" "phase_ok w"
  shows "phase_ok w'"
proof -
  have "wt_phase w' = wt_phase w" using assms(1) by cases simp_all
  moreover have "ds_owner (wt_ds w') = ds_owner (wt_ds w)" "ds_active (wt_ds w') \<le> ds_active (wt_ds w)"
    using handler_lane_step [OF assms(1)] lane_step_counts by fastforce+
  ultimately show ?thesis using assms(2) by (auto simp: phase_ok_def active_def)
qed

lemma handler_busy_ok:
  assumes "handler_step w w'" "worker_busy_ok w"
  shows "worker_busy_ok w'"
  using assms(1)
proof cases
  case (receive a l)
  then show ?thesis
    using assms(2) handling_update [of "wt_ds w" _ "\<lambda>l. l\<lparr>ln_events := tl (ln_events l), ln_phase := Handling (hd (ln_events (ds_store (wt_ds w) ! a)))\<rparr>" a]
    by (auto simp: worker_busy_ok_def waits_for_worker_def receive_event_def Let_def is_handling_def)
next
  case (ask_create a l msg D container isNew)
  then show ?thesis
    using assms(2) by (auto simp: worker_busy_ok_def waits_for_worker_def lane_at_def handling_at_def is_handling_def)
next
  case (ask_delete a l msg D cid name)
  then show ?thesis
    using assms(2) by (auto simp: worker_busy_ok_def waits_for_worker_def lane_at_def handling_at_def is_handling_def)
next
  case (finish a l msg)
  have other: "handling_at (finish_event a (wt_ds w)) b" if "handling_at (wt_ds w) b" "b \<noteq> a" for b
    unfolding finish_event_def using that by (intro handling_update) auto
  have free: "\<not> waits_for_worker w a" if "\<not> wt_over w"
    using finish(4) assms(2) that by (auto simp: handler_done_def worker_busy_ok_def)
  show ?thesis
    unfolding worker_busy_ok_def
  proof (intro allI impI)
    fix b assume "waits_for_worker w' b"
    then have b: "waits_for_worker w b" using finish(1) by (simp add: waits_for_worker_def)
    show "wt_over w' \<or> b \<in> wt_asked w' \<and> handling_at (wt_ds w') b"
      using assms(2) b free other finish(1) by (cases "b = a") (auto simp: worker_busy_ok_def)
  qed
next
  case (settle a l)
  have "handling_at (settle_event a (wt_ds w)) b" if "handling_at (wt_ds w) b" for b
  proof -
    have "b \<noteq> a" using that settle(2,3) by (auto simp: handling_at_def lane_at_def is_handling_def)
    then show ?thesis using that by (simp add: settle_event_def handling_update)
  qed
  then show ?thesis using settle(1) assms(2) by (auto simp: worker_busy_ok_def waits_for_worker_def)
next
  case (exit a l)
  have "handling_at (exit_lane a (wt_ds w)) b" if "handling_at (wt_ds w) b" for b
  proof -
    have "b \<noteq> a" using that exit(2,3) by (auto simp: handling_at_def lane_at_def is_handling_def)
    then show ?thesis using that by (simp add: exit_lane_def handling_update)
  qed
  then show ?thesis using exit(1) assms(2) by (auto simp: worker_busy_ok_def waits_for_worker_def)
qed (use assms(2) in \<open>auto simp: worker_busy_ok_def waits_for_worker_def\<close>)

lemma handler_step_inv:
  assumes "handler_step w w'" "watch_inv w"
  shows "watch_inv w'"
proof -
  have "events_reachable (wt_ds w')"
    using handler_lane_step [OF assms(1)] assms(2) events_reachable.lane unfolding watch_inv_def by metis
  moreover have "wt_delay w' = wt_delay w" using assms(1) by cases simp_all
  ultimately show ?thesis
    using handler_phase_ok [OF assms(1)] handler_busy_ok [OF assms(1)] assms(2) by (simp add: watch_inv_def delay_ok_def)
qed

lemma watch_reachable_inv: "watch_reachable w \<Longrightarrow> watch_inv w"
proof (induction rule: watch_reachable.induct)
  case init
  have "events_reachable (wt_ds newWatcher)" by (simp add: newWatcher_def events_reachable.init)
  then show ?case
    by (simp add: watch_inv_def newWatcher_def phase_ok_def worker_busy_ok_def waits_for_worker_def
        delay_ok_def newDockerEventDispatcher_def initialReconnectDelay_def maximumReconnectDelay_def)
qed (use watch_step_inv handler_step_inv in blast)+

section \<open>The property\<close>

text \<open>C36: the loop that watches Docker only takes the dispatcher through steps of its own, so that events stay in order
  and none is lost; while it reconciles, after a tick or a reconnect, no handler is at work, no event is queued and,
  unless the manager is ending, neither worker is serving a request, so that a reconciliation does not run into the
  treatment of an event; when it has returned, and the channels of the workers are closed, every lane has ended and
  no handler can send on them; and the delay before a reconnect stays between one second and thirty.\<close>

theorem watchDocker_correct:
  assumes "watch_reachable w"
  shows "events_reachable (wt_ds w) \<and>
    (wt_phase w = Reconciling \<longrightarrow> (\<forall>a l. lane_at (wt_ds w) a l \<longrightarrow> ln_events l = [] \<and> \<not> is_handling l) \<and>
       (\<not> wt_over w \<longrightarrow> wt_creating w = None \<and> wt_deleting w = None)) \<and>
    (ds_owner (wt_ds w) = Stopped \<longrightarrow> (\<forall>a l. lane_at (wt_ds w) a l \<longrightarrow> ln_phase l = Exited)) \<and>
    initialReconnectDelay \<le> wt_delay w \<and> wt_delay w \<le> maximumReconnectDelay"
proof -
  have inv: "events_reachable (wt_ds w)" "phase_ok w" "worker_busy_ok w" "delay_ok w"
    using watch_reachable_inv [OF assms] by (simp_all add: watch_inv_def)
  have idle: "ln_events l = [] \<and> \<not> is_handling l" if "wt_phase w = Reconciling" "lane_at (wt_ds w) a l" for a l
    using inactive_lanes_idle [OF inv(1) _ that(2)] inv(2) that(1) by (auto simp: phase_ok_def is_handling_def)
  have "wt_creating w = None \<and> wt_deleting w = None" if "wt_phase w = Reconciling" "\<not> wt_over w"
  proof -
    have "\<not> waits_for_worker w a" for a
      using inv(3) that idle [OF that(1), of a] by (auto simp: worker_busy_ok_def handling_at_def lane_at_def)
    then show ?thesis by (cases "wt_creating w"; cases "wt_deleting w") (auto simp: waits_for_worker_def)
  qed
  then show ?thesis
    using inv(1,4) idle stopped_exited [OF inv(1)] by (auto simp: delay_ok_def list_all_length lane_at_def)
qed

text \<open>A container dies, its policy is deleted, and the ticker reconciles.\<close>

definition died_dispatcher :: dispatcher where
  "died_dispatcher = receive_event 0 (accept_event 0 die_event (dispatch die_event newDockerEventDispatcher))"

definition reconciling_watcher :: watcher where
  "reconciling_watcher = newWatcher\<lparr>wt_ds := settle_event 0 (finish_event 0 died_dispatcher), wt_phase := Reconciling\<rparr>"

lemma die_request: "handleDockerEvent D die_event = Inr (Some (DeleteRequest ''0123456789ab'' (label [] ''name'')))"
  by (simp add: handleDockerEvent_def die_event_def start_event_def event_names)

lemma died_facts:
  "ds_owner (dispatch die_event newDockerEventDispatcher) = Sending 0 die_event"
  "ln_events (ds_store (dispatch die_event newDockerEventDispatcher) ! 0) = []"
  "lane_at (accept_event 0 die_event (dispatch die_event newDockerEventDispatcher)) 0
     (ds_store (accept_event 0 die_event (dispatch die_event newDockerEventDispatcher)) ! 0)"
  "ln_phase (ds_store (accept_event 0 die_event (dispatch die_event newDockerEventDispatcher)) ! 0) = Receiving"
  "ln_events (ds_store (accept_event 0 die_event (dispatch die_event newDockerEventDispatcher)) ! 0) = [die_event]"
  "lane_at died_dispatcher 0 (ds_store died_dispatcher ! 0)"
  "ln_phase (ds_store died_dispatcher ! 0) = Handling die_event"
  "lane_at (finish_event 0 died_dispatcher) 0 (ds_store (finish_event 0 died_dispatcher) ! 0)"
  "ln_phase (ds_store (finish_event 0 died_dispatcher) ! 0) = Settling"
  "ds_owner (settle_event 0 (finish_event 0 died_dispatcher)) = Watching"
  "ds_active (settle_event 0 (finish_event 0 died_dispatcher)) = 0"
  "ds_accepted (settle_event 0 (finish_event 0 died_dispatcher)) = [die_event]"
  by (simp_all add: died_dispatcher_def dispatcher_defs lane_at_def finish_event_def settle_event_def)

lemma new_watcher [simp]:
  "wt_phase newWatcher = Streaming" "wt_ds newWatcher = newDockerEventDispatcher" "wt_delay newWatcher = initialReconnectDelay"
  "wt_creating newWatcher = None" "wt_deleting newWatcher = None" "wt_asked newWatcher = {}" "wt_over newWatcher = False"
  by (simp_all add: newWatcher_def)

lemma died_reachable: "watch_reachable (newWatcher\<lparr>wt_ds := died_dispatcher\<rparr>)"
proof -
  let ?d1 = "dispatch die_event newDockerEventDispatcher"
  let ?d2 = "accept_event 0 die_event ?d1"
  have 1: "watch_reachable (newWatcher\<lparr>wt_ds := ?d1\<rparr>)"
    using watch_reachable.watch [OF watch_reachable.init watch_step.message [of newWatcher die_event]]
    by (simp add: at_select_def newWatcher_def newDockerEventDispatcher_def [THEN arg_cong [where f = ds_owner]])
  have "watch_step (newWatcher\<lparr>wt_ds := ?d1\<rparr>) (newWatcher\<lparr>wt_ds := ?d2\<rparr>)"
    using watch_step.accept [of "newWatcher\<lparr>wt_ds := ?d1\<rparr>" 0 die_event] by (simp add: died_facts dockerEventLaneDepth_def)
  then have 2: "watch_reachable (newWatcher\<lparr>wt_ds := ?d2\<rparr>)" by (rule watch_reachable.watch [OF 1])
  have "handler_step (newWatcher\<lparr>wt_ds := ?d2\<rparr>) (newWatcher\<lparr>wt_ds := died_dispatcher\<rparr>)"
    using handler_step.receive [of "newWatcher\<lparr>wt_ds := ?d2\<rparr>" 0 "ds_store ?d2 ! 0"]
    by (simp add: died_facts died_dispatcher_def [symmetric])
  then show ?thesis by (rule watch_reachable.handler [OF 2])
qed

lemma reconciling_reachable: "watch_reachable reconciling_watcher"
proof -
  let ?w = "newWatcher\<lparr>wt_ds := died_dispatcher\<rparr>"
  let ?asked = "?w\<lparr>wt_deleting := Some 0, wt_asked := {0}\<rparr>"
  let ?answered = "?w\<lparr>wt_asked := {0}\<rparr>"
  let ?done = "newWatcher\<lparr>wt_ds := finish_event 0 died_dispatcher\<rparr>"
  let ?idle = "newWatcher\<lparr>wt_ds := settle_event 0 (finish_event 0 died_dispatcher)\<rparr>"
  have "handler_step ?w ?asked"
    using handler_step.ask_delete [of ?w 0 "ds_store died_dispatcher ! 0" die_event] die_request by (simp add: died_facts)
  then have 1: "watch_reachable ?asked" by (rule watch_reachable.handler [OF died_reachable])
  have "handler_step ?asked ?answered" using handler_step.deleted [of ?asked 0] by (simp add: newWatcher_def)
  then have 2: "watch_reachable ?answered" by (rule watch_reachable.handler [OF 1])
  have "handler_step ?answered ?done"
    using handler_step.finish [of ?answered 0 "ds_store died_dispatcher ! 0" die_event]
    by (simp add: died_facts handler_done_def waits_for_worker_def newWatcher_def)
  then have 3: "watch_reachable ?done" by (rule watch_reachable.handler [OF 2])
  have "handler_step ?done ?idle"
    using handler_step.settle [of ?done 0 "ds_store (finish_event 0 died_dispatcher) ! 0"] by (simp add: died_facts)
  then have 4: "watch_reachable ?idle" by (rule watch_reachable.handler [OF 3])
  have "watch_step ?idle reconciling_watcher"
    using watch_step.tick [of ?idle]
    by (simp add: reconciling_watcher_def at_select_def reconcile_phase_def active_def died_facts)
  then show ?thesis by (rule watch_reachable.watch [OF 4])
qed

theorem watchDocker_correct_witness:
  "watch_reachable reconciling_watcher \<and> wt_phase reconciling_watcher = Reconciling \<and>
   ds_accepted (wt_ds reconciling_watcher) = [die_event] \<and>
   wt_creating reconciling_watcher = None \<and> wt_deleting reconciling_watcher = None"
  using reconciling_reachable watchDocker_correct [OF reconciling_reachable]
  by (simp add: reconciling_watcher_def died_facts)

end
