(* ===== verification/Command.thy ===== *)
theory Command
  imports Manager
begin

text \<open>
  The command (\<open>cmd/whalewall/main.go\<close>): it checks its host, opens the database, gives up the privileges it does not
  need, and then clears the rules or starts the manager. What the host answers is gathered in a record; a fatal
  log message ends the process with exit code 1. Logging, flag parsing and the warning about old kernels are not
  modelled, nor is the table of system calls behind \<open>installSeccompFilters\<close>; after the start the manager
  runs as \<open>Watch\<close> says until the process is told to end.
\<close>

record command_line =
  cl_clear :: bool
  cl_version :: bool
  cl_dataDir :: string
  cl_logPath :: string

datatype path_rule = RODirs string | RWFiles "string list" | WriteAccess string | ReadAccessIfPresent "string list"

text \<open>\<open>ho_buildInfo\<close> holds the build settings, \<open>ho_netfilter\<close> the file that \<open>ValidateRuntimePrerequisites\<close> reads.\<close>

record host =
  ho_buildInfo :: "(string \<times> string) list option"
  ho_logger :: "error option"
  ho_netfilter :: "string result"
  ho_abs :: "string \<Rightarrow> string result"
  ho_landlock :: "path_rule list \<Rightarrow> error option"
  ho_noLandlock :: "error \<Rightarrow> bool"
  ho_seccomp :: "error option"
  ho_setup :: "string \<Rightarrow> db_setup"

definition dbFilename :: string where "dbFilename = ''db.sqlite''"

definition join_path :: "string \<Rightarrow> string \<Rightarrow> string" where
  "join_path dir name = (if dir = ''/'' then dir @ name else dir @ ''/'' @ name)"

definition allowedPaths :: "string \<Rightarrow> string \<Rightarrow> string \<Rightarrow> path_rule list" where
  "allowedPaths dir sqliteFile logPath =
     [RODirs dir, RWFiles [sqliteFile, sqliteFile @ ''-wal'', sqliteFile @ ''-shm'']] @
     (if logPath \<noteq> ''stdout'' \<and> logPath \<noteq> ''stderr'' then [WriteAccess logPath] else []) @
     [ReadAccessIfPresent [''/etc/protocols'', ''/etc/services'', ''/etc/localtime'', ''/etc/nsswitch.conf'',
        ''/etc/resolv.conf'', ''/etc/hosts'']]"

definition restrictPrivileges :: "host \<Rightarrow> path_rule list \<Rightarrow> bool" where
  "restrictPrivileges ho paths =
     (case ho_landlock ho paths of
        Some e \<Rightarrow> if ho_noLandlock ho e then ho_seccomp ho = None else False
      | None \<Rightarrow> ho_seccomp ho = None)"

datatype main_action = PrintVersion | Restrict "path_rule list" | ClearRules | StartManager | StopManager

text \<open>The world afterwards, what the command has done, and its exit code.\<close>

definition mainRetCode ::
    "command_line \<Rightarrow> host \<Rightarrow> 'c environment \<Rightarrow> error option \<Rightarrow> error option \<Rightarrow> (summary list \<Rightarrow> summary list) \<Rightarrow>
     (inspectResponse \<Rightarrow> run_context) \<Rightarrow> (string \<Rightarrow> bool) \<Rightarrow> 'c \<times> sqlite \<Rightarrow> ('c \<times> sqlite) \<times> main_action list \<times> nat" where
  "mainRetCode cl ho En ctxErr initErr sort_func ctx start w =
     (case ho_buildInfo ho of
        None \<Rightarrow> (w, [], 1)
      | Some settings \<Rightarrow>
      if cl_version cl then (w, [PrintVersion], 0)
      else if ho_logger ho \<noteq> None then (w, [], 1)
      else if \<not> cl_clear cl \<and> validateBridgeNetfilter (ho_netfilter ho) \<noteq> None then (w, [], 1)
      else
      (case ho_abs ho (cl_dataDir cl) of
        Inl e \<Rightarrow> (w, [], 1)
      | Inr dir \<Rightarrow>
      (let sqliteFile = join_path dir dbFilename;
           paths = allowedPaths dir sqliteFile (cl_logPath cl)
       in
      (case initDB (ho_setup ho sqliteFile) ctxErr (snd w) of
        (E, conn, Some e) \<Rightarrow> ((fst w, E), [], 1)
      | (E, conn, None) \<Rightarrow>
      if \<not> restrictPrivileges ho paths then ((fst w, E), [], 1)
      else if cl_clear cl then
        (case Clear (en_firewall En) (en_marshal En) ctxErr sqliteFile (fst w, E) of
           (w, Some e) \<Rightarrow> (w, [Restrict paths, ClearRules], 1)
         | (w, None) \<Rightarrow> (w, [Restrict paths, ClearRules], 0))
      else if list_ex (\<lambda>(key, value). key = ''CGO_ENABLED'' \<and> value \<noteq> ''0'') settings then ((fst w, E), [Restrict paths], 1)
      else
        (case Start En initErr sort_func ctxErr ctx start (fst w, E) of
           (w, Some e) \<Rightarrow> (w, [Restrict paths, StartManager, StopManager], 1)
         | (w, None) \<Rightarrow> (w, [Restrict paths, StartManager, StopManager], 0))))))"

text \<open>The kernel's rules are not touched before the privileges are given up, and the manager is only started
  on a host on which bridged traffic passes the rules.\<close>

lemma main_restricts_first:
  assumes "mainRetCode cl ho En ctxErr initErr sort_func ctx start w = (w', acts, code)"
  shows "fst w' = fst w \<or> (\<exists>paths rest. acts = Restrict paths # rest \<and> restrictPrivileges ho paths)"
    and "StartManager \<in> set acts \<Longrightarrow> validateBridgeNetfilter (ho_netfilter ho) = None \<and> \<not> cl_clear cl"
  using assms by (auto simp: mainRetCode_def Let_def split: option.splits sum.splits prod.splits if_splits)

end
