(* ===== verification/Output_Correct.thy ===== *)
theory Output_Correct
  imports Create Port_Mapping_Correct
begin

text \<open>
  What the output rules of a container decide. \<open>output_decision\<close> reads it off the configured rule: the
  container's addresses on the rule's network, or on every managed one, and the rule's selectors and
  verdict; a rule that is passed over decides nothing. \<open>createOutputRules\<close> decides by the first rule that
  does, in the order of the configuration.
\<close>

section \<open>Decisions\<close>

definition outbound_decision :: "ruleConfig \<Rightarrow> nft_chain \<Rightarrow> byte list \<Rightarrow> decision" where
  "outbound_decision cfg chain addr n p =
     (if ch_Name chain = n \<and> rule_spec False False stateNew addr cfg p then Some (verdict_expr_of cfg) else None)"

definition output_decision :: "string \<Rightarrow> (string \<times> byte list) list \<Rightarrow> nft_chain \<Rightarrow> ruleConfig \<Rightarrow> decision" where
  "output_decision project addrs chain cfg n p =
     (if r_Network cfg = [] then first_some (\<lambda>nm. outbound_decision cfg chain (address_bytes addrs nm) n p) (sorted_names addrs)
      else if r_Container cfg \<noteq> [] \<and> r_skip cfg then None
      else (case findNetwork (r_Network cfg) project addrs of
          None \<Rightarrow> None
        | Some (_, addr) \<Rightarrow> outbound_decision cfg chain addr n p))"

definition output_cfg_ok :: "ruleConfig \<Rightarrow> bool" where
  "output_cfg_ok cfg \<longleftrightarrow> cfg_selectors_wf cfg \<and> validateVerdict (r_Verdict cfg) = None"

text \<open>The rules are for the container's chain; those for replies may be in a peer's chain, marked as the
  container's.\<close>

definition output_owner :: "nft_chain \<Rightarrow> string \<Rightarrow> nft_chain \<Rightarrow> string \<Rightarrow> bool" where
  "output_owner chain cid ch u \<longleftrightarrow> ch = chain \<or> (\<exists>n i. ch = peer_chain n i) \<and> u = cid"

section \<open>Generators on both states\<close>

abbreviation "pair_generates ok committed staged \<equiv>
  generates (\<lambda>w. ok (fst w)) (\<lambda>w. committed (fst w)) (\<lambda>w. staged (fst w))"

lemma on_client_generates:
  assumes "generates ok committed staged A V f"
  shows "pair_generates ok committed staged A V (on_client f)"
  unfolding generates_def
proof (intro allI impI)
  fix w w' res
  assume w: "ok (fst w)" "on_client f w = (w', res)"
  then have "f (fst w) = (fst w', res)" by (auto simp: on_client_def split: prod.splits)
  from generatesD [OF assms w(1) this]
  show "ok (fst w') \<and> committed (fst w') = committed (fst w) \<and> (\<forall>rules rs'. res = Inr rules \<longrightarrow>
      staged (fst w') = Some rs' \<longrightarrow> set_step (staged (fst w)) rs' \<and> decides A V rs' rules)" by blast
qed

lemma after_tx_generates:
  assumes "\<And>x. pair_generates ok committed staged A V (h x)"
  shows "pair_generates ok committed staged A V
    (\<lambda>w. case on_tx f w of (w, Inl e) \<Rightarrow> (w, Inl e) | (w, Inr x) \<Rightarrow> h x w)"
  unfolding generates_def
proof (intro allI impI)
  fix w w' res
  assume w: "ok (fst w)" and run: "(case on_tx f w of (w, Inl e) \<Rightarrow> (w, Inl e) | (w, Inr x) \<Rightarrow> h x w) = (w', res)"
  obtain w1 r1 where tx: "on_tx f w = (w1, r1)" by (metis surj_pair)
  then have w1: "fst w1 = fst w" by (auto simp: on_tx_def split: prod.splits)
  show "ok (fst w') \<and> committed (fst w') = committed (fst w) \<and> (\<forall>rules rs'. res = Inr rules \<longrightarrow>
      staged (fst w') = Some rs' \<longrightarrow> set_step (staged (fst w)) rs' \<and> decides A V rs' rules)"
  proof (cases r1)
    case (Inl e)
    with tx run w w1 show ?thesis by auto
  next
    case (Inr x)
    with tx run have "h x w1 = (w', res)" by simp
    from generatesD [OF assms _ this] w w1 show ?thesis by (metis (no_types, lifting))
  qed
qed

lemma generates_eq: "generates ok committed staged A V f \<Longrightarrow> (\<And>c. g c = f c) \<Longrightarrow> generates ok committed staged A V g"
  using ext [of g f] by metis

section \<open>One rule\<close>

lemma prefixed_rule_sel [simp]:
  "r_Network (prefixed_rule name cid cfg) = r_Network cfg" "r_Container (prefixed_rule name cid cfg) = r_Container cfg"
  "r_skip (prefixed_rule name cid cfg) = r_skip cfg"
  by (simp_all add: prefixed_rule_def)

lemma prefixed_rule_spec [simp]:
  "rule_spec inbound reply state addr (prefixed_rule name cid cfg) = rule_spec inbound reply state addr cfg"
  "verdict_expr_of (prefixed_rule name cid cfg) = verdict_expr_of cfg"
  "output_cfg_ok (prefixed_rule name cid cfg) = output_cfg_ok cfg"
  by (auto simp: prefixed_rule_def rule_spec_def verdict_expr_of_def output_cfg_ok_def cfg_selectors_wf_def)

lemma outbound_rule_decision:
  "detail_decision (outbound_rule (prefixed_rule name cid cfg) addr chain cid) = outbound_decision cfg chain addr"
  "detail_decision ((outbound_rule (prefixed_rule name cid cfg) addr chain cid)\<lparr>rd_estChain := e, rd_contID := i, rd_estContID := j\<rparr>)
   = outbound_decision cfg chain addr"
  by (simp_all add: detail_decision_def outbound_rule_def outbound_decision_def fun_eq_iff)

lemma outbound_rule_ok:
  assumes "output_cfg_ok cfg" "ch_Table chain = Some filterTable" "addr = [] \<or> (\<exists>w. addr = be32 w)"
  shows "detail_ok (outbound_rule cfg addr chain cid)"
    "detail_ok ((outbound_rule cfg addr chain cid)\<lparr>rd_estChain := Some (peer_chain n i), rd_contID := i, rd_estContID := cid\<rparr>)"
  using assms by (simp_all add: detail_ok_def output_cfg_ok_def outbound_rule_def est_chain_def peer_chain_def regular_chain_def)

lemma outbound_rule_owner:
  "detail_owner (outbound_rule cfg addr chain cid) ch u \<Longrightarrow> output_owner chain cid ch u"
  "detail_owner ((outbound_rule cfg addr chain cid)\<lparr>rd_estChain := Some (peer_chain n i), rd_contID := i, rd_estContID := cid\<rparr>) ch u
   \<Longrightarrow> output_owner chain cid ch u"
  by (auto simp: detail_owner_def output_owner_def outbound_rule_def est_chain_def est_owner_def)

lemma findNetwork_address: "findNetwork n project addrs = Some (k, a) \<Longrightarrow> addresses_ok addrs \<Longrightarrow> \<exists>w. a = be32 w"
  by (auto simp: findNetwork_def addresses_ok_def split: option.splits dest!: map_of_SomeD)

context firewall_client
begin

abbreviation "generates2 \<equiv> pair_generates ok committed staged"

lemma outbound_generates:
  assumes "netipx_ok L" "output_cfg_ok cfg" "ch_Table chain = Some filterTable" "addr = [] \<or> (\<exists>w. addr = be32 w)"
  shows "generates2 (output_owner chain cid) (outbound_decision cfg chain addr)
      (on_client (firewall_rules F L (outbound_rule (prefixed_rule name cid cfg) addr chain cid)))"
    and "generates2 (output_owner chain cid) (outbound_decision cfg chain addr) (on_client (firewall_rules F L
      ((outbound_rule (prefixed_rule name cid cfg) addr chain cid)\<lparr>rd_estChain := Some (peer_chain n i), rd_contID := i, rd_estContID := cid\<rparr>)))"
proof -
  have c: "output_cfg_ok (prefixed_rule name cid cfg)" using assms(2) by simp
  have "generates ok committed staged (output_owner chain cid) (outbound_decision cfg chain addr)
      (firewall_rules F L (outbound_rule (prefixed_rule name cid cfg) addr chain cid))"
    using firewall_rules_generates [OF assms(1) outbound_rule_ok(1) [OF c assms(3,4), of cid]] outbound_rule_owner(1)
    unfolding outbound_rule_decision by (rule generates_mono)
  then show "generates2 (output_owner chain cid) (outbound_decision cfg chain addr)
      (on_client (firewall_rules F L (outbound_rule (prefixed_rule name cid cfg) addr chain cid)))"
    by (rule on_client_generates)
  have "generates ok committed staged (output_owner chain cid) (outbound_decision cfg chain addr) (firewall_rules F L
      ((outbound_rule (prefixed_rule name cid cfg) addr chain cid)\<lparr>rd_estChain := Some (peer_chain n i), rd_contID := i, rd_estContID := cid\<rparr>))"
    using firewall_rules_generates [OF assms(1) outbound_rule_ok(2) [OF c assms(3,4), of cid i n]] outbound_rule_owner(2)
    unfolding outbound_rule_decision by (rule generates_mono)
  then show "generates2 (output_owner chain cid) (outbound_decision cfg chain addr) (on_client (firewall_rules F L
      ((outbound_rule (prefixed_rule name cid cfg) addr chain cid)\<lparr>rd_estChain := Some (peer_chain n i), rd_contID := i, rd_estContID := cid\<rparr>)))"
    by (rule on_client_generates)
qed

lemma output_rule_generates:
  assumes L: "netipx_ok L" and cfg: "output_cfg_ok cfg" and chain: "ch_Table chain = Some filterTable" and addrs: "addresses_ok addrs"
  shows "generates2 (output_owner chain cid) (output_decision project addrs chain cfg) (output_rule F L project addrs chain name cid cfg)"
proof (cases "r_Network cfg = []")
  case True
  have "generates2 (output_owner chain cid) (\<lambda>n p. first_some (\<lambda>nm. outbound_decision cfg chain (address_bytes addrs nm) n p) (sorted_names addrs))
      (gen_each (\<lambda>nm. on_client (firewall_rules F L (outbound_rule (prefixed_rule name cid cfg) (address_bytes addrs nm) chain cid))) (sorted_names addrs))"
    by (rule generates_each, rule outbound_generates(1) [OF L cfg chain address_bytes_ok [OF addrs]])
  then show ?thesis
    by (rule generates_eq [OF generates_cong]) (simp_all add: output_decision_def True output_rule_def Let_def)
next
  case net: False
  show ?thesis
  proof (cases "findNetwork (r_Network cfg) project addrs")
    case None
    then show ?thesis by (intro generates_eq [OF generates_error]) (simp add: output_rule_def Let_def net)
  next
    case (Some x)
    then obtain k addr where f: "findNetwork (r_Network cfg) project addrs = Some (k, addr)" by (cases x) simp
    note og = outbound_generates [OF L cfg chain disjI2 [OF findNetwork_address [OF f addrs]]]
    show ?thesis
    proof (cases "r_Container cfg = []")
      case True
      then show ?thesis
        by (intro generates_eq [OF generates_cong [OF og(1)]]) (simp_all add: output_decision_def output_rule_def Let_def net f)
    next
      case cont: False
      show ?thesis
      proof (cases "r_skip cfg")
        case True
        then show ?thesis
          by (intro generates_eq [OF generates_cong [OF generates_none]])
            (simp_all add: output_decision_def output_rule_def Let_def net f cont)
      next
        case False
        have "generates2 (output_owner chain cid) (outbound_decision cfg chain addr)
          (\<lambda>w. case on_tx (destination (prefixed_rule name cid cfg)) w of (w, Inl e) \<Rightarrow> (w, Inl e)
            | (w, Inr x) \<Rightarrow> (case x of (dstID, dstName) \<Rightarrow> on_client (firewall_rules F L
                ((outbound_rule (prefixed_rule name cid cfg) addr chain cid)\<lparr>rd_estChain := Some (peer_chain dstName dstID),
                  rd_contID := dstID, rd_estContID := cid\<rparr>)) w))"
          by (rule after_tx_generates, unfold split_beta) (rule og(2))
        then show ?thesis
          by (rule generates_eq [OF generates_cong])
            (simp_all add: output_decision_def output_rule_def Let_def net f cont False split: prod.splits sum.splits)
      qed
    qed
  qed
qed

lemma createOutputRules_generates:
  assumes "netipx_ok L" "\<forall>cfg \<in> set cfgs. output_cfg_ok cfg" "ch_Table chain = Some filterTable" "addresses_ok addrs"
  shows "generates2 (output_owner chain cid) (\<lambda>n p. first_some (\<lambda>cfg. output_decision project addrs chain cfg n p) cfgs)
    (createOutputRules F L cfgs project addrs chain name cid)"
  unfolding createOutputRules_def [abs_def]
  by (rule generates_each, rule output_rule_generates) (use assms in auto)

end

section \<open>Properties\<close>

text \<open>C3: the rules generated for a container's output configuration admit (or drop, or hand on) what the
  configuration says, whichever nftables client runs them. A packet of a new connection is decided in the
  container's chain by the first configured rule that covers it: its source is the container's address on
  the rule's network (on any managed network when the rule names none), and destination, protocol and ports
  are as configured; a rule whose destination container is not there yet decides nothing, and no other chain
  decides anything. A rule put into the chain of another container carries this container's id, and nothing
  is committed by generating.\<close>

theorem createOutputRules_correct:
  assumes "firewall_client F ok committed staged" "ok c" "netipx_ok L" "\<forall>cfg \<in> set cfgs. output_cfg_ok cfg"
    and "ch_Table chain = Some filterTable" "addresses_ok addrs"
    and "createOutputRules F L cfgs project addrs chain name cid (c, t) = ((c', t'), Inr rules)" "staged c' = Some rs'"
  shows "committed c' = committed c \<and>
    (\<forall>r \<in> set rules. ru_Chain r = chain \<or> (\<exists>n i. ru_Chain r = peer_chain n i) \<and> ru_UserData r = cid) \<and>
    (\<forall>rs2 p n. sets_extend rs' rs2 \<longrightarrow> p_ctstate p = stateNew \<longrightarrow>
       run_chain rs2 p (rules_for rules n) = outcome_of (first_some (\<lambda>cfg. output_decision project addrs chain cfg n p) cfgs))"
  using generatesD [OF firewall_client.createOutputRules_generates [OF assms(1,3,4,5,6)] _ assms(7)] assms(2,8)
  by (auto simp: decides_def output_owner_def)

theorem createOutputRules_correct_witness:
  "\<exists>rules rs'.
    run_chain rs' \<lparr>p_src = 167772162, p_dst = 16909060, p_proto = 6, p_sport = 50000, p_dport = 8001, p_ctstate = 8\<rparr>
      (rules_for rules ''whalewall-x'') = Decided verdict_return \<and>
    run_chain rs' \<lparr>p_src = 167772162, p_dst = 16909060, p_proto = 6, p_sport = 50000, p_dport = 22, p_ctstate = 8\<rparr>
      (rules_for rules ''whalewall-x'') = Fallthrough"
proof -
  let ?cfg = "rd_cfg sample_details" and ?addrs = "[(''front'', be32 167772162)]" and ?chain = "regular_chain ''whalewall-x''"
  let ?t = "\<lparr>tx_engine = \<lparr>sq_tables = empty_tables, sq_fk = True, sq_faults = []\<rparr>, tx_tables = empty_tables, tx_done = False, tx_ctxErr = None\<rparr>"
  obtain c' rules rs' where gen: "createNFTRules mockFirewall_client ref_netipx sample_details sample_client = (c', Inr rules)"
    and st: "mock_staged c' = Some rs'"
    using sample_client_run by blast
  have cfg: "r_Network ?cfg = []" "prefixed_rule name cid ?cfg = ?cfg" for name cid
    by (simp_all add: sample_details_def zero_rule_def prefixed_rule_def)
  have rd: "outbound_rule ?cfg (be32 167772162) ?chain ''x'' = sample_details" by (simp add: outbound_rule_def sample_details_def)
  have run: "createOutputRules mockFirewall_client ref_netipx [?cfg] [] ?addrs ?chain ''web'' ''x'' (sample_client, ?t) = ((c', ?t), Inr rules)"
    using gen by (simp add: createOutputRules_def output_rule_def cfg sorted_names_def address_bytes_def rd on_client_def
        firewall_rules_def gen_wrap_def)
  have wf: "\<forall>cfg \<in> set [?cfg]. output_cfg_ok cfg" "addresses_ok ?addrs"
    by (auto simp: sample_details_def output_cfg_ok_def cfg_selectors_wf_def zero_rule_def zero_verdict_def validateVerdict_def
        port_wf_def addresses_ok_def)
  have dec: "run_chain rs' p (rules_for rules n) = outcome_of (output_decision [] ?addrs ?chain ?cfg n p)"
    if "p_ctstate p = stateNew" for p n
    using createOutputRules_correct [OF mock.firewall_client_axioms sample_client_ok ref_netipx_ok wf(1) _ wf(2) run st] that
    by (simp split: option.splits)
  have v: "verdict_expr_of ?cfg = verdict_return"
    by (simp add: verdict_expr_of_def sample_details_def zero_rule_def zero_verdict_def verdict_return_def)
  show ?thesis
    by (rule exI [of _ rules], rule exI [of _ rs'], subst (1 2) dec)
      (simp_all add: stateNew_def output_decision_def cfg sorted_names_def address_bytes_def outbound_decision_def v outcome_of_def,
       simp_all add: sample_details_def rule_spec_def zero_rule_def stateNew_def proto_defs slice_elems_def port_covers_def)
qed

end
