(* ===== verification/Waiting_Correct.thy ===== *)
theory Waiting_Correct
  imports Output_Correct
begin

text \<open>
  The rules that other containers have recorded for a new one. \<open>waiting_rows\<close> finds every record under any
  of the container's names once; \<open>granted\<close> says when a record becomes a rule and which: between the source's
  and the new container's address on the network they share. The rules decide by the first record that does.
\<close>

section \<open>The records\<close>

definition row_key :: "GetWaitingContainerRulesRow \<Rightarrow> string \<times> byte list" where
  "row_key row = (wr_SrcContainerID row, wr_Rule row)"

text \<open>The records for a name; a query of well-formed tables does not fail.\<close>

definition rows_for :: "tables \<Rightarrow> string \<Rightarrow> GetWaitingContainerRulesRow list" where
  "rows_for T name = (case GetWaitingContainerRules name T of Inr rows \<Rightarrow> rows | Inl e \<Rightarrow> [])"

lemma GetWaiting_rows_for: "GetWaitingContainerRules name T = Inr (rows_for T name)"
  by (simp add: rows_for_def GetWaitingContainerRules_def)

lemma collect_rows_ok:
  assumes "collect_rows rows seen = (seen', fresh)"
  shows "set seen' = row_key ` set rows \<union> set seen \<and> distinct (map row_key fresh) \<and> row_key ` set fresh \<inter> set seen = {} \<and>
    set fresh \<subseteq> set rows \<and> row_key ` set fresh \<union> set seen = row_key ` set rows \<union> set seen"
  using assms
proof (induction rows arbitrary: seen fresh)
  case (Cons row rows)
  show ?case
  proof (cases "row_key row \<in> set seen")
    case True
    with Cons.prems have "collect_rows rows seen = (seen', fresh)" by (simp add: row_key_def)
    with Cons.IH [OF this] True show ?thesis by auto
  next
    case False
    then obtain fresh' where f: "collect_rows rows (row_key row # seen) = (seen', fresh')" "fresh = row # fresh'"
      using Cons.prems by (auto simp: row_key_def Let_def split: prod.splits)
    from Cons.IH [OF f(1)] f(2) False show ?thesis by auto
  qed
qed simp

lemma waiting_rows_ok:
  assumes "waiting_rows names seen t = (t', Inr rows)"
  shows "tx_tables t' = tx_tables t \<and> distinct (map row_key rows) \<and> row_key ` set rows \<inter> set seen = {} \<and>
    set rows \<subseteq> (\<Union>name \<in> set names. set (rows_for (tx_tables t) name)) \<and>
    row_key ` set rows \<union> set seen = row_key ` (\<Union>name \<in> set names. set (rows_for (tx_tables t) name)) \<union> set seen"
  using assms
proof (induction names arbitrary: seen t rows)
  case (Cons name names)
  obtain t1 found where q: "tx_query (GetWaitingContainerRules name) t = (t1, Inr found)"
    using Cons.prems by (auto split: prod.splits sum.splits)
  then have t1: "tx_tables t1 = tx_tables t" "found = rows_for (tx_tables t) name"
    using GetWaiting_rows_for by (auto simp: tx_query_def split: if_splits prod.splits option.splits)
  obtain seen1 fresh where c: "collect_rows found seen = (seen1, fresh)" by force
  obtain rest where r: "waiting_rows names seen1 t1 = (t', Inr rest)" "rows = fresh @ rest"
    using Cons.prems q c by (auto split: prod.splits sum.splits)
  let ?T = "tx_tables t"
  define A where "A = row_key ` set (rows_for ?T name)"
  define B where "B = row_key ` (\<Union>name \<in> set names. set (rows_for ?T name))"
  define K where "K = row_key ` set fresh"
  define R where "R = row_key ` set rest"
  have f: "set seen1 = A \<union> set seen" "distinct (map row_key fresh)" "K \<inter> set seen = {}" "set fresh \<subseteq> set (rows_for ?T name)"
    "K \<union> set seen = A \<union> set seen" using collect_rows_ok [OF c] t1(2) by (simp_all add: A_def K_def)
  have rest: "tx_tables t' = ?T" "distinct (map row_key rest)" "R \<inter> (A \<union> set seen) = {}"
    "set rest \<subseteq> (\<Union>name \<in> set names. set (rows_for ?T name))" "R \<union> (A \<union> set seen) = B \<union> (A \<union> set seen)"
    using Cons.IH [OF r(1)] f(1) t1(1) by (simp_all add: R_def B_def)
  have keys: "row_key ` set rows = K \<union> R" "row_key ` (\<Union>name \<in> set (name # names). set (rows_for ?T name)) = A \<union> B"
    by (simp_all add: r(2) K_def R_def A_def B_def image_Un)
  have "distinct (map row_key rows)" using f(2,5) rest(2,3) unfolding r(2) K_def R_def by (simp, blast)
  moreover have "(K \<union> R) \<inter> set seen = {}" "(K \<union> R) \<union> set seen = (A \<union> B) \<union> set seen" using f(3,5) rest(3,5) by blast+
  moreover have "set rows \<subseteq> (\<Union>name \<in> set (name # names). set (rows_for ?T name))" using f(4) rest(4) unfolding r(2) by auto
  ultimately show ?case unfolding keys using rest(1) by blast
qed simp

section \<open>One record\<close>

definition granted ::
    "docker_client \<Rightarrow> gob_codec \<Rightarrow> string \<Rightarrow> string \<Rightarrow> networks \<Rightarrow> nft_chain \<Rightarrow> GetWaitingContainerRulesRow \<Rightarrow> ruleDetails \<Rightarrow> bool" where
  "granted D G cid project networks chain row rd \<longleftrightarrow>
     (\<exists>cfg srcName srcEp dstName dstEp src. gob_Decode G (wr_Rule row) = Inr cfg \<and> validateRule cfg = None \<and>
        (r_ResolvedContainerID cfg = [] \<or> r_ResolvedContainerID cfg = cid) \<and>
        (r_ResolvedContainerID cfg = [] \<longrightarrow> r_SourceProject cfg = [] \<or> r_SourceProject cfg = project) \<and>
        waiting_source D (wr_SrcContainerID row) (r_Network cfg) = Inr (srcName, srcEp) \<and> ep_IPAddress srcEp = Addr4 src \<and>
        findNetwork (r_Network cfg) project networks = Some (dstName, Some dstEp) \<and> addr_Is4 (ep_IPAddress dstEp) \<and>
        (r_NetworkID cfg = [] \<or> ep_NetworkID dstEp = [] \<or> r_NetworkID cfg = ep_NetworkID dstEp) \<and>
        sameDockerNetwork srcName (Some srcEp) dstName (Some dstEp) \<and>
        rd = \<lparr>rd_inbound = False, rd_addr = be32 src, rd_cfg = cfg\<lparr>r_IPs := Some [aor_of_addr (ep_IPAddress dstEp)]\<rparr>,
          rd_chain = peer_chain (wr_Name row) (wr_SrcContainerID row), rd_estChain = Some chain,
          rd_contID = cid, rd_estContID = wr_SrcContainerID row\<rparr>)"

lemma waiting_source_v4: "waiting_source D i n = Inr (k, ep) \<Longrightarrow> addr_Is4 (ep_IPAddress ep)"
  by (auto simp: waiting_source_def Let_def ep_of_def split: sum.splits option.splits if_splits prod.splits)

lemma Is4_cases: "addr_Is4 a \<Longrightarrow> \<exists>w. a = Addr4 w"
  by (cases a) auto

lemma waiting_rule_granted:
  assumes "waiting_rule D G cid project networks chain row = Inr (Some rd)"
  shows "granted D G cid project networks chain row rd"
proof -
  obtain cfg where cfg: "gob_Decode G (wr_Rule row) = Inr cfg" "validateRule cfg = None"
    using assms by (auto simp: waiting_rule_def split: sum.splits option.splits)
  note def = assms [unfolded waiting_rule_def Let_def cfg sum.case option.case]
  have mine: "r_ResolvedContainerID cfg = [] \<or> r_ResolvedContainerID cfg = cid"
    "r_ResolvedContainerID cfg = [] \<longrightarrow> r_SourceProject cfg = [] \<or> r_SourceProject cfg = project"
    using def by (auto split: if_splits)
  obtain dstName dst where f: "findNetwork (r_Network cfg) project networks = Some (dstName, dst)"
    using def by (cases "findNetwork (r_Network cfg) project networks") (auto split: if_splits)
  note def1 = def [unfolded f option.case prod.case]
  obtain srcName srcEp where s: "waiting_source D (wr_SrcContainerID row) (r_Network cfg) = Inr (srcName, srcEp)"
    using def1 by (cases "waiting_source D (wr_SrcContainerID row) (r_Network cfg)") (auto split: if_splits sum.splits)
  from Is4_cases [OF waiting_source_v4 [OF s]] obtain src where src: "ep_IPAddress srcEp = Addr4 src" ..
  note def2 = def1 [unfolded s sum.case prod.case src addr_As4.simps]
  obtain dstEp where d: "dst = Some dstEp"
    using def2 by (cases dst) (auto simp: ep_of_def sameDockerNetwork_def split: if_splits)
  note def3 = def2 [unfolded d ep_of_def option.case sum.case]
  have same: "sameDockerNetwork srcName (Some srcEp) dstName (Some dstEp)" and v4: "addr_Is4 (ep_IPAddress dstEp)"
    and net: "r_NetworkID cfg = [] \<or> ep_NetworkID dstEp = [] \<or> r_NetworkID cfg = ep_NetworkID dstEp"
    and rd: "rd = \<lparr>rd_inbound = False, rd_addr = be32 src, rd_cfg = cfg\<lparr>r_IPs := Some [aor_of_addr (ep_IPAddress dstEp)]\<rparr>,
        rd_chain = peer_chain (wr_Name row) (wr_SrcContainerID row), rd_estChain = Some chain,
        rd_contID = cid, rd_estContID = wr_SrcContainerID row\<rparr>"
    using def3 by (auto split: if_splits)
  have "gob_Decode G (wr_Rule row) = Inr cfg \<and> validateRule cfg = None \<and>
        (r_ResolvedContainerID cfg = [] \<or> r_ResolvedContainerID cfg = cid) \<and>
        (r_ResolvedContainerID cfg = [] \<longrightarrow> r_SourceProject cfg = [] \<or> r_SourceProject cfg = project) \<and>
        waiting_source D (wr_SrcContainerID row) (r_Network cfg) = Inr (srcName, srcEp) \<and> ep_IPAddress srcEp = Addr4 src \<and>
        findNetwork (r_Network cfg) project networks = Some (dstName, Some dstEp) \<and> addr_Is4 (ep_IPAddress dstEp) \<and>
        (r_NetworkID cfg = [] \<or> ep_NetworkID dstEp = [] \<or> r_NetworkID cfg = ep_NetworkID dstEp) \<and>
        sameDockerNetwork srcName (Some srcEp) dstName (Some dstEp) \<and>
        rd = \<lparr>rd_inbound = False, rd_addr = be32 src, rd_cfg = cfg\<lparr>r_IPs := Some [aor_of_addr (ep_IPAddress dstEp)]\<rparr>,
          rd_chain = peer_chain (wr_Name row) (wr_SrcContainerID row), rd_estChain = Some chain,
          rd_contID = cid, rd_estContID = wr_SrcContainerID row\<rparr>"
    by (intro conjI cfg mine s src v4 net same rd) (simp add: f d)
  then show ?thesis unfolding granted_def by - ((rule exI)+, assumption)
qed

section \<open>The rules\<close>

definition waiting_decision ::
    "docker_client \<Rightarrow> gob_codec \<Rightarrow> string \<Rightarrow> string \<Rightarrow> networks \<Rightarrow> nft_chain \<Rightarrow> GetWaitingContainerRulesRow \<Rightarrow> decision" where
  "waiting_decision D G cid project networks chain row n p =
     (case waiting_rule D G cid project networks chain row of Inr (Some rd) \<Rightarrow> detail_decision rd n p | _ \<Rightarrow> None)"

definition gob_ok :: "gob_codec \<Rightarrow> bool" where
  "gob_ok G \<longleftrightarrow> (\<forall>b cfg. gob_Decode G b = Inr cfg \<longrightarrow> cfg_selectors_wf cfg)"

lemma granted_detail_ok:
  assumes "gob_ok G" "granted D G cid project networks chain row rd" "ch_Table chain = Some filterTable"
  shows "detail_ok rd"
  using assms(2) unfolding granted_def
proof (elim exE conjE)
  fix cfg srcName srcEp dstName dstEp src
  assume cfg: "gob_Decode G (wr_Rule row) = Inr cfg" "validateRule cfg = None" and v4: "addr_Is4 (ep_IPAddress dstEp)"
    and rd: "rd = \<lparr>rd_inbound = False, rd_addr = be32 src, rd_cfg = cfg\<lparr>r_IPs := Some [aor_of_addr (ep_IPAddress dstEp)]\<rparr>,
          rd_chain = peer_chain (wr_Name row) (wr_SrcContainerID row), rd_estChain = Some chain,
          rd_contID = cid, rd_estContID = wr_SrcContainerID row\<rparr>"
  have "cfg_selectors_wf cfg" using assms(1) cfg(1) by (simp add: gob_ok_def)
  moreover have "validateVerdict (r_Verdict cfg) = None" using cfg(2) by (simp add: validateRule_accepts rule_accepted_def)
  moreover have "aor_wf (aor_of_addr (ep_IPAddress dstEp))" using aor_of_addr_wf [OF v4] by blast
  ultimately show ?thesis
    using assms(3) by (simp add: rd detail_ok_def cfg_selectors_wf_def slice_elems_def est_chain_def peer_chain_def regular_chain_def)
qed

context firewall_client
begin

lemma waiting_rules_decide:
  assumes L: "netipx_ok L" and G: "gob_ok G" and chain: "ch_Table chain = Some filterTable"
    and c: "ok c" and run: "waiting_rules F L D G cid project networks chain rows c = (c', Inr (rules, est))"
  shows "ok c' \<and> committed c' = committed c \<and> est = map wr_SrcContainerID (filter (\<lambda>row. waiting_rule D G cid project networks chain row \<noteq> Inr None) rows) \<and>
    (\<forall>row \<in> set rows. \<exists>r. waiting_rule D G cid project networks chain row = Inr r) \<and>
    (\<forall>rs'. staged c' = Some rs' \<longrightarrow> set_step (staged c) rs' \<and>
       decides (\<lambda>ch u. True) (\<lambda>n p. first_some (\<lambda>row. waiting_decision D G cid project networks chain row n p) rows) rs' rules)"
  using c run
proof (induction rows arbitrary: c rules est)
  case Nil
  then show ?case by (auto simp: decides_Nil set_step_refl)
next
  case (Cons row rows)
  let ?W = "waiting_rule D G cid project networks chain"
  obtain r where r: "?W row = Inr r" using Cons.prems(2) by (cases "?W row") simp_all
  show ?case
  proof (cases r)
    case None
    with r Cons.prems(2) have run: "waiting_rules F L D G cid project networks chain rows c = (c', Inr (rules, est))" by simp
    have "waiting_decision D G cid project networks chain row = (\<lambda>n p. None)"
      using r None by (simp add: waiting_decision_def fun_eq_iff)
    with Cons.IH [OF Cons.prems(1) run] r None show ?thesis by simp
  next
    case (Some rd)
    obtain c1 rules1 where 1: "firewall_rules F L rd c = (c1, Inr rules1)"
      using Cons.prems(2) r Some by (auto split: prod.splits sum.splits)
    obtain rest est1 where 2: "waiting_rules F L D G cid project networks chain rows c1 = (c', Inr (rest, est1))"
      "rules = rules1 @ rest" "est = wr_SrcContainerID row # est1"
      using Cons.prems(2) r Some 1 by (auto split: prod.splits sum.splits)
    have W: "waiting_decision D G cid project networks chain row = detail_decision rd"
      using r Some by (simp add: waiting_decision_def fun_eq_iff)
    have "detail_ok rd" using granted_detail_ok [OF G waiting_rule_granted chain] r Some by blast
    note g = generatesD [OF firewall_rules_generates [OF L this] Cons.prems(1) 1]
    note IH = Cons.IH [OF g(1) 2(1)]
    have "set_step (staged c) rs' \<and> decides (\<lambda>ch u. True)
        (\<lambda>n p. first_some (\<lambda>row. waiting_decision D G cid project networks chain row n p) (row # rows)) rs' rules"
      if "staged c' = Some rs'" for rs'
    proof -
      have s2: "set_step (staged c1) rs'" "decides (\<lambda>ch u. True)
          (\<lambda>n p. first_some (\<lambda>row. waiting_decision D G cid project networks chain row n p) rows) rs' rest"
        using IH that by blast+
      then obtain rs1 where rs1: "staged c1 = Some rs1" "sets_extend rs1 rs'" unfolding set_step_def by blast
      have s1: "set_step (staged c) rs1" "decides (detail_owner rd) (detail_decision rd) rs1 rules1" using g(3) [OF refl rs1(1)] by auto
      have "decides (\<lambda>ch u. True) (detail_decision rd) rs' rules1"
        by (rule decides_mono [OF decides_extend [OF s1(2) rs1(2)]]) simp
      from decides_append [OF this s2(2)] 2(2) W have "decides (\<lambda>ch u. True)
          (\<lambda>n p. first_some (\<lambda>row. waiting_decision D G cid project networks chain row n p) (row # rows)) rs' rules"
        by simp
      then show ?thesis using s1(1) s2(1) rs1(1) set_step_trans by auto
    qed
    with g(2) IH r Some 2(3) show ?thesis by simp
  qed
qed

lemma createWaitingContainerRules_ok:
  assumes L: "netipx_ok L" and G: "gob_ok G" and chain: "ch_Table chain = Some filterTable" and c: "ok c"
    and run: "createWaitingContainerRules F L D G cid name service project networks chain (c, t) = ((c', t'), Inr (rules, est))"
  shows "ok c' \<and> committed c' = committed c \<and> tx_tables t' = tx_tables t \<and>
    (\<exists>rows. distinct (map row_key rows) \<and>
       set rows \<subseteq> (\<Union>n \<in> set ([name] @ containerAliases name service). set (rows_for (tx_tables t) n)) \<and>
       row_key ` set rows = row_key ` (\<Union>n \<in> set ([name] @ containerAliases name service). set (rows_for (tx_tables t) n)) \<and>
       est = map wr_SrcContainerID (filter (\<lambda>row. waiting_rule D G cid project networks chain row \<noteq> Inr None) rows) \<and>
       (\<forall>row \<in> set rows. \<exists>r. waiting_rule D G cid project networks chain row = Inr r) \<and>
       (\<forall>rs'. staged c' = Some rs' \<longrightarrow> set_step (staged c) rs' \<and>
          decides (\<lambda>ch u. True) (\<lambda>n p. first_some (\<lambda>row. waiting_decision D G cid project networks chain row n p) rows) rs' rules))"
proof -
  obtain t1 rows where rows: "waiting_rows ([name] @ containerAliases name service) [] t = (t1, Inr rows)"
    using run by (auto simp: createWaitingContainerRules_def on_tx_def split: prod.splits sum.splits)
  note w = waiting_rows_ok [OF rows]
  show ?thesis
  proof (cases "rows = []")
    case True
    with run rows c w show ?thesis
      by (intro conjI exI [of _ "[]"]) (auto simp: createWaitingContainerRules_def on_tx_def decides_Nil set_step_refl)
  next
    case False
    then have "waiting_rules F L D G cid project networks chain rows c = (c', Inr (rules, est))" "t' = t1"
      using run rows by (auto simp: createWaitingContainerRules_def on_tx_def on_client_def split: prod.splits)
    from waiting_rules_decide [OF L G chain c this(1)] this(2) w show ?thesis by (intro conjI exI [of _ rows]) simp_all
  qed
qed

end

end
