(* ===== verification/Destinations_Correct.thy ===== *)
theory Destinations_Correct
  imports Output_Correct Destinations
begin

text \<open>
  What resolving the named destinations comes to. The reference is \<open>populated\<close>, stated over the daemon's
  answers, the labels and the networks alone: \<open>best_named\<close> are the containers whose names match best,
  \<open>takes_part\<close> those that are there, enabled and manage their networks, and \<open>shares\<close> those among them
  that manage the rule's network together with the source. A rule is resolved when all the best matches have
  gone, or when exactly one of them shares the network. \<open>peer_of\<close> and \<open>named_best\<close> lead from the code to
  the reference; the caches are sound as all answers come from one snapshot of the daemon.
\<close>

section \<open>The best matches\<close>

definition name_rank :: "string \<Rightarrow> string \<Rightarrow> summary \<Rightarrow> int" where
  "name_rank expected project l = containerNameMatchRank expected project (su_Labels l) (su_Names l)"

definition named_best :: "string \<Rightarrow> string \<Rightarrow> summary list \<Rightarrow> summary list" where
  "named_best expected project ls =
     filter (\<lambda>l. name_rank expected project l \<noteq> 0 \<and> (\<forall>m \<in> set ls. name_rank expected project m \<le> name_rank expected project l)) ls"

lemma name_rank_nonneg: "0 \<le> name_rank expected project l"
  by (auto simp: name_rank_def containerNameMatchRank_def Let_def split: option.splits)

lemma best_matches_from:
  assumes "0 \<le> r"
  shows "snd (best_matches expected project ls (r, ms)) =
    (if \<exists>l \<in> set ls. r < name_rank expected project l then named_best expected project ls
     else ms @ filter (\<lambda>l. name_rank expected project l \<noteq> 0 \<and> name_rank expected project l = r) ls)"
  using assms
proof (induction ls arbitrary: r ms)
  case (Cons l ls)
  let ?k = "name_rank expected project"
  consider (low) "?k l = 0 \<or> ?k l < r" | (high) "?k l \<noteq> 0" "r < ?k l" | (same) "?k l \<noteq> 0" "?k l = r" by linarith
  then show ?case
  proof cases
    case low
    then have step: "best_matches expected project (l # ls) (r, ms) = best_matches expected project ls (r, ms)"
      by (auto simp: name_rank_def Let_def)
    have "named_best expected project (l # ls) = named_best expected project ls" if "\<exists>m \<in> set ls. r < ?k m"
      using low that Cons.prems by (fastforce simp: named_best_def intro!: filter_cong)
    with step Cons low show ?thesis by auto
  next
    case high
    then have step: "best_matches expected project (l # ls) (r, ms) = best_matches expected project ls (?k l, [l])"
      by (simp add: name_rank_def Let_def)
    have "0 \<le> ?k l" by (rule name_rank_nonneg)
    note IH = Cons.IH [OF this, of "[l]"]
    have "named_best expected project (l # ls) = named_best expected project ls" if "\<exists>m \<in> set ls. ?k l < ?k m"
      using that by (fastforce simp: named_best_def intro!: filter_cong)
    moreover have "named_best expected project (l # ls) = l # filter (\<lambda>m. ?k m \<noteq> 0 \<and> ?k m = ?k l) ls"
      if "\<not> (\<exists>m \<in> set ls. ?k l < ?k m)"
      using that high(1) by (fastforce simp: named_best_def not_less intro!: filter_cong)
    ultimately show ?thesis using step IH high by auto
  next
    case same
    then have step: "best_matches expected project (l # ls) (r, ms) = best_matches expected project ls (r, ms @ [l])"
      by (simp add: name_rank_def Let_def)
    have "named_best expected project (l # ls) = named_best expected project ls" if "\<exists>m \<in> set ls. r < ?k m"
      using that same by (fastforce simp: named_best_def intro!: filter_cong)
    with step Cons.IH [OF Cons.prems, of "ms @ [l]"] same show ?thesis by auto
  qed
qed simp

lemma best_matches_spec: "snd (best_matches expected project ls (0, [])) = named_best expected project ls"
proof -
  have "named_best expected project ls = []" if "\<not> (\<exists>l \<in> set ls. 0 < name_rank expected project l)"
  proof -
    have "name_rank expected project l = 0" if "l \<in> set ls" for l
      using that \<open>\<not> (\<exists>l \<in> set ls. 0 < name_rank expected project l)\<close> name_rank_nonneg [of expected project l] by force
    then show ?thesis by (simp add: named_best_def filter_empty_conv)
  qed
  then show ?thesis
    using best_matches_from [of 0 expected project ls "[]"] by (auto simp: filter_empty_conv)
qed

text \<open>The same, read off the names and labels: a container goes by a name of its own, with or without the
  leading slash, and else by that of its Compose service, within the project if there is one.\<close>

definition goes_by :: "string \<Rightarrow> summary \<Rightarrow> bool" where
  "goes_by expected l \<longleftrightarrow> expected \<noteq> [] \<and>
     (expected \<in> set (su_Names l) \<or> hd expected \<noteq> CHR ''/'' \<and> CHR ''/'' # expected \<in> set (su_Names l))"

definition serves_as :: "string \<Rightarrow> string \<Rightarrow> summary \<Rightarrow> bool" where
  "serves_as expected project l \<longleftrightarrow> expected \<noteq> [] \<and>
     map_of (su_Labels l) ''com.docker.compose.service'' =
       Some (if hd expected = CHR ''/'' then tl expected else expected) \<and>
     (project = [] \<or> map_of (su_Labels l) ''com.docker.compose.project'' = Some project)"

definition best_named :: "string \<Rightarrow> string \<Rightarrow> summary list \<Rightarrow> summary list" where
  "best_named expected project ls =
     (if \<exists>l \<in> set ls. goes_by expected l then filter (goes_by expected) ls
      else filter (serves_as expected project) ls)"

lemma name_rank_cases:
  "name_rank expected project l =
     (if goes_by expected l then 2 else if serves_as expected project l then 1 else 0)"
  by (cases expected)
    (auto simp: name_rank_def containerNameMatchRank_def Let_def goes_by_def serves_as_def label_def
      composeServiceLabel_def composeProjectLabel_def split: option.splits)

lemma named_best_eq: "named_best expected project ls = best_named expected project ls"
proof (cases "\<exists>l \<in> set ls. goes_by expected l")
  case True
  then show ?thesis by (auto simp: named_best_def best_named_def name_rank_cases intro!: filter_cong)
next
  case False
  then show ?thesis by (auto simp: named_best_def best_named_def name_rank_cases intro!: filter_cong)
qed

section \<open>Destinations\<close>

definition has_gone :: "docker_client \<Rightarrow> string \<Rightarrow> bool" where
  "has_gone D i \<longleftrightarrow>
     (case dk_ContainerInspect D i of Inl e \<Rightarrow> dk_IsNotFound D e | Inr cont \<Rightarrow> ir_Running cont = Some False)"

definition project_of :: "labels \<Rightarrow> string" where
  "project_of ls = (case map_of ls ''com.docker.compose.project'' of Some project \<Rightarrow> project | None \<Rightarrow> [])"

text \<open>A container that is there and enabled, with the networks it is attached to and those it manages
  (of which \<open>resolveValidManagedNetworks_correct\<close> says which they are).\<close>

definition takes_part :: "docker_client \<Rightarrow> string \<Rightarrow> inspectResponse \<Rightarrow> labels \<Rightarrow> networks \<Rightarrow> networks \<Rightarrow> bool" where
  "takes_part D i cont ls attached managed \<longleftrightarrow>
     dk_ContainerInspect D i = Inr cont \<and> ir_Running cont \<noteq> Some False \<and> ir_Labels cont = Some ls \<and>
     (\<exists>ns. ir_NetworkSettings cont = Some ns \<and> ns_Networks ns = attached) \<and>
     (\<exists>v. map_of ls ''whalewall.enabled'' = Some v \<and> EqualFold (TrimSpace v) ''true'') \<and>
     (\<exists>explicit. resolveValidManagedNetworks ls (project_of ls) attached = (explicit, Inr managed))"

text \<open>A network under its own name or, where no network has that name, the name Compose gives it.\<close>

definition network_named :: "string \<Rightarrow> string \<Rightarrow> networks \<Rightarrow> string \<times> endpoint option \<Rightarrow> bool" where
  "network_named network project nets x \<longleftrightarrow>
     map_of nets (fst x) = Some (snd x) \<and>
     (fst x = network \<or> map_of nets network = None \<and> fst x = project @ ''_'' @ network)"

text \<open>Two endpoints are on one network if their ids say so or, when neither has an id, their names.\<close>

definition one_network :: "string \<times> endpoint option \<Rightarrow> string \<times> endpoint option \<Rightarrow> bool" where
  "one_network x y \<longleftrightarrow>
     (\<exists>s d. snd x = Some s \<and> snd y = Some d \<and> ep_NetworkID s = ep_NetworkID d \<and>
        (ep_NetworkID s = [] \<longrightarrow> fst x = fst y))"

definition shares :: "docker_client \<Rightarrow> string \<Rightarrow> (string \<times> endpoint option) option \<Rightarrow> summary \<Rightarrow> candidate \<Rightarrow> bool" where
  "shares D network src l c \<longleftrightarrow>
     (\<exists>ls attached managed. takes_part D (su_ID l) (cd_container c) ls attached managed \<and>
        (\<exists>x. network_named network (project_of ls) attached x) \<and>
        network_named network (project_of ls) managed (cd_netName c, cd_network c) \<and>
        (\<exists>s. src = Some s \<and> one_network s (cd_netName c, cd_network c)))"

text \<open>The matches settle on a choice: each of them has gone or takes part; and all have gone, or exactly one
  shares the network.\<close>

definition settles ::
    "docker_client \<Rightarrow> string \<Rightarrow> (string \<times> endpoint option) option \<Rightarrow> summary list \<Rightarrow> candidate option \<Rightarrow> bool" where
  "settles D network src ls choice \<longleftrightarrow>
     (\<forall>l \<in> set ls. has_gone D (su_ID l) \<or> (\<exists>cont lbs attached managed. takes_part D (su_ID l) cont lbs attached managed)) \<and>
     (case choice of
        None \<Rightarrow> \<forall>l \<in> set ls. has_gone D (su_ID l)
      | Some c \<Rightarrow> \<exists>l. filter (\<lambda>l. \<exists>d. shares D network src l d) ls = [l] \<and> shares D network src l c)"

section \<open>Peers\<close>

datatype peer = Gone | Elsewhere | Unmanaged | Peer candidate

definition peer_of :: "docker_client \<Rightarrow> string \<Rightarrow> (string \<times> endpoint option) option \<Rightarrow> int \<Rightarrow> summary \<Rightarrow> peer result" where
  "peer_of D network src rank l =
     (case inspect_destination D (su_ID l) of
        Inl e \<Rightarrow> Inl e
      | Inr None \<Rightarrow> Inr Gone
      | Inr (Some (cont, managed)) \<Rightarrow>
     (case (ir_Labels cont, ir_NetworkSettings cont) of
        (Some labels, Some ns) \<Rightarrow>
          let dstProject = label labels composeProjectLabel in
          if findNetwork network dstProject (ns_Networks ns) = None then Inr Elsewhere
          else
          (case findNetwork network dstProject managed of
             None \<Rightarrow> Inr Unmanaged
           | Some (dstNetName, dstNetwork) \<Rightarrow>
          if \<not> (case src of Some (srcNetName, srcNetwork) \<Rightarrow> sameDockerNetwork srcNetName srcNetwork dstNetName dstNetwork
                | None \<Rightarrow> False)
          then Inr Elsewhere
          else Inr (Peer \<lparr>cd_container = cont, cd_network = dstNetwork, cd_netName = dstNetName, cd_rank = rank\<rparr>))
      | _ \<Rightarrow> Inl nil_pointer))"

fun candidates_of :: "peer list \<Rightarrow> candidate list" where
  "candidates_of [] = []"
| "candidates_of (p # ps) = (case p of Peer c \<Rightarrow> c # candidates_of ps | _ \<Rightarrow> candidates_of ps)"

text \<open>The caches hold what the daemon answers.\<close>

definition cached :: "docker_client \<Rightarrow> resolution \<Rightarrow> bool" where
  "cached D st \<longleftrightarrow> (\<forall>i cont. map_of (ps_containers st) i = Some cont \<longrightarrow>
     (\<exists>ns. map_of (ps_networks st) i = Some ns \<and> inspect_destination D i = Inr (Some (cont, ns))))"

lemma known_destination_eq:
  assumes "cached D st" "known_destination D i st = Inr (st', d)"
  shows "cached D st' \<and> ps_tx st' = ps_tx st \<and> ps_est st' = ps_est st \<and> inspect_destination D i = Inr d"
proof (cases "map_of (ps_containers st) i")
  case None
  show ?thesis
  proof (cases "inspect_destination D i")
    case (Inl e)
    with assms None show ?thesis by (simp add: known_destination_def)
  next
    case (Inr r)
    with assms None show ?thesis by (cases r) (auto simp: known_destination_def cached_def)
  qed
next
  case (Some cont)
  with assms(1) obtain ns where "map_of (ps_networks st) i = Some ns" "inspect_destination D i = Inr (Some (cont, ns))"
    unfolding cached_def by blast
  with Some assms show ?thesis by (auto simp: known_destination_def)
qed

lemma gather_candidates_eq:
  assumes "cached D st" "gather_candidates D network src rank ls st ta = Inr (st', ta')"
  shows "cached D st' \<and> ps_tx st' = ps_tx st \<and> ps_est st' = ps_est st \<and>
    (\<exists>peers. map (peer_of D network src rank) ls = map Inr peers \<and>
       ta_nameMatches ta' = ta_nameMatches ta - length (filter (\<lambda>p. p = Gone) peers) \<and>
       ta_unmanaged ta' = ta_unmanaged ta + length (filter (\<lambda>p. p = Unmanaged) peers) \<and>
       ta_candidates ta' = ta_candidates ta @ candidates_of peers)"
  using assms
proof (induction ls arbitrary: st ta)
  case (Cons l ls)
  obtain st1 d where k: "known_destination D (su_ID l) st = Inr (st1, d)"
    using Cons.prems(2) by (auto split: sum.splits)
  note e = known_destination_eq [OF Cons.prems(1) k]
  have next1: "\<exists>x. peer_of D network src rank l = Inr x \<and> gather_candidates D network src rank ls st1
      (case x of Gone \<Rightarrow> ta\<lparr>ta_nameMatches := ta_nameMatches ta - 1\<rparr> | Elsewhere \<Rightarrow> ta
        | Unmanaged \<Rightarrow> ta\<lparr>ta_unmanaged := ta_unmanaged ta + 1\<rparr> | Peer c \<Rightarrow> ta\<lparr>ta_candidates := ta_candidates ta @ [c]\<rparr>) = Inr (st', ta')"
  proof (cases d)
    case None
    with k e Cons.prems(2) show ?thesis by (auto simp: peer_of_def)
  next
    case (Some cm)
    obtain cont managed where cm: "cm = (cont, managed)" by force
    with k Some Cons.prems(2) obtain labels ns where c: "ir_Labels cont = Some labels" "ir_NetworkSettings cont = Some ns"
      by (cases "ir_Labels cont"; cases "ir_NetworkSettings cont") simp_all
    have i: "inspect_destination D (su_ID l) = Inr (Some (cont, managed))" using e Some cm by simp
    show ?thesis
    proof (cases "findNetwork network (label labels composeProjectLabel) (ns_Networks ns) = None")
      case True
      with k Some cm c i Cons.prems(2) show ?thesis by (auto simp: peer_of_def Let_def)
    next
      case attached: False
      show ?thesis
      proof (cases "findNetwork network (label labels composeProjectLabel) managed")
        case None
        with k Some cm c i attached Cons.prems(2) show ?thesis by (auto simp: peer_of_def Let_def)
      next
        case (Some x)
        with k \<open>d = Some cm\<close> cm c i attached Cons.prems(2) show ?thesis
          by (cases x; cases "case src of Some (srcNetName, srcNetwork) \<Rightarrow> sameDockerNetwork srcNetName srcNetwork (fst x) (snd x)
                | None \<Rightarrow> False") (auto simp: peer_of_def Let_def)
      qed
    qed
  qed
  then obtain x where x: "peer_of D network src rank l = Inr x"
    "gather_candidates D network src rank ls st1 (case x of Gone \<Rightarrow> ta\<lparr>ta_nameMatches := ta_nameMatches ta - 1\<rparr> | Elsewhere \<Rightarrow> ta
        | Unmanaged \<Rightarrow> ta\<lparr>ta_unmanaged := ta_unmanaged ta + 1\<rparr> | Peer c \<Rightarrow> ta\<lparr>ta_candidates := ta_candidates ta @ [c]\<rparr>) = Inr (st', ta')"
    by blast
  from Cons.IH [OF _ x(2)] e obtain peers where p: "cached D st'" "ps_tx st' = ps_tx st" "ps_est st' = ps_est st"
    "map (peer_of D network src rank) ls = map Inr peers"
    "ta_nameMatches ta' = ta_nameMatches (case x of Gone \<Rightarrow> ta\<lparr>ta_nameMatches := ta_nameMatches ta - 1\<rparr> | Elsewhere \<Rightarrow> ta
        | Unmanaged \<Rightarrow> ta\<lparr>ta_unmanaged := ta_unmanaged ta + 1\<rparr> | Peer c \<Rightarrow> ta\<lparr>ta_candidates := ta_candidates ta @ [c]\<rparr>)
      - length (filter (\<lambda>p. p = Gone) peers)"
    "ta_unmanaged ta' = ta_unmanaged (case x of Gone \<Rightarrow> ta\<lparr>ta_nameMatches := ta_nameMatches ta - 1\<rparr> | Elsewhere \<Rightarrow> ta
        | Unmanaged \<Rightarrow> ta\<lparr>ta_unmanaged := ta_unmanaged ta + 1\<rparr> | Peer c \<Rightarrow> ta\<lparr>ta_candidates := ta_candidates ta @ [c]\<rparr>)
      + length (filter (\<lambda>p. p = Unmanaged) peers)"
    "ta_candidates ta' = ta_candidates (case x of Gone \<Rightarrow> ta\<lparr>ta_nameMatches := ta_nameMatches ta - 1\<rparr> | Elsewhere \<Rightarrow> ta
        | Unmanaged \<Rightarrow> ta\<lparr>ta_unmanaged := ta_unmanaged ta + 1\<rparr> | Peer c \<Rightarrow> ta\<lparr>ta_candidates := ta_candidates ta @ [c]\<rparr>)
      @ candidates_of peers" by auto
  then show ?case using x(1) by (intro conjI exI [of _ "x # peers"]) (auto split: peer.splits)
qed simp

section \<open>The choice\<close>

lemma candidates_of_rank:
  "map (peer_of D network src rank) ls = map Inr peers \<Longrightarrow> c \<in> set (candidates_of peers) \<Longrightarrow> cd_rank c = rank"
proof (induction ls arbitrary: peers)
  case (Cons l ls)
  then obtain p ps where p: "peers = p # ps" "peer_of D network src rank l = Inr p" "map (peer_of D network src rank) ls = map Inr ps"
    by (cases peers) auto
  have "cd_rank d = rank" if "p = Peer d" for d
    using p(2) that by (auto simp: peer_of_def Let_def split: sum.splits option.splits if_splits prod.splits)
  with Cons.IH [OF p(3)] Cons.prems(2) p(1) show ?case by (auto split: peer.splits)
qed simp

text \<open>The peers settle on a choice: all have gone, or there is exactly one.\<close>

definition settled :: "peer list \<Rightarrow> candidate option \<Rightarrow> bool" where
  "settled peers choice \<longleftrightarrow> (case choice of None \<Rightarrow> set peers \<subseteq> {Gone} | Some c \<Rightarrow> candidates_of peers = [c])"

lemma all_gone: "candidates_of peers = [] \<Longrightarrow> Unmanaged \<notin> set peers \<Longrightarrow> length peers - length (filter (\<lambda>p. p = Gone) peers) = 0
    \<Longrightarrow> set peers \<subseteq> {Gone}"
proof (induction peers)
  case (Cons p peers)
  have "length (filter (\<lambda>p. p = Gone) peers) \<le> length peers" by (rule length_filter_le)
  with Cons show ?case by (cases p) auto
qed simp

lemma choose_candidate_settled:
  assumes "\<And>c. c \<in> set (candidates_of peers) \<Longrightarrow> cd_rank c = rank"
    and "ta_nameMatches ta = length peers - length (filter (\<lambda>p. p = Gone) peers)"
    "ta_unmanaged ta = length (filter (\<lambda>p. p = Unmanaged) peers)" "ta_candidates ta = candidates_of peers"
    and "choose_candidate ta = Inr choice"
  shows "settled peers choice"
proof (cases "candidates_of peers = []")
  case True
  with assms(2-5) have "Unmanaged \<notin> set peers" "length peers - length (filter (\<lambda>p. p = Gone) peers) = 0" "choice = None"
    by (auto simp: choose_candidate_def filter_empty_conv split: if_splits)
  with all_gone [OF True] show ?thesis by (simp add: settled_def)
next
  case False
  have "cd_rank ` set (candidates_of peers) = {rank}" using assms(1) False by (auto simp: image_iff ex_in_conv)
  moreover have "filter (\<lambda>c. cd_rank c = rank) (candidates_of peers) = candidates_of peers" using assms(1) by simp
  ultimately have "(if length (candidates_of peers) \<noteq> 1 then Inl (Msg ''container is ambiguous'') else Inr (Some (hd (candidates_of peers)))) = Inr choice"
    using assms(4,5) False by (simp add: choose_candidate_def Let_def split: if_splits)
  then show ?thesis by (cases "candidates_of peers") (auto simp: settled_def split: if_splits)
qed

section \<open>Peers are destinations\<close>

lemma project_of_label: "label ls composeProjectLabel = project_of ls"
  by (simp add: label_def composeProjectLabel_def project_of_def)

lemma findNetwork_named: "findNetwork network project nets = Some x \<longleftrightarrow> network_named network project nets x"
  by (cases x) (auto simp: findNetwork_def network_named_def split: option.splits)

lemma findNetwork_none: "findNetwork network project nets = None \<longleftrightarrow> (\<nexists>x. network_named network project nets x)"
  by (cases "findNetwork network project nets") (auto simp: findNetwork_named [symmetric])

lemma sameDockerNetwork_one: "sameDockerNetwork n x m y \<longleftrightarrow> one_network (n, x) (m, y)"
  by (auto simp: sameDockerNetwork_def one_network_def split: option.splits)

lemma inspect_gone: "inspect_destination D i = Inr None \<longleftrightarrow> has_gone D i"
  by (auto simp: inspect_destination_def has_gone_def split: sum.splits option.splits bool.splits if_splits)

lemma whalewallEnabled_true:
  "whalewallEnabled ls = Inr True \<longleftrightarrow> (\<exists>v. map_of ls ''whalewall.enabled'' = Some v \<and> EqualFold (TrimSpace v) ''true'')"
  by (auto simp: whalewallEnabled_def enabledLabel_def split: option.splits)

lemma inspect_takes_part:
  "inspect_destination D i = Inr (Some (cont, managed)) \<longleftrightarrow> (\<exists>ls attached. takes_part D i cont ls attached managed)"
proof -
  have managed: "snd r = Inr managed \<longleftrightarrow> (\<exists>explicit. r = (explicit, Inr managed))" for r :: "bool \<times> networks result"
    by (cases r) auto
  show ?thesis
    unfolding takes_part_def whalewallEnabled_true [symmetric] managed [symmetric] project_of_label [symmetric]
    by (auto simp: inspect_destination_def split: sum.splits option.splits bool.splits)
qed

lemma peer_of_gone: "peer_of D network src rank l = Inr Gone \<longleftrightarrow> has_gone D (su_ID l)"
  unfolding inspect_gone [symmetric]
  by (auto simp: peer_of_def Let_def split: sum.splits option.splits if_splits)

lemma peer_of_present:
  assumes "peer_of D network src rank l = Inr p" "p \<noteq> Gone"
  shows "\<exists>cont ls attached managed. takes_part D (su_ID l) cont ls attached managed"
proof -
  obtain cont managed where "inspect_destination D (su_ID l) = Inr (Some (cont, managed))"
    using assms by (auto simp: peer_of_def split: sum.splits option.splits)
  then show ?thesis unfolding inspect_takes_part by blast
qed

lemma peer_of_shares:
  "peer_of D network src rank l = Inr (Peer c) \<longleftrightarrow> shares D network src l c \<and> cd_rank c = rank"
proof
  assume p: "peer_of D network src rank l = Inr (Peer c)"
  then obtain cont managed where i: "inspect_destination D (su_ID l) = Inr (Some (cont, managed))"
    by (auto simp: peer_of_def split: sum.splits option.splits)
  then obtain ls attached where t: "takes_part D (su_ID l) cont ls attached managed"
    unfolding inspect_takes_part by blast
  then obtain ns where c: "ir_Labels cont = Some ls" "ir_NetworkSettings cont = Some ns" "ns_Networks ns = attached"
    unfolding takes_part_def by blast
  obtain n x s where "findNetwork network (project_of ls) attached \<noteq> None"
    "findNetwork network (project_of ls) managed = Some (n, x)" "src = Some s" "one_network s (n, x)"
    "c = \<lparr>cd_container = cont, cd_network = x, cd_netName = n, cd_rank = rank\<rparr>"
    using p c i by (auto simp: peer_of_def Let_def project_of_label sameDockerNetwork_one split: option.splits if_splits)
  note n = this
  have "takes_part D (su_ID l) (cd_container c) ls attached managed" "cd_rank c = rank"
    "network_named network (project_of ls) managed (cd_netName c, cd_network c)" "one_network s (cd_netName c, cd_network c)"
    using t n(2,4,5) by (simp_all add: findNetwork_named)
  moreover have "\<exists>x. network_named network (project_of ls) attached x" using n(1) by (simp add: findNetwork_none)
  ultimately show "shares D network src l c \<and> cd_rank c = rank"
    unfolding shares_def using n(3) by blast
next
  assume "shares D network src l c \<and> cd_rank c = rank"
  then obtain ls attached managed s where t: "takes_part D (su_ID l) (cd_container c) ls attached managed"
    and n: "findNetwork network (project_of ls) attached \<noteq> None"
    "findNetwork network (project_of ls) managed = Some (cd_netName c, cd_network c)"
    and s: "src = Some s" "one_network s (cd_netName c, cd_network c)" "cd_rank c = rank"
    unfolding shares_def findNetwork_none findNetwork_named by blast
  from t have i: "inspect_destination D (su_ID l) = Inr (Some (cd_container c, managed))"
    unfolding inspect_takes_part by blast
  from t obtain ns where c: "ir_Labels (cd_container c) = Some ls" "ir_NetworkSettings (cd_container c) = Some ns"
    "ns_Networks ns = attached" unfolding takes_part_def by blast
  obtain sn sx where "s = (sn, sx)" by force
  with i c n s show "peer_of D network src rank l = Inr (Peer c)"
    by (simp add: peer_of_def Let_def project_of_label sameDockerNetwork_one)
qed

lemma single_peer:
  "map f ls = map Inr peers \<Longrightarrow> candidates_of peers = [c] \<Longrightarrow>
   \<exists>l. filter (\<lambda>l. \<exists>d. f l = Inr (Peer d)) ls = [l] \<and> f l = Inr (Peer c)"
proof (induction ls arbitrary: peers)
  case (Cons l ls)
  then obtain p ps where p: "peers = p # ps" "f l = Inr p" "map f ls = map Inr ps" by (cases peers) auto
  have none: "filter (\<lambda>l. \<exists>d. f l = Inr (Peer d)) ls = []" if "map f ls = map Inr ps" "candidates_of ps = []" for ls ps
    using that
  proof (induction ls arbitrary: ps)
    case (Cons l ls)
    then obtain q qs where "ps = q # qs" by (cases ps) auto
    with Cons show ?case by (cases q) auto
  qed simp
  from Cons p none [OF p(3)] show ?case by (cases p) auto
qed simp

lemma settled_settles:
  assumes "map (peer_of D network src rank) ls = map Inr peers" "settled peers choice"
  shows "settles D network src ls choice"
proof -
  have peers: "\<exists>p \<in> set peers. peer_of D network src rank l = Inr p" if "l \<in> set ls" for l
  proof -
    have "peer_of D network src rank l \<in> set (map Inr peers)"
      using that unfolding assms(1) [symmetric] by simp
    then show ?thesis by auto
  qed
  have one: "has_gone D (su_ID l) \<or> (\<exists>cont lbs attached managed. takes_part D (su_ID l) cont lbs attached managed)"
    if "l \<in> set ls" for l
    using peers [OF that] peer_of_gone peer_of_present by metis
  show ?thesis
  proof (cases choice)
    case None
    then have "set peers \<subseteq> {Gone}" using assms(2) by (simp add: settled_def)
    then have "has_gone D (su_ID l)" if "l \<in> set ls" for l
      using peers [OF that] peer_of_gone by (metis singletonD subsetD)
    with one None show ?thesis by (simp add: settles_def)
  next
    case (Some c)
    then have "candidates_of peers = [c]" using assms(2) by (simp add: settled_def)
    from single_peer [OF assms(1) this] obtain l where
      l: "filter (\<lambda>l. \<exists>d. peer_of D network src rank l = Inr (Peer d)) ls = [l]" "peer_of D network src rank l = Inr (Peer c)"
      by blast
    have "(\<exists>d. peer_of D network src rank l = Inr (Peer d)) \<longleftrightarrow> (\<exists>d. shares D network src l d)" for l
    proof
      assume "\<exists>d. shares D network src l d"
      then obtain d where d: "shares D network src l d" by blast
      have "shares D network src l (d\<lparr>cd_rank := rank\<rparr>)" using d by (simp add: shares_def)
      then show "\<exists>d. peer_of D network src rank l = Inr (Peer d)"
        unfolding peer_of_shares by (intro exI [of _ "d\<lparr>cd_rank := rank\<rparr>"]) simp
    qed (auto simp: peer_of_shares)
    with l one Some show ?thesis by (auto simp: settles_def peer_of_shares)
  qed
qed

section \<open>What becomes of a rule\<close>

text \<open>The rule as it is recorded for its destination, and as it is generated.\<close>

definition recorded_rule :: "string \<Rightarrow> (string \<times> endpoint option) option \<Rightarrow> candidate option \<Rightarrow> ruleConfig \<Rightarrow> ruleConfig" where
  "recorded_rule project src choice cfg = cfg\<lparr>
     r_IdentityVersion := 1,
     r_SourceProject := project,
     r_NetworkID := (case src of Some (_, Some ep) \<Rightarrow> ep_NetworkID ep | _ \<Rightarrow> r_NetworkID cfg),
     r_ResolvedContainerID := (case choice of Some c \<Rightarrow> ir_ID (cd_container c) | None \<Rightarrow> r_ResolvedContainerID cfg),
     r_ResolvedContainerName := (case choice of
         Some c \<Rightarrow> (let n = ir_Name (cd_container c) in if n \<noteq> [] \<and> hd n = CHR ''/'' then tl n else n)
       | None \<Rightarrow> r_ResolvedContainerName cfg)\<rparr>"

lemma recorded_rule_identified:
  "recorded_rule project src choice cfg =
     (case choice of
        None \<Rightarrow> identified project src cfg
      | Some c \<Rightarrow> (identified project src cfg)\<lparr>r_ResolvedContainerID := ir_ID (cd_container c),
          r_ResolvedContainerName := stripName (ir_Name (cd_container c))\<rparr>)"
proof -
  have "stripName n = (if n \<noteq> [] \<and> hd n = CHR ''/'' then tl n else n)" for n
    by (cases n) (simp_all add: stripName_def)
  then show ?thesis
    by (auto simp: recorded_rule_def identified_def Let_def split: option.splits)
qed

definition known_candidate :: "tables \<Rightarrow> candidate option \<Rightarrow> candidate option" where
  "known_candidate T choice =
     (case choice of Some c \<Rightarrow> if has_container T (ir_ID (cd_container c)) then Some c else None | None \<Rightarrow> None)"

definition generated_rule :: "candidate option \<Rightarrow> ruleConfig \<Rightarrow> ruleConfig" where
  "generated_rule known cfg =
     (case known of
        None \<Rightarrow> cfg\<lparr>r_skip := True\<rparr>
      | Some c \<Rightarrow> cfg\<lparr>r_IPs := (case cd_network c of Some ep \<Rightarrow> Some [aor_of_addr (ep_IPAddress ep)] | None \<Rightarrow> None)\<rparr>)"

record population =
  po_rule :: ruleConfig
  po_rows :: "(string \<times> string \<times> byte list) list"
  po_found :: "string list"

definition populated ::
    "docker_client \<Rightarrow> gob_codec \<Rightarrow> summary list \<Rightarrow> tables \<Rightarrow> string \<Rightarrow> string \<Rightarrow> networks \<Rightarrow> ruleConfig \<Rightarrow> population \<Rightarrow> bool" where
  "populated D G listed T cid project networks cfg po \<longleftrightarrow>
     (if r_Container cfg = [] then po = \<lparr>po_rule = cfg, po_rows = [], po_found = []\<rparr>
      else
        (\<exists>src choice buf.
           (if r_Network cfg = [] then src = None
            else \<exists>s. src = Some s \<and> network_named (r_Network cfg) project networks s) \<and>
           settles D (r_Network cfg) src (best_named (r_Container cfg) project listed) choice \<and>
           gob_Encode G (recorded_rule project src choice cfg) = Inr buf \<and>
           po = \<lparr>po_rule = generated_rule (known_candidate T choice) (recorded_rule project src choice cfg),
             po_rows = [(cid, r_Container cfg, buf)],
             po_found = (case known_candidate T choice of None \<Rightarrow> [] | Some c \<Rightarrow> [ir_ID (cd_container c)])\<rparr> \<and>
           (\<forall>c. known_candidate T choice = Some c \<longrightarrow> (\<exists>ep. cd_network c = Some ep \<and> addr_Is4 (ep_IPAddress ep)))))"

lemma identified_sel [simp]:
  "r_Container (identified project src cfg) = r_Container cfg" "r_Network (identified project src cfg) = r_Network cfg"
  "r_Proto (identified project src cfg) = r_Proto cfg" "r_SrcPorts (identified project src cfg) = r_SrcPorts cfg"
  "r_DstPorts (identified project src cfg) = r_DstPorts cfg" "r_Verdict (identified project src cfg) = r_Verdict cfg"
  "r_IPs (identified project src cfg) = r_IPs cfg" "r_skip (identified project src cfg) = r_skip cfg"
  by (simp_all add: identified_def Let_def split: option.splits prod.splits)

lemma list_ex_map_of: "list_ex (\<lambda>(j, m). j = i) xs \<longleftrightarrow> map_of xs i \<noteq> None"
  by (induction xs) auto

lemma ContainerExists_eq: "ContainerExists i T = Inr (has_container T i)"
  by (simp add: ContainerExists_def has_container_def list_ex_map_of)

lemma tx_query_ok: "tx_query f t = (t', Inr x) \<Longrightarrow> f (tx_tables t) = Inr x \<and> tx_tables t' = tx_tables t"
  by (auto simp: tx_query_def split: if_splits prod.splits option.splits)

lemma AddWaiting_ok:
  assumes "tx_exec (AddWaitingContainerRule cid name buf) t = (t', None)"
  shows "tx_tables t' = (tx_tables t)\<lparr>t_waiting := insert_row (cid, name, buf) (t_waiting (tx_tables t))\<rparr>"
  using assms by (auto simp: tx_exec_def AddWaitingContainerRule_def split: if_splits prod.splits option.splits)

lemma record_rule_ok:
  assumes "record_rule G cid cfg t = (t', None)"
  shows "\<exists>buf. gob_Encode G cfg = Inr buf \<and>
    tx_tables t' = (tx_tables t)\<lparr>t_waiting := insert_row (cid, r_Container cfg, buf) (t_waiting (tx_tables t))\<rparr>"
proof (cases "gob_Encode G cfg")
  case (Inl e)
  with assms show ?thesis by (simp add: record_rule_def)
next
  case (Inr buf)
  with assms have "tx_exec (AddWaitingContainerRule cid (r_Container cfg) buf) t = (t', None)"
    by (auto simp: record_rule_def wrap_step_def split: prod.splits option.splits)
  from AddWaiting_ok [OF this] Inr show ?thesis by simp
qed

lemma select_destination_ok:
  assumes "select_destination c cfg t = (t', Inr (recorded, generated, found))"
  shows "tx_tables t' = tx_tables t \<and>
    recorded = cfg\<lparr>r_ResolvedContainerID := ir_ID (cd_container c), r_ResolvedContainerName := stripName (ir_Name (cd_container c))\<rparr> \<and>
    generated = generated_rule (known_candidate (tx_tables t) (Some c)) recorded \<and>
    found = (case known_candidate (tx_tables t) (Some c) of None \<Rightarrow> [] | Some c \<Rightarrow> [ir_ID (cd_container c)]) \<and>
    (\<forall>d. known_candidate (tx_tables t) (Some c) = Some d \<longrightarrow> (\<exists>ep. cd_network d = Some ep \<and> addr_Is4 (ep_IPAddress ep)))"
proof -
  let ?i = "ir_ID (cd_container c)"
  obtain t1 b where q: "containerExists tx_query ?i t = (t1, Inr b)"
    using assms by (auto simp: select_destination_def Let_def split: prod.splits sum.splits)
  then have "tx_query (ContainerExists ?i) t = (t1, Inr b)" by (auto simp: containerExists_def split: prod.splits sum.splits)
  from tx_query_ok [OF this] have b: "b = has_container (tx_tables t) ?i" "tx_tables t1 = tx_tables t"
    by (simp_all add: ContainerExists_eq)
  show ?thesis
  proof (cases b)
    case False
    with q b assms show ?thesis
      by (auto simp: select_destination_def Let_def known_candidate_def generated_rule_def)
  next
    case True
    with q assms obtain ep where ep: "cd_network c = Some ep" "addr_Is4 (ep_IPAddress ep)"
      by (cases "cd_network c") (auto simp: select_destination_def Let_def ep_of_def split: if_splits)
    with q True b assms show ?thesis
      by (auto simp: select_destination_def Let_def ep_of_def known_candidate_def generated_rule_def split: if_splits)
  qed
qed

lemma known_candidate_waiting [simp]: "known_candidate (T\<lparr>t_waiting := w\<rparr>) = known_candidate T"
  by (simp add: known_candidate_def has_container_def fun_eq_iff split: option.splits)

lemma populated_waiting [simp]: "populated D G listed (T\<lparr>t_waiting := w\<rparr>) = populated D G listed T"
  by (simp add: populated_def fun_eq_iff)

lemma populate_rule_ok:
  assumes c: "cached D st" and run: "populate_rule D G listed cid project networks cfg st = (st', Inr cfg')"
  shows "cached D st' \<and> (\<exists>po. populated D G listed (tx_tables (ps_tx st)) cid project networks cfg po \<and> po_rule po = cfg' \<and>
    ps_est st' = ps_est st @ po_found po \<and>
    tx_tables (ps_tx st') = (tx_tables (ps_tx st))\<lparr>t_waiting := fold insert_row (po_rows po) (t_waiting (tx_tables (ps_tx st)))\<rparr>)"
proof (cases "r_Container cfg = []")
  case True
  with run c show ?thesis by (auto simp: populate_rule_def Let_def populated_def split: if_splits)
next
  case named: False
  define src where "src = (if r_Network cfg \<noteq> [] then findNetwork (r_Network cfg) project networks else None)"
  have net: "r_Network cfg \<noteq> [] \<longrightarrow> src \<noteq> None"
    and res: "resolve_container D G listed cid project src cfg st = (st', Inr cfg')"
    using run named by (auto simp: populate_rule_def Let_def src_def split: if_splits)
  let ?cfg = "identified project src cfg" and ?T = "tx_tables (ps_tx st)"
  obtain rank ms where bm: "best_matches (r_Container cfg) project listed (0, []) = (rank, ms)" by force
  then have ms: "ms = named_best (r_Container cfg) project listed" using best_matches_spec by (metis snd_conv)
  define ta0 where "ta0 = \<lparr>ta_nameMatches = length ms, ta_unmanaged = 0, ta_candidates = []\<rparr>"
  note def = res [unfolded resolve_container_def Let_def identified_sel bm prod.case, folded ta0_def]
  obtain st1 ta where g: "gather_candidates D (r_Network cfg) src rank ms st ta0 = Inr (st1, ta)"
    using def by (auto split: sum.splits)
  from gather_candidates_eq [OF c g] obtain peers where p: "cached D st1" "ps_tx st1 = ps_tx st" "ps_est st1 = ps_est st"
    "map (peer_of D (r_Network cfg) src rank) ms = map Inr peers"
    "ta_nameMatches ta = length ms - length (filter (\<lambda>p. p = Gone) peers)"
    "ta_unmanaged ta = length (filter (\<lambda>p. p = Unmanaged) peers)" "ta_candidates ta = candidates_of peers"
    by (auto simp: ta0_def)
  have "length ms = length peers" using arg_cong [OF p(4), of length] by simp
  obtain choice where ch: "choose_candidate ta = Inr choice" using def g by (auto split: sum.splits)
  have settled: "settled peers choice"
    using choose_candidate_settled [OF candidates_of_rank [OF p(4)] _ p(6,7) ch] p(5) \<open>length ms = length peers\<close> by simp
  obtain t2 recorded generated found where sel:
    "(case choice of None \<Rightarrow> (ps_tx st1, Inr (?cfg, ?cfg\<lparr>r_skip := True\<rparr>, []))
      | Some selected \<Rightarrow> select_destination selected ?cfg (ps_tx st1)) = (t2, Inr (recorded, generated, found))"
    using def g ch by (auto split: sum.splits prod.splits)
  have s: "tx_tables t2 = ?T \<and> recorded = recorded_rule project src choice cfg \<and>
      generated = generated_rule (known_candidate ?T choice) recorded \<and>
      found = (case known_candidate ?T choice of None \<Rightarrow> [] | Some c \<Rightarrow> [ir_ID (cd_container c)]) \<and>
      (\<forall>d. known_candidate ?T choice = Some d \<longrightarrow> (\<exists>ep. cd_network d = Some ep \<and> addr_Is4 (ep_IPAddress ep)))"
  proof (cases choice)
    case None
    with sel p(2) show ?thesis by (auto simp: known_candidate_def generated_rule_def recorded_rule_identified)
  next
    case (Some x)
    with sel have "select_destination x ?cfg (ps_tx st1) = (t2, Inr (recorded, generated, found))" by simp
    from select_destination_ok [OF this] p(2) Some show ?thesis by (simp add: recorded_rule_identified)
  qed
  obtain t3 where rec: "record_rule G cid recorded t2 = (t3, None)"
    and st': "st' = st1\<lparr>ps_tx := t3, ps_est := ps_est st1 @ found\<rparr>" "cfg' = generated"
    using def g ch sel by (auto split: sum.splits prod.splits option.splits)
  have "r_Container recorded = r_Container cfg" using s by (simp add: recorded_rule_def)
  with record_rule_ok [OF rec] s obtain buf where buf: "gob_Encode G recorded = Inr buf"
    "tx_tables t3 = ?T\<lparr>t_waiting := insert_row (cid, r_Container cfg, buf) (t_waiting ?T)\<rparr>" by auto
  let ?po = "\<lparr>po_rule = cfg', po_rows = [(cid, r_Container cfg, buf)], po_found = found\<rparr>"
  have "populated D G listed ?T cid project networks cfg ?po"
  proof -
    have "if r_Network cfg = [] then src = None else \<exists>s. src = Some s \<and> network_named (r_Network cfg) project networks s"
      using net by (auto simp: src_def findNetwork_named [symmetric])
    moreover have "settles D (r_Network cfg) src (best_named (r_Container cfg) project listed) choice"
      using settled_settles [OF p(4) settled] ms by (simp add: named_best_eq)
    ultimately show ?thesis
      unfolding populated_def if_not_P [OF named] using buf(1) s st'(2) by blast
  qed
  moreover have "cached D st'" using p(1) st'(1) by (simp add: cached_def)
  ultimately show ?thesis using p(3) st' buf(2) by (intro conjI exI [of _ ?po]) simp_all
qed

lemma populate_rules_ok:
  assumes "cached D st" "populate_rules D G listed cid project networks cfgs st = (st', Inr cfgs')"
  shows "\<exists>pos. list_all2 (populated D G listed (tx_tables (ps_tx st)) cid project networks) cfgs pos \<and> cfgs' = map po_rule pos \<and>
    ps_est st' = ps_est st @ concat (map po_found pos) \<and>
    tx_tables (ps_tx st') = (tx_tables (ps_tx st))\<lparr>t_waiting := fold insert_row (concat (map po_rows pos)) (t_waiting (tx_tables (ps_tx st)))\<rparr>"
  using assms
proof (induction cfgs arbitrary: st cfgs')
  case (Cons cfg cfgs)
  obtain st1 cfg1 where 1: "populate_rule D G listed cid project networks cfg st = (st1, Inr cfg1)"
    using Cons.prems(2) by (auto split: prod.splits sum.splits)
  obtain cfgs1 where 2: "populate_rules D G listed cid project networks cfgs st1 = (st', Inr cfgs1)" "cfgs' = cfg1 # cfgs1"
    using Cons.prems(2) 1 by (auto split: prod.splits sum.splits)
  from populate_rule_ok [OF Cons.prems(1) 1] obtain po where po: "cached D st1"
    "populated D G listed (tx_tables (ps_tx st)) cid project networks cfg po" "po_rule po = cfg1"
    "ps_est st1 = ps_est st @ po_found po"
    "tx_tables (ps_tx st1) = (tx_tables (ps_tx st))\<lparr>t_waiting := fold insert_row (po_rows po) (t_waiting (tx_tables (ps_tx st)))\<rparr>"
    by blast
  from Cons.IH [OF po(1) 2(1)] obtain pos where
    "list_all2 (populated D G listed (tx_tables (ps_tx st)) cid project networks) cfgs pos" "cfgs1 = map po_rule pos"
    "ps_est st' = ps_est st1 @ concat (map po_found pos)"
    "tx_tables (ps_tx st') = (tx_tables (ps_tx st1))\<lparr>t_waiting := fold insert_row (concat (map po_rows pos)) (t_waiting (tx_tables (ps_tx st1)))\<rparr>"
    by (auto simp: po(5))
  with po 2(2) show ?case by (intro exI [of _ "po # pos"]) simp
qed simp

lemma populateOutputRules_ok:
  assumes "populateOutputRules D G cfg cid project networks t = (t', Inr (cfgs, est))"
  shows "\<exists>listed pos. (list_ex (\<lambda>r. r_Container r \<noteq> []) (c_Output cfg) \<longrightarrow> dk_ContainerList D None = Inr listed) \<and>
    list_all2 (populated D G listed (tx_tables t) cid project networks) (c_Output cfg) pos \<and> cfgs = map po_rule pos \<and>
    est = concat (map po_found pos) \<and>
    tx_tables t' = (tx_tables t)\<lparr>t_waiting := fold insert_row (concat (map po_rows pos)) (t_waiting (tx_tables t))\<rparr>"
proof -
  obtain listed where l: "(if list_ex (\<lambda>r. r_Container r \<noteq> []) (c_Output cfg) then dk_ContainerList D None else Inr []) = Inr listed"
    using assms by (auto simp: populateOutputRules_def split: sum.splits)
  let ?st = "\<lparr>ps_tx = t, ps_containers = [], ps_networks = [], ps_est = []\<rparr>"
  obtain st where run: "populate_rules D G listed cid project networks (c_Output cfg) ?st = (st, Inr cfgs)" "t' = ps_tx st" "est = ps_est st"
    using assms l by (auto simp: populateOutputRules_def split: sum.splits prod.splits)
  have "cached D ?st" by (simp add: cached_def)
  from populate_rules_ok [OF this run(1)] run(2,3) l show ?thesis
    by (intro exI [of _ listed]) (auto split: if_splits)
qed

section \<open>Properties\<close>

definition db_container :: inspectResponse where
  "db_container = \<lparr>ir_ID = ''d'', ir_Name = ''/db'', ir_Running = Some True, ir_Labels = Some [(enabledLabel, ''true'')],
     ir_NetworkSettings = Some \<lparr>ns_Networks = [(''front'', Some \<lparr>ep_NetworkID = ''n1'', ep_IPAddress = Addr4 167772163,
       ep_Gateway = Addr4 167772161, ep_GlobalIPv6Address = AddrZero, ep_GwPriority = 0\<rparr>)], ns_Ports = []\<rparr>\<rparr>"

definition db_daemon :: docker_client where
  "db_daemon = \<lparr>dk_ContainerList = (\<lambda>_. Inr [\<lparr>su_ID = ''d'', su_Names = [''/db''], su_Labels = []\<rparr>]),
     dk_ContainerInspect = (\<lambda>i. if i = ''d'' then Inr db_container else Inl (Msg ''no such container'')), dk_IsNotFound = (\<lambda>_. True)\<rparr>"

definition db_rule :: ruleConfig where
  "db_rule = zero_rule\<lparr>r_Network := ''front'', r_Container := ''db'', r_Proto := tcp,
     r_DstPorts := [\<lparr>rp_single = 443, rp_interval = zero_interval\<rparr>]\<rparr>"

definition db_config :: config where
  "db_config = \<lparr>c_MappedPorts = web_mapping, c_Output = [db_rule]\<rparr>"

definition db_networks :: networks where
  "db_networks = [(''front'', Some \<lparr>ep_NetworkID = ''n1'', ep_IPAddress = Addr4 167772162, ep_Gateway = Addr4 167772161,
     ep_GlobalIPv6Address = AddrZero, ep_GwPriority = 0\<rparr>)]"

definition db_transaction :: sql_tx where
  "db_transaction = \<lparr>tx_engine = \<lparr>sq_tables = empty_tables, sq_fk = True, sq_faults = []\<rparr>,
     tx_tables = empty_tables\<lparr>t_containers := [(''d'', ''db''), (''x'', ''web'')]\<rparr>, tx_done = False, tx_ctxErr = None\<rparr>"

definition any_codec :: gob_codec where
  "any_codec = \<lparr>gob_Encode = (\<lambda>_. Inr [1]), gob_Decode = (\<lambda>_. Inl (Msg ''not decoded''))\<rparr>"

text \<open>C4: resolving the destinations of output rules never guesses. A rule that names no container stays as it is. For a
  rule that does, the running containers whose names match best (their own name, else their Compose service in
  the source's project) are all looked at. Each of them has gone, or it is there, is labelled as enabled and has
  networks that can be enforced; and either all have gone, or exactly one of them manages the rule's network and
  shares it with the source. Anything else is an error. The rule is then generated for that container's IPv4
  address alone, or passed over when there is none or it has no policy yet; what is recorded for the destination
  carries the source's project, the id of the network, and the id and name of the destination; and the transaction
  gains these records and nothing else.\<close>

theorem populateOutputRules_correct:
  assumes "populateOutputRules D G cfg cid project networks t = (t', Inr (cfgs, est))"
  shows "\<exists>listed pos. (list_ex (\<lambda>r. r_Container r \<noteq> []) (c_Output cfg) \<longrightarrow> dk_ContainerList D None = Inr listed) \<and>
    list_all2 (populated D G listed (tx_tables t) cid project networks) (c_Output cfg) pos \<and> cfgs = map po_rule pos \<and>
    est = concat (map po_found pos) \<and>
    tx_tables t' = (tx_tables t)\<lparr>t_waiting := fold insert_row (concat (map po_rows pos)) (t_waiting (tx_tables t))\<rparr>"
  using assms by (rule populateOutputRules_ok)

lemma db_run: "snd (populateOutputRules db_daemon any_codec db_config ''x'' ''app'' db_networks
    db_transaction) =
  Inr ([db_rule\<lparr>r_IPs := Some [aor_of_addr (Addr4 167772163)], r_IdentityVersion := 1, r_SourceProject := ''app'', r_NetworkID := ''n1'',
    r_ResolvedContainerID := ''d'', r_ResolvedContainerName := ''db''\<rparr>], [''d''])"
  by code_simp

theorem populateOutputRules_correct_witness:
  "\<exists>listed pos. list_all2 (populated db_daemon any_codec listed (tx_tables db_transaction) ''x'' ''app'' db_networks) (c_Output db_config) pos \<and>
     map (r_IPs \<circ> po_rule) pos = [Some [aor_of_addr (Addr4 167772163)]] \<and>
     map (r_SourceProject \<circ> po_rule) pos = [''app''] \<and> concat (map po_found pos) = [''d'']"
proof -
  let ?r = "db_rule\<lparr>r_IPs := Some [aor_of_addr (Addr4 167772163)], r_IdentityVersion := 1, r_SourceProject := ''app'', r_NetworkID := ''n1'',
    r_ResolvedContainerID := ''d'', r_ResolvedContainerName := ''db''\<rparr>"
  obtain t' where "populateOutputRules db_daemon any_codec db_config ''x'' ''app'' db_networks
    db_transaction = (t', Inr ([?r], [''d'']))" using db_run by (metis prod.collapse)
  from populateOutputRules_correct [OF this] show ?thesis
  proof (elim exE conjE)
    fix listed pos
    assume pop: "list_all2 (populated db_daemon any_codec listed (tx_tables db_transaction) ''x'' ''app'' db_networks) (c_Output db_config) pos"
      and rules: "[?r] = map po_rule pos" and found: "[''d''] = concat (map po_found pos)"
    have "map (r_IPs \<circ> po_rule) pos = map r_IPs [?r]" "map (r_SourceProject \<circ> po_rule) pos = map r_SourceProject [?r]"
      unfolding rules by simp_all
    with pop found show ?thesis by (intro exI [of _ listed] exI [of _ pos]) simp
  qed
qed

end
