(* ===== verification/Quiet.thy ===== *)
theory Quiet
  imports Create Generated Policy_Correct
begin

text \<open>
  Generating rules commits nothing, whatever the configuration, the names and the answers of Docker and of
  the database are: a generator leaves the committed ruleset alone, queues nothing but new anonymous sets,
  and its rules are for the filter table and look nothing up but the sets it has made. \<open>quietly\<close> says so of
  one generator and composes along the ways in which the program strings generators together. Nothing here
  models code of the program.
\<close>

section \<open>Quiet generators\<close>

text \<open>\<open>J\<close> holds after every call and \<open>K\<close> after one that succeeds; \<open>U\<close> holds of its result, and \<open>V\<close> too as long as
  the batch is sound (\<open>L\<close>).\<close>

definition quietly :: "('c \<Rightarrow> bool) \<Rightarrow> ('c \<Rightarrow> bool) \<Rightarrow> ('c \<Rightarrow> bool) \<Rightarrow> ('a \<Rightarrow> bool) \<Rightarrow> ('a \<Rightarrow> bool) \<Rightarrow>
    ('c \<Rightarrow> 'c \<times> 'a result) \<Rightarrow> bool" where
  "quietly J K L U V f \<longleftrightarrow>
     (\<forall>c c' res. J c \<longrightarrow> K c \<longrightarrow> f c = (c', res) \<longrightarrow> J c' \<and>
        (\<forall>x. res = Inr x \<longrightarrow> K c' \<and> U x \<and> (L c' \<longrightarrow> L c \<and> V x)))"

lemma quietlyD:
  assumes "quietly J K L U V f" "J c" "K c" "f c = (c', res)"
  shows "J c'" "res = Inr x \<Longrightarrow> K c'" "res = Inr x \<Longrightarrow> U x" "res = Inr x \<Longrightarrow> L c' \<Longrightarrow> L c \<and> V x"
  using assms unfolding quietly_def by blast+

lemma quietly_return: "U x \<Longrightarrow> V x \<Longrightarrow> quietly J K L U V (\<lambda>c. (c, Inr x))"
  by (simp add: quietly_def)

lemma quietly_error: "quietly J K L U V (\<lambda>c. (c, Inl e))"
  by (simp add: quietly_def)

lemma quietly_result: "(\<And>x. res = Inr x \<Longrightarrow> U x \<and> V x) \<Longrightarrow> quietly J K L U V (\<lambda>c. (c, res))"
  by (cases res) (simp_all add: quietly_def)

lemma quietly_eq: "quietly J K L U V f \<Longrightarrow> (\<And>c. g c = f c) \<Longrightarrow> quietly J K L U V g"
  using ext [of g f] by metis

lemma quietly_mono:
  "quietly J K L U V f \<Longrightarrow> (\<And>x. U x \<Longrightarrow> U' x) \<Longrightarrow> (\<And>x. V x \<Longrightarrow> V' x) \<Longrightarrow> quietly J K L U' V' f"
  unfolding quietly_def by blast

lemma quietly_if:
  "(b \<Longrightarrow> quietly J K L U V f) \<Longrightarrow> (\<not> b \<Longrightarrow> quietly J K L U V g) \<Longrightarrow> quietly J K L U V (\<lambda>c. if b then f c else g c)"
  by (cases b) simp_all

lemma quietly_sum:
  "(\<And>e. x = Inl e \<Longrightarrow> quietly J K L U V (f e)) \<Longrightarrow> (\<And>y. x = Inr y \<Longrightarrow> quietly J K L U V (g y)) \<Longrightarrow>
   quietly J K L U V (\<lambda>c. case x of Inl e \<Rightarrow> f e c | Inr y \<Rightarrow> g y c)"
  by (cases x) simp_all

lemma quietly_option:
  "(x = None \<Longrightarrow> quietly J K L U V f) \<Longrightarrow> (\<And>y. x = Some y \<Longrightarrow> quietly J K L U V (g y)) \<Longrightarrow>
   quietly J K L U V (\<lambda>c. case x of None \<Rightarrow> f c | Some y \<Rightarrow> g y c)"
  by (cases x) simp_all

lemma quietly_prod:
  "(\<And>a b. x = (a, b) \<Longrightarrow> quietly J K L U V (f a b)) \<Longrightarrow> quietly J K L U V (\<lambda>c. case x of (a, b) \<Rightarrow> f a b c)"
  by (cases x) simp

lemma quietly_bind:
  assumes "quietly J K L U V g" "\<And>x. U x \<Longrightarrow> quietly J K L U' (\<lambda>y. V x \<longrightarrow> V' y) (h x)"
  shows "quietly J K L U' V' (\<lambda>c. case g c of (c, Inl e) \<Rightarrow> (c, Inl (w e)) | (c, Inr x) \<Rightarrow> h x c)"
  unfolding quietly_def
proof (intro allI impI)
  fix c c' res
  assume c: "J c" "K c" and run: "(case g c of (c, Inl e) \<Rightarrow> (c, Inl (w e)) | (c, Inr x) \<Rightarrow> h x c) = (c', res)"
  obtain c1 r1 where g: "g c = (c1, r1)" by (metis surj_pair)
  note d = quietlyD [OF assms(1) c g]
  show "J c' \<and> (\<forall>x. res = Inr x \<longrightarrow> K c' \<and> U' x \<and> (L c' \<longrightarrow> L c \<and> V' x))"
  proof (cases r1)
    case (Inl e)
    with g run d show ?thesis by auto
  next
    case (Inr x)
    with g run have "h x c1 = (c', res)" by simp
    with quietlyD [OF assms(2) [OF d(3) [OF Inr]] d(1) d(2) [OF Inr] this] d(4) [OF Inr] show ?thesis by blast
  qed
qed

lemma quietly_bind_step:
  assumes "quietly J K L U V g" "\<And>x. U x \<Longrightarrow> quietly J K L U' (\<lambda>y. V x \<longrightarrow> V' y) (h x)"
  shows "quietly J K L U' V' (bind_step g h)"
  unfolding bind_step_def [abs_def] by (rule quietly_bind [OF assms, where w = "\<lambda>e. e"])

lemma quietly_gen_wrap: "quietly J K L U V f \<Longrightarrow> quietly J K L U V (gen_wrap msg f)"
  unfolding gen_wrap_def [abs_def] by (erule quietly_bind) (rule quietly_return, simp_all)

lemma sets_queued_refl [simp]: "sets_queued a a"
  by (simp add: sets_queued_def)

lemma sets_queued_trans: "sets_queued a b \<Longrightarrow> sets_queued b c \<Longrightarrow> sets_queued a c"
  by (simp add: sets_queued_def)

text \<open>Expressions that look nothing up but pending sets, which no rule referred to before.\<close>

definition unreferenced :: "ruleset \<Rightarrow> string \<Rightarrow> bool" where
  "unreferenced k s \<longleftrightarrow> (\<forall>n ch rules r. rs_chains k n = Some (ch, rules) \<longrightarrow> r \<in> set rules \<longrightarrow> s \<notin> rule_sets r)"

definition fresh_exprs :: "ruleset \<Rightarrow> nexpr list \<Rightarrow> bool" where
  "fresh_exprs k es \<longleftrightarrow> (\<forall>l. ELookup l \<in> set es \<longrightarrow> lk_SetName l = anonSetName \<and> unreferenced k (anon_name (lk_SetID l)))"

definition fresh_rules :: "ruleset \<Rightarrow> nft_rule list \<Rightarrow> bool" where
  "fresh_rules k rules \<longleftrightarrow> (\<forall>r \<in> set rules. fresh_exprs k (ru_Exprs r))"

lemma fresh_exprs_simps [simp]:
  "fresh_exprs k []" "fresh_exprs k (es @ fs) \<longleftrightarrow> fresh_exprs k es \<and> fresh_exprs k fs"
  "fresh_exprs k (e # f # es) \<longleftrightarrow> fresh_exprs k [e] \<and> fresh_exprs k (f # es)"
  by (auto simp: fresh_exprs_def)

lemma fresh_exprs_single: "fresh_exprs k [e] \<longleftrightarrow> (case e of ELookup l \<Rightarrow>
    lk_SetName l = anonSetName \<and> unreferenced k (anon_name (lk_SetID l)) | _ \<Rightarrow> True)"
  by (cases e) (auto simp: fresh_exprs_def)

lemma fresh_rules_simps [simp]:
  "fresh_rules k []" "fresh_rules k (xs @ ys) \<longleftrightarrow> fresh_rules k xs \<and> fresh_rules k ys"
  "fresh_rules k (r # xs) \<longleftrightarrow> fresh_exprs k (ru_Exprs r) \<and> fresh_rules k xs"
  by (auto simp: fresh_rules_def)

text \<open>Rules for the filter table.\<close>

definition filter_rules :: "nft_rule list \<Rightarrow> bool" where
  "filter_rules rules \<longleftrightarrow> (\<forall>r \<in> set rules. ru_Table r = Some filterTable)"

lemma filter_rules_simps [simp]:
  "filter_rules []" "filter_rules (xs @ ys) \<longleftrightarrow> filter_rules xs \<and> filter_rules ys"
  "filter_rules (r # xs) \<longleftrightarrow> ru_Table r = Some filterTable \<and> filter_rules xs"
  by (auto simp: filter_rules_def)

lemma quietly_each:
  assumes "\<And>x. x \<in> set xs \<Longrightarrow> quietly J K L filter_rules (fresh_rules k) (f x)"
  shows "quietly J K L filter_rules (fresh_rules k) (gen_each f xs)"
  using assms
proof (induction xs)
  case Nil
  show ?case by (simp add: quietly_def)
next
  case (Cons x xs)
  have "quietly J K L filter_rules (fresh_rules k) (\<lambda>c. case f x c of (c, Inl e) \<Rightarrow> (c, Inl e)
      | (c, Inr rules) \<Rightarrow> (case gen_each f xs c of (c, Inl e) \<Rightarrow> (c, Inl e) | (c, Inr rest) \<Rightarrow> (c, Inr (rules @ rest))))"
  proof (rule quietly_bind [where w = "\<lambda>e. e"])
    show "quietly J K L filter_rules (fresh_rules k) (f x)" by (rule Cons.prems) simp
    show "quietly J K L filter_rules (\<lambda>y. fresh_rules k rules \<longrightarrow> fresh_rules k y) (\<lambda>c. case gen_each f xs c of
        (c, Inl e) \<Rightarrow> (c, Inl e) | (c, Inr rest) \<Rightarrow> (c, Inr (rules @ rest)))" if "filter_rules rules" for rules
    proof (rule quietly_bind [where w = "\<lambda>e. e"])
      show "quietly J K L filter_rules (fresh_rules k) (gen_each f xs)" by (rule Cons.IH, rule Cons.prems) simp
    qed (rule quietly_return; use that in simp)
  qed
  then show ?case by (rule quietly_eq) simp
qed

lemma quietly_in_order:
  assumes "\<And>f. f \<in> set fs \<Longrightarrow> quietly J K L (\<lambda>r. ru_Table r = Some filterTable) (\<lambda>r. fresh_exprs k (ru_Exprs r)) f"
  shows "quietly J K L filter_rules (fresh_rules k) (create_in_order fs)"
  using assms
proof (induction fs)
  case Nil
  show ?case by (simp add: quietly_def)
next
  case (Cons f fs)
  have "quietly J K L filter_rules (fresh_rules k) (\<lambda>c. case f c of (c, Inl e) \<Rightarrow> (c, Inl e)
      | (c, Inr r) \<Rightarrow> (case create_in_order fs c of (c, Inl e) \<Rightarrow> (c, Inl e) | (c, Inr rs) \<Rightarrow> (c, Inr (r # rs))))"
  proof (rule quietly_bind [where w = "\<lambda>e. e"])
    show "quietly J K L (\<lambda>r. ru_Table r = Some filterTable) (\<lambda>r. fresh_exprs k (ru_Exprs r)) f" by (rule Cons.prems) simp
    show "quietly J K L filter_rules (\<lambda>y. fresh_exprs k (ru_Exprs r) \<longrightarrow> fresh_rules k y) (\<lambda>c. case create_in_order fs c of
        (c, Inl e) \<Rightarrow> (c, Inl e) | (c, Inr rs) \<Rightarrow> (c, Inr (r # rs)))" if "ru_Table r = Some filterTable" for r
    proof (rule quietly_bind [where w = "\<lambda>e. e"])
      show "quietly J K L filter_rules (fresh_rules k) (create_in_order fs)" by (rule Cons.IH, rule Cons.prems) simp
    qed (rule quietly_return; use that in simp)
  qed
  then show ?case by (rule quietly_eq) simp
qed

section \<open>The rules of one description\<close>

definition live :: "'a option \<Rightarrow> bool" where "live st \<longleftrightarrow> st \<noteq> None"

context firewall_client
begin

abbreviation "quiet k \<equiv> quietly (\<lambda>c. ok c \<and> committed c = k) (\<lambda>c. \<forall>a. staged c = Some a \<longrightarrow> sets_queued k a) (\<lambda>c. live (staged c))"

lemma AddSet_quiet:
  assumes "ch_Table chain = Some filterTable"
  shows "quiet k (\<lambda>s. True) (\<lambda>s. fresh_exprs k [matchFromSetExpr s]) (fc_AddSet F (union_set chain hi ty) els)"
  unfolding quietly_def
proof (intro allI impI)
  fix c c' res
  assume c: "ok c \<and> committed c = k" "\<forall>a. staged c = Some a \<longrightarrow> sets_queued k a"
    and run: "fc_AddSet F (union_set chain hi ty) els c = (c', res)"
  have u: "s_Table (union_set chain hi ty) = Some filterTable" "s_Anonymous (union_set chain hi ty)"
    using assms by (simp_all add: union_set_def zero_set_def)
  have okc: "ok c" using c(1) ..
  have "ok c' \<and> committed c' = k" using AddSet_ok [OF okc u(1) _ run] u(2) c(1) by auto
  moreover have "sets_queued k b \<and> staged c \<noteq> None \<and> fresh_exprs k [matchFromSetExpr s]"
    if "res = Inr s" and b: "staged c' = Some b" for s b
  proof -
    have "fc_AddSet F (union_set chain hi ty) els c = (c', Inr s)" using run that by simp
    from AddSet_staged [OF okc u(1) _ this b] u(2) obtain a where a: "staged c = Some a"
      "s = (union_set chain hi ty)\<lparr>s_ID := s_ID s, s_Name := anonSetName\<rparr>" "unreferenced a (anon_name (s_ID s))"
      "b = rs_AddSet (s\<lparr>s_Name := anon_name (s_ID s)\<rparr>) els a" unfolding unreferenced_def by auto
    have k: "sets_queued k a" using c(2) a(1) by blast
    have "is_anon_name (anon_name (s_ID s))" by (simp add: is_anon_name_def anon_name_def HasPrefix_def)
    with a(4) k have "sets_queued k b" by (auto simp: sets_queued_def rs_AddSet_def)
    moreover have "s_Name s = anonSetName" using arg_cong [OF a(2), of s_Name] by simp
    then have "fresh_exprs k [matchFromSetExpr s]"
      using a(3) k by (simp add: fresh_exprs_single matchFromSetExpr_def sets_queued_def unreferenced_def)
    ultimately show ?thesis using a(1) by simp
  qed
  ultimately show "(ok c' \<and> committed c' = k) \<and> (\<forall>s. res = Inr s \<longrightarrow>
      (\<forall>b. staged c' = Some b \<longrightarrow> sets_queued k b) \<and> True \<and>
      (live (staged c') \<longrightarrow> live (staged c) \<and> fresh_exprs k [matchFromSetExpr s]))"
    unfolding live_def by blast
qed

lemma createIPExprs_quiet:
  assumes "ch_Table chain = Some filterTable"
  shows "quiet k (\<lambda>es. True) (fresh_exprs k) (createIPExprs F L addrs off chain)"
proof -
  have get: "fresh_exprs k [getAddrExpr off]" by (simp add: getAddrExpr_def fresh_exprs_single)
  have union: "quiet k (\<lambda>es. True) (fresh_exprs k) (\<lambda>c. case addr_elements L addrs of
      Inl e \<Rightarrow> (c, Inl e)
    | Inr (hi, els) \<Rightarrow> (case fc_AddSet F (union_set chain hi TypeIPAddr) els c of
          (c', Inl e) \<Rightarrow> (c', Inl (Wrap ''error creating address union set'' e))
        | (c', Inr s) \<Rightarrow> (c', Inr [getAddrExpr off, matchFromSetExpr s])))"
  proof (cases "addr_elements L addrs")
    case (Inr x)
    then show ?thesis
      by (cases x) (auto intro!: quietly_bind [OF AddSet_quiet [OF assms]] quietly_return simp: get)
  qed (simp add: quietly_error)
  have range: "fresh_exprs k es" if "matchAddrRangeExprs lo hi off = Inr es" for lo hi es
    using that by (auto simp: matchAddrRangeExprs_def getAddrExpr_def compareAddrRangeExprs_def fresh_exprs_single
        split: sum.splits)
  show ?thesis
  proof (cases "\<exists>a. addrs = [a]")
    case True
    then obtain a where "addrs = [a]" ..
    then show ?thesis unfolding createIPExprs_def [abs_def]
      by (auto intro!: quietly_result simp: range matchAddrExprs_def getAddrExpr_def compareAddrExpr_def fresh_exprs_single
          split: option.splits sum.splits)
  next
    case False
    then have "createIPExprs F L addrs off chain = (\<lambda>c. case addr_elements L addrs of
      Inl e \<Rightarrow> (c, Inl e)
    | Inr (hi, els) \<Rightarrow> (case fc_AddSet F (union_set chain hi TypeIPAddr) els c of
          (c', Inl e) \<Rightarrow> (c', Inl (Wrap ''error creating address union set'' e))
        | (c', Inr s) \<Rightarrow> (c', Inr [getAddrExpr off, matchFromSetExpr s])))"
      by (cases addrs rule: list.exhaust [case_names Nil Cons]; cases "tl addrs") (auto simp: createIPExprs_def [abs_def])
    with union show ?thesis by simp
  qed
qed

lemma createPortExprs_quiet:
  assumes "ch_Table chain = Some filterTable"
  shows "quiet k (\<lambda>es. True) (fresh_exprs k) (createPortExprs F ports off chain)"
proof -
  obtain hi els where x: "port_elements ports = (hi, els)" by force
  have union: "quiet k (\<lambda>es. True) (fresh_exprs k) (\<lambda>c. case fc_AddSet F (union_set chain hi TypeInetService) els c of
      (c', Inl e) \<Rightarrow> (c', Inl (Wrap ''error creating port union set'' e))
    | (c', Inr s) \<Rightarrow> (c', Inr [getPortExpr off, matchFromSetExpr s]))"
    by (rule quietly_bind [OF AddSet_quiet [OF assms]])
      (rule quietly_return, simp_all add: getPortExpr_def fresh_exprs_single)
  show ?thesis
  proof (cases "\<exists>q. ports = [q]")
    case True
    then obtain q where "ports = [q]" ..
    then show ?thesis unfolding createPortExprs_def [abs_def]
      by (auto intro!: quietly_result simp: matchPortExprs_def matchPortsExprs_def getPortExpr_def comparePortExpr_def
          comparePortsExprs_def fresh_exprs_single)
  next
    case False
    then have "createPortExprs F ports off chain = (\<lambda>c. case fc_AddSet F (union_set chain hi TypeInetService) els c of
      (c', Inl e) \<Rightarrow> (c', Inl (Wrap ''error creating port union set'' e))
    | (c', Inr s) \<Rightarrow> (c', Inr [getPortExpr off, matchFromSetExpr s]))"
      by (cases ports rule: list.exhaust [case_names Nil Cons]; cases "tl ports") (use x in \<open>auto simp: createPortExprs_def [abs_def]\<close>)
    with union show ?thesis by simp
  qed
qed

lemma optional_ports_quiet:
  assumes "ch_Table chain = Some filterTable"
  shows "quiet k (\<lambda>es. True) (fresh_exprs k) (\<lambda>c. if ports \<noteq> [] then createPortExprs F ports off chain c else (c, Inr []))"
  by (intro quietly_if createPortExprs_quiet assms quietly_return) simp_all

lemma optional_ips_quiet:
  assumes "ch_Table chain = Some filterTable" "fresh_exprs k addrExprs"
  shows "quiet k (\<lambda>es. True) (fresh_exprs k) (\<lambda>c. if addrs \<noteq> [] then
       (case createIPExprs F L addrs off chain c of
          (c, Inl e) \<Rightarrow> (c, Inl e)
        | (c, Inr cfgAddrExprs) \<Rightarrow> (c, Inr (if inbound then cfgAddrExprs @ addrExprs else addrExprs @ cfgAddrExprs)))
     else (c, Inr addrExprs))"
  by (intro quietly_if quietly_bind [OF createIPExprs_quiet [OF assms(1)], where w = "\<lambda>e. e"] quietly_return) (simp_all add: assms(2))

lemma createNFTRule_quiet:
  assumes "ch_Table chain = Some filterTable"
  shows "quiet k (\<lambda>r. ru_Table r = Some filterTable) (\<lambda>r. fresh_exprs k (ru_Exprs r)) (createNFTRule F L inbound reply state addr cfg queueNum chain cid)"
  unfolding quietly_def
proof (intro allI impI)
  fix c c' res
  assume c: "ok c \<and> committed c = k" "\<forall>a. staged c = Some a \<longrightarrow> sets_queued k a"
    and call: "createNFTRule F L inbound reply state addr cfg queueNum chain cid c = (c', res)"
  have "fresh_exprs k (if addr \<noteq> [] then matchAddrExprs addr off else [])" for off
    by (simp add: matchAddrExprs_def getAddrExpr_def compareAddrExpr_def fresh_exprs_single)
  note ips = optional_ips_quiet [OF assms this] and ports = optional_ports_quiet [OF assms]
  show "(ok c' \<and> committed c' = k) \<and> (\<forall>r. res = Inr r \<longrightarrow> (\<forall>a. staged c' = Some a \<longrightarrow> sets_queued k a) \<and>
      ru_Table r = Some filterTable \<and> (live (staged c') \<longrightarrow> live (staged c) \<and> fresh_exprs k (ru_Exprs r)))"
  proof (cases rule: createNFTRule_stages [OF call, case_names ip src dst rule])
    case (ip e)
    with quietlyD(1) [OF ips c ip(1)] show ?thesis by simp
  next
    case (src c1 es1 e)
    note g1 = quietlyD [OF ips c src(1)]
    from quietlyD(1) [OF ports g1(1) g1(2) [OF refl] src(2)] src(3) show ?thesis by simp
  next
    case (dst c1 es1 c2 es2 e)
    note g1 = quietlyD [OF ips c dst(1)]
    note g2 = quietlyD [OF ports g1(1) g1(2) [OF refl] dst(2)]
    from quietlyD(1) [OF ports g2(1) g2(2) [OF refl] dst(3)] dst(4) show ?thesis by simp
  next
    case (rule c1 es1 c2 es2 es3)
    note g1 = quietlyD [OF ips c rule(1)]
    note g2 = quietlyD [OF ports g1(1) g1(2) [OF refl] rule(2)]
    note g3 = quietlyD [OF ports g2(1) g2(2) [OF refl] rule(3)]
    have "fresh_exprs k (matchConnStateExprs state)" "fresh_exprs k [cfg_verdict queueNum cfg]"
      "fresh_exprs k (matchProtoExprs proto)" for proto
      by (simp_all add: matchConnStateExprs_def matchProtoExprs_def cfg_verdict_def fresh_exprs_single dropVerdict_def
          allowReturnVerdict_def)
    then have "fresh_exprs k (ru_Exprs r)" if "res = Inr r" "live (staged c')" for r
      using g1(4) g2(4) g3(4) that rule(4) by (auto simp: fresh_exprs_single logExpr_def)
    with g1(4) g2(4) g3 rule(4) assms show ?thesis by auto
  qed
qed

text \<open>The chains a description names are chains of the filter table.\<close>

definition detail_chains :: "ruleDetails \<Rightarrow> bool" where
  "detail_chains rd \<longleftrightarrow> ch_Table (rd_chain rd) = Some filterTable \<and> ch_Table (est_chain rd) = Some filterTable"

lemma firewall_rules_quiet:
  assumes "detail_chains rd"
  shows "quiet k filter_rules (fresh_rules k) (firewall_rules F L rd)"
proof -
  have t: "ch_Table (rd_chain rd) = Some filterTable"
    "ch_Table (case rd_estChain rd of None \<Rightarrow> rd_chain rd | Some ch \<Rightarrow> ch) = Some filterTable"
    using assms by (simp_all add: detail_chains_def est_chain_def)
  have "quiet k filter_rules (fresh_rules k) (createNFTRules F L rd)"
    unfolding createNFTRules_def [abs_def] Let_def
    by (intro quietly_if quietly_in_order; (elim set_ConsD [elim_format] disjE)?;
        auto intro!: createNFTRule_quiet simp: t)
  then show ?thesis unfolding firewall_rules_def by (rule quietly_gen_wrap)
qed

section \<open>The generators of a policy\<close>

lemma createPortMappingRules_quiet:
  assumes "ch_Table chain = Some filterTable"
  shows "quiet k filter_rules (fresh_rules k) (createPortMappingRules F L container contName cfg managed addrs chain explicitScope)"
proof -
  have rd: "detail_chains (gateway_rule cfg gateway addr proto num chain cid)"
    "detail_chains (localhost_drop_rule proto hp cid)" "detail_chains (external_rule cfg addr proto num chain cid)"
    for cfg gateway addr proto num hp cid
    using assms by (simp_all add: detail_chains_def est_chain_def gateway_rule_def localhost_drop_rule_def
        external_rule_def whalewallChain_def regular_chain_def)
  have host: "quiet k filter_rules (fresh_rules k) (host_port_rules F L cfg gateway addr published proto num chain cid hostPort)"
    for cfg gateway addr published proto num cid hostPort
    unfolding host_port_rules_def [abs_def] Let_def
    by (intro quietly_if quietly_each) (auto intro!: quietly_if quietly_sum quietly_error quietly_return firewall_rules_quiet rd
      simp del: gen_each.simps)
  have port: "quiet k filter_rules (fresh_rules k) (port_rules F L cfg gateway addr published chain cid ports port)"
    for cfg gateway addr published cid ports port
    unfolding port_rules_def [abs_def] Let_def
    by (cases "protocol_UnmarshalText (po_Proto port)")
      (auto intro!: quietly_sum quietly_each quietly_if quietly_error quietly_return firewall_rules_quiet rd host
        simp del: gen_each.simps)
  have network: "quiet k filter_rules (fresh_rules k) (network_port_rules F L cfg managed addrs published chain cid ports n)"
    for cfg published cid ports n
    unfolding network_port_rules_def [abs_def]
    by (cases "map_of managed n") (auto intro!: quietly_option quietly_each quietly_error port)
  show ?thesis
    unfolding createPortMappingRules_def [abs_def]
    by (auto intro!: quietly_if quietly_option quietly_sum quietly_each quietly_error quietly_return network)
qed

text \<open>On the client and the transaction together.\<close>

abbreviation "quiet2 k \<equiv> quietly (\<lambda>w. ok (fst w) \<and> committed (fst w) = k)
  (\<lambda>w. \<forall>a. staged (fst w) = Some a \<longrightarrow> sets_queued k a) (\<lambda>w. live (staged (fst w)))"

lemma on_client_quiet: "quiet k U V f \<Longrightarrow> quiet2 k U V (on_client f)"
proof -
  assume q: "quiet k U V f"
  show ?thesis
    unfolding quietly_def
  proof (intro allI impI)
    fix w w' res
    assume w: "ok (fst w) \<and> committed (fst w) = k" "\<forall>a. staged (fst w) = Some a \<longrightarrow> sets_queued k a" "on_client f w = (w', res)"
    then have "f (fst w) = (fst w', res)" by (auto simp: on_client_def split: prod.splits)
    from quietlyD [OF q w(1,2) this]
    show "(ok (fst w') \<and> committed (fst w') = k) \<and> (\<forall>x. res = Inr x \<longrightarrow>
        (\<forall>a. staged (fst w') = Some a \<longrightarrow> sets_queued k a) \<and> U x \<and>
        (live (staged (fst w')) \<longrightarrow> live (staged (fst w)) \<and> V x))" by blast
  qed
qed

lemma on_tx_quiet: "quiet2 k (\<lambda>x. True) (\<lambda>x. True) (on_tx f)"
proof -
  have fst: "fst w' = fst w" if "on_tx f w = (w', r)" for w w' r using that by (auto simp: on_tx_def split: prod.splits)
  show ?thesis
    unfolding quietly_def
  proof (intro allI impI)
    fix w w' res
    assume w: "ok (fst w) \<and> committed (fst w) = k" "\<forall>a. staged (fst w) = Some a \<longrightarrow> sets_queued k a" "on_tx f w = (w', res)"
    show "(ok (fst w') \<and> committed (fst w') = k) \<and> (\<forall>x. res = Inr x \<longrightarrow>
        (\<forall>a. staged (fst w') = Some a \<longrightarrow> sets_queued k a) \<and> True \<and>
        (live (staged (fst w')) \<longrightarrow> live (staged (fst w)) \<and> True))" unfolding fst [OF w(3)] using w(1,2) by blast
  qed
qed

lemma output_rule_quiet:
  assumes "ch_Table chain = Some filterTable"
  shows "quiet2 k filter_rules (fresh_rules k) (output_rule F L project addrs chain name cid cfg)"
proof -
  have rd: "detail_chains (outbound_rule cfg addr chain cid)"
    "detail_chains ((outbound_rule cfg addr chain cid)\<lparr>rd_estChain := Some (peer_chain n i), rd_contID := i, rd_estContID := cid\<rparr>)"
    for cfg addr n i
    using assms by (simp_all add: detail_chains_def est_chain_def outbound_rule_def peer_chain_def regular_chain_def)
  show ?thesis
    unfolding output_rule_def [abs_def] Let_def
    by (auto intro!: quietly_if quietly_option quietly_prod quietly_each quietly_error quietly_return on_client_quiet firewall_rules_quiet rd
        quietly_bind [OF on_tx_quiet, where w = "\<lambda>e. e"])
qed

lemma createOutputRules_quiet:
  "ch_Table chain = Some filterTable \<Longrightarrow> quiet2 k filter_rules (fresh_rules k) (createOutputRules F L cfgs project addrs chain name cid)"
  unfolding createOutputRules_def [abs_def] by (rule quietly_each) (rule output_rule_quiet)

lemma waiting_rule_chains:
  "waiting_rule D G cid project networks chain row = Inr (Some rd) \<Longrightarrow> ch_Table chain = Some filterTable \<Longrightarrow> detail_chains rd"
  unfolding waiting_rule_def Let_def
  by (auto simp: detail_chains_def est_chain_def peer_chain_def regular_chain_def split: sum.splits option.splits if_splits prod.splits)

lemma waiting_rules_quiet:
  assumes "ch_Table chain = Some filterTable"
  shows "quiet k (\<lambda>x. filter_rules (fst x)) (\<lambda>x. fresh_rules k (fst x)) (waiting_rules F L D G cid project networks chain rows)"
proof (induction rows)
  case Nil
  show ?case by (simp add: quietly_def)
next
  case (Cons row rows)
  show ?case
  proof (cases "waiting_rule D G cid project networks chain row")
    case (Inl e)
    then show ?thesis by (intro quietly_eq [OF quietly_error]) simp
  next
    case row: (Inr r)
    show ?thesis
    proof (cases r)
      case None
      with row show ?thesis by (intro quietly_eq [OF Cons.IH]) simp
    next
      case (Some rd)
      have "quiet k (\<lambda>x. filter_rules (fst x)) (\<lambda>x. fresh_rules k (fst x)) (\<lambda>c. case firewall_rules F L rd c of (c, Inl e) \<Rightarrow> (c, Inl e)
        | (c, Inr rules) \<Rightarrow> (case waiting_rules F L D G cid project networks chain rows c of
             (c, Inl e) \<Rightarrow> (c, Inl e)
           | (c, Inr (rest, est)) \<Rightarrow> (c, Inr (rules @ rest, wr_SrcContainerID row # est))))"
        by (rule quietly_bind [OF firewall_rules_quiet [OF waiting_rule_chains [OF row [unfolded Some] assms]], where w = "\<lambda>e. e"],
            rule quietly_bind [OF Cons.IH, where w = "\<lambda>e. e"]) (auto intro!: quietly_return)
      with row Some show ?thesis by (elim quietly_eq) simp
    qed
  qed
qed

lemma createWaitingContainerRules_quiet:
  assumes "ch_Table chain = Some filterTable"
  shows "quiet2 k (\<lambda>x. filter_rules (fst x)) (\<lambda>x. fresh_rules k (fst x)) (createWaitingContainerRules F L D G cid name service project networks chain)"
  unfolding createWaitingContainerRules_def [abs_def]
  by (rule quietly_bind [OF on_tx_quiet, where w = "\<lambda>e. e"])
    (auto intro!: quietly_if quietly_return on_client_quiet waiting_rules_quiet assms)

lemma policy_rules_quiet:
  assumes "ch_Table chain = Some filterTable" "en_firewall En = F"
  shows "quiet2 k (\<lambda>x. filter_rules (fst x)) (\<lambda>x. fresh_rules k (fst x)) (policy_rules En container contName labels sc chain rulesCfg)"
proof -
  have outs: "quiet2 k filter_rules (fresh_rules k) (createOutputRules F L cfgs project addrs chain name cid)" for L cfgs project addrs name cid
    by (rule createOutputRules_quiet [OF assms(1)])
  have ports: "quiet2 k filter_rules (fresh_rules k) (on_client (createPortMappingRules F L container name cfg managed addrs chain ex))"
    for L name cfg managed addrs ex by (rule on_client_quiet [OF createPortMappingRules_quiet [OF assms(1)]])
  have waiting: "quiet2 k (\<lambda>x. filter_rules (fst x)) (\<lambda>x. fresh_rules k (fst x)) (createWaitingContainerRules F L D G cid name service project networks chain)"
    for L D G cid name service project networks by (rule createWaitingContainerRules_quiet [OF assms(1)])
  show ?thesis
    unfolding policy_rules_def Let_def assms(2)
    by (cases rulesCfg)
      (auto intro!: quietly_bind_step [OF quietly_return [of "\<lambda>x. True" _ "\<lambda>x. True"]]
        quietly_bind_step [OF quietly_gen_wrap [OF on_tx_quiet]]
        quietly_bind_step [OF quietly_gen_wrap [OF waiting]] quietly_bind_step [OF quietly_gen_wrap [OF outs]]
        quietly_bind_step [OF quietly_gen_wrap [OF ports]] quietly_return)
qed

end

end
