(* ===== verification/Installed.thy ===== *)
theory Installed
  imports Quiet
begin

text \<open>
  What the kernel's rules decide once a policy is replaced. The rules of a policy refer to the anonymous
  sets made along with them by their ids; at the commit the sets get their names, while the sets of the
  rules that go are released. \<open>kept\<close> says that no set made for the policy is among those, so the installed
  rules decide what the generated ones were shown to decide. Nothing here models code of the program.
\<close>

section \<open>Sets that stay\<close>

text \<open>Deleting rules releases the sets they refer to, and no other.\<close>

definition kept :: "ruleset \<Rightarrow> ruleset \<Rightarrow> ruleset \<Rightarrow> bool" where
  "kept k a b \<longleftrightarrow> (\<forall>n. unreferenced k n \<longrightarrow> rs_sets b n = rs_sets a n)"

lemma kept_refl: "kept k a a"
  by (simp add: kept_def)

lemma kept_trans: "kept k a b \<Longrightarrow> kept k b c \<Longrightarrow> kept k a c"
  by (simp add: kept_def)

lemma kept_eq: "rs_sets b = rs_sets a \<Longrightarrow> kept k a b"
  by (simp add: kept_def)

lemma rel_seq_delete_sets:
  assumes "rel_seq (\<lambda>r rs rs'. rs_DelRule r rs = Some rs') ds rs rs'" "\<forall>d \<in> set ds. ch_Name (ru_Chain d) = n"
    "rs_chains rs n = Some (ch, rules)" "\<forall>r \<in> set rules. m \<notin> rule_sets r"
  shows "rs_sets rs' m = rs_sets rs m"
  using assms
proof (induction ds arbitrary: rs rules)
  case (Cons d ds)
  then obtain rs1 where del: "rs_DelRule d rs = Some rs1" and rest: "rel_seq (\<lambda>r rs rs'. rs_DelRule r rs = Some rs') ds rs1 rs'"
    by auto
  have n: "ch_Name (ru_Chain d) = n" using Cons.prems(2) by simp
  obtain r2 where r2: "find (same_handle d) rules = Some r2"
    "rs1 = \<lparr>rs_chains = (rs_chains rs)(n \<mapsto> (ch, remove_first (same_handle d) rules)),
       rs_sets = (\<lambda>n. if n \<in> rule_sets r2 then None else rs_sets rs n)\<rparr>"
    using del n Cons.prems(3) by (auto simp: rs_DelRule_def split: option.splits)
  have "r2 \<in> set rules" using r2(1) by (auto simp: find_Some_iff)
  then have "rs_sets rs1 m = rs_sets rs m" using r2(2) Cons.prems(4) by simp
  moreover have "rs_sets rs' m = rs_sets rs1 m"
    using Cons.prems(2,4) r2(2) remove_first_subset [of "same_handle d" rules]
    by (intro Cons.IH [OF rest, of "remove_first (same_handle d) rules"]) auto
  ultimately show ?case by simp
qed simp

lemma rel_seq_trans:
  assumes "rel_seq R ns a b" "distinct ns" "\<forall>n \<in> set ns. rs_chains a n = rs_chains a0 n"
    and "\<And>n a b. n \<in> set ns \<Longrightarrow> R n a b \<Longrightarrow> rs_chains a n = rs_chains a0 n \<Longrightarrow> frame {n} a b \<and> T a b"
    and "\<And>a. T a a" "\<And>a b c. T a b \<Longrightarrow> T b c \<Longrightarrow> T a c"
  shows "T a b"
  using assms(1-4)
proof (induction ns arbitrary: a)
  case Nil
  with assms(5) show ?case by simp
next
  case (Cons n ns)
  then obtain m where m: "R n a m" "rel_seq R ns m b" by auto
  with Cons.prems(3,4) have n: "frame {n} a m" "T a m" by auto
  have "\<forall>x \<in> set ns. rs_chains m x = rs_chains a0 x"
    using n(1) Cons.prems(2,3) by (auto simp: frame_def)
  then have "T m b" using Cons.prems(2,4) by (intro Cons.IH [OF m(2)]) auto
  with n(2) show ?case by (rule assms(6))
qed

context firewall_client
begin

lemma delete_rules_sets:
  assumes "\<forall>d \<in> set ds. ru_Table d = Some filterTable \<and> ch_Name (ru_Chain d) = n"
  shows "spec (delete_rules F ds) (\<lambda>k a b. \<forall>ch rules m. rs_chains a n = Some (ch, rules) \<longrightarrow>
    (\<forall>r \<in> set rules. m \<notin> rule_sets r) \<longrightarrow> rs_sets b m = rs_sets a m)"
proof -
  have "spec (st_each (fc_DelRule F) ds) (\<lambda>k. rel_seq (\<lambda>r rs rs'. rs_DelRule r rs = Some rs') ds)"
    using assms DelRule_spec by (intro edit_spec_each) blast
  then show ?thesis
    unfolding delete_rules_def using assms rel_seq_delete_sets by (elim edit_spec_mono) blast
qed

lemma delete_stale_kept:
  assumes "\<And>ch. map_of owned n = Some ch \<Longrightarrow> ch_Name ch = n"
  shows "spec (delete_stale F owned own cid n) (\<lambda>k a b. rs_chains a n = rs_chains k n \<longrightarrow> kept k a b)"
proof (cases "map_of owned n")
  case None
  then show ?thesis unfolding delete_stale_def by (simp add: edit_spec_skip kept_refl)
next
  case (Some ch)
  note n = assms [OF Some]
  let ?g = "\<lambda>current. wrap_step ''error deleting stale rule'' (delete_rules F (filter (\<lambda>r. \<not> (n \<noteq> own \<and> ru_UserData r \<noteq> cid)) current))"
  have eq: "delete_stale F owned own cid n = with_rules F ''error getting rules of chain'' ch ?g"
    using Some by (intro ext) (simp only: delete_stale_def option.case)
  have "spec (with_rules F ''error getting rules of chain'' ch ?g) (\<lambda>k a b. \<exists>ch' rules. rs_chains k (ch_Name ch) = Some (ch', rules) \<and>
      (\<forall>ch rules' m. rs_chains a n = Some (ch, rules') \<longrightarrow> (\<forall>r \<in> set rules'. m \<notin> rule_sets r) \<longrightarrow> rs_sets b m = rs_sets a m))"
    unfolding with_rules_def
    by (rule GetRules_spec) (intro wrap_step_spec delete_rules_sets, use n in auto)
  then show ?thesis unfolding eq
  proof (rule edit_spec_mono, intro impI)
    fix k a b :: ruleset
    assume del: "\<exists>ch' rules. rs_chains k (ch_Name ch) = Some (ch', rules) \<and>
        (\<forall>ch rules' m. rs_chains a n = Some (ch, rules') \<longrightarrow> (\<forall>r \<in> set rules'. m \<notin> rule_sets r) \<longrightarrow> rs_sets b m = rs_sets a m)"
      and a: "rs_chains a n = rs_chains k n"
    then obtain ch' rules where k: "rs_chains k n = Some (ch', rules)" using n by auto
    show "kept k a b" unfolding kept_def
    proof (intro allI impI)
      fix m assume "unreferenced k m"
      then have "\<forall>r \<in> set rules. m \<notin> rule_sets r" using k unfolding unreferenced_def by blast
      with del a k show "rs_sets b m = rs_sets a m" by auto
    qed
  qed
qed

lemma add_rules_sets:
  assumes "\<forall>r \<in> set rules. ru_Table r = Some filterTable"
  shows "spec (\<lambda>c. (add_rules F rules c, None)) (\<lambda>k a b. rs_sets b = rs_sets a)"
    and "spec (\<lambda>c. (insert_rules F rules c, None)) (\<lambda>k a b. rs_sets b = rs_sets a)"
proof -
  have seq: "rs_sets b = rs_sets a" if "rel_seq (\<lambda>r a b. rs_sets b = rs_sets a) rules a b" for a b :: ruleset
    using that by (induction rules arbitrary: a) auto
  have "spec (\<lambda>c. (fc_AddRule F r c, None)) (\<lambda>k a b. rs_sets b = rs_sets a)"
    "spec (\<lambda>c. (fc_InsertRule F r c, None)) (\<lambda>k a b. rs_sets b = rs_sets a)" if "r \<in> set rules" for r
    using assms that
    by (auto intro!: edit_spec_mono [OF AddRule_spec] edit_spec_mono [OF InsertRule_spec]
        simp: rs_AddRule_def rs_InsertRule_def split: option.splits)
  then have "spec (\<lambda>c. (fold (fc_AddRule F) rules c, None)) (\<lambda>k. rel_seq (\<lambda>r a b. rs_sets b = rs_sets a) rules)"
    "spec (\<lambda>c. (fold (fc_InsertRule F) rules c, None)) (\<lambda>k. rel_seq (\<lambda>r a b. rs_sets b = rs_sets a) rules)"
    by (auto intro!: edit_spec_fold)
  then show "spec (\<lambda>c. (add_rules F rules c, None)) (\<lambda>k a b. rs_sets b = rs_sets a)"
    "spec (\<lambda>c. (insert_rules F rules c, None)) (\<lambda>k a b. rs_sets b = rs_sets a)"
    unfolding add_rules_def insert_rules_def by - (erule edit_spec_mono, erule seq)+
qed

lemma place_rules_sets:
  assumes "\<forall>r \<in> set desired. ru_Table r = Some filterTable"
  shows "spec (\<lambda>c. (place_rules F own desired n c, None)) (\<lambda>k a b. rs_sets b = rs_sets a)"
proof -
  have r: "\<forall>r \<in> set (rules_for desired n). ru_Table r = Some filterTable"
    "\<forall>r \<in> set (rev (rules_for desired n)). ru_Table r = Some filterTable"
    using assms by (simp_all add: rules_for_def)
  show ?thesis
  proof (cases "n = own \<or> n = whalewallChainName")
    case True
    then have eq: "(\<lambda>c. (place_rules F own desired n c, None)) = (\<lambda>c. (add_rules F (rules_for desired n) c, None))"
      by (auto simp: place_rules_def)
    show ?thesis unfolding eq by (rule add_rules_sets(1) [OF r(1)])
  next
    case False
    then have eq: "(\<lambda>c. (place_rules F own desired n c, None)) = (\<lambda>c. (insert_rules F (rev (rules_for desired n)) c, None))"
      by (simp add: place_rules_def)
    show ?thesis unfolding eq by (rule add_rules_sets(2) [OF r(2)])
  qed
qed

lemma replace_body_kept:
  assumes ord: "reorders ord" and own: "ch_Table own = Some filterTable"
    and desired: "\<forall>r \<in> set desired. ru_Table r = Some filterTable"
    and names: "\<And>n ch. map_of owned n = Some ch \<Longrightarrow> ch_Name ch = n"
  shows "spec (replace_body ord owned own cid desired) (\<lambda>k a b. sets_queued k a \<longrightarrow> owned_map k owned \<longrightarrow> kept k a b)"
proof -
  let ?del = "st_each (delete_stale F owned (ch_Name own) cid) (ord (map fst owned))"
  let ?place = "\<lambda>c. (fold (place_rules F (ch_Name own) desired) (ord (desired_chains desired)) c, None :: error option)"
  let ?drop = "\<lambda>c. (fc_AddRule F (createDropRule own cid) c, None :: error option)"
  let ?R = "\<lambda>k n a b. stale_deleted owned (ch_Name own) cid k n a b \<and> (rs_chains a n = rs_chains k n \<longrightarrow> kept k a b)"
  have del: "spec ?del (\<lambda>k. rel_seq (?R k) (ord (map fst owned)))"
    unfolding stale_deleted_def by (intro edit_spec_each edit_spec_conj delete_stale_spec delete_stale_kept names)
  have deleted: "kept k a b" if "rel_seq (?R k) (ord (map fst owned)) a b" "sets_queued k a" "owned_map k owned" for k a b
  proof (rule rel_seq_trans [OF that(1), of k])
    show "distinct (ord (map fst owned))" using that(3) reorders_distinct [OF ord] by (simp add: owned_map_def)
    show "\<forall>n \<in> set (ord (map fst owned)). rs_chains a n = rs_chains k n" using that(2) by (simp add: sets_queued_def)
    show "frame {n} x y \<and> kept k x y"
      if "n \<in> set (ord (map fst owned))" "?R k n x y" "rs_chains x n = rs_chains k n" for n x y
      using that reorders_set [OF ord] by (auto simp: stale_deleted_def map_of_eq_None_iff)
  qed (auto intro: kept_refl kept_trans)
  have placed: "rs_sets b = rs_sets a" if "rel_seq (\<lambda>n a b. rs_sets b = rs_sets a) ns a b" for ns and a b :: ruleset
    using that by (induction ns arbitrary: a) auto
  have place: "spec ?place (\<lambda>k. rel_seq (\<lambda>n a b. rs_sets b = rs_sets a) (ord (desired_chains desired)))"
    by (intro edit_spec_fold place_rules_sets desired)
  have "ru_Table (createDropRule own cid) = Some filterTable" using own by (simp add: createDropRule_def)
  then have drop: "spec ?drop (\<lambda>k a b. rs_sets b = rs_sets a)"
    by (rule edit_spec_mono [OF AddRule_spec]) (auto simp: rs_AddRule_def split: option.splits)
  show ?thesis
  proof (rule edit_spec_mono [OF edit_spec_Cons [OF del edit_spec_Cons [OF place edit_spec_Cons [OF drop edit_spec_Nil]]]],
      elim exE conjE, intro impI)
    fix k a b m1 m2 m3 :: ruleset
    assume m: "rel_seq (?R k) (ord (map fst owned)) a m1" "rel_seq (\<lambda>n a b. rs_sets b = rs_sets a) (ord (desired_chains desired)) m1 m2"
      "rs_sets m3 = rs_sets m2" "m3 = b" and start: "sets_queued k a" "owned_map k owned"
    have "kept k a m1" by (rule deleted [OF m(1) start])
    moreover have "kept k m1 b" using placed [OF m(2)] m(3,4) by (intro kept_eq) simp
    ultimately show "kept k a b" by (rule kept_trans)
  qed
qed

lemma replaceContainerPolicy_staged:
  assumes c: "ok c" "\<And>a. staged c = Some a \<Longrightarrow> sets_queued (committed c) a" and ord: "reorders ord"
    and own: "ch_Table own = Some filterTable" and desired: "\<forall>r \<in> set desired. ru_Table r = Some filterTable"
    and run: "replaceContainerPolicy F ord own cid desired c = (c', None)"
  obtains a b where "staged c = Some a" "rs_commits (committed c) b (committed c')" "kept (committed c) a b"
    "chain_replaced handled own cid desired (committed c) b"
proof (cases rule: replaceContainerPolicy_cases [OF c(1) run, case_names stops runs])
  case stops
  then show ?thesis by simp
next
  case (runs owned och)
  then have own_owned: "owned_name (ch_Name own)"
    and names: "\<And>n ch. map_of owned n = Some ch \<Longrightarrow> ch_Name ch = n"
    unfolding owned_map_def by auto
  from flush_spec [OF edit_spec_conj [OF replace_body_spec [OF ord own desired names own_owned]
        replace_body_kept [OF ord own desired names]] c(1) runs(3)] runs(1) c(2) that
  show ?thesis by blast
qed

end

section \<open>What the installed rules decide\<close>

text \<open>A rule whose sets are those of \<open>a\<close> under their final names decides in the kernel what it decided in \<open>a\<close>.\<close>

definition agree_on :: "ruleset \<Rightarrow> ruleset \<Rightarrow> nexpr list \<Rightarrow> bool" where
  "agree_on new a es \<longleftrightarrow> (\<forall>l. ELookup l \<in> set es \<longrightarrow> lk_SetName l = anonSetName \<and>
     rs_sets new (anon_name (lk_SetID l)) = rs_sets a (anon_name (lk_SetID l)))"

lemma commit_expr_other: "(\<And>l. e \<noteq> ELookup l) \<Longrightarrow> commit_expr e = e"
  by (cases e) (auto simp: commit_expr_def)

lemma run_commit_exprs: "agree_on new a es \<Longrightarrow> run_exprs new p regs (map commit_expr es) = run_exprs a p regs es"
proof (induction es arbitrary: regs)
  case (Cons e es)
  then have IH: "run_exprs new p regs (map commit_expr es) = run_exprs a p regs es" for regs by (simp add: agree_on_def)
  show ?case
  proof (cases e)
    case (ELookup l)
    then have "ELookup l \<in> set (e # es)" by simp
    with Cons.prems have l: "lk_SetName l = anonSetName"
      "rs_sets new (anon_name (lk_SetID l)) = rs_sets a (anon_name (lk_SetID l))" unfolding agree_on_def by blast+
    then have "resolve_set new (l\<lparr>lk_SetName := anon_name (lk_SetID l), lk_SetID := 0\<rparr>) = resolve_set a l"
      by (simp add: resolve_set_def anon_name_not_placeholder)
    moreover have "commit_expr e = ELookup (l\<lparr>lk_SetName := anon_name (lk_SetID l), lk_SetID := 0\<rparr>)"
      using l(1) ELookup by (simp add: commit_expr_def)
    ultimately show ?thesis using IH ELookup by (simp split: option.split)
  qed (simp_all add: commit_expr_other IH)
qed simp

lemma run_installed_chain:
  assumes "list_all2 installed rules rules'" "\<forall>r \<in> set rules. agree_on new a (ru_Exprs r)"
  shows "run_chain new p rules' = run_chain a p rules"
  using assms
proof (induction rules rules' rule: list_all2_induct)
  case (Cons r rules r' rules')
  then obtain h where "r' = commit_rule (r\<lparr>ru_Handle := h\<rparr>)" by (auto simp: installed_def)
  then have "run_rule new p r' = run_rule a p r"
    using Cons.prems run_commit_exprs by (simp add: run_rule_def commit_rule_def)
  with Cons show ?case by (simp split: outcome.splits)
qed simp

lemma replaced_rules_in:
  assumes "chain_replaced handled own cid desired k b" "rs_chains k n \<noteq> None" "r \<in> set (rules_for desired n)"
  shows "\<exists>ch rules r'. rs_chains b n = Some (ch, rules) \<and> r' \<in> set rules \<and> pending_sets r' = pending_sets r"
proof -
  obtain ch old rules where b: "rs_chains b n = Some (ch, rules)" "replaced handled own cid desired n old rules"
    using assms(1,2) spec [OF assms(1) [unfolded chain_replaced_def], of n] by auto
  then obtain new where new: "list_all2 handled (rules_for desired n) new" "set new \<subseteq> set rules"
    unfolding replaced_def Let_def by (cases "n = ch_Name own") (fastforce split: if_splits)+
  from new(1) assms(3) obtain r' where "r' \<in> set new" "handled r r'"
    by (metis in_set_conv_nth list_all2_conv_all_nth)
  moreover from this(2) have "pending_sets r' = pending_sets r" by (auto simp: handled_def pending_sets_def)
  ultimately show ?thesis using b(1) new(2) by blast
qed

definition drop_verdict :: verdict_expr where "drop_verdict = \<lparr>vd_Kind = VerdictDrop, vd_Chain = []\<rparr>"

text \<open>The decisions of a policy in place: in the container's own chain what the desired rules do not decide is
  dropped; in the chain of another container the desired rules come before the rules that stay there.\<close>

definition policy_decides :: "nft_chain \<Rightarrow> string \<Rightarrow> decision \<Rightarrow> ruleset \<Rightarrow> ruleset \<Rightarrow> bool" where
  "policy_decides own cid V old new \<longleftrightarrow>
     (\<forall>p. p_ctstate p = stateNew \<longrightarrow>
        run_chain new p (rs_rules new (ch_Name own)) =
          Decided (case V (ch_Name own) p of Some v \<Rightarrow> v | None \<Rightarrow> drop_verdict) \<and>
        (\<forall>n. owned_name n \<longrightarrow> n \<noteq> ch_Name own \<longrightarrow> n \<noteq> whalewallChainName \<longrightarrow> rs_chains old n \<noteq> None \<longrightarrow>
           run_chain new p (rs_rules new n) = (case V n p of Some v \<Rightarrow> Decided v
             | None \<Rightarrow> run_chain new p (filter (\<lambda>r. ru_UserData r \<noteq> cid) (rs_rules old n)))))"

context firewall_client
begin

lemma replaced_policy_decides:
  assumes c: "ok c" "\<And>a. staged c = Some a \<Longrightarrow> sets_queued (committed c) a" and ord: "reorders ord"
    and own: "ch_Table own = Some filterTable" and desired: "\<forall>r \<in> set desired. ru_Table r = Some filterTable"
    and fresh: "live (staged c) \<Longrightarrow> fresh_rules (committed c) desired"
    and V: "\<And>a. staged c = Some a \<Longrightarrow> decides A V a desired"
    and run: "replaceContainerPolicy F ord own cid desired c = (c', None)"
  shows "policy_decides own cid V (committed c) (committed c')"
proof -
  let ?k = "committed c" and ?new = "committed c'"
  from replaceContainerPolicy_staged [OF c(1) c(2) ord own desired run] obtain a b where
    ab: "staged c = Some a" "rs_commits ?k b ?new" "kept ?k a b" "chain_replaced handled own cid desired ?k b" by blast
  have rep: "policy_replaced own cid desired ?k ?new"
    using replaceContainerPolicy_ok [OF c(1) c(2) ord own desired run] by blast
  have fr: "fresh_rules ?k desired" using fresh ab(1) by (simp add: live_def)
  have agree: "agree_on ?new a (ru_Exprs r)" if "r \<in> set (rules_for desired n)" "rs_chains ?k n \<noteq> None" for r n
    unfolding agree_on_def
  proof (intro allI impI)
    fix l assume l: "ELookup l \<in> set (ru_Exprs r)"
    have "r \<in> set desired" using that(1) by (simp add: rules_for_def)
    with fr l have f: "lk_SetName l = anonSetName" "unreferenced ?k (anon_name (lk_SetID l))"
      by (auto simp: fresh_rules_def fresh_exprs_def)
    have "lk_SetID l \<in> pending_sets r" using l f(1) by (auto simp: pending_sets_def)
    with replaced_rules_in [OF ab(4) that(2,1)] ab(2) have "rs_sets ?new (anon_name (lk_SetID l)) = rs_sets b (anon_name (lk_SetID l))"
      unfolding rs_commits_def by metis
    with f ab(3) show "lk_SetName l = anonSetName \<and>
        rs_sets ?new (anon_name (lk_SetID l)) = rs_sets a (anon_name (lk_SetID l))" by (simp add: kept_def)
  qed
  have runs: "run_chain ?new p rules = outcome_of (V n p)"
    if "list_all2 installed (rules_for desired n) rules" "rs_chains ?k n \<noteq> None" "p_ctstate p = stateNew" for rules n p
    using run_installed_chain [OF that(1), of ?new a p] agree that V [OF ab(1)] by (auto simp: decides_def)
  have chains: "chain_replaced installed own cid desired ?k ?new" and own_chain: "rs_chains ?k (ch_Name own) \<noteq> None"
    using rep by (simp_all add: policy_replaced_def)
  show ?thesis
    unfolding policy_decides_def
  proof (intro allI impI conjI)
    fix p :: packet
    assume p: "p_ctstate p = stateNew"
    obtain rules d where r: "rs_rules ?new (ch_Name own) = rules @ [d]" "is_drop_for own cid d"
      "list_all2 installed (rules_for desired (ch_Name own)) rules" using policy_replaced_own [OF rep] by blast
    from runs [OF r(3) own_chain p] drop_outcome [OF r(2)]
    show "run_chain ?new p (rs_rules ?new (ch_Name own)) =
        Decided (case V (ch_Name own) p of Some v \<Rightarrow> v | None \<Rightarrow> drop_verdict)"
      by (simp add: r(1) run_chain_append outcome_of_def drop_verdict_def split: option.splits)
    fix n assume n: "owned_name n" "n \<noteq> ch_Name own" "n \<noteq> whalewallChainName" "rs_chains ?k n \<noteq> None"
    then obtain ch old rules where k: "rs_chains ?k n = Some (ch, old)" "rs_chains ?new n = Some (ch, rules)"
      "replaced installed own cid desired n old rules"
      using spec [OF chains [unfolded chain_replaced_def], of n] by auto
    then obtain new where new: "list_all2 installed (rules_for desired n) new"
      "rules = new @ filter (\<lambda>r. ru_UserData r \<noteq> cid) old"
      using n unfolding replaced_def Let_def by auto
    from runs [OF new(1) n(4) p] k new(2)
    show "run_chain ?new p (rs_rules ?new n) = (case V n p of Some v \<Rightarrow> Decided v
        | None \<Rightarrow> run_chain ?new p (filter (\<lambda>r. ru_UserData r \<noteq> cid) (rs_rules ?k n)))"
      by (simp add: rs_rules_def run_chain_append outcome_of_def split: option.splits)
  qed
qed

end

end
