(* ===== verification/Create_Correct.thy ===== *)
theory Create_Correct
  imports Installed Sample_Deletion
begin

text \<open>
  What creating a container's policy guarantees. \<open>guarded\<close> is the invariant of the whole procedure: the
  container's chain has its drop rule, so no packet falls off its end. The floor establishes it, taking over
  addresses keeps it, generating rules commits nothing, and every replacement re-establishes it; so whatever
  fails, and in whatever order Go runs over its maps, the container is never left open.
\<close>

section \<open>The guard\<close>

definition guarded :: "nft_chain \<Rightarrow> string \<Rightarrow> ruleset \<Rightarrow> bool" where
  "guarded chain cid rs \<longleftrightarrow> (\<exists>d \<in> set (rs_rules rs (ch_Name chain)). is_drop_for chain cid d)"

lemma drop_in_chain: "d \<in> set rules \<Longrightarrow> is_drop_for chain cid d \<Longrightarrow> run_chain rs p rules \<noteq> Fallthrough"
  by (induction rules) (auto simp: drop_outcome split: outcome.splits)

lemma guarded_closed: "guarded chain cid rs \<Longrightarrow> run_chain rs2 p (rs_rules rs (ch_Name chain)) \<noteq> Fallthrough"
  unfolding guarded_def using drop_in_chain by blast

lemma floor_guarded: "floor_installed chain cid q old new \<Longrightarrow> guarded chain cid new"
  unfolding floor_installed_def Let_def guarded_def rs_rules_def
  using hd_in_set by fastforce

lemma replaced_guarded: "policy_replaced chain cid desired old new \<Longrightarrow> guarded chain cid new"
  by (erule policy_replaced_own) (auto simp: guarded_def)

text \<open>A container that takes an address from another keeps its own drop: the rules that go are made for the
  other container.\<close>

lemma losers_other:
  assumes "i \<in> ran (losers N (chainPrefix @ cid) keys els)"
  shows "i \<noteq> cid"
proof -
  obtain m k v where m: "m \<noteq> chainPrefix @ cid" "mapped N els k = Some v" "vd_Chain v = m"
    "i = drop (length chainPrefix) m"
    using assms by (auto simp: ran_def losers_def loses_address_def split: if_splits)
  then obtain e where "containerMappingVerdict N e = Inr v"
    by (auto simp: mapped_def split: option.splits sum.splits)
  from containerMappingVerdict_owned [OF this] m(3) obtain j where "m = chainPrefix @ j"
    by (auto simp: containerIDFromChainName_iff)
  with m(1,4) show ?thesis by simp
qed

lemma addresses_guarded:
  assumes "addresses_replaced N (ch_Name chain) keys old new" "ch_Name chain = chainPrefix @ cid" "guarded chain cid old"
  shows "guarded chain cid new"
proof -
  let ?n = "ch_Name chain"
  obtain d where d: "d \<in> set (rs_rules old ?n)" "is_drop_for chain cid d" using assms(3) by (auto simp: guarded_def)
  then obtain ch rules where old: "rs_chains old ?n = Some (ch, rules)" "d \<in> set rules"
    by (cases "rs_chains old ?n") (auto simp: rs_rules_def)
  obtain els where q: "chains_quarantined (losers N ?n keys els) old new"
    using assms(1) by (auto simp: addresses_replaced_def)
  have own: "losers N ?n keys els ?n = None" by (simp add: losers_def loses_address_def)
  from spec [OF q [unfolded chains_quarantined_def], of ?n] old(1) own obtain rules' where
    new: "rs_chains new ?n = Some (ch, rules')"
    "rules' = (if owned_name ?n then filter (\<lambda>r. ru_UserData r \<notin> ran (losers N ?n keys els)) rules else rules)"
    by (auto simp: quarantined_def)
  have "ru_UserData d \<notin> ran (losers N ?n keys els)"
    using d(2) losers_other [of "ru_UserData d" N cid keys els] assms(2) by (auto simp: is_drop_for_def)
  with new old(2) d(2) show ?thesis by (auto simp: guarded_def rs_rules_def)
qed

section \<open>Sequencing\<close>

lemma bind_stepE:
  assumes "bind_step f g s = (s', r)"
  obtains (fails) e where "f s = (s', Inl e)" "r = Inl e"
  | (runs) s1 a where "f s = (s1, Inr a)" "g a s1 = (s', r)"
  using assms by (auto simp: bind_step_def split: prod.splits sum.splits)

lemma gen_wrapE:
  assumes "gen_wrap msg f s = (s', r)"
  obtains (fails) e where "f s = (s', Inl e)" "r = Inl (Wrap msg e)" | (runs) x where "f s = (s', Inr x)" "r = Inr x"
  using assms by (auto simp: gen_wrap_def split: prod.splits sum.splits)

lemma unit_step_eq: "unit_step f s = (s', r) \<longleftrightarrow> (\<exists>e. f s = (s', e) \<and> r = (case e of None \<Rightarrow> Inr () | Some e \<Rightarrow> Inl e))"
  by (cases "f s"; cases "snd (f s)") (auto simp: unit_step_def)

lemma on_tx_fst: "on_tx f w = (w', r) \<Longrightarrow> fst w' = fst w"
  by (auto simp: on_tx_def split: prod.splits)

section \<open>Installing the policy\<close>

text \<open>A run of \<open>apply_policy\<close>: it stops before the firewall is touched, while it is replaced, or after.\<close>

lemma apply_policy_cases:
  assumes "apply_policy En ctxErr container contName labels sc chain rulesCfg (c, t) = ((c', t'), r)"
  obtains (reset) e where "c' = c" "r = Inl e"
  | (rules) e t1 t2 where "policy_rules En container contName labels sc chain rulesCfg (c, t1) = ((c', t2), Inl e)" "r = Inl e"
  | (ended) e t1 desired est where "policy_rules En container contName labels sc chain rulesCfg (c, t1) = ((c', t'), Inr (desired, est))"
      "ctxErr = Some e" "r = Inl e"
  | (failed) e t1 c2 desired est err where
      "policy_rules En container contName labels sc chain rulesCfg (c, t1) = ((c2, t'), Inr (desired, est))" "ctxErr = None"
      "replaceContainerPolicy (en_firewall En) (en_order En) chain (ir_ID container) desired c2 = (c', Some err)" "r = Inl e"
  | (replaced) t1 c2 t2 desired est err where "resetContainerPolicy (ir_ID container) t = (t1, None)" "ctxErr = None"
      "policy_rules En container contName labels sc chain rulesCfg (c, t1) = ((c2, t2), Inr (desired, est))"
      "replaceContainerPolicy (en_firewall En) (en_order En) chain (ir_ID container) desired c2 = (c', None)"
      "finalizeContainerPolicy (ir_ID container) (en_order En (remdups est)) t2 = (t', err)" "err = None \<longleftrightarrow> r = Inr ()"
proof -
  let ?P = "policy_rules En container contName labels sc chain rulesCfg"
  let ?R = "replaceContainerPolicy (en_firewall En) (en_order En) chain (ir_ID container)"
  note def = assms [unfolded apply_policy_def Let_def]
  obtain t1 e1 where reset: "resetContainerPolicy (ir_ID container) t = (t1, e1)" by force
  have r1: "on_tx (unit_step (resetContainerPolicy (ir_ID container))) (c, t) =
      ((c, t1), case e1 of None \<Rightarrow> Inr () | Some e \<Rightarrow> Inl e)"
    using reset by (simp add: on_tx_def unit_step_def split: option.splits)
  show ?thesis
  proof (cases e1)
    case (Some e)
    with def r1 show ?thesis by (intro that(1) [of e]) (auto simp: bind_step_def)
  next
    case e1: None
    obtain c2 t2 r2 where rules: "?P (c, t1) = ((c2, t2), r2)" by (metis surj_pair)
    show ?thesis
    proof (cases r2)
      case (Inl e)
      with def r1 e1 rules show ?thesis by (intro that(2) [of t1 t2 e]) (auto simp: bind_step_def)
    next
      case (Inr x)
      obtain desired est where x: "x = (desired, est)" by force
      show ?thesis
      proof (cases ctxErr)
        case (Some e)
        with def r1 e1 rules Inr x show ?thesis by (intro that(3) [of t1 desired est e]) (auto simp: bind_step_def)
      next
        case ctx: None
        obtain c3 e3 where rep: "?R desired c2 = (c3, e3)" by force
        show ?thesis
        proof (cases e3)
          case (Some e)
          with def r1 e1 rules Inr x ctx rep show ?thesis
            by (intro that(4) [of t1 c2 desired est e]) (auto simp: bind_step_def gen_wrap_def on_client_def unit_step_def)
        next
          case None
          obtain t4 e4 where fin: "finalizeContainerPolicy (ir_ID container) (en_order En (remdups est)) t2 = (t4, e4)" by force
          with def r1 e1 rules Inr x ctx rep None reset show ?thesis
            by (intro that(5) [of t1 c2 t2 desired est e4])
              (auto simp: bind_step_def gen_wrap_def on_client_def on_tx_def unit_step_def split: option.splits)
        qed
      qed
    qed
  qed
qed

text \<open>The metadata as it is before the policy's rules are generated: the container is written, what its former
  policy left is gone.\<close>

definition policy_reset :: "string \<Rightarrow> tables \<Rightarrow> tables" where
  "policy_reset cid a = a\<lparr>t_est := filter (\<lambda>(s, d). s \<noteq> cid) (t_est a), t_waiting := filter (\<lambda>(s, r). s \<noteq> cid) (t_waiting a)\<rparr>"

lemma resetContainerPolicy_spec: "tx_spec fk (resetContainerPolicy cid) (\<lambda>k a b. b = policy_reset cid a)"
  unfolding resetContainerPolicy_def
  by (rule edit_spec_mono [OF edit_spec_Cons [OF statement_spec edit_spec_Cons [OF statement_spec edit_spec_Nil]]])
    (auto simp: DeleteWaitingContainerRules_def DeleteSourceEstContainers_def policy_reset_def)

abbreviation "write_metadata ctxErr cid name service addrs \<equiv> in_transaction ctxErr (st_seq
  [replaceContainerMetadata cid name service addrs, wrap_step ''error committing container metadata'' tx_Commit])"

lemma write_metadata_ok:
  assumes "write_metadata ctxErr cid name service addrs E = (E', None)" "keys_ok (sq_tables E)"
  shows "metadata_written cid name service (map snd addrs) (sq_tables E) (sq_tables E')"
proof -
  have "in_transaction ctxErr (st_seq [replaceContainerMetadata cid name service addrs, tx_Commit]) E = (E', None)"
    using assms(1) by (auto simp: in_transaction_def wrap_step_def split: prod.splits option.splits sum.splits)
  from in_transaction_spec [OF replaceContainerMetadata_spec this] assms(2) show ?thesis by blast
qed

lemma reset_tables:
  assumes "db_Begin ctxErr E = (E1, Inr t)" "resetContainerPolicy cid t = (t1, None)"
  shows "tx_tables t1 = policy_reset cid (sq_tables E)"
proof -
  have "tx_ok (sq_fk E) t" "tx_tables t = sq_tables E" using db_Begin_cases [OF assms(1)] by auto
  then show ?thesis using tx_spec_run [OF resetContainerPolicy_spec _ _ assms(2)] by (auto simp: tx_ok_def)
qed

context firewall_client
begin

text \<open>Whatever \<open>apply_policy\<close> returns, the ruleset is as it was or the policy is replaced as a whole; when it
  succeeds, by the rules that were generated, which decide in the kernel what they were shown to decide.\<close>

lemma generated_rules:
  assumes F: "en_firewall En = F" and c: "ok c" "staged c = Some (committed c)" and chain: "ch_Table chain = Some filterTable"
    and rules: "policy_rules En container contName labels sc chain rulesCfg (c, t) = ((c', t'), Inr (desired, est))"
  shows "ok c'" "committed c' = committed c" "\<And>b. staged c' = Some b \<Longrightarrow> sets_queued (committed c') b"
    "\<forall>r \<in> set desired. ru_Table r = Some filterTable" "live (staged c') \<Longrightarrow> fresh_rules (committed c') desired"
proof -
  have st: "(\<lambda>w. ok (fst w) \<and> committed (fst w) = committed c) (c, t)"
    "(\<lambda>w. \<forall>a. staged (fst w) = Some a \<longrightarrow> sets_queued (committed c) a) (c, t)"
    using c by simp_all
  note q = quietlyD [OF policy_rules_quiet [OF chain F] st rules]
  show "ok c'" "committed c' = committed c" using q(1) by simp_all
  show "\<And>b. staged c' = Some b \<Longrightarrow> sets_queued (committed c') b" using q(1,2) by auto
  show "\<forall>r \<in> set desired. ru_Table r = Some filterTable" using q(3) by (auto simp: filter_rules_def)
  show "live (staged c') \<Longrightarrow> fresh_rules (committed c') desired" using q(1,4) by auto
qed

lemma apply_policy_ok:
  assumes F: "en_firewall En = F" and c: "ok c" "staged c = Some (committed c)"
    and ord: "reorders (en_order En)" and chain: "ch_Table chain = Some filterTable"
    and run: "apply_policy En ctxErr container contName labels sc chain rulesCfg (c, t) = ((c', t'), r)"
  shows "ok c'" "committed c' = committed c \<and> r \<noteq> Inr () \<or>
      (\<exists>desired. policy_replaced chain (ir_ID container) desired (committed c) (committed c'))"
    "r = Inr () \<Longrightarrow> \<exists>t1 c2 t2 desired est. resetContainerPolicy (ir_ID container) t = (t1, None) \<and>
      policy_rules En container contName labels sc chain rulesCfg (c, t1) = ((c2, t2), Inr (desired, est)) \<and>
      committed c2 = committed c \<and> policy_replaced chain (ir_ID container) desired (committed c) (committed c') \<and>
      (\<forall>V. (\<forall>a. staged c2 = Some a \<longrightarrow> decides (\<lambda>ch u. True) V a desired) \<longrightarrow>
         policy_decides chain (ir_ID container) V (committed c) (committed c'))"
proof -
  note gen = generated_rules [OF F c chain]
  have replace: "ok c3 \<and> (e \<noteq> None \<longrightarrow> committed c3 = committed c) \<and>
      (e = None \<longrightarrow> policy_replaced chain (ir_ID container) desired (committed c) (committed c3))"
    if rules: "policy_rules En container contName labels sc chain rulesCfg (c, t1) = ((c2, t2), Inr (desired, est))"
      and rep: "replaceContainerPolicy (en_firewall En) (en_order En) chain (ir_ID container) desired c2 = (c3, e)"
    for t1 c2 t2 desired est c3 e
    using replaceContainerPolicy_ok [OF gen(1,3) [OF rules] ord chain gen(4) [OF rules] rep [unfolded F]] gen(2) [OF rules]
    by simp
  have stopped: "ok c2 \<and> committed c2 = committed c"
    if "policy_rules En container contName labels sc chain rulesCfg (c, t1) = ((c2, t2), r)" for t1 c2 t2 r
  proof -
    have st: "(\<lambda>w. ok (fst w) \<and> committed (fst w) = committed c) (c, t1)"
      "(\<lambda>w. \<forall>a. staged (fst w) = Some a \<longrightarrow> sets_queued (committed c) a) (c, t1)"
      using c by simp_all
    from quietlyD(1) [OF policy_rules_quiet [OF chain F] st that] show ?thesis by simp
  qed
  have "ok c' \<and> (committed c' = committed c \<and> r \<noteq> Inr () \<or>
      (\<exists>desired. policy_replaced chain (ir_ID container) desired (committed c) (committed c')))"
    using run
  proof (cases rule: apply_policy_cases)
    case (rules e t1 t2)
    then show ?thesis using stopped [OF rules(1)] by simp
  next
    case (ended e t1 desired est)
    then show ?thesis using stopped [OF ended(1)] by simp
  next
    case (failed e t1 c2 desired est err)
    then show ?thesis using replace [OF failed(1,3)] by simp
  next
    case (replaced t1 c2 t2 desired est err)
    then show ?thesis using replace [OF replaced(3,4)] by blast
  qed (use c(1) in simp)
  then show "ok c'" "committed c' = committed c \<and> r \<noteq> Inr () \<or>
      (\<exists>desired. policy_replaced chain (ir_ID container) desired (committed c) (committed c'))" by blast+
  assume r: "r = Inr ()"
  from run show "\<exists>t1 c2 t2 desired est. resetContainerPolicy (ir_ID container) t = (t1, None) \<and>
      policy_rules En container contName labels sc chain rulesCfg (c, t1) = ((c2, t2), Inr (desired, est)) \<and>
      committed c2 = committed c \<and> policy_replaced chain (ir_ID container) desired (committed c) (committed c') \<and>
      (\<forall>V. (\<forall>a. staged c2 = Some a \<longrightarrow> decides (\<lambda>ch u. True) V a desired) \<longrightarrow>
         policy_decides chain (ir_ID container) V (committed c) (committed c'))"
  proof (cases rule: apply_policy_cases)
    case (replaced t1 c2 t2 desired est err)
    note g = gen [OF replaced(3)]
    have "policy_decides chain (ir_ID container) V (committed c) (committed c')"
      if "\<And>a. staged c2 = Some a \<Longrightarrow> decides (\<lambda>ch u. True) V a desired" for V
      using replaced_policy_decides [OF g(1,3) ord chain g(4) g(5) that replaced(4) [unfolded F]] g(2) by simp
    then show ?thesis using replaced(1,3) g(2) replace [OF replaced(3,4)] by blast
  qed (use r in simp_all)
qed

lemma install_policy_cases:
  assumes "install_policy En ctxErr container contName labels sc chain (c, E) = ((c', E'), e)"
  obtains (mapping) x where "replaceContainerAddressMappings (en_firewall En) (en_netlink En) (en_order En)
        (map (address_mapping (ch_Name chain)) (desired_addresses (en_order En) (ms_addrs sc))) (ch_Name chain) c = (c', Some x)"
      "e \<noteq> None"
  | (mapped) "replaceContainerAddressMappings (en_firewall En) (en_netlink En) (en_order En)
        (map (address_mapping (ch_Name chain)) (desired_addresses (en_order En) (ms_addrs sc))) (ch_Name chain) c = (c', None)"
      "e \<noteq> None"
  | (policy) c1 E1 rulesCfg where "replaceContainerAddressMappings (en_firewall En) (en_netlink En) (en_order En)
        (map (address_mapping (ch_Name chain)) (desired_addresses (en_order En) (ms_addrs sc))) (ch_Name chain) c = (c1, None)"
      "write_metadata ctxErr (ir_ID container) contName (label labels composeServiceLabel) (ms_addrs sc) E = (E1, None)"
      "ms_err sc = None" "parse_rules En labels = Inr rulesCfg"
      "with_transaction ctxErr (apply_policy En ctxErr container contName labels sc chain rulesCfg) (c1, E1) = ((c', E'), e)"
proof -
  define M where "M = write_metadata ctxErr (ir_ID container) contName (label labels composeServiceLabel) (ms_addrs sc)"
  note def = assms [unfolded install_policy_def reconcileContainerMetadata_def, folded M_def]
  obtain c1 e1 where map: "replaceContainerAddressMappings (en_firewall En) (en_netlink En) (en_order En)
      (map (address_mapping (ch_Name chain)) (desired_addresses (en_order En) (ms_addrs sc))) (ch_Name chain) c = (c1, e1)" by force
  obtain E1 e2 where meta: "M E = (E1, e2)" by force
  show ?thesis
  proof (cases e1)
    case (Some x)
    with def map show ?thesis by (intro that(1) [of x]) (auto simp: wrap_step_def)
  next
    case e1: None
    show ?thesis
    proof (cases "e2 = None \<and> ms_err sc = None \<and> (\<exists>rulesCfg. parse_rules En labels = Inr rulesCfg)")
      case False
      with def map e1 meta show ?thesis
        by (intro that(2)) (auto simp: wrap_step_def split: option.splits sum.splits)
    next
      case True
      then obtain rulesCfg where "parse_rules En labels = Inr rulesCfg" by blast
      with True def map e1 meta show ?thesis
        by (intro that(3) [of c1 E1 rulesCfg]) (auto simp: wrap_step_def M_def split: prod.splits option.splits)
    qed
  qed
qed

lemma with_transaction_cases:
  assumes "with_transaction ctxErr body (c, E) = ((c', E'), e)"
  obtains (begins) "c' = c" "e \<noteq> None"
  | (ran) E1 t t' r where "db_Begin ctxErr E = (E1, Inr t)" "E' = tx_engine (fst (tx_Rollback t'))"
      "body (c, t) = ((c', t'), r)" "e = (case r of Inl e \<Rightarrow> Some e | Inr _ \<Rightarrow> None)"
proof (cases "db_Begin ctxErr E")
  case (Pair E1 b)
  show ?thesis
  proof (cases b)
    case (Inl x)
    with Pair assms show ?thesis by (intro that(1)) (auto simp: with_transaction_def)
  next
    case (Inr t)
    obtain c2 t2 r where "body (c, t) = ((c2, t2), r)" by (metis surj_pair)
    with Pair Inr assms show ?thesis by (intro that(2) [of E1 t t2 r]) (auto simp: with_transaction_def)
  qed
qed

text \<open>A policy in place: the rules were generated on a client in sync with the ruleset, and decide in the
  kernel what they were shown to decide there.\<close>

abbreviation "policy_installed En container contName labels sc chain rulesCfg T k k' \<equiv>
  \<exists>c1 t1 c2 t2 desired est. ok c1 \<and> committed c1 = k \<and> staged c1 = Some k \<and> tx_tables t1 = T \<and>
    policy_rules En container contName labels sc chain rulesCfg (c1, t1) = ((c2, t2), Inr (desired, est)) \<and>
    policy_replaced chain (ir_ID container) desired k k' \<and>
    (\<forall>V. (\<forall>a. staged c2 = Some a \<longrightarrow> decides (\<lambda>ch u. True) V a desired) \<longrightarrow>
       policy_decides chain (ir_ID container) V k k')"

lemma install_policy_ok:
  assumes F: "en_firewall En = F" and c: "ok c" "staged c = Some (committed c)"
    and d: "\<And>s els. rs_sets (committed c) containerAddrSetName = Some (s, els) \<Longrightarrow> distinct (map el_Key els)"
    and ord: "reorders (en_order En)" and chain: "ch_Table chain = Some filterTable" "ch_Name chain = chainPrefix @ ir_ID container"
    and guard: "guarded chain (ir_ID container) (committed c)"
    and run: "install_policy En ctxErr container contName labels sc chain (c, E) = ((c', E'), e)"
  shows "ok c' \<and> guarded chain (ir_ID container) (committed c') \<and>
    (e = None \<longrightarrow> ms_err sc = None \<and> (\<exists>rulesCfg M k. parse_rules En labels = Inr rulesCfg \<and>
       (keys_ok (sq_tables E) \<longrightarrow> metadata_written (ir_ID container) contName (label labels composeServiceLabel) (map snd (ms_addrs sc))
          (sq_tables E) M) \<and>
       addresses_replaced (en_netlink En) (ch_Name chain) (desired_addresses (en_order En) (ms_addrs sc)) (committed c) k \<and>
       policy_installed En container contName labels sc chain rulesCfg (policy_reset (ir_ID container) M) k (committed c')))"
proof -
  let ?keys = "desired_addresses (en_order En) (ms_addrs sc)"
  let ?map = "replaceContainerAddressMappings (en_firewall En) (en_netlink En) (en_order En)
    (map (address_mapping (ch_Name chain)) ?keys) (ch_Name chain)"
  have m: "ok c1 \<and> (e1 \<noteq> None \<longrightarrow> committed c1 = committed c) \<and> (e1 = None \<longrightarrow> staged c1 = Some (committed c1) \<and>
      addresses_replaced (en_netlink En) (ch_Name chain) ?keys (committed c) (committed c1))"
    if "?map c = (c1, e1)" for c1 e1
    using replaceContainerAddressMappings_ok [OF c(1) _ ord _ that [unfolded F]] c(2) d by auto
  have g: "guarded chain (ir_ID container) (committed c1)" if "?map c = (c1, None)" for c1
    using addresses_guarded [OF _ chain(2) guard] m [OF that] by blast
  from run show ?thesis
  proof (cases rule: install_policy_cases)
    case (mapping x)
    with m [OF mapping(1)] guard show ?thesis by auto
  next
    case mapped
    with m [OF mapped(1)] g [OF mapped(1)] show ?thesis by auto
  next
    case (policy c1 E1 rulesCfg)
    note g1 = g [OF policy(1)] and m1 = m [OF policy(1)]
    from policy(5) show ?thesis
    proof (cases rule: with_transaction_cases)
      case begins
      with g1 m1 show ?thesis by auto
    next
      case (ran E2 t t' r)
      have c1: "ok c1" "staged c1 = Some (committed c1)" using m1 by simp_all
      note a = apply_policy_ok [OF F c1 ord chain(1) ran(3)]
      have "guarded chain (ir_ID container) (committed c')" using a(2) g1 replaced_guarded by auto
      moreover have "policy_installed En container contName labels sc chain rulesCfg
          (policy_reset (ir_ID container) (sq_tables E1)) (committed c1) (committed c')"
        if "e = None"
      proof -
        have "r = Inr ()" using ran(4) that by (cases r) simp_all
        from a(3) [OF this] show ?thesis using reset_tables [OF ran(1)] c1 by blast
      qed
      ultimately show ?thesis using a(1) policy(3,4) m1 write_metadata_ok [OF policy(2)] by blast
    qed
  qed
qed

section \<open>Creation\<close>

lemma policy_failed_error: "policy_failed En rc chain cid contName retErr w = (w', e) \<Longrightarrow> e \<noteq> None"
  by (auto simp: policy_failed_def split: if_splits prod.splits option.splits)

text \<open>The chain is what it was, or is guarded; the quarantine leaves nothing but the drop.\<close>

lemma policy_failed_ok:
  assumes F: "en_firewall En = F" and c: "ok c" and ord: "reorders (en_order En)" and chain: "ch_Table chain = Some filterTable"
    and cause: "\<not> (\<exists>x. rc_cause rc = Some x \<and> errors_is x ErrContainerDeleted)"
    and guard: "guarded chain cid (committed c)"
    and run: "policy_failed En rc chain cid contName retErr (c, E) = ((c', E'), e)"
  shows "guarded chain cid (committed c') \<and> e \<noteq> None"
proof -
  have e: "e \<noteq> None" using run by (rule policy_failed_error)
  show ?thesis
  proof (cases "rc_stopping rc")
    case True
    with run guard e show ?thesis by (simp add: policy_failed_def)
  next
    case False
    obtain w err where q: "quarantineContainerPolicy En (rc_cleanup rc) chain cid (c, E) = (w, err)" by (metis surj_pair)
    with False run cause have w: "w = (c', E')"
      by (auto simp: policy_failed_def split: option.splits)
    obtain c1 e1 where new: "fc_New F c = (c1, e1)" by force
    note n = New_ok [OF c new]
    show ?thesis
    proof (cases e1)
      case (Some x)
      with q new w F n guard e show ?thesis by (auto simp: quarantineContainerPolicy_def)
    next
      case None
      have st: "staged c1 = Some (committed c1)" using New_staged [OF c] new None by simp
      obtain c2 e2 where rep: "replaceContainerPolicy F (en_order En) chain cid [] c1 = (c2, e2)" by force
      have "c' = c2" using q new w F None rep by (auto simp: quarantineContainerPolicy_def split: prod.splits)
      moreover have "guarded chain cid (committed c2)"
        using replaceContainerPolicy_ok [OF _ _ ord chain _ rep] n st guard replaced_guarded by (cases e2) auto
      ultimately show ?thesis using e by simp
    qed
  qed
qed

lemma createContainerRules_ok:
  fixes container :: inspectResponse
  defines "chain \<equiv> regular_chain (chainPrefix @ ir_ID container)"
  assumes F: "en_firewall En = F" and M: "marshal_ok (en_marshal En)" and ord: "reorders (en_order En)" and c: "ok c"
    and d: "\<And>s els. rs_sets (committed c) containerAddrSetName = Some (s, els) \<Longrightarrow> distinct (map el_Key els)"
    and run: "createContainerRules En rc container quarantineFirst (c, E) = ((c', E'), e)"
  shows "(\<not> (\<exists>x. rc_cause rc = Some x \<and> errors_is x ErrContainerDeleted) \<longrightarrow>
      committed c' = committed c \<and> e \<noteq> None \<or> guarded chain (ir_ID container) (committed c')) \<and>
    (e = None \<longrightarrow> (\<exists>labels ns rulesCfg k1 M k2. ir_Labels container = Some labels \<and> ir_NetworkSettings container = Some ns \<and>
       parse_rules En labels = Inr rulesCfg \<and>
       (let sc = container_scope labels (label labels composeProjectLabel) (ns_Networks ns) in ms_err sc = None \<and>
          floor_installed chain (ir_ID container) quarantineFirst (committed c) k1 \<and>
          addresses_replaced (en_netlink En) (ch_Name chain) (desired_addresses (en_order En) (ms_addrs sc)) k1 k2 \<and>
          (keys_ok (sq_tables E) \<longrightarrow> metadata_written (ir_ID container) (stripName (ir_Name container))
             (label labels composeServiceLabel) (map snd (ms_addrs sc)) (sq_tables E) M) \<and>
          policy_installed En container (stripName (ir_Name container)) labels sc chain rulesCfg
            (policy_reset (ir_ID container) M) k2 (committed c'))))"
proof -
  let ?cid = "ir_ID container"
  have chain: "regular_chain (buildChainName (stripName (ir_Name container)) ?cid) = chain"
    "ch_Table chain = Some filterTable" "ch_Name chain = chainPrefix @ ?cid"
    by (simp_all add: chain_def buildChainName_def regular_chain_def)
  note def = run [unfolded createContainerRules_def Let_def chain(1) F]
  show ?thesis
  proof (cases "ir_NetworkSettings container")
    case None
    with def show ?thesis by auto
  next
    case ns: (Some ns)
    show ?thesis
    proof (cases "length (ns_Networks ns) = 1 \<and> map_of (ns_Networks ns) hostNetworkName \<noteq> None")
      case True
      with def ns show ?thesis by auto
    next
      case host: False
      show ?thesis
      proof (cases "ir_Labels container")
        case None
        with def ns host show ?thesis by (auto split: if_splits)
      next
        case labels: (Some labels)
        let ?sc = "container_scope labels (label labels composeProjectLabel) (ns_Networks ns)"
        obtain c1 e1 where new: "fc_New F c = (c1, e1)" by force
        note n = New_ok [OF c new]
        show ?thesis
        proof (cases e1)
          case (Some x)
          with def ns host labels new n show ?thesis by (auto split: if_splits)
        next
          case e1: None
          have st: "staged c1 = Some (committed c1)" using New_staged [OF c] new e1 by simp
          obtain c2 e2 where floor: "ensureContainerDropPolicy F (en_marshal En) chain ?cid quarantineFirst c1 = (c2, e2)" by force
          note f = ensureContainerDropPolicy_ok [OF conjunct1 [OF n] st M chain(2) floor]
          show ?thesis
          proof (cases e2)
            case (Some x)
            with def ns host labels new e1 floor f n show ?thesis by (auto split: if_splits)
          next
            case e2: None
            with f n have fl: "ok c2" "staged c2 = Some (committed c2)"
              "floor_installed chain ?cid quarantineFirst (committed c) (committed c2)" by simp_all
            have d2: "distinct (map el_Key els)" if "rs_sets (committed c2) containerAddrSetName = Some (s, els)" for s els
            proof -
              have "rs_sets (committed c2) containerAddrSetName = rs_sets (committed c) containerAddrSetName"
                using fl(3) by (simp add: floor_installed_def Let_def)
              with that d show ?thesis by simp
            qed
            obtain c3 E3 e3 where inst: "install_policy En (rc_err rc) container (stripName (ir_Name container)) labels ?sc chain
                (c2, E) = ((c3, E3), e3)" by (metis surj_pair)
            have i: "ok c3 \<and> guarded chain ?cid (committed c3) \<and>
                (e3 = None \<longrightarrow> ms_err ?sc = None \<and> (\<exists>rulesCfg M k. parse_rules En labels = Inr rulesCfg \<and>
                  (keys_ok (sq_tables E) \<longrightarrow> metadata_written ?cid (stripName (ir_Name container))
                    (label labels composeServiceLabel) (map snd (ms_addrs ?sc)) (sq_tables E) M) \<and>
                  addresses_replaced (en_netlink En) (ch_Name chain) (desired_addresses (en_order En) (ms_addrs ?sc))
                    (committed c2) k \<and>
                  policy_installed En container (stripName (ir_Name container)) labels ?sc chain rulesCfg (policy_reset ?cid M) k (committed c3)))"
              by (rule install_policy_ok [OF F fl(1,2) _ ord chain(2,3) floor_guarded [OF fl(3)] inst]) (rule d2)
            show ?thesis
            proof (cases e3)
              case None
              have "(c', E') = (c3, E3)" "e = None"
                using def ns host labels new e1 floor e2 inst None by (auto split: if_splits)
              with i None fl(3) ns labels show ?thesis unfolding Let_def by blast
            next
              case (Some x)
              have fail: "policy_failed En rc chain ?cid (stripName (ir_Name container)) x (c3, E3) = ((c', E'), e)"
                using def ns host labels new e1 floor e2 inst Some by (auto split: if_splits)
              from policy_failed_ok [OF F _ ord chain(2) _ _ fail] policy_failed_error [OF fail] i show ?thesis by blast
            qed
          qed
        qed
      qed
    qed
  qed
qed

end

section \<open>Examples\<close>

text \<open>A host on which the container already has its chain, and a daemon that knows no container.\<close>

definition sample_environment :: "mockFirewall environment" where
  "sample_environment = \<lparr>en_firewall = mockFirewall_client, en_netlink = ref_netlink, en_netipx = ref_netipx,
     en_marshal = ref_marshal,
     en_docker = \<lparr>dk_ContainerList = (\<lambda>_. Inr []), dk_ContainerInspect = (\<lambda>_. Inl (Msg ''no such container'')), dk_IsNotFound = (\<lambda>_. True)\<rparr>,
     en_gob = \<lparr>gob_Encode = (\<lambda>_. Inl (Msg ''not encoded'')), gob_Decode = (\<lambda>_. Inl (Msg ''not decoded''))\<rparr>,
     en_yaml = (\<lambda>_. Inl (Msg ''invalid document'')), en_order = (\<lambda>ks. ks)\<rparr>"

definition sample_context :: run_context where
  "sample_context = \<lparr>rc_err = None, rc_cause = None, rc_stopping = False, rc_cleanup = None\<rparr>"

definition sample_container :: inspectResponse where
  "sample_container = \<lparr>ir_ID = sample_id, ir_Name = ''/web'', ir_Running = Some True,
     ir_Labels = Some [(enabledLabel, ''true''), (rulesLabel, ''output'')],
     ir_NetworkSettings = Some \<lparr>ns_Networks = [(''front'', Some \<lparr>ep_NetworkID = ''n1'', ep_IPAddress = Addr4 167772162,
       ep_Gateway = Addr4 167772161, ep_GlobalIPv6Address = AddrZero, ep_GwPriority = 0\<rparr>)], ns_Ports = []\<rparr>\<rparr>"

section \<open>Properties\<close>

text \<open>C2: Creating a container's policy fails closed, whichever nftables client runs it and whatever Docker, the
  database, the configuration and the client's own errors do in between. If creation returns at all without having touched
  the ruleset it reports an error; in every other case no packet falls off the end of the container's chain, whatever
  the sets hold by then: the chain decides it, and what no rule admits is dropped. The one exception is a container
  whose deletion has overtaken its creation, as its chain is then deleted.\<close>

theorem createContainerRules_fails_closed:
  assumes "firewall_client F ok committed staged" "en_firewall En = F" "marshal_ok (en_marshal En)" "reorders (en_order En)" "ok c"
    and "\<forall>s els. rs_sets (committed c) containerAddrSetName = Some (s, els) \<longrightarrow> distinct (map el_Key els)"
    and "\<forall>x. rc_cause rc = Some x \<longrightarrow> \<not> errors_is x ErrContainerDeleted"
    and "createContainerRules En rc container quarantineFirst (c, E) = ((c', E'), e)"
  shows "committed c' = committed c \<and> e \<noteq> None \<or>
    (\<forall>rs p. run_chain rs p (rs_rules (committed c') (buildChainName (ir_Name container) (ir_ID container))) \<noteq> Fallthrough)"
  using firewall_client.createContainerRules_ok [OF assms(1-5) _ assms(8)] assms(6,7)
    guarded_closed [of "regular_chain (chainPrefix @ ir_ID container)"]
  by (auto simp: buildChainName_def regular_chain_def)

lemma map_host_guarded: "rs_rules (mock_committed map_host) (buildChainName n sample_id) = [own_drop]"
  by (simp add: rs_rules_def mock_committed_def mock_ruleset_def map_host_def container_host_def docker_host_def buildChainName_def)

theorem createContainerRules_fails_closed_witness:
  "\<exists>m E e. createContainerRules sample_environment sample_context sample_container True (map_host, host_engine) = ((m, E), e) \<and>
     run_chain (mock_committed m) sample_packet (rs_rules (mock_committed m) (buildChainName ''/web'' sample_id)) \<noteq> Fallthrough"
proof -
  obtain m E e where run: "createContainerRules sample_environment sample_context sample_container True (map_host, host_engine) = ((m, E), e)"
    by (metis surj_pair)
  have "is_drop_for own_chain sample_id own_drop"
    by (simp add: own_drop_def is_drop_for_def createDropRule_def is_counter_def strip_counter_def logExpr_def dropVerdict_def)
  then have "run_chain rs p [own_drop] \<noteq> Fallthrough" for rs p
    using drop_in_chain [of own_drop "[own_drop]"] by simp
  moreover have env: "en_firewall sample_environment = mockFirewall_client" "marshal_ok (en_marshal sample_environment)"
    "reorders (en_order sample_environment)"
    by (simp_all add: sample_environment_def ref_marshal_ok identity_reorders)
  moreover have "mock_committed m = mock_committed map_host \<and> e \<noteq> None \<or>
    (\<forall>rs p. run_chain rs p (rs_rules (mock_committed m) (buildChainName (ir_Name sample_container) (ir_ID sample_container))) \<noteq> Fallthrough)"
    by (rule createContainerRules_fails_closed [OF mock.firewall_client_axioms env map_host_ok(1) map_host_distinct _ run])
      (simp add: sample_context_def)
  ultimately show ?thesis using run map_host_guarded by (auto simp: sample_container_def)
qed

end
