(* ===== verification/Enforced.thy ===== *)
theory Enforced
  imports Waiting_Correct Destinations_Correct Create_Correct
begin

text \<open>
  The whole of creating a container's policy, from the labels to the kernel's decisions: the configuration is
  validated, its destinations are resolved against the running containers, rules are generated for the
  addresses Docker reports, staged, and committed in place of the old ones. \<open>promised\<close> reads off what the policy
  decides; a successful creation installs rules that decide just that.
\<close>

section \<open>Decisions in sequence\<close>

definition or_else :: "decision \<Rightarrow> decision \<Rightarrow> decision" where
  "or_else V W n p = (case V n p of None \<Rightarrow> W n p | Some v \<Rightarrow> Some v)"

text \<open>Rules generated between two states of the client.\<close>

definition step_decides :: "ruleset option \<Rightarrow> ruleset option \<Rightarrow> decision \<Rightarrow> nft_rule list \<Rightarrow> bool" where
  "step_decides st st' V rules \<longleftrightarrow>
     (\<forall>rs'. st' = Some rs' \<longrightarrow> set_step st rs' \<and> decides (\<lambda>ch u. True) V rs' rules)"

lemma step_decides_trans:
  assumes "step_decides st st1 V xs" "step_decides st1 st2 W ys"
  shows "step_decides st st2 (or_else V W) (xs @ ys)"
  unfolding step_decides_def
proof (intro allI impI)
  fix rs2 assume "st2 = Some rs2"
  with assms(2) have 2: "set_step st1 rs2" "decides (\<lambda>ch u. True) W rs2 ys" by (auto simp: step_decides_def)
  then obtain rs1 where rs1: "st1 = Some rs1" "sets_extend rs1 rs2" unfolding set_step_def by blast
  with assms(1) have 1: "set_step st rs1" "decides (\<lambda>ch u. True) V rs1 xs" by (auto simp: step_decides_def)
  have "decides (\<lambda>ch u. True) (or_else V W) rs2 (xs @ ys)"
    using decides_append [OF decides_extend [OF 1(2) rs1(2)] 2(2)] by (rule decides_cong) (simp add: or_else_def)
  then show "set_step st rs2 \<and> decides (\<lambda>ch u. True) (or_else V W) rs2 (xs @ ys)"
    using 1(1) 2(1) rs1(1) set_step_trans by auto
qed

lemma generates_step:
  assumes "generates ok committed staged A V f" "ok c" "f c = (c', Inr rules)"
  shows "ok c' \<and> committed c' = committed c \<and> step_decides (staged c) (staged c') V rules"
  using generatesD [OF assms] decides_mono [of A V _ _ "\<lambda>ch u. True"] unfolding step_decides_def by blast

section \<open>What keeps the selectors well-formed\<close>

definition config_ok :: "config \<Rightarrow> bool" where
  "config_ok cfg \<longleftrightarrow> mapping_cfg_ok (c_MappedPorts cfg) \<and> (\<forall>r \<in> set (c_Output cfg). output_cfg_ok r)"

text \<open>What the YAML decoder returns: selectors read by their text formats, and fields that no document sets
  left alone.\<close>

definition yaml_ok :: "(string \<Rightarrow> config result) \<Rightarrow> bool" where
  "yaml_ok decode \<longleftrightarrow> (\<forall>s cfg. decode s = Inr cfg \<longrightarrow> (\<forall>r \<in> set (c_Output cfg). cfg_selectors_wf r) \<and>
     \<not> v_drop (e_Verdict (m_External (c_MappedPorts cfg))) \<and>
     (\<forall>a \<in> set (slice_elems (e_IPs (m_External (c_MappedPorts cfg)))). aor_wf a))"

lemma expand_rule_selectors: "r' \<in> set (expand_rule r) \<Longrightarrow> cfg_selectors_wf r' = cfg_selectors_wf r"
  by (auto simp: expand_rule_def cfg_selectors_wf_def split: option.splits)

lemma normalized_config_ok:
  assumes "yaml_ok decode" "decode s = Inr cfg" "normalizeConfig cfg = Inr cfg'"
  shows "config_ok cfg'"
proof -
  have v: "validateConfig cfg = None" and cfg': "cfg' = cfg\<lparr>c_Output := concat (map expand_rule (c_Output cfg))\<rparr>"
    using assms(3) by (simp_all add: normalize_output)
  have y: "\<forall>r \<in> set (c_Output cfg). cfg_selectors_wf r" "\<not> v_drop (e_Verdict (m_External (c_MappedPorts cfg)))"
    "\<forall>a \<in> set (slice_elems (e_IPs (m_External (c_MappedPorts cfg)))). aor_wf a"
    using assms(1,2) unfolding yaml_ok_def by blast+
  have "output_cfg_ok r'" if r: "r \<in> set (c_Output cfg)" "r' \<in> set (expand_rule r)" for r r'
  proof -
    have "rule_accepted r'" using expand_rule_accepted [OF _ r(2)] v r(1) by (simp add: validateConfig_None)
    then show ?thesis using expand_rule_selectors [OF r(2)] y(1) r(1) by (simp add: output_cfg_ok_def rule_accepted_def)
  qed
  then show ?thesis using y v by (auto simp: config_ok_def mapping_cfg_ok_def cfg' validateConfig_None)
qed

lemma recorded_rule_ok: "output_cfg_ok (recorded_rule project src choice cfg) = output_cfg_ok cfg"
  by (simp add: recorded_rule_def output_cfg_ok_def cfg_selectors_wf_def)

lemma populated_ok:
  assumes "populated D G listed T cid project networks cfg po" "output_cfg_ok cfg"
  shows "output_cfg_ok (po_rule po)"
proof (cases "r_Container cfg = []")
  case True
  with assms show ?thesis by (simp add: populated_def)
next
  case False
  obtain src choice where po: "po_rule po = generated_rule (known_candidate T choice) (recorded_rule project src choice cfg)"
    "\<forall>c. known_candidate T choice = Some c \<longrightarrow> (\<exists>ep. cd_network c = Some ep \<and> addr_Is4 (ep_IPAddress ep))"
    using assms(1) unfolding populated_def if_not_P [OF False] by (elim conjE exE) (rule that, simp_all)
  have "output_cfg_ok (recorded_rule project src choice cfg)" using assms(2) recorded_rule_ok by simp
  with po show ?thesis
    using aor_of_addr_wf by (cases "known_candidate T choice")
      (auto simp: generated_rule_def output_cfg_ok_def cfg_selectors_wf_def slice_elems_def)
qed

lemma populated_all_ok:
  "list_all2 (populated D G listed T cid project networks) cfgs pos \<Longrightarrow> \<forall>r \<in> set cfgs. output_cfg_ok r \<Longrightarrow>
   \<forall>r \<in> set (map po_rule pos). output_cfg_ok r"
  by (induction rule: list_all2_induct) (auto intro: populated_ok)

section \<open>Addresses\<close>

lemma collected_addresses_ok: "collectManagedIPv4Addresses networks = (addrs, e) \<Longrightarrow> addresses_ok addrs"
proof -
  assume run: "collectManagedIPv4Addresses networks = (addrs, e)"
  have "\<exists>w. a = be32 w" if "fst (managed_address networks name) = Some (n, a)" for n a name
  proof -
    have "\<exists>addr. addr_Is4 addr \<and> addr_As4 addr = Inr a"
      using that by (auto simp: managed_address_def Let_def split: option.splits sum.splits if_splits)
    then show ?thesis using Is4_cases by fastforce
  qed
  then show ?thesis using run by (fastforce simp: collectManagedIPv4Addresses_def Let_def addresses_ok_def set_map_filter)
qed

lemma scope_addresses_ok: "addresses_ok (ms_addrs (container_scope labels project attached))"
  by (auto simp: container_scope_def Let_def split: prod.splits intro: collected_addresses_ok)

lemma update_subset: "set (AList.update k v xs) \<subseteq> insert (k, v) (set xs)"
  by (induction xs) auto

lemma cloneNetworks_subset: "set (cloneNetworks attached) \<subseteq> set attached"
proof -
  have "set (fold (\<lambda>(name, endpoint) cloned. AList.update name endpoint cloned) xs acc) \<subseteq> set xs \<union> set acc" for xs acc
  proof (induction xs arbitrary: acc)
    case (Cons x xs)
    from Cons [of "AList.update (fst x) (snd x) acc"] update_subset [of "fst x" "snd x" acc] show ?case
      by (auto simp: split_beta)
  qed simp
  from this [of attached "[]"] show ?thesis by (simp add: cloneNetworks_def)
qed

lemma findNetwork_entry: "findNetwork n project xs = Some x \<Longrightarrow> x \<in> set xs"
  by (auto simp: findNetwork_def split: option.splits dest!: map_of_SomeD)

lemma resolved_subset:
  assumes "resolveManagedNetworks labels project attached = (explicit, Inr selected)"
  shows "set selected \<subseteq> set attached"
proof (cases "map_of labels managedNetworksLabel")
  case None
  with assms cloneNetworks_subset show ?thesis by (auto simp: resolveManagedNetworks_def)
next
  case (Some raw)
  with assms obtain names nes where n: "list_all2 (resolves project attached) names nes" "selected = present nes"
    by (auto simp: resolveManagedNetworks_def resolve_parts_Inr selectable_def)
  from n(1) have "set (present nes) \<subseteq> set attached"
    by (induction rule: list_all2_induct) (auto simp: resolves_def dest: findNetwork_entry)
  with n(2) show ?thesis by simp
qed

lemma scope_networks_subset: "set (ms_networks (container_scope labels project attached)) \<subseteq> set attached"
proof -
  obtain ex res where r: "resolveManagedNetworks labels project attached = (ex, res)" by force
  show ?thesis
    using cloneNetworks_subset [of attached] resolved_subset [of labels project attached ex] r
    by (auto simp: container_scope_def Let_def split: prod.splits sum.splits option.splits)
qed

lemma gateways_ok_subset: "gateways_ok attached \<Longrightarrow> set managed \<subseteq> set attached \<Longrightarrow> gateways_ok managed"
  unfolding gateways_ok_def by blast

section \<open>Published ports\<close>

definition published_decision :: "mappedPorts \<Rightarrow> nft_chain \<Rightarrow> managed_scope \<Rightarrow> networkSettings \<Rightarrow> decision" where
  "published_decision cfg chain sc ns n p =
     (case published_network (ms_explicit sc) (ns_Networks ns) of
        Inl e \<Rightarrow> None
      | Inr pub \<Rightarrow> mapped_decision cfg chain (ms_networks sc) (ms_addrs sc) pub (ns_Ports ns) (published_names (ms_networks sc) pub) n p)"

context firewall_client
begin

lemma published_generates:
  assumes L: "netipx_ok L" and cfg: "mapping_cfg_ok cfg" and addrs: "addresses_ok (ms_addrs sc)"
    and chain: "ch_Table chain = Some filterTable" "ch_Name chain \<noteq> whalewallChainName"
    and ns: "ir_NetworkSettings container = Some ns" and ports: "bindings_ok (ns_Ports ns)" and gw: "gateways_ok (ms_networks sc)"
  shows "generates ok committed staged (mapping_owner chain (ir_ID container)) (published_decision cfg chain sc ns)
    (createPortMappingRules F L container contName cfg (ms_networks sc) (ms_addrs sc) chain (ms_explicit sc))"
proof (cases "published_network (ms_explicit sc) (ns_Networks ns)")
  case (Inr pub)
  then show ?thesis
    using createPortMappingRules_generates [OF L cfg addrs chain ns ports gw Inr] by (simp add: published_decision_def [abs_def])
next
  case (Inl e)
  show ?thesis
  proof (cases "has_mapped_ports ns")
    case False
    then have "createPortMappingRules F L container contName cfg (ms_networks sc) (ms_addrs sc) chain (ms_explicit sc) = (\<lambda>c. (c, Inr []))"
      by (simp add: createPortMappingRules_def ns fun_eq_iff)
    then show ?thesis using Inl by (simp add: generates_cong [OF generates_none] published_decision_def)
  next
    case True
    then have "createPortMappingRules F L container contName cfg (ms_networks sc) (ms_addrs sc) chain (ms_explicit sc) = (\<lambda>c. (c, Inl e))"
      using Inl by (simp add: createPortMappingRules_def ns fun_eq_iff)
    then show ?thesis by (simp add: generates_error)
  qed
qed

end

section \<open>The decision of a policy\<close>

text \<open>The records that wait for a container under any of its names, each once.\<close>

definition rows_waiting :: "tables \<Rightarrow> string \<Rightarrow> string \<Rightarrow> GetWaitingContainerRulesRow list \<Rightarrow> bool" where
  "rows_waiting T name service rows \<longleftrightarrow>
     distinct (map row_key rows) \<and>
     set rows \<subseteq> (\<Union>n \<in> set ([name] @ containerAliases name service). set (rows_for T n)) \<and>
     row_key ` set rows = row_key ` (\<Union>n \<in> set ([name] @ containerAliases name service). set (rows_for T n))"

definition waiting_decisions ::
    "'c environment \<Rightarrow> inspectResponse \<Rightarrow> string \<Rightarrow> managed_scope \<Rightarrow> nft_chain \<Rightarrow> GetWaitingContainerRulesRow list \<Rightarrow> decision" where
  "waiting_decisions En container project sc chain rows n p =
     first_some (\<lambda>row. waiting_decision (en_docker En) (en_gob En) (ir_ID container) project (ms_networks sc) chain row n p) rows"

definition output_decisions :: "string \<Rightarrow> managed_scope \<Rightarrow> nft_chain \<Rightarrow> ruleConfig list \<Rightarrow> decision" where
  "output_decisions project sc chain cfgs n p = first_some (\<lambda>cfg. output_decision project (ms_addrs sc) chain cfg n p) cfgs"

text \<open>The waiting rules of other containers come first, then the container's own output rules with their
  destinations resolved, then its published ports.\<close>

definition promised ::
    "'c environment \<Rightarrow> inspectResponse \<Rightarrow> networkSettings \<Rightarrow> string \<Rightarrow> labels \<Rightarrow> managed_scope \<Rightarrow> nft_chain \<Rightarrow> config option \<Rightarrow>
     tables \<Rightarrow> decision \<Rightarrow> bool" where
  "promised En container ns name labels sc chain rulesCfg T V \<longleftrightarrow>
     (let project = label labels composeProjectLabel; service = label labels composeServiceLabel in
      case rulesCfg of
        None \<Rightarrow> \<exists>rows. rows_waiting T name service rows \<and> V = waiting_decisions En container project sc chain rows
      | Some cfg \<Rightarrow>
          \<exists>listed pos rows.
            (list_ex (\<lambda>r. r_Container r \<noteq> []) (c_Output cfg) \<longrightarrow> dk_ContainerList (en_docker En) None = Inr listed) \<and>
            list_all2 (populated (en_docker En) (en_gob En) listed T (ir_ID container) project (ms_networks sc)) (c_Output cfg) pos \<and>
            rows_waiting (T\<lparr>t_waiting := fold insert_row (concat (map po_rows pos)) (t_waiting T)\<rparr>) name service rows \<and>
            V = or_else (waiting_decisions En container project sc chain rows)
              (or_else (output_decisions project sc chain (map po_rule pos)) (published_decision (c_MappedPorts cfg) chain sc ns)))"

lemma bind_step_Inr: "bind_step f g s = (s', Inr b) \<longleftrightarrow> (\<exists>s1 a. f s = (s1, Inr a) \<and> g a s1 = (s', Inr b))"
  by (auto simp: bind_step_def split: prod.splits sum.splits)

lemma gen_wrap_Inr: "gen_wrap msg f s = (s', Inr x) \<longleftrightarrow> f s = (s', Inr x)"
  by (auto simp: gen_wrap_def split: prod.splits sum.splits)

lemma on_tx_Inr: "on_tx f (c, t) = ((c', t'), r) \<longleftrightarrow> c' = c \<and> f t = (t', r)"
  by (auto simp: on_tx_def split: prod.splits)

lemma on_client_Inr: "on_client f (c, t) = ((c', t'), r) \<longleftrightarrow> t' = t \<and> f c = (c', r)"
  by (auto simp: on_client_def split: prod.splits)

context firewall_client
begin

lemma waiting_step:
  assumes "netipx_ok L" "gob_ok G" "ch_Table chain = Some filterTable" "ok c"
    "createWaitingContainerRules F L D G cid name service project networks chain (c, t) = ((c', t'), Inr (rules, est))"
  shows "ok c' \<and> committed c' = committed c \<and> tx_tables t' = tx_tables t \<and> (\<exists>rows. rows_waiting (tx_tables t) name service rows \<and>
    step_decides (staged c) (staged c') (\<lambda>n p. first_some (\<lambda>row. waiting_decision D G cid project networks chain row n p) rows) rules)"
  using createWaitingContainerRules_ok [OF assms] unfolding rows_waiting_def step_decides_def by blast

lemma policy_rules_promised:
  assumes F: "en_firewall En = F" and L: "netipx_ok (en_netipx En)" and G: "gob_ok (en_gob En)"
    and chain: "ch_Table chain = Some filterTable" "ch_Name chain \<noteq> whalewallChainName"
    and cfg: "\<And>cfg. rulesCfg = Some cfg \<Longrightarrow> config_ok cfg"
    and ns: "ir_NetworkSettings container = Some ns" "bindings_ok (ns_Ports ns)" "gateways_ok (ms_networks sc)"
    and addrs: "addresses_ok (ms_addrs sc)" and c: "ok c"
    and run: "policy_rules En container name labels sc chain rulesCfg (c, t) = ((c', t'), Inr (desired, est))"
  shows "\<exists>V. promised En container ns name labels sc chain rulesCfg (tx_tables t) V \<and> step_decides (staged c) (staged c') V desired"
proof (cases rulesCfg)
  case None
  obtain waitingEst where w: "createWaitingContainerRules F (en_netipx En) (en_docker En) (en_gob En) (ir_ID container) name
      (label labels composeServiceLabel) (label labels composeProjectLabel) (ms_networks sc) chain (c, t) = ((c', t'), Inr (desired, waitingEst))"
    using run by (auto simp: policy_rules_def Let_def None F bind_step_Inr gen_wrap_Inr)
  from waiting_step [OF L G chain(1) c w] show ?thesis
    by (auto simp: promised_def None waiting_decisions_def [abs_def])
next
  case (Some cf)
  have ok: "mapping_cfg_ok (c_MappedPorts cf)" "\<forall>r \<in> set (c_Output cf). output_cfg_ok r"
    using cfg [OF Some] by (simp_all add: config_ok_def)
  let ?project = "label labels composeProjectLabel" and ?cid = "ir_ID container"
  obtain t1 cfgs est1 c1 t2 ws est2 c2 t3 os ps where
    pop: "populateOutputRules (en_docker En) (en_gob En) cf ?cid ?project (ms_networks sc) t = (t1, Inr (cfgs, est1))"
    and w: "createWaitingContainerRules F (en_netipx En) (en_docker En) (en_gob En) ?cid name
      (label labels composeServiceLabel) ?project (ms_networks sc) chain (c, t1) = ((c1, t2), Inr (ws, est2))"
    and outs: "createOutputRules F (en_netipx En) cfgs ?project (ms_addrs sc) chain name ?cid (c1, t2) = ((c2, t3), Inr os)"
    and ports: "createPortMappingRules F (en_netipx En) container name (c_MappedPorts cf) (ms_networks sc) (ms_addrs sc) chain
      (ms_explicit sc) c2 = (c', Inr ps)" and desired: "desired = ws @ os @ ps"
    using run by (auto simp: policy_rules_def Let_def Some F bind_step_Inr gen_wrap_Inr on_tx_Inr on_client_Inr)
  from populateOutputRules_ok [OF pop] obtain listed pos where
    p: "list_ex (\<lambda>r. r_Container r \<noteq> []) (c_Output cf) \<longrightarrow> dk_ContainerList (en_docker En) None = Inr listed"
      "list_all2 (populated (en_docker En) (en_gob En) listed (tx_tables t) ?cid ?project (ms_networks sc)) (c_Output cf) pos"
      "cfgs = map po_rule pos"
      "tx_tables t1 = (tx_tables t)\<lparr>t_waiting := fold insert_row (concat (map po_rows pos)) (t_waiting (tx_tables t))\<rparr>" by blast
  from waiting_step [OF L G chain(1) c w] obtain rows where
    1: "ok c1" "rows_waiting (tx_tables t1) name (label labels composeServiceLabel) rows"
      "step_decides (staged c) (staged c1) (waiting_decisions En container ?project sc chain rows) ws"
    unfolding waiting_decisions_def [abs_def] by blast
  have cfgs: "\<forall>cfg \<in> set cfgs. output_cfg_ok cfg" using populated_all_ok [OF p(2) ok(2)] p(3) by simp
  have 2: "ok c2" "step_decides (staged c1) (staged c2) (output_decisions ?project sc chain cfgs) os"
    using generates_step [OF createOutputRules_generates [OF L cfgs chain(1) addrs] _ outs] 1(1)
    unfolding output_decisions_def [abs_def] by simp_all
  have 3: "step_decides (staged c2) (staged c') (published_decision (c_MappedPorts cf) chain sc ns) ps"
    using generates_step [OF published_generates [OF L ok(1) addrs chain ns] 2(1) ports] by blast
  have "step_decides (staged c) (staged c') (or_else (waiting_decisions En container ?project sc chain rows)
      (or_else (output_decisions ?project sc chain (map po_rule pos)) (published_decision (c_MappedPorts cf) chain sc ns))) desired"
    unfolding desired p(3) [symmetric] by (rule step_decides_trans [OF 1(3) step_decides_trans [OF 2(2) 3]])
  moreover have "promised En container ns name labels sc chain rulesCfg (tx_tables t)
      (or_else (waiting_decisions En container ?project sc chain rows)
        (or_else (output_decisions ?project sc chain (map po_rule pos)) (published_decision (c_MappedPorts cf) chain sc ns)))"
    unfolding promised_def Let_def Some option.case using p(1,2) 1(2) [unfolded p(4)] by blast
  ultimately show ?thesis by blast
qed

end

section \<open>Properties\<close>

text \<open>What is relied on of the libraries, and of what Docker reports of a container: published ports have
  numbers, and gateways of IPv4 networks are IPv4 addresses.\<close>

definition environment_ok :: "'c environment \<Rightarrow> bool" where
  "environment_ok En \<longleftrightarrow> netipx_ok (en_netipx En) \<and> marshal_ok (en_marshal En) \<and> reorders (en_order En) \<and>
     gob_ok (en_gob En) \<and> yaml_ok (en_yaml En)"

definition reported_ok :: "inspectResponse \<Rightarrow> bool" where
  "reported_ok container \<longleftrightarrow> (\<forall>ns. ir_NetworkSettings container = Some ns \<longrightarrow>
     bindings_ok (ns_Ports ns) \<and> gateways_ok (ns_Networks ns))"

lemma parsed_config_ok:
  assumes "environment_ok En" "parse_rules En labels = Inr (Some cfg)"
  shows "config_ok cfg"
proof -
  obtain s raw where "en_yaml En s = Inr raw" "normalizeConfig raw = Inr cfg"
    using assms(2) by (auto simp: parse_rules_def split: option.splits sum.splits)
  then show ?thesis using normalized_config_ok assms(1) by (auto simp: environment_ok_def)
qed

context firewall_client
begin

lemma createContainerRules_promised:
  assumes "en_firewall En = F" "environment_ok En" "reported_ok container" "ok c"
    and "\<forall>s els. rs_sets (committed c) containerAddrSetName = Some (s, els) \<longrightarrow> distinct (map el_Key els)"
    and "keys_ok (sq_tables E)"
    and "createContainerRules En rc container quarantineFirst (c, E) = ((c', E'), None)"
  shows "\<exists>labels ns rulesCfg M V k1 k2. ir_Labels container = Some labels \<and> ir_NetworkSettings container = Some ns \<and>
    parse_rules En labels = Inr rulesCfg \<and>
    (let name = stripName (ir_Name container); cid = ir_ID container; chain = regular_chain (buildChainName name cid);
         sc = container_scope labels (label labels composeProjectLabel) (ns_Networks ns)
     in ms_err sc = None \<and>
        metadata_written cid name (label labels composeServiceLabel) (map snd (ms_addrs sc)) (sq_tables E) M \<and>
        floor_installed chain cid quarantineFirst (committed c) k1 \<and>
        addresses_replaced (en_netlink En) (ch_Name chain) (desired_addresses (en_order En) (ms_addrs sc)) k1 k2 \<and>
        promised En container ns name labels sc chain rulesCfg (policy_reset cid M) V \<and>
        policy_decides chain cid V k2 (committed c'))"
proof -
  let ?cid = "ir_ID container" and ?name = "stripName (ir_Name container)"
  have env: "netipx_ok (en_netipx En)" "marshal_ok (en_marshal En)" "reorders (en_order En)" "gob_ok (en_gob En)"
    using assms(2) by (simp_all add: environment_ok_def)
  have chain: "regular_chain (chainPrefix @ ?cid) = regular_chain (buildChainName ?name ?cid)"
    "ch_Table (regular_chain (buildChainName ?name ?cid)) = Some filterTable"
    "ch_Name (regular_chain (buildChainName ?name ?cid)) \<noteq> whalewallChainName"
    by (simp_all add: buildChainName_def regular_chain_def own_names)
  from createContainerRules_ok [OF assms(1) env(2,3) assms(4) _ assms(7)] assms(5)
  obtain labels ns rulesCfg k1 M k2 where r: "ir_Labels container = Some labels" "ir_NetworkSettings container = Some ns"
    "parse_rules En labels = Inr rulesCfg"
    "let sc = container_scope labels (label labels composeProjectLabel) (ns_Networks ns); chain = regular_chain (buildChainName ?name ?cid)
     in ms_err sc = None \<and>
        floor_installed chain ?cid quarantineFirst (committed c) k1 \<and>
        addresses_replaced (en_netlink En) (ch_Name chain) (desired_addresses (en_order En) (ms_addrs sc)) k1 k2 \<and>
        (keys_ok (sq_tables E) \<longrightarrow> metadata_written ?cid ?name (label labels composeServiceLabel) (map snd (ms_addrs sc)) (sq_tables E) M) \<and>
        policy_installed En container ?name labels sc chain rulesCfg (policy_reset ?cid M) k2 (committed c')"
    unfolding chain(1) Let_def by blast
  let ?sc = "container_scope labels (label labels composeProjectLabel) (ns_Networks ns)"
  let ?chain = "regular_chain (buildChainName ?name ?cid)"
  from r(4) obtain c1 t1 c2 t2 desired est where p: "ok c1" "staged c1 = Some k2" "tx_tables t1 = policy_reset ?cid M"
    "policy_rules En container ?name labels ?sc ?chain rulesCfg (c1, t1) = ((c2, t2), Inr (desired, est))"
    "\<And>V. (\<forall>a. staged c2 = Some a \<longrightarrow> decides (\<lambda>ch u. True) V a desired) \<Longrightarrow> policy_decides ?chain ?cid V k2 (committed c')"
    unfolding Let_def by blast
  have gw: "bindings_ok (ns_Ports ns)" "gateways_ok (ms_networks ?sc)"
    using assms(3) r(2) gateways_ok_subset [OF _ scope_networks_subset] by (auto simp: reported_ok_def)
  have cfg: "config_ok cfg" if "rulesCfg = Some cfg" for cfg
    using parsed_config_ok [OF assms(2)] r(3) that by simp
  from policy_rules_promised [OF assms(1) env(1,4) chain(2,3) cfg r(2) gw scope_addresses_ok p(1,4)] obtain V where
    V: "promised En container ns ?name labels ?sc ?chain rulesCfg (policy_reset ?cid M) V" "step_decides (staged c1) (staged c2) V desired"
    unfolding p(3) by blast
  have "policy_decides ?chain ?cid V k2 (committed c')" using V(2) by (intro p(5)) (auto simp: step_decides_def)
  with r V(1) assms(6) show ?thesis unfolding Let_def by blast
qed

end

text \<open>C1: A successful creation enforces the configured policy, end to end and whichever nftables client runs it. The labels
  parse and validate, the scope is sound, and the metadata is written; the container's drop floor and its addresses
  are installed; and then the kernel decides every new connection in the container's chain as the policy
  promises: by the rules other containers have recorded for it, by its own output rules with their
  destinations resolved, by its published ports, each with the addresses Docker reports, and with a drop when
  none of them applies. In the chains of other containers the policy's rules come before those that stay
  there. This goes for the rules as committed, with their sets under their final names.\<close>

theorem createContainerRules_enforces:
  assumes "firewall_client F ok committed staged" "en_firewall En = F" "environment_ok En" "reported_ok container" "ok c"
    and "\<forall>s els. rs_sets (committed c) containerAddrSetName = Some (s, els) \<longrightarrow> distinct (map el_Key els)"
    and "keys_ok (sq_tables E)"
    and "createContainerRules En rc container quarantineFirst (c, E) = ((c', E'), None)"
  shows "\<exists>labels ns rulesCfg M V k1 k2. ir_Labels container = Some labels \<and> ir_NetworkSettings container = Some ns \<and>
    parse_rules En labels = Inr rulesCfg \<and>
    (let name = stripName (ir_Name container); cid = ir_ID container; chain = regular_chain (buildChainName name cid);
         sc = container_scope labels (label labels composeProjectLabel) (ns_Networks ns)
     in ms_err sc = None \<and>
        metadata_written cid name (label labels composeServiceLabel) (map snd (ms_addrs sc)) (sq_tables E) M \<and>
        floor_installed chain cid quarantineFirst (committed c) k1 \<and>
        addresses_replaced (en_netlink En) (ch_Name chain) (desired_addresses (en_order En) (ms_addrs sc)) k1 k2 \<and>
        promised En container ns name labels sc chain rulesCfg (policy_reset cid M) V \<and>
        policy_decides chain cid V k2 (committed c'))"
  using firewall_client.createContainerRules_promised [OF assms] .

section \<open>An example\<close>

text \<open>A container whose policy lets nothing out.\<close>

definition closed_config :: config where
  "closed_config = \<lparr>c_MappedPorts = web_mapping, c_Output = []\<rparr>"

definition web_environment :: "mockFirewall environment" where
  "web_environment = sample_environment\<lparr>en_docker := db_daemon, en_gob := any_codec,
     en_yaml := (\<lambda>_. Inr closed_config)\<rparr>"

definition new_id :: string where "new_id = replicate 64 (CHR ''b'')"

definition new_container :: inspectResponse where
  "new_container = sample_container\<lparr>ir_ID := new_id\<rparr>"

definition db_engine :: sqlite where
  "db_engine = \<lparr>sq_tables = empty_tables\<lparr>t_containers := [(''d'', ''db'')]\<rparr>, sq_fk = True, sq_faults = []\<rparr>"

lemma web_creation_runs:
  "snd (createContainerRules web_environment sample_context new_container True (map_host, db_engine)) = None"
  by code_simp

lemma web_environment_ok: "environment_ok web_environment"
  by (simp add: environment_ok_def web_environment_def sample_environment_def ref_netipx_ok ref_marshal_ok identity_reorders
      gob_ok_def any_codec_def yaml_ok_def closed_config_def web_mapping_def zero_verdict_def slice_elems_def)

theorem createContainerRules_enforces_witness:
  "\<exists>m E V k. createContainerRules web_environment sample_context new_container True (map_host, db_engine) = ((m, E), None) \<and>
     promised web_environment new_container (the (ir_NetworkSettings new_container)) ''web'' (the (ir_Labels new_container))
       (container_scope (the (ir_Labels new_container)) [] (ns_Networks (the (ir_NetworkSettings new_container))))
       (regular_chain (buildChainName ''web'' new_id))
       (Some closed_config) (policy_reset new_id k) V \<and>
     run_chain (mock_committed m) sample_packet (rs_rules (mock_committed m) (buildChainName ''web'' new_id)) =
       Decided (case V (buildChainName ''web'' new_id) sample_packet of Some v \<Rightarrow> v | None \<Rightarrow> drop_verdict)"
proof -
  obtain m E where run: "createContainerRules web_environment sample_context new_container True (map_host, db_engine) = ((m, E), None)"
    using web_creation_runs by (metis surj_pair snd_conv)
  have env: "en_firewall web_environment = mockFirewall_client"
    by (simp add: web_environment_def sample_environment_def)
  have rep: "reported_ok new_container" and keys: "keys_ok (sq_tables db_engine)"
    by (auto simp: reported_ok_def new_container_def sample_container_def bindings_ok_def gateways_ok_def keys_ok_def db_engine_def empty_tables_def)
  have parse: "parse_rules web_environment (the (ir_Labels new_container)) =
      Inr (Some closed_config)" by code_simp
  have sel: "ir_ID new_container = new_id" "stripName (ir_Name new_container) = ''web''"
    "label (the (ir_Labels new_container)) composeProjectLabel = []" "p_ctstate sample_packet = stateNew" by code_simp+
  note enf = createContainerRules_enforces [OF mock.firewall_client_axioms env web_environment_ok rep map_host_ok(1) map_host_distinct keys run]
  then obtain labels ns rulesCfg M V k1 k2 where e: "ir_Labels new_container = Some labels" "ir_NetworkSettings new_container = Some ns"
    "parse_rules web_environment labels = Inr rulesCfg"
    "promised web_environment new_container ns ''web'' labels (container_scope labels (label labels composeProjectLabel) (ns_Networks ns))
       (regular_chain (buildChainName ''web'' new_id)) rulesCfg (policy_reset new_id M) V"
    "policy_decides (regular_chain (buildChainName ''web'' new_id)) new_id V k2 (mock_committed m)"
    unfolding Let_def sel(1,2) by blast
  have own: "run_chain (mock_committed m) sample_packet (rs_rules (mock_committed m) (buildChainName ''web'' new_id)) =
      Decided (case V (buildChainName ''web'' new_id) sample_packet of Some v \<Rightarrow> v | None \<Rightarrow> drop_verdict)"
    using e(5) sel(4) by (simp add: policy_decides_def regular_chain_def)
  have l: "labels = the (ir_Labels new_container)" "ns = the (ir_NetworkSettings new_container)" using e(1,2) by simp_all
  have "rulesCfg = Some closed_config" using e(3) parse unfolding l by simp
  with e(4) own run sel(3) show ?thesis unfolding l by metis
qed

end
