(* ===== verification/Spec2Isabelle.thy ===== *)
theory Spec2Isabelle
  imports Rule_Yaml Intervals Mock_Firewall Rule_Gen Sample_Policy Network_Scope Prepared_Queries Sample_Deletion Tracker_Correct Port_Mapping_Correct Watch Command Enforced
begin

text \<open>
  Verification library for \<open>whalewall\<close>, a manager of nftables rules for Docker containers: it reads a
  policy from the labels of each container, turns it into rules in a chain of that container, and keeps
  kernel, database and running containers in line. The library models the Go code under \<open>src/\<close>, and
  its theorems say what the rules decide, what is left behind when something fails, and what the concurrent parts
  guarantee.

  \<^bold>\<open>The program and its parts.\<close> A Docker event reaches the dispatcher (\<open>events.go\<close>), which hands it
  to the lane of its container; the lane's handler (\<open>manager.go\<close>) asks one of two workers to create or
  delete the container's rules and waits for the answer. Creation (\<open>create.go\<close>) and deletion
  (\<open>delete.go\<close>) of one container exclude each other through the container tracker
  (\<open>container/container.go\<close>); both talk to the kernel through the interface \<open>firewallClient\<close>, whose
  edits are queued and flushed as one batch, and to SQLite through generated queries (\<open>database/\<close>). A ticker,
  a reconnect and the start of the manager reconcile everything: the base rules are repaired
  (\<open>base.go\<close>), what is gone is cleaned up, what runs is synchronised (\<open>sync.go\<close>).

  Two stores are transactional: the kernel's ruleset and the database. \<open>Steps\<close> has the fallible steps the
  program strings together over them, and the locale \<open>transactional\<close>, which \<open>Edit_Specs\<close> obtains for every
  firewall client (a \<open>sublocale\<close>) and \<open>Database_Correct\<close> for the database. The locale
  \<open>firewall_client\<close> is the contract of the kernel: what a read sees, what a queued edit leads to, and that
  a flush commits all of the batch or none of it. Everything the program does to the kernel is proved for any
  client that keeps the contract, and \<open>Mock_Firewall\<close> proves that the program's own in-memory client keeps it.

  \<^bold>\<open>Theories and sources.\<close>

  \<^item> Foundations: \<open>Prelude\<close> (machine integers, Go errors as values, the parts of \<open>strings\<close>,
    \<open>strconv\<close> and \<open>unicode/utf8\<close> in use), \<open>Go_Net\<close> (\<open>net/netip\<close>), \<open>Steps\<close>, \<open>Nft\<close>
    (the library's data as far as the program uses it, and the package variables of \<open>base.go\<close> and
    \<open>create.go\<close>).
  \<^item> The policy language: \<open>Config\<close> (\<open>config.go\<close>: records, text formats, validation, normalisation), and
    \<open>Rule_Yaml\<close> (the inspection of YAML nodes in \<open>UnmarshalYAML\<close>). \<open>Intervals\<close> has
    the merging of address and port intervals (\<open>create.go\<close>).
  \<^item> The firewall client: \<open>Firewall_Client\<close> (\<open>mock-nftables.go\<close>, the interface, and its contract),
    \<open>Edit_Specs\<close>, \<open>Mock_Firewall\<close> (\<open>mock-nftables.go\<close>, the implementation).
  \<^item> Rules: \<open>Packet_Spec\<close> (what an nftables rule does with a packet; specification only), \<open>Rule_Gen\<close>
    (\<open>createNFTRules\<close>), \<open>Rules_Equal\<close> (\<open>rules.go\<close>), \<open>Address_Map\<close> (who owns a chain or a map
    entry).
  \<^item> The base rules: \<open>Base_Rules\<close>, \<open>Base_Correct\<close> (\<open>base.go\<close>), with the host of \<open>Sample_Host\<close>.
  \<^item> A container's policy: \<open>Policy\<close>, \<open>Policy_Correct\<close>, \<open>Address_Policy\<close> (the floor, the replacement of
    rules and of addresses, \<open>create.go\<close>), with the container of \<open>Sample_Policy\<close>.
  \<^item> What a policy is made of: \<open>Network_Scope\<close> (\<open>network_scope.go\<close>), \<open>Docker\<close> (the answers of Docker
    the program reads), \<open>Port_Mapping\<close>, \<open>Output_Rules\<close>, \<open>Destinations\<close>, \<open>Create\<close>
    (\<open>create.go\<close>) and their theories \<open>Port_Mapping_Correct\<close>, \<open>Output_Correct\<close>,
    \<open>Destinations_Correct\<close>, \<open>Waiting_Correct\<close>, \<open>Create_Correct\<close>; \<open>Generated\<close>, \<open>Quiet\<close> and
    \<open>Installed\<close> carry the shared lemmas, and \<open>Enforced\<close> puts all of it together.
  \<^item> The database: \<open>Database\<close>, \<open>Database_Correct\<close> (\<open>database/sqlite/*.sql\<close>, their generated code, and
    \<open>db.go\<close>), \<open>Prepared_Queries\<close> (\<open>database/db.go\<close>, \<open>database/db_wrappers.go\<close>).
  \<^item> Removal: \<open>Deletion\<close>, \<open>Deletion_Correct\<close> (\<open>delete.go\<close>), with \<open>Sample_Deletion\<close>.
  \<^item> Concurrency and life cycle: \<open>Tracker\<close>, \<open>Tracker_Correct\<close>
    (\<open>container/container.go\<close>), \<open>Events\<close>, \<open>Events_Correct\<close> (\<open>events.go\<close>), \<open>Sync\<close>
    (\<open>sync.go\<close>), \<open>Manager\<close>, \<open>Watch\<close> (\<open>manager.go\<close>), \<open>Command\<close>
    (\<open>cmd/whalewall/main.go\<close>).

  A definition has the name of the Go function, method or type it models; a record field has the Go field's name
  with a short prefix for its struct. An error is a value of \<open>error\<close>, wrapped as the code wraps it; a loop that
  returns at the first error is \<open>st_each\<close> or a recursion over its list.

  \<^bold>\<open>What the lemmas show.\<close> Each component's theory ends in the properties that make it correct.
  The pure parts (\<open>Config\<close>, \<open>Intervals\<close>, \<open>Network_Scope\<close>, \<open>Address_Map\<close>,
  \<open>Rules_Equal\<close>) are characterised by equations or equivalences. \<open>Rule_Gen\<close> shows of every generated
  rule which packets it decides and how; \<open>Generated\<close> composes such statements (\<open>decides\<close>) over the
  functions that append the rules of many, and \<open>Output_Correct\<close>, \<open>Port_Mapping_Correct\<close> and
  \<open>Waiting_Correct\<close> each compare the result with a decision read off the configuration
  alone. \<open>Installed\<close> carries the decision over the commit, where the anonymous sets get their names and the sets of
  the old rules disappear. The theories on policies, base rules and deletion prove each batch
  atomic and say what the ruleset is afterwards; \<open>Create_Correct\<close> adds that creation fails closed, by the
  invariant \<open>guarded\<close>, and \<open>Enforced\<close> that a creation that succeeds installs the configured policy. The
  tracker and the dispatcher are step relations between atomic actions, with an invariant proved by rule
  induction, a measure that every step lowers, and progress.

  \<^bold>\<open>Parameters and assumptions.\<close> Code outside the repository is an argument of the definitions that use it,
  and a theorem names what it relies on: the kernel (\<open>firewall_client\<close>), the serialisation of expressions
  (\<open>marshal_ok\<close>), \<open>go4.org/netipx\<close> (\<open>netipx_ok\<close>), the gob codec (\<open>gob_ok\<close>), the YAML decoder
  (\<open>yaml_ok\<close>, and \<open>aliases_ok\<close> for its nodes), the driver of the database (\<open>sql_api\<close>, and in \<open>Database\<close> the faults
  with which the engine answers), and Docker (\<open>docker_client\<close>, \<open>reported_ok\<close>), whose answers within
  one operation are those of one snapshot. The order in which Go runs over a map is the parameter \<open>ord\<close>, any
  rearrangement of the keys. Contexts are arguments (\<open>run_context\<close>): whether they are cancelled and with
  which cause. In the operations on rules the tracker is the answer \<open>start\<close> to the attempt to register. The
  dereference of a nil pointer is the error \<open>GoPanic\<close>, which no Go code catches. In the ruleset a set's
  elements are those submitted. Ids and handles are counted with natural numbers: their wrap-around at
  \<open>2 ^ 32\<close> and \<open>2 ^ 64\<close> is not modelled. Addresses, ports and intervals are words of their width.

  \<^bold>\<open>Bounds.\<close> The definitions are total, but for the loop that follows the aliases of a YAML node, whose result is
  \<open>None\<close> if it does not end. The retry of a busy database counts down from the one
  hundred of the code. The inspection of YAML nodes has fuel: every level of the recursion marks a mapping that was
  not seen before, so that twice the number of nodes and four more, for a rule and for a verdict in it, are
  enough. The loops of goroutines (dispatcher lanes, tracker, \<open>watchDocker\<close>) are step relations, the serving
  workers recursions over their requests.

  \<^bold>\<open>Not modelled.\<close>

  \<^item> \<open>cmd/whalewall/seccomp.go\<close> is a table of system calls handed to a library, \<open>version.go\<close> prints build
    information; of \<open>main.go\<close> the flags, the logger, the signals and the warning about old kernels are left out.
  \<^item> \<open>mock-docker.go\<close> is a test double; \<open>wrap.go\<close> and \<open>utils.go\<close> put a timeout around each call of the
    Docker client.
  \<^item> Logging, with the log encoders of \<open>config.go\<close> and \<open>create.go\<close>; the warnings decide nothing.
  \<^item> In \<open>manager.go\<close>: constructing the manager and its channels, building the filters of the event stream, and
    \<open>Stop\<close>, which are calls of the standard library and of Docker's; the answers of the file system in
    \<open>initDB\<close> are arguments. Time is not modelled: a delay is a number, a timer a case of a \<open>select\<close>.
  \<^item> The mutexes of the manager and of the mock: each guarded operation is one step of the model.
  \<^item> SQLite itself: a query is the meaning of its text over the tables of \<open>Database\<close>.
\<close>

end
